(* ===== verification/FatPrelude.thy ===== *)
theory FatPrelude
  imports Main "HOL-Library.Word"
begin

text \<open>
  Shared vocabulary of the FatFs development: the C integer types of \<^verbatim>\<open>ff.h\<close>, the result
  codes, the little-endian loads and stores that \<^verbatim>\<open>ff.c\<close> uses on sector buffers, and the
  generic list and word lemmas every component needs.  A C pointer into a byte array is a
  list together with an index.
\<close>

unbundle bit_operations_syntax

section \<open>Integer types\<close>

type_synonym BYTE = "8 word"
type_synonym WORD = "16 word"
type_synonym DWORD = "32 word"

named_theorems geom_simps \<open>unfolding of the volume geometry\<close>
named_theorems frame_simps \<open>fields an operation leaves alone\<close>
named_theorems fat_enc \<open>encoding and decoding of FAT entries\<close>

section \<open>Result codes\<close>

datatype FRESULT =
    FR_OK | FR_DISK_ERR | FR_INT_ERR | FR_NOT_READY | FR_NO_FILE | FR_NO_PATH
  | FR_INVALID_NAME | FR_DENIED | FR_EXIST | FR_INVALID_OBJECT | FR_WRITE_PROTECTED
  | FR_INVALID_DRIVE | FR_NOT_ENABLED | FR_NO_FILESYSTEM | FR_MKFS_ABORTED | FR_TIMEOUT
  | FR_LOCKED | FR_NOT_ENOUGH_CORE | FR_TOO_MANY_OPEN_FILES | FR_INVALID_PARAMETER

datatype DRESULT = RES_OK | RES_ERROR | RES_WRPRT | RES_NOTRDY | RES_PARERR

section \<open>Constants of the configured build\<close>

text \<open>
  The build of the repository (\<^verbatim>\<open>ffconf.h\<close>) fixes 512-byte sectors, four volumes, no exFAT, no
  64-bit LBA, long file names in a heap buffer and code page 850.
\<close>

abbreviation (input) SS :: DWORD where "SS \<equiv> 512"
abbreviation (input) SZDIRE :: DWORD where "SZDIRE \<equiv> 32"
abbreviation (input) MAX_DIR :: DWORD where "MAX_DIR \<equiv> 0x200000"

abbreviation (input) FS_FAT12 :: BYTE where "FS_FAT12 \<equiv> 1"
abbreviation (input) FS_FAT16 :: BYTE where "FS_FAT16 \<equiv> 2"
abbreviation (input) FS_FAT32 :: BYTE where "FS_FAT32 \<equiv> 3"

abbreviation (input) MAX_FAT12 :: DWORD where "MAX_FAT12 \<equiv> 0xFF5"
abbreviation (input) MAX_FAT16 :: DWORD where "MAX_FAT16 \<equiv> 0xFFF5"
abbreviation (input) MAX_FAT32 :: DWORD where "MAX_FAT32 \<equiv> 0x0FFFFFF5"

abbreviation (input) DISK_ERR :: DWORD where "DISK_ERR \<equiv> 0xFFFFFFFF"

section \<open>Little-endian loads and stores\<close>

definition ld_word :: "BYTE list \<Rightarrow> nat \<Rightarrow> WORD" where
  "ld_word p k =
     (let rv = ucast (p ! (k + 1));
          rv = push_bit 8 rv OR ucast (p ! k)
      in rv)"

definition ld_dword :: "BYTE list \<Rightarrow> nat \<Rightarrow> DWORD" where
  "ld_dword p k =
     (let rv = ucast (p ! (k + 3));
          rv = push_bit 8 rv OR ucast (p ! (k + 2));
          rv = push_bit 8 rv OR ucast (p ! (k + 1));
          rv = push_bit 8 rv OR ucast (p ! k)
      in rv)"

definition st_word :: "nat \<Rightarrow> WORD \<Rightarrow> BYTE list \<Rightarrow> BYTE list" where
  "st_word k val p =
     (let p = p[k := ucast val]; val = drop_bit 8 val
      in p[k + 1 := ucast val])"

definition st_dword :: "nat \<Rightarrow> DWORD \<Rightarrow> BYTE list \<Rightarrow> BYTE list" where
  "st_dword k val p =
     (let p = p[k := ucast val]; val = drop_bit 8 val;
          p = p[k + 1 := ucast val]; val = drop_bit 8 val;
          p = p[k + 2 := ucast val]; val = drop_bit 8 val
      in p[k + 3 := ucast val])"

text \<open>\<^verbatim>\<open>memset\<close> and \<^verbatim>\<open>memcpy\<close> of the C library on a list buffer.\<close>

definition memset :: "nat \<Rightarrow> BYTE \<Rightarrow> nat \<Rightarrow> BYTE list \<Rightarrow> BYTE list" where
  "memset k c n p = take k p @ replicate n c @ drop (k + n) p"

definition memcpy :: "nat \<Rightarrow> BYTE list \<Rightarrow> BYTE list \<Rightarrow> BYTE list" where
  "memcpy k src p = take k p @ src @ drop (k + length src) p"

definition slice :: "nat \<Rightarrow> nat \<Rightarrow> BYTE list \<Rightarrow> BYTE list" where
  "slice k n p = take n (drop k p)"

section \<open>Lemmas on loads and stores\<close>

lemma length_st_word [simp]: "length (st_word k v p) = length p"
  by (simp add: st_word_def)

lemma length_st_dword [simp]: "length (st_dword k v p) = length p"
  by (simp add: st_dword_def)

lemma length_memset [simp]: "k + n \<le> length p \<Longrightarrow> length (memset k c n p) = length p"
  by (simp add: memset_def)

lemma length_memcpy [simp]: "k + length src \<le> length p \<Longrightarrow> length (memcpy k src p) = length p"
  by (simp add: memcpy_def)

lemma nth_memset:
  "k + n \<le> length p \<Longrightarrow> i < length p \<Longrightarrow>
     memset k c n p ! i = (if k \<le> i \<and> i < k + n then c else p ! i)"
  by (auto simp: memset_def nth_append min_def)

lemma nth_memcpy:
  "k + length src \<le> length p \<Longrightarrow> i < length p \<Longrightarrow>
     memcpy k src p ! i = (if k \<le> i \<and> i < k + length src then src ! (i - k) else p ! i)"
  by (auto simp: memcpy_def nth_append min_def)

lemma nth_st_word:
  "i < length p \<Longrightarrow> st_word k v p ! i =
     (if i = k + 1 then ucast (drop_bit 8 v) else if i = k then ucast v else p ! i)"
  by (auto simp: st_word_def nth_list_update)

lemma nth_st_dword:
  "i < length p \<Longrightarrow> st_dword k v p ! i =
     (if i = k + 3 then ucast (drop_bit 24 v) else if i = k + 2 then ucast (drop_bit 16 v)
      else if i = k + 1 then ucast (drop_bit 8 v) else if i = k then ucast v else p ! i)"
  by (auto simp: st_dword_def nth_list_update)

lemma unat_less32: "unat (x :: DWORD) < 2 ^ 32"
  using unsigned_less [of x] by simp

lemma unat_of_nat32: "n < 2 ^ 32 \<Longrightarrow> unat (of_nat n :: DWORD) = n"
  by (simp add: unat_of_nat)

lemma bytes_of_word:
  "push_bit 8 (ucast (ucast (drop_bit 8 v) :: BYTE)) OR ucast (ucast v :: BYTE) = (v :: WORD)"
  by (rule bit_word_eqI) (auto simp: bit_simps)

lemma bytes_of_dword:
  fixes v :: DWORD
  shows "((push_bit 24 (ucast (ucast (drop_bit 24 v) :: BYTE))
     OR push_bit 16 (ucast (ucast (drop_bit 16 v) :: BYTE)))
     OR push_bit 8 (ucast (ucast (drop_bit 8 v) :: BYTE)))
     OR ucast (ucast v :: BYTE) = v" (is "?l = v")
proof (rule bit_word_eqI)
  fix n :: nat
  assume n: "n < LENGTH(32)"
  consider "n < 8" | "8 \<le> n" "n < 16" | "16 \<le> n" "n < 24" | "24 \<le> n" by linarith
  then show "bit ?l n = bit v n"
    using n by cases (auto simp: bit_simps)
qed

lemma ld_st_word [simp]: "k + 1 < length p \<Longrightarrow> ld_word (st_word k v p) k = v"
  by (simp add: ld_word_def nth_st_word bytes_of_word)

lemma ld_st_dword [simp]: "k + 3 < length p \<Longrightarrow> ld_dword (st_dword k v p) k = v"
  by (simp add: ld_dword_def nth_st_dword bytes_of_dword)

lemma ld_word_cong: "p ! k = q ! k \<Longrightarrow> p ! (k + 1) = q ! (k + 1) \<Longrightarrow> ld_word p k = ld_word q k"
  by (simp add: ld_word_def)

lemma ld_dword_cong:
  "p ! k = q ! k \<Longrightarrow> p ! (k + 1) = q ! (k + 1) \<Longrightarrow> p ! (k + 2) = q ! (k + 2) \<Longrightarrow>
   p ! (k + 3) = q ! (k + 3) \<Longrightarrow> ld_dword p k = ld_dword q k"
  by (simp add: ld_dword_def)

lemma ld_word_st_word_other:
  "j + 1 < k \<or> k + 1 < j \<Longrightarrow> k + 1 < length p \<Longrightarrow> j + 1 < length p \<Longrightarrow>
     ld_word (st_word k v p) j = ld_word p j"
  by (auto simp: ld_word_def nth_st_word)

lemma ld_dword_st_dword_other:
  "j + 3 < k \<or> k + 3 < j \<Longrightarrow> k + 3 < length p \<Longrightarrow> j + 3 < length p \<Longrightarrow>
     ld_dword (st_dword k v p) j = ld_dword p j"
  by (auto simp: ld_dword_def nth_st_dword)

end
