(* ===== verification/FatDisk.thy ===== *)
theory FatDisk
  imports FatPrelude
begin

text \<open>
  The physical drive below FatFs, after \<^verbatim>\<open>circle/addon/fatfs/diskio.cpp\<close>.  A drive is a medium of
  512-byte sectors addressed by a 64-bit byte offset, so a sector number here is a \<^typ>\<open>nat\<close>.
  Everything the driver cannot control is part of the drive's environment: \<open>attached\<close> says whether
  the device name service finds the device, \<open>io_fault t\<close> whether the \<open>t\<close>-th transfer fails,
  \<open>alloc_ok\<close> whether the heap satisfies a request, \<open>fresh\<close> what an allocated block holds and
  \<open>fattime\<close> what the real-time clock returns.
  The counter \<open>clk\<close> advances with every transfer, so any pattern of failures is covered.  A failed
  transfer leaves both the medium and the caller's buffer unchanged.
\<close>

record ddev =
  attached :: bool
  present :: bool
  media :: "nat \<Rightarrow> BYTE list"
  clk :: nat
  io_fault :: "nat \<Rightarrow> bool"
  alloc_ok :: "nat \<Rightarrow> DWORD \<Rightarrow> bool"
  fattime :: "nat \<Rightarrow> DWORD"
  fresh :: "nat \<Rightarrow> nat \<Rightarrow> WORD"

abbreviation (input) STA_NOINIT :: BYTE where "STA_NOINIT \<equiv> 1"
abbreviation (input) STA_PROTECT :: BYTE where "STA_PROTECT \<equiv> 4"

definition disk_status :: "BYTE \<Rightarrow> ddev \<Rightarrow> BYTE" where
  "disk_status drv d = (if drv < 4 \<and> present d then 0 else STA_NOINIT)"

definition disk_initialize :: "BYTE \<Rightarrow> ddev \<Rightarrow> BYTE \<times> ddev" where
  "disk_initialize drv d =
     (if drv \<ge> 4 then (STA_NOINIT, d)
      else let d = d\<lparr>present := attached d\<rparr>
           in if present d then (0, d) else (STA_NOINIT, d))"

definition disk_read :: "BYTE \<Rightarrow> DWORD \<Rightarrow> DWORD \<Rightarrow> ddev \<Rightarrow> DRESULT \<times> BYTE list \<times> ddev" where
  "disk_read drv sector count d =
     (if drv \<ge> 4 then (RES_PARERR, [], d)
      else if \<not> present d then (RES_NOTRDY, [], d)
      else let nSize = count * SS; t = clk d; d = d\<lparr>clk := Suc t\<rparr>
           in if io_fault d t then (RES_ERROR, [], d)
              else (RES_OK, concat (map (\<lambda>i. media d (unat sector + i)) [0..<unat nSize div 512]), d))"

definition disk_write :: "BYTE \<Rightarrow> BYTE list \<Rightarrow> DWORD \<Rightarrow> DWORD \<Rightarrow> ddev \<Rightarrow> DRESULT \<times> ddev" where
  "disk_write drv buff sector count d =
     (if drv \<ge> 4 then (RES_PARERR, d)
      else if \<not> present d then (RES_NOTRDY, d)
      else let nSize = count * SS; t = clk d; d = d\<lparr>clk := Suc t\<rparr>
           in if io_fault d t then (RES_ERROR, d)
              else (RES_OK, d\<lparr>media := (\<lambda>k.
                     if unat sector \<le> k \<and> k < unat sector + unat nSize div 512
                     then slice (512 * (k - unat sector)) 512 buff else media d k)\<rparr>))"

text \<open>Only the command \<^verbatim>\<open>CTRL_SYNC\<close> is issued by the configured \<^verbatim>\<open>ff.c\<close>; the driver accepts it.\<close>

definition disk_ioctl_sync :: "BYTE \<Rightarrow> ddev \<Rightarrow> DRESULT \<times> ddev" where
  "disk_ioctl_sync drv d = (RES_OK, d)"

section \<open>Facts\<close>

text \<open>The environment: no operation of the driver changes it.\<close>

definition denv :: "ddev \<Rightarrow> bool \<times> bool \<times> (nat \<Rightarrow> bool) \<times> (nat \<Rightarrow> DWORD \<Rightarrow> bool) \<times> (nat \<Rightarrow> DWORD) \<times>
    (nat \<Rightarrow> nat \<Rightarrow> WORD)" where
  "denv d = (attached d, present d, io_fault d, alloc_ok d, fattime d, fresh d)"

definition wf_media :: "ddev \<Rightarrow> bool" where
  "wf_media d \<longleftrightarrow> (\<forall>k. length (media d k) = 512)"

text \<open>From now on every transfer succeeds.\<close>

definition healthy :: "ddev \<Rightarrow> bool" where
  "healthy d \<longleftrightarrow> present d \<and> (\<forall>t \<ge> clk d. \<not> io_fault d t)"

lemma disk_read1:
  "disk_read drv s 1 d = (r, bs, d') \<Longrightarrow>
     media d' = media d \<and> denv d' = denv d \<and> (r = RES_OK \<longrightarrow> bs = media d (unat s)) \<and>
     (healthy d \<longrightarrow> healthy d')"
  by (auto simp: disk_read_def denv_def healthy_def Let_def split: if_splits)

lemma disk_read_healthy: "healthy d \<Longrightarrow> drv < 4 \<Longrightarrow> fst (disk_read drv s n d) = RES_OK"
  by (auto simp: disk_read_def healthy_def Let_def)

lemma slice_all: "length bs = 512 \<Longrightarrow> slice 0 512 bs = bs"
  by (simp add: slice_def)

lemma disk_write1:
  assumes "disk_write drv bs s 1 d = (r, d')" and "length bs = 512"
  shows "denv d' = denv d"
    and "media d' = (if r = RES_OK then (media d)(unat s := bs) else media d)"
    and "healthy d \<Longrightarrow> healthy d'"
    and "wf_media d \<Longrightarrow> wf_media d'"
    and "clk d \<le> clk d'"
proof -
  have *: "unat s \<le> k \<and> k < unat s + unat (SS) div 512 \<longleftrightarrow> k = unat s" for k
    by auto
  show m: "media d' = (if r = RES_OK then (media d)(unat s := bs) else media d)"
    using assms by (auto simp: disk_write_def Let_def * slice_all fun_upd_def split: if_splits)
  show "denv d' = denv d" "healthy d \<Longrightarrow> healthy d'" "clk d \<le> clk d'"
    using assms by (auto simp: disk_write_def denv_def healthy_def Let_def split: if_splits)
  show "wf_media d \<Longrightarrow> wf_media d'"
    using m assms(2) by (auto simp: wf_media_def)
qed

lemma disk_write_healthy: "healthy d \<Longrightarrow> drv < 4 \<Longrightarrow> fst (disk_write drv bs s n d) = RES_OK"
  by (auto simp: disk_write_def healthy_def Let_def)

end
