(* ===== verification/FatWindow.thy ===== *)
theory FatWindow
  imports FatDisk
begin

text \<open>
  The filesystem object \<^verbatim>\<open>FATFS\<close> of \<^verbatim>\<open>ff.h\<close> and its one-sector disk access window.  A \<open>vol\<close> is a
  filesystem object together with the drive that hosts it.  The window is a write-back cache of
  one sector; \<open>vsec v s\<close> is the content of sector \<open>s\<close> as the code above the window sees it, and the
  lemmas say that moving or flushing the window never changes that view, also when a transfer
  fails, except in the second FAT copy, which the window mirrors.
\<close>

record fatfs =
  fs_type :: BYTE
  pdrv :: BYTE
  ldrv :: BYTE
  n_fats :: BYTE
  wflag :: BYTE
  fsi_flag :: BYTE
  fs_id :: WORD
  n_rootdir :: WORD
  csize :: WORD
  lfnbuf :: "WORD list"
  last_clst :: DWORD
  free_clst :: DWORD
  cdir :: DWORD
  n_fatent :: DWORD
  fsize :: DWORD
  volbase :: DWORD
  fatbase :: DWORD
  dirbase :: DWORD
  database :: DWORD
  winsect :: DWORD
  win :: "BYTE list"

record vol = fatfs +
  dk :: ddev

section \<open>Operations\<close>

definition sync_window :: "vol \<Rightarrow> FRESULT \<times> vol" where
  "sync_window v =
     (if wflag v \<noteq> 0 then
        let (r, d) = disk_write (pdrv v) (win v) (winsect v) 1 (dk v); v = v\<lparr>dk := d\<rparr>
        in if r = RES_OK then
             let v = v\<lparr>wflag := 0\<rparr>
             in if winsect v - fatbase v < fsize v then
                  if n_fats v = 2 then
                    let (r2, d) = disk_write (pdrv v) (win v) (winsect v + fsize v) 1 (dk v)
                    in (FR_OK, v\<lparr>dk := d\<rparr>)
                  else (FR_OK, v)
                else (FR_OK, v)
           else (FR_DISK_ERR, v)
      else (FR_OK, v))"

definition move_window :: "DWORD \<Rightarrow> vol \<Rightarrow> FRESULT \<times> vol" where
  "move_window sect v =
     (if sect \<noteq> winsect v then
        let (res, v) = sync_window v
        in if res = FR_OK then
             let (r, bs, d) = disk_read (pdrv v) sect 1 (dk v); v = v\<lparr>dk := d\<rparr>
             in if r \<noteq> RES_OK then (FR_DISK_ERR, v\<lparr>winsect := 0 - 1\<rparr>)
                else (FR_OK, v\<lparr>win := bs, winsect := sect\<rparr>)
           else (res, v)
      else (FR_OK, v))"

definition sync_fs :: "vol \<Rightarrow> FRESULT \<times> vol" where
  "sync_fs v =
     (let (res, v) = sync_window v
      in if res = FR_OK then
           let v = (if fs_type v = FS_FAT32 \<and> fsi_flag v = 1 then
                      let w = memset 0 0 512 (win v);
                          w = st_word 510 0xAA55 w;
                          w = st_dword 0 0x41615252 w;
                          w = st_dword 484 0x61417272 w;
                          w = st_dword 488 (free_clst v) w;
                          w = st_dword 492 (last_clst v) w;
                          v = v\<lparr>win := w, winsect := volbase v + 1\<rparr>;
                          (r, d) = disk_write (pdrv v) (win v) (winsect v) 1 (dk v)
                      in v\<lparr>dk := d, fsi_flag := 0\<rparr>
                    else v);
               (r, d) = disk_ioctl_sync (pdrv v) (dk v);
               v = v\<lparr>dk := d\<rparr>
           in if r \<noteq> RES_OK then (FR_DISK_ERR, v) else (res, v)
         else (res, v))"

definition clst2sect :: "DWORD \<Rightarrow> vol \<Rightarrow> DWORD" where
  "clst2sect clst v =
     (let clst = clst - 2
      in if clst \<ge> n_fatent v - 2 then 0 else database v + ucast (csize v) * clst)"

section \<open>The view through the window\<close>

definition vsec :: "vol \<Rightarrow> DWORD \<Rightarrow> BYTE list" where
  "vsec v s = (if s = winsect v then win v else media (dk v) (unat s))"

definition wf_win :: "vol \<Rightarrow> bool" where
  "wf_win v \<longleftrightarrow> length (win v) = 512 \<and> wf_media (dk v) \<and>
     (wflag v = 0 \<longrightarrow> winsect v = DISK_ERR \<or> win v = media (dk v) (unat (winsect v)))"

text \<open>The sectors the window writes behind the code's back: the second copy of the FAT.\<close>

definition mirrored :: "vol \<Rightarrow> DWORD \<Rightarrow> bool" where
  "mirrored v s \<longleftrightarrow> n_fats v = 2 \<and> s - fsize v - fatbase v < fsize v"

text \<open>What \<open>move_window\<close> and \<open>sync_window\<close> may touch: the window, its flag and the drive.\<close>

definition wframe :: "vol \<Rightarrow> vol \<Rightarrow> bool" where
  "wframe v v' \<longleftrightarrow>
     v' = v\<lparr>win := win v', winsect := winsect v', wflag := wflag v', dk := dk v'\<rparr> \<and>
     denv (dk v') = denv (dk v)"

lemma unat_eq_iff: "unat a = unat b \<longleftrightarrow> a = (b :: 'a::len word)"
  by (simp add: word_unat_eq_iff)

lemma wframe_refl [simp, intro]: "wframe v v"
  by (simp add: wframe_def)

lemma wframe_trans [trans]: "wframe a b \<Longrightarrow> wframe b c \<Longrightarrow> wframe a c"
proof -
  assume ab: "wframe a b" and bc: "wframe b c"
  have b: "b = a\<lparr>win := win b, winsect := winsect b, wflag := wflag b, dk := dk b\<rparr>"
    using ab by (simp add: wframe_def)
  have c: "c = b\<lparr>win := win c, winsect := winsect c, wflag := wflag c, dk := dk c\<rparr>"
    using bc by (simp add: wframe_def)
  have "c = a\<lparr>win := win c, winsect := winsect c, wflag := wflag c, dk := dk c\<rparr>"
    by (subst c, subst b) simp
  then show ?thesis using ab bc by (simp add: wframe_def)
qed

lemma wframe_fields:
  assumes "wframe v v'"
  shows "fs_type v' = fs_type v" "pdrv v' = pdrv v" "ldrv v' = ldrv v" "n_fats v' = n_fats v"
    "fsi_flag v' = fsi_flag v" "fs_id v' = fs_id v" "n_rootdir v' = n_rootdir v"
    "csize v' = csize v" "lfnbuf v' = lfnbuf v" "last_clst v' = last_clst v"
    "free_clst v' = free_clst v" "cdir v' = cdir v" "n_fatent v' = n_fatent v"
    "fsize v' = fsize v" "volbase v' = volbase v" "fatbase v' = fatbase v"
    "dirbase v' = dirbase v" "database v' = database v"
proof -
  have e: "v' = v\<lparr>win := win v', winsect := winsect v', wflag := wflag v', dk := dk v'\<rparr>"
    using assms by (simp add: wframe_def)
  show "fs_type v' = fs_type v" "pdrv v' = pdrv v" "ldrv v' = ldrv v" "n_fats v' = n_fats v"
    "fsi_flag v' = fsi_flag v" "fs_id v' = fs_id v" "n_rootdir v' = n_rootdir v"
    "csize v' = csize v" "lfnbuf v' = lfnbuf v" "last_clst v' = last_clst v"
    "free_clst v' = free_clst v" "cdir v' = cdir v" "n_fatent v' = n_fatent v"
    "fsize v' = fsize v" "volbase v' = volbase v" "fatbase v' = fatbase v"
    "dirbase v' = dirbase v" "database v' = database v"
    by (subst e, simp)+
qed

lemma wframe_mirrored [simp]: "wframe v v' \<Longrightarrow> mirrored v' = mirrored v"
  by (simp add: mirrored_def fun_eq_iff wframe_fields)

text \<open>A drive that works, seen from the volume.\<close>

definition drive_ok :: "vol \<Rightarrow> bool" where
  "drive_ok v \<longleftrightarrow> pdrv v < 4 \<and> healthy (dk v)"

text \<open>
  The result of an operation that only moves the window: the frame, well-formedness, the unchanged
  view, and success on a working drive.
\<close>

definition moves :: "vol \<Rightarrow> vol \<Rightarrow> bool" where
  "moves v v' \<longleftrightarrow> wframe v v' \<and> wf_win v' \<and>
     (\<forall>s. s \<noteq> DISK_ERR \<longrightarrow> \<not> mirrored v s \<longrightarrow> vsec v' s = vsec v s) \<and>
     (drive_ok v \<longrightarrow> drive_ok v')"

lemma moves_refl [simp]: "wf_win v \<Longrightarrow> moves v v"
  by (simp add: moves_def)

lemma moves_trans: "moves a b \<Longrightarrow> moves b c \<Longrightarrow> moves a c"
  unfolding moves_def using wframe_trans wframe_mirrored by (metis (no_types, lifting))

lemma sync_window_clean: "wflag v = 0 \<Longrightarrow> sync_window v = (FR_OK, v)"
  by (simp add: sync_window_def)

text \<open>The three ways a dirty window is flushed: write error, no mirror, mirrored.\<close>

lemma sync_window_cases:
  assumes "sync_window v = (r, v')" and "wflag v \<noteq> 0" and len: "length (win v) = 512"
  obtains (err) d where "r = FR_DISK_ERR" "v' = v\<lparr>dk := d\<rparr>" "media d = media (dk v)"
      "denv d = denv (dk v)" "\<not> drive_ok v"
  | (plain) d where "r = FR_OK" "v' = v\<lparr>dk := d, wflag := 0\<rparr>"
      "media d = (media (dk v))(unat (winsect v) := win v)"
      "denv d = denv (dk v)" "healthy (dk v) \<Longrightarrow> healthy d"
  | (mirror) d where "r = FR_OK" "v' = v\<lparr>dk := d, wflag := 0\<rparr>"
      "media d = (media (dk v))(unat (winsect v) := win v, unat (winsect v + fsize v) := win v)"
      "denv d = denv (dk v)" "healthy (dk v) \<Longrightarrow> healthy d" "mirrored v (winsect v + fsize v)"
      "fsize v \<noteq> 0"
proof -
  obtain r1 d1 where w1: "disk_write (pdrv v) (win v) (winsect v) 1 (dk v) = (r1, d1)"
    by (cases "disk_write (pdrv v) (win v) (winsect v) 1 (dk v)")
  note s1 = disk_write1 [OF w1 len]
  show ?thesis
  proof (cases "r1 = RES_OK")
    case False
    have "\<not> drive_ok v"
      using False w1 disk_write_healthy [of "dk v" "pdrv v" "win v" "winsect v" 1]
      by (auto simp: drive_ok_def)
    with False show ?thesis
      using assms w1 s1 by (intro err [of d1]) (auto simp: sync_window_def Let_def)
  next
    case ok: True
    obtain r2 d2 where w2: "disk_write (pdrv v) (win v) (winsect v + fsize v) 1 d1 = (r2, d2)"
      by (cases "disk_write (pdrv v) (win v) (winsect v + fsize v) 1 d1")
    note s2 = disk_write1 [OF w2 len]
    show ?thesis
    proof (cases "winsect v - fatbase v < fsize v \<and> n_fats v = 2 \<and> r2 = RES_OK")
      case True
      then have "mirrored v (winsect v + fsize v)" "fsize v \<noteq> 0"
        by (auto simp: mirrored_def algebra_simps)
      with True ok show ?thesis
        using assms w1 w2 s1 s2 by (intro mirror [of d2]) (auto simp: sync_window_def Let_def)
    next
      case False
      with ok show ?thesis
        using assms w1 w2 s1 s2
        by (intro plain [of "if winsect v - fatbase v < fsize v \<and> n_fats v = 2 then d2 else d1"])
          (auto simp: sync_window_def Let_def split: if_splits)
    qed
  qed
qed

lemma sync_window_spec:
  assumes wf: "wf_win v" and sw: "sync_window v = (r, v')"
  shows "moves v v'" and "r = FR_OK \<or> r = FR_DISK_ERR"
    and "drive_ok v \<Longrightarrow> r = FR_OK" and "r = FR_OK \<Longrightarrow> wflag v' = 0"
    and "winsect v' = winsect v" and "win v' = win v"
proof -
  have "moves v v' \<and> (r = FR_OK \<or> r = FR_DISK_ERR) \<and> (drive_ok v \<longrightarrow> r = FR_OK) \<and>
    (r = FR_OK \<longrightarrow> wflag v' = 0) \<and> winsect v' = winsect v \<and> win v' = win v"
  proof (cases "wflag v = 0")
    case True
    then show ?thesis using assms by (auto simp: sync_window_clean)
  next
    case False
    have len: "length (win v) = 512" using wf by (simp add: wf_win_def)
    have ne: "winsect v + fsize v \<noteq> winsect v" if "fsize v \<noteq> 0" using that by simp
    from sw False len show ?thesis
    proof (cases rule: sync_window_cases)
      case (err d)
      then show ?thesis using wf False
        by (auto simp: moves_def wframe_def wf_win_def vsec_def drive_ok_def wf_media_def)
    next
      case (plain d)
      have "vsec v' s = vsec v s" for s
        using plain(2,3) by (auto simp: vsec_def unat_eq_iff)
      then show ?thesis using plain wf len
        by (auto simp: moves_def wframe_def wf_win_def drive_ok_def wf_media_def)
    next
      case (mirror d)
      have "vsec v' s = vsec v s" if "\<not> mirrored v s" for s
      proof -
        have "s \<noteq> winsect v + fsize v" using that mirror(6) by auto
        then show ?thesis using mirror(2,3) by (auto simp: vsec_def unat_eq_iff)
      qed
      then show ?thesis using mirror wf len ne
        by (auto simp: moves_def wframe_def wf_win_def drive_ok_def wf_media_def)
    qed
  qed
  then show "moves v v'" "r = FR_OK \<or> r = FR_DISK_ERR" "drive_ok v \<Longrightarrow> r = FR_OK"
    "r = FR_OK \<Longrightarrow> wflag v' = 0" "winsect v' = winsect v" "win v' = win v" by auto
qed

lemma move_window_spec:
  assumes wf: "wf_win v" and mw: "move_window s v = (r, v')"
  shows "moves v v'" and "r = FR_OK \<or> r = FR_DISK_ERR"
    and "drive_ok v \<Longrightarrow> r = FR_OK" and "r = FR_OK \<Longrightarrow> winsect v' = s"
proof -
  obtain r1 v1 where sw: "sync_window v = (r1, v1)" by (cases "sync_window v")
  obtain r2 bs d where rd: "disk_read (pdrv v1) s 1 (dk v1) = (r2, bs, d)"
    by (cases "disk_read (pdrv v1) s 1 (dk v1)")
  note s1 = sync_window_spec [OF wf sw]
  note r1 = disk_read1 [OF rd]
  have "moves v v' \<and> (r = FR_OK \<or> r = FR_DISK_ERR) \<and> (drive_ok v \<longrightarrow> r = FR_OK) \<and>
    (r = FR_OK \<longrightarrow> winsect v' = s)"
  proof (cases "s = winsect v \<or> r1 \<noteq> FR_OK")
    case True
    then show ?thesis using mw sw s1 wf by (auto simp: move_window_def split: if_splits)
  next
    case False
    have clean: "wflag v1 = 0" using False s1 by simp
    have wf1: "wf_win v1" using s1 by (simp add: moves_def)
    have media: "media (dk v1) (unat t) = vsec v1 t" if "t \<noteq> DISK_ERR" for t
      using wf1 clean that by (auto simp: wf_win_def vsec_def)
    have v': "v' = (if r2 = RES_OK then v1\<lparr>dk := d, win := bs, winsect := s\<rparr>
        else v1\<lparr>dk := d, winsect := - 1\<rparr>)" and r: "r = (if r2 = RES_OK then FR_OK else FR_DISK_ERR)"
      using mw sw rd False by (auto simp: move_window_def Let_def split: if_splits)
    have ok: "drive_ok v1 \<longrightarrow> r2 = RES_OK"
      using disk_read_healthy [of "dk v1" "pdrv v1" s 1] rd by (auto simp: drive_ok_def)
    have "wf_win v'" using wf1 r1 v' clean by (auto simp: wf_win_def wf_media_def)
    moreover have "vsec v' t = vsec v1 t" if "t \<noteq> DISK_ERR" for t
      using r1 v' media [OF that] that by (auto simp: vsec_def)
    moreover have "wframe v1 v'" "drive_ok v1 \<longrightarrow> drive_ok v'"
      using r1 v' by (auto simp: wframe_def drive_ok_def)
    ultimately have "moves v1 v'" by (simp add: moves_def)
    then have "moves v v'" by (rule moves_trans [OF s1(1)])
    moreover have "drive_ok v \<longrightarrow> drive_ok v1" using s1(1) by (simp add: moves_def)
    ultimately show ?thesis using ok r v' by auto
  qed
  then show "moves v v'" "r = FR_OK \<or> r = FR_DISK_ERR" "drive_ok v \<Longrightarrow> r = FR_OK"
    "r = FR_OK \<Longrightarrow> winsect v' = s" by auto
qed

lemma vsec_in_window: "winsect v = s \<Longrightarrow> vsec v s = win v"
  by (simp add: vsec_def)

lemma movesD:
  assumes "moves v v'"
  shows "wframe v v'" "wf_win v'" "drive_ok v \<Longrightarrow> drive_ok v'"
    "s \<noteq> DISK_ERR \<Longrightarrow> \<not> mirrored v s \<Longrightarrow> vsec v' s = vsec v s"
  using assms by (auto simp: moves_def)

lemma length_vsec: "wf_win v \<Longrightarrow> length (vsec v s) = 512"
  by (simp add: vsec_def wf_win_def wf_media_def)

end
