(* ===== verification/FatStore.thy ===== *)
theory FatStore
  imports FatPrelude
begin

text \<open>
  The interface between the table (\<open>get_fat\<close>, \<open>put_fat\<close>) and its client, the cluster chain
  operations.  A store of entries is read and written one entry at a time; the client sees an
  abstract function from cluster numbers to entries.  Cluster chains are lists that the entries
  link up, in the way of the linked lists of Bornat and of Mehta and Nipkow.
\<close>

section \<open>Chains of an entry function\<close>

fun chain :: "DWORD \<Rightarrow> (DWORD \<Rightarrow> DWORD) \<Rightarrow> DWORD list \<Rightarrow> bool" where
  "chain n e [] \<longleftrightarrow> False"
| "chain n e [c] \<longleftrightarrow> 2 \<le> c \<and> c < n \<and> n \<le> e c"
| "chain n e (c # d # cs) \<longleftrightarrow> 2 \<le> c \<and> c < n \<and> e c = d \<and> chain n e (d # cs)"

lemma chain_valid: "chain n e cs \<Longrightarrow> c \<in> set cs \<Longrightarrow> 2 \<le> c \<and> c < n"
  by (induction n e cs rule: chain.induct) auto

lemma chain_tl: "chain n e (c # cs) \<Longrightarrow> cs \<noteq> [] \<Longrightarrow> chain n e cs"
  by (cases cs) auto

lemma chain_next: "chain n e (c # cs) \<Longrightarrow> cs \<noteq> [] \<Longrightarrow> e c = hd cs"
  by (cases cs) auto

lemma chain_last: "chain n e cs \<Longrightarrow> n \<le> e (last cs)"
  by (induction n e cs rule: chain.induct) auto

text \<open>A chain only depends on the entries of its own clusters.\<close>

lemma chain_cong: "(\<And>c. c \<in> set cs \<Longrightarrow> e c = e' c) \<Longrightarrow> chain n e cs = chain n e' cs"
  by (induction n e cs rule: chain.induct) auto

text \<open>Following the same entries from the same cluster gives the same chain.\<close>

lemma chain_unique: "chain n e (c # xs) \<Longrightarrow> chain n e (c # ys) \<Longrightarrow> xs = ys"
proof (induction xs arbitrary: c ys)
  case Nil
  show ?case
  proof (rule ccontr)
    assume "[] \<noteq> ys"
    then have "e c = hd ys" "chain n e ys"
      using chain_next [OF Nil(2)] chain_tl [OF Nil(2)] by auto
    then have "e c < n" using chain_valid [of n e ys "hd ys"] \<open>[] \<noteq> ys\<close> by (cases ys) auto
    then show False using Nil(1) leD by auto
  qed
next
  case (Cons x xs)
  have x1: "e c = x" and x2: "chain n e (x # xs)" using Cons.prems(1) by simp_all
  have x3: "x < n" using chain_valid [OF x2, of x] by simp
  show ?case
  proof (cases ys)
    case Nil
    then show ?thesis using Cons.prems(2) x1 x3 leD by auto
  next
    case (Cons y ys')
    then have "e c = y" "chain n e (y # ys')" using Cons.prems(2) by simp_all
    then have "chain n e (x # ys')" "y = x" using x1 by simp_all
    then show ?thesis using Cons.IH [OF x2] Cons by simp
  qed
qed

lemma chain_append_tl: "chain n e (xs @ ys) \<Longrightarrow> ys \<noteq> [] \<Longrightarrow> chain n e ys"
  by (induction xs) (auto dest: chain_tl)

text \<open>A chain visits no cluster twice, so it cannot be cyclic.\<close>

lemma chain_distinct: "chain n e cs \<Longrightarrow> distinct cs"
proof (induction cs)
  case (Cons c cs)
  show ?case
  proof (cases "c \<in> set cs")
    case False
    then show ?thesis using Cons chain_tl by (cases "cs = []") auto
  next
    case True
    then obtain ys zs where cs: "cs = ys @ c # zs" by (auto simp: in_set_conv_decomp)
    have "chain n e (c # zs)" using Cons.prems chain_append_tl [of n e "c # ys" "c # zs"] by (simp add: cs)
    from chain_unique [OF this Cons.prems] have "zs = cs" by simp
    then show ?thesis by (simp add: cs)
  qed
qed simp

text \<open>Extending a chain at its end by a cluster that is not on it.\<close>

lemma chain_extend:
  assumes "chain n e cs" "2 \<le> d" "d < n" "d \<notin> set cs" "n \<le> eoc"
  shows "chain n (e(last cs := d, d := eoc)) (cs @ [d])"
  using assms
proof (induction n e cs rule: chain.induct)
  case (3 n e c c' cs)
  then have "c \<noteq> last (c' # cs)" "c \<noteq> d"
    using chain_distinct [of n e "c # c' # cs"] by (auto dest: last_in_set split: if_splits)
  with 3 show ?case by simp
qed auto

text \<open>Cutting a chain after one of its clusters.\<close>

lemma chain_cut:
  assumes "chain n e (xs @ p # ys)" "n \<le> eoc"
  shows "chain n (e(p := eoc)) (xs @ [p])"
  using assms
proof (induction xs)
  case Nil
  then show ?case using chain_valid [of n e "p # ys" p] by auto
next
  case (Cons x xs)
  have ne: "x \<noteq> p" using chain_distinct [OF Cons.prems(1)] by auto
  have "chain n e (xs @ p # ys)" using chain_tl [of n e x "xs @ p # ys"] Cons.prems(1) by simp
  then have c: "chain n (e(p := eoc)) (xs @ [p])" using Cons.prems(2) by (rule Cons.IH)
  have x: "2 \<le> x \<and> x < n" using chain_valid [OF Cons.prems(1), of x] by simp
  have h: "e x = hd (xs @ p # ys)" using chain_next [of n e x "xs @ p # ys"] Cons.prems(1) by simp
  define e' where "e' = e(p := eoc)"
  have ex: "e' x = hd (xs @ [p])" using ne h by (cases xs) (auto simp: e'_def)
  have "chain n e' (x # xs @ [p])"
    using c [folded e'_def] x ex by (cases xs) auto
  then show ?case unfolding e'_def by (simp only: append_Cons)
qed

section \<open>The store\<close>

locale fat_store =
  fixes get :: "DWORD \<Rightarrow> 's \<Rightarrow> DWORD \<times> 's"
    and put :: "DWORD \<Rightarrow> DWORD \<Rightarrow> 's \<Rightarrow> FRESULT \<times> 's"
    and entry :: "'s \<Rightarrow> DWORD \<Rightarrow> DWORD"
    and cells :: "'s \<Rightarrow> DWORD \<Rightarrow> bool"
    and conv :: "'s \<Rightarrow> DWORD \<Rightarrow> DWORD"
    and good :: "'s \<Rightarrow> bool"
    and same :: "'s \<Rightarrow> 's \<Rightarrow> bool"
  assumes get_ok: "good s \<Longrightarrow> cells s c \<Longrightarrow> get c s = (x, s') \<Longrightarrow>
      x = entry s c \<and> good s' \<and> same s s' \<and> (\<forall>d. cells s d \<longrightarrow> entry s' d = entry s d)"
    and put_ok: "good s \<Longrightarrow> cells s c \<Longrightarrow> put c x s = (r, s') \<Longrightarrow>
      r = FR_OK \<and> good s' \<and> same s s' \<and>
      (\<forall>d. cells s d \<longrightarrow> entry s' d = (if d = c then conv s x else entry s d))"
    and same_cells: "same s s' \<Longrightarrow> cells s' = cells s \<and> conv s' = conv s"
    and same_trans: "same s s1 \<Longrightarrow> same s1 s2 \<Longrightarrow> same s s2"
    and same_refl: "same s s"
begin

text \<open>Storing and reading back.\<close>

lemma put_get:
  assumes "good s" "cells s c" "put c x s = (r, s1)" "get c s1 = (y, s2)"
  shows "y = conv s x"
proof -
  have p: "good s1" "same s s1" "entry s1 c = conv s x" using put_ok [OF assms(1-3)] assms(2) by auto
  then have "cells s1 c" using same_cells assms(2) by auto
  then show ?thesis using get_ok [OF p(1) _ assms(4)] p(3) by simp
qed

text \<open>Storing does not disturb another entry.\<close>

lemma put_get_other:
  assumes "good s" "cells s c" "cells s d" "d \<noteq> c" "put c x s = (r, s1)" "get d s1 = (y, s2)"
  shows "y = entry s d"
proof -
  have p: "good s1" "same s s1" "entry s1 d = entry s d" using put_ok [OF assms(1,2,5)] assms(3,4) by auto
  then have "cells s1 d" using same_cells assms(3) by auto
  then show ?thesis using get_ok [OF p(1) _ assms(6)] p(3) by simp
qed

text \<open>
  Linking: marking a free cell as the end and pointing the last cell of a chain to it extends the
  chain, and no cell outside is changed.
\<close>

lemma link_extends:
  assumes g: "good s" and ch: "chain n (entry s) cs" and cells: "\<And>c. cells s c \<longleftrightarrow> 2 \<le> c \<and> c < n"
    and d: "cells s d" "d \<notin> set cs" "conv s d = d" "n \<le> conv s eoc"
    and p1: "put d eoc s = (r1, s1)" and p2: "put (last cs) d s1 = (r2, s2)"
  shows "r1 = FR_OK" "r2 = FR_OK" "good s2" "same s s2" "chain n (entry s2) (cs @ [d])"
    and "cells s x \<Longrightarrow> x \<noteq> d \<Longrightarrow> x \<noteq> last cs \<Longrightarrow> entry s2 x = entry s x"
proof -
  have l: "last cs \<in> set cs" using ch by (cases cs) auto
  then have lc: "cells s (last cs)" "last cs \<noteq> d" using chain_valid [OF ch] cells d(2) by auto
  note q1 = put_ok [OF g d(1) p1]
  have same1: "same s s1" "good s1" using q1 by auto
  then have c1: "cells s1 = cells s" "conv s1 = conv s" using same_cells by auto
  note q2 = put_ok [OF same1(2) _ p2, unfolded c1, OF lc(1)]
  show "r1 = FR_OK" "r2 = FR_OK" "good s2" "same s s2" using q1 q2 same_trans same1 by auto
  have e: "entry s2 x = ((entry s)(last cs := d, d := conv s eoc)) x" if x: "cells s x" for x
  proof -
    have "entry s2 x = (if x = last cs then conv s d else entry s1 x)" using q2 x by blast
    moreover have "entry s1 x = (if x = d then conv s eoc else entry s x)" using q1 x by blast
    ultimately show ?thesis using lc(2) d(3) by (cases "x = d") auto
  qed
  have "chain n ((entry s)(last cs := d, d := conv s eoc)) (cs @ [d])"
    using chain_extend [OF ch] d cells by auto
  moreover have "\<And>x. x \<in> set (cs @ [d]) \<Longrightarrow> entry s2 x = ((entry s)(last cs := d, d := conv s eoc)) x"
    using e chain_valid [OF ch] cells d(1) by auto
  ultimately show "chain n (entry s2) (cs @ [d])"
    using chain_cong [of "cs @ [d]" "entry s2" "(entry s)(last cs := d, d := conv s eoc)" n] by blast
  show "cells s x \<Longrightarrow> x \<noteq> d \<Longrightarrow> x \<noteq> last cs \<Longrightarrow> entry s2 x = entry s x" using e by auto
qed

end

end
