(* ===== verification/FatTable.thy ===== *)
theory FatTable
  imports FatWindow FatStore
begin

text \<open>
  Access to the file allocation table: \<open>get_fat\<close> and \<open>put_fat\<close> of \<^verbatim>\<open>ff.c\<close> for the three FAT
  widths.  The table is read as a byte memory through the window (\<open>fatbyte\<close>), \<open>fat_entry\<close> decodes
  an entry from it, and the two operations are shown to read and to update exactly that entry.
\<close>

section \<open>Operations\<close>

definition get_fat :: "DWORD \<Rightarrow> vol \<Rightarrow> DWORD \<times> vol" where
  "get_fat clst v =
     (if clst < 2 \<or> clst \<ge> n_fatent v then (1, v)
      else if fs_type v = FS_FAT12 then
        let bc = clst; bc = bc + bc div 2;
            (res, v) = move_window (fatbase v + bc div SS) v
        in if res \<noteq> FR_OK then (DISK_ERR, v)
           else let wc = ucast (win v ! unat (bc mod SS)); bc = bc + 1;
                    (res, v) = move_window (fatbase v + bc div SS) v
                in if res \<noteq> FR_OK then (DISK_ERR, v)
                   else let wc = wc OR push_bit 8 (ucast (win v ! unat (bc mod SS)))
                        in (if clst AND 1 \<noteq> 0 then drop_bit 4 wc else wc AND 0xFFF, v)
      else if fs_type v = FS_FAT16 then
        let (res, v) = move_window (fatbase v + clst div (SS div 2)) v
        in if res \<noteq> FR_OK then (DISK_ERR, v)
           else (ucast (ld_word (win v) (unat (clst * 2 mod SS))), v)
      else if fs_type v = FS_FAT32 then
        let (res, v) = move_window (fatbase v + clst div (SS div 4)) v
        in if res \<noteq> FR_OK then (DISK_ERR, v)
           else (ld_dword (win v) (unat (clst * 4 mod SS)) AND 0x0FFFFFFF, v)
      else (1, v))"

definition put_fat :: "DWORD \<Rightarrow> DWORD \<Rightarrow> vol \<Rightarrow> FRESULT \<times> vol" where
  "put_fat clst val v =
     (if clst \<ge> 2 \<and> clst < n_fatent v then
        if fs_type v = FS_FAT12 then
          let bc = clst; bc = bc + bc div 2;
              (res, v) = move_window (fatbase v + bc div SS) v
          in if res \<noteq> FR_OK then (res, v)
             else let p = unat (bc mod SS); bc = bc + 1;
                      b = (if clst AND 1 \<noteq> 0 then (win v ! p AND 0x0F) OR push_bit 4 (ucast val)
                           else ucast val);
                      v = v\<lparr>win := (win v)[p := b], wflag := 1\<rparr>;
                      (res, v) = move_window (fatbase v + bc div SS) v
                  in if res \<noteq> FR_OK then (res, v)
                     else let p = unat (bc mod SS);
                              b = (if clst AND 1 \<noteq> 0 then ucast (drop_bit 4 val)
                                   else (win v ! p AND 0xF0) OR (ucast (drop_bit 8 val) AND 0x0F))
                          in (res, v\<lparr>win := (win v)[p := b], wflag := 1\<rparr>)
        else if fs_type v = FS_FAT16 then
          let (res, v) = move_window (fatbase v + clst div (SS div 2)) v
          in if res \<noteq> FR_OK then (res, v)
             else (res, v\<lparr>win := st_word (unat (clst * 2 mod SS)) (ucast val) (win v), wflag := 1\<rparr>)
        else if fs_type v = FS_FAT32 then
          let (res, v) = move_window (fatbase v + clst div (SS div 4)) v
          in if res \<noteq> FR_OK then (res, v)
             else let val = (val AND 0x0FFFFFFF) OR
                            (ld_dword (win v) (unat (clst * 4 mod SS)) AND 0xF0000000)
                  in (res, v\<lparr>win := st_dword (unat (clst * 4 mod SS)) val (win v), wflag := 1\<rparr>)
        else (FR_INT_ERR, v)
      else (FR_INT_ERR, v))"

section \<open>Geometry of a volume\<close>

text \<open>What \<open>mount_volume\<close> has to establish before any other operation is used.\<close>

definition fat_size :: "vol \<Rightarrow> nat" where
  "fat_size v =
     (let n = unat (n_fatent v)
      in if fs_type v = FS_FAT12 then n * 3 div 2 + n mod 2
         else if fs_type v = FS_FAT16 then n * 2 else n * 4)"

definition max_fatent :: "BYTE \<Rightarrow> nat" where
  "max_fatent t = (if t = FS_FAT12 then 0xFF7 else if t = FS_FAT16 then 0xFFF7 else 0x0FFFFFF7)"

definition vol_ok :: "vol \<Rightarrow> bool" where
  "vol_ok v \<longleftrightarrow>
     fs_type v \<in> {FS_FAT12, FS_FAT16, FS_FAT32} \<and> n_fats v \<in> {1, 2} \<and> csize v \<noteq> 0 \<and>
     3 \<le> unat (n_fatent v) \<and> unat (n_fatent v) \<le> max_fatent (fs_type v) \<and>
     fat_size v \<le> 512 * unat (fsize v) \<and>
     unat (fatbase v) + unat (n_fats v) * unat (fsize v) \<le> unat (database v) \<and>
     unat (database v) + unat (csize v) * (unat (n_fatent v) - 2) < 2 ^ 32"

definition valid_clst :: "vol \<Rightarrow> DWORD \<Rightarrow> bool" where
  "valid_clst v c \<longleftrightarrow> 2 \<le> c \<and> c < n_fatent v"

definition in_fat :: "vol \<Rightarrow> DWORD \<Rightarrow> bool" where
  "in_fat v s \<longleftrightarrow> s - fatbase v < fsize v"

section \<open>The table as a byte memory\<close>

definition fatsec :: "vol \<Rightarrow> nat \<Rightarrow> DWORD" where
  "fatsec v k = fatbase v + of_nat (k div 512)"

definition fatbyte :: "vol \<Rightarrow> nat \<Rightarrow> BYTE" where
  "fatbyte v k = vsec v (fatsec v k) ! (k mod 512)"

definition dec12 :: "(nat \<Rightarrow> BYTE) \<Rightarrow> nat \<Rightarrow> DWORD" where
  "dec12 M n =
     (let bc = n + n div 2; wc = ucast (M bc) OR push_bit 8 (ucast (M (Suc bc)))
      in if odd n then drop_bit 4 wc else wc AND 0xFFF)"

definition dec16 :: "(nat \<Rightarrow> BYTE) \<Rightarrow> nat \<Rightarrow> DWORD" where
  "dec16 M n = ucast (push_bit 8 (ucast (M (2 * n + 1))) OR ucast (M (2 * n)) :: WORD)"

definition dec32 :: "(nat \<Rightarrow> BYTE) \<Rightarrow> nat \<Rightarrow> DWORD" where
  "dec32 M n =
     (push_bit 8 (push_bit 8 (push_bit 8 (ucast (M (4 * n + 3))) OR ucast (M (4 * n + 2)))
       OR ucast (M (4 * n + 1))) OR ucast (M (4 * n))) AND 0x0FFFFFFF"

definition dec_entry :: "BYTE \<Rightarrow> (nat \<Rightarrow> BYTE) \<Rightarrow> nat \<Rightarrow> DWORD" where
  "dec_entry t M n =
     (if t = FS_FAT12 then dec12 M n else if t = FS_FAT16 then dec16 M n else dec32 M n)"

definition fat_entry :: "vol \<Rightarrow> DWORD \<Rightarrow> DWORD" where
  "fat_entry v c = dec_entry (fs_type v) (fatbyte v) (unat c)"

text \<open>What is left of a stored value when it is read back.\<close>

definition trunc_entry :: "BYTE \<Rightarrow> DWORD \<Rightarrow> DWORD" where
  "trunc_entry t x =
     (if t = FS_FAT12 then x AND 0xFFF else if t = FS_FAT16 then x AND 0xFFFF else x AND 0x0FFFFFFF)"

section \<open>Encoding lemmas on byte memories\<close>

lemma odd_word_iff: "(c :: DWORD) AND 1 \<noteq> 0 \<longleftrightarrow> odd (unat c)"
  by (simp add: and_one_eq odd_iff_mod_2_eq_one even_of_nat [symmetric, where 'a = DWORD]
      del: even_of_nat) 

text \<open>Bit masks as \<^const>\<open>mask\<close>, so that \<open>bit_simps\<close> decides the nibble arithmetic.\<close>

lemma masks:
  "(0xFFF :: DWORD) = mask 12" "(0x0F :: BYTE) = mask 4" "(0xF0 :: BYTE) = NOT (mask 4)"
  "(0x0FFFFFFF :: DWORD) = mask 28" "(0xF0000000 :: DWORD) = NOT (mask 28)"
  "(0xFFFF :: DWORD) = mask 16"
  by (simp_all add: mask_eq_exp_minus_1)

lemma nib_odd:
  "drop_bit 4 (ucast ((a AND 0x0F) OR push_bit 4 (ucast val) :: BYTE) OR
     push_bit 8 (ucast (ucast (drop_bit 4 val) :: BYTE))) = (val :: DWORD) AND 0xFFF"
  unfolding masks by (rule bit_word_eqI) (auto simp: bit_simps)

lemma nib_even:
  "(ucast (ucast val :: BYTE) OR
     push_bit 8 (ucast ((a AND 0xF0) OR (ucast (drop_bit 8 val) AND 0x0F) :: BYTE))) AND 0xFFF =
   (val :: DWORD) AND 0xFFF"
  unfolding masks by (rule bit_word_eqI) (auto simp: bit_simps)

lemma nib_keep_low:
  "(ucast (x :: BYTE) OR push_bit 8 (ucast ((a AND 0x0F) OR push_bit 4 b :: BYTE))) AND (0xFFF :: DWORD)
   = (ucast x OR push_bit 8 (ucast a)) AND 0xFFF"
  unfolding masks by (rule bit_word_eqI) (auto simp: bit_simps)

lemma nib_keep_high:
  "drop_bit 4 (ucast ((a AND 0xF0) OR (b AND 0x0F) :: BYTE) OR push_bit 8 (ucast (x :: BYTE)))
   = (drop_bit 4 (ucast a OR push_bit 8 (ucast x)) :: DWORD)"
  unfolding masks by (rule bit_word_eqI) (auto simp: bit_simps dest: bit_imp_le_length)

text \<open>What \<open>put_fat\<close> does to the byte memory, per width.\<close>

definition enc12 :: "nat \<Rightarrow> DWORD \<Rightarrow> (nat \<Rightarrow> BYTE) \<Rightarrow> nat \<Rightarrow> BYTE" where
  "enc12 n val M =
     (let p = n + n div 2
      in if odd n
         then M(p := (M p AND 0x0F) OR push_bit 4 (ucast val), Suc p := ucast (drop_bit 4 val))
         else M(p := ucast val, Suc p := (M (Suc p) AND 0xF0) OR (ucast (drop_bit 8 val) AND 0x0F)))"

definition enc16 :: "nat \<Rightarrow> DWORD \<Rightarrow> (nat \<Rightarrow> BYTE) \<Rightarrow> nat \<Rightarrow> BYTE" where
  "enc16 n val M = M(2 * n := ucast (ucast val :: WORD), 2 * n + 1 := ucast (drop_bit 8 (ucast val :: WORD)))"

definition enc32 :: "nat \<Rightarrow> DWORD \<Rightarrow> (nat \<Rightarrow> BYTE) \<Rightarrow> nat \<Rightarrow> BYTE" where
  "enc32 n val M =
     (let old = push_bit 8 (push_bit 8 (push_bit 8 (ucast (M (4 * n + 3))) OR ucast (M (4 * n + 2)))
                  OR ucast (M (4 * n + 1))) OR ucast (M (4 * n));
          x = (val AND 0x0FFFFFFF) OR (old AND 0xF0000000)
      in M(4 * n := ucast x, 4 * n + 1 := ucast (drop_bit 8 x),
           4 * n + 2 := ucast (drop_bit 16 x), 4 * n + 3 := ucast (drop_bit 24 x)))"

lemma dec12_enc12 [fat_enc]: "dec12 (enc12 n val M) n = val AND 0xFFF"
  by (simp add: dec12_def enc12_def Let_def nib_odd nib_even del: drop_bit_or)

lemma fat12_overlap:
  assumes "m \<noteq> n"
  shows "odd n \<and> even m \<and> Suc (m + m div 2) = n + n div 2 \<or>
     even n \<and> odd m \<and> m + m div 2 = Suc (n + n div 2) \<or>
     m + m div 2 \<noteq> n + n div 2 \<and> m + m div 2 \<noteq> Suc (n + n div 2) \<and>
     Suc (m + m div 2) \<noteq> n + n div 2"
proof -
  obtain k a where n: "n = 2 * k + a" "a < 2" by (metis mod_less_divisor mult.commute div_mult_mod_eq zero_less_numeral)
  obtain j b where m: "m = 2 * j + b" "b < 2" by (metis mod_less_divisor mult.commute div_mult_mod_eq zero_less_numeral)
  have eqs: "n + n div 2 = 3 * k + a" "m + m div 2 = 3 * j + b"
    and odds: "odd n \<longleftrightarrow> a = 1" "odd m \<longleftrightarrow> b = 1" and ne: "k \<noteq> j \<or> a \<noteq> b"
    using n m assms by (auto simp: less_2_cases_iff)
  consider "a = 0" "b = 0" | "a = 1" "b = 1" | "a = 1" "b = 0" | "a = 0" "b = 1"
    using n m by linarith
  then show ?thesis
  proof cases
    case 1
    then have "3 * j \<noteq> 3 * k \<and> 3 * j \<noteq> Suc (3 * k) \<and> Suc (3 * j) \<noteq> 3 * k" using ne by presburger
    then show ?thesis using eqs 1 by simp
  next
    case 2
    then have "3 * j \<noteq> 3 * k \<and> 3 * j \<noteq> Suc (3 * k) \<and> Suc (3 * j) \<noteq> 3 * k" using ne by presburger
    then show ?thesis using eqs 2 by simp
  next
    case 3
    have "3 * j = 3 * k \<or> 3 * j \<noteq> 3 * k + 1 \<and> 3 * j \<noteq> Suc (3 * k + 1) \<and> Suc (3 * j) \<noteq> 3 * k + 1"
      by presburger
    then show ?thesis using eqs odds 3 by auto
  next
    case 4
    have "3 * j = 3 * k \<or> 3 * j + 1 \<noteq> 3 * k \<and> 3 * j + 1 \<noteq> Suc (3 * k) \<and> Suc (3 * j + 1) \<noteq> 3 * k"
      by presburger
    then show ?thesis using eqs odds 4 by auto
  qed
qed

lemma dec12_enc12_other [fat_enc]:
  assumes "m \<noteq> n"
  shows "dec12 (enc12 n val M) m = dec12 M m"
proof -
  define p q where "p = n + n div 2" and "q = m + m div 2"
  consider (low) "odd n" "even m" "Suc q = p" | (high) "even n" "odd m" "q = Suc p"
    | (apart) "q \<noteq> p" "q \<noteq> Suc p" "Suc q \<noteq> p"
    using fat12_overlap [OF assms] unfolding p_def q_def by blast
  then show ?thesis
  proof cases
    case low
    then show ?thesis
      by (auto simp: dec12_def enc12_def Let_def nib_keep_low simp flip: p_def q_def)
  next
    case high
    then show ?thesis
      by (auto simp: dec12_def enc12_def Let_def nib_keep_high simp flip: p_def q_def simp del: drop_bit_or)
  next
    case apart
    then show ?thesis
      by (auto simp: dec12_def enc12_def Let_def simp flip: p_def q_def)
  qed
qed

lemma dec16_enc16 [fat_enc]: "dec16 (enc16 n val M) n = val AND 0xFFFF"
proof -
  have "ucast (ucast val :: WORD) = val AND 0xFFFF"
    unfolding masks by (rule bit_word_eqI) (auto simp: bit_simps)
  then show ?thesis by (simp add: dec16_def enc16_def bytes_of_word)
qed

lemma dec16_enc16_other [fat_enc]: "m \<noteq> n \<Longrightarrow> dec16 (enc16 n val M) m = dec16 M m"
  by (simp add: dec16_def enc16_def)

lemma dec32_bytes:
  "dec32 (M(4 * n := ucast x, 4 * n + 1 := ucast (drop_bit 8 x), 4 * n + 2 := ucast (drop_bit 16 x),
     4 * n + 3 := ucast (drop_bit 24 x))) n = x AND 0x0FFFFFFF"
  by (simp add: dec32_def bytes_of_dword)

lemma dec32_enc32 [fat_enc]: "dec32 (enc32 n val M) n = val AND 0x0FFFFFFF"
proof -
  have "(((val AND 0x0FFFFFFF) OR (old AND 0xF0000000)) AND 0x0FFFFFFF) = val AND 0x0FFFFFFF"
    for old :: DWORD
    unfolding masks by (rule bit_word_eqI) (auto simp: bit_simps)
  then show ?thesis by (simp only: enc32_def Let_def dec32_bytes)
qed

lemma dec32_enc32_other [fat_enc]: "m \<noteq> n \<Longrightarrow> dec32 (enc32 n val M) m = dec32 M m"
  by (simp add: dec32_def enc32_def Let_def)


section \<open>Where the table lies\<close>

lemma vol_ok_bounds:
  assumes "vol_ok v"
  shows "unat (fatbase v) + unat (fsize v) < 2 ^ 32" and "n_fats v = 2 \<Longrightarrow> 2 * unat (fsize v) \<le> 2 ^ 32"
    and "fat_size v \<le> 512 * unat (fsize v)" and "fs_type v \<in> {FS_FAT12, FS_FAT16, FS_FAT32}"
    and "unat (n_fatent v) \<le> max_fatent (fs_type v)" and "3 \<le> unat (n_fatent v)"
proof -
  have n: "unat (n_fats v) = 1 \<or> unat (n_fats v) = 2" and n2: "n_fats v = 2 \<Longrightarrow> unat (n_fats v) = 2"
    using assms by (auto simp: vol_ok_def)
  have b: "unat (fatbase v) + unat (n_fats v) * unat (fsize v) < 2 ^ 32"
    using assms by (auto simp: vol_ok_def)
  show "unat (fatbase v) + unat (fsize v) < 2 ^ 32" using b n by auto
  show "2 * unat (fsize v) \<le> 2 ^ 32" if "n_fats v = 2" using b n2 [OF that] by simp
qed (use assms in \<open>auto simp: vol_ok_def\<close>)

text \<open>A byte of the table lies in a sector of the first FAT, which is never mirrored onto.\<close>

lemma unat_fatsec:
  assumes "vol_ok v" and "k < 512 * unat (fsize v)"
  shows "unat (fatsec v k) = unat (fatbase v) + k div 512"
proof -
  have k: "k div 512 < unat (fsize v)" using assms(2) by (simp add: less_mult_imp_div_less mult.commute)
  then have "k div 512 < 2 ^ 32" using unat_less32 [of "fsize v"] by simp
  then have "unat (of_nat (k div 512) :: DWORD) = k div 512"
    by (simp add: unat_of_nat32)
  then show ?thesis using k vol_ok_bounds(1) [OF assms(1)]
    by (simp add: fatsec_def unat_plus_if')
qed

lemma fatsec_ok:
  assumes "vol_ok v" and "k < 512 * unat (fsize v)"
  shows "fatsec v k \<noteq> DISK_ERR" and "\<not> mirrored v (fatsec v k)" and "in_fat v (fatsec v k)"
proof -
  have k: "k div 512 < unat (fsize v)" using assms(2) by (simp add: less_mult_imp_div_less mult.commute)
  have u: "unat (fatsec v k) < 2 ^ 32 - 1"
    using unat_fatsec [OF assms] k vol_ok_bounds(1) [OF assms(1)] by simp
  then show "fatsec v k \<noteq> DISK_ERR" by (auto simp: unat_eq_iff [symmetric])
  have d: "unat (of_nat (k div 512) :: DWORD) = k div 512"
    using k unat_less32 [of "fsize v"] by (simp add: unat_of_nat32)
  have e: "fatsec v k - fatbase v = of_nat (k div 512)" by (simp add: fatsec_def)
  show "in_fat v (fatsec v k)"
    using k d by (simp add: in_fat_def e word_less_nat_alt)
  show "\<not> mirrored v (fatsec v k)"
  proof
    assume m: "mirrored v (fatsec v k)"
    then have n2: "n_fats v = 2" and lt: "of_nat (k div 512) - fsize v < fsize v"
      by (auto simp: mirrored_def fatsec_def algebra_simps)
    have "unat (of_nat (k div 512) - fsize v) = 2 ^ 32 + k div 512 - unat (fsize v)"
      using k d by (simp add: unat_sub_if')
    then show False
      using lt k d vol_ok_bounds(2) [OF assms(1) n2] by (simp add: word_less_nat_alt)
  qed
qed

lemma fatsec_inj:
  assumes "vol_ok v" "j < 512 * unat (fsize v)" "k < 512 * unat (fsize v)"
  shows "fatsec v j = fatsec v k \<longleftrightarrow> j div 512 = k div 512"
  using unat_fatsec [OF assms(1,2)] unat_fatsec [OF assms(1,3)] by (metis add_left_cancel fatsec_def)

text \<open>The geometry is not touched by window traffic.\<close>

lemma wframe_geom [frame_simps]:
  assumes "wframe v v'"
  shows "vol_ok v' = vol_ok v" "valid_clst v' = valid_clst v" "in_fat v' = in_fat v"
    "fatsec v' = fatsec v" "fat_size v' = fat_size v"
  using wframe_fields [OF assms]
  by (auto simp: vol_ok_def valid_clst_def in_fat_def fatsec_def fat_size_def Let_def fun_eq_iff)

lemma moves_fatbyte:
  assumes "moves v v'" "vol_ok v" "k < 512 * unat (fsize v)"
  shows "fatbyte v' k = fatbyte v k"
proof -
  have "vsec v' (fatsec v k) = vsec v (fatsec v k)"
    using assms(1) fatsec_ok [OF assms(2,3)] by (simp add: moves_def)
  then show ?thesis using wframe_geom(4) [of v v'] assms(1) by (simp add: fatbyte_def moves_def)
qed

text \<open>Storing through the window changes the byte memory where the window lies.\<close>

lemma poke_fatbyte:
  assumes "vol_ok v" "k < 512 * unat (fsize v)" "j < 512 * unat (fsize v)" "winsect v = fatsec v k"
  shows "fatbyte (v\<lparr>win := w, wflag := f\<rparr>) j =
    (if j div 512 = k div 512 then w ! (j mod 512) else fatbyte v j)"
  using fatsec_inj [OF assms(1,3,2)] assms(4)
  by (auto simp: fatbyte_def vsec_def fatsec_def)

section \<open>Reading an entry\<close>

lemma fatsec_word: "fatbase v + x div SS = fatsec v (unat x)"
proof -
  have "of_nat (unat x div 512) = (of_nat (unat (x div SS)) :: DWORD)"
    by (simp add: unat_div)
  then show ?thesis by (simp add: fatsec_def)
qed

lemma unat_mod_SS: "unat (x mod SS) = unat x mod 512"
  by (simp add: unat_mod)

lemma fat12_fits:
  assumes "c < (n :: nat)"
  shows "Suc (c + c div 2) < n * 3 div 2 + n mod 2"
proof -
  define m b k a where "m = n div 2" and "b = n mod 2" and "k = c div 2" and "a = c mod 2"
  have n: "n = 2 * m + b" and c: "c = 2 * k + a" and ab: "a < 2" "b < 2"
    unfolding m_def b_def k_def a_def by simp_all
  have "n * 3 div 2 = 3 * m + b" using n ab(2) by (auto simp: less_2_cases_iff)
  moreover have "c + c div 2 = 3 * k + a" using c ab(1) by simp
  moreover have "k < m \<or> k = m \<and> a < b" using assms n c ab by linarith
  moreover have "n mod 2 = b" by (simp add: b_def)
  ultimately show ?thesis using ab by auto
qed

text \<open>The offsets the code computes on 32-bit words are the ones the decoder uses.\<close>

lemma offsets:
  assumes "vol_ok v" "valid_clst v c"
  shows "fs_type v = FS_FAT12 \<Longrightarrow> unat (c + c div 2) = unat c + unat c div 2"
    and "fs_type v = FS_FAT12 \<Longrightarrow> unat (c + c div 2 + 1) = Suc (unat c + unat c div 2)"
    and "fs_type v = FS_FAT16 \<Longrightarrow> unat (c * 2) = 2 * unat c"
    and "fs_type v = FS_FAT32 \<Longrightarrow> unat (c * 4) = 4 * unat c"
    and "fs_type v = FS_FAT12 \<Longrightarrow> Suc (unat c + unat c div 2) < 512 * unat (fsize v)"
    and "fs_type v = FS_FAT16 \<Longrightarrow> 2 * unat c + 1 < 512 * unat (fsize v)"
    and "fs_type v = FS_FAT32 \<Longrightarrow> 4 * unat c + 3 < 512 * unat (fsize v)"
proof -
  have n: "unat c < unat (n_fatent v)" "unat (n_fatent v) \<le> max_fatent (fs_type v)"
    and sz: "fat_size v \<le> 512 * unat (fsize v)"
    using assms vol_ok_bounds [OF assms(1)] by (auto simp: valid_clst_def word_less_nat_alt)
  show a: "unat (c + c div 2) = unat c + unat c div 2" if "fs_type v = FS_FAT12"
  proof -
    have "unat c + unat c div 2 < 2 ^ 32" using n that by (simp add: max_fatent_def)
    then show ?thesis by (simp add: unat_plus_if' unat_div)
  qed
  show "unat (c + c div 2 + 1) = Suc (unat c + unat c div 2)" if "fs_type v = FS_FAT12"
    using n that a [OF that] by (simp add: max_fatent_def unat_plus_if')
  show "unat (c * 2) = 2 * unat c" if "fs_type v = FS_FAT16"
    using n that by (simp add: max_fatent_def unat_mult_lem [THEN iffD1])
  show "unat (c * 4) = 4 * unat c" if "fs_type v = FS_FAT32"
    using n that by (simp add: max_fatent_def unat_mult_lem [THEN iffD1])
  show "Suc (unat c + unat c div 2) < 512 * unat (fsize v)" if "fs_type v = FS_FAT12"
    using fat12_fits [OF n(1)] sz that by (simp add: fat_size_def Let_def)
  show "2 * unat c + 1 < 512 * unat (fsize v)" if "fs_type v = FS_FAT16"
    using n sz that by (simp add: fat_size_def Let_def)
  show "4 * unat c + 3 < 512 * unat (fsize v)" if "fs_type v = FS_FAT32"
    using n sz that by (simp add: fat_size_def Let_def)
qed

text \<open>After a successful move to the sector of table byte \<open>k\<close>, the window shows that byte.\<close>

lemma move_fatbyte:
  assumes "wf_win v" "vol_ok v" "k < 512 * unat (fsize v)" "move_window (fatsec v k) v = (FR_OK, v')"
  shows "moves v v'" "winsect v' = fatsec v' k" "vol_ok v'" "wf_win v'" "fsize v' = fsize v"
    and "j div 512 = k div 512 \<Longrightarrow> win v' ! (j mod 512) = fatbyte v j"
proof -
  note mw = move_window_spec [OF assms(1,4)]
  show m: "moves v v'" "winsect v' = fatsec v' k" "vol_ok v'" "wf_win v'" "fsize v' = fsize v"
    using mw assms(2) wframe_geom [of v v'] wframe_fields(14) [of v v'] by (auto simp: moves_def)
  show "win v' ! (j mod 512) = fatbyte v j" if "j div 512 = k div 512"
  proof -
    have "vsec v' (fatsec v j) = vsec v (fatsec v j)"
      using m(1) fatsec_ok(1,2) [OF assms(2,3)] that by (simp add: moves_def fatsec_def)
    moreover have "vsec v' (fatsec v j) = win v'"
      using mw(4) that by (simp add: vsec_def fatsec_def)
    ultimately show ?thesis by (simp add: fatbyte_def)
  qed
qed

text \<open>Four-byte and two-byte entries never straddle a sector.\<close>

lemma aligned_div4:
  assumes "r < 4"
  shows "(4 * n + r) div 512 = 4 * n div (512 :: nat)" "(4 * n + r) mod 512 = 4 * n mod 512 + r"
proof -
  have "(4 * n + r) div 4 = n" "(4 * n + r) mod 4 = r" using assms by simp_all
  then show "(4 * n + r) div 512 = 4 * n div (512 :: nat)" "(4 * n + r) mod 512 = 4 * n mod 512 + r"
    using div_mult2_eq [of "4 * n + r" 4 128] div_mult2_eq [of "4 * n" 4 128]
      mod_mult2_eq [of "4 * n + r" 4 128] mod_mult2_eq [of "4 * n" 4 128] by simp_all
qed

lemma aligned_div2:
  assumes "r < 2"
  shows "(2 * n + r) div 512 = 2 * n div (512 :: nat)" "(2 * n + r) mod 512 = 2 * n mod 512 + r"
proof -
  have "(2 * n + r) div 2 = n" "(2 * n + r) mod 2 = r" using assms by simp_all
  then show "(2 * n + r) div 512 = 2 * n div (512 :: nat)" "(2 * n + r) mod 512 = 2 * n mod 512 + r"
    using div_mult2_eq [of "2 * n + r" 2 256] div_mult2_eq [of "2 * n" 2 256]
      mod_mult2_eq [of "2 * n + r" 2 256] mod_mult2_eq [of "2 * n" 2 256] by simp_all
qed

text \<open>The sector the code computes, as the sector of a table byte.\<close>

lemma fatsec16: "fatbase v + c div (SS div 2) = fatsec v (2 * unat c)"
proof -
  have "of_nat (unat c div 256) = (of_nat (unat (c div 256)) :: DWORD)" by (simp add: unat_div)
  moreover have "2 * unat c div 512 = unat c div 256" by simp
  ultimately show ?thesis by (simp add: fatsec_def)
qed

lemma fatsec32: "fatbase v + c div (SS div 4) = fatsec v (4 * unat c)"
proof -
  have "of_nat (unat c div 128) = (of_nat (unat (c div 128)) :: DWORD)" by (simp add: unat_div)
  moreover have "4 * unat c div 512 = unat c div 128" by simp
  ultimately show ?thesis by (simp add: fatsec_def)
qed

lemma ld_word_win:
  assumes "\<And>j. j div 512 = 2 * n div 512 \<Longrightarrow> w ! (j mod 512) = M j"
  shows "ucast (ld_word w (2 * n mod 512)) = dec16 M n"
  using assms [of "2 * n"] assms [of "2 * n + 1"] aligned_div2 [of 1 n]
  by (simp add: ld_word_def dec16_def)

lemma ld_dword_win:
  assumes "\<And>j. j div 512 = 4 * n div 512 \<Longrightarrow> w ! (j mod 512) = M j"
  shows "ld_dword w (4 * n mod 512) AND 0x0FFFFFFF = dec32 M n"
  using assms [of "4 * n"] assms [of "4 * n + 1"] assms [of "4 * n + 2"] assms [of "4 * n + 3"]
    aligned_div4 [of 1 n] aligned_div4 [of 2 n] aligned_div4 [of 3 n]
  by (simp add: ld_dword_def dec32_def)

lemma fat_entry_moves:
  assumes "moves v v'" "vol_ok v" "valid_clst v c"
  shows "fat_entry v' c = fat_entry v c"
proof -
  have t: "fs_type v' = fs_type v" using assms(1) wframe_fields(1) by (auto simp: moves_def)
  note o = offsets [OF assms(2,3)] and f = moves_fatbyte [OF assms(1,2)]
  consider "fs_type v = FS_FAT12" | "fs_type v = FS_FAT16" | "fs_type v = FS_FAT32"
    using vol_ok_bounds(4) [OF assms(2)] by auto
  then show ?thesis
    by cases (use o f in \<open>auto simp: fat_entry_def t dec_entry_def dec12_def dec16_def dec32_def Let_def\<close>)
qed

lemma get_fat_invalid: "\<not> valid_clst v c \<Longrightarrow> get_fat c v = (1, v)"
  by (auto simp: get_fat_def valid_clst_def not_less)

lemma get_fat_valid: "valid_clst v c \<Longrightarrow> \<not> (c < 2 \<or> n_fatent v \<le> c)"
  by (auto simp: valid_clst_def)

text \<open>One step of either operation: move the window to a table byte, or give up.\<close>

lemma move_step:
  assumes "wf_win v" "vol_ok v" "k < 512 * unat (fsize v)" "move_window (fatsec v k) v = (r, v1)"
  shows "moves v v1" and "r \<noteq> FR_OK \<Longrightarrow> \<not> drive_ok v" and "wf_win v1" and "vol_ok v1"
    and "fsize v1 = fsize v" and "fatbase v1 = fatbase v" and "fs_type v1 = fs_type v"
    and "fatbyte v1 j = fatbyte v j \<or> \<not> j < 512 * unat (fsize v)"
    and "r = FR_OK \<Longrightarrow> j div 512 = k div 512 \<Longrightarrow> win v1 ! (j mod 512) = fatbyte v j"
proof -
  note mw = move_window_spec [OF assms(1,4)]
  show m: "moves v v1" by (rule mw(1))
  show "r \<noteq> FR_OK \<Longrightarrow> \<not> drive_ok v" using mw(3) by auto
  show "wf_win v1" "vol_ok v1" "fsize v1 = fsize v" "fatbase v1 = fatbase v" "fs_type v1 = fs_type v"
    using m assms(2) wframe_geom [of v v1] wframe_fields [of v v1] by (auto simp: moves_def)
  show "fatbyte v1 j = fatbyte v j \<or> \<not> j < 512 * unat (fsize v)"
    using moves_fatbyte [OF m assms(2)] by auto
  show "r = FR_OK \<Longrightarrow> j div 512 = k div 512 \<Longrightarrow> win v1 ! (j mod 512) = fatbyte v j"
    using move_fatbyte(6) [OF assms(1-3)] assms(4) by auto
qed

text \<open>Normal forms of the two operations, per width.\<close>

lemma get_fat12:
  assumes "vol_ok v" "valid_clst v c" "fs_type v = FS_FAT12"
  shows "get_fat c v =
    (let n = unat c; k = n + n div 2; (r, v1) = move_window (fatsec v k) v
     in if r \<noteq> FR_OK then (DISK_ERR, v1)
        else let wc = ucast (win v1 ! (k mod 512)); (r, v2) = move_window (fatsec v1 (Suc k)) v1
             in if r \<noteq> FR_OK then (DISK_ERR, v2)
                else let wc = wc OR push_bit 8 (ucast (win v2 ! (Suc k mod 512)))
                     in (if odd n then drop_bit 4 wc else wc AND 0xFFF, v2))"
proof -
  note o = offsets [OF assms(1,2)]
  have "fatbase w + (c + c div 2 + 1) div SS = fatsec w (Suc (unat c + unat c div 2))" for w :: vol
    using fatsec_word [of w "c + c div 2 + 1"] o(2) [OF assms(3)] by simp
  moreover have "fatbase v + (c + c div 2) div SS = fatsec v (unat c + unat c div 2)"
    using fatsec_word [of v "c + c div 2"] o(1) [OF assms(3)] by simp
  ultimately show ?thesis
    using get_fat_valid [OF assms(2)] assms(3) o(1,2) [OF assms(3)]
    by (simp add: get_fat_def Let_def unat_mod_SS odd_word_iff split: prod.split)
qed

lemma get_fat16:
  assumes "vol_ok v" "valid_clst v c" "fs_type v = FS_FAT16"
  shows "get_fat c v =
    (let (r, v1) = move_window (fatsec v (2 * unat c)) v
     in if r \<noteq> FR_OK then (DISK_ERR, v1) else (ucast (ld_word (win v1) (2 * unat c mod 512)), v1))"
  using get_fat_valid [OF assms(2)] assms(3) offsets(3) [OF assms(1,2)]
  by (simp add: get_fat_def Let_def unat_mod_SS fatsec16 [simplified] split: prod.split)

lemma get_fat32:
  assumes "vol_ok v" "valid_clst v c" "fs_type v = FS_FAT32"
  shows "get_fat c v =
    (let (r, v1) = move_window (fatsec v (4 * unat c)) v
     in if r \<noteq> FR_OK then (DISK_ERR, v1)
        else (ld_dword (win v1) (4 * unat c mod 512) AND 0x0FFFFFFF, v1))"
  using get_fat_valid [OF assms(2)] assms(3) offsets(4) [OF assms(1,2)]
  by (simp add: get_fat_def Let_def unat_mod_SS fatsec32 [simplified] split: prod.split)

lemma get_fat12_spec:
  assumes wf: "wf_win v" and ok: "vol_ok v" and val: "valid_clst v c" and t: "fs_type v = FS_FAT12"
    and g: "get_fat c v = (x, v')"
  shows "moves v v' \<and> (x = fat_entry v c \<or> x = DISK_ERR \<and> \<not> drive_ok v)"
proof -
  define n k where "n = unat c" and "k = n + n div 2"
  obtain r1 v1 where m1: "move_window (fatsec v k) v = (r1, v1)" by (cases "move_window (fatsec v k) v")
  obtain r2 v2 where m2: "move_window (fatsec v1 (Suc k)) v1 = (r2, v2)"
    by (cases "move_window (fatsec v1 (Suc k)) v1")
  have k: "k < 512 * unat (fsize v)" "Suc k < 512 * unat (fsize v)"
    using offsets(5) [OF ok val t] by (simp_all add: k_def n_def)
  note s1 = move_step [OF wf ok k(1) m1]
  note s2 = move_step [OF s1(3,4) _ m2, unfolded s1(5), OF k(2)]
  note eq = g [unfolded get_fat12 [OF ok val t] Let_def, folded n_def, folded k_def]
  show ?thesis
  proof (cases "r1 = FR_OK \<and> r2 = FR_OK")
    case False
    then show ?thesis using eq m1 m2 s1(1,2) s2(1,2) moves_trans [OF s1(1) s2(1)] movesD(3) [OF s1(1)]
      by (auto split: if_splits)
  next
    case True
    have b1: "win v1 ! (k mod 512) = fatbyte v k" using s1(9) [of k] True by simp
    have b2: "win v2 ! (Suc k mod 512) = fatbyte v (Suc k)"
      using s2(9) [of "Suc k"] s1(8) [of "Suc k"] k(2) True by simp
    have "x = fat_entry v c" "v' = v2"
      using eq m1 m2 True b1 b2 t by (auto simp: fat_entry_def dec_entry_def dec12_def Let_def n_def [symmetric] k_def [symmetric])
    then show ?thesis using moves_trans [OF s1(1) s2(1)] by simp
  qed
qed

lemma get_fat16_spec:
  assumes wf: "wf_win v" and ok: "vol_ok v" and val: "valid_clst v c" and t: "fs_type v = FS_FAT16"
    and g: "get_fat c v = (x, v')"
  shows "moves v v' \<and> (x = fat_entry v c \<or> x = DISK_ERR \<and> \<not> drive_ok v)"
proof -
  obtain r1 v1 where m1: "move_window (fatsec v (2 * unat c)) v = (r1, v1)"
    by (cases "move_window (fatsec v (2 * unat c)) v")
  have k: "2 * unat c < 512 * unat (fsize v)" using offsets(6) [OF ok val t] by simp
  note s1 = move_step [OF wf ok k m1]
  have "ucast (ld_word (win v1) (2 * unat c mod 512)) = fat_entry v c" if "r1 = FR_OK"
    using ld_word_win [of "unat c" "win v1" "fatbyte v"] s1(9) [OF that] t
    by (simp add: fat_entry_def dec_entry_def)
  then show ?thesis
    using g m1 s1(1,2) by (auto simp: get_fat16 [OF ok val t] split: if_splits)
qed

lemma get_fat32_spec:
  assumes wf: "wf_win v" and ok: "vol_ok v" and val: "valid_clst v c" and t: "fs_type v = FS_FAT32"
    and g: "get_fat c v = (x, v')"
  shows "moves v v' \<and> (x = fat_entry v c \<or> x = DISK_ERR \<and> \<not> drive_ok v)"
proof -
  obtain r1 v1 where m1: "move_window (fatsec v (4 * unat c)) v = (r1, v1)"
    by (cases "move_window (fatsec v (4 * unat c)) v")
  have k: "4 * unat c < 512 * unat (fsize v)" using offsets(7) [OF ok val t] by simp
  note s1 = move_step [OF wf ok k m1]
  have "ld_dword (win v1) (4 * unat c mod 512) AND 0x0FFFFFFF = fat_entry v c" if "r1 = FR_OK"
    using ld_dword_win [of "unat c" "win v1" "fatbyte v"] s1(9) [OF that] t
    by (simp add: fat_entry_def dec_entry_def)
  then show ?thesis
    using g m1 s1(1,2) by (auto simp: get_fat32 [OF ok val t] split: if_splits)
qed

lemma fs_type_cases:
  assumes "vol_ok v"
  obtains (t12) "fs_type v = FS_FAT12" | (t16) "fs_type v = FS_FAT16" | (t32) "fs_type v = FS_FAT32"
  using vol_ok_bounds(4) [OF assms] by auto

lemma get_fat_spec:
  assumes wf: "wf_win v" and ok: "vol_ok v" and g: "get_fat c v = (x, v')"
  shows "moves v v'"
    and "valid_clst v c \<Longrightarrow> x = fat_entry v c \<or> x = DISK_ERR \<and> \<not> drive_ok v"
    and "\<not> valid_clst v c \<Longrightarrow> x = 1 \<and> v' = v"
proof -
  have "moves v v' \<and> (x = fat_entry v c \<or> x = DISK_ERR \<and> \<not> drive_ok v)" if val: "valid_clst v c"
    using ok by (cases rule: fs_type_cases)
      (use get_fat12_spec get_fat16_spec get_fat32_spec wf ok val g in blast)+
  moreover have "x = 1 \<and> v' = v" if "\<not> valid_clst v c"
    using g get_fat_invalid [OF that] by simp
  ultimately show "moves v v'" "valid_clst v c \<Longrightarrow> x = fat_entry v c \<or> x = DISK_ERR \<and> \<not> drive_ok v"
    "\<not> valid_clst v c \<Longrightarrow> x = 1 \<and> v' = v"
    using wf by (cases "valid_clst v c", auto)+
qed

section \<open>Changing an entry\<close>

text \<open>The effect of an operation that may change the table but nothing outside it.\<close>

definition touches :: "vol \<Rightarrow> vol \<Rightarrow> bool" where
  "touches v v' \<longleftrightarrow> wframe v v' \<and> wf_win v' \<and>
     (\<forall>s. s \<noteq> DISK_ERR \<longrightarrow> \<not> mirrored v s \<longrightarrow> \<not> in_fat v s \<longrightarrow> vsec v' s = vsec v s) \<and>
     (drive_ok v \<longrightarrow> drive_ok v')"

lemma moves_touches: "moves v v' \<Longrightarrow> touches v v'"
  by (auto simp: moves_def touches_def)

lemma touches_trans: "touches a b \<Longrightarrow> touches b c \<Longrightarrow> touches a c"
  using wframe_trans [of a b c] wframe_mirrored [of a b] wframe_geom(3) [of a b]
  by (auto simp: touches_def)

lemma touches_drive: "touches a b \<Longrightarrow> drive_ok a \<Longrightarrow> drive_ok b"
  by (simp add: touches_def)

lemma poke_touches:
  assumes "vol_ok v" "wf_win v" "k < 512 * unat (fsize v)" "winsect v = fatsec v k" "length w = 512"
  shows "touches v (v\<lparr>win := w, wflag := 1\<rparr>)"
  using assms fatsec_ok(3) [OF assms(1,3)]
  by (auto simp: touches_def wframe_def wf_win_def vsec_def drive_ok_def)

lemma poke_geom [simp]:
  "vol_ok (v\<lparr>win := w, wflag := f\<rparr>) = vol_ok v" "fatsec (v\<lparr>win := w, wflag := f\<rparr>) = fatsec v"
  "valid_clst (v\<lparr>win := w, wflag := f\<rparr>) = valid_clst v"
  by (auto simp: vol_ok_def fatsec_def valid_clst_def fat_size_def fun_eq_iff)

lemma dec_entry_cong:
  assumes "vol_ok v" "valid_clst v x" "\<And>k. k < 512 * unat (fsize v) \<Longrightarrow> M k = M' k"
  shows "dec_entry (fs_type v) M (unat x) = dec_entry (fs_type v) M' (unat x)"
  using assms(1)
proof (cases rule: fs_type_cases)
  case t12
  show ?thesis using offsets(5) [OF assms(1,2) t12] assms(3) t12 by (simp add: dec_entry_def dec12_def Let_def)
next
  case t16
  show ?thesis using offsets(6) [OF assms(1,2) t16] assms(3) t16 by (simp add: dec_entry_def dec16_def Let_def)
next
  case t32
  show ?thesis using offsets(7) [OF assms(1,2) t32] assms(3) t32 by (simp add: dec_entry_def dec32_def Let_def)
qed

definition enc_entry :: "BYTE \<Rightarrow> nat \<Rightarrow> DWORD \<Rightarrow> (nat \<Rightarrow> BYTE) \<Rightarrow> nat \<Rightarrow> BYTE" where
  "enc_entry t n val M =
     (if t = FS_FAT12 then enc12 n val M else if t = FS_FAT16 then enc16 n val M else enc32 n val M)"

lemma dec_enc_entry:
  "dec_entry t (enc_entry t n val M) m = (if m = n then trunc_entry t val else dec_entry t M m)"
  by (simp add: dec_entry_def enc_entry_def trunc_entry_def fat_enc)

lemma put_fat_invalid: "\<not> valid_clst v c \<Longrightarrow> put_fat c val v = (FR_INT_ERR, v)"
  by (auto simp: put_fat_def valid_clst_def not_less)

lemma put_fat12:
  assumes "vol_ok v" "valid_clst v c" "fs_type v = FS_FAT12"
  shows "put_fat c val v =
    (let n = unat c; k = n + n div 2; (r, v) = move_window (fatsec v k) v
     in if r \<noteq> FR_OK then (r, v)
        else let b = (if odd n then (win v ! (k mod 512) AND 0x0F) OR push_bit 4 (ucast val) else ucast val);
                 v = v\<lparr>win := (win v)[k mod 512 := b], wflag := 1\<rparr>;
                 (r, v) = move_window (fatsec v (Suc k)) v
             in if r \<noteq> FR_OK then (r, v)
                else let b = (if odd n then ucast (drop_bit 4 val)
                              else (win v ! (Suc k mod 512) AND 0xF0) OR (ucast (drop_bit 8 val) AND 0x0F))
                     in (r, v\<lparr>win := (win v)[Suc k mod 512 := b], wflag := 1\<rparr>))"
proof -
  note o = offsets [OF assms(1,2)]
  have "fatbase w + (c + c div 2 + 1) div SS = fatsec w (Suc (unat c + unat c div 2))" for w :: vol
    using fatsec_word [of w "c + c div 2 + 1"] o(2) [OF assms(3)] by simp
  moreover have "fatbase v + (c + c div 2) div SS = fatsec v (unat c + unat c div 2)"
    using fatsec_word [of v "c + c div 2"] o(1) [OF assms(3)] by simp
  moreover have "2 \<le> c \<and> c < n_fatent v" using assms(2) by (simp add: valid_clst_def)
  ultimately show ?thesis
    using assms(3) o(1,2) [OF assms(3)]
    by (simp add: put_fat_def Let_def unat_mod_SS odd_word_iff fatsec_def split: prod.split)
qed

lemma put_fat16:
  assumes "vol_ok v" "valid_clst v c" "fs_type v = FS_FAT16"
  shows "put_fat c val v =
    (let (r, v) = move_window (fatsec v (2 * unat c)) v
     in if r \<noteq> FR_OK then (r, v)
        else (r, v\<lparr>win := st_word (2 * unat c mod 512) (ucast val) (win v), wflag := 1\<rparr>))"
  using assms(2,3) offsets(3) [OF assms(1,2)]
  by (simp add: put_fat_def valid_clst_def Let_def unat_mod_SS fatsec16 [simplified] split: prod.split)

lemma put_fat32:
  assumes "vol_ok v" "valid_clst v c" "fs_type v = FS_FAT32"
  shows "put_fat c val v =
    (let (r, v) = move_window (fatsec v (4 * unat c)) v; k = 4 * unat c mod 512
     in if r \<noteq> FR_OK then (r, v)
        else let val = (val AND 0x0FFFFFFF) OR (ld_dword (win v) k AND 0xF0000000)
             in (r, v\<lparr>win := st_dword k val (win v), wflag := 1\<rparr>))"
  using assms(2,3) offsets(4) [OF assms(1,2)]
  by (simp add: put_fat_def valid_clst_def Let_def unat_mod_SS fatsec32 [simplified] split: prod.split)

text \<open>One store after a successful move: the byte memory changes as the window does.\<close>

lemma store_step:
  assumes "wf_win v" "vol_ok v" "k < 512 * unat (fsize v)" "move_window (fatsec v k) v = (FR_OK, v1)"
    and "length w = 512"
  defines "v2 \<equiv> v1\<lparr>win := w, wflag := 1\<rparr>"
  shows "touches v v2" and "vol_ok v2" and "wf_win v2" and "fsize v2 = fsize v" and "fatsec v2 = fatsec v"
    and "j < 512 * unat (fsize v) \<Longrightarrow>
      fatbyte v2 j = (if j div 512 = k div 512 then w ! (j mod 512) else fatbyte v j)"
proof -
  note s = move_step [OF assms(1-4)]
  have ws: "winsect v1 = fatsec v1 k"
    using move_fatbyte(2) [OF assms(1-4)] by simp
  have k: "k < 512 * unat (fsize v1)" using assms(3) s(5) by simp
  show t: "touches v v2"
    using moves_touches [OF s(1)] poke_touches [OF s(4,3) k ws assms(5)] touches_trans v2_def by blast
  show "vol_ok v2" "fsize v2 = fsize v" using s(4,5) by (simp_all add: v2_def)
  show "wf_win v2" using t by (simp add: touches_def)
  show "fatsec v2 = fatsec v" using wframe_geom(4) [of v v2] t by (simp add: touches_def)
  show "fatbyte v2 j = (if j div 512 = k div 512 then w ! (j mod 512) else fatbyte v j)"
    if "j < 512 * unat (fsize v)"
    using poke_fatbyte [OF s(4) k _ ws, where j = j and w = w and f = 1] that s(5) s(8) [of j]
    by (auto simp: v2_def)
qed

lemma length_win: "wf_win v \<Longrightarrow> length (win v) = 512"
  by (simp add: wf_win_def)

text \<open>
  The specification of one put: it stays inside the table; when it succeeds the byte memory has
  changed as the encoder says.
\<close>

definition put_rel :: "DWORD \<Rightarrow> DWORD \<Rightarrow> vol \<Rightarrow> FRESULT \<Rightarrow> vol \<Rightarrow> bool" where
  "put_rel c val v r v' \<longleftrightarrow> touches v v' \<and> (r = FR_OK \<or> r = FR_DISK_ERR \<and> \<not> drive_ok v) \<and>
     (r = FR_OK \<longrightarrow> (\<forall>k < 512 * unat (fsize v).
        fatbyte v' k = enc_entry (fs_type v) (unat c) val (fatbyte v) k))"

lemma move_fail:
  assumes "wf_win v" "move_window s v = (r, v1)" "r \<noteq> FR_OK"
  shows "touches v v1 \<and> r = FR_DISK_ERR \<and> \<not> drive_ok v"
  using move_window_spec [OF assms(1,2)] assms(3) moves_touches by auto

lemma nth_update_mod:
  assumes "length w = 512" "j div 512 = k div (512 :: nat)"
  shows "w[k mod 512 := b] ! (j mod 512) = (if j = k then b else w ! (j mod 512))"
proof -
  have "j = k" if "k mod 512 = j mod 512" using that assms(2) by (metis div_mult_mod_eq)
  then show ?thesis using assms(1) by (auto simp: nth_list_update)
qed

lemma put_fat12_spec:
  assumes wf: "wf_win v" and ok: "vol_ok v" and val: "valid_clst v c" and t: "fs_type v = FS_FAT12"
    and g: "put_fat c x v = (r, v')"
  shows "put_rel c x v r v'"
proof -
  define n k where "n = unat c" and "k = n + n div 2"
  note eq = g [unfolded put_fat12 [OF ok val t] Let_def, folded n_def, folded k_def]
  have k: "k < 512 * unat (fsize v)" "Suc k < 512 * unat (fsize v)"
    using offsets(5) [OF ok val t] by (simp_all add: k_def n_def)
  obtain r1 v1 where m1: "move_window (fatsec v k) v = (r1, v1)" by (cases "move_window (fatsec v k) v")
  show ?thesis
  proof (cases "r1 = FR_OK")
    case False
    then show ?thesis using eq m1 move_fail [OF wf m1] by (auto simp: put_rel_def)
  next
    case r1: True
    define b1 where "b1 = (if odd n then (win v1 ! (k mod 512) AND 0x0F) OR push_bit 4 (ucast x) else ucast x)"
    define u where "u = v1\<lparr>win := (win v1)[k mod 512 := b1], wflag := 1\<rparr>"
    have len1: "length (win v1) = 512" using move_step(3) [OF wf ok k(1) m1] by (rule length_win)
    then have "length ((win v1)[k mod 512 := b1]) = 512" by simp
    note s1 = store_step [OF wf ok k(1) m1 [unfolded r1] this, folded u_def]
    have f1: "fatbyte u j = (if j = k then b1 else fatbyte v j)" if "j < 512 * unat (fsize v)" for j
      using s1(6) [OF that] nth_update_mod [OF len1, of j k b1] move_step(9) [OF wf ok k(1) m1 r1, of j]
      by auto
    have b1: "b1 = (if odd n then (fatbyte v k AND 0x0F) OR push_bit 4 (ucast x) else ucast x)"
      using move_step(9) [OF wf ok k(1) m1 r1, of k] by (simp add: b1_def)
    obtain r2 v2 where m2: "move_window (fatsec u (Suc k)) u = (r2, v2)"
      by (cases "move_window (fatsec u (Suc k)) u")
    show ?thesis
    proof (cases "r2 = FR_OK")
      case False
      then have "r = r2" "v' = v2" using eq m1 m2 r1 by (auto simp: u_def b1_def Let_def)
      moreover have "touches v v2" "r2 = FR_DISK_ERR" "\<not> drive_ok v"
        using move_fail [OF s1(3) m2 False] touches_trans [OF s1(1)] touches_drive [OF s1(1)] by blast+
      ultimately show ?thesis using False by (simp add: put_rel_def)
    next
      case r2: True
      have ku: "Suc k < 512 * unat (fsize u)" using k(2) s1(4) by simp
      define b2 where "b2 = (if odd n then ucast (drop_bit 4 x)
        else (win v2 ! (Suc k mod 512) AND 0xF0) OR (ucast (drop_bit 8 x) AND 0x0F))"
      have len2: "length (win v2) = 512" using move_step(3) [OF s1(3,2) ku m2] by (rule length_win)
      then have "length ((win v2)[Suc k mod 512 := b2]) = 512" by simp
      note s2 = store_step [OF s1(3,2) ku m2 [unfolded r2] this]
      have v': "r = FR_OK" "v' = v2\<lparr>win := (win v2)[Suc k mod 512 := b2], wflag := 1\<rparr>"
        using eq m1 m2 r1 r2 by (auto simp: u_def b1_def b2_def Let_def)
      have f2: "fatbyte v' j = (if j = Suc k then b2 else fatbyte u j)" if "j < 512 * unat (fsize v)" for j
        using s2(6) [of j] that s1(4) nth_update_mod [OF len2, of j "Suc k" b2]
          move_step(9) [OF s1(3,2) ku m2 r2, of j] by (auto simp: v')
      have b2: "b2 = (if odd n then ucast (drop_bit 4 x)
          else (fatbyte v (Suc k) AND 0xF0) OR (ucast (drop_bit 8 x) AND 0x0F))"
        using move_step(9) [OF s1(3,2) ku m2 r2, of "Suc k"] f1 [OF k(2)] by (simp add: b2_def)
      have "fatbyte v' j = enc_entry (fs_type v) (unat c) x (fatbyte v) j" if "j < 512 * unat (fsize v)" for j
        using f1 [OF that] f2 [OF that] b1 b2 t
        by (auto simp: enc_entry_def enc12_def Let_def n_def [symmetric] k_def [symmetric])
      moreover have "touches v v'" using touches_trans [OF s1(1) s2(1)] by (simp add: v')
      ultimately show ?thesis by (simp add: put_rel_def v'(1))
    qed
  qed
qed

text \<open>Stores at aligned offsets, seen by absolute byte position.\<close>

lemma same_sector_eq:
  "j div 512 = k div 512 \<Longrightarrow> (k + r) div 512 = k div (512 :: nat) \<Longrightarrow> (k + r) mod 512 = k mod 512 + r \<Longrightarrow>
     j mod 512 = k mod 512 + r \<longleftrightarrow> j = k + r"
  by (metis div_mult_mod_eq)

lemma st_word_abs:
  assumes "length p = 512" "k = 2 * n" "j div 512 = k div 512"
  shows "st_word (k mod 512) x p ! (j mod 512) =
    (if j = k + 1 then ucast (drop_bit 8 x) else if j = k then ucast x else p ! (j mod 512))"
proof -
  have j: "j mod 512 < length p" by (simp add: assms(1))
  have "j mod 512 = k mod 512 + 1 \<longleftrightarrow> j = k + 1"
    by (rule same_sector_eq [OF assms(3)]) (use aligned_div2 [of 1 n] assms(2) in simp_all)
  moreover have "j mod 512 = k mod 512 \<longleftrightarrow> j = k"
    using same_sector_eq [OF assms(3), of 0] by simp
  ultimately show ?thesis by (simp only: nth_st_word [OF j])
qed

lemma st_dword_abs:
  assumes "length p = 512" "k = 4 * n" "j div 512 = k div 512"
  shows "st_dword (k mod 512) x p ! (j mod 512) =
    (if j = k + 3 then ucast (drop_bit 24 x) else if j = k + 2 then ucast (drop_bit 16 x)
     else if j = k + 1 then ucast (drop_bit 8 x) else if j = k then ucast x else p ! (j mod 512))"
proof -
  have j: "j mod 512 < length p" by (simp add: assms(1))
  have "j mod 512 = k mod 512 + r \<longleftrightarrow> j = k + r" if "r < 4" for r
    by (rule same_sector_eq [OF assms(3)]) (simp_all only: assms(2) aligned_div4 [OF that])
  from this [of 1] this [of 2] this [of 3]
  have "j mod 512 = k mod 512 + 1 \<longleftrightarrow> j = k + 1" "j mod 512 = k mod 512 + 2 \<longleftrightarrow> j = k + 2"
    "j mod 512 = k mod 512 + 3 \<longleftrightarrow> j = k + 3" by simp_all
  moreover have "j mod 512 = k mod 512 \<longleftrightarrow> j = k"
    using same_sector_eq [OF assms(3), of 0] by simp
  ultimately show ?thesis by (simp only: nth_st_dword [OF j])
qed

lemma put_fat16_spec:
  assumes wf: "wf_win v" and ok: "vol_ok v" and val: "valid_clst v c" and t: "fs_type v = FS_FAT16"
    and g: "put_fat c x v = (r, v')"
  shows "put_rel c x v r v' \<and> (r \<noteq> FR_OK \<longrightarrow> moves v v')"
proof -
  define k where "k = 2 * unat c"
  note eq = g [unfolded put_fat16 [OF ok val t] Let_def, folded k_def]
  have k: "k < 512 * unat (fsize v)" using offsets(6) [OF ok val t] by (simp add: k_def)
  obtain r1 v1 where m1: "move_window (fatsec v k) v = (r1, v1)" by (cases "move_window (fatsec v k) v")
  show ?thesis
  proof (cases "r1 = FR_OK")
    case False
    then show ?thesis using eq m1 move_fail [OF wf m1] move_step(1) [OF wf ok k m1] by (auto simp: put_rel_def)
  next
    case r1: True
    define w where "w = st_word (k mod 512) (ucast x) (win v1)"
    have len: "length (win v1) = 512" using move_step(3) [OF wf ok k m1] by (rule length_win)
    then have lw: "length w = 512" by (simp add: w_def)
    note s = store_step [OF wf ok k m1 [unfolded r1] lw]
    have v': "r = FR_OK" "v' = v1\<lparr>win := w, wflag := 1\<rparr>" using eq m1 r1 by (auto simp: w_def)
    have k1: "(k + 1) div 512 = k div 512" using aligned_div2 [of 1 "unat c"] by (simp add: k_def)
    have "fatbyte v' j = enc16 (unat c) x (fatbyte v) j" if j: "j < 512 * unat (fsize v)" for j
      using s(6) [OF j] st_word_abs [OF len k_def, of j] move_step(9) [OF wf ok k m1 r1, of j] k1
      by (auto simp: v' enc16_def w_def simp flip: k_def)
    then show ?thesis using s(1) t by (simp add: put_rel_def v'(1) enc_entry_def) (simp add: v')
  qed
qed

lemma put_fat32_spec:
  assumes wf: "wf_win v" and ok: "vol_ok v" and val: "valid_clst v c" and t: "fs_type v = FS_FAT32"
    and g: "put_fat c x v = (r, v')"
  shows "put_rel c x v r v' \<and> (r \<noteq> FR_OK \<longrightarrow> moves v v')"
proof -
  define k where "k = 4 * unat c"
  note eq = g [unfolded put_fat32 [OF ok val t] Let_def, folded k_def]
  have k: "k < 512 * unat (fsize v)" using offsets(7) [OF ok val t] by (simp add: k_def)
  obtain r1 v1 where m1: "move_window (fatsec v k) v = (r1, v1)" by (cases "move_window (fatsec v k) v")
  show ?thesis
  proof (cases "r1 = FR_OK")
    case False
    then show ?thesis using eq m1 move_fail [OF wf m1] move_step(1) [OF wf ok k m1] by (auto simp: put_rel_def)
  next
    case r1: True
    define y where "y = (x AND 0x0FFFFFFF) OR (ld_dword (win v1) (k mod 512) AND 0xF0000000)"
    define w where "w = st_dword (k mod 512) y (win v1)"
    have len: "length (win v1) = 512" using move_step(3) [OF wf ok k m1] by (rule length_win)
    then have lw: "length w = 512" by (simp add: w_def)
    note s = store_step [OF wf ok k m1 [unfolded r1] lw]
    have v': "r = FR_OK" "v' = v1\<lparr>win := w, wflag := 1\<rparr>" using eq m1 r1 by (auto simp: w_def y_def)
    have k1: "(k + 1) div 512 = k div 512" "(k + 2) div 512 = k div 512" "(k + 3) div 512 = k div 512"
      and km: "(k + 1) mod 512 = k mod 512 + 1" "(k + 2) mod 512 = k mod 512 + 2" "(k + 3) mod 512 = k mod 512 + 3"
      using aligned_div4 [of 1 "unat c"] aligned_div4 [of 2 "unat c"] aligned_div4 [of 3 "unat c"]
      by (simp_all add: k_def)
    note rd = move_step(9) [OF wf ok k m1 r1]
    have "ld_dword (win v1) (k mod 512) =
        push_bit 8 (push_bit 8 (push_bit 8 (ucast (fatbyte v (k + 3))) OR ucast (fatbyte v (k + 2)))
          OR ucast (fatbyte v (k + 1))) OR ucast (fatbyte v k)"
      unfolding ld_dword_def Let_def km [symmetric] using rd [of k] rd [OF k1(1)] rd [OF k1(2)] rd [OF k1(3)]
      by simp
    then have y: "enc32 (unat c) x (fatbyte v) = (fatbyte v)(k := ucast y, k + 1 := ucast (drop_bit 8 y),
        k + 2 := ucast (drop_bit 16 y), k + 3 := ucast (drop_bit 24 y))"
      by (simp only: enc32_def Let_def y_def k_def)
    have "fatbyte v' j = enc32 (unat c) x (fatbyte v) j" if j: "j < 512 * unat (fsize v)" for j
      using s(6) [OF j] st_dword_abs [OF len k_def, of j y] rd [of j] k1
      unfolding y by (auto simp: v' w_def simp del: One_nat_def)
    then show ?thesis using s(1) t by (simp add: put_rel_def v'(1) enc_entry_def) (simp add: v')
  qed
qed

lemma put_fat_spec:
  assumes wf: "wf_win v" and ok: "vol_ok v" and val: "valid_clst v c" and g: "put_fat c x v = (r, v')"
  shows "touches v v'" and "r = FR_OK \<or> r = FR_DISK_ERR \<and> \<not> drive_ok v"
    and "r = FR_OK \<Longrightarrow> valid_clst v d \<Longrightarrow>
      fat_entry v' d = (if d = c then trunc_entry (fs_type v) x else fat_entry v d)"
proof -
  have rel: "put_rel c x v r v'"
    using ok by (cases rule: fs_type_cases)
      (use put_fat12_spec [OF wf ok val _ g] put_fat16_spec [OF wf ok val _ g]
        put_fat32_spec [OF wf ok val _ g] in blast)+
  then show t: "touches v v'" and "r = FR_OK \<or> r = FR_DISK_ERR \<and> \<not> drive_ok v"
    by (simp_all add: put_rel_def)
  show "fat_entry v' d = (if d = c then trunc_entry (fs_type v) x else fat_entry v d)"
    if r: "r = FR_OK" and d: "valid_clst v d"
  proof -
    have "fatbyte v' k = enc_entry (fs_type v) (unat c) x (fatbyte v) k" if "k < 512 * unat (fsize v)" for k
      using rel r that by (simp add: put_rel_def)
    moreover have "fs_type v' = fs_type v" using t wframe_fields(1) by (simp add: touches_def)
    ultimately show ?thesis using dec_entry_cong [OF ok d, of "fatbyte v'"]
      by (auto simp: fat_entry_def dec_enc_entry unat_eq_iff)
  qed
qed

lemma touches_keeps [frame_simps]:
  assumes "touches v v'"
  shows "wf_win v'" "vol_ok v' = vol_ok v" "valid_clst v' = valid_clst v" "fs_type v' = fs_type v"
    "n_fatent v' = n_fatent v"
  using assms wframe_geom [of v v'] wframe_fields [of v v'] by (auto simp: touches_def)

section \<open>The table is a store of entries\<close>

text \<open>A volume on which every table access succeeds.\<close>

definition fat_good :: "vol \<Rightarrow> bool" where
  "fat_good v \<longleftrightarrow> wf_win v \<and> vol_ok v \<and> drive_ok v"

lemma fat_goodD: "fat_good v \<Longrightarrow> wf_win v" "fat_good v \<Longrightarrow> vol_ok v" "fat_good v \<Longrightarrow> drive_ok v"
  by (auto simp: fat_good_def)

lemma fat_good_touches: "fat_good v \<Longrightarrow> touches v v' \<Longrightarrow> fat_good v'"
  using touches_keeps [of v v'] touches_drive [of v v'] by (simp add: fat_good_def)

lemma touches_refl: "wf_win v \<Longrightarrow> touches v v"
  by (simp add: moves_touches)

interpretation fat: fat_store get_fat put_fat fat_entry valid_clst "\<lambda>v. trunc_entry (fs_type v)"
  fat_good "\<lambda>v v'. v = v' \<or> touches v v'"
proof (unfold_locales, goal_cases)
  case (1 s c x s')
  note g = get_fat_spec [OF fat_goodD(1,2) [OF 1(1)] 1(3)]
  then show ?case using 1 fat_good_touches [OF 1(1) moves_touches] fat_entry_moves [OF g(1) fat_goodD(2) [OF 1(1)]]
    moves_touches fat_goodD(3) by blast
next
  case (2 s c x r s')
  note p = put_fat_spec [OF fat_goodD(1,2) [OF 2(1)] 2(2,3)]
  then have "r = FR_OK" using fat_goodD(3) [OF 2(1)] by blast
  then show ?case using p fat_good_touches [OF 2(1)] by auto
next
  case (3 s s')
  then show ?case using touches_keeps [of s s'] by auto
next
  case (4 s s1 s2)
  then show ?case using touches_trans by blast
qed simp

end
