(* ===== verification/FatChain.thy ===== *)
theory FatChain
  imports FatTable
begin

text \<open>
  Removing and stretching cluster chains: \<open>remove_chain\<close> and \<open>create_chain\<close> of \<^verbatim>\<open>ff.c\<close>.  Both loop
  over what is read from the disk, so the loops are partial functions with value \<open>None\<close> for a run
  that never returns; that they do return, for every content of the table and every pattern of
  transfer errors, is proved.
\<close>

section \<open>Operations\<close>

partial_function (option) remove_loop :: "DWORD \<Rightarrow> vol \<Rightarrow> (FRESULT \<times> vol) option" where
  "remove_loop clst v =
     (let (nxt, v) = get_fat clst v
      in if nxt = 0 then Some (FR_OK, v)
         else if nxt = 1 then Some (FR_INT_ERR, v)
         else if nxt = 0xFFFFFFFF then Some (FR_DISK_ERR, v)
         else let (res, v) = put_fat clst 0 v
              in if res \<noteq> FR_OK then Some (res, v)
                 else let v = (if free_clst v < n_fatent v - 2
                               then v\<lparr>free_clst := free_clst v + 1, fsi_flag := fsi_flag v OR 1\<rparr>
                               else v)
                      in if nxt < n_fatent v then remove_loop nxt v else Some (FR_OK, v))"

definition remove_chain :: "DWORD \<Rightarrow> DWORD \<Rightarrow> vol \<Rightarrow> (FRESULT \<times> vol) option" where
  "remove_chain clst pclst v =
     (if clst < 2 \<or> clst \<ge> n_fatent v then Some (FR_INT_ERR, v)
      else let (res, v) = (if pclst \<noteq> 0 then put_fat pclst 0xFFFFFFFF v else (FR_OK, v))
           in if res \<noteq> FR_OK then Some (res, v) else remove_loop clst v)"

text \<open>
  The search loop of \<open>create_chain\<close>: \<open>Inr\<close> the free cluster found, or \<open>Inl\<close> the value the function
  returns from inside the loop.
\<close>

partial_function (option) create_scan ::
    "DWORD \<Rightarrow> DWORD \<Rightarrow> vol \<Rightarrow> ((DWORD + DWORD) \<times> vol) option" where
  "create_scan scl ncl v =
     (let ncl = ncl + 1
      in if ncl \<ge> n_fatent v \<and> 2 > scl then Some (Inl 0, v)
         else let ncl = (if ncl \<ge> n_fatent v then 2 else ncl); (cs, v) = get_fat ncl v
              in if cs = 0 then Some (Inr ncl, v)
                 else if cs = 1 \<or> cs = 0xFFFFFFFF then Some (Inl cs, v)
                 else if ncl = scl then Some (Inl 0, v)
                 else create_scan scl ncl v)"

text \<open>The part after a free cluster is known: claim it, link it, account for it.\<close>

definition create_claim :: "DWORD \<Rightarrow> DWORD \<Rightarrow> vol \<Rightarrow> DWORD \<times> vol" where
  "create_claim clst ncl v =
     (let (res, v) = put_fat ncl 0xFFFFFFFF v;
          (res, v) = (if res = FR_OK \<and> clst \<noteq> 0 then put_fat clst ncl v else (res, v))
      in if res = FR_OK then
           let v = v\<lparr>last_clst := ncl\<rparr>;
               v = (if free_clst v \<le> n_fatent v - 2 then v\<lparr>free_clst := free_clst v - 1\<rparr> else v)
           in (ncl, v\<lparr>fsi_flag := fsi_flag v OR 1\<rparr>)
         else (if res = FR_DISK_ERR then 0xFFFFFFFF else 1, v))"

text \<open>The part before it, from the suggested start \<open>scl\<close>.\<close>

definition create_find :: "DWORD \<Rightarrow> DWORD \<Rightarrow> vol \<Rightarrow> ((DWORD + DWORD) \<times> vol) option" where
  "create_find clst scl v =
     (if scl = clst then
        let ncl = scl + 1; ncl = (if ncl \<ge> n_fatent v then 2 else ncl);
            (cs, v) = get_fat ncl v
        in if cs = 1 \<or> cs = 0xFFFFFFFF then Some (Inl cs, v)
           else if cs \<noteq> 0 then
             let cs = last_clst v; scl = (if cs \<ge> 2 \<and> cs < n_fatent v then cs else scl)
             in create_scan scl scl v
           else Some (Inr ncl, v)
      else create_scan scl scl v)"

definition create_chain :: "DWORD \<Rightarrow> vol \<Rightarrow> (DWORD \<times> vol) option" where
  "create_chain clst v =
     (let (start, v) =
        (if clst = 0 then
           let scl = last_clst v
           in (Inr (if scl = 0 \<or> scl \<ge> n_fatent v then 1 else scl), v)
         else let (cs, v) = get_fat clst v
              in if cs < 2 then (Inl 1, v)
                 else if cs = 0xFFFFFFFF then (Inl cs, v)
                 else if cs < n_fatent v then (Inl cs, v)
                 else (Inr clst, v))
      in case start of
           Inl ret \<Rightarrow> Some (ret, v)
         | Inr scl \<Rightarrow>
             if free_clst v = 0 then Some (0, v)
             else case create_find clst scl v of
                    None \<Rightarrow> None
                  | Some (Inl ret, v) \<Rightarrow> Some (ret, v)
                  | Some (Inr ncl, v) \<Rightarrow> Some (create_claim clst ncl v))"

section \<open>Frames\<close>

text \<open>What the chain operations may change besides the window: the FSInfo bookkeeping.\<close>

definition gframe :: "vol \<Rightarrow> vol \<Rightarrow> bool" where
  "gframe v v' \<longleftrightarrow>
     v' = v\<lparr>win := win v', winsect := winsect v', wflag := wflag v', dk := dk v',
           free_clst := free_clst v', last_clst := last_clst v', fsi_flag := fsi_flag v'\<rparr> \<and>
     denv (dk v') = denv (dk v)"

text \<open>
  The effect of an operation on the sectors in \<open>S\<close>: every other sector outside the mirror keeps its
  content, the geometry is kept, and a working drive keeps working.
\<close>

definition effect :: "(DWORD \<Rightarrow> bool) \<Rightarrow> vol \<Rightarrow> vol \<Rightarrow> bool" where
  "effect S v v' \<longleftrightarrow> gframe v v' \<and> wf_win v' \<and>
     (\<forall>s. s \<noteq> DISK_ERR \<longrightarrow> \<not> mirrored v s \<longrightarrow> \<not> S s \<longrightarrow> vsec v' s = vsec v s) \<and>
     (drive_ok v \<longrightarrow> drive_ok v')"

lemma gframe_refl [simp]: "gframe v v"
  by (simp add: gframe_def)

lemma gframe_fields:
  assumes "gframe v v'"
  shows "fs_type v' = fs_type v" "pdrv v' = pdrv v" "ldrv v' = ldrv v" "n_fats v' = n_fats v"
    "fs_id v' = fs_id v" "n_rootdir v' = n_rootdir v" "csize v' = csize v" "lfnbuf v' = lfnbuf v"
    "cdir v' = cdir v" "n_fatent v' = n_fatent v" "fsize v' = fsize v" "volbase v' = volbase v"
    "fatbase v' = fatbase v" "dirbase v' = dirbase v" "database v' = database v"
    "denv (dk v') = denv (dk v)"
proof -
  have e: "v' = v\<lparr>win := win v', winsect := winsect v', wflag := wflag v', dk := dk v',
           free_clst := free_clst v', last_clst := last_clst v', fsi_flag := fsi_flag v'\<rparr>"
    using assms by (simp add: gframe_def)
  show "fs_type v' = fs_type v" "pdrv v' = pdrv v" "ldrv v' = ldrv v" "n_fats v' = n_fats v"
    "fs_id v' = fs_id v" "n_rootdir v' = n_rootdir v" "csize v' = csize v" "lfnbuf v' = lfnbuf v"
    "cdir v' = cdir v" "n_fatent v' = n_fatent v" "fsize v' = fsize v" "volbase v' = volbase v"
    "fatbase v' = fatbase v" "dirbase v' = dirbase v" "database v' = database v"
    by (subst e, simp)+
  show "denv (dk v') = denv (dk v)" using assms by (simp add: gframe_def)
qed

lemma gframeI:
  assumes "fs_type v' = fs_type v" "pdrv v' = pdrv v" "ldrv v' = ldrv v" "n_fats v' = n_fats v"
    "fs_id v' = fs_id v" "n_rootdir v' = n_rootdir v" "csize v' = csize v" "lfnbuf v' = lfnbuf v"
    "cdir v' = cdir v" "n_fatent v' = n_fatent v" "fsize v' = fsize v" "volbase v' = volbase v"
    "fatbase v' = fatbase v" "dirbase v' = dirbase v" "database v' = database v"
    "denv (dk v') = denv (dk v)"
  shows "gframe v v'"
  using assms unfolding gframe_def by (intro conjI vol.equality fatfs.equality) simp_all

lemma gframe_iff:
  "gframe v v' \<longleftrightarrow> fs_type v' = fs_type v \<and> pdrv v' = pdrv v \<and> ldrv v' = ldrv v \<and> n_fats v' = n_fats v \<and>
    fs_id v' = fs_id v \<and> n_rootdir v' = n_rootdir v \<and> csize v' = csize v \<and> lfnbuf v' = lfnbuf v \<and>
    cdir v' = cdir v \<and> n_fatent v' = n_fatent v \<and> fsize v' = fsize v \<and> volbase v' = volbase v \<and>
    fatbase v' = fatbase v \<and> dirbase v' = dirbase v \<and> database v' = database v \<and>
    denv (dk v') = denv (dk v)"
  by (rule iffI, (intro conjI; erule gframe_fields), (elim conjE, rule gframeI; assumption))

lemma gframe_trans: "gframe a b \<Longrightarrow> gframe b c \<Longrightarrow> gframe a c"
  using gframe_fields [of a b] gframe_fields [of b c] by (intro gframeI) simp_all

lemma wframe_gframe: "wframe a b \<Longrightarrow> gframe a b"
  using wframe_fields [of a b] by (intro gframeI) (simp_all add: wframe_def)

lemma gframe_geom [frame_simps]:
  assumes "gframe v v'"
  shows "vol_ok v' = vol_ok v" "valid_clst v' = valid_clst v" "in_fat v' = in_fat v"
    "fatsec v' = fatsec v" "mirrored v' = mirrored v" "clst2sect c v' = clst2sect c v"
  using gframe_fields [OF assms]
  by (auto simp: vol_ok_def valid_clst_def in_fat_def fatsec_def fat_size_def Let_def fun_eq_iff
      mirrored_def clst2sect_def)

lemma effect_refl [simp]: "wf_win v \<Longrightarrow> effect S v v"
  by (simp add: effect_def)

lemma effect_trans: "effect S a b \<Longrightarrow> effect S b c \<Longrightarrow> effect S a c"
  using gframe_trans [of a b c] gframe_geom(5) [of a b] by (auto simp: effect_def)

lemma effect_mono: "effect S a b \<Longrightarrow> (\<And>s. S s \<Longrightarrow> T s) \<Longrightarrow> effect T a b"
  by (auto simp: effect_def)

lemma moves_effect: "moves a b \<Longrightarrow> effect S a b"
  by (auto simp: moves_def effect_def wframe_gframe)

lemma touches_effect: "touches a b \<Longrightarrow> effect (in_fat a) a b"
  by (auto simp: touches_def effect_def wframe_gframe)

lemma effectD:
  assumes "effect S v v'"
  shows "gframe v v'" "wf_win v'" "drive_ok v \<Longrightarrow> drive_ok v'" "vol_ok v' = vol_ok v"
    "valid_clst v' = valid_clst v" "n_fatent v' = n_fatent v" "in_fat v' = in_fat v"
    "fs_type v' = fs_type v"
    "s \<noteq> DISK_ERR \<Longrightarrow> \<not> mirrored v s \<Longrightarrow> \<not> S s \<Longrightarrow> vsec v' s = vsec v s"
  using assms gframe_geom [of v v'] gframe_fields [of v v'] by (auto simp: effect_def)

text \<open>The bookkeeping fields are invisible to everything else.\<close>

lemma book_simps [simp]:
  "wf_win (v\<lparr>free_clst := a\<rparr>) = wf_win v" "wf_win (v\<lparr>last_clst := a\<rparr>) = wf_win v"
  "wf_win (v\<lparr>fsi_flag := f\<rparr>) = wf_win v"
  "vol_ok (v\<lparr>free_clst := a\<rparr>) = vol_ok v" "vol_ok (v\<lparr>last_clst := a\<rparr>) = vol_ok v"
  "vol_ok (v\<lparr>fsi_flag := f\<rparr>) = vol_ok v"
  "drive_ok (v\<lparr>free_clst := a\<rparr>) = drive_ok v" "drive_ok (v\<lparr>last_clst := a\<rparr>) = drive_ok v"
  "drive_ok (v\<lparr>fsi_flag := f\<rparr>) = drive_ok v"
  "valid_clst (v\<lparr>free_clst := a\<rparr>) = valid_clst v" "valid_clst (v\<lparr>last_clst := a\<rparr>) = valid_clst v"
  "valid_clst (v\<lparr>fsi_flag := f\<rparr>) = valid_clst v"
  by (auto simp: wf_win_def vol_ok_def drive_ok_def valid_clst_def fat_size_def Let_def fun_eq_iff)

lemma book_entry [simp]:
  "fat_entry (v\<lparr>free_clst := a\<rparr>) = fat_entry v" "fat_entry (v\<lparr>last_clst := a\<rparr>) = fat_entry v"
  "fat_entry (v\<lparr>fsi_flag := f\<rparr>) = fat_entry v"
proof -
  have "fatbyte (v\<lparr>free_clst := a\<rparr>) = fatbyte v" "fatbyte (v\<lparr>last_clst := a\<rparr>) = fatbyte v"
    "fatbyte (v\<lparr>fsi_flag := f\<rparr>) = fatbyte v"
    by (auto simp: fatbyte_def fatsec_def vsec_def fun_eq_iff)
  then show "fat_entry (v\<lparr>free_clst := a\<rparr>) = fat_entry v" "fat_entry (v\<lparr>last_clst := a\<rparr>) = fat_entry v"
    "fat_entry (v\<lparr>fsi_flag := f\<rparr>) = fat_entry v"
    by (simp_all add: fat_entry_def [abs_def])
qed

lemma effect_book [simp]:
  "effect S v (v'\<lparr>free_clst := a\<rparr>) = effect S v v'" "effect S v (v'\<lparr>last_clst := a\<rparr>) = effect S v v'"
  "effect S v (v'\<lparr>fsi_flag := f\<rparr>) = effect S v v'"
proof -
  have "gframe v (v'\<lparr>free_clst := a\<rparr>) = gframe v v'" "gframe v (v'\<lparr>last_clst := a\<rparr>) = gframe v v'"
    "gframe v (v'\<lparr>fsi_flag := f\<rparr>) = gframe v v'"
    by (simp_all add: gframe_iff)
  moreover have "vsec (v'\<lparr>free_clst := a\<rparr>) = vsec v'" "vsec (v'\<lparr>last_clst := a\<rparr>) = vsec v'"
    "vsec (v'\<lparr>fsi_flag := f\<rparr>) = vsec v'"
    by (auto simp: vsec_def fun_eq_iff)
  ultimately show "effect S v (v'\<lparr>free_clst := a\<rparr>) = effect S v v'" "effect S v (v'\<lparr>last_clst := a\<rparr>) = effect S v v'"
    "effect S v (v'\<lparr>fsi_flag := f\<rparr>) = effect S v v'"
    by (simp_all add: effect_def)
qed

section \<open>Removing a chain\<close>

definition used :: "vol \<Rightarrow> DWORD set" where
  "used v = {d. valid_clst v d \<and> fat_entry v d \<noteq> 0}"

lemma finite_used [simp]: "finite (used v)"
  by (rule finite_subset [of _ UNIV]) auto

lemma DISK_ERR_minus: "(DISK_ERR :: DWORD) = - 1"
  by simp

text \<open>An entry is at most 28 bits wide, so it is never mistaken for the error value.\<close>

lemma fat_entry_not_err: "fat_entry v c \<noteq> DISK_ERR"
proof
  assume "fat_entry v c = DISK_ERR"
  then have b: "bit (fat_entry v c) 31" by simp
  have "\<not> bit (fat_entry v c) 31"
    unfolding fat_entry_def dec_entry_def dec12_def dec16_def dec32_def masks
    by (simp add: Let_def bit_simps)
  with b show False by simp
qed

lemma put_fat_ok_valid: "put_fat c x v = (FR_OK, v') \<Longrightarrow> valid_clst v c"
  using put_fat_invalid [of v c x] by (cases "valid_clst v c") auto

text \<open>One round of the loop of \<open>remove_chain\<close>.\<close>

lemma remove_step:
  assumes wf: "wf_win v" and ok: "vol_ok v" and g: "get_fat c v = (x, v1)"
    and x: "x \<noteq> 1" "x \<noteq> DISK_ERR" and p: "put_fat c y v1 = (r, v2)"
  shows "valid_clst v c" "x = fat_entry v c" "touches v v2"
    and "r = FR_OK \<or> r = FR_DISK_ERR \<and> \<not> drive_ok v"
    and "r = FR_OK \<Longrightarrow> valid_clst v d \<Longrightarrow>
      fat_entry v2 d = (if d = c then trunc_entry (fs_type v) y else fat_entry v d)"
proof -
  note gs = get_fat_spec [OF wf ok g]
  show val: "valid_clst v c" using gs(3) x by blast
  show "x = fat_entry v c" using gs(2) [OF val] x by blast
  have k: "wf_win v1" "vol_ok v1" "valid_clst v1 = valid_clst v" "fs_type v1 = fs_type v"
    using touches_keeps [OF moves_touches [OF gs(1)]] ok by simp_all
  note ps = put_fat_spec [OF k(1,2) _ p, unfolded k(3), OF val]
  show "touches v v2" using touches_trans [OF moves_touches [OF gs(1)] ps(1)] .
  show "r = FR_OK \<or> r = FR_DISK_ERR \<and> \<not> drive_ok v" using ps(2) movesD(3) [OF gs(1)] by blast
  show "fat_entry v2 d = (if d = c then trunc_entry (fs_type v) y else fat_entry v d)"
    if "r = FR_OK" "valid_clst v d"
    using ps(3) [OF that] fat_entry_moves [OF gs(1) ok that(2)] k(4) by simp
qed

lemma trunc_zero [simp]: "trunc_entry t 0 = 0"
  by (simp add: trunc_entry_def)

text \<open>The step with the FSInfo counter.\<close>

definition count_free :: "vol \<Rightarrow> vol" where
  "count_free v =
     (if free_clst v < n_fatent v - 2 then v\<lparr>free_clst := free_clst v + 1, fsi_flag := fsi_flag v OR 1\<rparr> else v)"

lemma count_free_simps [simp]:
  "wf_win (count_free v) = wf_win v" "vol_ok (count_free v) = vol_ok v" "drive_ok (count_free v) = drive_ok v"
  "valid_clst (count_free v) = valid_clst v" "fat_entry (count_free v) = fat_entry v"
  "effect S u (count_free v) = effect S u v" "n_fatent (count_free v) = n_fatent v" "used (count_free v) = used v"
  "in_fat (count_free v) = in_fat v" "fs_type (count_free v) = fs_type v"
  by (simp_all add: count_free_def used_def in_fat_def fun_eq_iff)

lemma remove_loop_unfold:
  "remove_loop clst v =
     (case get_fat clst v of (nxt, v1) \<Rightarrow>
        if nxt = 0 then Some (FR_OK, v1) else if nxt = 1 then Some (FR_INT_ERR, v1)
        else if nxt = DISK_ERR then Some (FR_DISK_ERR, v1)
        else case put_fat clst 0 v1 of (res, v2) \<Rightarrow>
          if res \<noteq> FR_OK then Some (res, v2)
          else if nxt < n_fatent v2 then remove_loop nxt (count_free v2) else Some (FR_OK, count_free v2))"
  by (subst remove_loop.simps) (simp add: Let_def count_free_def split: prod.split)

text \<open>
  The FSInfo counter is right when it is either unknown (out of range) or the number of free
  clusters.
\<close>

definition free_set :: "vol \<Rightarrow> DWORD set" where
  "free_set v = {d. valid_clst v d \<and> fat_entry v d = 0}"

definition count_ok :: "vol \<Rightarrow> bool" where
  "count_ok v \<longleftrightarrow> n_fatent v - 2 < free_clst v \<or> unat (free_clst v) = card (free_set v)"

lemma finite_free_set [simp]: "finite (free_set v)"
  by (rule finite_subset [of _ UNIV]) auto

lemma card_valid: "card {d. valid_clst v d} \<le> unat (n_fatent v) - 2"
proof -
  have "unat ` {d. valid_clst v d} \<subseteq> {2 ..< unat (n_fatent v)}"
    by (auto simp: valid_clst_def word_le_nat_alt word_less_nat_alt)
  then show ?thesis using card_inj_on_le [of unat "{d. valid_clst v d}" "{2 ..< unat (n_fatent v)}"]
    by (auto simp: inj_on_def unat_eq_iff)
qed

lemma unat_n_minus_2: "2 \<le> n_fatent v \<Longrightarrow> unat (n_fatent v - 2) = unat (n_fatent v) - 2"
  by (simp add: unat_sub word_le_nat_alt)

lemma vol_ok_n: "vol_ok v \<Longrightarrow> 2 \<le> n_fatent v"
  using vol_ok_bounds(6) [of v] by (simp add: word_le_nat_alt)

lemma free_set_less:
  assumes "valid_clst v c" "fat_entry v c \<noteq> 0"
  shows "card (free_set v) < unat (n_fatent v) - 2"
proof -
  have "free_set v \<subset> {d. valid_clst v d}" using assms by (auto simp: free_set_def)
  then have "card (free_set v) < card {d. valid_clst v d}" by (intro psubset_card_mono) auto
  then show ?thesis using card_valid [of v] by simp
qed

lemma count_ok_moves:
  assumes "moves v v'" "vol_ok v" "count_ok v"
  shows "count_ok v'"
  using assms(3) wframe_fields(11,13) [of v v'] wframe_geom(2) [of v v'] movesD(1) [OF assms(1)]
    fat_entry_moves [OF assms(1,2)]
  by (auto simp: count_ok_def free_set_def cong: conj_cong)

text \<open>Freeing one used cluster and counting it keeps the counter right.\<close>

lemma count_ok_step:
  assumes t: "touches v v2" and ok: "vol_ok v" and c: "valid_clst v c" "fat_entry v c \<noteq> 0"
    and ent: "\<And>d. valid_clst v d \<Longrightarrow> fat_entry v2 d = (if d = c then 0 else fat_entry v d)"
    and cnt: "count_ok v"
  shows "count_ok (count_free v2)"
proof -
  have k: "valid_clst v2 = valid_clst v" "n_fatent v2 = n_fatent v" "free_clst v2 = free_clst v"
    using t wframe_geom(2) [of v v2] wframe_fields(11,13) [of v v2] by (simp_all add: touches_def)
  have "free_set (count_free v2) = insert c (free_set v)"
    using ent c k by (auto simp: free_set_def split: if_splits)
  moreover have "c \<notin> free_set v" using c by (simp add: free_set_def)
  ultimately have card: "card (free_set (count_free v2)) = Suc (card (free_set v))" by simp
  note less = free_set_less [OF c] and n = unat_n_minus_2 [OF vol_ok_n [OF ok]]
  show ?thesis
  proof (cases "n_fatent v - 2 < free_clst v")
    case True
    then show ?thesis using k leD by (auto simp: count_ok_def count_free_def)
  next
    case False
    then have "unat (free_clst v) = card (free_set v)" using cnt by (simp add: count_ok_def)
    moreover from this have "free_clst v < n_fatent v - 2" using less n by (simp add: word_less_nat_alt)
    moreover have "unat (free_clst v + 1) = unat (free_clst v) + 1"
      using less calculation unat_less32 [of "n_fatent v"] by (simp add: unat_plus_if')
    ultimately show ?thesis using card k by (simp add: count_ok_def count_free_def free_set_def)
  qed
qed

lemma touches_in_fat: "touches v v' \<Longrightarrow> in_fat v' = in_fat v"
  using wframe_geom(3) [of v v'] by (simp add: touches_def)

text \<open>
  Whatever the table holds, a loop of \<open>remove_chain\<close> comes to an end: each round but the last turns
  a non-zero entry into zero, also when the entries form a cycle.
\<close>

lemma remove_loop_total:
  assumes "wf_win v" "vol_ok v"
  shows "\<exists>r v'. remove_loop c v = Some (r, v') \<and> effect (in_fat v) v v' \<and>
    (drive_ok v \<longrightarrow> (\<forall>d. valid_clst v d \<longrightarrow> fat_entry v d = 0 \<longrightarrow> fat_entry v' d = 0) \<and>
       (count_ok v \<longrightarrow> count_ok v'))"
  using assms
proof (induction "card (used v)" arbitrary: c v rule: less_induct)
  case less
  obtain x v1 where g: "get_fat c v = (x, v1)" by (cases "get_fat c v")
  obtain r v2 where p: "put_fat c 0 v1 = (r, v2)" by (cases "put_fat c 0 v1")
  note gs = get_fat_spec [OF less.prems g]
  note e1 = moves_effect [OF gs(1), of "in_fat v"]
  show ?case
  proof (cases "x = 0 \<or> x = 1 \<or> x = DISK_ERR")
    case True
    then show ?thesis using g e1 fat_entry_moves [OF gs(1) less.prems(2)]
        count_ok_moves [OF gs(1) less.prems(2)]
      by (subst remove_loop_unfold) auto
  next
    case False
    note st = remove_step [OF less.prems g _ _ p]
    have val: "valid_clst v c" and x: "x = fat_entry v c" and t: "touches v v2"
      and r: "r = FR_OK \<or> r = FR_DISK_ERR \<and> \<not> drive_ok v" using st(1-4) False by auto
    note k = touches_keeps [OF t] touches_in_fat [OF t]
    note e2 = touches_effect [OF t]
    have cnt: "count_ok (count_free v2)" if "count_ok v" "r = FR_OK"
      using count_ok_step [OF t less.prems(2) val _ _ that(1)] x False st(5) that(2) by auto
    show ?thesis
    proof (cases "r = FR_OK \<and> x < n_fatent v2")
      case stop: False
      then show ?thesis using g p False stop e2 r st(5) cnt
        by (subst remove_loop_unfold) auto
    next
      case go: True
      have ent: "fat_entry v2 d = (if d = c then 0 else fat_entry v d)" if "valid_clst v d" for d
        using st(5) that go False by auto
      then have "used v2 = used v - {c}" using k(3) by (auto simp: used_def split: if_splits)
      moreover have "c \<in> used v" using val x False by (simp add: used_def)
      ultimately have "card (used (count_free v2)) < card (used v)"
        using card_Diff1_less [of "used v" c] by simp
      from less.hyps [OF this, of x] obtain r' v' where
        "remove_loop x (count_free v2) = Some (r', v')" "effect (in_fat v) (count_free v2) v'"
        "drive_ok v2 \<longrightarrow> (\<forall>d. valid_clst v d \<longrightarrow> fat_entry v2 d = 0 \<longrightarrow> fat_entry v' d = 0) \<and>
           (count_ok (count_free v2) \<longrightarrow> count_ok v')"
        using k less.prems by auto
      moreover from calculation have "effect (in_fat v) v v'"
        using e2 effect_trans [of "in_fat v" v "count_free v2" v'] by simp
      ultimately show ?thesis using g p False go ent touches_drive [OF t] cnt
        by (subst remove_loop_unfold) (auto 0 3)
    qed
  qed
qed

text \<open>On a working drive the loop frees exactly the chain it starts on.\<close>

lemma count_free_num:
  assumes "2 \<le> n_fatent v"
  shows "unat (free_clst (count_free v)) =
    (if unat (free_clst v) < unat (n_fatent v) - 2 then unat (free_clst v) + 1 else unat (free_clst v))"
proof -
  have n: "unat (n_fatent v - 2) = unat (n_fatent v) - 2"
    using assms by (simp add: unat_sub word_le_nat_alt)
  then show ?thesis using unat_less32 [of "n_fatent v"]
    by (auto simp: count_free_def word_less_nat_alt unat_plus_if')
qed

lemma fat_good_n: "fat_good v \<Longrightarrow> 2 \<le> n_fatent v"
  using vol_ok_bounds(6) [of v] by (simp add: fat_good_def word_le_nat_alt)

lemma remove_loop_chain:
  assumes "fat_good v" "chain (n_fatent v) (fat_entry v) (c # cs)"
  shows "\<exists>v'. remove_loop c v = Some (FR_OK, v') \<and> effect (in_fat v) v v' \<and>
    (\<forall>d. valid_clst v d \<longrightarrow> fat_entry v' d = (if d \<in> set (c # cs) then 0 else fat_entry v d)) \<and>
    unat (free_clst v') =
      (if unat (free_clst v) < unat (n_fatent v) - 2
       then min (unat (n_fatent v) - 2) (unat (free_clst v) + length (c # cs)) else unat (free_clst v))"
  using assms
proof (induction cs arbitrary: c v)
  case (Nil c v)
  obtain x v1 where g: "get_fat c v = (x, v1)" by (cases "get_fat c v")
  obtain r v2 where p: "put_fat c 0 v1 = (r, v2)" by (cases "put_fat c 0 v1")
  have gd: "wf_win v" "vol_ok v" "drive_ok v" using Nil.prems by (simp_all add: fat_good_def)
  have vc: "valid_clst v c" using Nil.prems by (simp add: valid_clst_def)
  have x: "x = fat_entry v c" using get_fat_spec(2) [OF gd(1,2) g vc] gd(3) by blast
  have n: "n_fatent v \<le> x" using Nil.prems x by simp
  have x2: "x \<noteq> 0 \<and> x \<noteq> 1 \<and> x \<noteq> DISK_ERR"
    using n fat_entry_not_err [of v c] x vol_ok_bounds(6) [OF gd(2)] by (auto simp: word_le_nat_alt)
  note st = remove_step [OF gd(1,2) g _ _ p]
  have r: "r = FR_OK" using st(4) x2 gd(3) by blast
  have t: "touches v v2" using st(3) x2 by blast
  note k = touches_keeps [OF t]
  have "remove_loop c v = Some (FR_OK, count_free v2)"
    using g p x2 r n k(5) leD by (subst remove_loop_unfold) auto
  moreover have "free_clst v2 = free_clst v" using t wframe_fields(11) by (simp add: touches_def)
  ultimately show ?case
    using touches_effect [OF t] st(5) r x2 count_free_num [of v2] k(5) fat_good_n [OF Nil.prems(1)] by auto
next
  case (Cons d cs c v)
  obtain x v1 where g: "get_fat c v = (x, v1)" by (cases "get_fat c v")
  obtain r v2 where p: "put_fat c 0 v1 = (r, v2)" by (cases "put_fat c 0 v1")
  have gd: "wf_win v" "vol_ok v" "drive_ok v" using Cons.prems by (simp_all add: fat_good_def)
  have vc: "valid_clst v c" using Cons.prems by (simp add: valid_clst_def)
  have x: "x = d" using get_fat_spec(2) [OF gd(1,2) g vc] gd(3) Cons.prems by auto
  have ch: "chain (n_fatent v) (fat_entry v) (d # cs)" using Cons.prems by simp
  then have dv: "2 \<le> d" "d < n_fatent v" using chain_valid [of _ _ "d # cs" d] by auto
  have dist: "c \<notin> set (d # cs)" using chain_distinct [OF Cons.prems(2)] by simp
  have x2: "x \<noteq> 0 \<and> x \<noteq> 1 \<and> x \<noteq> DISK_ERR"
    using x dv fat_entry_not_err [of v c] Cons.prems by (auto simp: word_le_nat_alt)
  note st = remove_step [OF gd(1,2) g _ _ p]
  have r: "r = FR_OK" using st(4) x2 gd(3) by blast
  have t: "touches v v2" using st(3) x2 by blast
  note k = touches_keeps [OF t]
  have ent: "fat_entry v2 e = (if e = c then 0 else fat_entry v e)" if "valid_clst v e" for e
    using st(5) r x2 that by auto
  have "chain (n_fatent v) (fat_entry v2) (d # cs)"
  proof (subst chain_cong)
    show "fat_entry v2 e = fat_entry v e" if "e \<in> set (d # cs)" for e
      using ent [of e] chain_valid [OF ch that] dist that by (auto simp: valid_clst_def)
  qed (rule ch)
  moreover have "fat_good (count_free v2)" using gd k touches_drive [OF t] by (simp add: fat_good_def)
  ultimately obtain v' where v': "remove_loop d (count_free v2) = Some (FR_OK, v')"
    "effect (in_fat (count_free v2)) (count_free v2) v'"
    "\<forall>e. valid_clst v2 e \<longrightarrow> fat_entry v' e = (if e \<in> set (d # cs) then 0 else fat_entry v2 e)"
    "unat (free_clst v') =
      (if unat (free_clst (count_free v2)) < unat (n_fatent v2) - 2
       then min (unat (n_fatent v2) - 2) (unat (free_clst (count_free v2)) + length (d # cs))
       else unat (free_clst (count_free v2)))"
    using Cons.IH [of "count_free v2" d] k(5) by auto
  have f2: "free_clst v2 = free_clst v" using t wframe_fields(11) by (simp add: touches_def)
  have "in_fat (count_free v2) = in_fat v" using touches_in_fat [OF t] by simp
  then have "effect (in_fat v) v v'"
    using v'(2) effect_trans [of "in_fat v" v "count_free v2" v'] touches_effect [OF t] by simp
  moreover have "remove_loop c v = Some (FR_OK, v')"
    using g p x2 r x dv k(5) v'(1) by (subst remove_loop_unfold) auto
  moreover have "unat (free_clst v') =
      (if unat (free_clst v) < unat (n_fatent v) - 2
       then min (unat (n_fatent v) - 2) (unat (free_clst v) + length (c # d # cs)) else unat (free_clst v))"
    using v'(4) count_free_num [of v2] k(5) f2 fat_good_n [OF Cons.prems(1)] by auto
  ultimately show ?case using v'(3) ent k(3) dist by auto
qed

text \<open>The whole operation, with the cut before the removed part.\<close>

lemma trunc_eoc:
  assumes "vol_ok v"
  shows "n_fatent v \<le> trunc_entry (fs_type v) DISK_ERR"
proof -
  have "unat (n_fatent v) \<le> max_fatent (fs_type v)" by (rule vol_ok_bounds(5) [OF assms])
  moreover have "max_fatent (fs_type v) \<le> unat (trunc_entry (fs_type v) DISK_ERR)"
    using assms by (cases rule: fs_type_cases) (auto simp: max_fatent_def trunc_entry_def)
  ultimately show ?thesis by (simp add: word_le_nat_alt)
qed

lemma trunc_eoc_ne: "trunc_entry t DISK_ERR \<noteq> 0"
  by (simp add: trunc_entry_def)

lemma count_ok_put:
  assumes t: "touches v v2" and c: "fat_entry v c \<noteq> 0" and y: "y \<noteq> 0"
    and ent: "\<And>d. valid_clst v d \<Longrightarrow> fat_entry v2 d = (if d = c then y else fat_entry v d)"
    and cnt: "count_ok v"
  shows "count_ok v2"
proof -
  have k: "valid_clst v2 = valid_clst v" "n_fatent v2 = n_fatent v" "free_clst v2 = free_clst v"
    using t wframe_geom(2) [of v v2] wframe_fields(11,13) [of v v2] by (simp_all add: touches_def)
  have "free_set v2 = free_set v" using ent c y k by (auto simp: free_set_def split: if_splits)
  then show ?thesis using cnt k by (simp add: count_ok_def)
qed

lemma remove_chain_total:
  assumes wf: "wf_win v" and ok: "vol_ok v"
  shows "\<exists>r v'. remove_chain c p v = Some (r, v') \<and> effect (in_fat v) v v' \<and>
    (drive_ok v \<longrightarrow> count_ok v \<longrightarrow> (p = 0 \<or> fat_entry v p \<noteq> 0) \<longrightarrow> count_ok v')"
proof -
  obtain r1 v1 where p1: "(if p \<noteq> 0 then put_fat p DISK_ERR v else (FR_OK, v)) = (r1, v1)"
    by (cases "if p \<noteq> 0 then put_fat p DISK_ERR v else (FR_OK, v)")
  have t: "touches v v1 \<and> (drive_ok v \<longrightarrow> count_ok v \<longrightarrow> (p = 0 \<or> fat_entry v p \<noteq> 0) \<longrightarrow> count_ok v1)"
  proof (cases "p \<noteq> 0 \<and> valid_clst v p")
    case False
    then show ?thesis using p1 put_fat_invalid [of v p DISK_ERR] wf by (auto simp: touches_refl split: if_splits)
  next
    case True
    then have p2: "put_fat p DISK_ERR v = (r1, v1)" using p1 by simp
    note ps = put_fat_spec [OF wf ok conjunct2 [OF True] p2]
    then have dr: "r1 = FR_OK" if "drive_ok v" using that by blast
    have "count_ok v1" if "drive_ok v" "count_ok v" "fat_entry v p \<noteq> 0"
      using count_ok_put [OF ps(1) that(3) trunc_eoc_ne ps(3) that(2)] dr [OF that(1)] by blast
    then show ?thesis using True ps(1) by auto
  qed
  note k = touches_keeps [OF conjunct1 [OF t]] touches_in_fat [OF conjunct1 [OF t]]
  note e1 = touches_effect [OF conjunct1 [OF t]]
  show ?thesis
  proof (cases "c < 2 \<or> c \<ge> n_fatent v")
    case True
    then show ?thesis using wf by (auto simp: remove_chain_def)
  next
    case c: False
    show ?thesis
    proof (cases "r1 = FR_OK")
      case False
      then show ?thesis using c p1 e1 t by (auto simp: remove_chain_def Let_def)
    next
      case r1: True
      obtain r v' where "remove_loop c v1 = Some (r, v')" "effect (in_fat v) v1 v'"
        "drive_ok v1 \<longrightarrow> count_ok v1 \<longrightarrow> count_ok v'"
        using remove_loop_total [of v1 c] k ok by auto
      then show ?thesis using c p1 r1 t effect_trans [OF e1] touches_drive [OF conjunct1 [OF t]]
        by (auto simp: remove_chain_def Let_def)
    qed
  qed
qed

definition free_count_after :: "vol \<Rightarrow> nat \<Rightarrow> nat" where
  "free_count_after v k =
     (let n = unat (n_fatent v) - 2; f = unat (free_clst v) in if f < n then min n (f + k) else f)"

lemma remove_chain_frees:
  assumes g: "fat_good v" and ch: "chain (n_fatent v) (fat_entry v) (xs @ c # cs)"
    and p: "p = (if xs = [] then 0 else last xs)"
  shows "\<exists>v'. remove_chain c p v = Some (FR_OK, v') \<and> effect (in_fat v) v v' \<and>
    (xs \<noteq> [] \<longrightarrow> chain (n_fatent v) (fat_entry v') xs) \<and>
    (\<forall>d. valid_clst v d \<longrightarrow> d \<notin> set xs \<longrightarrow>
       fat_entry v' d = (if d \<in> set (c # cs) then 0 else fat_entry v d)) \<and>
    unat (free_clst v') = free_count_after v (length (c # cs))"
proof -
  have wf: "wf_win v" and ok: "vol_ok v" and dr: "drive_ok v" using g by (simp_all add: fat_good_def)
  have cc: "chain (n_fatent v) (fat_entry v) (c # cs)" using chain_append_tl [OF ch] by simp
  have cv: "\<not> (c < 2 \<or> c \<ge> n_fatent v)" using chain_valid [OF cc, of c] by auto
  show ?thesis
  proof (cases "xs = []")
    case True
    then show ?thesis using remove_loop_chain [OF g cc] p cv
      by (auto simp: remove_chain_def free_count_after_def Let_def)
  next
    case False
    then obtain ys where xs: "xs = ys @ [p]" using p by (metis append_butlast_last_id)
    have dist: "distinct (xs @ c # cs)" by (rule chain_distinct [OF ch])
    have pv: "valid_clst v p" "p \<noteq> 0" using chain_valid [OF ch, of p] xs by (auto simp: valid_clst_def)
    obtain r1 v1 where p1: "put_fat p DISK_ERR v = (r1, v1)" by (cases "put_fat p DISK_ERR v")
    note ps = put_fat_spec [OF wf ok pv(1) p1]
    have r1: "r1 = FR_OK" using ps(2) dr by blast
    note k = touches_keeps [OF ps(1)] touches_in_fat [OF ps(1)]
    have g1: "fat_good v1" by (rule fat_good_touches [OF g ps(1)])
    have ent: "fat_entry v1 d = ((fat_entry v)(p := trunc_entry (fs_type v) DISK_ERR)) d"
      if "valid_clst v d" for d using ps(3) [OF r1 that] by simp
    have vs: "valid_clst v d" if "d \<in> set (xs @ c # cs)" for d
      using chain_valid [OF ch that] by (simp add: valid_clst_def)
    have "chain (n_fatent v) (fat_entry v1) (c # cs)"
    proof (subst chain_cong)
      show "fat_entry v1 d = fat_entry v d" if "d \<in> set (c # cs)" for d
        using ent [of d] vs [of d] dist xs that by auto
    qed (rule cc)
    then obtain v' where v': "remove_loop c v1 = Some (FR_OK, v')" "effect (in_fat v) v1 v'"
      "\<forall>d. valid_clst v d \<longrightarrow> fat_entry v' d = (if d \<in> set (c # cs) then 0 else fat_entry v1 d)"
      "unat (free_clst v') = free_count_after v1 (length (c # cs))"
      using remove_loop_chain [OF g1, of c cs] k by (auto simp: free_count_after_def Let_def)
    have "chain (n_fatent v) ((fat_entry v)(p := trunc_entry (fs_type v) DISK_ERR)) xs"
      using chain_cut [of _ _ ys p "c # cs"] ch trunc_eoc [OF ok] xs by simp
    moreover have "fat_entry v' d = ((fat_entry v)(p := trunc_entry (fs_type v) DISK_ERR)) d"
      if "d \<in> set xs" for d using v'(3) ent vs [of d] dist that by auto
    ultimately have "chain (n_fatent v) (fat_entry v') xs" using chain_cong [of xs] by blast
    moreover have "free_clst v1 = free_clst v" using ps(1) wframe_fields(11) by (simp add: touches_def)
    ultimately show ?thesis
      using v' p1 r1 cv pv ent xs effect_trans [OF touches_effect [OF ps(1)] v'(2)] k(5)
      by (auto simp: remove_chain_def Let_def free_count_after_def)
  qed
qed

section \<open>Creating and stretching a chain\<close>

lemma create_scan_unfold:
  "create_scan scl ncl v =
     (if n_fatent v \<le> ncl + 1 \<and> scl < 2 then Some (Inl 0, v)
      else case get_fat (if n_fatent v \<le> ncl + 1 then 2 else ncl + 1) v of (cs, v1) \<Rightarrow>
        let ncl' = (if n_fatent v \<le> ncl + 1 then 2 else ncl + 1) in
        if cs = 0 then Some (Inr ncl', v1)
        else if cs = 1 \<or> cs = DISK_ERR then Some (Inl cs, v1)
        else if ncl' = scl then Some (Inl 0, v1) else create_scan scl ncl' v1)"
  by (subst create_scan.simps) (simp add: Let_def split: prod.split)

text \<open>The clusters the search has passed when it stands at \<open>ncl\<close>, having started after \<open>scl\<close>.\<close>

definition passed :: "vol \<Rightarrow> DWORD \<Rightarrow> DWORD \<Rightarrow> DWORD set" where
  "passed v scl ncl =
     {d. valid_clst v d \<and> (if ncl < scl then scl < d \<or> d \<le> ncl else scl < d \<and> d \<le> ncl)}"

definition scan_ok :: "vol \<Rightarrow> DWORD + DWORD \<Rightarrow> bool" where
  "scan_ok v r \<longleftrightarrow>
     (case r of
        Inr c \<Rightarrow> valid_clst v c \<and> fat_entry v c = 0
      | Inl e \<Rightarrow> (e = 0 \<and> free_set v = {}) \<or> (e = 1 \<and> (\<exists>d. valid_clst v d \<and> fat_entry v d = 1)) \<or>
          (e = DISK_ERR \<and> \<not> drive_ok v))"

lemma fat_entry_moves_eq:
  assumes "moves v v'" "vol_ok v"
  shows "scan_ok v' r \<Longrightarrow> scan_ok v r" and "free_set v' = free_set v"
proof -
  note e = fat_entry_moves [OF assms] and d = movesD(3) [OF assms(1)]
    and k = wframe_geom(2) [OF movesD(1) [OF assms(1)]]
  show f: "free_set v' = free_set v" using e k by (auto simp: free_set_def)
  show "scan_ok v' r \<Longrightarrow> scan_ok v r"
    using e d k f by (auto simp: scan_ok_def split: sum.splits)
qed

lemma passed_self [simp]: "passed v scl scl = {}"
  by (auto simp: passed_def)

text \<open>One probe of the search.\<close>

lemma probe:
  assumes "wf_win v" "vol_ok v" "valid_clst v c" "get_fat c v = (cs, v1)"
  shows "moves v v1" "wf_win v1" "vol_ok v1" "cs = fat_entry v c \<or> cs = DISK_ERR \<and> \<not> drive_ok v"
    and "cs = 0 \<Longrightarrow> scan_ok v (Inr c)" "cs = 1 \<or> cs = DISK_ERR \<Longrightarrow> scan_ok v (Inl cs)"
    and "n_fatent v1 = n_fatent v" "valid_clst v1 = valid_clst v"
proof -
  note g = get_fat_spec [OF assms(1,2,4)]
  show m: "moves v v1" and x: "cs = fat_entry v c \<or> cs = DISK_ERR \<and> \<not> drive_ok v"
    using g assms(3) by blast+
  show "wf_win v1" "vol_ok v1" "n_fatent v1 = n_fatent v" "valid_clst v1 = valid_clst v"
    using touches_keeps [OF moves_touches [OF m]] assms(2) by simp_all
  show "cs = 0 \<Longrightarrow> scan_ok v (Inr c)" "cs = 1 \<or> cs = DISK_ERR \<Longrightarrow> scan_ok v (Inl cs)"
    using x assms(3) fat_entry_not_err [of v c] by (auto simp: scan_ok_def)
qed

lemma vol_ok_small: "vol_ok v \<Longrightarrow> unat (n_fatent v) < 2 ^ 28"
  using vol_ok_bounds(5) [of v] by (auto simp: max_fatent_def split: if_splits)

text \<open>The next position of the search, as numbers.\<close>

lemma scan_next:
  assumes ok: "vol_ok v" and n: "ncl < n_fatent v"
  defines "m \<equiv> (if n_fatent v \<le> ncl + 1 then 2 else ncl + 1)"
  shows "unat (ncl + 1) = unat ncl + 1" "n_fatent v \<le> ncl + 1 \<longleftrightarrow> unat ncl + 1 = unat (n_fatent v)"
    and "unat m = (if unat ncl + 1 = unat (n_fatent v) then 2 else unat ncl + 1)" "m < n_fatent v"
    and "1 \<le> ncl \<Longrightarrow> valid_clst v m"
proof -
  note small = vol_ok_small [OF ok] and n3 = vol_ok_bounds(6) [OF ok]
  show u: "unat (ncl + 1) = unat ncl + 1" using n small by (simp add: unat_plus_if' word_less_nat_alt)
  show w: "n_fatent v \<le> ncl + 1 \<longleftrightarrow> unat ncl + 1 = unat (n_fatent v)"
    using n u by (auto simp: word_le_nat_alt word_less_nat_alt)
  show m: "unat m = (if unat ncl + 1 = unat (n_fatent v) then 2 else unat ncl + 1)"
    using u w by (simp add: m_def)
  show "m < n_fatent v" using m n n3 by (auto simp: word_less_nat_alt)
  then show "valid_clst v m" if "1 \<le> ncl"
    using m that by (auto simp: valid_clst_def word_le_nat_alt)
qed

lemma create_scan_spec:
  assumes "wf_win v" "vol_ok v" "1 \<le> scl" "scl < n_fatent v" "1 \<le> ncl" "ncl < n_fatent v"
    and "\<forall>d \<in> passed v scl ncl. fat_entry v d \<noteq> 0"
  shows "\<exists>r v'. create_scan scl ncl v = Some (r, v') \<and> moves v v' \<and> scan_ok v r"
  using assms
proof (induction "if ncl < scl then unat scl - unat ncl else 2 * unat (n_fatent v) - unat ncl"
    arbitrary: ncl v rule: less_induct)
  case less
  define m where "m = (if n_fatent v \<le> ncl + 1 then 2 else ncl + 1)"
  note nx = scan_next [OF less.prems(2,6), folded m_def]
  obtain cs v1 where g: "get_fat m v = (cs, v1)" by (cases "get_fat m v")
  show ?case
  proof (cases "n_fatent v \<le> ncl + 1 \<and> scl < 2")
    case True
    then have s1: "unat scl = 1" using less.prems(3) by (simp add: word_le_nat_alt word_less_nat_alt)
    have "d \<in> passed v scl ncl" if "valid_clst v d" for d
      using that True nx(2) less.prems(5,6) s1
      by (auto simp: passed_def valid_clst_def word_le_nat_alt word_less_nat_alt)
    then have "free_set v = {}" using less.prems(7) by (auto simp: free_set_def)
    then show ?thesis using True less.prems(1) by (subst create_scan_unfold) (auto simp: scan_ok_def)
  next
    case nowrap: False
    have mv: "valid_clst v m" by (rule nx(5) [OF less.prems(5)])
    note pr = probe [OF less.prems(1,2) mv g]
    have unf: "create_scan scl ncl v = (if cs = 0 then Some (Inr m, v1)
        else if cs = 1 \<or> cs = DISK_ERR then Some (Inl cs, v1)
        else if m = scl then Some (Inl 0, v1) else create_scan scl m v1)"
      using nowrap g by (subst create_scan_unfold) (auto simp: m_def)
    show ?thesis
    proof (cases "cs = 0 \<or> cs = 1 \<or> cs = DISK_ERR")
      case True
      then show ?thesis using unf pr by auto
    next
      case False
      then have nz: "fat_entry v m \<noteq> 0" using pr(4) by auto
      have step: "d \<in> passed v scl ncl" if "d \<in> passed v scl m" "d \<noteq> m" for d
        using that nx(2,3) less.prems(5,6) nowrap mv unat_eq_iff [of d m]
        by (auto simp: passed_def valid_clst_def word_le_nat_alt word_less_nat_alt split: if_splits)
      have all: "\<forall>d \<in> passed v scl m. fat_entry v d \<noteq> 0"
        using step nz less.prems(7) by blast
      show ?thesis
      proof (cases "m = scl")
        case True
        have "d \<in> passed v scl ncl \<or> d = m" if "valid_clst v d" for d
          using that True nx(2,3) less.prems(5,6) nowrap unat_eq_iff [of d m]
          by (auto simp: passed_def valid_clst_def word_le_nat_alt word_less_nat_alt split: if_splits)
        then have "free_set v = {}" using less.prems(7) nz by (auto simp: free_set_def)
        then show ?thesis using unf True False pr(1) by (auto simp: scan_ok_def)
      next
        case go: False
        have dec: "(if m < scl then unat scl - unat m else 2 * unat (n_fatent v1) - unat m)
          < (if ncl < scl then unat scl - unat ncl else 2 * unat (n_fatent v) - unat ncl)"
          using nx(2,3) less.prems(3-6) nowrap go pr(7) unat_eq_iff [of m scl]
          by (auto simp: word_le_nat_alt word_less_nat_alt split: if_splits)
        have "\<forall>d \<in> passed v1 scl m. fat_entry v1 d \<noteq> 0"
          using all fat_entry_moves [OF pr(1) less.prems(2)] pr(8) by (auto simp: passed_def)
        moreover have "1 \<le> m" "m < n_fatent v1" "scl < n_fatent v1"
          using mv pr(7) less.prems(4) by (auto simp: valid_clst_def word_le_nat_alt)
        ultimately obtain r v' where "create_scan scl m v1 = Some (r, v')" "moves v1 v'" "scan_ok v1 r"
          using less.hyps [OF dec pr(2,3) less.prems(3)] by blast
        then show ?thesis
          using unf False go moves_trans [OF pr(1)] fat_entry_moves_eq(1) [OF pr(1) less.prems(2)] by auto
      qed
    qed
  qed
qed

lemma create_find_spec:
  assumes "wf_win v" "vol_ok v" "1 \<le> scl" "scl < n_fatent v"
  shows "\<exists>r v'. create_find clst scl v = Some (r, v') \<and> moves v v' \<and> scan_ok v r"
proof (cases "scl = clst")
  case False
  then show ?thesis using create_scan_spec [OF assms assms(3,4)]
    by (simp add: create_find_def)
next
  case True
  define m where "m = (if n_fatent v \<le> scl + 1 then 2 else scl + 1)"
  obtain cs v1 where g: "get_fat m v = (cs, v1)" by (cases "get_fat m v")
  have mv: "valid_clst v m" using scan_next(5) [OF assms(2,4,3)] by (simp add: m_def)
  note pr = probe [OF assms(1,2) mv g]
  define scl' where "scl' = (if 2 \<le> last_clst v1 \<and> last_clst v1 < n_fatent v1 then last_clst v1 else scl)"
  have unf: "create_find clst scl v =
      (if cs = 1 \<or> cs = DISK_ERR then Some (Inl cs, v1)
       else if cs \<noteq> 0 then create_scan scl' scl' v1 else Some (Inr m, v1))"
    unfolding create_find_def Let_def m_def [symmetric] using True g by (simp add: scl'_def)
  have "1 \<le> scl'" "scl' < n_fatent v1"
    using assms(3,4) pr(7) by (auto simp: scl'_def word_le_nat_alt)
  moreover have "\<forall>d \<in> passed v1 scl' scl'. fat_entry v1 d \<noteq> 0" by simp
  ultimately obtain r v' where "create_scan scl' scl' v1 = Some (r, v')" "moves v1 v'" "scan_ok v1 r"
    using create_scan_spec [OF pr(2,3)] by blast
  then show ?thesis
    using unf pr(1,5,6) moves_trans [OF pr(1)] fat_entry_moves_eq(1) [OF pr(1) assms(2)] by auto
qed

text \<open>The effect of claiming a free cluster, in general and on a working drive.\<close>

definition claimed :: "DWORD \<Rightarrow> DWORD \<Rightarrow> vol \<Rightarrow> vol \<Rightarrow> bool" where
  "claimed clst c v v' \<longleftrightarrow>
     (\<forall>d. valid_clst v d \<longrightarrow> fat_entry v' d =
        (if d = c then trunc_entry (fs_type v) DISK_ERR
         else if clst \<noteq> 0 \<and> d = clst then c else fat_entry v d)) \<and>
     last_clst v' = c \<and>
     free_clst v' = (if free_clst v \<le> n_fatent v - 2 then free_clst v - 1 else free_clst v)"

lemma trunc_clst:
  assumes "vol_ok v" "valid_clst v c"
  shows "trunc_entry (fs_type v) c = c"
proof -
  have n: "unat c < max_fatent (fs_type v)"
    using assms vol_ok_bounds(5) [OF assms(1)] by (simp add: valid_clst_def word_less_nat_alt)
  have *: "c AND mask k = c" if "unat c < 2 ^ k" for k
    using that by (simp add: word_unat_eq_iff unsigned_take_bit_eq take_bit_nat_eq_self flip: take_bit_eq_mask)
  show ?thesis using assms(1)
    by (cases rule: fs_type_cases) (use n *[of 12] * [of 16] * [of 28] in
      \<open>auto simp: trunc_entry_def max_fatent_def masks [symmetric]\<close>)
qed

lemma create_claim_spec:
  assumes wf: "wf_win v" and ok: "vol_ok v" and c: "valid_clst v c" and cl: "clst = 0 \<or> valid_clst v clst"
    and ne: "clst \<noteq> c" and cc: "create_claim clst c v = (r, v')"
  shows "effect (in_fat v) v v'" and "r = c \<or> r = DISK_ERR \<and> \<not> drive_ok v"
    and "r = c \<Longrightarrow> claimed clst c v v'"
proof -
  obtain r1 v1 where p1: "put_fat c DISK_ERR v = (r1, v1)" by (cases "put_fat c DISK_ERR v")
  note s1 = put_fat_spec [OF wf ok c p1]
  note k1 = touches_keeps [OF s1(1)] touches_in_fat [OF s1(1)]
  obtain r2 v2 where p2: "(if r1 = FR_OK \<and> clst \<noteq> 0 then put_fat clst c v1 else (r1, v1)) = (r2, v2)"
    by (cases "if r1 = FR_OK \<and> clst \<noteq> 0 then put_fat clst c v1 else (r1, v1)")
  have t: "touches v v2 \<and> (r2 = FR_OK \<or> r2 = FR_DISK_ERR \<and> \<not> drive_ok v) \<and>
    (r2 = FR_OK \<longrightarrow> (\<forall>d. valid_clst v d \<longrightarrow> fat_entry v2 d =
        (if d = c then trunc_entry (fs_type v) DISK_ERR
         else if clst \<noteq> 0 \<and> d = clst then c else fat_entry v d)))"
  proof (cases "r1 = FR_OK \<and> clst \<noteq> 0")
    case False
    then have "r2 = r1" "v2 = v1" using p2 by (simp_all split: if_splits)
    then show ?thesis using s1 False by auto
  next
    case True
    then have "put_fat clst c v1 = (r2, v2)" "valid_clst v1 clst" using p2 cl k1 by simp_all
    note s2 = put_fat_spec [OF k1(1) _ this(2,1), unfolded k1(2-4), OF ok]
    have dr: "drive_ok v \<Longrightarrow> drive_ok v1" by (rule touches_drive [OF s1(1)])
    have "touches v v2" by (rule touches_trans [OF s1(1) s2(1)])
    moreover have "r2 = FR_OK \<or> r2 = FR_DISK_ERR \<and> \<not> drive_ok v" using s2(2) dr by blast
    moreover have "fat_entry v2 d = (if d = c then trunc_entry (fs_type v) DISK_ERR
        else if clst \<noteq> 0 \<and> d = clst then c else fat_entry v d)" if "r2 = FR_OK" "valid_clst v d" for d
      using s2(3) [OF that] s1(3) [OF conjunct1 [OF True] that(2)] True ne trunc_clst [OF ok c] by auto
    ultimately show ?thesis by blast
  qed
  have k: "n_fatent v2 = n_fatent v" "free_clst v2 = free_clst v"
    using t wframe_fields(11,13) [of v v2] by (simp_all add: touches_def)
  have err: "c \<noteq> DISK_ERR \<and> c \<noteq> 1"
    using c vol_ok_small [OF ok] by (auto simp: valid_clst_def word_le_nat_alt word_less_nat_alt)
  have unf: "(r, v') = (if r2 = FR_OK then
      (c, v2\<lparr>last_clst := c, free_clst := (if free_clst v2 \<le> n_fatent v2 - 2 then free_clst v2 - 1
         else free_clst v2), fsi_flag := fsi_flag v2 OR 1\<rparr>)
     else (if r2 = FR_DISK_ERR then DISK_ERR else 1, v2))"
    using cc p1 p2 by (cases "r2 = FR_OK") (auto simp: create_claim_def Let_def)
  show "effect (in_fat v) v v'" "r = c \<or> r = DISK_ERR \<and> \<not> drive_ok v"
    using t touches_effect [OF conjunct1 [OF t]] unf
    by (cases "r2 = FR_OK"; simp; blast)+
  show "claimed clst c v v'" if "r = c"
    using that unf t k err by (cases "r2 = FR_OK") (simp_all add: claimed_def split: if_splits)
qed

text \<open>The whole operation.\<close>

definition create_start :: "DWORD \<Rightarrow> vol \<Rightarrow> (DWORD + DWORD) \<times> vol" where
  "create_start clst v =
     (if clst = 0 then (Inr (if last_clst v = 0 \<or> last_clst v \<ge> n_fatent v then 1 else last_clst v), v)
      else case get_fat clst v of (cs, v1) \<Rightarrow>
        (if cs < 2 then (Inl 1, v1) else if cs = DISK_ERR then (Inl cs, v1)
         else if cs < n_fatent v1 then (Inl cs, v1) else (Inr clst, v1)))"

lemma create_chain_unfold:
  "create_chain clst v =
     (case create_start clst v of
        (Inl ret, v1) \<Rightarrow> Some (ret, v1)
      | (Inr scl, v1) \<Rightarrow>
          if free_clst v1 = 0 then Some (0, v1)
          else case create_find clst scl v1 of
                 None \<Rightarrow> None
               | Some (Inl ret, v2) \<Rightarrow> Some (ret, v2)
               | Some (Inr ncl, v2) \<Rightarrow> Some (create_claim clst ncl v2))"
  by (simp add: create_chain_def create_start_def Let_def split: prod.split sum.split)

definition start_ok :: "DWORD \<Rightarrow> vol \<Rightarrow> DWORD + DWORD \<Rightarrow> bool" where
  "start_ok clst v st \<longleftrightarrow>
     (case st of
        Inr scl \<Rightarrow> 1 \<le> scl \<and> scl < n_fatent v \<and> (clst = 0 \<or> valid_clst v clst \<and> n_fatent v \<le> fat_entry v clst)
      | Inl e \<Rightarrow> clst \<noteq> 0 \<and>
          ((e = 1 \<and> (\<not> valid_clst v clst \<or> fat_entry v clst < 2)) \<or> (e = DISK_ERR \<and> \<not> drive_ok v) \<or>
           (valid_clst v clst \<and> e = fat_entry v clst \<and> 2 \<le> e \<and> e < n_fatent v)))"

lemma create_start_spec:
  assumes "wf_win v" "vol_ok v" "create_start clst v = (st, v1)"
  shows "moves v v1 \<and> start_ok clst v st"
proof (cases "clst = 0")
  case True
  have one: "1 \<le> x" if "x \<noteq> 0" for x :: DWORD using that by (simp add: word_le_nat_alt Suc_le_eq unat_gt_0)
  have "1 < n_fatent v" using vol_ok_bounds(6) [OF assms(2)] by (simp add: word_less_nat_alt)
  then have "start_ok clst v (Inr (if last_clst v = 0 \<or> last_clst v \<ge> n_fatent v then 1 else last_clst v))"
    using True one by (simp add: start_ok_def not_le)
  then show ?thesis using assms(1,3) True by (auto simp: create_start_def)
next
  case False
  obtain cs v' where g: "get_fat clst v = (cs, v')" by (cases "get_fat clst v")
  note gs = get_fat_spec [OF assms(1,2) g]
  have v1: "v1 = v'" using assms(3) g False by (auto simp: create_start_def split: if_splits)
  have n: "n_fatent v' = n_fatent v" using wframe_fields(13) [OF movesD(1) [OF gs(1)]] .
  have st: "st = (if cs < 2 then Inl 1 else if cs = DISK_ERR then Inl cs
      else if cs < n_fatent v then Inl cs else Inr clst)"
    using assms(3) g False n by (auto simp: create_start_def split: if_splits)
  show ?thesis
  proof (cases "valid_clst v clst")
    case True
    then have "1 \<le> clst" "clst < n_fatent v" by (auto simp: valid_clst_def word_le_nat_alt)
    from gs(2) [OF True] have "start_ok clst v st"
    proof
      assume "cs = fat_entry v clst"
      then show ?thesis using st False True \<open>1 \<le> clst\<close> \<open>clst < n_fatent v\<close> fat_entry_not_err [of v clst]
        by (cases "cs < 2"; cases "cs < n_fatent v") (simp_all add: start_ok_def not_less)
    next
      assume "cs = DISK_ERR \<and> \<not> drive_ok v"
      then show ?thesis using st False by (simp add: start_ok_def)
    qed
    then show ?thesis using gs(1) v1 by simp
  next
    case nv: False
    then show ?thesis using gs(1) gs(3) [OF nv] st v1 False by (simp add: start_ok_def)
  qed
qed

text \<open>The three kinds of outcome of \<open>create_chain\<close>, over the state it was called in.\<close>

definition create_ok :: "DWORD \<Rightarrow> vol \<Rightarrow> DWORD \<Rightarrow> vol \<Rightarrow> bool" where
  "create_ok clst v r v' \<longleftrightarrow>
     (r = DISK_ERR \<and> \<not> drive_ok v \<and> effect (in_fat v) v v') \<or>
     (r = 0 \<and> (free_clst v = 0 \<or> free_set v = {}) \<and> moves v v') \<or>
     (r = 1 \<and> (clst \<noteq> 0 \<and> (\<not> valid_clst v clst \<or> fat_entry v clst < 2) \<or>
        (\<exists>d. valid_clst v d \<and> fat_entry v d = 1)) \<and> moves v v') \<or>
     (clst \<noteq> 0 \<and> valid_clst v clst \<and> valid_clst v r \<and> r = fat_entry v clst \<and> moves v v') \<or>
     (valid_clst v r \<and> fat_entry v r = 0 \<and> (clst = 0 \<or> valid_clst v clst \<and> n_fatent v \<le> fat_entry v clst) \<and>
        claimed clst r v v' \<and> effect (in_fat v) v v')"

lemma claimed_moves:
  assumes "moves v v1" "vol_ok v" "claimed clst c v1 v2"
  shows "claimed clst c v v2"
  using assms(3) fat_entry_moves [OF assms(1,2)] wframe_fields [OF movesD(1) [OF assms(1)]]
    wframe_geom(2) [OF movesD(1) [OF assms(1)]]
  by (simp add: claimed_def)

lemma create_chain_spec:
  assumes wf: "wf_win v" and ok: "vol_ok v"
  shows "\<exists>r v'. create_chain clst v = Some (r, v') \<and> create_ok clst v r v'"
proof -
  obtain st v1 where c1: "create_start clst v = (st, v1)" by (cases "create_start clst v")
  have m1: "moves v v1" and sok: "start_ok clst v st" using create_start_spec [OF wf ok c1] by blast+
  note f1 = wframe_fields [OF movesD(1) [OF m1]] and g1 = wframe_geom [OF movesD(1) [OF m1]]
  show ?thesis
  proof (cases st)
    case (Inl e)
    then have "create_chain clst v = Some (e, v1)" using c1 by (simp add: create_chain_unfold)
    moreover have "create_ok clst v e v1"
      using sok Inl m1 moves_effect [OF m1] by (auto simp: start_ok_def create_ok_def valid_clst_def)
    ultimately show ?thesis by blast
  next
    case (Inr scl)
    show ?thesis
    proof (cases "free_clst v = 0")
      case True
      then have "create_chain clst v = Some (0, v1)" using c1 Inr f1 by (simp add: create_chain_unfold)
      then show ?thesis using True m1 by (auto simp: create_ok_def)
    next
      case nz: False
      have wf1: "wf_win v1" "vol_ok v1" using movesD(2) [OF m1] g1 ok by simp_all
      have scl: "1 \<le> scl" "scl < n_fatent v1" using sok Inr f1 by (auto simp: start_ok_def)
      obtain r2 v2 where cf: "create_find clst scl v1 = Some (r2, v2)" "moves v1 v2" "scan_ok v1 r2"
        using create_find_spec [OF wf1 scl] by blast
      have m2: "moves v v2" by (rule moves_trans [OF m1 cf(2)])
      have so: "scan_ok v r2" by (rule fat_entry_moves_eq(1) [OF m1 ok cf(3)])
      show ?thesis
      proof (cases r2)
        case (Inl e)
        then have "create_chain clst v = Some (e, v2)" using c1 cf nz f1 \<open>st = Inr scl\<close> by (simp add: create_chain_unfold)
        moreover have "create_ok clst v e v2"
          using so Inl m2 moves_effect [OF m2] by (auto simp: scan_ok_def create_ok_def)
        ultimately show ?thesis by blast
      next
        case (Inr c)
        obtain r v' where cc: "create_claim clst c v2 = (r, v')" by (cases "create_claim clst c v2")
        note g2 = wframe_geom [OF movesD(1) [OF m2]]
        have c: "valid_clst v c" "fat_entry v c = 0" using so Inr by (auto simp: scan_ok_def)
        have cl: "clst = 0 \<or> valid_clst v clst \<and> n_fatent v \<le> fat_entry v clst"
          using sok \<open>st = Inr scl\<close> by (simp add: start_ok_def)
        have ne: "clst \<noteq> c" using c cl vol_ok_bounds(6) [OF ok] by (auto simp: valid_clst_def word_le_nat_alt)
        have v2: "wf_win v2" "vol_ok v2" "valid_clst v2 c" "clst = 0 \<or> valid_clst v2 clst"
          using movesD(2) [OF m2] g2 ok c cl by auto
        note cs = create_claim_spec [OF v2 ne cc]
        have "create_chain clst v = Some (r, v')" using c1 cf nz f1 \<open>st = Inr scl\<close> Inr cc
          by (simp add: create_chain_unfold)
        moreover have e: "effect (in_fat v) v v'"
          using effect_trans [OF moves_effect [OF m2] , of "in_fat v"] cs(1) g2 by simp
        moreover have "claimed clst c v v'" if "r = c" using claimed_moves [OF m2 ok cs(3) [OF that]] .
        ultimately show ?thesis using cs(2) c cl e movesD(3) [OF m2] by (auto simp: create_ok_def)
      qed
    qed
  qed
qed

lemma claimed_count_ok:
  assumes "claimed clst c v v'" "effect S v v'" "vol_ok v" "valid_clst v c" "fat_entry v c = 0"
    and "clst = 0 \<or> valid_clst v clst \<and> fat_entry v clst \<noteq> 0" "count_ok v"
  shows "count_ok v'"
proof -
  have k: "valid_clst v' = valid_clst v" "n_fatent v' = n_fatent v" using effectD(5,6) [OF assms(2)] by simp_all
  have c0: "c \<noteq> 0" using assms(4) by (auto simp: valid_clst_def word_le_nat_alt)
  have ent: "fat_entry v' d = (if d = c then trunc_entry (fs_type v) DISK_ERR
      else if clst \<noteq> 0 \<and> d = clst then c else fat_entry v d)" if "valid_clst v d" for d
    using assms(1) that unfolding claimed_def by blast
  have "fat_entry v' d = 0 \<longleftrightarrow> fat_entry v d = 0 \<and> d \<noteq> c" if "valid_clst v d" for d
    using ent [OF that] trunc_eoc_ne c0 assms(6) by (cases "d = c"; cases "clst \<noteq> 0 \<and> d = clst") auto
  then have "free_set v' = free_set v - {c}" using k by (auto simp: free_set_def)
  moreover have cin: "c \<in> free_set v" using assms(4,5) by (simp add: free_set_def)
  ultimately have card: "card (free_set v') = card (free_set v) - 1" by simp
  have pos: "0 < card (free_set v)" using cin by (auto simp: card_gt_0_iff)
  have "free_set v \<subseteq> {d. valid_clst v d}" by (auto simp: free_set_def)
  then have le: "card (free_set v) \<le> unat (n_fatent v) - 2"
    using card_valid [of v] card_mono [of "{d. valid_clst v d}" "free_set v"] by simp
  show ?thesis
  proof (cases "n_fatent v - 2 < free_clst v")
    case True
    then show ?thesis using assms(1) k leD by (auto simp: count_ok_def claimed_def)
  next
    case False
    then have f: "unat (free_clst v) = card (free_set v)" using assms(7) by (simp add: count_ok_def)
    then have "unat (free_clst v - 1) = unat (free_clst v) - 1" using pos by (simp add: unat_sub word_le_nat_alt Suc_le_eq)
    then show ?thesis using False f card assms(1) by (simp add: count_ok_def claimed_def)
  qed
qed

text \<open>A chain that is stretched at its end: the store interface gives the new chain.\<close>

lemma claimed_chain:
  assumes ok: "vol_ok v" and ch: "chain (n_fatent v) (fat_entry v) cs" and cl: "claimed (last cs) c v v'"
    and c: "valid_clst v c" "fat_entry v c = 0"
  shows "chain (n_fatent v) (fat_entry v') (cs @ [c])" and "c \<notin> set cs"
proof -
  have v: "valid_clst v d" if "d \<in> set cs" for d using chain_valid [OF ch that] by (simp add: valid_clst_def)
  have nz: "fat_entry v d \<noteq> 0" if "d \<in> set cs" for d
    using that ch
  proof (induction "n_fatent v" "fat_entry v" cs rule: chain.induct)
    case (2 b)
    then show ?case using vol_ok_n [OF ok] by (auto simp: word_le_nat_alt)
  next
    case (3 b b' bs)
    then show ?case using chain_valid [of _ _ "b' # bs" b'] by (auto simp: word_le_nat_alt)
  qed simp
  show nin: "c \<notin> set cs" using nz c by auto
  have ne: "cs \<noteq> []" using ch by auto
  then have l: "last cs \<in> set cs" by simp
  have l0: "last cs \<noteq> 0" using v [OF l] by (auto simp: valid_clst_def word_le_nat_alt)
  have "chain (n_fatent v) ((fat_entry v)(last cs := c, c := trunc_entry (fs_type v) DISK_ERR)) (cs @ [c])"
    using chain_extend [OF ch _ _ nin trunc_eoc [OF ok]] c by (simp add: valid_clst_def)
  moreover have "fat_entry v' d = ((fat_entry v)(last cs := c, c := trunc_entry (fs_type v) DISK_ERR)) d"
    if "d \<in> set (cs @ [c])" for d
    using that v [of d] c cl l0 nin by (auto simp: claimed_def)
  ultimately show "chain (n_fatent v) (fat_entry v') (cs @ [c])"
    using chain_cong [of "cs @ [c]" "fat_entry v'"] by blast
qed

end
