(* ===== verification/FatExample.thy ===== *)
theory FatExample
  imports FatChain
begin

text \<open>
  A small FAT12 volume on a working drive, on which the hypotheses of the properties are shown to
  hold: one sector per cluster, two copies of a one-sector table, one sector of root directory and
  eight clusters, of which cluster 2 links to cluster 3, the end of a chain.
\<close>

definition ex_fat :: "BYTE list" where
  "ex_fat = [0xF8, 0xFF, 0xFF, 0x03, 0xF0, 0xFF] @ replicate 506 0"

definition ex_dev :: ddev where
  "ex_dev = \<lparr>attached = True, present = True,
     media = (\<lambda>k. if k = 1 \<or> k = 2 then ex_fat else replicate 512 0), clk = 0,
     io_fault = (\<lambda>t. False), alloc_ok = (\<lambda>t n. True), fattime = (\<lambda>t. 0), fresh = (\<lambda>t i. 0)\<rparr>"

definition ex_fs :: fatfs where
  "ex_fs = \<lparr>fs_type = 1, pdrv = 0, ldrv = 0, n_fats = 2, wflag = 0, fsi_flag = 0x80, fs_id = 1,
     n_rootdir = 16, csize = 1, lfnbuf = replicate 256 0, last_clst = 0xFFFFFFFF, free_clst = 6, cdir = 0,
     n_fatent = 10, fsize = 1, volbase = 0, fatbase = 1, dirbase = 3, database = 4,
     winsect = 0xFFFFFFFF, win = replicate 512 0\<rparr>"

definition ex_vol :: vol where
  "ex_vol = fatfs.extend ex_fs (vol.fields ex_dev)"

lemma ex_vol_fields [simp]:
  "fs_type ex_vol = 1" "pdrv ex_vol = 0" "n_fats ex_vol = 2" "wflag ex_vol = 0" "n_rootdir ex_vol = 16"
  "csize ex_vol = 1" "last_clst ex_vol = 0xFFFFFFFF" "free_clst ex_vol = 6" "n_fatent ex_vol = 10"
  "fsize ex_vol = 1" "fatbase ex_vol = 1" "dirbase ex_vol = 3" "database ex_vol = 4"
  "winsect ex_vol = 0xFFFFFFFF" "win ex_vol = replicate 512 0" "dk ex_vol = ex_dev"
  "lfnbuf ex_vol = replicate 256 0" "fs_id ex_vol = 1" "cdir ex_vol = 0"
  by (simp_all add: ex_vol_def ex_fs_def fatfs.defs vol.defs)

lemma ex_vol_good: "fat_good ex_vol"
  by (simp add: fat_good_def wf_win_def wf_media_def vol_ok_def drive_ok_def healthy_def ex_dev_def ex_fat_def
      fat_size_def max_fatent_def Let_def)

lemma ex_vol_wf: "wf_win ex_vol" and ex_vol_ok: "vol_ok ex_vol" and ex_vol_drive: "drive_ok ex_vol"
  using ex_vol_good by (simp_all add: fat_good_def)

lemma ex_byte: "k < 512 \<Longrightarrow> fatbyte ex_vol k = ex_fat ! k"
  by (simp add: fatbyte_def vsec_def fatsec_def ex_dev_def)

lemma ex_entry: "fat_entry ex_vol 2 = 3" "fat_entry ex_vol 3 = 0xFFF" "fat_entry ex_vol 4 = 0"
proof -
  have b: "fatbyte ex_vol 3 = 3" "fatbyte ex_vol 4 = 0xF0" "fatbyte ex_vol 5 = 0xFF" "fatbyte ex_vol 6 = 0"
    "fatbyte ex_vol 7 = 0" by (simp_all add: ex_byte ex_fat_def)
  show "fat_entry ex_vol 2 = 3" "fat_entry ex_vol 3 = 0xFFF" "fat_entry ex_vol 4 = 0"
    by (simp_all add: fat_entry_def dec_entry_def dec12_def Let_def b)
qed

lemma ex_chain: "chain (n_fatent ex_vol) (fat_entry ex_vol) [2, 3]"
  by (simp add: ex_entry)

lemma ex_clst: "valid_clst ex_vol 2" "valid_clst ex_vol 3" "valid_clst ex_vol 4"
  by (simp_all add: valid_clst_def)

lemma ex_clst_cases:
  assumes "valid_clst ex_vol d"
  shows "d \<in> {2, 3, 4, 5, 6, 7, 8, 9}"
proof -
  have "2 \<le> unat d" "unat d < 10"
    using assms by (simp_all add: valid_clst_def word_le_nat_alt word_less_nat_alt)
  then have "unat d \<in> {2, 3, 4, 5, 6, 7, 8, 9}" by auto
  then have "of_nat (unat d) \<in> (of_nat ` {2, 3, 4, 5, 6, 7, 8, 9} :: DWORD set)" by (rule imageI)
  then show ?thesis by simp
qed

lemma ex_entries:
  assumes "valid_clst ex_vol d"
  shows "fat_entry ex_vol d = (if d = 2 then 3 else if d = 3 then 0xFFF else 0)"
proof -
  have b: "fatbyte ex_vol k = 0" if "5 < k" "k < 512" for k
  proof -
    have "\<not> k < 6" "k - 6 < 506" using that by simp_all
    then have "ex_fat ! k = 0" unfolding ex_fat_def by (subst nth_append) simp
    then show ?thesis using that by (simp add: ex_byte)
  qed
  have "fat_entry ex_vol x = 0" if "x \<in> {4, 5, 6, 7, 8, 9}" for x
    using that by (auto simp: fat_entry_def dec_entry_def dec12_def Let_def b)
  then show ?thesis using ex_clst_cases [OF assms] ex_entry by auto
qed

lemma ex_no_one: "valid_clst ex_vol d \<Longrightarrow> fat_entry ex_vol d \<noteq> 1"
  by (simp add: ex_entries)

lemma ex_valid: "valid_clst ex_vol d \<longleftrightarrow> d \<in> {2, 3, 4, 5, 6, 7, 8, 9}"
proof
  show "valid_clst ex_vol d" if "d \<in> {2, 3, 4, 5, 6, 7, 8, 9}"
    using that by (auto simp: valid_clst_def)
qed (rule ex_clst_cases)

lemma ex_free_set: "free_set ex_vol = {4, 5, 6, 7, 8, 9}"
proof (rule set_eqI)
  fix d
  have "d \<in> free_set ex_vol \<longleftrightarrow> d \<in> {2, 3, 4, 5, 6, 7, 8, 9} \<and> d \<noteq> 2 \<and> d \<noteq> 3"
    using ex_entries [of d] ex_entry unfolding free_set_def ex_valid by (cases "d = 2"; cases "d = 3"; simp) blast
  then show "d \<in> free_set ex_vol \<longleftrightarrow> d \<in> {4, 5, 6, 7, 8, 9}" by auto
qed

lemma ex_count_ok: "count_ok ex_vol"
  by (simp add: count_ok_def ex_free_set)

end
