(* ===== verification/FatCoreProps.thy ===== *)
theory FatCoreProps
  imports FatExample
begin

text \<open>
  The properties of the disk access window, the allocation table and the cluster chains, each with
  an instance on the example volume.
\<close>

section \<open>The window\<close>

lemma sync_window_media:
  assumes "wf_win v" "sync_window v = (FR_OK, v')" "t \<noteq> DISK_ERR" "\<not> mirrored v t"
  shows "media (dk v') (unat t) = vsec v t"
proof -
  note s = sync_window_spec [OF assms(1,2)]
  have "vsec v' t = vsec v t" using movesD(4) [OF s(1) assms(3,4)] .
  moreover have "vsec v' t = media (dk v') (unat t)"
    using s(4) movesD(2) [OF s(1)] assms(3) by (auto simp: vsec_def wf_win_def)
  ultimately show ?thesis by simp
qed

text \<open>On a working drive the second copy of the table follows the first.\<close>

lemma sync_window_mirror:
  assumes wf: "wf_win v" and dr: "drive_ok v" and dirty: "wflag v \<noteq> 0" and fat: "in_fat v (winsect v)"
    and two: "n_fats v = 2" and sw: "sync_window v = (r, v')"
  shows "media (dk v') (unat (winsect v + fsize v)) = win v"
proof -
  have len: "length (win v) = 512" using wf by (simp add: wf_win_def)
  obtain r1 d1 where w1: "disk_write (pdrv v) (win v) (winsect v) 1 (dk v) = (r1, d1)"
    by (cases "disk_write (pdrv v) (win v) (winsect v) 1 (dk v)")
  obtain r2 d2 where w2: "disk_write (pdrv v) (win v) (winsect v + fsize v) 1 d1 = (r2, d2)"
    by (cases "disk_write (pdrv v) (win v) (winsect v + fsize v) 1 d1")
  have h: "healthy (dk v)" "pdrv v < 4" using dr by (auto simp: drive_ok_def)
  have r1: "r1 = RES_OK" using disk_write_healthy [OF h, of "win v" "winsect v" 1] w1 by simp
  have r2: "r2 = RES_OK"
    using disk_write_healthy [OF disk_write1(3) [OF w1 len h(1)] h(2), of "win v" "winsect v + fsize v" 1] w2 by simp
  have "dk v' = d2" using sw dirty fat two w1 w2 r1 by (auto simp: sync_window_def in_fat_def Let_def)
  then show ?thesis using disk_write1(2) [OF w2 len] r2 by simp
qed

text \<open>C19: Moving the disk access window to any sector, whatever transfers fail, leaves the content of
every sector as the code above sees it unchanged (outside the mirrored second table).  It reports an
error only if a transfer failed, and on success the window shows the requested sector.\<close>

theorem window_view:
  assumes "wf_win v" "move_window s v = (r, v')"
  shows "(r = FR_OK \<or> r = FR_DISK_ERR \<and> \<not> drive_ok v) \<and> wf_win v' \<and>
    (\<forall>t. t \<noteq> DISK_ERR \<and> \<not> mirrored v t \<longrightarrow> vsec v' t = vsec v t) \<and>
    (r = FR_OK \<and> s \<noteq> DISK_ERR \<and> \<not> mirrored v s \<longrightarrow> winsect v' = s \<and> win v' = vsec v s)"
  using move_window_spec [OF assms] movesD(2,4) [OF move_window_spec(1) [OF assms]] vsec_in_window [of v' s]
  by auto

theorem window_view_witness:
  "\<exists>v'. move_window 1 ex_vol = (FR_OK, v') \<and> win v' = ex_fat"
proof -
  obtain r v' where m: "move_window 1 ex_vol = (r, v')" by (cases "move_window 1 ex_vol")
  have "\<not> mirrored ex_vol 1" by (simp add: mirrored_def)
  then show ?thesis using window_view [OF ex_vol_wf m] ex_vol_drive m by (auto simp: vsec_def ex_dev_def)
qed

text \<open>Flushing the window is durable: after a successful flush every sector on the medium is what
the code sees, and on a working drive a dirty table sector is also in the second copy of the table.\<close>

theorem window_flush:
  assumes "wf_win v" "sync_window v = (r, v')"
  shows "(drive_ok v \<longrightarrow> r = FR_OK) \<and>
    (r = FR_OK \<longrightarrow> (\<forall>t. t \<noteq> DISK_ERR \<and> \<not> mirrored v t \<longrightarrow> media (dk v') (unat t) = vsec v t)) \<and>
    (drive_ok v \<and> wflag v \<noteq> 0 \<and> in_fat v (winsect v) \<and> n_fats v = 2 \<longrightarrow>
       media (dk v') (unat (winsect v + fsize v)) = win v)"
  using sync_window_spec(3) [OF assms] sync_window_media [OF assms(1)] sync_window_mirror [OF assms(1) _ _ _ _ assms(2)]
    assms(2) by blast

definition ex_dirty :: vol where
  "ex_dirty = ex_vol\<lparr>winsect := 1, win := ex_fat[6 := 7], wflag := 1\<rparr>"

lemma ex_dirty_wf: "wf_win ex_dirty" "drive_ok ex_dirty"
  using ex_vol_good
  by (auto simp: ex_dirty_def wf_win_def wf_media_def drive_ok_def healthy_def ex_dev_def ex_fat_def)

theorem window_flush_witness:
  "\<exists>v'. sync_window ex_dirty = (FR_OK, v') \<and> media (dk v') 1 ! 6 = 7 \<and> media (dk v') 2 ! 6 = 7"
proof -
  obtain r v' where m: "sync_window ex_dirty = (r, v')" by (cases "sync_window ex_dirty")
  have w: "win ex_dirty ! 6 = 7" by (simp add: ex_dirty_def ex_fat_def)
  have "\<not> mirrored ex_dirty 1" "in_fat ex_dirty (winsect ex_dirty)" "wflag ex_dirty \<noteq> 0" "n_fats ex_dirty = 2"
    "winsect ex_dirty = 1" "fsize ex_dirty = 1"
    by (simp_all add: ex_dirty_def mirrored_def in_fat_def)
  moreover have "(1 :: DWORD) \<noteq> DISK_ERR" by simp
  ultimately show ?thesis
    using window_flush [OF ex_dirty_wf(1) m] ex_dirty_wf(2) m w vsec_in_window [of ex_dirty 1] by force
qed

section \<open>The table\<close>

text \<open>\<open>get_fat\<close> returns the entry that the FAT12, FAT16 or FAT32 layout of the table defines for
the cluster, or the disk error value if a transfer failed, and changes nothing but the window.\<close>

theorem get_fat_correct:
  assumes "wf_win v" "vol_ok v" "valid_clst v c" "get_fat c v = (x, v')"
  shows "(x = fat_entry v c \<or> x = DISK_ERR \<and> \<not> drive_ok v) \<and> moves v v'"
  using get_fat_spec(1,2) [OF assms(1,2,4)] assms(3) by blast

theorem get_fat_correct_witness:
  "\<exists>v'. get_fat 2 ex_vol = (3, v') \<and> moves ex_vol v'"
proof -
  obtain x v' where g: "get_fat 2 ex_vol = (x, v')" by (cases "get_fat 2 ex_vol")
  then show ?thesis using get_fat_correct [OF ex_vol_wf ex_vol_ok ex_clst(1) g] ex_vol_drive ex_entry by auto
qed

text \<open>C18: A successful \<open>put_fat\<close> stores the value in the entry, cut to the width of the FAT type, and
changes no other entry, although FAT12 entries share bytes and straddle sectors; no sector outside
the table is changed even when a transfer fails.\<close>

theorem put_fat_correct:
  assumes "wf_win v" "vol_ok v" "valid_clst v c" "put_fat c x v = (r, v')"
  shows "(r = FR_OK \<or> r = FR_DISK_ERR \<and> \<not> drive_ok v) \<and>
    (r = FR_OK \<longrightarrow> (\<forall>d. valid_clst v d \<longrightarrow>
       fat_entry v' d = (if d = c then trunc_entry (fs_type v) x else fat_entry v d))) \<and>
    (\<forall>s. s \<noteq> DISK_ERR \<and> \<not> mirrored v s \<and> \<not> in_fat v s \<longrightarrow> vsec v' s = vsec v s)"
  using put_fat_spec [OF assms] by (auto simp: touches_def)

theorem put_fat_correct_witness:
  "\<exists>v'. put_fat 3 4 ex_vol = (FR_OK, v') \<and> fat_entry v' 3 = 4 \<and> fat_entry v' 2 = 3"
proof -
  obtain r v' where p: "put_fat 3 4 ex_vol = (r, v')" by (cases "put_fat 3 4 ex_vol")
  show ?thesis using put_fat_correct [OF ex_vol_wf ex_vol_ok ex_clst(2) p] ex_vol_drive ex_entry ex_clst p
    by (auto simp: trunc_entry_def)
qed

text \<open>C22: Reading back through the store interface: after a put the same entry reads as the value
stored and every other entry reads as before.\<close>

theorem fat_read_back:
  assumes "fat_good v" "valid_clst v c" "valid_clst v d"
    and "put_fat c x v = (r, v1)" "get_fat d v1 = (y, v2)"
  shows "y = (if d = c then trunc_entry (fs_type v) x else fat_entry v d)"
  using fat.put_get [OF assms(1,2,4)] fat.put_get_other [OF assms(1,2,3) _ assms(4,5)] assms(5)
  by (cases "d = c") auto

theorem fat_read_back_witness:
  "\<exists>v1 v2. put_fat 3 0x1005 ex_vol = (FR_OK, v1) \<and> get_fat 3 v1 = (5, v2)"
proof -
  obtain r v1 where p: "put_fat 3 0x1005 ex_vol = (r, v1)" by (cases "put_fat 3 0x1005 ex_vol")
  obtain y v2 where g: "get_fat 3 v1 = (y, v2)" by (cases "get_fat 3 v1")
  have "r = FR_OK" using put_fat_spec(2) [OF ex_vol_wf ex_vol_ok ex_clst(2) p] ex_vol_drive by blast
  moreover have "y = 5" using fat_read_back [OF ex_vol_good ex_clst(2,2) p g] by (simp add: trunc_entry_def)
  ultimately show ?thesis using p g by blast
qed

section \<open>Cluster chains\<close>

text \<open>C7: Removing the rest of a chain from one of its clusters on a working drive frees exactly
these clusters, ends the part before them properly, leaves every other entry and every sector outside
the table alone, and counts the freed clusters.\<close>

theorem remove_chain_correct:
  assumes "fat_good v" "chain (n_fatent v) (fat_entry v) (xs @ c # cs)"
  shows "\<exists>v'. remove_chain c (if xs = [] then 0 else last xs) v = Some (FR_OK, v') \<and>
    (xs \<noteq> [] \<longrightarrow> chain (n_fatent v) (fat_entry v') xs) \<and>
    (\<forall>d. valid_clst v d \<longrightarrow> d \<notin> set xs \<longrightarrow>
       fat_entry v' d = (if d \<in> set (c # cs) then 0 else fat_entry v d)) \<and>
    (\<forall>s. s \<noteq> DISK_ERR \<and> \<not> mirrored v s \<and> \<not> in_fat v s \<longrightarrow> vsec v' s = vsec v s) \<and>
    unat (free_clst v') = free_count_after v (length (c # cs))"
  using remove_chain_frees [OF assms refl] by (fastforce simp: effect_def)

theorem remove_chain_correct_witness:
  "\<exists>v'. remove_chain 3 2 ex_vol = Some (FR_OK, v') \<and> chain 10 (fat_entry v') [2] \<and> fat_entry v' 3 = 0 \<and>
     unat (free_clst v') = 7"
  using remove_chain_correct [OF ex_vol_good, of "[2]" 3 "[]"] ex_chain ex_clst
  by (auto simp: free_count_after_def Let_def)

text \<open>C23: \<open>remove_chain\<close> returns for every content of the table, cyclic chains included, and every
pattern of transfer errors, and changes nothing outside the table.\<close>

theorem remove_chain_terminates:
  assumes "wf_win v" "vol_ok v"
  shows "\<exists>r v'. remove_chain c p v = Some (r, v') \<and>
    (\<forall>s. s \<noteq> DISK_ERR \<and> \<not> mirrored v s \<and> \<not> in_fat v s \<longrightarrow> vsec v' s = vsec v s)"
  using remove_chain_total [OF assms, of c p] by (auto simp: effect_def)

theorem remove_chain_terminates_witness:
  "\<exists>r v'. remove_chain 2 0 ex_vol = Some (r, v') \<and> vsec v' 4 = vsec ex_vol 4"
proof -
  have "\<not> mirrored ex_vol 4 \<and> \<not> in_fat ex_vol 4" by (simp add: mirrored_def in_fat_def)
  then show ?thesis using remove_chain_terminates [OF ex_vol_wf ex_vol_ok, of 2 0] by force
qed

text \<open>C9: \<open>create_chain\<close> always returns, with one of these outcomes: a disk error after a failed
transfer; 0, only if no cluster is free according to the counter or to the whole table; 1, only for an
invalid or inconsistent table; the successor of a cluster that has one; or a cluster that was free,
which is now the end of its chain, is linked from the given cluster, and is the only other entry
changed.\<close>

theorem create_chain_correct:
  assumes "wf_win v" "vol_ok v"
  shows "\<exists>r v'. create_chain clst v = Some (r, v') \<and>
    ((r = DISK_ERR \<and> \<not> drive_ok v) \<or>
     (r = 0 \<and> (free_clst v = 0 \<or> (\<forall>d. valid_clst v d \<longrightarrow> fat_entry v d \<noteq> 0))) \<or>
     (r = 1 \<and> (clst \<noteq> 0 \<and> (\<not> valid_clst v clst \<or> fat_entry v clst < 2) \<or>
        (\<exists>d. valid_clst v d \<and> fat_entry v d = 1))) \<or>
     (valid_clst v clst \<and> valid_clst v r \<and> r = fat_entry v clst \<and> moves v v') \<or>
     (valid_clst v r \<and> fat_entry v r = 0 \<and> (clst = 0 \<or> valid_clst v clst \<and> n_fatent v \<le> fat_entry v clst) \<and>
        claimed clst r v v')) \<and>
    effect (in_fat v) v v'"
proof -
  obtain r v' where c: "create_chain clst v = Some (r, v')" "create_ok clst v r v'"
    using create_chain_spec [OF assms] by blast
  moreover have "effect (in_fat v) v v'" using c(2) moves_effect [of v v' "in_fat v"] by (auto simp: create_ok_def)
  ultimately show ?thesis by (intro exI [of _ r] exI [of _ v']) (auto simp: create_ok_def free_set_def)
qed

theorem create_chain_correct_witness:
  "\<exists>v'. create_chain 2 ex_vol = Some (3, v')"
proof -
  obtain r v' where c: "create_chain 2 ex_vol = Some (r, v')" and r:
    "(r = DISK_ERR \<and> \<not> drive_ok ex_vol) \<or>
     (r = 0 \<and> (free_clst ex_vol = 0 \<or> (\<forall>d. valid_clst ex_vol d \<longrightarrow> fat_entry ex_vol d \<noteq> 0))) \<or>
     (r = 1 \<and> ((2 :: DWORD) \<noteq> 0 \<and> (\<not> valid_clst ex_vol 2 \<or> fat_entry ex_vol 2 < 2) \<or>
        (\<exists>d. valid_clst ex_vol d \<and> fat_entry ex_vol d = 1))) \<or>
     (valid_clst ex_vol 2 \<and> valid_clst ex_vol r \<and> r = fat_entry ex_vol 2 \<and> moves ex_vol v') \<or>
     (valid_clst ex_vol r \<and> fat_entry ex_vol r = 0 \<and>
        ((2 :: DWORD) = 0 \<or> valid_clst ex_vol 2 \<and> n_fatent ex_vol \<le> fat_entry ex_vol 2) \<and>
        claimed 2 r ex_vol v')"
    using create_chain_correct [OF ex_vol_wf ex_vol_ok, of 2] by blast
  have no1: "fat_entry ex_vol d \<noteq> 1" if "valid_clst ex_vol d" for d
    using that ex_no_one by blast
  show ?thesis using c r no1 ex_vol_drive ex_entry ex_clst by auto
qed

lemma create_ok_count:
  assumes "vol_ok v" "drive_ok v" "create_ok clst v r v'" "count_ok v"
  shows "count_ok v'"
proof -
  have m: "count_ok v'" if "moves v v'" using count_ok_moves [OF that assms(1,4)] .
  have c: "count_ok v'" if "valid_clst v r" "fat_entry v r = 0" "claimed clst r v v'" "effect (in_fat v) v v'"
    "clst = 0 \<or> valid_clst v clst \<and> n_fatent v \<le> fat_entry v clst"
  proof -
    have "clst = 0 \<or> valid_clst v clst \<and> fat_entry v clst \<noteq> 0"
      using that(5) vol_ok_n [OF assms(1)] by (auto simp: word_le_nat_alt)
    then show ?thesis by (rule claimed_count_ok [OF that(3,4) assms(1) that(1,2) _ assms(4)])
  qed
  show ?thesis using assms(2,3) m c unfolding create_ok_def by blast
qed

text \<open>Stretching a chain at its last cluster on a working drive either reports that no cluster is
free or that the table is invalid, or extends the chain by one cluster that was free.\<close>

theorem stretch_chain:
  assumes "fat_good v" "chain (n_fatent v) (fat_entry v) cs"
  shows "\<exists>r v'. create_chain (last cs) v = Some (r, v') \<and>
    (r = 0 \<and> (free_clst v = 0 \<or> free_set v = {}) \<or> r = 1 \<and> (\<exists>d. valid_clst v d \<and> fat_entry v d = 1) \<or>
     r \<in> free_set v \<and> r \<notin> set cs \<and> chain (n_fatent v) (fat_entry v') (cs @ [r]))"
proof -
  have wf: "wf_win v" "vol_ok v" "drive_ok v" using assms(1) by (simp_all add: fat_good_def)
  obtain r v' where c: "create_chain (last cs) v = Some (r, v')" "create_ok (last cs) v r v'"
    using create_chain_spec [OF wf(1,2)] by blast
  have "cs \<noteq> []" using assms(2) by auto
  then have lv: "valid_clst v (last cs)" using chain_valid [OF assms(2), of "last cs"] by (simp add: valid_clst_def)
  have le: "n_fatent v \<le> fat_entry v (last cs)" by (rule chain_last [OF assms(2)])
  then have "\<not> fat_entry v (last cs) < 2 \<and> \<not> valid_clst v (fat_entry v (last cs))"
    using vol_ok_bounds(6) [OF wf(2)] by (auto simp: valid_clst_def word_le_nat_alt word_less_nat_alt)
  then show ?thesis
    using c lv wf(3) claimed_chain [OF wf(2) assms(2)]
    by (intro exI [of _ r] exI [of _ v']) (auto simp: create_ok_def free_set_def)
qed

theorem stretch_chain_witness:
  "\<exists>r v'. create_chain 3 ex_vol = Some (r, v') \<and> r \<in> {4, 5, 6, 7, 8, 9} \<and> chain 10 (fat_entry v') [2, 3, r]"
  using stretch_chain [OF ex_vol_good ex_chain] ex_no_one by (auto simp: ex_free_set)

text \<open>C24: The FSInfo counter stays right: if it is unknown or equal to the number of free clusters,
it is so after \<open>create_chain\<close> and after \<open>remove_chain\<close>, whatever they return.\<close>

theorem free_count_invariant:
  assumes "fat_good v" "count_ok v"
  shows "(create_chain clst v = Some (r, v') \<longrightarrow> count_ok v') \<and>
    (remove_chain c p v = Some (s, v'') \<longrightarrow> p = 0 \<or> fat_entry v p \<noteq> 0 \<longrightarrow> count_ok v'')"
proof -
  have wf: "wf_win v" "vol_ok v" "drive_ok v" using assms(1) by (simp_all add: fat_good_def)
  show ?thesis
    using create_chain_spec [OF wf(1,2), of clst] create_ok_count [OF wf(2,3) _ assms(2)]
      remove_chain_total [OF wf(1,2), of c p] wf(3) assms(2) by fastforce
qed

theorem free_count_invariant_witness:
  "\<exists>v'. remove_chain 2 0 ex_vol = Some (FR_OK, v') \<and> count_ok v'"
proof -
  obtain v' where v': "remove_chain 2 0 ex_vol = Some (FR_OK, v')"
    using remove_chain_frees [OF ex_vol_good, of "[]" 2 "[3]"] ex_chain by auto
  then show ?thesis using free_count_invariant [OF ex_vol_good ex_count_ok, of 0 _ _ 2 0] by blast
qed

end
