(* ===== verification/FatDirIdx.thy ===== *)
theory FatDirIdx
  imports FatChain "HOL-Library.Monad_Syntax"
begin

text \<open>
  The position inside a directory table: \<open>dir_clear\<close>, \<open>dir_sdi\<close>, \<open>dir_next\<close> and \<open>dir_alloc\<close> of
  \<^verbatim>\<open>ff.c\<close>, over the directory object \<^verbatim>\<open>DIR\<close>.  The pointer \<^verbatim>\<open>dp->dir\<close> always points into the window
  and is kept as an offset into it; \<^verbatim>\<open>obj.fs\<close> is the address of the filesystem object.
\<close>

record FFOBJID =
  obj_fs :: nat
  obj_id :: WORD
  obj_attr :: BYTE
  obj_stat :: BYTE
  sclust :: DWORD
  objsize :: DWORD

record DIR = FFOBJID +
  dptr :: DWORD
  clust :: DWORD
  sect :: DWORD
  dir :: nat
  fn :: "BYTE list"
  blk_ofs :: DWORD
  pat :: "BYTE list"

text \<open>The memory allocator; every request advances the clock of the environment.\<close>

definition ff_memalloc :: "DWORD \<Rightarrow> vol \<Rightarrow> bool \<times> vol" where
  "ff_memalloc msize v = (alloc_ok (dk v) (clk (dk v)) msize, v\<lparr>dk := (dk v)\<lparr>clk := Suc (clk (dk v))\<rparr>\<rparr>)"

section \<open>Clearing a cluster\<close>

abbreviation (input) MAX_MALLOC :: DWORD where "MAX_MALLOC \<equiv> 0x8000"

text \<open>The allocation loop: the size that was granted, or at most one sector.\<close>

function clear_alloc :: "DWORD \<Rightarrow> vol \<Rightarrow> DWORD \<times> vol" where
  "clear_alloc szb v =
     (if szb > SS then
        let (got, v) = ff_memalloc szb v
        in if got then (szb, v) else clear_alloc (szb div 2) v
      else (szb, v))"
  by pat_completeness auto
termination
  by (relation "measure (\<lambda>(szb, v). unat szb)") (auto simp: word_less_nat_alt unat_div)

declare clear_alloc.simps [simp del]

text \<open>The writing loop: the counter \<^verbatim>\<open>n\<close> at its end.\<close>

partial_function (option) clear_fill ::
    "BYTE list \<Rightarrow> DWORD \<Rightarrow> DWORD \<Rightarrow> DWORD \<Rightarrow> vol \<Rightarrow> (DWORD \<times> vol) option" where
  "clear_fill ibuf sct szb n v =
     (if n < ucast (csize v) then
        let (r, d) = disk_write (pdrv v) ibuf (sct + n) szb (dk v); v = v\<lparr>dk := d\<rparr>
        in if r = RES_OK then clear_fill ibuf sct szb (n + szb) v else Some (n, v)
      else Some (n, v))"

definition dir_clear :: "DWORD \<Rightarrow> vol \<Rightarrow> (FRESULT \<times> vol) option" where
  "dir_clear clst v =
     (let (r, v) = sync_window v
      in if r \<noteq> FR_OK then Some (FR_DISK_ERR, v)
         else let sct = clst2sect clst v;
                  v = v\<lparr>winsect := sct\<rparr>;
                  v = v\<lparr>win := memset 0 0 512 (win v)\<rparr>;
                  bytes = ucast (csize v) * SS;
                  (szb, v) = clear_alloc (if bytes \<ge> MAX_MALLOC then MAX_MALLOC else bytes) v
              in do {
                (n, v) \<leftarrow> (if szb > SS then clear_fill (replicate (unat szb) 0) sct (szb div SS) 0 v
                           else clear_fill (win v) sct 1 0 v);
                Some (if n = ucast (csize v) then FR_OK else FR_DISK_ERR, v)
              })"

section \<open>Moving the directory index\<close>

partial_function (option) sdi_follow ::
    "DWORD \<Rightarrow> DWORD \<Rightarrow> DWORD \<Rightarrow> vol \<Rightarrow> ((FRESULT + DWORD \<times> DWORD) \<times> vol) option" where
  "sdi_follow csz ofs clst v =
     (if ofs \<ge> csz then
        let (clst, v) = get_fat clst v
        in if clst = 0xFFFFFFFF then Some (Inl FR_DISK_ERR, v)
           else if clst < 2 \<or> clst \<ge> n_fatent v then Some (Inl FR_INT_ERR, v)
           else sdi_follow csz (ofs - csz) clst v
      else Some (Inr (ofs, clst), v))"

text \<open>The common tail of \<open>dir_sdi\<close>.\<close>

definition sdi_finish :: "DWORD \<Rightarrow> DWORD \<Rightarrow> DIR \<Rightarrow> FRESULT \<times> DIR" where
  "sdi_finish ofs clst dp =
     (let dp = dp\<lparr>clust := clst\<rparr>
      in if sect dp = 0 then (FR_INT_ERR, dp)
         else (FR_OK, dp\<lparr>sect := sect dp + ofs div SS, dir := unat (ofs mod SS)\<rparr>))"

definition dir_sdi :: "DWORD \<Rightarrow> DIR \<Rightarrow> vol \<Rightarrow> (FRESULT \<times> DIR \<times> vol) option" where
  "dir_sdi ofs dp v =
     (if ofs \<ge> MAX_DIR \<or> ofs mod SZDIRE \<noteq> 0 then Some (FR_INT_ERR, dp, v)
      else
        let dp = dp\<lparr>dptr := ofs\<rparr>;
            clst = sclust dp;
            clst = (if clst = 0 \<and> fs_type v \<ge> FS_FAT32 then dirbase v else clst)
        in if clst = 0 then
             if ofs div SZDIRE \<ge> ucast (n_rootdir v) then Some (FR_INT_ERR, dp, v)
             else let (r, dp) = sdi_finish ofs clst (dp\<lparr>sect := dirbase v\<rparr>) in Some (r, dp, v)
           else do {
             (st, v) \<leftarrow> sdi_follow (ucast (csize v) * SS) ofs clst v;
             case st of
               Inl r \<Rightarrow> Some (r, dp, v)
             | Inr (ofs, clst) \<Rightarrow>
                 let (r, dp) = sdi_finish ofs clst (dp\<lparr>sect := clst2sect clst v\<rparr>) in Some (r, dp, v)
           })"

text \<open>
  \<open>dir_next\<close>: the part that leaves a cluster of a dynamic table, then the whole step.  \<open>Inl\<close> is an
  early return.
\<close>

definition next_clust :: "bool \<Rightarrow> DIR \<Rightarrow> vol \<Rightarrow> ((FRESULT + unit) \<times> DIR \<times> vol) option" where
  "next_clust stretch dp v =
     (let (clst, v) = get_fat (clust dp) v
      in if clst \<le> 1 then Some (Inl FR_INT_ERR, dp, v)
         else if clst = 0xFFFFFFFF then Some (Inl FR_DISK_ERR, dp, v)
         else if clst \<ge> n_fatent v then
           if \<not> stretch then Some (Inl FR_NO_FILE, dp\<lparr>sect := 0\<rparr>, v)
           else do {
             (clst, v) \<leftarrow> create_chain (clust dp) v;
             if clst = 0 then Some (Inl FR_DENIED, dp, v)
             else if clst = 1 then Some (Inl FR_INT_ERR, dp, v)
             else if clst = 0xFFFFFFFF then Some (Inl FR_DISK_ERR, dp, v)
             else do {
               (r, v) \<leftarrow> dir_clear clst v;
               if r \<noteq> FR_OK then Some (Inl FR_DISK_ERR, dp, v)
               else Some (Inr (), dp\<lparr>clust := clst, sect := clst2sect clst v\<rparr>, v)
             }
           }
         else Some (Inr (), dp\<lparr>clust := clst, sect := clst2sect clst v\<rparr>, v))"

definition dir_next :: "bool \<Rightarrow> DIR \<Rightarrow> vol \<Rightarrow> (FRESULT \<times> DIR \<times> vol) option" where
  "dir_next stretch dp v =
     (let ofs = dptr dp + SZDIRE;
          dp = (if ofs \<ge> MAX_DIR then dp\<lparr>sect := 0\<rparr> else dp)
      in if sect dp = 0 then Some (FR_NO_FILE, dp, v)
         else do {
           (st, dp, v) \<leftarrow>
             (if ofs mod SS = 0 then
                let dp = dp\<lparr>sect := sect dp + 1\<rparr>
                in if clust dp = 0 then
                     if ofs div SZDIRE \<ge> ucast (n_rootdir v) then Some (Inl FR_NO_FILE, dp\<lparr>sect := 0\<rparr>, v)
                     else Some (Inr (), dp, v)
                   else if (ofs div SS) AND (ucast (csize v) - 1) = 0 then next_clust stretch dp v
                   else Some (Inr (), dp, v)
              else Some (Inr (), dp, v));
           case st of
             Inl r \<Rightarrow> Some (r, dp, v)
           | Inr u \<Rightarrow> Some (FR_OK, dp\<lparr>dptr := ofs, dir := unat (ofs mod SS)\<rparr>, v)
         })"

abbreviation (input) DDEM :: BYTE where "DDEM \<equiv> 0xE5"

partial_function (option) alloc_loop ::
    "DWORD \<Rightarrow> DWORD \<Rightarrow> DIR \<Rightarrow> vol \<Rightarrow> (FRESULT \<times> DIR \<times> vol) option" where
  "alloc_loop n_ent n dp v =
     (let (res, v) = move_window (sect dp) v
      in if res \<noteq> FR_OK then Some (res, dp, v)
         else
           let isfree = (win v ! dir dp = DDEM \<or> win v ! dir dp = 0); n = (if isfree then n + 1 else n)
           in if isfree \<and> n = n_ent then Some (res, dp, v)
              else do {
                (res, dp, v) \<leftarrow> dir_next True dp v;
                if res = FR_OK then alloc_loop n_ent (if isfree then n else 0) dp v
                else Some (res, dp, v)
              })"

definition dir_alloc :: "DWORD \<Rightarrow> DIR \<Rightarrow> vol \<Rightarrow> (FRESULT \<times> DIR \<times> vol) option" where
  "dir_alloc n_ent dp v =
     do {
       (res, dp, v) \<leftarrow> dir_sdi 0 dp v;
       (res, dp, v) \<leftarrow> (if res = FR_OK then alloc_loop n_ent 0 dp v else Some (res, dp, v));
       Some (if res = FR_NO_FILE then FR_DENIED else res, dp, v)
     }"

end
