(* ===== verification/FatLfn.thy ===== *)
theory FatLfn
  imports FatDirIdx FatUnicode
begin

text \<open>
  The fields of a directory entry and the long file name entries of \<^verbatim>\<open>ff.c\<close>: \<open>ld_clust\<close>,
  \<open>st_clust\<close>, \<open>cmp_lfn\<close>, \<open>pick_lfn\<close>, \<open>put_lfn\<close>, \<open>gen_numname\<close> and \<open>sum_sfn\<close>.  An entry is a sector
  buffer \<open>p\<close> with the offset \<open>k\<close> of its first byte.
\<close>

section \<open>Operations\<close>

abbreviation (input) LLEF :: BYTE where "LLEF \<equiv> 0x40"
abbreviation (input) AM_LFN :: BYTE where "AM_LFN \<equiv> 0x0F"
abbreviation (input) MAX_LFN :: DWORD where "MAX_LFN \<equiv> 255"

definition LfnOfs :: "nat list" where
  "LfnOfs = [1, 3, 5, 7, 9, 14, 16, 18, 20, 22, 24, 28, 30]"

definition ld_clust :: "BYTE \<Rightarrow> BYTE list \<Rightarrow> nat \<Rightarrow> DWORD" where
  "ld_clust fstype p k =
     (let cl = ucast (ld_word p (k + 26))
      in if fstype = FS_FAT32 then cl OR push_bit 16 (ucast (ld_word p (k + 20))) else cl)"

definition st_clust :: "BYTE \<Rightarrow> nat \<Rightarrow> DWORD \<Rightarrow> BYTE list \<Rightarrow> BYTE list" where
  "st_clust fstype k cl p =
     (let p = st_word (k + 26) (ucast cl) p
      in if fstype = FS_FAT32 then st_word (k + 20) (ucast (drop_bit 16 cl)) p else p)"

text \<open>A segment number as the code computes it: an \<^verbatim>\<open>int\<close> product assigned to an unsigned index.\<close>

definition lfn_index :: "BYTE \<Rightarrow> DWORD" where
  "lfn_index ord = (ucast ord - 1) * 13"

primrec cmp_chars :: "WORD list \<Rightarrow> BYTE list \<Rightarrow> nat \<Rightarrow> nat list \<Rightarrow> DWORD \<Rightarrow> WORD \<Rightarrow> (DWORD \<times> WORD) option" where
  "cmp_chars lb p k [] i wc = Some (i, wc)"
| "cmp_chars lb p k (s # ss) i wc =
     (let uc = ld_word p (k + s)
      in if wc \<noteq> 0 then
           if i \<ge> MAX_LFN + 1 \<or> ff_wtoupper (ucast uc) \<noteq> ff_wtoupper (ucast (lb ! unat i)) then None
           else cmp_chars lb p k ss (i + 1) uc
         else if uc \<noteq> 0xFFFF then None else cmp_chars lb p k ss i wc)"

definition cmp_lfn :: "WORD list \<Rightarrow> BYTE list \<Rightarrow> nat \<Rightarrow> bool" where
  "cmp_lfn lb p k =
     (if ld_word p (k + 26) \<noteq> 0 then False
      else case cmp_chars lb p k LfnOfs (lfn_index (p ! k AND 0x3F)) 1 of
             None \<Rightarrow> False
           | Some (i, wc) \<Rightarrow> \<not> (p ! k AND LLEF \<noteq> 0 \<and> wc \<noteq> 0 \<and> lb ! unat i \<noteq> 0))"

primrec pick_chars ::
    "BYTE list \<Rightarrow> nat \<Rightarrow> nat list \<Rightarrow> DWORD \<Rightarrow> WORD \<Rightarrow> WORD list \<Rightarrow> bool \<times> DWORD \<times> WORD \<times> WORD list" where
  "pick_chars p k [] i wc lb = (True, i, wc, lb)"
| "pick_chars p k (s # ss) i wc lb =
     (let uc = ld_word p (k + s)
      in if wc \<noteq> 0 then
           if i \<ge> MAX_LFN + 1 then (False, i, wc, lb)
           else pick_chars p k ss (i + 1) uc (lb[unat i := uc])
         else if uc \<noteq> 0xFFFF then (False, i, wc, lb) else pick_chars p k ss i wc lb)"

definition pick_lfn :: "BYTE list \<Rightarrow> nat \<Rightarrow> WORD list \<Rightarrow> bool \<times> WORD list" where
  "pick_lfn p k lb =
     (if ld_word p (k + 26) \<noteq> 0 then (False, lb)
      else let (ok, i, wc, lb) = pick_chars p k LfnOfs (lfn_index (p ! k AND NOT LLEF)) 1 lb
           in if \<not> ok then (False, lb)
              else if p ! k AND LLEF \<noteq> 0 \<and> wc \<noteq> 0 then
                if i \<ge> MAX_LFN + 1 then (False, lb) else (True, lb[unat i := 0])
              else (True, lb))"

primrec put_chars :: "WORD list \<Rightarrow> nat \<Rightarrow> nat list \<Rightarrow> DWORD \<Rightarrow> WORD \<Rightarrow> BYTE list \<Rightarrow> DWORD \<times> WORD \<times> BYTE list" where
  "put_chars lfn k [] i wc p = (i, wc, p)"
| "put_chars lfn k (s # ss) i wc p =
     (let (wc, i) = (if wc \<noteq> 0xFFFF then (lfn ! unat i, i + 1) else (wc, i));
          p = st_word (k + s) wc p;
          wc = (if wc = 0 then 0xFFFF else wc)
      in put_chars lfn k ss i wc p)"

definition put_lfn :: "WORD list \<Rightarrow> nat \<Rightarrow> BYTE \<Rightarrow> BYTE \<Rightarrow> BYTE list \<Rightarrow> BYTE list" where
  "put_lfn lfn k ord sm p =
     (let p = p[k + 13 := sm];
          p = p[k + 11 := AM_LFN];
          p = p[k + 12 := 0];
          p = st_word (k + 26) 0 p;
          (i, wc, p) = put_chars lfn k LfnOfs (lfn_index ord) 0 p;
          ord = (if wc = 0xFFFF \<or> lfn ! unat i = 0 then ord OR LLEF else ord)
      in p[k := ord])"

text \<open>Lead and trail bytes of a double-byte character: there are none in code page 850.\<close>

definition dbc_1st :: "BYTE \<Rightarrow> bool" where
  "dbc_1st c = False"

definition dbc_2nd :: "BYTE \<Rightarrow> bool" where
  "dbc_2nd c = False"

text \<open>The hash of \<open>gen_numname\<close>: sixteen bits of each character up to the terminator.\<close>

primrec sreg_bits :: "nat \<Rightarrow> WORD \<Rightarrow> DWORD \<Rightarrow> DWORD" where
  "sreg_bits 0 wc sreg = sreg"
| "sreg_bits (Suc n) wc sreg =
     (let sreg = push_bit 1 sreg + ucast (wc AND 1); wc = drop_bit 1 wc;
          sreg = (if sreg AND 0x10000 \<noteq> 0 then sreg XOR 0x11021 else sreg)
      in sreg_bits n wc sreg)"

primrec sreg_hash :: "WORD list \<Rightarrow> DWORD \<Rightarrow> DWORD" where
  "sreg_hash [] sreg = sreg"
| "sreg_hash (wc # lfn) sreg = (if wc \<noteq> 0 then sreg_hash lfn (sreg_bits 16 wc sreg) else sreg)"

function gen_suffix :: "nat \<Rightarrow> DWORD \<Rightarrow> BYTE list \<Rightarrow> nat \<times> BYTE list" where
  "gen_suffix i seq ns =
     (let c = ucast (seq mod 16) + 0x30; seq = seq div 16;
          c = (if c > 0x39 then c + 7 else c);
          ns = ns[i := c]; i = i - 1
      in if i \<noteq> 0 \<and> seq \<noteq> 0 then gen_suffix i seq ns else (i, ns))"
  by pat_completeness auto
termination
  by (relation "measure (\<lambda>(i, seq, ns). i)") auto

declare gen_suffix.simps [simp del]

function suffix_pos :: "nat \<Rightarrow> nat \<Rightarrow> BYTE list \<Rightarrow> nat" where
  "suffix_pos j i dst =
     (if j < i \<and> dst ! j \<noteq> 0x20 then
        if dbc_1st (dst ! j) then
          if j = i - 1 then j else suffix_pos (j + 2) i dst
        else suffix_pos (j + 1) i dst
      else j)"
  by pat_completeness auto
termination
  by (relation "measure (\<lambda>(j, i, dst). i - j)") auto

declare suffix_pos.simps [simp del]

function suffix_put :: "nat \<Rightarrow> nat \<Rightarrow> BYTE list \<Rightarrow> BYTE list \<Rightarrow> BYTE list" where
  "suffix_put j i ns dst =
     (let (c, i) = (if i < 8 then (ns ! i, i + 1) else (0x20, i));
          dst = dst[j := c]; j = j + 1
      in if j < 8 then suffix_put j i ns dst else dst)"
  by pat_completeness auto
termination
  by (relation "measure (\<lambda>(j, i, ns, dst). 8 - j)") auto

declare suffix_put.simps [simp del]

definition gen_numname :: "BYTE list \<Rightarrow> BYTE list \<Rightarrow> WORD list \<Rightarrow> DWORD \<Rightarrow> BYTE list" where
  "gen_numname dst src lfn seq =
     (let dst = take 11 src @ drop 11 dst;
          seq = (if seq > 5 then sreg_hash lfn seq else seq);
          (i, ns) = gen_suffix 7 seq (replicate 8 0);
          ns = ns[i := 0x7E];
          j = suffix_pos 0 i dst
      in suffix_put j i ns dst)"

primrec sum_bytes :: "nat \<Rightarrow> BYTE list \<Rightarrow> nat \<Rightarrow> BYTE \<Rightarrow> BYTE" where
  "sum_bytes 0 p k sm = sm"
| "sum_bytes (Suc n) p k sm = sum_bytes n p (k + 1) (drop_bit 1 sm + push_bit 7 sm + p ! k)"

definition sum_sfn :: "BYTE list \<Rightarrow> nat \<Rightarrow> BYTE" where
  "sum_sfn p k = sum_bytes 11 p k 0"

end
