(* ===== verification/FatDir.thy ===== *)
theory FatDir
  imports FatLfn
begin

text \<open>
  Directory entries as objects: \<open>dir_read\<close>, \<open>dir_find\<close>, \<open>dir_register\<close>, \<open>dir_remove\<close> and
  \<open>get_fileinfo\<close> of \<^verbatim>\<open>ff.c\<close>.  Reading and searching run the same small state machine over the entries
  of a name: \<open>ord\<close> is the segment number expected next and \<open>sm\<close> the checksum all segments and the
  short entry have to share.
\<close>

section \<open>Name status flags and attributes\<close>

abbreviation (input) NSFLAG :: nat where "NSFLAG \<equiv> 11"
abbreviation (input) NS_LOSS :: BYTE where "NS_LOSS \<equiv> 0x01"
abbreviation (input) NS_LFN :: BYTE where "NS_LFN \<equiv> 0x02"
abbreviation (input) NS_LAST :: BYTE where "NS_LAST \<equiv> 0x04"
abbreviation (input) NS_BODY :: BYTE where "NS_BODY \<equiv> 0x08"
abbreviation (input) NS_EXT :: BYTE where "NS_EXT \<equiv> 0x10"
abbreviation (input) NS_DOT :: BYTE where "NS_DOT \<equiv> 0x20"
abbreviation (input) NS_NOLFN :: BYTE where "NS_NOLFN \<equiv> 0x40"
abbreviation (input) NS_NONAME :: BYTE where "NS_NONAME \<equiv> 0x80"

abbreviation (input) AM_RDO :: BYTE where "AM_RDO \<equiv> 0x01"
abbreviation (input) AM_VOL :: BYTE where "AM_VOL \<equiv> 0x08"
abbreviation (input) AM_DIR :: BYTE where "AM_DIR \<equiv> 0x10"
abbreviation (input) AM_ARC :: BYTE where "AM_ARC \<equiv> 0x20"
abbreviation (input) AM_MASK :: BYTE where "AM_MASK \<equiv> 0x3F"

section \<open>Reading\<close>

text \<open>
  The treatment of one non-empty entry by \<open>dir_read\<close>: whether the loop stops here, and the new state
  of the name machine.
\<close>

definition read_entry ::
    "bool \<Rightarrow> BYTE \<Rightarrow> BYTE \<Rightarrow> BYTE \<Rightarrow> BYTE \<Rightarrow> DIR \<Rightarrow> vol \<Rightarrow> bool \<times> BYTE \<times> BYTE \<times> DIR \<times> vol" where
  "read_entry label b attr ord sm dp v =
     (if b = DDEM \<or> b = 0x2E \<or> ((attr AND NOT AM_ARC) = AM_VOL) \<noteq> label then (False, 0xFF, sm, dp, v)
      else if attr = AM_LFN then
        let (b, ord, sm, dp) =
              (if b AND LLEF \<noteq> 0 then
                 (b AND NOT LLEF, b AND NOT LLEF, win v ! (dir dp + 13), dp\<lparr>blk_ofs := dptr dp\<rparr>)
               else (b, ord, sm, dp));
            (ok, v) =
              (if b = ord \<and> sm = win v ! (dir dp + 13) then
                 let (ok, lb) = pick_lfn (win v) (dir dp) (lfnbuf v) in (ok, v\<lparr>lfnbuf := lb\<rparr>)
               else (False, v))
        in (False, if ok then ord - 1 else 0xFF, sm, dp, v)
      else (True, ord, sm,
            if ord \<noteq> 0 \<or> sm \<noteq> sum_sfn (win v) (dir dp) then dp\<lparr>blk_ofs := 0xFFFFFFFF\<rparr> else dp, v))"

partial_function (option) read_loop ::
    "bool \<Rightarrow> FRESULT \<Rightarrow> BYTE \<Rightarrow> BYTE \<Rightarrow> DIR \<Rightarrow> vol \<Rightarrow> (FRESULT \<times> DIR \<times> vol) option" where
  "read_loop label res ord sm dp v =
     (if sect dp = 0 then Some (res, dp, v)
      else
        let (res, v) = move_window (sect dp) v
        in if res \<noteq> FR_OK then Some (res, dp, v)
           else
             let b = win v ! dir dp
             in if b = 0 then Some (FR_NO_FILE, dp, v)
                else
                  let attr = win v ! (dir dp + 11) AND AM_MASK;
                      (stop, ord, sm, dp, v) = read_entry label b attr ord sm (dp\<lparr>obj_attr := attr\<rparr>) v
                  in if stop then Some (res, dp, v)
                     else do {
                       (res, dp, v) \<leftarrow> dir_next False dp v;
                       if res \<noteq> FR_OK then Some (res, dp, v) else read_loop label res ord sm dp v
                     })"

definition dir_read :: "bool \<Rightarrow> DIR \<Rightarrow> vol \<Rightarrow> (FRESULT \<times> DIR \<times> vol) option" where
  "dir_read label dp v =
     do {
       (res, dp, v) \<leftarrow> read_loop label FR_NO_FILE 0xFF 0xFF dp v;
       Some (res, if res \<noteq> FR_OK then dp\<lparr>sect := 0\<rparr> else dp, v)
     }"

section \<open>Searching\<close>

definition find_entry ::
    "BYTE \<Rightarrow> BYTE \<Rightarrow> BYTE \<Rightarrow> BYTE \<Rightarrow> DIR \<Rightarrow> vol \<Rightarrow> bool \<times> BYTE \<times> BYTE \<times> DIR" where
  "find_entry c a ord sm dp v =
     (if c = DDEM \<or> (a AND AM_VOL \<noteq> 0 \<and> a \<noteq> AM_LFN) then (False, 0xFF, sm, dp\<lparr>blk_ofs := 0xFFFFFFFF\<rparr>)
      else if a = AM_LFN then
        if fn dp ! NSFLAG AND NS_NOLFN = 0 then
          let (c, ord, sm, dp) =
                (if c AND LLEF \<noteq> 0 then
                   (c AND NOT LLEF, c AND NOT LLEF, win v ! (dir dp + 13), dp\<lparr>blk_ofs := dptr dp\<rparr>)
                 else (c, ord, sm, dp))
          in (False,
              if c = ord \<and> sm = win v ! (dir dp + 13) \<and> cmp_lfn (lfnbuf v) (win v) (dir dp)
              then ord - 1 else 0xFF, sm, dp)
        else (False, ord, sm, dp)
      else if ord = 0 \<and> sm = sum_sfn (win v) (dir dp) then (True, ord, sm, dp)
      else if fn dp ! NSFLAG AND NS_LOSS = 0 \<and> slice (dir dp) 11 (win v) = take 11 (fn dp) then (True, ord, sm, dp)
      else (False, 0xFF, sm, dp\<lparr>blk_ofs := 0xFFFFFFFF\<rparr>))"

partial_function (option) find_loop ::
    "BYTE \<Rightarrow> BYTE \<Rightarrow> DIR \<Rightarrow> vol \<Rightarrow> (FRESULT \<times> DIR \<times> vol) option" where
  "find_loop ord sm dp v =
     (let (res, v) = move_window (sect dp) v
      in if res \<noteq> FR_OK then Some (res, dp, v)
         else
           let c = win v ! dir dp
           in if c = 0 then Some (FR_NO_FILE, dp, v)
              else
                let a = win v ! (dir dp + 11) AND AM_MASK;
                    (found, ord, sm, dp) = find_entry c a ord sm (dp\<lparr>obj_attr := a\<rparr>) v
                in if found then Some (res, dp, v)
                   else do {
                     (res, dp, v) \<leftarrow> dir_next False dp v;
                     if res = FR_OK then find_loop ord sm dp v else Some (res, dp, v)
                   })"

definition dir_find :: "DIR \<Rightarrow> vol \<Rightarrow> (FRESULT \<times> DIR \<times> vol) option" where
  "dir_find dp v =
     do {
       (res, dp, v) \<leftarrow> dir_sdi 0 dp v;
       if res \<noteq> FR_OK then Some (res, dp, v)
       else find_loop 0xFF 0xFF (dp\<lparr>blk_ofs := 0xFFFFFFFF\<rparr>) v
     }"

section \<open>Registering\<close>

definition lfn_len :: "WORD list \<Rightarrow> nat" where
  "lfn_len lb = length (takeWhile (\<lambda>c. c \<noteq> 0) lb)"

partial_function (option) number_loop ::
    "BYTE list \<Rightarrow> DWORD \<Rightarrow> FRESULT \<Rightarrow> DIR \<Rightarrow> vol \<Rightarrow> (DWORD \<times> FRESULT \<times> DIR \<times> vol) option" where
  "number_loop sn n res dp v =
     (if n < 100 then
        let dp = dp\<lparr>fn := gen_numname (fn dp) sn (lfnbuf v) n\<rparr>
        in do {
          (res, dp, v) \<leftarrow> dir_find dp v;
          if res \<noteq> FR_OK then Some (n, res, dp, v) else number_loop sn (n + 1) res dp v
        }
      else Some (n, res, dp, v))"

partial_function (option) lfn_loop ::
    "DWORD \<Rightarrow> BYTE \<Rightarrow> DIR \<Rightarrow> vol \<Rightarrow> (FRESULT \<times> DIR \<times> vol) option" where
  "lfn_loop n_ent sm dp v =
     (let (res, v) = move_window (sect dp) v
      in if res \<noteq> FR_OK then Some (res, dp, v)
         else
           let v = v\<lparr>win := put_lfn (lfnbuf v) (dir dp) (ucast n_ent) sm (win v), wflag := 1\<rparr>
           in do {
             (res, dp, v) \<leftarrow> dir_next False dp v;
             if res = FR_OK \<and> n_ent - 1 \<noteq> 0 then lfn_loop (n_ent - 1) sm dp v else Some (res, dp, v)
           })"

text \<open>The last part of \<open>dir_register\<close>: the short entry.\<close>

definition set_sfn :: "DIR \<Rightarrow> vol \<Rightarrow> FRESULT \<times> vol" where
  "set_sfn dp v =
     (let (res, v) = move_window (sect dp) v
      in if res = FR_OK then
           let w = memset (dir dp) 0 32 (win v);
               w = memcpy (dir dp) (take 11 (fn dp)) w;
               w = w[dir dp + 12 := fn dp ! NSFLAG AND (NS_BODY OR NS_EXT)]
           in (res, v\<lparr>win := w, wflag := 1\<rparr>)
         else (res, v))"

definition dir_register :: "DIR \<Rightarrow> vol \<Rightarrow> (FRESULT \<times> DIR \<times> vol) option" where
  "dir_register dp v =
     (if fn dp ! NSFLAG AND (NS_DOT OR NS_NONAME) \<noteq> 0 then Some (FR_INVALID_NAME, dp, v)
      else
        let len = lfn_len (lfnbuf v); sn = fn dp
        in do {
          (ret, dp, v) \<leftarrow>
            (if sn ! NSFLAG AND NS_LOSS \<noteq> 0 then do {
               (n, res, dp, v) \<leftarrow> number_loop sn 1 FR_OK (dp\<lparr>fn := (fn dp)[NSFLAG := NS_NOLFN]\<rparr>) v;
               Some (if n = 100 then Inl FR_DENIED else if res \<noteq> FR_NO_FILE then Inl res else Inr (),
                     if n \<noteq> 100 \<and> res = FR_NO_FILE then dp\<lparr>fn := (fn dp)[NSFLAG := sn ! NSFLAG]\<rparr> else dp, v)
             } else Some (Inr (), dp, v));
          case ret of
            Inl res \<Rightarrow> Some (res, dp, v)
          | Inr u \<Rightarrow> do {
              let n_ent = (if sn ! NSFLAG AND NS_LFN \<noteq> 0 then (of_nat len + 12) div 13 + 1 else 1);
              (res, dp, v) \<leftarrow> dir_alloc n_ent dp v;
              (res, dp, v) \<leftarrow>
                (if res = FR_OK \<and> n_ent - 1 \<noteq> 0 then do {
                   let n_ent = n_ent - 1;
                   (res, dp, v) \<leftarrow> dir_sdi (dptr dp - n_ent * SZDIRE) dp v;
                   if res = FR_OK then lfn_loop n_ent (sum_sfn (fn dp) 0) dp v
                   else Some (res, dp, v)
                 } else Some (res, dp, v));
              if res = FR_OK then let (res, v) = set_sfn dp v in Some (res, dp, v)
              else Some (res, dp, v)
            }
        })"

section \<open>Removing\<close>

partial_function (option) remove_entries :: "DWORD \<Rightarrow> DIR \<Rightarrow> vol \<Rightarrow> (FRESULT \<times> DIR \<times> vol) option" where
  "remove_entries lst dp v =
     (let (res, v) = move_window (sect dp) v
      in if res \<noteq> FR_OK then Some (res, dp, v)
         else
           let v = v\<lparr>win := (win v)[dir dp := DDEM], wflag := 1\<rparr>
           in if dptr dp \<ge> lst then Some (res, dp, v)
              else do {
                (res, dp, v) \<leftarrow> dir_next False dp v;
                if res = FR_OK then remove_entries lst dp v else Some (res, dp, v)
              })"

definition dir_remove :: "DIR \<Rightarrow> vol \<Rightarrow> (FRESULT \<times> DIR \<times> vol) option" where
  "dir_remove dp v =
     (let lst = dptr dp
      in do {
        (res, dp, v) \<leftarrow> (if blk_ofs dp = 0xFFFFFFFF then Some (FR_OK, dp, v) else dir_sdi (blk_ofs dp) dp v);
        if res = FR_OK then do {
          (res, dp, v) \<leftarrow> remove_entries lst dp v;
          Some (if res = FR_NO_FILE then FR_INT_ERR else res, dp, v)
        } else Some (res, dp, v)
      })"

end
