(* ===== verification/FatMatch.thy ===== *)
theory FatMatch
  imports FatUnicode
begin

text \<open>
  Wildcard matching of names for \<open>f_findfirst\<close>: \<open>get_achar\<close> and \<open>pattern_match\<close> of \<^verbatim>\<open>ff.c\<close>.  A C
  string is the list of its bytes before the terminator; a pointer into it is a suffix of the list,
  and reading at the terminator gives zero.
\<close>

section \<open>Operations\<close>

definition IsUpper :: "DWORD \<Rightarrow> bool" where
  "IsUpper c \<longleftrightarrow> c \<ge> 0x41 \<and> c \<le> 0x5A"

definition IsLower :: "DWORD \<Rightarrow> bool" where
  "IsLower c \<longleftrightarrow> c \<ge> 0x61 \<and> c \<le> 0x7A"

definition IsDigit :: "DWORD \<Rightarrow> bool" where
  "IsDigit c \<longleftrightarrow> c \<ge> 0x30 \<and> c \<le> 0x39"

text \<open>The character a pointer points to.\<close>

definition peek :: "BYTE list \<Rightarrow> BYTE" where
  "peek s = (case s of [] \<Rightarrow> 0 | c # cs \<Rightarrow> c)"

definition fold_achar :: "BYTE \<Rightarrow> DWORD" where
  "fold_achar c =
     (let chr = ucast c;
          chr = (if IsLower chr then chr - 0x20 else chr)
      in if chr \<ge> 0x80 then ucast (ExCvt ! unat (chr - 0x80)) else chr)"

definition get_achar :: "BYTE list \<Rightarrow> DWORD \<times> BYTE list" where
  "get_achar s = (fold_achar (peek s), tl s)"

text \<open>Is this character part of a wildcard term?\<close>

definition is_wild :: "BYTE \<Rightarrow> bool" where
  "is_wild c \<longleftrightarrow> c = 0x3F \<or> c = 0x2A"

text \<open>The analysis of a wildcard term: the skip count and the rest of the pattern.\<close>

fun wild_term :: "DWORD \<Rightarrow> BYTE list \<Rightarrow> DWORD \<times> BYTE list" where
  "wild_term sk [] = (sk, [])"
| "wild_term sk (c # p) =
     (let sk = (if c = 0x3F then sk + 1 else sk OR 0x100)
      in if is_wild (peek p) then wild_term sk p else (sk, p))"

text \<open>How the attempt at one position of the name ends.\<close>

datatype branch = Hit | Stop | Miss DWORD

lemma fold_achar_zero [simp]: "fold_achar 0 = 0"
  by (simp add: fold_achar_def IsLower_def)

function match_branch ::
    "(BYTE list \<Rightarrow> BYTE list \<Rightarrow> DWORD \<Rightarrow> bool) \<Rightarrow> bool \<Rightarrow> BYTE list \<Rightarrow> BYTE list \<Rightarrow> branch" where
  "match_branch rec more pptr nptr =
     (if is_wild (peek pptr) then
        if \<not> more then Stop
        else let (sk, pptr) = wild_term 0 pptr
             in if rec pptr nptr sk then Hit else Miss (ucast (peek nptr))
      else
        let (pchr, pptr) = get_achar pptr; (nchr, nptr) = get_achar nptr
        in if pchr \<noteq> nchr then Miss nchr
           else if pchr = 0 then Hit
           else match_branch rec more pptr nptr)"
  by pat_completeness auto
termination
  by (relation "measure (\<lambda>(rec, more, pptr, nptr). length pptr)")
    (auto simp: get_achar_def peek_def split: list.splits)

declare match_branch.simps [simp del]

text \<open>At the end of the name an attempt reports the terminator, so the retry loop stops there.\<close>

lemma match_branch_Nil: "match_branch rec more pptr [] = Miss n \<Longrightarrow> n = 0"
proof (induction rec more pptr "[] :: BYTE list" rule: match_branch.induct)
  case (1 rec more pptr)
  then show ?case
    by (subst (asm) (2) match_branch.simps) (auto simp: get_achar_def peek_def Let_def split: prod.splits if_splits)
qed

function match_retry ::
    "(BYTE list \<Rightarrow> BYTE list \<Rightarrow> DWORD \<Rightarrow> bool) \<Rightarrow> bool \<Rightarrow> BYTE list \<Rightarrow> BYTE list \<Rightarrow> DWORD \<Rightarrow> bool" where
  "match_retry rec more pt nam skip =
     (case match_branch rec more pt nam of
        Hit \<Rightarrow> True
      | Stop \<Rightarrow> False
      | Miss nchr \<Rightarrow>
          let (c, nam) = get_achar nam
          in if skip \<noteq> 0 \<and> nchr \<noteq> 0 then match_retry rec more pt nam skip else False)"
  by pat_completeness auto
termination
proof (relation "measure (\<lambda>(rec, more, pt, nam, skip). length nam)", goal_cases)
  case (2 rec more pt nam skip nchr x c nam')
  then show ?case using match_branch_Nil by (cases nam) (auto simp: get_achar_def)
qed simp

declare match_retry.simps [simp del]

function pre_skip :: "DWORD \<Rightarrow> BYTE list \<Rightarrow> (DWORD \<times> BYTE list) option" where
  "pre_skip skip nam =
     (if skip AND 0xFF \<noteq> 0 then
        let (c, nam) = get_achar nam
        in if c = 0 then None else pre_skip (skip - 1) nam
      else Some (skip, nam))"
  by pat_completeness auto
termination
  by (relation "measure (\<lambda>(skip, nam). length nam)") (auto simp: get_achar_def peek_def split: list.splits)

declare pre_skip.simps [simp del]

definition match_body ::
    "(BYTE list \<Rightarrow> BYTE list \<Rightarrow> DWORD \<Rightarrow> bool) \<Rightarrow> bool \<Rightarrow> BYTE list \<Rightarrow> BYTE list \<Rightarrow> DWORD \<Rightarrow> bool" where
  "match_body rec more pt nam skip =
     (case pre_skip skip nam of
        None \<Rightarrow> False
      | Some (skip, nam) \<Rightarrow>
          if peek pt = 0 \<and> skip \<noteq> 0 then True else match_retry rec more pt nam skip)"

text \<open>\<open>recur\<close> is the number of wildcard terms that may still be used.\<close>

primrec pattern_match :: "nat \<Rightarrow> BYTE list \<Rightarrow> BYTE list \<Rightarrow> DWORD \<Rightarrow> bool" where
  "pattern_match 0 pt nam skip = match_body (\<lambda>p n s. False) False pt nam skip"
| "pattern_match (Suc recur) pt nam skip = match_body (pattern_match recur) True pt nam skip"

abbreviation (input) FIND_RECURS :: nat where "FIND_RECURS \<equiv> 4"

end
