(* ===== verification/FatName.thy ===== *)
theory FatName
  imports FatDir FatMatch
begin

text \<open>
  Path names: the conversion between the API encoding and Unicode (\<open>tchar2uni\<close>, \<open>put_utf\<close>), the
  file information of an entry (\<open>get_fileinfo\<close>), the conversion of one path segment to a long name
  and a short name (\<open>create_name\<close>) and the walk along a path (\<open>follow_path\<close>) of \<^verbatim>\<open>ff.c\<close>.  Paths are
  C strings as in \<^verbatim>\<open>FatMatch\<close>.
\<close>

section \<open>Encoding\<close>

definition tchar2uni :: "BYTE list \<Rightarrow> DWORD \<times> BYTE list" where
  "tchar2uni str =
     (let wc = ucast (peek str) :: WORD; p = tl str
      in if dbc_1st (ucast wc) \<and> \<not> dbc_2nd (peek p) then (0xFFFFFFFF, str)
         else
           let (wc, p) = (if dbc_1st (ucast wc) then (push_bit 8 wc + ucast (peek p), tl p) else (wc, p))
           in if wc \<noteq> 0 then
                let wc = ff_oem2uni wc CODEPAGE
                in if wc = 0 then (0xFFFFFFFF, str) else (ucast wc, p)
              else (ucast wc, p))"

text \<open>The bytes stored, none on an error; their number is the value the C function returns.\<close>

definition put_utf :: "DWORD \<Rightarrow> DWORD \<Rightarrow> BYTE list" where
  "put_utf chr szb =
     (let wc = ff_uni2oem chr CODEPAGE
      in if wc \<ge> 0x100 then (if szb < 2 then [] else [ucast (drop_bit 8 wc), ucast wc])
         else if wc = 0 \<or> szb < 1 then []
         else [ucast wc])"

definition IsSeparator :: "DWORD \<Rightarrow> bool" where
  "IsSeparator c \<longleftrightarrow> c = 0x2F \<or> c = 0x5C"

definition IsTerminator :: "DWORD \<Rightarrow> bool" where
  "IsTerminator c \<longleftrightarrow> c < 0x20"

definition IsSurrogate :: "WORD \<Rightarrow> bool" where
  "IsSurrogate c \<longleftrightarrow> c \<ge> 0xD800 \<and> c \<le> 0xDFFF"

section \<open>File information\<close>

abbreviation (input) LFN_BUF :: DWORD where "LFN_BUF \<equiv> 255"
abbreviation (input) SFN_BUF :: nat where "SFN_BUF \<equiv> 12"
abbreviation (input) RDDEM :: BYTE where "RDDEM \<equiv> 0x05"

record FILINFO =
  fi_fsize :: DWORD
  fdate :: WORD
  ftime :: WORD
  fattrib :: BYTE
  altname :: "BYTE list"
  fname :: "BYTE list"

text \<open>Storing bytes into a C buffer from an index on.\<close>

primrec put_bytes :: "BYTE list \<Rightarrow> nat \<Rightarrow> BYTE list \<Rightarrow> BYTE list" where
  "put_bytes [] k buf = buf"
| "put_bytes (c # cs) k buf = put_bytes cs (Suc k) (buf[k := c])"

text \<open>The long name into \<^verbatim>\<open>fname\<close>: final index, pending surrogate and buffer.\<close>

primrec info_lfn :: "WORD list \<Rightarrow> DWORD \<Rightarrow> WORD \<Rightarrow> BYTE list \<Rightarrow> DWORD \<times> WORD \<times> BYTE list" where
  "info_lfn [] di hs buf = (di, hs, buf)"
| "info_lfn (wc # cs) di hs buf =
     (if wc = 0 then (di, hs, buf)
      else if hs = 0 \<and> IsSurrogate wc then info_lfn cs di wc buf
      else
        let bs = put_utf (push_bit 16 (ucast hs) OR ucast wc) (LFN_BUF - di)
        in if bs = [] then (0, hs, buf)
           else info_lfn cs (di + of_nat (length bs)) 0 (put_bytes bs (unat di) buf))"

text \<open>The short name into \<^verbatim>\<open>altname\<close>, from byte \<open>si\<close> of the entry on.\<close>

function info_sfn :: "BYTE list \<Rightarrow> nat \<Rightarrow> nat \<Rightarrow> nat \<Rightarrow> BYTE list \<Rightarrow> nat \<times> BYTE list" where
  "info_sfn p k si di buf =
     (if si < 11 then
        let wc = p ! (k + si); si = si + 1
        in if wc = 0x20 then info_sfn p k si di buf
           else
             let wc = (if wc = RDDEM then DDEM else wc);
                 (di, buf) = (if si = 9 \<and> di < SFN_BUF then (di + 1, buf[di := 0x2E]) else (di, buf))
             in info_sfn p k si (di + 1) (buf[di := wc])
      else (di, buf))"
  by pat_completeness auto
termination
  by (relation "measure (\<lambda>(p, k, si, di, buf). 11 - si)") auto

declare info_sfn.simps [simp del]

text \<open>\<^verbatim>\<open>altname\<close> copied to \<^verbatim>\<open>fname\<close> with the case information of the entry.\<close>

primrec info_copy :: "BYTE list \<Rightarrow> BYTE \<Rightarrow> nat \<Rightarrow> BYTE \<Rightarrow> BYTE list \<Rightarrow> nat \<times> BYTE list" where
  "info_copy [] ntres di lcf buf = (di, buf)"
| "info_copy (c # cs) ntres di lcf buf =
     (if c = 0 then (di, buf)
      else
        let lcf = (if c = 0x2E then NS_EXT else lcf);
            wc = (if IsUpper (ucast c) \<and> ntres AND lcf \<noteq> 0 then c + 0x20 else c)
        in info_copy cs ntres (Suc di) lcf (buf[di := wc]))"

definition get_fileinfo :: "DIR \<Rightarrow> vol \<Rightarrow> FILINFO \<Rightarrow> FILINFO" where
  "get_fileinfo dp v fno =
     (let fno = fno\<lparr>fname := (fname fno)[0 := 0]\<rparr>
      in if sect dp = 0 then fno
         else
           let fno =
                 (if blk_ofs dp \<noteq> 0xFFFFFFFF then
                    let (di, hs, buf) = info_lfn (lfnbuf v) 0 0 (fname fno);
                        di = (if hs \<noteq> 0 then 0 else di)
                    in fno\<lparr>fname := buf[unat di := 0]\<rparr>
                  else fno);
               (di, buf) = info_sfn (win v) (dir dp) 0 0 (altname fno);
               fno = fno\<lparr>altname := buf[di := 0]\<rparr>;
               ntres = win v ! (dir dp + 12);
               fno =
                 (if fname fno ! 0 = 0 then
                    let (di, buf) =
                          (if di = 0 then (1, (fname fno)[0 := 0x3F])
                           else info_copy (altname fno) ntres 0 NS_BODY (fname fno));
                        fno = fno\<lparr>fname := buf[di := 0]\<rparr>
                    in if ntres = 0 then fno\<lparr>altname := (altname fno)[0 := 0]\<rparr> else fno
                  else fno)
           in fno\<lparr>fattrib := win v ! (dir dp + 11) AND AM_MASK,
                  fi_fsize := ld_dword (win v) (dir dp + 28),
                  ftime := ld_word (win v) (dir dp + 22),
                  fdate := ld_word (win v) (dir dp + 24)\<rparr>)"

section \<open>One path segment\<close>

text \<open>\<^verbatim>\<open>"*:<>|\"\?\x7F"\<close> and \<^verbatim>\<open>"+,;=[]"\<close>.\<close>

definition lfn_illegal :: "WORD \<Rightarrow> bool" where
  "lfn_illegal wc \<longleftrightarrow> wc \<in> {0x2A, 0x3A, 0x3C, 0x3E, 0x7C, 0x22, 0x3F, 0x7F}"

definition sfn_illegal :: "WORD \<Rightarrow> bool" where
  "sfn_illegal wc \<longleftrightarrow> wc \<in> {0x2B, 0x2C, 0x3B, 0x3D, 0x5B, 0x5D}"

text \<open>
  The first loop of \<open>create_name\<close>: the segment into the name buffer.  The result is the stopping
  character, the length, the buffer and the rest of the path, or nothing for an invalid name.
\<close>

function seg_scan :: "BYTE list \<Rightarrow> DWORD \<Rightarrow> WORD list \<Rightarrow> (WORD \<times> DWORD \<times> BYTE list) option \<times> WORD list" where
  "seg_scan p di lb =
     (let (uc, p) = tchar2uni p
      in if uc = 0xFFFFFFFF then (None, lb)
         else
           let (di, lb) = (if uc \<ge> 0x10000 then (di + 1, lb[unat di := ucast (drop_bit 16 uc)]) else (di, lb));
               wc = ucast uc :: WORD
           in if wc < 0x20 \<or> IsSeparator (ucast wc) then (Some (wc, di, p), lb)
              else if wc < 0x80 \<and> lfn_illegal wc then (None, lb)
              else if di \<ge> MAX_LFN then (None, lb)
              else seg_scan p (di + 1) (lb[unat di := wc]))"
  by pat_completeness auto
termination
proof (relation "measure (\<lambda>(p, di, lb). length p)", goal_cases)
  case (2 p di lb x uc q z)
  have "uc = 0" if "p = []" "(uc, q) = tchar2uni p"
    using that by (auto simp: tchar2uni_def peek_def dbc_1st_def)
  moreover have "length q < length p" if "p \<noteq> []" "(uc, q) = tchar2uni p" "uc \<noteq> 0xFFFFFFFF"
    using that by (auto simp: tchar2uni_def dbc_1st_def Let_def split: if_splits)
  ultimately show ?case using 2 by (cases "p = []") auto
qed simp

declare seg_scan.simps [simp del]

primrec snip_tail :: "nat \<Rightarrow> WORD list \<Rightarrow> nat" where
  "snip_tail 0 lb = 0"
| "snip_tail (Suc di) lb = (if lb ! di \<noteq> 0x20 \<and> lb ! di \<noteq> 0x2E then Suc di else snip_tail di lb)"

primrec last_dot :: "nat \<Rightarrow> WORD list \<Rightarrow> nat" where
  "last_dot 0 lb = 0"
| "last_dot (Suc di) lb = (if lb ! di \<noteq> 0x2E then last_dot di lb else Suc di)"

definition lead_spaces :: "WORD list \<Rightarrow> nat" where
  "lead_spaces lb = length (takeWhile (\<lambda>c. c = 0x20) lb)"

text \<open>
  One character of the short name: its code, the flags and the case bits after the conversion, and
  whether the field overflows at a double-byte character.
\<close>

definition sfn_char :: "WORD \<Rightarrow> BYTE \<Rightarrow> BYTE \<Rightarrow> WORD \<times> BYTE \<times> BYTE" where
  "sfn_char wc b cf =
     (if wc = 0 \<or> sfn_illegal wc then (0x5F, b, cf OR NS_LOSS OR NS_LFN)
      else
        let b = (if IsUpper (ucast wc) then b OR 2 else b)
        in if IsLower (ucast wc) then (wc - 0x20, b OR 1, cf) else (wc, b, cf))"

partial_function (option) sfn_loop ::
    "WORD list \<Rightarrow> nat \<Rightarrow> nat \<Rightarrow> nat \<Rightarrow> BYTE \<Rightarrow> nat \<Rightarrow> BYTE \<Rightarrow> BYTE list \<Rightarrow> (BYTE \<times> nat \<times> BYTE \<times> BYTE list) option" where
  "sfn_loop lb si di i b ni cf sfn =
     (let wc = lb ! si; si = si + 1
      in if wc = 0 then Some (b, ni, cf, sfn)
         else if wc = 0x20 \<or> (wc = 0x2E \<and> si \<noteq> di) then
           sfn_loop lb si di i b ni (cf OR NS_LOSS OR NS_LFN) sfn
         else if i \<ge> ni \<or> si = di then
           if ni = 11 then Some (b, ni, cf OR NS_LOSS OR NS_LFN, sfn)
           else
             let cf = (if si \<noteq> di then cf OR NS_LOSS OR NS_LFN else cf)
             in if si > di then Some (b, ni, cf, sfn)
                else sfn_loop lb di di 8 (push_bit 2 b) 11 cf sfn
         else
           let (wc, cf) =
                 (if wc \<ge> 0x80 then
                    let wc = ff_uni2oem (ucast wc) CODEPAGE
                    in (if wc AND 0x80 \<noteq> 0 then ucast (ExCvt ! unat (wc AND 0x7F)) else wc, cf OR NS_LFN)
                  else (wc, cf))
           in if wc \<ge> 0x100 then
                if i \<ge> ni - 1 then sfn_loop lb si di ni b ni (cf OR NS_LOSS OR NS_LFN) sfn
                else sfn_loop lb si di (i + 2) b ni cf
                       ((sfn[i := ucast (drop_bit 8 wc)])[i + 1 := ucast wc])
              else
                let (wc, b, cf) = sfn_char wc b cf
                in sfn_loop lb si di (i + 1) b ni cf (sfn[i := ucast wc]))"

text \<open>The flags after the loop.\<close>

definition sfn_flags :: "BYTE \<Rightarrow> nat \<Rightarrow> BYTE \<Rightarrow> BYTE" where
  "sfn_flags b ni cf =
     (let b = (if ni = 8 then push_bit 2 b else b);
          cf = (if b AND 0x0C = 0x0C \<or> b AND 0x03 = 0x03 then cf OR NS_LFN else cf)
      in if cf AND NS_LFN = 0 then
           let cf = (if b AND 0x01 \<noteq> 0 then cf OR NS_EXT else cf)
           in if b AND 0x04 \<noteq> 0 then cf OR NS_BODY else cf
         else cf)"

text \<open>The short name of a long name of length \<open>di\<close> that ends neither in a space nor in a dot.\<close>

definition make_sfn :: "WORD list \<Rightarrow> nat \<Rightarrow> BYTE \<Rightarrow> BYTE list \<Rightarrow> BYTE list option" where
  "make_sfn lb di cf sfn =
     (let si = lead_spaces lb;
          cf = (if si > 0 \<or> lb ! si = 0x2E then cf OR NS_LOSS OR NS_LFN else cf);
          di = last_dot di lb;
          sfn = memset 0 0x20 11 sfn
      in do {
        (b, ni, cf, sfn) \<leftarrow> sfn_loop lb si di 0 0 8 cf sfn;
        let sfn = (if sfn ! 0 = DDEM then sfn[0 := RDDEM] else sfn);
        Some (sfn[NSFLAG := sfn_flags b ni cf])
      })"

definition create_name :: "BYTE list \<Rightarrow> DIR \<Rightarrow> vol \<Rightarrow> (FRESULT \<times> BYTE list \<times> DIR \<times> vol) option" where
  "create_name path dp v =
     (case seg_scan path 0 (lfnbuf v) of
        (None, lb) \<Rightarrow> Some (FR_INVALID_NAME, path, dp, v\<lparr>lfnbuf := lb\<rparr>)
      | (Some (wc, di, p), lb) \<Rightarrow>
          let (cf, p) =
                (if wc < 0x20 then (NS_LAST, p)
                 else let p = dropWhile (\<lambda>c. IsSeparator (ucast c)) p
                      in (if IsTerminator (ucast (peek p)) then NS_LAST else 0, p))
          in if di = 1 \<and> lb ! 0 = 0x2E \<or> di = 2 \<and> lb ! 1 = 0x2E \<and> lb ! 0 = 0x2E then
               let sfn = map (\<lambda>i. if i < unat di then 0x2E else 0x20) [0..<11] @ drop 11 (fn dp)
               in Some (FR_OK, p, dp\<lparr>fn := sfn[NSFLAG := cf OR NS_DOT]\<rparr>, v\<lparr>lfnbuf := lb[unat di := 0]\<rparr>)
             else
               let di = snip_tail (unat di) lb; lb = lb[di := 0]; v = v\<lparr>lfnbuf := lb\<rparr>
               in if di = 0 then Some (FR_INVALID_NAME, p, dp, v)
                  else do {
                    sfn \<leftarrow> make_sfn lb di cf (fn dp);
                    Some (FR_OK, p, dp\<lparr>fn := sfn\<rparr>, v)
                  })"

section \<open>Following a path\<close>

text \<open>The segments: \<open>create_name\<close> and \<open>dir_find\<close> for each.\<close>

partial_function (option) follow_loop :: "BYTE list \<Rightarrow> DIR \<Rightarrow> vol \<Rightarrow> (FRESULT \<times> DIR \<times> vol) option" where
  "follow_loop path dp v =
     do {
       (res, path, dp, v) \<leftarrow> create_name path dp v;
       if res \<noteq> FR_OK then Some (res, dp, v)
       else do {
         (res, dp, v) \<leftarrow> dir_find dp v;
         let ns = fn dp ! NSFLAG;
         if res \<noteq> FR_OK then
           if res = FR_NO_FILE then
             if ns AND NS_DOT \<noteq> 0 then
               if ns AND NS_LAST = 0 then follow_loop path dp v
               else Some (FR_OK, dp\<lparr>fn := (fn dp)[NSFLAG := NS_NONAME]\<rparr>, v)
             else Some (if ns AND NS_LAST = 0 then FR_NO_PATH else res, dp, v)
           else Some (res, dp, v)
         else if ns AND NS_LAST \<noteq> 0 then Some (res, dp, v)
         else if obj_attr dp AND AM_DIR = 0 then Some (FR_NO_PATH, dp, v)
         else follow_loop path (dp\<lparr>sclust := ld_clust (fs_type v) (win v) (unat (dptr dp mod SS))\<rparr>) v
       }
     }"

definition follow_path :: "BYTE list \<Rightarrow> DIR \<Rightarrow> vol \<Rightarrow> (FRESULT \<times> DIR \<times> vol) option" where
  "follow_path path dp v =
     (let (path, dp) =
            (if \<not> IsSeparator (ucast (peek path)) then (path, dp\<lparr>sclust := cdir v\<rparr>)
             else (dropWhile (\<lambda>c. IsSeparator (ucast c)) path, dp\<lparr>sclust := 0\<rparr>))
      in if (ucast (peek path) :: DWORD) < 0x20 then
           dir_sdi 0 (dp\<lparr>fn := (fn dp)[NSFLAG := NS_NONAME]\<rparr>) v
         else follow_loop path dp v)"

end
