(* ===== verification/FatMount.thy ===== *)
theory FatMount
  imports FatName
begin

text \<open>
  The logical drives: the volume prefix of a path (\<open>get_ldnumber\<close>), the recognition of a FAT volume
  (\<open>check_fs\<close>, \<open>find_volume\<close>), mounting (\<open>mount_volume\<close>, \<open>f_mount\<close>), the check of a file or directory object
  (\<open>validate\<close>) and the volume locks of \<^verbatim>\<open>ff.c\<close> and \<^verbatim>\<open>ffsystem.cpp\<close>.  The \<open>world\<close> holds the
  filesystem objects by address (0 is the null pointer), the drives by physical number and the
  static variables of the module.
\<close>

record world =
  fss :: "nat \<Rightarrow> fatfs"
  drives :: "nat \<Rightarrow> ddev"
  FatFs :: "nat list"
  CurrVol :: BYTE
  Fsid :: WORD
  mutex :: "nat \<Rightarrow> bool"
  held :: "nat \<Rightarrow> bool"

text \<open>A filesystem object with its drive taken out of the world, and put back.\<close>

definition open_vol :: "nat \<Rightarrow> world \<Rightarrow> vol" where
  "open_vol fs w = fatfs.extend (fss w fs) (vol.fields (drives w (unat (pdrv (fss w fs)))))"

definition close_vol :: "nat \<Rightarrow> vol \<Rightarrow> world \<Rightarrow> world" where
  "close_vol fs v w =
     w\<lparr>fss := (fss w)(fs := fatfs.truncate v), drives := (drives w)(unat (pdrv v) := dk v)\<rparr>"

section \<open>Volume locks\<close>

text \<open>
  \<open>None\<close> is a failed assertion, or a wait for a lock that the same caller holds.
\<close>

definition ff_mutex_create :: "nat \<Rightarrow> world \<Rightarrow> (bool \<times> world) option" where
  "ff_mutex_create vl w =
     (if vl \<le> 4 \<and> \<not> mutex w vl then Some (True, w\<lparr>mutex := (mutex w)(vl := True), held := (held w)(vl := False)\<rparr>)
      else None)"

definition ff_mutex_delete :: "nat \<Rightarrow> world \<Rightarrow> world option" where
  "ff_mutex_delete vl w =
     (if vl \<le> 4 \<and> mutex w vl then Some (w\<lparr>mutex := (mutex w)(vl := False)\<rparr>) else None)"

definition ff_mutex_take :: "nat \<Rightarrow> world \<Rightarrow> (bool \<times> world) option" where
  "ff_mutex_take vl w =
     (if vl \<le> 4 \<and> mutex w vl \<and> \<not> held w vl then Some (True, w\<lparr>held := (held w)(vl := True)\<rparr>) else None)"

definition ff_mutex_give :: "nat \<Rightarrow> world \<Rightarrow> world option" where
  "ff_mutex_give vl w =
     (if vl \<le> 4 \<and> mutex w vl then Some (w\<lparr>held := (held w)(vl := False)\<rparr>) else None)"

definition lock_volume :: "nat \<Rightarrow> world \<Rightarrow> (bool \<times> world) option" where
  "lock_volume fs w = ff_mutex_take (unat (ldrv (fss w fs))) w"

definition unlock_volume :: "nat \<Rightarrow> FRESULT \<Rightarrow> world \<Rightarrow> world option" where
  "unlock_volume fs res w =
     (if fs \<noteq> 0 \<and> res \<noteq> FR_NOT_ENABLED \<and> res \<noteq> FR_INVALID_DRIVE \<and> res \<noteq> FR_TIMEOUT
      then ff_mutex_give (unat (ldrv (fss w fs))) w else Some w)"

section \<open>Drive prefixes\<close>

definition VolumeStr :: "BYTE list list" where
  "VolumeStr = [[0x53, 0x44], [0x55, 0x53, 0x42], [0x55, 0x53, 0x42, 0x32], [0x55, 0x53, 0x42, 0x33]]"

abbreviation (input) VOLUMES :: nat where "VOLUMES \<equiv> 4"

text \<open>The last character read and the number of characters read.\<close>

primrec find_colon :: "BYTE list \<Rightarrow> nat \<Rightarrow> BYTE \<times> nat" where
  "find_colon [] n = (0, n + 1)"
| "find_colon (tc # p) n = (if IsTerminator (ucast tc) \<or> tc = 0x3A then (tc, n + 1) else find_colon p (n + 1))"

definition to_upper :: "BYTE \<Rightarrow> BYTE" where
  "to_upper c = (if IsLower (ucast c) then c - 0x20 else c)"

primrec cmp_id :: "BYTE list \<Rightarrow> BYTE list \<Rightarrow> nat \<Rightarrow> BYTE \<times> nat" where
  "cmp_id [] tp m = (0, m + 1)"
| "cmp_id (c # sp) tp m =
     (let c = to_upper c; tc = to_upper (peek tp)
      in if c \<noteq> 0 \<and> c = tc then cmp_id sp (tl tp) (m + 1) else (c, m + 1))"

primrec find_id :: "BYTE list list \<Rightarrow> BYTE list \<Rightarrow> nat \<Rightarrow> nat \<Rightarrow> nat" where
  "find_id [] p n i = i"
| "find_id (sp # ids) p n i =
     (let (c, m) = cmp_id sp p 0 in if c \<noteq> 0 \<or> m \<noteq> n then find_id ids p n (i + 1) else i)"

text \<open>The drive number, if any, and the path after the prefix.\<close>

definition get_ldnumber :: "BYTE list \<Rightarrow> world \<Rightarrow> nat option \<times> BYTE list" where
  "get_ldnumber path w =
     (let (tc, n) = find_colon path 0
      in if tc = 0x3A then
           let i = (if IsDigit (ucast (peek path)) \<and> n = 2 then unat (peek path) - 0x30
                    else find_id VolumeStr path n 0)
           in if i < VOLUMES then (Some i, drop n path) else (None, path)
         else (Some (unat (CurrVol w)), path))"

section \<open>Recognising a volume\<close>

text \<open>\<^verbatim>\<open>"FAT32   "\<close>.\<close>

definition FAT32_STR :: "BYTE list" where
  "FAT32_STR = [0x46, 0x41, 0x54, 0x33, 0x32, 0x20, 0x20, 0x20]"

definition check_fs :: "DWORD \<Rightarrow> vol \<Rightarrow> nat \<times> vol" where
  "check_fs sct v =
     (let v = v\<lparr>wflag := 0, winsect := 0 - 1\<rparr>; (res, v) = move_window sct v
      in if res \<noteq> FR_OK then (4, v)
         else
           let sign = ld_word (win v) 510; b = win v ! 0; w = ld_word (win v) 11; c = win v ! 13
           in if b = 0xEB \<or> b = 0xE9 \<or> b = 0xE8 then
                if sign = 0xAA55 \<and> slice 82 8 (win v) = FAT32_STR then (0, v)
                else if w AND (w - 1) = 0 \<and> w \<ge> 512 \<and> w \<le> 512
                  \<and> c \<noteq> 0 \<and> c AND (c - 1) = 0
                  \<and> ld_word (win v) 14 \<noteq> 0
                  \<and> (ucast (win v ! 16) :: DWORD) - 1 \<le> 1
                  \<and> ld_word (win v) 17 \<noteq> 0
                  \<and> (ld_word (win v) 19 \<ge> 128 \<or> ld_dword (win v) 32 \<ge> 0x10000)
                  \<and> ld_word (win v) 22 \<noteq> 0 then (0, v)
                else (if sign = 0xAA55 then 2 else 3, v)
              else (if sign = 0xAA55 then 2 else 3, v))"

text \<open>The partitions of the master boot record, tried in order.\<close>

fun find_part :: "DWORD list \<Rightarrow> nat \<Rightarrow> vol \<Rightarrow> nat \<times> vol" where
  "find_part [] fmt v = (fmt, v)"
| "find_part (s # pt) fmt v =
     (let (fmt, v) = (if s \<noteq> 0 then check_fs s v else (3, v))
      in if fmt \<ge> 2 then find_part pt fmt v else (fmt, v))"

text \<open>Only the automatic search is configured: \<^verbatim>\<open>LD2PT\<close> is the constant 0.\<close>

definition find_volume :: "vol \<Rightarrow> nat \<times> vol" where
  "find_volume v =
     (let (fmt, v) = check_fs 0 v
      in if fmt \<noteq> 2 then (fmt, v)
         else find_part (map (\<lambda>i. ld_dword (win v) (446 + i * 16 + 8)) [0..<4]) fmt v)"

section \<open>Mounting\<close>

text \<open>The FAT type for a number of clusters, 0 if there are too many.\<close>

definition fat_type :: "DWORD \<Rightarrow> BYTE" where
  "fat_type nclst =
     (let fmt = 0;
          fmt = (if nclst \<le> MAX_FAT32 then FS_FAT32 else fmt);
          fmt = (if nclst \<le> MAX_FAT16 then FS_FAT16 else fmt);
          fmt = (if nclst \<le> MAX_FAT12 then FS_FAT12 else fmt)
      in fmt)"

text \<open>The FSInfo sector of a FAT32 volume.\<close>

definition load_fsinfo :: "BYTE \<Rightarrow> DWORD \<Rightarrow> vol \<Rightarrow> vol" where
  "load_fsinfo fmt bsect v =
     (let v = v\<lparr>last_clst := 0xFFFFFFFF, free_clst := 0xFFFFFFFF, fsi_flag := 0x80\<rparr>
      in if fmt = FS_FAT32 \<and> ld_word (win v) 48 = 1 then
           let (res, v) = move_window (bsect + 1) v
           in if res = FR_OK then
                let v = v\<lparr>fsi_flag := 0\<rparr>
                in if ld_word (win v) 510 = 0xAA55 \<and> ld_dword (win v) 0 = 0x41615252
                     \<and> ld_dword (win v) 484 = 0x61417272
                   then v\<lparr>free_clst := ld_dword (win v) 488, last_clst := ld_dword (win v) 492\<rparr>
                   else v
              else v
         else v)"

text \<open>
  The analysis of the boot sector in the window: the FAT type, or 0 for an unusable volume, and the
  filesystem object with the geometry.
\<close>

definition mount_bpb :: "DWORD \<Rightarrow> vol \<Rightarrow> BYTE \<times> vol" where
  "mount_bpb bsect v =
     (let p = win v
      in if ld_word p 11 \<noteq> 512 then (0, v)
         else
           let fasize = ucast (ld_word p 22);
               fasize = (if fasize = 0 then ld_dword p 36 else fasize);
               v = v\<lparr>fsize := fasize\<rparr>;
               v = v\<lparr>n_fats := p ! 16\<rparr>
           in if n_fats v \<noteq> 1 \<and> n_fats v \<noteq> 2 then (0, v)
              else
                let fasize = fasize * ucast (n_fats v);
                    v = v\<lparr>csize := ucast (p ! 13)\<rparr>
                in if csize v = 0 \<or> csize v AND (csize v - 1) \<noteq> 0 then (0, v)
                   else
                     let v = v\<lparr>n_rootdir := ld_word p 17\<rparr>
                     in if n_rootdir v mod 16 \<noteq> 0 then (0, v)
                        else
                          let tsect = ucast (ld_word p 19);
                              tsect = (if tsect = 0 then ld_dword p 32 else tsect);
                              nrsv = ld_word p 14
                          in if nrsv = 0 then (0, v)
                             else
                               let sysect = ucast nrsv + fasize + ucast (n_rootdir v) div 16
                               in if tsect < sysect then (0, v)
                                  else
                                    let nclst = (tsect - sysect) div ucast (csize v); fmt = fat_type nclst
                                    in if nclst = 0 \<or> fmt = 0 then (0, v)
                                       else
                                         let v = v\<lparr>n_fatent := nclst + 2, volbase := bsect,
                                                   fatbase := bsect + ucast nrsv, database := bsect + sysect\<rparr>
                                         in if fmt = FS_FAT32 \<and> (ld_word p 42 \<noteq> 0 \<or> n_rootdir v \<noteq> 0) then (0, v)
                                            else if fmt \<noteq> FS_FAT32 \<and> n_rootdir v = 0 then (0, v)
                                            else
                                              let v = v\<lparr>dirbase := (if fmt = FS_FAT32 then ld_dword p 44
                                                                    else fatbase v + fasize)\<rparr>;
                                                  n = n_fatent v;
                                                  szbfat = (if fmt = FS_FAT32 then n * 4
                                                            else if fmt = FS_FAT16 then n * 2
                                                            else n * 3 div 2 + (n AND 1))
                                              in if fsize v < (szbfat + 511) div 512 then (0, v)
                                                 else (fmt, load_fsinfo fmt bsect v))"

text \<open>The part of \<open>mount_volume\<close> that mounts a filesystem object, up to the mount ID.\<close>

abbreviation (input) FA_READ :: BYTE where "FA_READ \<equiv> 0x01"

definition mount_fs :: "BYTE \<Rightarrow> vol \<Rightarrow> FRESULT \<times> BYTE \<times> vol" where
  "mount_fs mode v =
     (let v = v\<lparr>fs_type := 0\<rparr>; (stat, d) = disk_initialize (pdrv v) (dk v); v = v\<lparr>dk := d\<rparr>
      in if stat AND STA_NOINIT \<noteq> 0 then (FR_NOT_READY, 0, v)
         else if mode \<noteq> 0 \<and> stat AND STA_PROTECT \<noteq> 0 then (FR_WRITE_PROTECTED, 0, v)
         else
           let (fmt, v) = find_volume v
           in if fmt = 4 then (FR_DISK_ERR, 0, v)
              else if fmt \<ge> 2 then (FR_NO_FILESYSTEM, 0, v)
              else
                let (fmt, v) = mount_bpb (winsect v) v
                in if fmt = 0 then (FR_NO_FILESYSTEM, 0, v) else (FR_OK, fmt, v))"

text \<open>The result carries \<^verbatim>\<open>*rfs\<close> and the rest of the path.\<close>

definition mount_volume :: "BYTE list \<Rightarrow> BYTE \<Rightarrow> world \<Rightarrow> (FRESULT \<times> nat \<times> BYTE list \<times> world) option" where
  "mount_volume path mode w =
     (case get_ldnumber path w of
        (None, path) \<Rightarrow> Some (FR_INVALID_DRIVE, 0, path, w)
      | (Some vl, path) \<Rightarrow>
          let fs = FatFs w ! vl
          in if fs = 0 then Some (FR_NOT_ENABLED, 0, path, w)
             else do {
               (ok, w) \<leftarrow> lock_volume fs w;
               if \<not> ok then Some (FR_TIMEOUT, 0, path, w)
               else
                 let mode = mode AND NOT FA_READ; v = open_vol fs w; stat = disk_status (pdrv v) (dk v)
                 in if fs_type v \<noteq> 0 \<and> stat AND STA_NOINIT = 0 then
                      Some (if mode \<noteq> 0 \<and> stat AND STA_PROTECT \<noteq> 0 then FR_WRITE_PROTECTED else FR_OK, fs, path, w)
                    else
                      let (res, fmt, v) = mount_fs mode v
                      in if res \<noteq> FR_OK then Some (res, fs, path, close_vol fs v w)
                         else
                           let id = Fsid w + 1
                           in Some (FR_OK, fs, path,
                                (close_vol fs (v\<lparr>fs_type := fmt, fs_id := id, cdir := 0\<rparr>) w)\<lparr>Fsid := id\<rparr>)
             })"

text \<open>The result carries \<^verbatim>\<open>*rfs\<close>.\<close>

definition validate :: "'a FFOBJID_scheme \<Rightarrow> world \<Rightarrow> (FRESULT \<times> nat \<times> world) option" where
  "validate obj w =
     (let fs = obj_fs obj
      in if fs \<noteq> 0 \<and> fs_type (fss w fs) \<noteq> 0 \<and> obj_id obj = fs_id (fss w fs) then do {
           (ok, w) \<leftarrow> lock_volume fs w;
           if ok then
             if disk_status (pdrv (fss w fs)) (drives w (unat (pdrv (fss w fs)))) AND STA_NOINIT = 0
             then Some (FR_OK, fs, w)
             else do { w \<leftarrow> unlock_volume fs FR_OK w; Some (FR_INVALID_OBJECT, 0, w) }
           else Some (FR_TIMEOUT, 0, w)
         }
         else Some (FR_INVALID_OBJECT, 0, w))"

definition f_mount :: "nat \<Rightarrow> BYTE list \<Rightarrow> BYTE \<Rightarrow> world \<Rightarrow> (FRESULT \<times> world) option" where
  "f_mount fs path opt w =
     (case get_ldnumber path w of
        (None, rp) \<Rightarrow> Some (FR_INVALID_DRIVE, w)
      | (Some vl, rp) \<Rightarrow>
          let cfs = FatFs w ! vl
          in do {
            w \<leftarrow> (if cfs \<noteq> 0 then do {
                     let w = w\<lparr>FatFs := (FatFs w)[vl := 0]\<rparr>;
                     w \<leftarrow> ff_mutex_delete vl w;
                     Some (w\<lparr>fss := (fss w)(cfs := (fss w cfs)\<lparr>fs_type := 0\<rparr>)\<rparr>)
                   } else Some w);
            (ok, w) \<leftarrow> (if fs \<noteq> 0 then do {
                     let w = w\<lparr>fss := (fss w)(fs := (fss w fs)\<lparr>pdrv := of_nat vl, ldrv := of_nat vl\<rparr>)\<rparr>;
                     (ok, w) \<leftarrow> ff_mutex_create vl w;
                     if \<not> ok then Some (False, w)
                     else Some (True, w\<lparr>fss := (fss w)(fs := (fss w fs)\<lparr>fs_type := 0\<rparr>),
                                        FatFs := (FatFs w)[vl := fs]\<rparr>)
                   } else Some (True, w));
            if \<not> ok then Some (FR_INT_ERR, w)
            else if opt = 0 then Some (FR_OK, w)
            else do {
              (res, fs, path, w) \<leftarrow> mount_volume path 0 w;
              w \<leftarrow> unlock_volume fs res w;
              Some (res, w)
            }
          })"

end
