(* ===== verification/FatFile.thy ===== *)
theory FatFile
  imports FatMount
begin

text \<open>
  The file operations of \<^verbatim>\<open>ff.c\<close>: \<open>f_open\<close>, \<open>f_read\<close>, \<open>f_write\<close>, \<open>f_sync\<close>, \<open>f_close\<close>, \<open>f_lseek\<close>,
  \<open>f_getfree\<close> and \<open>f_truncate\<close>.  A file object is passed in and returned; the data buffer of the caller
  is the list of the bytes read, or the list of the bytes to write.
\<close>

record FIL = FFOBJID +
  flag :: BYTE
  err :: FRESULT
  fptr :: DWORD
  fclust :: DWORD
  fsect :: DWORD
  dir_sect :: DWORD
  dir_ptr :: nat
  buf :: "BYTE list"

abbreviation (input) FA_WRITE :: BYTE where "FA_WRITE \<equiv> 0x02"
abbreviation (input) FA_CREATE_NEW :: BYTE where "FA_CREATE_NEW \<equiv> 0x04"
abbreviation (input) FA_CREATE_ALWAYS :: BYTE where "FA_CREATE_ALWAYS \<equiv> 0x08"
abbreviation (input) FA_OPEN_ALWAYS :: BYTE where "FA_OPEN_ALWAYS \<equiv> 0x10"
abbreviation (input) FA_SEEKEND :: BYTE where "FA_SEEKEND \<equiv> 0x20"
abbreviation (input) FA_MODIFIED :: BYTE where "FA_MODIFIED \<equiv> 0x40"
abbreviation (input) FA_DIRTY :: BYTE where "FA_DIRTY \<equiv> 0x80"

section \<open>Common parts\<close>

text \<open>\<^verbatim>\<open>LEAVE_FF\<close>.\<close>

definition leave_ff :: "nat \<Rightarrow> FRESULT \<Rightarrow> world \<Rightarrow> (FRESULT \<times> world) option" where
  "leave_ff fs res w = do { w \<leftarrow> unlock_volume fs res w; Some (res, w) }"

text \<open>\<^verbatim>\<open>INIT_NAMBUF\<close>: an uninitialised block of 256 characters, if the heap grants it.\<close>

definition init_nambuf :: "vol \<Rightarrow> bool \<times> vol" where
  "init_nambuf v =
     (let t = clk (dk v); (got, v) = ff_memalloc 512 v
      in if got then (True, v\<lparr>lfnbuf := map (fresh (dk v) t) [0..<256]\<rparr>) else (False, v))"

text \<open>A directory object on the stack; the code sets every field before it reads it.\<close>

definition new_dir :: "nat \<Rightarrow> DIR" where
  "new_dir fs = \<lparr>obj_fs = fs, obj_id = 0, obj_attr = 0, obj_stat = 0, sclust = 0, objsize = 0,
     dptr = 0, clust = 0, sect = 0, dir = 0, fn = replicate 12 0, blk_ofs = 0, pat = []\<rparr>"

definition get_fattime :: "vol \<Rightarrow> DWORD" where
  "get_fattime v = fattime (dk v) (clk (dk v))"

text \<open>Bytes per cluster.\<close>

definition clst_bytes :: "vol \<Rightarrow> DWORD" where
  "clst_bytes v = ucast (csize v) * SS"

text \<open>Writing back the sector cache of a file.\<close>

definition flush_buf :: "'a FIL_scheme \<Rightarrow> vol \<Rightarrow> bool \<times> 'a FIL_scheme \<times> vol" where
  "flush_buf fp v =
     (let (r, d) = disk_write (pdrv v) (buf fp) (fsect fp) 1 (dk v); v = v\<lparr>dk := d\<rparr>
      in if r \<noteq> RES_OK then (False, fp, v) else (True, fp\<lparr>flag := flag fp AND NOT FA_DIRTY\<rparr>, v))"

text \<open>Filling it: the buffer is only changed by a successful transfer.\<close>

definition fill_buf :: "DWORD \<Rightarrow> 'a FIL_scheme \<Rightarrow> vol \<Rightarrow> bool \<times> 'a FIL_scheme \<times> vol" where
  "fill_buf sct fp v =
     (let (r, bs, d) = disk_read (pdrv v) sct 1 (dk v); v = v\<lparr>dk := d\<rparr>
      in if r \<noteq> RES_OK then (False, fp, v) else (True, fp\<lparr>buf := bs\<rparr>, v))"

section \<open>Opening\<close>

text \<open>Resetting the directory entry of a file that is created or overwritten.\<close>

definition open_reset :: "DIR \<Rightarrow> vol \<Rightarrow> (FRESULT \<times> vol) option" where
  "open_reset dj v =
     (let tm = get_fattime v; k = dir dj; w = win v;
          w = st_dword (k + 14) tm w;
          w = st_dword (k + 22) tm w;
          cl = ld_clust (fs_type v) w k;
          w = w[k + 11 := AM_ARC];
          w = st_clust (fs_type v) k 0 w;
          w = st_dword (k + 28) 0 w;
          v = v\<lparr>win := w, wflag := 1\<rparr>
      in if cl \<noteq> 0 then
           let sc = winsect v
           in do {
             (res, v) \<leftarrow> remove_chain cl 0 v;
             if res = FR_OK then let (res, v) = move_window sc v in Some (res, v\<lparr>last_clst := cl - 1\<rparr>)
             else Some (res, v)
           }
         else Some (FR_OK, v))"

definition open_create :: "BYTE \<Rightarrow> FRESULT \<Rightarrow> DIR \<Rightarrow> vol \<Rightarrow> (BYTE \<times> FRESULT \<times> DIR \<times> vol) option" where
  "open_create mode res dj v =
     (if mode AND (FA_CREATE_ALWAYS OR FA_OPEN_ALWAYS OR FA_CREATE_NEW) \<noteq> 0 then do {
        (mode, res, dj, v) \<leftarrow>
          (if res \<noteq> FR_OK then do {
             (res, dj, v) \<leftarrow> (if res = FR_NO_FILE then dir_register dj v else Some (res, dj, v));
             Some (mode OR FA_CREATE_ALWAYS, res, dj, v)
           }
           else Some (mode,
             if obj_attr dj AND (AM_RDO OR AM_DIR) \<noteq> 0 then FR_DENIED
             else if mode AND FA_CREATE_NEW \<noteq> 0 then FR_EXIST else res, dj, v));
        if res = FR_OK \<and> mode AND FA_CREATE_ALWAYS \<noteq> 0 then do {
          (res, v) \<leftarrow> open_reset dj v;
          Some (mode, res, dj, v)
        } else Some (mode, res, dj, v)
      }
      else Some (mode,
        if res = FR_OK then
          if obj_attr dj AND AM_DIR \<noteq> 0 then FR_NO_FILE
          else if mode AND FA_WRITE \<noteq> 0 \<and> obj_attr dj AND AM_RDO \<noteq> 0 then FR_DENIED else res
        else res, dj, v))"

partial_function (option) append_follow ::
    "FRESULT \<Rightarrow> DWORD \<Rightarrow> DWORD \<Rightarrow> DWORD \<Rightarrow> vol \<Rightarrow> (FRESULT \<times> DWORD \<times> DWORD \<times> vol) option" where
  "append_follow res bcs ofs clst v =
     (if res = FR_OK \<and> ofs > bcs then
        let (clst, v) = get_fat clst v;
            res = (if clst \<le> 1 then FR_INT_ERR else res);
            res = (if clst = 0xFFFFFFFF then FR_DISK_ERR else res)
        in append_follow res bcs (ofs - bcs) clst v
      else Some (res, ofs, clst, v))"

text \<open>Seeking to the end of the file for \<^verbatim>\<open>FA_OPEN_APPEND\<close>.\<close>

definition open_append :: "FIL \<Rightarrow> vol \<Rightarrow> (FRESULT \<times> FIL \<times> vol) option" where
  "open_append fp v =
     (let fp = fp\<lparr>fptr := objsize fp\<rparr>; bcs = clst_bytes v
      in do {
        (res, ofs, clst, v) \<leftarrow> append_follow FR_OK bcs (objsize fp) (sclust fp) v;
        let fp = fp\<lparr>fclust := clst\<rparr>;
        if res = FR_OK \<and> ofs mod SS \<noteq> 0 then
          let sc = clst2sect clst v
          in if sc = 0 then Some (FR_INT_ERR, fp, v)
             else
               let fp = fp\<lparr>fsect := sc + ofs div SS\<rparr>; (ok, fp, v) = fill_buf (fsect fp) fp v
               in Some (if ok then res else FR_DISK_ERR, fp, v)
        else Some (res, fp, v)
      })"

definition open_init :: "nat \<Rightarrow> BYTE \<Rightarrow> DIR \<Rightarrow> FIL \<Rightarrow> vol \<Rightarrow> (FRESULT \<times> FIL \<times> vol) option" where
  "open_init fs mode dj fp v =
     (let mode = (if mode AND FA_CREATE_ALWAYS \<noteq> 0 then mode OR FA_MODIFIED else mode);
          fp = fp\<lparr>dir_sect := winsect v, dir_ptr := dir dj\<rparr>;
          fp = fp\<lparr>sclust := ld_clust (fs_type v) (win v) (dir dj), objsize := ld_dword (win v) (dir dj + 28)\<rparr>;
          fp = fp\<lparr>obj_fs := fs, obj_id := fs_id v, flag := mode, err := FR_OK, fsect := 0, fptr := 0,
                 buf := replicate 512 0\<rparr>
      in if mode AND FA_SEEKEND \<noteq> 0 \<and> objsize fp > 0 then open_append fp v else Some (FR_OK, fp, v))"

definition f_open :: "FIL \<Rightarrow> BYTE list \<Rightarrow> BYTE \<Rightarrow> world \<Rightarrow> (FRESULT \<times> FIL \<times> world) option" where
  "f_open fp path mode w =
     do {
       let mode = mode AND 0x3F;
       (res, fs, path, w) \<leftarrow> mount_volume path mode w;
       if res \<noteq> FR_OK then do {
         (res, w) \<leftarrow> leave_ff fs res w;
         Some (res, fp\<lparr>obj_fs := 0\<rparr>, w)
       } else
         let (got, v) = init_nambuf (open_vol fs w)
         in if \<not> got then do {
              (res, w) \<leftarrow> leave_ff fs FR_NOT_ENOUGH_CORE (close_vol fs v w);
              Some (res, fp, w)
            }
            else do {
              (res, dj, v) \<leftarrow> follow_path path (new_dir fs) v;
              let res = (if res = FR_OK \<and> fn dj ! NSFLAG AND NS_NONAME \<noteq> 0 then FR_INVALID_NAME else res);
              (mode, res, dj, v) \<leftarrow> open_create mode res dj v;
              (res, fp, v) \<leftarrow> (if res = FR_OK then open_init fs mode dj fp v else Some (res, fp, v));
              let fp = (if res \<noteq> FR_OK then fp\<lparr>obj_fs := 0\<rparr> else fp);
              (res, w) \<leftarrow> leave_ff fs res (close_vol fs v w);
              Some (res, fp, w)
            }
     }"

section \<open>Reading\<close>

text \<open>The common check of \<open>f_read\<close>, \<open>f_write\<close> and \<open>f_truncate\<close>: object, error flag and access mode.\<close>

definition file_check :: "BYTE \<Rightarrow> 'a FIL_scheme \<Rightarrow> FRESULT \<Rightarrow> FRESULT" where
  "file_check need fp res =
     (if res \<noteq> FR_OK then res
      else if err fp \<noteq> FR_OK then err fp
      else if flag fp AND need = 0 then FR_DENIED else FR_OK)"

text \<open>The bytes left in the sector cache from the file pointer on, at most \<open>btr\<close>.\<close>

definition read_partial :: "DWORD \<Rightarrow> FIL \<Rightarrow> DWORD \<times> BYTE list" where
  "read_partial btr fp =
     (let rcnt = SS - fptr fp mod SS; rcnt = (if rcnt > btr then btr else rcnt)
      in (rcnt, slice (unat (fptr fp mod SS)) (unat rcnt) (buf fp)))"

text \<open>The cluster of the file pointer at a cluster boundary.\<close>

definition read_clust :: "FIL \<Rightarrow> vol \<Rightarrow> FRESULT \<times> FIL \<times> vol" where
  "read_clust fp v =
     (let (clst, v) = (if fptr fp = 0 then (sclust fp, v) else get_fat (fclust fp) v)
      in if clst < 2 then (FR_INT_ERR, fp, v)
         else if clst = 0xFFFFFFFF then (FR_DISK_ERR, fp, v)
         else (FR_OK, fp\<lparr>fclust := clst\<rparr>, v))"

text \<open>One round of the loop: an error to abort with, or a number of bytes and the bytes.\<close>

definition read_step :: "DWORD \<Rightarrow> FIL \<Rightarrow> vol \<Rightarrow> (FRESULT + DWORD \<times> BYTE list) \<times> FIL \<times> vol" where
  "read_step btr fp v =
     (if fptr fp mod SS = 0 then
        let csect = (fptr fp div SS) AND (ucast (csize v) - 1);
            (res, fp, v) = (if csect = 0 then read_clust fp v else (FR_OK, fp, v))
        in if res \<noteq> FR_OK then (Inl res, fp, v)
           else
             let sct = clst2sect (fclust fp) v
             in if sct = 0 then (Inl FR_INT_ERR, fp, v)
                else
                  let sct = sct + csect; cc = btr div SS
                  in if cc > 0 then
                       let cc = (if csect + cc > ucast (csize v) then ucast (csize v) - csect else cc);
                           (r, bs, d) = disk_read (pdrv v) sct cc (dk v); v = v\<lparr>dk := d\<rparr>
                       in if r \<noteq> RES_OK then (Inl FR_DISK_ERR, fp, v)
                          else
                            let bs = (if flag fp AND FA_DIRTY \<noteq> 0 \<and> fsect fp - sct < cc
                                      then memcpy (unat ((fsect fp - sct) * SS)) (buf fp) bs else bs)
                            in (Inr (SS * cc, bs), fp, v)
                     else
                       let (ok, fp, v) =
                             (if fsect fp \<noteq> sct then
                                let (ok, fp, v) = (if flag fp AND FA_DIRTY \<noteq> 0 then flush_buf fp v else (True, fp, v))
                                in if ok then fill_buf sct fp v else (False, fp, v)
                              else (True, fp, v))
                       in if \<not> ok then (Inl FR_DISK_ERR, fp, v)
                          else let fp = fp\<lparr>fsect := sct\<rparr> in (Inr (read_partial btr fp), fp, v)
      else (Inr (read_partial btr fp), fp, v))"

partial_function (option) file_read ::
    "DWORD \<Rightarrow> BYTE list \<Rightarrow> FIL \<Rightarrow> vol \<Rightarrow> (FRESULT \<times> BYTE list \<times> FIL \<times> vol) option" where
  "file_read btr acc fp v =
     (if btr > 0 then
        let (st, fp, v) = read_step btr fp v
        in case st of
             Inl res \<Rightarrow> Some (res, acc, fp\<lparr>err := res\<rparr>, v)
           | Inr (rcnt, bs) \<Rightarrow> file_read (btr - rcnt) (acc @ bs) (fp\<lparr>fptr := fptr fp + rcnt\<rparr>) v
      else Some (FR_OK, acc, fp, v))"

text \<open>The result carries the bytes read; their number is \<^verbatim>\<open>*br\<close>.\<close>

definition f_read :: "FIL \<Rightarrow> DWORD \<Rightarrow> world \<Rightarrow> (FRESULT \<times> BYTE list \<times> FIL \<times> world) option" where
  "f_read fp btr w =
     do {
       (res, fs, w) \<leftarrow> validate fp w;
       let res = file_check FA_READ fp res;
       if res \<noteq> FR_OK then do {
         (res, w) \<leftarrow> leave_ff fs res w;
         Some (res, [], fp, w)
       } else do {
         let remain = objsize fp - fptr fp;
         let btr = (if btr > remain then remain else btr);
         (res, bs, fp, v) \<leftarrow> file_read btr [] fp (open_vol fs w);
         (res, w) \<leftarrow> leave_ff fs res (close_vol fs v w);
         Some (res, bs, fp, w)
       }
     }"

section \<open>Writing\<close>

text \<open>The cluster of the file pointer, allocated if needed: \<open>None\<close> in the middle is a full disk.\<close>

definition write_clust :: "FIL \<Rightarrow> vol \<Rightarrow> (FRESULT option \<times> FIL \<times> vol) option" where
  "write_clust fp v =
     do {
       (clst, v) \<leftarrow>
         (if fptr fp = 0 then
            if sclust fp = 0 then create_chain 0 v else Some (sclust fp, v)
          else create_chain (fclust fp) v);
       if clst = 0 then Some (None, fp, v)
       else if clst = 1 then Some (Some FR_INT_ERR, fp, v)
       else if clst = 0xFFFFFFFF then Some (Some FR_DISK_ERR, fp, v)
       else
         let fp = fp\<lparr>fclust := clst\<rparr>; fp = (if sclust fp = 0 then fp\<lparr>sclust := clst\<rparr> else fp)
         in Some (Some FR_OK, fp, v)
     }"

text \<open>The bytes that fit into the sector at the file pointer.\<close>

definition write_partial :: "DWORD \<Rightarrow> BYTE list \<Rightarrow> FIL \<Rightarrow> DWORD \<times> FIL" where
  "write_partial btw wbuff fp =
     (let wcnt = SS - fptr fp mod SS; wcnt = (if wcnt > btw then btw else wcnt)
      in (wcnt, fp\<lparr>buf := memcpy (unat (fptr fp mod SS)) (take (unat wcnt) wbuff) (buf fp),
                  flag := flag fp OR FA_DIRTY\<rparr>))"

text \<open>A round on a sector boundary, after the cluster is known.\<close>

definition write_sector :: "DWORD \<Rightarrow> BYTE list \<Rightarrow> DWORD \<Rightarrow> FIL \<Rightarrow> vol \<Rightarrow> (FRESULT + DWORD) \<times> FIL \<times> vol" where
  "write_sector btw wbuff csect fp v =
     (let (ok, fp, v) = (if flag fp AND FA_DIRTY \<noteq> 0 then flush_buf fp v else (True, fp, v))
      in if \<not> ok then (Inl FR_DISK_ERR, fp, v)
         else
           let sct = clst2sect (fclust fp) v
           in if sct = 0 then (Inl FR_INT_ERR, fp, v)
              else
                let sct = sct + csect; cc = btw div SS
                in if cc > 0 then
                     let cc = (if csect + cc > ucast (csize v) then ucast (csize v) - csect else cc);
                         (r, d) = disk_write (pdrv v) wbuff sct cc (dk v); v = v\<lparr>dk := d\<rparr>
                     in if r \<noteq> RES_OK then (Inl FR_DISK_ERR, fp, v)
                        else
                          let fp = (if fsect fp - sct < cc
                                    then fp\<lparr>buf := slice (unat ((fsect fp - sct) * SS)) 512 wbuff,
                                            flag := flag fp AND NOT FA_DIRTY\<rparr>
                                    else fp)
                          in (Inr (SS * cc), fp, v)
                   else
                     let (ok, fp, v) =
                           (if fsect fp \<noteq> sct \<and> fptr fp < objsize fp then fill_buf sct fp v else (True, fp, v))
                     in if \<not> ok then (Inl FR_DISK_ERR, fp, v)
                        else
                          let (wcnt, fp) = write_partial btw wbuff (fp\<lparr>fsect := sct\<rparr>)
                          in (Inr wcnt, fp, v))"

text \<open>One round: \<open>None\<close> leaves the loop on a full disk.\<close>

definition write_step ::
    "DWORD \<Rightarrow> BYTE list \<Rightarrow> FIL \<Rightarrow> vol \<Rightarrow> ((FRESULT + DWORD) option \<times> FIL \<times> vol) option" where
  "write_step btw wbuff fp v =
     (if fptr fp mod SS = 0 then
        let csect = (fptr fp div SS) AND (ucast (csize v) - 1)
        in do {
          (res, fp, v) \<leftarrow> (if csect = 0 then write_clust fp v else Some (Some FR_OK, fp, v));
          case res of
            None \<Rightarrow> Some (None, fp, v)
          | Some res \<Rightarrow>
              if res \<noteq> FR_OK then Some (Some (Inl res), fp, v)
              else let (st, fp, v) = write_sector btw wbuff csect fp v in Some (Some st, fp, v)
        }
      else let (wcnt, fp) = write_partial btw wbuff fp in Some (Some (Inr wcnt), fp, v))"

partial_function (option) file_write ::
    "DWORD \<Rightarrow> BYTE list \<Rightarrow> DWORD \<Rightarrow> FIL \<Rightarrow> vol \<Rightarrow> (FRESULT \<times> DWORD \<times> FIL \<times> vol) option" where
  "file_write btw wbuff bw fp v =
     (if btw > 0 then do {
        (st, fp, v) \<leftarrow> write_step btw wbuff fp v;
        case st of
          None \<Rightarrow> Some (FR_OK, bw, fp, v)
        | Some (Inl res) \<Rightarrow> Some (res, bw, fp\<lparr>err := res\<rparr>, v)
        | Some (Inr wcnt) \<Rightarrow>
            let fp = fp\<lparr>fptr := fptr fp + wcnt\<rparr>;
                fp = fp\<lparr>objsize := (if fptr fp > objsize fp then fptr fp else objsize fp)\<rparr>
            in file_write (btw - wcnt) (drop (unat wcnt) wbuff) (bw + wcnt) fp v
      } else Some (FR_OK, bw, fp, v))"

text \<open>The result carries \<^verbatim>\<open>*bw\<close>.\<close>

definition f_write :: "FIL \<Rightarrow> BYTE list \<Rightarrow> DWORD \<Rightarrow> world \<Rightarrow> (FRESULT \<times> DWORD \<times> FIL \<times> world) option" where
  "f_write fp buff btw w =
     do {
       (res, fs, w) \<leftarrow> validate fp w;
       let res = file_check FA_WRITE fp res;
       if res \<noteq> FR_OK then do {
         (res, w) \<leftarrow> leave_ff fs res w;
         Some (res, 0, fp, w)
       } else do {
         let btw = (if fptr fp + btw < fptr fp then 0xFFFFFFFF - fptr fp else btw);
         (res, bw, fp, v) \<leftarrow> file_write btw buff 0 fp (open_vol fs w);
         let fp = (if res = FR_OK then fp\<lparr>flag := flag fp OR FA_MODIFIED\<rparr> else fp);
         (res, w) \<leftarrow> leave_ff fs res (close_vol fs v w);
         Some (res, bw, fp, w)
       }
     }"

section \<open>Synchronising and closing\<close>

text \<open>The directory entry of a changed file.\<close>

definition sync_entry :: "DWORD \<Rightarrow> FIL \<Rightarrow> vol \<Rightarrow> FRESULT \<times> FIL \<times> vol" where
  "sync_entry tm fp v =
     (let (res, v) = move_window (dir_sect fp) v
      in if res = FR_OK then
           let k = dir_ptr fp; w = win v;
               w = w[k + 11 := w ! (k + 11) OR AM_ARC];
               w = st_clust (fs_type v) k (sclust fp) w;
               w = st_dword (k + 28) (objsize fp) w;
               w = st_dword (k + 22) tm w;
               w = st_word (k + 18) 0 w;
               (res, v) = sync_fs (v\<lparr>win := w, wflag := 1\<rparr>)
           in (res, fp\<lparr>flag := flag fp AND NOT FA_MODIFIED\<rparr>, v)
         else (res, fp, v))"

definition file_sync :: "FIL \<Rightarrow> vol \<Rightarrow> FRESULT \<times> FIL \<times> vol" where
  "file_sync fp v =
     (if flag fp AND FA_MODIFIED \<noteq> 0 then
        let (ok, fp, v) = (if flag fp AND FA_DIRTY \<noteq> 0 then flush_buf fp v else (True, fp, v))
        in if ok then sync_entry (get_fattime v) fp v else (FR_DISK_ERR, fp, v)
      else (FR_OK, fp, v))"

definition f_sync :: "FIL \<Rightarrow> world \<Rightarrow> (FRESULT \<times> FIL \<times> world) option" where
  "f_sync fp w =
     do {
       (res, fs, w) \<leftarrow> validate fp w;
       if res = FR_OK then do {
         let (res, fp, v) = file_sync fp (open_vol fs w);
         (res, w) \<leftarrow> leave_ff fs res (close_vol fs v w);
         Some (res, fp, w)
       } else do {
         (res, w) \<leftarrow> leave_ff fs res w;
         Some (res, fp, w)
       }
     }"

definition f_close :: "FIL \<Rightarrow> world \<Rightarrow> (FRESULT \<times> FIL \<times> world) option" where
  "f_close fp w =
     do {
       (res, fp, w) \<leftarrow> f_sync fp w;
       if res = FR_OK then do {
         (res, fs, w) \<leftarrow> validate fp w;
         if res = FR_OK then do {
           w \<leftarrow> unlock_volume fs FR_OK w;
           Some (res, fp\<lparr>obj_fs := 0\<rparr>, w)
         } else Some (res, fp, w)
       } else Some (res, fp, w)
     }"

section \<open>Seeking\<close>

text \<open>The cluster following loop: \<open>Inl\<close> an error to abort with, or the remaining offset and the cluster.\<close>

partial_function (option) seek_follow ::
    "DWORD \<Rightarrow> DWORD \<Rightarrow> DWORD \<Rightarrow> FIL \<Rightarrow> vol \<Rightarrow> ((FRESULT + DWORD \<times> DWORD) \<times> FIL \<times> vol) option" where
  "seek_follow bcs ofs clst fp v =
     (if ofs > bcs then do {
        let ofs = ofs - bcs;
        let fp = fp\<lparr>fptr := fptr fp + bcs\<rparr>;
        (clst, v) \<leftarrow> (if flag fp AND FA_WRITE \<noteq> 0 then create_chain clst v else Some (get_fat clst v));
        if flag fp AND FA_WRITE \<noteq> 0 \<and> clst = 0 then Some (Inr (0, clst), fp, v)
        else if clst = 0xFFFFFFFF then Some (Inl FR_DISK_ERR, fp, v)
        else if clst \<le> 1 \<or> clst \<ge> n_fatent v then Some (Inl FR_INT_ERR, fp, v)
        else seek_follow bcs ofs clst (fp\<lparr>fclust := clst\<rparr>) v
      } else Some (Inr (ofs, clst), fp, v))"

text \<open>Where to start: the offset relative to the start cluster and that cluster.\<close>

definition seek_start ::
    "DWORD \<Rightarrow> DWORD \<Rightarrow> DWORD \<Rightarrow> FIL \<Rightarrow> vol \<Rightarrow> ((FRESULT + DWORD \<times> DWORD) \<times> FIL \<times> vol) option" where
  "seek_start bcs ifptr ofs fp v =
     (if ifptr > 0 \<and> (ofs - 1) div bcs \<ge> (ifptr - 1) div bcs then
        let fp = fp\<lparr>fptr := (ifptr - 1) AND NOT (bcs - 1)\<rparr>
        in Some (Inr (ofs - fptr fp, fclust fp), fp, v)
      else do {
        (ret, clst, fp, v) \<leftarrow>
          (if sclust fp = 0 then do {
             (clst, v) \<leftarrow> create_chain 0 v;
             Some (if clst = 1 then FR_INT_ERR else if clst = 0xFFFFFFFF then FR_DISK_ERR else FR_OK, clst,
                   if clst = 1 \<or> clst = 0xFFFFFFFF then fp else fp\<lparr>sclust := clst\<rparr>, v)
           } else Some (FR_OK, sclust fp, fp, v));
        if ret \<noteq> FR_OK then Some (Inl ret, fp, v)
        else Some (Inr (ofs, clst), fp\<lparr>fclust := clst\<rparr>, v)
      })"

text \<open>The file pointer and the sector of the seek, before the size and the cache are adjusted.\<close>

definition seek_move :: "DWORD \<Rightarrow> FIL \<Rightarrow> vol \<Rightarrow> ((FRESULT + DWORD) \<times> FIL \<times> vol) option" where
  "seek_move ofs fp v =
     (let ifptr = fptr fp; fp = fp\<lparr>fptr := 0\<rparr>
      in if ofs > 0 then
           let bcs = clst_bytes v
           in do {
             (st, fp, v) \<leftarrow> seek_start bcs ifptr ofs fp v;
             case st of
               Inl res \<Rightarrow> Some (Inl res, fp, v)
             | Inr (ofs, clst) \<Rightarrow>
                 if clst \<noteq> 0 then do {
                   (st, fp, v) \<leftarrow> seek_follow bcs ofs clst fp v;
                   case st of
                     Inl res \<Rightarrow> Some (Inl res, fp, v)
                   | Inr (ofs, clst) \<Rightarrow>
                       let fp = fp\<lparr>fptr := fptr fp + ofs\<rparr>
                       in if ofs mod SS \<noteq> 0 then
                            let nsect = clst2sect clst v
                            in if nsect = 0 then Some (Inl FR_INT_ERR, fp, v)
                               else Some (Inr (nsect + ofs div SS), fp, v)
                          else Some (Inr 0, fp, v)
                 } else Some (Inr 0, fp, v)
           }
         else Some (Inr 0, fp, v))"

text \<open>The normal seek; an error is also the abort flag of the file.\<close>

definition file_seek :: "DWORD \<Rightarrow> FIL \<Rightarrow> vol \<Rightarrow> (FRESULT \<times> FIL \<times> vol) option" where
  "file_seek ofs fp v =
     (let ofs = (if ofs > objsize fp \<and> flag fp AND FA_WRITE = 0 then objsize fp else ofs)
      in do {
        (st, fp, v) \<leftarrow> seek_move ofs fp v;
        case st of
          Inl res \<Rightarrow> Some (res, fp\<lparr>err := res\<rparr>, v)
        | Inr nsect \<Rightarrow>
            let fp = (if fptr fp > objsize fp
                      then fp\<lparr>objsize := fptr fp, flag := flag fp OR FA_MODIFIED\<rparr> else fp)
            in if fptr fp mod SS \<noteq> 0 \<and> nsect \<noteq> fsect fp then
                 let (ok, fp, v) = (if flag fp AND FA_DIRTY \<noteq> 0 then flush_buf fp v else (True, fp, v));
                     (ok, fp, v) = (if ok then fill_buf nsect fp v else (False, fp, v))
                 in if \<not> ok then Some (FR_DISK_ERR, fp\<lparr>err := FR_DISK_ERR\<rparr>, v)
                    else Some (FR_OK, fp\<lparr>fsect := nsect\<rparr>, v)
               else Some (FR_OK, fp, v)
      })"

definition f_lseek :: "FIL \<Rightarrow> DWORD \<Rightarrow> world \<Rightarrow> (FRESULT \<times> FIL \<times> world) option" where
  "f_lseek fp ofs w =
     do {
       (res, fs, w) \<leftarrow> validate fp w;
       let res = (if res = FR_OK then err fp else res);
       if res \<noteq> FR_OK then do {
         (res, w) \<leftarrow> leave_ff fs res w;
         Some (res, fp, w)
       } else do {
         (res, fp, v) \<leftarrow> file_seek ofs fp (open_vol fs w);
         (res, w) \<leftarrow> leave_ff fs res (close_vol fs v w);
         Some (res, fp, w)
       }
     }"

section \<open>Free clusters and truncation\<close>

partial_function (option) count12 :: "DWORD \<Rightarrow> DWORD \<Rightarrow> vol \<Rightarrow> (FRESULT \<times> DWORD \<times> vol) option" where
  "count12 clst nfree v =
     (let (stat, v) = get_fat clst v
      in if stat = 0xFFFFFFFF then Some (FR_DISK_ERR, nfree, v)
         else if stat = 1 then Some (FR_INT_ERR, nfree, v)
         else
           let nfree = (if stat = 0 then nfree + 1 else nfree); clst = clst + 1
           in if clst < n_fatent v then count12 clst nfree v else Some (FR_OK, nfree, v))"

partial_function (option) count_sectors ::
    "DWORD \<Rightarrow> DWORD \<Rightarrow> nat \<Rightarrow> DWORD \<Rightarrow> vol \<Rightarrow> (FRESULT \<times> DWORD \<times> vol) option" where
  "count_sectors clst sct i nfree v =
     (let (res, sct, v) = (if i = 0 then let (res, v) = move_window sct v in (res, sct + 1, v) else (FR_OK, sct, v))
      in if res \<noteq> FR_OK then Some (res, nfree, v)
         else
           let (nfree, i) =
                 (if fs_type v = FS_FAT16
                  then (if ld_word (win v) i = 0 then nfree + 1 else nfree, i + 2)
                  else (if ld_dword (win v) i AND 0x0FFFFFFF = 0 then nfree + 1 else nfree, i + 4));
               i = i mod 512; clst = clst - 1
           in if clst \<noteq> 0 then count_sectors clst sct i nfree v else Some (FR_OK, nfree, v))"

text \<open>The number of free clusters, where there is no error.\<close>

definition count_free_clst :: "vol \<Rightarrow> (FRESULT \<times> DWORD \<times> vol) option" where
  "count_free_clst v =
     (if free_clst v \<le> n_fatent v - 2 then Some (FR_OK, free_clst v, v)
      else do {
        (res, nfree, v) \<leftarrow>
          (if fs_type v = FS_FAT12 then count12 2 0 v else count_sectors (n_fatent v) (fatbase v) 0 0 v);
        if res = FR_OK then Some (res, nfree, v\<lparr>free_clst := nfree, fsi_flag := fsi_flag v OR 1\<rparr>)
        else Some (res, nfree, v)
      })"

text \<open>The result carries \<^verbatim>\<open>*nclst\<close>, set on success only, and \<^verbatim>\<open>*fatfs\<close>.\<close>

definition f_getfree :: "BYTE list \<Rightarrow> world \<Rightarrow> (FRESULT \<times> DWORD option \<times> nat \<times> world) option" where
  "f_getfree path w =
     do {
       (res, fs, path, w) \<leftarrow> mount_volume path 0 w;
       if res = FR_OK then do {
         (res, nfree, v) \<leftarrow> count_free_clst (open_vol fs w);
         let nclst = (if res = FR_OK then Some nfree else None);
         (res, w) \<leftarrow> leave_ff fs res (close_vol fs v w);
         Some (res, nclst, fs, w)
       } else do {
         (res, w) \<leftarrow> leave_ff fs res w;
         Some (res, None, fs, w)
       }
     }"

text \<open>The part of \<open>f_truncate\<close> for a file pointer before the end of the file.\<close>

definition file_truncate :: "FIL \<Rightarrow> vol \<Rightarrow> (FRESULT \<times> FIL \<times> vol) option" where
  "file_truncate fp v =
     do {
       (res, fp, v) \<leftarrow>
         (if fptr fp = 0 then do {
            (res, v) \<leftarrow> remove_chain (sclust fp) 0 v;
            Some (res, fp\<lparr>sclust := 0\<rparr>, v)
          } else
            let (ncl, v) = get_fat (fclust fp) v;
                res = (if ncl = 0xFFFFFFFF then FR_DISK_ERR else FR_OK);
                res = (if ncl = 1 then FR_INT_ERR else res)
            in if res = FR_OK \<and> ncl < n_fatent v then do {
                 (res, v) \<leftarrow> remove_chain ncl (fclust fp) v;
                 Some (res, fp, v)
               } else Some (res, fp, v));
       let fp = fp\<lparr>objsize := fptr fp, flag := flag fp OR FA_MODIFIED\<rparr>;
       let (ok, fp, v) = (if res = FR_OK \<and> flag fp AND FA_DIRTY \<noteq> 0 then flush_buf fp v else (True, fp, v));
       let res = (if \<not> ok then FR_DISK_ERR else res);
       Some (res, if res \<noteq> FR_OK then fp\<lparr>err := res\<rparr> else fp, v)
     }"

definition f_truncate :: "FIL \<Rightarrow> world \<Rightarrow> (FRESULT \<times> FIL \<times> world) option" where
  "f_truncate fp w =
     do {
       (res, fs, w) \<leftarrow> validate fp w;
       let res = file_check FA_WRITE fp res;
       if res \<noteq> FR_OK then do {
         (res, w) \<leftarrow> leave_ff fs res w;
         Some (res, fp, w)
       } else do {
         (res, fp, v) \<leftarrow>
           (if fptr fp < objsize fp then file_truncate fp (open_vol fs w) else Some (FR_OK, fp, open_vol fs w));
         (res, w) \<leftarrow> leave_ff fs res (close_vol fs v w);
         Some (res, fp, w)
       }
     }"

end
