(* ===== verification/FatDirApi.thy ===== *)
theory FatDirApi
  imports FatFile
begin

text \<open>
  The directory and path operations of \<^verbatim>\<open>ff.c\<close>: current drive and directory, directory objects,
  searching, file status, \<open>f_unlink\<close>, \<open>f_mkdir\<close>, \<open>f_rename\<close>, \<open>f_chmod\<close> and \<open>f_utime\<close>.
\<close>

section \<open>Current drive and directory\<close>

definition f_chdrive :: "BYTE list \<Rightarrow> world \<Rightarrow> FRESULT \<times> world" where
  "f_chdrive path w =
     (case get_ldnumber path w of
        (None, path) \<Rightarrow> (FR_INVALID_DRIVE, w)
      | (Some vl, path) \<Rightarrow> (FR_OK, w\<lparr>CurrVol := of_nat vl\<rparr>))"

text \<open>
  The frame shared by the operations that resolve one path: mount, name buffer, \<open>follow_path\<close>, the
  body of the operation, and leaving with the lock released.
\<close>

definition with_path ::
    "BYTE list \<Rightarrow> BYTE \<Rightarrow> (FRESULT \<Rightarrow> DIR \<Rightarrow> vol \<Rightarrow> (FRESULT \<times> 'b \<times> vol) option) \<Rightarrow> 'b \<Rightarrow> world
       \<Rightarrow> (FRESULT \<times> 'b \<times> world) option" where
  "with_path path mode body dflt w =
     do {
       (res, fs, path, w) \<leftarrow> mount_volume path mode w;
       if res \<noteq> FR_OK then do {
         (res, w) \<leftarrow> leave_ff fs res w;
         Some (res, dflt, w)
       } else
         let (got, v) = init_nambuf (open_vol fs w)
         in if \<not> got then do {
              (res, w) \<leftarrow> leave_ff fs FR_NOT_ENOUGH_CORE (close_vol fs v w);
              Some (res, dflt, w)
            }
            else do {
              (res, dj, v) \<leftarrow> follow_path path (new_dir fs) v;
              (res, x, v) \<leftarrow> body res dj v;
              (res, w) \<leftarrow> leave_ff fs res (close_vol fs v w);
              Some (res, x, w)
            }
     }"

definition chdir_body :: "FRESULT \<Rightarrow> DIR \<Rightarrow> vol \<Rightarrow> (FRESULT \<times> unit \<times> vol) option" where
  "chdir_body res dj v =
     (let (res, v) =
            (if res = FR_OK then
               if fn dj ! NSFLAG AND NS_NONAME \<noteq> 0 then (res, v\<lparr>cdir := sclust dj\<rparr>)
               else if obj_attr dj AND AM_DIR \<noteq> 0 then (res, v\<lparr>cdir := ld_clust (fs_type v) (win v) (dir dj)\<rparr>)
               else (FR_NO_PATH, v)
             else (res, v))
      in Some (if res = FR_NO_FILE then FR_NO_PATH else res, (), v))"

definition f_chdir :: "BYTE list \<Rightarrow> world \<Rightarrow> (FRESULT \<times> unit \<times> world) option" where
  "f_chdir path w = with_path path 0 chdir_body () w"

text \<open>\<open>f_getcwd\<close>: finding the entry that links to the child directory \<open>ccl\<close>.\<close>

partial_function (option) cwd_find :: "DWORD \<Rightarrow> DIR \<Rightarrow> vol \<Rightarrow> (FRESULT \<times> DIR \<times> vol) option" where
  "cwd_find ccl dj v =
     do {
       (res, dj, v) \<leftarrow> dir_read False dj v;
       if res \<noteq> FR_OK then Some (res, dj, v)
       else if ccl = ld_clust (fs_type v) (win v) (dir dj) then Some (res, dj, v)
       else do {
         (res, dj, v) \<leftarrow> dir_next False dj v;
         if res = FR_OK then cwd_find ccl dj v else Some (res, dj, v)
       }
     }"

definition new_info :: FILINFO where
  "new_info = \<lparr>fi_fsize = 0, fdate = 0, ftime = 0, fattrib = 0, altname = replicate 13 0, fname = replicate 256 0\<rparr>"

text \<open>The bytes of a C string in a buffer.\<close>

definition cstr :: "BYTE list \<Rightarrow> BYTE list" where
  "cstr s = takeWhile (\<lambda>c. c \<noteq> 0) s"

text \<open>The walk to the root: names are stacked from the end of the buffer down to index \<open>i\<close>.\<close>

partial_function (option) cwd_loop ::
    "nat \<Rightarrow> BYTE list \<Rightarrow> DIR \<Rightarrow> vol \<Rightarrow> (FRESULT \<times> nat \<times> BYTE list \<times> vol) option" where
  "cwd_loop i buff dj v =
     (let ccl = sclust dj
      in if ccl = 0 then Some (FR_OK, i, buff, v)
         else do {
           (res, dj, v) \<leftarrow> dir_sdi 32 dj v;
           if res \<noteq> FR_OK then Some (res, i, buff, v)
           else
             let (res, v) = move_window (sect dj) v
             in if res \<noteq> FR_OK then Some (res, i, buff, v)
                else do {
                  (res, dj, v) \<leftarrow> dir_sdi 0 (dj\<lparr>sclust := ld_clust (fs_type v) (win v) (dir dj)\<rparr>) v;
                  if res \<noteq> FR_OK then Some (res, i, buff, v)
                  else do {
                    (res, dj, v) \<leftarrow> cwd_find ccl dj v;
                    let res = (if res = FR_NO_FILE then FR_INT_ERR else res);
                    if res \<noteq> FR_OK then Some (res, i, buff, v)
                    else
                      let name = cstr (fname (get_fileinfo dj v new_info)); n = length name
                      in if i < n + 1 then Some (FR_NOT_ENOUGH_CORE, i, buff, v)
                         else cwd_loop (i - (n + 1)) (put_bytes (0x2F # name) (i - (n + 1)) buff) dj v
                  }
                }
         })"

text \<open>Copying the stacked path down behind the volume prefix: the final index of \<^verbatim>\<open>tp\<close>.\<close>

function cwd_copy :: "nat \<Rightarrow> nat \<Rightarrow> nat \<Rightarrow> BYTE list \<Rightarrow> nat \<times> BYTE list" where
  "cwd_copy tp i len buff =
     (let buff = buff[tp := buff ! i]
      in if i + 1 < len then cwd_copy (tp + 1) (i + 1) len buff else (tp + 1, buff))"
  by pat_completeness auto
termination
  by (relation "measure (\<lambda>(tp, i, len, buff). len - i)") auto

declare cwd_copy.simps [simp del]

definition cwd_finish :: "nat \<Rightarrow> nat \<Rightarrow> BYTE list \<Rightarrow> BYTE list \<Rightarrow> FRESULT \<times> nat \<times> BYTE list" where
  "cwd_finish i len vp buff =
     (let (i, buff) = (if i = len then (i - 1, buff[i - 1 := 0x2F]) else (i, buff)); n = length vp
      in if i \<ge> n + 2 then
           let buff = put_bytes (vp @ [0x3A]) 0 buff; (tp, buff) = cwd_copy (n + 1) i len buff
           in (FR_OK, tp, buff)
         else (FR_NOT_ENOUGH_CORE, 0, buff))"

text \<open>The buffer of the caller, of \<open>len\<close> bytes, is passed in and returned.\<close>

definition f_getcwd :: "BYTE list \<Rightarrow> nat \<Rightarrow> world \<Rightarrow> (FRESULT \<times> BYTE list \<times> world) option" where
  "f_getcwd buff len w =
     do {
       let buff = buff[0 := 0];
       (res, fs, path, w) \<leftarrow> mount_volume [] 0 w;
       if res \<noteq> FR_OK then do {
         (res, w) \<leftarrow> leave_ff fs res w;
         Some (res, buff[0 := 0], w)
       } else
         let (got, v) = init_nambuf (open_vol fs w)
         in if \<not> got then do {
              (res, w) \<leftarrow> leave_ff fs FR_NOT_ENOUGH_CORE (close_vol fs v w);
              Some (res, buff, w)
            }
            else do {
              (res, i, buff, v) \<leftarrow> cwd_loop len buff ((new_dir fs)\<lparr>sclust := cdir v\<rparr>) v;
              let (res, tp, buff) =
                (if res = FR_OK then cwd_finish i len (VolumeStr ! unat (CurrVol w)) buff else (res, 0, buff));
              (res, w) \<leftarrow> leave_ff fs res (close_vol fs v w);
              Some (res, buff[tp := 0], w)
            }
     }"

section \<open>Directory objects\<close>

definition f_opendir :: "DIR \<Rightarrow> BYTE list \<Rightarrow> world \<Rightarrow> (FRESULT \<times> DIR \<times> world) option" where
  "f_opendir dp path w =
     do {
       (res, fs, path, w) \<leftarrow> mount_volume path 0 w;
       if res \<noteq> FR_OK then do {
         (res, w) \<leftarrow> leave_ff fs res w;
         Some (res, dp\<lparr>obj_fs := 0\<rparr>, w)
       } else
         let dp = dp\<lparr>obj_fs := fs\<rparr>; (got, v) = init_nambuf (open_vol fs w)
         in if \<not> got then do {
              (res, w) \<leftarrow> leave_ff fs FR_NOT_ENOUGH_CORE (close_vol fs v w);
              Some (res, dp, w)
            }
            else do {
              (res, dp, v) \<leftarrow> follow_path path dp v;
              (res, dp, v) \<leftarrow>
                (if res = FR_OK then
                   let (res, dp) =
                         (if fn dp ! NSFLAG AND NS_NONAME = 0 then
                            if obj_attr dp AND AM_DIR \<noteq> 0
                            then (res, dp\<lparr>sclust := ld_clust (fs_type v) (win v) (dir dp)\<rparr>)
                            else (FR_NO_PATH, dp)
                          else (res, dp))
                   in if res = FR_OK then dir_sdi 0 (dp\<lparr>obj_id := fs_id v\<rparr>) v else Some (res, dp, v)
                 else Some (res, dp, v));
              let res = (if res = FR_NO_FILE then FR_NO_PATH else res);
              let dp = (if res \<noteq> FR_OK then dp\<lparr>obj_fs := 0\<rparr> else dp);
              (res, w) \<leftarrow> leave_ff fs res (close_vol fs v w);
              Some (res, dp, w)
            }
     }"

definition f_closedir :: "DIR \<Rightarrow> world \<Rightarrow> (FRESULT \<times> DIR \<times> world) option" where
  "f_closedir dp w =
     do {
       (res, fs, w) \<leftarrow> validate dp w;
       if res = FR_OK then do {
         w \<leftarrow> unlock_volume fs FR_OK w;
         Some (res, dp\<lparr>obj_fs := 0\<rparr>, w)
       } else Some (res, dp, w)
     }"

text \<open>A null \<^verbatim>\<open>fno\<close> rewinds the object.\<close>

definition f_readdir :: "DIR \<Rightarrow> FILINFO option \<Rightarrow> world \<Rightarrow> (FRESULT \<times> DIR \<times> FILINFO option \<times> world) option" where
  "f_readdir dp fno w =
     do {
       (res, fs, w) \<leftarrow> validate dp w;
       if res \<noteq> FR_OK then do {
         (res, w) \<leftarrow> leave_ff fs res w;
         Some (res, dp, fno, w)
       } else
         case fno of
           None \<Rightarrow> do {
             (res, dp, v) \<leftarrow> dir_sdi 0 dp (open_vol fs w);
             (res, w) \<leftarrow> leave_ff fs res (close_vol fs v w);
             Some (res, dp, fno, w)
           }
         | Some info \<Rightarrow>
             let (got, v) = init_nambuf (open_vol fs w)
             in if \<not> got then do {
                  (res, w) \<leftarrow> leave_ff fs FR_NOT_ENOUGH_CORE (close_vol fs v w);
                  Some (res, dp, fno, w)
                }
                else do {
                  (res, dp, v) \<leftarrow> dir_read False dp v;
                  let res = (if res = FR_NO_FILE then FR_OK else res);
                  (res, dp, info, v) \<leftarrow>
                    (if res = FR_OK then do {
                       let info = get_fileinfo dp v info;
                       (res, dp, v) \<leftarrow> dir_next False dp v;
                       Some (if res = FR_NO_FILE then FR_OK else res, dp, info, v)
                     } else Some (res, dp, info, v));
                  (res, w) \<leftarrow> leave_ff fs res (close_vol fs v w);
                  Some (res, dp, Some info, w)
                }
     }"

partial_function (option) f_findnext ::
    "DIR \<Rightarrow> FILINFO option \<Rightarrow> world \<Rightarrow> (FRESULT \<times> DIR \<times> FILINFO option \<times> world) option" where
  "f_findnext dp fno w =
     do {
       (res, dp, fno, w) \<leftarrow> f_readdir dp fno w;
       case fno of
         None \<Rightarrow> Some (res, dp, fno, w)
       | Some info \<Rightarrow>
           if res \<noteq> FR_OK \<or> fname info ! 0 = 0 then Some (res, dp, fno, w)
           else if pattern_match FIND_RECURS (pat dp) (cstr (fname info)) 0 then Some (res, dp, fno, w)
           else if pattern_match FIND_RECURS (pat dp) (cstr (altname info)) 0 then Some (res, dp, fno, w)
           else f_findnext dp fno w
     }"

definition f_findfirst ::
    "DIR \<Rightarrow> FILINFO option \<Rightarrow> BYTE list \<Rightarrow> BYTE list \<Rightarrow> world \<Rightarrow> (FRESULT \<times> DIR \<times> FILINFO option \<times> world) option" where
  "f_findfirst dp fno path pattern w =
     do {
       (res, dp, w) \<leftarrow> f_opendir (dp\<lparr>pat := pattern\<rparr>) path w;
       if res = FR_OK then f_findnext dp fno w else Some (res, dp, fno, w)
     }"

section \<open>File status\<close>

definition stat_body :: "FILINFO option \<Rightarrow> FRESULT \<Rightarrow> DIR \<Rightarrow> vol \<Rightarrow> (FRESULT \<times> FILINFO option \<times> vol) option" where
  "stat_body fno res dj v =
     Some (if res = FR_OK then
             if fn dj ! NSFLAG AND NS_NONAME \<noteq> 0 then (FR_INVALID_NAME, fno, v)
             else (res, map_option (get_fileinfo dj v) fno, v)
           else (res, fno, v))"

definition f_stat :: "BYTE list \<Rightarrow> FILINFO option \<Rightarrow> world \<Rightarrow> (FRESULT \<times> FILINFO option \<times> world) option" where
  "f_stat path fno w = with_path path 0 (stat_body fno) fno w"

section \<open>Deleting\<close>

text \<open>The check that a sub-directory may be removed.\<close>

definition unlink_dir :: "DWORD \<Rightarrow> nat \<Rightarrow> vol \<Rightarrow> (FRESULT \<times> vol) option" where
  "unlink_dir dclst fs v =
     (if dclst = cdir v then Some (FR_DENIED, v)
      else do {
        (res, sdj, v) \<leftarrow> dir_sdi 0 ((new_dir fs)\<lparr>sclust := dclst\<rparr>) v;
        if res = FR_OK then do {
          (res, sdj, v) \<leftarrow> dir_read False sdj v;
          let res = (if res = FR_OK then FR_DENIED else res);
          Some (if res = FR_NO_FILE then FR_OK else res, v)
        } else Some (res, v)
      })"

definition unlink_body :: "FRESULT \<Rightarrow> DIR \<Rightarrow> vol \<Rightarrow> (FRESULT \<times> unit \<times> vol) option" where
  "unlink_body res dj v =
     (let res = (if res = FR_OK \<and> fn dj ! NSFLAG AND NS_DOT \<noteq> 0 then FR_INVALID_NAME else res)
      in if res \<noteq> FR_OK then Some (res, (), v)
         else
           let res = (if fn dj ! NSFLAG AND NS_NONAME \<noteq> 0 then FR_INVALID_NAME
                      else if obj_attr dj AND AM_RDO \<noteq> 0 then FR_DENIED else res)
           in do {
             (res, dclst, v) \<leftarrow>
               (if res = FR_OK then
                  let dclst = ld_clust (fs_type v) (win v) (dir dj)
                  in if obj_attr dj AND AM_DIR \<noteq> 0 then do {
                       (res, v) \<leftarrow> unlink_dir dclst (obj_fs dj) v;
                       Some (res, dclst, v)
                     } else Some (res, dclst, v)
                else Some (res, 0, v));
             if res = FR_OK then do {
               (res, dj, v) \<leftarrow> dir_remove dj v;
               (res, v) \<leftarrow> (if res = FR_OK \<and> dclst \<noteq> 0 then remove_chain dclst 0 v else Some (res, v));
               if res = FR_OK then let (res, v) = sync_fs v in Some (res, (), v) else Some (res, (), v)
             } else Some (res, (), v)
           })"

definition f_unlink :: "BYTE list \<Rightarrow> world \<Rightarrow> (FRESULT \<times> unit \<times> world) option" where
  "f_unlink path w = with_path path FA_WRITE unlink_body () w"

section \<open>Creating a directory\<close>

text \<open>The entries of the directory itself and of its parent, in a cleared window.\<close>

definition dot_entries :: "BYTE \<Rightarrow> DWORD \<Rightarrow> DWORD \<Rightarrow> DWORD \<Rightarrow> BYTE list \<Rightarrow> BYTE list" where
  "dot_entries fstype dcl pcl tm w =
     (let w = memset 0 0x20 11 w;
          w = w[0 := 0x2E];
          w = w[11 := AM_DIR];
          w = st_dword 22 tm w;
          w = st_clust fstype 0 dcl w;
          w = memcpy 32 (slice 0 32 w) w;
          w = w[33 := 0x2E]
      in st_clust fstype 32 pcl w)"

definition mkdir_new :: "DWORD \<Rightarrow> DWORD \<Rightarrow> DIR \<Rightarrow> vol \<Rightarrow> (FRESULT \<times> DIR \<times> vol) option" where
  "mkdir_new dcl tm dj v =
     do {
       (res, v) \<leftarrow> dir_clear dcl v;
       if res = FR_OK then
         dir_register dj (v\<lparr>win := dot_entries (fs_type v) dcl (sclust dj) tm (win v), wflag := 1\<rparr>)
       else Some (res, dj, v)
     }"

definition mkdir_body :: "FRESULT \<Rightarrow> DIR \<Rightarrow> vol \<Rightarrow> (FRESULT \<times> unit \<times> vol) option" where
  "mkdir_body res dj v =
     (let res = (if res = FR_OK then FR_EXIST else res);
          res = (if res = FR_NO_FILE \<and> fn dj ! NSFLAG AND NS_DOT \<noteq> 0 then FR_INVALID_NAME else res)
      in if res = FR_NO_FILE then do {
           (dcl, v) \<leftarrow> create_chain 0 v;
           let res = (if dcl = 0 then FR_DENIED else if dcl = 1 then FR_INT_ERR
                      else if dcl = 0xFFFFFFFF then FR_DISK_ERR else FR_OK);
           let tm = get_fattime v;
           (res, dj, v) \<leftarrow> (if res = FR_OK then mkdir_new dcl tm dj v else Some (res, dj, v));
           if res = FR_OK then
             let w = st_dword (dir dj + 22) tm (win v);
                 w = st_clust (fs_type v) (dir dj) dcl w;
                 w = w[dir dj + 11 := AM_DIR];
                 (res, v) = sync_fs (v\<lparr>win := w, wflag := 1\<rparr>)
             in Some (res, (), v)
           else do {
             (r, v) \<leftarrow> remove_chain dcl 0 v;
             Some (res, (), v)
           }
         }
         else Some (res, (), v))"

definition f_mkdir :: "BYTE list \<Rightarrow> world \<Rightarrow> (FRESULT \<times> unit \<times> world) option" where
  "f_mkdir path w = with_path path FA_WRITE mkdir_body () w"

section \<open>Renaming\<close>

text \<open>The new entry takes over everything but the name; a moved directory gets a new parent.\<close>

definition rename_entry :: "BYTE list \<Rightarrow> DIR \<Rightarrow> DIR \<Rightarrow> vol \<Rightarrow> FRESULT \<times> vol" where
  "rename_entry ent djo djn v =
     (let k = dir djn; w = memcpy (k + 13) (drop 13 ent) (win v);
          w = w[k + 11 := ent ! 11];
          w = (if w ! (k + 11) AND AM_DIR = 0 then w[k + 11 := w ! (k + 11) OR AM_ARC] else w);
          v = v\<lparr>win := w, wflag := 1\<rparr>
      in if w ! (k + 11) AND AM_DIR \<noteq> 0 \<and> sclust djo \<noteq> sclust djn then
           let sc = clst2sect (ld_clust (fs_type v) w k) v
           in if sc = 0 then (FR_INT_ERR, v)
              else
                let (res, v) = move_window sc v
                in if res = FR_OK \<and> win v ! 33 = 0x2E
                   then (res, v\<lparr>win := st_clust (fs_type v) 32 (sclust djn) (win v), wflag := 1\<rparr>)
                   else (res, v)
         else (FR_OK, v))"

definition rename_body :: "BYTE list \<Rightarrow> FRESULT \<Rightarrow> DIR \<Rightarrow> vol \<Rightarrow> (FRESULT \<times> unit \<times> vol) option" where
  "rename_body path_new res djo v =
     (let res = (if res = FR_OK \<and> fn djo ! NSFLAG AND (NS_DOT OR NS_NONAME) \<noteq> 0 then FR_INVALID_NAME else res)
      in if res \<noteq> FR_OK then Some (res, (), v)
         else
           let ent = slice (dir djo) 32 (win v)
           in do {
             (res, djn, v) \<leftarrow> follow_path path_new djo v;
             let res = (if res = FR_OK then
                          if sclust djn = sclust djo \<and> dptr djn = dptr djo then FR_NO_FILE else FR_EXIST
                        else res);
             (res, v) \<leftarrow>
               (if res = FR_NO_FILE then do {
                  (res, djn, v) \<leftarrow> dir_register djn v;
                  if res = FR_OK then Some (rename_entry ent djo djn v) else Some (res, v)
                } else Some (res, v));
             if res = FR_OK then do {
               (res, djo, v) \<leftarrow> dir_remove djo v;
               if res = FR_OK then let (res, v) = sync_fs v in Some (res, (), v) else Some (res, (), v)
             } else Some (res, (), v)
           })"

definition f_rename :: "BYTE list \<Rightarrow> BYTE list \<Rightarrow> world \<Rightarrow> (FRESULT \<times> unit \<times> world) option" where
  "f_rename path_old path_new w =
     (let (vl, path_new) = get_ldnumber path_new w
      in with_path path_old FA_WRITE (rename_body path_new) () w)"

section \<open>Attributes and time stamps\<close>

abbreviation (input) AM_HID :: BYTE where "AM_HID \<equiv> 0x02"
abbreviation (input) AM_SYS :: BYTE where "AM_SYS \<equiv> 0x04"

definition entry_check :: "FRESULT \<Rightarrow> DIR \<Rightarrow> FRESULT" where
  "entry_check res dj =
     (if res = FR_OK \<and> fn dj ! NSFLAG AND (NS_DOT OR NS_NONAME) \<noteq> 0 then FR_INVALID_NAME else res)"

definition chmod_body :: "BYTE \<Rightarrow> BYTE \<Rightarrow> FRESULT \<Rightarrow> DIR \<Rightarrow> vol \<Rightarrow> (FRESULT \<times> unit \<times> vol) option" where
  "chmod_body attr msk res dj v =
     (let res = entry_check res dj
      in if res = FR_OK then
           let msk = msk AND (AM_RDO OR AM_HID OR AM_SYS OR AM_ARC); k = dir dj + 11;
               w = (win v)[k := (attr AND msk) OR (win v ! k AND NOT msk)];
               (res, v) = sync_fs (v\<lparr>win := w, wflag := 1\<rparr>)
           in Some (res, (), v)
         else Some (res, (), v))"

definition f_chmod :: "BYTE list \<Rightarrow> BYTE \<Rightarrow> BYTE \<Rightarrow> world \<Rightarrow> (FRESULT \<times> unit \<times> world) option" where
  "f_chmod path attr msk w = with_path path FA_WRITE (chmod_body attr msk) () w"

definition utime_body :: "FILINFO \<Rightarrow> FRESULT \<Rightarrow> DIR \<Rightarrow> vol \<Rightarrow> (FRESULT \<times> unit \<times> vol) option" where
  "utime_body fno res dj v =
     (let res = entry_check res dj
      in if res = FR_OK then
           let w = st_dword (dir dj + 22) (push_bit 16 (ucast (fdate fno)) OR ucast (ftime fno)) (win v);
               (res, v) = sync_fs (v\<lparr>win := w, wflag := 1\<rparr>)
           in Some (res, (), v)
         else Some (res, (), v))"

definition f_utime :: "BYTE list \<Rightarrow> FILINFO \<Rightarrow> world \<Rightarrow> (FRESULT \<times> unit \<times> world) option" where
  "f_utime path fno w = with_path path FA_WRITE (utime_body fno) () w"

end
