(* ===== verification/FatStr.thy ===== *)
theory FatStr
  imports FatFile
begin

text \<open>
  The string functions of \<^verbatim>\<open>ff.c\<close>: \<open>f_gets\<close>, the buffered output of \<open>f_putc\<close> and \<open>f_puts\<close>, and \<open>f_printf\<close>.
  The variable arguments of \<open>f_printf\<close> are a list; fetching one that is missing or of another type is
  undefined in C and gives \<open>None\<close>.
\<close>

section \<open>Reading a line\<close>

text \<open>The characters stored so far in order; the loop ends at the end of file, a newline or a full buffer.\<close>

partial_function (option) gets_loop :: "int \<Rightarrow> BYTE list \<Rightarrow> FIL \<Rightarrow> world \<Rightarrow> (BYTE list \<times> FIL \<times> world) option" where
  "gets_loop len acc fp w =
     (if int (length acc) < len then do {
        (res, s, fp, w) \<leftarrow> f_read fp 1 w;
        if length s \<noteq> 1 then Some (acc, fp, w)
        else
          let dc = hd s; acc = acc @ [dc]
          in if dc = 0x0A then Some (acc, fp, w) else gets_loop len acc fp w
      } else Some (acc, fp, w))"

text \<open>\<open>None\<close> inside the result is the null pointer.\<close>

definition f_gets :: "int \<Rightarrow> FIL \<Rightarrow> world \<Rightarrow> (BYTE list option \<times> FIL \<times> world) option" where
  "f_gets len fp w =
     do {
       (s, fp, w) \<leftarrow> gets_loop (len - 1) [] fp w;
       Some (if s \<noteq> [] then Some s else None, fp, w)
     }"

section \<open>Buffered output\<close>

record putbuff =
  pb_fp :: FIL
  idx :: int
  nchr :: int
  pb_buf :: "BYTE list"

definition putc_init :: "FIL \<Rightarrow> putbuff" where
  "putc_init fp = \<lparr>pb_fp = fp, idx = 0, nchr = 0, pb_buf = replicate 64 0\<rparr>"

definition putc_bfd :: "BYTE \<Rightarrow> putbuff \<Rightarrow> world \<Rightarrow> (putbuff \<times> world) option" where
  "putc_bfd c pb w =
     (let i = idx pb
      in if i < 0 then Some (pb, w)
         else
           let nc = nchr pb; pb = pb\<lparr>pb_buf := (pb_buf pb)[nat i := c]\<rparr>; i = i + 1
           in do {
             (i, pb, w) \<leftarrow>
               (if i \<ge> 64 - 4 then do {
                  (res, n, fp, w) \<leftarrow> f_write (pb_fp pb) (pb_buf pb) (of_int i) w;
                  Some (if n = of_int i then 0 else -1, pb\<lparr>pb_fp := fp\<rparr>, w)
                } else Some (i, pb, w));
             Some (pb\<lparr>idx := i, nchr := nc + 1\<rparr>, w)
           })"

definition putc_flush :: "putbuff \<Rightarrow> world \<Rightarrow> (int \<times> FIL \<times> world) option" where
  "putc_flush pb w =
     (if idx pb \<ge> 0 then do {
        (res, nw, fp, w) \<leftarrow> f_write (pb_fp pb) (pb_buf pb) (of_int (idx pb)) w;
        Some (if res = FR_OK \<and> of_int (idx pb) = nw then nchr pb else -1, fp, w)
      } else Some (-1, pb_fp pb, w))"

definition f_putc :: "BYTE \<Rightarrow> FIL \<Rightarrow> world \<Rightarrow> (int \<times> FIL \<times> world) option" where
  "f_putc c fp w = do { (pb, w) \<leftarrow> putc_bfd c (putc_init fp) w; putc_flush pb w }"

primrec put_string :: "BYTE list \<Rightarrow> putbuff \<Rightarrow> world \<Rightarrow> (putbuff \<times> world) option" where
  "put_string [] pb w = Some (pb, w)"
| "put_string (c # cs) pb w = do { (pb, w) \<leftarrow> putc_bfd c pb w; put_string cs pb w }"

definition f_puts :: "BYTE list \<Rightarrow> FIL \<Rightarrow> world \<Rightarrow> (int \<times> FIL \<times> world) option" where
  "f_puts str fp w = do { (pb, w) \<leftarrow> put_string str (putc_init fp) w; putc_flush pb w }"

section \<open>Formatted output\<close>

datatype va = VInt DWORD | VLong DWORD | VStr "BYTE list option"

definition va_int :: "va list \<Rightarrow> (DWORD \<times> va list) option" where
  "va_int arp = (case arp of VInt x # arp \<Rightarrow> Some (x, arp) | _ \<Rightarrow> None)"

definition va_long :: "va list \<Rightarrow> (DWORD \<times> va list) option" where
  "va_long arp = (case arp of VLong x # arp \<Rightarrow> Some (x, arp) | _ \<Rightarrow> None)"

definition va_str :: "va list \<Rightarrow> (BYTE list option \<times> va list) option" where
  "va_str arp = (case arp of VStr x # arp \<Rightarrow> Some (x, arp) | _ \<Rightarrow> None)"

text \<open>A number in decimal digits, from the character \<open>tc\<close> on: number, stopping character, rest.\<close>

fun fmt_digits :: "DWORD \<Rightarrow> BYTE \<Rightarrow> BYTE list \<Rightarrow> DWORD \<times> BYTE \<times> BYTE list" where
  "fmt_digits w tc [] = (if IsDigit (ucast tc) then (w * 10 + ucast tc - 0x30, 0, []) else (w, tc, []))"
| "fmt_digits w tc (c # fmt) =
     (if IsDigit (ucast tc) then fmt_digits (w * 10 + ucast tc - 0x30) c fmt else (w, tc, c # fmt))"

text \<open>A conversion: flags, padding, width, precision and the conversion character.\<close>

record spec =
  sp_f :: DWORD
  sp_pad :: BYTE
  sp_w :: DWORD
  sp_prec :: "32 word"
  sp_tc :: BYTE

definition fmt_spec :: "BYTE list \<Rightarrow> va list \<Rightarrow> (spec \<times> BYTE list \<times> va list) option" where
  "fmt_spec fmt arp =
     do {
       let (tc, fmt) = (peek fmt, tl fmt);
       let (f, pad, tc, fmt) =
         (if tc = 0x30 then (0, 0x30, peek fmt, tl fmt)
          else if tc = 0x2D then (2, 0x20, peek fmt, tl fmt)
          else (0, 0x20, tc, fmt));
       (w, tc, fmt, arp) \<leftarrow>
         (if tc = 0x2A then do { (x, arp) \<leftarrow> va_int arp; Some (x, peek fmt, tl fmt, arp) }
          else let (w, tc, fmt) = fmt_digits 0 tc fmt in Some (w, tc, fmt, arp));
       (prec, tc, fmt, arp) \<leftarrow>
         (if tc = 0x2E then
            let (tc, fmt) = (peek fmt, tl fmt)
            in if tc = 0x2A then do { (x, arp) \<leftarrow> va_int arp; Some (x, peek fmt, tl fmt, arp) }
               else let (prec, tc, fmt) = fmt_digits 0 tc fmt in Some (prec, tc, fmt, arp)
          else Some (-1, tc, fmt, arp));
       let (f, tc, fmt) = (if tc = 0x6C then (f OR 4, peek fmt, tl fmt) else (f, tc, fmt));
       Some (\<lparr>sp_f = f, sp_pad = pad, sp_w = w, sp_prec = prec, sp_tc = tc\<rparr>, fmt, arp)
     }"

text \<open>Padding while \<open>j < w\<close>: the final \<open>j\<close>.\<close>

partial_function (option) put_pads ::
    "BYTE \<Rightarrow> DWORD \<Rightarrow> DWORD \<Rightarrow> putbuff \<Rightarrow> world \<Rightarrow> (DWORD \<times> putbuff \<times> world) option" where
  "put_pads c j w pb wd =
     (if j < w then do { (pb, wd) \<leftarrow> putc_bfd c pb wd; put_pads c (j + 1) w pb wd } else Some (j, pb, wd))"

text \<open>\<^verbatim>\<open>while (*tp && prec--)\<close>.\<close>

fun put_body :: "BYTE list \<Rightarrow> DWORD \<Rightarrow> putbuff \<Rightarrow> world \<Rightarrow> (putbuff \<times> world) option" where
  "put_body [] prec pb wd = Some (pb, wd)"
| "put_body (c # tp) prec pb wd =
     (if prec = 0 then Some (pb, wd)
      else do { (pb, wd) \<leftarrow> putc_bfd c pb wd; put_body tp (prec - 1) pb wd })"

definition put_str :: "spec \<Rightarrow> BYTE list \<Rightarrow> putbuff \<Rightarrow> world \<Rightarrow> (putbuff \<times> world) option" where
  "put_str sp tp pb wd =
     do {
       let j = of_nat (length tp);
       let j = (if 0 \<le>s sp_prec sp \<and> j > sp_prec sp then sp_prec sp else j);
       (j, pb, wd) \<leftarrow> (if sp_f sp AND 2 = 0 then put_pads (sp_pad sp) j (sp_w sp) pb wd else Some (j, pb, wd));
       (pb, wd) \<leftarrow> put_body tp (sp_prec sp) pb wd;
       (j, pb, wd) \<leftarrow> put_pads 0x20 j (sp_w sp) pb wd;
       Some (pb, wd)
     }"

text \<open>The digits of a number, least significant first, at most 32 of them.\<close>

function num_digits :: "BYTE \<Rightarrow> DWORD \<Rightarrow> DWORD \<Rightarrow> BYTE list \<Rightarrow> BYTE list" where
  "num_digits tc r v str =
     (let d = ucast (v mod r); v = v div r;
          d = (if d > 9 then d + (if tc = 0x78 then 0x27 else 0x07) else d);
          str = str @ [d + 0x30]
      in if v \<noteq> 0 \<and> length str < 32 then num_digits tc r v str else str)"
  by pat_completeness auto
termination
  by (relation "measure (\<lambda>(tc, r, v, str). 32 - length str)") auto

declare num_digits.simps [simp del]

definition put_num :: "spec \<Rightarrow> DWORD \<Rightarrow> DWORD \<Rightarrow> putbuff \<Rightarrow> world \<Rightarrow> (putbuff \<times> world) option" where
  "put_num sp r v pb wd =
     do {
       let neg = (sp_tc sp = 0x64 \<and> v AND 0x80000000 \<noteq> 0);
       let str = num_digits (sp_tc sp) r (if neg then 0 - v else v) [];
       let str = (if neg then str @ [0x2D] else str);
       let j = of_nat (length str);
       (j, pb, wd) \<leftarrow> (if sp_f sp AND 2 = 0 then put_pads (sp_pad sp) j (sp_w sp) pb wd else Some (j, pb, wd));
       (pb, wd) \<leftarrow> put_string (rev str) pb wd;
       (j, pb, wd) \<leftarrow> put_pads 0x20 j (sp_w sp) pb wd;
       Some (pb, wd)
     }"

text \<open>The radix of a conversion character, 0 for the other ones.\<close>

definition fmt_radix :: "BYTE \<Rightarrow> DWORD" where
  "fmt_radix tc =
     (if tc = 0x62 then 2 else if tc = 0x6F then 8
      else if tc = 0x64 \<or> tc = 0x75 then 10
      else if tc = 0x78 \<or> tc = 0x58 then 16 else 0)"

text \<open>One conversion after its specification has been read.\<close>

definition put_conv :: "spec \<Rightarrow> va list \<Rightarrow> putbuff \<Rightarrow> world \<Rightarrow> (va list \<times> putbuff \<times> world) option" where
  "put_conv sp arp pb wd =
     (let tc = sp_tc sp; r = fmt_radix tc
      in if r \<noteq> 0 then do {
           (v, arp) \<leftarrow> (if sp_f sp AND 4 \<noteq> 0 then va_long arp else va_int arp);
           (pb, wd) \<leftarrow> put_num sp r v pb wd;
           Some (arp, pb, wd)
         }
         else if tc = 0x63 then do {
           (c, arp) \<leftarrow> va_int arp;
           (pb, wd) \<leftarrow> putc_bfd (ucast c) pb wd;
           Some (arp, pb, wd)
         }
         else if tc = 0x73 then do {
           (s, arp) \<leftarrow> va_str arp;
           (pb, wd) \<leftarrow> put_str sp (case s of None \<Rightarrow> [] | Some tp \<Rightarrow> tp) pb wd;
           Some (arp, pb, wd)
         }
         else do {
           (pb, wd) \<leftarrow> putc_bfd tc pb wd;
           Some (arp, pb, wd)
         })"

partial_function (option) printf_loop ::
    "BYTE list \<Rightarrow> va list \<Rightarrow> putbuff \<Rightarrow> world \<Rightarrow> (putbuff \<times> world) option" where
  "printf_loop fmt arp pb wd =
     (let tc = peek fmt; fmt = tl fmt
      in if tc = 0 then Some (pb, wd)
         else if tc \<noteq> 0x25 then do {
           (pb, wd) \<leftarrow> putc_bfd tc pb wd;
           printf_loop fmt arp pb wd
         }
         else do {
           (sp, fmt, arp) \<leftarrow> fmt_spec fmt arp;
           if sp_tc sp = 0 then Some (pb, wd)
           else do {
             (arp, pb, wd) \<leftarrow> put_conv sp arp pb wd;
             printf_loop fmt arp pb wd
           }
         })"

definition f_printf :: "FIL \<Rightarrow> BYTE list \<Rightarrow> va list \<Rightarrow> world \<Rightarrow> (int \<times> FIL \<times> world) option" where
  "f_printf fp fmt arp wd = do { (pb, wd) \<leftarrow> printf_loop fmt arp (putc_init fp) wd; putc_flush pb wd }"

end
