(* ===== verification/FatMountProps.thy ===== *)
theory FatMountProps
  imports FatMount FatExample
begin

text \<open>
  What mounting establishes: a boot sector that \<open>mount_bpb\<close> accepts gives the geometry \<open>vol_ok\<close> that the
  rest of the development assumes, provided the areas it announces fit into 32-bit sector numbers.
  The code does not check the latter.
\<close>

section \<open>The fields of a boot sector\<close>

definition bpb_fatsz :: "BYTE list \<Rightarrow> DWORD" where
  "bpb_fatsz p = (if ld_word p 22 = 0 then ld_dword p 36 else ucast (ld_word p 22))"

definition bpb_tsect :: "BYTE list \<Rightarrow> DWORD" where
  "bpb_tsect p = (if ld_word p 19 = 0 then ld_dword p 32 else ucast (ld_word p 19))"

text \<open>The reserved, FAT and root directory sectors, in exact arithmetic and as the code computes them.\<close>

definition bpb_sys_nat :: "BYTE list \<Rightarrow> nat" where
  "bpb_sys_nat p =
     unat (ld_word p 14) + unat (bpb_fatsz p) * unat (p ! 16) + unat (ld_word p 17) div 16"

definition bpb_sysect :: "BYTE list \<Rightarrow> DWORD" where
  "bpb_sysect p = ucast (ld_word p 14) + bpb_fatsz p * ucast (p ! 16) + ucast (ld_word p 17) div 16"

text \<open>The volume fits: the system area into the volume and the volume below the last sector number.\<close>

definition bpb_fits :: "DWORD \<Rightarrow> BYTE list \<Rightarrow> bool" where
  "bpb_fits bsect p \<longleftrightarrow>
     bpb_sys_nat p \<le> unat (bpb_tsect p) \<and> unat bsect + unat (bpb_tsect p) < 2 ^ 32"

definition bpb_nclst :: "BYTE list \<Rightarrow> DWORD" where
  "bpb_nclst p = (bpb_tsect p - bpb_sysect p) div ucast (ucast (p ! 13) :: WORD)"

definition bpb_szfat :: "BYTE list \<Rightarrow> DWORD" where
  "bpb_szfat p =
     (let n = bpb_nclst p + 2; fmt = fat_type (bpb_nclst p)
      in if fmt = FS_FAT32 then n * 4 else if fmt = FS_FAT16 then n * 2 else n * 3 div 2 + (n AND 1))"

lemma unat_ucast_up [simp]:
  "unat (ucast (x :: BYTE) :: WORD) = unat x" "unat (ucast (x :: BYTE) :: DWORD) = unat x"
  "unat (ucast (y :: WORD) :: DWORD) = unat y"
  by (simp_all add: unsigned_ucast_eq take_bit_nat_eq_self_iff
      less_le_trans [OF unsigned_less [of x]] less_le_trans [OF unsigned_less [of y]])

lemma ucast_eq_0 [simp]: "(ucast (x :: WORD) :: DWORD) = 0 \<longleftrightarrow> x = 0" "(ucast (y :: BYTE) :: WORD) = 0 \<longleftrightarrow> y = 0"
  by (simp_all add: unat_eq_iff [symmetric])

lemma load_fsinfo_geom:
  assumes "wf_win v"
  shows "gframe v (load_fsinfo fmt bsect v)" "wf_win (load_fsinfo fmt bsect v)"
proof -
  define u where "u = v\<lparr>last_clst := 0xFFFFFFFF, free_clst := 0xFFFFFFFF, fsi_flag := 0x80\<rparr>"
  have u: "gframe v u" "wf_win u" using assms by (simp_all add: u_def gframe_iff)
  obtain r w where m: "move_window (bsect + 1) u = (r, w)" by (cases "move_window (bsect + 1) u")
  note mw = movesD(1,2) [OF move_window_spec(1) [OF u(2) m]]
  have "load_fsinfo fmt bsect v \<in> {u, w, w\<lparr>fsi_flag := 0\<rparr>,
      w\<lparr>fsi_flag := 0, free_clst := ld_dword (win w) 488, last_clst := ld_dword (win w) 492\<rparr>}"
    using m by (simp add: load_fsinfo_def u_def [symmetric] Let_def)
  moreover have "gframe v w" using gframe_trans [OF u(1) wframe_gframe [OF mw(1)]] .
  then have "gframe v (w\<lparr>fsi_flag := 0\<rparr>)"
    "gframe v (w\<lparr>fsi_flag := 0, free_clst := ld_dword (win w) 488, last_clst := ld_dword (win w) 492\<rparr>)"
    by (simp_all add: gframe_iff)
  ultimately show "gframe v (load_fsinfo fmt bsect v)" "wf_win (load_fsinfo fmt bsect v)"
    using u mw \<open>gframe v w\<close> by auto
qed

definition bpb_core :: "DWORD \<Rightarrow> vol \<Rightarrow> BYTE \<Rightarrow> vol \<Rightarrow> bool" where
  "bpb_core bsect v fmt v' \<longleftrightarrow>
     (let p = win v in
        ld_word p 11 = 512 \<and> (p ! 16 = 1 \<or> p ! 16 = 2) \<and> p ! 13 \<noteq> 0 \<and> bpb_sysect p \<le> bpb_tsect p \<and>
        bpb_nclst p \<noteq> 0 \<and> fmt = fat_type (bpb_nclst p) \<and> (bpb_szfat p + 511) div 512 \<le> bpb_fatsz p \<and>
        (\<exists>u. v' = load_fsinfo fmt bsect u \<and> volbase u = bsect \<and> pdrv u = pdrv v \<and>
          win u = win v \<and> winsect u = winsect v \<and> wflag u = wflag v \<and> dk u = dk v \<and>
          n_fats u = p ! 16 \<and> csize u = ucast (p ! 13) \<and> fsize u = bpb_fatsz p \<and> n_fatent u = bpb_nclst p + 2 \<and>
          fatbase u = bsect + ucast (ld_word p 14) \<and> database u = bsect + bpb_sysect p))"

lemma mount_bpb_core:
  assumes "mount_bpb bsect v = (fmt, v')" "fmt \<noteq> 0"
  shows "bpb_core bsect v fmt v'"
proof -
  define p where "p = win v"
  have f: "(if ucast (ld_word p 22) = (0 :: DWORD) then ld_dword p 36 else ucast (ld_word p 22)) = bpb_fatsz p"
    "(if ucast (ld_word p 19) = (0 :: DWORD) then ld_dword p 32 else ucast (ld_word p 19)) = bpb_tsect p"
    by (simp_all add: bpb_fatsz_def bpb_tsect_def)
  show ?thesis
    using assms unfolding mount_bpb_def Let_def p_def [symmetric] f
    by (auto simp: bpb_core_def Let_def p_def [symmetric] bpb_sysect_def bpb_nclst_def bpb_szfat_def
        split: if_split_asm)
qed

lemma fat_type_cases:
  assumes "fat_type n \<noteq> 0"
  shows "fat_type n \<in> {FS_FAT12, FS_FAT16, FS_FAT32}" "unat n + 2 \<le> max_fatent (fat_type n)"
  using assms by (auto simp: fat_type_def Let_def max_fatent_def word_le_nat_alt split: if_splits)

lemma sysect_exact:
  assumes "bpb_fits bsect p"
  shows "unat (bpb_sysect p) = bpb_sys_nat p"
proof -
  have le: "bpb_sys_nat p < 2 ^ 32" using assms unat_less32 [of "bpb_tsect p"] by (simp add: bpb_fits_def)
  then have m: "unat (bpb_fatsz p) * unat (p ! 16) < 2 ^ 32" by (simp add: bpb_sys_nat_def)
  then have m': "unat (bpb_fatsz p * ucast (p ! 16)) = unat (bpb_fatsz p) * unat (p ! 16)"
    by (simp add: unat_mult_lem [THEN iffD1])
  have d: "unat (ucast (ld_word p 17) div 16 :: DWORD) = unat (ld_word p 17) div 16" by (simp add: unat_div)
  have a: "unat (ucast (ld_word p 14) + bpb_fatsz p * ucast (p ! 16)) =
      unat (ld_word p 14) + unat (bpb_fatsz p) * unat (p ! 16)"
    using m' le by (simp add: unat_plus_if' bpb_sys_nat_def)
  show ?thesis using a d le by (simp add: bpb_sysect_def bpb_sys_nat_def unat_plus_if')
qed

lemma szfat_words:
  fixes m :: DWORD
  assumes "unat m \<le> max_fatent t" "t \<in> {FS_FAT12, FS_FAT16, FS_FAT32}"
  shows "t = FS_FAT32 \<Longrightarrow> unat (m * 4) = unat m * 4 \<and> unat m * 4 < 2 ^ 31"
    and "t = FS_FAT16 \<Longrightarrow> unat (m * 2) = unat m * 2 \<and> unat m * 2 < 2 ^ 31"
    and "t = FS_FAT12 \<Longrightarrow> unat (m * 3 div 2 + (m AND 1)) = unat m * 3 div 2 + unat m mod 2 \<and>
           unat m * 3 div 2 + unat m mod 2 < 2 ^ 31"
proof -
  show "unat (m * 4) = unat m * 4 \<and> unat m * 4 < 2 ^ 31" if "t = FS_FAT32"
    using assms that by (auto simp: max_fatent_def unat_mult_lem [THEN iffD1])
  show "unat (m * 2) = unat m * 2 \<and> unat m * 2 < 2 ^ 31" if "t = FS_FAT16"
    using assms that by (auto simp: max_fatent_def unat_mult_lem [THEN iffD1])
  have odd: "unat (m AND 1) = unat m mod 2" by (simp add: and_one_eq unat_mod)
  show "unat (m * 3 div 2 + (m AND 1)) = unat m * 3 div 2 + unat m mod 2 \<and>
      unat m * 3 div 2 + unat m mod 2 < 2 ^ 31" if "t = FS_FAT12"
  proof -
    have s: "unat m \<le> 0xFF7" using assms that by (auto simp: max_fatent_def)
    then have "unat (m * 3) = unat m * 3" by (simp add: unat_mult_lem [THEN iffD1])
    then have d: "unat (m * 3 div 2) = unat m * 3 div 2" by (simp only: unat_div) simp
    have "unat m * 3 div 2 \<le> 8192" "unat m mod 2 \<le> 1" using s by linarith+
    then have b: "unat m * 3 div 2 + unat m mod 2 < 2 ^ 31" by simp
    then show ?thesis using d odd by (simp add: unat_plus_if')
  qed
qed

text \<open>The size the code requires of the table is the size the entries need.\<close>

lemma szfat_exact:
  assumes "fat_type (bpb_nclst p) = t" "t \<noteq> 0" "fs_type v = t" "n_fatent v = bpb_nclst p + 2"
    and "(bpb_szfat p + 511) div 512 \<le> fsize v"
  shows "unat (n_fatent v) = unat (bpb_nclst p) + 2" "fat_size v \<le> 512 * unat (fsize v)"
proof -
  define n where "n = unat (bpb_nclst p)"
  have mx: "t \<in> {FS_FAT12, FS_FAT16, FS_FAT32}" "n + 2 \<le> max_fatent t"
    using fat_type_cases [of "bpb_nclst p"] assms(1,2) by (auto simp: n_def)
  then have small: "n + 2 < 2 ^ 28" by (auto simp: max_fatent_def)
  then have n2: "unat (bpb_nclst p + 2) = n + 2" by (simp add: unat_plus_if' n_def)
  then show "unat (n_fatent v) = unat (bpb_nclst p) + 2" using assms(4) by (simp add: n_def)
  have sz: "unat (bpb_szfat p) = fat_size v \<and> unat (bpb_szfat p) < 2 ^ 31"
  proof -
    have "unat (bpb_nclst p + 2) \<le> max_fatent t" using mx(2) n2 by simp
    note w = szfat_words [OF this mx(1)]
    consider "t = FS_FAT12" | "t = FS_FAT16" | "t = FS_FAT32" using mx(1) by auto
    then show ?thesis
    proof cases
      case 1
      then show ?thesis using w(3) assms(1,3,4) by (simp only: bpb_szfat_def fat_size_def Let_def) simp
    next
      case 2
      then show ?thesis using w(2) assms(1,3,4) by (simp only: bpb_szfat_def fat_size_def Let_def) simp
    next
      case 3
      then show ?thesis using w(1) assms(1,3,4) by (simp only: bpb_szfat_def fat_size_def Let_def) simp
    qed
  qed
  then have "unat (bpb_szfat p + 511) = fat_size v + 511" by (simp add: unat_plus_if')
  then have "(fat_size v + 511) div 512 \<le> unat (fsize v)"
    using assms(5) by (simp add: word_le_nat_alt unat_div)
  then show "fat_size v \<le> 512 * unat (fsize v)" by linarith
qed

lemma mount_bpb_base:
  assumes "wf_win v" "mount_bpb bsect v = (fmt, v')" "fmt \<noteq> 0"
  shows "volbase v' = bsect" "pdrv v' = pdrv v" "wf_win v'"
proof -
  obtain u where u: "v' = load_fsinfo fmt bsect u" "volbase u = bsect" "pdrv u = pdrv v" "win u = win v"
      "winsect u = winsect v" "wflag u = wflag v" "dk u = dk v"
    using mount_bpb_core [OF assms(2,3)] by (auto simp: bpb_core_def Let_def)
  have "wf_win u" using assms(1) u by (simp add: wf_win_def)
  note g = load_fsinfo_geom [OF this, of fmt bsect]
  show "volbase v' = bsect" "pdrv v' = pdrv v" "wf_win v'"
    using gframe_fields [OF g(1)] g(2) u by simp_all
qed

lemma mount_bpb_vol_ok:
  assumes wf: "wf_win v" and mb: "mount_bpb bsect v = (fmt, v')" "fmt \<noteq> 0" and fits: "bpb_fits bsect (win v)"
  shows "vol_ok (v'\<lparr>fs_type := fmt\<rparr>)" and "wf_win v'"
proof -
  define p where "p = win v"
  obtain u where u: "v' = load_fsinfo fmt bsect u" "volbase u = bsect" "pdrv u = pdrv v" "win u = win v" "winsect u = winsect v" "wflag u = wflag v"
      "dk u = dk v" "n_fats u = p ! 16" "csize u = ucast (p ! 13)" "fsize u = bpb_fatsz p"
      "n_fatent u = bpb_nclst p + 2" "fatbase u = bsect + ucast (ld_word p 14)"
      "database u = bsect + bpb_sysect p"
    and c: "p ! 16 = 1 \<or> p ! 16 = 2" "p ! 13 \<noteq> 0" "bpb_sysect p \<le> bpb_tsect p" "bpb_nclst p \<noteq> 0"
      "fmt = fat_type (bpb_nclst p)" "(bpb_szfat p + 511) div 512 \<le> bpb_fatsz p"
    using mount_bpb_core [OF mb] by (auto simp: bpb_core_def Let_def p_def)
  have "wf_win u" using wf u by (simp add: wf_win_def)
  note g = load_fsinfo_geom [OF this, of fmt bsect]
  show "wf_win v'" using g u(1) by simp
  define x where "x = v'\<lparr>fs_type := fmt\<rparr>"
  have x: "fs_type x = fmt" "n_fats x = p ! 16" "csize x = ucast (p ! 13)" "fsize x = bpb_fatsz p"
    "n_fatent x = bpb_nclst p + 2" "fatbase x = bsect + ucast (ld_word p 14)" "database x = bsect + bpb_sysect p"
    using gframe_fields [OF g(1)] u by (simp_all add: x_def)
  note t = fat_type_cases [of "bpb_nclst p", folded c(5), OF mb(2)]
  have n: "unat (n_fatent x) = unat (bpb_nclst p) + 2" and fsz: "fat_size x \<le> 512 * unat (fsize x)"
    using szfat_exact [OF c(5) [symmetric] mb(2) x(1) x(5)] c(6) x(4) by simp_all
  have f: "bpb_sys_nat p \<le> unat (bpb_tsect p)" "unat bsect + unat (bpb_tsect p) < 2 ^ 32"
    using fits by (simp_all add: bpb_fits_def p_def)
  have sys: "unat (bpb_sysect p) = bpb_sys_nat p" using sysect_exact fits by (simp add: p_def)
  have db: "unat (database x) = unat bsect + bpb_sys_nat p" using x(7) sys f by (simp add: unat_plus_if')
  have "unat (ld_word p 14) \<le> bpb_sys_nat p" by (simp add: bpb_sys_nat_def)
  then have fb: "unat (fatbase x) = unat bsect + unat (ld_word p 14)" using x(6) f by (simp add: unat_plus_if')
  have "unat (bpb_nclst p) = (unat (bpb_tsect p) - bpb_sys_nat p) div unat (p ! 13)"
    using c(3) sys by (simp add: bpb_nclst_def unat_div unat_sub)
  then have cl: "unat (p ! 13) * unat (bpb_nclst p) \<le> unat (bpb_tsect p) - bpb_sys_nat p" by simp
  have "unat (bpb_nclst p) \<noteq> 0" using c(4) by (simp add: unat_eq_0)
  moreover have "unat (database x) + unat (csize x) * (unat (n_fatent x) - 2) < 2 ^ 32"
    using db n x(3) cl f by simp
  moreover have "unat (fatbase x) + unat (n_fats x) * unat (fsize x) \<le> unat (database x)"
    using fb db x(2,4) by (simp add: bpb_sys_nat_def mult.commute)
  ultimately have "vol_ok x"
    using t x c n fsz by (simp add: vol_ok_def)
  then show "vol_ok (v'\<lparr>fs_type := fmt\<rparr>)" by (simp add: x_def)
qed

section \<open>Finding the volume\<close>

text \<open>What \<open>check_fs\<close> says of a sector it could load.\<close>

definition fs_verdict :: "BYTE list \<Rightarrow> nat" where
  "fs_verdict b =
     (let s = ld_word b 510; w = ld_word b 11
      in if (b ! 0 = 0xEB \<or> b ! 0 = 0xE9 \<or> b ! 0 = 0xE8) \<and>
            (s = 0xAA55 \<and> slice 82 8 b = FAT32_STR \<or>
             w AND (w - 1) = 0 \<and> w \<ge> 512 \<and> w \<le> 512 \<and> b ! 13 \<noteq> 0 \<and> b ! 13 AND (b ! 13 - 1) = 0 \<and>
             ld_word b 14 \<noteq> 0 \<and> (ucast (b ! 16) :: DWORD) - 1 \<le> 1 \<and> ld_word b 17 \<noteq> 0 \<and>
             (ld_word b 19 \<ge> 128 \<or> ld_dword b 32 \<ge> 0x10000) \<and> ld_word b 22 \<noteq> 0) then 0
         else if s = 0xAA55 then 2 else 3)"

lemma check_fs_verdict:
  assumes "move_window sct (v\<lparr>wflag := 0, winsect := 0 - 1\<rparr>) = (r, v')"
  shows "check_fs sct v = (if r = FR_OK then fs_verdict (win v') else 4, v')"
proof -
  have pull: "(if j then if a then (0, u) else if b then (0, u) else (x, u) else (x, u)) =
      (if j \<and> (a \<or> b) then 0 else x, u)" for j a b and x :: nat and u :: vol
    by simp
  show ?thesis
    unfolding check_fs_def Let_def assms fs_verdict_def prod.case pull by (cases "r = FR_OK") simp_all
qed

lemma load_sector:
  assumes "move_window sct (v\<lparr>wflag := 0, winsect := 0 - 1\<rparr>) = (r, v')"
  shows "wframe v v'" "media (dk v') = media (dk v)" "wflag v' = 0"
    "r = FR_OK \<Longrightarrow> sct \<noteq> DISK_ERR \<Longrightarrow> winsect v' = sct \<and> win v' = media (dk v) (unat sct)"
    "r \<noteq> FR_OK \<or> sct = DISK_ERR \<Longrightarrow> win v' = win v"
proof -
  obtain q bs d where rd: "disk_read (pdrv v) sct 1 (dk v) = (q, bs, d)"
    by (cases "disk_read (pdrv v) sct 1 (dk v)")
  note d = disk_read1 [OF rd]
  have "move_window sct (v\<lparr>wflag := 0, winsect := 0 - 1\<rparr>) =
      (if sct = DISK_ERR \<or> q = RES_OK then FR_OK else FR_DISK_ERR,
       if sct = DISK_ERR then v\<lparr>wflag := 0, winsect := 0 - 1\<rparr>
       else if q = RES_OK then v\<lparr>wflag := 0, dk := d, win := bs, winsect := sct\<rparr>
       else v\<lparr>wflag := 0, dk := d, winsect := 0 - 1\<rparr>)"
    using rd by (simp add: move_window_def sync_window_clean Let_def)
  then have v': "v' = (if sct = DISK_ERR then v\<lparr>wflag := 0, winsect := 0 - 1\<rparr>
      else if q = RES_OK then v\<lparr>wflag := 0, dk := d, win := bs, winsect := sct\<rparr>
      else v\<lparr>wflag := 0, dk := d, winsect := 0 - 1\<rparr>)"
    "r = (if sct = DISK_ERR \<or> q = RES_OK then FR_OK else FR_DISK_ERR)"
    unfolding assms by (simp_all only: prod.inject)
  show "wframe v v'" unfolding wframe_def
  proof (intro conjI vol.equality)
    show "denv (dk v') = denv (dk v)" using v'(1) d by simp
  qed (use v'(1) in simp_all)
  show "media (dk v') = media (dk v)" "wflag v' = 0" using v'(1) d by simp_all
  show "winsect v' = sct \<and> win v' = media (dk v) (unat sct)" if "r = FR_OK" "sct \<noteq> DISK_ERR"
    using v' that d by (auto split: if_splits)
  show "win v' = win v" if "r \<noteq> FR_OK \<or> sct = DISK_ERR"
    using v' that by (cases "sct = DISK_ERR"; cases "q = RES_OK"; simp)
qed

text \<open>The volume found: its boot sector is in the clean window.\<close>

definition found :: "vol \<Rightarrow> nat \<Rightarrow> vol \<Rightarrow> bool" where
  "found v f v' \<longleftrightarrow> wframe v v' \<and> media (dk v') = media (dk v) \<and>
     (if f < 2 then wflag v' = 0 \<and> winsect v' \<noteq> DISK_ERR \<and> win v' = media (dk v) (unat (winsect v')) \<and>
        fs_verdict (win v') = f
      else f = 4 \<or> 2 \<le> fs_verdict (win v'))"

lemma found_trans: "found a f b \<Longrightarrow> found b g c \<Longrightarrow> found a g c"
  using wframe_trans [of a b c] by (auto simp: found_def split: if_splits)

text \<open>
  A partition that starts at sector \<open>0xFFFFFFFF\<close> is looked for in the invalidated window, whose number
  it has: the code examines the previous sector again, and rejects it again.
\<close>

lemma check_fs_found:
  assumes "check_fs sct v = (f, v')" "sct \<noteq> DISK_ERR \<or> 2 \<le> fs_verdict (win v)"
  shows "found v f v'" "2 \<le> f \<Longrightarrow> 2 \<le> fs_verdict (win v) \<Longrightarrow> 2 \<le> fs_verdict (win v')"
    "sct \<noteq> DISK_ERR \<Longrightarrow> f = 2 \<Longrightarrow> 2 \<le> fs_verdict (win v')"
proof -
  obtain r u where m: "move_window sct (v\<lparr>wflag := 0, winsect := 0 - 1\<rparr>) = (r, u)"
    by (cases "move_window sct (v\<lparr>wflag := 0, winsect := 0 - 1\<rparr>)")
  have c: "v' = u" "f = (if r = FR_OK then fs_verdict (win u) else 4)"
    using assms(1) check_fs_verdict [OF m] by simp_all
  note l = load_sector [OF m]
  show "found v f v'" using c l assms(2) by (cases "sct = DISK_ERR") (auto simp: found_def)
  show "2 \<le> fs_verdict (win v')" if "2 \<le> f" "2 \<le> fs_verdict (win v)"
    using that c l(5) by (cases "r = FR_OK") auto
  show "2 \<le> fs_verdict (win v')" if "sct \<noteq> DISK_ERR" "f = 2"
    using that c by (auto split: if_splits)
qed

lemma find_part_found:
  assumes "find_part pt fmt v = (f, v')" "2 \<le> fmt" "2 \<le> fs_verdict (win v)"
  shows "found v f v'"
  using assms
proof (induction pt arbitrary: fmt v)
  case Nil
  then show ?case by (simp add: found_def)
next
  case (Cons s pt)
  obtain g u where c: "(if s \<noteq> 0 then check_fs s v else (3, v)) = (g, u)"
    by (cases "if s \<noteq> 0 then check_fs s v else (3, v)")
  have u: "found v g u" "2 \<le> g \<Longrightarrow> 2 \<le> fs_verdict (win u)"
    using c check_fs_found(1,2) [of s v g u] Cons.prems(3) by (auto simp: found_def split: if_splits)
  show ?case
  proof (cases "2 \<le> g")
    case True
    then have "find_part pt g u = (f, v')" using Cons.prems(1) c by (simp add: Let_def)
    then show ?thesis using found_trans [OF u(1)] Cons.IH True u(2) by blast
  next
    case False
    then have "f = g \<and> v' = u" using Cons.prems(1) c by (simp add: Let_def)
    then show ?thesis using u(1) by simp
  qed
qed

lemma find_volume_found:
  assumes "find_volume v = (f, v')"
  shows "found v f v'"
proof -
  obtain g u where c: "check_fs 0 v = (g, u)" by (cases "check_fs 0 v")
  note u = check_fs_found [OF c]
  show ?thesis
  proof (cases "g = 2")
    case True
    then have "find_part (map (\<lambda>i. ld_dword (win u) (446 + i * 16 + 8)) [0..<4]) g u = (f, v')"
      using assms c by (simp only: find_volume_def Let_def split_def fst_conv snd_conv) simp
    then show ?thesis using found_trans [OF u(1)] find_part_found True u(3) by auto
  next
    case False
    then show ?thesis using assms c u(1) by (simp add: find_volume_def Let_def)
  qed
qed

section \<open>Mounting\<close>

lemma mount_fs_ok:
  assumes "mount_fs mode v = (FR_OK, fmt, v')" "wf_media (dk v)"
  shows "pdrv v' = pdrv v" "wf_win v'"
    and "bpb_fits (volbase v') (media (dk v) (unat (volbase v'))) \<Longrightarrow> vol_ok (v'\<lparr>fs_type := fmt\<rparr>)"
proof -
  obtain st d where i: "disk_initialize (pdrv v) (dk v) = (st, d)" by (cases "disk_initialize (pdrv v) (dk v)")
  have md: "media d = media (dk v)" using i by (auto simp: disk_initialize_def Let_def split: if_splits)
  define u where "u = v\<lparr>fs_type := 0, dk := d\<rparr>"
  obtain f x where fv: "find_volume u = (f, x)" by (cases "find_volume u")
  obtain g y where mb: "mount_bpb (winsect x) x = (g, y)" by (cases "mount_bpb (winsect x) x")
  have r: "f < 2" "g \<noteq> 0" "fmt = g" "v' = y"
    using assms(1) i fv mb by (auto simp: mount_fs_def Let_def u_def split: if_split_asm)
  have x: "wframe u x" "media (dk x) = media (dk v)" "wflag x = 0" "winsect x \<noteq> DISK_ERR"
      "win x = media (dk v) (unat (winsect x))"
    using find_volume_found [OF fv] r(1) md by (simp_all add: found_def u_def)
  then have wf: "wf_win x" using assms(2) by (simp add: wf_win_def wf_media_def)
  note b = mount_bpb_base [OF wf mb r(2)]
  show "pdrv v' = pdrv v" "wf_win v'" using b r(4) wframe_fields [OF x(1)] by (simp_all add: u_def)
  show "vol_ok (v'\<lparr>fs_type := fmt\<rparr>)" if "bpb_fits (volbase v') (media (dk v) (unat (volbase v')))"
    using mount_bpb_vol_ok(1) [OF wf mb r(2)] that b(1) r(3,4) x(5) by simp
qed

lemma open_close_vol: "open_vol fs (close_vol fs v w) = v"
  by (simp add: open_vol_def close_vol_def fatfs.defs vol.defs)

lemma open_vol_fields:
  "pdrv (open_vol fs w) = pdrv (fss w fs)" "fs_type (open_vol fs w) = fs_type (fss w fs)"
  "dk (open_vol fs w) = drives w (unat (pdrv (fss w fs)))"
  by (simp_all add: open_vol_def fatfs.defs vol.defs)


text \<open>A small formatted drive: 128 sectors, two one-sector tables and 124 clusters of one sector.\<close>

definition ex_boot :: "BYTE list" where
  "ex_boot = [0xEB, 0x3C, 0x90, 0, 0, 0, 0, 0, 0, 0, 0, 0, 2, 1, 1, 0, 2, 16, 0, 128, 0, 0xF8, 1, 0] @
     replicate 486 0 @ [0x55, 0xAA]"

definition ex_disk :: "BYTE list \<Rightarrow> ddev" where
  "ex_disk boot = ex_dev\<lparr>media := (media ex_dev)(0 := boot)\<rparr>"

definition ex_world :: "BYTE list \<Rightarrow> world" where
  "ex_world boot = \<lparr>fss = (\<lambda>_. ex_fs\<lparr>fs_type := 0\<rparr>), drives = (\<lambda>_. ex_disk boot), FatFs = [1, 0, 0, 0], CurrVol = 0,
     Fsid = 7, mutex = (\<lambda>k. k = 0), held = (\<lambda>_. False)\<rparr>"

lemma ex_boot_fields:
  "length ex_boot = 512" "ex_boot ! 0 = 0xEB" "ld_word ex_boot 11 = 512" "ex_boot ! 13 = 1" "ld_word ex_boot 14 = 1"
  "ex_boot ! 16 = 2" "ld_word ex_boot 17 = 16" "ld_word ex_boot 19 = 128" "ld_word ex_boot 22 = 1"
  "ld_word ex_boot 510 = 0xAA55"
  by (simp_all add: ex_boot_def ld_word_def Let_def nth_append)

definition ex_mnt :: "BYTE list \<Rightarrow> vol" where
  "ex_mnt boot = fatfs.extend (ex_fs\<lparr>fs_type := 0\<rparr>) (vol.fields (ex_disk boot))"

definition ex_loaded :: "BYTE list \<Rightarrow> vol" where
  "ex_loaded boot = fatfs.extend (ex_fs\<lparr>fs_type := 0, winsect := 0, win := boot\<rparr>) (vol.fields ((ex_disk boot)\<lparr>clk := 1\<rparr>))"

lemma ex_mount_fs:
  assumes "fs_verdict b = 0"
  shows "mount_fs 0 (ex_mnt b) =
    (let (fmt, v) = mount_bpb 0 (ex_loaded b) in if fmt = 0 then (FR_NO_FILESYSTEM, 0, v) else (FR_OK, fmt, v))"
proof -
  have i: "disk_initialize (pdrv (ex_mnt b\<lparr>fs_type := 0\<rparr>)) (dk (ex_mnt b\<lparr>fs_type := 0\<rparr>)) = (0, ex_disk b)"
    by (simp add: ex_mnt_def disk_initialize_def ex_disk_def ex_dev_def ex_fs_def fatfs.defs vol.defs)
  have m: "move_window 0 (ex_mnt b\<lparr>fs_type := 0, dk := ex_disk b, wflag := 0, winsect := 0 - 1\<rparr>) = (FR_OK, ex_loaded b)"
    by (simp add: move_window_def sync_window_clean disk_read_def ex_mnt_def ex_loaded_def ex_disk_def ex_dev_def
        ex_fs_def fatfs.defs vol.defs)
  have "check_fs 0 (ex_mnt b\<lparr>fs_type := 0, dk := ex_disk b\<rparr>) = (0, ex_loaded b)"
    using check_fs_verdict [OF m] assms by (simp add: ex_loaded_def fatfs.defs vol.defs)
  then have "find_volume (ex_mnt b\<lparr>fs_type := 0, dk := ex_disk b\<rparr>) = (0, ex_loaded b)"
    by (simp add: find_volume_def)
  moreover have "winsect (ex_loaded b) = 0" by (simp add: ex_loaded_def fatfs.defs vol.defs)
  ultimately show ?thesis using i by (simp add: mount_fs_def split_def Let_def)
qed

lemma ex_boot_verdict: "fs_verdict ex_boot = 0"
  by (simp add: fs_verdict_def Let_def ex_boot_fields)

lemma ex_boot_mount:
  "mount_bpb 0 (ex_loaded ex_boot) = (FS_FAT12, (ex_loaded ex_boot)\<lparr>fsize := 1, n_fats := 2, csize := 1,
     n_rootdir := 16, n_fatent := 126, volbase := 0, fatbase := 1, database := 4, dirbase := 3,
     last_clst := 0xFFFFFFFF, free_clst := 0xFFFFFFFF, fsi_flag := 0x80\<rparr>)"
proof -
  have "win (ex_loaded ex_boot) = ex_boot" by (simp add: ex_loaded_def fatfs.defs vol.defs)
  then show ?thesis
    by (simp add: mount_bpb_def load_fsinfo_def fat_type_def Let_def ex_boot_fields)
qed

lemma ex_world_mount:
  assumes "mount_fs 0 (ex_mnt b) = (FR_OK, fmt, v)"
  shows "\<exists>w'. mount_volume [0x61] 1 (ex_world b) = Some (FR_OK, 1, [0x61], w') \<and> volbase (fss w' 1) = volbase v \<and>
    open_vol 1 w' = v\<lparr>fs_type := fmt, fs_id := 8, cdir := 0\<rparr>"
proof -
  define h where "h = (ex_world b)\<lparr>held := (\<lambda>_. False)(0 := True)\<rparr>"
  have g: "get_ldnumber [0x61] (ex_world b) = (Some 0, [0x61])"
    by (simp add: get_ldnumber_def IsTerminator_def ex_world_def)
  have f: "FatFs (ex_world b) ! 0 = 1" "Fsid h = 7" by (simp_all add: ex_world_def h_def)
  have lk: "lock_volume 1 (ex_world b) = Some (True, h)"
    by (simp add: lock_volume_def ff_mutex_take_def ex_world_def ex_fs_def h_def)
  have o: "open_vol 1 h = ex_mnt b" by (simp add: open_vol_def ex_mnt_def h_def ex_world_def ex_fs_def)
  have t: "fs_type (ex_mnt b) = 0" by (simp add: ex_mnt_def fatfs.defs)
  define x where "x = v\<lparr>fs_type := fmt, fs_id := 8, cdir := 0\<rparr>"
  define w' where "w' = (close_vol 1 x h)\<lparr>Fsid := 8\<rparr>"
  have "mount_volume [0x61] 1 (ex_world b) = Some (FR_OK, 1, [0x61], w')"
    unfolding mount_volume_def g prod.case option.case f lk Let_def
    using assms by (simp add: lk o t f w'_def x_def del: One_nat_def)
  moreover have "open_vol 1 w' = x"
    using open_close_vol [of 1 x h] by (simp add: w'_def open_vol_def close_vol_def)
  moreover have "volbase (fss w' 1) = volbase x" by (simp add: w'_def close_vol_def fatfs.defs)
  ultimately show ?thesis by (intro exI [of _ w']) (simp add: x_def)
qed


section \<open>A volume that does not fit\<close>

text \<open>
  A boot sector with two tables of 0x80000000 sectors each: the code multiplies in 32 bits and finds
  no room taken by the tables.
\<close>

definition bad_boot :: "BYTE list" where
  "bad_boot = [0xEB, 0x58, 0x90, 0, 0, 0, 0, 0, 0, 0, 0, 0, 2, 1, 32, 0, 2, 0, 0, 0, 0, 0xF8, 0, 0] @
     replicate 8 0 @ [0, 0, 2, 0, 0, 0, 0, 0x80] @ replicate 42 0 @ FAT32_STR @ replicate 420 0 @ [0x55, 0xAA]"

lemma bad_boot_fields:
  "length bad_boot = 512" "bad_boot ! 0 = 0xEB" "ld_word bad_boot 11 = 512" "bad_boot ! 13 = 1" "ld_word bad_boot 14 = 32"
  "bad_boot ! 16 = 2" "ld_word bad_boot 17 = 0" "ld_word bad_boot 19 = 0" "ld_word bad_boot 22 = 0"
  "ld_dword bad_boot 32 = 0x20000" "ld_dword bad_boot 36 = 0x80000000" "ld_word bad_boot 42 = 0"
  "ld_dword bad_boot 44 = 0" "ld_word bad_boot 48 = 0"
  "ld_word bad_boot 510 = 0xAA55" "slice 82 8 bad_boot = FAT32_STR"
  by (simp_all add: bad_boot_def ld_word_def ld_dword_def Let_def nth_append slice_def FAT32_STR_def)

lemma bad_boot_verdict: "fs_verdict bad_boot = 0"
  by (simp add: fs_verdict_def Let_def bad_boot_fields)

text \<open>C26: The geometry check of mounting computes the size of the tables in 32 bits and can be
deceived: a boot sector whose two tables together have 2^32 sectors is accepted, and the first data
cluster then lies on the first sector of the table.\<close>

theorem mount_overlap:
  "\<exists>w'. mount_volume [0x61] 1 (ex_world bad_boot) = Some (FR_OK, 1, [0x61], w') \<and>
     clst2sect 2 (open_vol 1 w') = fatbase (open_vol 1 w') \<and> \<not> vol_ok (open_vol 1 w') \<and>
     \<not> bpb_fits 0 bad_boot"
proof -
  have "win (ex_loaded bad_boot) = bad_boot" by (simp add: ex_loaded_def fatfs.defs vol.defs)
  then have "\<exists>v. mount_fs 0 (ex_mnt bad_boot) = (FR_OK, FS_FAT32, v) \<and> fatbase v = 32 \<and> database v = 32 \<and>
      n_fatent v = 131042 \<and> n_fats v = 2 \<and> fsize v = 0x80000000 \<and> csize v = 1"
    using ex_mount_fs [OF bad_boot_verdict]
    by (simp add: mount_bpb_def load_fsinfo_def fat_type_def Let_def bad_boot_fields)
  then obtain v where v: "mount_fs 0 (ex_mnt bad_boot) = (FR_OK, FS_FAT32, v)" "fatbase v = 32" "database v = 32"
      "n_fatent v = 131042" "n_fats v = 2" "fsize v = 0x80000000" "csize v = 1" by auto
  obtain w' where w': "mount_volume [0x61] 1 (ex_world bad_boot) = Some (FR_OK, 1, [0x61], w')"
      "open_vol 1 w' = v\<lparr>fs_type := FS_FAT32, fs_id := 8, cdir := 0\<rparr>"
    using ex_world_mount [OF v(1)] by blast
  have "\<not> bpb_fits 0 bad_boot"
    by (simp add: bpb_fits_def bpb_sys_nat_def bpb_fatsz_def bpb_tsect_def bad_boot_fields)
  then show ?thesis
    using w' v by (intro exI [of _ w']) (simp add: clst2sect_def vol_ok_def)
qed

section \<open>Drive prefixes\<close>

text \<open>The drive that a prefix without its colon names: one digit, or a volume ID in any case.\<close>

definition drive_of :: "BYTE list \<Rightarrow> nat option" where
  "drive_of pre =
     (if length pre = 1 \<and> IsDigit (ucast (hd pre)) then
        (if unat (hd pre) - 0x30 < VOLUMES then Some (unat (hd pre) - 0x30) else None)
      else find (\<lambda>i. map to_upper (VolumeStr ! i) = map to_upper pre) [0..<VOLUMES])"

definition prefix_char :: "BYTE \<Rightarrow> bool" where
  "prefix_char c \<longleftrightarrow> \<not> IsTerminator (ucast c) \<and> c \<noteq> 0x3A"

lemma find_colon_prefix:
  "\<forall>c \<in> set pre. prefix_char c \<Longrightarrow> find_colon (pre @ 0x3A # rest) n = (0x3A, n + length pre + 1)"
  by (induction pre arbitrary: n) (simp_all add: prefix_char_def IsTerminator_def)

lemma find_colon_none:
  "\<forall>c \<in> set pre. prefix_char c \<Longrightarrow> rest = [] \<or> IsTerminator (ucast (hd rest)) \<Longrightarrow> hd rest \<noteq> 0x3A \<or> rest = [] \<Longrightarrow>
   fst (find_colon (pre @ rest) n) \<noteq> 0x3A"
proof (induction pre arbitrary: n)
  case Nil
  then show ?case by (cases rest) (auto simp: IsTerminator_def)
qed (simp add: prefix_char_def)

lemma cmp_id_match:
  "\<forall>c \<in> set sp. to_upper c \<noteq> 0 \<Longrightarrow> (fst (cmp_id sp tp m) = 0 \<and> snd (cmp_id sp tp m) = k) \<longleftrightarrow>
     k = m + length sp + 1 \<and> length sp \<le> length tp \<and> map to_upper (take (length sp) tp) = map to_upper sp"
proof (induction sp arbitrary: tp m)
  case (Cons c sp)
  have z: "to_upper 0 = 0" by (simp add: to_upper_def IsLower_def)
  show ?case
  proof (cases tp)
    case Nil
    then show ?thesis using Cons.prems z by (simp add: peek_def Let_def)
  next
    case t: (Cons d tp')
    then show ?thesis using Cons by (auto simp: peek_def Let_def)
  qed
qed auto

lemma find_id_find:
  assumes "\<forall>sp \<in> set ids. \<forall>c \<in> set sp. to_upper c \<noteq> 0"
  shows "find_id ids p n i =
    (case find (\<lambda>k. n = length (ids ! k) + 1 \<and> length (ids ! k) \<le> length p \<and>
         map to_upper (take (length (ids ! k)) p) = map to_upper (ids ! k)) [0..<length ids] of
       Some k \<Rightarrow> i + k | None \<Rightarrow> i + length ids)"
  using assms
proof (induction ids arbitrary: i)
  case (Cons sp ids)
  define P where "P = (\<lambda>ids k. n = length (ids ! k) + 1 \<and> length (ids ! k) \<le> length p \<and>
         map to_upper (take (length (ids ! k)) p) = map to_upper (ids ! k))"
  have sh: "find (P (sp # ids)) (map Suc ks) = map_option Suc (find (P ids) ks)" for ks
    by (induction ks) (simp_all add: P_def)
  have up: "[0..<length (sp # ids)] = 0 # map Suc [0..<length ids]"
    by (simp add: upt_conv_Cons map_Suc_upt del: upt_Suc)
  have c: "fst (cmp_id sp p 0) \<noteq> 0 \<or> snd (cmp_id sp p 0) \<noteq> n \<longleftrightarrow> \<not> P (sp # ids) 0"
    using cmp_id_match [of sp p 0 n] Cons.prems by (auto simp: P_def)
  have IH: "find_id ids p n (i + 1) = (case find (P ids) [0..<length ids] of Some k \<Rightarrow> i + 1 + k | None \<Rightarrow> i + 1 + length ids)"
    using Cons.IH [of "i + 1"] Cons.prems unfolding P_def by simp
  have "find_id (sp # ids) p n i = (if P (sp # ids) 0 then i else find_id ids p n (i + 1))"
    using c by (simp add: split_def)
  also have "\<dots> = (case find (P (sp # ids)) [0..<length (sp # ids)] of Some k \<Rightarrow> i + k | None \<Rightarrow> i + length (sp # ids))"
    unfolding up IH by (simp add: sh split: option.split)
  finally show ?case by (simp only: P_def)
qed simp

text \<open>\<open>get_ldnumber\<close> splits a path correctly: without a colon the path is on the current drive; a
prefix before a colon selects the drive it names, by one digit or by a volume ID without regard to
case, and is dropped; any other prefix is reported, and no drive number outside the volume table is
ever returned.\<close>

theorem get_ldnumber_correct:
  assumes "\<forall>c \<in> set pre. prefix_char c" "unat (CurrVol w) < VOLUMES"
  shows "(rest = [] \<or> IsTerminator (ucast (hd rest)) \<longrightarrow>
       get_ldnumber (pre @ rest) w = (Some (unat (CurrVol w)), pre @ rest)) \<and>
    get_ldnumber (pre @ 0x3A # rest) w =
      (case drive_of pre of Some i \<Rightarrow> (Some i, rest) | None \<Rightarrow> (None, pre @ 0x3A # rest)) \<and>
    (\<forall>i q. get_ldnumber path w = (Some i, q) \<longrightarrow> i < VOLUMES)"
proof (intro conjI impI allI)
  show "get_ldnumber (pre @ rest) w = (Some (unat (CurrVol w)), pre @ rest)"
    if "rest = [] \<or> IsTerminator (ucast (hd rest))"
  proof -
    have "hd rest \<noteq> 0x3A \<or> rest = []" using that by (auto simp: IsTerminator_def)
    then show ?thesis using find_colon_none [OF assms(1) that, of 0] by (simp add: get_ldnumber_def split_def)
  qed
  show "i < VOLUMES" if "get_ldnumber path w = (Some i, q)" for i q
    using that assms(2) by (auto simp: get_ldnumber_def Let_def split_def split: if_splits)
  let ?n = "length pre + 1"
  have fc: "find_colon (pre @ 0x3A # rest) 0 = (0x3A, ?n)" using find_colon_prefix [OF assms(1), of rest 0] by simp
  have nz: "\<forall>sp \<in> set VolumeStr. \<forall>c \<in> set sp. to_upper c \<noteq> 0"
    by (simp add: VolumeStr_def to_upper_def IsLower_def)
  have eq: "?n = length (VolumeStr ! k) + 1 \<and> length (VolumeStr ! k) \<le> length (pre @ 0x3A # rest) \<and>
      map to_upper (take (length (VolumeStr ! k)) (pre @ 0x3A # rest)) = map to_upper (VolumeStr ! k) \<longleftrightarrow>
      map to_upper (VolumeStr ! k) = map to_upper pre" for k
  proof -
    have "length (VolumeStr ! k) = length pre" if "map to_upper (VolumeStr ! k) = map to_upper pre"
      using map_eq_imp_length_eq [OF that] .
    then show ?thesis by auto
  qed
  have len4: "length VolumeStr = 4" by (simp add: VolumeStr_def)
  have fi: "find_id VolumeStr (pre @ 0x3A # rest) ?n 0 =
      (case find (\<lambda>k. map to_upper (VolumeStr ! k) = map to_upper pre) [0..<4] of Some k \<Rightarrow> k | None \<Rightarrow> 4)"
    using find_id_find [OF nz, of "pre @ 0x3A # rest" ?n 0] unfolding eq
    by (simp only: len4 add_0)
  have lt: "k < 4" if "find (\<lambda>k. map to_upper (VolumeStr ! k) = map to_upper pre) [0..<4] = Some k" for k
    using that by (auto simp: find_Some_iff)
  have pk: "?n = 2 \<longleftrightarrow> length pre = 1" "length pre = 1 \<Longrightarrow> peek (pre @ 0x3A # rest) = hd pre"
    "drop ?n (pre @ 0x3A # rest) = rest"
    by (auto simp: peek_def length_Suc_conv)
  show "get_ldnumber (pre @ 0x3A # rest) w =
      (case drive_of pre of Some i \<Rightarrow> (Some i, rest) | None \<Rightarrow> (None, pre @ 0x3A # rest))"
  proof (cases "length pre = 1 \<and> IsDigit (ucast (hd pre))")
    case True
    then show ?thesis unfolding get_ldnumber_def fc drive_of_def by (simp add: pk Let_def)
  next
    case False
    then have "\<not> (IsDigit (ucast (peek (pre @ 0x3A # rest))) \<and> ?n = 2)" using pk(1,2) by auto
    then have "get_ldnumber (pre @ 0x3A # rest) w =
        (let i = find_id VolumeStr (pre @ 0x3A # rest) ?n 0
         in if i < VOLUMES then (Some i, rest) else (None, pre @ 0x3A # rest))"
      unfolding get_ldnumber_def fc by (simp only: prod.case Let_def pk(3) if_False simp_thms if_True)
    then show ?thesis unfolding fi drive_of_def using False lt
      by (cases "find (\<lambda>k. map to_upper (VolumeStr ! k) = map to_upper pre) [0..<4]") (auto simp: Let_def)
  qed
qed

theorem get_ldnumber_correct_witness:
  "get_ldnumber [0x75, 0x73, 0x42, 0x3A, 0x61] (ex_world ex_boot) = (Some 1, [0x61]) \<and>
   get_ldnumber [0x39, 0x3A] (ex_world ex_boot) = (None, [0x39, 0x3A])"
proof -
  have c: "\<forall>c \<in> set [0x75, 0x73, 0x42]. prefix_char c" "\<forall>c \<in> set [0x39]. prefix_char c"
    "unat (CurrVol (ex_world ex_boot)) < VOLUMES"
    by (simp_all add: prefix_char_def IsTerminator_def ex_world_def)
  have d: "drive_of [0x75, 0x73, 0x42] = Some 1" "drive_of [0x39] = None"
    by (simp_all add: drive_of_def VolumeStr_def to_upper_def IsLower_def IsDigit_def upt_rec)
  show ?thesis
    using get_ldnumber_correct [OF c(1,3), of "[0x61]"] get_ldnumber_correct [OF c(2,3), of "[]"] d by simp
qed

section \<open>Objects of an unmounted volume\<close>

text \<open>C27: After \<open>f_mount\<close> has unregistered a filesystem object, every file or directory object opened on
it is rejected, and the volume lock is not taken.\<close>

theorem unmount_invalidates:
  assumes "get_ldnumber path w = (Some vl, q)" "vl < length (FatFs w)" "f_mount 0 path opt w = Some (r, w')"
    and "obj_fs obj = FatFs w ! vl"
  shows "validate obj w' = Some (FR_INVALID_OBJECT, 0, w')"
proof (cases "FatFs w ! vl = 0")
  case True
  then show ?thesis using assms(4) by (simp add: validate_def)
next
  case False
  define k where "k = FatFs w ! vl"
  obtain u where u: "ff_mutex_delete vl (w\<lparr>FatFs := (FatFs w)[vl := 0]\<rparr>) = Some u"
    using assms(1,3) False by (auto simp: f_mount_def Let_def bind_eq_Some_conv)
  then have uf: "FatFs u = (FatFs w)[vl := 0]" "CurrVol u = CurrVol w"
    by (auto simp: ff_mutex_delete_def split: if_splits)
  define x where "x = u\<lparr>fss := (fss u)(k := (fss u k)\<lparr>fs_type := 0\<rparr>)\<rparr>"
  have x: "FatFs x ! vl = 0" "CurrVol x = CurrVol w" "fs_type (fss x k) = 0"
    using uf assms(2) by (simp_all add: x_def)
  have "get_ldnumber path x = (Some vl, q)" using assms(1) unfolding get_ldnumber_def x(2) .
  then have "mount_volume path 0 x = Some (FR_NOT_ENABLED, 0, q, x)" by (simp add: mount_volume_def x(1))
  moreover have "f_mount 0 path opt w =
      (if opt = 0 then Some (FR_OK, x) else do {
         (res, fs, path, w) \<leftarrow> mount_volume path 0 x; w \<leftarrow> unlock_volume fs res w; Some (res, w) })"
    using assms(1) False u by (simp add: f_mount_def Let_def x_def k_def)
  ultimately have "w' = x" using assms(3) by (auto simp: unlock_volume_def split: if_splits)
  then show ?thesis using assms(4) x(3) by (simp add: validate_def k_def)
qed

theorem unmount_invalidates_witness:
  "\<exists>r w'. f_mount 0 [0x61] 0 (ex_world ex_boot) = Some (r, w') \<and>
     validate (FFOBJID.make 1 7 0 0 0 0) w' = Some (FR_INVALID_OBJECT, 0, w')"
proof -
  have g: "get_ldnumber [0x61] (ex_world ex_boot) = (Some 0, [0x61])"
    by (simp add: get_ldnumber_def IsTerminator_def ex_world_def)
  have f: "FatFs (ex_world ex_boot) = [1, 0, 0, 0]" by (simp add: ex_world_def)
  obtain r w' where m: "f_mount 0 [0x61] 0 (ex_world ex_boot) = Some (r, w')"
    using g by (simp add: f_mount_def f ff_mutex_delete_def) (simp add: ex_world_def)
  show ?thesis using unmount_invalidates [OF g _ m, of "FFOBJID.make 1 7 0 0 0 0"] m f by (simp add: FFOBJID.defs)
qed

end
