(* ===== verification/FatDirIdxProps.thy ===== *)
theory FatDirIdxProps
  imports FatDirIdx FatExample
begin

text \<open>
  Directory tables as lists of sectors, and the operations that move the directory index as moves of
  a position in that list: \<open>dir_sdi\<close> and \<open>dir_next\<close> reach the same positions, stretching a table
  appends a cleared cluster.
\<close>

section \<open>Geometry\<close>

definition csize_ok :: "vol \<Rightarrow> bool" where
  "csize_ok v \<longleftrightarrow> csize v \<in> {1, 2, 4, 8, 16, 32, 64, 128}"

definition root_ok :: "vol \<Rightarrow> bool" where
  "root_ok v \<longleftrightarrow> fs_type v \<noteq> FS_FAT32 \<longrightarrow>
     unat (fatbase v) + unat (n_fats v) * unat (fsize v) \<le> unat (dirbase v) \<and>
     unat (n_rootdir v) mod 16 = 0 \<and> unat (dirbase v) + unat (n_rootdir v) div 16 \<le> unat (database v)"

abbreviation csz :: "vol \<Rightarrow> nat" where "csz v \<equiv> 512 * unat (csize v)"

lemma csize_cases:
  assumes "csize_ok v"
  obtains a where "a \<le> 7" "unat (csize v) = 2 ^ a" "csize v = 2 ^ a"
proof -
  have "\<exists>a \<le> 7. unat (csize v) = 2 ^ a \<and> csize v = 2 ^ a"
    using assms unfolding csize_ok_def
    by (elim insertE) (simp_all, (rule exI [of _ 0] exI [of _ 1] exI [of _ 2] exI [of _ 3] exI [of _ 4]
      exI [of _ 5] exI [of _ 6] exI [of _ 7], simp)+)
  then show ?thesis using that by blast
qed

lemma csize_bounds:
  assumes "csize_ok v"
  shows "0 < unat (csize v)" "unat (csize v) \<le> 128" "unat (ucast (csize v) * SS :: DWORD) = csz v"
    "unat (ucast (csize v) :: DWORD) = unat (csize v)"
  using assms by (auto simp: csize_ok_def)

lemma unat_and_csize:
  fixes x :: DWORD
  assumes "csize_ok v"
  shows "unat (x AND (ucast (csize v) - 1)) = unat x mod unat (csize v)"
proof -
  obtain a where a: "a \<le> 7" "unat (csize v) = 2 ^ a" "csize v = 2 ^ a" using csize_cases [OF assms] .
  have "(2 :: nat) ^ a \<le> 2 ^ 7" using a(1) by (rule power_increasing) simp
  then have "unat (of_nat (2 ^ a) :: DWORD) = 2 ^ a" by (intro unat_of_nat32) simp
  then have "(ucast (csize v) :: DWORD) = 2 ^ a"
    using a(2) csize_bounds(4) [OF assms] unat_eq_iff [of "ucast (csize v) :: DWORD" "2 ^ a"] by simp
  then have "x AND (ucast (csize v) - 1) = take_bit a x" by (simp add: take_bit_eq_mask mask_eq_decr_exp)
  moreover have "unat (take_bit a x) = unat x mod 2 ^ a" by (simp only: unsigned_take_bit_eq) (simp add: take_bit_eq_mod)
  ultimately show ?thesis using a(2) by simp
qed

lemma and_csize:
  fixes x :: DWORD
  assumes "csize_ok v"
  shows "x AND (ucast (csize v) - 1) = 0 \<longleftrightarrow> unat x mod unat (csize v) = 0"
  using unat_and_csize [OF assms, of x] by (simp add: unat_eq_0 [symmetric])

lemma unat_clst2sect:
  assumes "vol_ok v" "valid_clst v c"
  shows "unat (clst2sect c v) = unat (database v) + unat (csize v) * (unat c - 2)"
    and "unat (clst2sect c v) + unat (csize v) < 2 ^ 32" "unat (clst2sect c v) \<noteq> 0"
proof -
  have c: "2 \<le> unat c" "unat c < unat (n_fatent v)"
    using assms(2) by (simp_all add: valid_clst_def word_le_nat_alt word_less_nat_alt)
  have d: "unat (database v) + unat (csize v) * (unat (n_fatent v) - 2) < 2 ^ 32"
    using assms(1) by (simp add: vol_ok_def)
  have m: "unat (csize v) * (unat c - 2) + unat (csize v) \<le> unat (csize v) * (unat (n_fatent v) - 2)"
    using c mult_le_mono2 [of "unat c - 2 + 1" "unat (n_fatent v) - 2" "unat (csize v)"] by (simp add: algebra_simps)
  have s: "unat (c - 2) = unat c - 2" using c by (simp add: unat_sub word_le_nat_alt)
  have "unat (ucast (csize v) :: DWORD) = unat (csize v)"
    by (simp add: unsigned_ucast_eq take_bit_nat_eq_self_iff less_le_trans [OF unsigned_less [of "csize v"]])
  then have p: "unat (ucast (csize v) * (c - 2) :: DWORD) = unat (csize v) * (unat c - 2)"
    using s m d by (simp add: unat_mult_lem [THEN iffD1])
  have lt: "\<not> n_fatent v - 2 \<le> c - 2"
    using s c vol_ok_n [OF assms(1)] by (simp add: word_le_nat_alt unat_n_minus_2)
  show u: "unat (clst2sect c v) = unat (database v) + unat (csize v) * (unat c - 2)"
    using lt p m d by (simp add: clst2sect_def Let_def unat_plus_if')
  show "unat (clst2sect c v) + unat (csize v) < 2 ^ 32" using u m d by simp
  have "0 < unat (database v)"
    using assms(1) by (auto simp: vol_ok_def fat_size_def Let_def)
  then show "unat (clst2sect c v) \<noteq> 0" using u by simp
qed

section \<open>Directory tables\<close>

text \<open>
  The table of a directory is a chain of clusters, or the fixed root directory of FAT12 and FAT16, for
  which the list of clusters is empty.
\<close>

definition tab_start :: "vol \<Rightarrow> DIR \<Rightarrow> DWORD" where
  "tab_start v dp = (if sclust dp = 0 \<and> FS_FAT32 \<le> fs_type v then dirbase v else sclust dp)"

definition dir_tab :: "vol \<Rightarrow> DIR \<Rightarrow> DWORD list \<Rightarrow> bool" where
  "dir_tab v dp cs \<longleftrightarrow>
     (if tab_start v dp = 0 then cs = [] \<and> fs_type v \<noteq> FS_FAT32
      else hd cs = tab_start v dp \<and> chain (n_fatent v) (fat_entry v) cs)"

definition tab_size :: "vol \<Rightarrow> DWORD list \<Rightarrow> nat" where
  "tab_size v cs = (if cs = [] then 32 * unat (n_rootdir v) else csz v * length cs)"

text \<open>The sector and the cluster of byte \<open>k\<close> of a table.\<close>

definition tab_sect :: "vol \<Rightarrow> DWORD list \<Rightarrow> nat \<Rightarrow> DWORD" where
  "tab_sect v cs k =
     (if cs = [] then dirbase v + of_nat (k div 512)
      else clst2sect (cs ! (k div csz v)) v + of_nat (k mod csz v div 512))"

definition dir_at :: "vol \<Rightarrow> DWORD list \<Rightarrow> nat \<Rightarrow> DIR \<Rightarrow> bool" where
  "dir_at v cs k dp \<longleftrightarrow>
     k < tab_size v cs \<and> k < unat (MAX_DIR) \<and> k mod 32 = 0 \<and> dptr dp = of_nat k \<and>
     clust dp = (if cs = [] then 0 else cs ! (k div csz v)) \<and> sect dp = tab_sect v cs k \<and> dir dp = k mod 512"

lemma chain_nth:
  assumes "chain n e cs" "i < length cs"
  shows "2 \<le> cs ! i \<and> cs ! i < n" "Suc i < length cs \<Longrightarrow> e (cs ! i) = cs ! Suc i" "Suc i = length cs \<Longrightarrow> n \<le> e (cs ! i)"
proof -
  show "2 \<le> cs ! i \<and> cs ! i < n" using chain_valid [OF assms(1)] assms(2) by simp
  show "e (cs ! i) = cs ! Suc i" if "Suc i < length cs"
    using assms(1) that
  proof (induction n e cs arbitrary: i rule: chain.induct)
    case (3 n e c d cs)
    then show ?case by (cases i) simp_all
  qed simp_all
  show "n \<le> e (cs ! i)" if "Suc i = length cs"
    using chain_last [OF assms(1)] that by (cases cs rule: rev_cases) (auto simp: nth_append)
qed

lemma tab_sect_nz:
  assumes "vol_ok v" "root_ok v" "csize_ok v" "dir_tab v dp cs" "k < tab_size v cs"
  shows "tab_sect v cs k \<noteq> 0"
    and "cs = [] \<Longrightarrow> unat (tab_sect v cs k) = unat (dirbase v) + k div 512 \<and>
       unat (fatbase v) + unat (n_fats v) * unat (fsize v) \<le> unat (tab_sect v cs k) \<and>
       unat (tab_sect v cs k) < unat (database v)"
    and "cs \<noteq> [] \<Longrightarrow> unat (tab_sect v cs k) = unat (clst2sect (cs ! (k div csz v)) v) + k mod csz v div 512 \<and>
       k mod csz v div 512 < unat (csize v) \<and> valid_clst v (cs ! (k div csz v))"
proof -
  have fpos: "0 < unat (fsize v)" and nf: "0 < unat (n_fats v)"
    using assms(1) by (auto simp: vol_ok_def fat_size_def Let_def)
  have e: "unat (tab_sect v cs k) = unat (dirbase v) + k div 512 \<and>
      unat (fatbase v) + unat (n_fats v) * unat (fsize v) \<le> unat (tab_sect v cs k) \<and>
      unat (tab_sect v cs k) < unat (database v)" if "cs = []"
  proof -
    have f: "fs_type v \<noteq> FS_FAT32" using assms(4) that by (auto simp: dir_tab_def split: if_splits)
    have r: "unat (fatbase v) + unat (n_fats v) * unat (fsize v) \<le> unat (dirbase v)"
      "unat (n_rootdir v) mod 16 = 0" "unat (dirbase v) + unat (n_rootdir v) div 16 \<le> unat (database v)"
      using assms(2) f by (simp_all add: root_ok_def)
    have k: "k div 512 < unat (n_rootdir v) div 16"
      using assms(5) that mult_div_mod_eq [of 16 "unat (n_rootdir v)"] r(2)
      by (intro less_mult_imp_div_less) (simp add: tab_size_def)
    then have "k div 512 < 2 ^ 32" using r(3) unat_less32 [of "database v"] by linarith
    then have "unat (dirbase v + of_nat (k div 512)) = unat (dirbase v) + k div 512"
      using k r(3) unat_less32 [of "database v"] unat_of_nat32 [of "k div 512"] by (simp add: unat_plus_if')
    then show ?thesis using that r k by (simp add: tab_sect_def)
  qed
  have c: "unat (tab_sect v cs k) = unat (clst2sect (cs ! (k div csz v)) v) + k mod csz v div 512 \<and>
       k mod csz v div 512 < unat (csize v) \<and> valid_clst v (cs ! (k div csz v))" if "cs \<noteq> []"
  proof -
    have ch: "chain (n_fatent v) (fat_entry v) cs" using assms(4) that by (auto simp: dir_tab_def split: if_splits)
    have "k div csz v < length cs"
      using assms(5) that by (simp add: tab_size_def less_mult_imp_div_less mult.commute)
    then have vc: "valid_clst v (cs ! (k div csz v))" using chain_nth(1) [OF ch] by (simp add: valid_clst_def)
    have lt: "k mod csz v div 512 < unat (csize v)"
      using csize_bounds(1) [OF assms(3)] by (simp add: less_mult_imp_div_less mult.commute)
    have "unat (csize v) < 2 ^ 32" using csize_bounds(2) [OF assms(3)] by simp
    with lt have "k mod csz v div 512 < 2 ^ 32" by (rule less_trans)
    then have "unat (of_nat (k mod csz v div 512) :: DWORD) = k mod csz v div 512" by (rule unat_of_nat32)
    then show ?thesis
      using that vc lt unat_clst2sect(2) [OF assms(1) vc] by (simp add: tab_sect_def unat_plus_if')
  qed
  show "tab_sect v cs k \<noteq> 0"
  proof (cases "cs = []")
    case True
    then have "0 < unat (tab_sect v cs k)" using e mult_pos_pos [OF nf fpos] by linarith
    then show ?thesis by (auto simp: unat_eq_0 [symmetric])
  next
    case False
    then show ?thesis using c unat_clst2sect(3) [OF assms(1)] by (auto simp: unat_eq_0 [symmetric])
  qed
  show "cs = [] \<Longrightarrow> unat (tab_sect v cs k) = unat (dirbase v) + k div 512 \<and>
       unat (fatbase v) + unat (n_fats v) * unat (fsize v) \<le> unat (tab_sect v cs k) \<and>
       unat (tab_sect v cs k) < unat (database v)" by (rule e)
  show "cs \<noteq> [] \<Longrightarrow> unat (tab_sect v cs k) = unat (clst2sect (cs ! (k div csz v)) v) + k mod csz v div 512 \<and>
       k mod csz v div 512 < unat (csize v) \<and> valid_clst v (cs ! (k div csz v))" by (rule c)
qed

section \<open>\<open>dir_sdi\<close>\<close>

lemma fat_good_moves: "fat_good v \<Longrightarrow> moves v v' \<Longrightarrow> fat_good v'"
  using wframe_geom(1) [of v v'] by (auto simp: fat_good_def moves_def)

lemma get_fat_good:
  assumes "fat_good v" "valid_clst v c" "get_fat c v = (x, v')"
  shows "x = fat_entry v c" "moves v v'" "fat_good v'"
  using get_fat_spec(1,2) [OF fat_goodD(1,2) [OF assms(1)] assms(3)] assms(2) fat_goodD(3) [OF assms(1)]
    fat_good_moves [OF assms(1)] by blast+

lemma moves_chain:
  assumes "moves v v'" "vol_ok v" "chain (n_fatent v) (fat_entry v) cs"
  shows "chain (n_fatent v') (fat_entry v') cs"
  using chain_cong [of cs "fat_entry v" "fat_entry v'" "n_fatent v"] chain_valid [OF assms(3)] assms(3)
    fat_entry_moves [OF assms(1,2)] wframe_fields(13) [OF movesD(1) [OF assms(1)]]
  by (auto simp: valid_clst_def)

text \<open>Following the chain: the loop ends in the cluster of the offset, or leaves the chain.\<close>

lemma sdi_follow_spec:
  assumes "fat_good v" "chain (n_fatent v) (fat_entry v) cs" "i < length cs" "unat cb = csz v" "0 < csz v"
  shows "\<exists>r v'. sdi_follow cb ofs (cs ! i) v = Some (r, v') \<and> moves v v' \<and>
    (if i + unat ofs div csz v < length cs
     then r = Inr (of_nat (unat ofs mod csz v), cs ! (i + unat ofs div csz v)) else r = Inl FR_INT_ERR)"
  using assms
proof (induction "unat ofs" arbitrary: ofs i v rule: less_induct)
  case less
  note wf = fat_goodD [OF less.prems(1)]
  show ?case
  proof (cases "cb \<le> ofs")
    case False
    then have "unat ofs < csz v" using less.prems(4) by (simp add: word_le_nat_alt)
    then show ?thesis using False less.prems wf by (simp add: sdi_follow.simps)
  next
    case True
    then have le: "csz v \<le> unat ofs" using less.prems(4) by (simp add: word_le_nat_alt)
    have ofs: "unat (ofs - cb) = unat ofs - csz v" using True less.prems(4) by (simp add: unat_sub)
    have d: "unat ofs div csz v = Suc (unat (ofs - cb) div csz v)" "unat ofs mod csz v = unat (ofs - cb) mod csz v"
      using le less.prems(5) ofs le_div_geq [of "csz v" "unat ofs"] le_mod_geq [of "csz v" "unat ofs"] by simp_all
    have vc: "valid_clst v (cs ! i)" using chain_nth(1) [OF less.prems(2,3)] by (simp add: valid_clst_def)
    obtain x w where g: "get_fat (cs ! i) v = (x, w)" by (cases "get_fat (cs ! i) v")
    note gd = get_fat_good [OF less.prems(1) vc g]
    have ne: "x \<noteq> 0xFFFFFFFF" using gd(1) fat_entry_not_err by simp
    have w: "csize w = csize v" "n_fatent w = n_fatent v" using wframe_fields [OF movesD(1) [OF gd(2)]] by simp_all
    have step: "sdi_follow cb ofs (cs ! i) v =
        (if x < 2 \<or> x \<ge> n_fatent w then Some (Inl FR_INT_ERR, w) else sdi_follow cb (ofs - cb) x w)"
      using True g ne by (subst sdi_follow.simps) simp
    show ?thesis
    proof (cases "Suc i < length cs")
      case False
      then have "n_fatent v \<le> x" using chain_nth(3) [OF less.prems(2,3)] less.prems(3) gd(1) by simp
      then show ?thesis using step w gd False d by simp
    next
      case i: True
      have x: "x = cs ! Suc i" using chain_nth(2) [OF less.prems(2,3) i] gd(1) by simp
      have xv: "\<not> (x < 2 \<or> x \<ge> n_fatent w)" using chain_nth(1) [OF less.prems(2) i] x w by (auto simp: not_less)
      have lt: "unat (ofs - cb) < unat ofs" using ofs le less.prems(5) by linarith
      have ch: "chain (n_fatent w) (fat_entry w) cs" using moves_chain [OF gd(2) wf(2) less.prems(2)] .
      obtain r v' where IH: "sdi_follow cb (ofs - cb) (cs ! Suc i) w = Some (r, v')" "moves w v'"
        "if Suc i + unat (ofs - cb) div csz w < length cs
         then r = Inr (of_nat (unat (ofs - cb) mod csz w), cs ! (Suc i + unat (ofs - cb) div csz w))
         else r = Inl FR_INT_ERR"
        using less.hyps [OF lt gd(3) ch i] less.prems(4,5) w by auto
      show ?thesis using step xv x IH moves_trans [OF gd(2) IH(2)] d w by simp
    qed
  qed
qed

lemma word_div_512: "(x :: DWORD) div 512 = of_nat (unat x div 512)"
proof -
  have "unat x div 512 < 2 ^ 32" using unat_less32 [of x] div_le_dividend [of "unat x" 512] by linarith
  then show ?thesis by (simp add: unat_eq_iff [symmetric] unat_div unat_of_nat32)
qed

lemma unat_MAX_DIR: "ofs < MAX_DIR \<longleftrightarrow> unat ofs < unat (MAX_DIR)"
  by (simp add: word_less_nat_alt)

lemma dir_sdi_start:
  assumes "\<not> (ofs \<ge> MAX_DIR \<or> ofs mod SZDIRE \<noteq> 0)"
  shows "dir_sdi ofs dp v =
    (if tab_start v dp = 0 then
       if ofs div SZDIRE \<ge> ucast (n_rootdir v) then Some (FR_INT_ERR, dp\<lparr>dptr := ofs\<rparr>, v)
       else let (r, dp) = sdi_finish ofs (tab_start v dp) (dp\<lparr>dptr := ofs, sect := dirbase v\<rparr>) in Some (r, dp, v)
     else do {
       (st, v) \<leftarrow> sdi_follow (ucast (csize v) * SS) ofs (tab_start v dp) v;
       case st of
         Inl r \<Rightarrow> Some (r, dp\<lparr>dptr := ofs\<rparr>, v)
       | Inr (ofs', clst) \<Rightarrow>
           let (r, dp) = sdi_finish ofs' clst (dp\<lparr>dptr := ofs, sect := clst2sect clst v\<rparr>) in Some (r, dp, v)
     })"
proof -
  have "(if sclust (dp\<lparr>dptr := ofs\<rparr>) = 0 \<and> FS_FAT32 \<le> fs_type v then dirbase v else sclust (dp\<lparr>dptr := ofs\<rparr>)) =
      tab_start v dp" by (simp add: tab_start_def)
  then show ?thesis using assms unfolding dir_sdi_def Let_def by simp
qed

lemma rootdir_le:
  assumes "unat ofs mod 32 = 0"
  shows "ofs div SZDIRE \<ge> ucast (n_rootdir v) \<longleftrightarrow> \<not> unat ofs < 32 * unat (n_rootdir v)"
proof -
  obtain q where q: "unat ofs = 32 * q" using assms by (auto elim: dvdE simp: mod_eq_0_iff_dvd)
  then have "unat (ofs div SZDIRE) = q" by (simp add: unat_div)
  moreover have "unat (ucast (n_rootdir v) :: DWORD) = unat (n_rootdir v)"
    by (simp add: unsigned_ucast_eq take_bit_nat_eq_self_iff less_le_trans [OF unsigned_less [of "n_rootdir v"]])
  ultimately show ?thesis using q by (simp add: word_le_nat_alt not_less)
qed

lemma dir_sdi_spec:
  assumes good: "fat_good v" and g: "csize_ok v" "root_ok v" and tab: "dir_tab v dp cs"
    and ofs: "ofs < MAX_DIR" "ofs mod SZDIRE = 0"
  shows "\<exists>r dp' v'. dir_sdi ofs dp v = Some (r, dp', v') \<and> moves v v' \<and> sclust dp' = sclust dp \<and>
    (if unat ofs < tab_size v cs then r = FR_OK \<and> dir_at v cs (unat ofs) dp' else r = FR_INT_ERR)"
proof -
  note wf = fat_goodD [OF good]
  define d0 where "d0 = dp\<lparr>dptr := ofs\<rparr>"
  have o32: "unat ofs mod 32 = 0" "unat ofs < unat (MAX_DIR)"
    using ofs unat_mod [of ofs SZDIRE] by (simp_all add: unat_MAX_DIR)
  have o: "\<not> (ofs \<ge> MAX_DIR \<or> ofs mod SZDIRE \<noteq> 0)" using ofs by (auto simp: not_le)
  have pos: "0 < csz v" "unat (ucast (csize v) * SS :: DWORD) = csz v" using csize_bounds [OF g(1)] by simp_all
  show ?thesis
  proof (cases "tab_start v dp = 0")
    case True
    then have cs: "cs = []" using tab by (simp add: dir_tab_def)
    have lt: "ofs div SZDIRE \<ge> ucast (n_rootdir v) \<longleftrightarrow> \<not> unat ofs < tab_size v cs"
      using rootdir_le [OF o32(1)] cs by (simp add: tab_size_def)
    show ?thesis
    proof (cases "unat ofs < tab_size v cs")
      case False
      then have "dir_sdi ofs dp v = Some (FR_INT_ERR, d0, v)"
        using True lt False by (simp add: dir_sdi_start [OF o] d0_def)
      then show ?thesis using False wf by (simp add: d0_def)
    next
      case t: True
      have s: "tab_sect v cs 0 \<noteq> 0" using tab_sect_nz(1) [OF wf(2) g(2,1) tab, of 0] t by simp
      then have nz: "dirbase v \<noteq> 0" using cs by (simp add: tab_sect_def)
      have "dirbase v + ofs div 512 = tab_sect v cs (unat ofs)"
        using cs by (simp add: tab_sect_def word_div_512)
      then have "dir_sdi ofs dp v = Some (FR_OK, d0\<lparr>clust := 0, sect := tab_sect v cs (unat ofs),
          dir := unat ofs mod 512\<rparr>, v)"
        using True lt t nz by (simp add: dir_sdi_start [OF o] d0_def sdi_finish_def unat_mod)
      then show ?thesis using t wf o32 cs by (simp add: dir_at_def d0_def)
    qed
  next
    case False
    then have ch: "chain (n_fatent v) (fat_entry v) cs" and hd: "hd cs = tab_start v dp"
      using tab by (simp_all add: dir_tab_def)
    have ne: "cs \<noteq> []" using ch by auto
    then have l: "0 < length cs" and h: "cs ! 0 = tab_start v dp" using hd by (simp_all add: hd_conv_nth)
    obtain r w where f: "sdi_follow (ucast (csize v) * SS) ofs (cs ! 0) v = Some (r, w)" "moves v w"
      "if 0 + unat ofs div csz v < length cs
       then r = Inr (of_nat (unat ofs mod csz v), cs ! (0 + unat ofs div csz v)) else r = Inl FR_INT_ERR"
      using sdi_follow_spec [OF good ch l pos(2,1), of ofs] by blast
    have lt: "unat ofs div csz v < length cs \<longleftrightarrow> unat ofs < tab_size v cs"
      using pos(1) ne by (simp add: tab_size_def div_less_iff_less_mult mult.commute)
    have gw: "clst2sect c w = clst2sect c v" for c
      using gframe_geom(6) [OF wframe_gframe [OF movesD(1) [OF f(2)]]] .
    have st: "dir_sdi ofs dp v = do {
             (st, v) \<leftarrow> sdi_follow (ucast (csize v) * SS) ofs (cs ! 0) v;
             case st of
               Inl r \<Rightarrow> Some (r, d0, v)
             | Inr (ofs, clst) \<Rightarrow>
                 let (r, dp) = sdi_finish ofs clst (d0\<lparr>sect := clst2sect clst v\<rparr>) in Some (r, dp, v)
           }"
      using False unfolding dir_sdi_start [OF o] d0_def h by simp
    show ?thesis
    proof (cases "unat ofs < tab_size v cs")
      case n: False
      then have "dir_sdi ofs dp v = Some (FR_INT_ERR, d0, w)" using st f lt by simp
      then show ?thesis using n f(2) by (simp add: d0_def)
    next
      case t: True
      define c where "c = cs ! (unat ofs div csz v)"
      define m where "m = unat ofs mod csz v"
      have r: "r = Inr (of_nat m, c)" using f(3) lt t by (simp add: c_def m_def)
      note s = tab_sect_nz(3) [OF wf(2) g(2,1) tab t ne, folded c_def]
      have nz: "clst2sect c v \<noteq> 0" using unat_clst2sect(3) [OF wf(2)] s by (auto simp: unat_eq_0 [symmetric])
      have um: "unat (of_nat m :: DWORD) = m"
        using unat_less32 [of ofs] mod_less_eq_dividend [of "unat ofs" "csz v"] unfolding m_def
        by (intro unat_of_nat32) linarith
      have ds: "unat ((of_nat m :: DWORD) mod 512) = unat ofs mod 512"
        using um by (simp add: unat_mod m_def mod_mod_cancel)
      have se: "clst2sect c v + of_nat m div 512 = tab_sect v cs (unat ofs)"
        using ne um by (simp add: word_div_512 tab_sect_def c_def m_def)
      have "dir_sdi ofs dp v = Some (FR_OK, d0\<lparr>clust := c, sect := tab_sect v cs (unat ofs),
          dir := unat ofs mod 512\<rparr>, w)"
        using st f(1) r nz se ds by (simp add: sdi_finish_def gw)
      then show ?thesis using t f(2) o32 ne by (simp add: dir_at_def d0_def c_def)
    qed
  qed
qed

section \<open>\<open>dir_next\<close>\<close>

lemma tab_size_step:
  assumes "csize_ok v" "root_ok v" "dir_tab v dp cs"
  shows "tab_size v cs mod 512 = 0"
proof (cases "cs = []")
  case True
  then have "fs_type v \<noteq> FS_FAT32" using assms(3) by (auto simp: dir_tab_def split: if_splits)
  then have "unat (n_rootdir v) mod 16 = 0" using assms(2) by (simp add: root_ok_def)
  then obtain m where "unat (n_rootdir v) = 16 * m" by (auto elim: dvdE simp: mod_eq_0_iff_dvd)
  then show ?thesis using True by (simp add: tab_size_def)
qed (simp add: tab_size_def)

text \<open>Inside a sector, and at the next sector of the same cluster.\<close>

lemma tab_sect_same:
  assumes "(k + 32) mod 512 \<noteq> 0" "k mod 32 = 0" "csize_ok v"
  shows "tab_sect v cs (k + 32) = tab_sect v cs k" "(k + 32) div csz v = k div csz v"
proof -
  obtain q where q: "k = 32 * q" using assms(2) by (auto elim: dvdE simp: mod_eq_0_iff_dvd)
  define r where "r = q mod 16"
  have "q = 16 * (q div 16) + r" "r < 16" by (simp_all add: r_def)
  then have k: "k = 512 * (q div 16) + 32 * r" using q by linarith
  have "r \<noteq> 15"
  proof
    assume "r = 15"
    then have "k + 32 = 512 * (q div 16 + 1)" using k by simp
    then show False using assms(1) by (metis mod_mult_self1_is_0)
  qed
  then have "32 * r + 32 < 512" using \<open>r < 16\<close> by simp
  then have d: "(k + 32) div 512 = k div 512" using k by (simp add: add.assoc)
  have e: "j div csz v = j div 512 div unat (csize v)" "j mod csz v div 512 = j div 512 mod unat (csize v)" for j
    by (simp_all add: div_mult2_eq mod_mult2_eq)
  show "(k + 32) div csz v = k div csz v" by (simp add: e d)
  then show "tab_sect v cs (k + 32) = tab_sect v cs k" by (simp add: tab_sect_def e d)
qed

lemma tab_sect_succ:
  assumes "(k + 32) mod 512 = 0" "csize_ok v"
  shows "cs = [] \<Longrightarrow> tab_sect v cs (k + 32) = tab_sect v cs k + 1"
    and "(k + 32) div 512 mod unat (csize v) \<noteq> 0 \<Longrightarrow>
      tab_sect v cs (k + 32) = tab_sect v cs k + 1 \<and> (k + 32) div csz v = k div csz v"
    and "(k + 32) div 512 mod unat (csize v) = 0 \<Longrightarrow>
      (k + 32) div csz v = Suc (k div csz v) \<and> (k + 32) mod csz v = 0"
proof -
  obtain m where m: "k + 32 = 512 * m" using assms(1) by (auto elim: dvdE simp: mod_eq_0_iff_dvd)
  then have "k = 480 + 512 * (m - 1)" "0 < m" by auto
  then have "k div 512 = m - 1" by simp
  then have d: "(k + 32) div 512 = Suc (k div 512)" using m \<open>0 < m\<close> by simp
  have e: "j div csz v = j div 512 div unat (csize v)" "j mod csz v div 512 = j div 512 mod unat (csize v)" for j
    by (simp_all add: div_mult2_eq mod_mult2_eq)
  show "tab_sect v cs (k + 32) = tab_sect v cs k + 1" if "cs = []"
    using that d by (simp add: tab_sect_def)
  show "tab_sect v cs (k + 32) = tab_sect v cs k + 1 \<and> (k + 32) div csz v = k div csz v"
    if "(k + 32) div 512 mod unat (csize v) \<noteq> 0"
  proof -
    have n: "Suc (k div 512) mod unat (csize v) \<noteq> 0" using that unfolding d .
    then have q: "Suc (k div 512) div unat (csize v) = k div 512 div unat (csize v)"
      by (simp only: div_Suc if_False)
    from n have "Suc (k div 512) mod unat (csize v) = Suc (k div 512 mod unat (csize v))"
      by (simp only: mod_Suc split: if_splits) simp
    then show ?thesis using that unfolding tab_sect_def e d q by simp
  qed
  show "(k + 32) div csz v = Suc (k div csz v) \<and> (k + 32) mod csz v = 0"
    if "(k + 32) div 512 mod unat (csize v) = 0"
  proof -
    have q: "Suc (k div 512) div unat (csize v) = Suc (k div 512 div unat (csize v))"
      using that unfolding d div_Suc by simp
    have "(k + 32) mod csz v = 512 * ((k + 32) div 512 mod unat (csize v)) + (k + 32) mod 512"
      by (rule mod_mult2_eq)
    then show ?thesis unfolding e d q using that assms(1) unfolding d by simp
  qed
qed

lemma next_clust_step:
  assumes good: "fat_good v" and ch: "chain (n_fatent v) (fat_entry v) cs" and i: "i < length cs" "clust dp = cs ! i"
    and st: "stretch \<longrightarrow> Suc i < length cs"
  shows "\<exists>v'. moves v v' \<and> next_clust stretch dp v = Some
    (if Suc i < length cs then (Inr (), dp\<lparr>clust := cs ! Suc i, sect := clst2sect (cs ! Suc i) v\<rparr>, v')
     else (Inl FR_NO_FILE, dp\<lparr>sect := 0\<rparr>, v'))"
proof -
  have vc: "valid_clst v (cs ! i)" using chain_nth(1) [OF ch i(1)] by (simp add: valid_clst_def)
  obtain x w where g: "get_fat (cs ! i) v = (x, w)" by (cases "get_fat (cs ! i) v")
  note gd = get_fat_good [OF good vc g]
  have ne: "x \<noteq> 0xFFFFFFFF" using gd(1) fat_entry_not_err by simp
  note fr = wframe_gframe [OF movesD(1) [OF gd(2)]]
  have w: "n_fatent w = n_fatent v" "clst2sect c w = clst2sect c v" for c
    using gframe_fields [OF fr] gframe_geom(6) [OF fr] by simp_all
  show ?thesis
  proof (cases "Suc i < length cs")
    case True
    have x: "x = cs ! Suc i" using chain_nth(2) [OF ch i(1) True] gd(1) by simp
    have "2 \<le> x" "x < n_fatent w" using chain_nth(1) [OF ch True] x w by simp_all
    then have "\<not> x \<le> 1" "\<not> n_fatent w \<le> x" by (simp_all add: word_le_nat_alt word_less_nat_alt)
    then show ?thesis using True gd(2) g i(2) ne x w by (auto simp: next_clust_def)
  next
    case False
    then have "n_fatent v \<le> x" using chain_nth(3) [OF ch i(1)] i gd(1) by simp
    moreover have "\<not> x \<le> 1"
      using calculation fat_good_n [OF good] by (auto simp: word_le_nat_alt)
    ultimately show ?thesis using False st gd(2) g i(2) ne w by (auto simp: next_clust_def)
  qed
qed

lemma unat_MAX: "unat (MAX_DIR) = 0x200000"
  by simp

text \<open>The outcome of a step that does not stretch the table: the next position, or the end.\<close>

definition stepped :: "vol \<Rightarrow> DWORD list \<Rightarrow> nat \<Rightarrow> FRESULT \<Rightarrow> DIR \<Rightarrow> bool" where
  "stepped v cs k r dp' \<longleftrightarrow>
     (if k + 32 < tab_size v cs \<and> k + 32 < unat (MAX_DIR) then r = FR_OK \<and> dir_at v cs (k + 32) dp'
      else r = FR_NO_FILE \<and> sect dp' = 0)"

lemma dir_at_next:
  assumes "dir_at v cs k dp" "k + 32 < tab_size v cs" "k + 32 < unat (MAX_DIR)"
    and "clust dp' = (if cs = [] then 0 else cs ! ((k + 32) div csz v))" "sect dp' = tab_sect v cs (k + 32)"
  shows "dir_at v cs (k + 32) (dp'\<lparr>dptr := of_nat (k + 32), dir := (k + 32) mod 512\<rparr>)"
proof -
  have "(k + 32) mod 32 = 0" using assms(1) by (simp add: dir_at_def)
  then show ?thesis using assms by (simp add: dir_at_def)
qed

text \<open>The code of a step below the limit of a directory, in terms of the place in the table.\<close>

lemma dir_next_code:
  assumes "fat_good v" "csize_ok v" "root_ok v" "dir_tab v dp cs" "dir_at v cs k dp" "k + 32 < 0x200000"
  shows "dir_next stretch dp v = do {
      (st, d, u) \<leftarrow>
        (if (k + 32) mod 512 \<noteq> 0 then Some (Inr (), dp, v)
         else if cs = [] then
           if k + 32 < tab_size v cs then Some (Inr (), dp\<lparr>sect := sect dp + 1\<rparr>, v) else Some (Inl FR_NO_FILE, dp\<lparr>sect := 0\<rparr>, v)
         else if (k + 32) div 512 mod unat (csize v) = 0 then next_clust stretch (dp\<lparr>sect := sect dp + 1\<rparr>) v
         else Some (Inr (), dp\<lparr>sect := sect dp + 1\<rparr>, v));
      case st of Inl r \<Rightarrow> Some (r, d, u)
        | Inr _ \<Rightarrow> Some (FR_OK, d\<lparr>dptr := of_nat (k + 32), dir := (k + 32) mod 512\<rparr>, u) }"
proof -
  have k: "k < tab_size v cs" "k mod 32 = 0" "dptr dp = of_nat k" "sect dp = tab_sect v cs k"
    "clust dp = (if cs = [] then 0 else cs ! (k div csz v))" "k < 0x200000"
    using assms(5,6) by (simp_all add: dir_at_def)
  define ofs where "ofs = dptr dp + SZDIRE"
  have u: "unat ofs = k + 32" using k(6) by (simp add: ofs_def k(3) unat_plus_if' unat_of_nat32)
  have ofs: "ofs = of_nat (k + 32)" by (simp add: ofs_def k(3))
  note nz = tab_sect_nz(1) [OF fat_goodD(2) [OF assms(1)] assms(3,2,4) k(1), folded k(4)]
  have mx: "\<not> ofs \<ge> MAX_DIR" using assms(6) by (simp add: word_le_nat_alt u)
  have m5: "unat (ofs mod SS) = (k + 32) mod 512" by (simp add: unat_mod u)
  have o5: "(ofs div SS) AND (ucast (csize v) - 1) = 0 \<longleftrightarrow> (k + 32) div 512 mod unat (csize v) = 0"
    using and_csize [OF assms(2), of "ofs div SS"] unat_div [of ofs SS] u by simp
  have lt: "ofs div SZDIRE \<ge> ucast (n_rootdir v) \<longleftrightarrow> \<not> k + 32 < tab_size v cs" if "cs = []"
    using rootdir_le [of ofs v] k(2) that by (simp add: u tab_size_def)
  have cz: "clust dp = 0 \<longleftrightarrow> cs = []"
  proof (cases "cs = []")
    case False
    then have "chain (n_fatent v) (fat_entry v) cs" using assms(4) by (simp add: dir_tab_def split: if_splits)
    moreover have "k div csz v < length cs"
      using k(1) csize_bounds(1) [OF assms(2)] False by (simp add: tab_size_def div_less_iff_less_mult mult.commute)
    ultimately have "2 \<le> clust dp" using chain_nth(1) k(5) False by simp
    then show ?thesis using False by auto
  qed (simp add: k(5))
  show ?thesis
    unfolding ofs [symmetric] m5 [symmetric] using mx nz lt
    by (cases "cs = []") (simp_all add: dir_next_def Let_def ofs_def [symmetric] o5 cz unat_eq_0)
qed

lemma dir_next_spec:
  assumes good: "fat_good v" and g: "csize_ok v" "root_ok v" and tab: "dir_tab v dp cs" and at: "dir_at v cs k dp"
    and st: "stretch \<longrightarrow> k + 32 < tab_size v cs \<or> cs = [] \<or> unat (MAX_DIR) \<le> k + 32"
  shows "\<exists>r dp' v'. dir_next stretch dp v = Some (r, dp', v') \<and> moves v v' \<and> sclust dp' = sclust dp \<and>
    stepped v cs k r dp'"
proof (cases "0x200000 \<le> k + 32")
  case True
  have u: "unat (dptr dp + SZDIRE) = k + 32" using at by (simp add: dir_at_def unat_plus_if' unat_of_nat32)
  then have "dir_next stretch dp v = Some (FR_NO_FILE, dp\<lparr>sect := 0\<rparr>, v)"
    using True by (simp add: dir_next_def word_le_nat_alt)
  then show ?thesis using True fat_goodD(1) [OF good] by (simp add: stepped_def unat_MAX)
next
  case n: False
  note wf = fat_goodD [OF good]
  have k: "k < tab_size v cs" "k mod 32 = 0" "sect dp = tab_sect v cs k"
    "clust dp = (if cs = [] then 0 else cs ! (k div csz v))"
    using at by (simp_all add: dir_at_def)
  have ts: "tab_size v cs mod 512 = 0" by (rule tab_size_step [OF g tab])
  note dn = dir_next_code [OF good g tab at, of stretch]
  have arrived: ?thesis if "dir_next stretch dp v = Some (FR_OK, d\<lparr>dptr := of_nat (k + 32), dir := (k + 32) mod 512\<rparr>, v')"
      "moves v v'" "sclust d = sclust dp" "k + 32 < tab_size v cs" "sect d = tab_sect v cs (k + 32)"
      "clust d = (if cs = [] then 0 else cs ! ((k + 32) div csz v))" for d v'
    using that n dir_at_next [OF at that(4), of "d\<lparr>dptr := of_nat (k + 32), dir := (k + 32) mod 512\<rparr>"]
    by (simp add: stepped_def)
  have ended: ?thesis if "dir_next stretch dp v = Some (FR_NO_FILE, d\<lparr>sect := 0\<rparr>, v')" "moves v v'" "sclust d = sclust dp"
      "\<not> k + 32 < tab_size v cs" for d v'
    using that by (simp add: stepped_def)
  show ?thesis
  proof (cases "(k + 32) mod 512 = 0")
    case False
    have "k + 32 \<noteq> tab_size v cs" using False ts by metis
    moreover have "32 dvd tab_size v cs" "32 dvd k"
      using mod_mod_cancel [of 32 512 "tab_size v cs"] ts k(2) by (simp_all add: mod_eq_0_iff_dvd)
    then obtain a b where "tab_size v cs = 32 * a" "k = 32 * b" by (meson dvdE)
    ultimately have lt: "k + 32 < tab_size v cs" using k(1) by simp
    show ?thesis
      by (rule arrived [where d = dp and v' = v]) (use dn n False wf lt k tab_sect_same [OF False k(2) g(1)] in simp_all)
  next
    case e: True
    define d1 where "d1 = dp\<lparr>sect := sect dp + 1\<rparr>"
    have d1: "clust d1 = clust dp" "sclust d1 = sclust dp" "sect d1 = sect dp + 1" "d1\<lparr>sect := 0\<rparr> = dp\<lparr>sect := 0\<rparr>"
      by (simp_all add: d1_def)
    show ?thesis
    proof (cases "cs = []")
      case c: True
      show ?thesis
      proof (cases "k + 32 < tab_size v cs")
        case True
        show ?thesis
          by (rule arrived [where d = d1 and v' = v])
            (use dn n e wf True k c d1 tab_sect_succ(1) [OF e g(1) c] in \<open>simp_all add: d1_def\<close>)
      next
        case False
        show ?thesis by (rule ended [where d = dp and v' = v]) (use dn n e wf False c in simp_all)
      qed
    next
      case c: False
      have ch: "chain (n_fatent v) (fat_entry v) cs" using tab c by (simp add: dir_tab_def split: if_splits)
      have lt: "j < tab_size v cs \<longleftrightarrow> j div csz v < length cs" for j
        using csize_bounds(1) [OF g(1)] c by (simp add: tab_size_def div_less_iff_less_mult mult.commute)
      have i: "k div csz v < length cs" using k(1) lt by simp
      show ?thesis
      proof (cases "(k + 32) div 512 mod unat (csize v) = 0")
        case False
        note su = tab_sect_succ(2) [OF e g(1) False]
        show ?thesis
          by (rule arrived [where d = d1 and v' = v])
            (use dn n e wf False k c d1 su i lt [of "k + 32"] in \<open>simp_all add: d1_def\<close>)
      next
        case z: True
        note su = tab_sect_succ(3) [OF e g(1) z]
        let ?c = "cs ! Suc (k div csz v)"
        have st': "stretch \<longrightarrow> Suc (k div csz v) < length cs" using st n c su lt [of "k + 32"] by simp
        have cl: "clust d1 = cs ! (k div csz v)" using k(4) c d1(1) by simp
        obtain v' where nc: "moves v v'" "next_clust stretch d1 v = Some
            (if Suc (k div csz v) < length cs then (Inr (), d1\<lparr>clust := ?c, sect := clst2sect ?c v\<rparr>, v')
             else (Inl FR_NO_FILE, d1\<lparr>sect := 0\<rparr>, v'))"
          using next_clust_step [OF good ch i cl st'] by blast
        note dn' = dn [folded d1_def, unfolded nc(2)]
        show ?thesis
        proof (cases "k + 32 < tab_size v cs")
          case True
          show ?thesis
            by (rule arrived [where d = "d1\<lparr>clust := ?c, sect := clst2sect ?c v\<rparr>" and v' = v'])
              (use dn' n e z c d1 nc(1) True su lt [of "k + 32"] in \<open>simp_all add: tab_sect_def\<close>)
        next
          case False
          show ?thesis by (rule ended [where d = d1 and v' = v']) (use dn' n e z c d1 nc(1) False su lt [of "k + 32"] in simp_all)
        qed
      qed
    qed
  qed
qed

section \<open>Clearing a cluster\<close>

text \<open>A drive with new content on some sectors.\<close>

definition ticked :: "vol \<Rightarrow> (nat \<Rightarrow> BYTE list) \<Rightarrow> vol \<Rightarrow> bool" where
  "ticked v M v' \<longleftrightarrow> (\<exists>d. v' = v\<lparr>dk := d\<rparr> \<and> media d = M \<and> denv d = denv (dk v) \<and> (healthy (dk v) \<longrightarrow> healthy d))"

lemma ticked_trans: "ticked a M b \<Longrightarrow> ticked b N c \<Longrightarrow> ticked a N c"
  by (auto simp: ticked_def)

lemma ticked_refl [simp]: "ticked v (media (dk v)) v"
  unfolding ticked_def by (rule exI [of _ "dk v"]) simp

lemma ticked_dk:
  "ticked v M (v\<lparr>dk := d\<rparr>) \<longleftrightarrow> media d = M \<and> denv d = denv (dk v) \<and> (healthy (dk v) \<longrightarrow> healthy d)"
  by (auto simp: ticked_def dest: arg_cong [where f = dk])

lemma clear_alloc_spec:
  assumes "unat szb = 512 * 2 ^ b" "clear_alloc szb v = (s, v')"
  shows "(\<exists>b' \<le> b. unat s = 512 * 2 ^ b') \<and> ticked v (media (dk v)) v'"
  using assms
proof (induction b arbitrary: szb v)
  case 0
  then have "szb = SS" by (simp add: unat_eq_iff [symmetric])
  then show ?case using 0 by (simp add: clear_alloc.simps)
next
  case (Suc b)
  have "512 < unat szb" using Suc.prems(1) one_le_power [of "2 :: nat" b] unfolding power_Suc by linarith
  then have gt: "SS < szb" by (simp add: word_less_nat_alt)
  obtain got w where m: "ff_memalloc szb v = (got, w)" by (cases "ff_memalloc szb v")
  have t: "ticked v (media (dk v)) w" "media (dk w) = media (dk v)"
    using m by (auto simp: ff_memalloc_def ticked_def denv_def healthy_def)
  show ?case
  proof (cases got)
    case True
    then have "clear_alloc szb v = (szb, w)" using gt m by (subst clear_alloc.simps) simp
    then have "s = szb" "v' = w" using Suc.prems(2) by simp_all
    then show ?thesis using Suc.prems(1) t(1) by blast
  next
    case False
    have h: "unat (szb div 2) = 512 * 2 ^ b" using Suc.prems(1) by (simp add: unat_div)
    have "clear_alloc (szb div 2) w = (s, v')"
      using Suc.prems(2) gt m False by (subst (asm) clear_alloc.simps) simp
    then show ?thesis using Suc.IH [OF h] ticked_trans [OF t(1)] t(2) by fastforce
  qed
qed

lemma write_zeros:
  assumes "healthy (dk v)" "pdrv v < 4" "m \<le> 64" "disk_write (pdrv v) (replicate (512 * m) 0) s (of_nat m) (dk v) = (r, d)"
  shows "r = RES_OK" and "ticked v (\<lambda>k. if unat s \<le> k \<and> k < unat s + m then replicate 512 0 else media (dk v) k) (v\<lparr>dk := d\<rparr>)"
proof -
  show ok: "r = RES_OK" using disk_write_healthy [OF assms(1,2)] assms(4) by (metis fst_conv)
  have "unat (of_nat m * SS :: DWORD) = m * 512"
    using assms(3) by (simp add: unat_mult_lem [THEN iffD1] unat_of_nat32)
  moreover have "slice (512 * (k - unat s)) 512 (replicate (512 * m) 0) = replicate 512 0"
    if "unat s \<le> k \<and> k < unat s + m" for k
  proof -
    have "512 \<le> 512 * m - 512 * (k - unat s)" using that by linarith
    then show ?thesis by (simp add: slice_def min_def)
  qed
  ultimately have "d = (dk v)\<lparr>clk := Suc (clk (dk v)), media := (\<lambda>k. if unat s \<le> k \<and> k < unat s + m then replicate 512 0
      else media (dk v) k)\<rparr>"
    using assms(4) ok by (auto simp: disk_write_def Let_def fun_eq_iff split: if_splits)
  then show "ticked v (\<lambda>k. if unat s \<le> k \<and> k < unat s + m then replicate 512 0 else media (dk v) k) (v\<lparr>dk := d\<rparr>)"
    by (auto simp: ticked_def denv_def healthy_def)
qed

lemma clear_fill_spec:
  assumes "drive_ok v" "0 < m" "m \<le> 64" "n + j * m = unat (csize v)" "unat sct + unat (csize v) < 2 ^ 32"
  shows "\<exists>v'. clear_fill (replicate (512 * m) 0) sct (of_nat m) (of_nat n) v = Some (ucast (csize v), v') \<and>
    ticked v (\<lambda>k. if unat sct + n \<le> k \<and> k < unat sct + unat (csize v) then replicate 512 0 else media (dk v) k) v'"
  using assms
proof (induction j arbitrary: n v)
  case 0
  have c: "(of_nat n :: DWORD) = ucast (csize v)"
    using 0 by (simp add: unat_eq_iff [symmetric] unat_of_nat32 unsigned_ucast_eq take_bit_nat_eq_self_iff
        less_le_trans [OF unsigned_less [of "csize v"]])
  have "clear_fill (replicate (512 * m) 0) sct (of_nat m) (of_nat n) v = Some (ucast (csize v), v)"
    using c by (subst clear_fill.simps) simp
  moreover have "(\<lambda>k. if unat sct + n \<le> k \<and> k < unat sct + unat (csize v) then replicate 512 0 else media (dk v) k) =
      media (dk v)" using 0 by (auto simp: fun_eq_iff)
  ultimately show ?case using ticked_refl [of v] by simp
next
  case (Suc j)
  have h: "healthy (dk v)" "pdrv v < 4" using Suc.prems(1) by (simp_all add: drive_ok_def)
  have n: "n + m \<le> unat (csize v)" "n < 2 ^ 32" using Suc.prems(2,4,5) by (simp_all add: algebra_simps)
  have cs: "unat (ucast (csize v) :: DWORD) = unat (csize v)"
    by (simp add: unsigned_ucast_eq take_bit_nat_eq_self_iff less_le_trans [OF unsigned_less [of "csize v"]])
  have lt: "(of_nat n :: DWORD) < ucast (csize v)"
    using n Suc.prems(2) cs by (simp add: word_less_nat_alt unat_of_nat32)
  have s: "unat (sct + of_nat n) = unat sct + n"
    using n Suc.prems(5) by (simp add: unat_plus_if' unat_of_nat32)
  obtain r d where w: "disk_write (pdrv v) (replicate (512 * m) 0) (sct + of_nat n) (of_nat m) (dk v) = (r, d)"
    by (cases "disk_write (pdrv v) (replicate (512 * m) 0) (sct + of_nat n) (of_nat m) (dk v)")
  note z = write_zeros [OF h Suc.prems(3) w, unfolded s]
  define u where "u = v\<lparr>dk := d\<rparr>"
  have u: "csize u = csize v" "drive_ok u" "media (dk u) = (\<lambda>k. if unat sct + n \<le> k \<and> k < unat sct + n + m then replicate 512 0
      else media (dk v) k)"
    using z(2) h by (simp_all add: ticked_dk drive_ok_def u_def)
  obtain v' where IH: "clear_fill (replicate (512 * m) 0) sct (of_nat m) (of_nat (n + m)) u = Some (ucast (csize u), v')"
    "ticked u (\<lambda>k. if unat sct + (n + m) \<le> k \<and> k < unat sct + unat (csize u) then replicate 512 0 else media (dk u) k) v'"
    using Suc.IH [OF u(2) Suc.prems(2,3), of "n + m"] Suc.prems(4,5) u(1) by (auto simp: algebra_simps)
  have e: "(\<lambda>k. if unat sct + (n + m) \<le> k \<and> k < unat sct + unat (csize u) then replicate 512 0 else media (dk u) k) =
      (\<lambda>k. if unat sct + n \<le> k \<and> k < unat sct + unat (csize v) then replicate 512 0 else media (dk v) k)"
    using n(1) by (auto simp: u fun_eq_iff)
  have "clear_fill (replicate (512 * m) 0) sct (of_nat m) (of_nat n) v = Some (ucast (csize v), v')"
    using lt w z(1) IH(1) u(1) by (subst clear_fill.simps) (simp add: u_def [symmetric] add.commute)
  then show ?case using ticked_trans [OF z(2) [folded u_def] IH(2)] e by auto
qed

lemma dir_clear_spec:
  assumes good: "fat_good v" and cz: "csize_ok v" and vc: "valid_clst v c"
  shows "\<exists>v'. dir_clear c v = Some (FR_OK, v') \<and>
    effect (\<lambda>s. unat (clst2sect c v) \<le> unat s \<and> unat s < unat (clst2sect c v) + unat (csize v)) v v' \<and>
    (\<forall>i < unat (csize v). vsec v' (clst2sect c v + of_nat i) = replicate 512 0)"
proof -
  note wf = fat_goodD [OF good]
  obtain r w where sw: "sync_window v = (r, w)" by (cases "sync_window v")
  note sy = sync_window_spec [OF wf(1) sw]
  have r: "r = FR_OK" "wflag w = 0" using sy(3,4) wf(3) by simp_all
  note fr = wframe_gframe [OF movesD(1) [OF sy(1)]]
  have gw: "csize w = csize v" "clst2sect c w = clst2sect c v" "pdrv w = pdrv v"
    using gframe_fields [OF fr] gframe_geom(6) [OF fr] by simp_all
  have wfw: "wf_win w" "drive_ok w" using movesD(2,3) [OF sy(1)] wf(3) by simp_all
  define sct where "sct = clst2sect c v"
  define x where "x = w\<lparr>winsect := sct, win := replicate 512 0\<rparr>"
  have mz: "memset 0 0 512 (win w) = replicate 512 0"
    using wfw(1) by (simp add: memset_def wf_win_def)
  obtain a where a: "a \<le> 7" "unat (csize v) = 2 ^ a" using csize_cases [OF cz] by blast
  define sz0 :: DWORD where "sz0 = (if ucast (csize v) * SS \<ge> MAX_MALLOC then MAX_MALLOC else ucast (csize v) * SS)"
  have bytes: "unat (ucast (csize v) * SS :: DWORD) = 512 * 2 ^ a" using csize_bounds(3) [OF cz] a(2) by simp
  have sz0: "unat sz0 = 512 * 2 ^ min a 6"
  proof (cases "a = 7")
    case True
    then have "MAX_MALLOC \<le> ucast (csize v) * SS" using bytes by (simp add: word_le_nat_alt)
    then show ?thesis using True by (simp add: sz0_def)
  next
    case False
    then have "a \<le> 6" using a(1) by simp
    then have "(2 :: nat) ^ a \<le> 2 ^ 6" by (rule power_increasing) simp
    then have "MAX_MALLOC \<le> ucast (csize v) * SS \<Longrightarrow> (2 :: nat) ^ a = 2 ^ 6"
      using bytes by (simp add: word_le_nat_alt)
    then show ?thesis using bytes \<open>a \<le> 6\<close> by (auto simp: sz0_def min_def)
  qed
  obtain szb y where ca: "clear_alloc sz0 x = (szb, y)" by (cases "clear_alloc sz0 x")
  obtain b where b: "b \<le> min a 6" "unat szb = 512 * 2 ^ b" and y: "ticked x (media (dk w)) y"
    using clear_alloc_spec [OF sz0 ca] by (auto simp: x_def)
  define m :: nat where "m = 2 ^ b"
  have m: "0 < m" "m \<le> 64" "m dvd unat (csize v)" "unat szb = 512 * m"
    using b a(2) power_increasing [of b 6 "2 :: nat"] by (simp_all add: m_def le_imp_power_dvd)
  have yx: "csize y = csize v" "drive_ok y" "media (dk y) = media (dk w)" "pdrv y = pdrv v"
    using y wfw(2) gw by (auto simp: ticked_def x_def drive_ok_def)
  have lt: "unat sct + unat (csize y) < 2 ^ 32" using unat_clst2sect(2) [OF wf(2) vc] yx(1) by (simp add: sct_def)
  have md: "0 + unat (csize v) div m * m = unat (csize y)" using m(3) yx(1) by simp
  obtain z where fi: "clear_fill (replicate (512 * m) 0) sct (of_nat m) 0 y = Some (ucast (csize y), z)"
    and z: "ticked y (\<lambda>k. if unat sct \<le> k \<and> k < unat sct + unat (csize y) then replicate 512 0 else media (dk y) k) z"
    using clear_fill_spec [OF yx(2) m(1,2) md lt] by auto
  have zc: "csize z = csize v" using z yx(1) by (auto simp: ticked_def)
  have dc: "dir_clear c v = Some (FR_OK, z)"
  proof (cases "SS < szb")
    case True
    have "szb div SS = of_nat m" using m(2,4) by (simp add: unat_eq_iff [symmetric] unat_div unat_of_nat32)
    then show ?thesis using sw r True ca fi m(4) yx(1) gw zc
      by (simp add: dir_clear_def sct_def [symmetric] mz x_def [symmetric] sz0_def [symmetric])
  next
    case False
    then have "m = 1" using m by (simp add: word_less_nat_alt)
    moreover have "win y = replicate 512 0" using y by (auto simp: ticked_def x_def)
    ultimately show ?thesis using sw r False ca fi yx(1) gw zc
      by (simp add: dir_clear_def sct_def [symmetric] mz x_def [symmetric] sz0_def [symmetric])
  qed
  define M where "M = (\<lambda>k. if unat sct \<le> k \<and> k < unat sct + unat (csize v) then replicate 512 0 else media (dk w) k)"
  have zx: "ticked x M z" using ticked_trans [OF y z] unfolding M_def yx(1,3) .
  then obtain d where d: "z = x\<lparr>dk := d\<rparr>" "media d = M" "denv d = denv (dk w)" "healthy (dk w) \<longrightarrow> healthy d"
    by (auto simp: ticked_def x_def)
  have "gframe w z" using d(3) by (simp add: gframe_iff d(1) x_def)
  then have gf: "gframe v z" by (rule gframe_trans [OF fr])
  have zsec: "vsec z s = M (unat s)" for s
    using csize_bounds(1) [OF cz] by (auto simp: vsec_def d(1,2) x_def M_def)
  have wfz: "wf_win z"
    using csize_bounds(1) [OF cz] wfw(1) by (auto simp: wf_win_def d(1,2) x_def M_def wf_media_def)
  have keep: "vsec z s = vsec v s"
    if "s \<noteq> DISK_ERR" "\<not> mirrored v s" "\<not> (unat sct \<le> unat s \<and> unat s < unat sct + unat (csize v))" for s
  proof -
    have "vsec z s = media (dk w) (unat s)" using zsec that(3) by (auto simp: M_def)
    also have "\<dots> = vsec w s" using wfw(1) r(2) that(1) by (auto simp: vsec_def wf_win_def)
    also have "\<dots> = vsec v s" by (rule movesD(4) [OF sy(1) that(1,2)])
    finally show ?thesis .
  qed
  have "drive_ok z" using wfw(2) d by (simp add: drive_ok_def x_def)
  then have "effect (\<lambda>s. unat sct \<le> unat s \<and> unat s < unat sct + unat (csize v)) v z"
    using gf wfz keep by (simp add: effect_def)
  moreover have "vsec z (sct + of_nat i) = replicate 512 0" if "i < unat (csize v)" for i
    using that lt yx(1) by (simp add: zsec M_def unat_plus_if' unat_of_nat32)
  ultimately show ?thesis using dc by (auto simp: sct_def)
qed

section \<open>Stretching a table\<close>

lemma stretch_outcome:
  assumes good: "fat_good v" and ch: "chain (n_fatent v) (fat_entry v) cs"
  shows "\<exists>r v'. create_chain (last cs) v = Some (r, v') \<and> effect (in_fat v) v v' \<and>
    (r = 0 \<and> (free_clst v = 0 \<or> free_set v = {}) \<or> r = 1 \<and> (\<exists>d. valid_clst v d \<and> fat_entry v d = 1) \<or>
     r \<in> free_set v \<and> chain (n_fatent v) (fat_entry v') (cs @ [r]))"
proof -
  note wf = fat_goodD [OF good]
  obtain r v' where c: "create_chain (last cs) v = Some (r, v')" "create_ok (last cs) v r v'"
    using create_chain_spec [OF wf(1,2)] by blast
  have "cs \<noteq> []" using ch by auto
  then have lv: "valid_clst v (last cs)" using chain_valid [OF ch, of "last cs"] by (simp add: valid_clst_def)
  have le: "n_fatent v \<le> fat_entry v (last cs)" by (rule chain_last [OF ch])
  then have "\<not> fat_entry v (last cs) < 2 \<and> \<not> valid_clst v (fat_entry v (last cs))"
    using vol_ok_bounds(6) [OF wf(2)] by (auto simp: valid_clst_def word_le_nat_alt word_less_nat_alt)
  moreover have "effect (in_fat v) v v'" using c(2) moves_effect [of v v' "in_fat v"] by (auto simp: create_ok_def)
  ultimately show ?thesis
    using c lv wf(3) claimed_chain(1) [OF wf(2) ch]
    by (intro exI [of _ r] exI [of _ v']) (auto simp: create_ok_def free_set_def)
qed

text \<open>Writing the sectors of a cluster leaves the table alone.\<close>

lemma cluster_not_fat:
  assumes "vol_ok v" "valid_clst v c" "k < 512 * unat (fsize v)"
  shows "\<not> unat (clst2sect c v) \<le> unat (fatsec v k)"
proof -
  have "k div 512 < unat (fsize v)" using assms(3) by (simp add: less_mult_imp_div_less mult.commute)
  moreover have "unat (fatbase v) + unat (n_fats v) * unat (fsize v) \<le> unat (database v)" "n_fats v \<in> {1, 2}"
    using assms(1) by (simp_all add: vol_ok_def)
  moreover have "unat (fsize v) \<le> unat (n_fats v) * unat (fsize v)" using calculation(3) by auto
  ultimately show ?thesis using unat_fatsec [OF assms(1,3)] unat_clst2sect(1) [OF assms(1,2)] by linarith
qed

lemma cluster_effect_entry:
  assumes "vol_ok v" "valid_clst v c" "valid_clst v d"
    and "effect (\<lambda>s. unat (clst2sect c v) \<le> unat s \<and> unat s < unat (clst2sect c v) + unat (csize v)) v v'"
  shows "fat_entry v' d = fat_entry v d"
proof -
  note e = effectD [OF assms(4)]
  have "fatbyte v' k = fatbyte v k" if "k < 512 * unat (fsize v)" for k
  proof -
    note ok = fatsec_ok [OF assms(1) that] and nf = cluster_not_fat [OF assms(1,2) that]
    have "vsec v' (fatsec v k) = vsec v (fatsec v k)" using e(9) [OF ok(1,2)] nf by simp
    then show ?thesis using gframe_geom(4) [OF e(1)] by (simp add: fatbyte_def)
  qed
  then show ?thesis using dec_entry_cong [OF assms(1,3), of "fatbyte v'" "fatbyte v"] e(8) by (simp add: fat_entry_def)
qed

lemma dir_next_stretch:
  assumes good: "fat_good v" and g: "csize_ok v" "root_ok v" and tab: "dir_tab v dp cs" and at: "dir_at v cs k dp"
    and ed: "cs \<noteq> []" "k + 32 = tab_size v cs" "k + 32 < unat (MAX_DIR)"
  shows "\<exists>r dp' v'. dir_next True dp v = Some (r, dp', v') \<and>
    (r = FR_DENIED \<and> (free_clst v = 0 \<or> free_set v = {}) \<or> r = FR_INT_ERR \<and> (\<exists>d. valid_clst v d \<and> fat_entry v d = 1) \<or>
     r = FR_OK \<and> (\<exists>c. c \<in> free_set v \<and> chain (n_fatent v) (fat_entry v') (cs @ [c]) \<and> dir_at v' (cs @ [c]) (k + 32) dp' \<and>
       (\<forall>i < unat (csize v). vsec v' (clst2sect c v + of_nat i) = replicate 512 0)))"
proof -
  note wf = fat_goodD [OF good]
  have ch: "chain (n_fatent v) (fat_entry v) cs" using tab ed(1) by (simp add: dir_tab_def split: if_splits)
  have pos: "0 < csz v" using csize_bounds(1) [OF g(1)] by simp
  have k: "k < tab_size v cs" "k mod 32 = 0" "dptr dp = of_nat k" "sect dp = tab_sect v cs k"
    "clust dp = cs ! (k div csz v)"
    using at ed(1) by (simp_all add: dir_at_def)
  have ts: "k + 32 = csz v * length cs" using ed(1,2) by (simp add: tab_size_def)
  have i: "k div csz v < length cs" using k(1) pos ed(1) by (simp add: tab_size_def div_less_iff_less_mult mult.commute)
  have m5: "(k + 32) mod 512 = 0" "(k + 32) div 512 = unat (csize v) * length cs" by (simp_all add: ts)
  then have z: "(k + 32) div 512 mod unat (csize v) = 0" by simp
  have "Suc (k div csz v) = length cs" using tab_sect_succ(3) [OF m5(1) g(1) z] ts pos by simp
  then have "k div csz v = length cs - 1" by linarith
  then have last: "clust dp = last cs" using k(5) ed(1) by (simp add: last_conv_nth)
  define d1 where "d1 = dp\<lparr>sect := sect dp + 1\<rparr>"
  have lv: "2 \<le> last cs" "last cs < n_fatent v" using chain_valid [OF ch, of "last cs"] ed(1) by simp_all
  then have lc: "valid_clst v (last cs)" by (simp add: valid_clst_def)
  have dn: "dir_next True dp v = do {
      (st, dp, v) \<leftarrow> next_clust True d1 v;
      case st of Inl r \<Rightarrow> Some (r, dp, v) | Inr u \<Rightarrow> Some (FR_OK, dp\<lparr>dptr := of_nat (k + 32), dir := 0\<rparr>, v) }"
    using dir_next_code [OF good g tab at, of True, unfolded m5(1) z] ed by (simp add: d1_def)
  obtain x w where gf: "get_fat (last cs) v = (x, w)" by (cases "get_fat (last cs) v")
  note gd = get_fat_good [OF good lc gf]
  have x: "n_fatent v \<le> x" "x \<noteq> 0xFFFFFFFF" using chain_last [OF ch] gd(1) fat_entry_not_err by simp_all
  have x1: "\<not> x \<le> 1" using x(1) fat_good_n [OF good] by (auto simp: word_le_nat_alt)
  note fr = wframe_gframe [OF movesD(1) [OF gd(2)]]
  note fw = gframe_fields [OF fr]
  have chw: "chain (n_fatent w) (fat_entry w) cs" by (rule moves_chain [OF gd(2) wf(2) ch])
  obtain r y where cc: "create_chain (last cs) w = Some (r, y)" and ey: "effect (in_fat w) w y" and
    out: "r = 0 \<and> (free_clst w = 0 \<or> free_set w = {}) \<or> r = 1 \<and> (\<exists>d. valid_clst w d \<and> fat_entry w d = 1) \<or>
     r \<in> free_set w \<and> chain (n_fatent w) (fat_entry y) (cs @ [r])"
    using stretch_outcome [OF gd(3) chw] by blast
  have same: "free_clst w = free_clst v" "free_set w = free_set v" "valid_clst w = valid_clst v"
    "\<And>d. valid_clst v d \<Longrightarrow> fat_entry w d = fat_entry v d"
    using wframe_fields [OF movesD(1) [OF gd(2)]] wframe_geom(2) [OF movesD(1) [OF gd(2)]] fat_entry_moves [OF gd(2) wf(2)]
    by (auto simp: free_set_def)
  have c1: "clust d1 = last cs" using last by (simp add: d1_def)
  have nc: "next_clust True d1 v = do {
             (clst, v) \<leftarrow> create_chain (last cs) w;
             if clst = 0 then Some (Inl FR_DENIED, d1, v)
             else if clst = 1 then Some (Inl FR_INT_ERR, d1, v)
             else if clst = 0xFFFFFFFF then Some (Inl FR_DISK_ERR, d1, v)
             else do {
               (r, v) \<leftarrow> dir_clear clst v;
               if r \<noteq> FR_OK then Some (Inl FR_DISK_ERR, d1, v)
               else Some (Inr (), d1\<lparr>clust := clst, sect := clst2sect clst v\<rparr>, v) } }"
    using gf x x1 fw(10) by (simp add: next_clust_def c1)
  consider "r = 0" "free_clst v = 0 \<or> free_set v = {}" | "r = 1" "\<exists>d. valid_clst v d \<and> fat_entry v d = 1"
    | "r \<in> free_set v" "chain (n_fatent w) (fat_entry y) (cs @ [r])"
    using out same by metis
  then show ?thesis
  proof cases
    case 1
    then show ?thesis using dn nc cc by simp
  next
    case 2
    then show ?thesis using dn nc cc by simp
  next
    case 3
    have vr: "valid_clst v r" using 3(1) by (simp add: free_set_def)
    then have r: "r \<noteq> 0" "r \<noteq> 1" "r \<noteq> 0xFFFFFFFF"
      using vol_ok_small [OF wf(2)] by (auto simp: valid_clst_def word_le_nat_alt word_less_nat_alt)
    note ed' = effectD [OF ey]
    have gy: "fat_good y" using ed'(2,3,4) fat_goodD [OF gd(3)] by (simp add: fat_good_def)
    note fy = gframe_fields [OF gframe_trans [OF fr ed'(1)]] and gmy = gframe_geom [OF gframe_trans [OF fr ed'(1)]]
    have cy: "csize_ok y" using g(1) fy by (simp add: csize_ok_def)
    have vy: "valid_clst y r" using vr gmy(2) by simp
    obtain q where dc: "dir_clear r y = Some (FR_OK, q)" and
      eq: "effect (\<lambda>s. unat (clst2sect r y) \<le> unat s \<and> unat s < unat (clst2sect r y) + unat (csize y)) y q" and
      zq: "\<forall>i < unat (csize y). vsec q (clst2sect r y + of_nat i) = replicate 512 0"
      using dir_clear_spec [OF gy cy vy] by blast
    note gq = gframe_trans [OF gframe_trans [OF fr ed'(1)] effectD(1) [OF eq]]
    note fq = gframe_fields [OF gq] and gmq = gframe_geom [OF gq]
    define d2 where "d2 = d1\<lparr>clust := r, sect := clst2sect r q, dptr := of_nat (k + 32), dir := 0\<rparr>"
    have res: "dir_next True dp v = Some (FR_OK, d2, q)"
      using dn nc cc r dc by (simp add: d2_def)
    have "chain (n_fatent v) (fat_entry q) (cs @ [r])"
      using chain_cong [of "cs @ [r]" "fat_entry q" "fat_entry y" "n_fatent v"] 3(2) fw(10)
        cluster_effect_entry [OF fat_goodD(2) [OF gy] vy _ eq] chain_valid [OF 3(2)] gmy(2)
      by (auto simp: valid_clst_def)
    moreover have "dir_at q (cs @ [r]) (k + 32) d2"
    proof -
      have cq: "csz q = csz v" using fq by simp
      have "(k + 32) div csz v = length cs" "(k + 32) mod csz v = 0" using pos by (simp_all add: ts)
      moreover have "k + 32 < tab_size q (cs @ [r])" using pos by (simp add: tab_size_def cq ts)
      moreover have "(k + 32) mod 32 = 0" using k(2) by simp
      ultimately show ?thesis using ed(3) m5(1) by (simp add: dir_at_def d2_def tab_sect_def cq)
    qed
    moreover have "\<forall>i < unat (csize v). vsec q (clst2sect r v + of_nat i) = replicate 512 0"
      using zq fy gmy by simp
    ultimately show ?thesis using res 3(1) by blast
  qed
qed

section \<open>Properties\<close>

definition ex_dir :: "DWORD \<Rightarrow> DIR" where
  "ex_dir start = \<lparr>obj_fs = 1, obj_id = 1, obj_attr = 0x10, obj_stat = 0, sclust = start, objsize = 0, dptr = 0,
     clust = 0, sect = 0, dir = 0, fn = [], blk_ofs = 0, pat = []\<rparr>"

lemma ex_dir_ok: "csize_ok ex_vol" "root_ok ex_vol" "dir_tab ex_vol (ex_dir 2) [2, 3]" "dir_tab ex_vol (ex_dir 0) []"
  using ex_chain by (simp_all add: csize_ok_def root_ok_def dir_tab_def tab_start_def ex_dir_def word_le_nat_alt)

lemma ex_dir_at:
  "dir_at ex_vol [2, 3] 480 ((ex_dir 2)\<lparr>dptr := 480, clust := 2, sect := 4, dir := 480\<rparr>)"
  "dir_at ex_vol [2, 3] 992 ((ex_dir 2)\<lparr>dptr := 992, clust := 3, sect := 5, dir := 480\<rparr>)"
  by (simp_all add: dir_at_def tab_size_def tab_sect_def clst2sect_def ex_dir_def word_le_nat_alt)

text \<open>C21: On a working drive \<open>dir_sdi\<close> puts the index of a directory on any entry of its table: the
cluster, the sector and the offset in the sector are those of the table position, whether the table
is a cluster chain or the fixed root directory; an offset beyond the table is reported.\<close>

theorem dir_sdi_correct:
  assumes "fat_good v" "csize_ok v" "root_ok v" "dir_tab v dp cs" "ofs < MAX_DIR" "ofs mod SZDIRE = 0"
  shows "\<exists>r dp' v'. dir_sdi ofs dp v = Some (r, dp', v') \<and> moves v v' \<and>
    (if unat ofs < tab_size v cs then r = FR_OK \<and> dir_at v cs (unat ofs) dp' else r = FR_INT_ERR)"
  using dir_sdi_spec [OF assms] by blast

theorem dir_sdi_correct_witness:
  "\<exists>dp' v'. dir_sdi 512 (ex_dir 2) ex_vol = Some (FR_OK, dp', v') \<and> clust dp' = 3 \<and> sect dp' = 5 \<and> dir dp' = 0"
  using dir_sdi_correct [OF ex_vol_good ex_dir_ok(1,2,3), of 512]
  by (auto simp: tab_size_def dir_at_def tab_sect_def clst2sect_def word_le_nat_alt)

text \<open>C28: Walking a directory with \<open>dir_next\<close> visits the positions that \<open>dir_sdi\<close> reaches: a step from
one position ends on the same cluster, sector and offset as positioning at the next entry directly,
and at the end of the table it reports that there are no more entries.\<close>

theorem dir_next_correct:
  assumes "fat_good v" "csize_ok v" "root_ok v" "dir_tab v dp cs" "dir_at v cs k dp"
  shows "\<exists>r dp' v'. dir_next False dp v = Some (r, dp', v') \<and> moves v v' \<and>
    (if k + 32 < tab_size v cs \<and> k + 32 < unat (MAX_DIR)
     then r = FR_OK \<and> (\<exists>d w. dir_sdi (of_nat (k + 32)) dp v = Some (FR_OK, d, w) \<and>
       (clust d, sect d, dir d, dptr d) = (clust dp', sect dp', dir dp', dptr dp'))
     else r = FR_NO_FILE \<and> sect dp' = 0)"
proof -
  obtain r dp' v' where n: "dir_next False dp v = Some (r, dp', v')" "moves v v'" "stepped v cs k r dp'"
    using dir_next_spec [OF assms, of False] by blast
  show ?thesis
  proof (cases "k + 32 < tab_size v cs \<and> k + 32 < unat (MAX_DIR)")
    case True
    have u: "unat (of_nat (k + 32) :: DWORD) = k + 32" using True by (intro unat_of_nat32) simp
    have "(k + 32) mod 32 = 0" using assms(5) by (simp add: dir_at_def)
    then have "of_nat (k + 32) < (MAX_DIR :: DWORD)" "of_nat (k + 32) mod (SZDIRE :: DWORD) = 0"
      using True u by (simp_all only: word_less_nat_alt unat_eq_0 [symmetric] unat_mod) simp
    then obtain d w where "dir_sdi (of_nat (k + 32)) dp v = Some (FR_OK, d, w)" "dir_at v cs (k + 32) d"
      using dir_sdi_spec [OF assms(1-4), of "of_nat (k + 32)"] True u by auto
    moreover have "r = FR_OK" "dir_at v cs (k + 32) dp'" using n(3) True by (simp_all add: stepped_def)
    ultimately show ?thesis using n(1,2) True by (auto simp: dir_at_def)
  next
    case False
    then show ?thesis using n by (auto simp: stepped_def)
  qed
qed

theorem dir_next_correct_witness:
  "\<exists>dp' v'. dir_next False ((ex_dir 2)\<lparr>dptr := 480, clust := 2, sect := 4, dir := 480\<rparr>) ex_vol = Some (FR_OK, dp', v')"
proof -
  have "dir_tab ex_vol ((ex_dir 2)\<lparr>dptr := 480, clust := 2, sect := 4, dir := 480\<rparr>) [2, 3]"
    using ex_dir_ok(3) by (simp add: dir_tab_def tab_start_def ex_dir_def word_le_nat_alt)
  then show ?thesis
    using dir_next_correct [OF ex_vol_good ex_dir_ok(1,2) _ ex_dir_at(1)] by (auto simp: tab_size_def)
qed

text \<open>At the end of a cluster chain \<open>dir_next\<close> with stretching either reports that no cluster is free
or that the table of clusters is inconsistent, or extends the chain by a cluster that was free, all of
whose sectors are now zero, and stands on its first entry.\<close>

theorem dir_next_stretches:
  assumes "fat_good v" "csize_ok v" "root_ok v" "dir_tab v dp cs" "dir_at v cs k dp"
    and "cs \<noteq> []" "k + 32 = tab_size v cs" "k + 32 < unat (MAX_DIR)"
  shows "\<exists>r dp' v'. dir_next True dp v = Some (r, dp', v') \<and>
    (r = FR_DENIED \<and> (free_clst v = 0 \<or> free_set v = {}) \<or> r = FR_INT_ERR \<and> (\<exists>d. valid_clst v d \<and> fat_entry v d = 1) \<or>
     r = FR_OK \<and> (\<exists>c. c \<in> free_set v \<and> chain (n_fatent v) (fat_entry v') (cs @ [c]) \<and> dir_at v' (cs @ [c]) (k + 32) dp' \<and>
       (\<forall>i < unat (csize v). vsec v' (clst2sect c v + of_nat i) = replicate 512 0)))"
  by (rule dir_next_stretch [OF assms])

theorem dir_next_stretches_witness:
  "\<exists>dp' v' c. dir_next True ((ex_dir 2)\<lparr>dptr := 992, clust := 3, sect := 5, dir := 480\<rparr>) ex_vol = Some (FR_OK, dp', v') \<and>
     c \<in> {4, 5, 6, 7, 8, 9} \<and> chain 10 (fat_entry v') [2, 3, c]"
proof -
  have t: "dir_tab ex_vol ((ex_dir 2)\<lparr>dptr := 992, clust := 3, sect := 5, dir := 480\<rparr>) [2, 3]"
    using ex_dir_ok(3) by (simp add: dir_tab_def tab_start_def ex_dir_def word_le_nat_alt)
  show ?thesis
    using dir_next_stretches [OF ex_vol_good ex_dir_ok(1,2) t ex_dir_at(2)] ex_no_one
    by (auto simp: tab_size_def ex_free_set)
qed

end
