(* ===== verification/FatFileProps.thy ===== *)
theory FatFileProps
  imports FatFile FatDirIdxProps
begin

text \<open>
  Files as byte arrays: the content of an open file as a function of its clusters, the sectors on the medium and the sector
  cache of the file object, and the operations on the file pointer against that content.
\<close>

section \<open>Where the window is\<close>

text \<open>Access to the table leaves the window on a sector of the table.\<close>

lemma move_parked:
  assumes "wf_win v" "vol_ok v" "drive_ok v" "k < 512 * unat (fsize v)" "move_window (fatsec v k) v = (r, v')"
  shows "r = FR_OK" "in_fat v (winsect v')"
  using move_window_spec(3,4) [OF assms(1,5)] assms(3) fatsec_ok(3) [OF assms(2,4)] by auto

lemma get_fat_parked:
  assumes "wf_win v" "vol_ok v" "drive_ok v" "valid_clst v c" "get_fat c v = (x, v')"
  shows "in_fat v (winsect v')"
proof -
  note o = offsets [OF assms(2,4)]
  show ?thesis
    using assms(2)
  proof (cases rule: fs_type_cases)
    case t12
    let ?k = "unat c + unat c div 2"
    obtain r1 v1 where m1: "move_window (fatsec v ?k) v = (r1, v1)" by (cases "move_window (fatsec v ?k) v")
    have k: "?k < 512 * unat (fsize v)" "Suc ?k < 512 * unat (fsize v)" using o(5) [OF t12] by simp_all
    note p1 = move_parked [OF assms(1-3) k(1) m1] and s1 = move_step [OF assms(1,2) k(1) m1]
    have d1: "drive_ok v1" using movesD(3) [OF s1(1)] assms(3) by simp
    obtain r2 v2 where m2: "move_window (fatsec v1 (Suc ?k)) v1 = (r2, v2)" by (cases "move_window (fatsec v1 (Suc ?k)) v1")
    have "in_fat v1 (winsect v2)" using move_parked(2) [OF s1(3,4) d1 _ m2] k(2) s1(5) by simp
    then show ?thesis
      using assms(5) [unfolded get_fat12 [OF assms(2,4) t12] Let_def] m1 m2 p1 move_parked(1) [OF s1(3,4) d1 _ m2] k(2) s1(5,6)
      by (simp add: in_fat_def split: if_splits)
  next
    case t16
    have k: "2 * unat c < 512 * unat (fsize v)" using o(6) [OF t16] by simp
    obtain r1 v1 where m1: "move_window (fatsec v (2 * unat c)) v = (r1, v1)" by (cases "move_window (fatsec v (2 * unat c)) v")
    show ?thesis using assms(5) m1 move_parked [OF assms(1-3) k m1] by (simp add: get_fat16 [OF assms(2,4) t16])
  next
    case t32
    have k: "4 * unat c < 512 * unat (fsize v)" using o(7) [OF t32] by simp
    obtain r1 v1 where m1: "move_window (fatsec v (4 * unat c)) v = (r1, v1)" by (cases "move_window (fatsec v (4 * unat c)) v")
    show ?thesis using assms(5) m1 move_parked [OF assms(1-3) k m1] by (simp add: get_fat32 [OF assms(2,4) t32])
  qed
qed

lemma put_fat_parked:
  assumes "wf_win v" "vol_ok v" "drive_ok v" "valid_clst v c" "put_fat c x v = (r, v')"
  shows "in_fat v (winsect v')"
proof -
  note o = offsets [OF assms(2,4)]
  show ?thesis
    using assms(2)
  proof (cases rule: fs_type_cases)
    case t12
    let ?k = "unat c + unat c div 2"
    obtain r1 v1 where m1: "move_window (fatsec v ?k) v = (r1, v1)" by (cases "move_window (fatsec v ?k) v")
    have k: "?k < 512 * unat (fsize v)" "Suc ?k < 512 * unat (fsize v)" using o(5) [OF t12] by simp_all
    note p1 = move_parked [OF assms(1-3) k(1) m1] and s1 = move_step [OF assms(1,2) k(1) m1]
    define b where "b = (if odd (unat c) then (win v1 ! (?k mod 512) AND 0x0F) OR push_bit 4 (ucast x) else ucast x)"
    define u where "u = v1\<lparr>win := (win v1)[?k mod 512 := b], wflag := 1\<rparr>"
    have len: "length ((win v1)[?k mod 512 := b]) = 512" using length_win [OF s1(3)] by simp
    note st = store_step [OF assms(1,2) k(1) m1 [unfolded p1(1)] len, folded u_def]
    have du: "drive_ok u" using touches_drive [OF st(1) assms(3)] .
    obtain r2 v2 where m2: "move_window (fatsec u (Suc ?k)) u = (r2, v2)" by (cases "move_window (fatsec u (Suc ?k)) u")
    have "in_fat u (winsect v2)" "r2 = FR_OK" using move_parked [OF st(3,2) du _ m2] k(2) st(4) by simp_all
    moreover have "fatsec v1 = fatsec u" by (simp add: u_def)
    moreover have "in_fat u = in_fat v" using wframe_geom(3) [of v u] st(1) by (simp add: touches_def)
    ultimately show ?thesis
      using assms(5) [unfolded put_fat12 [OF assms(2,4) t12] Let_def] m1 m2 p1(1)
      by (simp add: u_def [symmetric] b_def [symmetric]) auto
  next
    case t16
    have k: "2 * unat c < 512 * unat (fsize v)" using o(6) [OF t16] by simp
    obtain r1 v1 where m1: "move_window (fatsec v (2 * unat c)) v = (r1, v1)" by (cases "move_window (fatsec v (2 * unat c)) v")
    show ?thesis using assms(5) m1 move_parked [OF assms(1-3) k m1] by (auto simp: put_fat16 [OF assms(2,4) t16])
  next
    case t32
    have k: "4 * unat c < 512 * unat (fsize v)" using o(7) [OF t32] by simp
    obtain r1 v1 where m1: "move_window (fatsec v (4 * unat c)) v = (r1, v1)" by (cases "move_window (fatsec v (4 * unat c)) v")
    show ?thesis using assms(5) m1 move_parked [OF assms(1-3) k m1] by (auto simp: put_fat32 [OF assms(2,4) t32] Let_def)
  qed
qed

definition roams :: "vol \<Rightarrow> vol \<Rightarrow> bool" where
  "roams v v' \<longleftrightarrow> winsect v' = winsect v \<or> in_fat v (winsect v')"

lemma get_fat_roams: "fat_good v \<Longrightarrow> get_fat c v = (x, v') \<Longrightarrow> roams v v'"
  using get_fat_parked [OF fat_goodD] get_fat_invalid [of v c] by (cases "valid_clst v c") (auto simp: roams_def)

lemma roams_trans: "moves v v1 \<Longrightarrow> roams v v1 \<Longrightarrow> roams v1 v2 \<Longrightarrow> roams v v2"
  using wframe_geom(3) [OF movesD(1)] by (auto simp: roams_def)

lemma create_scan_roams:
  "create_scan scl ncl v = Some y \<Longrightarrow> fat_good v \<Longrightarrow> roams v (snd y)"
proof (induction scl ncl v y rule: create_scan.raw_induct [rotated, consumes 1, case_names step])
  case (step rec scl ncl v y)
  define m where "m = (if ncl + 1 \<ge> n_fatent v then 2 else ncl + 1)"
  obtain cs v1 where g: "get_fat m v = (cs, v1)" by (cases "get_fat m v")
  have r: "roams v v1" by (rule get_fat_roams [OF step(3) g])
  have mv: "moves v v1" by (rule get_fat_spec(1) [OF fat_goodD(1,2) [OF step(3)] g])
  have "roams v (snd y)" if "rec scl m v1 = Some y"
    by (rule roams_trans [OF mv r], rule step(1) [OF that fat_good_moves [OF step(3) mv]])
  then show ?case
    using step(2) r g by (auto simp: Let_def m_def [symmetric] roams_def split: if_splits)
qed

lemma create_find_roams:
  assumes "create_find clst scl v = Some (r, v')" "fat_good v"
  shows "roams v v'"
proof (cases "scl = clst")
  case False
  then show ?thesis using assms create_scan_roams [of scl scl v] by (force simp: create_find_def)
next
  case True
  define m where "m = (if n_fatent v \<le> scl + 1 then 2 else scl + 1)"
  obtain cs v1 where g: "get_fat m v = (cs, v1)" by (cases "get_fat m v")
  have r: "roams v v1" by (rule get_fat_roams [OF assms(2) g])
  have mv: "moves v v1" by (rule get_fat_spec(1) [OF fat_goodD(1,2) [OF assms(2)] g])
  have "roams v v'" if "create_scan t t v1 = Some (r, v')" for t
    using roams_trans [OF mv r] create_scan_roams [OF that fat_good_moves [OF assms(2) mv]] by simp
  moreover define t where "t = (if 2 \<le> last_clst v1 \<and> last_clst v1 < n_fatent v1 then last_clst v1 else scl)"
  have "create_find clst scl v =
      (if cs = 1 \<or> cs = DISK_ERR then Some (Inl cs, v1)
       else if cs \<noteq> 0 then create_scan t t v1 else Some (Inr m, v1))"
    unfolding create_find_def Let_def m_def [symmetric] using True g by (simp add: t_def)
  ultimately show ?thesis using assms(1) r by (auto split: if_splits)
qed

text \<open>Stretching: the window ends on the table when there is a cluster, and has at most moved there otherwise.\<close>

lemma create_claim_parked:
  assumes "fat_good v" "valid_clst v c" "clst = 0 \<or> valid_clst v clst" "create_claim clst c v = (r, v')"
  shows "in_fat v (winsect v')"
proof -
  obtain r1 v1 where p1: "put_fat c DISK_ERR v = (r1, v1)" by (cases "put_fat c DISK_ERR v")
  note s1 = put_fat_spec [OF fat_goodD(1,2) [OF assms(1)] assms(2) p1]
  note k1 = put_fat_parked [OF fat_goodD [OF assms(1)] assms(2) p1]
  have g1: "fat_good v1" by (rule fat_good_touches [OF assms(1) s1(1)])
  obtain r2 v2 where p2: "(if r1 = FR_OK \<and> clst \<noteq> 0 then put_fat clst c v1 else (r1, v1)) = (r2, v2)"
    by (cases "if r1 = FR_OK \<and> clst \<noteq> 0 then put_fat clst c v1 else (r1, v1)")
  have "in_fat v (winsect v2)"
  proof (cases "r1 = FR_OK \<and> clst \<noteq> 0")
    case True
    then have "put_fat clst c v1 = (r2, v2)" "valid_clst v1 clst"
      using p2 assms(3) touches_keeps(3) [OF s1(1)] by simp_all
    then show ?thesis using put_fat_parked [OF fat_goodD [OF g1]] touches_in_fat [OF s1(1)] by auto
  next
    case False
    then show ?thesis using p2 k1 by (auto split: if_splits)
  qed
  then show ?thesis using assms(4) p1 p2 by (auto simp: create_claim_def Let_def split: if_splits)
qed

lemma create_chain_parked:
  assumes "fat_good v" "create_chain clst v = Some (r, v')"
  shows "roams v v'" "2 \<le> r \<Longrightarrow> in_fat v (winsect v')"
proof -
  note wf = fat_goodD [OF assms(1)]
  obtain st v1 where c1: "create_start clst v = (st, v1)" by (cases "create_start clst v")
  have m1: "moves v v1" and sok: "start_ok clst v st" using create_start_spec [OF wf(1,2) c1] by blast+
  have g1: "fat_good v1" by (rule fat_good_moves [OF assms(1) m1])
  have r1: "roams v v1 \<and> (\<forall>e. st = Inl e \<and> 2 \<le> e \<longrightarrow> in_fat v (winsect v1))"
  proof (cases "clst = 0")
    case True
    then show ?thesis using c1 by (auto simp: create_start_def roams_def split: if_splits)
  next
    case False
    obtain cs w where g: "get_fat clst v = (cs, w)" by (cases "get_fat clst v")
    have w: "v1 = w" using c1 g False by (auto simp: create_start_def split: if_splits)
    have "valid_clst v clst" if "st = Inl e" "2 \<le> e" for e
      using sok that wf(3) by (auto simp: start_ok_def word_le_nat_alt)
    then show ?thesis using get_fat_roams [OF assms(1) g] get_fat_parked [OF wf _ g] w by blast
  qed
  note f = wframe_geom [OF movesD(1) [OF m1]]
  have "roams v v' \<and> (2 \<le> r \<longrightarrow> in_fat v (winsect v'))"
  proof (cases st)
    case (Inl e)
    then show ?thesis using assms(2) c1 r1 by (simp add: create_chain_unfold)
  next
    case (Inr scl)
    show ?thesis
    proof (cases "free_clst v1 = 0")
      case True
      then show ?thesis using assms(2) c1 r1 Inr by (simp add: create_chain_unfold)
    next
      case nz: False
      have scl: "1 \<le> scl" "scl < n_fatent v1"
        using sok Inr wframe_fields(13) [OF movesD(1) [OF m1]] by (auto simp: start_ok_def)
      obtain r2 v2 where cf: "create_find clst scl v1 = Some (r2, v2)" "moves v1 v2" "scan_ok v1 r2"
        using create_find_spec [OF fat_goodD(1,2) [OF g1] scl] by blast
      have rv: "roams v v2" using roams_trans [OF m1 _ create_find_roams [OF cf(1) g1]] r1 by blast
      show ?thesis
      proof (cases r2)
        case (Inl e)
        then have "e = 0 \<or> e = 1" using cf(3) fat_goodD(3) [OF g1] by (auto simp: scan_ok_def)
        then have "\<not> 2 \<le> e" by (auto simp: word_le_nat_alt)
        then show ?thesis using assms(2) c1 \<open>st = Inr scl\<close> nz cf Inl rv by (simp add: create_chain_unfold)
      next
        case (Inr c)
        note m2 = moves_trans [OF m1 cf(2)]
        note f2 = wframe_geom [OF movesD(1) [OF m2]]
        have "valid_clst v2 c" using cf(3) Inr f(2) f2(2) by (simp add: scan_ok_def)
        moreover have "clst = 0 \<or> valid_clst v2 clst" using sok \<open>st = Inr scl\<close> f2(2) by (auto simp: start_ok_def)
        moreover have "create_claim clst c v2 = (r, v')"
          using assms(2) c1 \<open>st = Inr scl\<close> nz cf Inr by (simp add: create_chain_unfold)
        ultimately have "in_fat v2 (winsect v')" using create_claim_parked [OF fat_good_moves [OF assms(1) m2]] by blast
        then show ?thesis using f2(3) by (simp add: roams_def)
      qed
    qed
  qed
  then show "roams v v'" "2 \<le> r \<Longrightarrow> in_fat v (winsect v')" by simp_all
qed

section \<open>The sectors of a file\<close>

definition file_sect :: "vol \<Rightarrow> DWORD list \<Rightarrow> nat \<Rightarrow> DWORD" where
  "file_sect v cs k = clst2sect (cs ! (k div unat (csize v))) v + of_nat (k mod unat (csize v))"

abbreviation sectors :: "vol \<Rightarrow> DWORD list \<Rightarrow> nat" where "sectors v cs \<equiv> unat (csize v) * length cs"

definition clusters :: "vol \<Rightarrow> DWORD list \<Rightarrow> bool" where
  "clusters v cs \<longleftrightarrow> vol_ok v \<and> csize_ok v \<and> distinct cs \<and> (\<forall>c \<in> set cs. valid_clst v c)"

lemma sector_cluster:
  assumes "clusters v cs" "k < sectors v cs"
  shows "k div unat (csize v) < length cs" "k mod unat (csize v) < unat (csize v)" "valid_clst v (cs ! (k div unat (csize v)))"
proof -
  have pos: "0 < unat (csize v)" using assms(1) csize_bounds(1) by (simp add: clusters_def)
  show k: "k div unat (csize v) < length cs" using assms(2) pos by (simp add: div_less_iff_less_mult mult.commute)
  show "k mod unat (csize v) < unat (csize v)" using pos by simp
  show "valid_clst v (cs ! (k div unat (csize v)))" using assms(1) k by (simp add: clusters_def)
qed

lemma unat_file_sect:
  assumes "clusters v cs" "k < sectors v cs"
  shows "unat (file_sect v cs k) =
      unat (database v) + unat (csize v) * (unat (cs ! (k div unat (csize v))) - 2) + k mod unat (csize v)"
    and "unat (clst2sect (cs ! (k div unat (csize v))) v) = unat (database v) + unat (csize v) * (unat (cs ! (k div unat (csize v))) - 2)"
    and "unat (database v) + unat (csize v) * (unat (cs ! (k div unat (csize v))) - 2) + unat (csize v) < 2 ^ 32"
proof -
  note c = sector_cluster [OF assms]
  have ok: "vol_ok v" using assms(1) by (simp add: clusters_def)
  note u = unat_clst2sect(1,2) [OF ok c(3)]
  show "unat (clst2sect (cs ! (k div unat (csize v))) v) = unat (database v) + unat (csize v) * (unat (cs ! (k div unat (csize v))) - 2)"
    by (rule u(1))
  show "unat (database v) + unat (csize v) * (unat (cs ! (k div unat (csize v))) - 2) + unat (csize v) < 2 ^ 32" using u by simp
  have "unat (of_nat (k mod unat (csize v)) :: DWORD) = k mod unat (csize v)"
    using c(2) u by (intro unat_of_nat32) linarith
  then show "unat (file_sect v cs k) =
      unat (database v) + unat (csize v) * (unat (cs ! (k div unat (csize v))) - 2) + k mod unat (csize v)"
    using u c(2) by (simp add: file_sect_def unat_plus_if')
qed

lemma file_sect_next:
  assumes "clusters v cs" "k < sectors v cs" "k mod unat (csize v) + i < unat (csize v)"
  shows "unat (file_sect v cs (k + i)) = unat (file_sect v cs k) + i" "k + i < sectors v cs"
    "(k + i) div unat (csize v) = k div unat (csize v)"
proof -
  have d: "(k + i) div unat (csize v) = k div unat (csize v)" "(k + i) mod unat (csize v) = k mod unat (csize v) + i"
    using assms(3) div_mult_mod_eq [of k "unat (csize v)"]
      div_mult_self3 [of "unat (csize v)" "k div unat (csize v)" "k mod unat (csize v) + i"]
      mod_mult_self3 [of "k div unat (csize v)" "unat (csize v)" "k mod unat (csize v) + i"]
    by (simp_all add: add.assoc [symmetric])
  then show "(k + i) div unat (csize v) = k div unat (csize v)" by simp
  have "(k + i) div unat (csize v) < length cs" using sector_cluster(1) [OF assms(1,2)] d by simp
  then show k: "k + i < sectors v cs" using assms(3) by (simp add: div_less_iff_less_mult mult.commute)
  show "unat (file_sect v cs (k + i)) = unat (file_sect v cs k) + i"
    using unat_file_sect(1) [OF assms(1,2)] unat_file_sect(1) [OF assms(1) k] d by simp
qed

lemma file_sect_inj:
  assumes "clusters v cs" "j < sectors v cs" "k < sectors v cs" "file_sect v cs j = file_sect v cs k"
  shows "j = k"
proof -
  let ?n = "unat (csize v)"
  note j = sector_cluster [OF assms(1,2)] and k = sector_cluster [OF assms(1,3)]
  have e: "?n * (unat (cs ! (j div ?n)) - 2) + j mod ?n = ?n * (unat (cs ! (k div ?n)) - 2) + k mod ?n"
    using unat_file_sect(1) [OF assms(1,2)] unat_file_sect(1) [OF assms(1,3)] assms(4) by simp
  have m: "j mod ?n = k mod ?n" using arg_cong [OF e, of "\<lambda>x. x mod ?n"] by simp
  have "unat (cs ! (j div ?n)) - 2 = unat (cs ! (k div ?n)) - 2" using e m j(2) by simp
  moreover have "2 \<le> unat (cs ! (j div ?n))" "2 \<le> unat (cs ! (k div ?n))"
    using j(3) k(3) by (simp_all add: valid_clst_def word_le_nat_alt)
  ultimately have "cs ! (j div ?n) = cs ! (k div ?n)" by (simp add: word_unat_eq_iff)
  then have "j div ?n = k div ?n" using assms(1) j(1) k(1) by (simp add: clusters_def nth_eq_iff_index_eq)
  then show ?thesis using m div_mult_mod_eq [of j ?n] div_mult_mod_eq [of k ?n] by metis
qed

text \<open>They lie behind the tables.\<close>

lemma file_sect_data:
  assumes "clusters v cs" "k < sectors v cs"
  shows "file_sect v cs k \<noteq> 0" "file_sect v cs k \<noteq> DISK_ERR" "\<not> in_fat v (file_sect v cs k)" "\<not> mirrored v (file_sect v cs k)"
proof -
  let ?s = "file_sect v cs k"
  have ok: "vol_ok v" using assms(1) by (simp add: clusters_def)
  have db: "unat (fatbase v) + unat (n_fats v) * unat (fsize v) \<le> unat (database v)" "n_fats v \<in> {1, 2}" "0 < unat (fsize v)"
    using ok by (auto simp: vol_ok_def fat_size_def Let_def)
  have u: "unat (database v) \<le> unat ?s" "unat ?s < 2 ^ 32 - 1"
    using unat_file_sect [OF assms] sector_cluster(2) [OF assms] by linarith+
  have f: "unat (fsize v) \<le> unat (n_fats v) * unat (fsize v)" using db(2) by auto
  have "0 < unat ?s" using u(1) db(1,3) f by linarith
  then show "?s \<noteq> 0" by auto
  show "?s \<noteq> DISK_ERR" using u(2) by (auto simp: word_unat_eq_iff)
  have le: "unat (fatbase v) \<le> unat ?s" using u(1) db(1) by simp
  have d: "unat (?s - fatbase v) = unat ?s - unat (fatbase v)" using le by (simp add: unat_sub word_le_nat_alt)
  have far: "unat (fsize v) \<le> unat (?s - fatbase v)" using d u(1) db(1) f by linarith
  then show "\<not> in_fat v ?s" by (simp add: in_fat_def word_less_nat_alt)
  show "\<not> mirrored v ?s"
  proof
    assume m: "mirrored v ?s"
    then have "unat (n_fats v) * unat (fsize v) = 2 * unat (fsize v)" by (simp add: mirrored_def)
    then have two: "2 * unat (fsize v) \<le> unat (?s - fatbase v)" using d u(1) db(1) by linarith
    have "unat (?s - fatbase v - fsize v) = unat (?s - fatbase v) - unat (fsize v)"
      using far by (simp add: unat_sub word_le_nat_alt)
    then have "unat (fsize v) \<le> unat (?s - fatbase v - fsize v)" using two by linarith
    moreover have "?s - fatbase v - fsize v < fsize v" using m diff_right_commute [of ?s "fsize v" "fatbase v"] by (simp add: mirrored_def)
    ultimately show False by (simp add: word_less_nat_alt)
  qed
qed

lemma clusters_chain:
  assumes "vol_ok v" "csize_ok v" "chain (n_fatent v) (fat_entry v) cs"
  shows "clusters v cs"
  using assms chain_distinct [OF assms(3)] chain_valid [OF assms(3)] by (auto simp: clusters_def valid_clst_def)

lemma clusters_Nil: "vol_ok v \<Longrightarrow> csize_ok v \<Longrightarrow> clusters v []"
  by (simp add: clusters_def)

text \<open>What the geometry depends on.\<close>

lemma gframe_file:
  assumes "gframe v v'"
  shows "file_sect v' cs k = file_sect v cs k" "sectors v' cs = sectors v cs" "clusters v' cs = clusters v cs"
    "csize_ok v' = csize_ok v"
  using gframe_geom [OF assms] gframe_fields [OF assms]
  by (simp_all add: file_sect_def clusters_def csize_ok_def)

section \<open>The content of a file\<close>

text \<open>A sector of the file: the cache of the file object has precedence over the medium.\<close>

definition file_sec :: "FIL \<Rightarrow> vol \<Rightarrow> DWORD list \<Rightarrow> nat \<Rightarrow> BYTE list" where
  "file_sec fp v cs k = (if fsect fp = file_sect v cs k then buf fp else vsec v (file_sect v cs k))"

definition file_byte :: "FIL \<Rightarrow> vol \<Rightarrow> DWORD list \<Rightarrow> nat \<Rightarrow> BYTE" where
  "file_byte fp v cs p = file_sec fp v cs (p div 512) ! (p mod 512)"

definition content :: "FIL \<Rightarrow> vol \<Rightarrow> DWORD list \<Rightarrow> BYTE list" where
  "content fp v cs = map (file_byte fp v cs) [0..<unat (objsize fp)]"

text \<open>The volume, with the window on no sector of the file.\<close>

definition data_ok :: "vol \<Rightarrow> DWORD list \<Rightarrow> bool" where
  "data_ok v cs \<longleftrightarrow> fat_good v \<and> clusters v cs \<and> (\<forall>k < sectors v cs. winsect v \<noteq> file_sect v cs k)"

text \<open>
  The sector cache: a sector of the file when it is dirty, a copy of the medium when it is not.  The copy may be stale behind
  the end of the file, where a cluster that has been given back can come back.
\<close>

definition cache_ok :: "FIL \<Rightarrow> vol \<Rightarrow> DWORD list \<Rightarrow> bool" where
  "cache_ok fp v cs \<longleftrightarrow> length (buf fp) = 512 \<and>
     (if flag fp AND FA_DIRTY \<noteq> 0 then \<exists>k < sectors v cs. fsect fp = file_sect v cs k
      else \<forall>k < sectors v cs. 512 * k < unat (objsize fp) \<longrightarrow> fsect fp = file_sect v cs k \<longrightarrow>
        buf fp = vsec v (file_sect v cs k))"

text \<open>An open file: its chain and its size, and the cluster and the sector of the file pointer.\<close>

definition disk_file :: "FIL \<Rightarrow> vol \<Rightarrow> DWORD list \<Rightarrow> bool" where
  "disk_file fp v cs \<longleftrightarrow> data_ok v cs \<and> cache_ok fp v cs \<and>
     (if cs = [] then sclust fp = 0 else sclust fp = hd cs \<and> chain (n_fatent v) (fat_entry v) cs) \<and>
     unat (objsize fp) \<le> csz v * length cs"

definition pointer_ok :: "FIL \<Rightarrow> vol \<Rightarrow> DWORD list \<Rightarrow> bool" where
  "pointer_ok fp v cs \<longleftrightarrow> unat (fptr fp) \<le> unat (objsize fp) \<and>
     (0 < unat (fptr fp) \<longrightarrow> fclust fp = cs ! ((unat (fptr fp) - 1) div csz v)) \<and>
     (unat (fptr fp) mod 512 \<noteq> 0 \<longrightarrow> fsect fp = file_sect v cs (unat (fptr fp) div 512))"

definition file_ok :: "FIL \<Rightarrow> vol \<Rightarrow> DWORD list \<Rightarrow> bool" where
  "file_ok fp v cs \<longleftrightarrow> disk_file fp v cs \<and> pointer_ok fp v cs"

lemma length_content [simp]: "length (content fp v cs) = unat (objsize fp)"
  by (simp add: content_def)

lemma nth_content: "i < unat (objsize fp) \<Longrightarrow> content fp v cs ! i = file_byte fp v cs i"
  by (simp add: content_def)

lemma length_file_sec: "data_ok v cs \<Longrightarrow> cache_ok fp v cs \<Longrightarrow> length (file_sec fp v cs k) = 512"
  by (simp add: file_sec_def cache_ok_def data_ok_def fat_good_def length_vsec)

section \<open>Transfers\<close>

lemma vsec_data: "data_ok v cs \<Longrightarrow> k < sectors v cs \<Longrightarrow> vsec v (file_sect v cs k) = media (dk v) (unat (file_sect v cs k))"
  by (auto simp: vsec_def data_ok_def)

text \<open>Reading sectors of a cluster directly.\<close>

lemma read_sectors:
  assumes "data_ok v cs" "k < sectors v cs" "0 < n" "k mod unat (csize v) + n \<le> unat (csize v)" "unat c = n"
    and "disk_read (pdrv v) (file_sect v cs k) c (dk v) = (r, bs, d)"
  shows "r = RES_OK" "bs = concat (map (\<lambda>i. vsec v (file_sect v cs (k + i))) [0..<n])"
    "moves v (v\<lparr>dk := d\<rparr>)" "data_ok (v\<lparr>dk := d\<rparr>) cs" "media d = media (dk v)"
proof -
  have g: "fat_good v" and c: "clusters v cs" using assms(1) by (simp_all add: data_ok_def)
  have h: "healthy (dk v)" "pdrv v < 4" using fat_goodD(3) [OF g] by (simp_all add: drive_ok_def)
  show r: "r = RES_OK" using disk_read_healthy [OF h, of "file_sect v cs k" c] assms(6) by simp
  have n: "n \<le> 128" using assms(4) csize_bounds(2) [of v] c by (simp add: clusters_def)
  then have nS: "unat (c * SS) div 512 = n" using assms(5) by (simp add: unat_mult_lem [THEN iffD1])
  have "media (dk v) (unat (file_sect v cs k) + i) = vsec v (file_sect v cs (k + i))" if "i < n" for i
    using file_sect_next(1,2) [OF c assms(2), of i] that assms(4) vsec_data [OF assms(1), of "k + i"] by simp
  then show "bs = concat (map (\<lambda>i. vsec v (file_sect v cs (k + i))) [0..<n])"
    using assms(6) r nS by (auto simp: disk_read_def Let_def split: if_splits intro!: arg_cong [where f = concat])
  have d: "d = (dk v)\<lparr>clk := clk d\<rparr>" "clk (dk v) \<le> clk d"
    using assms(6) r by (auto simp: disk_read_def Let_def split: if_splits)
  then show "media d = media (dk v)" by (metis ddev.select_convs(3) ddev.surjective ddev.update_convs(4))
  have e: "denv d = denv (dk v)" by (subst d(1)) (simp add: denv_def)
  have hd: "healthy d" using h(1) d(2) by (subst d(1)) (simp add: healthy_def)
  show m: "moves v (v\<lparr>dk := d\<rparr>)"
    using fat_goodD(1) [OF g] \<open>media d = media (dk v)\<close> e hd h(2)
    by (simp add: moves_def wframe_def wf_win_def wf_media_def vsec_def drive_ok_def)
  show "data_ok (v\<lparr>dk := d\<rparr>) cs"
    using assms(1) fat_good_moves [OF g m] gframe_file [OF wframe_gframe [OF movesD(1) [OF m]]] by (simp add: data_ok_def)
qed

text \<open>A change of sectors outside the table changes no entry.\<close>

lemma effect_entry:
  assumes "vol_ok v" "valid_clst v c" "effect S v v'" "\<And>s. S s \<Longrightarrow> \<not> in_fat v s"
  shows "fat_entry v' c = fat_entry v c"
proof -
  note e = effectD [OF assms(3)]
  have "fatbyte v' k = fatbyte v k" if "k < 512 * unat (fsize v)" for k
  proof -
    note ok = fatsec_ok [OF assms(1) that]
    have "vsec v' (fatsec v k) = vsec v (fatsec v k)" using e(9) [OF ok(1,2)] assms(4) ok(3) by blast
    then show ?thesis using gframe_geom(4) [OF e(1)] by (simp add: fatbyte_def)
  qed
  then show ?thesis using dec_entry_cong [OF assms(1,2), of "fatbyte v'" "fatbyte v"] e(8) by (simp add: fat_entry_def)
qed

definition in_file :: "vol \<Rightarrow> DWORD list \<Rightarrow> DWORD \<Rightarrow> bool" where
  "in_file v cs s \<longleftrightarrow> (\<exists>k < sectors v cs. s = file_sect v cs k)"

lemma write_sectors:
  assumes "data_ok v cs" "k < sectors v cs" "0 < n" "k mod unat (csize v) + n \<le> unat (csize v)" "unat c = n" "512 * n \<le> length w"
    and "disk_write (pdrv v) w (file_sect v cs k) c (dk v) = (r, d)"
  shows "r = RES_OK" "effect (in_file v cs) v (v\<lparr>dk := d\<rparr>)" "data_ok (v\<lparr>dk := d\<rparr>) cs"
    and "j < sectors v cs \<Longrightarrow> vsec (v\<lparr>dk := d\<rparr>) (file_sect v cs j) =
      (if k \<le> j \<and> j < k + n then slice (512 * (j - k)) 512 w else vsec v (file_sect v cs j))"
proof -
  have g: "fat_good v" and c: "clusters v cs" using assms(1) by (simp_all add: data_ok_def)
  have h: "healthy (dk v)" "pdrv v < 4" using fat_goodD(3) [OF g] by (simp_all add: drive_ok_def)
  show r: "r = RES_OK" using disk_write_healthy [OF h, of w "file_sect v cs k" c] assms(7) by simp
  have n: "n \<le> 128" using assms(4) csize_bounds(2) [of v] c by (simp add: clusters_def)
  then have nS: "unat (c * SS) div 512 = n" using assms(5) by (simp add: unat_mult_lem [THEN iffD1])
  define u where "u = unat (file_sect v cs k)"
  define M where "M = (\<lambda>t. if u \<le> t \<and> t < u + n then slice (512 * (t - u)) 512 w else media (dk v) t)"
  have d: "d = (dk v)\<lparr>clk := clk d, media := M\<rparr>" "clk (dk v) \<le> clk d"
    using assms(7) r nS by (auto simp: disk_write_def Let_def M_def u_def cong: if_cong split: if_split_asm)
  have M: "media d = M" by (subst d(1)) simp
  have e: "denv d = denv (dk v)" by (subst d(1)) (simp add: denv_def)
  have hd: "healthy d" using h(1) d(2) by (subst d(1)) (simp add: healthy_def)
  have inside: "\<exists>i < n. t = file_sect v cs (k + i)" if "u \<le> unat t" "unat t < u + n" for t
  proof -
    let ?i = "unat t - u"
    have "unat (file_sect v cs (k + ?i)) = unat t" "?i < n"
      using file_sect_next(1) [OF c assms(2), of ?i] that assms(4) by (simp_all add: u_def)
    then show ?thesis by (auto simp: word_unat_eq_iff intro!: exI [of _ ?i])
  qed
  have next': "k + i < sectors v cs" "unat (file_sect v cs (k + i)) = u + i" if "i < n" for i
    using file_sect_next(1,2) [OF c assms(2), of i] that assms(4) by (simp_all add: u_def)
  have "length (M t) = 512" for t
    using assms(6) fat_goodD(1) [OF g] by (auto simp: M_def slice_def wf_win_def wf_media_def min_def)
  moreover have "M (unat (winsect v)) = media (dk v) (unat (winsect v))"
  proof -
    have "\<not> (u \<le> unat (winsect v) \<and> unat (winsect v) < u + n)"
      using inside [of "winsect v"] next'(1) assms(1) by (auto simp: data_ok_def)
    then show ?thesis by (auto simp: M_def)
  qed
  ultimately have wf: "wf_win (v\<lparr>dk := d\<rparr>)" using fat_goodD(1) [OF g] by (auto simp: wf_win_def wf_media_def M)
  have keep: "vsec (v\<lparr>dk := d\<rparr>) s = vsec v s" if "\<not> in_file v cs s" for s
    using inside [of s] next'(1) that by (auto simp: vsec_def M M_def in_file_def)
  have gf: "gframe v (v\<lparr>dk := d\<rparr>)" using e by (simp add: gframe_iff)
  show eff: "effect (in_file v cs) v (v\<lparr>dk := d\<rparr>)"
    using gf wf keep hd h(2) by (auto simp: effect_def drive_ok_def)
  have "fat_good (v\<lparr>dk := d\<rparr>)" using effectD(2-4) [OF eff] fat_goodD [OF g] by (simp add: fat_good_def)
  then show "data_ok (v\<lparr>dk := d\<rparr>) cs" using assms(1) gframe_file [OF gf] by (simp add: data_ok_def)
  show "vsec (v\<lparr>dk := d\<rparr>) (file_sect v cs j) =
      (if k \<le> j \<and> j < k + n then slice (512 * (j - k)) 512 w else vsec v (file_sect v cs j))" if j: "j < sectors v cs"
  proof (cases "k \<le> j \<and> j < k + n")
    case True
    then obtain i where i: "j = k + i" "i < n" using le_Suc_ex by fastforce
    have "vsec (v\<lparr>dk := d\<rparr>) (file_sect v cs (k + i)) = M (unat (file_sect v cs (k + i)))"
      using next'(1) [OF i(2)] assms(1) by (auto simp: vsec_def data_ok_def M)
    then show ?thesis using i next'(2) [OF i(2)] by (simp add: M_def)
  next
    case False
    then have "\<not> (u \<le> unat (file_sect v cs j) \<and> unat (file_sect v cs j) < u + n)"
      using inside [of "file_sect v cs j"] file_sect_inj [OF c j] next'(1) by (metis le_add1 nat_add_left_cancel_less)
    then show ?thesis using False by (auto simp: vsec_def M M_def)
  qed
qed

section \<open>The sector cache\<close>

lemma not_dirty: "(x :: BYTE) AND 0x80 = 0 \<Longrightarrow> x AND NOT 0x80 = x"
proof -
  assume z: "x AND 0x80 = 0"
  have "(x AND 0x80) OR (x AND NOT 0x80) = x" by (simp only: bit.conj_disj_distrib [symmetric] bit.disj_cancel_right bit.conj_one_right)
  then show ?thesis unfolding z by simp
qed

lemma clean_flag [simp]:
  "((x :: BYTE) AND NOT 0x80) AND 0x80 = 0" "((x :: BYTE) AND - 129) AND 0x80 = 0" "((x :: BYTE) OR 0x80) AND 0x80 \<noteq> 0"
proof -
  show "(x AND NOT 0x80) AND 0x80 = 0" "(x AND - 129) AND 0x80 = 0" by (simp_all add: and.assoc)
  have "bit (x OR 0x80) 7" by (simp add: bit_or_iff)
  then have "bit ((x OR 0x80) AND 0x80) 7" by (simp add: bit_and_iff)
  then show "(x OR 0x80) AND 0x80 \<noteq> 0" by fastforce
qed

text \<open>Sectors and cache after a change that respects the content.\<close>

definition same_file :: "FIL \<Rightarrow> vol \<Rightarrow> FIL \<Rightarrow> vol \<Rightarrow> DWORD list \<Rightarrow> bool" where
  "same_file fp v fp' v' cs \<longleftrightarrow> data_ok v' cs \<and> cache_ok fp' v' cs \<and> effect (in_file v cs) v v' \<and>
     objsize fp' = objsize fp \<and> sclust fp' = sclust fp \<and>
     (\<forall>k < sectors v cs. 512 * k < unat (objsize fp) \<longrightarrow> file_sec fp' v' cs k = file_sec fp v cs k)"

lemma same_file_refl: "data_ok v cs \<Longrightarrow> cache_ok fp v cs \<Longrightarrow> same_file fp v fp v cs"
  by (simp add: same_file_def data_ok_def fat_good_def)

lemma in_file_gframe: "gframe v v' \<Longrightarrow> in_file v' cs = in_file v cs"
  by (simp add: in_file_def gframe_file gframe_fields fun_eq_iff)

lemma same_file_trans:
  "same_file fp v fp1 v1 cs \<Longrightarrow> same_file fp1 v1 fp2 v2 cs \<Longrightarrow> same_file fp v fp2 v2 cs"
  using effect_trans [of "in_file v cs" v v1 v2] in_file_gframe [of v v1 cs] gframe_file(2) [of v v1 cs] effectD(1)
  by (auto simp: same_file_def)

definition flush_if :: "FIL \<Rightarrow> vol \<Rightarrow> bool \<times> FIL \<times> vol" where
  "flush_if fp v = (if flag fp AND FA_DIRTY \<noteq> 0 then flush_buf fp v else (True, fp, v))"

lemma flush_if_ok:
  assumes "data_ok v cs" "cache_ok fp v cs" "flush_if fp v = (ok, fp', v')"
  shows "ok" "fp' = fp\<lparr>flag := flag fp AND NOT FA_DIRTY\<rparr>" "same_file fp v fp' v' cs"
proof -
  have "ok \<and> fp' = fp\<lparr>flag := flag fp AND NOT FA_DIRTY\<rparr> \<and> same_file fp v fp' v' cs"
  proof (cases "flag fp AND FA_DIRTY = 0")
    case True
    then show ?thesis
      using assms not_dirty [OF True] same_file_refl [OF assms(1,2)] by (simp add: flush_if_def)
  next
    case False
    obtain k where k: "k < sectors v cs" "fsect fp = file_sect v cs k"
      using assms(2) False by (auto simp: cache_ok_def)
    obtain r d where w: "disk_write (pdrv v) (buf fp) (file_sect v cs k) 1 (dk v) = (r, d)"
      by (cases "disk_write (pdrv v) (buf fp) (file_sect v cs k) 1 (dk v)")
    have len: "length (buf fp) = 512" using assms(2) by (simp add: cache_ok_def)
    have c: "clusters v cs" using assms(1) by (simp add: data_ok_def)
    have km: "k mod unat (csize v) + 1 \<le> unat (csize v)" using sector_cluster(2) [OF c k(1)] by simp
    have wr: "r = RES_OK" "effect (in_file v cs) v (v\<lparr>dk := d\<rparr>)" "data_ok (v\<lparr>dk := d\<rparr>) cs"
      "\<And>j. j < sectors v cs \<Longrightarrow> vsec (v\<lparr>dk := d\<rparr>) (file_sect v cs j) =
        (if k \<le> j \<and> j < k + 1 then FatPrelude.slice (512 * (j - k)) 512 (buf fp) else vsec v (file_sect v cs j))"
      using write_sectors [OF assms(1) k(1) _ km _ _ w] len by simp_all
    have res: "ok" "fp' = fp\<lparr>flag := flag fp AND NOT FA_DIRTY\<rparr>" "v' = v\<lparr>dk := d\<rparr>"
      using assms(3) False k(2) w wr(1) by (simp_all add: flush_if_def flush_buf_def)
    have s: "file_sect v' cs j = file_sect v cs j" "sectors v' cs = sectors v cs" for j
      using gframe_file [OF effectD(1) [OF wr(2)]] res(3) by simp_all
    have vk: "vsec v' (file_sect v cs j) = (if j = k then buf fp else vsec v (file_sect v cs j))" if "j < sectors v cs" for j
      using wr(4) [OF that] len by (auto simp: res(3) slice_all)
    have "cache_ok fp' v' cs"
      using vk file_sect_inj [OF c _ k(1)] k(2) len by (auto simp: cache_ok_def s res(2))
    moreover have "file_sec fp' v' cs j = file_sec fp v cs j" if "j < sectors v cs" for j
      using vk [OF that] file_sect_inj [OF c that k(1)] k(2) by (auto simp: file_sec_def s res(2))
    ultimately show ?thesis using res wr(2,3) by (auto simp: same_file_def)
  qed
  then show "ok" "fp' = fp\<lparr>flag := flag fp AND NOT FA_DIRTY\<rparr>" "same_file fp v fp' v' cs" by blast+
qed

lemma fill_buf_ok:
  assumes "data_ok v cs" "k < sectors v cs" "fill_buf (file_sect v cs k) fp v = (ok, fp', v')"
  shows "ok" "fp' = fp\<lparr>buf := vsec v (file_sect v cs k)\<rparr>" "moves v v'" "data_ok v' cs"
proof -
  obtain r bs d where rd: "disk_read (pdrv v) (file_sect v cs k) 1 (dk v) = (r, bs, d)"
    by (cases "disk_read (pdrv v) (file_sect v cs k) 1 (dk v)")
  have c: "clusters v cs" using assms(1) by (simp add: data_ok_def)
  have km: "k mod unat (csize v) + 1 \<le> unat (csize v)" using sector_cluster(2) [OF c assms(2)] by simp
  note r = read_sectors [OF assms(1,2) _ km _ rd, simplified]
  show "ok" "fp' = fp\<lparr>buf := vsec v (file_sect v cs k)\<rparr>" "moves v v'" "data_ok v' cs"
    using assms(3) rd r by (simp_all add: fill_buf_def)
qed

text \<open>Loading another sector into a clean cache.\<close>

lemma fill_sector:
  assumes "data_ok v cs" "cache_ok fp v cs" "flag fp AND FA_DIRTY = 0" "k < sectors v cs" "512 * k < unat (objsize fp)"
    and "fill_buf (file_sect v cs k) fp v = (ok, fp', v')"
  shows "ok" "same_file fp v (fp'\<lparr>fsect := file_sect v cs k\<rparr>) v' cs" "fp' = fp\<lparr>buf := file_sec fp v cs k\<rparr>" "moves v v'"
proof -
  note fi = fill_buf_ok [OF assms(1,4,6)]
  have c: "clusters v cs" using assms(1) by (simp add: data_ok_def)
  have cache: "buf fp = vsec v (file_sect v cs j)" if "j < sectors v cs" "512 * j < unat (objsize fp)" "fsect fp = file_sect v cs j" for j
    using assms(2,3) that by (simp add: cache_ok_def)
  have fs: "file_sec fp v cs j = vsec v (file_sect v cs j)" if "j < sectors v cs" "512 * j < unat (objsize fp)" for j
    using cache [OF that] by (auto simp: file_sec_def)
  show "ok" "moves v v'" by (rule fi)+
  show f: "fp' = fp\<lparr>buf := file_sec fp v cs k\<rparr>" using fi(2) fs [OF assms(4,5)] by simp
  let ?fp = "fp'\<lparr>fsect := file_sect v cs k\<rparr>"
  note gf = gframe_file [OF wframe_gframe [OF movesD(1) [OF fi(3)]]]
  have cz: "csize v' = csize v" by (rule gframe_fields(7) [OF wframe_gframe [OF movesD(1) [OF fi(3)]]])
  have vs: "vsec v' (file_sect v cs j) = vsec v (file_sect v cs j)" if "j < sectors v cs" for j
    using movesD(4) [OF fi(3)] file_sect_data(2,4) [OF c that] by blast
  have len: "length (vsec v (file_sect v cs k)) = 512"
    using assms(1) length_vsec by (simp add: data_ok_def fat_good_def)
  have "cache_ok ?fp v' cs"
    using assms(3,4) len vs file_sect_inj [OF c _ assms(4)] by (auto simp: cache_ok_def fi(2) gf(1) cz)
  moreover have "file_sec ?fp v' cs j = file_sec fp v cs j" if "j < sectors v cs" "512 * j < unat (objsize fp)" for j
    using vs [OF that(1)] fs [OF that] file_sect_inj [OF c that(1) assms(4)] by (auto simp: file_sec_def fi(2) gf(1))
  ultimately show "same_file fp v ?fp v' cs"
    using fi(4) moves_effect [OF fi(3)] fi(2) by (simp add: same_file_def)
qed

text \<open>Files under changes that respect their content.\<close>

lemma same_file_content:
  assumes "disk_file fp v cs" "same_file fp v fp' v' cs"
  shows "disk_file fp' v' cs" "content fp' v' cs = content fp v cs" "file_sect v' cs = file_sect v cs" "csize v' = csize v"
proof -
  have s: "data_ok v' cs" "cache_ok fp' v' cs" "effect (in_file v cs) v v'" "objsize fp' = objsize fp" "sclust fp' = sclust fp"
    "\<And>k. k < sectors v cs \<Longrightarrow> 512 * k < unat (objsize fp) \<Longrightarrow> file_sec fp' v' cs k = file_sec fp v cs k"
    using assms(2) by (simp_all add: same_file_def)
  note e = effectD [OF s(3)] and gf = gframe_file [OF effectD(1) [OF s(3)]]
  have c: "clusters v cs" "fat_good v" using assms(1) by (simp_all add: disk_file_def data_ok_def)
  have ent: "fat_entry v' c = fat_entry v c" if "valid_clst v c" for c
    using effect_entry [OF fat_goodD(2) [OF c(2)] that s(3)] file_sect_data(3) [OF c(1)] by (auto simp: in_file_def)
  have cs: "csize v' = csize v" by (rule gframe_fields(7) [OF e(1)])
  have "chain (n_fatent v') (fat_entry v') cs = chain (n_fatent v) (fat_entry v) cs"
    using chain_cong [of cs "fat_entry v'" "fat_entry v" "n_fatent v"] ent c(1) e(6) by (simp add: clusters_def)
  then show "disk_file fp' v' cs" using assms(1) s cs by (simp add: disk_file_def)
  have lt: "q div 512 < sectors v cs" if "q < unat (objsize fp)" for q
    using that assms(1) by (simp add: disk_file_def less_mult_imp_div_less mult.commute mult.left_commute)
  have "file_byte fp' v' cs q = file_byte fp v cs q" if "q < unat (objsize fp)" for q
    using s(6) [OF lt [OF that]] that by (simp add: file_byte_def)
  then show "content fp' v' cs = content fp v cs" using s(4) by (simp add: content_def)
  show "file_sect v' cs = file_sect v cs" "csize v' = csize v" using gf(1) cs by (simp_all add: fun_eq_iff)
qed

end
