(* ===== verification/FatFileRead.thy ===== *)
theory FatFileRead
  imports FatFileProps
begin

text \<open>
  Reading an open file: the rounds of \<open>f_read\<close> return consecutive slices of its content, whatever mix of the sector cache,
  direct transfers and steps along the cluster chain they take.
\<close>

section \<open>Slices of the content\<close>

lemma file_fields [simp]:
  "file_sec (fp\<lparr>fclust := c\<rparr>) = file_sec fp" "file_sec (fp\<lparr>fptr := q\<rparr>) = file_sec fp"
  "cache_ok (fp\<lparr>fclust := c\<rparr>) = cache_ok fp" "cache_ok (fp\<lparr>fptr := q\<rparr>) = cache_ok fp"
  "content (fp\<lparr>fclust := c\<rparr>) = content fp" "content (fp\<lparr>fptr := q\<rparr>) = content fp"
  "disk_file (fp\<lparr>fclust := c\<rparr>) = disk_file fp" "disk_file (fp\<lparr>fptr := q\<rparr>) = disk_file fp"
  by (simp_all add: file_sec_def cache_ok_def content_def file_byte_def disk_file_def fun_eq_iff)

lemma disk_fileD:
  assumes "disk_file fp v cs"
  shows "data_ok v cs" "cache_ok fp v cs" "clusters v cs" "fat_good v" "csize_ok v" "unat (objsize fp) \<le> csz v * length cs"
    "length (file_sec fp v cs k) = 512"
  using assms length_file_sec by (simp_all add: disk_file_def data_ok_def clusters_def)

lemma same_block:
  fixes p m :: nat
  assumes "p mod m + n \<le> m" "i < n"
  shows "(p + i) div m = p div m" "(p + i) mod m = p mod m + i"
proof -
  define a b where "a = p div m" and "b = p mod m"
  have p: "p = m * a + b" by (simp add: a_def b_def)
  have "b + i < m" using assms by (simp add: b_def)
  then have "(m * a + (b + i)) div m = a" "(m * a + (b + i)) mod m = b + i" by simp_all
  then show "(p + i) div m = p div m" "(p + i) mod m = p mod m + i" by (simp_all add: a_def b_def add.assoc [symmetric])
qed

lemmas same_sector = same_block [of _ 512]

lemma sector_of:
  assumes "p < 512 * unat (csize v) * length cs"
  shows "p div 512 < sectors v cs"
  using assms by (simp add: less_mult_imp_div_less mult.commute mult.left_commute)

lemma slice_add: "slice k (m + n) xs = slice k m xs @ slice (k + m) n xs"
  by (simp add: slice_def take_add add.commute)

lemma content_slice_sec:
  assumes "p mod 512 + n \<le> 512" "p + n \<le> unat (objsize fp)" "length (file_sec fp v cs (p div 512)) = 512"
  shows "slice p n (content fp v cs) = slice (p mod 512) n (file_sec fp v cs (p div 512))"
proof (rule nth_equalityI)
  show "length (slice p n (content fp v cs)) = length (slice (p mod 512) n (file_sec fp v cs (p div 512)))"
    using assms by (simp add: slice_def)
  show "slice p n (content fp v cs) ! i = slice (p mod 512) n (file_sec fp v cs (p div 512)) ! i"
    if "i < length (slice p n (content fp v cs))" for i
    using that assms same_sector [OF assms(1), of i] by (simp add: slice_def nth_content file_byte_def)
qed

lemma content_slice_secs:
  assumes "p mod 512 = 0" "p + 512 * n \<le> unat (objsize fp)" "\<And>k. length (file_sec fp v cs k) = 512"
  shows "slice p (512 * n) (content fp v cs) = concat (map (\<lambda>i. file_sec fp v cs (p div 512 + i)) [0..<n])"
  using assms(2)
proof (induction n)
  case (Suc n)
  have "slice (p + 512 * n) 512 (content fp v cs) = file_sec fp v cs (p div 512 + n)"
    using content_slice_sec [of "p + 512 * n" 512 fp v cs] assms(1,3) Suc.prems slice_all
    by (simp add: add.commute)
  then show ?case using Suc slice_add [of p "512 * n" 512] by (simp add: ac_simps)
qed (simp add: slice_def)

section \<open>The file pointer\<close>

text \<open>What an operation keeps of the file object.\<close>

definition same_handle :: "FIL \<Rightarrow> FIL \<Rightarrow> bool" where
  "same_handle fp fp' \<longleftrightarrow>
     fp' = fp\<lparr>flag := flag fp', fptr := fptr fp', fclust := fclust fp', fsect := fsect fp', buf := buf fp'\<rparr> \<and>
     flag fp' AND 0x7F = flag fp AND 0x7F"

lemma prev_div:
  fixes k m :: nat
  assumes "0 < k"
  shows "(512 * k - 1) div 512 = k - 1" "k mod m \<noteq> 0 \<Longrightarrow> (k - 1) div m = k div m"
    "0 < m \<Longrightarrow> k mod m = 0 \<Longrightarrow> Suc ((k - 1) div m) = k div m"
proof -
  show "(512 * k - 1) div 512 = k - 1" using assms by arith
  obtain j where j: "k = Suc j" using assms by (cases k) auto
  show "(k - 1) div m = k div m" if "k mod m \<noteq> 0" using that by (simp add: j div_Suc split: if_splits)
  show "Suc ((k - 1) div m) = k div m" if "0 < m" "k mod m = 0" using that by (simp add: j div_Suc)
qed

lemma pointer_step:
  assumes "unat (fptr fp) + unat n \<le> unat (objsize fp')" "0 < n" "fclust fp' = cs ! (unat (fptr fp) div csz v)"
    and "(unat (fptr fp) + unat n - 1) div csz v = unat (fptr fp) div csz v"
    and "(unat (fptr fp) + unat n) mod 512 \<noteq> 0 \<Longrightarrow> fsect fp' = file_sect v cs ((unat (fptr fp) + unat n) div 512)"
    and "csize v' = csize v" "file_sect v' cs = file_sect v cs"
  shows "pointer_ok (fp'\<lparr>fptr := fptr fp + n\<rparr>) v' cs" "unat (fptr fp + n) = unat (fptr fp) + unat n"
proof -
  have "unat (objsize fp') < 2 ^ LENGTH(32)" by (rule unsigned_less)
  then have "unat (fptr fp) + unat n < 2 ^ 32" using assms(1) by simp
  then show u: "unat (fptr fp + n) = unat (fptr fp) + unat n" by (simp add: unat_plus_if')
  show "pointer_ok (fp'\<lparr>fptr := fptr fp + n\<rparr>) v' cs" unfolding pointer_ok_def using assms u by simp
qed

text \<open>A step within a sector.\<close>

lemma pointer_partial:
  assumes "unat (fptr fp) mod 512 + unat n \<le> 512" "0 < n"
  shows "(unat (fptr fp) + unat n - 1) div csz v = unat (fptr fp) div csz v"
    "(unat (fptr fp) + unat n) mod 512 \<noteq> 0 \<Longrightarrow> (unat (fptr fp) + unat n) div 512 = unat (fptr fp) div 512"
proof -
  have n: "0 < unat n" using assms(2) by (simp add: word_less_nat_alt)
  have "(unat (fptr fp) + (unat n - 1)) div 512 = unat (fptr fp) div 512" using same_sector(1) [OF assms(1), of "unat n - 1"] n by simp
  then show "(unat (fptr fp) + unat n - 1) div csz v = unat (fptr fp) div csz v" using n by (simp add: div_mult2_eq del: One_nat_def)
  show "(unat (fptr fp) + unat n) div 512 = unat (fptr fp) div 512" if "(unat (fptr fp) + unat n) mod 512 \<noteq> 0"
  proof -
    have "unat (fptr fp) mod 512 + unat n \<noteq> 512" using that mod_add_left_eq [of "unat (fptr fp)" 512 "unat n"] by auto
    then show ?thesis using same_sector(1) [of "unat (fptr fp)" "unat n + 1" "unat n"] assms(1) by simp
  qed
qed

text \<open>A step over whole sectors of a cluster.\<close>

lemma pointer_direct:
  fixes k m :: nat
  assumes "0 < c" "k mod m + c \<le> m"
  shows "(512 * k + 512 * c - 1) div (512 * m) = k div m"
proof -
  have "(512 * (k + c) - 1) div 512 = k + (c - 1)" using prev_div(1) [of "k + c"] assms(1) by simp
  then show ?thesis using same_block(1) [OF assms(2), of "c - 1"] assms(1) by (simp add: div_mult2_eq)
qed

text \<open>The cluster of the pointer inside a cluster, and inside a sector.\<close>

lemma pointer_clust:
  assumes "pointer_ok fp v cs" "0 < unat (fptr fp)"
    and "unat (fptr fp) mod 512 \<noteq> 0 \<or> unat (fptr fp) div 512 mod unat (csize v) \<noteq> 0"
  shows "fclust fp = cs ! (unat (fptr fp) div csz v)"
proof -
  let ?p = "unat (fptr fp)"
  have "(?p - 1) div 512 div unat (csize v) = ?p div 512 div unat (csize v)"
  proof (cases "?p mod 512 = 0")
    case False
    then show ?thesis using prev_div(2) [OF assms(2) False] by simp
  next
    case True
    then obtain k where p: "?p = 512 * k" by auto
    then have "0 < k" "k mod unat (csize v) \<noteq> 0" using assms(2,3) by simp_all
    then show ?thesis using prev_div(1) [of k] prev_div(2) [of k "unat (csize v)"] p by simp
  qed
  then show ?thesis using assms(1,2) by (simp add: pointer_ok_def div_mult2_eq)
qed

lemma data_ok_moves:
  assumes "data_ok v cs" "moves v v'" "roams v v'"
  shows "data_ok v' cs" "cache_ok fp v cs \<Longrightarrow> same_file fp v fp v' cs"
proof -
  have c: "clusters v cs" "fat_good v" using assms(1) by (simp_all add: data_ok_def)
  have gf: "gframe v v'" by (rule wframe_gframe [OF movesD(1) [OF assms(2)]])
  note f = gframe_file [OF gf]
  have cz: "csize v' = csize v" by (rule gframe_fields(7) [OF gf])
  have "winsect v' \<noteq> file_sect v cs k" if "k < sectors v cs" for k
    using assms(1,3) file_sect_data(3) [OF c(1) that] that by (auto simp: data_ok_def roams_def)
  then show d: "data_ok v' cs" using fat_good_moves [OF c(2) assms(2)] c(1) f(1,3) cz by (simp add: data_ok_def)
  have vs: "vsec v' (file_sect v cs j) = vsec v (file_sect v cs j)" if "j < sectors v cs" for j
    using movesD(4) [OF assms(2)] file_sect_data(2,4) [OF c(1) that] by blast
  show "same_file fp v fp v' cs" if "cache_ok fp v cs"
    using that d vs moves_effect [OF assms(2)] f(1) cz by (simp add: same_file_def cache_ok_def file_sec_def)
qed

text \<open>The cluster of a sector boundary.\<close>

lemma at_cluster:
  assumes "disk_file fp v cs" "pointer_ok fp v cs" "unat (fptr fp) mod 512 = 0" "unat (fptr fp) < csz v * length cs"
    and "(if (fptr fp div SS) AND (ucast (csize v) - 1) = 0 then read_clust fp v else (FR_OK, fp, v)) = (res, fp1, v1)"
  shows "res = FR_OK" "fp1 = fp\<lparr>fclust := cs ! (unat (fptr fp) div csz v)\<rparr>" "same_file fp v fp1 v1 cs" "moves v v1"
proof -
  let ?p = "unat (fptr fp)" and ?m = "unat (csize v)"
  define k where "k = ?p div 512"
  have p: "?p = 512 * k" using assms(3) by (auto simp: k_def)
  note d = disk_fileD [OF assms(1)]
  have m: "0 < ?m" by (rule csize_bounds(1) [OF d(5)])
  have kc: "k div ?m < length cs" using assms(4) m p by (simp add: div_less_iff_less_mult mult.commute)
  have pd: "?p div csz v = k div ?m" by (simp add: div_mult2_eq k_def)
  have uc: "unat ((fptr fp div SS) AND (ucast (csize v) - 1)) = k mod ?m"
    using unat_and_csize [OF d(5)] by (simp add: unat_div k_def)
  have vc: "2 \<le> cs ! i" "cs ! i \<noteq> 0xFFFFFFFF" "valid_clst v (cs ! i)" if "i < length cs" for i
  proof -
    show v: "valid_clst v (cs ! i)" using d(3) that by (simp add: clusters_def)
    then show "2 \<le> cs ! i" by (simp add: valid_clst_def)
    show "cs ! i \<noteq> 0xFFFFFFFF"
      using v vol_ok_small [OF fat_goodD(2) [OF d(4)]] by (auto simp: valid_clst_def word_less_nat_alt)
  qed
  have "res = FR_OK \<and> fp1 = fp\<lparr>fclust := cs ! (?p div csz v)\<rparr> \<and> same_file fp v fp v1 cs \<and> moves v v1"
  proof (cases "k mod ?m = 0")
    case False
    then have "0 < ?p" using p by (cases k) auto
    then have "fclust fp = cs ! (?p div csz v)" using pointer_clust [OF assms(2)] False by (simp add: k_def)
    moreover have "res = FR_OK" "fp1 = fp" "v1 = v" using assms(5) uc False by (auto split: if_splits)
    ultimately show ?thesis using same_file_refl [OF d(1,2)] d(4) by (simp add: fat_good_def)
  next
    case True
    then have rc: "read_clust fp v = (res, fp1, v1)" using assms(5) uc by (simp add: unat_eq_0)
    show ?thesis
    proof (cases "fptr fp = 0")
      case z: True
      then have "cs \<noteq> []" using kc by auto
      then have "sclust fp = cs ! 0" using assms(1) by (auto simp: disk_file_def hd_conv_nth)
      then show ?thesis
        using rc z vc [of 0] \<open>cs \<noteq> []\<close> same_file_refl [OF d(1,2)] d(4)
        by (auto simp: read_clust_def fat_good_def not_less split: if_splits)
    next
      case nz: False
      then have k0: "0 < k" using p by (cases k) (auto simp: unat_eq_0)
      define i where "i = (k - 1) div ?m"
      have i: "Suc i = k div ?m" unfolding i_def by (rule prev_div(3) [OF k0 m True])
      have "(?p - 1) div csz v = i" using prev_div(1) [OF k0] by (simp add: p div_mult2_eq i_def)
      then have fc: "fclust fp = cs ! i" using assms(2) p k0 by (simp add: pointer_ok_def)
      have ch: "chain (n_fatent v) (fat_entry v) cs" using assms(1) kc by (auto simp: disk_file_def split: if_splits)
      have il: "i < length cs" "Suc i < length cs" using kc i by simp_all
      obtain x w where g: "get_fat (cs ! i) v = (x, w)" by (cases "get_fat (cs ! i) v")
      note gs = get_fat_spec [OF fat_goodD(1,2) [OF d(4)] g]
      have x: "x = cs ! Suc i" using gs(2) [OF vc(3) [OF il(1)]] fat_goodD(3) [OF d(4)] chain_nth(2) [OF ch il] by simp
      have "res = FR_OK" "fp1 = fp\<lparr>fclust := cs ! Suc i\<rparr>" "v1 = w"
        using rc nz g fc x vc [OF il(2)] by (auto simp: read_clust_def not_less split: if_splits)
      then show ?thesis
        using data_ok_moves(2) [OF d(1) gs(1) get_fat_roams [OF d(4) g] d(2)] gs(1) pd i by simp
    qed
  qed
  then show "res = FR_OK" "fp1 = fp\<lparr>fclust := cs ! (?p div csz v)\<rparr>" "same_file fp v fp1 v1 cs" "moves v v1"
    by (auto simp: same_file_def)
qed

section \<open>Direct transfers\<close>

text \<open>Where a sector lies relative to a sector of the file.\<close>

lemma sector_diff:
  assumes "clusters v cs" "k < sectors v cs" "k mod unat (csize v) + n \<le> unat (csize v)" "unat c = n"
  shows "i < n \<Longrightarrow> unat (file_sect v cs (k + i) - file_sect v cs k) = i"
    and "s - file_sect v cs k < c \<longleftrightarrow> (\<exists>i < n. s = file_sect v cs (k + i))"
proof -
  have d: "unat (file_sect v cs (k + i) - file_sect v cs k) = i" if "i < n" for i
  proof -
    have "unat (file_sect v cs (k + i)) = unat (file_sect v cs k) + i"
      using file_sect_next(1) [OF assms(1,2), of i] that assms(3) by simp
    then show ?thesis by (simp add: unat_sub word_le_nat_alt)
  qed
  then show "i < n \<Longrightarrow> unat (file_sect v cs (k + i) - file_sect v cs k) = i" .
  show "s - file_sect v cs k < c \<longleftrightarrow> (\<exists>i < n. s = file_sect v cs (k + i))"
  proof
    assume "s - file_sect v cs k < c"
    then have i: "unat (s - file_sect v cs k) < n" by (simp add: word_less_nat_alt assms(4))
    have "file_sect v cs (k + unat (s - file_sect v cs k)) - file_sect v cs k = s - file_sect v cs k"
      using d [OF i] by (simp only: word_unat_eq_iff)
    then show "\<exists>i < n. s = file_sect v cs (k + i)" using i by (intro exI [of _ "unat (s - file_sect v cs k)"]) simp
  next
    assume "\<exists>i < n. s = file_sect v cs (k + i)"
    then show "s - file_sect v cs k < c" using d by (auto simp: word_less_nat_alt assms(4))
  qed
qed

lemma unat_times_SS: "unat (x :: DWORD) \<le> 128 \<Longrightarrow> unat (x * SS) = 512 * unat x"
  by (simp add: unat_mult_lem [THEN iffD1])

lemma length_concat_secs: "(\<And>i. length (f i) = 512) \<Longrightarrow> length (concat (map f [a..<b])) = 512 * (b - a)"
  by (simp add: length_concat comp_def sum_list_triv)

lemma memcpy_concat:
  assumes "\<And>i. length (f i) = 512" "length b = 512" "i < n"
  shows "memcpy (512 * i) b (concat (map f [0..<n])) = concat (map (f(i := b)) [0..<n])"
proof -
  have u: "[0..<n] = [0..<i] @ i # [Suc i..<n]"
    using assms(3) upt_add_eq_append [of 0 i "n - i"] upt_conv_Cons [of i n] by simp
  have l: "length (concat (map f [0..<i])) = 512 * i" using length_concat_secs [of f 0 i] assms(1) by simp
  have "map (f(i := b)) [0..<i] = map f [0..<i]" "map (f(i := b)) [Suc i..<n] = map f [Suc i..<n]" by simp_all
  then show ?thesis unfolding u using assms(1,2) l by (simp add: memcpy_def)
qed

lemma overlay:
  assumes "data_ok v cs" "cache_ok fp v cs" "k < sectors v cs" "k mod unat (csize v) + n \<le> unat (csize v)" "unat c = n" "0 < n"
    and "512 * (k + n) \<le> unat (objsize fp)"
  defines "bs \<equiv> concat (map (\<lambda>i. vsec v (file_sect v cs (k + i))) [0..<n])"
  shows "(if flag fp AND FA_DIRTY \<noteq> 0 \<and> fsect fp - file_sect v cs k < c
          then memcpy (unat ((fsect fp - file_sect v cs k) * SS)) (buf fp) bs else bs) =
      concat (map (\<lambda>i. file_sec fp v cs (k + i)) [0..<n])"
proof -
  have c: "clusters v cs" and g: "fat_good v" using assms(1) by (simp_all add: data_ok_def)
  note sd = sector_diff [OF c assms(3,4,5)]
  have lt: "k + i < sectors v cs" if "i < n" for i using file_sect_next(2) [OF c assms(3), of i] that assms(4) by simp
  have len: "length (vsec v s) = 512" for s using length_vsec g by (simp add: fat_good_def)
  show ?thesis
  proof (cases "flag fp AND FA_DIRTY \<noteq> 0 \<and> fsect fp - file_sect v cs k < c")
    case True
    then obtain i where i: "i < n" "fsect fp = file_sect v cs (k + i)" using sd(2) by blast
    have n: "n \<le> 128" using assms(4) csize_bounds(2) [of v] c by (simp add: clusters_def)
    have u: "unat ((fsect fp - file_sect v cs k) * SS) = 512 * i"
      using sd(1) [OF i(1)] i n unat_times_SS [of "fsect fp - file_sect v cs k"] by simp
    have b: "length (buf fp) = 512" using assms(2) by (simp add: cache_ok_def)
    have "file_sec fp v cs (k + j) = ((\<lambda>j. vsec v (file_sect v cs (k + j)))(i := buf fp)) j" if "j < n" for j
      using file_sect_inj [OF c lt [OF that] lt [OF i(1)]] i by (auto simp: file_sec_def)
    then have "map ((\<lambda>j. vsec v (file_sect v cs (k + j)))(i := buf fp)) [0..<n] = map (\<lambda>j. file_sec fp v cs (k + j)) [0..<n]"
      by (intro map_cong refl) simp
    then show ?thesis
      by (simp only: True u bs_def memcpy_concat [of "\<lambda>j. vsec v (file_sect v cs (k + j))", OF len b i(1)] simp_thms if_True)
  next
    case False
    have "file_sec fp v cs (k + j) = vsec v (file_sect v cs (k + j))" if "j < n" for j
    proof (cases "fsect fp = file_sect v cs (k + j)")
      case True
      then have "flag fp AND FA_DIRTY = 0" using False sd(2) [of "fsect fp"] that by auto
      then show ?thesis using assms(2,7) True that lt [OF that] by (simp add: cache_ok_def file_sec_def)
    qed (simp add: file_sec_def)
    then have "map (\<lambda>j. file_sec fp v cs (k + j)) [0..<n] = map (\<lambda>i. vsec v (file_sect v cs (k + i))) [0..<n]"
      by (intro map_cong refl) simp
    then show ?thesis by (simp only: False bs_def simp_thms if_False)
  qed
qed

text \<open>The number of sectors of a direct transfer.\<close>

lemma sector_count:
  fixes b q :: DWORD
  assumes "csize_ok v" "unat q = k mod unat (csize v)"
  defines "c \<equiv> (if q + b div SS > ucast (csize v) then ucast (csize v) - q else b div SS)"
  assumes "b div SS > 0"
  shows "0 < unat c" "k mod unat (csize v) + unat c \<le> unat (csize v)" "512 * unat c \<le> unat b" "unat (SS * c) = 512 * unat c"
proof -
  note m = csize_bounds [OF assms(1)]
  have q: "unat q < unat (csize v)" using m(1) assms(2) by simp
  have bd: "unat (b div SS) = unat b div 512" by (simp add: unat_div)
  have "unat b < 2 ^ LENGTH(32)" by (rule unsigned_less)
  then have b2: "unat b div 512 < 2 ^ 23" by simp
  have s: "unat (q + b div SS) = unat q + unat b div 512" using q m(2) b2 bd by (simp add: unat_plus_if')
  have d: "unat (ucast (csize v) - q) = unat (csize v) - unat q" using q m(4) by (simp add: unat_sub word_le_nat_alt)
  have c: "unat c = min (unat b div 512) (unat (csize v) - unat q)"
    using s d m(4) bd by (auto simp: c_def word_less_nat_alt min_def)
  have "0 < unat b div 512" using assms(4) bd by (simp add: word_less_nat_alt)
  then show "0 < unat c" using c q by simp
  show "k mod unat (csize v) + unat c \<le> unat (csize v)" using c q assms(2) by simp
  have "512 * unat c \<le> 512 * (unat b div 512)" using c by simp
  then show le: "512 * unat c \<le> unat b" by simp
  have "unat c \<le> 128" using c m(2) by simp
  then show "unat (SS * c) = 512 * unat c" by (simp add: unat_mult_lem [THEN iffD1])
qed

section \<open>One round\<close>

lemma read_partial_ok:
  assumes "disk_file fp v cs" "0 < btr" "unat (fptr fp) + unat btr \<le> unat (objsize fp)"
    and "buf fp = file_sec fp v cs (unat (fptr fp) div 512)" "read_partial btr fp = (n, bs)"
  shows "unat (fptr fp) mod 512 + unat n \<le> 512" "0 < n" "n \<le> btr" "bs = slice (unat (fptr fp)) (unat n) (content fp v cs)"
proof -
  let ?q = "fptr fp mod SS"
  have q: "unat ?q = unat (fptr fp) mod 512" by (rule unat_mod_SS)
  then have lt: "unat ?q < 512" by simp
  have s: "unat (SS - ?q) = 512 - unat ?q" using lt by (simp add: unat_sub word_le_nat_alt)
  have n: "n = (if SS - ?q > btr then btr else SS - ?q)" "bs = slice (unat ?q) (unat n) (buf fp)"
    using assms(5) by (auto simp: read_partial_def Let_def split: if_splits)
  have u: "unat n = min (unat btr) (512 - unat (fptr fp) mod 512)"
    using s by (auto simp: n(1) word_less_nat_alt min_def q)
  show le: "unat (fptr fp) mod 512 + unat n \<le> 512" using u lt q by (auto simp: min_def split: if_splits)
  show "0 < n" "n \<le> btr" using u assms(2) by (simp_all add: word_less_nat_alt word_le_nat_alt)
  show "bs = slice (unat (fptr fp)) (unat n) (content fp v cs)"
    using content_slice_sec [OF le] u assms(3) disk_fileD(7) [OF assms(1)] q n(2) assms(4) by simp
qed

text \<open>The round on a sector boundary, from the sector on.\<close>

definition read_at :: "DWORD \<Rightarrow> DWORD \<Rightarrow> DWORD \<Rightarrow> FIL \<Rightarrow> vol \<Rightarrow> (FRESULT + DWORD \<times> BYTE list) \<times> FIL \<times> vol" where
  "read_at sct csect btr fp v =
     (let cc = btr div SS
      in if cc > 0 then
           let cc = (if csect + cc > ucast (csize v) then ucast (csize v) - csect else cc);
               (r, bs, d) = disk_read (pdrv v) sct cc (dk v); v = v\<lparr>dk := d\<rparr>
           in if r \<noteq> RES_OK then (Inl FR_DISK_ERR, fp, v)
              else
                let bs = (if flag fp AND FA_DIRTY \<noteq> 0 \<and> fsect fp - sct < cc
                          then memcpy (unat ((fsect fp - sct) * SS)) (buf fp) bs else bs)
                in (Inr (SS * cc, bs), fp, v)
         else
           let (ok, fp, v) =
                 (if fsect fp \<noteq> sct then let (ok, fp, v) = flush_if fp v in if ok then fill_buf sct fp v else (False, fp, v)
                  else (True, fp, v))
           in if \<not> ok then (Inl FR_DISK_ERR, fp, v)
              else let fp = fp\<lparr>fsect := sct\<rparr> in (Inr (read_partial btr fp), fp, v))"

lemma read_step_boundary:
  assumes "fptr fp mod SS = 0"
    and "(if (fptr fp div SS) AND (ucast (csize v) - 1) = 0 then read_clust fp v else (FR_OK, fp, v)) = (FR_OK, fp1, v1)"
    and "clst2sect (fclust fp1) v1 \<noteq> 0"
  shows "read_step btr fp v =
    read_at (clst2sect (fclust fp1) v1 + ((fptr fp div SS) AND (ucast (csize v) - 1)))
      ((fptr fp div SS) AND (ucast (csize v) - 1)) btr fp1 v1"
  unfolding read_step_def Let_def read_at_def flush_if_def using assms(1,3) by (simp only: assms(2)) simp

lemma cache_sector:
  assumes "data_ok v cs" "cache_ok fp v cs" "k < sectors v cs" "512 * k < unat (objsize fp)"
    and "(if fsect fp \<noteq> file_sect v cs k
          then let (ok, g, w) = flush_if fp v in if ok then fill_buf (file_sect v cs k) g w else (False, g, w)
          else (True, fp, v)) = (ok, fp1, v1)"
  defines "fp2 \<equiv> fp1\<lparr>fsect := file_sect v cs k\<rparr>"
  shows "ok" "same_file fp v fp2 v1 cs" "buf fp2 = file_sec fp v cs k" "same_handle fp fp2" "fptr fp2 = fptr fp" "fclust fp2 = fclust fp"
proof -
  have "ok \<and> same_file fp v fp2 v1 cs \<and> buf fp2 = file_sec fp v cs k \<and> same_handle fp fp2 \<and> fptr fp2 = fptr fp \<and> fclust fp2 = fclust fp"
  proof (cases "fsect fp = file_sect v cs k")
    case True
    then have "ok" "fp2 = fp" "v1 = v" using assms(5) by (simp_all add: fp2_def)
    then show ?thesis using same_file_refl [OF assms(1,2)] True by (simp add: file_sec_def same_handle_def)
  next
    case False
    obtain o1 g w where fl: "flush_if fp v = (o1, g, w)" by (cases "flush_if fp v")
    note f = flush_if_ok [OF assms(1,2) fl]
    have s: "data_ok w cs" "cache_ok g w cs" "effect (in_file v cs) v w" using f(3) by (simp_all add: same_file_def)
    note gf = gframe_file [OF effectD(1) [OF s(3)]] and cz = gframe_fields(7) [OF effectD(1) [OF s(3)]]
    have fb: "fill_buf (file_sect w cs k) g w = (ok, fp1, v1)" using assms(5) False fl f(1) gf(1) by simp
    have g: "flag g AND FA_DIRTY = 0" "k < sectors w cs" "512 * k < unat (objsize g)" using f(2) assms(3,4) cz by simp_all
    note fs = fill_sector [OF s(1,2) g fb]
    have e: "file_sec g w cs k = file_sec fp v cs k" using f(3) assms(3,4) by (simp add: same_file_def)
    have "(flag fp AND NOT FA_DIRTY) AND 0x7F = flag fp AND 0x7F" by (simp add: and.assoc)
    then show ?thesis
      using fs(1,2) same_file_trans [OF f(3), of fp2 v1] f(2) fs(3) gf(1) e by (simp add: fp2_def same_handle_def)
  qed
  then show "ok" "same_file fp v fp2 v1 cs" "buf fp2 = file_sec fp v cs k" "same_handle fp fp2" "fptr fp2 = fptr fp" "fclust fp2 = fclust fp"
    by blast+
qed

lemma read_at_ok:
  assumes "disk_file fp v cs" "k < sectors v cs" "unat q = k mod unat (csize v)" "0 < btr" "512 * k + unat btr \<le> unat (objsize fp)"
    and "fclust fp = cs ! (k div unat (csize v))" "unat (fptr fp) = 512 * k"
    and "read_at (file_sect v cs k) q btr fp v = (st, fp', v')"
  obtains n bs where "st = Inr (n, bs)" "0 < n" "n \<le> btr" "bs = slice (512 * k) (unat n) (content fp v cs)"
    "same_file fp v fp' v' cs" "same_handle fp fp'" "fptr fp' = fptr fp" "pointer_ok (fp'\<lparr>fptr := fptr fp + n\<rparr>) v' cs"
    "unat (fptr fp + n) = 512 * k + unat n"
proof -
  let ?m = "unat (csize v)"
  note thesis = that
  note d = disk_fileD [OF assms(1)]
  have btr: "0 < unat btr" using assms(4) by (simp add: word_less_nat_alt)
  have pd: "unat (fptr fp) div csz v = k div ?m" using assms(7) by (simp add: div_mult2_eq)
  show ?thesis
  proof (cases "btr div SS > 0")
    case True
    define c where "c = (if q + btr div SS > ucast (csize v) then ucast (csize v) - q else btr div SS)"
    note cc = sector_count [OF d(5) assms(3) True, folded c_def]
    obtain r bs e where rd: "disk_read (pdrv v) (file_sect v cs k) c (dk v) = (r, bs, e)"
      by (cases "disk_read (pdrv v) (file_sect v cs k) c (dk v)")
    note rs = read_sectors [OF d(1) assms(2) cc(1,2) refl rd]
    have le: "512 * (k + unat c) \<le> unat (objsize fp)" using cc(3) assms(5) by simp
    have e: "st = Inr (SS * c, slice (512 * k) (512 * unat c) (content fp v cs))" "fp' = fp" "v' = v\<lparr>dk := e\<rparr>"
      using assms(8) True rd rs(1) overlay [OF d(1,2) assms(2) cc(2) refl cc(1) le, folded rs(2)]
        content_slice_secs [of "512 * k" "unat c" fp v cs, OF _ _ d(7)] le
      by (auto simp: read_at_def Let_def c_def [symmetric])
    have n: "0 < SS * c" "SS * c \<le> btr" using cc(1,3,4) by (simp_all add: word_less_nat_alt word_le_nat_alt)
    have mid: "(unat (fptr fp) + unat (SS * c) - 1) div csz v = unat (fptr fp) div csz v"
      unfolding assms(7) cc(4) pointer_direct [OF cc(1,2)] by (simp add: div_mult2_eq)
    have sf: "same_file fp v fp v' cs"
      using data_ok_moves(2) [OF d(1) _ _ d(2), of v'] rs(3) e(3) by (simp add: roams_def)
    note sc = same_file_content(3,4) [OF assms(1) sf]
    have "unat (fptr fp) + unat (SS * c) \<le> unat (objsize fp)" using le assms(7) cc(4) by simp
    note ps = pointer_step [OF this n(1) _ mid _ sc(2,1)]
    have "pointer_ok (fp\<lparr>fptr := fptr fp + SS * c\<rparr>) v' cs" "unat (fptr fp + SS * c) = 512 * k + unat (SS * c)"
      using ps assms(6,7) pd cc(4) by simp_all
    then show ?thesis
      by (intro thesis [OF e(1) n]) (use cc(4) sf e(2) in \<open>simp_all add: same_handle_def\<close>)
  next
    case False
    define E where "E = (if fsect fp \<noteq> file_sect v cs k
          then let (ok, g, w) = flush_if fp v in if ok then fill_buf (file_sect v cs k) g w else (False, g, w)
          else (True, fp, v))"
    obtain ok fp1 v1 where E: "E = (ok, fp1, v1)" by (cases E)
    note ch = E [unfolded E_def]
    have ra: "read_at (file_sect v cs k) q btr fp v =
        (case E of (ok, fp, w) \<Rightarrow> if \<not> ok then (Inl FR_DISK_ERR, fp, w)
          else (Inr (read_partial btr (fp\<lparr>fsect := file_sect v cs k\<rparr>)), fp\<lparr>fsect := file_sect v cs k\<rparr>, w))"
      unfolding read_at_def E_def Let_def using False by (simp only: if_False)
    define fp2 where "fp2 = fp1\<lparr>fsect := file_sect v cs k\<rparr>"
    have ku: "512 * k < unat (objsize fp)" using assms(5) btr by simp
    note c = cache_sector [OF d(1,2) assms(2) ku ch, folded fp2_def]
    note sc = same_file_content [OF assms(1) c(2)]
    have ob: "objsize fp2 = objsize fp" using c(2) by (simp add: same_file_def)
    obtain n bs where rp: "read_partial btr fp2 = (n, bs)" by (cases "read_partial btr fp2")
    have e: "st = Inr (n, bs)" "fp' = fp2" "v' = v1"
      using assms(8) ra E c(1) rp by (auto simp: fp2_def)
    have fs: "fsect fp2 = file_sect v1 cs (unat (fptr fp2) div 512)" using assms(7) c(5) sc(3) by (simp add: fp2_def)
    note r = read_partial_ok [OF sc(1) assms(4) _ _ rp]
    have r: "unat (fptr fp) mod 512 + unat n \<le> 512" "0 < n" "n \<le> btr" "bs = slice (512 * k) (unat n) (content fp v cs)"
      using r fs assms(5,7) c(5) sc(2) ob by (simp_all add: file_sec_def)
    have le: "unat (fptr fp) + unat n \<le> unat (objsize fp2)" using r(3) assms(5,7) ob by (simp add: word_le_nat_alt)
    note pp = pointer_partial [OF r(1,2)]
    have fc: "fclust fp2 = cs ! (unat (fptr fp) div csz v)" using c(6) assms(6) pd by simp
    note ps = pointer_step [OF le r(2) fc pp(1) _ sc(4,3)]
    show ?thesis
      using thesis [OF e(1) r(2-4)] c ps pp(2) fs sc(3) assms(7) e by simp
  qed
qed

text \<open>Every round of \<open>f_read\<close> in the middle of a file succeeds with the next bytes of the content.\<close>

lemma read_step_ok:
  assumes "disk_file fp v cs" "pointer_ok fp v cs" "0 < btr" "unat (fptr fp) + unat btr \<le> unat (objsize fp)"
    and "read_step btr fp v = (st, fp', v')"
  obtains n bs where "st = Inr (n, bs)" "0 < n" "n \<le> btr" "bs = slice (unat (fptr fp)) (unat n) (content fp v cs)"
    "same_file fp v fp' v' cs" "same_handle fp fp'" "fptr fp' = fptr fp" "pointer_ok (fp'\<lparr>fptr := fptr fp + n\<rparr>) v' cs"
    "unat (fptr fp + n) = unat (fptr fp) + unat n"
proof -
  let ?p = "unat (fptr fp)" and ?m = "unat (csize v)"
  define k where "k = ?p div 512"
  note d = disk_fileD [OF assms(1)]
  have btr: "0 < unat btr" using assms(3) by (simp add: word_less_nat_alt)
  have pl: "?p < csz v * length cs" using assms(4) btr d(6) by linarith
  have ks: "k < sectors v cs" using sector_of pl by (simp add: k_def)
  have ku: "512 * k < unat (objsize fp)" using assms(4) btr by (simp add: k_def)
  have pz: "fptr fp mod SS = 0 \<longleftrightarrow> ?p mod 512 = 0" using unat_mod_SS [of "fptr fp"] by (auto simp: unat_eq_0 [symmetric])
  note thesis = that
  show ?thesis
  proof (cases "?p mod 512 = 0")
    case False
    obtain n bs where rp: "read_partial btr fp = (n, bs)" by (cases "read_partial btr fp")
    have e: "st = Inr (n, bs)" "fp' = fp" "v' = v" using assms(5) False pz rp by (simp_all add: read_step_def)
    have fs: "fsect fp = file_sect v cs (?p div 512)" using assms(2) False by (simp add: pointer_ok_def)
    have "buf fp = file_sec fp v cs (?p div 512)" using fs by (simp add: file_sec_def)
    note r = read_partial_ok [OF assms(1,3,4) this rp]
    have "0 < ?p" using False by (cases ?p) auto
    then have fc: "fclust fp = cs ! (?p div csz v)" using pointer_clust [OF assms(2)] False by simp
    have le: "?p + unat n \<le> unat (objsize fp)" using r(3) assms(4) by (simp add: word_le_nat_alt)
    note pp = pointer_partial [OF r(1,2)]
    have "pointer_ok (fp\<lparr>fptr := fptr fp + n\<rparr>) v cs" "unat (fptr fp + n) = ?p + unat n"
      using pointer_step [OF le r(2) fc pp(1), of v] pp(2) fs by simp_all
    then show ?thesis
      using thesis [OF e(1) r(2-4)] same_file_refl [OF d(1,2)] e by (simp add: same_handle_def)
  next
    case True
    let ?q = "(fptr fp div SS) AND (ucast (csize v) - 1)"
    obtain res fp1 v1 where ac: "(if ?q = 0 then read_clust fp v else (FR_OK, fp, v)) = (res, fp1, v1)"
      by (cases "if ?q = 0 then read_clust fp v else (FR_OK, fp, v)")
    note c1 = at_cluster [OF assms(1,2) True pl ac]
    have d1: "disk_file fp1 v1 cs" "content fp1 v1 cs = content fp v cs" "file_sect v1 cs = file_sect v cs" "csize v1 = csize v"
      using same_file_content [OF assms(1) c1(3)] by simp_all
    note dd = disk_fileD [OF d1(1)]
    have f1: "fptr fp1 = fptr fp" "objsize fp1 = objsize fp" "flag fp1 = flag fp" "fclust fp1 = cs ! (?p div csz v)"
      using c1(2) by simp_all
    have uq: "unat ?q = k mod ?m" using unat_and_csize [OF d(5)] by (simp add: unat_div k_def)
    have vc: "valid_clst v1 (cs ! (k div ?m))" using sector_cluster(3) [OF dd(3), of k] ks d1(4) by simp
    have pd: "?p div csz v = k div ?m" by (simp add: k_def div_mult2_eq)
    have nz: "clst2sect (fclust fp1) v1 \<noteq> 0"
      using unat_clst2sect(3) [OF fat_goodD(2) [OF dd(4)] vc] f1(4) pd by auto
    have "(of_nat (k mod ?m) :: DWORD) = ?q" unfolding uq [symmetric] by (simp add: of_nat_unat)
    then have sct: "clst2sect (fclust fp1) v1 + ?q = file_sect v1 cs k" using f1(4) pd d1(4) by (simp add: file_sect_def)
    have ra: "read_at (file_sect v1 cs k) ?q btr fp1 v1 = (st, fp', v')"
      using read_step_boundary [OF _ ac [unfolded c1(1)] nz] assms(5) True pz sct by simp
    have p: "unat (fptr fp) = 512 * k" using True by (auto simp: k_def)
    obtain n bs where r: "st = Inr (n, bs)" "0 < n" "n \<le> btr" "bs = slice (512 * k) (unat n) (content fp1 v1 cs)"
      "same_file fp1 v1 fp' v' cs" "same_handle fp1 fp'" "fptr fp' = fptr fp1" "pointer_ok (fp'\<lparr>fptr := fptr fp1 + n\<rparr>) v' cs"
      "unat (fptr fp1 + n) = 512 * k + unat n"
      using read_at_ok [OF d1(1) _ _ assms(3) _ _ _ ra] ks uq d1(4) f1 p pd assms(4) by auto
    show ?thesis
      by (rule thesis [OF r(1-3)])
        (use r(4-9) d1(2) f1 p same_file_trans [OF c1(3) r(5)] c1(2) in \<open>simp_all add: same_handle_def\<close>)
  qed
qed

section \<open>The loop\<close>

lemma file_okD:
  assumes "file_ok fp v cs"
  shows "disk_file fp v cs" "pointer_ok fp v cs" "unat (fptr fp) \<le> unat (objsize fp)"
  using assms by (simp_all add: file_ok_def pointer_ok_def)

lemma same_handle_trans: "same_handle a b \<Longrightarrow> same_handle b c \<Longrightarrow> same_handle a c"
  by (cases a, cases b, cases c) (auto simp: same_handle_def)

lemma same_handle_fptr [simp]: "same_handle a (b\<lparr>fptr := q\<rparr>) = same_handle a b"
  by (cases a, cases b) (auto simp: same_handle_def)

text \<open>Reading returns the slice of the content at the file pointer, and leaves content and chain as they are.\<close>

lemma file_read_ok:
  assumes "file_ok fp v cs" "unat (fptr fp) + unat btr \<le> unat (objsize fp)"
  shows "\<exists>fp' v'. file_read btr acc fp v = Some (FR_OK, acc @ slice (unat (fptr fp)) (unat btr) (content fp v cs), fp', v') \<and>
    file_ok fp' v' cs \<and> content fp' v' cs = content fp v cs \<and> same_file fp v fp' v' cs \<and> same_handle fp fp' \<and>
    unat (fptr fp') = unat (fptr fp) + unat btr"
  using assms
proof (induction "unat btr" arbitrary: btr acc fp v rule: less_induct)
  case less
  note f = file_okD [OF less.prems(1)] and d = disk_fileD [OF file_okD(1) [OF less.prems(1)]]
  show ?case
  proof (cases "btr > 0")
    case False
    then have z: "btr = 0" by (simp add: word_neq_0_conv [symmetric])
    have "same_handle fp fp" by (simp add: same_handle_def)
    then show ?thesis
      using less.prems(1) same_file_refl [OF d(1,2)] by (simp add: z file_read.simps [of 0] slice_def)
  next
    case True
    obtain st fp1 v1 where rs: "read_step btr fp v = (st, fp1, v1)" by (cases "read_step btr fp v")
    obtain n bs where r: "st = Inr (n, bs)" "0 < n" "n \<le> btr" "bs = slice (unat (fptr fp)) (unat n) (content fp v cs)"
      "same_file fp v fp1 v1 cs" "same_handle fp fp1" "fptr fp1 = fptr fp" "pointer_ok (fp1\<lparr>fptr := fptr fp + n\<rparr>) v1 cs"
      "unat (fptr fp + n) = unat (fptr fp) + unat n"
      by (rule read_step_ok [OF f(1,2) True less.prems(2) rs])
    let ?g = "fp1\<lparr>fptr := fptr fp + n\<rparr>"
    note sc = same_file_content [OF f(1) r(5)]
    have u: "unat (btr - n) = unat btr - unat n" using r(3) by (simp add: unat_sub)
    have nn: "0 < unat n" "unat n \<le> unat btr" using r(2,3) by (simp_all add: word_less_nat_alt word_le_nat_alt)
    have ob: "objsize fp1 = objsize fp" using r(5) by (simp add: same_file_def)
    have "file_ok ?g v1 cs" using sc(1) r(8) by (simp add: file_ok_def)
    moreover have "unat (btr - n) < unat btr" using u nn by simp
    moreover have "unat (fptr ?g) + unat (btr - n) \<le> unat (objsize ?g)" using r(9) u nn less.prems(2) ob by simp
    ultimately obtain fp' v' where i: "file_read (btr - n) (acc @ bs) ?g v1 =
        Some (FR_OK, (acc @ bs) @ slice (unat (fptr ?g)) (unat (btr - n)) (content ?g v1 cs), fp', v')"
      "file_ok fp' v' cs" "content fp' v' cs = content ?g v1 cs" "same_file ?g v1 fp' v' cs" "same_handle ?g fp'"
      "unat (fptr fp') = unat (fptr ?g) + unat (btr - n)"
      using less.hyps [of "btr - n" ?g v1 "acc @ bs"] by blast
    have "slice (unat (fptr fp)) (unat btr) (content fp v cs) =
        bs @ slice (unat (fptr ?g)) (unat (btr - n)) (content fp v cs)"
      using slice_add [of "unat (fptr fp)" "unat n" "unat btr - unat n"] r(4,9) u nn by simp
    moreover have "file_read btr acc fp v = file_read (btr - n) (acc @ bs) ?g v1"
      using True rs r(1,7) by (simp add: file_read.simps [of btr])
    moreover have "same_file fp v ?g v1 cs" "same_handle fp ?g"
      using r(5,6) by (simp_all add: same_file_def)
    ultimately show ?thesis
      using i sc(2) same_file_trans [of fp v ?g v1 cs fp' v'] same_handle_trans [of fp ?g fp'] r(9) u nn by simp
  qed
qed

end
