(* ===== verification/FatFileWrite.thy ===== *)
theory FatFileWrite
  imports FatFileRead
begin

text \<open>
  Writing an open file: the rounds of \<open>f_write\<close> put the bytes at the file pointer into the content, extend the chain by
  clusters that were free, and touch no other sector and no other entry of the allocation table.
\<close>

section \<open>Growing a chain\<close>

definition no_ones :: "vol \<Rightarrow> bool" where
  "no_ones v \<longleftrightarrow> (\<forall>c. valid_clst v c \<longrightarrow> fat_entry v c \<noteq> 1)"

definition grown :: "vol \<Rightarrow> DWORD list \<Rightarrow> vol \<Rightarrow> DWORD list \<Rightarrow> bool" where
  "grown v cs v' cs' \<longleftrightarrow>
     (\<exists>new. cs' = cs @ new \<and> set new \<subseteq> free_set v) \<and>
     (\<forall>c. valid_clst v c \<longrightarrow> c \<notin> set cs' \<longrightarrow> fat_entry v' c = fat_entry v c) \<and>
     effect (\<lambda>s. in_fat v s \<or> in_file v cs' s) v v' \<and> (no_ones v \<longrightarrow> no_ones v')"

lemma effect_file_entry:
  assumes "data_ok v cs" "effect (in_file v cs) v v'" "valid_clst v c"
  shows "fat_entry v' c = fat_entry v c"
proof -
  have c: "clusters v cs" "fat_good v" using assms(1) by (simp_all add: data_ok_def)
  show ?thesis
    using effect_entry [OF fat_goodD(2) [OF c(2)] assms(3,2)] file_sect_data(3) [OF c(1)] by (auto simp: in_file_def)
qed

lemma grown_same:
  assumes "data_ok v cs" "effect (in_file v cs) v v'"
  shows "grown v cs v' cs"
  using effect_file_entry [OF assms] effect_mono [OF assms(2), of "\<lambda>s. in_fat v s \<or> in_file v cs s"] effectD(5) [OF assms(2)]
  by (auto simp: grown_def no_ones_def)

lemma file_sect_append: "k < sectors v cs \<Longrightarrow> 0 < unat (csize v) \<Longrightarrow> file_sect v (cs @ new) k = file_sect v cs k"
  by (simp add: file_sect_def nth_append less_mult_imp_div_less mult.commute)

lemma in_file_append:
  assumes "0 < unat (csize v)" "in_file v cs s"
  shows "in_file v (cs @ new) s"
proof -
  obtain k where k: "k < sectors v cs" "s = file_sect v cs k" using assms(2) by (auto simp: in_file_def)
  then show ?thesis using file_sect_append [OF k(1) assms(1)] by (auto simp: in_file_def add_mult_distrib2 intro!: exI [of _ k])
qed

lemma grown_trans:
  assumes "grown v cs v1 cs1" "grown v1 cs1 v2 cs2" "distinct cs2" "0 < unat (csize v)"
  shows "grown v cs v2 cs2"
proof -
  obtain a where a: "cs1 = cs @ a" "set a \<subseteq> free_set v" using assms(1) by (auto simp: grown_def)
  obtain b where b: "cs2 = cs1 @ b" "set b \<subseteq> free_set v1" using assms(2) by (auto simp: grown_def)
  have e1: "effect (\<lambda>s. in_fat v s \<or> in_file v cs1 s) v v1" and e2: "effect (\<lambda>s. in_fat v1 s \<or> in_file v1 cs2 s) v1 v2"
    using assms(1,2) by (simp_all add: grown_def)
  note g = effectD [OF e1]
  have ent: "fat_entry v1 c = fat_entry v c" if "valid_clst v c" "c \<notin> set cs1" for c
    using assms(1) that by (simp add: grown_def)
  have "set b \<subseteq> free_set v"
  proof
    fix c
    assume c: "c \<in> set b"
    then have "valid_clst v c" "fat_entry v1 c = 0" using b(2) g(5) by (auto simp: free_set_def)
    moreover have "c \<notin> set cs1" using assms(3) b(1) c by auto
    ultimately show "c \<in> free_set v" using ent by (simp add: free_set_def)
  qed
  then have s: "cs2 = cs @ (a @ b)" "set (a @ b) \<subseteq> free_set v" using a b(1) by simp_all
  have "effect (\<lambda>s. in_fat v s \<or> in_file v cs2 s) v v1"
    by (rule effect_mono [OF e1]) (use in_file_append [OF assms(4)] b(1) in auto)
  then have "effect (\<lambda>s. in_fat v s \<or> in_file v cs2 s) v v2"
    using effect_trans [of _ v v1 v2] e2 g(7) in_file_gframe [OF g(1), of cs2] by simp
  moreover have "fat_entry v2 c = fat_entry v c" if "valid_clst v c" "c \<notin> set cs2" for c
    using assms(2) ent [OF that(1)] that b(1) g(5) by (simp add: grown_def)
  ultimately show ?thesis using s assms(1,2) unfolding grown_def by blast
qed

text \<open>The next cluster of a chain, or a new one.\<close>

lemma create_next:
  assumes "fat_good v" "chain (n_fatent v) (fat_entry v) cs" "Suc i < length cs"
  shows "\<exists>v'. create_chain (cs ! i) v = Some (cs ! Suc i, v') \<and> moves v v' \<and> roams v v'"
proof -
  note wf = fat_goodD [OF assms(1)]
  have i: "i < length cs" using assms(3) by simp
  have v: "valid_clst v (cs ! i)" "valid_clst v (cs ! Suc i)"
    using chain_nth(1) [OF assms(2) i] chain_nth(1) [OF assms(2,3)] by (simp_all add: valid_clst_def)
  obtain x w where g: "get_fat (cs ! i) v = (x, w)" by (cases "get_fat (cs ! i) v")
  note gs = get_fat_spec [OF wf(1,2) g]
  have x: "x = cs ! Suc i" using gs(2) [OF v(1)] wf(3) chain_nth(2) [OF assms(2) i assms(3)] by simp
  have "cs ! i \<noteq> 0" "\<not> x < 2" "x < n_fatent w"
    using v x wframe_fields(13) [OF movesD(1) [OF gs(1)]] by (auto simp: valid_clst_def not_less)
  then have "create_start (cs ! i) v = (Inl x, w)" using g by (auto simp: create_start_def)
  then show ?thesis using gs(1) get_fat_roams [OF assms(1) g] x by (simp add: create_chain_unfold)
qed

lemma create_new:
  assumes "fat_good v" "cs = [] \<or> chain (n_fatent v) (fat_entry v) cs" "no_ones v"
  defines "clst \<equiv> (if cs = [] then 0 else last cs)"
  shows "\<exists>r v'. create_chain clst v = Some (r, v') \<and>
    (r = 0 \<and> (free_clst v = 0 \<or> free_set v = {}) \<and> moves v v' \<or> r \<in> free_set v \<and> claimed clst r v v' \<and> effect (in_fat v) v v')"
proof -
  note wf = fat_goodD [OF assms(1)]
  obtain r v' where c: "create_chain clst v = Some (r, v')" "create_ok clst v r v'"
    using create_chain_spec [OF wf(1,2)] by blast
  have "valid_clst v clst \<and> \<not> fat_entry v clst < 2 \<and> \<not> valid_clst v (fat_entry v clst)" if "clst \<noteq> 0"
  proof -
    have ch: "chain (n_fatent v) (fat_entry v) cs" "cs \<noteq> []" using that assms(2) by (auto simp: clst_def)
    then have "valid_clst v (last cs)" using chain_valid [OF ch(1), of "last cs"] by (simp add: valid_clst_def)
    moreover have "n_fatent v \<le> fat_entry v (last cs)" by (rule chain_last [OF ch(1)])
    ultimately show ?thesis
      using ch(2) vol_ok_bounds(6) [OF wf(2)] by (auto simp: clst_def valid_clst_def word_le_nat_alt word_less_nat_alt)
  qed
  then have "r = 0 \<and> (free_clst v = 0 \<or> free_set v = {}) \<and> moves v v' \<or> r \<in> free_set v \<and> claimed clst r v v' \<and> effect (in_fat v) v v'"
    using c(2) wf(3) assms(3) by (auto simp: create_ok_def free_set_def no_ones_def)
  then show ?thesis using c(1) by blast
qed

text \<open>The file after its chain has been extended.\<close>

lemma stretched_file:
  assumes "disk_file fp v cs" "c \<in> free_set v" "claimed (if cs = [] then 0 else last cs) c v v'" "effect (in_fat v) v v'"
    and "in_fat v (winsect v')" "sclust fp' = hd (cs @ [c])"
    and "fp' = fp\<lparr>fclust := fclust fp', sclust := sclust fp'\<rparr>"
  shows "disk_file fp' v' (cs @ [c])" "content fp' v' (cs @ [c]) = content fp v cs" "grown v cs v' (cs @ [c])"
proof -
  note d = disk_fileD [OF assms(1)]
  note wf = fat_goodD [OF d(4)]
  note e = effectD [OF assms(4)] and gf = gframe_file [OF effectD(1) [OF assms(4)]]
  have m: "0 < unat (csize v)" by (rule csize_bounds(1) [OF d(5)])
  have cz: "csize v' = csize v" by (rule gframe_fields(7) [OF e(1)])
  have f: "flag fp' = flag fp" "fsect fp' = fsect fp" "buf fp' = buf fp" "objsize fp' = objsize fp" by (subst assms(7), simp)+
  have c: "valid_clst v c" "fat_entry v c = 0" using assms(2) by (simp_all add: free_set_def)
  have ch: "chain (n_fatent v) (fat_entry v') (cs @ [c])"
  proof (cases "cs = []")
    case True
    have "fat_entry v' c = trunc_entry (fs_type v) DISK_ERR" using assms(3) c(1) by (simp add: claimed_def)
    then show ?thesis using True c(1) trunc_eoc [OF wf(2)] by (simp add: valid_clst_def)
  next
    case False
    then show ?thesis
      using assms(1,3) claimed_chain(1) [OF wf(2) _ _ c] by (auto simp: disk_file_def)
  qed
  have cl: "clusters v (cs @ [c])"
    using clusters_chain [of v' "cs @ [c]"] ch gf(3) [of "cs @ [c]"] e(4,6) gf(4) wf(2) d(5) by simp
  have sec: "file_sect v (cs @ [c]) k = file_sect v cs k" if "k < sectors v cs" for k
    using file_sect_append [OF that m] .
  have ks: "k < sectors v cs" if "512 * k < unat (objsize fp)" for k
    using that d(6) by simp
  have vs: "vsec v' (file_sect v cs k) = vsec v (file_sect v cs k)" if "k < sectors v cs" for k
    using e(9) file_sect_data [OF d(3) that] by blast
  have g: "fat_good v'" using e(2-4) wf by (simp add: fat_good_def)
  have "winsect v' \<noteq> file_sect v (cs @ [c]) k" if "k < sectors v (cs @ [c])" for k
    using assms(5) file_sect_data(3) [OF cl that] by auto
  then have do: "data_ok v' (cs @ [c])" using g cl gf(1,3) cz by (simp add: data_ok_def)
  have ca: "cache_ok fp' v' (cs @ [c])"
  proof (cases "flag fp AND FA_DIRTY = 0")
    case True
    then show ?thesis using d(2) ks vs sec by (auto simp: cache_ok_def f gf(1) cz)
  next
    case False
    then obtain k where "k < sectors v cs" "fsect fp = file_sect v cs k" "length (buf fp) = 512" using d(2) by (auto simp: cache_ok_def)
    then show ?thesis using False sec by (auto simp: cache_ok_def f gf(1) cz add_mult_distrib2 intro!: exI [of _ k])
  qed
  show "disk_file fp' v' (cs @ [c])"
    using do ca assms(6) ch e(6) d(6) cz by (simp add: disk_file_def f add_mult_distrib2)
  have "file_byte fp' v' (cs @ [c]) q = file_byte fp v cs q" if "q < unat (objsize fp)" for q
    using ks [of "q div 512"] that sec vs by (auto simp: file_byte_def file_sec_def f gf(1))
  then show "content fp' v' (cs @ [c]) = content fp v cs" by (simp add: content_def f)
  have "fat_entry v' x = fat_entry v x" if "valid_clst v x" "x \<notin> set (cs @ [c])" for x
  proof -
    have "x \<noteq> c" "cs \<noteq> [] \<longrightarrow> x \<noteq> last cs" using that(2) last_in_set [of cs] by auto
    then show ?thesis using assms(3) that(1) by (simp add: claimed_def)
  qed
  moreover have "no_ones v'" if "no_ones v"
    unfolding no_ones_def
  proof (intro allI impI)
    fix x
    assume x: "valid_clst v' x"
    have "(1 :: DWORD) \<noteq> trunc_entry (fs_type v) DISK_ERR" "c \<noteq> 1"
      using trunc_eoc [OF wf(2)] c(1) vol_ok_n [OF wf(2)] by (auto simp: valid_clst_def word_le_nat_alt)
    moreover have "valid_clst v x" "fat_entry v x \<noteq> 1" using that x e(5) by (simp_all add: no_ones_def)
    ultimately show "fat_entry v' x \<noteq> 1" using assms(3) by (simp add: claimed_def)
  qed
  ultimately show "grown v cs v' (cs @ [c])"
    using assms(2,4) effect_mono [OF assms(4), of "\<lambda>s. in_fat v s \<or> in_file v (cs @ [c]) s"] by (auto simp: grown_def)
qed

section \<open>The cluster of the file pointer\<close>

lemma full_moves:
  assumes "fat_good v" "moves v v'"
  shows "free_clst v' = free_clst v" "free_set v' = free_set v"
proof -
  note f = wframe_fields [OF movesD(1) [OF assms(2)]] and g = wframe_geom [OF movesD(1) [OF assms(2)]]
  show "free_clst v' = free_clst v" by (rule f)
  show "free_set v' = free_set v"
    using fat_entry_moves [OF assms(2) fat_goodD(2) [OF assms(1)]] g(2) by (auto simp: free_set_def)
qed

text \<open>At the end of a cluster the current cluster is the one before.\<close>

lemma cluster_before:
  assumes "pointer_ok fp v cs" "csize_ok v" "unat (fptr fp) = 512 * k" "k mod unat (csize v) = 0" "k \<noteq> 0"
  shows "fclust fp = cs ! (k div unat (csize v) - 1)" "0 < k div unat (csize v)"
proof -
  let ?m = "unat (csize v)" and ?i = "k div unat (csize v)"
  have m: "0 < ?m" by (rule csize_bounds(1) [OF assms(2)])
  have k: "k = ?m * ?i" using assms(4) by auto
  show i0: "0 < ?i" using assms(5) k by (cases "?i") auto
  have "Suc ((k - 1) div ?m) = ?i" using prev_div(3) [of k ?m] m assms(4,5) by simp
  then have "(k - 1) div ?m = ?i - 1" by linarith
  moreover have "(unat (fptr fp) - 1) div csz v = (k - 1) div ?m"
    using prev_div(1) [of k] assms(3,5) by (simp add: div_mult2_eq)
  ultimately show "fclust fp = cs ! (?i - 1)" using assms(1,3,5) by (simp add: pointer_ok_def)
qed

lemma write_clust_code:
  "write_clust fp v = (do {
      (c, w) \<leftarrow> (if fptr fp = 0 \<and> sclust fp \<noteq> 0 then Some (sclust fp, v) else create_chain (if fptr fp = 0 then 0 else fclust fp) v);
      if c = 0 then Some (None, fp, w) else if c = 1 then Some (Some FR_INT_ERR, fp, w)
      else if c = 0xFFFFFFFF then Some (Some FR_DISK_ERR, fp, w)
      else Some (Some FR_OK, fp\<lparr>fclust := c, sclust := (if sclust fp = 0 then c else sclust fp)\<rparr>, w) })"
  by (cases "fptr fp = 0"; cases "sclust fp = 0"; cases "create_chain 0 v"; cases "create_chain (fclust fp) v")
    (simp_all add: write_clust_def Let_def split: prod.split)

lemma write_clust_ok:
  assumes "disk_file fp v cs" "pointer_ok fp v cs" "no_ones v" "unat (fptr fp) = 512 * k" "k mod unat (csize v) = 0"
    and "write_clust fp v = Some (res, fp', v')"
  shows "res = None \<and> fp' = fp \<and> same_file fp v fp v' cs \<and> moves v v' \<and> unat (fptr fp) = csz v * length cs \<and>
      (free_clst v = 0 \<or> free_set v = {}) \<or>
    res = Some FR_OK \<and> (\<exists>cs'. disk_file fp' v' cs' \<and> content fp' v' cs' = content fp v cs \<and> grown v cs v' cs' \<and>
      k < sectors v' cs' \<and> fp' = fp\<lparr>fclust := cs' ! (k div unat (csize v)), sclust := hd cs'\<rparr>)"
proof -
  let ?m = "unat (csize v)" and ?i = "k div unat (csize v)"
  note d = disk_fileD [OF assms(1)]
  note wf = fat_goodD [OF d(4)]
  have m: "0 < ?m" by (rule csize_bounds(1) [OF d(5)])
  have k: "k = ?m * ?i" using assms(5) by auto
  have "unat (fptr fp) \<le> csz v * length cs" using assms(2) d(6) by (simp add: pointer_ok_def)
  then have "?m * ?i \<le> ?m * length cs" using assms(4) k by simp
  then have il: "?i \<le> length cs" using m by simp
  have ch: "cs \<noteq> [] \<Longrightarrow> sclust fp = hd cs \<and> chain (n_fatent v) (fat_entry v) cs" "cs = [] \<Longrightarrow> sclust fp = 0"
    using assms(1) by (auto simp: disk_file_def split: if_splits)
  have vc: "valid_clst v c" if "c \<in> set cs" for c using d(3) that by (simp add: clusters_def)
  have val: "c \<noteq> 0" "c \<noteq> 1" "c \<noteq> 0xFFFFFFFF" if "valid_clst v c" for c
    using that vol_ok_small [OF wf(2)] by (auto simp: valid_clst_def word_le_nat_alt word_less_nat_alt)
  have z: "fptr fp = 0 \<longleftrightarrow> k = 0" using assms(4) by (simp add: unat_eq_0 [symmetric])
  note fc = cluster_before [OF assms(2) d(5) assms(4,5)]
  define clst where "clst = (if k = 0 then 0 else fclust fp)"
  note wc = write_clust_code [of fp v, unfolded z, folded clst_def]
  show ?thesis
  proof (cases "?i < length cs")
    case True
    then have ne: "cs \<noteq> []" by auto
    have c: "cs ! ?i \<in> set cs" "hd cs \<in> set cs" using True ne by simp_all
    have "\<exists>w. (if k = 0 \<and> sclust fp \<noteq> 0 then Some (sclust fp, v) else create_chain clst v) = Some (cs ! ?i, w) \<and>
        moves v w \<and> roams v w"
    proof (cases "k = 0")
      case True
      then show ?thesis using ch(1) [OF ne] val(1) [OF vc [OF c(2)]] ne wf(1) by (simp add: hd_conv_nth roams_def)
    next
      case False
      then show ?thesis
        using create_next [OF d(4), of cs "?i - 1"] ch(1) [OF ne] fc True by (simp add: clst_def)
    qed
    then obtain w where w: "(if k = 0 \<and> sclust fp \<noteq> 0 then Some (sclust fp, v) else create_chain clst v) = Some (cs ! ?i, w)"
      "moves v w" "roams v w" by blast
    have r: "res = Some FR_OK" "fp' = fp\<lparr>fclust := cs ! ?i, sclust := hd cs\<rparr>" "v' = w"
      using assms(6) wc w(1) val [OF vc [OF c(1)]] val(1) [OF vc [OF c(2)]] ch(1) [OF ne] by simp_all
    have fp: "fp' = fp\<lparr>fclust := cs ! ?i\<rparr>" using r(2) ch(1) [OF ne] by simp
    note sf = data_ok_moves(2) [OF d(1) w(2,3) d(2)]
    note sc = same_file_content [OF assms(1) sf]
    have "k < sectors v' cs" using True k m sc(4) r(3) by (metis mult_less_mono2)
    moreover have "grown v cs v' cs" using grown_same [OF d(1)] sf r(3) by (simp add: same_file_def)
    ultimately show ?thesis using r sc(1,2) fp by auto
  next
    case False
    then have i: "?i = length cs" using il by simp
    have cl: "clst = (if cs = [] then 0 else last cs)" "k = 0 \<and> sclust fp \<noteq> 0 \<longleftrightarrow> False"
    proof -
      have k0: "k = 0 \<longleftrightarrow> cs = []" using i k m by (cases cs) auto
      then show "clst = (if cs = [] then 0 else last cs)" using fc i by (simp add: clst_def last_conv_nth)
      show "k = 0 \<and> sclust fp \<noteq> 0 \<longleftrightarrow> False" using k0 ch(2) by auto
    qed
    have p: "unat (fptr fp) = csz v * length cs" using assms(4) k i by simp
    have "cs = [] \<or> chain (n_fatent v) (fat_entry v) cs" using ch(1) by blast
    then obtain r w where c: "create_chain clst v = Some (r, w)"
      "r = 0 \<and> (free_clst v = 0 \<or> free_set v = {}) \<and> moves v w \<or> r \<in> free_set v \<and> claimed clst r v w \<and> effect (in_fat v) v w"
      using create_new [OF d(4) _ assms(3), of cs, folded cl(1)] by blast
    note pk = create_chain_parked [OF d(4) c(1)]
    show ?thesis
    proof (cases "r = 0")
      case True
      have "free_clst v = 0 \<or> free_set v = {}" "moves v w" using c(2) True val(1) by (auto simp: free_set_def)
      moreover have "res = None" "fp' = fp" "v' = w" using assms(6) wc cl(2) c(1) True by simp_all
      ultimately show ?thesis using data_ok_moves(2) [OF d(1) _ pk(1) d(2)] p by blast
    next
      case False
      then have r: "r \<in> free_set v" "claimed clst r v w" "effect (in_fat v) v w" using c(2) by simp_all
      have vr: "valid_clst v r" using r(1) by (simp add: free_set_def)
      have hd: "(if sclust fp = 0 then r else sclust fp) = hd (cs @ [r])"
        using ch val(1) [OF vc [of "hd cs"]] by (cases cs) auto
      have e: "res = Some FR_OK" "fp' = fp\<lparr>fclust := r, sclust := hd (cs @ [r])\<rparr>" "v' = w"
        using assms(6) wc cl(2) c(1) val [OF vr] hd by simp_all
      have "2 \<le> r" using vr by (simp add: valid_clst_def)
      note st = stretched_file [OF assms(1) r(1) r(2) [unfolded cl(1)] r(3) pk(2) [OF this], of fp']
      have "csize w = csize v" by (rule gframe_fields(7) [OF effectD(1) [OF r(3)]])
      then have "k < sectors v' (cs @ [r])" using k i m e(3) by simp
      then show ?thesis using st e i by (intro disjI2 conjI exI [of _ "cs @ [r]"]) simp_all
    qed
  qed
qed

section \<open>Bytes into the content\<close>

text \<open>The position after a round: the file grows when it is passed.\<close>

definition advance :: "FIL \<Rightarrow> DWORD \<Rightarrow> FIL" where
  "advance fp n = (let fp = fp\<lparr>fptr := fptr fp + n\<rparr> in fp\<lparr>objsize := (if fptr fp > objsize fp then fptr fp else objsize fp)\<rparr>)"

lemma advance_simps [simp]:
  "fptr (advance fp n) = fptr fp + n" "fclust (advance fp n) = fclust fp" "fsect (advance fp n) = fsect fp"
  "buf (advance fp n) = buf fp" "flag (advance fp n) = flag fp" "sclust (advance fp n) = sclust fp" "err (advance fp n) = err fp"
  "obj_fs (advance fp n) = obj_fs fp" "obj_id (advance fp n) = obj_id fp" "dir_sect (advance fp n) = dir_sect fp"
  "dir_ptr (advance fp n) = dir_ptr fp"
  by (simp_all add: advance_def Let_def)

lemma unat_advance:
  assumes "unat (fptr fp) + unat n < 2 ^ 32"
  shows "unat (fptr fp + n) = unat (fptr fp) + unat n"
    "unat (objsize (advance fp n)) = max (unat (objsize fp)) (unat (fptr fp) + unat n)"
proof -
  show u: "unat (fptr fp + n) = unat (fptr fp) + unat n" using assms by (simp add: unat_plus_if')
  show "unat (objsize (advance fp n)) = max (unat (objsize fp)) (unat (fptr fp) + unat n)"
    using u by (simp add: advance_def Let_def word_less_nat_alt max_def)
qed

lemma nth_patch:
  assumes "p \<le> length c" "q < max (length c) (p + length b)"
  shows "memcpy p b c ! q = (if p \<le> q \<and> q < p + length b then b ! (q - p) else c ! q)"
  using assms by (auto simp: memcpy_def nth_append min_def)

lemma length_patch: "p \<le> length c \<Longrightarrow> length (memcpy p b c) = max (length c) (p + length b)"
  by (simp add: memcpy_def)

lemma patch_patch:
  assumes "p \<le> length c"
  shows "memcpy (p + length a) b (memcpy p a c) = memcpy p (a @ b) c"
  using assms by (simp add: memcpy_def min_def ac_simps)

lemma content_patch:
  assumes "unat (objsize fp') = max (unat (objsize fp)) (p + n)" "p \<le> unat (objsize fp)" "n \<le> length w"
    and "\<And>q. q < unat (objsize fp') \<Longrightarrow>
      file_byte fp' v' cs' q = (if p \<le> q \<and> q < p + n then w ! (q - p) else file_byte fp v cs q)"
    and "\<And>q. \<lbrakk>p \<le> q; q < p + n\<rbrakk> \<Longrightarrow> q < unat (objsize fp')"
  shows "content fp' v' cs' = memcpy p (take n w) (content fp v cs)"
proof (rule nth_equalityI)
  have len: "length (take n w) = n" using assms(3) by simp
  show "length (content fp' v' cs') = length (memcpy p (take n w) (content fp v cs))"
    using assms(1-3) by (simp add: length_patch)
  show "content fp' v' cs' ! q = memcpy p (take n w) (content fp v cs) ! q" if "q < length (content fp' v' cs')" for q
  proof -
    have q: "q < unat (objsize fp')" "q < max (unat (objsize fp)) (p + n)" using that assms(1) by simp_all
    have "memcpy p (take n w) (content fp v cs) ! q =
        (if p \<le> q \<and> q < p + n then take n w ! (q - p) else content fp v cs ! q)"
      using nth_patch [of p "content fp v cs" q "take n w"] assms(2) q(2) len by simp
    moreover have "q < unat (objsize fp)" if "\<not> (p \<le> q \<and> q < p + n)" using that q(2) assms(2) by auto
    ultimately show ?thesis using assms(4) [OF q(1)] q(1) by (auto simp: nth_content)
  qed
qed

text \<open>Into the sector cache.\<close>

lemma store_partial:
  fixes fp fp' v cs
  defines "p \<equiv> unat (fptr fp)"
  assumes f: "disk_file fp v cs" and p: "p \<le> unat (objsize fp)" and k: "k < sectors v cs" "k = p div 512"
    and others: "\<And>j. \<lbrakk>j < sectors v cs; 512 * j < unat (objsize fp); j \<noteq> k\<rbrakk> \<Longrightarrow> file_sec fp v cs j = vsec v (file_sect v cs j)"
    and b: "length b = 512" "\<And>i. \<lbrakk>i < 512; 512 * k + i < unat (objsize fp)\<rbrakk> \<Longrightarrow> b ! i = file_sec fp v cs k ! i"
    and n: "p mod 512 + n \<le> 512" "n \<le> length w"
    and fp': "fsect fp' = file_sect v cs k" "buf fp' = memcpy (p mod 512) (take n w) b" "flag fp' AND FA_DIRTY \<noteq> 0"
      "sclust fp' = sclust fp" "unat (objsize fp') = max (unat (objsize fp)) (p + n)"
  shows "disk_file fp' v cs" "content fp' v cs = memcpy p (take n w) (content fp v cs)"
proof -
  note d = disk_fileD [OF f]
  have len: "length (take n w) = n" using n(2) by simp
  define r where "r = p mod 512"
  have pi: "p = 512 * k + r" "r + n \<le> 512" using k(2) n(1) by (simp_all add: r_def)
  have lb: "length (buf fp') = 512" using fp'(2) b(1) n(1) len by simp
  have "cache_ok fp' v cs" using lb fp'(1,3) k(1) by (auto simp: cache_ok_def)
  moreover have "p + n \<le> csz v * length cs"
  proof -
    have "p + n \<le> 512 * Suc k" using pi by simp
    also have "\<dots> \<le> 512 * sectors v cs" using k(1) by (intro mult_le_mono2) simp
    finally show ?thesis by simp
  qed
  ultimately show "disk_file fp' v cs" using f fp'(4,5) by (simp add: disk_file_def)
  have byte: "file_byte fp' v cs q = (if p \<le> q \<and> q < p + n then w ! (q - p) else file_byte fp v cs q)"
    if q: "q < unat (objsize fp')" for q
  proof (cases "q div 512 = k")
    case True
    have fs: "file_sec fp' v cs k = buf fp'" using fp'(1) by (simp add: file_sec_def)
    define i where "i = q mod 512"
    have qi: "q = 512 * k + i" "i < 512" using True by (auto simp: i_def)
    have nth: "buf fp' ! i = (if r \<le> i \<and> i < r + n then w ! (i - r) else b ! i)"
      using nth_memcpy [of r "take n w" b i] pi(2) b(1) len qi(2) by (auto simp: fp'(2) r_def [symmetric])
    have c: "p \<le> q \<longleftrightarrow> r \<le> i" "q < p + n \<longleftrightarrow> i < r + n" "q - p = i - r"
      using qi(1) pi(1) by simp_all
    have "b ! i = file_byte fp v cs q" if "\<not> (p \<le> q \<and> q < p + n)"
    proof -
      have "q < unat (objsize fp)" using that q p fp'(5) by auto
      then have "512 * k + i < unat (objsize fp)" by (simp only: qi(1))
      then show ?thesis using b(2) [OF qi(2)] True by (simp add: file_byte_def i_def)
    qed
    then show ?thesis using nth c True fs by (auto simp: file_byte_def i_def)
  next
    case False
    have out: "\<not> (p \<le> q \<and> q < p + n)"
    proof
      assume "p \<le> q \<and> q < p + n"
      then have "512 * k \<le> q" "q < 512 * Suc k" using pi by simp_all
      then show False using False by (simp add: div_nat_eqI)
    qed
    then have lt: "q < unat (objsize fp)" using q p fp'(5) by auto
    then have js: "q div 512 < sectors v cs" "512 * (q div 512) < unat (objsize fp)"
      using d(6) sector_of [of q v cs] by simp_all
    have "file_sec fp' v cs (q div 512) = vsec v (file_sect v cs (q div 512))"
      using file_sect_inj [OF d(3) js(1) k(1)] False fp'(1) by (auto simp: file_sec_def)
    then show ?thesis using out others [OF js False] by (auto simp: file_byte_def)
  qed
  show "content fp' v cs = memcpy p (take n w) (content fp v cs)"
    by (rule content_patch [OF fp'(5) p n(2) byte]) (use fp'(5) in simp_all)
qed

text \<open>Directly to the medium.\<close>

lemma chain_effect:
  assumes "data_ok v cs" "effect (in_file v cs) v v'"
  shows "chain (n_fatent v') (fat_entry v') cs = chain (n_fatent v) (fat_entry v) cs"
proof -
  have "fat_entry v' c = fat_entry v c" if "c \<in> set cs" for c
    using effect_file_entry [OF assms] assms(1) that by (simp add: data_ok_def clusters_def)
  then show ?thesis using chain_cong [of cs "fat_entry v'" "fat_entry v"] effectD(6) [OF assms(2)] by simp
qed

lemma store_direct:
  fixes fp fp' v d cs
  defines "p \<equiv> unat (fptr fp)" and "v' \<equiv> v\<lparr>dk := d\<rparr>"
  assumes f: "disk_file fp v cs" "flag fp AND FA_DIRTY = 0" and p: "p \<le> unat (objsize fp)" "p = 512 * k"
    and k: "k < sectors v cs" "0 < c" "k mod unat (csize v) + c \<le> unat (csize v)" "unat cc = c" and w: "512 * c \<le> length w"
    and dw: "disk_write (pdrv v) w (file_sect v cs k) cc (dk v) = (r, d)"
    and fp': "fsect fp' = fsect fp" "length (buf fp') = 512" "flag fp' AND FA_DIRTY = 0" "sclust fp' = sclust fp"
      "unat (objsize fp') = max (unat (objsize fp)) (p + 512 * c)"
    and b: "\<And>i. \<lbrakk>i < c; fsect fp = file_sect v cs (k + i)\<rbrakk> \<Longrightarrow> buf fp' = slice (512 * i) 512 w"
      "\<lbrakk>\<And>i. i < c \<Longrightarrow> fsect fp \<noteq> file_sect v cs (k + i)\<rbrakk> \<Longrightarrow> buf fp' = buf fp"
  shows "r = RES_OK" "effect (in_file v cs) v v'" "disk_file fp' v' cs"
    "content fp' v' cs = memcpy p (take (512 * c) w) (content fp v cs)"
proof -
  note fd = disk_fileD [OF f(1)]
  note ws = write_sectors [OF fd(1) k(1,2,3,4) w dw, folded v'_def]
  show "r = RES_OK" "effect (in_file v cs) v v'" by (rule ws)+
  note gf = gframe_file [OF effectD(1) [OF ws(2)]] and cz = gframe_fields(7) [OF effectD(1) [OF ws(2)]]
  have nxt: "k + i < sectors v cs" if "i < c" for i using file_sect_next(2) [OF fd(3) k(1), of i] that k(3) by simp
  have "k + c \<le> sectors v cs" using nxt [of "c - 1"] k(2) by simp
  then have "512 * (k + c) \<le> 512 * sectors v cs" by (rule mult_le_mono2)
  then have room: "p + 512 * c \<le> csz v * length cs" using p(2) by simp
  have old: "512 * j < unat (objsize fp)" if "512 * j < unat (objsize fp')" "\<not> (k \<le> j \<and> j < k + c)" for j
    using that fp'(5) p by auto
  have sec: "file_sec fp' v' cs j = (if k \<le> j \<and> j < k + c then slice (512 * (j - k)) 512 w else file_sec fp v cs j)"
    if j: "j < sectors v cs" for j
  proof (cases "k \<le> j \<and> j < k + c")
    case True
    then obtain i where i: "j = k + i" "i < c" using le_Suc_ex by fastforce
    then show ?thesis using b(1) [OF i(2)] ws(4) [OF j] by (simp add: file_sec_def gf(1) fp'(1))
  next
    case False
    have "buf fp' = buf fp" if "fsect fp = file_sect v cs j"
      using b(2) file_sect_inj [OF fd(3) j nxt] that False by (metis le_add1 nat_add_left_cancel_less)
    then show ?thesis using False ws(4) [OF j] by (auto simp: file_sec_def gf(1) fp'(1))
  qed
  have "buf fp' = vsec v' (file_sect v cs j)"
    if j: "j < sectors v cs" "512 * j < unat (objsize fp')" "fsect fp = file_sect v cs j" for j
  proof -
    have s: "buf fp' = file_sec fp' v' cs j" using j(3) by (simp add: file_sec_def gf(1) fp'(1))
    show ?thesis
    proof (cases "k \<le> j \<and> j < k + c")
      case True
      then show ?thesis using s sec [OF j(1)] ws(4) [OF j(1)] by simp
    next
      case False
      then show ?thesis
        using s sec [OF j(1)] ws(4) [OF j(1)] fd(2) f(2) j(1,3) old [OF j(2)] by (auto simp: file_sec_def cache_ok_def)
    qed
  qed
  then have "cache_ok fp' v' cs" using fp'(1-3) by (simp add: cache_ok_def gf(1) cz)
  then show "disk_file fp' v' cs"
    using ws(3) f(1) chain_effect [OF fd(1) ws(2)] fp'(4,5) room cz by (simp add: disk_file_def)
  have byte: "file_byte fp' v' cs q = (if p \<le> q \<and> q < p + 512 * c then w ! (q - p) else file_byte fp v cs q)"
    if q: "q < unat (objsize fp')" for q
  proof -
    define j i where "j = q div 512" and "i = q mod 512"
    have qi: "q = 512 * j + i" "i < 512" by (simp_all add: j_def i_def)
    have r: "p \<le> q \<longleftrightarrow> k \<le> j" "q < p + 512 * c \<longleftrightarrow> j < k + c" using qi(2) unfolding p(2) qi(1) by linarith+
    have "q < csz v * length cs" using q room fp'(5) fd(6) by simp
    then have js: "j < sectors v cs" using sector_of by (simp add: j_def)
    show ?thesis
    proof (cases "k \<le> j \<and> j < k + c")
      case True
      then obtain m where m: "j = k + m" "m < c" using le_Suc_ex by fastforce
      have "slice (512 * m) 512 w ! i = w ! (512 * m + i)" using m(2) qi(2) w by (simp add: slice_def)
      moreover have "q - p = 512 * m + i" using qi(1) m(1) p(2) by simp
      ultimately show ?thesis using True r sec [OF js] m(1) by (simp add: file_byte_def j_def [symmetric] i_def [symmetric])
    next
      case False
      then show ?thesis using r sec [OF js] by (auto simp: file_byte_def j_def [symmetric] i_def [symmetric])
    qed
  qed
  show "content fp' v' cs = memcpy p (take (512 * c) w) (content fp v cs)"
    by (rule content_patch [OF fp'(5) p(1) w byte]) (use fp'(5) in simp_all)
qed

section \<open>One round\<close>

text \<open>The round on a sector boundary, from the sector on.\<close>

definition write_at :: "DWORD \<Rightarrow> DWORD \<Rightarrow> DWORD \<Rightarrow> BYTE list \<Rightarrow> FIL \<Rightarrow> vol \<Rightarrow> (FRESULT + DWORD) \<times> FIL \<times> vol" where
  "write_at sct csect btw wbuff fp v =
     (let cc = btw div SS
      in if cc > 0 then
           let cc = (if csect + cc > ucast (csize v) then ucast (csize v) - csect else cc);
               (r, d) = disk_write (pdrv v) wbuff sct cc (dk v); v = v\<lparr>dk := d\<rparr>
           in if r \<noteq> RES_OK then (Inl FR_DISK_ERR, fp, v)
              else
                let fp = (if fsect fp - sct < cc
                          then fp\<lparr>buf := slice (unat ((fsect fp - sct) * SS)) 512 wbuff, flag := flag fp AND NOT FA_DIRTY\<rparr>
                          else fp)
                in (Inr (SS * cc), fp, v)
         else
           let (ok, fp, v) = (if fsect fp \<noteq> sct \<and> fptr fp < objsize fp then fill_buf sct fp v else (True, fp, v))
           in if \<not> ok then (Inl FR_DISK_ERR, fp, v)
              else let (wcnt, fp) = write_partial btw wbuff (fp\<lparr>fsect := sct\<rparr>) in (Inr wcnt, fp, v))"

lemma write_sector_at:
  assumes "flush_if fp v = (True, fp1, v1)" "clst2sect (fclust fp1) v1 \<noteq> 0"
  shows "write_sector btw wbuff csect fp v = write_at (clst2sect (fclust fp1) v1 + csect) csect btw wbuff fp1 v1"
  unfolding write_sector_def write_at_def Let_def using assms(2) by (simp only: flush_if_def [symmetric] assms(1)) simp

lemma write_partial_fields:
  assumes "write_partial btw wbuff fp = (n, fp')" "0 < btw"
  shows "0 < n" "n \<le> btw" "unat (fptr fp) mod 512 + unat n \<le> 512"
    "fp' = fp\<lparr>buf := memcpy (unat (fptr fp) mod 512) (take (unat n) wbuff) (buf fp), flag := flag fp OR FA_DIRTY\<rparr>"
proof -
  let ?q = "fptr fp mod SS"
  have q: "unat ?q = unat (fptr fp) mod 512" by (rule unat_mod_SS)
  then have lt: "unat ?q < 512" by simp
  have s: "unat (SS - ?q) = 512 - unat ?q" using lt by (simp add: unat_sub word_le_nat_alt)
  have n: "n = (if SS - ?q > btw then btw else SS - ?q)"
    "fp' = fp\<lparr>buf := memcpy (unat ?q) (take (unat n) wbuff) (buf fp), flag := flag fp OR FA_DIRTY\<rparr>"
    using assms(1) by (auto simp: write_partial_def Let_def split: if_splits)
  have u: "unat n = min (unat btw) (512 - unat (fptr fp) mod 512)"
    using s by (auto simp: n(1) word_less_nat_alt min_def q)
  show "unat (fptr fp) mod 512 + unat n \<le> 512" using u lt q by (auto simp: min_def split: if_splits)
  show "0 < n" "n \<le> btw" using u assms(2) by (simp_all add: word_less_nat_alt word_le_nat_alt)
  show "fp' = fp\<lparr>buf := memcpy (unat (fptr fp) mod 512) (take (unat n) wbuff) (buf fp), flag := flag fp OR FA_DIRTY\<rparr>"
    using n(2) q by simp
qed

text \<open>What writing keeps of the file object.\<close>

definition same_object :: "FIL \<Rightarrow> FIL \<Rightarrow> bool" where
  "same_object fp fp' \<longleftrightarrow> obj_fs fp' = obj_fs fp \<and> obj_id fp' = obj_id fp \<and> err fp' = err fp \<and>
     dir_sect fp' = dir_sect fp \<and> dir_ptr fp' = dir_ptr fp \<and> flag fp' AND 0x7F = flag fp AND 0x7F"

lemma low_flags [simp]: "((x :: BYTE) OR 0x80) AND 0x7F = x AND 0x7F" "((x :: BYTE) AND NOT 0x80) AND 0x7F = x AND 0x7F"
  "((x :: BYTE) AND - 129) AND 0x7F = x AND 0x7F"
  by (simp_all add: bit.conj_disj_distrib2 and.assoc)

lemma clean_sec:
  assumes "cache_ok fp v cs" "flag fp AND FA_DIRTY = 0" "j < sectors v cs" "512 * j < unat (objsize fp)"
  shows "file_sec fp v cs j = vsec v (file_sect v cs j)"
  using assms by (simp add: cache_ok_def file_sec_def)

lemma pointer_advance:
  assumes "unat (fptr fp) + unat n < 2 ^ 32" "0 < n" "fptr fp' = fptr fp" "fclust fp' = cs ! (unat (fptr fp) div csz v)"
    and "(unat (fptr fp) + unat n - 1) div csz v = unat (fptr fp) div csz v"
    and "(unat (fptr fp) + unat n) mod 512 \<noteq> 0 \<Longrightarrow> fsect fp' = file_sect v cs ((unat (fptr fp) + unat n) div 512)"
    and "csize v' = csize v" "file_sect v' cs = file_sect v cs"
  shows "pointer_ok (advance fp' n) v' cs"
  using assms unat_advance [of fp' n] unfolding pointer_ok_def by simp

text \<open>Whole sectors go to the disk past the buffer.\<close>

lemma write_at_direct:
  assumes f: "disk_file fp v cs" "flag fp AND FA_DIRTY = 0" and k: "k < sectors v cs" "unat q = k mod unat (csize v)"
    and p: "unat (fptr fp) = 512 * k" "unat (fptr fp) \<le> unat (objsize fp)"
    and b: "0 < btw" "unat (fptr fp) + unat btw < 2 ^ 32" "unat btw \<le> length w"
    and fc: "fclust fp = cs ! (k div unat (csize v))" and e: "write_at (file_sect v cs k) q btw w fp v = (st, fp', v')"
    and sectors: "btw div SS > 0"
  obtains n where "st = Inr n" "0 < n" "n \<le> btw" "file_ok (advance fp' n) v' cs"
    "content (advance fp' n) v' cs = memcpy (unat (fptr fp)) (take (unat n) w) (content fp v cs)"
    "effect (in_file v cs) v v'" "same_object fp fp'" "fptr fp' = fptr fp" "objsize fp' = objsize fp"
proof -
  note thesis = that
  note d = disk_fileD [OF f(1)]
  have pd: "unat (fptr fp) div csz v = k div unat (csize v)" using p(1) by (simp add: div_mult2_eq)
  define c where "c = (if q + btw div SS > ucast (csize v) then ucast (csize v) - q else btw div SS)"
  note cc = sector_count [OF d(5) k(2) sectors, folded c_def]
  obtain r g where dw: "disk_write (pdrv v) w (file_sect v cs k) c (dk v) = (r, g)"
    by (cases "disk_write (pdrv v) w (file_sect v cs k) c (dk v)")
  have lw: "512 * unat c \<le> length w" using cc(3) b(3) by simp
  have rok: "r = RES_OK" by (rule write_sectors(1) [OF d(1) k(1) cc(1,2) refl lw dw])
  define fp1 where "fp1 = (if fsect fp - file_sect v cs k < c
      then fp\<lparr>buf := slice (unat ((fsect fp - file_sect v cs k) * SS)) 512 w, flag := flag fp AND NOT FA_DIRTY\<rparr> else fp)"
  have e1: "st = Inr (SS * c)" "fp' = fp1" "v' = v\<lparr>dk := g\<rparr>"
    using e sectors dw rok by (simp_all add: write_at_def Let_def c_def [symmetric] fp1_def)
  note sd = sector_diff [OF d(3) k(1) cc(2) refl]
  have n: "0 < SS * c" "SS * c \<le> btw" using cc(1,3,4) by (simp_all add: word_less_nat_alt word_le_nat_alt)
  have lt: "unat (fptr fp) + unat (SS * c) < 2 ^ 32" using cc(3,4) b(2) by simp
  have bi: "buf fp1 = slice (512 * i) 512 w" if "i < unat c" "fsect fp = file_sect v cs (k + i)" for i
  proof -
    have "unat c \<le> 128" using cc(2) csize_bounds(2) [OF d(5)] by simp
    then have "unat ((fsect fp - file_sect v cs k) * SS) = 512 * i"
      using unat_times_SS [of "fsect fp - file_sect v cs k"] sd(1) [OF that(1)] that by simp
    moreover have "fsect fp - file_sect v cs k < c" using sd(2) that by blast
    ultimately show ?thesis by (simp only: fp1_def if_True) simp
  qed
  have bn: "buf fp1 = buf fp" if "\<And>i. i < unat c \<Longrightarrow> fsect fp \<noteq> file_sect v cs (k + i)"
    using sd(2) that by (auto simp: fp1_def)
  have len: "length (buf fp1) = 512"
  proof (cases "\<exists>i < unat c. fsect fp = file_sect v cs (k + i)")
    case True
    then obtain i where "i < unat c" "fsect fp = file_sect v cs (k + i)" by blast
    then show ?thesis using bi [of i] lw by (simp add: slice_def)
  next
    case False
    then show ?thesis using bn d(2) by (auto simp: cache_ok_def)
  qed
  have flds: "fsect fp1 = fsect fp" "flag fp1 AND FA_DIRTY = 0" "sclust fp1 = sclust fp" "fptr fp1 = fptr fp"
    "objsize fp1 = objsize fp" "fclust fp1 = fclust fp" "same_object fp fp1"
    using f(2) by (simp_all add: fp1_def same_object_def)
  have ob: "unat (objsize (advance fp1 (SS * c))) = max (unat (objsize fp)) (unat (fptr fp) + 512 * unat c)"
    using unat_advance(2) [of fp1 "SS * c"] lt flds(4,5) cc(4) by simp
  have sd2: "r = RES_OK" "effect (in_file v cs) v v'" "disk_file (advance fp1 (SS * c)) v' cs"
    "content (advance fp1 (SS * c)) v' cs = memcpy (unat (fptr fp)) (take (512 * unat c) w) (content fp v cs)"
    unfolding e1(3)
    by (rule store_direct [OF f p(2,1) k(1) cc(1,2) refl lw dw _ _ _ _ ob]; use flds(1-3) len bi bn in simp)+
  note gf = gframe_file(1) [OF effectD(1) [OF sd2(2)]] and cz = gframe_fields(7) [OF effectD(1) [OF sd2(2)]]
  have mid: "(unat (fptr fp) + unat (SS * c) - 1) div csz v = unat (fptr fp) div csz v"
    unfolding p(1) cc(4) pointer_direct [OF cc(1,2)] by (simp add: div_mult2_eq)
  have "pointer_ok (advance fp1 (SS * c)) v' cs"
    by (rule pointer_advance [OF lt n(1) flds(4) _ mid]) (use flds(6) fc pd p(1) cc(4) gf cz in \<open>simp_all add: fun_eq_iff\<close>)
  then show ?thesis
    using thesis [OF e1(1) n] sd2 flds cc(4) e1(2) by (simp add: file_ok_def)
qed

text \<open>Less than a sector goes into the buffer, which is filled first when the file has bytes of the sector.\<close>

lemma write_at_buffered:
  assumes f: "disk_file fp v cs" "flag fp AND FA_DIRTY = 0" and k: "k < sectors v cs" "unat q = k mod unat (csize v)"
    and p: "unat (fptr fp) = 512 * k" "unat (fptr fp) \<le> unat (objsize fp)"
    and b: "0 < btw" "unat (fptr fp) + unat btw < 2 ^ 32" "unat btw \<le> length w"
    and fc: "fclust fp = cs ! (k div unat (csize v))" and e: "write_at (file_sect v cs k) q btw w fp v = (st, fp', v')"
    and sectors: "\<not> btw div SS > 0"
  obtains n where "st = Inr n" "0 < n" "n \<le> btw" "file_ok (advance fp' n) v' cs"
    "content (advance fp' n) v' cs = memcpy (unat (fptr fp)) (take (unat n) w) (content fp v cs)"
    "effect (in_file v cs) v v'" "same_object fp fp'" "fptr fp' = fptr fp" "objsize fp' = objsize fp"
proof -
  note thesis = that
  note d = disk_fileD [OF f(1)]
  have pd: "unat (fptr fp) div csz v = k div unat (csize v)" using p(1) by (simp add: div_mult2_eq)
  define E where "E = (if fsect fp \<noteq> file_sect v cs k \<and> fptr fp < objsize fp then fill_buf (file_sect v cs k) fp v else (True, fp, v))"
  obtain ok fp1 v1 where E: "E = (ok, fp1, v1)" by (cases E)
  have "ok \<and> same_file fp v fp v1 cs \<and> fp1 = fp\<lparr>buf := buf fp1\<rparr> \<and> length (buf fp1) = 512 \<and>
      (unat (fptr fp) < unat (objsize fp) \<longrightarrow> buf fp1 = file_sec fp v cs k)"
  proof (cases "fsect fp \<noteq> file_sect v cs k \<and> fptr fp < objsize fp")
    case True
    then have fb: "fill_buf (file_sect v cs k) fp v = (ok, fp1, v1)" using E by (simp add: E_def)
    have lt: "512 * k < unat (objsize fp)" using True p(1) by (simp add: word_less_nat_alt)
    note fs = fill_sector [OF d(1,2) f(2) k(1) lt fb]
    have "winsect v1 = winsect v" using fb by (auto simp: fill_buf_def Let_def split: prod.splits if_splits)
    then have "same_file fp v fp v1 cs" using data_ok_moves(2) [OF d(1) fs(4) _ d(2)] by (simp add: roams_def)
    then show ?thesis using fs d(7) by simp
  next
    case F: False
    then have "ok" "fp1 = fp" "v1 = v" using E by (auto simp: E_def)
    then show ?thesis
      using F same_file_refl [OF d(1,2)] d(2) by (auto simp: file_sec_def cache_ok_def word_less_nat_alt)
  qed
  then have c: "ok" "same_file fp v fp v1 cs" "fp1 = fp\<lparr>buf := buf fp1\<rparr>" "length (buf fp1) = 512"
    "unat (fptr fp) < unat (objsize fp) \<Longrightarrow> buf fp1 = file_sec fp v cs k" by blast+
  note sc = same_file_content [OF f(1) c(2)]
  note d1 = disk_fileD [OF sc(1)]
  define fp2 where "fp2 = fp1\<lparr>fsect := file_sect v cs k\<rparr>"
  obtain n fp3 where wp: "write_partial btw w fp2 = (n, fp3)" by (cases "write_partial btw w fp2")
  have "write_at (file_sect v cs k) q btw w fp v = (case E of (ok, fp, u) \<Rightarrow> if \<not> ok then (Inl FR_DISK_ERR, fp, u)
      else let (wcnt, fp) = write_partial btw w (fp\<lparr>fsect := file_sect v cs k\<rparr>) in (Inr wcnt, fp, u))"
    unfolding write_at_def E_def Let_def using sectors by (simp only: if_False)
  then have e1: "st = Inr n" "fp' = fp3" "v' = v1" using e E c(1) wp by (auto simp: fp2_def)
  have f2: "fptr fp2 = fptr fp" "objsize fp2 = objsize fp" "fclust fp2 = fclust fp" "sclust fp2 = sclust fp"
    "buf fp2 = buf fp1" "fsect fp2 = file_sect v cs k" "same_object fp fp2"
    unfolding fp2_def same_object_def by (subst c(3), simp)+
  note w = write_partial_fields [OF wp b(1), unfolded f2]
  have nb: "unat n \<le> unat btw" using w(2) by (simp add: word_le_nat_alt)
  have lt: "unat (fptr fp) + unat n < 2 ^ 32" using nb b(2) by simp
  have f3: "fptr fp3 = fptr fp" "objsize fp3 = objsize fp" "fclust fp3 = fclust fp" "sclust fp3 = sclust fp"
    "buf fp3 = memcpy (unat (fptr fp) mod 512) (take (unat n) w) (buf fp1)" "fsect fp3 = file_sect v1 cs k"
    "same_object fp fp3" "flag fp3 AND FA_DIRTY \<noteq> 0"
    using w(4) f2 sc(3) by (simp_all add: same_object_def)
  have ob: "unat (objsize (advance fp3 n)) = max (unat (objsize fp)) (unat (fptr fp) + unat n)"
    using unat_advance(2) [of fp3 n] lt f3(1,2) by simp
  have k1: "k < sectors v1 cs" "k = unat (fptr fp) div 512" using k(1) sc(4) p(1) by simp_all
  have oth: "file_sec fp v1 cs j = vsec v1 (file_sect v1 cs j)"
    if "j < sectors v1 cs" "512 * j < unat (objsize fp)" "j \<noteq> k" for j
    by (rule clean_sec [OF d1(2) f(2) that(1,2)])
  have bb: "buf fp1 ! i = file_sec fp v1 cs k ! i" if "i < 512" "512 * k + i < unat (objsize fp)" for i
    using that c(2,5) k(1) p(1) by (simp add: same_file_def)
  have st: "disk_file (advance fp3 n) v1 cs"
    "content (advance fp3 n) v1 cs = memcpy (unat (fptr fp)) (take (unat n) w) (content fp v1 cs)"
    by (rule store_partial [OF sc(1) p(2) k1 oth c(4) bb w(3) _ _ _ _ _ ob]; use f3(4-6,8) nb b(3) in simp)+
  note pp = pointer_partial [OF w(3,1)]
  have "pointer_ok (advance fp3 n) v1 cs"
    by (rule pointer_advance [OF lt w(1) f3(1) _ pp(1)]) (use f3(3,6) fc pd pp(2) k1(2) sc(3,4) in simp_all)
  moreover have "effect (in_file v cs) v v1" using c(2) by (simp add: same_file_def)
  ultimately show ?thesis
    using thesis [OF e1(1) w(1,2)] st e1(2,3) f3 sc(2) by (simp add: file_ok_def)
qed

lemma write_at_ok:
  assumes f: "disk_file fp v cs" "flag fp AND FA_DIRTY = 0" and k: "k < sectors v cs" "unat q = k mod unat (csize v)"
    and p: "unat (fptr fp) = 512 * k" "unat (fptr fp) \<le> unat (objsize fp)"
    and b: "0 < btw" "unat (fptr fp) + unat btw < 2 ^ 32" "unat btw \<le> length w"
    and fc: "fclust fp = cs ! (k div unat (csize v))" and e: "write_at (file_sect v cs k) q btw w fp v = (st, fp', v')"
  obtains n where "st = Inr n" "0 < n" "n \<le> btw" "file_ok (advance fp' n) v' cs"
    "content (advance fp' n) v' cs = memcpy (unat (fptr fp)) (take (unat n) w) (content fp v cs)"
    "effect (in_file v cs) v v'" "same_object fp fp'" "fptr fp' = fptr fp" "objsize fp' = objsize fp"
  using write_at_direct [OF assms] write_at_buffered [OF assms] that by blast

lemma same_object_trans: "same_object a b \<Longrightarrow> same_object b c \<Longrightarrow> same_object a c"
  by (simp add: same_object_def)

text \<open>
  Every round of \<open>f_write\<close> puts bytes at the file pointer, or finds no free cluster at the end of the file.
\<close>

text \<open>Within a sector the bytes go into the buffer.\<close>

lemma write_step_partial:
  assumes f: "file_ok fp v cs" and no1: "no_ones v" and b: "0 < btw" "unat (fptr fp) + unat btw < 2 ^ 32" "unat btw \<le> length w"
    and e: "write_step btw w fp v = Some (st, fp', v')"
    and within: "unat (fptr fp) mod 512 \<noteq> 0"
  shows "\<exists>n cs'. st = Some (Inr n) \<and> 0 < n \<and> n \<le> btw \<and> file_ok (advance fp' n) v' cs' \<and> grown v cs v' cs' \<and>
      content (advance fp' n) v' cs' = memcpy (unat (fptr fp)) (take (unat n) w) (content fp v cs) \<and>
      same_object fp fp' \<and> fptr fp' = fptr fp \<and> objsize fp' = objsize fp"
proof -
  let ?p = "unat (fptr fp)" and ?m = "unat (csize v)"
  note ok = file_okD [OF f]
  note d = disk_fileD [OF ok(1)]
  have pz: "fptr fp mod SS = 0 \<longleftrightarrow> ?p mod 512 = 0" using unat_mod_SS [of "fptr fp"] by (auto simp: unat_eq_0 [symmetric])
  obtain n fp1 where wp: "write_partial btw w fp = (n, fp1)" by (cases "write_partial btw w fp")
  have e1: "st = Some (Inr n)" "fp' = fp1" "v' = v" using e within pz wp by (simp_all add: write_step_def)
  note wf = write_partial_fields [OF wp b(1)]
  have fs: "fsect fp = file_sect v cs (?p div 512)" using ok(2) within by (simp add: pointer_ok_def)
  have "?p < csz v * length cs"
  proof (rule ccontr)
    assume "\<not> ?p < csz v * length cs"
    then have "?p = 512 * (?m * length cs)" using ok(3) d(6) by simp
    then show False using within by simp
  qed
  then have ks: "?p div 512 < sectors v cs" using sector_of by simp
  have nb: "unat n \<le> unat btw" using wf(2) by (simp add: word_le_nat_alt)
  have lt: "?p + unat n < 2 ^ 32" using nb b(2) by simp
  have f1: "fptr fp1 = fptr fp" "objsize fp1 = objsize fp" "fclust fp1 = fclust fp" "sclust fp1 = sclust fp"
    "buf fp1 = memcpy (?p mod 512) (take (unat n) w) (buf fp)" "fsect fp1 = fsect fp"
    "same_object fp fp1" "flag fp1 AND FA_DIRTY \<noteq> 0"
    using wf(4) by (simp_all add: same_object_def)
  have ob: "unat (objsize (advance fp1 n)) = max (unat (objsize fp)) (?p + unat n)"
    using unat_advance(2) [of fp1 n] lt f1(1,2) by simp
  have oth: "file_sec fp v cs j = vsec v (file_sect v cs j)"
    if "j < sectors v cs" "512 * j < unat (objsize fp)" "j \<noteq> ?p div 512" for j
    using file_sect_inj [OF d(3) that(1) ks] that(3) fs by (auto simp: file_sec_def)
  have bb: "buf fp ! i = file_sec fp v cs (?p div 512) ! i" for i using fs by (simp add: file_sec_def)
  have lb: "length (buf fp) = 512" using d(2) by (simp add: cache_ok_def)
  have st: "disk_file (advance fp1 n) v cs"
    "content (advance fp1 n) v cs = memcpy ?p (take (unat n) w) (content fp v cs)"
    by (rule store_partial [OF ok(1,3) ks refl oth lb bb wf(3) _ _ _ _ _ ob]; use f1(4-6,8) fs nb b(3) in simp)+
  note pp = pointer_partial [OF wf(3,1)]
  have "0 < ?p" using within by (cases ?p) auto
  then have "fclust fp = cs ! (?p div csz v)" using pointer_clust [OF ok(2)] within by simp
  then have "pointer_ok (advance fp1 n) v cs"
    by (intro pointer_advance [OF lt wf(1) f1(1) _ pp(1)]) (use f1(3,6) fs pp(2) in simp_all)
  moreover have "grown v cs v cs" using grown_same [OF d(1)] d(4) by (simp add: fat_good_def)
  ultimately show ?thesis using st e1 wf(1,2) f1 by (intro exI [of _ n] exI [of _ cs]) (simp add: file_ok_def)
qed

text \<open>At the end of a sector the next one is found, in the next cluster when the cluster is full.\<close>

lemma next_sector_ok:
  assumes f: "file_ok fp v cs" and no1: "no_ones v" and p: "unat (fptr fp) = 512 * k" and q: "q = 0 \<longleftrightarrow> k mod unat (csize v) = 0"
    and wc: "(if q = 0 then write_clust fp v else Some (Some FR_OK, fp, v)) = Some (res, fp1, v1)"
  shows "res = None \<and> fp1 = fp \<and> same_file fp v fp v1 cs \<and> moves v v1 \<and> unat (fptr fp) = csz v * length cs \<and>
      (free_clst v = 0 \<or> free_set v = {}) \<or>
    res = Some FR_OK \<and> (\<exists>cs1. disk_file fp1 v1 cs1 \<and> content fp1 v1 cs1 = content fp v cs \<and> grown v cs v1 cs1 \<and>
      k < sectors v1 cs1 \<and> fclust fp1 = cs1 ! (k div unat (csize v)) \<and> fptr fp1 = fptr fp \<and> objsize fp1 = objsize fp \<and>
      same_object fp fp1)"
proof -
  let ?p = "unat (fptr fp)" and ?m = "unat (csize v)"
  note ok = file_okD [OF f]
  note d = disk_fileD [OF ok(1)]
  have k: "?p div 512 = k" "?p div csz v = k div ?m" by (simp_all add: p div_mult2_eq)
  show ?thesis
  proof (cases "k mod ?m = 0")
    case kz: True
    then have "write_clust fp v = Some (res, fp1, v1)" using wc q by simp
    from write_clust_ok [OF ok(1,2) no1 p kz this] show ?thesis
      by (elim disjE conjE exE) (simp_all add: same_object_def, blast?)
  next
    case kn: False
    then have r: "res = Some FR_OK" "fp1 = fp" "v1 = v" using wc q by simp_all
    have "k \<noteq> 0" using kn by (cases k) auto
    then have "fclust fp = cs ! (k div ?m)" using pointer_clust [OF ok(2)] p kn k by simp
    moreover have "k < sectors v cs"
    proof -
      have "?p \<le> csz v * length cs" using ok(3) d(6) by simp
      then have "k \<le> sectors v cs" using p by simp
      moreover have "k \<noteq> sectors v cs" using kn by auto
      ultimately show ?thesis by simp
    qed
    moreover have "grown v cs v cs" using grown_same [OF d(1)] d(4) by (simp add: fat_good_def)
    ultimately show ?thesis using r ok(1) by (auto simp: same_object_def)
  qed
qed

lemma write_step_sector:
  assumes f: "file_ok fp v cs" and no1: "no_ones v" and b: "0 < btw" "unat (fptr fp) + unat btw < 2 ^ 32" "unat btw \<le> length w"
    and e: "write_step btw w fp v = Some (st, fp', v')"
    and start: "unat (fptr fp) mod 512 = 0"
  shows "st = None \<and> fp' = fp \<and> same_file fp v fp v' cs \<and> moves v v' \<and> unat (fptr fp) = csz v * length cs \<and>
      (free_clst v = 0 \<or> free_set v = {}) \<or>
    (\<exists>n cs'. st = Some (Inr n) \<and> 0 < n \<and> n \<le> btw \<and> file_ok (advance fp' n) v' cs' \<and> grown v cs v' cs' \<and>
      content (advance fp' n) v' cs' = memcpy (unat (fptr fp)) (take (unat n) w) (content fp v cs) \<and>
      same_object fp fp' \<and> fptr fp' = fptr fp \<and> objsize fp' = objsize fp)"
proof -
  let ?p = "unat (fptr fp)" and ?m = "unat (csize v)"
  note ok = file_okD [OF f]
  note d = disk_fileD [OF ok(1)]
  have pz: "fptr fp mod SS = 0 \<longleftrightarrow> ?p mod 512 = 0" using unat_mod_SS [of "fptr fp"] by (auto simp: unat_eq_0 [symmetric])
  define k where "k = ?p div 512"
  have p: "?p = 512 * k" using start by (auto simp: k_def)
  define q where "q = (fptr fp div SS) AND (ucast (csize v) - 1)"
  have uq: "unat q = k mod ?m" using unat_and_csize [OF d(5)] by (simp add: q_def unat_div k_def)
  have zq: "q = 0 \<longleftrightarrow> k mod ?m = 0" using uq by (auto simp: unat_eq_0 [symmetric])
  obtain res fp1 v1 where wc: "(if q = 0 then write_clust fp v else Some (Some FR_OK, fp, v)) = Some (res, fp1, v1)"
    using e start pz by (auto simp: write_step_def Let_def q_def [symmetric] split: if_splits bind_splits)
  have ws: "write_step btw w fp v = (case res of None \<Rightarrow> Some (None, fp1, v1)
      | Some res \<Rightarrow> if res \<noteq> FR_OK then Some (Some (Inl res), fp1, v1)
          else let (st, fp, v) = write_sector btw w q fp1 v1 in Some (Some st, fp, v))"
    unfolding write_step_def Let_def q_def [symmetric] using start pz by (simp add: wc)
  define full where "full \<longleftrightarrow> free_clst v = 0 \<or> free_set v = {}"
  from next_sector_ok [OF f no1 p zq wc, folded full_def] show ?thesis
  proof (elim disjE conjE exE, goal_cases full more)
    case full
    then show ?thesis using e ws by (simp add: full_def)
  next
    case (more cs1)
    note d1 = disk_fileD [OF more(2)]
    obtain o1 fp2 v2 where fl: "flush_if fp1 v1 = (o1, fp2, v2)" by (cases "flush_if fp1 v1")
    note fo = flush_if_ok [OF d1(1,2) fl]
    note sc = same_file_content [OF more(2) fo(3)]
    note d2 = disk_fileD [OF sc(1)]
    have cz1: "csize v1 = csize v" using more(4) effectD(1) gframe_fields(7) by (auto simp: grown_def)
    have cz: "csize v2 = csize v" using cz1 sc(4) by simp
    have f2: "fclust fp2 = cs1 ! (k div ?m)" "fptr fp2 = fptr fp" "objsize fp2 = objsize fp" "flag fp2 AND FA_DIRTY = 0"
      "same_object fp fp2"
      using fo(2) more(6-9) by (simp_all add: same_object_def)
    have k2: "k < sectors v2 cs1" using more(5) sc(4) by simp
    have vc: "valid_clst v2 (cs1 ! (k div ?m))" using sector_cluster(3) [OF d2(3) k2] cz by simp
    have nz: "clst2sect (fclust fp2) v2 \<noteq> 0" using unat_clst2sect(3) [OF fat_goodD(2) [OF d2(4)] vc] f2(1) by auto
    have "(of_nat (k mod ?m) :: DWORD) = q" unfolding uq [symmetric] by (simp add: of_nat_unat)
    then have sct: "clst2sect (fclust fp2) v2 + q = file_sect v2 cs1 k" using f2(1) cz by (simp add: file_sect_def)
    have wa: "write_sector btw w q fp1 v1 = write_at (file_sect v2 cs1 k) q btw w fp2 v2"
      using write_sector_at [of fp1 v1 fp2 v2 btw w q] fl fo(1) nz sct by simp
    obtain s3 fp3 v3 where w3: "write_at (file_sect v2 cs1 k) q btw w fp2 v2 = (s3, fp3, v3)"
      by (cases "write_at (file_sect v2 cs1 k) q btw w fp2 v2")
    have r: "st = Some s3" "fp' = fp3" "v' = v3" using e ws more(1) wa w3 by simp_all
    have uq2: "unat q = k mod unat (csize v2)" and fc2: "fclust fp2 = cs1 ! (k div unat (csize v2))" using uq f2(1) cz by simp_all
    obtain n where n: "s3 = Inr n" "0 < n" "n \<le> btw" "file_ok (advance fp3 n) v3 cs1"
      "content (advance fp3 n) v3 cs1 = memcpy ?p (take (unat n) w) (content fp2 v2 cs1)"
      "effect (in_file v2 cs1) v2 v3" "same_object fp2 fp3" "fptr fp3 = fptr fp" "objsize fp3 = objsize fp"
      using write_at_ok [OF sc(1) f2(4) k2 uq2 _ _ b(1) _ b(3) fc2 w3] f2(2,3) p ok(3) b(2) by auto
    have "effect (in_file v1 cs1) v1 v2" using fo(3) by (simp add: same_file_def)
    then have "grown v1 cs1 v2 cs1" "grown v2 cs1 v3 cs1" using grown_same [OF d1(1)] grown_same [OF d2(1) n(6)] by simp_all
    moreover have "distinct cs1" using d1(3) by (simp add: clusters_def)
    moreover have "0 < ?m" by (rule csize_bounds(1) [OF d(5)])
    ultimately have "grown v cs v3 cs1" using more(4) grown_trans cz1 by metis
    then show ?thesis
      using r n sc(2) more(3) same_object_trans [OF f2(5) n(7)] by (intro disjI2 exI [of _ n] exI [of _ cs1]) simp
  qed
qed

lemma write_step_ok:
  assumes f: "file_ok fp v cs" and no1: "no_ones v" and b: "0 < btw" "unat (fptr fp) + unat btw < 2 ^ 32" "unat btw \<le> length w"
    and e: "write_step btw w fp v = Some (st, fp', v')"
  shows "st = None \<and> fp' = fp \<and> same_file fp v fp v' cs \<and> moves v v' \<and> unat (fptr fp) = csz v * length cs \<and>
      (free_clst v = 0 \<or> free_set v = {}) \<or>
    (\<exists>n cs'. st = Some (Inr n) \<and> 0 < n \<and> n \<le> btw \<and> file_ok (advance fp' n) v' cs' \<and> grown v cs v' cs' \<and>
      content (advance fp' n) v' cs' = memcpy (unat (fptr fp)) (take (unat n) w) (content fp v cs) \<and>
      same_object fp fp' \<and> fptr fp' = fptr fp \<and> objsize fp' = objsize fp)"
  using write_step_partial [OF assms] write_step_sector [OF assms] by blast

section \<open>The loop\<close>

text \<open>Only the table takes the window away.\<close>

lemma roams_gframe: "gframe v v1 \<Longrightarrow> roams v v1 \<Longrightarrow> roams v1 v2 \<Longrightarrow> roams v v2"
  using gframe_geom(3) [of v v1] by (auto simp: roams_def)

lemma write_sector_window:
  assumes "write_sector btw w q fp v = (st, fp', v')"
  shows "winsect v' = winsect v"
proof -
  obtain ok g u where fl: "flush_if fp v = (ok, g, u)" by (cases "flush_if fp v")
  have "winsect u = winsect v" using fl by (auto simp: flush_if_def flush_buf_def Let_def split: if_splits prod.splits)
  then show ?thesis
    using assms [unfolded write_sector_def, folded flush_if_def] fl
    by (auto simp: fill_buf_def Let_def split: if_splits prod.splits)
qed

lemma write_step_roams:
  assumes "write_step btw w fp v = Some (st, fp', v')" "fat_good v"
  shows "roams v v'"
proof (cases "fptr fp mod SS = 0")
  case False
  then show ?thesis using assms(1) by (auto simp: write_step_def roams_def split: prod.splits)
next
  case True
  define q where "q = (fptr fp div SS) AND (ucast (csize v) - 1)"
  obtain res g u where wc: "(if q = 0 then write_clust fp v else Some (Some FR_OK, fp, v)) = Some (res, g, u)"
    using assms(1) True by (auto simp: write_step_def Let_def q_def [symmetric] split: if_splits bind_splits)
  have "roams v u"
  proof (cases "q = 0")
    case True
    then show ?thesis
      using wc create_chain_parked(1) [OF assms(2)]
      by (auto simp: write_clust_def Let_def roams_def bind_eq_Some_conv split: if_splits)
  qed (use wc in \<open>simp add: roams_def\<close>)
  moreover have "winsect v' = winsect u"
    using assms(1) True wc write_sector_window
    by (auto simp: write_step_def Let_def q_def [symmetric] split: option.splits if_splits prod.splits)
  ultimately show ?thesis by (simp add: roams_def)
qed

lemma write_step_total:
  assumes "file_ok fp v cs"
  shows "\<exists>y. write_step btw w fp v = Some y"
proof -
  have g: "wf_win v" "vol_ok v" using disk_fileD(4) [OF file_okD(1) [OF assms]] fat_goodD by blast+
  have cc: "\<exists>r u. create_chain c v = Some (r, u)" for c using create_chain_spec [OF g, of c] by blast
  have "\<exists>y. write_clust fp v = Some y"
    using cc [of 0] cc [of "fclust fp"] by (auto simp: write_clust_def Let_def)
  then show ?thesis by (auto simp: write_step_def Let_def split: option.split prod.split)
qed

text \<open>
  Writing returns the number of the bytes written, and these bytes are in the content at the file pointer.  It is less than
  asked for only if no cluster is left.
\<close>

lemma file_write_ok:
  assumes "file_ok fp v cs" "no_ones v" "unat (fptr fp) + unat btw < 2 ^ 32" "unat btw \<le> length w"
  shows "\<exists>n fp' v' cs'. file_write btw w bw fp v = Some (FR_OK, bw + n, fp', v') \<and> n \<le> btw \<and>
    file_ok fp' v' cs' \<and> content fp' v' cs' = memcpy (unat (fptr fp)) (take (unat n) w) (content fp v cs) \<and>
    unat (fptr fp') = unat (fptr fp) + unat n \<and> grown v cs v' cs' \<and> same_object fp fp' \<and> roams v v' \<and>
    (n < btw \<longrightarrow> unat (fptr fp') = csz v * length cs' \<and> (free_clst v' = 0 \<or> free_set v' = {}))"
  using assms
proof (induction "unat btw" arbitrary: btw w bw fp v cs rule: less_induct)
  case less
  note ok = file_okD [OF less.prems(1)]
  note d = disk_fileD [OF ok(1)]
  have m: "0 < unat (csize v)" by (rule csize_bounds(1) [OF d(5)])
  have same: "grown v cs v cs" "same_object fp fp" "roams v v"
    using grown_same [OF d(1)] d(4) by (simp_all add: fat_good_def same_object_def roams_def)
  show ?case
  proof (cases "btw > 0")
    case False
    then have z: "btw = 0" by (simp add: word_neq_0_conv [symmetric])
    then show ?thesis
      using less.prems(1) same by (intro exI [of _ 0] exI [of _ fp] exI [of _ v] exI [of _ cs])
        (simp add: file_write.simps [of 0] memcpy_def)
  next
    case True
    obtain st fp1 v1 where ws: "write_step btw w fp v = Some (st, fp1, v1)"
      using write_step_total [OF less.prems(1)] by (metis prod_cases3)
    have rv: "roams v v1" by (rule write_step_roams [OF ws d(4)])
    define none where "none \<longleftrightarrow> free_clst v = 0 \<or> free_set v = {}"
    from write_step_ok [OF less.prems(1,2) True less.prems(3,4) ws, folded none_def] show ?thesis
    proof (elim disjE conjE exE, goal_cases full more)
      case full
      note sc = same_file_content [OF ok(1) full(3)]
      have "pointer_ok fp v1 cs" using ok(2) sc(3,4) by (simp add: pointer_ok_def)
      then have "file_ok fp v1 cs" using sc(1) by (simp add: file_ok_def)
      moreover have "grown v cs v1 cs" using grown_same [OF d(1)] full(3) by (simp add: same_file_def)
      moreover have "file_write btw w bw fp v = Some (FR_OK, bw + 0, fp, v1)"
        using True ws full(1,2) by (simp add: file_write.simps [of btw])
      moreover have "free_clst v1 = 0 \<or> free_set v1 = {}"
        using full(6) full_moves [OF d(4) full(4)] by (simp add: none_def)
      ultimately show ?thesis
        using same(2) sc(2) full(5) rv by (intro exI [of _ 0] exI [of _ fp] exI [of _ v1] exI [of _ cs]) (simp add: memcpy_def)
    next
      case (more n cs1)
      let ?g = "advance fp1 n"
      have nn: "0 < unat n" "unat n \<le> unat btw" using more(2,3) by (simp_all add: word_less_nat_alt word_le_nat_alt)
      have u: "unat (btw - n) = unat btw - unat n" using more(3) by (simp add: unat_sub)
      have fu: "unat (fptr ?g) = unat (fptr fp) + unat n" using unat_advance(1) [of fp1 n] more(8) less.prems(3) nn(2) by simp
      have no1: "no_ones v1" using more(5) less.prems(2) by (simp add: grown_def)
      have cz: "csize v1 = csize v" using more(5) effectD(1) gframe_fields(7) by (auto simp: grown_def)
      have prem: "unat (btw - n) < unat btw" "unat (fptr ?g) + unat (btw - n) < 2 ^ 32"
        "unat (btw - n) \<le> length (drop (unat n) w)"
        using u nn fu less.prems(3,4) by simp_all
      obtain n2 fp2 v2 cs2 where i: "file_write (btw - n) (drop (unat n) w) (bw + n) ?g v1 = Some (FR_OK, bw + n + n2, fp2, v2)"
        "n2 \<le> btw - n" "file_ok fp2 v2 cs2" "content fp2 v2 cs2 = memcpy (unat (fptr ?g)) (take (unat n2) (drop (unat n) w)) (content ?g v1 cs1)"
        "unat (fptr fp2) = unat (fptr ?g) + unat n2" "grown v1 cs1 v2 cs2" "same_object ?g fp2" "roams v1 v2"
        "n2 < btw - n \<longrightarrow> unat (fptr fp2) = csz v1 * length cs2 \<and> (free_clst v2 = 0 \<or> free_set v2 = {})"
        using less.hyps [OF prem(1) more(4) no1 prem(2,3), of "bw + n"] by blast
      have u2: "unat n2 \<le> unat btw - unat n" using i(2) u by (simp add: word_le_nat_alt)
      have "unat btw < 2 ^ LENGTH(32)" by (rule unsigned_less)
      then have un: "unat (n + n2) = unat n + unat n2" using u2 nn by (simp add: unat_plus_if')
      have le: "n + n2 \<le> btw" "n + n2 < btw \<longleftrightarrow> n2 < btw - n"
        using un u u2 nn by (auto simp: word_le_nat_alt word_less_nat_alt)
      have e: "file_write btw w bw fp v = Some (FR_OK, bw + (n + n2), fp2, v2)"
        using True ws more(1) i(1) by (simp add: file_write.simps [of btw] advance_def Let_def add.assoc)
      have "unat n \<le> length w" using nn(2) less.prems(4) by simp
      then have "take (unat n) w @ take (unat n2) (drop (unat n) w) = take (unat (n + n2)) w" "length (take (unat n) w) = unat n"
        by (simp_all add: un take_add)
      moreover have "unat (fptr fp) \<le> length (content fp v cs)" using ok(3) by simp
      ultimately have c: "content fp2 v2 cs2 = memcpy (unat (fptr fp)) (take (unat (n + n2)) w) (content fp v cs)"
        using patch_patch [of "unat (fptr fp)" "content fp v cs" "take (unat n) w"] i(4) more(6) fu by simp
      have "distinct cs2" using disk_fileD(3) [OF file_okD(1) [OF i(3)]] by (simp add: clusters_def)
      then have g: "grown v cs v2 cs2" using grown_trans [OF more(5) i(6) _ m] by blast
      have "roams v v2" by (rule roams_gframe [OF _ rv i(8)]) (use more(5) effectD(1) in \<open>auto simp: grown_def\<close>)
      moreover have "same_object fp fp2" using more(7) i(7) by (simp add: same_object_def)
      ultimately show ?thesis
        using e le i(3,5,9) c g un fu cz by (intro exI [of _ "n + n2"] exI [of _ fp2] exI [of _ v2] exI [of _ cs2]) simp
    qed
  qed
qed

end
