(* ===== verification/FatFileSeek.thy ===== *)
theory FatFileSeek
  imports FatFileWrite
begin

text \<open>
  Moving the file pointer of an open file inside the file: every way along the chain ends in the cluster and the sector of
  the new position, and the content stays what it is.
\<close>

section \<open>Along the chain\<close>

lemma unat_and_not_csize:
  fixes x :: DWORD
  assumes "csize_ok v"
  shows "unat (x AND NOT (clst_bytes v - 1)) = csz v * (unat x div csz v)"
proof -
  obtain a where a: "a \<le> 7" "unat (csize v) = 2 ^ a" "csize v = 2 ^ a" using csize_cases [OF assms] .
  have b: "csz v = 2 ^ (a + 9)" using a(2) by (simp add: power_add)
  have "(2 :: nat) ^ (a + 9) \<le> 2 ^ 16" using a(1) by (intro power_increasing) simp_all
  then have "unat (of_nat (2 ^ (a + 9)) :: DWORD) = 2 ^ (a + 9)" by (intro unat_of_nat32) simp
  then have "clst_bytes v = 2 ^ (a + 9)"
    using csize_bounds(3) [OF assms] b by (simp add: clst_bytes_def word_unat_eq_iff)
  then have m: "clst_bytes v - 1 = mask (a + 9)" by (simp add: mask_eq_decr_exp)
  have s: "x AND NOT (mask (a + 9)) = x - take_bit (a + 9) x"
  proof -
    have "x - take_bit (a + 9) x = x AND NOT (take_bit (a + 9) x)"
      by (rule disjunctive_diff) (simp add: bit_take_bit_iff)
    also have "\<dots> = x AND NOT (mask (a + 9))" by (rule bit_eqI) (auto simp: bit_simps)
    finally show ?thesis by simp
  qed
  have t: "unat (take_bit (a + 9) x) = unat x mod csz v"
    by (simp only: unsigned_take_bit_eq b) (simp add: take_bit_eq_mod)
  then have "unat (x - take_bit (a + 9) x) = unat x - unat x mod csz v"
    by (subst unat_sub) (simp_all add: word_le_nat_alt)
  then show ?thesis using m s minus_mod_eq_mult_div [of "unat x" "csz v"] by simp
qed

lemma seek_next:
  assumes "fat_good v" "chain (n_fatent v) (fat_entry v) cs" "Suc i < length cs"
  shows "\<exists>v'. (if b then create_chain (cs ! i) v else Some (get_fat (cs ! i) v)) = Some (cs ! Suc i, v') \<and> moves v v' \<and> roams v v'"
proof (cases b)
  case True
  then show ?thesis using create_next [OF assms] by simp
next
  case False
  note wf = fat_goodD [OF assms(1)]
  have i: "i < length cs" using assms(3) by simp
  have v: "valid_clst v (cs ! i)" using chain_nth(1) [OF assms(2) i] by (simp add: valid_clst_def)
  obtain x w where g: "get_fat (cs ! i) v = (x, w)" by (cases "get_fat (cs ! i) v")
  note gs = get_fat_spec [OF wf(1,2) g]
  have "x = cs ! Suc i" using gs(2) [OF v] wf(3) chain_nth(2) [OF assms(2) i assms(3)] by simp
  then show ?thesis using False g gs(1) get_fat_roams [OF assms(1) g] by simp
qed

lemma seek_follow_ok:
  assumes "disk_file fp v cs" "fclust fp = cs ! i" "i < length cs" "unat (fptr fp) = csz v * i" "0 < ofs"
    and "csz v * i + unat ofs \<le> unat (objsize fp)"
  shows "\<exists>ofs' j fp' v'. seek_follow (clst_bytes v) ofs (cs ! i) fp v = Some (Inr (ofs', cs ! j), fp', v') \<and>
    j < length cs \<and> unat (fptr fp') = csz v * j \<and> csz v * j + unat ofs' = csz v * i + unat ofs \<and>
    0 < unat ofs' \<and> unat ofs' \<le> csz v \<and> fclust fp' = cs ! j \<and>
    fp' = fp\<lparr>fptr := fptr fp', fclust := fclust fp'\<rparr> \<and> same_file fp v fp' v' cs"
  using assms
proof (induction "unat ofs" arbitrary: ofs i fp v rule: less_induct)
  case less
  note d = disk_fileD [OF less.prems(1)]
  note m = csize_bounds [OF d(5)]
  have ub: "unat (clst_bytes v) = csz v" using m(3) by (simp add: clst_bytes_def)
  have o0: "0 < unat ofs" using less.prems(5) by (simp add: word_less_nat_alt)
  show ?case
  proof (cases "ofs > clst_bytes v")
    case False
    then have "seek_follow (clst_bytes v) ofs (cs ! i) fp v = Some (Inr (ofs, cs ! i), fp, v)"
      by (simp add: seek_follow.simps [of "clst_bytes v" ofs])
    moreover have "unat ofs \<le> csz v" using False ub by (simp add: word_less_nat_alt not_less)
    ultimately show ?thesis using less.prems same_file_refl [OF d(1,2)] o0
      by (intro exI [of _ ofs] exI [of _ i] exI [of _ fp] exI [of _ v]) simp
  next
    case True
    have lt: "csz v < unat ofs" using True ub by (simp add: word_less_nat_alt)
    have uo: "unat (ofs - clst_bytes v) = unat ofs - csz v" using lt ub by (simp add: unat_sub word_le_nat_alt)
    have "csz v * Suc i < csz v * length cs" using lt less.prems(6) d(6) by simp
    then have si: "Suc i < length cs" by (rule mult_less_cancel1 [THEN iffD1, THEN conjunct2])
    have ch: "chain (n_fatent v) (fat_entry v) cs" using less.prems(1,3) by (auto simp: disk_file_def split: if_splits)
    obtain v1 where n: "(if flag fp AND FA_WRITE \<noteq> 0 then create_chain (cs ! i) v else Some (get_fat (cs ! i) v)) = Some (cs ! Suc i, v1)"
      "moves v v1" "roams v v1"
      using seek_next [OF d(4) ch si] by blast
    have "unat (objsize fp) < 2 ^ LENGTH(32)" by (rule unsigned_less)
    then have "csz v * i + csz v < 2 ^ 32" using less.prems(6) lt by simp
    then have fu: "unat (fptr fp + clst_bytes v) = csz v * Suc i" using less.prems(4) ub by (simp add: unat_plus_if')
    define g where "g = fp\<lparr>fptr := fptr fp + clst_bytes v, fclust := cs ! Suc i\<rparr>"
    have sf: "same_file fp v g v1 cs" using data_ok_moves(2) [OF d(1) n(2,3) d(2)] by (simp add: g_def same_file_def)
    note sc = same_file_content [OF less.prems(1) sf]
    have vc: "2 \<le> cs ! Suc i" "cs ! Suc i < n_fatent v" using chain_nth(1) [OF ch si] by simp_all
    have n1: "n_fatent v1 = n_fatent v" by (rule wframe_fields(13) [OF movesD(1) [OF n(2)]])
    have val: "cs ! Suc i \<noteq> 0" "\<not> cs ! Suc i \<le> 1" "cs ! Suc i \<noteq> 0xFFFFFFFF" "\<not> n_fatent v1 \<le> cs ! Suc i"
      using vc n1 vol_ok_small [OF fat_goodD(2) [OF d(4)]] by (auto simp: word_le_nat_alt word_less_nat_alt)
    have cb: "clst_bytes v1 = clst_bytes v" using sc(4) by (simp add: clst_bytes_def)
    have e: "seek_follow (clst_bytes v) ofs (cs ! i) fp v = seek_follow (clst_bytes v1) (ofs - clst_bytes v) (cs ! Suc i) g v1"
      using True n(1) val by (simp add: seek_follow.simps [of "clst_bytes v" ofs] g_def cb)
    have prem: "unat (ofs - clst_bytes v) < unat ofs" "fclust g = cs ! Suc i" "unat (fptr g) = csz v1 * Suc i" "0 < ofs - clst_bytes v"
      "csz v1 * Suc i + unat (ofs - clst_bytes v) \<le> unat (objsize g)"
      using uo lt fu sc(4) less.prems(6) m(1) by (simp_all add: g_def word_less_nat_alt)
    obtain ofs' j fp' v' where r: "seek_follow (clst_bytes v1) (ofs - clst_bytes v) (cs ! Suc i) g v1 = Some (Inr (ofs', cs ! j), fp', v')"
      "j < length cs" "unat (fptr fp') = csz v1 * j" "csz v1 * j + unat ofs' = csz v1 * Suc i + unat (ofs - clst_bytes v)"
      "0 < unat ofs'" "unat ofs' \<le> csz v1" "fclust fp' = cs ! j" "fp' = g\<lparr>fptr := fptr fp', fclust := fclust fp'\<rparr>"
      "same_file g v1 fp' v' cs"
      using less.hyps [OF prem(1) sc(1) prem(2) si prem(3-5)] by blast
    have "g\<lparr>fptr := fptr fp', fclust := fclust fp'\<rparr> = fp\<lparr>fptr := fptr fp', fclust := fclust fp'\<rparr>" by (simp add: g_def)
    then have "fp' = fp\<lparr>fptr := fptr fp', fclust := fclust fp'\<rparr>" using r(8) by simp
    moreover have "csz v * j + unat ofs' = csz v * i + unat ofs" using r(4) sc(4) uo lt by simp
    ultimately show ?thesis
      using e r sc(4) same_file_trans [OF sf r(9)] by (intro exI [of _ ofs'] exI [of _ j] exI [of _ fp'] exI [of _ v']) simp
  qed
qed

section \<open>The seek\<close>

lemma seek_start_ok:
  assumes "file_ok fp v cs" "0 < ofs" "unat ofs \<le> unat (objsize fp)"
  shows "\<exists>o1 i g. seek_start (clst_bytes v) (fptr fp) ofs (fp\<lparr>fptr := 0\<rparr>) v = Some (Inr (o1, cs ! i), g, v) \<and>
    i < length cs \<and> fclust g = cs ! i \<and> unat (fptr g) = csz v * i \<and> 0 < o1 \<and> csz v * i + unat o1 = unat ofs \<and>
    g = fp\<lparr>fptr := fptr g, fclust := fclust g\<rparr>"
proof -
  note f = file_okD [OF assms(1)] and d = disk_fileD [OF file_okD(1) [OF assms(1)]]
  note m = csize_bounds [OF d(5)]
  have ub: "unat (clst_bytes v) = csz v" using m(3) by (simp add: clst_bytes_def)
  have o0: "0 < unat ofs" using assms(2) by (simp add: word_less_nat_alt)
  have ne: "cs \<noteq> []" using assms(3) d(6) o0 by auto
  have s: "sclust fp = cs ! 0" "sclust fp \<noteq> 0"
  proof -
    show "sclust fp = cs ! 0" using f(1) ne by (simp add: disk_file_def hd_conv_nth)
    moreover have "valid_clst v (cs ! 0)" using d(3) ne by (simp add: clusters_def)
    ultimately show "sclust fp \<noteq> 0" by (auto simp: valid_clst_def word_le_nat_alt)
  qed
  have dm: "unat ((x - 1) div clst_bytes v) = (unat x - 1) div csz v" if "0 < unat x" for x
  proof -
    have "unat (x - 1) = unat x - 1" using that by (intro unat_minus_one) auto
    then show ?thesis using ub by (simp add: unat_div)
  qed
  show ?thesis
  proof (cases "fptr fp > 0 \<and> (ofs - 1) div clst_bytes v \<ge> (fptr fp - 1) div clst_bytes v")
    case True
    let ?p = "unat (fptr fp)"
    define i where "i = (?p - 1) div csz v"
    have p: "0 < ?p" using True by (simp add: word_less_nat_alt)
    define q where "q = (fptr fp - 1) AND NOT (clst_bytes v - 1)"
    have "unat (fptr fp - 1) = ?p - 1" using p by (intro unat_minus_one) auto
    then have q: "unat q = csz v * i" using unat_and_not_csize [OF d(5), of "fptr fp - 1"] by (simp add: q_def i_def)
    have "i \<le> (unat ofs - 1) div csz v" using True dm p o0 by (simp add: word_le_nat_alt i_def)
    then have "csz v * i \<le> csz v * ((unat ofs - 1) div csz v)" by (rule mult_le_mono2)
    also have "\<dots> \<le> unat ofs - 1" by (rule times_div_less_eq_dividend)
    finally have le: "csz v * i < unat ofs" using o0 by linarith
    have "csz v * i < csz v * length cs" using le assms(3) d(6) by linarith
    then have il: "i < length cs" by (rule mult_less_cancel1 [THEN iffD1, THEN conjunct2])
    have fc: "fclust fp = cs ! i" using f(2) p by (simp add: pointer_ok_def i_def)
    have u: "unat (ofs - q) = unat ofs - csz v * i" using le q by (simp add: unat_sub word_le_nat_alt)
    have "seek_start (clst_bytes v) (fptr fp) ofs (fp\<lparr>fptr := 0\<rparr>) v = Some (Inr (ofs - q, cs ! i), fp\<lparr>fptr := q\<rparr>, v)"
      using True fc by (simp add: seek_start_def q_def)
    then show ?thesis
      using il fc q u le by (intro exI [of _ "ofs - q"] exI [of _ i] exI [of _ "fp\<lparr>fptr := q\<rparr>"]) (simp add: word_less_nat_alt)
  next
    case False
    then have "seek_start (clst_bytes v) (fptr fp) ofs (fp\<lparr>fptr := 0\<rparr>) v =
        Some (Inr (ofs, cs ! 0), fp\<lparr>fptr := 0, fclust := cs ! 0\<rparr>, v)"
      using s by (auto simp: seek_start_def)
    then show ?thesis
      using ne assms(2) by (intro exI [of _ ofs] exI [of _ 0] exI [of _ "fp\<lparr>fptr := 0, fclust := cs ! 0\<rparr>"]) simp
  qed
qed

text \<open>The seek up to the sector cache.\<close>

lemma seek_move_ok:
  assumes "file_ok fp v cs" "unat ofs \<le> unat (objsize fp)"
  shows "\<exists>s fp' v'. seek_move ofs fp v = Some (Inr s, fp', v') \<and> fptr fp' = ofs \<and> same_file fp v fp' v' cs \<and>
    fp' = fp\<lparr>fptr := fptr fp', fclust := fclust fp'\<rparr> \<and>
    (0 < unat ofs \<longrightarrow> fclust fp' = cs ! ((unat ofs - 1) div csz v)) \<and>
    (unat ofs mod 512 \<noteq> 0 \<longrightarrow> s = file_sect v cs (unat ofs div 512))"
proof (cases "ofs > 0")
  case False
  note f = file_okD [OF assms(1)] and d = disk_fileD [OF file_okD(1) [OF assms(1)]]
  have z: "ofs = 0" using False by (simp add: word_neq_0_conv [symmetric])
  have "same_file fp v (fp\<lparr>fptr := 0\<rparr>) v cs" using same_file_refl [OF d(1,2)] by (simp add: same_file_def)
  then show ?thesis by (simp add: seek_move_def z)
next
  case True
  note f = file_okD [OF assms(1)] and d = disk_fileD [OF file_okD(1) [OF assms(1)]]
  note m = csize_bounds [OF d(5)]
  obtain o1 i g where s: "seek_start (clst_bytes v) (fptr fp) ofs (fp\<lparr>fptr := 0\<rparr>) v = Some (Inr (o1, cs ! i), g, v)"
    "i < length cs" "fclust g = cs ! i" "unat (fptr g) = csz v * i" "0 < o1" "csz v * i + unat o1 = unat ofs"
    "g = fp\<lparr>fptr := fptr g, fclust := fclust g\<rparr>"
    using seek_start_ok [OF assms(1) True assms(2)] by blast
  have dg: "disk_file g v cs" by (subst s(7)) (use f(1) in simp)
  have og: "objsize g = objsize fp" by (subst s(7)) simp
  have sg: "same_file fp v g v cs"
    using same_file_refl [OF d(1,2)] disk_fileD(2) [OF dg] by (subst s(7)) (simp add: same_file_def)
  have le: "csz v * i + unat o1 \<le> unat (objsize g)" using s(6) assms(2) og by simp
  obtain o2 j fp1 v1 where r: "seek_follow (clst_bytes v) o1 (cs ! i) g v = Some (Inr (o2, cs ! j), fp1, v1)"
    "j < length cs" "unat (fptr fp1) = csz v * j" "csz v * j + unat o2 = csz v * i + unat o1"
    "0 < unat o2" "unat o2 \<le> csz v" "fclust fp1 = cs ! j" "fp1 = g\<lparr>fptr := fptr fp1, fclust := fclust fp1\<rparr>"
    "same_file g v fp1 v1 cs"
    using seek_follow_ok [OF dg s(3,2,4,5) le] by blast
  note sc = same_file_content [OF dg r(9)]
  note d1 = disk_fileD [OF sc(1)]
  have t: "csz v * j + unat o2 = unat ofs" using r(4) s(6) by simp
  have "unat ofs < 2 ^ LENGTH(32)" by (rule unsigned_less)
  then have "unat (fptr fp1 + o2) = unat ofs" using t r(3) by (simp add: unat_plus_if')
  then have fo: "fptr fp1 + o2 = ofs" by (simp add: word_unat_eq_iff)
  define h where "h = fp1\<lparr>fptr := ofs\<rparr>"
  have v: "valid_clst v (cs ! j)" "valid_clst v1 (cs ! j)"
    using d(3) d1(3) r(2) by (simp_all add: clusters_def)
  have "valid_clst v (cs ! i)" using d(3) s(2) by (simp add: clusters_def)
  then have nz: "cs ! i \<noteq> 0" by (auto simp: valid_clst_def word_le_nat_alt)
  have c0: "clst2sect (cs ! j) v1 \<noteq> 0" using unat_clst2sect(3) [OF fat_goodD(2) [OF d1(4)] v(2)] by auto
  have om: "unat (o2 mod SS) = unat ofs mod 512"
  proof -
    have "csz v * j + unat o2 = unat o2 + 512 * (unat (csize v) * j)" by simp
    then have "unat ofs mod 512 = unat o2 mod 512" using t by (metis mod_mult_self2)
    then show ?thesis by (simp add: unat_mod_SS)
  qed
  then have oz: "o2 mod SS = 0 \<longleftrightarrow> unat ofs mod 512 = 0" by (auto simp: unat_eq_0 [symmetric])
  have e: "seek_move ofs fp v = Some (Inr (if o2 mod SS \<noteq> 0 then clst2sect (cs ! j) v1 + o2 div SS else 0), h, v1)"
    using True s(1) nz r(1) c0 fo by (simp add: seek_move_def h_def)
  have sec: "clst2sect (cs ! j) v1 + o2 div SS = file_sect v cs (unat ofs div 512)" if "unat ofs mod 512 \<noteq> 0"
  proof -
    have "unat o2 \<noteq> csz v"
    proof
      assume "unat o2 = csz v"
      then have "unat ofs = 512 * (unat (csize v) * Suc j)" using t by simp
      then show False using that by simp
    qed
    then have lt: "unat o2 div 512 < unat (csize v)" using r(6) by (simp add: less_mult_imp_div_less mult.commute)
    have "unat ofs div 512 = unat (csize v) * j + unat o2 div 512"
      unfolding t [symmetric] by (simp add: mult.assoc)
    then have k: "unat ofs div 512 div unat (csize v) = j" "unat ofs div 512 mod unat (csize v) = unat o2 div 512"
      using lt by simp_all
    have "of_nat (unat o2 div 512) = (o2 div SS)"
    proof -
      have "of_nat (unat (o2 div SS)) = o2 div SS" by (simp add: of_nat_unat)
      moreover have "unat (o2 div SS) = unat o2 div 512" by (simp add: unat_div)
      ultimately show ?thesis by simp
    qed
    moreover have "clst2sect (cs ! j) v1 = clst2sect (cs ! j) v"
      using gframe_geom(6) [OF effectD(1)] r(9) by (auto simp: same_file_def)
    ultimately show ?thesis using k by (simp add: file_sect_def)
  qed
  have fcl: "(unat ofs - 1) div csz v = j"
  proof -
    have "unat ofs - 1 = csz v * j + (unat o2 - 1)" "unat o2 - 1 < csz v" using t r(5,6) m(1) by simp_all
    then show ?thesis by simp
  qed
  have hf: "h = fp\<lparr>fptr := fptr h, fclust := fclust h\<rparr>"
    unfolding h_def by (subst r(8), subst s(7)) simp
  have "same_file fp v h v1 cs" using same_file_trans [OF sg r(9)] by (simp add: h_def same_file_def)
  then show ?thesis
    using e sec oz fcl r(7) hf by (intro exI [of _ "if o2 mod SS \<noteq> 0 then clst2sect (cs ! j) v1 + o2 div SS else 0"]
      exI [of _ h] exI [of _ v1]) (simp add: h_def)
qed

lemma file_seek_ok:
  assumes "file_ok fp v cs" "unat ofs \<le> unat (objsize fp)"
  shows "\<exists>fp' v'. file_seek ofs fp v = Some (FR_OK, fp', v') \<and> file_ok fp' v' cs \<and> content fp' v' cs = content fp v cs \<and>
    same_file fp v fp' v' cs \<and> same_handle fp fp' \<and> fptr fp' = ofs"
proof -
  note f = file_okD [OF assms(1)]
  obtain s g v1 where m: "seek_move ofs fp v = Some (Inr s, g, v1)" "fptr g = ofs" "same_file fp v g v1 cs"
    "g = fp\<lparr>fptr := fptr g, fclust := fclust g\<rparr>" "0 < unat ofs \<longrightarrow> fclust g = cs ! ((unat ofs - 1) div csz v)"
    "unat ofs mod 512 \<noteq> 0 \<longrightarrow> s = file_sect v cs (unat ofs div 512)"
    using seek_move_ok [OF assms] by (elim exE conjE) (rule that)
  note sc = same_file_content [OF f(1) m(3)]
  note d = disk_fileD [OF sc(1)]
  have og: "objsize g = objsize fp" using m(3) by (simp add: same_file_def)
  have "same_handle fp (fp\<lparr>fptr := fptr g, fclust := fclust g\<rparr>)" by (cases fp) (simp add: same_handle_def)
  then have hg: "same_handle fp g" using m(4) by simp
  have oz: "ofs mod SS = 0 \<longleftrightarrow> unat ofs mod 512 = 0" using unat_mod_SS [of ofs] by (auto simp: unat_eq_0 [symmetric])
  have small: "\<not> (ofs > objsize fp \<and> b)" "\<not> fptr g > objsize g" for b
    using assms(2) m(2) og by (simp_all add: word_less_nat_alt)
  have e: "file_seek ofs fp v = (if fptr g mod SS \<noteq> 0 \<and> s \<noteq> fsect g then
        let (ok, fp, v) = flush_if g v1; (ok, fp, v) = (if ok then fill_buf s fp v else (False, fp, v))
        in if \<not> ok then Some (FR_DISK_ERR, fp\<lparr>err := FR_DISK_ERR\<rparr>, v) else Some (FR_OK, fp\<lparr>fsect := s\<rparr>, v)
      else Some (FR_OK, g, v1))"
    unfolding file_seek_def flush_if_def
    by (simp only: small simp_thms if_False Let_def m(1) bind.bind_lunit option.sel prod.case sum.case)
  show ?thesis
  proof (cases "unat ofs mod 512 \<noteq> 0 \<and> s \<noteq> fsect g")
    case False
    then have "file_seek ofs fp v = Some (FR_OK, g, v1)" using e oz m(2) by auto
    moreover have "pointer_ok g v1 cs" using m(2,5,6) assms(2) og sc(3,4) False by (auto simp: pointer_ok_def)
    ultimately show ?thesis using sc m(2,3) hg by (simp add: file_ok_def)
  next
    case True
    define k where "k = unat ofs div 512"
    have s: "s = file_sect v1 cs k" using m(6) True sc(3) by (simp add: k_def)
    have ku: "512 * k < unat (objsize g)"
    proof -
      have "512 * k \<noteq> unat ofs" using True minus_mult_div_eq_mod [of "unat ofs" 512] by (auto simp: k_def)
      moreover have "512 * k \<le> unat ofs" by (simp add: k_def)
      ultimately show ?thesis using assms(2) og by simp
    qed
    have ks: "k < sectors v1 cs" using ku d(6) by simp
    define E where "E = (if fsect g \<noteq> file_sect v1 cs k
        then let (ok, h, w) = flush_if g v1 in if ok then fill_buf (file_sect v1 cs k) h w else (False, h, w) else (True, g, v1))"
    obtain ok h v2 where E: "E = (ok, h, v2)" by (cases E)
    define fp' where "fp' = h\<lparr>fsect := file_sect v1 cs k\<rparr>"
    note c = cache_sector [OF d(1,2) ks ku E [unfolded E_def], folded fp'_def]
    note sc2 = same_file_content [OF sc(1) c(2)]
    have "file_seek ofs fp v = Some (FR_OK, fp', v2)"
      using e oz m(2) True E c(1) s by (auto simp: E_def fp'_def Let_def split: prod.splits if_splits)
    moreover have "fsect fp' = file_sect v cs k" using sc(3) by (simp add: fp'_def)
    moreover have "objsize fp' = objsize fp" using c(2) og by (simp add: same_file_def)
    ultimately have "file_seek ofs fp v = Some (FR_OK, fp', v2)" "pointer_ok fp' v2 cs"
      using m(2,5) assms(2) sc sc2 c(5,6) by (auto simp: pointer_ok_def k_def)
    then show ?thesis
      using sc(2) sc2 same_file_trans [OF m(3) c(2)] same_handle_trans [OF hg c(4)] c(5) m(2) by (simp add: file_ok_def)
  qed
qed

end
