(* ===== verification/FatFileApi.thy ===== *)
theory FatFileApi
  imports FatFileSeek FatMountProps
begin

text \<open>
  \<open>f_read\<close>, \<open>f_write\<close> and \<open>f_lseek\<close> on an open file against a byte array with a position, what writing leaves alone, and
  what is read after it has been written.
\<close>

section \<open>Open files\<close>

text \<open>A file object of a mounted volume, no error so far, with its clusters.\<close>

definition opened :: "FIL \<Rightarrow> world \<Rightarrow> DWORD list \<Rightarrow> bool" where
  "opened fp w cs \<longleftrightarrow>
     (let fs = obj_fs fp; l = unat (ldrv (fss w fs))
      in fs \<noteq> 0 \<and> obj_id fp = fs_id (fss w fs) \<and> l \<le> 4 \<and> mutex w l \<and> \<not> held w l \<and> err fp = FR_OK \<and>
         file_ok fp (open_vol fs w) cs)"

abbreviation contents :: "FIL \<Rightarrow> world \<Rightarrow> DWORD list \<Rightarrow> BYTE list" where
  "contents fp w cs \<equiv> content fp (open_vol (obj_fs fp) w) cs"

abbreviation position :: "FIL \<Rightarrow> nat" where "position fp \<equiv> unat (fptr fp)"

definition locked :: "nat \<Rightarrow> world \<Rightarrow> world" where
  "locked fs w = w\<lparr>held := (held w)(unat (ldrv (fss w fs)) := True)\<rparr>"

lemma open_vol_locked [simp]: "open_vol fs (locked fs w) = open_vol fs w"
  by (simp add: open_vol_def locked_def)

lemma open_vol_geom:
  "ldrv (open_vol fs w) = ldrv (fss w fs)" "fs_id (open_vol fs w) = fs_id (fss w fs)"
  by (simp_all add: open_vol_def fatfs.defs vol.defs)

lemma openedD:
  assumes "opened fp w cs"
  shows "file_ok fp (open_vol (obj_fs fp) w) cs" "fat_good (open_vol (obj_fs fp) w)" "err fp = FR_OK"
  using assms disk_fileD(4) [OF file_okD(1)] by (auto simp: opened_def Let_def)

lemma validate_opened:
  assumes "opened fp w cs"
  shows "validate fp w = Some (FR_OK, obj_fs fp, locked (obj_fs fp) w)"
proof -
  let ?fs = "obj_fs fp"
  note wf = fat_goodD [OF openedD(2) [OF assms]]
  have "fs_type (fss w ?fs) \<noteq> 0" using vol_ok_bounds(1) [OF wf(2)] wf(2) by (auto simp: vol_ok_def open_vol_fields)
  moreover have "disk_status (pdrv (fss w ?fs)) (drives w (unat (pdrv (fss w ?fs)))) AND STA_NOINIT = 0"
    using wf(3) by (simp add: drive_ok_def healthy_def disk_status_def open_vol_fields)
  ultimately show ?thesis
    using assms by (simp add: validate_def opened_def Let_def lock_volume_def ff_mutex_take_def locked_def)
qed

text \<open>The end of an operation, with the volume changed.\<close>

lemma leave_opened:
  assumes "opened fp w cs" "gframe (open_vol (obj_fs fp) w) v"
  shows "leave_ff (obj_fs fp) FR_OK (close_vol (obj_fs fp) v (locked (obj_fs fp) w)) = Some (FR_OK, close_vol (obj_fs fp) v w)"
proof -
  let ?l = "unat (ldrv (fss w (obj_fs fp)))"
  have "ldrv v = ldrv (fss w (obj_fs fp))" using gframe_fields(3) [OF assms(2)] by (simp add: open_vol_geom)
  moreover have "(held w)(?l := True, ?l := False) = held w"
    using assms(1) by (auto simp: opened_def Let_def fun_eq_iff)
  ultimately show ?thesis
    using assms(1) by (simp add: leave_ff_def unlock_volume_def ff_mutex_give_def close_vol_def locked_def opened_def Let_def
      fatfs.defs)
qed

lemma opened_close:
  assumes "opened fp w cs" "gframe (open_vol (obj_fs fp) w) v" "file_ok fp' v cs'"
    and "obj_fs fp' = obj_fs fp" "obj_id fp' = obj_id fp" "err fp' = err fp"
  shows "opened fp' (close_vol (obj_fs fp) v w) cs'" "contents fp' (close_vol (obj_fs fp) v w) cs' = content fp' v cs'"
proof -
  note g = gframe_fields(3,5) [OF assms(2)]
  show "opened fp' (close_vol (obj_fs fp) v w) cs'"
    using assms g by (simp add: opened_def Let_def open_close_vol open_vol_geom) (simp add: close_vol_def fatfs.defs)
  show "contents fp' (close_vol (obj_fs fp) v w) cs' = content fp' v cs'" by (simp add: assms(4) open_close_vol)
qed

section \<open>Reading\<close>

lemma slice_clip: "slice p n xs = slice p (min n (length xs - p)) xs"
  by (simp add: slice_def min_def)

lemma read_opened:
  assumes "opened fp w cs" "flag fp AND FA_READ \<noteq> 0"
  shows "\<exists>bs fp' w'. f_read fp btr w = Some (FR_OK, bs, fp', w') \<and> bs = slice (position fp) (unat btr) (contents fp w cs) \<and>
    opened fp' w' cs \<and> contents fp' w' cs = contents fp w cs \<and> position fp' = position fp + length bs \<and>
    flag fp' AND 0x7F = flag fp AND 0x7F \<and> obj_fs fp' = obj_fs fp \<and>
    grown (open_vol (obj_fs fp) w) cs (open_vol (obj_fs fp) w') cs"
proof -
  let ?fs = "obj_fs fp" and ?v = "open_vol (obj_fs fp) w"
  note f = openedD [OF assms(1)]
  note p = file_okD(3) [OF f(1)]
  define n where "n = (if btr > objsize fp - fptr fp then objsize fp - fptr fp else btr)"
  have u: "unat (objsize fp - fptr fp) = unat (objsize fp) - position fp" using p by (simp add: unat_sub word_le_nat_alt)
  then have n: "unat n = min (unat btr) (unat (objsize fp) - position fp)" by (auto simp: n_def word_less_nat_alt min_def)
  have room: "position fp + unat n \<le> unat (objsize fp)" using n p by simp
  obtain fp' v where r: "file_read n [] fp ?v = Some (FR_OK, [] @ slice (position fp) (unat n) (content fp ?v cs), fp', v)"
    "file_ok fp' v cs" "content fp' v cs = content fp ?v cs" "same_file fp ?v fp' v cs" "same_handle fp fp'"
    "position fp' = position fp + unat n"
    using file_read_ok [OF f(1) room, of "[]"] by blast
  have s: "slice (position fp) (unat n) (content fp ?v cs) = slice (position fp) (unat btr) (content fp ?v cs)"
    using slice_clip [of "position fp" "unat btr" "content fp ?v cs"] n by simp
  have len: "length (slice (position fp) (unat n) (content fp ?v cs)) = unat n" using room by (simp add: slice_def)
  have g: "gframe ?v v" using r(4) effectD(1) by (auto simp: same_file_def)
  have gr: "grown ?v cs v cs" using grown_same r(4) disk_fileD(1) [OF file_okD(1) [OF f(1)]] by (simp add: same_file_def)
  have h: "obj_fs fp' = obj_fs fp" "obj_id fp' = obj_id fp" "err fp' = err fp" "flag fp' AND 0x7F = flag fp AND 0x7F"
    using r(5) by (cases fp, cases fp', auto simp: same_handle_def)+
  have "f_read fp btr w = Some (FR_OK, slice (position fp) (unat n) (content fp ?v cs), fp', close_vol ?fs v w)"
    using validate_opened [OF assms(1)] r(1) leave_opened [OF assms(1) g] assms(2) f(3)
    by (simp add: f_read_def file_check_def n_def [symmetric])
  then show ?thesis using s len opened_close [OF assms(1) g r(2) h(1-3)] r(3,6) h(1,4) gr by (simp add: open_close_vol)
qed

text \<open>C4: \<open>f_read\<close> on an open file returns the bytes of its content from the position on, as many as asked for or as
there are, and moves the position behind them.  The content stays what it is.\<close>

theorem f_read_correct:
  assumes "opened fp w cs" "flag fp AND FA_READ \<noteq> 0"
  shows "\<exists>bs fp' w'. f_read fp btr w = Some (FR_OK, bs, fp', w') \<and> bs = slice (position fp) (unat btr) (contents fp w cs) \<and>
    opened fp' w' cs \<and> contents fp' w' cs = contents fp w cs \<and> position fp' = position fp + length bs \<and>
    flag fp' AND 0x7F = flag fp AND 0x7F \<and> obj_fs fp' = obj_fs fp \<and>
    grown (open_vol (obj_fs fp) w) cs (open_vol (obj_fs fp) w') cs"
  by (rule read_opened [OF assms])

section \<open>Writing\<close>

lemma write_closes:
  assumes "opened fp w cs" "flag fp AND FA_WRITE \<noteq> 0" "no_ones (open_vol (obj_fs fp) w)" "unat btw \<le> length buff"
  defines "v0 \<equiv> open_vol (obj_fs fp) w"
  shows "\<exists>n fp' v cs'. f_write fp buff btw w = Some (FR_OK, n, fp', close_vol (obj_fs fp) v w) \<and> n \<le> btw \<and> file_ok fp' v cs' \<and>
    content fp' v cs' = memcpy (position fp) (take (unat n) buff) (content fp v0 cs) \<and> position fp' = position fp + unat n \<and>
    grown v0 cs v cs' \<and> roams v0 v \<and> gframe v0 v \<and> obj_fs fp' = obj_fs fp \<and> obj_id fp' = obj_id fp \<and> err fp' = err fp \<and>
    flag fp' AND 0x3F = flag fp AND 0x3F \<and>
    (n < btw \<longrightarrow> position fp' = 2 ^ 32 - 1 \<or>
      position fp' = csz v0 * length cs' \<and> (free_clst v = 0 \<or> free_set v = {}))"
proof -
  let ?fs = "obj_fs fp" and ?v = "open_vol (obj_fs fp) w"
  note f = openedD [OF assms(1)]
  define m where "m = (if fptr fp + btw < fptr fp then 0xFFFFFFFF - fptr fp else btw)"
  have pl: "position fp < 2 ^ LENGTH(32)" by (rule unsigned_less)
  have bl: "unat btw < 2 ^ LENGTH(32)" by (rule unsigned_less)
  have um: "unat (0xFFFFFFFF - fptr fp) = 2 ^ 32 - 1 - position fp" using pl by (subst unat_sub) (simp_all add: word_le_nat_alt)
  have ov: "fptr fp + btw < fptr fp \<longleftrightarrow> 2 ^ 32 \<le> position fp + unat btw"
    using bl pl by (simp add: word_less_nat_alt unat_plus_if') arith
  have m: "position fp + unat m < 2 ^ 32" "m \<le> btw" "m < btw \<Longrightarrow> position fp + unat m = 2 ^ 32 - 1"
  proof -
    show "position fp + unat m < 2 ^ 32" using um ov pl by (cases "fptr fp + btw < fptr fp") (simp_all add: m_def)
    show "m \<le> btw" using um ov pl by (cases "fptr fp + btw < fptr fp") (simp_all add: m_def word_le_nat_alt)
    show "position fp + unat m = 2 ^ 32 - 1" if "m < btw" using um pl that by (auto simp: m_def split: if_splits)
  qed
  have lm: "unat m \<le> length buff" using m(2) assms(4) by (simp add: word_le_nat_alt)
  obtain n fp1 v cs' where r: "file_write m buff 0 fp ?v = Some (FR_OK, 0 + n, fp1, v)" "n \<le> m" "file_ok fp1 v cs'"
    "content fp1 v cs' = memcpy (position fp) (take (unat n) buff) (content fp ?v cs)"
    "position fp1 = position fp + unat n" "grown ?v cs v cs'" "same_object fp fp1" "roams ?v v"
    "n < m \<longrightarrow> position fp1 = csz ?v * length cs' \<and> (free_clst v = 0 \<or> free_set v = {})"
    using file_write_ok [OF f(1) assms(3) m(1) lm, of 0] by blast
  define fp' where "fp' = fp1\<lparr>flag := flag fp1 OR FA_MODIFIED\<rparr>"
  have d: "(x OR 0x40) AND 0x80 = x AND 0x80" "(x OR 0x40) AND 0x3F = (x AND 0x7F) AND 0x3F" for x :: BYTE
    by (simp_all add: bit.conj_disj_distrib2 and.assoc)
  have k: "file_ok fp' v cs'" "content fp' v cs' = content fp1 v cs'"
    using r(3) by (simp_all add: fp'_def file_ok_def disk_file_def pointer_ok_def cache_ok_def content_def file_byte_def file_sec_def d)
  have g: "gframe ?v v" using r(6) effectD(1) by (auto simp: grown_def)
  have h: "obj_fs fp' = obj_fs fp" "obj_id fp' = obj_id fp" "err fp' = err fp" "flag fp' AND 0x3F = flag fp AND 0x3F"
    using r(7) by (simp_all add: fp'_def same_object_def d) (simp add: and.assoc)
  have "f_write fp buff btw w = Some (FR_OK, n, fp', close_vol ?fs v w)"
    using validate_opened [OF assms(1)] r(1) leave_opened [OF assms(1) g] assms(2) f(3)
    by (simp add: f_write_def file_check_def m_def [symmetric] fp'_def)
  moreover have "n < btw \<longrightarrow> position fp' = 2 ^ 32 - 1 \<or>
      position fp' = csz ?v * length cs' \<and> (free_clst v = 0 \<or> free_set v = {})"
    using r(2,5,9) m(3) by (cases "n = m") (auto simp: fp'_def)
  moreover have "n \<le> btw" using r(2) m(2) by simp
  ultimately show ?thesis
    unfolding v0_def using g k h r(4-6,8)
    by (intro exI [of _ n] exI [of _ fp'] exI [of _ v] exI [of _ cs']) (simp add: fp'_def)
qed

lemma write_opened:
  assumes "opened fp w cs" "flag fp AND FA_WRITE \<noteq> 0" "no_ones (open_vol (obj_fs fp) w)" "unat btw \<le> length buff"
  shows "\<exists>n fp' w' cs'. f_write fp buff btw w = Some (FR_OK, n, fp', w') \<and> n \<le> btw \<and> opened fp' w' cs' \<and>
    contents fp' w' cs' = memcpy (position fp) (take (unat n) buff) (contents fp w cs) \<and>
    position fp' = position fp + unat n \<and> grown (open_vol (obj_fs fp) w) cs (open_vol (obj_fs fp) w') cs' \<and>
    roams (open_vol (obj_fs fp) w) (open_vol (obj_fs fp) w') \<and> obj_fs fp' = obj_fs fp \<and>
    flag fp' AND 0x3F = flag fp AND 0x3F \<and>
    (n < btw \<longrightarrow> position fp' = 2 ^ 32 - 1 \<or>
      position fp' = csz (open_vol (obj_fs fp) w) * length cs' \<and>
      (free_clst (open_vol (obj_fs fp) w') = 0 \<or> free_set (open_vol (obj_fs fp) w') = {}))"
proof -
  let ?fs = "obj_fs fp" and ?v = "open_vol (obj_fs fp) w"
  obtain n fp' v cs' where r: "f_write fp buff btw w = Some (FR_OK, n, fp', close_vol ?fs v w)" "n \<le> btw" "file_ok fp' v cs'"
    "content fp' v cs' = memcpy (position fp) (take (unat n) buff) (content fp ?v cs)" "position fp' = position fp + unat n"
    "grown ?v cs v cs'" "roams ?v v" "gframe ?v v" "obj_fs fp' = obj_fs fp" "obj_id fp' = obj_id fp" "err fp' = err fp"
    "flag fp' AND 0x3F = flag fp AND 0x3F"
    "n < btw \<longrightarrow> position fp' = 2 ^ 32 - 1 \<or> position fp' = csz ?v * length cs' \<and> (free_clst v = 0 \<or> free_set v = {})"
    using write_closes [OF assms] by blast
  show ?thesis
    using opened_close [OF assms(1) r(8,3,9-11)] r by (intro exI [of _ n] exI [of _ fp'] exI [of _ "close_vol ?fs v w"] exI [of _ cs'])
      (simp add: open_close_vol)
qed

text \<open>C1: \<open>f_write\<close> on an open file puts the first \<open>n\<close> bytes of the buffer at the position and moves it behind them, where
\<open>n\<close> is the count it reports; the file is extended as needed by clusters that were free.  All the bytes are written unless
the file reaches its largest size or no cluster is left.\<close>

theorem f_write_correct:
  assumes "opened fp w cs" "flag fp AND FA_WRITE \<noteq> 0" "no_ones (open_vol (obj_fs fp) w)" "unat btw \<le> length buff"
  shows "\<exists>n fp' w' cs'. f_write fp buff btw w = Some (FR_OK, n, fp', w') \<and> n \<le> btw \<and> opened fp' w' cs' \<and>
    contents fp' w' cs' = memcpy (position fp) (take (unat n) buff) (contents fp w cs) \<and>
    position fp' = position fp + unat n \<and> grown (open_vol (obj_fs fp) w) cs (open_vol (obj_fs fp) w') cs' \<and>
    roams (open_vol (obj_fs fp) w) (open_vol (obj_fs fp) w') \<and> obj_fs fp' = obj_fs fp \<and>
    flag fp' AND 0x3F = flag fp AND 0x3F \<and>
    (n < btw \<longrightarrow> position fp' = 2 ^ 32 - 1 \<or>
      position fp' = csz (open_vol (obj_fs fp) w) * length cs' \<and>
      (free_clst (open_vol (obj_fs fp) w') = 0 \<or> free_set (open_vol (obj_fs fp) w') = {}))"
  by (rule write_opened [OF assms])

section \<open>Seeking\<close>

lemma seek_opened:
  assumes "opened fp w cs" "unat ofs \<le> length (contents fp w cs)"
  shows "\<exists>fp' w'. f_lseek fp ofs w = Some (FR_OK, fp', w') \<and> opened fp' w' cs \<and> position fp' = unat ofs \<and>
    contents fp' w' cs = contents fp w cs \<and> flag fp' AND 0x7F = flag fp AND 0x7F \<and> obj_fs fp' = obj_fs fp \<and>
    grown (open_vol (obj_fs fp) w) cs (open_vol (obj_fs fp) w') cs"
proof -
  let ?fs = "obj_fs fp" and ?v = "open_vol (obj_fs fp) w"
  note f = openedD [OF assms(1)]
  have "unat ofs \<le> unat (objsize fp)" using assms(2) by simp
  then obtain fp' v where r: "file_seek ofs fp ?v = Some (FR_OK, fp', v)" "file_ok fp' v cs" "content fp' v cs = content fp ?v cs"
    "same_file fp ?v fp' v cs" "same_handle fp fp'" "fptr fp' = ofs"
    using file_seek_ok [OF f(1)] by blast
  have g: "gframe ?v v" using r(4) effectD(1) by (auto simp: same_file_def)
  have gr: "grown ?v cs v cs" using grown_same r(4) disk_fileD(1) [OF file_okD(1) [OF f(1)]] by (simp add: same_file_def)
  have h: "obj_fs fp' = obj_fs fp" "obj_id fp' = obj_id fp" "err fp' = err fp" "flag fp' AND 0x7F = flag fp AND 0x7F"
    using r(5) by (cases fp, cases fp', auto simp: same_handle_def)+
  have "f_lseek fp ofs w = Some (FR_OK, fp', close_vol ?fs v w)"
    using validate_opened [OF assms(1)] r(1) leave_opened [OF assms(1) g] f(3) by (simp add: f_lseek_def)
  then show ?thesis using opened_close [OF assms(1) g r(2) h(1-3)] r(3,6) h(1,4) gr by (simp add: open_close_vol)
qed

text \<open>C17: \<open>f_lseek\<close> to a position inside an open file moves there and changes neither content nor chain, whichever way it
takes along the chain.\<close>

theorem f_lseek_correct:
  assumes "opened fp w cs" "unat ofs \<le> length (contents fp w cs)"
  shows "\<exists>fp' w'. f_lseek fp ofs w = Some (FR_OK, fp', w') \<and> opened fp' w' cs \<and> position fp' = unat ofs \<and>
    contents fp' w' cs = contents fp w cs \<and> flag fp' AND 0x7F = flag fp AND 0x7F \<and> obj_fs fp' = obj_fs fp \<and>
    grown (open_vol (obj_fs fp) w) cs (open_vol (obj_fs fp) w') cs"
  by (rule seek_opened [OF assms])

section \<open>The interface of a file\<close>

text \<open>
  What a client of a file relies on: a byte array with a position, behind the three operations.  A write may take fewer bytes
  than it is given.
\<close>

locale byte_file =
  fixes rd :: "DWORD \<Rightarrow> 's \<Rightarrow> (BYTE list \<times> 's) option"
    and wr :: "BYTE list \<Rightarrow> 's \<Rightarrow> (DWORD \<times> 's) option"
    and sk :: "DWORD \<Rightarrow> 's \<Rightarrow> 's option"
    and holds :: "'s \<Rightarrow> BYTE list \<Rightarrow> nat \<Rightarrow> bool"
  assumes inside: "holds s c p \<Longrightarrow> p \<le> length c \<and> length c < 2 ^ 32"
    and rd_law: "holds s c p \<Longrightarrow>
      \<exists>s'. rd n s = Some (slice p (unat n) c, s') \<and> holds s' c (p + length (slice p (unat n) c))"
    and wr_law: "holds s c p \<Longrightarrow> length b < 2 ^ 32 \<Longrightarrow>
      \<exists>n s'. wr b s = Some (n, s') \<and> unat n \<le> length b \<and> holds s' (memcpy p (take (unat n) b) c) (p + unat n)"
    and sk_law: "holds s c p \<Longrightarrow> unat q \<le> length c \<Longrightarrow> \<exists>s'. sk q s = Some s' \<and> holds s' c (unat q)"
begin

lemma write_seek_read:
  assumes "holds s c (unat q)" "length b < 2 ^ 32"
  shows "\<exists>n s1 s2 s3. wr b s = Some (n, s1) \<and> sk q s1 = Some s2 \<and> rd n s2 = Some (take (unat n) b, s3)"
proof -
  obtain n s1 where w: "wr b s = Some (n, s1)" "unat n \<le> length b" "holds s1 (memcpy (unat q) (take (unat n) b) c) (unat q + unat n)"
    using wr_law [OF assms] by blast
  have q: "unat q \<le> length c" using inside [OF assms(1)] by simp
  then have "unat q \<le> length (memcpy (unat q) (take (unat n) b) c)" unfolding length_patch [OF q] by simp
  then obtain s2 where k: "sk q s1 = Some s2" "holds s2 (memcpy (unat q) (take (unat n) b) c) (unat q)"
    using sk_law [OF w(3)] by blast
  have "slice (unat q) (unat n) (memcpy (unat q) (take (unat n) b) c) = take (unat n) b"
    using q w(2) by (simp add: slice_def memcpy_def)
  then show ?thesis using w(1) k(1) rd_law [OF k(2), of n] by auto
qed

text \<open>Reading in pieces is reading at once.\<close>

lemma read_pieces:
  assumes "holds s c p" "unat m + unat n < 2 ^ 32"
  shows "\<exists>s1 s2 s3. rd m s = Some (slice p (unat m) c, s1) \<and> rd n s1 = Some (slice (p + unat m) (unat n) c, s2) \<and>
    rd (m + n) s = Some (slice p (unat m) c @ slice (p + unat m) (unat n) c, s3)"
proof -
  obtain s1 where r: "rd m s = Some (slice p (unat m) c, s1)" "holds s1 c (p + length (slice p (unat m) c))"
    using rd_law [OF assms(1)] by blast
  have "slice (p + length (slice p (unat m) c)) k c = slice (p + unat m) k c" for k
    using inside [OF assms(1)] by (simp add: slice_def min_def)
  moreover have "unat (m + n) = unat m + unat n" using assms(2) by (simp add: unat_plus_if')
  ultimately show ?thesis using r(1) rd_law [OF r(2), of n] rd_law [OF assms(1), of "m + n"] slice_add [of p "unat m" "unat n" c] by auto
qed

end

text \<open>An open file of FatFs, readable and writable, is one.\<close>

definition file_rd :: "DWORD \<Rightarrow> FIL \<times> world \<Rightarrow> (BYTE list \<times> FIL \<times> world) option" where
  "file_rd n s = (case f_read (fst s) n (snd s) of Some (r, bs, fp, w) \<Rightarrow> if r = FR_OK then Some (bs, fp, w) else None | None \<Rightarrow> None)"

definition file_wr :: "BYTE list \<Rightarrow> FIL \<times> world \<Rightarrow> (DWORD \<times> FIL \<times> world) option" where
  "file_wr b s = (case f_write (fst s) b (of_nat (length b)) (snd s) of
     Some (r, n, fp, w) \<Rightarrow> if r = FR_OK then Some (n, fp, w) else None | None \<Rightarrow> None)"

definition file_sk :: "DWORD \<Rightarrow> FIL \<times> world \<Rightarrow> (FIL \<times> world) option" where
  "file_sk q s = (case f_lseek (fst s) q (snd s) of Some (r, fp, w) \<Rightarrow> if r = FR_OK then Some (fp, w) else None | None \<Rightarrow> None)"

definition file_holds :: "FIL \<times> world \<Rightarrow> BYTE list \<Rightarrow> nat \<Rightarrow> bool" where
  "file_holds s c p \<longleftrightarrow> flag (fst s) AND FA_READ \<noteq> 0 \<and> flag (fst s) AND FA_WRITE \<noteq> 0 \<and> no_ones (open_vol (obj_fs (fst s)) (snd s)) \<and>
     p = position (fst s) \<and> (\<exists>cs. opened (fst s) (snd s) cs \<and> c = contents (fst s) (snd s) cs)"

lemma mode_kept:
  assumes "flag fp' AND 0x3F = flag fp AND 0x3F"
  shows "flag fp' AND FA_READ = flag fp AND FA_READ" "flag fp' AND FA_WRITE = flag fp AND FA_WRITE"
proof -
  have e: "x AND FA_READ = (x AND 0x3F) AND FA_READ" "x AND FA_WRITE = (x AND 0x3F) AND FA_WRITE" for x :: BYTE
    by (simp_all add: and.assoc)
  show "flag fp' AND FA_READ = flag fp AND FA_READ" using e(1) [of "flag fp'"] e(1) [of "flag fp"] assms by simp
  show "flag fp' AND FA_WRITE = flag fp AND FA_WRITE" using e(2) [of "flag fp'"] e(2) [of "flag fp"] assms by simp
qed

lemma mode_low:
  assumes "(x :: BYTE) AND 0x7F = y AND 0x7F"
  shows "x AND 0x3F = y AND 0x3F"
proof -
  have e: "z AND 0x3F = (z AND 0x7F) AND 0x3F" for z :: BYTE by (simp add: and.assoc)
  show ?thesis using e [of x] e [of y] assms by simp
qed

interpretation fat_file: byte_file file_rd file_wr file_sk file_holds
proof
  fix s :: "FIL \<times> world" and c p
  assume h: "file_holds s c p"
  obtain fp w where s: "s = (fp, w)" by (cases s)
  obtain cs where o: "opened fp w cs" "c = contents fp w cs" "p = position fp" "no_ones (open_vol (obj_fs fp) w)"
    "flag fp AND FA_READ \<noteq> 0" "flag fp AND FA_WRITE \<noteq> 0"
    using h by (auto simp: file_holds_def s)
  have "unat (objsize fp) < 2 ^ LENGTH(32)" by (rule unsigned_less)
  then show "p \<le> length c \<and> length c < 2 ^ 32" using o(2,3) file_okD(3) [OF openedD(1) [OF o(1)]] by simp
  show "\<exists>s'. file_rd n s = Some (slice p (unat n) c, s') \<and> file_holds s' c (p + length (slice p (unat n) c))" for n
  proof -
    obtain bs fp' w' where r: "f_read fp n w = Some (FR_OK, bs, fp', w')" "bs = slice (position fp) (unat n) (contents fp w cs)"
      "opened fp' w' cs" "contents fp' w' cs = contents fp w cs" "position fp' = position fp + length bs"
      "flag fp' AND 0x7F = flag fp AND 0x7F" "obj_fs fp' = obj_fs fp"
      "grown (open_vol (obj_fs fp) w) cs (open_vol (obj_fs fp) w') cs"
      using read_opened [OF o(1,5)] by blast
    then have "file_holds (fp', w') c (p + length (slice p (unat n) c))"
      using o mode_kept [OF mode_low [OF r(6)]] by (auto simp: file_holds_def grown_def)
    then show ?thesis using r(1,2) o(2,3) by (intro exI [of _ "(fp', w')"]) (simp add: file_rd_def s)
  qed
  show "\<exists>n s'. file_wr b s = Some (n, s') \<and> unat n \<le> length b \<and> file_holds s' (memcpy p (take (unat n) b) c) (p + unat n)"
    if "length b < 2 ^ 32" for b
  proof -
    have u: "unat (of_nat (length b) :: DWORD) = length b" using that by (intro unat_of_nat32)
    then have lb: "unat (of_nat (length b) :: DWORD) \<le> length b" by simp
    obtain n fp' w' cs' where r: "f_write fp b (of_nat (length b)) w = Some (FR_OK, n, fp', w')" "n \<le> of_nat (length b)"
      "opened fp' w' cs'" "contents fp' w' cs' = memcpy (position fp) (take (unat n) b) (contents fp w cs)"
      "position fp' = position fp + unat n" "grown (open_vol (obj_fs fp) w) cs (open_vol (obj_fs fp) w') cs'"
      "obj_fs fp' = obj_fs fp" "flag fp' AND 0x3F = flag fp AND 0x3F"
      using write_opened [OF o(1,6,4) lb] by blast
    have "file_holds (fp', w') (memcpy p (take (unat n) b) c) (p + unat n)"
      using o r mode_kept [OF r(8)] by (auto simp: file_holds_def grown_def)
    moreover have "unat n \<le> length b" using r(2) u by (simp add: word_le_nat_alt)
    ultimately show ?thesis using r(1) by (intro exI [of _ n] exI [of _ "(fp', w')"]) (simp add: file_wr_def s)
  qed
  show "\<exists>s'. file_sk q s = Some s' \<and> file_holds s' c (unat q)" if q: "unat q \<le> length c" for q
  proof -
    have ql: "unat q \<le> length (contents fp w cs)" using q o(2) by simp
    obtain fp' w' where r: "f_lseek fp q w = Some (FR_OK, fp', w')" "opened fp' w' cs" "position fp' = unat q"
      "contents fp' w' cs = contents fp w cs" "flag fp' AND 0x7F = flag fp AND 0x7F" "obj_fs fp' = obj_fs fp"
      "grown (open_vol (obj_fs fp) w) cs (open_vol (obj_fs fp) w') cs"
      using seek_opened [OF o(1) ql] by blast
    then have "file_holds (fp', w') c (unat q)"
      using o mode_kept [OF mode_low [OF r(5)]] by (auto simp: file_holds_def grown_def)
    then show ?thesis using r(1) by (intro exI [of _ "(fp', w')"]) (simp add: file_sk_def s)
  qed
qed

text \<open>C5: What has been written is read back: after \<open>f_write\<close>, going back to the old position with \<open>f_lseek\<close> and reading as
many bytes with \<open>f_read\<close> as were written gives these bytes.\<close>

theorem write_then_read:
  assumes "opened fp w cs" "flag fp AND FA_WRITE \<noteq> 0" "flag fp AND FA_READ \<noteq> 0" "no_ones (open_vol (obj_fs fp) w)"
    and "length buff < 2 ^ 32"
  shows "\<exists>n fp1 w1 fp2 w2 fp3 w3. f_write fp buff (of_nat (length buff)) w = Some (FR_OK, n, fp1, w1) \<and>
    f_lseek fp1 (fptr fp) w1 = Some (FR_OK, fp2, w2) \<and> f_read fp2 n w2 = Some (FR_OK, take (unat n) buff, fp3, w3)"
proof -
  have "file_holds (fp, w) (contents fp w cs) (unat (fptr fp))" using assms by (auto simp: file_holds_def)
  from fat_file.write_seek_read [OF this assms(5)] show ?thesis
    by (fastforce simp: file_wr_def file_sk_def file_rd_def split: option.splits if_splits)
qed

section \<open>Other files\<close>

lemma file_sect_snd: "0 < unat (csize v) \<Longrightarrow> file_sect v (a @ b) (sectors v a + k) = file_sect v b k"
  by (simp add: file_sect_def nth_append)

text \<open>A change that keeps to one chain, and clusters that were free, is not seen through another chain.\<close>

lemma other_file:
  assumes f: "file_ok fp v cs" and g: "file_ok fp2 v cs2" and dj: "set cs \<inter> set cs2 = {}"
    and gr: "grown v cs v' cs'" and ro: "roams v v'" and cl: "clusters v' cs'" "fat_good v'"
  shows "file_ok fp2 v' cs2" "content fp2 v' cs2 = content fp2 v cs2"
proof -
  note d = disk_fileD [OF file_okD(1) [OF g]]
  have m: "0 < unat (csize v)" by (rule csize_bounds(1) [OF d(5)])
  obtain new where new: "cs' = cs @ new" "set new \<subseteq> free_set v" using gr by (auto simp: grown_def)
  have eff: "effect (\<lambda>s. in_fat v s \<or> in_file v cs' s) v v'" using gr by (simp add: grown_def)
  note e = effectD [OF eff]
  note gf = gframe_file [OF e(1)] and cz = gframe_fields(7) [OF e(1)]
  have used: "fat_entry v c \<noteq> 0" if c: "c \<in> set cs2" for c
  proof -
    have ch: "chain (n_fatent v) (fat_entry v) cs2" using c g by (auto simp: file_ok_def disk_file_def split: if_splits)
    obtain i where i: "i < length cs2" "c = cs2 ! i" using c by (auto simp: in_set_conv_nth)
    show ?thesis
    proof (cases "Suc i < length cs2")
      case True
      then show ?thesis using chain_nth(2) [OF ch i(1) True] chain_nth(1) [OF ch True] i(2) by auto
    next
      case False
      then show ?thesis using chain_nth(3) [OF ch i(1)] i vol_ok_n [OF fat_goodD(2) [OF d(4)]] by (auto simp: word_le_nat_alt)
    qed
  qed
  have dj': "set cs' \<inter> set cs2 = {}" using dj new used by (auto simp: free_set_def)
  have vc: "valid_clst v c" if "c \<in> set cs2" for c using d(3) that by (simp add: clusters_def)
  have ent: "fat_entry v' c = fat_entry v c" if "c \<in> set cs2" for c
    using gr vc [OF that] dj' that by (auto simp: grown_def)
  have both: "clusters v (cs' @ cs2)"
    using cl(1) d(3) dj' gf(3) [of cs'] by (auto simp: clusters_def)
  have apart: "\<not> in_file v cs' (file_sect v cs2 k)" if "k < sectors v cs2" for k
  proof
    assume "in_file v cs' (file_sect v cs2 k)"
    then obtain j where j: "j < sectors v cs'" "file_sect v cs2 k = file_sect v cs' j" by (auto simp: in_file_def)
    then have "file_sect v (cs' @ cs2) (sectors v cs' + k) = file_sect v (cs' @ cs2) j"
      using file_sect_snd [OF m] file_sect_append [OF j(1) m] by simp
    then have "sectors v cs' + k = j"
      using file_sect_inj [OF both _ _, of "sectors v cs' + k" j] that j(1) by (simp add: add_mult_distrib2)
    then show False using j(1) by simp
  qed
  have vs: "vsec v' (file_sect v cs2 k) = vsec v (file_sect v cs2 k)" if "k < sectors v cs2" for k
    using e(9) apart [OF that] file_sect_data [OF d(3) that] by blast
  have "winsect v' \<noteq> file_sect v cs2 k" if "k < sectors v cs2" for k
    using ro file_sect_data(3) [OF d(3) that] that d(1) by (auto simp: roams_def data_ok_def)
  then have "data_ok v' cs2" using cl(2) d(3) gf(1,3) cz by (simp add: data_ok_def)
  moreover have "cache_ok fp2 v' cs2" using d(2) vs by (simp add: cache_ok_def gf(1) cz)
  moreover have "chain (n_fatent v') (fat_entry v') cs2 = chain (n_fatent v) (fat_entry v) cs2"
    using chain_cong [of cs2 "fat_entry v'" "fat_entry v"] ent e(6) by simp
  ultimately show "file_ok fp2 v' cs2"
    using g cz gf(1) by (simp add: file_ok_def disk_file_def pointer_ok_def)
  have "file_byte fp2 v' cs2 q = file_byte fp2 v cs2 q" if "q < unat (objsize fp2)" for q
    using vs [of "q div 512"] sector_of [of q v cs2] that d(6) by (simp add: file_byte_def file_sec_def gf(1))
  then show "content fp2 v' cs2 = content fp2 v cs2" by (simp add: content_def)
qed

text \<open>C6: Writing to a file, whether it grows or not, leaves every other open file of the volume as it is: with the same
chain, the same position and the same content.\<close>

theorem write_leaves_others:
  assumes "opened fp w cs" "opened fp2 w cs2" "obj_fs fp2 = obj_fs fp" "set cs \<inter> set cs2 = {}"
    and "flag fp AND FA_WRITE \<noteq> 0" "no_ones (open_vol (obj_fs fp) w)" "unat btw \<le> length buff"
  shows "\<exists>n fp' w'. f_write fp buff btw w = Some (FR_OK, n, fp', w') \<and> opened fp2 w' cs2 \<and> contents fp2 w' cs2 = contents fp2 w cs2"
proof -
  let ?fs = "obj_fs fp" and ?v = "open_vol (obj_fs fp) w"
  obtain n fp' v cs' where r: "f_write fp buff btw w = Some (FR_OK, n, fp', close_vol ?fs v w)" "file_ok fp' v cs'"
    "grown ?v cs v cs'" "roams ?v v" "gframe ?v v"
    using write_closes [OF assms(1,5-7)] by blast
  note d = disk_fileD [OF file_okD(1) [OF r(2)]]
  have f2: "file_ok fp2 ?v cs2" using openedD(1) [OF assms(2)] assms(3) by simp
  note o = other_file [OF openedD(1) [OF assms(1)] f2 assms(4) r(3,4) d(3,4)]
  have "gframe (open_vol (obj_fs fp2) w) v" using r(5) assms(3) by simp
  from opened_close [OF assms(2) this o(1)] show ?thesis using r(1) o(2) assms(3) by simp
qed

section \<open>Examples\<close>

definition ex_w :: world where
  "ex_w = \<lparr>fss = (\<lambda>_. ex_fs), drives = (\<lambda>_. ex_dev), FatFs = [1, 0, 0, 0], CurrVol = 0, Fsid = 1,
     mutex = (\<lambda>l. l = 0), held = (\<lambda>_. False)\<rparr>"

text \<open>A file of 600 bytes, and an empty one, both open for reading and writing.\<close>

definition ex_fil :: "DWORD \<Rightarrow> DWORD \<Rightarrow> FIL" where
  "ex_fil cl sz = \<lparr>obj_fs = 1, obj_id = 1, obj_attr = 0, obj_stat = 0, sclust = cl, objsize = sz, flag = 3, err = FR_OK, fptr = 0,
     fclust = 0, fsect = 0, dir_sect = 3, dir_ptr = 0, buf = replicate 512 0\<rparr>"

lemma ex_open_vol: "open_vol 1 ex_w = ex_vol"
  by (simp add: open_vol_def ex_w_def ex_vol_def ex_fs_def fatfs.defs)

lemma ex_opened_chain:
  assumes "clusters ex_vol cs" "if cs = [] then cl = 0 else cl = hd cs \<and> chain (n_fatent ex_vol) (fat_entry ex_vol) cs"
    and "unat sz \<le> 512 * length cs"
  shows "opened (ex_fil cl sz) ex_w cs"
proof -
  have ne: "0 \<noteq> file_sect ex_vol cs k" "winsect ex_vol \<noteq> file_sect ex_vol cs k" if "k < sectors ex_vol cs" for k
    using file_sect_data(1,2) [OF assms(1) that] by auto
  have "data_ok ex_vol cs" unfolding data_ok_def using ex_vol_good assms(1) ne(2) by blast
  moreover have "cache_ok (ex_fil cl sz) ex_vol cs" using ne(1) by (auto simp: cache_ok_def ex_fil_def)
  ultimately have "file_ok (ex_fil cl sz) ex_vol cs"
    using assms(2,3) by (auto simp: file_ok_def disk_file_def pointer_ok_def ex_fil_def)
  then show ?thesis using ex_open_vol by (simp add: opened_def Let_def ex_fil_def) (simp add: ex_w_def ex_fs_def)
qed

lemma ex_opened: "opened (ex_fil 2 600) ex_w [2, 3]" "opened (ex_fil 0 0) ex_w []"
proof -
  have c: "csize_ok ex_vol" by (simp add: csize_ok_def)
  show "opened (ex_fil 2 600) ex_w [2, 3]"
    by (rule ex_opened_chain [OF clusters_chain [OF ex_vol_ok c ex_chain]]) (use ex_chain in simp_all)
  show "opened (ex_fil 0 0) ex_w []" by (rule ex_opened_chain [OF clusters_Nil [OF ex_vol_ok c]]) simp_all
qed

lemma ex_fil_simps [simp]:
  "obj_fs (ex_fil cl sz) = 1" "flag (ex_fil cl sz) = 3" "fptr (ex_fil cl sz) = 0" "objsize (ex_fil cl sz) = sz"
  by (simp_all add: ex_fil_def)

lemma ex_no_ones: "no_ones (open_vol (obj_fs (ex_fil cl sz)) ex_w)"
  using ex_no_one ex_open_vol by (simp add: no_ones_def)

theorem f_read_correct_witness:
  "\<exists>bs fp' w'. f_read (ex_fil 2 600) 700 ex_w = Some (FR_OK, bs, fp', w') \<and> length bs = 600 \<and> position fp' = 600"
  using f_read_correct [OF ex_opened(1), of 700] by (auto simp: slice_def)

theorem f_write_correct_witness:
  "\<exists>fp' w' cs'. f_write (ex_fil 2 600) [1, 2, 3] 3 ex_w = Some (FR_OK, 3, fp', w') \<and>
     take 3 (contents fp' w' cs') = [1, 2, 3] \<and> position fp' = 3"
proof -
  obtain n fp' w' cs' where r: "f_write (ex_fil 2 600) [1, 2, 3] 3 ex_w = Some (FR_OK, n, fp', w')" "n \<le> 3"
    "contents fp' w' cs' = memcpy 0 (take (unat n) [1, 2, 3]) (contents (ex_fil 2 600) ex_w [2, 3])" "position fp' = unat n"
    "grown ex_vol [2, 3] (open_vol 1 w') cs'" "n < 3 \<longrightarrow> position fp' = 2 ^ 32 - 1 \<or> position fp' = 512 * length cs'"
    using f_write_correct [OF ex_opened(1) _ ex_no_ones, of 3 "[1, 2, 3]"] ex_open_vol by auto
  have "2 \<le> length cs'" using r(5) by (auto simp: grown_def)
  then have "\<not> n < 3" using r(4,6) by (auto simp: word_less_nat_alt)
  then have n: "n = 3" using r(2) by simp
  then have "take 3 (contents fp' w' cs') = [1, 2, 3]" using r(3) by (simp add: memcpy_def)
  then show ?thesis using r(1,4) n by auto
qed

theorem f_lseek_correct_witness:
  "\<exists>fp' w'. f_lseek (ex_fil 2 600) 550 ex_w = Some (FR_OK, fp', w') \<and> position fp' = 550"
  using f_lseek_correct [OF ex_opened(1), of 550] by auto

theorem write_then_read_witness:
  "\<exists>n fp1 w1 fp2 w2 fp3 w3. f_write (ex_fil 0 0) [1, 2, 3] 3 ex_w = Some (FR_OK, n, fp1, w1) \<and>
     f_lseek fp1 0 w1 = Some (FR_OK, fp2, w2) \<and> f_read fp2 n w2 = Some (FR_OK, take (unat n) [1, 2, 3], fp3, w3)"
  using write_then_read [OF ex_opened(2) _ _ ex_no_ones, of "[1, 2, 3]"] by simp

theorem write_leaves_others_witness:
  "\<exists>n fp' w'. f_write (ex_fil 0 0) [1, 2, 3] 3 ex_w = Some (FR_OK, n, fp', w') \<and> opened (ex_fil 2 600) w' [2, 3]"
  using write_leaves_others [OF ex_opened(2,1) _ _ _ ex_no_ones, of 3 "[1, 2, 3]"] by auto

end
