(* ===== verification/FatFileSync.thy ===== *)
theory FatFileSync
  imports FatFileApi
begin

text \<open>
  Synchronising an open file: what \<open>f_sync\<close> has put on the medium when it returns.
\<close>

section \<open>The window\<close>

text \<open>The sector of the FAT32 file system information is written behind the code's back.\<close>

definition info_sect :: "vol \<Rightarrow> DWORD \<Rightarrow> bool" where
  "info_sect v s \<longleftrightarrow> fs_type v = FS_FAT32 \<and> s = volbase v + 1"

lemma sync_fs_ok:
  assumes "wf_win v" "drive_ok v" "sync_fs v = (r, v')"
  shows "r = FR_OK" "wflag v' = 0" "effect (info_sect v) v v'" "winsect v' = winsect v \<or> info_sect v (winsect v')"
proof -
  obtain r1 u where sw: "sync_window v = (r1, u)" by (cases "sync_window v")
  note s = sync_window_spec [OF assms(1) sw]
  have r1: "r1 = FR_OK" by (rule s(3) [OF assms(2)])
  note wfr = movesD(1-3) [OF s(1)] and fl = s(4) [OF r1]
  have du: "drive_ok u" using movesD(3) [OF s(1)] assms(2) by simp
  have nz: "disk_ioctl_sync d x = (RES_OK, x)" for d x by (simp add: disk_ioctl_sync_def)
  have "r = FR_OK \<and> wflag v' = 0 \<and> effect (info_sect v) v v' \<and> (winsect v' = winsect v \<or> info_sect v (winsect v'))"
  proof (cases "fs_type u = FS_FAT32 \<and> fsi_flag u = 1")
    case False
    then have "r = FR_OK" "v' = u" using assms(3) sw r1 nz by (auto simp: sync_fs_def Let_def)
    then show ?thesis using fl s(5) moves_effect [OF s(1)] by simp
  next
    case True
    define w where "w = st_dword 492 (last_clst u) (st_dword 488 (free_clst u) (st_dword 484 0x61417272
      (st_dword 0 0x41615252 (st_word 510 0xAA55 (memset 0 0 512 (win u))))))"
    have lw: "length w = 512" using wfr(2) by (simp add: w_def wf_win_def)
    obtain r2 d where dw: "disk_write (pdrv u) w (volbase u + 1) 1 (dk u) = (r2, d)"
      by (cases "disk_write (pdrv u) w (volbase u + 1) 1 (dk u)")
    have rr: "r = FR_OK" "v' = u\<lparr>win := w, winsect := volbase u + 1, dk := d, fsi_flag := 0\<rparr>"
      using assms(3) sw r1 nz True dw by (simp_all add: sync_fs_def Let_def w_def)
    have r2: "r2 = RES_OK" using disk_write_healthy [of "dk u" "pdrv u" w "volbase u + 1" 1] dw du by (simp add: drive_ok_def)
    note k = disk_write1 [OF dw lw]
    have md: "media d = (media (dk u))(unat (volbase u + 1) := w)" using k(2) r2 by simp
    have gf: "gframe u v'" using k(1) by (simp add: gframe_iff rr(2))
    have "wf_media d" using k(4) wfr(2) by (simp add: wf_win_def)
    then have wv: "wf_win v'" using lw md by (simp add: wf_win_def rr(2))
    have uw: "vsec u s = media (dk u) (unat s)" if "s \<noteq> DISK_ERR" for s
      using wfr(2) fl that by (auto simp: vsec_def wf_win_def)
    have "vsec v' s = vsec u s" if "s \<noteq> DISK_ERR" "s \<noteq> volbase u + 1" for s
      using uw [OF that(1)] that(2) md by (simp add: vsec_def rr(2) word_unat_eq_iff)
    then have "effect (info_sect u) u v'" using gf wv k(3) du True by (auto simp: effect_def info_sect_def drive_ok_def rr(2))
    moreover have "info_sect u = info_sect v" using wframe_fields [OF wfr(1)] by (simp add: info_sect_def fun_eq_iff)
    ultimately have "effect (info_sect v) v v'" using effect_trans [OF moves_effect [OF s(1)]] by simp
    moreover have "info_sect u (winsect v')" using True by (simp add: rr(2) info_sect_def)
    ultimately show ?thesis using rr fl \<open>info_sect u = info_sect v\<close> by simp
  qed
  then show "r = FR_OK" "wflag v' = 0" "effect (info_sect v) v v'" "winsect v' = winsect v \<or> info_sect v (winsect v')" by blast+
qed

section \<open>The directory entry\<close>

text \<open>The sector of the directory entry and the file system information are no sectors of the table or of the file.\<close>

definition entry_ok :: "FIL \<Rightarrow> vol \<Rightarrow> DWORD list \<Rightarrow> bool" where
  "entry_ok fp v cs \<longleftrightarrow> dir_ptr fp + 32 \<le> 512 \<and>
     (let s = dir_sect fp in s \<noteq> DISK_ERR \<and> \<not> in_fat v s \<and> \<not> mirrored v s \<and> \<not> in_file v cs s \<and> \<not> info_sect v s) \<and>
     (\<forall>s. info_sect v s \<longrightarrow> \<not> in_fat v s \<and> \<not> in_file v cs s)"

text \<open>What the entry on the medium says.\<close>

definition entry_size :: "FIL \<Rightarrow> vol \<Rightarrow> DWORD" where
  "entry_size fp v = ld_dword (media (dk v) (unat (dir_sect fp))) (dir_ptr fp + 28)"

definition entry_clust :: "FIL \<Rightarrow> vol \<Rightarrow> DWORD" where
  "entry_clust fp v = ld_clust (fs_type v) (media (dk v) (unat (dir_sect fp))) (dir_ptr fp)"

text \<open>The content without the sector cache and the window.\<close>

definition stored :: "FIL \<Rightarrow> vol \<Rightarrow> DWORD list \<Rightarrow> BYTE list" where
  "stored fp v cs = map (\<lambda>q. media (dk v) (unat (file_sect v cs (q div 512))) ! (q mod 512)) [0..<unat (objsize fp)]"

lemma stored_content:
  assumes "disk_file fp v cs" "flag fp AND FA_DIRTY = 0"
  shows "stored fp v cs = content fp v cs"
proof -
  note d = disk_fileD [OF assms(1)]
  have "media (dk v) (unat (file_sect v cs (q div 512))) ! (q mod 512) = file_byte fp v cs q" if "q < unat (objsize fp)" for q
  proof -
    have k: "q div 512 < sectors v cs" "512 * (q div 512) < unat (objsize fp)" using that d(6) sector_of [of q v cs] by simp_all
    show ?thesis using clean_sec [OF d(2) assms(2) k] vsec_data [OF d(1) k(1)] by (simp add: file_byte_def)
  qed
  then show ?thesis by (simp add: stored_def content_def)
qed

text \<open>Changes outside the table and the file.\<close>

lemma outside_file:
  assumes f: "file_ok fp v cs" and e: "effect S v v'" "\<And>s. S s \<Longrightarrow> \<not> in_fat v s \<and> \<not> in_file v cs s" and w: "\<not> in_file v cs (winsect v')"
  shows "file_ok fp v' cs" "content fp v' cs = content fp v cs"
proof -
  note d = disk_fileD [OF file_okD(1) [OF f]]
  note ef = effectD [OF e(1)] and gf = gframe_file [OF effectD(1) [OF e(1)]] and cz = gframe_fields(7) [OF effectD(1) [OF e(1)]]
  have vs: "vsec v' (file_sect v cs k) = vsec v (file_sect v cs k)" if "k < sectors v cs" for k
    using ef(9) e(2) file_sect_data [OF d(3) that] that by (auto simp: in_file_def)
  have "fat_entry v' c = fat_entry v c" if "c \<in> set cs" for c
    using effect_entry [OF fat_goodD(2) [OF d(4)] _ e(1)] e(2) d(3) that by (auto simp: clusters_def)
  then have "chain (n_fatent v') (fat_entry v') cs = chain (n_fatent v) (fat_entry v) cs"
    using chain_cong [of cs "fat_entry v'" "fat_entry v"] ef(6) by simp
  moreover have "fat_good v'" using ef(2-4) fat_goodD [OF d(4)] by (simp add: fat_good_def)
  then have "data_ok v' cs" using w d(3) gf(1,3) cz by (auto simp: data_ok_def in_file_def)
  moreover have "cache_ok fp v' cs" using d(2) vs by (simp add: cache_ok_def gf(1) cz)
  ultimately show "file_ok fp v' cs" using f cz gf(1) by (simp add: file_ok_def disk_file_def pointer_ok_def)
  have "file_byte fp v' cs q = file_byte fp v cs q" if "q < unat (objsize fp)" for q
    using vs [of "q div 512"] sector_of [of q v cs] that d(6) by (simp add: file_byte_def file_sec_def gf(1))
  then show "content fp v' cs = content fp v cs" by (simp add: content_def)
qed

definition entry_bytes :: "DWORD \<Rightarrow> FIL \<Rightarrow> BYTE \<Rightarrow> BYTE list \<Rightarrow> BYTE list" where
  "entry_bytes tm fp t w =
     (let k = dir_ptr fp;
          w = w[k + 11 := w ! (k + 11) OR AM_ARC];
          w = st_clust t k (sclust fp) w;
          w = st_dword (k + 28) (objsize fp) w;
          w = st_dword (k + 22) tm w
      in st_word (k + 18) 0 w)"

lemma entry_bytes_fields:
  assumes "dir_ptr fp + 32 \<le> length w"
  shows "length (entry_bytes tm fp t w) = length w" "ld_dword (entry_bytes tm fp t w) (dir_ptr fp + 28) = objsize fp"
    "unat (sclust fp) < 2 ^ 16 \<or> t = FS_FAT32 \<Longrightarrow> ld_clust t (entry_bytes tm fp t w) (dir_ptr fp) = sclust fp"
proof -
  let ?k = "dir_ptr fp"
  define x where "x = w[?k + 11 := w ! (?k + 11) OR AM_ARC]"
  define y where "y = st_clust t ?k (sclust fp) x"
  have l: "length x = length w" "length y = length w" by (simp_all add: x_def y_def st_clust_def Let_def)
  have e: "entry_bytes tm fp t w = st_word (?k + 18) 0 (st_dword (?k + 22) tm (st_dword (?k + 28) (objsize fp) y))"
    by (simp add: entry_bytes_def x_def y_def Let_def)
  show "length (entry_bytes tm fp t w) = length w" using l by (simp add: e)
  have n: "entry_bytes tm fp t w ! (?k + i) = st_dword (?k + 28) (objsize fp) y ! (?k + i)" if "28 \<le> i" "i < 32" for i
    using that assms l by (simp add: e nth_st_word nth_st_dword)
  have "ld_dword (entry_bytes tm fp t w) (?k + 28) = ld_dword (st_dword (?k + 28) (objsize fp) y) (?k + 28)"
    using n [of 28] n [of 29] n [of 30] n [of 31] by (intro ld_dword_cong) (simp_all add: ac_simps)
  then show "ld_dword (entry_bytes tm fp t w) (?k + 28) = objsize fp" using assms l by simp
  have m: "entry_bytes tm fp t w ! (?k + i) = y ! (?k + i)" if "i \<in> {20, 21, 26, 27}" for i
    using that assms l by (auto simp: e nth_st_word nth_st_dword)
  have w1: "ld_word (entry_bytes tm fp t w) (?k + 26) = ucast (sclust fp)"
  proof -
    have "ld_word (entry_bytes tm fp t w) (?k + 26) = ld_word y (?k + 26)" using m [of 26] m [of 27]
      by (intro ld_word_cong) (simp_all add: ac_simps)
    also have "\<dots> = ld_word (st_word (?k + 26) (ucast (sclust fp)) x) (?k + 26)"
      using assms l by (simp add: y_def st_clust_def Let_def ld_word_def nth_st_word)
    also have "\<dots> = ucast (sclust fp)" using assms l by simp
    finally show ?thesis .
  qed
  have w2: "ld_word (entry_bytes tm fp t w) (?k + 20) = ucast (drop_bit 16 (sclust fp))" if "t = FS_FAT32"
  proof -
    have "ld_word (entry_bytes tm fp t w) (?k + 20) = ld_word y (?k + 20)" using m [of 20] m [of 21]
      by (intro ld_word_cong) (simp_all add: ac_simps)
    also have "\<dots> = ucast (drop_bit 16 (sclust fp))" using assms l that by (simp add: y_def st_clust_def Let_def)
    finally show ?thesis .
  qed
  show "ld_clust t (entry_bytes tm fp t w) ?k = sclust fp" if h: "unat (sclust fp) < 2 ^ 16 \<or> t = FS_FAT32"
  proof (cases "t = FS_FAT32")
    case True
    have "(ucast (ucast (sclust fp) :: WORD) :: DWORD) OR push_bit 16 (ucast (ucast (drop_bit 16 (sclust fp)) :: WORD)) = sclust fp"
      by (rule bit_word_eqI) (auto simp: bit_simps)
    then show ?thesis using w1 w2 [OF True] True by (simp add: ld_clust_def Let_def)
  next
    case False
    have "unat (ucast (ucast (sclust fp) :: WORD) :: DWORD) = unat (sclust fp)"
      using h False by (simp add: unsigned_ucast_eq take_bit_eq_mod unat_mod)
    then show ?thesis using w1 False by (simp add: ld_clust_def Let_def word_unat_eq_iff)
  qed
qed

lemma sync_entry_ok:
  assumes f: "file_ok fp v cs" and c: "flag fp AND FA_DIRTY = 0" and en: "entry_ok fp v cs"
    and e: "sync_entry tm fp v = (r, fp', v')"
  shows "r = FR_OK" "fp' = fp\<lparr>flag := flag fp AND NOT FA_MODIFIED\<rparr>" "file_ok fp v' cs" "content fp v' cs = content fp v cs"
    "gframe v v'" "entry_size fp v' = objsize fp" "entry_clust fp v' = sclust fp"
proof -
  let ?s = "dir_sect fp"
  note d = disk_fileD [OF file_okD(1) [OF f]]
  note wf = fat_goodD [OF d(4)]
  have s: "?s \<noteq> DISK_ERR" "\<not> in_fat v ?s" "\<not> mirrored v ?s" "\<not> in_file v cs ?s" "\<not> info_sect v ?s" "dir_ptr fp + 32 \<le> 512"
    "\<And>x. info_sect v x \<Longrightarrow> \<not> in_fat v x \<and> \<not> in_file v cs x"
    using en by (simp_all add: entry_ok_def Let_def)
  obtain r1 v1 where mw: "move_window ?s v = (r1, v1)" by (cases "move_window ?s v")
  note m = move_window_spec [OF wf(1) mw]
  have r1: "r1 = FR_OK" by (rule m(3) [OF wf(3)])
  have w1: "winsect v1 = ?s" by (rule m(4) [OF r1])
  note fr = wframe_fields [OF movesD(1) [OF m(1)]]
  define u where "u = v1\<lparr>win := entry_bytes tm fp (fs_type v1) (win v1), wflag := 1\<rparr>"
  have l1: "length (win v1) = 512" by (rule length_win [OF movesD(2) [OF m(1)]])
  have lw: "dir_ptr fp + 32 \<le> length (win v1)" using l1 s(6) by simp
  note eb = entry_bytes_fields [OF lw]
  have uw: "wf_win u" using movesD(2) [OF m(1)] eb(1) l1 by (simp add: u_def wf_win_def)
  have du: "drive_ok u" using movesD(3) [OF m(1)] wf(3) by (simp add: u_def drive_ok_def)
  obtain r2 v2 where sy: "sync_fs u = (r2, v2)" by (cases "sync_fs u")
  note k = sync_fs_ok [OF uw du sy]
  have ex: "r = FR_OK" "fp' = fp\<lparr>flag := flag fp AND NOT FA_MODIFIED\<rparr>" "v' = v2"
    using e mw r1 sy k(1) by (simp_all add: sync_entry_def entry_bytes_def Let_def u_def)
  show "r = FR_OK" "fp' = fp\<lparr>flag := flag fp AND NOT FA_MODIFIED\<rparr>" by (rule ex)+
  have iu: "info_sect u = info_sect v" using fr by (simp add: u_def info_sect_def fun_eq_iff)
  define S where "S = (\<lambda>x. x = ?s \<or> info_sect v x)"
  have "effect S v1 u"
    using w1 uw du by (auto simp: effect_def u_def S_def vsec_def gframe_iff)
  then have "effect S v u" using effect_trans [OF moves_effect [OF m(1)]] by blast
  moreover have "effect S u v2" using effect_mono [OF k(3), of S] iu by (simp add: S_def)
  ultimately have ef: "effect S v v'" using effect_trans ex(3) by blast
  then show g: "gframe v v'" by (rule effectD(1))
  have ws: "winsect v' = ?s \<or> info_sect v (winsect v')" using k(4) w1 iu ex(3) by (simp add: u_def)
  then have nw: "\<not> in_file v cs (winsect v')" using s(4,7) by auto
  have out: "\<not> in_fat v x \<and> \<not> in_file v cs x" if "S x" for x using that s(2,4,7) by (auto simp: S_def)
  show "file_ok fp v' cs" by (rule outside_file(1) [OF f ef out nw])
  show "content fp v' cs = content fp v cs" by (rule outside_file(2) [OF f ef out nw])
  have "mirrored u = mirrored v1" by (simp add: mirrored_def u_def fun_eq_iff)
  then have "\<not> mirrored u ?s" using s(3) wframe_mirrored [OF movesD(1) [OF m(1)]] by simp
  then have "vsec v' ?s = vsec u ?s" using effectD(9) [OF k(3) s(1)] s(5) iu ex(3) by simp
  also have "\<dots> = entry_bytes tm fp (fs_type v1) (win v1)" using w1 by (simp add: u_def vsec_def)
  finally have vs: "vsec v' ?s = entry_bytes tm fp (fs_type v1) (win v1)" .
  have "media (dk v') (unat ?s) = vsec v' ?s"
    using effectD(2) [OF ef] k(2) ex(3) s(1) by (auto simp: vsec_def wf_win_def)
  then have md: "media (dk v') (unat ?s) = entry_bytes tm fp (fs_type v1) (win v1)" using vs by simp
  have t: "fs_type v' = fs_type v1" using gframe_fields(1) [OF g] fr by simp
  show "entry_size fp v' = objsize fp" using md eb(2) by (simp add: entry_size_def)
  have "unat (sclust fp) < 2 ^ 16 \<or> fs_type v1 = FS_FAT32"
  proof (cases "cs = []")
    case True
    then show ?thesis using f by (simp add: file_ok_def disk_file_def)
  next
    case False
    then have "valid_clst v (sclust fp)" using f d(3) by (simp add: file_ok_def disk_file_def clusters_def)
    then have "unat (sclust fp) < max_fatent (fs_type v)"
      using vol_ok_bounds(5) [OF wf(2)] by (simp add: valid_clst_def word_less_nat_alt)
    moreover have "fs_type v \<in> {1, 2, 3}" using wf(2) by (simp add: vol_ok_def)
    ultimately show ?thesis using fr by (auto simp: max_fatent_def split: if_splits)
  qed
  then show "entry_clust fp v' = sclust fp" using md eb(3) t by (simp add: entry_clust_def)
qed

section \<open>\<open>f_sync\<close>\<close>

lemma file_ok_flag:
  assumes "file_ok fp v cs" "g AND FA_DIRTY = flag fp AND FA_DIRTY"
  shows "file_ok (fp\<lparr>flag := g\<rparr>) v cs" "content (fp\<lparr>flag := g\<rparr>) v cs = content fp v cs"
  using assms by (simp_all add: file_ok_def disk_file_def pointer_ok_def cache_ok_def content_def file_byte_def file_sec_def)

text \<open>C15: After \<open>f_sync\<close> has returned, everything written so far is on the medium: the bytes of the content in the sectors of
the file, and its size and first cluster in its directory entry.  The file stays open as it was.\<close>

theorem f_sync_durable:
  assumes "opened fp w cs" "flag fp AND FA_MODIFIED \<noteq> 0" "entry_ok fp (open_vol (obj_fs fp) w) cs"
  shows "\<exists>fp' w'. f_sync fp w = Some (FR_OK, fp', w') \<and> opened fp' w' cs \<and> contents fp' w' cs = contents fp w cs \<and>
    position fp' = position fp \<and> flag fp' AND (FA_MODIFIED OR FA_DIRTY) = 0 \<and>
    stored fp' (open_vol (obj_fs fp) w') cs = contents fp w cs \<and>
    entry_size fp (open_vol (obj_fs fp) w') = objsize fp \<and> entry_clust fp (open_vol (obj_fs fp) w') = sclust fp"
proof -
  let ?fs = "obj_fs fp" and ?v = "open_vol (obj_fs fp) w"
  note f = openedD [OF assms(1)]
  note ok = file_okD [OF f(1)]
  note d = disk_fileD [OF ok(1)]
  obtain o1 g v1 where fl: "flush_if fp ?v = (o1, g, v1)" by (cases "flush_if fp ?v")
  note a = flush_if_ok [OF d(1,2) fl]
  note sc = same_file_content [OF ok(1) a(3)]
  have e1: "effect (in_file ?v cs) ?v v1" using a(3) by (simp add: same_file_def)
  have gf: "gframe ?v v1" by (rule effectD(1) [OF e1])
  have g1: "file_ok g v1 cs" using sc ok(2) a(2) by (simp add: file_ok_def pointer_ok_def)
  have clean: "flag g AND FA_DIRTY = 0" using a(2) by simp
  have i: "info_sect v1 = info_sect ?v" using gframe_fields [OF gf] by (simp add: info_sect_def fun_eq_iff)
  have en: "entry_ok g v1 cs"
    using assms(3) a(2) gframe_geom [OF gf] in_file_gframe [OF gf] i by (simp add: entry_ok_def Let_def)
  obtain r h v2 where se: "sync_entry (get_fattime v1) g v1 = (r, h, v2)" by (cases "sync_entry (get_fattime v1) g v1")
  note s = sync_entry_ok [OF g1 clean en se]
  have fs: "file_sync fp ?v = (FR_OK, h, v2)"
    using assms(2) fl a(1) se s(1) by (simp add: file_sync_def flush_if_def)
  have gf2: "gframe ?v v2" by (rule gframe_trans [OF gf s(5)])
  have fd: "(x AND NOT 0x40) AND 0x80 = x AND 0x80" "((x AND NOT 0x80) AND NOT 0x40) AND 0xC0 = 0" for x :: BYTE
    by (simp_all add: and.assoc)
  have fl2: "flag h AND FA_DIRTY = flag g AND FA_DIRTY" using s(2) fd(1) [of "flag g"] by simp
  have h: "file_ok h v2 cs" "content h v2 cs = content fp ?v cs"
    using file_ok_flag [OF s(3), of "flag h"] fl2 s(2,4) sc(2) by simp_all
  have hf: "obj_fs h = obj_fs fp" "obj_id h = obj_id fp" "err h = err fp" "fptr h = fptr fp" "objsize h = objsize fp"
    "flag h AND 0xC0 = 0"
    using s(2) a(2) fd(2) [of "flag fp"] by simp_all
  have st: "stored h v2 cs = content fp ?v cs"
    using stored_content [OF file_okD(1) [OF h(1)]] fl2 clean h(2) by simp
  have ez: "entry_size fp v2 = objsize fp" "entry_clust fp v2 = sclust fp"
    using s(6,7) a(2) by (simp_all add: entry_size_def entry_clust_def)
  have "f_sync fp w = Some (FR_OK, h, close_vol ?fs v2 w)"
    using validate_opened [OF assms(1)] fs leave_opened [OF assms(1) gf2] by (simp add: f_sync_def)
  then show ?thesis using opened_close [OF assms(1) gf2 h(1) hf(1-3)] h(2) hf st ez by (simp add: open_close_vol)
qed

text \<open>A file of the example volume with changes, whose entry is the first of the root directory.\<close>

definition ex_changed :: FIL where
  "ex_changed = (ex_fil 2 600)\<lparr>flag := 0x43\<rparr>"

lemma ex_changed_opened: "opened ex_changed ex_w [2, 3]"
  using ex_opened(1) file_ok_flag(1) [of "ex_fil 2 600" "open_vol 1 ex_w" "[2, 3]" "0x43"]
  by (simp add: opened_def Let_def ex_changed_def ex_fil_def)

lemma ex_changed_entry: "entry_ok ex_changed (open_vol (obj_fs ex_changed) ex_w) [2, 3]"
proof -
  have c: "clusters ex_vol [2, 3]" by (rule clusters_chain [OF ex_vol_ok _ ex_chain]) (simp add: csize_ok_def)
  have "\<not> in_file ex_vol [2, 3] 3"
  proof
    assume "in_file ex_vol [2, 3] 3"
    then obtain k where k: "k < sectors ex_vol [2, 3]" "3 = file_sect ex_vol [2, 3] k" by (auto simp: in_file_def)
    have "4 \<le> unat (file_sect ex_vol [2, 3] k)" using unat_file_sect(1) [OF c k(1)] by simp
    then show False unfolding k(2) [symmetric] by simp
  qed
  then show ?thesis
    by (simp add: entry_ok_def Let_def ex_changed_def ex_fil_def ex_open_vol [unfolded One_nat_def] in_fat_def mirrored_def info_sect_def)
qed

theorem f_sync_durable_witness:
  "\<exists>fp' w'. f_sync ex_changed ex_w = Some (FR_OK, fp', w') \<and> entry_size ex_changed (open_vol 1 w') = 600 \<and>
     entry_clust ex_changed (open_vol 1 w') = 2"
  using f_sync_durable [OF ex_changed_opened _ ex_changed_entry] by (auto simp: ex_changed_def ex_fil_def)

end
