(* ===== verification/OmMemory.thy ===== *)
theory OmMemory
  imports Main "HOL-Library.Word" "HOL-Library.Monad_Syntax"
begin

text \<open>
  The segmented word memory of the Smalltalk-80 virtual machine
  (\<^verbatim>\<open>smalltalk/src/realwordmemory.h\<close>), the constants of \<^verbatim>\<open>objmemory.h\<close> and the state of an object
  memory.  The addresses and values of the code are C integers, here \<^typ>\<open>int\<close>; a cell is a
  16-bit word.  \<open>None\<close> is a failed assertion or runtime check, both of which stop the machine
  (\<^verbatim>\<open>assert\<close> is enabled in the build, \<^verbatim>\<open>hal->error\<close> aborts).
\<close>

unbundle bit_operations_syntax

record omem =
  cell :: "int \<Rightarrow> int \<Rightarrow> 16 word"
  currentSegment :: int
  freeWords :: int
  freeOops :: int

section \<open>Words, bytes and bit fields\<close>

definition seg_ok :: "int \<Rightarrow> int \<Rightarrow> bool" where
  "seg_ok s w \<longleftrightarrow> 0 \<le> s \<and> s < 16 \<and> 0 \<le> w \<and> w < 65536"

definition set_cell :: "int \<Rightarrow> int \<Rightarrow> 16 word \<Rightarrow> omem \<Rightarrow> omem" where
  "set_cell s w x m = m\<lparr>cell := (cell m)(s := (cell m s)(w := x))\<rparr>"

definition segment_word :: "int \<Rightarrow> int \<Rightarrow> omem \<Rightarrow> int option" where
  "segment_word s w m = (if seg_ok s w then Some (uint (cell m s w)) else None)"

definition segment_word_put :: "int \<Rightarrow> int \<Rightarrow> int \<Rightarrow> omem \<Rightarrow> omem option" where
  "segment_word_put s w v m =
     (if seg_ok s w \<and> 0 \<le> v \<and> v < 65536 then Some (set_cell s w (word_of_int v) m) else None)"

text \<open>Byte 0 is the first byte in memory, the low one on the ARM.\<close>

definition segment_word_byte :: "int \<Rightarrow> int \<Rightarrow> int \<Rightarrow> omem \<Rightarrow> int option" where
  "segment_word_byte s w b m =
     (if seg_ok s w \<and> (b = 1 \<or> b = 0)
      then Some (uint (ucast (drop_bit (nat (8 * b)) (cell m s w)) :: 8 word)) else None)"

definition segment_word_byte_put :: "int \<Rightarrow> int \<Rightarrow> int \<Rightarrow> int \<Rightarrow> omem \<Rightarrow> omem option" where
  "segment_word_byte_put s w b v m =
     (if seg_ok s w \<and> 0 \<le> v \<and> v < 65536 \<and> (b = 1 \<or> b = 0)
      then Some (set_cell s w ((cell m s w AND NOT (push_bit (nat (8 * b)) 0xFF))
             OR push_bit (nat (8 * b)) (ucast (word_of_int v :: 8 word))) m)
      else None)"

text \<open>Bit 0 is the most significant bit of a word.\<close>

definition segment_word_bits_to :: "int \<Rightarrow> int \<Rightarrow> nat \<Rightarrow> nat \<Rightarrow> omem \<Rightarrow> int option" where
  "segment_word_bits_to s w firstBit lastBit m =
     (if seg_ok s w
      then let shift = drop_bit (15 - lastBit) (cell m s w); msk = push_bit (lastBit - firstBit + 1) 1 - 1
           in Some (uint (shift AND msk))
      else None)"

definition segment_word_bits_to_put :: "int \<Rightarrow> int \<Rightarrow> nat \<Rightarrow> nat \<Rightarrow> int \<Rightarrow> omem \<Rightarrow> omem option" where
  "segment_word_bits_to_put s w firstBit lastBit v m =
     (if seg_ok s w \<and> 0 \<le> v \<and> v < 65536
      then let msk = (push_bit (lastBit - firstBit + 1) 1 - 1 :: 16 word); x = (word_of_int v :: 16 word)
           in if x AND msk = x
              then Some (set_cell s w ((cell m s w AND NOT (push_bit (15 - lastBit) msk)) OR push_bit (15 - lastBit) x) m)
              else None
      else None)"

section \<open>Constants\<close>

abbreviation (input) ObjectTableSegment :: int where "ObjectTableSegment \<equiv> 15"
abbreviation (input) ObjectTableStart :: int where "ObjectTableStart \<equiv> 0"
abbreviation (input) ObjectTableSize :: int where "ObjectTableSize \<equiv> 65534"
abbreviation (input) HugeSize :: int where "HugeSize \<equiv> 256"
abbreviation (input) FreePointerList :: int where "FreePointerList \<equiv> 65534"
abbreviation (input) BigSize :: int where "BigSize \<equiv> 20"
abbreviation (input) HeapSegmentCount :: int where "HeapSegmentCount \<equiv> 15"
abbreviation (input) FirstHeapSegment :: int where "FirstHeapSegment \<equiv> 0"
abbreviation (input) LastHeapSegment :: int where "LastHeapSegment \<equiv> 14"
abbreviation (input) HeapSpaceStop :: int where "HeapSpaceStop \<equiv> 65514"
abbreviation (input) HeaderSize :: int where "HeaderSize \<equiv> 2"
abbreviation (input) FirstFreeChunkList :: int where "FirstFreeChunkList \<equiv> 65515"
abbreviation (input) NonPointer :: int where "NonPointer \<equiv> 65535"
abbreviation (input) LastSpecialOop :: int where "LastSpecialOop \<equiv> 52"
abbreviation (input) NilPointer :: int where "NilPointer \<equiv> 2"
abbreviation (input) ClassSmallInteger :: int where "ClassSmallInteger \<equiv> 12"
abbreviation (input) ClassCompiledMethod :: int where "ClassCompiledMethod \<equiv> 34"

section \<open>Facts\<close>

lemma cell_set_cell [simp]:
  "cell (set_cell s w x m) t u = (if t = s \<and> u = w then x else cell m t u)"
  by (simp add: set_cell_def)

lemma set_cell_fields [simp]:
  "currentSegment (set_cell s w x m) = currentSegment m" "freeWords (set_cell s w x m) = freeWords m"
  "freeOops (set_cell s w x m) = freeOops m"
  by (simp_all add: set_cell_def)

lemma uint16: "0 \<le> uint (x :: 16 word)" "uint (x :: 16 word) < 65536" "uint (x :: 16 word) \<le> 65535"
  using uint_lt2p [of x] by (simp_all add: uint_ge_0)

lemma uint_of_int16: "0 \<le> v \<Longrightarrow> v < 65536 \<Longrightarrow> uint (word_of_int v :: 16 word) = v"
  by (simp add: uint_word_of_int_eq take_bit_int_eq_self_iff)

text \<open>A bit field of \<open>n\<close> bits at position \<open>k\<close>.\<close>

definition field_get :: "nat \<Rightarrow> nat \<Rightarrow> 16 word \<Rightarrow> int" where
  "field_get k n x = uint (drop_bit k x AND mask n)"

definition field_put :: "nat \<Rightarrow> nat \<Rightarrow> int \<Rightarrow> 16 word \<Rightarrow> 16 word" where
  "field_put k n v x = (x AND NOT (push_bit k (mask n))) OR push_bit k (word_of_int v AND mask n)"

lemma field_get_put:
  assumes "k + n \<le> 16" "0 \<le> v" "v < 2 ^ n"
  shows "field_get k n (field_put k n v x) = v"
proof -
  have "(2 :: int) ^ n \<le> 2 ^ 16" using assms(1) by (intro power_increasing) simp_all
  then have v: "uint (word_of_int v :: 16 word) = v" using assms by (intro uint_of_int16) simp_all
  have "drop_bit k (field_put k n v x) AND mask n = word_of_int v AND mask n"
    using assms(1) by (intro bit_word_eqI) (auto simp: field_put_def bit_simps)
  moreover have "uint (word_of_int v AND mask n :: 16 word) = v"
    using v assms(2,3) by (simp add: uint_and take_bit_eq_mask [symmetric] take_bit_int_eq_self_iff
        unsigned_take_bit_eq)
  ultimately show ?thesis by (simp add: field_get_def)
qed

lemma field_get_put_other:
  assumes "k + n \<le> j \<or> j + i \<le> k"
  shows "field_get j i (field_put k n v x) = field_get j i x"
  unfolding field_get_def
  by (intro arg_cong [where f = uint] bit_word_eqI) (use assms in \<open>auto simp: field_put_def bit_simps dest: bit_imp_le_length\<close>)

lemma field_get_bounds: "0 \<le> field_get k n x" "n \<le> 16 \<Longrightarrow> field_get k n x < 2 ^ n"
proof -
  show "0 \<le> field_get k n x" by (simp add: field_get_def)
  show "field_get k n x < 2 ^ n" if "n \<le> 16"
    using that by (simp add: field_get_def take_bit_eq_mask [symmetric] unsigned_take_bit_eq)
qed

lemma mask_code: "push_bit n 1 - 1 = (mask n :: 16 word)"
  by (simp add: mask_eq_exp_minus_1 push_bit_eq_mult)

lemma bits_to_field:
  assumes "seg_ok s w" "firstBit \<le> lastBit"
  shows "segment_word_bits_to s w firstBit lastBit m =
    Some (field_get (15 - lastBit) (lastBit - firstBit + 1) (cell m s w))"
  using assms unfolding segment_word_bits_to_def mask_code field_get_def Let_def by simp

lemma bits_to_put_field:
  assumes "seg_ok s w" "firstBit \<le> lastBit" "lastBit \<le> 15" "0 \<le> v" "v < 2 ^ (lastBit - firstBit + 1)"
  shows "segment_word_bits_to_put s w firstBit lastBit v m =
    Some (set_cell s w (field_put (15 - lastBit) (lastBit - firstBit + 1) v (cell m s w)) m)"
proof -
  let ?n = "lastBit - firstBit + 1"
  have "(2 :: int) ^ ?n \<le> 2 ^ 16" using assms(3) by (intro power_increasing) simp_all
  then have v: "v < 65536" "uint (word_of_int v :: 16 word) = v" using assms by (simp, intro uint_of_int16) simp_all
  have "uint (word_of_int v AND mask ?n :: 16 word) = v"
    using v assms(4,5) by (simp add: uint_and take_bit_eq_mask [symmetric] take_bit_int_eq_self_iff unsigned_take_bit_eq)
  then have "word_of_int v AND mask ?n = (word_of_int v :: 16 word)" using v(2) by (metis word_uint_eqI)
  then show ?thesis using assms v unfolding segment_word_bits_to_put_def mask_code field_put_def Let_def by simp
qed

end
