(* ===== verification/OmTable.thy ===== *)
theory OmTable
  imports OmMemory "HOL-Library.Signed_Division"
begin

text \<open>
  The object table and the heap chunks it points to (the inline functions of
  \<^verbatim>\<open>smalltalk/src/objmemory.h\<close>).  An object pointer is the index of a two-word table entry: a word
  of count, odd, pointer, free and segment bits and a word of location bits.  A heap chunk starts with its size and
  class words.
\<close>

section \<open>Small integers\<close>

definition isIntegerObject :: "int \<Rightarrow> bool" where
  "isIntegerObject p \<longleftrightarrow> p AND 1 = 1"

definition isIntegerValue :: "int \<Rightarrow> bool" where
  "isIntegerValue v \<longleftrightarrow> v \<ge> -16384 \<and> v \<le> 16383"

definition integerValueOf :: "int \<Rightarrow> int" where
  "integerValueOf p = sint (word_of_int (p AND 0xFFFE) :: 16 word) sdiv 2"

definition integerObjectOf :: "int \<Rightarrow> int" where
  "integerObjectOf v = uint (word_of_int (push_bit 1 v OR 1) :: 16 word)"

definition cantBeIntegerObject :: "int \<Rightarrow> unit option" where
  "cantBeIntegerObject p = (if isIntegerObject p then None else Some ())"

section \<open>Object table entries\<close>

definition ot :: "int \<Rightarrow> omem \<Rightarrow> int option" where
  "ot p m = do { _ \<leftarrow> cantBeIntegerObject p; segment_word ObjectTableSegment (ObjectTableStart + p) m }"

definition ot_put :: "int \<Rightarrow> int \<Rightarrow> omem \<Rightarrow> omem option" where
  "ot_put p v m = do { _ \<leftarrow> cantBeIntegerObject p; segment_word_put ObjectTableSegment (ObjectTableStart + p) v m }"

definition ot_bits_to :: "int \<Rightarrow> nat \<Rightarrow> nat \<Rightarrow> omem \<Rightarrow> int option" where
  "ot_bits_to p firstBit lastBit m =
     do { _ \<leftarrow> cantBeIntegerObject p; segment_word_bits_to ObjectTableSegment (ObjectTableStart + p) firstBit lastBit m }"

definition ot_bits_to_put :: "int \<Rightarrow> nat \<Rightarrow> nat \<Rightarrow> int \<Rightarrow> omem \<Rightarrow> omem option" where
  "ot_bits_to_put p firstBit lastBit v m =
     do { _ \<leftarrow> cantBeIntegerObject p; segment_word_bits_to_put ObjectTableSegment (ObjectTableStart + p) firstBit lastBit v m }"

definition locationBitsOf :: "int \<Rightarrow> omem \<Rightarrow> int option" where
  "locationBitsOf p m = do { _ \<leftarrow> cantBeIntegerObject p; segment_word ObjectTableSegment (ObjectTableStart + p + 1) m }"

definition locationBitsOf_put :: "int \<Rightarrow> int \<Rightarrow> omem \<Rightarrow> omem option" where
  "locationBitsOf_put p v m =
     do { _ \<leftarrow> cantBeIntegerObject p; segment_word_put ObjectTableSegment (ObjectTableStart + p + 1) v m }"

definition segmentBitsOf :: "int \<Rightarrow> omem \<Rightarrow> int option" where
  "segmentBitsOf p m = ot_bits_to p 12 15 m"

definition segmentBitsOf_put :: "int \<Rightarrow> int \<Rightarrow> omem \<Rightarrow> omem option" where
  "segmentBitsOf_put p v m = ot_bits_to_put p 12 15 v m"

definition freeBitOf :: "int \<Rightarrow> omem \<Rightarrow> int option" where
  "freeBitOf p m = ot_bits_to p 10 10 m"

definition freeBitOf_put :: "int \<Rightarrow> int \<Rightarrow> omem \<Rightarrow> omem option" where
  "freeBitOf_put p v m = ot_bits_to_put p 10 10 v m"

definition pointerBitOf :: "int \<Rightarrow> omem \<Rightarrow> int option" where
  "pointerBitOf p m = ot_bits_to p 9 9 m"

definition pointerBitOf_put :: "int \<Rightarrow> int \<Rightarrow> omem \<Rightarrow> omem option" where
  "pointerBitOf_put p v m = ot_bits_to_put p 9 9 v m"

definition oddBitOf :: "int \<Rightarrow> omem \<Rightarrow> int option" where
  "oddBitOf p m = ot_bits_to p 8 8 m"

definition oddBitOf_put :: "int \<Rightarrow> int \<Rightarrow> omem \<Rightarrow> omem option" where
  "oddBitOf_put p v m = ot_bits_to_put p 8 8 v m"

definition countBitsOf :: "int \<Rightarrow> omem \<Rightarrow> int option" where
  "countBitsOf p m = ot_bits_to p 0 7 m"

definition countBitsOf_put :: "int \<Rightarrow> int \<Rightarrow> omem \<Rightarrow> omem option" where
  "countBitsOf_put p v m = ot_bits_to_put p 0 7 v m"

section \<open>Heap chunks\<close>

definition heapChunkOf_word :: "int \<Rightarrow> int \<Rightarrow> omem \<Rightarrow> int option" where
  "heapChunkOf_word p i m = do { s \<leftarrow> segmentBitsOf p m; l \<leftarrow> locationBitsOf p m; segment_word s (l + i) m }"

definition heapChunkOf_word_put :: "int \<Rightarrow> int \<Rightarrow> int \<Rightarrow> omem \<Rightarrow> omem option" where
  "heapChunkOf_word_put p i v m =
     do { s \<leftarrow> segmentBitsOf p m; l \<leftarrow> locationBitsOf p m; segment_word_put s (l + i) v m }"

definition heapChunkOf_byte :: "int \<Rightarrow> int \<Rightarrow> omem \<Rightarrow> int option" where
  "heapChunkOf_byte p i m =
     do { s \<leftarrow> segmentBitsOf p m; l \<leftarrow> locationBitsOf p m; segment_word_byte s (l + i sdiv 2) (i smod 2) m }"

definition heapChunkOf_byte_put :: "int \<Rightarrow> int \<Rightarrow> int \<Rightarrow> omem \<Rightarrow> omem option" where
  "heapChunkOf_byte_put p i v m =
     do { s \<leftarrow> segmentBitsOf p m; l \<leftarrow> locationBitsOf p m; segment_word_byte_put s (l + i sdiv 2) (i smod 2) v m }"

definition sizeBitsOf :: "int \<Rightarrow> omem \<Rightarrow> int option" where
  "sizeBitsOf p m = heapChunkOf_word p 0 m"

definition sizeBitsOf_put :: "int \<Rightarrow> int \<Rightarrow> omem \<Rightarrow> omem option" where
  "sizeBitsOf_put p v m = heapChunkOf_word_put p 0 v m"

definition classBitsOf :: "int \<Rightarrow> omem \<Rightarrow> int option" where
  "classBitsOf p m = heapChunkOf_word p 1 m"

definition classBitsOf_put :: "int \<Rightarrow> int \<Rightarrow> omem \<Rightarrow> omem option" where
  "classBitsOf_put p v m = heapChunkOf_word_put p 1 v m"

section \<open>Fields of objects\<close>

definition fetchWordLengthOf :: "int \<Rightarrow> omem \<Rightarrow> int option" where
  "fetchWordLengthOf p m = do { n \<leftarrow> sizeBitsOf p m; Some (n - HeaderSize) }"

definition fetchByteLengthOf :: "int \<Rightarrow> omem \<Rightarrow> int option" where
  "fetchByteLengthOf p m = do { n \<leftarrow> fetchWordLengthOf p m; b \<leftarrow> oddBitOf p m; Some (n * 2 - b) }"

definition fetchWord_ofObject :: "int \<Rightarrow> int \<Rightarrow> omem \<Rightarrow> int option" where
  "fetchWord_ofObject i p m =
     do { n \<leftarrow> fetchWordLengthOf p m; if i \<ge> 0 \<and> i < n then heapChunkOf_word p (HeaderSize + i) m else None }"

definition fetchPointer_ofObject :: "int \<Rightarrow> int \<Rightarrow> omem \<Rightarrow> int option" where
  "fetchPointer_ofObject i p m =
     do { n \<leftarrow> fetchWordLengthOf p m; if i \<ge> 0 \<and> i < n then heapChunkOf_word p (HeaderSize + i) m else None }"

definition storeWord_ofObject_withValue :: "int \<Rightarrow> int \<Rightarrow> int \<Rightarrow> omem \<Rightarrow> omem option" where
  "storeWord_ofObject_withValue i p v m =
     do { n \<leftarrow> fetchWordLengthOf p m; if i \<ge> 0 \<and> i < n then heapChunkOf_word_put p (HeaderSize + i) v m else None }"

definition fetchByte_ofObject :: "int \<Rightarrow> int \<Rightarrow> omem \<Rightarrow> int option" where
  "fetchByte_ofObject i p m = heapChunkOf_byte p (HeaderSize * 2 + i) m"

definition storeByte_ofObject_withValue :: "int \<Rightarrow> int \<Rightarrow> int \<Rightarrow> omem \<Rightarrow> omem option" where
  "storeByte_ofObject_withValue i p v m = heapChunkOf_byte_put p (HeaderSize * 2 + i) v m"

definition fetchClassOf :: "int \<Rightarrow> omem \<Rightarrow> int option" where
  "fetchClassOf p m = (if isIntegerObject p then Some ClassSmallInteger else classBitsOf p m)"

definition hasObject :: "int \<Rightarrow> omem \<Rightarrow> bool option" where
  "hasObject p m =
     do { _ \<leftarrow> cantBeIntegerObject p; f \<leftarrow> freeBitOf p m; c \<leftarrow> countBitsOf p m; Some (f = 0 \<and> c \<noteq> 0) }"

definition swapPointersOf_and :: "int \<Rightarrow> int \<Rightarrow> omem \<Rightarrow> omem option" where
  "swapPointersOf_and p q m =
     do {
       firstSegment \<leftarrow> segmentBitsOf p m;
       firstLocation \<leftarrow> locationBitsOf p m;
       firstPointerBit \<leftarrow> pointerBitOf p m;
       firstOdd \<leftarrow> oddBitOf p m;
       s \<leftarrow> segmentBitsOf q m; m \<leftarrow> segmentBitsOf_put p s m;
       l \<leftarrow> locationBitsOf q m; m \<leftarrow> locationBitsOf_put p l m;
       b \<leftarrow> pointerBitOf q m; m \<leftarrow> pointerBitOf_put p b m;
       d \<leftarrow> oddBitOf q m; m \<leftarrow> oddBitOf_put p d m;
       m \<leftarrow> segmentBitsOf_put q firstSegment m;
       m \<leftarrow> locationBitsOf_put q firstLocation m;
       m \<leftarrow> pointerBitOf_put q firstPointerBit m;
       oddBitOf_put q firstOdd m
     }"

text \<open>The size of an object up to its last pointer, and the space it takes.\<close>

definition lastPointerOf :: "int \<Rightarrow> omem \<Rightarrow> int option" where
  "lastPointerOf p m =
     do {
       b \<leftarrow> pointerBitOf p m;
       if b = 0 then do {
         c \<leftarrow> classBitsOf p m;
         if c = ClassCompiledMethod then do {
           methodHeader \<leftarrow> heapChunkOf_word p HeaderSize m;
           Some (HeaderSize + 1 + drop_bit 1 (methodHeader AND 126))
         } else Some HeaderSize
       } else sizeBitsOf p m
     }"

definition spaceOccupiedBy :: "int \<Rightarrow> omem \<Rightarrow> int option" where
  "spaceOccupiedBy p m =
     do {
       n \<leftarrow> sizeBitsOf p m;
       if n < HugeSize then Some n else do { b \<leftarrow> pointerBitOf p m; if b = 0 then Some n else Some (n + 1) }
     }"

text \<open>The table from an entry upwards: the next object of a class.\<close>

partial_function (option) next_instance :: "int \<Rightarrow> int \<Rightarrow> omem \<Rightarrow> int option" where
  "next_instance cls p m =
     (if p \<le> ObjectTableSize - 2 then do {
        h \<leftarrow> hasObject p m;
        c \<leftarrow> (if h then fetchClassOf p m else Some cls);
        if h \<and> c = cls then Some p else next_instance cls (p + 2) m
      } else Some NilPointer)"

definition initialInstanceOf :: "int \<Rightarrow> omem \<Rightarrow> int option" where
  "initialInstanceOf cls m = next_instance cls 0 m"

definition instanceAfter :: "int \<Rightarrow> omem \<Rightarrow> int option" where
  "instanceAfter p m = do { cls \<leftarrow> fetchClassOf p m; next_instance cls (p + 2) m }"

text \<open>The number of entries that hold no object, from an entry upwards.\<close>

partial_function (option) audit_loop :: "int \<Rightarrow> int \<Rightarrow> omem \<Rightarrow> int option" where
  "audit_loop p n m =
     (if p < ObjectTableSize then do { h \<leftarrow> hasObject p m; audit_loop (p + 2) (if h then n else n + 1) m } else Some n)"

definition auditFreeOops :: "omem \<Rightarrow> int option" where
  "auditFreeOops m = audit_loop 2 0 m"

section \<open>Views\<close>

text \<open>
  The content of a table entry and of a heap chunk as functions of the memory, and the accessors of the
  code as reads and updates of them.
\<close>

definition oop_ok :: "int \<Rightarrow> bool" where
  "oop_ok p \<longleftrightarrow> 0 \<le> p \<and> p < ObjectTableSize \<and> even p"

definition loc_of :: "omem \<Rightarrow> int \<Rightarrow> int" where "loc_of m p = uint (cell m 15 (p + 1))"
definition seg_of :: "omem \<Rightarrow> int \<Rightarrow> int" where "seg_of m p = field_get 0 4 (cell m 15 p)"
definition free_of :: "omem \<Rightarrow> int \<Rightarrow> int" where "free_of m p = field_get 5 1 (cell m 15 p)"
definition ptr_of :: "omem \<Rightarrow> int \<Rightarrow> int" where "ptr_of m p = field_get 6 1 (cell m 15 p)"
definition odd_of :: "omem \<Rightarrow> int \<Rightarrow> int" where "odd_of m p = field_get 7 1 (cell m 15 p)"
definition count_of :: "omem \<Rightarrow> int \<Rightarrow> int" where "count_of m p = field_get 8 8 (cell m 15 p)"

lemmas entry_views = loc_of_def seg_of_def free_of_def ptr_of_def odd_of_def count_of_def

definition hw :: "omem \<Rightarrow> int \<Rightarrow> int \<Rightarrow> int" where
  "hw m p i = uint (cell m (seg_of m p) (loc_of m p + i))"

text \<open>Word \<open>i\<close> of the chunk lies in its segment.\<close>

definition in_chunk :: "omem \<Rightarrow> int \<Rightarrow> int \<Rightarrow> bool" where
  "in_chunk m p i \<longleftrightarrow> oop_ok p \<and> 0 \<le> loc_of m p + i \<and> loc_of m p + i < 65536"

lemma odd_int_and: "isIntegerObject p \<longleftrightarrow> odd p"
  by (simp add: isIntegerObject_def and_one_eq odd_iff_mod_2_eq_one)

lemma oop_ok_simps [simp]:
  "oop_ok p \<Longrightarrow> cantBeIntegerObject p = Some ()" "oop_ok p \<Longrightarrow> \<not> isIntegerObject p"
  "oop_ok p \<Longrightarrow> seg_ok 15 p" "oop_ok p \<Longrightarrow> seg_ok 15 (p + 1)" "oop_ok p \<Longrightarrow> \<not> odd p"
  by (auto simp: oop_ok_def cantBeIntegerObject_def odd_int_and seg_ok_def)

lemma oop_neq: "oop_ok p \<Longrightarrow> oop_ok q \<Longrightarrow> p + 1 \<noteq> q" "oop_ok p \<Longrightarrow> oop_ok q \<Longrightarrow> q \<noteq> p + 1"
  "oop_ok p \<Longrightarrow> oop_ok q \<Longrightarrow> 1 + p \<noteq> q" "oop_ok p \<Longrightarrow> oop_ok q \<Longrightarrow> q \<noteq> 1 + p"
  by (auto simp: oop_ok_def)

lemma entry_bounds:
  "0 \<le> seg_of m p" "seg_of m p < 16" "0 \<le> loc_of m p" "loc_of m p < 65536" "0 \<le> count_of m p" "count_of m p < 256"
  "0 \<le> free_of m p" "free_of m p < 2" "0 \<le> ptr_of m p" "ptr_of m p < 2" "0 \<le> odd_of m p" "odd_of m p < 2"
  using field_get_bounds(2) [of 4 0 "cell m 15 p"] field_get_bounds(2) [of 8 8 "cell m 15 p"]
    field_get_bounds(2) [of 1 5 "cell m 15 p"] field_get_bounds(2) [of 1 6 "cell m 15 p"]
    field_get_bounds(2) [of 1 7 "cell m 15 p"]
  by (simp_all add: entry_views field_get_bounds uint16)

lemma hw_bounds: "0 \<le> hw m p i" "hw m p i < 65536"
  by (simp_all add: hw_def uint16)

lemma entry_reads [simp]:
  assumes "oop_ok p"
  shows "segmentBitsOf p m = Some (seg_of m p)" "locationBitsOf p m = Some (loc_of m p)"
    "freeBitOf p m = Some (free_of m p)" "pointerBitOf p m = Some (ptr_of m p)" "oddBitOf p m = Some (odd_of m p)"
    "countBitsOf p m = Some (count_of m p)" "hasObject p m = Some (free_of m p = 0 \<and> count_of m p \<noteq> 0)"
    "ot p m = Some (uint (cell m 15 p))"
  using assms
  by (simp_all add: segmentBitsOf_def locationBitsOf_def freeBitOf_def pointerBitOf_def oddBitOf_def countBitsOf_def
      hasObject_def ot_bits_to_def bits_to_field segment_word_def entry_views ot_def)

lemma chunk_read [simp]:
  "in_chunk m p i \<Longrightarrow> heapChunkOf_word p i m = Some (hw m p i)"
  using entry_bounds [of m p] by (simp add: heapChunkOf_word_def in_chunk_def segment_word_def seg_ok_def hw_def)

text \<open>The updates of an entry and of a chunk.\<close>

definition put_bits :: "nat \<Rightarrow> nat \<Rightarrow> int \<Rightarrow> int \<Rightarrow> omem \<Rightarrow> omem" where
  "put_bits k n p v m = set_cell 15 p (field_put k n v (cell m 15 p)) m"

definition put_loc :: "int \<Rightarrow> int \<Rightarrow> omem \<Rightarrow> omem" where
  "put_loc p v m = set_cell 15 (p + 1) (word_of_int v) m"

definition put_hw :: "int \<Rightarrow> int \<Rightarrow> int \<Rightarrow> omem \<Rightarrow> omem" where
  "put_hw p i v m = set_cell (seg_of m p) (loc_of m p + i) (word_of_int v) m"

lemmas put_defs = put_bits_def put_loc_def put_hw_def

lemma chunk_write [simp]:
  "in_chunk m p i \<Longrightarrow> 0 \<le> v \<Longrightarrow> v < 65536 \<Longrightarrow> heapChunkOf_word_put p i v m = Some (put_hw p i v m)"
  using entry_bounds [of m p]
  by (simp add: heapChunkOf_word_put_def in_chunk_def segment_word_put_def seg_ok_def put_defs)

lemma entry_writes [simp]:
  assumes "oop_ok p"
  shows "0 \<le> v \<Longrightarrow> v < 16 \<Longrightarrow> segmentBitsOf_put p v m = Some (put_bits 0 4 p v m)"
    "0 \<le> v \<Longrightarrow> v < 2 \<Longrightarrow> freeBitOf_put p v m = Some (put_bits 5 1 p v m)"
    "0 \<le> v \<Longrightarrow> v < 2 \<Longrightarrow> pointerBitOf_put p v m = Some (put_bits 6 1 p v m)"
    "0 \<le> v \<Longrightarrow> v < 2 \<Longrightarrow> oddBitOf_put p v m = Some (put_bits 7 1 p v m)"
    "0 \<le> v \<Longrightarrow> v < 256 \<Longrightarrow> countBitsOf_put p v m = Some (put_bits 8 8 p v m)"
    "0 \<le> v \<Longrightarrow> v < 65536 \<Longrightarrow> locationBitsOf_put p v m = Some (put_loc p v m)"
  using assms
  by (simp_all add: segmentBitsOf_put_def freeBitOf_put_def pointerBitOf_put_def oddBitOf_put_def countBitsOf_put_def
      locationBitsOf_put_def ot_bits_to_put_def bits_to_put_field segment_word_put_def put_defs)

lemma ot_put_write: "oop_ok p \<Longrightarrow> 0 \<le> v \<Longrightarrow> v < 65536 \<Longrightarrow> ot_put p v m = Some (set_cell 15 p (word_of_int v) m)"
  by (simp add: ot_put_def segment_word_put_def)

text \<open>The views after an update.\<close>

lemma put_other_fields [simp]:
  "currentSegment (put_bits k n p v m) = currentSegment m" "freeWords (put_bits k n p v m) = freeWords m"
  "freeOops (put_bits k n p v m) = freeOops m"
  "currentSegment (put_loc p v m) = currentSegment m" "freeWords (put_loc p v m) = freeWords m"
  "freeOops (put_loc p v m) = freeOops m"
  "currentSegment (put_hw p i v m) = currentSegment m" "freeWords (put_hw p i v m) = freeWords m"
  "freeOops (put_hw p i v m) = freeOops m"
  by (simp_all add: put_defs)

lemma put_cell [simp]:
  "s \<noteq> 15 \<Longrightarrow> cell (put_bits k n p v m) s w = cell m s w" "s \<noteq> 15 \<Longrightarrow> cell (put_loc p v m) s w = cell m s w"
  by (simp_all add: put_defs)

lemma put_bits_get:
  assumes "oop_ok p" "oop_ok q"
  shows "loc_of (put_bits k n p v m) q = loc_of m q"
    "k + n \<le> j \<or> j + i \<le> k \<Longrightarrow> field_get j i (cell (put_bits k n p v m) 15 q) = field_get j i (cell m 15 q)"
    "k + n \<le> 16 \<Longrightarrow> 0 \<le> v \<Longrightarrow> v < 2 ^ n \<Longrightarrow>
     field_get k n (cell (put_bits k n p v m) 15 q) = (if q = p then v else field_get k n (cell m 15 q))"
  using oop_neq [OF assms] oop_neq [OF assms(2,1)]
  by (simp_all add: put_defs loc_of_def field_get_put field_get_put_other)

lemma put_bits_views [simp]:
  assumes "oop_ok p" "oop_ok q"
  shows "0 \<le> v \<Longrightarrow> v < 16 \<Longrightarrow> seg_of (put_bits 0 4 p v m) q = (if q = p then v else seg_of m q)"
    "0 \<le> v \<Longrightarrow> v < 2 \<Longrightarrow> free_of (put_bits 5 (Suc 0) p v m) q = (if q = p then v else free_of m q)"
    "0 \<le> v \<Longrightarrow> v < 2 \<Longrightarrow> ptr_of (put_bits 6 (Suc 0) p v m) q = (if q = p then v else ptr_of m q)"
    "0 \<le> v \<Longrightarrow> v < 2 \<Longrightarrow> odd_of (put_bits 7 (Suc 0) p v m) q = (if q = p then v else odd_of m q)"
    "0 \<le> v \<Longrightarrow> v < 256 \<Longrightarrow> count_of (put_bits 8 8 p v m) q = (if q = p then v else count_of m q)"
    "4 \<le> k \<Longrightarrow> seg_of (put_bits k n p v m) q = seg_of m q"
    "k + n \<le> 5 \<or> 6 \<le> k \<Longrightarrow> free_of (put_bits k n p v m) q = free_of m q"
    "k + n \<le> 6 \<or> 7 \<le> k \<Longrightarrow> ptr_of (put_bits k n p v m) q = ptr_of m q"
    "k + n \<le> 7 \<or> 8 \<le> k \<Longrightarrow> odd_of (put_bits k n p v m) q = odd_of m q"
    "k + n \<le> 8 \<Longrightarrow> count_of (put_bits k n p v m) q = count_of m q"
    "loc_of (put_bits k n p v m) q = loc_of m q"
  using put_bits_get [OF assms, of k n] put_bits_get(3) [OF assms, of _ _ v]
  by (auto simp: seg_of_def free_of_def ptr_of_def odd_of_def count_of_def)

lemma put_loc_views [simp]:
  assumes "oop_ok p" "oop_ok q"
  shows "0 \<le> v \<Longrightarrow> v < 65536 \<Longrightarrow> loc_of (put_loc p v m) q = (if q = p then v else loc_of m q)"
    "seg_of (put_loc p v m) q = seg_of m q" "free_of (put_loc p v m) q = free_of m q"
    "ptr_of (put_loc p v m) q = ptr_of m q" "odd_of (put_loc p v m) q = odd_of m q"
    "count_of (put_loc p v m) q = count_of m q"
  using oop_neq [OF assms] oop_neq [OF assms(2,1)] by (simp_all add: put_defs entry_views uint_of_int16)

lemma put_hw_views [simp]:
  assumes "seg_of m p \<noteq> 15"
  shows "loc_of (put_hw p i v m) q = loc_of m q" "seg_of (put_hw p i v m) q = seg_of m q"
    "free_of (put_hw p i v m) q = free_of m q" "ptr_of (put_hw p i v m) q = ptr_of m q"
    "odd_of (put_hw p i v m) q = odd_of m q" "count_of (put_hw p i v m) q = count_of m q"
    "cell (put_hw p i v m) 15 = cell m 15"
  using assms by (simp_all add: put_defs entry_views set_cell_def)

lemma set_cell_views [simp]:
  assumes "s \<noteq> 15"
  shows "loc_of (set_cell s w x m) q = loc_of m q" "seg_of (set_cell s w x m) q = seg_of m q"
    "free_of (set_cell s w x m) q = free_of m q" "ptr_of (set_cell s w x m) q = ptr_of m q"
    "odd_of (set_cell s w x m) q = odd_of m q" "count_of (set_cell s w x m) q = count_of m q"
    "hw (set_cell s w x m) q i = (if seg_of m q = s \<and> loc_of m q + i = w then uint x else hw m q i)"
  using assms by (simp_all add: entry_views hw_def)

text \<open>Word \<open>i\<close> of one chunk is word \<open>j\<close> of another.\<close>

definition same_word :: "omem \<Rightarrow> int \<Rightarrow> int \<Rightarrow> int \<Rightarrow> int \<Rightarrow> bool" where
  "same_word m p i q j \<longleftrightarrow> seg_of m p = seg_of m q \<and> loc_of m p + i = loc_of m q + j"

lemma same_word_self [simp]: "same_word m p i p j \<longleftrightarrow> i = j"
  by (simp add: same_word_def)

lemma hw_put_hw:
  "seg_of m p \<noteq> 15 \<Longrightarrow> 0 \<le> v \<Longrightarrow> v < 65536 \<Longrightarrow>
   hw (put_hw p i v m) q j = (if same_word m p i q j then v else hw m q j)"
  unfolding hw_def by simp (auto simp: put_hw_def same_word_def uint_of_int16)

end
