(* ===== verification/OmTableProps.thy ===== *)
theory OmTableProps
  imports OmTable
begin

text \<open>
  Properties of small integers, of the fields of table entries and of the operations that work on
  table entries alone.
\<close>

section \<open>Small integers\<close>

lemma uint_mod16: "uint (word_of_int v :: 16 word) = v mod 65536"
  by (simp add: uint_word_of_int_eq take_bit_eq_mod)

lemma mod_wrap16:
  "0 \<le> x \<Longrightarrow> x < 65536 \<Longrightarrow> x mod 65536 = (x :: int)"
  "65536 \<le> x \<Longrightarrow> x < 131072 \<Longrightarrow> x mod 65536 = x - 65536"
  "- 65536 \<le> x \<Longrightarrow> x < 0 \<Longrightarrow> x mod 65536 = x + 65536"
  using mod_pos_pos_trivial [of "x - 65536" 65536] mod_pos_pos_trivial [of "x + 65536" 65536]
  by simp_all

lemma integer_object_value:
  assumes "isIntegerValue v"
  shows "integerObjectOf v = (if 0 \<le> v then 2 * v + 1 else 2 * v + 65537)"
proof -
  have v: "-16384 \<le> v" "v \<le> 16383" using assms by (simp_all add: isIntegerValue_def)
  have "push_bit 1 v OR 1 = 2 * v + 1" by (simp add: or_one_eq push_bit_eq_mult)
  then have "integerObjectOf v = (2 * v + 1) mod 65536" unfolding integerObjectOf_def by (simp only: uint_mod16)
  then show ?thesis using v mod_wrap16(1,3) [of "2 * v + 1"] by simp
qed

lemma sint_word16: "sint (word_of_int v :: 16 word) = (v + 32768) mod 65536 - 32768"
proof -
  have "sint (word_of_int v :: 16 word) = signed_take_bit 15 (uint (word_of_int v :: 16 word))"
    by (simp only: sint_uint) simp
  also have "\<dots> = (v mod 65536 + 32768) mod 65536 - 32768"
    unfolding uint_mod16 signed_take_bit_eq_take_bit_shift by (simp add: take_bit_eq_mod)
  finally show ?thesis by (simp only: mod_add_left_eq)
qed

lemma and_even:
  assumes "0 \<le> q" "q < 32768"
  shows "(2 * q + 1) AND 0xFFFE = (2 * q :: int)"
proof -
  have m: "(0xFFFE :: int) = 2 * mask 15 + 0" by (simp add: mask_eq_exp_minus_1)
  have "(2 * q + 1) AND (2 * mask 15 + 0) = 2 * (q AND mask 15)"
    by (subst and_int_rec) simp
  also have "q AND mask 15 = q"
    using assms by (simp add: take_bit_eq_mask [symmetric] take_bit_int_eq_self_iff)
  finally show ?thesis unfolding m .
qed

lemma integer_value:
  assumes "0 \<le> q" "q < 32768"
  shows "integerValueOf (2 * q + 1) = (if q < 16384 then q else q - 32768)"
proof -
  have "sint (word_of_int (2 * q) :: 16 word) = 2 * (if q < 16384 then q else q - 32768)"
    unfolding sint_word16 using assms mod_wrap16(1,2) [of "2 * q + 32768"] by simp
  then show ?thesis unfolding integerValueOf_def and_even [OF assms]
    using assms by (auto simp: signed_divide_int_def sgn_if)
qed

text \<open>C29: The tagged representation of small integers is exact: the value of the object of a value is the
value, for every value the virtual machine accepts, the object is tagged and fits a word, and every
tagged word is the object of its value, which is accepted.\<close>

theorem integer_round_trip:
  assumes "isIntegerValue v" "isIntegerObject p" "0 \<le> p" "p < 65536"
  shows "integerValueOf (integerObjectOf v) = v \<and> isIntegerObject (integerObjectOf v) \<and>
    0 \<le> integerObjectOf v \<and> integerObjectOf v < 65536 \<and>
    integerObjectOf (integerValueOf p) = p \<and> isIntegerValue (integerValueOf p)"
proof -
  have v: "-16384 \<le> v" "v \<le> 16383" using assms(1) by (simp_all add: isIntegerValue_def)
  obtain q where p: "p = 2 * q + 1" "0 \<le> q" "q < 32768"
    using assms(2-4) by (auto simp: odd_int_and elim!: oddE)
  have iv: "isIntegerValue (integerValueOf p)" using p by (simp add: integer_value isIntegerValue_def)
  define r where "r = (if 0 \<le> v then v else v + 32768)"
  have r: "integerObjectOf v = 2 * r + 1" "0 \<le> r" "r < 32768"
    using v by (simp_all add: integer_object_value [OF assms(1)] r_def)
  have "integerValueOf (integerObjectOf v) = v"
    unfolding r(1) integer_value [OF r(2,3)] using v by (simp add: r_def)
  moreover have "integerObjectOf (integerValueOf p) = p"
    unfolding integer_object_value [OF iv] using p by (simp add: integer_value)
  ultimately show ?thesis using iv r by (simp add: odd_int_and)
qed

theorem integer_round_trip_witness:
  "integerValueOf (integerObjectOf (-5)) = -5 \<and> integerObjectOf (integerValueOf 65535) = 65535"
  using integer_round_trip [of "-5" 65535] by (simp add: isIntegerValue_def odd_int_and)

section \<open>Table entries\<close>

text \<open>C20: Swapping two object pointers exchanges exactly what they denote: the segment, location, pointer
and odd bits of the two entries, hence the words of the two objects and their classes; reference
counts, free bits, every other object pointer and the heap itself stay.\<close>

theorem swapPointers_exchanges:
  assumes "oop_ok p" "oop_ok q" "oop_ok r"
  defines "t \<equiv> (if r = p then q else if r = q then p else r)"
  shows "\<exists>m'. swapPointersOf_and p q m = Some m' \<and>
    seg_of m' r = seg_of m t \<and> loc_of m' r = loc_of m t \<and> ptr_of m' r = ptr_of m t \<and> odd_of m' r = odd_of m t \<and>
    count_of m' r = count_of m r \<and> free_of m' r = free_of m r \<and>
    (\<forall>s w. s \<noteq> 15 \<longrightarrow> cell m' s w = cell m s w) \<and>
    (seg_of m t \<noteq> 15 \<longrightarrow> (\<forall>i. hw m' r i = hw m t i) \<and> fetchClassOf r m' = fetchClassOf t m)"
proof -
  have t: "oop_ok t" using assms by simp
  obtain m' where m': "swapPointersOf_and p q m = Some m'"
    and v: "seg_of m' r = seg_of m t" "loc_of m' r = loc_of m t" "ptr_of m' r = ptr_of m t" "odd_of m' r = odd_of m t"
      "count_of m' r = count_of m r" "free_of m' r = free_of m r"
    and c: "\<And>s w. s \<noteq> 15 \<Longrightarrow> cell m' s w = cell m s w"
    using assms by (auto simp: swapPointersOf_and_def entry_bounds)
  have h: "hw m' r i = hw m t i" if "seg_of m t \<noteq> 15" for i using that by (simp add: hw_def v c)
  have w: "heapChunkOf_word r 1 m' = heapChunkOf_word t 1 m" if "seg_of m t \<noteq> 15"
    using that assms(3) t c by (simp add: heapChunkOf_word_def v segment_word_def)
  show ?thesis using m' v c h w assms(3) t by (auto simp: fetchClassOf_def classBitsOf_def)
qed

theorem swapPointers_exchanges_witness:
  "\<exists>m'. swapPointersOf_and 4 6 (set_cell 15 7 9 (set_cell 15 5 8 \<lparr>cell = \<lambda>_ _. 0, currentSegment = 0, freeWords = 0, freeOops = 0\<rparr>)) = Some m' \<and>
    loc_of m' 4 = 9"
  using swapPointers_exchanges [of 4 6 4 "set_cell 15 7 9 (set_cell 15 5 8 \<lparr>cell = \<lambda>_ _. 0, currentSegment = 0, freeWords = 0, freeOops = 0\<rparr>)"]
  by (auto simp: oop_ok_def loc_of_def)

end
