(* ===== verification/OmSpace.thy ===== *)
theory OmSpace
  imports OmTable
begin

text \<open>
  Unallocated space (\<^verbatim>\<open>smalltalk/src/objmemory.cpp\<close>): the list of free table entries, linked through
  their locations, the lists of free chunks of each heap segment, linked through their class words,
  compaction of a segment, and the search for a chunk.
\<close>

section \<open>Free table entries\<close>

definition headOfFreePointerList :: "omem \<Rightarrow> int option" where
  "headOfFreePointerList m = segment_word ObjectTableSegment FreePointerList m"

definition headOfFreePointerListPut :: "int \<Rightarrow> omem \<Rightarrow> omem option" where
  "headOfFreePointerListPut p m = segment_word_put ObjectTableSegment FreePointerList p m"

definition toFreePointerListAdd :: "int \<Rightarrow> omem \<Rightarrow> omem option" where
  "toFreePointerListAdd p m =
     do { h \<leftarrow> headOfFreePointerList m; m \<leftarrow> locationBitsOf_put p h m; headOfFreePointerListPut p m }"

definition removeFromFreePointerList :: "omem \<Rightarrow> (int \<times> omem) option" where
  "removeFromFreePointerList m =
     do {
       p \<leftarrow> headOfFreePointerList m;
       if p = NonPointer then Some (NilPointer, m)
       else do { l \<leftarrow> locationBitsOf p m; m \<leftarrow> headOfFreePointerListPut l m; Some (p, m) }
     }"

definition releasePointer :: "int \<Rightarrow> omem \<Rightarrow> omem option" where
  "releasePointer p m = do { m \<leftarrow> freeBitOf_put p 1 m; toFreePointerListAdd p m }"

definition obtainPointer_location :: "int \<Rightarrow> int \<Rightarrow> omem \<Rightarrow> (int \<times> omem) option" where
  "obtainPointer_location sz location m =
     (if currentSegment m \<ge> FirstHeapSegment \<and> currentSegment m \<le> LastHeapSegment then do {
        (p, m) \<leftarrow> removeFromFreePointerList m;
        if p = NilPointer then Some (NilPointer, m)
        else do {
          m \<leftarrow> ot_put p 0 m;
          m \<leftarrow> segmentBitsOf_put p (currentSegment m) m;
          m \<leftarrow> locationBitsOf_put p location m;
          m \<leftarrow> sizeBitsOf_put p sz m;
          Some (p, m)
        }
      } else None)"

section \<open>Free chunks\<close>

definition headOfFreeChunkList_inSegment :: "int \<Rightarrow> int \<Rightarrow> omem \<Rightarrow> int option" where
  "headOfFreeChunkList_inSegment sz sg m =
     (if sz \<ge> 2 \<and> sz \<le> BigSize then segment_word sg (FirstFreeChunkList + sz) m else None)"

definition headOfFreeChunkList_inSegment_put :: "int \<Rightarrow> int \<Rightarrow> int \<Rightarrow> omem \<Rightarrow> omem option" where
  "headOfFreeChunkList_inSegment_put sz sg p m =
     (if sz \<ge> HeaderSize \<and> sz \<le> BigSize then segment_word_put sg (FirstFreeChunkList + sz) p m else None)"

definition resetFreeChunkList_inSegment :: "int \<Rightarrow> int \<Rightarrow> omem \<Rightarrow> omem option" where
  "resetFreeChunkList_inSegment sz sg m =
     (if sz \<ge> 2 \<and> sz \<le> BigSize then headOfFreeChunkList_inSegment_put sz sg NonPointer m else None)"

definition toFreeChunkList_add :: "int \<Rightarrow> int \<Rightarrow> omem \<Rightarrow> omem option" where
  "toFreeChunkList_add sz p m =
     do {
       sg \<leftarrow> segmentBitsOf p m;
       h \<leftarrow> headOfFreeChunkList_inSegment sz sg m;
       m \<leftarrow> classBitsOf_put p h m;
       headOfFreeChunkList_inSegment_put sz sg p m
     }"

definition removeFromFreeChunkList :: "int \<Rightarrow> omem \<Rightarrow> (int \<times> omem) option" where
  "removeFromFreeChunkList sz m =
     (if currentSegment m \<ge> FirstHeapSegment \<and> currentSegment m \<le> LastHeapSegment then do {
        p \<leftarrow> headOfFreeChunkList_inSegment sz (currentSegment m) m;
        if p = NonPointer then Some (NilPointer, m)
        else do {
          secondChunk \<leftarrow> classBitsOf p m;
          m \<leftarrow> headOfFreeChunkList_inSegment_put sz (currentSegment m) secondChunk m;
          Some (p, m)
        }
      } else None)"

definition deallocate :: "int \<Rightarrow> omem \<Rightarrow> omem option" where
  "deallocate p m =
     do {
       space \<leftarrow> spaceOccupiedBy p m;
       m \<leftarrow> sizeBitsOf_put p space m;
       toFreeChunkList_add (min space BigSize) p m
     }"

section \<open>Compaction\<close>

text \<open>One free-chunk list: the low water mark so far and the list to abandon.\<close>

partial_function (option) abandon_list :: "int \<Rightarrow> int \<Rightarrow> omem \<Rightarrow> (int \<times> omem) option" where
  "abandon_list p lwm m =
     (if p = NonPointer then Some (lwm, m)
      else do {
        l \<leftarrow> locationBitsOf p m;
        nextPointer \<leftarrow> classBitsOf p m;
        m \<leftarrow> classBitsOf_put p NonPointer m;
        m \<leftarrow> releasePointer p m;
        abandon_list nextPointer (min lwm l) m
      })"

partial_function (option) abandon_sizes :: "int \<Rightarrow> int \<Rightarrow> int \<Rightarrow> omem \<Rightarrow> (int \<times> omem) option" where
  "abandon_sizes sz sg lwm m =
     (if sz \<le> BigSize then do {
        p \<leftarrow> headOfFreeChunkList_inSegment sz sg m;
        (lwm, m) \<leftarrow> abandon_list p lwm m;
        m \<leftarrow> resetFreeChunkList_inSegment sz sg m;
        abandon_sizes (sz + 1) sg lwm m
      } else Some (lwm, m))"

definition abandonFreeChunksInSegment :: "int \<Rightarrow> omem \<Rightarrow> (int \<times> omem) option" where
  "abandonFreeChunksInSegment sg m = abandon_sizes HeaderSize sg HeapSpaceStop m"

definition reverse_pointer :: "int \<Rightarrow> int \<Rightarrow> omem \<Rightarrow> omem option" where
  "reverse_pointer lwm p m =
     do {
       f \<leftarrow> freeBitOf p m;
       if f = 0 then do {
         s \<leftarrow> segmentBitsOf p m;
         if s = currentSegment m then do {
           l \<leftarrow> locationBitsOf p m;
           if l \<ge> lwm then do {
             sz \<leftarrow> sizeBitsOf p m;
             m \<leftarrow> sizeBitsOf_put p p m;
             locationBitsOf_put p sz m
           } else Some m
         } else Some m
       } else Some m
     }"

partial_function (option) reverse_loop :: "int \<Rightarrow> int \<Rightarrow> omem \<Rightarrow> omem option" where
  "reverse_loop p lwm m =
     (if p \<le> ObjectTableSize - 2 then do { m \<leftarrow> reverse_pointer lwm p m; reverse_loop (p + 2) lwm m } else Some m)"

definition reverseHeapPointersAbove :: "int \<Rightarrow> omem \<Rightarrow> omem option" where
  "reverseHeapPointersAbove lwm m = reverse_loop 0 lwm m"

text \<open>The rest of an object is moved word by word.\<close>

partial_function (option) move_words :: "int \<Rightarrow> int \<Rightarrow> int \<Rightarrow> int \<Rightarrow> omem \<Rightarrow> (int \<times> int \<times> omem) option" where
  "move_words i limit si di m =
     (if i \<le> limit then do {
        x \<leftarrow> segment_word (currentSegment m) si m;
        m \<leftarrow> segment_word_put (currentSegment m) di x m;
        move_words (i + 1) limit (si + 1) (di + 1) m
      } else Some (si, di, m))"

partial_function (option) sweep_loop :: "int \<Rightarrow> int \<Rightarrow> omem \<Rightarrow> (int \<times> omem) option" where
  "sweep_loop si di m =
     (if si < HeapSpaceStop then do {
        c \<leftarrow> segment_word (currentSegment m) (si + 1) m;
        if c = NonPointer then do {
          sz \<leftarrow> segment_word (currentSegment m) si m;
          sweep_loop (si + sz) di m
        } else do {
          p \<leftarrow> segment_word (currentSegment m) si m;
          sz \<leftarrow> locationBitsOf p m;
          m \<leftarrow> locationBitsOf_put p di m;
          m \<leftarrow> sizeBitsOf_put p sz m;
          limit \<leftarrow> spaceOccupiedBy p m;
          (si, di, m) \<leftarrow> move_words 2 limit (si + 1) (di + 1) m;
          sweep_loop si di m
        }
      } else Some (di, m))"

definition sweepCurrentSegmentFrom :: "int \<Rightarrow> omem \<Rightarrow> (int \<times> omem) option" where
  "sweepCurrentSegmentFrom lwm m = sweep_loop lwm lwm m"

definition compactCurrentSegment :: "omem \<Rightarrow> omem option" where
  "compactCurrentSegment m =
     (if currentSegment m \<ge> FirstHeapSegment \<and> currentSegment m \<le> LastHeapSegment then do {
        (lwm, m) \<leftarrow> abandonFreeChunksInSegment (currentSegment m) m;
        if lwm < HeapSpaceStop then do {
          m \<leftarrow> reverseHeapPointersAbove lwm m;
          (bigSpace, m) \<leftarrow> sweepCurrentSegmentFrom lwm m;
          (p, m) \<leftarrow> obtainPointer_location (HeapSpaceStop + 1 - bigSpace) bigSpace m;
          deallocate p m
        } else Some m
      } else None)"

section \<open>The search for a chunk\<close>

partial_function (option) search_big :: "int \<Rightarrow> int \<Rightarrow> int \<Rightarrow> omem \<Rightarrow> (int \<times> omem) option" where
  "search_big sz predecessor p m =
     (if p = NonPointer then Some (NilPointer, m)
      else do {
        availableSize \<leftarrow> sizeBitsOf p m;
        if availableSize = sz then do {
          next \<leftarrow> classBitsOf p m;
          m \<leftarrow> (if predecessor = NonPointer
               then headOfFreeChunkList_inSegment_put BigSize (currentSegment m) next m
               else classBitsOf_put predecessor next m);
          Some (p, m)
        } else
          let excessSize = availableSize - sz
          in if excessSize \<ge> HeaderSize then do {
               l \<leftarrow> locationBitsOf p m;
               (newPointer, m) \<leftarrow> obtainPointer_location sz (l + excessSize) m;
               if newPointer = NilPointer then Some (NilPointer, m)
               else do { m \<leftarrow> sizeBitsOf_put p excessSize m; Some (newPointer, m) }
             } else do { next \<leftarrow> classBitsOf p m; search_big sz p next m }
      })"

definition attemptToAllocateChunkInCurrentSegment :: "int \<Rightarrow> omem \<Rightarrow> (int \<times> omem) option" where
  "attemptToAllocateChunkInCurrentSegment sz m =
     (if currentSegment m \<ge> FirstHeapSegment \<and> currentSegment m \<le> LastHeapSegment then do {
        (p, m) \<leftarrow> (if sz < BigSize then removeFromFreeChunkList sz m else Some (NilPointer, m));
        if p \<noteq> NilPointer then Some (p, m)
        else do {
          h \<leftarrow> headOfFreeChunkList_inSegment BigSize (currentSegment m) m;
          search_big sz NonPointer h m
        }
      } else None)"

partial_function (option) try_segments :: "int \<Rightarrow> int \<Rightarrow> omem \<Rightarrow> (int \<times> omem) option" where
  "try_segments i sz m =
     (if i \<le> HeapSegmentCount then do {
        let m = m\<lparr>currentSegment := currentSegment m + 1\<rparr>;
        let m = (if currentSegment m > LastHeapSegment then m\<lparr>currentSegment := FirstHeapSegment\<rparr> else m);
        m \<leftarrow> compactCurrentSegment m;
        (p, m) \<leftarrow> attemptToAllocateChunkInCurrentSegment sz m;
        if p \<noteq> NilPointer then Some (p, m) else try_segments (i + 1) sz m
      } else Some (NilPointer, m))"

definition attemptToAllocateChunk :: "int \<Rightarrow> omem \<Rightarrow> (int \<times> omem) option" where
  "attemptToAllocateChunk sz m =
     (if currentSegment m \<ge> FirstHeapSegment \<and> currentSegment m \<le> LastHeapSegment then do {
        (p, m) \<leftarrow> attemptToAllocateChunkInCurrentSegment sz m;
        if p \<noteq> NilPointer then Some (p, m) else try_segments 1 sz m
      } else None)"

end
