(* ===== verification/OmCollect.thy ===== *)
theory OmCollect
  imports OmSpace
begin

text \<open>
  Reference counting and garbage collection (\<^verbatim>\<open>smalltalk/src/objmemory.cpp\<close>): the traversal by
  pointer reversal that both share, counting up and down, mark and sweep, and the allocation of
  objects.  The client that holds roots is told before and after a collection.
\<close>

section \<open>The traversal\<close>

type_synonym predicate = "int \<Rightarrow> omem \<Rightarrow> (bool \<times> omem) option"
type_synonym action = "int \<Rightarrow> omem \<Rightarrow> omem option"

partial_function (option) visit_loop ::
    "predicate \<Rightarrow> action \<Rightarrow> int \<Rightarrow> int \<Rightarrow> int \<Rightarrow> int \<Rightarrow> omem \<Rightarrow> omem option" where
  "visit_loop predi act prior current offset sz m =
     (let offset = offset - 1
      in if offset > 0 then do {
           next \<leftarrow> heapChunkOf_word current offset m;
           (go, m) \<leftarrow> (if isIntegerObject next then Some (False, m) else predi next m);
           if go then do {
             m \<leftarrow> heapChunkOf_word_put current offset prior m;
             m \<leftarrow> (if sz < HugeSize then countBitsOf_put current offset m
                  else heapChunkOf_word_put current sz offset m);
             n \<leftarrow> lastPointerOf next m;
             visit_loop predi act current next n n m
           } else visit_loop predi act prior current offset sz m
         } else do {
           m \<leftarrow> act current m;
           if prior = NonPointer then Some m
           else do {
             n \<leftarrow> lastPointerOf prior m;
             off \<leftarrow> (if n < HugeSize then countBitsOf prior m else heapChunkOf_word prior n m);
             pr \<leftarrow> heapChunkOf_word prior off m;
             m \<leftarrow> heapChunkOf_word_put prior off current m;
             visit_loop predi act pr prior off n m
           }
         })"

definition forAllOtherObjectsAccessibleFrom_suchThat_do ::
    "int \<Rightarrow> predicate \<Rightarrow> action \<Rightarrow> omem \<Rightarrow> (int \<times> omem) option" where
  "forAllOtherObjectsAccessibleFrom_suchThat_do p predi act m =
     do { n \<leftarrow> lastPointerOf p m; m \<leftarrow> visit_loop predi act NonPointer p n n m; Some (p, m) }"

definition forAllObjectsAccessibleFrom_suchThat_do ::
    "int \<Rightarrow> predicate \<Rightarrow> action \<Rightarrow> omem \<Rightarrow> (int \<times> omem) option" where
  "forAllObjectsAccessibleFrom_suchThat_do p predi act m =
     do {
       (go, m) \<leftarrow> predi p m;
       if go then forAllOtherObjectsAccessibleFrom_suchThat_do p predi act m else Some (NilPointer, m)
     }"

section \<open>Reference counts\<close>

definition countUp :: "int \<Rightarrow> omem \<Rightarrow> omem option" where
  "countUp p m =
     (if isIntegerObject p then Some m
      else do { c \<leftarrow> countBitsOf p m; let count = c + 1; if count < 129 then countBitsOf_put p count m else Some m })"

definition down_predicate :: predicate where
  "down_predicate p m =
     do {
       c \<leftarrow> countBitsOf p m;
       let count = c - 1;
       if count \<ge> 0 then do {
         m \<leftarrow> (if count < 127 then countBitsOf_put p count m else Some m);
         Some (count = 0, m)
       } else None
     }"

definition down_action :: action where
  "down_action p m =
     do {
       m \<leftarrow> countBitsOf_put p 0 m;
       space \<leftarrow> spaceOccupiedBy p m;
       let m = m\<lparr>freeWords := freeWords m + space\<rparr>;
       let m = m\<lparr>freeOops := freeOops m + 1\<rparr>;
       deallocate p m
     }"

definition countDown :: "int \<Rightarrow> omem \<Rightarrow> (int \<times> omem) option" where
  "countDown p m =
     (if isIntegerObject p then Some (p, m)
      else do {
        c \<leftarrow> countBitsOf p m;
        if c > 0 then forAllObjectsAccessibleFrom_suchThat_do p down_predicate down_action m else None
      })"

definition increaseReferencesTo :: "int \<Rightarrow> omem \<Rightarrow> omem option" where
  "increaseReferencesTo p m = countUp p m"

definition decreaseReferencesTo :: "int \<Rightarrow> omem \<Rightarrow> omem option" where
  "decreaseReferencesTo p m = do { (r, m) \<leftarrow> countDown p m; Some m }"

definition storePointer_ofObject_withValue :: "int \<Rightarrow> int \<Rightarrow> int \<Rightarrow> omem \<Rightarrow> omem option" where
  "storePointer_ofObject_withValue fieldIndex p v m =
     do {
       n \<leftarrow> fetchWordLengthOf p m;
       if fieldIndex \<ge> 0 \<and> fieldIndex < n \<and> v > 0 then do {
         let chunkIndex = HeaderSize + fieldIndex;
         m \<leftarrow> countUp v m;
         old \<leftarrow> heapChunkOf_word p chunkIndex m;
         (r, m) \<leftarrow> countDown old m;
         heapChunkOf_word_put p chunkIndex v m
       } else None
     }"

section \<open>Mark and sweep\<close>

definition mark_predicate :: predicate where
  "mark_predicate p m =
     do {
       c \<leftarrow> countBitsOf p m;
       m \<leftarrow> (if c = 0 then countBitsOf_put p 1 m else Some m);
       Some (c = 0, m)
     }"

definition mark_action :: action where
  "mark_action p m = countBitsOf_put p 1 m"

definition markObjectsAccessibleFrom :: "int \<Rightarrow> omem \<Rightarrow> (int \<times> omem) option" where
  "markObjectsAccessibleFrom p m = forAllObjectsAccessibleFrom_suchThat_do p mark_predicate mark_action m"

definition addRoot :: "int \<Rightarrow> omem \<Rightarrow> omem option" where
  "addRoot p m = do { (r, m) \<leftarrow> markObjectsAccessibleFrom p m; Some m }"

text \<open>The client of the collector, if there is one: what it does before and after a collection, to the memory and to its
own state.\<close>

record 'c gc_client =
  prepareForCollection :: "omem \<times> 'c \<Rightarrow> (omem \<times> 'c) option"
  collectionCompleted :: "omem \<times> 'c \<Rightarrow> (omem \<times> 'c) option"

partial_function (option) mark_roots :: "int \<Rightarrow> omem \<Rightarrow> omem option" where
  "mark_roots i m = (if i \<le> LastSpecialOop then do { m \<leftarrow> addRoot i m; mark_roots (i + 2) m } else Some m)"

fun markAccessibleObjects :: "'c gc_client option \<Rightarrow> omem \<times> 'c \<Rightarrow> (omem \<times> 'c) option" where
  "markAccessibleObjects gcn (m, c) =
     do { m \<leftarrow> mark_roots 0 m; case gcn of None \<Rightarrow> Some (m, c) | Some g \<Rightarrow> prepareForCollection g (m, c) }"

partial_function (option) zero_loop :: "int \<Rightarrow> omem \<Rightarrow> omem option" where
  "zero_loop p m =
     (if p \<le> ObjectTableSize - 2 then do { m \<leftarrow> countBitsOf_put p 0 m; zero_loop (p + 2) m } else Some m)"

definition zeroReferenceCounts :: "omem \<Rightarrow> omem option" where
  "zeroReferenceCounts m = zero_loop 0 m"

partial_function (option) reset_sizes :: "int \<Rightarrow> int \<Rightarrow> omem \<Rightarrow> omem option" where
  "reset_sizes sz sg m =
     (if sz \<le> BigSize then do { m \<leftarrow> resetFreeChunkList_inSegment sz sg m; reset_sizes (sz + 1) sg m }
      else Some m)"

partial_function (option) reset_lists :: "int \<Rightarrow> omem \<Rightarrow> omem option" where
  "reset_lists sg m =
     (if sg \<le> LastHeapSegment then do { m \<leftarrow> reset_sizes HeaderSize sg m; reset_lists (sg + 1) m } else Some m)"

partial_function (option) count_fields :: "int \<Rightarrow> int \<Rightarrow> int \<Rightarrow> omem \<Rightarrow> omem option" where
  "count_fields p offset limit m =
     (if offset \<le> limit then do {
        x \<leftarrow> heapChunkOf_word p offset m;
        m \<leftarrow> countUp x m;
        count_fields p (offset + 1) limit m
      } else Some m)"

definition rectify :: "int \<Rightarrow> omem \<Rightarrow> omem option" where
  "rectify p m =
     do {
       f \<leftarrow> freeBitOf p m;
       if f = 0 then do {
         count \<leftarrow> countBitsOf p m;
         if count = 0 then do {
           space \<leftarrow> spaceOccupiedBy p m;
           deallocate p (m\<lparr>freeWords := freeWords m + space\<rparr>)
         } else do {
           m \<leftarrow> (if count < 128 then countBitsOf_put p (count - 1) m else Some m);
           n \<leftarrow> lastPointerOf p m;
           count_fields p 1 (n - 1) m
         }
       } else Some m
     }"

partial_function (option) rectify_loop :: "int \<Rightarrow> omem \<Rightarrow> omem option" where
  "rectify_loop p m =
     (if p \<le> ObjectTableSize - 2 then do { m \<leftarrow> rectify p m; rectify_loop (p + 2) m } else Some m)"

fun rectifyCountsAndDeallocateGarbage :: "'c gc_client option \<Rightarrow> omem \<times> 'c \<Rightarrow> (omem \<times> 'c) option" where
  "rectifyCountsAndDeallocateGarbage gcn (m, c) =
     do {
       m \<leftarrow> reset_lists FirstHeapSegment m;
       m \<leftarrow> rectify_loop 0 m;
       m \<leftarrow> countBitsOf_put NilPointer 128 m;
       n \<leftarrow> auditFreeOops m;
       let m = m\<lparr>freeOops := n\<rparr>;
       case gcn of None \<Rightarrow> Some (m, c) | Some g \<Rightarrow> collectionCompleted g (m, c)
     }"

fun reclaimInaccessibleObjects :: "'c gc_client option \<Rightarrow> omem \<times> 'c \<Rightarrow> (omem \<times> 'c) option" where
  "reclaimInaccessibleObjects gcn (m, c) =
     do {
       m \<leftarrow> zeroReferenceCounts m;
       mc \<leftarrow> markAccessibleObjects gcn (m, c);
       rectifyCountsAndDeallocateGarbage gcn mc
     }"

definition garbageCollect :: "'c gc_client option \<Rightarrow> omem \<times> 'c \<Rightarrow> (omem \<times> 'c) option" where
  "garbageCollect gcn mc = reclaimInaccessibleObjects gcn mc"

section \<open>Allocation\<close>

text \<open>Running out of memory is reported to the machine, which aborts.\<close>

fun allocateChunk :: "'c gc_client option \<Rightarrow> int \<Rightarrow> omem \<times> 'c \<Rightarrow> (int \<times> omem \<times> 'c) option" where
  "allocateChunk gcn sz (m, c) =
     do {
       (p, m) \<leftarrow> attemptToAllocateChunk sz m;
       (p, m, c) \<leftarrow> (if p = NilPointer then do {
                      (m, c) \<leftarrow> reclaimInaccessibleObjects gcn (m, c);
                      (p, m) \<leftarrow> attemptToAllocateChunk sz m;
                      Some (p, m, c)
                    } else Some (p, m, c));
       if p \<noteq> NilPointer then Some (p, if freeWords m \<ge> sz then m\<lparr>freeWords := freeWords m - sz\<rparr> else m, c) else None
     }"

partial_function (option) fill_fields :: "int \<Rightarrow> int \<Rightarrow> int \<Rightarrow> int \<Rightarrow> omem \<Rightarrow> omem option" where
  "fill_fields p i limit v m =
     (if i \<le> limit then do { m \<leftarrow> heapChunkOf_word_put p i v m; fill_fields p (i + 1) limit v m } else Some m)"

fun allocate_odd_pointer_extra_class ::
    "'c gc_client option \<Rightarrow> int \<Rightarrow> int \<Rightarrow> int \<Rightarrow> int \<Rightarrow> int \<Rightarrow> omem \<times> 'c \<Rightarrow> (int \<times> omem \<times> 'c) option" where
  "allocate_odd_pointer_extra_class gcn sz oddBit pointerBit extraWord classPointer (m, c) =
     do {
       m \<leftarrow> countUp classPointer m;
       (p, m, c) \<leftarrow> allocateChunk gcn (sz + extraWord) (m, c);
       m \<leftarrow> oddBitOf_put p oddBit m;
       m \<leftarrow> pointerBitOf_put p pointerBit m;
       m \<leftarrow> classBitsOf_put p classPointer m;
       let defaultValue = (if pointerBit = 0 then 0 else NilPointer);
       m \<leftarrow> fill_fields p HeaderSize (sz - 1) defaultValue m;
       m \<leftarrow> sizeBitsOf_put p sz m;
       Some (p, m\<lparr>freeOops := freeOops m - 1\<rparr>, c)
     }"

declare markAccessibleObjects.simps [simp del] rectifyCountsAndDeallocateGarbage.simps [simp del]
  reclaimInaccessibleObjects.simps [simp del] allocateChunk.simps [simp del] allocate_odd_pointer_extra_class.simps [simp del]

definition instantiateClass_withPointers :: "'c gc_client option \<Rightarrow> int \<Rightarrow> int \<Rightarrow> omem \<times> 'c \<Rightarrow> (int \<times> omem \<times> 'c) option" where
  "instantiateClass_withPointers gcn classPointer len mc =
     (let sz = HeaderSize + len; extra = (if sz < HugeSize then 0 else 1)
      in allocate_odd_pointer_extra_class gcn sz 0 1 extra classPointer mc)"

definition instantiateClass_withWords :: "'c gc_client option \<Rightarrow> int \<Rightarrow> int \<Rightarrow> omem \<times> 'c \<Rightarrow> (int \<times> omem \<times> 'c) option" where
  "instantiateClass_withWords gcn classPointer len mc =
     (let sz = HeaderSize + len in allocate_odd_pointer_extra_class gcn sz 0 0 0 classPointer mc)"

definition instantiateClass_withBytes :: "'c gc_client option \<Rightarrow> int \<Rightarrow> int \<Rightarrow> omem \<times> 'c \<Rightarrow> (int \<times> omem \<times> 'c) option" where
  "instantiateClass_withBytes gcn classPointer len mc =
     (let sz = HeaderSize + (len + 1) sdiv 2
      in allocate_odd_pointer_extra_class gcn sz (len smod 2) 0 0 classPointer mc)"

end
