(* ===== verification/OmGraph.thy ===== *)
theory OmGraph
  imports OmCollect
begin

text \<open>
  The object memory as a graph: reachability through the unmarked objects of a graph, the live objects of
  a memory with their pointers, and the well-formedness that marking relies on.
\<close>

section \<open>Reachability through a set\<close>

text \<open>The nodes of \<open>W\<close> reachable from \<open>S\<close> along edges, without leaving \<open>W\<close>.\<close>

inductive_set wreach :: "('a \<Rightarrow> 'a set) \<Rightarrow> 'a set \<Rightarrow> 'a set \<Rightarrow> 'a set" for E W S where
  wstart: "x \<in> S \<Longrightarrow> x \<in> W \<Longrightarrow> x \<in> wreach E W S"
| wstep: "x \<in> wreach E W S \<Longrightarrow> y \<in> E x \<Longrightarrow> y \<in> W \<Longrightarrow> y \<in> wreach E W S"

lemma wreach_sub: "wreach E W S \<subseteq> W"
  by (auto elim: wreach.cases)

lemma wreach_mono: "x \<in> wreach E W S \<Longrightarrow> W \<subseteq> W' \<Longrightarrow> S \<subseteq> S' \<Longrightarrow> x \<in> wreach E W' S'"
  by (induction rule: wreach.induct) (auto intro: wreach.intros)

lemma wreach_cong:
  assumes "\<And>x. x \<in> W \<Longrightarrow> E x = E' x"
  shows "wreach E W S = wreach E' W S"
proof -
  have "x \<in> wreach A W S \<Longrightarrow> x \<in> wreach B W S" if "\<And>x. x \<in> W \<Longrightarrow> A x = B x" for x A B
    by (induction rule: wreach.induct) (use that subsetD [OF wreach_sub [of A W S]] in \<open>auto intro: wreach.intros\<close>)
  from this [of E E'] this [of E' E] show ?thesis using assms by auto
qed

lemma wreach_empty [simp]: "wreach E W {} = {}"
proof -
  have "x \<in> wreach E W {} \<Longrightarrow> False" for x by (induction rule: wreach.induct) auto
  then show ?thesis by auto
qed

lemma wreach_single:
  assumes "x \<in> W"
  shows "wreach E W {x} = insert x (wreach E (W - {x}) (E x))"
proof (intro equalityI subsetI)
  fix y assume "y \<in> wreach E W {x}"
  then show "y \<in> insert x (wreach E (W - {x}) (E x))" by (induction rule: wreach.induct) (auto intro: wreach.intros)
next
  fix y assume "y \<in> insert x (wreach E (W - {x}) (E x))"
  moreover have "y \<in> wreach E (W - {x}) (E x) \<Longrightarrow> y \<in> wreach E W {x}"
    by (induction rule: wreach.induct) (use assms in \<open>auto intro: wreach.intros\<close>)
  ultimately show "y \<in> wreach E W {x}" using assms by (auto intro: wreach.intros)
qed

lemma wreach_skip: "x \<notin> W \<Longrightarrow> wreach E W (insert x S) = wreach E W S"
proof (intro equalityI subsetI)
  fix y assume "x \<notin> W" "y \<in> wreach E W (insert x S)"
  then show "y \<in> wreach E W S" by (induction rule: wreach.induct[consumes 1, OF \<open>y \<in> wreach E W (insert x S)\<close>]) (auto intro: wreach.intros)
qed (auto intro: wreach_mono)

lemma wreach_insert: "wreach E W (insert x S) = wreach E W {x} \<union> wreach E (W - wreach E W {x}) S"
proof (intro equalityI subsetI)
  fix y assume "y \<in> wreach E W (insert x S)"
  then show "y \<in> wreach E W {x} \<union> wreach E (W - wreach E W {x}) S"
    by (induction rule: wreach.induct) (auto intro: wreach.intros)
next
  fix y assume "y \<in> wreach E W {x} \<union> wreach E (W - wreach E W {x}) S"
  then show "y \<in> wreach E W (insert x S)" by (auto intro: wreach_mono)
qed

text \<open>Edges into a root do not matter.\<close>

lemma wreach_into_root:
  assumes "\<And>x. x \<in> W \<Longrightarrow> E' x \<subseteq> E x" "\<And>x. x \<in> W \<Longrightarrow> E x \<subseteq> insert c (E' x)"
  shows "wreach E' W {c} = wreach E W {c}"
proof -
  have "x \<in> wreach E' W {c} \<Longrightarrow> x \<in> wreach E W {c}" for x
  proof (induction rule: wreach.induct)
    case (wstep x y)
    then have "y \<in> E x" using assms(1) [of x] subsetD [OF wreach_sub wstep.IH] by auto
    then show ?case using wstep by (auto intro: wreach.wstep)
  qed (rule wstart)
  moreover have "x \<in> wreach E W {c} \<Longrightarrow> x \<in> wreach E' W {c}" for x
  proof (induction rule: wreach.induct)
    case (wstep x y)
    then have "y = c \<or> y \<in> E' x" using assms(2) [of x] subsetD [OF wreach_sub wstep.IH] by auto
    then show ?case using wstep by (auto intro: wreach.intros)
  qed (rule wstart)
  ultimately show ?thesis by auto
qed

text \<open>When the nodes outside \<open>W\<close> are closed, going through \<open>W\<close> loses nothing.\<close>

lemma wreach_closed:
  assumes "\<And>x y. x \<in> A - W \<Longrightarrow> y \<in> E x \<Longrightarrow> y \<in> A \<Longrightarrow> y \<in> A - W" "W \<subseteq> A"
  shows "wreach E A S \<inter> W = wreach E W S"
proof -
  have "x \<in> wreach E A S \<Longrightarrow> x \<in> W \<Longrightarrow> x \<in> wreach E W S" for x
    by (induction rule: wreach.induct) (use assms(1) wreach_sub [of E A S] in \<open>auto intro: wreach.intros\<close>)
  moreover have "x \<in> wreach E W S \<Longrightarrow> x \<in> wreach E A S" for x using assms(2) by (auto intro: wreach_mono)
  ultimately show "wreach E A S \<inter> W = wreach E W S" using wreach_sub [of E W S] by auto
qed

section \<open>Objects\<close>

definition live :: "omem \<Rightarrow> int \<Rightarrow> bool" where
  "live m p \<longleftrightarrow> oop_ok p \<and> free_of m p = 0"

text \<open>The number of words up to the last pointer; the space of the chunk.\<close>

definition last_ptr :: "omem \<Rightarrow> int \<Rightarrow> int" where
  "last_ptr m p =
     (if ptr_of m p = 0
      then if hw m p 1 = ClassCompiledMethod then HeaderSize + 1 + drop_bit 1 (hw m p 2 AND 126) else HeaderSize
      else hw m p 0)"

definition chunk_len :: "omem \<Rightarrow> int \<Rightarrow> int" where
  "chunk_len m p = (if hw m p 0 \<ge> HugeSize \<and> ptr_of m p \<noteq> 0 then hw m p 0 + 1 else hw m p 0)"

definition apart :: "omem \<Rightarrow> int \<Rightarrow> int \<Rightarrow> bool" where
  "apart m p q \<longleftrightarrow> seg_of m p \<noteq> seg_of m q \<or> loc_of m p + chunk_len m p \<le> loc_of m q \<or>
     loc_of m q + chunk_len m q \<le> loc_of m p"

definition succs :: "omem \<Rightarrow> int \<Rightarrow> int set" where
  "succs m p = {hw m p i |i. 1 \<le> i \<and> i < last_ptr m p \<and> \<not> isIntegerObject (hw m p i)}"

text \<open>A live object: its chunk lies below the free-list heads of a heap segment, the header of a compiled
method is a small integer, and every pointer of it is a small integer or an object of \<open>L\<close>.\<close>

definition object_ok :: "omem \<Rightarrow> int set \<Rightarrow> int \<Rightarrow> bool" where
  "object_ok m L p \<longleftrightarrow> live m p \<and> seg_of m p \<noteq> 15 \<and> HeaderSize \<le> hw m p 0 \<and>
     loc_of m p + chunk_len m p \<le> FirstFreeChunkList \<and> last_ptr m p \<le> hw m p 0 \<and>
     (ptr_of m p = 0 \<and> hw m p 1 = ClassCompiledMethod \<longrightarrow> isIntegerObject (hw m p 2)) \<and> succs m p \<subseteq> L"

definition graph_ok :: "omem \<Rightarrow> int set \<Rightarrow> bool" where
  "graph_ok m L \<longleftrightarrow> (\<forall>p\<in>L. object_ok m L p) \<and> (\<forall>p\<in>L. \<forall>q\<in>L. p \<noteq> q \<longrightarrow> apart m p q)"

lemma oop_finite: "finite {p. oop_ok p}"
  by (rule finite_subset [of _ "{0..<65534}"]) (auto simp: oop_ok_def)

lemma last_ptr_bounds:
  "2 \<le> hw m p 0 \<Longrightarrow> 2 \<le> last_ptr m p" "last_ptr m p < 65536" "ptr_of m p = 0 \<Longrightarrow> last_ptr m p < 256"
  "ptr_of m p = 0 \<Longrightarrow> hw m p 1 = 34 \<Longrightarrow> 3 \<le> last_ptr m p"
proof -
  have "drop_bit 1 (x AND 126) \<ge> 0 \<and> drop_bit 1 (x AND 126) \<le> (63 :: int)" if "0 \<le> x" for x :: int
    using AND_upper2 [of 126 x] that by (simp add: drop_bit_eq_div div_le_mono zdiv_mono1 [of _ 126 2, simplified])
  from this [OF hw_bounds(1) [of m p 2]] show "2 \<le> hw m p 0 \<Longrightarrow> 2 \<le> last_ptr m p" "last_ptr m p < 65536"
    "ptr_of m p = 0 \<Longrightarrow> last_ptr m p < 256" "ptr_of m p = 0 \<Longrightarrow> hw m p 1 = 34 \<Longrightarrow> 3 \<le> last_ptr m p"
    using hw_bounds [of m p 0] by (auto simp: last_ptr_def)
qed

lemma chunk_len_bounds: "hw m p 0 \<le> chunk_len m p" "hw m p 0 < chunk_len m p \<longleftrightarrow> 256 \<le> hw m p 0 \<and> ptr_of m p \<noteq> 0"
  by (auto simp: chunk_len_def)

lemma lastPointerOf_view:
  assumes "oop_ok p" "in_chunk m p 0" "in_chunk m p 1" "in_chunk m p 2"
  shows "lastPointerOf p m = Some (last_ptr m p)"
  using assms by (simp add: lastPointerOf_def last_ptr_def classBitsOf_def sizeBitsOf_def)

lemma spaceOccupiedBy_view:
  assumes "in_chunk m p 0"
  shows "spaceOccupiedBy p m = Some (chunk_len m p)"
  using assms by (auto simp: spaceOccupiedBy_def chunk_len_def sizeBitsOf_def in_chunk_def)

lemma object_okD:
  assumes "graph_ok m L" "p \<in> L"
  shows "oop_ok p" "free_of m p = 0" "seg_of m p \<noteq> 15" "2 \<le> hw m p 0"
    "loc_of m p + chunk_len m p \<le> 65515" "last_ptr m p \<le> hw m p 0" "succs m p \<subseteq> L"
    "ptr_of m p = 0 \<Longrightarrow> hw m p 1 = 34 \<Longrightarrow> isIntegerObject (hw m p 2)"
  using assms by (auto simp: graph_ok_def object_ok_def live_def)

lemma object_in_chunk:
  assumes "graph_ok m L" "p \<in> L"
  shows "0 \<le> i \<Longrightarrow> i < chunk_len m p \<Longrightarrow> in_chunk m p i" "in_chunk m p 0" "in_chunk m p 1" "in_chunk m p 2"
  using object_okD [OF assms] entry_bounds [of m p] chunk_len_bounds [of m p] by (auto simp: in_chunk_def)

end
