(* ===== verification/OmMark.thy ===== *)
theory OmMark
  imports OmGraph
begin

text \<open>
  Marking by pointer reversal.  While the traversal is under way the words of the objects between the root
  and the current object are reversed and their counts (or, for huge objects, their extra words)
  hold offsets; the lemmas here follow one visit and show that it restores what it changes.
\<close>

section \<open>Memories during a traversal\<close>

definition same_table :: "omem \<Rightarrow> omem \<Rightarrow> bool" where
  "same_table m m' \<longleftrightarrow> currentSegment m' = currentSegment m \<and> freeWords m' = freeWords m \<and> freeOops m' = freeOops m \<and>
     (\<forall>q. oop_ok q \<longrightarrow> seg_of m' q = seg_of m q \<and> loc_of m' q = loc_of m q \<and> ptr_of m' q = ptr_of m q \<and>
        odd_of m' q = odd_of m q \<and> free_of m' q = free_of m q)"

definition whites :: "int set \<Rightarrow> omem \<Rightarrow> int set" where
  "whites L m = {q \<in> L. count_of m q = 0}"

text \<open>The extra word of a huge pointer object of \<open>X\<close>.\<close>

definition extra_word :: "omem \<Rightarrow> int set \<Rightarrow> int \<Rightarrow> int \<Rightarrow> bool" where
  "extra_word m0 X s w \<longleftrightarrow>
     (\<exists>p\<in>X. HugeSize \<le> hw m0 p 0 \<and> ptr_of m0 p \<noteq> 0 \<and> s = seg_of m0 p \<and> w = loc_of m0 p + hw m0 p 0)"

text \<open>The memory still shows the sizes of all objects and the content of the unmarked ones.\<close>

definition agree :: "omem \<Rightarrow> int set \<Rightarrow> omem \<Rightarrow> bool" where
  "agree m0 L m \<longleftrightarrow> same_table m0 m \<and> (\<forall>q\<in>L. hw m q 0 = hw m0 q 0) \<and>
     (\<forall>q\<in>whites L m. \<forall>i. 0 \<le> i \<and> i < hw m0 q 0 \<longrightarrow> hw m q i = hw m0 q i)"

definition sz_ok :: "omem \<Rightarrow> int \<Rightarrow> int \<Rightarrow> bool" where
  "sz_ok m0 p n \<longleftrightarrow> (if last_ptr m0 p < HugeSize then n < HugeSize else n = hw m0 p 0)"

text \<open>The visit of the fields of \<open>p\<close> marked \<open>V\<close> and kept everything else.\<close>

definition visited :: "omem \<Rightarrow> omem \<Rightarrow> omem \<Rightarrow> int \<Rightarrow> int set \<Rightarrow> bool" where
  "visited m0 m m' p V \<longleftrightarrow> same_table m m' \<and> count_of m' p \<noteq> 0 \<and>
     (\<forall>s w. s \<noteq> 15 \<longrightarrow> \<not> extra_word m0 (insert p V) s w \<longrightarrow> cell m' s w = cell m s w) \<and>
     (\<forall>q. oop_ok q \<longrightarrow> q \<noteq> p \<longrightarrow> count_of m' q = (if q \<in> V then 1 else count_of m q))"

lemma whitesD: "q \<in> whites L m \<Longrightarrow> q \<in> L"
  by (simp add: whites_def)

lemma same_tableD:
  assumes "same_table m m'" "oop_ok q"
  shows "seg_of m' q = seg_of m q" "loc_of m' q = loc_of m q" "ptr_of m' q = ptr_of m q"
    "odd_of m' q = odd_of m q" "free_of m' q = free_of m q"
  using assms by (auto simp: same_table_def)

lemma same_table_trans: "same_table a b \<Longrightarrow> same_table b c \<Longrightarrow> same_table a c"
  by (auto simp: same_table_def)

lemma same_table_refl [simp]: "same_table a a"
  by (auto simp: same_table_def)

lemma same_table_puts:
  "oop_ok p \<Longrightarrow> same_table m (put_bits 8 8 p v m)" "seg_of m p \<noteq> 15 \<Longrightarrow> same_table m (put_hw p i v m)"
  by (auto simp: same_table_def)

lemma in_chunk_same: "same_table m m' \<Longrightarrow> in_chunk m p i \<Longrightarrow> in_chunk m' p i"
  by (auto simp: in_chunk_def same_table_def)

lemma hw_same:
  "same_table m m' \<Longrightarrow> oop_ok q \<Longrightarrow> cell m' (seg_of m q) (loc_of m q + i) = cell m (seg_of m q) (loc_of m q + i) \<Longrightarrow>
   hw m' q i = hw m q i"
  by (simp add: hw_def same_tableD)

lemma extra_word_mono: "X \<subseteq> Y \<Longrightarrow> extra_word m X s w \<Longrightarrow> extra_word m Y s w"
  by (auto simp: extra_word_def)

lemma not_extra_word:
  assumes "graph_ok m0 L" "q \<in> L" "X \<subseteq> L" "0 \<le> i" "i < hw m0 q 0 \<or> i < chunk_len m0 q \<and> q \<notin> X"
  shows "\<not> extra_word m0 X (seg_of m0 q) (loc_of m0 q + i)"
proof
  assume "extra_word m0 X (seg_of m0 q) (loc_of m0 q + i)"
  then obtain p where p: "p \<in> X" "256 \<le> hw m0 p 0" "ptr_of m0 p \<noteq> 0" "seg_of m0 q = seg_of m0 p"
    "loc_of m0 q + i = loc_of m0 p + hw m0 p 0"
    by (auto simp: extra_word_def)
  moreover have "apart m0 p q" if "p \<noteq> q" using assms p that by (auto simp: graph_ok_def)
  ultimately show False using assms(4,5) chunk_len_bounds [of m0 p] chunk_len_bounds [of m0 q]
    by (cases "p = q") (auto simp: apart_def)
qed

text \<open>A write into the chunk of \<open>p\<close> does not touch another chunk.\<close>

lemma not_same_word:
  assumes "graph_ok m0 L" "p \<in> L" "q \<in> L" "same_table m0 m" "0 \<le> i" "i < chunk_len m0 p" "0 \<le> j" "j < chunk_len m0 q"
    "p \<noteq> q \<or> i \<noteq> j"
  shows "\<not> same_word m p i q j"
proof -
  have "apart m0 p q" if "p \<noteq> q" using assms that by (auto simp: graph_ok_def)
  then show ?thesis using assms object_okD(1) [OF assms(1,2)] object_okD(1) [OF assms(1,3)]
    by (cases "p = q") (auto simp: same_word_def apart_def same_tableD [OF assms(4)])
qed

lemma agree_put:
  assumes "graph_ok m0 L" "p \<in> L" "agree m0 L m" "p \<notin> whites L m" "1 \<le> i" "i < chunk_len m0 p" "0 \<le> v" "v < 65536"
  shows "agree m0 L (put_hw p i v m)"
proof -
  have t: "same_table m0 m" using assms by (simp add: agree_def)
  have s: "seg_of m p \<noteq> 15" using object_okD [OF assms(1,2)] same_tableD [OF t] by simp
  have h: "hw (put_hw p i v m) q j = hw m q j" if "q \<in> L" "0 \<le> j" "j < hw m0 q 0" "p \<noteq> q \<or> i \<noteq> j" for q j
    using not_same_word [OF assms(1,2) that(1) t _ _ _ _ that(4)] that assms chunk_len_bounds(1) [of m0 q] s by (simp add: hw_put_hw)
  moreover have "whites L (put_hw p i v m) = whites L m" using s by (simp add: whites_def)
  moreover have "0 < hw m0 q 0" if "q \<in> L" for q using object_okD [OF assms(1) that] by simp
  moreover have "hw (put_hw p i v m) q j = hw m0 q j" if "q \<in> whites L m" "0 \<le> j" "j < hw m0 q 0" for q j
    using h [OF whitesD [OF that(1)] that(2,3)] that assms(3,4) by (auto simp: agree_def)
  ultimately show ?thesis using assms same_table_trans [OF t same_table_puts(2) [OF s]]
    by (auto simp: agree_def dest: whitesD)
qed

lemma agree_count:
  assumes "graph_ok m0 L" "p \<in> L" "agree m0 L m" "0 < v" "v < 256"
  shows "agree m0 L (put_bits 8 8 p v m)"
proof -
  have p: "oop_ok p" using object_okD [OF assms(1,2)] by simp
  have s: "hw (put_bits 8 8 p v m) q i = hw m q i" if "q \<in> L" for q i
    using object_okD [OF assms(1) that] p assms same_tableD [of m0 m q] by (simp add: hw_def agree_def)
  have "whites L (put_bits 8 8 p v m) \<subseteq> whites L m"
    using assms object_okD(1) [OF assms(1)] p by (auto simp: whites_def split: if_splits)
  then show ?thesis using assms same_table_trans [OF _ same_table_puts(1) [OF p]] s
    by (auto simp: agree_def whites_def)
qed

lemma agree_visited:
  assumes "graph_ok m0 L" "p \<in> L" "agree m0 L m" "visited m0 m m' p V" "V \<subseteq> L"
  shows "agree m0 L m'" "whites L m' = whites L m - V - {p}"
    "\<And>q i. q \<in> L \<Longrightarrow> 0 \<le> i \<Longrightarrow> i < hw m0 q 0 \<or> i < chunk_len m0 q \<and> q \<notin> insert p V \<Longrightarrow> hw m' q i = hw m q i"
proof -
  have t: "same_table m0 m" "same_table m m'" using assms by (simp_all add: agree_def visited_def)
  show h: "hw m' q i = hw m q i" if "q \<in> L" "0 \<le> i" "i < hw m0 q 0 \<or> i < chunk_len m0 q \<and> q \<notin> insert p V" for q i
  proof (rule hw_same [OF t(2)])
    show "oop_ok q" using object_okD [OF assms(1) that(1)] by simp
    then show "cell m' (seg_of m q) (loc_of m q + i) = cell m (seg_of m q) (loc_of m q + i)"
      using not_extra_word [OF assms(1) that(1) _ that(2,3)] assms object_okD [OF assms(1) that(1)] t(1)
      by (simp add: visited_def same_tableD)
  qed
  show w: "whites L m' = whites L m - V - {p}"
  proof (rule set_eqI)
    fix q
    have "q \<in> L \<Longrightarrow> q \<noteq> p \<Longrightarrow> count_of m' q = (if q \<in> V then 1 else count_of m q)" "count_of m' p \<noteq> 0"
      using assms(4) object_okD(1) [OF assms(1)] by (simp_all add: visited_def)
    then show "q \<in> whites L m' \<longleftrightarrow> q \<in> whites L m - V - {p}" by (cases "q = p") (auto simp: whites_def split: if_splits)
  qed
  have "0 < hw m0 q 0" if "q \<in> L" for q using object_okD [OF assms(1) that] by simp
  then show "agree m0 L m'" using assms(3) h w same_table_trans [OF t] by (auto simp: agree_def whites_def)
qed

lemma agree_lastPointer:
  assumes "graph_ok m0 L" "p \<in> L" "agree m0 L m"
  shows "\<exists>n. lastPointerOf p m = Some n \<and> sz_ok m0 p n"
    "(\<And>i. 0 \<le> i \<Longrightarrow> i < hw m0 p 0 \<Longrightarrow> hw m p i = hw m0 p i) \<Longrightarrow> lastPointerOf p m = Some (last_ptr m0 p)"
proof -
  have t: "same_table m0 m" and h: "hw m p 0 = hw m0 p 0" using assms by (auto simp: agree_def)
  note p = object_okD [OF assms(1,2)] and c = object_in_chunk(2-4) [OF assms(1,2), THEN in_chunk_same [OF t]]
  have l: "lastPointerOf p m = Some (last_ptr m p)" using lastPointerOf_view [OF p(1) c] .
  have "sz_ok m0 p (last_ptr m p)"
    using last_ptr_bounds [of m p] last_ptr_bounds [of m0 p] same_tableD(3) [OF t p(1)] h
    by (auto simp: sz_ok_def last_ptr_def split: if_splits)
  then show "\<exists>n. lastPointerOf p m = Some n \<and> sz_ok m0 p n" using l by simp
  show "lastPointerOf p m = Some (last_ptr m0 p)" if eq: "\<And>i. 0 \<le> i \<Longrightarrow> i < hw m0 p 0 \<Longrightarrow> hw m p i = hw m0 p i"
  proof -
    have "hw m p 2 = hw m0 p 2" if "ptr_of m0 p = 0" "hw m0 p 1 = 34"
      using last_ptr_bounds(4) [OF that] p by (intro eq) simp_all
    then have "last_ptr m p = last_ptr m0 p" using eq [of 0] eq [of 1] p same_tableD(3) [OF t p(1)]
      by (simp add: last_ptr_def)
    then show ?thesis using l by simp
  qed
qed

section \<open>The steps of the traversal\<close>

abbreviation (input) visit :: "int \<Rightarrow> int \<Rightarrow> int \<Rightarrow> int \<Rightarrow> omem \<Rightarrow> omem option" where
  "visit \<equiv> visit_loop mark_predicate mark_action"

definition save_offset :: "int \<Rightarrow> int \<Rightarrow> int \<Rightarrow> omem \<Rightarrow> omem" where
  "save_offset sz p off m = (if sz < HugeSize then put_bits 8 8 p off m else put_hw p sz off m)"

definition enter :: "int \<Rightarrow> int \<Rightarrow> int \<Rightarrow> int \<Rightarrow> int \<Rightarrow> omem \<Rightarrow> omem" where
  "enter sz p off prior x m = save_offset sz p off (put_hw p off prior (put_bits 8 8 x 1 m))"

definition leave :: "int \<Rightarrow> int \<Rightarrow> int \<Rightarrow> omem \<Rightarrow> omem" where
  "leave p off x m = put_hw p off x (put_bits 8 8 x 1 m)"

definition fields :: "omem \<Rightarrow> int \<Rightarrow> int \<Rightarrow> int set" where
  "fields m p k = {hw m p i |i. 1 \<le> i \<and> i < k \<and> \<not> isIntegerObject (hw m p i)}"

lemma fields_step:
  assumes "1 < k"
  shows "fields m p k = (if isIntegerObject (hw m p (k - 1)) then fields m p (k - 1)
     else insert (hw m p (k - 1)) (fields m p (k - 1)))"
proof -
  have "1 \<le> i \<and> i < k \<and> P \<longleftrightarrow> (i = k - 1 \<or> 1 \<le> i \<and> i < k - 1) \<and> P" for i P using assms by auto
  then have "fields m p k = {hw m p i |i. (i = k - 1 \<or> 1 \<le> i \<and> i < k - 1) \<and> \<not> isIntegerObject (hw m p i)}"
    by (simp only: fields_def)
  then show ?thesis by (auto simp: fields_def)
qed

lemma fields_simps [simp]: "fields m p 1 = {}" "fields m p (last_ptr m p) = succs m p"
  by (auto simp: fields_def succs_def)

lemma mark_predicate_view:
  "oop_ok p \<Longrightarrow> mark_predicate p m = Some (count_of m p = 0, if count_of m p = 0 then put_bits 8 8 p 1 m else m)"
  by (simp add: mark_predicate_def)

lemma visit_skip:
  assumes "1 < offset" "in_chunk m p (offset - 1)"
    "isIntegerObject (hw m p (offset - 1)) \<or> oop_ok (hw m p (offset - 1)) \<and> count_of m (hw m p (offset - 1)) \<noteq> 0"
  shows "visit prior p offset sz m = visit prior p (offset - 1) sz m"
  using assms by (subst visit_loop.simps) (auto simp: mark_predicate_view)

lemma visit_enter:
  assumes "1 < offset" "in_chunk m p (offset - 1)" "hw m p (offset - 1) = x" "oop_ok x" "count_of m x = 0" "seg_of m p \<noteq> 15"
    "sz < HugeSize \<Longrightarrow> offset \<le> HugeSize" "\<not> sz < HugeSize \<Longrightarrow> in_chunk m p sz" "offset < 65536" "0 \<le> prior" "prior < 65536"
  shows "visit prior p offset sz m =
    do { n \<leftarrow> lastPointerOf x (enter sz p (offset - 1) prior x m); visit p x n n (enter sz p (offset - 1) prior x m) }"
proof -
  have p: "oop_ok p" using assms(2) by (simp add: in_chunk_def)
  have t: "same_table m (put_bits 8 8 x 1 m)" "same_table m (put_hw p (offset - 1) prior (put_bits 8 8 x 1 m))"
    using p assms by (simp_all add: same_table_def)
  then show ?thesis using assms p in_chunk_same [OF t(1) assms(2)] in_chunk_same [OF t(2), of p sz]
    by (subst visit_loop.simps) (auto simp: mark_predicate_view enter_def save_offset_def Let_def)
qed

lemma visit_leave:
  assumes "oop_ok x" "oop_ok p" "lastPointerOf p (put_bits 8 8 x 1 m) = Some n"
    "(if n < HugeSize then countBitsOf p (put_bits 8 8 x 1 m) else heapChunkOf_word p n (put_bits 8 8 x 1 m)) = Some off"
    "in_chunk m p off" "0 \<le> x" "x < 65536" "seg_of m p \<noteq> 15"
  shows "visit p x 1 sz m = visit (hw m p off) p off n (leave p off x m)"
proof -
  have "in_chunk (put_bits 8 8 x 1 m) p off" using in_chunk_same [OF same_table_puts(1) [OF assms(1)] assms(5)] .
  moreover have "hw (put_bits 8 8 x 1 m) p off = hw m p off"
    using assms by (simp add: hw_def)
  moreover have "p \<noteq> 65535" using assms(2) by (auto simp: oop_ok_def)
  ultimately show ?thesis using assms
    by (subst visit_loop.simps) (simp add: mark_action_def leave_def del: One_nat_def)
qed

lemma visit_end: "oop_ok x \<Longrightarrow> visit NonPointer x 1 sz m = Some (put_bits 8 8 x 1 m)"
  by (subst visit_loop.simps) (simp add: mark_action_def)

end
