(* ===== verification/OmMarkProps.thy ===== *)
theory OmMarkProps
  imports OmMark
begin

text \<open>
  The correctness of marking: a visit marks exactly the unmarked objects reachable from an object and
  restores every word it reverses.
\<close>

section \<open>Entering and leaving an object\<close>

lemma sz_ok_cases:
  assumes "sz_ok m0 p sz"
  shows "sz < 256 \<Longrightarrow> last_ptr m0 p < 256 \<or> last_ptr m0 p = hw m0 p 0 \<and> hw m0 p 0 < 256"
    "\<not> sz < 256 \<Longrightarrow> sz = hw m0 p 0 \<and> ptr_of m0 p \<noteq> 0 \<and> 256 \<le> hw m0 p 0"
  using assms last_ptr_bounds(3) [of m0 p] by (auto simp: sz_ok_def last_ptr_def split: if_splits)

lemma enter_state:
  assumes "graph_ok m0 L" "agree m0 L m" "p \<in> L" "p \<notin> whites L m" "x \<in> whites L m"
    "1 \<le> off" "off < last_ptr m0 p" "sz_ok m0 p sz" "0 \<le> prior" "prior < 65536"
  defines "mc \<equiv> enter sz p off prior x m"
  shows "agree m0 L mc" "whites L mc = whites L m - {x}" "same_table m mc"
    "\<And>i. 0 \<le> i \<Longrightarrow> i < hw m0 x 0 \<Longrightarrow> hw mc x i = hw m0 x i" "hw mc p off = prior"
    "\<And>n. sz_ok m0 p n \<Longrightarrow> (if n < 256 then count_of mc p else hw mc p n) = off"
    "\<And>q. oop_ok q \<Longrightarrow> q \<noteq> p \<Longrightarrow> count_of mc q = (if q = x then 1 else count_of m q)"
    "\<And>s w. s \<noteq> 15 \<Longrightarrow> \<not> extra_word m0 {p} s w \<Longrightarrow> s \<noteq> seg_of m p \<or> w \<noteq> loc_of m p + off \<Longrightarrow> cell mc s w = cell m s w"
proof -
  have x: "x \<in> L" "count_of m x = 0" "x \<noteq> p" using assms by (auto simp: whites_def)
  note p = object_okD [OF assms(1,3)] and xo = object_okD [OF assms(1) x(1)]
  have t: "same_table m0 m" using assms by (simp add: agree_def)
  note tp = same_tableD [OF t p(1)]
  define ma where "ma = put_bits 8 8 x 1 m"
  define mb where "mb = put_hw p off prior ma"
  have mc: "mc = save_offset sz p off mb" by (simp add: mc_def enter_def ma_def mb_def)
  have o: "off < chunk_len m0 p" "off < 65536" using assms(7) p chunk_len_bounds(1) [of m0 p] last_ptr_bounds(2) [of m0 p] by simp_all
  have b: "sz < 256 \<Longrightarrow> off < 256" "\<not> sz < 256 \<Longrightarrow> 1 \<le> sz \<and> sz < chunk_len m0 p \<and> sz \<noteq> off"
    using sz_ok_cases [OF assms(8)] assms(7) p chunk_len_bounds(2) [of m0 p] by auto
  have s: "seg_of m p \<noteq> 15" "seg_of ma p \<noteq> 15" "seg_of mb p \<noteq> 15"
    using p tp xo by (simp_all add: ma_def mb_def)
  have a1: "agree m0 L ma" unfolding ma_def using agree_count [OF assms(1) x(1) assms(2)] by simp
  have w1: "whites L ma = whites L m - {x}"
    using xo p object_okD(1) [OF assms(1)] by (auto simp: whites_def ma_def split: if_splits)
  have a2: "agree m0 L mb" unfolding mb_def using agree_put [OF assms(1,3) a1 _ assms(6) o(1) assms(9,10)] w1 assms(4) by simp
  have w2: "whites L mb = whites L m - {x}" using w1 s(2) by (simp add: mb_def whites_def)
  have "agree m0 L (put_bits 8 8 p off mb)" if "sz < 256"
    using agree_count [OF assms(1,3) a2, of off] b(1) that assms(6) by simp
  moreover have "agree m0 L (put_hw p sz off mb)" if "\<not> sz < 256"
    using agree_put [OF assms(1,3) a2, of sz off] b(2) that assms(4,6) o(2) w2 by simp
  ultimately show a3: "agree m0 L mc" by (simp add: mc save_offset_def)
  have cp: "count_of mb q = (if q = x then 1 else count_of m q)" if "oop_ok q" for q
    using s xo that by (simp add: mb_def ma_def)
  show c: "count_of mc q = (if q = x then 1 else count_of m q)" if "oop_ok q" "q \<noteq> p" for q
  proof -
    have "count_of mc q = count_of mb q" using that s p assms(6) b by (simp add: mc save_offset_def)
    then show ?thesis using cp [OF that(1)] by simp
  qed
  have "count_of mc p \<noteq> 0" using cp [OF p(1)] x s p assms(4,3,6) b by (auto simp: mc save_offset_def whites_def)
  then have "q \<in> whites L mc \<longleftrightarrow> q \<in> whites L m - {x}" for q
    using c [of q] object_okD(1) [OF assms(1), of q] assms(3,4) by (cases "q = p") (auto simp: whites_def split: if_splits)
  then show "whites L mc = whites L m - {x}" by blast
  have st: "same_table ma mb" "same_table mb mc" "same_table m ma"
    using s p xo by (auto simp: same_table_def ma_def mb_def mc save_offset_def)
  show "same_table m mc" using same_table_trans st by blast
  have tb: "same_table m0 mb" using same_table_trans t st by blast
  have hb: "hw mc q i = hw mb q i" if "q \<in> L" "0 \<le> i" "i < chunk_len m0 q" "q \<noteq> p \<or> sz < 256 \<or> i \<noteq> sz" for q i
  proof (cases "sz < 256")
    case True
    then show ?thesis using that object_okD [OF assms(1) that(1)] p same_tableD [OF tb]
      by (simp add: mc save_offset_def hw_def)
  next
    case False
    then show ?thesis using that not_same_word [OF assms(1,3) that(1) tb _ _ that(2,3), of sz] b s(3) o(2) assms(6)
      by (auto simp: mc save_offset_def hw_put_hw)
  qed
  show "hw mc x i = hw m0 x i" if i: "0 \<le> i" "i < hw m0 x 0" for i
  proof -
    have "hw mc x i = hw mb x i" using hb [OF x(1)] i x(3) chunk_len_bounds(1) [of m0 x] by simp
    also have "\<dots> = hw ma x i"
      using not_same_word [OF assms(1,3) x(1) same_table_trans [OF t st(3)], of off i] o i x(3) s(2) assms(6,9,10)
        chunk_len_bounds(1) [of m0 x] by (auto simp: mb_def hw_put_hw)
    also have "\<dots> = hw m x i" using xo same_tableD [OF t] by (simp add: ma_def hw_def)
    finally show ?thesis using assms(2,5) i by (auto simp: agree_def)
  qed
  have "hw mc p off = hw mb p off" using hb [OF assms(3), of off] assms(6) o b by auto
  then show "hw mc p off = prior" using s assms(9,10) by (simp add: mb_def hw_put_hw)
  show "(if n < 256 then count_of mc p else hw mc p n) = off" if n: "sz_ok m0 p n" for n
  proof (cases "sz < 256")
    case True
    then have "last_ptr m0 p < 256" using sz_ok_cases(1) [OF assms(8)] by auto
    then have "n < 256" using n by (simp add: sz_ok_def)
    then show ?thesis using True b p assms(6) by (simp add: mc save_offset_def)
  next
    case False
    then have "n = sz" using n assms(8) by (auto simp: sz_ok_def split: if_splits)
    then show ?thesis using False s o assms(6) by (simp add: mc save_offset_def hw_put_hw)
  qed
  show "cell mc s w = cell m s w" if "s \<noteq> 15" "\<not> extra_word m0 {p} s w" "s \<noteq> seg_of m p \<or> w \<noteq> loc_of m p + off" for s w
  proof -
    have e: "cell mb s w = cell m s w" using that xo p by (auto simp: mb_def ma_def put_hw_def)
    have "\<not> (s = seg_of mb p \<and> w = loc_of mb p + sz)" if "\<not> sz < 256"
      using that \<open>\<not> extra_word m0 {p} s w\<close> sz_ok_cases(2) [OF assms(8)] same_tableD [OF tb p(1)]
      by (auto simp: extra_word_def)
    then show ?thesis using e that by (auto simp: mc save_offset_def put_hw_def)
  qed
qed

lemma leave_state:
  assumes "graph_ok m0 L" "agree m0 L m" "p \<in> L" "p \<notin> whites L m" "x \<in> whites L m"
    "1 \<le> off" "off < last_ptr m0 p" "sz_ok m0 p sz" "0 \<le> prior" "prior < 65536" "hw m p off = x"
    and visit: "visited m0 (enter sz p off prior x m) m1 x V" and V: "V \<subseteq> whites L m - {x}"
  shows "\<exists>n. visit p x 1 sz1 m1 = visit prior p off n (leave p off x m1) \<and> sz_ok m0 p n"
    "visited m0 m (leave p off x m1) p (insert x V)"
proof -
  define mc where "mc = enter sz p off prior x m"
  note e = enter_state [OF assms(1-10), folded mc_def] and v = visit [folded mc_def]
  have x: "x \<in> L" "x \<noteq> p" and VL: "V \<subseteq> L" "p \<notin> V" using assms by (auto simp: whites_def)
  note p = object_okD [OF assms(1,3)] and xo = object_okD [OF assms(1) x(1)]
  have xb: "0 \<le> x" "x < 65536" using xo by (auto simp: oop_ok_def)
  note a1 = agree_visited [OF assms(1) x(1) e(1) v VL(1)]
  have t: "same_table m0 m1" "same_table m m1" "same_table mc m1"
    using a1(1) e(3) v by (auto simp: agree_def visited_def intro: same_table_trans)
  have s: "seg_of m1 p \<noteq> 15" using p same_tableD [OF t(1)] by simp
  have o: "off < hw m0 p 0" "off < chunk_len m0 p" using assms(7) p chunk_len_bounds(1) [of m0 p] by simp_all
  define md where "md = put_bits 8 8 x 1 m1"
  have td: "same_table m1 md" using xo by (simp add: md_def same_table_puts)
  have hd: "hw md p i = hw mc p i" if "0 \<le> i" "i < chunk_len m0 p" for i
    using that a1(3) [OF assms(3) that(1)] x VL s xo p by (simp add: md_def hw_def)
  have cd: "count_of md p = count_of mc p" using v x VL p xo by (simp add: md_def visited_def)
  have a2: "agree m0 L md" unfolding md_def using agree_count [OF assms(1) x(1) a1(1)] by simp
  obtain n where n: "lastPointerOf p md = Some n" "sz_ok m0 p n" using agree_lastPointer(1) [OF assms(1,3) a2] by auto
  have "(if n < 256 then countBitsOf p md else heapChunkOf_word p n md) = Some off"
  proof (cases "n < 256")
    case True
    then show ?thesis using e(6) [OF n(2)] cd p by simp
  next
    case False
    then have k: "0 \<le> n" "n < chunk_len m0 p" using sz_ok_cases(2) [OF n(2)] chunk_len_bounds(2) [of m0 p] by auto
    have "in_chunk md p n"
      using object_in_chunk(1) [OF assms(1,3) k] in_chunk_same [OF t(1)] in_chunk_same [OF td] by blast
    then show ?thesis using False e(6) [OF n(2)] hd [OF k] by simp
  qed
  moreover have "in_chunk m1 p off" using object_in_chunk(1) [OF assms(1,3), of off] o assms(6) in_chunk_same [OF t(1)] by auto
  moreover have "hw m1 p off = prior" using e(5) a1(3) [OF assms(3), of off] o assms(6) by simp
  ultimately show "\<exists>n. visit p x 1 sz1 m1 = visit prior p off n (leave p off x m1) \<and> sz_ok m0 p n"
    using visit_leave [OF xo(1) p(1) n(1) [unfolded md_def], of off sz1] n s xb md_def by auto
  have st: "seg_of md p \<noteq> 15" using s xo p by (simp add: md_def)
  have l: "leave p off x m1 = put_hw p off x md" by (simp add: leave_def md_def)
  have "count_of mc p \<noteq> 0" using e(2) assms(3,4) by (auto simp: whites_def)
  then have c: "count_of (leave p off x m1) p \<noteq> 0" using cd st by (simp add: l)
  have cq: "count_of (leave p off x m1) q = (if q \<in> insert x V then 1 else count_of m q)" if "oop_ok q" "q \<noteq> p" for q
  proof -
    have "count_of (leave p off x m1) q = (if q = x then 1 else count_of m1 q)" using st xo that by (simp add: l md_def)
    moreover have "q \<noteq> x \<Longrightarrow> count_of m1 q = (if q \<in> V then 1 else count_of mc q)" using v that by (simp add: visited_def)
    ultimately show ?thesis using e(7) [OF that] by auto
  qed
  have "cell (leave p off x m1) s w = cell m s w" if h: "s \<noteq> 15" "\<not> extra_word m0 (insert p (insert x V)) s w" for s w
  proof (cases "s = seg_of md p \<and> w = loc_of md p + off")
    case True
    then have "cell (leave p off x m1) s w = word_of_int x" by (simp add: l put_hw_def)
    also have "\<dots> = cell m (seg_of m p) (loc_of m p + off)" using assms(11) by (auto simp: hw_def)
    finally show ?thesis using True same_tableD [OF td p(1)] same_tableD [OF t(2) p(1)] by simp
  next
    case False
    then have "cell (leave p off x m1) s w = cell m1 s w" using h(1) by (auto simp: l put_hw_def md_def)
    moreover have "cell m1 s w = cell mc s w" using v h by (auto simp: visited_def extra_word_def)
    moreover have "cell mc s w = cell m s w"
      using False h same_tableD [OF td p(1)] same_tableD [OF t(2) p(1)] by (intro e(8)) (auto simp: extra_word_def)
    ultimately show ?thesis by simp
  qed
  then show "visited m0 m (leave p off x m1) p (insert x V)"
    using c cq same_table_trans [OF t(2) same_table_trans [OF td same_table_puts(2) [OF st]]]
    unfolding visited_def l by blast
qed

lemma visited_trans:
  assumes "visited m0 m m1 p V" "visited m0 m1 m2 p W"
  shows "visited m0 m m2 p (V \<union> W)"
proof -
  have "extra_word m0 (insert p V) s w \<Longrightarrow> extra_word m0 (insert p (V \<union> W)) s w"
    "extra_word m0 (insert p W) s w \<Longrightarrow> extra_word m0 (insert p (V \<union> W)) s w" for s w
    by (auto simp: extra_word_def)
  then have "cell m2 s w = cell m s w" if "s \<noteq> 15" "\<not> extra_word m0 (insert p (V \<union> W)) s w" for s w
    using assms that unfolding visited_def by metis
  then show ?thesis using assms same_table_trans [of m m1 m2] by (auto simp: visited_def)
qed

section \<open>A visit\<close>

text \<open>The visit of the fields below \<open>offset\<close> ends, in a state in which the visit of \<open>p\<close> is complete.\<close>

lemma visit_fields:
  assumes "graph_ok m0 L" "finite L" "agree m0 L m" "p \<in> L" "p \<notin> whites L m" "1 \<le> offset" "offset \<le> last_ptr m0 p"
    "sz_ok m0 p sz" "0 \<le> prior" "prior < 65536" "\<And>i. 0 \<le> i \<Longrightarrow> i < offset \<Longrightarrow> hw m p i = hw m0 p i"
  shows "\<exists>m' sz'. visit prior p offset sz m = visit prior p 1 sz' m' \<and>
    visited m0 m m' p (wreach (succs m0) (whites L m) (fields m0 p offset))"
  using assms(3-)
proof (induction "card (whites L m) * 65536 + nat offset" arbitrary: m p offset sz prior rule: less_induct)
  case less
  note G = assms(1,2)
  have fin: "finite (whites L m)" using G by (auto simp: whites_def)
  note p = object_okD [OF G(1) less.prems(2)]
  have t: "same_table m0 m" using less.prems by (simp add: agree_def)
  show ?case
  proof (cases "offset = 1")
    case True
    then have "visited m0 m m p (wreach (succs m0) (whites L m) (fields m0 p offset))"
      using less.prems by (auto simp: visited_def whites_def)
    then show ?thesis using True by auto
  next
    case False
    define off where "off = offset - 1"
    define x where "x = hw m p off"
    have o: "1 < offset" "1 \<le> off" "off < last_ptr m0 p" "off < hw m0 p 0" "nat off < nat offset" "offset < 65536"
      using False less.prems p last_ptr_bounds(2) [of m0 p] by (auto simp: off_def)
    have ic: "in_chunk m p off"
      using object_in_chunk(1) [OF G(1) less.prems(2), of off] o chunk_len_bounds(1) [of m0 p] in_chunk_same [OF t] by auto
    have x0: "x = hw m0 p off" using less.prems(9) [of off] o by (simp add: x_def off_def)
    have xL: "x \<in> L" if "\<not> isIntegerObject x" using that o p by (auto simp: x0 succs_def)
    have f: "fields m0 p offset = (if isIntegerObject x then fields m0 p off else insert x (fields m0 p off))"
      using fields_step [OF o(1)] by (simp add: x0 off_def)
    show ?thesis
    proof (cases "isIntegerObject x \<or> x \<notin> whites L m")
      case True
      have "visit prior p offset sz m = visit prior p off sz m"
        using visit_skip [of offset m p prior sz] o ic True xL object_okD(1) [OF G(1)]
        by (auto simp: off_def [symmetric] x_def [symmetric] whites_def)
      moreover have "wreach (succs m0) (whites L m) (fields m0 p offset) = wreach (succs m0) (whites L m) (fields m0 p off)"
        using True xL by (auto simp: f wreach_skip)
      ultimately show ?thesis using less.hyps [of m off p sz prior] less.prems o by (simp add: off_def)
    next
      case False
      then have w: "x \<in> whites L m" and xl: "x \<in> L" "\<not> isIntegerObject x" using xL by auto
      note xo = object_okD [OF G(1) xl(1)]
      let ?mc = "enter sz p off prior x m"
      note e = enter_state [OF G(1) less.prems(1-3) w o(2,3) less.prems(6-8)]
      have xc: "x \<notin> whites L ?mc" "x \<noteq> p" using e(2) less.prems(3) w by auto
      have ls: "lastPointerOf x ?mc = Some (last_ptr m0 x)" using agree_lastPointer(2) [OF G(1) xl(1) e(1)] e(4) by blast
      have lx: "1 \<le> last_ptr m0 x" "last_ptr m0 x < 65536" "last_ptr m0 x \<le> hw m0 x 0"
        using last_ptr_bounds(1,2) [of m0 x] xo by auto
      have szx: "sz_ok m0 x (last_ptr m0 x)"
        using last_ptr_bounds(3) [of m0 x] by (auto simp: sz_ok_def last_ptr_def split: if_splits)
      have sz: "sz < 256 \<Longrightarrow> offset \<le> 256" "\<not> sz < 256 \<Longrightarrow> in_chunk m p sz"
        using sz_ok_cases [OF less.prems(6)] less.prems(5) chunk_len_bounds [of m0 p] in_chunk_same [OF t]
          object_in_chunk(1) [OF G(1) less.prems(2), of sz] by auto
      have go: "visit prior p offset sz m = visit p x (last_ptr m0 x) (last_ptr m0 x) ?mc"
        using visit_enter [OF o(1) ic [unfolded off_def] _ xo(1), of sz prior] x_def off_def ls w sz o less.prems(7,8)
          same_tableD [OF t p(1)] p by (auto simp: whites_def)
      have c: "card (whites L ?mc) < card (whites L m)" unfolding e(2) using fin w by (rule card_Diff1_less)
      define V where "V = wreach (succs m0) (whites L m - {x}) (succs m0 x)"
      have "card (whites L ?mc) * 65536 + nat (last_ptr m0 x) < card (whites L m) * 65536 + nat offset"
        using c lx o by linarith
      then obtain m1 sz1 where m1: "visit p x (last_ptr m0 x) (last_ptr m0 x) ?mc = visit p x 1 sz1 m1"
        "visited m0 ?mc m1 x V"
        using less.hyps [of ?mc "last_ptr m0 x" x "last_ptr m0 x" p] e(1,2,4) xl xc lx szx p
        by (auto simp: V_def oop_ok_def)
      have V: "V \<subseteq> whites L m - {x}" "insert x V = wreach (succs m0) (whites L m) {x}"
        using w by (auto simp: V_def wreach_single dest: subsetD [OF wreach_sub])
      let ?me = "leave p off x m1"
      note lv = leave_state [OF G(1) less.prems(1-3) w o(2,3) less.prems(6-8) x_def [symmetric] m1(2) V(1)]
      obtain n where n: "visit p x 1 sz1 m1 = visit prior p off n ?me" "sz_ok m0 p n" using lv(1) by blast
      have VL: "insert x V \<subseteq> L" using V xl by (auto simp: whites_def)
      note a = agree_visited [OF G(1) less.prems(2,1) lv(2) VL]
      have wm: "whites L ?me = whites L m - insert x V" using a(2) less.prems(3) by auto
      have "card (whites L ?me) \<le> card (whites L m)" unfolding wm using fin by (intro card_mono) auto
      then have dec: "card (whites L ?me) * 65536 + nat off < card (whites L m) * 65536 + nat offset" using o by linarith
      have same: "hw ?me p i = hw m0 p i" if "0 \<le> i" "i < off" for i
        using a(3) [OF less.prems(2) that(1)] that less.prems(9) [OF that(1)] o(4) by (simp add: off_def)
      have "p \<notin> whites L ?me" "off \<le> last_ptr m0 p" using wm less.prems(3) o(3) by simp_all
      note hyp = less.hyps [OF dec a(1) less.prems(2) this(1) o(2) this(2) n(2) less.prems(7,8), unfolded wm]
      have IH: "\<exists>m' sz'. visit prior p off n ?me = visit prior p 1 sz' m' \<and>
          visited m0 ?me m' p (wreach (succs m0) (whites L m - insert x V) (fields m0 p off))"
        by (rule hyp) (rule same)
      obtain m2 sz2 where m2: "visit prior p off n ?me = visit prior p 1 sz2 m2"
        "visited m0 ?me m2 p (wreach (succs m0) (whites L m - insert x V) (fields m0 p off))"
        using IH by (elim exE conjE) (rule that)
      have "wreach (succs m0) (whites L m) (fields m0 p offset) =
          insert x V \<union> wreach (succs m0) (whites L m - insert x V) (fields m0 p off)"
        unfolding f V(2) if_not_P [OF xl(2)] by (rule wreach_insert)
      then show ?thesis using go m1(1) n(1) m2 visited_trans [OF lv(2) m2(2)] by auto
    qed
  qed
qed

section \<open>Marking from roots\<close>

lemma graph_finite: "graph_ok m L \<Longrightarrow> finite L"
  by (rule finite_subset [OF _ oop_finite]) (auto dest: object_okD(1))

text \<open>A complete visit: nothing but counts and extra words has changed.\<close>

definition marked :: "int set \<Rightarrow> omem \<Rightarrow> omem \<Rightarrow> int set \<Rightarrow> bool" where
  "marked L m m' V \<longleftrightarrow> same_table m m' \<and> (\<forall>s w. s \<noteq> 15 \<longrightarrow> \<not> extra_word m L s w \<longrightarrow> cell m' s w = cell m s w) \<and>
     (\<forall>q. oop_ok q \<longrightarrow> count_of m' q = (if q \<in> V then 1 else count_of m q))"

lemma marked_words:
  assumes "graph_ok m L" "marked L m m' V" "q \<in> L" "0 \<le> i" "i < hw m q 0"
  shows "hw m' q i = hw m q i"
  using assms not_extra_word [OF assms(1,3) order_refl assms(4)] object_okD [OF assms(1,3)]
  by (intro hw_same) (auto simp: marked_def)

lemma graph_same:
  assumes "graph_ok m L" "same_table m m'" "\<And>q i. q \<in> L \<Longrightarrow> 0 \<le> i \<Longrightarrow> i < hw m q 0 \<Longrightarrow> hw m' q i = hw m q i"
  shows "graph_ok m' L" "q \<in> L \<Longrightarrow> succs m' q = succs m q" "q \<in> L \<Longrightarrow> hw m' q 0 = hw m q 0"
    "q \<in> L \<Longrightarrow> chunk_len m' q = chunk_len m q"
proof -
  have h: "hw m' q i = hw m q i" if "q \<in> L" "0 \<le> i" "i < 2 \<or> i < last_ptr m q" for q i
    using assms(3) [OF that(1,2)] that object_okD(4,6) [OF assms(1) that(1)] by auto
  have l: "last_ptr m' q = last_ptr m q" if "q \<in> L" for q
  proof -
    have "hw m' q 2 = hw m q 2" if "ptr_of m q = 0" "hw m q 1 = 34"
      using h [OF \<open>q \<in> L\<close>, of 2] last_ptr_bounds(4) [OF that] by simp
    then show ?thesis using h [OF that, of 0] h [OF that, of 1] same_tableD(3) [OF assms(2) object_okD(1) [OF assms(1) that]]
      by (auto simp: last_ptr_def)
  qed
  show z: "hw m' q 0 = hw m q 0" if "q \<in> L" for q using h [OF that, of 0] by simp
  show c: "chunk_len m' q = chunk_len m q" if "q \<in> L" for q
    using z [OF that] same_tableD(3) [OF assms(2) object_okD(1) [OF assms(1) that]] by (simp add: chunk_len_def)
  show s: "succs m' q = succs m q" if "q \<in> L" for q
    using h [OF that] l [OF that] by (auto simp: succs_def) (metis dual_order.trans zero_le_one)+
  have "object_ok m' L q" if q: "q \<in> L" for q
    using object_okD [OF assms(1) q] same_tableD [OF assms(2) object_okD(1) [OF assms(1) q]] s [OF q] c [OF q] z [OF q]
      l [OF q] h [OF q, of 1] h [OF q, of 2] last_ptr_bounds(4) [of m q]
    by (auto simp: object_ok_def live_def)
  moreover have "apart m' p q" if "p \<in> L" "q \<in> L" "p \<noteq> q" for p q
    using assms(1) that c same_tableD(1,2) [OF assms(2) object_okD(1) [OF assms(1)]]
    by (auto simp: graph_ok_def apart_def)
  ultimately show "graph_ok m' L" by (auto simp: graph_ok_def)
qed

lemma marked_graph:
  assumes "graph_ok m L" "marked L m m' V" "V \<subseteq> L"
  shows "graph_ok m' L" "\<And>q. q \<in> L \<Longrightarrow> succs m' q = succs m q" "whites L m' = whites L m - V"
    "extra_word m' L = extra_word m L"
proof -
  have t: "same_table m m'" using assms by (simp add: marked_def)
  note g = graph_same [OF assms(1) t marked_words [OF assms(1,2)]]
  show "graph_ok m' L" "\<And>q. q \<in> L \<Longrightarrow> succs m' q = succs m q" using g by blast+
  show "whites L m' = whites L m - V"
  proof (rule set_eqI)
    fix q show "q \<in> whites L m' \<longleftrightarrow> q \<in> whites L m - V"
      using assms(2) object_okD(1) [OF assms(1), of q] by (auto simp: whites_def marked_def split: if_splits)
  qed
  show "extra_word m' L = extra_word m L"
    using g(3) same_tableD [OF t object_okD(1) [OF assms(1)]] by (auto simp: extra_word_def fun_eq_iff)
qed

lemma mark_from:
  assumes "graph_ok m L" "p \<in> L"
  shows "\<exists>r m'. markObjectsAccessibleFrom p m = Some (r, m') \<and> marked L m m' (wreach (succs m) (whites L m) {p})"
proof (cases "p \<in> whites L m")
  case False
  then have "marked L m m (wreach (succs m) (whites L m) {p})"
    using wreach_skip [OF False, of "succs m" "{}"] by (simp add: marked_def)
  then show ?thesis using False assms object_okD(1) [OF assms]
    by (simp add: markObjectsAccessibleFrom_def forAllObjectsAccessibleFrom_suchThat_do_def mark_predicate_view whites_def)
next
  case True
  note p = object_okD [OF assms] and fin = graph_finite [OF assms(1)]
  let ?ma = "put_bits 8 8 p 1 m" and ?n = "last_ptr m p"
  have a0: "agree m L m" by (simp add: agree_def)
  have a: "agree m L ?ma" using agree_count [OF assms a0] by simp
  have w: "whites L ?ma = whites L m - {p}"
    using p object_okD(1) [OF assms(1)] by (auto simp: whites_def split: if_splits)
  have h: "hw ?ma p i = hw m p i" for i using p by (simp add: hw_def)
  have n: "lastPointerOf p ?ma = Some ?n" using agree_lastPointer(2) [OF assms a h] .
  have szn: "sz_ok m p ?n" using last_ptr_bounds(3) [of m p] by (auto simp: sz_ok_def last_ptr_def split: if_splits)
  have "1 \<le> ?n" using last_ptr_bounds(1) [of m p] p by simp
  note vf = visit_fields [OF assms(1) fin a assms(2) _ this order_refl szn _ _ h, of 65535, unfolded w]
  obtain m' sz' where m': "visit 65535 p ?n ?n ?ma = visit 65535 p 1 sz' m'"
    "visited m ?ma m' p (wreach (succs m) (whites L m - {p}) (succs m p))"
    using vf by auto
  have e: "markObjectsAccessibleFrom p m = Some (p, put_bits 8 8 p 1 m')"
    using True p n m'(1) visit_end [OF p(1), of sz' m']
    by (simp add: markObjectsAccessibleFrom_def forAllObjectsAccessibleFrom_suchThat_do_def
        forAllOtherObjectsAccessibleFrom_suchThat_do_def mark_predicate_view whites_def del: One_nat_def)
  let ?V = "wreach (succs m) (whites L m) {p}"
  have V: "?V = insert p (wreach (succs m) (whites L m - {p}) (succs m p))" by (rule wreach_single [OF True])
  have "insert p (wreach (succs m) (whites L m - {p}) (succs m p)) \<subseteq> L" using V wreach_sub [of "succs m" "whites L m" "{p}"]
    by (auto simp: whites_def)
  then have "extra_word m (insert p (wreach (succs m) (whites L m - {p}) (succs m p))) s w \<Longrightarrow> extra_word m L s w" for s w
    by (auto simp: extra_word_def)
  then have c: "cell m' s w = cell m s w" if "s \<noteq> 15" "\<not> extra_word m L s w" for s w
    using m'(2) that p unfolding visited_def by (metis put_cell(1))
  have "count_of (put_bits 8 8 p 1 m') q = (if q \<in> ?V then 1 else count_of m q)" if "oop_ok q" for q
    using m'(2) that p by (auto simp: visited_def V)
  moreover have "same_table m (put_bits 8 8 p 1 m')"
    using m'(2) same_table_trans [OF same_table_puts(1) [OF p(1)] same_table_trans [OF _ same_table_puts(1) [OF p(1)]]]
    unfolding visited_def by blast
  ultimately have "marked L m (put_bits 8 8 p 1 m') ?V" using c p by (simp add: marked_def)
  then show ?thesis using e by blast
qed

text \<open>
  Object pointer 0 is reserved.  Its entry is free, and its location is that of nil, so that marking from it
  visits the class of nil: nil's class word holds the list terminator meanwhile.
\<close>

definition reserved_ok :: "omem \<Rightarrow> bool" where
  "reserved_ok m \<longleftrightarrow> free_of m 0 \<noteq> 0 \<and> ptr_of m 0 = 0 \<and> ptr_of m NilPointer \<noteq> 0 \<and> seg_of m 0 = seg_of m NilPointer \<and>
     loc_of m 0 = loc_of m NilPointer \<and> hw m NilPointer 1 \<noteq> ClassCompiledMethod"

lemma oop_0_2 [simp]: "oop_ok 0" "oop_ok 2"
  by (simp_all add: oop_ok_def)

lemma reserved_enter:
  assumes "graph_ok m L" "reserved_ok m" "2 \<in> L" "c \<in> L" "hw m 2 1 = c"
  defines "mc \<equiv> enter 2 0 1 65535 c (put_bits 8 8 0 1 m)"
  shows "graph_ok mc L" "same_table m mc" "extra_word mc L = extra_word m L" "hw mc 0 1 = 65535"
    "\<And>q. oop_ok q \<Longrightarrow> count_of mc q = (if q = 0 \<or> q = c then 1 else count_of m q)"
    "\<And>s w. s \<noteq> 15 \<Longrightarrow> s \<noteq> seg_of m 2 \<or> w \<noteq> loc_of m 2 + 1 \<Longrightarrow> cell mc s w = cell m s w"
    "\<And>q. q \<in> L \<Longrightarrow> succs mc q \<subseteq> succs m q \<and> succs m q \<subseteq> insert c (succs mc q)"
proof -
  note o = object_okD [OF assms(1)]
  have r: "seg_of m 0 = seg_of m 2" "loc_of m 0 = loc_of m 2" "seg_of m 2 \<noteq> 15" "ptr_of m 2 \<noteq> 0"
    using assms(2) o(3) [OF assms(3)] by (auto simp: reserved_ok_def)
  have mc: "mc = put_bits 8 8 0 1 (put_hw 2 1 65535 (put_bits 8 8 c 1 (put_bits 8 8 0 1 m)))"
    using r o(1) [OF assms(4)] by (simp add: mc_def enter_def save_offset_def put_hw_def)
  show t: "same_table m mc" unfolding mc using r o(1) [OF assms(4)] by (simp add: same_table_def)
  show k: "count_of mc q = (if q = 0 \<or> q = c then 1 else count_of m q)" if "oop_ok q" for q
    using that r o(1) [OF assms(4)] by (simp add: mc)
  show ce: "cell mc s w = cell m s w" if "s \<noteq> 15" "s \<noteq> seg_of m 2 \<or> w \<noteq> loc_of m 2 + 1" for s w
    using that r o(1) [OF assms(4)] by (auto simp: mc put_hw_def)
  have c2: "cell mc (seg_of m 2) (loc_of m 2 + 1) = 65535"
    using r o(1) [OF assms(4)] by (simp add: mc put_hw_def)
  then show "hw mc 0 1 = 65535" using same_tableD [OF t] r by (simp add: hw_def)
  have h: "hw mc q i = (if q = 2 \<and> i = 1 then 65535 else hw m q i)" if "q \<in> L" "0 \<le> i" "i < hw m q 0" for q i
  proof (cases "q = 2 \<and> i = 1")
    case True
    then show ?thesis using c2 same_tableD [OF t] by (simp add: hw_def)
  next
    case False
    then have "\<not> same_word m 2 1 q i"
      using not_same_word [OF assms(1,3) that(1), of m 1 i] that o(4) [OF assms(3)] chunk_len_bounds(1) [of m q] chunk_len_bounds(1) [of m 2]
      by auto
    then have "cell mc (seg_of m q) (loc_of m q + i) = cell m (seg_of m q) (loc_of m q + i)"
      using o(3) [OF that(1)] by (intro ce) (auto simp: same_word_def)
    then show ?thesis using hw_same [OF t o(1) [OF that(1)]] unfolding if_not_P [OF False] by simp
  qed
  have z: "hw mc q 0 = hw m q 0" if "q \<in> L" for q using h [OF that, of 0] o(4) [OF that] by simp
  have l: "last_ptr mc q = last_ptr m q" if q: "q \<in> L" for q
  proof (cases "q = 2")
    case True
    then show ?thesis using r z [OF assms(3)] same_tableD [OF t] by (simp add: last_ptr_def)
  next
    case False
    have "hw mc q 2 = hw m q 2" if "ptr_of m q = 0" "hw m q 1 = 34"
      using last_ptr_bounds(4) [OF that] o(6) [OF q] h [OF q, of 2] False by auto
    then show ?thesis using z [OF q] h [OF q, of 1] o(4) [OF q] False same_tableD(3) [OF t o(1) [OF q]] by (auto simp: last_ptr_def)
  qed
  have odd: "isIntegerObject 65535" by (simp add: odd_int_and)
  show s: "succs mc q \<subseteq> succs m q \<and> succs m q \<subseteq> insert c (succs mc q)" if q: "q \<in> L" for q
  proof -
    have e: "hw mc q i = (if q = 2 \<and> i = 1 then 65535 else hw m q i)" if "1 \<le> i" "i < last_ptr m q" for i
      using h [OF q, of i] that o(6) [OF q] by auto
    have "x \<in> succs m q" if "x \<in> succs mc q" for x
      using that e odd l [OF q] by (auto simp: succs_def split: if_splits)
    moreover have "x \<in> insert c (succs mc q)" if x: "x \<in> succs m q" for x
    proof -
      obtain i where i: "1 \<le> i" "i < last_ptr m q" "x = hw m q i" "\<not> isIntegerObject x" using x by (auto simp: succs_def)
      show ?thesis
      proof (cases "q = 2 \<and> i = 1")
        case True
        then show ?thesis using i assms(5) by simp
      next
        case False
        then have "hw mc q i = x" using e [OF i(1,2)] i(3) unfolding if_not_P [OF False] by simp
        then have "x \<in> succs mc q" using i l [OF q] by (auto simp: succs_def intro!: exI [of _ i])
        then show ?thesis by simp
      qed
    qed
    ultimately show ?thesis by blast
  qed
  have cl: "chunk_len mc q = chunk_len m q" if "q \<in> L" for q
    using z [OF that] same_tableD(3) [OF t o(1) [OF that]] by (simp add: chunk_len_def)
  have "object_ok mc L q" if q: "q \<in> L" for q
  proof -
    have "isIntegerObject (hw mc q 2)" if "ptr_of m q = 0" "hw mc q 1 = 34"
    proof -
      have "q \<noteq> 2" using r that by auto
      moreover then have "hw m q 1 = 34" using h [OF q, of 1] o(4) [OF q] that by simp
      ultimately show ?thesis using h [OF q, of 2] o(8) [OF q that(1)] o(6) [OF q] last_ptr_bounds(4) [OF that(1)] by auto
    qed
    moreover have "succs mc q \<subseteq> L" using s [OF q] o(7) [OF q] by blast
    ultimately show ?thesis
      using o(1-6) [OF q] same_tableD [OF t o(1) [OF q]] z [OF q] l [OF q] cl [OF q] by (simp add: object_ok_def live_def)
  qed
  moreover have "apart mc p q" if "p \<in> L" "q \<in> L" "p \<noteq> q" for p q
    using assms(1) that cl same_tableD(1,2) [OF t o(1)] by (auto simp: graph_ok_def apart_def)
  ultimately show "graph_ok mc L" by (auto simp: graph_ok_def)
  show "extra_word mc L = extra_word m L"
    using z same_tableD [OF t o(1)] by (auto simp: extra_word_def fun_eq_iff)
qed

lemma mark_reserved:
  assumes "graph_ok m L" "reserved_ok m" "2 \<in> L" "hw m 2 1 = c" "count_of m 0 = 0"
  shows "\<exists>r m'. markObjectsAccessibleFrom 0 m = Some (r, m') \<and> marked L m m' (insert 0 (wreach (succs m) (whites L m) {c}))"
proof -
  note o = object_okD [OF assms(1)] and fin = graph_finite [OF assms(1)]
  have r: "seg_of m 0 = seg_of m 2" "loc_of m 0 = loc_of m 2" "seg_of m 2 \<noteq> 15" "ptr_of m 0 = 0" "ptr_of m 2 \<noteq> 0" "free_of m 0 \<noteq> 0"
    using assms(2) o(3) [OF assms(3)] by (auto simp: reserved_ok_def)
  have z0: "0 \<notin> L" using o(2) r by blast
  let ?ma = "put_bits 8 8 0 1 m"
  have ic: "in_chunk m 0 i" if "in_chunk m 2 i" for i using that r by (simp add: in_chunk_def)
  note ic0 = object_in_chunk(2-4) [OF assms(1,3), THEN ic]
  have h0: "hw ?ma p i = hw m p i" if "seg_of m p \<noteq> 15" "oop_ok p" for p i using that by (simp add: hw_def)
  have h1: "hw m 0 1 = c" using r assms(4) by (simp add: hw_def)
  have c34: "c \<noteq> 34" using assms(2,4) by (simp add: reserved_ok_def)
  have "last_ptr ?ma 0 = 2" using r h0 [of 0 1] h1 c34 by (simp add: last_ptr_def)
  then have n0: "lastPointerOf 0 ?ma = Some 2"
    using lastPointerOf_view [of 0 ?ma] ic0 [THEN in_chunk_same [OF same_table_puts(1) [OF oop_0_2(1)]]] by simp
  have start: "markObjectsAccessibleFrom 0 m = do { m \<leftarrow> visit 65535 0 2 2 ?ma; Some (0, m) }"
    using assms(5) n0 by (simp add: markObjectsAccessibleFrom_def forAllObjectsAccessibleFrom_suchThat_do_def
        forAllOtherObjectsAccessibleFrom_suchThat_do_def mark_predicate_view)
  have cL: "c \<in> L" if "\<not> isIntegerObject c"
  proof -
    have "c \<in> succs m 2" using o(4) [OF assms(3)] r that assms(4) by (auto simp: succs_def last_ptr_def intro!: exI [of _ 1])
    then show ?thesis using o(7) [OF assms(3)] by blast
  qed
  have ic1: "in_chunk ?ma 0 1" using in_chunk_same [OF same_table_puts(1) [OF oop_0_2(1)] ic0(2)] .
  have hc: "hw ?ma 0 1 = c" using h0 [of 0 1] h1 r by simp
  show ?thesis
  proof (cases "c \<in> whites L m")
    case False
    have "isIntegerObject c \<or> oop_ok c \<and> count_of ?ma c \<noteq> 0" using cL o(1) False by (auto simp: whites_def split: if_splits)
    then have "visit 65535 0 2 2 ?ma = visit 65535 0 1 2 ?ma"
      using visit_skip [of 2 ?ma 0 65535 2] ic1 hc by simp
    then have "markObjectsAccessibleFrom 0 m = Some (0, put_bits 8 8 0 1 ?ma)" using start visit_end [of 0 2 ?ma] by simp
    moreover have "marked L m (put_bits 8 8 0 1 ?ma) (insert 0 (wreach (succs m) (whites L m) {c}))"
      using wreach_skip [OF False, of "succs m" "{}"] by (simp add: marked_def same_table_def)
    ultimately show ?thesis by blast
  next
    case True
    have c: "c \<in> L" "count_of ?ma c = 0" "c \<noteq> 0" using True z0 o(1) [of c] by (auto simp: whites_def)
    have cb: "0 \<le> c" "c < 65536" using o(1) [OF c(1)] by (auto simp: oop_ok_def)
    define mc where "mc = enter 2 0 1 65535 c ?ma"
    note e = reserved_enter [OF assms(1-3) c(1) assms(4), folded mc_def]
    note g = object_okD [OF e(1)]
    have w: "whites L mc = whites L m - {c}"
      using e(5) [OF o(1)] z0 by (auto simp: whites_def split: if_splits)
    have a: "agree mc L mc" by (simp add: agree_def)
    have nw: "c \<notin> whites L mc" using w by simp
    have szc: "sz_ok mc c (last_ptr mc c)" using last_ptr_bounds(3) [of mc c] by (auto simp: sz_ok_def last_ptr_def split: if_splits)
    have lx: "1 \<le> last_ptr mc c" using last_ptr_bounds(1) [of mc c] g(4) [OF c(1)] by simp
    obtain m1 sz1 where m1: "visit 0 c (last_ptr mc c) (last_ptr mc c) mc = visit 0 c 1 sz1 m1"
      "visited mc mc m1 c (wreach (succs mc) (whites L mc) (succs mc c))"
      using visit_fields [OF e(1) fin a c(1) nw lx order_refl szc, of 0] by auto
    define V where "V = wreach (succs mc) (whites L m - {c}) (succs mc c)"
    have "V \<subseteq> whites L m - {c}" unfolding V_def by (rule wreach_sub)
    then have VL: "insert c V \<subseteq> L" "0 \<notin> V" using c(1) z0 by (auto simp: whites_def)
    have "insert c V = wreach (succs mc) (whites L m) {c}" unfolding V_def by (rule wreach_single [OF True, symmetric])
    also have "\<dots> = wreach (succs m) (whites L m) {c}"
      by (rule wreach_into_root) (use e(7) in \<open>auto simp: whites_def\<close>)
    finally have V: "insert c V = wreach (succs m) (whites L m) {c}" .
    have v: "visited mc mc m1 c V" using m1(2) by (simp add: V_def w)
    have t: "same_table m m1" "same_table mc m1" using v e(2) by (auto simp: visited_def intro: same_table_trans)
    have x: "extra_word mc (insert c V) s w \<Longrightarrow> extra_word m L s w" for s w
      using extra_word_mono [OF VL(1), of mc s w] unfolding e(3) by simp
    have ce: "cell m1 s w = cell mc s w" if "s \<noteq> 15" "\<not> extra_word m L s w" for s w
      using v that x by (auto simp: visited_def)
    have ls: "lastPointerOf c mc = Some (last_ptr mc c)" using agree_lastPointer(2) [OF e(1) c(1) a] by blast
    have "visit 65535 0 2 2 ?ma = visit 0 c (last_ptr mc c) (last_ptr mc c) mc"
      using visit_enter [of 2 ?ma 0 c 2 65535] ic1 hc o(1) [OF c(1)] c(2) r ls by (simp add: mc_def)
    moreover have "\<not> extra_word m L (seg_of m 2) (loc_of m 2 + 1)"
      using not_extra_word [OF assms(1,3) order_refl, of 1] o(4) [OF assms(3)] by simp
    then have n1: "hw m1 0 1 = 65535" using ce [OF r(3)] e(4) same_tableD [OF t(1)] same_tableD [OF e(2)] r by (simp add: hw_def)
    let ?mp = "put_bits 8 8 c 1 m1"
    have tp: "same_table m ?mp" using same_table_trans [OF t(1) same_table_puts(1) [OF o(1) [OF c(1)]]] .
    have "hw ?mp 0 1 = 65535" using n1 o(1) [OF c(1)] r same_tableD [OF t(1)] by (simp add: hw_def)
    then have "last_ptr ?mp 0 = 2" using same_tableD(3) [OF tp] r by (simp add: last_ptr_def)
    then have n2: "lastPointerOf 0 ?mp = Some 2" using lastPointerOf_view [of 0 ?mp] ic0 [THEN in_chunk_same [OF tp]] by simp
    have k0: "count_of ?mp 0 = 1" using v e(5) [of 0] c(3) VL o(1) [OF c(1)] by (simp add: visited_def)
    have "visit 0 c 1 sz1 m1 = visit 65535 0 1 2 (leave 0 1 c m1)"
      using visit_leave [OF o(1) [OF c(1)] oop_0_2(1) n2, of 1 sz1] k0 in_chunk_same [OF t(1) ic0(2)] cb r same_tableD [OF t(1)] n1
      by simp
    ultimately have "markObjectsAccessibleFrom 0 m = Some (0, put_bits 8 8 0 1 (leave 0 1 c m1))"
      using start m1(1) visit_end [of 0 2] by simp
    moreover have "marked L m (put_bits 8 8 0 1 (leave 0 1 c m1)) (insert 0 (insert c V))"
    proof -
      have sp: "seg_of ?mp 0 \<noteq> 15" "seg_of ?mp 0 = seg_of m 2" "loc_of ?mp 0 = loc_of m 2" using same_tableD [OF tp] r by simp_all
      have "same_table m (put_bits 8 8 0 1 (leave 0 1 c m1))"
        unfolding leave_def
        using same_table_trans [OF tp same_table_trans [OF same_table_puts(2) [OF sp(1)] same_table_puts(1) [OF oop_0_2(1)]]] .
      moreover have "cell (put_bits 8 8 0 1 (leave 0 1 c m1)) s w = cell m s w" if h: "s \<noteq> 15" "\<not> extra_word m L s w" for s w
      proof (cases "s = seg_of m 2 \<and> w = loc_of m 2 + 1")
        case True
        have "word_of_int c = cell m (seg_of m 2) (loc_of m 2 + 1)" using assms(4) by (auto simp: hw_def)
        then show ?thesis using True h sp by (simp add: leave_def put_hw_def)
      next
        case False
        then have "cell (put_bits 8 8 0 1 (leave 0 1 c m1)) s w = cell m1 s w"
          using h sp by (auto simp: leave_def put_hw_def)
        also have "\<dots> = cell mc s w" using ce [OF h] .
        also have "\<dots> = cell m s w" using e(6) [OF h(1)] False by blast
        finally show ?thesis .
      qed
      moreover have "count_of (put_bits 8 8 0 1 (leave 0 1 c m1)) q = (if q \<in> insert 0 (insert c V) then 1 else count_of m q)"
        if "oop_ok q" for q
        using v e(5) [OF that] sp(1) o(1) [OF c(1)] that by (auto simp: leave_def visited_def)
      ultimately show ?thesis unfolding marked_def by blast
    qed
    ultimately show ?thesis unfolding V by blast
  qed
qed

fun add_roots :: "int list \<Rightarrow> omem \<Rightarrow> omem option" where
  "add_roots [] m = Some m" |
  "add_roots (r # rs) m = do { m \<leftarrow> addRoot r m; add_roots rs m }"

lemma add_roots_append: "add_roots (rs @ qs) m = do { m \<leftarrow> add_roots rs m; add_roots qs m }"
  by (induction rs arbitrary: m) (auto split: option.splits bind_splits)

lemma mark_roots_list:
  assumes "k \<le> 27"
  shows "mark_roots (2 * int k) m = add_roots (map (\<lambda>j. 2 * int j) [k..<27]) m"
  using assms
proof (induction "27 - k" arbitrary: k m)
  case 0
  then show ?case by (subst mark_roots.simps) simp
next
  case (Suc n)
  then have "[k..<27] = k # [Suc k..<27]" by (simp add: upt_conv_Cons)
  moreover have "mark_roots (2 + 2 * int k) = add_roots (map (\<lambda>j. 2 * int j) [Suc k..<27])"
    using Suc.hyps(1) [of "Suc k"] Suc.hyps(2) Suc.prems by (intro ext) simp
  ultimately show ?case using Suc.hyps(2) Suc.prems by (subst mark_roots.simps) (auto simp: add.commute)
qed

lemma marked_trans:
  assumes "marked L m m1 V" "marked L m1 m2 W" "extra_word m1 L = extra_word m L"
  shows "marked L m m2 (V \<union> W)"
  using assms same_table_trans [of m m1 m2] by (simp add: marked_def)

lemma add_roots_mark:
  assumes "graph_ok m L" "set rs \<subseteq> L"
  shows "\<exists>m'. add_roots rs m = Some m' \<and> marked L m m' (wreach (succs m) (whites L m) (set rs))"
  using assms
proof (induction rs arbitrary: m)
  case Nil
  then show ?case by (simp add: marked_def)
next
  case (Cons r rs)
  let ?V = "wreach (succs m) (whites L m) {r}"
  obtain t m1 where m1: "markObjectsAccessibleFrom r m = Some (t, m1)" "marked L m m1 ?V"
    using mark_from [OF Cons.prems(1), of r] Cons.prems(2) by auto
  have "?V \<subseteq> L" using wreach_sub [of "succs m" "whites L m"] by (auto simp: whites_def)
  note g = marked_graph [OF Cons.prems(1) m1(2) this]
  obtain m2 where m2: "add_roots rs m1 = Some m2" "marked L m1 m2 (wreach (succs m1) (whites L m1) (set rs))"
    using Cons.IH [OF g(1)] Cons.prems(2) by auto
  have "wreach (succs m1) (whites L m1) (set rs) = wreach (succs m) (whites L m - ?V) (set rs)"
    unfolding g(3) [symmetric] by (rule wreach_cong) (simp add: g(2) whitesD)
  then have "marked L m m2 (wreach (succs m) (whites L m) (set (r # rs)))"
    using marked_trans [OF m1(2) m2(2) g(4)] wreach_insert [of "succs m" "whites L m" r "set rs"] by simp
  then show ?case using m1 m2 by (simp add: addRoot_def)
qed

section \<open>The marking phase of a collection\<close>

text \<open>The objects reachable from a set of roots.\<close>

inductive_set reachable :: "omem \<Rightarrow> int set \<Rightarrow> int set" for m R where
  root: "p \<in> R \<Longrightarrow> p \<in> reachable m R"
| step: "p \<in> reachable m R \<Longrightarrow> q \<in> succs m p \<Longrightarrow> q \<in> reachable m R"

lemma reachable_sub:
  assumes "graph_ok m L" "R \<subseteq> L"
  shows "reachable m R \<subseteq> L" "wreach (succs m) L R = reachable m R"
proof -
  have "p \<in> reachable m R \<Longrightarrow> p \<in> wreach (succs m) L R" for p
    by (induction rule: reachable.induct)
      (use assms object_okD(7) [OF assms(1)] wreach_sub [of "succs m" L R] in \<open>auto intro: wreach.intros\<close>)
  moreover have "p \<in> wreach (succs m) L R \<Longrightarrow> p \<in> reachable m R" for p
    by (induction rule: wreach.induct) (auto intro: reachable.intros)
  ultimately show "wreach (succs m) L R = reachable m R" by auto
  then show "reachable m R \<subseteq> L" using wreach_sub [of "succs m" L R] by simp
qed

lemma zero_loop_view:
  assumes "k \<le> 32767"
  shows "\<exists>m'. zero_loop (2 * int k) m = Some m' \<and> same_table m m' \<and> (\<forall>s w. s \<noteq> 15 \<longrightarrow> cell m' s w = cell m s w) \<and>
    (\<forall>q. oop_ok q \<longrightarrow> count_of m' q = (if 2 * int k \<le> q then 0 else count_of m q))"
  using assms
proof (induction "32767 - k" arbitrary: k m)
  case 0
  then have "zero_loop (2 * int k) m = Some m" by (subst zero_loop.simps) simp
  then show ?case using 0 by (auto simp: oop_ok_def)
next
  case (Suc n)
  have n: "n = 32767 - Suc k" "Suc k \<le> 32767" using Suc.hyps(2) by linarith+
  have k: "k < 32767" and ok: "oop_ok (2 * int k)" using Suc.hyps(2) by (auto simp: oop_ok_def)
  let ?m = "put_bits 8 8 (2 * int k) 0 m"
  obtain m' where m': "zero_loop (2 * int (Suc k)) ?m = Some m'" "same_table ?m m'"
    "\<forall>s w. s \<noteq> 15 \<longrightarrow> cell m' s w = cell ?m s w"
    "\<forall>q. oop_ok q \<longrightarrow> count_of m' q = (if 2 * int (Suc k) \<le> q then 0 else count_of ?m q)"
    using Suc.hyps(1) [OF n(1), of ?m] n(2) by blast
  have "zero_loop (2 * int k) m = Some m'"
    using k ok m'(1) by (subst zero_loop.simps) (simp add: add.commute)
  moreover have "count_of m' q = (if 2 * int k \<le> q then 0 else count_of m q)" if "oop_ok q" for q
  proof -
    have "2 * int k \<le> q \<longleftrightarrow> q = 2 * int k \<or> 2 * int (Suc k) \<le> q" using that by (auto simp: oop_ok_def elim!: evenE)
    then show ?thesis using m'(4) that ok by auto
  qed
  ultimately show ?case using m' ok same_table_trans [OF same_table_puts(1) [OF ok] m'(2)] by auto
qed

lemma zeroReferenceCounts_view:
  "\<exists>m'. zeroReferenceCounts m = Some m' \<and> same_table m m' \<and> (\<forall>s w. s \<noteq> 15 \<longrightarrow> cell m' s w = cell m s w) \<and>
    (\<forall>q. oop_ok q \<longrightarrow> count_of m' q = 0)"
  using zero_loop_view [of 0 m] by (auto simp: zeroReferenceCounts_def oop_ok_def)

text \<open>What a client of the collector adds to the roots.\<close>

definition client_roots :: "'c gc_client option \<Rightarrow> int list \<Rightarrow> bool" where
  "client_roots gcn rs \<longleftrightarrow> (case gcn of None \<Rightarrow> rs = []
     | Some g \<Rightarrow> (\<forall>m c. prepareForCollection g (m, c) = map_option (\<lambda>m'. (m', c)) (add_roots rs m)))"

definition special_roots :: "int set" where
  "special_roots = {p. 2 \<le> p \<and> p \<le> LastSpecialOop \<and> even p}"

lemma special_roots_list: "set (map (\<lambda>j. 2 * int j) [1..<27]) = special_roots"
proof (rule set_eqI)
  fix p :: int
  have "\<exists>j\<in>{1..<27}. p = 2 * int j" if "2 \<le> p" "p \<le> 52" "even p"
    using that by (intro bexI [of _ "nat (p div 2)"]) auto
  then show "p \<in> set (map (\<lambda>j. 2 * int j) [1..<27]) \<longleftrightarrow> p \<in> special_roots" by (auto simp: special_roots_def image_iff)
qed

lemma marking_phase:
  assumes "graph_ok m L" "reserved_ok m" "special_roots \<union> set rs \<subseteq> L" "client_roots gcn rs"
  shows "\<exists>m1 m'. zeroReferenceCounts m = Some m1 \<and> markAccessibleObjects gcn (m1, c) = Some (m', c) \<and> same_table m m' \<and>
    (\<forall>s w. s \<noteq> 15 \<longrightarrow> \<not> extra_word m L s w \<longrightarrow> cell m' s w = cell m s w) \<and>
    (\<forall>q. oop_ok q \<longrightarrow> count_of m' q = (if q = 0 \<or> q \<in> reachable m (special_roots \<union> set rs) then 1 else 0))"
proof -
  obtain m1 where m1: "zeroReferenceCounts m = Some m1" "same_table m m1" "\<forall>s w. s \<noteq> 15 \<longrightarrow> cell m1 s w = cell m s w"
    "\<forall>q. oop_ok q \<longrightarrow> count_of m1 q = 0" using zeroReferenceCounts_view [of m] by auto
  have h: "hw m1 q i = hw m q i" if "q \<in> L" for q i
    using m1(3) object_okD [OF assms(1) that] by (intro hw_same [OF m1(2)]) auto
  note g = graph_same [OF assms(1) m1(2) h]
  have nil: "2 \<in> L" using assms(3) by (auto simp: special_roots_def)
  have w: "whites L m1 = L" using m1(4) object_okD(1) [OF assms(1)] by (auto simp: whites_def)
  have x: "extra_word m1 L = extra_word m L"
    using g(3) same_tableD [OF m1(2) object_okD(1) [OF assms(1)]] by (auto simp: extra_word_def fun_eq_iff)
  have r1: "reserved_ok m1" using assms(2) same_tableD [OF m1(2)] h [OF nil] by (simp add: reserved_ok_def)
  have z0: "0 \<notin> L" using assms(2) object_okD(2) [OF assms(1)] by (auto simp: reserved_ok_def)
  let ?c = "hw m 2 1"
  have cn: "hw m1 2 1 = ?c" "count_of m1 0 = 0" using h [OF nil] m1(4) by simp_all
  obtain t m2 where m2: "markObjectsAccessibleFrom 0 m1 = Some (t, m2)" "marked L m1 m2 (insert 0 (wreach (succs m1) L {?c}))"
    using mark_reserved [OF g(1) r1 nil cn] unfolding w by blast
  have W1: "wreach (succs m1) L S = wreach (succs m) L S" for S using g(2) by (rule wreach_cong)
  let ?V = "wreach (succs m) L {?c}"
  have v2: "marked L m1 m2 (insert 0 ?V)" using m2(2) unfolding W1 .
  have t2: "same_table m1 m2" using v2 by (simp add: marked_def)
  note g2 = graph_same [OF g(1) t2 marked_words [OF g(1) v2]]
  have x2: "extra_word m2 L = extra_word m1 L"
    using g2(3) same_tableD [OF t2 object_okD(1) [OF assms(1)]] by (auto simp: extra_word_def fun_eq_iff)
  have "?V \<subseteq> L" by (rule wreach_sub)
  have w2: "whites L m2 = L - ?V"
  proof (rule set_eqI)
    fix q show "q \<in> whites L m2 \<longleftrightarrow> q \<in> L - ?V"
      using v2 object_okD(1) [OF assms(1), of q] m1(4) z0 by (auto simp: whites_def marked_def split: if_splits)
  qed
  let ?rs = "map (\<lambda>j. 2 * int j) [1..<27] @ rs"
  have sr: "set ?rs = special_roots \<union> set rs" unfolding set_append special_roots_list ..
  have rsL: "set ?rs \<subseteq> L" using assms(3) unfolding sr .
  obtain m' where m': "add_roots ?rs m2 = Some m'" "marked L m2 m' (wreach (succs m2) (whites L m2) (set ?rs))"
    using add_roots_mark [OF g2(1) rsL] by blast
  have W2: "wreach (succs m2) (L - ?V) S = wreach (succs m) (L - ?V) S" for S
    using g(2) g2(2) by (intro wreach_cong) auto
  let ?R = "reachable m (special_roots \<union> set rs)"
  have "marked L m1 m' (insert 0 ?V \<union> wreach (succs m) (L - ?V) (set ?rs))"
    using marked_trans [OF v2 m'(2) x2] unfolding w2 W2 .
  also have "insert 0 ?V \<union> wreach (succs m) (L - ?V) (set ?rs) = insert 0 (wreach (succs m) L (insert ?c (set ?rs)))"
    unfolding wreach_insert [of "succs m" L ?c "set ?rs"] by blast
  also have "wreach (succs m) L (insert ?c (set ?rs)) = ?R"
  proof (cases "?c \<in> L")
    case True
    have "?c \<in> succs m 2" using object_okD(1,4) [OF assms(1) nil] assms(2) object_okD(1) [OF assms(1) True]
      by (auto simp: succs_def last_ptr_def reserved_ok_def intro!: exI [of _ 1])
    then have c: "?c \<in> ?R" by (intro reachable.step [OF reachable.root [of 2]]) (simp_all add: special_roots_def)
    have "p \<in> reachable m (insert ?c (special_roots \<union> set rs)) \<Longrightarrow> p \<in> ?R" for p
      by (induction rule: reachable.induct) (use c in \<open>auto intro: reachable.intros\<close>)
    moreover have "p \<in> ?R \<Longrightarrow> p \<in> reachable m (insert ?c (special_roots \<union> set rs))" for p
      by (induction rule: reachable.induct) (auto intro: reachable.intros)
    moreover have "wreach (succs m) L (insert ?c (set ?rs)) = reachable m (insert ?c (special_roots \<union> set rs))"
      unfolding sr using assms(3) True by (intro reachable_sub(2) [OF assms(1)]) simp
    ultimately show ?thesis by auto
  next
    case False
    then show ?thesis using reachable_sub(2) [OF assms(1,3)] unfolding sr by (simp add: wreach_skip)
  qed
  finally have v: "marked L m1 m' (insert 0 ?R)" .
  have u: "[0..<27] = 0 # [1..<27]" by (simp add: upt_conv_Cons)
  have "addRoot 0 m1 = Some m2" using m2(1) by (simp add: addRoot_def)
  then have "mark_roots 0 m1 = add_roots (map (\<lambda>j. 2 * int j) [1..<27]) m2"
    using mark_roots_list [of 0 m1] unfolding u by simp
  then have "markAccessibleObjects gcn (m1, c) = map_option (\<lambda>m'. (m', c)) (add_roots ?rs m2)"
    using assms(4) unfolding markAccessibleObjects.simps add_roots_append client_roots_def
    by (auto split: option.splits bind_splits)
  then have "markAccessibleObjects gcn (m1, c) = Some (m', c)" using m'(1) by simp
  then show ?thesis using m1 v same_table_trans [OF m1(2), of m'] unfolding marked_def x by auto
qed

text \<open>C8: Marking by pointer reversal is exact and leaves no trace: in a memory whose chunks do not
overlap and whose pointers are small integers or objects, marking from an object ends, sets the count of
exactly the unmarked objects that are reachable from it through unmarked objects, and keeps every
other count, every table entry and every word of every object.\<close>

theorem marking_exact:
  assumes "graph_ok m L" "p \<in> L"
  shows "\<exists>r m'. markObjectsAccessibleFrom p m = Some (r, m') \<and> same_table m m' \<and>
    (\<forall>q. oop_ok q \<longrightarrow> count_of m' q = (if q \<in> wreach (succs m) (whites L m) {p} then 1 else count_of m q)) \<and>
    (\<forall>q\<in>L. \<forall>i. 0 \<le> i \<and> i < hw m q 0 \<longrightarrow> hw m' q i = hw m q i)"
  using mark_from [OF assms] marked_words [OF assms(1)] unfolding marked_def by blast

text \<open>A memory with the objects up to \<open>n\<close>, each of two words and of the class whose object pointer is 4; the
entries above are free.\<close>

definition ex_roots :: "int \<Rightarrow> int set" where
  "ex_roots n = {p. 2 \<le> p \<and> p \<le> n \<and> even p}"

definition ex_heap :: "int \<Rightarrow> omem" where
  "ex_heap n = \<lparr>cell = \<lambda>s w. if s = 15 then if w = 1 then 2 else if odd w then word_of_int (w - 1) else if 2 \<le> w \<and> w \<le> n then 0x40 else 0x20
       else if even w then 2 else 4,
     currentSegment = 0, freeWords = 0, freeOops = 0\<rparr>"

lemma ex_bits:
  "field_get 0 4 0x40 = 0" "field_get 5 1 0x40 = 0" "field_get 6 1 0x40 = 1" "field_get 8 8 0x40 = 0"
  "field_get 0 4 0x20 = 0" "field_get 5 1 0x20 = 1" "field_get 6 1 0x20 = 0" "field_get 8 8 0x20 = 0"
  by (simp_all add: field_get_def mask_eq_exp_minus_1)

lemma ex_heap_views:
  assumes "p \<in> ex_roots n" "n \<le> 65000"
  shows "oop_ok p" "seg_of (ex_heap n) p = 0" "free_of (ex_heap n) p = 0" "ptr_of (ex_heap n) p = 1" "loc_of (ex_heap n) p = p"
    "hw (ex_heap n) p 0 = 2" "hw (ex_heap n) p 1 = 4" "count_of (ex_heap n) p = 0"
  using assms
  by (simp_all add: ex_heap_def entry_views hw_def ex_roots_def oop_ok_def ex_bits uint_of_int16 del: One_nat_def)

lemma ex_heap_reserved: "4 \<le> n \<Longrightarrow> reserved_ok (ex_heap n)"
  by (simp add: ex_heap_def entry_views hw_def ex_bits reserved_ok_def del: One_nat_def)

lemma ex_heap_graph:
  assumes "4 \<le> n" "n \<le> 65000"
  shows "graph_ok (ex_heap n) (ex_roots n)" "p \<in> ex_roots n \<Longrightarrow> succs (ex_heap n) p = {4}"
proof -
  have i: "\<not> isIntegerObject 4" by (simp add: odd_int_and)
  note v = ex_heap_views [OF _ assms(2)]
  have l: "last_ptr (ex_heap n) p = 2" "chunk_len (ex_heap n) p = 2" if "p \<in> ex_roots n" for p
    using v [OF that] by (simp_all add: last_ptr_def chunk_len_def)
  show s: "succs (ex_heap n) p = {4}" if "p \<in> ex_roots n" for p
  proof -
    have "fields (ex_heap n) p 2 = {4}"
      using fields_step [of 2 "ex_heap n" p] v(7) [OF that] i by simp
    then show ?thesis using fields_simps(2) [of "ex_heap n" p] l(1) [OF that] by simp
  qed
  have "object_ok (ex_heap n) (ex_roots n) p" if p: "p \<in> ex_roots n" for p
  proof -
    have "p \<le> 65000" "4 \<in> ex_roots n" using p assms by (simp_all add: ex_roots_def)
    then show ?thesis using v [OF p] l [OF p] s [OF p] by (simp add: object_ok_def live_def)
  qed
  moreover have "apart (ex_heap n) p q" if "p \<in> ex_roots n" "q \<in> ex_roots n" "p \<noteq> q" for p q
    using that v [OF that(1)] v [OF that(2)] l by (auto simp: apart_def ex_roots_def elim!: evenE)
  ultimately show "graph_ok (ex_heap n) (ex_roots n)" by (auto simp: graph_ok_def)
qed

theorem marking_exact_witness:
  "\<exists>r m'. markObjectsAccessibleFrom 6 (ex_heap 10) = Some (r, m') \<and> hw m' 6 1 = 4 \<and> count_of m' 6 = 1"
proof -
  have p: "6 \<in> ex_roots 10" by (simp add: ex_roots_def)
  have v: "oop_ok 6" "count_of (ex_heap 10) 6 = 0" "hw (ex_heap 10) 6 0 = 2" "hw (ex_heap 10) 6 1 = 4"
    using ex_heap_views [OF p] by simp_all
  have g: "graph_ok (ex_heap 10) (ex_roots 10)" using ex_heap_graph(1) [of 10] by simp
  have w: "6 \<in> wreach (succs (ex_heap 10)) (whites (ex_roots 10) (ex_heap 10)) {6}"
    using p v(2) by (intro wstart) (simp_all add: whites_def)
  obtain r m' where m': "markObjectsAccessibleFrom 6 (ex_heap 10) = Some (r, m')"
    "\<forall>q. oop_ok q \<longrightarrow> count_of m' q = (if q \<in> wreach (succs (ex_heap 10)) (whites (ex_roots 10) (ex_heap 10)) {6} then 1 else count_of (ex_heap 10) q)"
    "\<forall>q\<in>ex_roots 10. \<forall>i. 0 \<le> i \<and> i < hw (ex_heap 10) q 0 \<longrightarrow> hw m' q i = hw (ex_heap 10) q i"
    using marking_exact [OF g p] by blast
  have "hw m' 6 1 = 4" using bspec [OF m'(3) p] v by simp
  moreover have "count_of m' 6 = 1" using m'(2) v(1) w by simp
  ultimately show ?thesis using m'(1) by blast
qed

text \<open>The marking phase of a collection computes reachability: after the counts are zeroed and the roots
(the special objects and those the client adds) are marked, the count of an object is one exactly when the object is
reachable from a root, zero otherwise (the reserved object pointer 0 keeps the mark it gets as a root), and no table
entry and no word of an object has changed.\<close>

theorem collection_marks_reachable:
  assumes "graph_ok m L" "reserved_ok m" "special_roots \<union> set rs \<subseteq> L" "client_roots gcn rs"
  shows "\<exists>m1 m'. zeroReferenceCounts m = Some m1 \<and> markAccessibleObjects gcn (m1, c) = Some (m', c) \<and> same_table m m' \<and>
    (\<forall>q. oop_ok q \<longrightarrow> count_of m' q = (if q = 0 \<or> q \<in> reachable m (special_roots \<union> set rs) then 1 else 0)) \<and>
    (\<forall>q\<in>L. \<forall>i. 0 \<le> i \<and> i < hw m q 0 \<longrightarrow> hw m' q i = hw m q i)"
proof -
  obtain m1 m' where m': "zeroReferenceCounts m = Some m1" "markAccessibleObjects gcn (m1, c) = Some (m', c)" "same_table m m'"
    "\<forall>s w. s \<noteq> 15 \<longrightarrow> \<not> extra_word m L s w \<longrightarrow> cell m' s w = cell m s w"
    "\<forall>q. oop_ok q \<longrightarrow> count_of m' q = (if q = 0 \<or> q \<in> reachable m (special_roots \<union> set rs) then 1 else 0)"
    using marking_phase [OF assms, where c = c] by blast
  have "hw m' q i = hw m q i" if "q \<in> L" "0 \<le> i" "i < hw m q 0" for q i
    using m'(4) that not_extra_word [OF assms(1) that(1) order_refl that(2)] object_okD [OF assms(1) that(1)]
    by (intro hw_same [OF m'(3)]) auto
  then show ?thesis using m' by blast
qed

lemma ex_heap_roots:
  "52 \<le> n \<Longrightarrow> special_roots \<union> set [] \<subseteq> ex_roots n" "client_roots None []" "special_roots = ex_roots 52"
  by (auto simp: special_roots_def ex_roots_def client_roots_def)

lemma ex_heap_reachable:
  assumes "52 \<le> n" "n \<le> 65000"
  shows "reachable (ex_heap n) (special_roots \<union> set []) = special_roots"
proof -
  have r: "special_roots \<subseteq> ex_roots n" using ex_heap_roots(1) [OF assms(1)] by simp
  have "p \<in> reachable (ex_heap n) (special_roots \<union> set []) \<Longrightarrow> p \<in> special_roots" for p
  proof (induction rule: reachable.induct)
    case (step p q)
    then have "q = 4" using ex_heap_graph(2) [of n p] r assms by auto
    then show ?case by (simp add: special_roots_def)
  qed simp
  then show ?thesis by (auto intro: reachable.root)
qed

theorem collection_marks_reachable_witness:
  "\<exists>m1 m'. zeroReferenceCounts (ex_heap 60) = Some m1 \<and> markAccessibleObjects None (m1, ()) = Some (m', ()) \<and>
    count_of m' 52 = 1 \<and> count_of m' 54 = 0"
proof -
  have "graph_ok (ex_heap 60) (ex_roots 60)" "reserved_ok (ex_heap 60)" "special_roots \<union> set [] \<subseteq> ex_roots 60"
    using ex_heap_graph [of 60] ex_heap_reserved [of 60] ex_heap_roots(1) [of 60] by simp_all
  note c = collection_marks_reachable [OF this ex_heap_roots(2), where c = "()"]
  have r: "reachable (ex_heap 60) (special_roots \<union> set []) = special_roots" by (rule ex_heap_reachable) simp_all
  obtain m1 m' where m': "zeroReferenceCounts (ex_heap 60) = Some m1" "markAccessibleObjects None (m1, ()) = Some (m', ())"
    "\<forall>q. oop_ok q \<longrightarrow> count_of m' q = (if q = 0 \<or> q \<in> special_roots then 1 else 0)"
    using c unfolding r by blast
  have "oop_ok 52" "oop_ok 54" "52 \<in> special_roots" "54 \<notin> special_roots" by (simp_all add: oop_ok_def special_roots_def)
  then have "count_of m' 52 = 1" "count_of m' 54 = 0" using m'(3) by simp_all
  then show ?thesis using m'(1,2) by blast
qed

end
