(* ===== verification/OmSweepProps.thy ===== *)
theory OmSweepProps
  imports OmMarkProps
begin

text \<open>
  The second half of a collection: the free-chunk lists are emptied, the unmarked chunks are put on them,
  and the counts of the marked objects become the numbers of references to them.
\<close>

section \<open>Frames\<close>

definition same_entries :: "omem \<Rightarrow> omem \<Rightarrow> bool" where
  "same_entries m m' \<longleftrightarrow> currentSegment m' = currentSegment m \<and>
     (\<forall>q. oop_ok q \<longrightarrow> seg_of m' q = seg_of m q \<and> loc_of m' q = loc_of m q \<and> ptr_of m' q = ptr_of m q \<and>
        odd_of m' q = odd_of m q \<and> free_of m' q = free_of m q)"

lemma same_entriesD:
  assumes "same_entries m m'" "oop_ok q"
  shows "seg_of m' q = seg_of m q" "loc_of m' q = loc_of m q" "ptr_of m' q = ptr_of m q"
    "odd_of m' q = odd_of m q" "free_of m' q = free_of m q"
  using assms by (auto simp: same_entries_def)

lemma same_entries_simps [intro]: "same_entries m m" "same_table m m' \<Longrightarrow> same_entries m m'"
  by (auto simp: same_entries_def same_table_def)

lemma same_entries_trans: "same_entries a b \<Longrightarrow> same_entries b c \<Longrightarrow> same_entries a c"
  by (auto simp: same_entries_def)

text \<open>The heads of the free-chunk lists lie above every chunk.\<close>

definition list_head :: "int \<Rightarrow> bool" where
  "list_head w \<longleftrightarrow> FirstFreeChunkList + HeaderSize \<le> w"

definition heads_only :: "omem \<Rightarrow> omem \<Rightarrow> bool" where
  "heads_only m m' \<longleftrightarrow> currentSegment m' = currentSegment m \<and> freeWords m' = freeWords m \<and> freeOops m' = freeOops m \<and>
     (\<forall>s w. s = 15 \<or> \<not> list_head w \<longrightarrow> cell m' s w = cell m s w)"

lemma heads_onlyI: "heads_only m m" "s \<noteq> 15 \<Longrightarrow> list_head w \<Longrightarrow> heads_only m (set_cell s w x m)"
  by (auto simp: heads_only_def)

lemma heads_only_trans: "heads_only a b \<Longrightarrow> heads_only b c \<Longrightarrow> heads_only a c"
  by (auto simp: heads_only_def)

section \<open>Emptying the lists\<close>

lemma head_read:
  assumes "2 \<le> sz" "sz \<le> 20" "0 \<le> sg" "sg < 16"
  shows "headOfFreeChunkList_inSegment sz sg m = Some (uint (cell m sg (65515 + sz)))"
  using assms by (simp add: headOfFreeChunkList_inSegment_def segment_word_def seg_ok_def)

lemma head_write:
  assumes "2 \<le> sz" "sz \<le> 20" "0 \<le> sg" "sg < 16" "0 \<le> v" "v < 65536"
  shows "headOfFreeChunkList_inSegment_put sz sg v m = Some (set_cell sg (65515 + sz) (word_of_int v) m)"
  using assms by (simp add: headOfFreeChunkList_inSegment_put_def segment_word_put_def seg_ok_def)

lemma reset_sizes_view:
  assumes "2 \<le> sz" "sz \<le> 21" "0 \<le> sg" "sg < 15"
  shows "\<exists>m'. reset_sizes sz sg m = Some m' \<and> heads_only m m' \<and> (\<forall>k. sz \<le> k \<and> k \<le> 20 \<longrightarrow> cell m' sg (65515 + k) = 65535) \<and>
    (\<forall>s w. s \<noteq> sg \<or> w < 65515 + sz \<longrightarrow> cell m' s w = cell m s w)"
  using assms
proof (induction "nat (21 - sz)" arbitrary: sz m)
  case 0
  then show ?case by (subst reset_sizes.simps) (auto intro: heads_onlyI)
next
  case (Suc n)
  then have sz: "sz \<le> 20" "nat (21 - (sz + 1)) = n" by auto
  let ?m = "set_cell sg (65515 + sz) (word_of_int 65535) m"
  have "resetFreeChunkList_inSegment sz sg m = Some ?m"
    using Suc.prems sz by (simp add: resetFreeChunkList_inSegment_def head_write)
  moreover obtain m' where m': "reset_sizes (sz + 1) sg ?m = Some m'" "heads_only ?m m'"
    "\<forall>k. sz + 1 \<le> k \<and> k \<le> 20 \<longrightarrow> cell m' sg (65515 + k) = 65535" "\<forall>s w. s \<noteq> sg \<or> w < 65515 + (sz + 1) \<longrightarrow> cell m' s w = cell ?m s w"
    using Suc.hyps(1) [of "sz + 1" ?m] sz Suc.prems by auto
  moreover have "heads_only m m'" using Suc.prems by (intro heads_only_trans [OF heads_onlyI(2) m'(2)]) (auto simp: list_head_def)
  moreover have "cell m' sg (65515 + k) = 65535" if "sz \<le> k" "k \<le> 20" for k
    using m'(3,4) that by (cases "k = sz") auto
  ultimately show ?case using sz by (subst reset_sizes.simps) auto
qed

lemma reset_lists_view:
  assumes "0 \<le> sg" "sg \<le> 15"
  shows "\<exists>m'. reset_lists sg m = Some m' \<and> heads_only m m' \<and>
    (\<forall>s k. sg \<le> s \<and> s < 15 \<and> 2 \<le> k \<and> k \<le> 20 \<longrightarrow> cell m' s (65515 + k) = 65535) \<and>
    (\<forall>s w. s < sg \<longrightarrow> cell m' s w = cell m s w)"
  using assms
proof (induction "nat (15 - sg)" arbitrary: sg m)
  case 0
  then show ?case by (subst reset_lists.simps) (auto intro: heads_onlyI)
next
  case (Suc n)
  then have sg: "sg < 15" "nat (15 - (sg + 1)) = n" by auto
  obtain m1 where m1: "reset_sizes 2 sg m = Some m1" "heads_only m m1" "\<forall>k. 2 \<le> k \<and> k \<le> 20 \<longrightarrow> cell m1 sg (65515 + k) = 65535"
    "\<forall>s w. s \<noteq> sg \<or> w < 65515 + 2 \<longrightarrow> cell m1 s w = cell m s w"
    using reset_sizes_view [of 2 sg m] Suc.prems sg by auto
  obtain m' where m': "reset_lists (sg + 1) m1 = Some m'" "heads_only m1 m'"
    "\<forall>s k. sg + 1 \<le> s \<and> s < 15 \<and> 2 \<le> k \<and> k \<le> 20 \<longrightarrow> cell m' s (65515 + k) = 65535" "\<forall>s w. s < sg + 1 \<longrightarrow> cell m' s w = cell m1 s w"
    using Suc.hyps(1) [of "sg + 1" m1] sg Suc.prems by auto
  have "cell m' s (65515 + k) = 65535" if "sg \<le> s" "s < 15" "2 \<le> k" "k \<le> 20" for s k
    using m1(3) m'(3,4) that by (cases "s = sg") auto
  then show ?case using m1 m' sg heads_only_trans [OF m1(2) m'(2)] by (subst reset_lists.simps) auto
qed

section \<open>Putting a chunk on a list\<close>

definition chunk_ok :: "omem \<Rightarrow> int \<Rightarrow> bool" where
  "chunk_ok m p \<longleftrightarrow> oop_ok p \<and> seg_of m p \<noteq> 15 \<and> HeaderSize \<le> hw m p 0 \<and> loc_of m p + chunk_len m p \<le> FirstFreeChunkList"

lemma chunk_okD:
  assumes "chunk_ok m p"
  shows "oop_ok p" "0 \<le> seg_of m p" "seg_of m p < 15" "2 \<le> hw m p 0" "2 \<le> chunk_len m p" "chunk_len m p < 65536"
    "loc_of m p + chunk_len m p \<le> 65515" "in_chunk m p 0" "in_chunk m p 1"
  using assms entry_bounds [of m p] chunk_len_bounds(1) [of m p] by (auto simp: chunk_ok_def in_chunk_def)

lemma deallocate_view:
  assumes "chunk_ok m p"
  shows "\<exists>m'. deallocate p m = Some m' \<and> currentSegment m' = currentSegment m \<and> freeWords m' = freeWords m \<and> freeOops m' = freeOops m \<and>
    hw m' p 0 = chunk_len m p \<and> hw m' p 1 = uint (cell m (seg_of m p) (65515 + min (chunk_len m p) 20)) \<and>
    cell m' (seg_of m p) (65515 + min (chunk_len m p) 20) = word_of_int p \<and>
    (\<forall>s w. s \<noteq> seg_of m p \<or> w \<noteq> loc_of m p \<and> w \<noteq> loc_of m p + 1 \<and> w \<noteq> 65515 + min (chunk_len m p) 20 \<longrightarrow> cell m' s w = cell m s w)"
proof -
  note c = chunk_okD [OF assms]
  let ?k = "min (chunk_len m p) 20" and ?sg = "seg_of m p"
  let ?m1 = "put_hw p 0 (chunk_len m p) m" and ?h = "uint (cell m ?sg (65515 + ?k))"
  let ?m2 = "put_hw p 1 ?h ?m1"
  have s: "?sg \<noteq> 15" using c by simp
  have k: "2 \<le> ?k" "?k \<le> 20" "?sg < 16" using c by auto
  have p: "0 \<le> p" "p < 65536" using c by (auto simp: oop_ok_def)
  have h1: "uint (cell ?m1 ?sg (65515 + ?k)) = ?h" using c by (auto simp: put_hw_def)
  have ic: "in_chunk ?m1 p 1" using c s by (simp add: in_chunk_def)
  have "deallocate p m = Some (set_cell ?sg (65515 + ?k) (word_of_int p) ?m2)"
    unfolding deallocate_def toFreeChunkList_add_def
    using c s k p ic h1 uint16 by (simp add: spaceOccupiedBy_view sizeBitsOf_put_def classBitsOf_put_def head_read head_write)
  moreover have "hw (set_cell ?sg (65515 + ?k) (word_of_int p) ?m2) p 0 = chunk_len m p"
    "hw (set_cell ?sg (65515 + ?k) (word_of_int p) ?m2) p 1 = ?h"
    using c s k uint16 uint_of_int16 [of "chunk_len m p"] uint_of_int16 [of ?h]
    by (auto simp: hw_put_hw)
  ultimately show ?thesis using s by (simp add: put_hw_def)
qed

section \<open>Counting the references of an object\<close>

text \<open>The number of pointers to \<open>q\<close> among the words of \<open>p\<close> from \<open>k\<close> to its last pointer.\<close>

definition refs_from :: "omem \<Rightarrow> int \<Rightarrow> int \<Rightarrow> int \<Rightarrow> nat" where
  "refs_from m p k q = card {i. k \<le> i \<and> i < last_ptr m p \<and> hw m p i = q}"

lemma refs_from_end: "last_ptr m p \<le> k \<Longrightarrow> refs_from m p k q = 0"
  by (auto simp: refs_from_def intro!: card_eq_0_iff [THEN iffD2])

lemma refs_from_step:
  assumes "k < last_ptr m p"
  shows "refs_from m p k q = refs_from m p (k + 1) q + (if hw m p k = q then 1 else 0)"
proof -
  have f: "finite {i. k + 1 \<le> i \<and> i < last_ptr m p \<and> hw m p i = q}"
    by (rule finite_subset [of _ "{k + 1..<last_ptr m p}"]) auto
  have e: "k \<le> i \<and> i < last_ptr m p \<and> hw m p i = q \<longleftrightarrow>
      i = k \<and> hw m p k = q \<or> k + 1 \<le> i \<and> i < last_ptr m p \<and> hw m p i = q" for i
    using assms by (cases "i = k") auto
  have "{i. k \<le> i \<and> i < last_ptr m p \<and> hw m p i = q} =
    (if hw m p k = q then insert k {i. k + 1 \<le> i \<and> i < last_ptr m p \<and> hw m p i = q}
     else {i. k + 1 \<le> i \<and> i < last_ptr m p \<and> hw m p i = q})"
    unfolding e by auto
  then show ?thesis using f by (simp add: refs_from_def)
qed

lemma countUp_view:
  assumes "isIntegerObject p \<or> oop_ok p"
  shows "countUp p m = Some (if \<not> isIntegerObject p \<and> count_of m p < 128 then put_bits 8 8 p (count_of m p + 1) m else m)"
  using assms entry_bounds [of m p] by (auto simp: countUp_def)

text \<open>Nothing but counts.\<close>

definition counts_only :: "omem \<Rightarrow> omem \<Rightarrow> bool" where
  "counts_only m m' \<longleftrightarrow> same_table m m' \<and> (\<forall>s w. s \<noteq> 15 \<longrightarrow> cell m' s w = cell m s w)"

lemma counts_onlyI: "counts_only m m" "oop_ok p \<Longrightarrow> counts_only m (put_bits 8 8 p v m)"
  by (auto simp: counts_only_def same_table_puts)

lemma counts_only_trans: "counts_only a b \<Longrightarrow> counts_only b c \<Longrightarrow> counts_only a c"
  by (auto simp: counts_only_def intro: same_table_trans)

lemma counts_only_hw: "counts_only m m' \<Longrightarrow> oop_ok q \<Longrightarrow> seg_of m q \<noteq> 15 \<Longrightarrow> hw m' q i = hw m q i"
  by (auto simp: counts_only_def intro: hw_same)

lemma counts_only_last: "counts_only m m' \<Longrightarrow> oop_ok q \<Longrightarrow> seg_of m q \<noteq> 15 \<Longrightarrow> last_ptr m' q = last_ptr m q"
  using counts_only_hw [of m m' q] same_tableD(3) [of m m' q] by (simp add: last_ptr_def counts_only_def)

lemma count_fields_view:
  assumes "oop_ok p" "seg_of m p \<noteq> 15" "1 \<le> k" "k \<le> last_ptr m p"
    "\<And>i. k \<le> i \<Longrightarrow> i < last_ptr m p \<Longrightarrow> in_chunk m p i \<and> (isIntegerObject (hw m p i) \<or> oop_ok (hw m p i))"
    "\<And>q. oop_ok q \<Longrightarrow> count_of m q \<le> 128"
  shows "\<exists>m'. count_fields p k (last_ptr m p - 1) m = Some m' \<and> counts_only m m' \<and>
    (\<forall>q. oop_ok q \<longrightarrow> count_of m' q = min 128 (count_of m q + int (refs_from m p k q)))"
  using assms
proof (induction "nat (last_ptr m p - k)" arbitrary: k m)
  case 0
  then show ?case by (subst count_fields.simps) (auto simp: refs_from_end intro: counts_onlyI)
next
  case (Suc n)
  then have k: "k < last_ptr m p" "nat (last_ptr m p - (k + 1)) = n" by auto
  let ?x = "hw m p k"
  define m1 where "m1 = (if \<not> isIntegerObject ?x \<and> count_of m ?x < 128 then put_bits 8 8 ?x (count_of m ?x + 1) m else m)"
  have x: "isIntegerObject ?x \<or> oop_ok ?x" "in_chunk m p k" using Suc.prems(5) [of k] k by auto
  then have up: "countUp ?x m = Some m1" using countUp_view by (simp add: m1_def)
  have c: "counts_only m m1" using x by (auto simp: m1_def intro: counts_onlyI)
  have cq: "count_of m1 q = min 128 (count_of m q + (if q = ?x then 1 else 0))" if "oop_ok q" for q
    using Suc.prems(6) [OF that] x that entry_bounds [of m q] entry_bounds [of m ?x] by (auto simp: m1_def)
  have h: "hw m1 p i = hw m p i" "last_ptr m1 p = last_ptr m p" "seg_of m1 p = seg_of m p" for i
    using counts_only_hw [OF c] counts_only_last [OF c] Suc.prems(1,2) c same_tableD [of m m1 p] by (auto simp: counts_only_def)
  have "in_chunk m1 p i" if "in_chunk m p i" for i using in_chunk_same [of m m1] c that by (auto simp: counts_only_def)
  then obtain m' where m': "count_fields p (k + 1) (last_ptr m1 p - 1) m1 = Some m'" "counts_only m1 m'"
    "\<forall>q. oop_ok q \<longrightarrow> count_of m' q = min 128 (count_of m1 q + int (refs_from m1 p (k + 1) q))"
    using Suc.hyps(1) [of m1 "k + 1"] k Suc.prems cq h by auto
  have r: "refs_from m1 p (k + 1) q = refs_from m p (k + 1) q" for q using h by (simp add: refs_from_def)
  have "count_of m' q = min 128 (count_of m q + int (refs_from m p k q))" if "oop_ok q" for q
    using m'(3) that cq [OF that] refs_from_step [OF k(1), of q] by (auto simp: r)
  moreover have "count_fields p k (last_ptr m p - 1) m = Some m'"
    using m'(1) up x k h by (subst count_fields.simps) simp
  ultimately show ?case using counts_only_trans [OF c m'(2)] by blast
qed

section \<open>The sweep\<close>

text \<open>A memory in which every table entry that is not free has a chunk, no two chunks overlap, and exactly the
objects of \<open>R\<close>, which is closed, are marked.\<close>

definition swept_ok :: "omem \<Rightarrow> int set \<Rightarrow> bool" where
  "swept_ok b R \<longleftrightarrow> graph_ok b R \<and> (\<forall>p. live b p \<longrightarrow> chunk_ok b p) \<and>
     (\<forall>p q. live b p \<longrightarrow> live b q \<longrightarrow> p \<noteq> q \<longrightarrow> apart b p q) \<and>
     (\<forall>q. oop_ok q \<longrightarrow> count_of b q = (if q = 0 \<or> q \<in> R then 1 else 0)) \<and> free_of b 0 \<noteq> 0"

text \<open>References to \<open>q\<close> from the objects below \<open>k\<close>.\<close>

definition refs_below :: "omem \<Rightarrow> int set \<Rightarrow> int \<Rightarrow> int \<Rightarrow> nat" where
  "refs_below b R k q = (\<Sum>p\<in>{p \<in> R. p < k}. refs_from b p 1 q)"

text \<open>A count that is exact up to 126 and sticks from there.\<close>

definition count_fits :: "nat \<Rightarrow> int \<Rightarrow> bool" where
  "count_fits n c \<longleftrightarrow> (if n < 127 then c = int n else c = 127 \<or> c = 128)"

definition swept :: "omem \<Rightarrow> int set \<Rightarrow> int \<Rightarrow> omem \<Rightarrow> bool" where
  "swept b R k m \<longleftrightarrow> same_entries b m \<and> freeOops m = freeOops b \<and>
     (\<forall>q\<in>R. \<forall>i. 0 \<le> i \<and> i < chunk_len b q \<longrightarrow> hw m q i = hw b q i) \<and>
     (\<forall>q. live b q \<and> k \<le> q \<longrightarrow> hw m q 0 = hw b q 0) \<and>
     (\<forall>q. oop_ok q \<and> q \<notin> R \<longrightarrow> count_of m q = (if q = 0 then 1 else 0)) \<and>
     (\<forall>q\<in>R. if k \<le> q then count_of m q = min 128 (1 + int (refs_below b R k q)) else count_fits (refs_below b R k q) (count_of m q)) \<and>
     freeWords m = freeWords b + (\<Sum>p\<in>{p. live b p \<and> p \<notin> R \<and> p < k}. chunk_len b p)"

text \<open>One step of the sweep, as the words outside the table show it: an unmarked chunk becomes the head of its list
and its class word the head before; otherwise nothing changes.\<close>

definition sweep_step :: "omem \<Rightarrow> int set \<Rightarrow> int \<Rightarrow> omem \<Rightarrow> omem \<Rightarrow> bool" where
  "sweep_step b R k m m' \<longleftrightarrow>
     (if live b k \<and> k \<notin> R
      then (let s = seg_of b k; h = 65515 + min (chunk_len b k) 20
            in hw m' k 1 = uint (cell m s h) \<and> cell m' s h = word_of_int k \<and>
               (\<forall>t w. t \<noteq> s \<or> w \<noteq> loc_of b k \<and> w \<noteq> loc_of b k + 1 \<and> w \<noteq> h \<longrightarrow> cell m' t w = cell m t w))
      else \<forall>t w. t \<noteq> 15 \<longrightarrow> cell m' t w = cell m t w)"

lemma below_step:
  fixes k :: int
  assumes "even k" "\<And>q. q \<in> S \<Longrightarrow> even q" "finite S"
  shows "{q \<in> S. q < k + 2} = (if k \<in> S then insert k {q \<in> S. q < k} else {q \<in> S. q < k})" "k \<notin> {q \<in> S. q < k}"
    "finite {q \<in> S. q < k}"
proof -
  have "q < k + 2 \<longleftrightarrow> q = k \<or> q < k" if "q \<in> S" for q using assms(1) assms(2) [OF that] by (auto elim!: evenE)
  then show "{q \<in> S. q < k + 2} = (if k \<in> S then insert k {q \<in> S. q < k} else {q \<in> S. q < k})" by auto
qed (use assms in auto)

lemma refs_below_step:
  assumes "finite R" "\<And>q. q \<in> R \<Longrightarrow> oop_ok q" "even k"
  shows "refs_below b R (k + 2) q = refs_below b R k q + (if k \<in> R then refs_from b k 1 q else 0)"
  using below_step [OF assms(3) _ assms(1)] assms(2) by (auto simp: refs_below_def oop_ok_def)

lemma live_even: "live b q \<Longrightarrow> even q" "finite {p. live b p \<and> P p}"
  by (auto simp: live_def oop_ok_def intro: finite_subset [OF _ oop_finite])

lemma next_even: "oop_ok q \<Longrightarrow> even (k :: int) \<Longrightarrow> k + 2 \<le> q \<longleftrightarrow> k \<le> q \<and> q \<noteq> k"
  by (auto simp: oop_ok_def elim!: evenE)

lemma garbage_step:
  assumes "even k"
  shows "(\<Sum>p\<in>{p. live b p \<and> p \<notin> R \<and> p < k + 2}. chunk_len b p) =
    (\<Sum>p\<in>{p. live b p \<and> p \<notin> R \<and> p < k}. chunk_len b p) + (if live b k \<and> k \<notin> R then chunk_len b k else 0)"
proof -
  let ?S = "{p. live b p \<and> p \<notin> R}"
  have e: "{p. live b p \<and> p \<notin> R \<and> p < j} = {p \<in> ?S. p < j}" for j by auto
  have "q \<in> ?S \<Longrightarrow> even q" for q using live_even(1) by auto
  note st = below_step [OF assms this live_even(2)]
  have "{p. live b p \<and> p \<notin> R \<and> p < k + 2} =
      (if k \<in> ?S then insert k {p. live b p \<and> p \<notin> R \<and> p < k} else {p. live b p \<and> p \<notin> R \<and> p < k})"
    unfolding e by (rule st(1))
  then show ?thesis using st(2,3) [folded e] by simp
qed

lemma freeWords_views [simp]:
  "seg_of (m\<lparr>freeWords := v\<rparr>) p = seg_of m p" "loc_of (m\<lparr>freeWords := v\<rparr>) p = loc_of m p"
  "ptr_of (m\<lparr>freeWords := v\<rparr>) p = ptr_of m p" "odd_of (m\<lparr>freeWords := v\<rparr>) p = odd_of m p"
  "free_of (m\<lparr>freeWords := v\<rparr>) p = free_of m p" "count_of (m\<lparr>freeWords := v\<rparr>) p = count_of m p"
  "hw (m\<lparr>freeWords := v\<rparr>) p i = hw m p i" "chunk_len (m\<lparr>freeWords := v\<rparr>) p = chunk_len m p"
  "in_chunk (m\<lparr>freeWords := v\<rparr>) p i = in_chunk m p i" "chunk_ok (m\<lparr>freeWords := v\<rparr>) p = chunk_ok m p"
  by (simp_all add: entry_views hw_def chunk_len_def in_chunk_def chunk_ok_def)

lemma freeOops_views:
  "seg_of (m\<lparr>freeOops := v\<rparr>) p = seg_of m p" "loc_of (m\<lparr>freeOops := v\<rparr>) p = loc_of m p"
  "ptr_of (m\<lparr>freeOops := v\<rparr>) p = ptr_of m p" "odd_of (m\<lparr>freeOops := v\<rparr>) p = odd_of m p"
  "free_of (m\<lparr>freeOops := v\<rparr>) p = free_of m p" "count_of (m\<lparr>freeOops := v\<rparr>) p = count_of m p"
  "hw (m\<lparr>freeOops := v\<rparr>) p i = hw m p i"
  by (simp_all add: entry_views hw_def)

lemma same_entries_cells:
  assumes "\<And>w. cell m' 15 w = cell m 15 w" "currentSegment m' = currentSegment m"
  shows "same_entries m m'" "count_of m' q = count_of m q"
  using assms by (simp_all add: same_entries_def entry_views)

lemma swept_garbage:
  assumes "swept_ok b R" "swept b R k m" "even k" "live b k" "k \<notin> R"
  shows "\<exists>m'. rectify k m = Some m' \<and> swept b R (k + 2) m' \<and> sweep_step b R k m m'"
proof -
  have G: "graph_ok b R" "finite R" and ok: "oop_ok k" using assms graph_finite by (auto simp: swept_ok_def live_def)
  have k0: "k \<noteq> 0" using assms(1,4) by (auto simp: swept_ok_def live_def)
  have e: "same_entries b m" and s: "hw m k 0 = hw b k 0" "count_of m k = 0" using assms ok k0 by (auto simp: swept_def)
  have cl: "chunk_len m k = chunk_len b k" "chunk_ok m k" "live m k"
    using assms s same_entriesD [OF e ok] by (auto simp: chunk_len_def chunk_ok_def swept_ok_def live_def)
  define mf where "mf = m\<lparr>freeWords := freeWords m + chunk_len b k\<rparr>"
  have cf: "chunk_ok mf k" using cl by (simp add: mf_def)
  obtain m' where m': "deallocate k mf = Some m'" "currentSegment m' = currentSegment mf" "freeWords m' = freeWords mf" "freeOops m' = freeOops mf"
    "hw m' k 1 = uint (cell mf (seg_of mf k) (65515 + min (chunk_len mf k) 20))"
    "cell m' (seg_of mf k) (65515 + min (chunk_len mf k) 20) = word_of_int k"
    "\<forall>s w. s \<noteq> seg_of mf k \<or> w \<noteq> loc_of mf k \<and> w \<noteq> loc_of mf k + 1 \<and> w \<noteq> 65515 + min (chunk_len mf k) 20 \<longrightarrow> cell m' s w = cell mf s w"
    using deallocate_view [OF cf] by blast
  have r: "rectify k m = Some m'"
    using ok cl s m'(1) chunk_okD(8) [OF cl(2)] by (simp add: rectify_def live_def spaceOccupiedBy_view mf_def)
  have "cell m' 15 w = cell mf 15 w" for w using m'(7) chunk_okD(3) [OF cf] by auto
  then have "cell m' 15 w = cell m 15 w" "currentSegment m' = currentSegment m" for w using m'(2) by (simp_all add: mf_def)
  note se = same_entries_cells [OF this]
  have hw': "hw m' q i = hw m q i" if q: "live b q" "q \<noteq> k" "0 \<le> i" "i < chunk_len b q" for q i
  proof -
    have "apart b q k" "chunk_ok b q" "chunk_ok b k" using assms q by (auto simp: swept_ok_def)
    note c = chunk_okD [OF this(2)] chunk_okD [OF this(3)] and a = this(1)
    have "seg_of b q = seg_of b k \<Longrightarrow> loc_of b q + i \<noteq> loc_of b k \<and> loc_of b q + i \<noteq> loc_of b k + 1 \<and>
        loc_of b q + i \<noteq> 65515 + min (chunk_len b k) 20"
      using a c(5,7,14) q(3,4) by (auto simp: apart_def)
    then have "cell m' (seg_of b q) (loc_of b q + i) = cell mf (seg_of b q) (loc_of b q + i)"
      using m'(7) same_entriesD [OF e ok] by (auto simp: mf_def cl)
    then show ?thesis using same_entriesD [OF same_entries_trans [OF e se(1)] c(1)] same_entriesD [OF e c(1)]
      by (simp add: hw_def mf_def)
  qed
  have RL: "live b q \<and> q \<noteq> k" if "q \<in> R" for q using object_okD [OF G(1) that] that assms by (auto simp: live_def)
  have "0 < chunk_len b q" if "live b q" for q using chunk_okD(5) [of b q] assms(1) that by (auto simp: swept_ok_def)
  then have z: "hw m' q 0 = hw b q 0" if "live b q" "k + 2 \<le> q" for q
    using hw' [OF that(1), of 0] that assms(2) by (auto simp: swept_def)
  have rb: "refs_below b R (k + 2) q = refs_below b R k q" for q
    using refs_below_step [OF G(2) _ assms(3)] object_okD(1) [OF G(1)] assms(5) by simp
  have w: "hw m' q i = hw b q i" if "q \<in> R" "0 \<le> i" "i < chunk_len b q" for q i
    using hw' [of q i] RL [OF that(1)] that assms(2) by (auto simp: swept_def)
  have c: "if k + 2 \<le> q then count_of m' q = min 128 (1 + int (refs_below b R (k + 2) q))
     else count_fits (refs_below b R (k + 2) q) (count_of m' q)" if "q \<in> R" for q
    using assms(2) that next_even [OF object_okD(1) [OF G(1) that] assms(3)] RL [OF that]
    by (auto simp: swept_def se(2) rb split: if_splits)
  have "freeWords m' = freeWords b + (\<Sum>p\<in>{p. live b p \<and> p \<notin> R \<and> p < k + 2}. chunk_len b p)"
    unfolding garbage_step [OF assms(3)] using assms(2,4,5) m'(3) by (simp add: swept_def mf_def)
  moreover have "freeOops m' = freeOops b" "\<forall>q. oop_ok q \<and> q \<notin> R \<longrightarrow> count_of m' q = (if q = 0 then 1 else 0)"
    using assms(2) m'(4) by (simp_all add: swept_def mf_def se(2))
  ultimately have "swept b R (k + 2) m'"
    using same_entries_trans [OF e se(1)] z w c unfolding swept_def by blast
  moreover have "sweep_step b R k m m'"
    using m'(5-7) cl(1) same_entriesD [OF e ok] assms(4,5) by (simp add: sweep_step_def Let_def mf_def)
  ultimately show ?thesis using r by blast
qed

lemma count_fits_add: "count_fits n c \<Longrightarrow> count_fits (n + r) (min 128 (c + int r))"
  by (auto simp: count_fits_def split: if_splits)

lemma count_fits_start: "c = min 128 (1 + int n) \<Longrightarrow> count_fits n (if c < 128 then c - 1 else c)"
  by (auto simp: count_fits_def)

lemma count_fits_le: "count_fits n c \<Longrightarrow> c \<le> 128"
  by (auto simp: count_fits_def split: if_splits)

lemma swept_counts_le:
  assumes "swept b R k m" "oop_ok q"
  shows "count_of m q \<le> 128"
proof (cases "q \<in> R")
  case True
  then show ?thesis using assms(1) count_fits_le by (cases "k \<le> q") (auto simp: swept_def)
next
  case False
  then show ?thesis using assms by (simp add: swept_def)
qed

lemma swept_marked:
  assumes "swept_ok b R" "swept b R k m" "k \<in> R"
  shows "\<exists>m'. rectify k m = Some m' \<and> swept b R (k + 2) m' \<and> sweep_step b R k m m'"
proof -
  have G: "graph_ok b R" "finite R" using assms graph_finite by (auto simp: swept_ok_def)
  note o = object_okD [OF G(1) assms(3)]
  have ek: "even k" using o(1) by (simp add: oop_ok_def)
  have e: "same_entries b m" and w: "\<And>q i. q \<in> R \<Longrightarrow> 0 \<le> i \<Longrightarrow> i < chunk_len b q \<Longrightarrow> hw m q i = hw b q i"
    using assms(2) by (auto simp: swept_def)
  let ?c = "count_of m k"
  have c: "?c = min 128 (1 + int (refs_below b R k k))" using assms by (auto simp: swept_def)
  define m1 where "m1 = (if ?c < 128 then put_bits 8 8 k (?c - 1) m else m)"
  have m1: "counts_only m m1" using o(1) by (auto simp: m1_def intro: counts_onlyI)
  have c1: "count_of m1 q = (if q = k then if ?c < 128 then ?c - 1 else ?c else count_of m q)" if "oop_ok q" for q
    using that o(1) c entry_bounds [of m k] by (auto simp: m1_def)
  have t1: "same_entries b m1" using e m1 by (auto simp: counts_only_def intro: same_entries_trans)
  have s: "seg_of m q \<noteq> 15" if "q \<in> R" for q
    using same_entriesD [OF e] object_okD [OF G(1) that] by simp
  have w1: "hw m1 q i = hw b q i" if "q \<in> R" "0 \<le> i" "i < chunk_len b q" for q i
    using counts_only_hw [OF m1 object_okD(1) [OF G(1) that(1)] s [OF that(1)]] w [OF that] by simp
  have kc: "i < chunk_len b k" if "i < last_ptr b k" for i using that o(6) chunk_len_bounds(1) [of b k] by simp
  have h2: "hw m1 k 2 = hw b k 2" if "ptr_of b k = 0" "hw b k 1 = 34"
    using last_ptr_bounds(4) [OF that] kc by (intro w1 assms(3)) auto
  have l: "last_ptr m1 k = last_ptr b k"
    using w1 [OF assms(3), of 0] w1 [OF assms(3), of 1] h2 same_entriesD [OF t1 o(1)] o(4) chunk_len_bounds(1) [of b k]
    by (auto simp: last_ptr_def)
  have ic: "in_chunk m1 k i" if "in_chunk b k i" for i using that same_entriesD [OF t1 o(1)] by (simp add: in_chunk_def)
  have lp: "lastPointerOf k m1 = Some (last_ptr b k)"
    using lastPointerOf_view [OF o(1) object_in_chunk(2-4) [OF G(1) assms(3), THEN ic]] l by simp
  have f: "in_chunk m1 k i \<and> (isIntegerObject (hw m1 k i) \<or> hw m1 k i \<in> R)" if "1 \<le> i" "i < last_ptr b k" for i
    using that o(7) ic [OF object_in_chunk(1) [OF G(1) assms(3)], of i] kc [OF that(2)] w1 [OF assms(3), of i]
    by (auto simp: succs_def)
  have r: "refs_from m1 k 1 q = refs_from b k 1 q" for q
  proof -
    have "{i. 1 \<le> i \<and> i < last_ptr b k \<and> hw m1 k i = q} = {i. 1 \<le> i \<and> i < last_ptr b k \<and> hw b k i = q}"
      using w1 [OF assms(3)] kc by auto
    then show ?thesis by (simp add: refs_from_def l)
  qed
  have le: "oop_ok q \<Longrightarrow> count_of m1 q \<le> 128" for q
    using c1 [of q] swept_counts_le [OF assms(2)] c by auto
  obtain m' where m': "count_fields k 1 (last_ptr b k - 1) m1 = Some m'" "counts_only m1 m'"
    "\<forall>q. oop_ok q \<longrightarrow> count_of m' q = min 128 (count_of m1 q + int (refs_from b k 1 q))"
    using count_fields_view [of k m1 1] o(1) f object_okD(1) [OF G(1)] le last_ptr_bounds(1) [of b k] o(4) l
      same_entriesD [OF t1 o(1)] o(3) by (auto simp: r)
  have "?c \<noteq> 0" "0 \<le> ?c - 1" "?c - 1 < 256" using c by auto
  then have "(if ?c < 128 then countBitsOf_put k (?c - 1) m else Some m) = Some m1" "?c \<noteq> 0"
    using o(1) by (auto simp: m1_def)
  then have "rectify k m = Some m'"
    using o(1,2) same_entriesD(5) [OF e o(1)] m'(1) lp by (simp add: rectify_def)
  moreover have "swept b R (k + 2) m'"
  proof -
    have sg: "seg_of m1 q \<noteq> 15" "oop_ok q" if "live b q" for q
      using same_entriesD [OF t1] that assms(1) chunk_okD(1,3) [of b q] by (auto simp: swept_ok_def)
    have hw': "hw m' q i = hw m q i" if "live b q" for q i
      using counts_only_hw [OF counts_only_trans [OF m1 m'(2)] sg(2) [OF that]] sg [OF that] same_entriesD [OF e] same_entriesD [OF t1]
      by simp
    have RL: "live b q" if "q \<in> R" for q using object_okD [OF G(1) that] by (simp add: live_def)
    have rb: "refs_below b R (k + 2) q = refs_below b R k q + refs_from b k 1 q" for q
      using refs_below_step [OF G(2) _ ek] object_okD(1) [OF G(1)] assms(3) by simp
    have nr: "refs_from b k 1 q = 0" if "q \<notin> R" "oop_ok q" for q
    proof -
      have "hw b k i \<in> succs b k" if "1 \<le> i" "i < last_ptr b k" "hw b k i = q" for i
        using that \<open>oop_ok q\<close> by (auto simp: succs_def)
      then have e: "{i. 1 \<le> i \<and> i < last_ptr b k \<and> hw b k i = q} = {}" using that(1) o(7) by blast
      show ?thesis unfolding refs_from_def e by simp
    qed
    have cs: "if k + 2 \<le> q then count_of m' q = min 128 (1 + int (refs_below b R (k + 2) q))
      else count_fits (refs_below b R (k + 2) q) (count_of m' q)" if q: "q \<in> R" for q
    proof (cases "q = k")
      case True
      then show ?thesis using m'(3) c1 [OF o(1)] count_fits_add [OF count_fits_start [OF c], of "refs_from b k 1 k"] o(1)
        by (simp add: rb)
    next
      case False
      have qo: "oop_ok q" using object_okD(1) [OF G(1) q] .
      have "count_of m' q = min 128 (count_of m q + int (refs_from b k 1 q))" using m'(3) c1 [OF qo] False qo by simp
      then show ?thesis
        using assms(2) q False next_even [OF qo ek] count_fits_add [of "refs_below b R k q" "count_of m q" "refs_from b k 1 q"]
        by (cases "k \<le> q") (auto simp: swept_def rb)
    qed
    have z: "count_of m' q = (if q = 0 then 1 else 0)" if "oop_ok q" "q \<notin> R" for q
      using m'(3) c1 [OF that(1)] nr [OF that(2,1)] that assms(2,3) by (auto simp: swept_def)
    have g: "(\<Sum>p\<in>{p. live b p \<and> p \<notin> R \<and> p < k + 2}. chunk_len b p) = (\<Sum>p\<in>{p. live b p \<and> p \<notin> R \<and> p < k}. chunk_len b p)"
      using garbage_step [OF ek, of b R] assms(3) by simp
    have "same_entries b m'" "freeOops m' = freeOops m" "freeWords m' = freeWords m"
      using same_entries_trans [OF e same_entries_simps(2)] counts_only_trans [OF m1 m'(2)]
      by (simp_all add: counts_only_def) (simp_all add: same_table_def)
    then show ?thesis using assms(2) hw' RL cs z next_even ek by (auto simp: swept_def g)
  qed
  moreover have "sweep_step b R k m m'"
    using counts_only_trans [OF m1 m'(2)] assms(3) by (simp add: sweep_step_def counts_only_def)
  ultimately show ?thesis by blast
qed

lemma rectify_loop_view:
  assumes "swept_ok b R" "swept b R (2 * int k) m" "k \<le> 32767" "J (2 * int k) m"
    and step: "\<forall>k m m'. even k \<and> swept b R k m \<and> J k m \<and> sweep_step b R k m m' \<and> same_entries b m' \<longrightarrow> J (k + 2) m'"
  shows "\<exists>m'. rectify_loop (2 * int k) m = Some m' \<and> swept b R 65534 m' \<and> J 65534 m'"
  using assms(1-4)
proof (induction "32767 - k" arbitrary: k m)
  case 0
  then have "rectify_loop (2 * int k) m = Some m" by (subst rectify_loop.simps) simp
  then show ?case using 0 by simp
next
  case (Suc n)
  have n: "n = 32767 - Suc k" "Suc k \<le> 32767" using Suc.hyps(2) by linarith+
  then have ok: "oop_ok (2 * int k)" by (simp add: oop_ok_def)
  have "\<exists>m1. rectify (2 * int k) m = Some m1 \<and> swept b R (2 * int k + 2) m1 \<and> sweep_step b R (2 * int k) m m1"
  proof (cases "live b (2 * int k)")
    case True
    then show ?thesis using swept_garbage [OF Suc.prems(1,2)] swept_marked [OF Suc.prems(1,2)]
      by (cases "2 * int k \<in> R") auto
  next
    case False
    have R: "2 * int k \<notin> R" "\<And>q. q \<in> R \<Longrightarrow> oop_ok q" "finite R"
      using False object_okD(1,2) Suc.prems(1) graph_finite by (auto simp: swept_ok_def live_def)
    have "free_of m (2 * int k) \<noteq> 0"
      using Suc.prems(2) False ok by (auto simp: swept_def live_def same_entries_def)
    then have "rectify (2 * int k) m = Some m" using ok by (simp add: rectify_def)
    moreover have "refs_below b R (2 * int k + 2) q = refs_below b R (2 * int k) q" for q
      using refs_below_step [OF R(3,2), where k = "2 * int k" and q = q and b = b] R(1) by simp
    moreover have "(2 * int k + 2 \<le> q \<longleftrightarrow> 2 * int k \<le> q)" if "q \<in> R" for q
      using next_even [OF R(2) [OF that], of "2 * int k"] R(1) that by auto
    ultimately have "swept b R (2 * int k + 2) m"
      using Suc.prems(2) False by (auto simp: swept_def garbage_step)
    moreover have "sweep_step b R (2 * int k) m m" using False by (simp add: sweep_step_def)
    ultimately show ?thesis using \<open>rectify (2 * int k) m = Some m\<close> by blast
  qed
  then obtain m1 where m1: "rectify (2 * int k) m = Some m1" "swept b R (2 * int (Suc k)) m1" "sweep_step b R (2 * int k) m m1"
    by (auto simp: add.commute)
  have "J (2 * int (Suc k)) m1"
    using step [rule_format, of "2 * int k" m m1] Suc.prems(2,4) m1(2,3) by (simp add: swept_def add.commute)
  then obtain m' where m': "rectify_loop (2 * int (Suc k)) m1 = Some m'" "swept b R 65534 m'" "J 65534 m'"
    using Suc.hyps(1) [OF n(1) Suc.prems(1) m1(2) n(2)] by blast
  have "rectify_loop (2 * int k) m = Some m'" using m1(1) m'(1) n by (subst rectify_loop.simps) (simp add: add.commute)
  then show ?case using m'(2,3) by blast
qed

section \<open>Counting the free object pointers\<close>

definition no_object :: "omem \<Rightarrow> int \<Rightarrow> bool" where
  "no_object m p \<longleftrightarrow> free_of m p \<noteq> 0 \<or> count_of m p = 0"

lemma audit_loop_view:
  assumes "k \<le> 32767"
  shows "audit_loop (2 * int k) n m = Some (n + int (card {q. oop_ok q \<and> 2 * int k \<le> q \<and> no_object m q}))"
  using assms
proof (induction "32767 - k" arbitrary: k n)
  case 0
  then have "audit_loop (2 * int k) n m = Some n" by (subst audit_loop.simps) simp
  moreover have e: "{q. oop_ok q \<and> 2 * int k \<le> q \<and> no_object m q} = {}" using 0 by (auto simp: oop_ok_def)
  ultimately show ?case unfolding e by simp
next
  case (Suc j)
  have n: "j = 32767 - Suc k" "Suc k \<le> 32767" using Suc.hyps(2) by linarith+
  then have ok: "oop_ok (2 * int k)" by (simp add: oop_ok_def)
  let ?S = "\<lambda>k. {q. oop_ok q \<and> 2 * int k \<le> q \<and> no_object m q}"
  have "finite (?S (Suc k))" "2 * int k \<notin> ?S (Suc k)" by (auto intro: finite_subset [OF _ oop_finite])
  moreover have "q \<in> ?S k \<longleftrightarrow> q = 2 * int k \<and> no_object m q \<or> q \<in> ?S (Suc k)" for q
    using next_even [of q "2 * int k"] ok by auto
  then have "?S k = (if no_object m (2 * int k) then insert (2 * int k) (?S (Suc k)) else ?S (Suc k))" by auto
  ultimately have c: "card (?S k) = card (?S (Suc k)) + (if no_object m (2 * int k) then 1 else 0)" by simp
  have h: "free_of m (2 * int k) = 0 \<and> count_of m (2 * int k) \<noteq> 0 \<longleftrightarrow> \<not> no_object m (2 * int k)" by (auto simp: no_object_def)
  have "audit_loop (2 * int k) n m = audit_loop (2 * int (Suc k)) (if no_object m (2 * int k) then n + 1 else n) m"
    using n ok by (subst audit_loop.simps) (simp add: h add.commute)
  then show ?case unfolding Suc.hyps(1) [OF n] c by simp
qed

lemma auditFreeOops_view: "auditFreeOops m = Some (int (card {q. oop_ok q \<and> q \<noteq> 0 \<and> no_object m q}))"
proof -
  have "oop_ok q \<and> 2 \<le> q \<and> no_object m q \<longleftrightarrow> oop_ok q \<and> q \<noteq> 0 \<and> no_object m q" for q
    by (auto simp: oop_ok_def elim!: evenE)
  then show ?thesis using audit_loop_view [of 1 0 m] by (simp add: auditFreeOops_def)
qed

section \<open>A collection\<close>

text \<open>A memory that can be collected: every entry that is not free has a chunk, chunks do not overlap,
and the objects of \<open>L\<close> refer to small integers and each other.\<close>

definition memory_ok :: "omem \<Rightarrow> int set \<Rightarrow> bool" where
  "memory_ok m L \<longleftrightarrow> graph_ok m L \<and> (\<forall>p. live m p \<longrightarrow> chunk_ok m p) \<and>
     (\<forall>p q. live m p \<longrightarrow> live m q \<longrightarrow> p \<noteq> q \<longrightarrow> apart m p q)"

definition references :: "omem \<Rightarrow> int set \<Rightarrow> int \<Rightarrow> nat" where
  "references m R q = (\<Sum>p\<in>R. refs_from m p 1 q)"

lemma graph_sub:
  assumes "graph_ok m L" "R \<subseteq> L" "\<And>p. p \<in> R \<Longrightarrow> succs m p \<subseteq> R"
  shows "graph_ok m R"
proof -
  have "p \<in> L" if "p \<in> R" for p using assms(2) that by blast
  then show ?thesis using assms(1,3) by (simp add: graph_ok_def object_ok_def)
qed

lemma live_same: "same_entries m b \<Longrightarrow> live b p \<longleftrightarrow> live m p"
  by (auto simp: live_def same_entries_def)

lemma marked_and_reset:
  assumes "memory_ok m L" "reserved_ok m" "special_roots \<union> set rs \<subseteq> L" "client_roots gcn rs"
  defines "R \<equiv> reachable m (special_roots \<union> set rs)"
  shows "\<exists>m1 m2 b. zeroReferenceCounts m = Some m1 \<and> markAccessibleObjects gcn (m1, c) = Some (m2, c) \<and> reset_lists 0 m2 = Some b \<and>
    swept_ok b R \<and> same_entries m b \<and> freeWords b = freeWords m \<and> (\<forall>p. live m p \<longrightarrow> chunk_len b p = chunk_len m p) \<and>
    (\<forall>p\<in>L. \<forall>i. 0 \<le> i \<and> i < hw m p 0 \<longrightarrow> hw b p i = hw m p i) \<and> (\<forall>p\<in>R. last_ptr b p = last_ptr m p)"
proof -
  have G: "graph_ok m L" using assms by (simp add: memory_ok_def)
  obtain m1 m2 where m2: "zeroReferenceCounts m = Some m1" "markAccessibleObjects gcn (m1, c) = Some (m2, c)" "same_table m m2"
    "\<forall>s w. s \<noteq> 15 \<longrightarrow> \<not> extra_word m L s w \<longrightarrow> cell m2 s w = cell m s w"
    "\<forall>q. oop_ok q \<longrightarrow> count_of m2 q = (if q = 0 \<or> q \<in> R then 1 else 0)"
    using marking_phase [OF G assms(2-4), where c = c] unfolding R_def by blast
  obtain b where b: "reset_lists 0 m2 = Some b" "heads_only m2 b" using reset_lists_view [of 0 m2] by auto
  have e: "same_entries m2 b" "count_of b q = count_of m2 q" for q
    using same_entries_cells [of b m2] b(2) by (auto simp: heads_only_def)
  have mb: "same_entries m b" using m2(3) e(1) by (auto intro: same_entries_trans)
  have t: "same_table m b" using mb m2(3) b(2) by (auto simp: same_table_def same_entries_def heads_only_def)
  have h: "hw b p i = hw m p i" if "live m p" "0 \<le> i" "i < hw m p 0" for p i
  proof -
    have c: "chunk_ok m p" using assms(1) that by (simp add: memory_ok_def)
    have "\<not> extra_word m L (seg_of m p) (loc_of m p + i)"
    proof
      assume "extra_word m L (seg_of m p) (loc_of m p + i)"
      then obtain q where q: "q \<in> L" "256 \<le> hw m q 0" "ptr_of m q \<noteq> 0" "seg_of m p = seg_of m q" "loc_of m p + i = loc_of m q + hw m q 0"
        by (auto simp: extra_word_def)
      have "live m q" using object_okD [OF G q(1)] by (simp add: live_def)
      then have "p \<noteq> q \<Longrightarrow> apart m p q" using assms(1) that by (simp add: memory_ok_def)
      then show False using q that chunk_len_bounds [of m q] chunk_len_bounds [of m p] by (cases "p = q") (auto simp: apart_def)
    qed
    moreover have "\<not> list_head (loc_of m p + i)" using chunk_okD(7) [OF c] chunk_len_bounds(1) [of m p] that by (simp add: list_head_def)
    ultimately have "cell b (seg_of m p) (loc_of m p + i) = cell m (seg_of m p) (loc_of m p + i)"
      using m2(4) b(2) chunk_okD(3) [OF c] by (simp add: heads_only_def)
    then show ?thesis using hw_same [OF t chunk_okD(1) [OF c]] by simp
  qed
  have LL: "live m p" if "p \<in> L" for p using object_okD [OF G that] by (simp add: live_def)
  have co: "chunk_ok m p" if "live m p" for p using assms(1) that by (simp add: memory_ok_def)
  have cl: "chunk_len b p = chunk_len m p" "hw b p 0 = hw m p 0" if "live m p" for p
    using h [OF that, of 0] chunk_okD [OF co [OF that]] same_tableD(3) [OF t, of p] by (simp_all add: chunk_len_def)
  note g = graph_same [OF G t h [OF LL]]
  have RL: "R \<subseteq> L" unfolding R_def using reachable_sub(1) [OF G assms(3)] .
  have "succs b p \<subseteq> R" if "p \<in> R" for p
    using that RL g(2) [of p] unfolding R_def by (auto intro: reachable.step)
  then have "graph_ok b R" using graph_sub [OF g(1) RL] by blast
  moreover have "chunk_ok b p" if "live b p" for p
    using co [of p] cl [of p] that live_same [OF mb] same_entriesD [OF mb, of p] by (auto simp: chunk_ok_def)
  moreover have "apart b p q" if "live b p" "live b q" "p \<noteq> q" for p q
    using assms(1) that cl live_same [OF mb] same_entriesD [OF mb chunk_okD(1) [OF co]] by (auto simp: memory_ok_def apart_def)
  moreover have "free_of b 0 \<noteq> 0" using assms(2) same_entriesD(5) [OF mb, of 0] by (simp add: reserved_ok_def)
  ultimately have "swept_ok b R" using m2(5) e(2) by (auto simp: swept_ok_def)
  moreover have "last_ptr b p = last_ptr m p" if "p \<in> R" for p
  proof -
    have p: "p \<in> L" using that RL by blast
    have "hw b p 2 = hw m p 2" if "ptr_of m p = 0" "hw m p 1 = 34"
      using last_ptr_bounds(4) [OF that] object_okD(6) [OF G p] by (intro h [OF LL [OF p]]) auto
    then show ?thesis using h [OF LL [OF p], of 0] h [OF LL [OF p], of 1] object_okD [OF G p] same_tableD [OF t, of p]
      by (auto simp: last_ptr_def)
  qed
  moreover have "freeWords b = freeWords m" using t by (simp add: same_table_def)
  ultimately show ?thesis using m2 b mb h LL cl by blast
qed

lemma sweep_phase:
  assumes "swept_ok b R" "reset_lists 0 m2 = Some b" "J 0 b"
    and step: "\<forall>k m m'. even k \<and> swept b R k m \<and> J k m \<and> sweep_step b R k m m' \<and> same_entries b m' \<longrightarrow> J (k + 2) m'"
  shows "\<exists>m'. rectifyCountsAndDeallocateGarbage gcn (m2, c) = (case gcn of None \<Rightarrow> Some (m', c) | Some g \<Rightarrow> collectionCompleted g (m', c)) \<and>
    same_entries b m' \<and> (\<forall>q\<in>R. \<forall>i. 0 \<le> i \<and> i < chunk_len b q \<longrightarrow> hw m' q i = hw b q i) \<and>
    (\<forall>q. oop_ok q \<and> q \<notin> R \<and> q \<noteq> NilPointer \<longrightarrow> count_of m' q = (if q = 0 then 1 else 0)) \<and>
    (\<forall>q\<in>R. q \<noteq> NilPointer \<longrightarrow> count_fits (references b R q) (count_of m' q)) \<and> count_of m' NilPointer = 128 \<and>
    freeWords m' = freeWords b + (\<Sum>p\<in>{p. live b p \<and> p \<notin> R}. chunk_len b p) \<and>
    freeOops m' = int (card {q. oop_ok q \<and> q \<noteq> 0 \<and> no_object m' q}) \<and>
    (\<exists>m3. J 65534 m3 \<and> same_entries b m3 \<and> (\<forall>s w. s \<noteq> 15 \<longrightarrow> cell m' s w = cell m3 s w))"
proof -
  have G: "graph_ok b R" using assms by (simp add: swept_ok_def)
  have lt: "0 \<le> q \<and> q < 65534" if "live b q \<or> q \<in> R" for q using that object_okD(1) [OF G, of q] by (auto simp: live_def oop_ok_def)
  have "{p \<in> R. p < 0} = {}" "{p. live b p \<and> p \<notin> R \<and> p < 0} = {}" using lt by force+
  then have "refs_below b R 0 q = 0" "(\<Sum>p\<in>{p. live b p \<and> p \<notin> R \<and> p < 0}. chunk_len b p) = 0" for q
    by (simp_all only: refs_below_def sum.empty)
  then have "swept b R 0 b"
    using assms(1) lt object_okD(1) [OF G] by (auto simp: swept_def swept_ok_def)
  then have "\<exists>m3. rectify_loop (2 * int 0) b = Some m3 \<and> swept b R 65534 m3 \<and> J 65534 m3"
    by (intro rectify_loop_view [OF assms(1)] assms(4)) (simp_all add: assms(3))
  then obtain m3 where m3: "rectify_loop 0 b = Some m3" "swept b R 65534 m3" "J 65534 m3" by auto
  note s = m3(2)
  have nil: "oop_ok 2" by (simp add: oop_ok_def)
  let ?m4 = "put_bits 8 8 2 128 m3"
  let ?n = "int (card {q. oop_ok q \<and> q \<noteq> 0 \<and> no_object ?m4 q})"
  let ?m' = "?m4\<lparr>freeOops := ?n\<rparr>"
  note v = freeOops_views [where m = ?m4]
  have run: "rectifyCountsAndDeallocateGarbage gcn (m2, c) = (case gcn of None \<Rightarrow> Some (?m', c) | Some g \<Rightarrow> collectionCompleted g (?m', c))"
    using assms(2) m3(1) nil auditFreeOops_view [of ?m4]
    by (simp add: rectifyCountsAndDeallocateGarbage.simps split: option.splits)
  have e: "same_entries b ?m'" using s nil by (auto simp: swept_def same_entries_def v)
  have w: "hw ?m' q i = hw b q i" if "q \<in> R" "0 \<le> i" "i < chunk_len b q" for q i
  proof -
    have "seg_of m3 q \<noteq> 15" "oop_ok q" using s object_okD [OF G that(1)] by (auto simp: swept_def same_entries_def)
    then show ?thesis using s that nil unfolding v by (simp add: swept_def hw_def)
  qed
  have "{p \<in> R. p < 65534} = R" "{p. live b p \<and> p \<notin> R \<and> p < 65534} = {p. live b p \<and> p \<notin> R}" using lt by auto
  then have rf: "refs_below b R 65534 q = references b R q"
    "freeWords m3 = freeWords b + (\<Sum>p\<in>{p. live b p \<and> p \<notin> R}. chunk_len b p)" for q
    using s by (simp_all add: refs_below_def references_def swept_def)
  have "\<not> 65534 \<le> q" if "q \<in> R" for q using lt [of q] that by auto
  then have c: "count_fits (references b R q) (count_of ?m' q)" if "q \<in> R" "q \<noteq> 2" for q
    using s that object_okD(1) [OF G that(1)] nil unfolding v by (auto simp: swept_def rf)
  have z: "count_of ?m' q = (if q = 0 then 1 else 0)" if "oop_ok q" "q \<notin> R" "q \<noteq> 2" for q
    using s that nil unfolding v by (simp add: swept_def)
  have "no_object ?m' q = no_object ?m4 q" for q by (simp add: no_object_def v)
  then have f: "freeOops ?m' = int (card {q. oop_ok q \<and> q \<noteq> 0 \<and> no_object ?m' q})" by simp
  have n: "count_of ?m' 2 = 128" "freeWords ?m' = freeWords m3" unfolding v using nil by simp_all
  have fin: "\<exists>m3. J 65534 m3 \<and> same_entries b m3 \<and> (\<forall>s w. s \<noteq> 15 \<longrightarrow> cell ?m' s w = cell m3 s w)"
    using m3(3) s nil by (intro exI [of _ m3]) (simp add: swept_def put_defs)
  show ?thesis by (rule exI [of _ ?m'], intro conjI fin) (use n run e w c z rf(2) f in auto)
qed

lemma refs_from_same:
  assumes "graph_ok m L" "p \<in> R" "\<forall>p\<in>R. last_ptr b p = last_ptr m p" "\<forall>p\<in>L. \<forall>i. 0 \<le> i \<and> i < hw m p 0 \<longrightarrow> hw b p i = hw m p i" "p \<in> L"
  shows "refs_from b p 1 q = refs_from m p 1 q"
proof -
  have "last_ptr m p \<le> hw m p 0" using object_okD(6) [OF assms(1,5)] .
  then have "{i. 1 \<le> i \<and> i < last_ptr m p \<and> hw b p i = q} = {i. 1 \<le> i \<and> i < last_ptr m p \<and> hw m p i = q}"
    using assms(4,5) by auto
  then show ?thesis using assms(2,3) by (simp add: refs_from_def)
qed

lemma ex_heap_live:
  assumes "live (ex_heap n) p"
  shows "p \<in> ex_roots n"
proof (rule ccontr)
  assume "p \<notin> ex_roots n"
  then have "cell (ex_heap n) 15 p = 0x20"
    using assms by (auto simp: live_def oop_ok_def ex_roots_def ex_heap_def)
  then have "free_of (ex_heap n) p = 1" by (simp add: free_of_def ex_bits del: One_nat_def)
  then show False using assms by (simp add: live_def)
qed

lemma ex_heap_memory:
  assumes "4 \<le> n" "n \<le> 65000"
  shows "memory_ok (ex_heap n) (ex_roots n)"
proof -
  note g = ex_heap_graph(1) [OF assms]
  have "object_ok (ex_heap n) (ex_roots n) p" if "live (ex_heap n) p" for p
    using g ex_heap_live [OF that] by (simp add: graph_ok_def)
  moreover have "apart (ex_heap n) p q" if "live (ex_heap n) p" "live (ex_heap n) q" "p \<noteq> q" for p q
    using g ex_heap_live [OF that(1)] ex_heap_live [OF that(2)] that(3) by (simp add: graph_ok_def)
  ultimately show ?thesis
    using g by (simp add: memory_ok_def chunk_ok_def object_ok_def live_def)
qed

lemma ex_heap_60: "memory_ok (ex_heap 60) (ex_roots 60)" "reserved_ok (ex_heap 60)" "special_roots \<union> set [] \<subseteq> ex_roots 60"
  "client_roots None []" "reachable (ex_heap 60) (special_roots \<union> set []) = special_roots"
  using ex_heap_memory [of 60] ex_heap_reserved [of 60] ex_heap_roots(1) [of 60] ex_heap_roots(2) ex_heap_reachable [of 60] by simp_all

section \<open>Two defects of the free space\<close>

text \<open>A collection adds to the number of free words the space of every chunk that is not reachable, those that
were free before the collection included: it counts free space again at each collection.\<close>

theorem collection_recounts_free_space:
  assumes "memory_ok m L" "reserved_ok m" "special_roots \<subseteq> L"
  shows "\<exists>m'. garbageCollect None (m, c) = Some (m', c) \<and>
    freeWords m' = freeWords m + (\<Sum>p\<in>{p. live m p \<and> p \<notin> reachable m special_roots}. chunk_len m p)"
proof -
  have r: "special_roots \<union> set [] \<subseteq> L" "client_roots None []" "special_roots \<union> set [] = special_roots"
    using assms(3) by (simp_all add: client_roots_def)
  obtain m1 m2 b where b: "zeroReferenceCounts m = Some m1" "markAccessibleObjects None (m1, c) = Some (m2, c)" "reset_lists 0 m2 = Some b"
    "swept_ok b (reachable m special_roots)" "same_entries m b" "freeWords b = freeWords m" "\<forall>p. live m p \<longrightarrow> chunk_len b p = chunk_len m p"
    using marked_and_reset [OF assms(1,2) r(1,2), where c = c] unfolding r(3) by blast
  obtain m' where "rectifyCountsAndDeallocateGarbage None (m2, c) = Some (m', c)"
    "freeWords m' = freeWords b + (\<Sum>p\<in>{p. live b p \<and> p \<notin> reachable m special_roots}. chunk_len b p)"
    using sweep_phase [OF b(4,3), where J = "\<lambda>_ _. True" and gcn = None and c = c] by auto
  moreover have "(\<Sum>p\<in>{p. live b p \<and> p \<notin> reachable m special_roots}. chunk_len b p) =
    (\<Sum>p\<in>{p. live m p \<and> p \<notin> reachable m special_roots}. chunk_len m p)"
    using live_same [OF b(5)] b(7) by (intro sum.cong) auto
  ultimately show ?thesis using b(1,2,6) by (simp add: garbageCollect_def reclaimInaccessibleObjects.simps)
qed

text \<open>The entry 54 of the example is a free chunk of two words: its count is zero before the collection.\<close>

theorem collection_recounts_free_space_witness:
  "count_of (ex_heap 54) 54 = 0 \<and> freeWords (ex_heap 54) = 0 \<and>
    (\<exists>m'. garbageCollect None (ex_heap 54, ()) = Some (m', ()) \<and> freeWords m' = 2)"
proof -
  have m: "memory_ok (ex_heap 54) (ex_roots 54)" "reserved_ok (ex_heap 54)" "special_roots \<subseteq> ex_roots 54"
    using ex_heap_memory [of 54] ex_heap_reserved [of 54] ex_heap_roots(1) [of 54] by simp_all
  have v: "54 \<in> ex_roots 54" by (simp add: ex_roots_def)
  have r: "reachable (ex_heap 54) special_roots = special_roots" using ex_heap_reachable [of 54] by simp
  have "{p. live (ex_heap 54) p \<and> p \<notin> special_roots} = {54}"
  proof (intro equalityI subsetI)
    fix p assume "p \<in> {p. live (ex_heap 54) p \<and> p \<notin> special_roots}"
    then have "p \<in> ex_roots 54" "p \<notin> special_roots" using ex_heap_live [of 54 p] by auto
    then show "p \<in> {54}" by (auto simp: ex_roots_def special_roots_def elim!: evenE)
  qed (use ex_heap_views(1,3) [OF v] in \<open>simp add: live_def special_roots_def\<close>)
  moreover have "chunk_len (ex_heap 54) 54 = 2" using ex_heap_views(6) [OF v] by (simp add: chunk_len_def)
  moreover have "freeWords (ex_heap 54) = 0" by (simp add: ex_heap_def)
  ultimately show ?thesis
    using collection_recounts_free_space [OF m, where c = "()"] ex_heap_views(8) [OF v] unfolding r by simp
qed

text \<open>A collection does not protect its roots: a special object that no reachable object refers to has the count zero
afterwards, so that it counts as no object although it was marked.\<close>

theorem unreferenced_root_lost:
  assumes "memory_ok m L" "reserved_ok m" "special_roots \<subseteq> L" "p \<in> special_roots" "p \<noteq> NilPointer"
    "references m (reachable m special_roots) p = 0"
  shows "\<exists>m'. garbageCollect None (m, c) = Some (m', c) \<and> hasObject p m' = Some False"
proof -
  have r: "special_roots \<union> set [] \<subseteq> L" "client_roots None []" "special_roots \<union> set [] = special_roots"
    using assms(3) by (simp_all add: client_roots_def)
  have p: "oop_ok p" "p \<in> reachable m special_roots" using assms(4) by (auto simp: special_roots_def oop_ok_def intro: reachable.root)
  obtain m1 m2 b where b: "zeroReferenceCounts m = Some m1" "markAccessibleObjects None (m1, c) = Some (m2, c)" "reset_lists 0 m2 = Some b"
    "swept_ok b (reachable m special_roots)" "\<forall>p\<in>reachable m special_roots. last_ptr b p = last_ptr m p"
    "\<forall>p\<in>L. \<forall>i. 0 \<le> i \<and> i < hw m p 0 \<longrightarrow> hw b p i = hw m p i"
    using marked_and_reset [OF assms(1,2) r(1,2), where c = c] unfolding r(3) by blast
  obtain m' where m': "rectifyCountsAndDeallocateGarbage None (m2, c) = Some (m', c)"
    "\<forall>q\<in>reachable m special_roots. q \<noteq> NilPointer \<longrightarrow> count_fits (references b (reachable m special_roots) q) (count_of m' q)"
    using sweep_phase [OF b(4,3), where J = "\<lambda>_ _. True" and gcn = None and c = c] by auto
  have G: "graph_ok m L" using assms(1) by (simp add: memory_ok_def)
  have "references b (reachable m special_roots) p = references m (reachable m special_roots) p"
    unfolding references_def by (intro sum.cong refl refs_from_same [OF G _ b(5,6)] subsetD [OF reachable_sub(1) [OF G assms(3)]])
  then have "count_of m' p = 0" using m'(2) p(2) assms(5,6) by (simp add: count_fits_def)
  then show ?thesis using m'(1) b(1,2) p(1) by (simp add: garbageCollect_def reclaimInaccessibleObjects.simps)
qed

theorem unreferenced_root_lost_witness:
  "\<exists>m'. garbageCollect None (ex_heap 60, ()) = Some (m', ()) \<and> hasObject 6 m' = Some False"
proof -
  have r: "special_roots \<subseteq> ex_roots 60" "reachable (ex_heap 60) special_roots = special_roots" "6 \<in> special_roots"
    using ex_heap_60(3,5) by (simp_all add: special_roots_def)
  have z: "refs_from (ex_heap 60) p 1 6 = 0" if "p \<in> special_roots" for p
  proof -
    have v: "hw (ex_heap 60) p 0 = 2" "hw (ex_heap 60) p 1 = 4" "ptr_of (ex_heap 60) p = 1"
      using ex_heap_views(4,6,7) [of p 60] r(1) that by auto
    then have l: "last_ptr (ex_heap 60) p = 2" by (simp add: last_ptr_def)
    have "refs_from (ex_heap 60) p 2 6 = 0" by (rule refs_from_end) (simp add: l)
    then show ?thesis using refs_from_step [of 1 "ex_heap 60" p 6] v l by simp
  qed
  then show ?thesis using unreferenced_root_lost [OF ex_heap_60(1,2) r(1,3), where c = "()"] unfolding r(2) references_def by simp
qed

text \<open>A free chunk that was a huge pointer object grows: the sweep of a collection puts it on the list
again and each time stores a size one word larger than before, so that from the second time the chunk
overlaps the one that follows it in the segment.\<close>

theorem huge_free_chunk_grows:
  assumes "chunk_ok m p" "ptr_of m p \<noteq> 0" "HugeSize \<le> hw m p 0" "loc_of m p + chunk_len m p < FirstFreeChunkList"
  shows "\<exists>m' m''. deallocate p m = Some m' \<and> hw m' p 0 = hw m p 0 + 1 \<and> deallocate p m' = Some m'' \<and> hw m'' p 0 = hw m p 0 + 2 \<and>
    (\<forall>q. oop_ok q \<and> seg_of m q = seg_of m p \<and> loc_of m q = loc_of m p + chunk_len m p \<and> 0 < chunk_len m'' q \<longrightarrow> \<not> apart m'' p q)"
proof -
  note c = chunk_okD [OF assms(1)]
  have l: "chunk_len m p = hw m p 0 + 1" using assms by (simp add: chunk_len_def)
  obtain m' where m': "deallocate p m = Some m'" "currentSegment m' = currentSegment m" "hw m' p 0 = hw m p 0 + 1"
    "\<forall>s w. s \<noteq> seg_of m p \<or> w \<noteq> loc_of m p \<and> w \<noteq> loc_of m p + 1 \<and> w \<noteq> 65515 + min (chunk_len m p) 20 \<longrightarrow> cell m' s w = cell m s w"
    using deallocate_view [OF assms(1)] unfolding l by metis
  have "cell m' 15 w = cell m 15 w" for w using m'(4) c(3) by auto
  note e = same_entries_cells [OF this m'(2)]
  note se = same_entriesD [OF e(1)]
  have l': "chunk_len m' p = hw m p 0 + 2" using assms m'(3) se(3) [OF c(1)] by (simp add: chunk_len_def)
  have ok: "chunk_ok m' p" using assms c m'(3) l l' se [OF c(1)] by (simp add: chunk_ok_def)
  obtain m'' where m'': "deallocate p m' = Some m''" "currentSegment m'' = currentSegment m'" "hw m'' p 0 = chunk_len m' p"
    "\<forall>s w. s \<noteq> seg_of m' p \<or> w \<noteq> loc_of m' p \<and> w \<noteq> loc_of m' p + 1 \<and> w \<noteq> 65515 + min (chunk_len m' p) 20 \<longrightarrow> cell m'' s w = cell m' s w"
    using deallocate_view [OF ok] by blast
  have "cell m'' 15 w = cell m' 15 w" for w using m''(4) chunk_okD(3) [OF ok] by auto
  note e' = same_entries_cells [OF this m''(2)]
  note se' = same_entriesD [OF same_entries_trans [OF e(1) e'(1)]]
  have l'': "hw m'' p 0 = hw m p 0 + 2" using m''(3) l' by simp
  have "\<not> apart m'' p q" if "oop_ok q" "seg_of m q = seg_of m p" "loc_of m q = loc_of m p + chunk_len m p" "0 < chunk_len m'' q" for q
    using that se' [OF c(1)] se' [OF that(1)] l'' l chunk_len_bounds(1) [of m'' p] c by (auto simp: apart_def)
  then show ?thesis using m'(1,3) m''(1) l'' by blast
qed

definition ex_huge :: omem where
  "ex_huge = \<lparr>cell = \<lambda>s w. if s = 15 \<and> w = 60 then 0x40 else if s = 15 then 0 else if w = 0 then 300 else 4, currentSegment = 0, freeWords = 0, freeOops = 0\<rparr>"

theorem huge_free_chunk_grows_witness:
  "\<exists>m' m''. deallocate 60 ex_huge = Some m' \<and> deallocate 60 m' = Some m'' \<and> hw m'' 60 0 = 302"
proof -
  have v: "oop_ok 60" "seg_of ex_huge 60 = 0" "loc_of ex_huge 60 = 0" "ptr_of ex_huge 60 = 1" "hw ex_huge 60 0 = 300"
    by (simp_all add: oop_ok_def ex_huge_def entry_views hw_def ex_bits del: One_nat_def)
  then have "chunk_ok ex_huge 60" "loc_of ex_huge 60 + chunk_len ex_huge 60 < 65515" by (simp_all add: chunk_ok_def chunk_len_def)
  then show ?thesis using huge_free_chunk_grows [of ex_huge 60] v by auto
qed

end
