(* ===== verification/OmListProps.thy ===== *)
theory OmListProps
  imports OmSweepProps
begin

text \<open>
  The free lists of the object memory as stacks: the interface of a list linked through its members, its
  lemmas, its two interpretations (the list of free table entries, linked through locations, and the free-chunk
  lists, linked through class words) and the operations of the code over them.
\<close>

section \<open>Linked stacks\<close>

text \<open>The head, its update, the link of a member and its update; \<open>member m p\<close> says that \<open>p\<close> has a link,
\<open>sep m p q\<close> that the links of \<open>p\<close> and \<open>q\<close> are different places.\<close>

locale linked_stack =
  fixes head :: "omem \<Rightarrow> int"
    and set_head :: "int \<Rightarrow> omem \<Rightarrow> omem option"
    and link :: "int \<Rightarrow> omem \<Rightarrow> int"
    and set_link :: "int \<Rightarrow> int \<Rightarrow> omem \<Rightarrow> omem option"
    and member :: "omem \<Rightarrow> int \<Rightarrow> bool"
    and sep :: "omem \<Rightarrow> int \<Rightarrow> int \<Rightarrow> bool"
  assumes set_head_law: "0 \<le> v \<Longrightarrow> v < 65536 \<Longrightarrow> \<exists>m'. set_head v m = Some m' \<and> head m' = v \<and>
      (\<forall>q. member m q \<longrightarrow> member m' q \<and> link q m' = link q m) \<and> (\<forall>p q. member m p \<and> member m q \<and> sep m p q \<longrightarrow> sep m' p q)"
    and set_link_law: "member m p \<Longrightarrow> 0 \<le> v \<Longrightarrow> v < 65536 \<Longrightarrow> \<exists>m'. set_link p v m = Some m' \<and> head m' = head m \<and> link p m' = v \<and>
      (\<forall>q. member m q \<longrightarrow> member m' q \<and> (sep m p q \<longrightarrow> link q m' = link q m)) \<and> (\<forall>r q. member m r \<and> member m q \<and> sep m r q \<longrightarrow> sep m' r q)"
    and head_range: "0 \<le> head m \<and> head m < 65536"
    and link_range: "0 \<le> link p m \<and> link p m < 65536"
    and sep_sym: "sep m p q \<Longrightarrow> sep m q p"
begin

text \<open>The list from a value: its members in order, ended by the terminator.\<close>

fun linked :: "omem \<Rightarrow> int \<Rightarrow> int list \<Rightarrow> bool" where
  "linked m h [] \<longleftrightarrow> h = NonPointer"
| "linked m h (p # ps) \<longleftrightarrow> h = p \<and> p \<noteq> NonPointer \<and> member m p \<and> (\<forall>q\<in>set ps. sep m p q) \<and> linked m (link p m) ps"

definition stack :: "omem \<Rightarrow> int list \<Rightarrow> bool" where
  "stack m ps \<longleftrightarrow> linked m (head m) ps"

lemma linked_members: "linked m h ps \<Longrightarrow> q \<in> set ps \<Longrightarrow> member m q"
  by (induction ps arbitrary: h) auto

lemma linked_frame:
  assumes "linked m h ps" "\<And>q. q \<in> set ps \<Longrightarrow> member m' q \<and> link q m' = link q m"
    "\<And>p q. p \<in> set ps \<Longrightarrow> q \<in> set ps \<Longrightarrow> sep m p q \<Longrightarrow> sep m' p q"
  shows "linked m' h ps"
  using assms by (induction ps arbitrary: h) auto

lemma push:
  assumes "stack m ps" "member m p" "\<And>q. q \<in> set ps \<Longrightarrow> sep m p q" "0 \<le> p" "p < 65535"
  shows "\<exists>m1 m2. set_link p (head m) m = Some m1 \<and> set_head p m1 = Some m2 \<and> stack m2 (p # ps)"
proof -
  have l: "linked m (head m) ps" using assms(1) by (simp add: stack_def)
  obtain m1 where m1: "set_link p (head m) m = Some m1" "head m1 = head m" "link p m1 = head m"
    "\<forall>q. member m q \<longrightarrow> member m1 q \<and> (sep m p q \<longrightarrow> link q m1 = link q m)" "\<forall>r q. member m r \<and> member m q \<and> sep m r q \<longrightarrow> sep m1 r q"
    using set_link_law [OF assms(2)] head_range by meson
  obtain m2 where m2: "set_head p m1 = Some m2" "head m2 = p" "\<forall>q. member m1 q \<longrightarrow> member m2 q \<and> link q m2 = link q m1"
    "\<forall>r q. member m1 r \<and> member m1 q \<and> sep m1 r q \<longrightarrow> sep m2 r q"
    using set_head_law [of p m1] assms(4,5) by auto
  have "linked m2 (head m) ps"
    using linked_members [OF l] assms(3) m1(4,5) m2(3,4) by (intro linked_frame [OF l]) auto
  moreover have "\<forall>q\<in>set ps. sep m2 p q" using linked_members [OF l] assms(2,3) m1(4,5) m2(4) by auto
  ultimately have "stack m2 (p # ps)" using m1(3,4) m2(2,3) assms(2,5) by (auto simp: stack_def)
  then show ?thesis using m1(1) m2(1) by blast
qed

lemma pop:
  assumes "stack m (p # ps)"
  shows "head m = p \<and> p \<noteq> NonPointer \<and> (\<exists>m'. set_head (link p m) m = Some m' \<and> stack m' ps)"
proof -
  have l: "head m = p" "p \<noteq> NonPointer" "member m p" "linked m (link p m) ps" using assms by (auto simp: stack_def)
  obtain m' where m': "set_head (link p m) m = Some m'" "head m' = link p m" "\<forall>q. member m q \<longrightarrow> member m' q \<and> link q m' = link q m"
    "\<forall>r q. member m r \<and> member m q \<and> sep m r q \<longrightarrow> sep m' r q"
    using set_head_law [of "link p m" m] link_range by auto
  have "linked m' (link p m) ps" using linked_members [OF l(4)] m'(3,4) by (intro linked_frame [OF l(4)]) auto
  then show ?thesis using l m' by (auto simp: stack_def)
qed

lemma empty: "stack m [] \<longleftrightarrow> head m = NonPointer"
  by (simp add: stack_def)

text \<open>A change elsewhere keeps the list.\<close>

lemma stack_frame:
  assumes "stack m ps" "head m' = head m" "\<And>q. q \<in> set ps \<Longrightarrow> member m' q \<and> link q m' = link q m"
    "\<And>p q. p \<in> set ps \<Longrightarrow> q \<in> set ps \<Longrightarrow> sep m p q \<Longrightarrow> sep m' p q"
  shows "stack m' ps"
  using assms linked_frame [of m "head m" ps m'] by (simp add: stack_def)

end

section \<open>The free table entries\<close>

definition pointer_head :: "omem \<Rightarrow> int" where
  "pointer_head m = uint (cell m 15 65534)"

lemma pointer_head_eq: "headOfFreePointerList m = Some (pointer_head m)"
  by (simp add: headOfFreePointerList_def segment_word_def seg_ok_def pointer_head_def)

lemma pointer_head_put: "0 \<le> p \<Longrightarrow> p < 65536 \<Longrightarrow> headOfFreePointerListPut p m = Some (set_cell 15 65534 (word_of_int p) m)"
  by (simp add: headOfFreePointerListPut_def segment_word_put_def seg_ok_def)

lemma set_pointer_head_views [simp]:
  assumes "oop_ok q"
  shows "loc_of (set_cell 15 65534 x m) q = loc_of m q" "seg_of (set_cell 15 65534 x m) q = seg_of m q"
    "free_of (set_cell 15 65534 x m) q = free_of m q" "ptr_of (set_cell 15 65534 x m) q = ptr_of m q"
    "odd_of (set_cell 15 65534 x m) q = odd_of m q" "count_of (set_cell 15 65534 x m) q = count_of m q"
  using assms by (auto simp: entry_views oop_ok_def)

lemma pointer_head_puts [simp]:
  "oop_ok p \<Longrightarrow> pointer_head (put_bits k n p v m) = pointer_head m"
  "oop_ok p \<Longrightarrow> pointer_head (put_loc p v m) = pointer_head m"
  "seg_of m p \<noteq> 15 \<Longrightarrow> pointer_head (put_hw p i v m) = pointer_head m"
  "s \<noteq> 15 \<Longrightarrow> pointer_head (set_cell s w x m) = pointer_head m"
  by (auto simp: pointer_head_def put_defs oop_ok_def)

interpretation pointers: linked_stack pointer_head headOfFreePointerListPut "\<lambda>p m. loc_of m p" locationBitsOf_put
  "\<lambda>m p. oop_ok p" "\<lambda>m p q. p \<noteq> q"
proof
  fix v :: int and m
  assume "0 \<le> v" "v < 65536"
  then show "\<exists>m'. headOfFreePointerListPut v m = Some m' \<and> pointer_head m' = v \<and>
      (\<forall>q. oop_ok q \<longrightarrow> oop_ok q \<and> loc_of m' q = loc_of m q) \<and> (\<forall>p q. oop_ok p \<and> oop_ok q \<and> p \<noteq> q \<longrightarrow> p \<noteq> q)"
    by (simp add: pointer_head_put pointer_head_def uint_of_int16)
next
  fix m p and v :: int
  assume "oop_ok p" "0 \<le> v" "v < 65536"
  then show "\<exists>m'. locationBitsOf_put p v m = Some m' \<and> pointer_head m' = pointer_head m \<and> loc_of m' p = v \<and>
      (\<forall>q. oop_ok q \<longrightarrow> oop_ok q \<and> (p \<noteq> q \<longrightarrow> loc_of m' q = loc_of m q)) \<and> (\<forall>r q. oop_ok r \<and> oop_ok q \<and> r \<noteq> q \<longrightarrow> r \<noteq> q)"
    by simp
qed (auto simp: pointer_head_def uint16 entry_bounds)

definition released :: "int \<Rightarrow> omem \<Rightarrow> omem" where
  "released p m = set_cell 15 65534 (word_of_int p) (put_loc p (pointer_head m) (put_bits 5 1 p 1 m))"

lemma releasePointer_view:
  assumes "oop_ok p"
  shows "releasePointer p m = Some (released p m)"
proof -
  have p: "0 \<le> p" "p < 65536" using assms by (auto simp: oop_ok_def)
  show ?thesis
    using assms p pointers.head_range [of m]
    by (simp add: releasePointer_def toFreePointerListAdd_def pointer_head_eq pointer_head_put released_def)
qed

lemma released_views [simp]:
  assumes "oop_ok p" "oop_ok q"
  shows "loc_of (released p m) q = (if q = p then pointer_head m else loc_of m q)" "seg_of (released p m) q = seg_of m q"
    "free_of (released p m) q = (if q = p then 1 else free_of m q)" "ptr_of (released p m) q = ptr_of m q"
    "odd_of (released p m) q = odd_of m q" "count_of (released p m) q = count_of m q"
  using assms pointers.head_range [of m] by (simp_all add: released_def)

lemma released_cells [simp]:
  "s \<noteq> 15 \<Longrightarrow> cell (released p m) s w = cell m s w" "currentSegment (released p m) = currentSegment m"
  "freeWords (released p m) = freeWords m" "freeOops (released p m) = freeOops m"
  by (simp_all add: released_def)

lemma released_stack:
  assumes "pointers.stack m ps" "oop_ok p" "p \<notin> set ps"
  shows "pointers.stack (released p m) (p # ps)"
proof -
  let ?m = "put_bits 5 1 p 1 m"
  have mem: "q \<in> set ps \<Longrightarrow> oop_ok q" for q using assms(1) pointers.linked_members by (auto simp: pointers.stack_def)
  have s: "pointers.stack ?m ps" by (rule pointers.stack_frame [OF assms(1)]) (use assms(2) mem in auto)
  have p: "0 \<le> p" "p < 65535" using assms(2) by (auto simp: oop_ok_def)
  obtain m0 m1 where m1: "locationBitsOf_put p (pointer_head ?m) ?m = Some m0" "headOfFreePointerListPut p m0 = Some m1"
    "pointers.stack m1 (p # ps)"
    using pointers.push [OF s assms(2) _ p] assms(3) by auto
  have "m1 = released p m"
    using m1(1,2) assms(2) p pointers.head_range [of m] by (simp add: pointer_head_put released_def)
  then show ?thesis using m1(3) by simp
qed

lemma removePointer_view:
  assumes "pointers.stack m (p # ps)"
  shows "\<exists>m'. removeFromFreePointerList m = Some (p, m') \<and> m' = set_cell 15 65534 (word_of_int (loc_of m p)) m \<and> pointers.stack m' ps"
proof -
  have p: "oop_ok p" using assms pointers.linked_members [of m "pointer_head m" "p # ps" p] by (simp add: pointers.stack_def)
  obtain m2 where m2: "pointer_head m = p" "p \<noteq> 65535" "headOfFreePointerListPut (loc_of m p) m = Some m2" "pointers.stack m2 ps"
    using pointers.pop [OF assms] by auto
  then have "removeFromFreePointerList m = Some (p, m2)"
    using p by (simp add: removeFromFreePointerList_def pointer_head_eq)
  moreover have "m2 = set_cell 15 65534 (word_of_int (loc_of m p)) m" using m2(3) entry_bounds [of m p] by (simp add: pointer_head_put)
  ultimately show ?thesis using m2(4) by blast
qed

text \<open>C30: The free table entries form a stack: releasing an entry that is not on the list pushes it and sets its
free bit, obtaining one returns the entry released last and leaves the rest, and an empty list gives nil and
changes nothing.\<close>

theorem free_pointers_stack:
  assumes "pointers.stack m ps" "oop_ok p" "p \<notin> set ps"
  shows "\<exists>m1 m2. releasePointer p m = Some m1 \<and> free_of m1 p = 1 \<and> pointers.stack m1 (p # ps) \<and>
      removeFromFreePointerList m1 = Some (p, m2) \<and> pointers.stack m2 ps \<and>
      (ps = [] \<longrightarrow> removeFromFreePointerList m2 = Some (NilPointer, m2))"
proof -
  have s: "pointers.stack (released p m) (p # ps)" using released_stack [OF assms] .
  obtain m2 where m2: "removeFromFreePointerList (released p m) = Some (p, m2)" "pointers.stack m2 ps"
    using removePointer_view [OF s] by blast
  have "ps = [] \<Longrightarrow> removeFromFreePointerList m2 = Some (2, m2)"
    using m2(2) by (simp add: pointers.empty removeFromFreePointerList_def pointer_head_eq)
  then show ?thesis using s m2 releasePointer_view [OF assms(2)] assms(2) by auto
qed

theorem free_pointers_stack_witness:
  "\<exists>m1 m2. releasePointer 60 (set_cell 15 65534 65535 (ex_heap 52)) = Some m1 \<and> removeFromFreePointerList m1 = Some (60, m2)"
proof -
  have "pointers.stack (set_cell 15 65534 65535 (ex_heap 52)) []" by (simp add: pointers.empty pointer_head_def)
  then show ?thesis using free_pointers_stack [of _ "[]" 60] by (fastforce simp: oop_ok_def)
qed

section \<open>The free-chunk lists\<close>

definition chunk_head :: "int \<Rightarrow> int \<Rightarrow> omem \<Rightarrow> int" where
  "chunk_head sz sg m = uint (cell m sg (65515 + sz))"

text \<open>A chunk of segment \<open>sg\<close> whose class word is not the head of a list.\<close>

definition class_place :: "int \<Rightarrow> omem \<Rightarrow> int \<Rightarrow> bool" where
  "class_place sg m p \<longleftrightarrow> oop_ok p \<and> seg_of m p = sg \<and> loc_of m p + 1 < FirstFreeChunkList"

lemma class_place_chunk: "class_place sg m p \<Longrightarrow> in_chunk m p 1"
  using entry_bounds [of m p] by (simp add: class_place_def in_chunk_def)

lemma chunk_lists:
  assumes "2 \<le> sz" "sz \<le> 20" "0 \<le> sg" "sg < 15"
  shows "linked_stack (chunk_head sz sg) (headOfFreeChunkList_inSegment_put sz sg) (\<lambda>p m. hw m p 1) classBitsOf_put
    (class_place sg) (\<lambda>m p q. loc_of m p \<noteq> loc_of m q)"
proof
  fix v :: int and m
  assume "0 \<le> v" "v < 65536"
  then show "\<exists>m'. headOfFreeChunkList_inSegment_put sz sg v m = Some m' \<and> chunk_head sz sg m' = v \<and>
      (\<forall>q. class_place sg m q \<longrightarrow> class_place sg m' q \<and> hw m' q 1 = hw m q 1) \<and>
      (\<forall>p q. class_place sg m p \<and> class_place sg m q \<and> loc_of m p \<noteq> loc_of m q \<longrightarrow> loc_of m' p \<noteq> loc_of m' q)"
    using assms by (auto simp: head_write chunk_head_def uint_of_int16 class_place_def)
next
  fix m p and v :: int
  assume p: "class_place sg m p" and v: "0 \<le> v" "v < 65536"
  then have s: "seg_of m p \<noteq> 15" using assms by (simp add: class_place_def)
  show "\<exists>m'. classBitsOf_put p v m = Some m' \<and> chunk_head sz sg m' = chunk_head sz sg m \<and> hw m' p 1 = v \<and>
      (\<forall>q. class_place sg m q \<longrightarrow> class_place sg m' q \<and> (loc_of m p \<noteq> loc_of m q \<longrightarrow> hw m' q 1 = hw m q 1)) \<and>
      (\<forall>r q. class_place sg m r \<and> class_place sg m q \<and> loc_of m r \<noteq> loc_of m q \<longrightarrow> loc_of m' r \<noteq> loc_of m' q)"
  proof (intro exI conjI allI impI)
    show "classBitsOf_put p v m = Some (put_hw p 1 v m)" using class_place_chunk [OF p] v by (simp add: classBitsOf_put_def)
    show "chunk_head sz sg (put_hw p 1 v m) = chunk_head sz sg m"
      using p assms(1) by (auto simp: chunk_head_def put_hw_def class_place_def)
  qed (use s p v in \<open>auto simp: hw_put_hw same_word_def class_place_def\<close>)
qed (auto simp: chunk_head_def uint16 hw_bounds)

interpretation chunks: linked_stack "chunk_head (min (max k 2) 20) (min (max sg 0) 14)"
  "headOfFreeChunkList_inSegment_put (min (max k 2) 20) (min (max sg 0) 14)" "\<lambda>p m. hw m p 1" classBitsOf_put
  "class_place (min (max sg 0) 14)" "\<lambda>m p q. loc_of m p \<noteq> loc_of m q" for k sg :: int
  by (rule chunk_lists) auto

lemma chunk_index: "2 \<le> sz \<Longrightarrow> sz \<le> 20 \<Longrightarrow> min (max sz 2) 20 = (sz :: int)" "0 \<le> sg \<Longrightarrow> sg < 15 \<Longrightarrow> min (max sg 0) 14 = (sg :: int)"
  by auto

text \<open>The free chunks of a size in a segment form a stack: deallocating a chunk that is not on the list of its
size pushes it there, and the allocation of that size in the segment returns the chunk deallocated last and
leaves the rest; an empty list gives nil and changes nothing.\<close>

theorem free_chunks_stack:
  assumes "chunk_ok m p" "chunks.stack (min (chunk_len m p) BigSize) (seg_of m p) m ps" "currentSegment m = seg_of m p"
    "\<And>q. q \<in> set ps \<Longrightarrow> loc_of m q \<noteq> loc_of m p \<and> loc_of m q + 1 \<noteq> loc_of m p"
  shows "\<exists>m1 m2. deallocate p m = Some m1 \<and> chunks.stack (min (chunk_len m p) BigSize) (seg_of m p) m1 (p # ps) \<and>
      removeFromFreeChunkList (min (chunk_len m p) BigSize) m1 = Some (p, m2) \<and>
      chunks.stack (min (chunk_len m p) BigSize) (seg_of m p) m2 ps \<and>
      (ps = [] \<longrightarrow> removeFromFreeChunkList (min (chunk_len m p) BigSize) m2 = Some (NilPointer, m2))"
proof -
  note c = chunk_okD [OF assms(1)]
  define k where "k = min (chunk_len m p) 20"
  define sg where "sg = seg_of m p"
  have k: "2 \<le> k" "k \<le> 20" "0 \<le> sg" "sg < 15" using c by (auto simp: k_def sg_def)
  note ix = chunk_index(1) [OF k(1,2)] chunk_index(2) [OF k(3,4)]
  have st: "chunks.stack k sg m ps" using assms(2) by (simp add: k_def sg_def)
  have s15: "seg_of m p \<noteq> 15" using c by simp
  let ?m = "put_hw p 0 (chunk_len m p) m"
  have mem: "class_place sg m q" if "q \<in> set ps" for q
    using st chunks.linked_members [where sg = sg] that unfolding chunks.stack_def unfolding ix by blast
  have pm: "class_place sg ?m p" using c s15 by (simp add: class_place_def sg_def)
  have s1: "chunks.stack k sg ?m ps"
  proof (rule chunks.stack_frame [OF st], unfold ix)
    show "chunk_head k sg ?m = chunk_head k sg m" using c k by (auto simp: chunk_head_def put_hw_def)
    show "class_place sg ?m q \<and> hw ?m q 1 = hw m q 1" if "q \<in> set ps" for q
      using mem [OF that] assms(4) [OF that] s15 c by (auto simp: class_place_def hw_put_hw same_word_def)
  qed (use s15 in simp)
  have p: "0 \<le> p" "p < 65535" using c by (auto simp: oop_ok_def)
  have dis: "loc_of ?m p \<noteq> loc_of ?m q" if "q \<in> set ps" for q using assms(4) [OF that] s15 by auto
  note push = chunks.push [OF s1, where p = p, unfolded ix, OF pm dis p]
  obtain m0 m1 where m1: "classBitsOf_put p (chunk_head k sg ?m) ?m = Some m0" "headOfFreeChunkList_inSegment_put k sg p m0 = Some m1"
    "chunks.stack k sg m1 (p # ps)"
    using push unfolding ix by blast
  have hd: "headOfFreeChunkList_inSegment k sg m' = Some (chunk_head k sg m')" for m'
    using head_read [of k sg m'] k by (simp add: chunk_head_def)
  have "deallocate p m = Some m1"
    using c s15 m1(1,2) hd by (simp add: deallocate_def spaceOccupiedBy_view sizeBitsOf_put_def toFreeChunkList_add_def k_def [symmetric] sg_def [symmetric])
  moreover have "class_place sg m1 p"
    using chunks.linked_members [where sg = sg and q = p and ps = "p # ps"] m1(3)
    unfolding chunks.stack_def unfolding ix by (meson list.set_intros(1))
  then have ic: "in_chunk m1 p 1" by (rule class_place_chunk)
  obtain m2 where m2: "chunk_head k sg m1 = p" "p \<noteq> 65535" "headOfFreeChunkList_inSegment_put k sg (hw m1 p 1) m1 = Some m2" "chunks.stack k sg m2 ps"
    using chunks.pop [OF m1(3)] unfolding ix by blast
  have cur: "currentSegment m1 = sg" "currentSegment m2 = sg"
    using m1(1,2) m2(3) in_chunk_same [OF same_table_puts(2) [OF s15], of p 1] c s15 assms(3) k p hw_bounds [of m1 p 1] uint16
    by (auto simp: classBitsOf_put_def head_write chunk_head_def sg_def)
  have "removeFromFreeChunkList k m1 = Some (p, m2)"
    using k cur m2 hd ic by (simp add: removeFromFreeChunkList_def classBitsOf_def)
  moreover have "removeFromFreeChunkList k m2 = Some (2, m2)" if "ps = []"
  proof -
    have "chunk_head k sg m2 = 65535" using m2(4) chunks.empty [of k sg m2] unfolding that ix by blast
    then show ?thesis using k cur hd by (simp add: removeFromFreeChunkList_def)
  qed
  ultimately show ?thesis using m1(3) m2(4) unfolding k_def [symmetric] sg_def [symmetric] by blast
qed

theorem free_chunks_stack_witness:
  "\<exists>m1 m2. deallocate 54 (set_cell 0 65517 65535 (ex_heap 54)) = Some m1 \<and> removeFromFreeChunkList 2 m1 = Some (54, m2)"
proof -
  let ?m = "set_cell 0 65517 65535 (ex_heap 54)"
  have r: "54 \<in> ex_roots 54" by (simp add: ex_roots_def)
  have v: "oop_ok 54" "seg_of ?m 54 = 0" "loc_of ?m 54 = 54" "hw ?m 54 0 = 2" "currentSegment ?m = 0"
    using ex_heap_views(1-8) [OF r] by (simp_all add: ex_heap_def)
  then have l: "chunk_len ?m 54 = 2" by (simp add: chunk_len_def)
  have "chunk_ok ?m 54" using v l by (simp add: chunk_ok_def)
  moreover have "chunks.stack 2 0 ?m []" by (subst chunks.empty) (simp add: chunk_head_def)
  ultimately show ?thesis using free_chunks_stack [of ?m 54 "[]"] v l by auto
qed

end
