(* ===== verification/OmCompact.thy ===== *)
theory OmCompact
  imports OmListProps
begin

text \<open>
  The three phases of compaction: abandoning the free chunks of a segment, reversing the pointers to its
  objects, and sweeping the objects down.
\<close>

section \<open>Abandoning free chunks\<close>

definition chunk_list :: "int \<Rightarrow> omem \<Rightarrow> int \<Rightarrow> int list \<Rightarrow> bool" where
  "chunk_list s m h qs \<longleftrightarrow> chunks.linked s m h qs"

lemma chunk_linked:
  assumes "0 \<le> s" "s < 15"
  shows "chunk_list s m h [] \<longleftrightarrow> h = NonPointer"
    "chunk_list s m h (p # qs) \<longleftrightarrow> h = p \<and> p \<noteq> NonPointer \<and> class_place s m p \<and> (\<forall>q\<in>set qs. loc_of m p \<noteq> loc_of m q) \<and>
       chunk_list s m (hw m p 1) qs"
    "chunk_list s m h qs \<Longrightarrow> q \<in> set qs \<Longrightarrow> class_place s m q"
    "chunk_list s m h qs \<Longrightarrow> (\<And>q. q \<in> set qs \<Longrightarrow> class_place s m' q \<and> hw m' q 1 = hw m q 1) \<Longrightarrow>
       (\<And>p q. p \<in> set qs \<Longrightarrow> q \<in> set qs \<Longrightarrow> loc_of m p \<noteq> loc_of m q \<Longrightarrow> loc_of m' p \<noteq> loc_of m' q) \<Longrightarrow> chunk_list s m' h qs"
  unfolding chunk_list_def
  using chunks.linked.simps [of s m h] chunks.linked_members [of s m h qs q] chunks.linked_frame [of s m h qs m']
  unfolding chunk_index(2) [OF assms]
  by blast+

text \<open>The entries of \<open>F\<close> are released and their chunks marked; nothing else has changed but the heads of the
lists below \<open>K\<close>.\<close>

definition abandoned :: "omem \<Rightarrow> omem \<Rightarrow> int \<Rightarrow> int set \<Rightarrow> int \<Rightarrow> bool" where
  "abandoned m m' s F K \<longleftrightarrow> currentSegment m' = currentSegment m \<and> freeWords m' = freeWords m \<and> freeOops m' = freeOops m \<and>
     (\<forall>q. oop_ok q \<longrightarrow> seg_of m' q = seg_of m q \<and> ptr_of m' q = ptr_of m q \<and> odd_of m' q = odd_of m q \<and> count_of m' q = count_of m q \<and>
        (if q \<in> F then free_of m' q = 1 else free_of m' q = free_of m q \<and> loc_of m' q = loc_of m q)) \<and>
     (\<forall>t w. t \<noteq> 15 \<longrightarrow> t \<noteq> s \<or> w < 65517 \<or> 65515 + K \<le> w \<longrightarrow>
        cell m' t w = (if t = s \<and> (\<exists>p\<in>F. w = loc_of m p + 1) then 65535 else cell m t w))"

lemma abandoned_refl: "abandoned m m s {} K"
  by (simp add: abandoned_def)

lemma abandoned_mono: "abandoned m m' s F K \<Longrightarrow> K \<le> K' \<Longrightarrow> abandoned m m' s F K'"
  by (auto simp: abandoned_def)

lemma abandonedD:
  assumes "abandoned m m' s F K" "oop_ok q"
  shows "seg_of m' q = seg_of m q" "ptr_of m' q = ptr_of m q" "odd_of m' q = odd_of m q" "count_of m' q = count_of m q"
    "q \<in> F \<Longrightarrow> free_of m' q = 1" "q \<notin> F \<Longrightarrow> free_of m' q = free_of m q" "q \<notin> F \<Longrightarrow> loc_of m' q = loc_of m q"
  using assms by (auto simp: abandoned_def split: if_splits)

lemma abandoned_cell:
  assumes "abandoned m m' s F K" "t \<noteq> 15" "t \<noteq> s \<or> w < 65517 \<or> 65515 + K \<le> w"
  shows "cell m' t w = (if t = s \<and> (\<exists>p\<in>F. w = loc_of m p + 1) then 65535 else cell m t w)"
  using assms by (auto simp: abandoned_def)

lemma abandoned_trans:
  assumes "abandoned m m1 s F K" "abandoned m1 m2 s G K" "F \<inter> G = {}" "\<And>q. q \<in> F \<union> G \<Longrightarrow> oop_ok q"
  shows "abandoned m m2 s (F \<union> G) K"
proof -
  have l: "loc_of m1 q = loc_of m q" if "q \<in> G" for q using abandonedD(7) [OF assms(1)] that assms(3,4) by blast
  have "cell m2 t w = (if t = s \<and> (\<exists>p\<in>F \<union> G. w = loc_of m p + 1) then 65535 else cell m t w)"
    if "t \<noteq> 15" "t \<noteq> s \<or> w < 65517 \<or> 65515 + K \<le> w" for t w
    using abandoned_cell [OF assms(1) that] abandoned_cell [OF assms(2) that] l by auto
  moreover have "if q \<in> F \<union> G then free_of m2 q = 1 else free_of m2 q = free_of m q \<and> loc_of m2 q = loc_of m q" if "oop_ok q" for q
    using abandonedD(5-7) [OF assms(1) that] abandonedD(5-7) [OF assms(2) that] by (cases "q \<in> G") auto
  ultimately show ?thesis using assms(1,2) by (simp add: abandoned_def)
qed

text \<open>One chunk.\<close>

lemma abandoned_one:
  assumes "class_place s m p" "0 \<le> s" "s < 15"
  defines "m1 \<equiv> released p (put_hw p 1 65535 m)"
  shows "classBitsOf_put p 65535 m = Some (put_hw p 1 65535 m)" "abandoned m m1 s {p} K"
proof -
  have p: "oop_ok p" "seg_of m p = s" "s \<noteq> 15" using assms by (auto simp: class_place_def)
  show "classBitsOf_put p 65535 m = Some (put_hw p 1 65535 m)" using class_place_chunk [OF assms(1)] by (simp add: classBitsOf_put_def)
  show "abandoned m m1 s {p} K" using p by (auto simp: abandoned_def m1_def put_hw_def)
qed

lemma abandon_list_view:
  assumes "0 \<le> s" "s < 15" "chunk_list s m h qs" "pointers.stack m fs" "set qs \<inter> set fs = {}"
  shows "\<exists>m' fs'. abandon_list h lwm m = Some (Min (insert lwm (loc_of m ` set qs)), m') \<and> abandoned m m' s (set qs) K \<and>
    pointers.stack m' fs' \<and> set fs' = set fs \<union> set qs"
  using assms(3-)
proof (induction qs arbitrary: h lwm m fs)
  case Nil
  then show ?case using assms(1,2) by (subst abandon_list.simps) (auto simp: chunk_linked abandoned_refl)
next
  case (Cons p qs)
  note l = Cons.prems(1) [unfolded chunk_linked(2) [OF assms(1,2)]]
  then have cp: "class_place s m p" by simp
  then have p: "oop_ok p" "seg_of m p = s" "s \<noteq> 15" using assms by (auto simp: class_place_def)
  define m1 where "m1 = released p (put_hw p 1 65535 m)"
  note one = abandoned_one [OF cp assms(1,2), folded m1_def]
  have mem: "class_place s m q" if "q \<in> set qs" for q using l chunk_linked(3) [OF assms(1,2)] that by blast
  have npq: "q \<noteq> p" if "q \<in> set qs" for q using l that by auto
  have lq: "loc_of m1 q = loc_of m q" "seg_of m1 q = seg_of m q" "hw m1 q 1 = hw m q 1" if "q \<in> set qs" for q
  proof -
    have q: "oop_ok q" "seg_of m q = s" "loc_of m q \<noteq> loc_of m p" using mem [OF that] l that by (auto simp: class_place_def)
    show "loc_of m1 q = loc_of m q" "seg_of m1 q = seg_of m q"
      using abandonedD(1,7) [OF one(2) q(1)] npq [OF that] by auto
    moreover have "cell m1 s (loc_of m q + 1) = cell m s (loc_of m q + 1)"
      using abandoned_cell [OF one(2), of s "loc_of m q + 1"] p(3) q mem [OF that] by (auto simp: class_place_def)
    ultimately show "hw m1 q 1 = hw m q 1" using q by (simp add: hw_def)
  qed
  have "chunk_list s m1 (hw m p 1) qs"
    by (rule chunk_linked(4) [OF assms(1,2)]) (use l mem lq in \<open>auto simp: class_place_def\<close>)
  moreover have "pointers.stack m1 (p # fs)"
    unfolding m1_def
  proof (rule released_stack [OF _ p(1)])
    show "pointers.stack (put_hw p 1 65535 m) fs"
      by (rule pointers.stack_frame [OF Cons.prems(2)]) (use p Cons.prems(2) pointers.linked_members in \<open>auto simp: pointers.stack_def\<close>)
  qed (use Cons.prems(3) in auto)
  moreover have "set qs \<inter> set (p # fs) = {}" using Cons.prems(3) npq by auto
  ultimately obtain m' fs' where m': "abandon_list (hw m p 1) (min lwm (loc_of m p)) m1 =
      Some (Min (insert (min lwm (loc_of m p)) (loc_of m1 ` set qs)), m')"
    "abandoned m1 m' s (set qs) K" "pointers.stack m' fs'" "set fs' = set (p # fs) \<union> set qs"
    using Cons.IH by blast
  have "h = p" "p \<noteq> 65535" using l by auto
  then have "abandon_list h lwm m = abandon_list (hw m p 1) (min lwm (loc_of m p)) m1"
    using p one(1) class_place_chunk [OF cp] releasePointer_view [OF p(1)]
    by (subst abandon_list.simps) (simp add: classBitsOf_def m1_def)
  moreover have "Min (insert (min lwm (loc_of m p)) (loc_of m1 ` set qs)) = Min (insert lwm (loc_of m ` set (p # qs)))"
  proof -
    have "loc_of m1 ` set qs = loc_of m ` set qs" using lq(1) by auto
    then show ?thesis by (cases "qs = []") (simp_all add: min.assoc min.left_commute)
  qed
  moreover have "abandoned m m' s (set (p # qs)) K"
    using abandoned_trans [OF one(2) m'(2)] npq mem p(1) by (auto simp: class_place_def)
  ultimately show ?case using m' by auto
qed

lemma chunk_list_abandoned:
  assumes "0 \<le> s" "s < 15" "abandoned m m' s F K" "chunk_list s m h qs" "\<And>p q. p \<in> F \<Longrightarrow> q \<in> set qs \<Longrightarrow> p \<noteq> q \<and> loc_of m p \<noteq> loc_of m q"
  shows "chunk_list s m' h qs"
proof (rule chunk_linked(4) [OF assms(1,2,4)])
  fix q assume q: "q \<in> set qs"
  then have c: "class_place s m q" using chunk_linked(3) [OF assms(1,2,4)] by blast
  then have o: "oop_ok q" "seg_of m q = s" "loc_of m q + 1 < 65515" by (auto simp: class_place_def)
  have n: "q \<notin> F" using assms(5) q by blast
  note d = abandonedD [OF assms(3) o(1)]
  have "cell m' s (loc_of m q + 1) = cell m s (loc_of m q + 1)"
  proof -
    have "\<not> (\<exists>p\<in>F. loc_of m q + 1 = loc_of m p + 1)" using assms(5) [OF _ q] by (metis add_right_cancel)
    then show ?thesis using abandoned_cell [OF assms(3), of s "loc_of m q + 1"] assms(2) o by simp
  qed
  then show "class_place s m' q \<and> hw m' q 1 = hw m q 1" using c d n o by (simp add: class_place_def hw_def)
next
  fix p q assume "p \<in> set qs" "q \<in> set qs" "loc_of m p \<noteq> loc_of m q"
  moreover have "loc_of m' r = loc_of m r" if "r \<in> set qs" for r
    using abandonedD(7) [OF assms(3), of r] chunk_linked(3) [OF assms(1,2,4) that] assms(5) that by (auto simp: class_place_def)
  ultimately show "loc_of m' p \<noteq> loc_of m' q" by simp
qed

lemma Min_insert_twice: "finite A \<Longrightarrow> finite B \<Longrightarrow> Min (insert (Min (insert x A)) B) = Min (insert (x :: int) (A \<union> B))"
  by (cases "A = {}"; cases "B = {}") (auto simp: Min.union min.assoc)

text \<open>All lists of a segment.  The chunks of different lists are different.\<close>

definition free_lists :: "int \<Rightarrow> omem \<Rightarrow> int \<Rightarrow> (int \<Rightarrow> int list) \<Rightarrow> bool" where
  "free_lists s m k qs \<longleftrightarrow> (\<forall>j. k \<le> j \<and> j \<le> BigSize \<longrightarrow> chunk_list s m (uint (cell m s (65515 + j))) (qs j)) \<and>
     (\<forall>i j p q. k \<le> i \<and> i < j \<and> j \<le> BigSize \<and> p \<in> set (qs i) \<and> q \<in> set (qs j) \<longrightarrow> p \<noteq> q \<and> loc_of m p \<noteq> loc_of m q)"

definition on_lists :: "int \<Rightarrow> (int \<Rightarrow> int list) \<Rightarrow> int set" where
  "on_lists k qs = (\<Union>j\<in>{k..BigSize}. set (qs j))"

lemma on_lists_step: "k \<le> 20 \<Longrightarrow> on_lists k qs = set (qs k) \<union> on_lists (k + 1) qs" "20 < k \<Longrightarrow> on_lists k qs = {}"
proof -
  show "on_lists k qs = set (qs k) \<union> on_lists (k + 1) qs" if "k \<le> 20"
  proof -
    have "{k..20} = insert k {k + 1..20}" using that by auto
    then show ?thesis by (simp add: on_lists_def)
  qed
qed (simp add: on_lists_def)

lemma free_listsD:
  assumes "free_lists s m k qs"
  shows "k \<le> j \<Longrightarrow> j \<le> 20 \<Longrightarrow> chunk_list s m (uint (cell m s (65515 + j))) (qs j)"
    "k \<le> i \<Longrightarrow> i < j \<Longrightarrow> j \<le> 20 \<Longrightarrow> p \<in> set (qs i) \<Longrightarrow> q \<in> set (qs j) \<Longrightarrow> p \<noteq> q \<and> loc_of m p \<noteq> loc_of m q"
  using assms unfolding free_lists_def by blast+

lemma on_lists_place:
  assumes "0 \<le> s" "s < 15" "free_lists s m k qs" "q \<in> on_lists k qs"
  shows "class_place s m q"
  using assms(4) free_listsD(1) [OF assms(3)] chunk_linked(3) [OF assms(1,2)] unfolding on_lists_def by fastforce

lemma abandon_sizes_view:
  assumes "0 \<le> s" "s < 15" "2 \<le> k" "k \<le> 21" "free_lists s m k qs" "pointers.stack m fs" "on_lists k qs \<inter> set fs = {}"
  shows "\<exists>m' fs'. abandon_sizes k s lwm m = Some (Min (insert lwm (loc_of m ` on_lists k qs)), m') \<and>
    abandoned m m' s (on_lists k qs) 21 \<and> pointers.stack m' fs' \<and> set fs' = set fs \<union> on_lists k qs \<and>
    (\<forall>j. k \<le> j \<and> j \<le> BigSize \<longrightarrow> cell m' s (65515 + j) = 65535) \<and> (\<forall>j. 0 \<le> j \<and> j < k \<longrightarrow> cell m' s (65515 + j) = cell m s (65515 + j))"
  using assms(3-)
proof (induction "nat (21 - k)" arbitrary: k m fs lwm)
  case 0
  then have "abandon_sizes k s lwm m = Some (lwm, m)" by (subst abandon_sizes.simps) simp
  then show ?case using 0 by (auto simp: on_lists_step(2) abandoned_refl)
next
  case (Suc n)
  have k: "k \<le> 20" "n = nat (21 - (k + 1))" using Suc.hyps(2) by simp_all
  have l: "chunk_list s m (uint (cell m s (65515 + k))) (qs k)" using Suc.prems(3) k(1) by (simp add: free_lists_def)
  have oks: "oop_ok q" if "q \<in> on_lists k qs" for q
    using on_lists_place [OF assms(1,2) Suc.prems(3) that] by (simp add: class_place_def)
  obtain m1 fs1 where m1: "abandon_list (uint (cell m s (65515 + k))) lwm m = Some (Min (insert lwm (loc_of m ` set (qs k))), m1)"
    "abandoned m m1 s (set (qs k)) 2" "pointers.stack m1 fs1" "set fs1 = set fs \<union> set (qs k)"
    using abandon_list_view [OF assms(1,2) l Suc.prems(4), of lwm 2] Suc.prems(5) on_lists_step(1) [OF k(1)] by blast
  let ?m2 = "set_cell s (65515 + k) 65535 m1"
  have s15: "s \<noteq> 15" using assms by simp
  have a2: "abandoned m ?m2 s (set (qs k)) (k + 1)" using abandoned_mono [OF m1(2), of "k + 1"] Suc.prems(1) s15 by (auto simp: abandoned_def)
  have dis: "p \<noteq> q \<and> loc_of m p \<noteq> loc_of m q" if "p \<in> set (qs k)" "q \<in> set (qs j)" "k + 1 \<le> j" "j \<le> 20" for p q j
    using free_listsD(2) [OF Suc.prems(3) order_refl _ that(4,1,2)] that(3) by simp
  have loc2: "loc_of ?m2 q = loc_of m q" if "q \<in> on_lists (k + 1) qs" for q
  proof -
    have "q \<notin> set (qs k)" using that dis by (fastforce simp: on_lists_def)
    moreover have "oop_ok q" using oks [of q] that on_lists_step(1) [OF k(1)] by blast
    ultimately show ?thesis using abandonedD(7) [OF a2] by blast
  qed
  have fl: "free_lists s ?m2 (k + 1) qs"
    unfolding free_lists_def
  proof ((rule conjI; intro allI impI), goal_cases)
    case (1 j)
    then have cl: "chunk_list s m (uint (cell m s (65515 + j))) (qs j)" using Suc.prems(3) by (simp add: free_lists_def)
    have "class_place s m p" if "p \<in> set (qs k)" for p using chunk_linked(3) [OF assms(1,2) l that] .
    then have "\<not> (\<exists>p\<in>set (qs k). 65515 + j = loc_of m p + 1)" using 1 Suc.prems(1) by (fastforce simp: class_place_def)
    then have "cell ?m2 s (65515 + j) = cell m s (65515 + j)"
      using abandoned_cell [OF a2 s15, where w = "65515 + j"] 1 by simp
    then show ?case using chunk_list_abandoned [OF assms(1,2) a2 cl] dis 1 by simp
  next
    case (2 i j p q)
    then have "p \<in> on_lists (k + 1) qs" "q \<in> on_lists (k + 1) qs" by (auto simp: on_lists_def)
    moreover have "p \<noteq> q \<and> loc_of m p \<noteq> loc_of m q" using free_listsD(2) [OF Suc.prems(3), of i j p q] 2 by simp
    ultimately show ?case using loc2 by simp
  qed
  have st: "pointers.stack ?m2 fs1" by (rule pointers.stack_frame [OF m1(3)])
      (use s15 m1(3) pointers.linked_members in \<open>auto simp: pointers.stack_def\<close>)
  have dj: "on_lists (k + 1) qs \<inter> set fs1 = {}"
    using Suc.prems(5) m1(4) on_lists_step(1) [OF k(1)] dis by (fastforce simp: on_lists_def)
  have k1: "2 \<le> k + 1" "k + 1 \<le> 21" using Suc.prems(1) k(1) by simp_all
  obtain m' fs' where m': "abandon_sizes (k + 1) s (Min (insert lwm (loc_of m ` set (qs k)))) ?m2 =
      Some (Min (insert (Min (insert lwm (loc_of m ` set (qs k)))) (loc_of ?m2 ` on_lists (k + 1) qs)), m')"
    "abandoned ?m2 m' s (on_lists (k + 1) qs) 21" "pointers.stack m' fs'" "set fs' = set fs1 \<union> on_lists (k + 1) qs"
    "\<forall>j. k + 1 \<le> j \<and> j \<le> 20 \<longrightarrow> cell m' s (65515 + j) = 65535" "\<forall>j. 0 \<le> j \<and> j < k + 1 \<longrightarrow> cell m' s (65515 + j) = cell ?m2 s (65515 + j)"
    using Suc.hyps(1) [OF k(2) k1 fl st dj, of "Min (insert lwm (loc_of m ` set (qs k)))"] by blast
  have un: "on_lists k qs = set (qs k) \<union> on_lists (k + 1) qs" by (rule on_lists_step(1) [OF k(1)])
  have fin: "finite (on_lists (k + 1) qs)" by (simp add: on_lists_def)
  have "resetFreeChunkList_inSegment k s m1 = Some ?m2"
    using Suc.prems(1) k(1) assms(1,2) by (simp add: resetFreeChunkList_inSegment_def head_write)
  then have "abandon_sizes k s lwm m = abandon_sizes (k + 1) s (Min (insert lwm (loc_of m ` set (qs k)))) ?m2"
    using Suc.prems(1) k(1) assms(1,2) m1(1) by (subst abandon_sizes.simps) (simp add: head_read)
  moreover have "loc_of ?m2 ` on_lists (k + 1) qs = loc_of m ` on_lists (k + 1) qs" using loc2 by auto
  then have "Min (insert (Min (insert lwm (loc_of m ` set (qs k)))) (loc_of ?m2 ` on_lists (k + 1) qs)) =
      Min (insert lwm (loc_of m ` on_lists k qs))"
    unfolding un image_Un using fin by (simp add: Min_insert_twice)
  moreover have "abandoned m m' s (on_lists k qs) 21"
    unfolding un
  proof (rule abandoned_trans [OF abandoned_mono [OF a2] m'(2)])
    show "set (qs k) \<inter> on_lists (k + 1) qs = {}" using dis by (fastforce simp: on_lists_def)
  qed (use k(1) oks un in auto)
  moreover have "cell m' s (65515 + j) = 65535" if "k \<le> j" "j \<le> 20" for j
  proof (cases "j = k")
    case True
    then show ?thesis using m'(6) Suc.prems(1) by simp
  next
    case False
    then show ?thesis using m'(5) that by simp
  qed
  moreover have "cell m' s (65515 + j) = cell m s (65515 + j)" if "0 \<le> j" "j < k" for j
  proof -
    have "class_place s m p" if "p \<in> set (qs k)" for p using chunk_linked(3) [OF assms(1,2) l that] .
    then have "\<not> (\<exists>p\<in>set (qs k). 65515 + j = loc_of m p + 1)" using that by (fastforce simp: class_place_def)
    then have "cell m1 s (65515 + j) = cell m s (65515 + j)"
      using abandoned_cell [OF m1(2) s15, where w = "65515 + j"] by (cases "j < 2") auto
    then show ?thesis using m'(6) that by simp
  qed
  ultimately show ?case using m' m1(4) un by (intro exI [of _ m'] exI [of _ fs']) auto
qed

section \<open>Reversing the pointers\<close>

text \<open>The objects of \<open>R\<close> are reversed: the first word of each is its object pointer and its location is its size.\<close>

definition reversed :: "omem \<Rightarrow> omem \<Rightarrow> int \<Rightarrow> int set \<Rightarrow> bool" where
  "reversed m m' s R \<longleftrightarrow> currentSegment m' = currentSegment m \<and> freeWords m' = freeWords m \<and> freeOops m' = freeOops m \<and>
     pointer_head m' = pointer_head m \<and>
     (\<forall>q. oop_ok q \<longrightarrow> seg_of m' q = seg_of m q \<and> ptr_of m' q = ptr_of m q \<and> odd_of m' q = odd_of m q \<and> count_of m' q = count_of m q \<and>
        free_of m' q = free_of m q \<and> loc_of m' q = (if q \<in> R then hw m q 0 else loc_of m q)) \<and>
     (\<forall>p\<in>R. cell m' s (loc_of m p) = word_of_int p) \<and>
     (\<forall>t w. t \<noteq> 15 \<longrightarrow> t \<noteq> s \<or> w \<notin> loc_of m ` R \<longrightarrow> cell m' t w = cell m t w)"

lemma reversedD:
  assumes "reversed m m' s R"
  shows "oop_ok q \<Longrightarrow> seg_of m' q = seg_of m q" "oop_ok q \<Longrightarrow> ptr_of m' q = ptr_of m q" "oop_ok q \<Longrightarrow> odd_of m' q = odd_of m q"
    "oop_ok q \<Longrightarrow> count_of m' q = count_of m q" "oop_ok q \<Longrightarrow> free_of m' q = free_of m q"
    "oop_ok q \<Longrightarrow> loc_of m' q = (if q \<in> R then hw m q 0 else loc_of m q)" "p \<in> R \<Longrightarrow> cell m' s (loc_of m p) = word_of_int p"
    "t \<noteq> 15 \<Longrightarrow> t \<noteq> s \<or> w \<notin> loc_of m ` R \<Longrightarrow> cell m' t w = cell m t w" "currentSegment m' = currentSegment m"
    "pointer_head m' = pointer_head m"
  using assms by (auto simp: reversed_def)

definition to_reverse :: "omem \<Rightarrow> int \<Rightarrow> int set" where
  "to_reverse m lwm = {p. live m p \<and> seg_of m p = currentSegment m \<and> lwm \<le> loc_of m p}"

lemma reverse_step:
  assumes "reversed m m' s {p \<in> to_reverse m lwm. p < k}" "oop_ok k" "s = currentSegment m" "s \<noteq> 15"
    "\<And>p. p \<in> to_reverse m lwm \<Longrightarrow> in_chunk m p 0"
    "\<And>p q. p \<in> to_reverse m lwm \<Longrightarrow> q \<in> to_reverse m lwm \<Longrightarrow> p \<noteq> q \<Longrightarrow> loc_of m p \<noteq> loc_of m q"
  shows "\<exists>m''. reverse_pointer lwm k m' = Some m'' \<and> reversed m m'' s {p \<in> to_reverse m lwm. p < k + 2}"
proof -
  note d = reversedD [OF assms(1)]
  have S: "{p \<in> to_reverse m lwm. p < k + 2} = (if k \<in> to_reverse m lwm then insert k {p \<in> to_reverse m lwm. p < k} else {p \<in> to_reverse m lwm. p < k})"
  proof -
    have "even k" using assms(2) by (simp add: oop_ok_def)
    moreover have "finite (to_reverse m lwm)" unfolding to_reverse_def by (rule live_even(2))
    ultimately show ?thesis by (intro below_step(1)) (auto simp: to_reverse_def live_def oop_ok_def)
  qed
  show ?thesis
  proof (cases "k \<in> to_reverse m lwm")
    case False
    then have "reverse_pointer lwm k m' = Some m'"
      using assms(2) d(1,5,6,9) by (auto simp: reverse_pointer_def to_reverse_def live_def)
    then show ?thesis using assms(1) False S by simp
  next
    case True
    then have k: "free_of m k = 0" "seg_of m k = s" "lwm \<le> loc_of m k" using assms(3) by (auto simp: to_reverse_def live_def)
    have kb: "0 \<le> k" "k < 65536" using assms(2) by (auto simp: oop_ok_def)
    have v: "free_of m' k = 0" "seg_of m' k = s" "loc_of m' k = loc_of m k" "currentSegment m' = s"
      using d(1,5,6,9) assms(2,3) k by simp_all
    have "loc_of m k \<notin> loc_of m ` {p \<in> to_reverse m lwm. p < k}" using assms(6) True by force
    then have h: "hw m' k 0 = hw m k 0" using d(8) assms(4) v k by (simp add: hw_def)
    have ic: "in_chunk m' k 0" using assms(5) [OF True] v(3) by (simp add: in_chunk_def)
    let ?m = "put_loc k (hw m k 0) (put_hw k 0 k m')"
    have "reverse_pointer lwm k m' = Some ?m"
      using assms(2,4) v k(3) ic h kb hw_bounds [of m k 0] by (simp add: reverse_pointer_def sizeBitsOf_def sizeBitsOf_put_def)
    moreover have "reversed m ?m s {p \<in> to_reverse m lwm. p < k + 2}"
      unfolding S if_P [OF True] reversed_def
    proof (intro conjI allI impI ballI)
      fix q assume q: "oop_ok q"
      show "loc_of ?m q = (if q \<in> insert k {p \<in> to_reverse m lwm. p < k} then hw m q 0 else loc_of m q)"
        using d(6) [OF q] assms(2,4) q v(2) hw_bounds [of m k 0] by simp
    next
      fix p assume "p \<in> insert k {p \<in> to_reverse m lwm. p < k}"
      moreover have "p \<noteq> k \<Longrightarrow> p \<in> to_reverse m lwm \<Longrightarrow> loc_of m p \<noteq> loc_of m k" using assms(6) True by blast
      ultimately show "cell ?m s (loc_of m p) = word_of_int p"
        using d(7) v assms(4) by (auto simp: put_hw_def)
    next
      fix t w assume "t \<noteq> 15" "t \<noteq> s \<or> w \<notin> loc_of m ` insert k {p \<in> to_reverse m lwm. p < k}"
      then show "cell ?m t w = cell m t w" using d(8) v by (auto simp: put_hw_def)
    qed (use d assms(2,4) v(2) assms(1) in \<open>simp_all add: reversed_def\<close>)
    ultimately show ?thesis by blast
  qed
qed

lemma reverse_loop_view:
  assumes "reversed m m' s {p \<in> to_reverse m lwm. p < 2 * int k}" "k \<le> 32767" "s = currentSegment m" "s \<noteq> 15"
    "\<And>p. p \<in> to_reverse m lwm \<Longrightarrow> in_chunk m p 0"
    "\<And>p q. p \<in> to_reverse m lwm \<Longrightarrow> q \<in> to_reverse m lwm \<Longrightarrow> p \<noteq> q \<Longrightarrow> loc_of m p \<noteq> loc_of m q"
  shows "\<exists>m''. reverse_loop (2 * int k) lwm m' = Some m'' \<and> reversed m m'' s (to_reverse m lwm)"
  using assms(1,2)
proof (induction "32767 - k" arbitrary: k m')
  case 0
  have "{p \<in> to_reverse m lwm. p < 2 * int k} = to_reverse m lwm" using 0 by (auto simp: to_reverse_def live_def oop_ok_def)
  moreover have "reverse_loop (2 * int k) lwm m' = Some m'" using 0 by (subst reverse_loop.simps) simp
  ultimately show ?case using 0 by simp
next
  case (Suc n)
  have n: "n = 32767 - Suc k" "Suc k \<le> 32767" using Suc.hyps(2) by linarith+
  then have ok: "oop_ok (2 * int k)" by (simp add: oop_ok_def)
  obtain m1 where m1: "reverse_pointer lwm (2 * int k) m' = Some m1" "reversed m m1 s {p \<in> to_reverse m lwm. p < 2 * int (Suc k)}"
    using reverse_step [OF Suc.prems(1) ok assms(3-6)] by (auto simp: add.commute)
  obtain m2 where m2: "reverse_loop (2 * int (Suc k)) lwm m1 = Some m2" "reversed m m2 s (to_reverse m lwm)"
    using Suc.hyps(1) [OF n(1) m1(2) n(2)] by blast
  have "reverse_loop (2 * int k) lwm m' = Some m2" using m1(1) m2(1) n by (subst reverse_loop.simps) (simp add: add.commute)
  then show ?case using m2(2) by blast
qed

lemma reverseHeapPointersAbove_view:
  assumes "s = currentSegment m" "s \<noteq> 15" "\<And>p. p \<in> to_reverse m lwm \<Longrightarrow> in_chunk m p 0"
    "\<And>p q. p \<in> to_reverse m lwm \<Longrightarrow> q \<in> to_reverse m lwm \<Longrightarrow> p \<noteq> q \<Longrightarrow> loc_of m p \<noteq> loc_of m q"
  shows "\<exists>m'. reverseHeapPointersAbove lwm m = Some m' \<and> reversed m m' s (to_reverse m lwm)"
proof -
  have e: "{p \<in> to_reverse m lwm. p < 2 * int 0} = {}" by (auto simp: to_reverse_def live_def oop_ok_def)
  have "reversed m m s {p \<in> to_reverse m lwm. p < 2 * int 0}" unfolding e by (simp add: reversed_def)
  from reverse_loop_view [OF this _ assms] show ?thesis by (simp add: reverseHeapPointersAbove_def)
qed

section \<open>The sweep of a segment\<close>

text \<open>Words \<open>lo\<close> to \<open>hi - 1\<close> of segment \<open>s\<close> may have changed, nothing else.\<close>

definition cells_in :: "omem \<Rightarrow> omem \<Rightarrow> int \<Rightarrow> int \<Rightarrow> int \<Rightarrow> bool" where
  "cells_in m m' s lo hi \<longleftrightarrow> currentSegment m' = currentSegment m \<and> freeWords m' = freeWords m \<and> freeOops m' = freeOops m \<and>
     (\<forall>t w. t \<noteq> s \<or> w < lo \<or> hi \<le> w \<longrightarrow> cell m' t w = cell m t w)"

lemma cells_in_views:
  assumes "cells_in m m' s lo hi" "s \<noteq> 15"
  shows "seg_of m' q = seg_of m q" "loc_of m' q = loc_of m q" "ptr_of m' q = ptr_of m q" "odd_of m' q = odd_of m q"
    "count_of m' q = count_of m q" "free_of m' q = free_of m q" "pointer_head m' = pointer_head m"
  using assms by (simp_all add: cells_in_def entry_views pointer_head_def)

lemma move_words_view:
  assumes "currentSegment m = s" "0 \<le> s" "s < 15" "0 \<le> di" "di \<le> si" "si + int n \<le> 65536"
  shows "\<exists>m'. move_words i (i + int n - 1) si di m = Some (si + int n, di + int n, m') \<and> cells_in m m' s di (di + int n) \<and>
    (\<forall>j. 0 \<le> j \<and> j < int n \<longrightarrow> cell m' s (di + j) = cell m s (si + j))"
  using assms
proof (induction n arbitrary: i si di m)
  case 0
  then show ?case by (subst move_words.simps) (auto simp: cells_in_def)
next
  case (Suc n)
  let ?m = "set_cell s di (cell m s si) m"
  have ok: "seg_ok s si" "seg_ok s di" using Suc.prems by (auto simp: seg_ok_def)
  have "move_words i (i + int (Suc n) - 1) si di m = move_words (i + 1) (i + 1 + int n - 1) (si + 1) (di + 1) ?m"
    using ok Suc.prems(1) uint16 by (subst move_words.simps) (simp add: segment_word_def segment_word_put_def)
  moreover obtain m' where m': "move_words (i + 1) (i + 1 + int n - 1) (si + 1) (di + 1) ?m = Some (si + 1 + int n, di + 1 + int n, m')"
    "cells_in ?m m' s (di + 1) (di + 1 + int n)" "\<forall>j. 0 \<le> j \<and> j < int n \<longrightarrow> cell m' s (di + 1 + j) = cell ?m s (si + 1 + j)"
    using Suc.IH [of ?m "di + 1" "si + 1" "i + 1"] Suc.prems by auto
  moreover have "cell m' s (di + j) = cell m s (si + j)" if "0 \<le> j" "j < int (Suc n)" for j
  proof (cases "j = 0")
    case True
    then show ?thesis using m'(2) by (simp add: cells_in_def)
  next
    case False
    have "cell m' s (di + 1 + (j - 1)) = cell ?m s (si + 1 + (j - 1))"
      by (rule m'(3) [rule_format]) (use that False in auto)
    moreover have "di + 1 + (j - 1) = di + j" "si + 1 + (j - 1) = si + j" by simp_all
    moreover have "si + j \<noteq> di" using Suc.prems(5) that False by simp
    ultimately show ?thesis by simp
  qed
  moreover have "cells_in m m' s di (di + int (Suc n))" using m'(2) by (auto simp: cells_in_def)
  ultimately show ?case by (auto simp: ac_simps)
qed

text \<open>The chunks of a segment from a position upwards, in the order of their locations: objects and free chunks.\<close>

definition width :: "int set \<Rightarrow> omem \<Rightarrow> int \<Rightarrow> int" where
  "width F m p = (if p \<in> F then hw m p 0 else chunk_len m p)"

fun tiles :: "int set \<Rightarrow> omem \<Rightarrow> int \<Rightarrow> int \<Rightarrow> int list \<Rightarrow> bool" where
  "tiles F m s pos [] \<longleftrightarrow> pos = HeapSpaceStop \<or> pos = HeapSpaceStop + 1"
| "tiles F m s pos (p # ps) \<longleftrightarrow> live m p \<and> seg_of m p = s \<and> loc_of m p = pos \<and> HeaderSize \<le> hw m p 0 \<and> tiles F m s (pos + width F m p) ps"

lemma width_bounds: "2 \<le> hw m p 0 \<Longrightarrow> 2 \<le> width F m p" "hw m p 0 \<le> width F m p"
  using chunk_len_bounds(1) [of m p] by (auto simp: width_def)

lemma tiles_bounds:
  assumes "tiles F m s pos ps" "p \<in> set ps"
  shows "pos \<le> loc_of m p" "loc_of m p + width F m p \<le> 65515" "live m p" "seg_of m p = s" "2 \<le> hw m p 0"
proof -
  have le: "tiles F m s pos ps \<Longrightarrow> pos \<le> 65515" for pos ps
  proof (induction ps arbitrary: pos)
    case (Cons a ps)
    then have "pos + width F m a \<le> 65515" "2 \<le> hw m a 0" by auto
    then show ?case using width_bounds(1) [of m a F] by linarith
  qed auto
  have "tiles F m s pos ps \<Longrightarrow> p \<in> set ps \<Longrightarrow> pos \<le> loc_of m p \<and> loc_of m p + width F m p \<le> 65515 \<and> live m p \<and> seg_of m p = s \<and> 2 \<le> hw m p 0"
  proof (induction ps arbitrary: pos)
    case (Cons a ps)
    then have a: "live m a" "seg_of m a = s" "loc_of m a = pos" "2 \<le> hw m a 0" "tiles F m s (pos + width F m a) ps" by auto
    show ?case
    proof (cases "p = a")
      case True
      then show ?thesis using a le [OF a(5)] by simp
    next
      case False
      then show ?thesis using Cons.IH [OF a(5)] Cons.prems(2) width_bounds(1) [OF a(4), of F] by auto
    qed
  qed simp
  then show "pos \<le> loc_of m p" "loc_of m p + width F m p \<le> 65515" "live m p" "seg_of m p = s" "2 \<le> hw m p 0"
    using assms by auto
qed

lemma tiles_apart:
  assumes "tiles F m s pos ps" "p \<in> set ps" "q \<in> set ps" "p \<noteq> q"
  shows "loc_of m p + width F m p \<le> loc_of m q \<or> loc_of m q + width F m q \<le> loc_of m p"
  using assms
proof (induction ps arbitrary: pos)
  case (Cons a ps)
  then show ?case using tiles_bounds(1) [of F m s "pos + width F m a" ps] by auto
qed simp

lemma tiles_distinct: "tiles F m s pos ps \<Longrightarrow> distinct ps"
proof (induction ps arbitrary: pos)
  case (Cons a ps)
  then have "a \<notin> set ps" using tiles_bounds(1) [of F m s "pos + width F m a" ps a] width_bounds(1) [of m a F] by auto
  then show ?case using Cons by auto
qed simp

text \<open>What the sweep finds of a chunk whose objects are reversed and whose free chunks are abandoned.\<close>

definition ready :: "int set \<Rightarrow> omem \<Rightarrow> omem \<Rightarrow> int \<Rightarrow> int \<Rightarrow> bool" where
  "ready F m0 m s p \<longleftrightarrow> seg_of m p = s \<and> ptr_of m p = ptr_of m0 p \<and>
     (if p \<notin> F
      then hw m0 p 1 \<noteq> NonPointer \<and> cell m s (loc_of m0 p) = word_of_int p \<and> loc_of m p = hw m0 p 0 \<and>
           (\<forall>i. 1 \<le> i \<and> i < chunk_len m0 p \<longrightarrow> cell m s (loc_of m0 p + i) = cell m0 s (loc_of m0 p + i))
      else cell m s (loc_of m0 p + 1) = 65535 \<and> uint (cell m s (loc_of m0 p)) = hw m0 p 0)"

definition objects_in :: "int set \<Rightarrow> int list \<Rightarrow> int list" where
  "objects_in F ps = filter (\<lambda>p. p \<notin> F) ps"

text \<open>The objects are packed from a position upwards with the words they had.\<close>

fun packed :: "omem \<Rightarrow> omem \<Rightarrow> int \<Rightarrow> int \<Rightarrow> int list \<Rightarrow> bool" where
  "packed m0 m s pos [] \<longleftrightarrow> True"
| "packed m0 m s pos (p # ps) \<longleftrightarrow> loc_of m p = pos \<and>
     (\<forall>i. 0 \<le> i \<and> i < chunk_len m0 p \<longrightarrow> cell m s (pos + i) = cell m0 s (loc_of m0 p + i)) \<and>
     packed m0 m s (pos + chunk_len m0 p) ps"

definition swept_down :: "omem \<Rightarrow> omem \<Rightarrow> int \<Rightarrow> int \<Rightarrow> int set \<Rightarrow> bool" where
  "swept_down m m' s lo X \<longleftrightarrow> currentSegment m' = currentSegment m \<and> freeWords m' = freeWords m \<and> freeOops m' = freeOops m \<and>
     pointer_head m' = pointer_head m \<and>
     (\<forall>q. oop_ok q \<longrightarrow> seg_of m' q = seg_of m q \<and> ptr_of m' q = ptr_of m q \<and> odd_of m' q = odd_of m q \<and> count_of m' q = count_of m q \<and>
        free_of m' q = free_of m q \<and> (q \<notin> X \<longrightarrow> loc_of m' q = loc_of m q)) \<and>
     (\<forall>t w. t \<noteq> 15 \<longrightarrow> t \<noteq> s \<or> w < lo \<or> 65515 \<le> w \<longrightarrow> cell m' t w = cell m t w)"

lemma swept_downD:
  assumes "swept_down m m' s lo X"
  shows "oop_ok q \<Longrightarrow> seg_of m' q = seg_of m q" "oop_ok q \<Longrightarrow> ptr_of m' q = ptr_of m q" "oop_ok q \<Longrightarrow> odd_of m' q = odd_of m q"
    "oop_ok q \<Longrightarrow> count_of m' q = count_of m q" "oop_ok q \<Longrightarrow> free_of m' q = free_of m q" "oop_ok q \<Longrightarrow> q \<notin> X \<Longrightarrow> loc_of m' q = loc_of m q"
    "t \<noteq> 15 \<Longrightarrow> t \<noteq> s \<or> w < lo \<or> 65515 \<le> w \<Longrightarrow> cell m' t w = cell m t w" "currentSegment m' = currentSegment m" "pointer_head m' = pointer_head m"
    "freeWords m' = freeWords m" "freeOops m' = freeOops m"
  using assms by (auto simp: swept_down_def)

lemma swept_down_trans:
  assumes "swept_down m m1 s lo X" "swept_down m1 m2 s lo' Y" "lo \<le> lo'"
  shows "swept_down m m2 s lo (X \<union> Y)"
  using assms by (auto simp: swept_down_def)

text \<open>One object.\<close>

lemma sweep_object:
  assumes "live m0 p" "seg_of m0 p = s" "2 \<le> hw m0 p 0" "p \<notin> F" "ready F m0 m s p" "loc_of m0 p = si" "si + chunk_len m0 p \<le> 65515"
    "currentSegment m = s" "0 \<le> s" "s < 15" "0 \<le> di" "di \<le> si"
  shows "\<exists>m'. sweep_loop si di m = sweep_loop (si + chunk_len m0 p) (di + chunk_len m0 p) m' \<and> swept_down m m' s di {p} \<and> loc_of m' p = di \<and>
    (\<forall>i. 0 \<le> i \<and> i < chunk_len m0 p \<longrightarrow> cell m' s (di + i) = cell m0 s (si + i)) \<and>
    (\<forall>w. di + chunk_len m0 p \<le> w \<longrightarrow> cell m' s w = cell m s w)"
proof -
  define n where "n = chunk_len m0 p"
  have n: "2 \<le> n" "hw m0 p 0 \<le> n" using assms(3) chunk_len_bounds(1) [of m0 p] by (simp_all add: n_def)
  have p: "oop_ok p" "0 \<le> p" "p < 65536" "s \<noteq> 15" using assms by (auto simp: live_def oop_ok_def)
  have r: "seg_of m p = s" "ptr_of m p = ptr_of m0 p" "hw m0 p 1 \<noteq> 65535" "cell m s si = word_of_int p" "loc_of m p = hw m0 p 0"
    "\<And>i. 1 \<le> i \<Longrightarrow> i < n \<Longrightarrow> cell m s (si + i) = cell m0 s (si + i)"
    using assms(4-6) by (auto simp: ready_def n_def)
  have ok: "seg_ok s (si + 1)" "seg_ok s si" using assms n by (auto simp: seg_ok_def n_def)
  have c: "segment_word s (si + 1) m = Some (hw m0 p 1)"
    using ok(1) r(6) [of 1] n assms(2,6) by (simp add: segment_word_def hw_def)
  have sp: "segment_word s si m = Some p" using ok(2) r(4) p by (simp add: segment_word_def uint_of_int16)
  define m1 where "m1 = put_loc p di m"
  have db: "0 \<le> di" "di < 65536" using assms n by (simp_all add: n_def)
  have v1: "loc_of m1 p = di" "seg_of m1 p = s" "ptr_of m1 p = ptr_of m0 p" using p r db by (simp_all add: m1_def)
  have hb: "0 \<le> hw m0 p 0" "hw m0 p 0 < 65536" by (rule hw_bounds)+
  define m2 where "m2 = put_hw p 0 (hw m0 p 0) m1"
  have v2: "loc_of m2 p = di" "seg_of m2 p = s" "ptr_of m2 p = ptr_of m0 p" "hw m2 p 0 = hw m0 p 0"
    using v1 p hb by (simp_all add: m2_def hw_put_hw)
  have put: "sizeBitsOf_put p (hw m0 p 0) m1 = Some m2"
    using p v1 db hb by (simp add: sizeBitsOf_put_def m2_def in_chunk_def)
  have lim: "spaceOccupiedBy p m2 = Some n"
    using spaceOccupiedBy_view [of m2 p] p v2 db by (simp add: in_chunk_def chunk_len_def n_def)
  have cs: "currentSegment m2 = s" using assms(8) by (simp add: m2_def m1_def)
  have nn: "2 + int (nat (n - 1)) - 1 = n" "int (nat (n - 1)) = n - 1" using n by simp_all
  obtain m3 where m3: "move_words 2 n (si + 1) (di + 1) m2 = Some (si + n, di + n, m3)" "cells_in m2 m3 s (di + 1) (di + n)"
    "\<forall>j. 0 \<le> j \<and> j < n - 1 \<longrightarrow> cell m3 s (di + 1 + j) = cell m2 s (si + 1 + j)"
    using move_words_view [OF cs assms(9,10), of "di + 1" "si + 1" "nat (n - 1)" 2] assms(7,11,12) unfolding nn by (auto simp: n_def)
  note v3 = cells_in_views [OF m3(2) p(4)]
  have c2: "cell m2 s w = (if w = di then word_of_int (hw m0 p 0) else cell m s w)" for w
    using v1 p(4) by (simp add: m2_def put_hw_def m1_def)
  have "si < 65514" using assms(7) n by (simp add: n_def)
  then have "sweep_loop si di m = sweep_loop (si + n) (di + n) m3"
    using assms(8) c sp r(3,5) p(1) db put lim m3(1) by (subst sweep_loop.simps) (simp add: m1_def)
  moreover have "swept_down m m3 s di {p}"
    unfolding swept_down_def
  proof (intro conjI allI impI)
    fix t w :: int assume tw: "t \<noteq> 15" "t \<noteq> s \<or> w < di \<or> 65515 \<le> w"
    have "cell m3 t w = cell m2 t w" using m3(2) tw assms(7,12) by (auto simp: cells_in_def n_def)
    also have "\<dots> = cell m t w" using tw assms(7,12) n v1 by (auto simp: m2_def put_hw_def m1_def n_def)
    finally show "cell m3 t w = cell m t w" .
  qed (use m3(2) v3 v1 p db in \<open>simp_all add: cells_in_def m2_def m1_def\<close>)
  moreover have "cell m3 s (di + i) = cell m0 s (si + i)" if "0 \<le> i" "i < n" for i
  proof (cases "i = 0")
    case True
    have "cell m3 s di = cell m2 s di" using m3(2) by (simp add: cells_in_def)
    also have "\<dots> = word_of_int (hw m0 p 0)" by (simp add: c2)
    also have "\<dots> = cell m0 s si" using assms(2,6) by (simp add: hw_def)
    finally show ?thesis using True by simp
  next
    case False
    have "cell m3 s (di + 1 + (i - 1)) = cell m2 s (si + 1 + (i - 1))"
      by (rule m3(3) [rule_format]) (use that False in auto)
    moreover have "di + 1 + (i - 1) = di + i" "si + 1 + (i - 1) = si + i" by simp_all
    moreover have "cell m2 s (si + i) = cell m s (si + i)" using c2 assms(12) False that by simp
    ultimately show ?thesis using r(6) [of i] False that by simp
  qed
  moreover have "cell m3 s w = cell m s w" if "di + n \<le> w" for w
    using m3(2) c2 that n by (simp add: cells_in_def)
  moreover have "loc_of m3 p = di" using v3 v2 by simp
  ultimately show ?thesis unfolding n_def by blast
qed

text \<open>The words the objects of a list occupy.\<close>

definition occupied :: "omem \<Rightarrow> int list \<Rightarrow> int" where
  "occupied m ps = (\<Sum>p\<leftarrow>ps. chunk_len m p)"

lemma ready_frame:
  assumes "ready F m0 m s q" "seg_of m1 q = seg_of m q" "ptr_of m1 q = ptr_of m q" "q \<notin> F \<Longrightarrow> loc_of m1 q = loc_of m q"
    "\<And>w. loc_of m0 q \<le> w \<Longrightarrow> cell m1 s w = cell m s w"
  shows "ready F m0 m1 s q"
proof (cases "q \<in> F")
  case True
  then show ?thesis using assms by (simp add: ready_def)
next
  case False
  then show ?thesis using assms by (simp add: ready_def)
qed

text \<open>The whole sweep, from a position with all chunks above it ready.\<close>

lemma sweep_loop_view:
  assumes "tiles F m0 s si ps" "\<And>p. p \<in> set ps \<Longrightarrow> ready F m0 m s p" "currentSegment m = s" "0 \<le> s" "s < 15" "0 \<le> di" "di \<le> si"
  shows "\<exists>m'. sweep_loop si di m = Some (di + occupied m0 (objects_in F ps), m') \<and> swept_down m m' s di (set (objects_in F ps)) \<and>
    packed m0 m' s di (objects_in F ps)"
  using assms
proof (induction ps arbitrary: si di m)
  case Nil
  then have "sweep_loop si di m = Some (di, m)" by (subst sweep_loop.simps) auto
  then show ?case by (simp add: objects_in_def occupied_def swept_down_def)
next
  case (Cons p ps)
  have t: "live m0 p" "seg_of m0 p = s" "loc_of m0 p = si" "2 \<le> hw m0 p 0" "tiles F m0 s (si + width F m0 p) ps"
    using Cons.prems(1) by auto
  have r: "ready F m0 m s p" using Cons.prems(2) by simp
  have wb: "2 \<le> width F m0 p" by (rule width_bounds(1) [OF t(4)])
  have top: "si + width F m0 p \<le> 65515" using tiles_bounds(2) [OF Cons.prems(1), of p] t(3) by simp
  have s15: "s \<noteq> 15" using Cons.prems(5) by simp
  show ?case
  proof (cases "p \<in> F")
    case True
    have w: "width F m0 p = hw m0 p 0" using True by (simp add: width_def)
    have ok: "seg_ok s si" "seg_ok s (si + 1)" "si < 65514" using Cons.prems top wb by (auto simp: seg_ok_def)
    have "sweep_loop si di m = sweep_loop (si + hw m0 p 0) di m"
      using r True ok Cons.prems(3) t(3) by (subst sweep_loop.simps) (simp add: ready_def segment_word_def)
    moreover have "\<exists>m'. sweep_loop (si + width F m0 p) di m = Some (di + occupied m0 (objects_in F ps), m') \<and>
      swept_down m m' s di (set (objects_in F ps)) \<and> packed m0 m' s di (objects_in F ps)"
      by (rule Cons.IH [OF t(5)]) (use Cons.prems wb in auto)
    ultimately show ?thesis using True w by (simp add: objects_in_def)
  next
    case False
    have w: "width F m0 p = chunk_len m0 p" using False by (simp add: width_def)
    obtain m1 where m1: "sweep_loop si di m = sweep_loop (si + chunk_len m0 p) (di + chunk_len m0 p) m1" "swept_down m m1 s di {p}"
      "loc_of m1 p = di" "\<forall>i. 0 \<le> i \<and> i < chunk_len m0 p \<longrightarrow> cell m1 s (di + i) = cell m0 s (si + i)"
      "\<forall>w. di + chunk_len m0 p \<le> w \<longrightarrow> cell m1 s w = cell m s w"
      using sweep_object [OF t(1,2,4) False r t(3) _ Cons.prems(3-7)] top unfolding w by blast
    note d = swept_downD [OF m1(2)]
    have np: "p \<notin> set ps" using tiles_distinct [OF Cons.prems(1)] by simp
    have "ready F m0 m1 s q" if q: "q \<in> set ps" for q
    proof (rule ready_frame [of F m0 m])
      have o: "oop_ok q" "q \<noteq> p" using tiles_bounds(3) [OF t(5) q] np q by (auto simp: live_def)
      show "seg_of m1 q = seg_of m q" "ptr_of m1 q = ptr_of m q" "loc_of m1 q = loc_of m q" using d(1,2,6) o by auto
      fix w assume "loc_of m0 q \<le> w"
      then have "di + chunk_len m0 p \<le> w" using tiles_bounds(1) [OF t(5) q] w Cons.prems(7) by simp
      then show "cell m1 s w = cell m s w" using m1(5) by blast
    qed (use Cons.prems(2) q in simp)
    then have "\<exists>m'. sweep_loop (si + width F m0 p) (di + chunk_len m0 p) m1 = Some (di + chunk_len m0 p + occupied m0 (objects_in F ps), m') \<and>
      swept_down m1 m' s (di + chunk_len m0 p) (set (objects_in F ps)) \<and> packed m0 m' s (di + chunk_len m0 p) (objects_in F ps)"
      by (intro Cons.IH [OF t(5)]) (use Cons.prems wb w d(8) in auto)
    then obtain m' where m': "sweep_loop (si + chunk_len m0 p) (di + chunk_len m0 p) m1 = Some (di + chunk_len m0 p + occupied m0 (objects_in F ps), m')"
      "swept_down m1 m' s (di + chunk_len m0 p) (set (objects_in F ps))" "packed m0 m' s (di + chunk_len m0 p) (objects_in F ps)"
      unfolding w by blast
    note d' = swept_downD [OF m'(2)]
    have "oop_ok p" "p \<notin> set (objects_in F ps)" using t(1) np by (auto simp: live_def objects_in_def)
    then have "loc_of m' p = di" using d'(6) m1(3) by simp
    moreover have "cell m' s (di + i) = cell m0 s (loc_of m0 p + i)" if "0 \<le> i" "i < chunk_len m0 p" for i
      using d'(7) [OF s15, of "di + i"] m1(4) that t(3) by simp
    moreover have "swept_down m m' s di (set (p # objects_in F ps))"
      using swept_down_trans [OF m1(2) m'(2)] wb w by simp
    moreover have "objects_in F (p # ps) = p # objects_in F ps" using False by (simp add: objects_in_def)
    ultimately show ?thesis using m1(1) m'(1,3) by (simp add: occupied_def add.assoc)
  qed
qed

section \<open>The compaction of a segment\<close>

text \<open>Different chunks have no word in common.\<close>

lemma tiles_words:
  assumes "tiles F m s pos ps" "p \<in> set ps" "q \<in> set ps" "p \<noteq> q" "0 \<le> i" "i < width F m p" "0 \<le> j" "j < width F m q"
  shows "loc_of m p + i \<noteq> loc_of m q + j"
  using tiles_apart [OF assms(1-4)] assms(5-) by linarith

lemma tiles_total: "tiles F m s pos ps \<Longrightarrow> pos + (\<Sum>p\<leftarrow>ps. width F m p) \<le> 65515"
proof (induction ps arbitrary: pos)
  case (Cons a ps)
  then have "pos + width F m a + (\<Sum>p\<leftarrow>ps. width F m p) \<le> 65515" by simp
  then show ?case by simp
qed auto

lemma occupied_le_widths:
  assumes "\<And>p. p \<in> set ps \<Longrightarrow> 2 \<le> hw m p 0"
  shows "occupied m (objects_in F ps) \<le> (\<Sum>p\<leftarrow>ps. width F m p)"
  using assms
proof (induction ps)
  case (Cons p ps)
  then have "2 \<le> width F m p" "occupied m (objects_in F ps) \<le> (\<Sum>p\<leftarrow>ps. width F m p)" using width_bounds(1) [of m p F] by simp_all
  then show ?case by (cases "p \<in> F") (simp_all add: occupied_def objects_in_def width_def)
qed (simp add: occupied_def objects_in_def)

text \<open>The chunks up to the first free one are objects.\<close>

lemma tiles_split:
  assumes "tiles F m s pos ps" "F \<inter> set ps \<noteq> {}"
  shows "\<exists>as f bs. ps = as @ f # bs \<and> set as \<inter> F = {} \<and> f \<in> F \<and> tiles F m s (loc_of m f) (f # bs) \<and>
    loc_of m f = pos + occupied m as \<and> (\<forall>q\<in>F \<inter> set ps. loc_of m f \<le> loc_of m q) \<and>
    (\<forall>p\<in>set as. loc_of m p + chunk_len m p \<le> loc_of m f) \<and> packed m m s pos as"
  using assms
proof (induction ps arbitrary: pos)
  case (Cons p ps)
  have t: "live m p" "seg_of m p = s" "loc_of m p = pos" "2 \<le> hw m p 0" "tiles F m s (pos + width F m p) ps" using Cons.prems(1) by auto
  show ?case
  proof (cases "p \<in> F")
    case True
    have "\<forall>q\<in>F \<inter> set (p # ps). loc_of m p \<le> loc_of m q"
      using tiles_bounds(1) [OF Cons.prems(1)] t(3) by auto
    then show ?thesis using True Cons.prems(1) t(3) by (intro exI [of _ "[]"] exI [of _ p] exI [of _ ps]) (simp add: occupied_def)
  next
    case False
    then have w: "width F m p = chunk_len m p" "F \<inter> set ps \<noteq> {}" using Cons.prems(2) by (auto simp: width_def)
    obtain as f bs where r: "ps = as @ f # bs" "set as \<inter> F = {}" "f \<in> F" "tiles F m s (loc_of m f) (f # bs)"
      "loc_of m f = pos + width F m p + occupied m as" "\<forall>q\<in>F \<inter> set ps. loc_of m f \<le> loc_of m q"
      "\<forall>p\<in>set as. loc_of m p + chunk_len m p \<le> loc_of m f" "packed m m s (pos + width F m p) as"
      using Cons.IH [OF t(5) w(2)] by blast
    have "f \<in> set ps" using r(1) by simp
    then have "pos + width F m p \<le> loc_of m f" using tiles_bounds(1) [OF t(5)] by blast
    then show ?thesis using r False t(3) w(1)
      by (intro exI [of _ "p # as"] exI [of _ f] exI [of _ bs]) (auto simp: occupied_def)
  qed
qed simp

lemma packed_append: "packed m m' s pos (as @ bs) \<longleftrightarrow> packed m m' s pos as \<and> packed m m' s (pos + occupied m as) bs"
  by (induction as arbitrary: pos) (auto simp: occupied_def add.assoc)

lemma packed_frame:
  assumes "packed m m1 s pos ps" "\<And>p. p \<in> set ps \<Longrightarrow> loc_of m2 p = loc_of m1 p"
    "\<And>w. pos \<le> w \<Longrightarrow> w < pos + occupied m ps \<Longrightarrow> cell m2 s w = cell m1 s w" "\<And>p. p \<in> set ps \<Longrightarrow> 0 \<le> chunk_len m p"
  shows "packed m m2 s pos ps"
  using assms
proof (induction ps arbitrary: pos)
  case (Cons p ps)
  have nn: "0 \<le> occupied m ps" unfolding occupied_def by (rule sum_list_nonneg) (use Cons.prems(4) in auto)
  have l: "0 \<le> chunk_len m p" using Cons.prems(4) by simp
  have c: "cell m2 s w = cell m1 s w" if "pos \<le> w" "w < pos + chunk_len m p + occupied m ps" for w
    using Cons.prems(3) that by (simp add: occupied_def add.assoc)
  have "packed m m2 s (pos + chunk_len m p) ps"
  proof (rule Cons.IH)
    show "cell m2 s w = cell m1 s w" if "pos + chunk_len m p \<le> w" "w < pos + chunk_len m p + occupied m ps" for w
      by (rule c) (use that l in linarith)+
  qed (use Cons.prems in auto)
  moreover have "cell m2 s (pos + i) = cell m1 s (pos + i)" if "0 \<le> i" "i < chunk_len m p" for i
    by (rule c) (use that nn in linarith)+
  ultimately show ?case using Cons.prems(1,2) by simp
qed simp

lemma packedD:
  assumes "packed m m' s pos ps" "p \<in> set ps" "\<And>q. q \<in> set ps \<Longrightarrow> 0 \<le> chunk_len m q"
  shows "pos \<le> loc_of m' p" "loc_of m' p + chunk_len m p \<le> pos + occupied m ps"
    "0 \<le> i \<Longrightarrow> i < chunk_len m p \<Longrightarrow> cell m' s (loc_of m' p + i) = cell m s (loc_of m p + i)"
proof -
  have nn: "\<And>qs. set qs \<subseteq> set ps \<Longrightarrow> 0 \<le> occupied m qs" unfolding occupied_def by (rule sum_list_nonneg) (use assms(3) in auto)
  have "packed m m' s pos qs \<Longrightarrow> p \<in> set qs \<Longrightarrow> set qs \<subseteq> set ps \<Longrightarrow> pos \<le> loc_of m' p \<and> loc_of m' p + chunk_len m p \<le> pos + occupied m qs \<and>
     (\<forall>i. 0 \<le> i \<and> i < chunk_len m p \<longrightarrow> cell m' s (loc_of m' p + i) = cell m s (loc_of m p + i))" for qs
  proof (induction qs arbitrary: pos)
    case (Cons a qs)
    show ?case
    proof (cases "p = a")
      case True
      then show ?thesis using Cons.prems nn [of qs] by (simp add: occupied_def)
    next
      case False
      then have "packed m m' s (pos + chunk_len m a) qs" "p \<in> set qs" "set qs \<subseteq> set ps" "0 \<le> chunk_len m a" using Cons.prems assms(3) by auto
      then show ?thesis using Cons.IH [of "pos + chunk_len m a"] by (simp add: occupied_def)
    qed
  qed simp
  from this [OF assms(1,2)] show "pos \<le> loc_of m' p" "loc_of m' p + chunk_len m p \<le> pos + occupied m ps"
    "0 \<le> i \<Longrightarrow> i < chunk_len m p \<Longrightarrow> cell m' s (loc_of m' p + i) = cell m s (loc_of m p + i)" by auto
qed

text \<open>A chunk obtained at a location.\<close>

lemma cleared_entry:
  assumes "oop_ok p" "oop_ok q"
  shows "loc_of (set_cell 15 p 0 m) q = loc_of m q" "seg_of (set_cell 15 p 0 m) q = (if q = p then 0 else seg_of m q)"
    "free_of (set_cell 15 p 0 m) q = (if q = p then 0 else free_of m q)" "ptr_of (set_cell 15 p 0 m) q = (if q = p then 0 else ptr_of m q)"
    "odd_of (set_cell 15 p 0 m) q = (if q = p then 0 else odd_of m q)" "count_of (set_cell 15 p 0 m) q = (if q = p then 0 else count_of m q)"
    "pointer_head (set_cell 15 p 0 m) = pointer_head m"
  using oop_neq [OF assms] oop_neq [OF assms(2,1)] assms
  by (simp_all add: entry_views pointer_head_def field_get_def oop_ok_def)

lemma obtainPointer_view:
  assumes "pointers.stack m (p # fs)" "p \<noteq> NilPointer" "s = currentSegment m" "0 \<le> s" "s < 15" "0 \<le> sz" "sz < 65536" "0 \<le> l" "l < 65536"
    "p \<notin> set fs"
  shows "\<exists>m'. obtainPointer_location sz l m = Some (p, m') \<and> pointers.stack m' fs \<and> currentSegment m' = s \<and>
    freeWords m' = freeWords m \<and> freeOops m' = freeOops m \<and>
    (\<forall>q. oop_ok q \<longrightarrow> q \<noteq> p \<longrightarrow> seg_of m' q = seg_of m q \<and> loc_of m' q = loc_of m q \<and> ptr_of m' q = ptr_of m q \<and> odd_of m' q = odd_of m q \<and>
       count_of m' q = count_of m q \<and> free_of m' q = free_of m q) \<and>
    seg_of m' p = s \<and> loc_of m' p = l \<and> ptr_of m' p = 0 \<and> odd_of m' p = 0 \<and> count_of m' p = 0 \<and> free_of m' p = 0 \<and> hw m' p 0 = sz \<and>
    (\<forall>t w. t \<noteq> 15 \<longrightarrow> t \<noteq> s \<or> w \<noteq> l \<longrightarrow> cell m' t w = cell m t w)"
proof -
  have p: "oop_ok p" using assms(1) pointers.linked_members [of m "pointer_head m" "p # fs" p] by (simp add: pointers.stack_def)
  obtain m1 where m1: "removeFromFreePointerList m = Some (p, m1)" "m1 = set_cell 15 65534 (word_of_int (loc_of m p)) m" "pointers.stack m1 fs"
    using removePointer_view [OF assms(1)] by blast
  have mem: "q \<in> set fs \<Longrightarrow> oop_ok q" for q using m1(3) pointers.linked_members by (auto simp: pointers.stack_def)
  let ?m2 = "set_cell 15 p 0 m1"
  let ?m3 = "put_loc p l (put_bits 0 4 p s ?m2)"
  let ?m4 = "put_hw p 0 sz ?m3"
  note v1 = set_pointer_head_views [of _ "word_of_int (loc_of m p)" m, folded m1(2)]
  note v2 = cleared_entry [OF p, of _ m1]
  have v3: "seg_of ?m3 p = s" "loc_of ?m3 p = l" "ptr_of ?m3 p = 0" "odd_of ?m3 p = 0" "count_of ?m3 p = 0" "free_of ?m3 p = 0"
    "pointer_head ?m3 = pointer_head m1"
    using p v2 [OF p] assms(4,5,8,9) by simp_all
  have s15: "seg_of ?m3 p \<noteq> 15" using v3(1) assms(5) by simp
  have "sizeBitsOf_put p sz ?m3 = Some ?m4" using p v3(2) assms(6-9) by (simp add: sizeBitsOf_put_def in_chunk_def)
  moreover have "ot_put p 0 m1 = Some ?m2" using ot_put_write [OF p, of 0 m1] by simp
  ultimately have ob: "obtainPointer_location sz l m = Some (p, ?m4)"
    using assms(2-9) p m1(1) by (simp add: obtainPointer_location_def m1(2))
  have oth: "seg_of ?m4 q = seg_of m q \<and> loc_of ?m4 q = loc_of m q \<and> ptr_of ?m4 q = ptr_of m q \<and> odd_of ?m4 q = odd_of m q \<and>
       count_of ?m4 q = count_of m q \<and> free_of ?m4 q = free_of m q" if q: "oop_ok q" "q \<noteq> p" for q
    using q p s15 v2 [OF q(1)] v1 [OF q(1)] assms(4,5,8,9) by simp
  have "pointers.stack ?m4 fs"
  proof (rule pointers.stack_frame [OF m1(3)])
    show "pointer_head ?m4 = pointer_head m1" using v3(7) s15 by simp
    show "oop_ok q \<and> loc_of ?m4 q = loc_of m1 q" if "q \<in> set fs" for q
    proof -
      have "q \<noteq> p" "oop_ok q" using that assms(10) mem by auto
      then show ?thesis using oth v1(1) by simp
    qed
  qed
  moreover have "hw ?m4 p 0 = sz" using s15 assms(6,7) by (simp add: hw_put_hw same_word_def)
  moreover have "cell ?m4 t w = cell m t w" if "t \<noteq> 15" "t \<noteq> s \<or> w \<noteq> l" for t w
    using that v3(1,2) by (auto simp: put_hw_def m1(2))
  moreover have "currentSegment ?m4 = s" "freeWords ?m4 = freeWords m" "freeOops ?m4 = freeOops m" by (simp_all add: m1(2) assms(3))
  ultimately show ?thesis using ob oth v3 s15 p by (intro exI [of _ ?m4]) simp
qed

text \<open>The chunks of the current segment: its free-chunk lists, the free entries and the chunks in the order of
their locations, which cover the segment.\<close>

definition segment_ok :: "omem \<Rightarrow> (int \<Rightarrow> int list) \<Rightarrow> int list \<Rightarrow> int list \<Rightarrow> bool" where
  "segment_ok m qs fs ps \<longleftrightarrow> FirstHeapSegment \<le> currentSegment m \<and> currentSegment m \<le> LastHeapSegment \<and>
     free_lists (currentSegment m) m 2 qs \<and> on_lists 2 qs \<subseteq> set ps \<and> pointers.stack m fs \<and> (\<forall>q\<in>set fs. free_of m q = 1) \<and>
     live m NilPointer \<and> NilPointer \<notin> on_lists 2 qs \<and>
     tiles (on_lists 2 qs) m (currentSegment m) 0 ps \<and> (\<forall>p. live m p \<and> seg_of m p = currentSegment m \<longrightarrow> p \<in> set ps) \<and>
     (\<forall>p\<in>set ps - on_lists 2 qs. hw m p 1 \<noteq> NonPointer)"

lemma segment_okD:
  assumes "segment_ok m qs fs ps"
  shows "0 \<le> currentSegment m" "currentSegment m < 15" "free_lists (currentSegment m) m 2 qs" "on_lists 2 qs \<subseteq> set ps" "pointers.stack m fs"
    "q \<in> set fs \<Longrightarrow> free_of m q = 1" "free_of m 2 = 0" "2 \<notin> on_lists 2 qs"
    "tiles (on_lists 2 qs) m (currentSegment m) 0 ps" "live m p \<Longrightarrow> seg_of m p = currentSegment m \<Longrightarrow> p \<in> set ps"
    "p \<in> set ps \<Longrightarrow> p \<notin> on_lists 2 qs \<Longrightarrow> hw m p 1 \<noteq> NonPointer"
  using assms by (auto simp: segment_ok_def live_def)

text \<open>After abandoning and reversing, every chunk from the first free one on is ready.\<close>

lemma ready_after_reversal:
  assumes "tiles F m s 0 ps" "F \<subseteq> set ps" "s \<noteq> 15" "\<And>p. p \<in> set ps \<Longrightarrow> p \<notin> F \<Longrightarrow> hw m p 1 \<noteq> NonPointer"
    "abandoned m m1 s F 21" "reversed m1 m2 s (set bs - F)" "p \<in> set bs" "set bs \<subseteq> set ps"
  shows "ready F m m2 s p"
proof -
  note tb = tiles_bounds [OF assms(1)]
  have ok: "oop_ok q" "2 \<le> hw m q 0" "2 \<le> width F m q" "loc_of m q + width F m q \<le> 65515" "seg_of m q = s" if "q \<in> set ps" for q
    using tb [OF that] width_bounds(1) [of m q F] by (auto simp: live_def)
  have p: "p \<in> set ps" using assms(7,8) by blast
  have loc1: "loc_of m1 q = loc_of m q" if "q \<in> set bs - F" for q using abandonedD(7) [OF assms(5)] ok(1) that assms(8) by blast
  note rd = reversedD [OF assms(6)]
  have c1: "cell m1 s (loc_of m p + i) = cell m s (loc_of m p + i)" if i: "0 \<le> i" "i < width F m p" "p \<in> F \<Longrightarrow> i = 0" for i
  proof -
    have "loc_of m p + i \<noteq> loc_of m q + 1" if q: "q \<in> F" for q
    proof (cases "q = p")
      case False
      show ?thesis by (rule tiles_words [OF assms(1) p]) (use q False \<open>0 \<le> i\<close> \<open>i < width F m p\<close> assms(2) ok(3) [of q] in auto)
    qed (use q i in auto)
    then show ?thesis using abandoned_cell [OF assms(5,3), of "loc_of m p + i"] i ok(4) [OF p] by auto
  qed
  have c2: "cell m2 s (loc_of m p + i) = cell m1 s (loc_of m p + i)" if i: "0 \<le> i" "i < width F m p" "p \<notin> F \<Longrightarrow> 1 \<le> i" for i
  proof -
    have "loc_of m p + i \<noteq> loc_of m q + 0" if q: "q \<in> set bs - F" for q
    proof (cases "q = p")
      case False
      show ?thesis by (rule tiles_words [OF assms(1) p]) (use q False \<open>0 \<le> i\<close> \<open>i < width F m p\<close> assms(8) ok(3) [of q] in auto)
    qed (use q i in auto)
    then have "loc_of m p + i \<notin> loc_of m1 ` (set bs - F)" using loc1 by auto
    then show ?thesis using rd(8) [OF assms(3)] by blast
  qed
  have se: "seg_of m2 p = s" "ptr_of m2 p = ptr_of m p" "seg_of m1 p = s" using rd(1,2) abandonedD(1,2) [OF assms(5)] ok(1,5) [OF p] by auto
  show ?thesis
  proof (cases "p \<in> F")
    case True
    have w: "width F m p = hw m p 0" using True by (simp add: width_def)
    have "cell m1 s (loc_of m p + 1) = 65535"
      using abandoned_cell [OF assms(5,3), of "loc_of m p + 1"] True ok(3,4) [OF p] by auto
    then have "cell m2 s (loc_of m p + 1) = 65535" using c2 [of 1] True ok(3) [OF p] by simp
    moreover have "cell m2 s (loc_of m p) = cell m s (loc_of m p)" using c1 [of 0] c2 [of 0] True ok(3) [OF p] by simp
    ultimately show ?thesis using True se ok(5) [OF p] by (simp add: ready_def hw_def)
  next
    case False
    have w: "width F m p = chunk_len m p" using False by (simp add: width_def)
    have R: "p \<in> set bs - F" using False assms(7) by simp
    have "hw m1 p 0 = hw m p 0" using c1 [of 0] ok(3) [OF p] False se(3) ok(5) [OF p] loc1 [OF R] by (simp add: hw_def)
    then have "loc_of m2 p = hw m p 0" using rd(6) [OF ok(1) [OF p]] R by simp
    moreover have "cell m2 s (loc_of m p) = word_of_int p" using rd(7) [OF R] loc1 [OF R] by simp
    moreover have "cell m2 s (loc_of m p + i) = cell m s (loc_of m p + i)" if "1 \<le> i" "i < chunk_len m p" for i
      using c1 [of i] c2 [of i] that False w by simp
    ultimately show ?thesis using False se assms(4) [OF p False] by (simp add: ready_def)
  qed
qed

text \<open>The objects whose pointers are reversed are those from the first free chunk on.\<close>

lemma objects_above:
  assumes "segment_ok m qs fs ps" "F = on_lists 2 qs" "s = currentSegment m" "abandoned m m1 s F 21" "l = loc_of m f"
    "ps = as @ f # bs" "f \<in> F" "tiles F m s (loc_of m f) (f # bs)" "\<forall>p\<in>set as. loc_of m p + chunk_len m p \<le> loc_of m f"
  shows "to_reverse m1 l = set (f # bs) - F"
proof -
  note so = segment_okD [OF assms(1), folded assms(2,3)]
  note tb = tiles_bounds [OF so(9)] and ad = abandonedD [OF assms(4)]
  have ok: "oop_ok q" "2 \<le> hw m q 0" "free_of m q = 0" if "q \<in> set ps" for q using tb [OF that] by (auto simp: live_def)
  show ?thesis
  proof (intro equalityI subsetI)
    fix p assume "p \<in> to_reverse m1 l"
    then have p: "oop_ok p" "free_of m1 p = 0" "seg_of m1 p = s" "l \<le> loc_of m1 p"
      using assms(4,3) by (auto simp: to_reverse_def live_def abandoned_def)
    then have nF: "p \<notin> F" using ad(5) by auto
    then have "live m p" "seg_of m p = s" "l \<le> loc_of m p" using p ad(1,6,7) by (auto simp: live_def)
    moreover from this have "p \<in> set ps" using so(10) by blast
    ultimately show "p \<in> set (f # bs) - F"
      using nF assms(6,9) ok(2) [of p] chunk_len_bounds(1) [of m p] by (auto simp: assms(5))
  next
    fix p assume p: "p \<in> set (f # bs) - F"
    then have "p \<in> set ps" using assms(6) by auto
    then have "oop_ok p" "seg_of m1 p = s" "free_of m1 p = 0" "loc_of m1 p = loc_of m p" using ad(1,6,7) ok tb(4) p by auto
    then show "p \<in> to_reverse m1 l"
      using tiles_bounds(1) [OF assms(8), of p] p assms(4,3) by (auto simp: to_reverse_def live_def assms(5) abandoned_def)
  qed
qed

lemma compact_swept:
  assumes "segment_ok m qs fs ps" "F = on_lists 2 qs" "F \<noteq> {}" "s = currentSegment m"
  shows "\<exists>m3 fs3. compactCurrentSegment m = do { (p, m) \<leftarrow> obtainPointer_location (65515 - occupied m (objects_in F ps)) (occupied m (objects_in F ps)) m3;
      deallocate p m } \<and> occupied m (objects_in F ps) \<le> 65513 \<and> currentSegment m3 = s \<and>
    pointers.stack m3 fs3 \<and> set fs3 = set fs \<union> F \<and>
    (\<forall>q. oop_ok q \<longrightarrow> seg_of m3 q = seg_of m q \<and> ptr_of m3 q = ptr_of m q \<and> odd_of m3 q = odd_of m q \<and> count_of m3 q = count_of m q \<and>
       free_of m3 q = (if q \<in> F then 1 else free_of m q) \<and> (q \<notin> set ps \<longrightarrow> loc_of m3 q = loc_of m q)) \<and>
    packed m m3 s 0 (objects_in F ps) \<and> (\<forall>t w. t \<noteq> 15 \<longrightarrow> t \<noteq> s \<longrightarrow> cell m3 t w = cell m t w) \<and>
    (\<forall>j. 2 \<le> j \<and> j \<le> 20 \<longrightarrow> cell m3 s (65515 + j) = 65535)"
proof -
  note so = segment_okD [OF assms(1), folded assms(2,4)]
  have s: "s \<noteq> 15" "0 \<le> s" "s < 15" using so(1,2) by simp_all
  note tb = tiles_bounds [OF so(9)]
  have ok: "oop_ok q" "2 \<le> hw m q 0" "2 \<le> width F m q" "loc_of m q + width F m q \<le> 65515" "free_of m q = 0" if "q \<in> set ps" for q
    using tb [OF that] width_bounds(1) [of m q F] by (auto simp: live_def)
  have disj: "F \<inter> set fs = {}" using so(4,6) ok(5) by fastforce
  obtain m1 fs1 where m1: "abandon_sizes 2 s 65514 m = Some (Min (insert 65514 (loc_of m ` F)), m1)" "abandoned m m1 s F 21"
    "pointers.stack m1 fs1" "set fs1 = set fs \<union> F" "\<forall>j. 2 \<le> j \<and> j \<le> 20 \<longrightarrow> cell m1 s (65515 + j) = 65535"
    using abandon_sizes_view [OF s(2,3) _ _ so(3,5), of 65514] disj unfolding assms(2) [symmetric] by auto
  obtain as f bs where sp: "ps = as @ f # bs" "set as \<inter> F = {}" "f \<in> F" "tiles F m s (loc_of m f) (f # bs)" "loc_of m f = 0 + occupied m as"
    "\<forall>q\<in>F \<inter> set ps. loc_of m f \<le> loc_of m q" "\<forall>p\<in>set as. loc_of m p + chunk_len m p \<le> loc_of m f" "packed m m s 0 as"
    using tiles_split [OF so(9)] so(4) assms(3) by (metis Int_absorb2)
  define l where "l = loc_of m f"
  have finF: "finite F" using so(4) finite_subset by blast
  have fps: "f \<in> set ps" using sp(1) by simp
  have l: "0 \<le> l" "l < 65514" "l \<le> 65513" using ok(3,4) [OF fps] entry_bounds [of m f] by (simp_all add: l_def)
  have lwm: "Min (insert 65514 (loc_of m ` F)) = l"
    by (rule Min_eqI) (use finF sp(3,6) so(4) l in \<open>auto simp: l_def\<close>)
  note ad = abandonedD [OF m1(2)]
  have tot: "occupied m (objects_in F bs) + l \<le> 65513"
  proof -
    have "occupied m (objects_in F bs) \<le> (\<Sum>p\<leftarrow>bs. width F m p)" by (rule occupied_le_widths) (use ok(2) sp(1) in auto)
    then show ?thesis using tiles_total [OF sp(4)] ok(3) [OF fps] by (simp add: l_def)
  qed
  have R: "to_reverse m1 l = set (f # bs) - F" by (rule objects_above [OF assms(1,2,4) m1(2) l_def sp(1,3,4,7)])
  have loc1: "loc_of m1 q = loc_of m q" "oop_ok q" "q \<in> set ps" if "q \<in> set (f # bs) - F" for q
    using ad(7) [of q] ok(1) [of q] that sp(1) by auto
  have cs1: "currentSegment m1 = s" using m1(2) assms(4) by (simp add: abandoned_def)
  obtain m2 where m2: "reverseHeapPointersAbove l m1 = Some m2" "reversed m1 m2 s (set (f # bs) - F)"
  proof (atomize_elim, unfold R [symmetric], rule reverseHeapPointersAbove_view [OF cs1 [symmetric] s(1)], unfold R)
    show "in_chunk m1 p 0" if "p \<in> set (f # bs) - F" for p
      using loc1 [OF that] ok(3,4) [of p] entry_bounds [of m p] by (simp add: in_chunk_def)
    show "loc_of m1 p \<noteq> loc_of m1 q" if "p \<in> set (f # bs) - F" "q \<in> set (f # bs) - F" "p \<noteq> q" for p q
      using loc1 [OF that(1)] loc1 [OF that(2)] tiles_words [OF so(9), of p q 0 0] that(3) ok(3) [of p] ok(3) [of q] by simp
  qed
  note rd = reversedD [OF m2(2)]
  have cs2: "currentSegment m2 = s" using rd(9) cs1 by simp
  have rdy: "ready F m m2 s p" if "p \<in> set (f # bs)" for p
    by (rule ready_after_reversal [OF so(9,4) s(1) so(11) m1(2) m2(2) that]) (use sp(1) in auto)
  have os: "objects_in F (f # bs) = objects_in F bs" "objects_in F ps = as @ objects_in F bs"
    using sp(1,2,3) by (auto simp: objects_in_def filter_id_conv)
  obtain m3 where m3: "sweep_loop l l m2 = Some (l + occupied m (objects_in F bs), m3)" "swept_down m2 m3 s l (set (objects_in F bs))"
    "packed m m3 s l (objects_in F bs)"
    using sweep_loop_view [OF sp(4) rdy cs2 s(2,3), folded l_def] l(1) unfolding os(1) by auto
  note sd = swept_downD [OF m3(2)]
  define e where "e = occupied m (objects_in F ps)"
  have e: "e = l + occupied m (objects_in F bs)" using sp(5) by (simp add: e_def os(2) occupied_def l_def)
  have "compactCurrentSegment m = do { (p, m) \<leftarrow> obtainPointer_location (65515 - e) e m3; deallocate p m }"
    using s assms(4) m1(1) lwm l m2(1) m3(1) e
    by (simp add: compactCurrentSegment_def abandonFreeChunksInSegment_def sweepCurrentSegmentFrom_def)
  moreover have bsub: "set (objects_in F bs) \<subseteq> set ps - F" using sp(1) by (auto simp: objects_in_def)
  have st3: "pointers.stack m3 fs1"
  proof (rule pointers.stack_frame [OF m1(3)])
    show "pointer_head m3 = pointer_head m1" using sd(9) rd(10) by simp
    fix q assume q: "q \<in> set fs1"
    then have o: "oop_ok q" using m1(3) pointers.linked_members by (auto simp: pointers.stack_def)
    have "q \<in> F \<or> q \<notin> set ps" using q m1(4) so(6) ok(5) by fastforce
    then have "q \<notin> set (objects_in F bs)" "q \<notin> set (f # bs) - F" using bsub loc1(3) [of q] by blast+
    then show "oop_ok q \<and> loc_of m3 q = loc_of m1 q" using sd(6) [OF o] rd(6) [OF o] o by auto
  qed
  moreover have "loc_of m3 q = loc_of m q" if "oop_ok q" "q \<notin> F" "q \<notin> set bs" for q
    using sd(6) [OF that(1)] rd(6) [OF that(1)] ad(7) that sp(3) by (auto simp: objects_in_def)
  note locs = this
  have "packed m m3 s 0 as"
  proof (rule packed_frame [OF sp(8)])
    have d: "distinct ps" by (rule tiles_distinct [OF so(9)])
    show "loc_of m3 p = loc_of m p" if "p \<in> set as" for p using locs [of p] ok(1) that sp(1,2) d by auto
    show "0 \<le> chunk_len m p" if "p \<in> set as" for p using ok(2) [of p] chunk_len_bounds(1) [of m p] that sp(1) by auto
    fix w assume w: "0 \<le> w" "w < 0 + occupied m as"
    then have wl: "w < l" using sp(5) by (simp add: l_def)
    have "w \<noteq> loc_of m1 p" if "p \<in> set (f # bs) - F" for p
      using loc1(1) [OF that] tiles_bounds(1) [OF sp(4), of p] that wl by (simp add: l_def)
    moreover have "w \<noteq> loc_of m p + 1" if "p \<in> F" for p
    proof -
      have "l \<le> loc_of m p" using sp(6) so(4) that by (auto simp: l_def)
      then show ?thesis using wl by simp
    qed
    ultimately have "w \<notin> loc_of m1 ` (set (f # bs) - F)" "\<not> (\<exists>p\<in>F. w = loc_of m p + 1)" by blast+
    then show "cell m3 s w = cell m s w"
      using sd(7) [OF s(1), where w = w] rd(8) [OF s(1), where w = w] abandoned_cell [OF m1(2) s(1), where w = w] wl l by auto
  qed
  then have "packed m m3 s 0 (objects_in F ps)" using m3(3) sp(5) by (simp add: os(2) packed_append l_def)
  moreover have "free_of m3 q = (if q \<in> F then 1 else free_of m q)" if "oop_ok q" for q
    using sd(5) [OF that] rd(5) [OF that] ad(5,6) [OF that] by simp
  moreover have "cell m3 t w = cell m t w" if "t \<noteq> 15" "t \<noteq> s" for t w
    using sd(7) [OF that(1)] rd(8) [OF that(1)] abandoned_cell [OF m1(2) that(1), where w = w] that(2) by auto
  moreover have "cell m3 s (65515 + j) = 65535" if "2 \<le> j" "j \<le> 20" for j
  proof -
    have "65515 + j \<notin> loc_of m1 ` (set (f # bs) - F)" using loc1 ok(3,4) that by fastforce
    then show ?thesis using sd(7) [OF s(1), where w = "65515 + j"] rd(8) [OF s(1), where w = "65515 + j"] m1(5) that by simp
  qed
  moreover have "q \<notin> set ps \<Longrightarrow> oop_ok q \<Longrightarrow> loc_of m3 q = loc_of m q" for q using locs [of q] so(4) sp(1) by auto
  moreover have "seg_of m3 q = seg_of m q \<and> ptr_of m3 q = ptr_of m q \<and> odd_of m3 q = odd_of m q \<and> count_of m3 q = count_of m q" if "oop_ok q" for q
    using sd(1-4) [OF that] rd(1-4) [OF that] ad(1-4) [OF that] by simp
  ultimately show ?thesis using e tot sd(8) cs2 m1(4) by (intro exI [of _ m3] exI [of _ fs1]) (simp add: e_def)
qed

text \<open>Packed objects followed by one free chunk cover a segment.\<close>

lemma packed_tiles:
  assumes "packed m m' s pos os" "\<And>q. q \<in> set os \<Longrightarrow> live m' q \<and> seg_of m' q = s \<and> seg_of m q = s \<and> ptr_of m' q = ptr_of m q \<and> 2 \<le> hw m q 0"
    "p \<notin> set os" "live m' p" "seg_of m' p = s" "loc_of m' p = pos + occupied m os" "2 \<le> hw m' p 0" "loc_of m' p + hw m' p 0 = 65515"
  shows "tiles {p} m' s pos (os @ [p])"
  using assms
proof (induction os arbitrary: pos)
  case Nil
  then show ?case by (simp add: occupied_def width_def)
next
  case (Cons q os)
  have q: "live m' q" "seg_of m' q = s" "seg_of m q = s" "ptr_of m' q = ptr_of m q" "2 \<le> hw m q 0" "loc_of m' q = pos" using Cons.prems(1,2) by auto
  then have "2 \<le> chunk_len m q" using chunk_len_bounds(1) [of m q] by simp
  then have h: "hw m' q 0 = hw m q 0" using q Cons.prems(1) by (auto simp: hw_def)
  then have "width {p} m' q = chunk_len m q" using q Cons.prems(3) by (auto simp: width_def chunk_len_def)
  moreover have "tiles {p} m' s (pos + chunk_len m q) (os @ [p])"
    by (rule Cons.IH) (use Cons.prems in \<open>auto simp: occupied_def add.assoc\<close>)
  ultimately show ?case using q h by simp
qed

text \<open>The objects of the segment.\<close>

lemma segment_objects:
  assumes "segment_ok m qs fs ps" "F = on_lists 2 qs"
  shows "q \<in> set ps \<Longrightarrow> oop_ok q" "q \<in> set ps \<Longrightarrow> live m q" "q \<in> set ps \<Longrightarrow> seg_of m q = currentSegment m"
    "q \<in> set (objects_in F ps) \<longleftrightarrow> q \<in> set ps \<and> q \<notin> F" "q \<in> set (objects_in F ps) \<Longrightarrow> 2 \<le> chunk_len m q"
    "q \<in> set ps \<Longrightarrow> 2 \<le> hw m q 0"
proof -
  note tb = tiles_bounds [OF segment_okD(9) [OF assms(1)]]
  show "q \<in> set ps \<Longrightarrow> oop_ok q" "q \<in> set ps \<Longrightarrow> live m q" "q \<in> set ps \<Longrightarrow> seg_of m q = currentSegment m" "q \<in> set ps \<Longrightarrow> 2 \<le> hw m q 0"
    using tb by (auto simp: live_def)
  show i: "q \<in> set (objects_in F ps) \<longleftrightarrow> q \<in> set ps \<and> q \<notin> F" by (auto simp: objects_in_def)
  show "2 \<le> chunk_len m q" if "q \<in> set (objects_in F ps)"
  proof -
    have "2 \<le> hw m q 0" using tb [of q] i that assms(2) by simp
    then show ?thesis using chunk_len_bounds(1) [of m q] by simp
  qed
qed

text \<open>The memory after the compaction: the objects packed, and the entry \<open>p\<close> of the only free chunk above them.\<close>

definition settled :: "omem \<Rightarrow> omem \<Rightarrow> int set \<Rightarrow> int list \<Rightarrow> int list \<Rightarrow> int \<Rightarrow> bool" where
  "settled m m' F ps fs' p \<longleftrightarrow>
     (let s = currentSegment m; os = objects_in F ps; e = occupied m os
      in currentSegment m' = s \<and> e \<le> 65513 \<and> packed m m' s 0 os \<and> p \<noteq> 2 \<and> p \<notin> set os \<and> pointers.stack m' fs' \<and>
         live m' p \<and> seg_of m' p = s \<and> loc_of m' p = e \<and> hw m' p 0 = 65515 - e \<and> hw m' p 1 = 65535 \<and>
         (\<forall>j. 2 \<le> j \<and> j \<le> 20 \<longrightarrow> cell m' s (65515 + j) = (if j = min (65515 - e) 20 then word_of_int p else 65535)) \<and>
         (\<forall>q. oop_ok q \<and> q \<noteq> p \<longrightarrow> seg_of m' q = seg_of m q \<and> ptr_of m' q = ptr_of m q \<and> odd_of m' q = odd_of m q \<and>
            count_of m' q = count_of m q \<and> free_of m' q = (if q \<in> F then 1 else free_of m q) \<and>
            (q \<notin> set ps \<longrightarrow> loc_of m' q = loc_of m q)) \<and>
         (\<forall>t w. t \<noteq> 15 \<and> t \<noteq> s \<longrightarrow> cell m' t w = cell m t w))"

lemma settledD:
  assumes "settled m m' F ps fs' p" "s = currentSegment m" "e = occupied m (objects_in F ps)"
  shows "currentSegment m' = s" "e \<le> 65513" "packed m m' s 0 (objects_in F ps)" "p \<noteq> 2" "p \<notin> set (objects_in F ps)"
    "pointers.stack m' fs'" "live m' p" "seg_of m' p = s" "loc_of m' p = e" "hw m' p 0 = 65515 - e" "hw m' p 1 = 65535"
    "2 \<le> j \<Longrightarrow> j \<le> 20 \<Longrightarrow> cell m' s (65515 + j) = (if j = min (65515 - e) 20 then word_of_int p else 65535)"
    "oop_ok q \<Longrightarrow> q \<noteq> p \<Longrightarrow> seg_of m' q = seg_of m q \<and> ptr_of m' q = ptr_of m q \<and> odd_of m' q = odd_of m q \<and>
      count_of m' q = count_of m q \<and> free_of m' q = (if q \<in> F then 1 else free_of m q)"
    "oop_ok q \<Longrightarrow> q \<noteq> p \<Longrightarrow> q \<notin> set ps \<Longrightarrow> loc_of m' q = loc_of m q"
    "t \<noteq> 15 \<Longrightarrow> t \<noteq> s \<Longrightarrow> cell m' t w = cell m t w"
  using assms unfolding settled_def Let_def by blast+

lemma compact_settled:
  assumes "segment_ok m qs fs ps" "F = on_lists 2 qs" "F \<noteq> {}"
  shows "\<exists>m' p fs'. compactCurrentSegment m = Some m' \<and> settled m m' F ps fs' p \<and> p \<notin> set fs' \<and>
    insert p (set fs') = set fs \<union> F"
proof -
  define s where "s = currentSegment m"
  define os where "os = objects_in F ps"
  define e where "e = occupied m os"
  note so = segment_okD [OF assms(1), folded assms(2) s_def]
  have s: "s \<noteq> 15" "0 \<le> s" "s < 15" using so(1,2) by simp_all
  note inside = segment_objects [OF assms(1,2), folded s_def os_def]
  obtain m3 fs3 where m3: "compactCurrentSegment m = do { (p, m) \<leftarrow> obtainPointer_location (65515 - e) e m3; deallocate p m }"
    "e \<le> 65513" "currentSegment m3 = s" "pointers.stack m3 fs3" "set fs3 = set fs \<union> F"
    "\<And>q. oop_ok q \<Longrightarrow> seg_of m3 q = seg_of m q \<and> ptr_of m3 q = ptr_of m q \<and> odd_of m3 q = odd_of m q \<and> count_of m3 q = count_of m q \<and>
       free_of m3 q = (if q \<in> F then 1 else free_of m q) \<and> (q \<notin> set ps \<longrightarrow> loc_of m3 q = loc_of m q)"
    "packed m m3 s 0 os" "\<And>t w. t \<noteq> 15 \<Longrightarrow> t \<noteq> s \<Longrightarrow> cell m3 t w = cell m t w" "\<And>j. 2 \<le> j \<Longrightarrow> j \<le> 20 \<Longrightarrow> cell m3 s (65515 + j) = 65535"
    using compact_swept [OF assms(1,2,3) s_def] unfolding os_def [symmetric] e_def [symmetric] by blast
  have "fs3 \<noteq> []" using m3(5) assms(3) by auto
  then obtain p fs' where fs3: "fs3 = p # fs'" by (cases fs3) auto
  have p: "oop_ok p" "p \<notin> set fs'" using m3(4) unfolding fs3 pointers.stack_def by auto
  have "p \<in> set fs \<union> F" using m3(5) fs3 by auto
  then have pn: "p \<noteq> 2" "p \<notin> set os" using so(6) [of p] so(7,8) inside(2) [of p] inside(4) [of p] by (auto simp: live_def)
  have e0: "0 \<le> e" unfolding e_def occupied_def by (rule sum_list_nonneg) (use inside(5) in fastforce)
  obtain m4 where m4: "obtainPointer_location (65515 - e) e m3 = Some (p, m4)" "pointers.stack m4 fs'" "currentSegment m4 = s"
    "\<And>q. oop_ok q \<Longrightarrow> q \<noteq> p \<Longrightarrow> seg_of m4 q = seg_of m3 q \<and> loc_of m4 q = loc_of m3 q \<and> ptr_of m4 q = ptr_of m3 q \<and> odd_of m4 q = odd_of m3 q \<and>
       count_of m4 q = count_of m3 q \<and> free_of m4 q = free_of m3 q"
    "seg_of m4 p = s" "loc_of m4 p = e" "ptr_of m4 p = 0" "free_of m4 p = 0" "hw m4 p 0 = 65515 - e"
    "\<And>t w. t \<noteq> 15 \<Longrightarrow> t \<noteq> s \<or> w \<noteq> e \<Longrightarrow> cell m4 t w = cell m3 t w"
    using obtainPointer_view [OF m3(4) [unfolded fs3] pn(1) m3(3) [symmetric] s(2,3), of "65515 - e" e] p(2) m3(2) e0 by auto
  have l4: "chunk_len m4 p = 65515 - e" using m4(7,9) by (simp add: chunk_len_def)
  have "chunk_ok m4 p" using p s m4(5,6,9) l4 m3(2) by (simp add: chunk_ok_def)
  then obtain m5 where m5: "deallocate p m4 = Some m5" "currentSegment m5 = currentSegment m4" "hw m5 p 0 = 65515 - e"
    "hw m5 p 1 = uint (cell m4 s (65515 + min (65515 - e) 20))" "cell m5 s (65515 + min (65515 - e) 20) = word_of_int p"
    "\<And>t w. t \<noteq> s \<or> w \<noteq> e \<and> w \<noteq> e + 1 \<and> w \<noteq> 65515 + min (65515 - e) 20 \<Longrightarrow> cell m5 t w = cell m4 t w"
    using deallocate_view [of m4 p] unfolding l4 m4(5,6) by blast
  have v5: "seg_of m5 q = seg_of m4 q" "loc_of m5 q = loc_of m4 q" "ptr_of m5 q = ptr_of m4 q" "odd_of m5 q = odd_of m4 q"
    "count_of m5 q = count_of m4 q" "free_of m5 q = free_of m4 q" "pointer_head m5 = pointer_head m4" for q
    using m5(6) s(1) by (simp_all add: entry_views pointer_head_def)
  have pk: "packed m m5 s 0 os"
  proof (rule packed_frame [OF m3(7)])
    show "loc_of m5 q = loc_of m3 q" if "q \<in> set os" for q using v5 m4(4) [OF inside(1)] inside(4) pn(2) that by metis
    show "cell m5 s w = cell m3 s w" if "0 \<le> w" "w < 0 + occupied m os" for w
      using m5(6) [of s w] m4(10) [of s w] s(1) that m3(2) by (simp add: e_def)
  qed (use inside(5) in fastforce)
  have heads: "cell m5 s (65515 + j) = (if j = min (65515 - e) 20 then word_of_int p else 65535)" if "2 \<le> j" "j \<le> 20" for j
    using m5(5) m5(6) [of s "65515 + j"] m4(10) [OF s(1), of "65515 + j"] m3(2) m3(9) [OF that] that by auto
  have next': "hw m5 p 1 = 65535"
    using m5(4) m4(10) [OF s(1), of "65515 + min (65515 - e) 20"] m3(9) [of "min (65515 - e) 20"] m3(2) by simp
  have st5: "pointers.stack m5 fs'"
    by (rule pointers.stack_frame [OF m4(2)]) (use v5 m4(2) pointers.linked_members in \<open>auto simp: pointers.stack_def\<close>)
  have away: "cell m5 t w = cell m t w" if "t \<noteq> 15" "t \<noteq> s" for t w
    using m5(6) [of t w] m4(10) [OF that(1), of w] m3(8) [OF that] that(2) by simp
  have ent: "seg_of m5 q = seg_of m q \<and> ptr_of m5 q = ptr_of m q \<and> odd_of m5 q = odd_of m q \<and> count_of m5 q = count_of m q \<and>
      free_of m5 q = (if q \<in> F then 1 else free_of m q) \<and> (q \<notin> set ps \<longrightarrow> loc_of m5 q = loc_of m q)"
    if "oop_ok q" "q \<noteq> p" for q
    using v5 m4(4) [OF that] m3(6) [OF that(1)] by simp
  have "settled m m5 F ps fs' p"
    unfolding settled_def Let_def s_def [symmetric] os_def [symmetric] e_def [symmetric]
    using m5(2,3) m4(3,5,6,8) m3(2) pk pn st5 p(1) v5 heads next' away ent by (simp add: live_def)
  then show ?thesis using m3(1) m4(1) m5(1) m3(5) fs3 p(2) by (intro exI [of _ m5] exI [of _ p] exI [of _ fs']) simp
qed

text \<open>What has become of the objects, and of the segment.\<close>

lemma settled_objects:
  assumes "segment_ok m qs fs ps" "F = on_lists 2 qs" "settled m m' F ps fs' p" "p \<in> set fs \<union> F" "live m q" "q \<notin> F"
  shows "free_of m' q = 0" "seg_of m' q = seg_of m q" "ptr_of m' q = ptr_of m q" "odd_of m' q = odd_of m q" "count_of m' q = count_of m q"
    and "seg_of m q \<noteq> 15 \<Longrightarrow> 0 \<le> i \<Longrightarrow> i < chunk_len m q \<Longrightarrow> hw m' q i = hw m q i"
proof -
  note so = segment_okD [OF assms(1), folded assms(2)] and inside = segment_objects [OF assms(1,2)]
  note sd = settledD [OF assms(3) refl refl]
  have q: "oop_ok q" "free_of m q = 0" using assms(5) by (simp_all add: live_def)
  have qp: "q \<noteq> p" using assms(4-6) so(6) [of p] by (auto simp: live_def)
  show f: "free_of m' q = 0" "seg_of m' q = seg_of m q" "ptr_of m' q = ptr_of m q" "odd_of m' q = odd_of m q" "count_of m' q = count_of m q"
    using sd(13) [OF q(1) qp] q(2) assms(6) by simp_all
  show "hw m' q i = hw m q i" if i: "seg_of m q \<noteq> 15" "0 \<le> i" "i < chunk_len m q"
  proof (cases "seg_of m q = currentSegment m")
    case True
    have qo: "q \<in> set (objects_in F ps)" using so(10) assms(5,6) inside(4) True by simp
    have "cell m' (currentSegment m) (loc_of m' q + i) = cell m (currentSegment m) (loc_of m q + i)"
      by (rule packedD(3) [OF sd(3)]) (use qo inside(5) i in fastforce)+
    then show ?thesis using True f(2) by (simp add: hw_def)
  next
    case False
    then have "q \<notin> set ps" using inside(3) by auto
    then show ?thesis using sd(14) [OF q(1) qp] sd(15) [OF i(1) False] f(2) by (simp add: hw_def)
  qed
qed

lemma settled_segment:
  assumes "segment_ok m qs fs ps" "F = on_lists 2 qs" "settled m m' F ps fs' p" "p \<notin> set fs'" "insert p (set fs') = set fs \<union> F"
  shows "segment_ok m' (\<lambda>j. if j = min (hw m' p 0) BigSize then [p] else []) fs' (objects_in F ps @ [p])"
proof -
  define s where "s = currentSegment m"
  define os where "os = objects_in F ps"
  define e where "e = occupied m os"
  define k where "k = min (65515 - e) 20"
  note so = segment_okD [OF assms(1), folded assms(2) s_def] and inside = segment_objects [OF assms(1,2), folded s_def os_def]
  have s: "s \<noteq> 15" "0 \<le> s" "s < 15" using so(1,2) by simp_all
  note sd = settledD [OF assms(3) s_def refl, folded os_def, folded e_def]
  have pin: "p \<in> set fs \<union> F" using assms(5) by auto
  note ob = settled_objects [OF assms(1,2,3) pin]
  have k: "2 \<le> k" "k \<le> 20" using sd(2) by (simp_all add: k_def)
  have p: "oop_ok p" using sd(7) by (simp add: live_def)
  let ?qs = "\<lambda>j. if j = k then [p] else []"
  have on: "on_lists 2 ?qs = {p}" using k by (auto simp: on_lists_def)
  have "free_lists s m' 2 ?qs"
  proof -
    have "class_place s m' p" using sd(2,7-10) p by (simp add: class_place_def)
    moreover have pb: "p \<noteq> 65535" "0 \<le> p" "p < 65536" using p by (auto simp: oop_ok_def)
    ultimately have "chunk_list s m' p [p]" using sd(11) by (simp add: chunk_linked(1,2) [OF s(2,3)])
    then show ?thesis using sd(12) [folded k_def] chunk_linked(1) [OF s(2,3)] pb by (simp add: free_lists_def uint_of_int16)
  qed
  moreover have "free_of m' q = 1" if "q \<in> set fs'" for q
  proof -
    have "oop_ok q" using sd(6) that pointers.linked_members by (auto simp: pointers.stack_def)
    moreover have "q \<noteq> p" "q \<in> set fs \<union> F" using assms(4,5) that by auto
    ultimately show ?thesis using sd(13) so(6) by auto
  qed
  moreover have "tiles {p} m' s 0 (os @ [p])"
  proof (rule packed_tiles [OF sd(3)])
    show "live m' q \<and> seg_of m' q = s \<and> seg_of m q = s \<and> ptr_of m' q = ptr_of m q \<and> 2 \<le> hw m q 0" if "q \<in> set os" for q
      using ob(1-3) [of q] inside(1-4) [of q] inside(6) [of q] that by (auto simp: live_def)
  qed (use sd in \<open>simp_all add: e_def\<close>)
  moreover have "q \<in> set (os @ [p])" if "live m' q" "seg_of m' q = s" for q
    using sd(13) [of q] that so(10) [of q] inside(4) [of q] by (cases "q = p") (auto simp: live_def split: if_splits)
  moreover have "hw m' q 1 \<noteq> 65535" if "q \<in> set os" for q
    using ob(6) [of q 1] inside(1-4) [of q] s(1) so(11) [of q] that inside(5) [OF that] by simp
  moreover have "live m' 2" using sd(13) [of 2] so(7,8) sd(4) by (simp add: live_def oop_ok_def)
  ultimately have "segment_ok m' ?qs fs' (os @ [p])"
    using s sd(1,4,6) by (simp add: segment_ok_def on)
  then show ?thesis using sd(10) by (simp add: os_def k_def)
qed

text \<open>C11: Compaction of the current segment.  When the segment is covered by its chunks and some of them are
free, compaction ends with the objects packed from the bottom of the segment in the order they had, every object
of the memory keeps the words and the fields of its entry, the space above them is one free chunk, the only one
on the free lists, and the segment is again well formed; the entries of the free chunks join the free entries.\<close>

theorem compaction_correct:
  assumes "segment_ok m qs fs ps" "on_lists 2 qs \<noteq> {}"
  shows "\<exists>m' p fs'. compactCurrentSegment m = Some m' \<and> packed m m' (currentSegment m) 0 (objects_in (on_lists 2 qs) ps) \<and>
    (\<forall>q. live m q \<and> q \<notin> on_lists 2 qs \<and> seg_of m q \<noteq> ObjectTableSegment \<longrightarrow>
       free_of m' q = 0 \<and> seg_of m' q = seg_of m q \<and> ptr_of m' q = ptr_of m q \<and> odd_of m' q = odd_of m q \<and> count_of m' q = count_of m q \<and>
       (\<forall>i. 0 \<le> i \<and> i < chunk_len m q \<longrightarrow> hw m' q i = hw m q i)) \<and>
    loc_of m' p = occupied m (objects_in (on_lists 2 qs) ps) \<and> hw m' p 0 = HeapSpaceStop + 1 - loc_of m' p \<and>
    p \<notin> set fs' \<and> insert p (set fs') = set fs \<union> on_lists 2 qs \<and>
    segment_ok m' (\<lambda>j. if j = min (hw m' p 0) BigSize then [p] else []) fs' (objects_in (on_lists 2 qs) ps @ [p])"
proof -
  obtain m' p fs' where c: "compactCurrentSegment m = Some m'" "settled m m' (on_lists 2 qs) ps fs' p" "p \<notin> set fs'"
    "insert p (set fs') = set fs \<union> on_lists 2 qs"
    using compact_settled [OF assms(1) refl assms(2)] by blast
  then have pin: "p \<in> set fs \<union> on_lists 2 qs" by auto
  note ob = settled_objects [OF assms(1) refl c(2) pin] and sd = settledD [OF c(2) refl refl]
  show ?thesis
    using c sd(3,9,10) ob settled_segment [OF assms(1) refl c(2-4)] by (intro exI [of _ m'] exI [of _ p] exI [of _ fs']) simp
qed

text \<open>A segment with one free chunk below one object.\<close>

definition ex_gap :: omem where
  "ex_gap = \<lparr>cell = \<lambda>s w.
     if s = 15 then (if w = 2 \<or> w = 4 \<or> w = 5 then 0 else if w = 3 then 2 else if w = 65534 then 65535 else 0x20)
     else if w = 0 then 2 else if w = 2 then 65513 else if w = 3 then 12 else if w = 65517 then 4 else if w = 7 then 99 else 65535,
     currentSegment = 0, freeWords = 0, freeOops = 0\<rparr>"

lemma ex_gap_entry:
  "free_of ex_gap 2 = 0" "seg_of ex_gap 2 = 0" "loc_of ex_gap 2 = 2" "ptr_of ex_gap 2 = 0"
  "free_of ex_gap 4 = 0" "seg_of ex_gap 4 = 0" "loc_of ex_gap 4 = 0" "hw ex_gap 4 0 = 2" "hw ex_gap 4 1 = 65535"
  "hw ex_gap 2 0 = 65513" "hw ex_gap 2 1 = 12" "hw ex_gap 2 5 = 99" "currentSegment ex_gap = 0"
  by (simp_all add: ex_gap_def entry_views hw_def field_get_def)

lemma ex_gap_free: "oop_ok q \<Longrightarrow> q \<noteq> 2 \<Longrightarrow> q \<noteq> 4 \<Longrightarrow> free_of ex_gap q = 1"
  by (auto simp: ex_gap_def entry_views field_get_def oop_ok_def)

lemma ex_gap_ok: "segment_ok ex_gap (\<lambda>j. if j = 2 then [4] else []) [] [4, 2]"
proof -
  let ?qs = "\<lambda>j. if j = (2 :: int) then [4 :: int] else []"
  have on: "on_lists 2 ?qs = {4}" by (auto simp: on_lists_def)
  have "class_place 0 ex_gap 4" by (simp add: class_place_def ex_gap_entry oop_ok_def)
  then have "chunk_list 0 ex_gap 4 [4]" by (simp add: chunk_linked(1,2) ex_gap_entry)
  moreover have "uint (cell ex_gap 0 (65515 + j)) = (if j = 2 then 4 else 65535)" if "2 \<le> j" for j
    using that by (simp add: ex_gap_def)
  ultimately have "free_lists 0 ex_gap 2 ?qs" by (simp add: free_lists_def chunk_linked(1))
  moreover have "tiles {4} ex_gap 0 0 [4, 2]"
    by (simp add: ex_gap_entry live_def oop_ok_def width_def chunk_len_def)
  moreover have "pointers.stack ex_gap []" by (simp add: pointers.empty pointer_head_def ex_gap_def)
  moreover have "p \<in> {4, 2}" if "live ex_gap p" for p using ex_gap_free [of p] that by (auto simp: live_def)
  ultimately show ?thesis by (auto simp: segment_ok_def on ex_gap_entry live_def oop_ok_def)
qed

theorem compaction_correct_witness:
  "\<exists>m' p. compactCurrentSegment ex_gap = Some m' \<and> loc_of m' 2 = 0 \<and> hw m' 2 5 = 99 \<and> loc_of m' p = 65513 \<and> hw m' p 0 = 2"
proof -
  let ?qs = "\<lambda>j. if j = (2 :: int) then [4 :: int] else []"
  have on: "on_lists 2 ?qs = {4}" by (auto simp: on_lists_def)
  have v: "objects_in {4} [4, 2] = [2]" "live ex_gap 2" "chunk_len ex_gap 2 = 65513"
    by (simp_all add: objects_in_def live_def oop_ok_def ex_gap_entry chunk_len_def)
  obtain m' p fs' where m': "compactCurrentSegment ex_gap = Some m'" "packed ex_gap m' 0 0 [2]"
    "\<forall>q. live ex_gap q \<and> q \<notin> {4} \<and> seg_of ex_gap q \<noteq> 15 \<longrightarrow>
       free_of m' q = 0 \<and> seg_of m' q = seg_of ex_gap q \<and> ptr_of m' q = ptr_of ex_gap q \<and> odd_of m' q = odd_of ex_gap q \<and>
       count_of m' q = count_of ex_gap q \<and> (\<forall>i. 0 \<le> i \<and> i < chunk_len ex_gap q \<longrightarrow> hw m' q i = hw ex_gap q i)"
    "loc_of m' p = occupied ex_gap [2]" "hw m' p 0 = 65514 + 1 - loc_of m' p"
    using compaction_correct [OF ex_gap_ok] unfolding on v(1) ex_gap_entry(13) by blast
  have "hw m' 2 5 = 99" using m'(3) v(2,3) ex_gap_entry by simp
  moreover have "occupied ex_gap [2] = 65513" by (simp add: occupied_def v(3))
  ultimately show ?thesis using m'(1,2,4,5) by auto
qed

end
