(* ===== verification/OmReclaim.thy ===== *)
theory OmReclaim
  imports OmCompact
begin

text \<open>
  What a collection reclaims: the sweep puts every chunk that was not marked on the free-chunk list of its segment and its
  size, and a whole collection (\<^verbatim>\<open>reclaimInaccessibleObjects\<close>, \<^verbatim>\<open>objmemory.cpp\<close>) as one statement.
\<close>

section \<open>The free-chunk lists during the sweep\<close>

text \<open>The chunks that the sweep has reclaimed below \<open>k\<close>, of a segment and a size; and the lists that hold exactly them.\<close>

definition reclaimed :: "omem \<Rightarrow> int set \<Rightarrow> int \<Rightarrow> int \<Rightarrow> int \<Rightarrow> int set" where
  "reclaimed b R k s j = {p. live b p \<and> p \<notin> R \<and> p < k \<and> seg_of b p = s \<and> min (chunk_len b p) BigSize = j}"

definition listed :: "omem \<Rightarrow> int set \<Rightarrow> int \<Rightarrow> omem \<Rightarrow> bool" where
  "listed b R k m \<longleftrightarrow> (\<forall>s. 0 \<le> s \<and> s < ObjectTableSegment \<longrightarrow> (\<exists>qs. free_lists s m HeaderSize qs \<and>
     (\<forall>j. HeaderSize \<le> j \<and> j \<le> BigSize \<longrightarrow> set (qs j) = reclaimed b R k s j)))"

lemma reclaimed_step:
  assumes "even k"
  shows "reclaimed b R (k + 2) s j =
    (if k \<in> {p. live b p \<and> p \<notin> R \<and> seg_of b p = s \<and> min (chunk_len b p) BigSize = j}
     then insert k (reclaimed b R k s j) else reclaimed b R k s j)"
proof -
  have "p < k + 2 \<longleftrightarrow> p = k \<or> p < k" if "live b p" for p using live_even(1) [OF that] assms by (auto elim!: evenE)
  then show ?thesis by (auto simp: reclaimed_def)
qed

text \<open>Chunks that do not overlap have different locations, so lists of the chunks of each size are separate.\<close>

lemma free_lists_reclaimed:
  assumes "swept_ok b R" "same_entries b m" "\<And>j. 2 \<le> j \<Longrightarrow> j \<le> 20 \<Longrightarrow> set (qs j) = reclaimed b R k s j"
    and "\<And>j. 2 \<le> j \<Longrightarrow> j \<le> 20 \<Longrightarrow> chunk_list s m (uint (cell m s (65515 + j))) (qs j)"
  shows "free_lists s m 2 qs"
proof -
  have "p \<noteq> q \<and> loc_of m p \<noteq> loc_of m q" if "2 \<le> i" "i < j" "j \<le> 20" "p \<in> set (qs i)" "q \<in> set (qs j)" for i j p q
  proof -
    have pq: "live b p" "live b q" "seg_of b p = seg_of b q" "p \<noteq> q" using that assms(3) by (auto simp: reclaimed_def)
    then have "apart b p q" "chunk_ok b p" "chunk_ok b q" using assms(1) by (simp_all add: swept_ok_def)
    then show ?thesis using pq chunk_okD(1,5) same_entriesD [OF assms(2)] by (fastforce simp: apart_def)
  qed
  then show ?thesis using assms(4) unfolding free_lists_def by blast
qed

lemma listed_same:
  assumes "swept_ok b R" "same_entries b m'" "listed b R k m" "\<And>t w. t \<noteq> 15 \<Longrightarrow> cell m' t w = cell m t w" "same_entries b m"
    and "\<And>s j. reclaimed b R k' s j = reclaimed b R k s j"
  shows "listed b R k' m'"
  unfolding listed_def
proof (intro allI impI)
  fix s :: int assume s: "0 \<le> s \<and> s < 15"
  then obtain qs where qs: "free_lists s m 2 qs" "\<And>j. 2 \<le> j \<Longrightarrow> j \<le> 20 \<Longrightarrow> set (qs j) = reclaimed b R k s j"
    using assms(3) by (auto simp: listed_def)
  note e = same_entriesD [OF assms(2)] same_entriesD [OF assms(5)]
  have "chunk_list s m' (uint (cell m' s (65515 + j))) (qs j)" if j: "2 \<le> j" "j \<le> 20" for j
  proof -
    have c: "chunk_list s m (uint (cell m s (65515 + j))) (qs j)" by (rule free_listsD(1) [OF qs(1) j])
    have "class_place s m' q \<and> hw m' q 1 = hw m q 1 \<and> loc_of m' q = loc_of m q" if "q \<in> set (qs j)" for q
      using chunk_linked(3) [OF _ _ c that] e s assms(4) [of s] by (auto simp: class_place_def hw_def)
    then show ?thesis using chunk_linked(4) [OF _ _ c, of m'] s assms(4) by simp
  qed
  then have "free_lists s m' 2 qs" using free_lists_reclaimed [OF assms(1,2) qs(2)] by blast
  then show "\<exists>qs. free_lists s m' 2 qs \<and> (\<forall>j. 2 \<le> j \<and> j \<le> 20 \<longrightarrow> set (qs j) = reclaimed b R k' s j)"
    using qs(2) assms(6) by blast
qed

text \<open>A chunk that the sweep deallocates becomes the first of its list.\<close>

lemma listed_garbage:
  assumes "swept_ok b R" "same_entries b m" "listed b R k m" "even k" "same_entries b m'" "live b k" "k \<notin> R" "sweep_step b R k m m'"
  shows "listed b R (k + 2) m'"
  unfolding listed_def
proof (intro allI impI)
  fix s :: int assume s: "0 \<le> s \<and> s < 15"
  then obtain qs where qs: "free_lists s m 2 qs" "\<And>j. 2 \<le> j \<Longrightarrow> j \<le> 20 \<Longrightarrow> set (qs j) = reclaimed b R k s j"
    using assms(3) by (auto simp: listed_def)
  define i where "i = min (chunk_len b k) 20"
  have ck: "chunk_ok b k" using assms(1,6) by (simp add: swept_ok_def)
  note c = chunk_okD [OF ck]
  have d: "hw m' k 1 = uint (cell m (seg_of b k) (65515 + i))" "cell m' (seg_of b k) (65515 + i) = word_of_int k"
    "t \<noteq> seg_of b k \<or> w \<noteq> loc_of b k \<and> w \<noteq> loc_of b k + 1 \<and> w \<noteq> 65515 + i \<Longrightarrow> cell m' t w = cell m t w" for t w
    using assms(6-8) by (simp_all add: sweep_step_def Let_def i_def)
  note e = same_entriesD [OF assms(5)] same_entriesD [OF assms(2)]
  have other: "q \<noteq> k \<and> class_place s m' q \<and> hw m' q 1 = hw m q 1 \<and> loc_of m' q = loc_of m q \<and> (s = seg_of b k \<longrightarrow> loc_of m' k \<noteq> loc_of m' q)"
    if q: "q \<in> set (qs j)" "2 \<le> j" "j \<le> 20" for q j
  proof -
    have l: "live b q" "q < k" "seg_of b q = s" "oop_ok q" using q qs(2) by (auto simp: reclaimed_def live_def)
    then have "apart b q k" "chunk_ok b q" using assms(1,6) by (auto simp: swept_ok_def)
    note cq = chunk_okD [OF this(2)] and ap = this(1)
    have "class_place s m' q" using cq(5,7) l e by (simp add: class_place_def)
    moreover have "seg_of b k = s \<Longrightarrow> loc_of b q + 1 \<noteq> loc_of b k \<and> loc_of b q + 1 \<noteq> loc_of b k + 1 \<and> loc_of b q + 1 \<noteq> 65515 + i"
      using ap cq(5,7) c(5) l(3) by (auto simp: apart_def i_def)
    then have "hw m' q 1 = hw m q 1" using d(3) [of s "loc_of b q + 1"] l e by (auto simp: hw_def)
    moreover have "s = seg_of b k \<Longrightarrow> loc_of m' k \<noteq> loc_of m' q"
      using ap cq(5) c(1,5) l e by (auto simp: apart_def)
    ultimately show ?thesis using l e by simp
  qed
  have keep: "chunk_list s m' (uint (cell m s (65515 + j))) (qs j)" if "2 \<le> j" "j \<le> 20" for j
    using chunk_linked(4) [OF _ _ free_listsD(1) [OF qs(1) that], of m'] s that other
    by (metis (no_types, lifting) free_listsD(1) qs(1))
  define qs' where "qs' = (if s = seg_of b k then qs (i := k # qs i) else qs)"
  have i: "2 \<le> i" "i \<le> 20" using c(5) by (simp_all add: i_def)
  have sets: "set (qs' j) = reclaimed b R (k + 2) s j" if "2 \<le> j" "j \<le> 20" for j
    using qs(2) [OF that] assms(6,7) unfolding reclaimed_step [OF assms(4)] by (auto simp: qs'_def i_def)
  have "chunk_list s m' (uint (cell m' s (65515 + j))) (qs' j)" if j: "2 \<le> j" "j \<le> 20" for j
  proof (cases "s = seg_of b k \<and> j = i")
    case True
    have k: "0 \<le> k" "k < 65535" using c(1) by (auto simp: oop_ok_def)
    have "class_place s m' k" using True c e by (simp add: class_place_def)
    moreover have "chunk_list s m' (hw m' k 1) (qs i)" using keep [OF i] True d(1) by simp
    ultimately have "chunk_list s m' k (k # qs i)" using other [OF _ i] True k s by (fastforce simp: chunk_linked(2))
    then show ?thesis using True d(2) k by (simp add: qs'_def uint_of_int16)
  next
    case False
    then have "cell m' s (65515 + j) = cell m s (65515 + j)" using d(3) c(5,7) j by auto
    then show ?thesis using keep [OF j] False by (auto simp: qs'_def)
  qed
  then show "\<exists>qs. free_lists s m' 2 qs \<and> (\<forall>j. 2 \<le> j \<and> j \<le> 20 \<longrightarrow> set (qs j) = reclaimed b R (k + 2) s j)"
    using free_lists_reclaimed [OF assms(1,5) sets] sets by blast
qed

lemma listed_step:
  assumes "swept_ok b R" "even k" "swept b R k m" "listed b R k m" "sweep_step b R k m m'" "same_entries b m'"
  shows "listed b R (k + 2) m'"
proof (cases "live b k \<and> k \<notin> R")
  case True
  have "same_entries b m" using assms(3) by (simp add: swept_def)
  then show ?thesis using listed_garbage [OF assms(1) _ assms(4,2,6) _ _ assms(5)] True by blast
next
  case False
  have "same_entries b m" using assms(3) by (simp add: swept_def)
  moreover have "cell m' t w = cell m t w" if "t \<noteq> 15" for t w using assms(5) False that by (simp add: sweep_step_def)
  moreover have "reclaimed b R (k + 2) s j = reclaimed b R k s j" for s j
    using reclaimed_step [OF assms(2)] False by auto
  ultimately show ?thesis using listed_same [OF assms(1,6,4)] by blast
qed

lemma listed_start:
  assumes "reset_lists 0 m2 = Some b"
  shows "listed b R 0 b"
  unfolding listed_def
proof (intro allI impI)
  fix s :: int assume s: "0 \<le> s \<and> s < 15"
  have "cell b s (65515 + j) = 65535" if "2 \<le> j" "j \<le> 20" for j
    using reset_lists_view [of 0 m2] assms s that by auto
  then have "free_lists s b 2 (\<lambda>_. [])" using s by (simp add: free_lists_def chunk_linked(1))
  moreover have "reclaimed b R 0 s j = {}" for j by (auto simp: reclaimed_def live_def oop_ok_def)
  ultimately show "\<exists>qs. free_lists s b 2 qs \<and> (\<forall>j. 2 \<le> j \<and> j \<le> 20 \<longrightarrow> set (qs j) = reclaimed b R 0 s j)" by auto
qed

text \<open>The sweep with its lists.\<close>

lemma swept_lists:
  assumes "swept_ok b R" "reset_lists 0 m2 = Some b"
  shows "\<exists>m'. rectifyCountsAndDeallocateGarbage gcn (m2, c) = (case gcn of None \<Rightarrow> Some (m', c) | Some g \<Rightarrow> collectionCompleted g (m', c)) \<and>
    same_entries b m' \<and> (\<forall>q\<in>R. \<forall>i. 0 \<le> i \<and> i < chunk_len b q \<longrightarrow> hw m' q i = hw b q i) \<and>
    (\<forall>q. oop_ok q \<and> q \<notin> R \<and> q \<noteq> NilPointer \<longrightarrow> count_of m' q = (if q = 0 then 1 else 0)) \<and>
    (\<forall>q\<in>R. q \<noteq> NilPointer \<longrightarrow> count_fits (references b R q) (count_of m' q)) \<and> count_of m' NilPointer = 128 \<and>
    freeOops m' = int (card {q. oop_ok q \<and> q \<noteq> 0 \<and> no_object m' q}) \<and> listed b R 65534 m'"
proof -
  obtain m' m3 where m': "rectifyCountsAndDeallocateGarbage gcn (m2, c) = (case gcn of None \<Rightarrow> Some (m', c) | Some g \<Rightarrow> collectionCompleted g (m', c))"
    "same_entries b m'" "\<forall>q\<in>R. \<forall>i. 0 \<le> i \<and> i < chunk_len b q \<longrightarrow> hw m' q i = hw b q i"
    "\<forall>q. oop_ok q \<and> q \<notin> R \<and> q \<noteq> NilPointer \<longrightarrow> count_of m' q = (if q = 0 then 1 else 0)"
    "\<forall>q\<in>R. q \<noteq> NilPointer \<longrightarrow> count_fits (references b R q) (count_of m' q)" "count_of m' NilPointer = 128"
    "freeOops m' = int (card {q. oop_ok q \<and> q \<noteq> 0 \<and> no_object m' q})"
    "listed b R 65534 m3" "same_entries b m3" "\<forall>s w. s \<noteq> 15 \<longrightarrow> cell m' s w = cell m3 s w"
    using sweep_phase [OF assms, where J = "listed b R" and gcn = gcn and c = c, OF listed_start [OF assms(2)]]
      listed_step [OF assms(1)] by blast
  have "listed b R 65534 m'" using listed_same [OF assms(1) m'(2,8) _ m'(9)] m'(10) by blast
  then show ?thesis using m'(1-7) by blast
qed

section \<open>A collection\<close>

text \<open>C3: A collection ends and treats every object according to whether it can be reached from the special objects and the roots
of the client.  The table entries and the words of the objects that can be reached are kept.  Every chunk that cannot be
reached is put on the free-chunk list of its segment and of its size, and nothing else is on these lists; its count is zero.
The count of an object that can be reached is the number of pointers to it from such objects (exact up to 126, then sticking
at 127 or 128), and nil's count sticks.  So what counts as an object afterwards is nil and what an object that can be
reached points to: a root to which nothing points, which the marking has kept, does not count as one.  The number of free
object pointers is exact.\<close>

theorem collection_correct:
  assumes "memory_ok m L" "reserved_ok m" "special_roots \<union> set rs \<subseteq> L" "client_roots gcn rs"
  defines "R \<equiv> reachable m (special_roots \<union> set rs)"
  shows "\<exists>m'. garbageCollect gcn (m, c) = (case gcn of None \<Rightarrow> Some (m', c) | Some g \<Rightarrow> collectionCompleted g (m', c)) \<and>
    same_entries m m' \<and> (\<forall>q\<in>R. \<forall>i. 0 \<le> i \<and> i < hw m q 0 \<longrightarrow> hw m' q i = hw m q i) \<and>
    (\<forall>s. 0 \<le> s \<and> s < ObjectTableSegment \<longrightarrow> (\<exists>qs. free_lists s m' HeaderSize qs \<and>
       (\<forall>j. HeaderSize \<le> j \<and> j \<le> BigSize \<longrightarrow>
          set (qs j) = {q. live m q \<and> q \<notin> R \<and> seg_of m q = s \<and> min (chunk_len m q) BigSize = j}))) \<and>
    (\<forall>q. oop_ok q \<and> q \<notin> R \<and> q \<noteq> 0 \<longrightarrow> count_of m' q = 0) \<and>
    (\<forall>q\<in>R. q \<noteq> NilPointer \<longrightarrow> count_fits (references m R q) (count_of m' q)) \<and> count_of m' NilPointer = 128 \<and>
    (\<forall>q. oop_ok q \<longrightarrow> hasObject q m' = Some (q = NilPointer \<or> q \<in> R \<and> 0 < references m R q)) \<and>
    freeOops m' = int (card {q. oop_ok q \<and> q \<noteq> 0 \<and> no_object m' q})"
proof -
  have G: "graph_ok m L" using assms by (simp add: memory_ok_def)
  obtain m1 m2 b where b: "zeroReferenceCounts m = Some m1" "markAccessibleObjects gcn (m1, c) = Some (m2, c)" "reset_lists 0 m2 = Some b"
    "swept_ok b R" "same_entries m b"
    "\<forall>p\<in>L. \<forall>i. 0 \<le> i \<and> i < hw m p 0 \<longrightarrow> hw b p i = hw m p i" "\<forall>p\<in>R. last_ptr b p = last_ptr m p"
    "\<forall>p. live m p \<longrightarrow> chunk_len b p = chunk_len m p"
    using marked_and_reset [OF assms(1-4), where c = c] unfolding R_def by blast
  obtain m' where m': "rectifyCountsAndDeallocateGarbage gcn (m2, c) = (case gcn of None \<Rightarrow> Some (m', c) | Some g \<Rightarrow> collectionCompleted g (m', c))"
    "same_entries b m'" "\<forall>q\<in>R. \<forall>i. 0 \<le> i \<and> i < chunk_len b q \<longrightarrow> hw m' q i = hw b q i"
    "\<forall>q. oop_ok q \<and> q \<notin> R \<and> q \<noteq> NilPointer \<longrightarrow> count_of m' q = (if q = 0 then 1 else 0)"
    "\<forall>q\<in>R. q \<noteq> NilPointer \<longrightarrow> count_fits (references b R q) (count_of m' q)" "count_of m' NilPointer = 128"
    "freeOops m' = int (card {q. oop_ok q \<and> q \<noteq> 0 \<and> no_object m' q})" "listed b R 65534 m'"
    using swept_lists [OF b(4,3), of gcn c] by blast
  have RL: "R \<subseteq> L" unfolding R_def using reachable_sub(1) [OF G assms(3)] .
  have nil: "2 \<in> R" unfolding R_def by (rule reachable.root) (simp add: special_roots_def)
  have w: "hw b q i = hw m q i" if "q \<in> R" "0 \<le> i" "i < hw m q 0" for q i using b(6) RL that by blast
  have "refs_from b p 1 q = refs_from m p 1 q" if "p \<in> R" for p q
    using refs_from_same [OF G that b(7,6)] that RL by blast
  then have rf: "references b R q = references m R q" for q by (simp add: references_def)
  have c: "hw m q 0 \<le> chunk_len b q" if "q \<in> R" for q
    using w [OF that, of 0] chunk_len_bounds(1) [of b q] object_okD(4) [OF G, of q] RL that by auto
  have "hw m' q i = hw m q i" if "q \<in> R" "0 \<le> i" "i < hw m q 0" for q i using m'(3) w that c [OF that(1)] by auto
  moreover have "garbageCollect gcn (m, c) = (case gcn of None \<Rightarrow> Some (m', c) | Some g \<Rightarrow> collectionCompleted g (m', c))"
    using b(1,2) m'(1) by (simp add: garbageCollect_def reclaimInaccessibleObjects.simps)
  moreover have "\<forall>q. oop_ok q \<and> q \<notin> R \<and> q \<noteq> 0 \<longrightarrow> count_of m' q = 0" using m'(4) nil by auto
  moreover have "reclaimed b R 65534 s j = {q. live m q \<and> q \<notin> R \<and> seg_of m q = s \<and> min (chunk_len m q) BigSize = j}" for s j
    using b(8) live_same [OF b(5)] same_entriesD(1) [OF b(5)] by (auto simp: reclaimed_def live_def oop_ok_def)
  note lists = m'(8) [unfolded listed_def this]
  moreover have "hasObject q m' = Some (q = NilPointer \<or> q \<in> R \<and> 0 < references m R q)" if q: "oop_ok q" for q
  proof -
    have "free_of m' q = 0" if "q \<in> R"
      using same_entriesD(5) [OF same_entries_trans [OF b(5) m'(2)] q] object_okD(2) [OF G] RL that by auto
    moreover have "free_of m' 0 \<noteq> 0"
      using assms(2) same_entriesD(5) [OF same_entries_trans [OF b(5) m'(2)], of 0] by (simp add: reserved_ok_def oop_ok_def)
    ultimately show ?thesis using m'(4-6) nil q unfolding rf by (auto simp: count_fits_def split: if_splits)
  qed
  ultimately show ?thesis using m' same_entries_trans [OF b(5) m'(2)] unfolding rf by blast
qed

lemma ex_heap_references:
  assumes "p \<in> ex_roots n" "4 \<le> n" "n \<le> 65000"
  shows "refs_from (ex_heap n) p 1 q = (if q = 4 then 1 else 0)"
proof -
  have v: "hw (ex_heap n) p 0 = 2" "hw (ex_heap n) p 1 = 4" "ptr_of (ex_heap n) p = 1"
    using ex_heap_views(4,6,7) [OF assms(1,3)] by simp_all
  then have l: "last_ptr (ex_heap n) p = 2" by (simp add: last_ptr_def)
  have "refs_from (ex_heap n) p 2 q = 0" by (rule refs_from_end) (simp add: l)
  then show ?thesis using refs_from_step [of 1 "ex_heap n" p q] v l by simp
qed

lemma ex_heap_54: "memory_ok (ex_heap 54) (ex_roots 54)" "reserved_ok (ex_heap 54)" "special_roots \<union> set [] \<subseteq> ex_roots 54"
  "client_roots None []" "reachable (ex_heap 54) (special_roots \<union> set []) = special_roots"
  "references (ex_heap 54) special_roots q = (if q = 4 then card special_roots else 0)"
proof -
  show r: "special_roots \<union> set [] \<subseteq> ex_roots 54" using ex_heap_roots(1) [of 54] by simp
  show "references (ex_heap 54) special_roots q = (if q = 4 then card special_roots else 0)"
    using r ex_heap_references [of _ 54 q] by (simp add: references_def subset_eq)
qed (use ex_heap_memory [of 54] ex_heap_reserved [of 54] ex_heap_roots(2) ex_heap_reachable [of 54] in simp_all)

lemma ex_heap_garbage: "{q. live (ex_heap 54) q \<and> q \<notin> special_roots \<and> seg_of (ex_heap 54) q = 0 \<and> min (chunk_len (ex_heap 54) q) 20 = 2} = {54}"
proof (intro equalityI subsetI)
  fix q assume "q \<in> {q. live (ex_heap 54) q \<and> q \<notin> special_roots \<and> seg_of (ex_heap 54) q = 0 \<and> min (chunk_len (ex_heap 54) q) 20 = 2}"
  then have "q \<in> ex_roots 54" "q \<notin> special_roots" using ex_heap_live [of 54 q] by auto
  then show "q \<in> {54}" by (auto simp: ex_roots_def special_roots_def elim!: evenE)
next
  fix q :: int assume "q \<in> {54}"
  then have q: "q = 54" "54 \<in> ex_roots 54" by (simp_all add: ex_roots_def)
  show "q \<in> {q. live (ex_heap 54) q \<and> q \<notin> special_roots \<and> seg_of (ex_heap 54) q = 0 \<and> min (chunk_len (ex_heap 54) q) 20 = 2}"
    using ex_heap_views [OF q(2)] by (simp add: q(1) live_def special_roots_def chunk_len_def)
qed

lemma chunk_list_single:
  assumes "chunk_list s m h qs" "0 \<le> s" "s < 15" "set qs = {p}"
  shows "qs = [p]"
proof (cases qs)
  case (Cons q r)
  have "q = p" "set r \<subseteq> {p}" using assms(4) Cons by auto
  moreover have "r = []" using assms(1) calculation Cons chunk_linked(2) [OF assms(2,3), of m h q r] by (cases r) auto
  ultimately show ?thesis using Cons by simp
qed (use assms in simp)

text \<open>The entry 54 of the example cannot be reached: its chunk of two words is reclaimed.  Nothing points to the special
object 6, but the marking has kept its words.\<close>

theorem collection_correct_witness:
  "\<exists>m' qs. garbageCollect None (ex_heap 54, ()) = Some (m', ()) \<and> free_lists 0 m' 2 qs \<and> qs 2 = [54] \<and> count_of m' 54 = 0 \<and>
    (\<forall>q\<in>special_roots. hw m' q 1 = 4) \<and> count_of m' 2 = 128 \<and> hasObject 4 m' = Some True \<and> hasObject 6 m' = Some False"
proof -
  note ex = ex_heap_54(5,6)
  obtain m' where m': "garbageCollect None (ex_heap 54, ()) = Some (m', ())"
    "\<forall>q\<in>special_roots. \<forall>i. 0 \<le> i \<and> i < hw (ex_heap 54) q 0 \<longrightarrow> hw m' q i = hw (ex_heap 54) q i"
    "\<forall>s. 0 \<le> s \<and> s < 15 \<longrightarrow> (\<exists>qs. free_lists s m' 2 qs \<and> (\<forall>j. 2 \<le> j \<and> j \<le> 20 \<longrightarrow> set (qs j) =
       {q. live (ex_heap 54) q \<and> q \<notin> special_roots \<and> seg_of (ex_heap 54) q = s \<and> min (chunk_len (ex_heap 54) q) 20 = j}))"
    "\<forall>q. oop_ok q \<and> q \<notin> special_roots \<and> q \<noteq> 0 \<longrightarrow> count_of m' q = 0" "count_of m' 2 = 128"
    "\<forall>q. oop_ok q \<longrightarrow> hasObject q m' = Some (q = 2 \<or> q \<in> special_roots \<and> 0 < references (ex_heap 54) special_roots q)"
    using collection_correct [OF ex_heap_54(1-4), where c = "()"] unfolding ex(1) option.case by blast
  have "\<exists>qs. free_lists 0 m' 2 qs \<and> (\<forall>j. 2 \<le> j \<and> j \<le> 20 \<longrightarrow> set (qs j) =
       {q. live (ex_heap 54) q \<and> q \<notin> special_roots \<and> seg_of (ex_heap 54) q = 0 \<and> min (chunk_len (ex_heap 54) q) 20 = j})"
    by (rule m'(3) [rule_format]) simp
  then obtain qs where l: "free_lists 0 m' 2 qs" "\<forall>j. 2 \<le> j \<and> j \<le> 20 \<longrightarrow> set (qs j) =
       {q. live (ex_heap 54) q \<and> q \<notin> special_roots \<and> seg_of (ex_heap 54) q = 0 \<and> min (chunk_len (ex_heap 54) q) 20 = j}"
    by blast
  have "set (qs 2) = {54}" using l(2) [rule_format, of 2] unfolding ex_heap_garbage by simp
  note qs = l(1) this
  have "qs 2 = [54]" using chunk_list_single [OF free_listsD(1) [OF qs(1), of 2] _ _ qs(2)] by simp
  moreover have "hw m' q 1 = 4" if "q \<in> special_roots" for q
    using m'(2) ex_heap_views(6,7) [of q 54] ex_heap_54(3) that by auto
  moreover have s: "oop_ok 4" "oop_ok 6" "oop_ok 54" "54 \<notin> special_roots" "finite special_roots" "4 \<in> special_roots"
    by (simp_all add: oop_ok_def special_roots_def finite_subset [of _ "{2..52}"] subset_eq)
  then have "0 < card special_roots" by (auto simp: card_gt_0_iff)
  then have o: "hasObject 4 m' = Some True" "hasObject 6 m' = Some False" "count_of m' 54 = 0" using m'(4,6) s by (simp_all add: ex(2))
  ultimately show ?thesis using m'(1,5) qs(1) by blast
qed

end
