(* ===== verification/VmBitBlt.thy ===== *)
theory VmBitBlt
  imports OmCollect
begin

text \<open>
  Bit block transfer and the scanner of characters (\<^verbatim>\<open>smalltalk/src/bitblt.h\<close>, \<^verbatim>\<open>bitblt.cpp\<close>): clipping, the
  masks of the first and the last word of a line, the direction of a copy within one form, and the loop that merges
  source and destination word by word.  The members of the class are a record; those that the constructor leaves
  without a value start as zero and are set before they are used.
\<close>

section \<open>The state of a transfer\<close>

record bitblt =
  bb_destForm :: int
  bb_sourceForm :: int
  bb_halftoneForm :: int
  bb_combinationRule :: int
  bb_destX :: int
  bb_destY :: int
  bb_width :: int
  bb_height :: int
  bb_sourceX :: int
  bb_sourceY :: int
  bb_clipX :: int
  bb_clipY :: int
  bb_clipWidth :: int
  bb_clipHeight :: int
  bb_sourceBits :: int
  bb_sourceRaster :: int
  bb_destBits :: int
  bb_destRaster :: int
  bb_halftoneBits :: int
  bb_skew :: int
  bb_preload :: bool
  bb_nWords :: int
  bb_hDir :: int
  bb_vDir :: int
  bb_sourceIndex :: int
  bb_sourceDelta :: int
  bb_destIndex :: int
  bb_destDelta :: int
  bb_sx :: int
  bb_sy :: int
  bb_dx :: int
  bb_dy :: int
  bb_w :: int
  bb_h :: int
  bb_sourceBitsWordLength :: int
  bb_destBitsWordLength :: int
  bb_mask1 :: "16 word"
  bb_mask2 :: "16 word"
  bb_skewMask :: "16 word"
  bb_sourceFormWidth :: int
  bb_sourceFormHeight :: int
  bb_destFormWidth :: int
  bb_destFormHeight :: int
  bb_updatedX :: int
  bb_updatedY :: int
  bb_updatedWidth :: int
  bb_updatedHeight :: int

record scanner = bitblt +
  bb_xTable :: int
  bb_lastIndex :: int
  bb_stopConditions :: int

text \<open>The constructor.  Its assignment of zero to the source position changes the parameters, not the members.\<close>

definition form_extent :: "int \<Rightarrow> omem \<Rightarrow> (int \<times> int) option" where
  "form_extent form m =
     do {
       fw \<leftarrow> fetchWord_ofObject 1 form m;
       fh \<leftarrow> fetchWord_ofObject 2 form m;
       Some (integerValueOf fw, integerValueOf fh)
     }"

definition BitBlt_sizes :: "'a bitblt_scheme \<Rightarrow> omem \<Rightarrow> 'a bitblt_scheme option" where
  "BitBlt_sizes b m =
     do {
       (sw, sh) \<leftarrow> (if bb_sourceForm b \<noteq> NilPointer then form_extent (bb_sourceForm b) m else Some (0, 0));
       (dw, dh) \<leftarrow> form_extent (bb_destForm b) m;
       Some (b\<lparr>bb_sourceFormWidth := sw, bb_sourceFormHeight := sh, bb_destFormWidth := dw, bb_destFormHeight := dh,
               bb_updatedX := 0, bb_updatedY := 0, bb_updatedWidth := 0, bb_updatedHeight := 0\<rparr>)
     }"

section \<open>Clipping\<close>

definition clip_to_form :: "'a bitblt_scheme \<Rightarrow> 'a bitblt_scheme" where
  "clip_to_form b =
     (let b = (if bb_clipX b < 0 then b\<lparr>bb_clipWidth := bb_clipWidth b + bb_clipX b, bb_clipX := 0\<rparr> else b);
          b = (if bb_clipY b < 0 then b\<lparr>bb_clipHeight := bb_clipHeight b + bb_clipY b, bb_clipY := 0\<rparr> else b);
          b = (if bb_clipX b + bb_clipWidth b > bb_destFormWidth b then b\<lparr>bb_clipWidth := bb_destFormWidth b - bb_clipX b\<rparr> else b)
      in if bb_clipY b + bb_clipHeight b > bb_destFormHeight b then b\<lparr>bb_clipHeight := bb_destFormHeight b - bb_clipY b\<rparr> else b)"

definition clip_dest_x :: "'a bitblt_scheme \<Rightarrow> 'a bitblt_scheme" where
  "clip_dest_x b =
     (let b = (if bb_destX b \<ge> bb_clipX b then b\<lparr>bb_sx := bb_sourceX b, bb_dx := bb_destX b, bb_w := bb_width b\<rparr>
               else b\<lparr>bb_sx := bb_sourceX b + (bb_clipX b - bb_destX b), bb_w := bb_width b - (bb_clipX b - bb_destX b),
                      bb_dx := bb_clipX b\<rparr>)
      in if bb_dx b + bb_w b > bb_clipX b + bb_clipWidth b
         then b\<lparr>bb_w := bb_w b - ((bb_dx b + bb_w b) - (bb_clipX b + bb_clipWidth b))\<rparr> else b)"

definition clip_dest_y :: "'a bitblt_scheme \<Rightarrow> 'a bitblt_scheme" where
  "clip_dest_y b =
     (let b = (if bb_destY b \<ge> bb_clipY b then b\<lparr>bb_sy := bb_sourceY b, bb_dy := bb_destY b, bb_h := bb_height b\<rparr>
               else b\<lparr>bb_sy := bb_sourceY b + bb_clipY b - bb_destY b, bb_h := bb_height b - (bb_clipY b - bb_destY b),
                      bb_dy := bb_clipY b\<rparr>)
      in if bb_dy b + bb_h b > bb_clipY b + bb_clipHeight b
         then b\<lparr>bb_h := bb_h b - ((bb_dy b + bb_h b) - (bb_clipY b + bb_clipHeight b))\<rparr> else b)"

definition clip_source :: "'a bitblt_scheme \<Rightarrow> 'a bitblt_scheme" where
  "clip_source b =
     (let b = (if bb_sx b < 0 then b\<lparr>bb_dx := bb_dx b - bb_sx b, bb_w := bb_w b + bb_sx b, bb_sx := 0\<rparr> else b);
          b = (if bb_sx b + bb_w b > bb_sourceFormWidth b
               then b\<lparr>bb_w := bb_w b - (bb_sx b + bb_w b - bb_sourceFormWidth b)\<rparr> else b);
          b = (if bb_sy b < 0 then b\<lparr>bb_dy := bb_dy b - bb_sy b, bb_h := bb_h b + bb_sy b, bb_sy := 0\<rparr> else b)
      in if bb_sy b + bb_h b > bb_sourceFormHeight b
         then b\<lparr>bb_h := bb_h b - (bb_sy b + bb_h b - bb_sourceFormHeight b)\<rparr> else b)"

definition clipRange :: "'a bitblt_scheme \<Rightarrow> 'a bitblt_scheme" where
  "clipRange b =
     (let b = clip_dest_y (clip_dest_x (clip_to_form b)) in if bb_sourceForm b = NilPointer then b else clip_source b)"

section \<open>Masks, directions, offsets\<close>

definition RightMasks :: "16 word list" where
  "RightMasks = [0, 0x1, 0x3, 0x7, 0xF, 0x1F, 0x3F, 0x7F, 0xFF, 0x1FF, 0x3FF, 0x7FF, 0xFFF, 0x1FFF, 0x3FFF, 0x7FFF, 0xFFFF]"

definition AllOnes :: "16 word" where
  "AllOnes = 0xFFFF"

definition formWordCount :: "int \<Rightarrow> int \<Rightarrow> int" where
  "formWordCount width height = (width + 15) sdiv 16 * height"

definition edge_masks :: "'a bitblt_scheme \<Rightarrow> 'a bitblt_scheme" where
  "edge_masks b =
     (let b = b\<lparr>bb_skew := (bb_sx b - bb_dx b) AND 15\<rparr>;
          startBits = 16 - (bb_dx b AND 15);
          b = b\<lparr>bb_mask1 := RightMasks ! nat startBits\<rparr>;
          endBits = 15 - ((bb_dx b + bb_w b - 1) AND 15);
          b = b\<lparr>bb_mask2 := NOT (RightMasks ! nat endBits)\<rparr>;
          b = b\<lparr>bb_skewMask := (if bb_skew b = 0 then 0 else RightMasks ! nat (16 - bb_skew b))\<rparr>
      in if bb_w b < startBits then b\<lparr>bb_mask1 := bb_mask1 b AND bb_mask2 b, bb_mask2 := 0, bb_nWords := 1\<rparr>
         else b\<lparr>bb_nWords := (bb_w b - startBits + 15) sdiv 16 + 1\<rparr>)"

definition computeMasks :: "'a bitblt_scheme \<Rightarrow> omem \<Rightarrow> 'a bitblt_scheme option" where
  "computeMasks b m =
     do {
       db \<leftarrow> fetchPointer_ofObject 0 (bb_destForm b) m;
       n \<leftarrow> fetchWordLengthOf db m;
       let b = b\<lparr>bb_destBits := db, bb_destBitsWordLength := n, bb_destRaster := (bb_destFormWidth b - 1) sdiv 16 + 1\<rparr>;
       b \<leftarrow> (if bb_sourceForm b \<noteq> NilPointer then do {
               sb \<leftarrow> fetchPointer_ofObject 0 (bb_sourceForm b) m;
               n \<leftarrow> fetchWordLengthOf sb m;
               Some (b\<lparr>bb_sourceBits := sb, bb_sourceBitsWordLength := n, bb_sourceRaster := (bb_sourceFormWidth b - 1) sdiv 16 + 1\<rparr>)
             } else Some (b\<lparr>bb_sourceBitsWordLength := 0\<rparr>));
       b \<leftarrow> (if bb_halftoneForm b \<noteq> NilPointer then do {
               hb \<leftarrow> fetchPointer_ofObject 0 (bb_halftoneForm b) m;
               Some (b\<lparr>bb_halftoneBits := hb\<rparr>)
             } else Some b);
       Some (edge_masks b)
     }"

definition checkOverlap :: "'a bitblt_scheme \<Rightarrow> 'a bitblt_scheme" where
  "checkOverlap b =
     (let b = b\<lparr>bb_hDir := 1, bb_vDir := 1\<rparr>
      in if bb_sourceForm b = bb_destForm b \<and> bb_dy b \<ge> bb_sy b then
           if bb_dy b > bb_sy b
           then b\<lparr>bb_vDir := -1, bb_sy := bb_sy b + bb_h b - 1, bb_dy := bb_dy b + bb_h b - 1\<rparr>
           else if bb_dx b > bb_sx b
           then b\<lparr>bb_hDir := -1, bb_sx := bb_sx b + bb_w b - 1, bb_dx := bb_dx b + bb_w b - 1,
                  bb_skewMask := NOT (bb_skewMask b), bb_mask1 := bb_mask2 b, bb_mask2 := bb_mask1 b\<rparr>
           else b
         else b)"

definition calculateOffsets :: "'a bitblt_scheme \<Rightarrow> 'a bitblt_scheme" where
  "calculateOffsets b =
     (let pre = bb_sourceForm b \<noteq> NilPointer \<and> bb_skew b \<noteq> 0 \<and> bb_skew b \<le> (bb_sx b AND 15);
          pre = (if bb_hDir b < 0 then \<not> pre else pre);
          b = b\<lparr>bb_preload := pre\<rparr>;
          b = b\<lparr>bb_sourceIndex := bb_sy b * bb_sourceRaster b + bb_sx b sdiv 16, bb_destIndex := bb_dy b * bb_destRaster b + bb_dx b sdiv 16\<rparr>
      in b\<lparr>bb_sourceDelta := bb_sourceRaster b * bb_vDir b - (bb_nWords b + (if bb_preload b then 1 else 0)) * bb_hDir b,
           bb_destDelta := bb_destRaster b * bb_vDir b - bb_nWords b * bb_hDir b\<rparr>)"

section \<open>The copy\<close>

definition merge_with :: "int \<Rightarrow> 16 word \<Rightarrow> 16 word \<Rightarrow> 16 word option" where
  "merge_with rule s d =
     (if rule = 0 then Some 0
      else if rule = 1 then Some (s AND d)
      else if rule = 2 then Some (s AND NOT d)
      else if rule = 3 then Some s
      else if rule = 4 then Some (NOT s AND d)
      else if rule = 5 then Some d
      else if rule = 6 then Some (s XOR d)
      else if rule = 7 then Some (s OR d)
      else if rule = 8 then Some (NOT s AND NOT d)
      else if rule = 9 then Some (NOT s XOR d)
      else if rule = 10 then Some (NOT d)
      else if rule = 11 then Some (s OR NOT d)
      else if rule = 12 then Some (NOT s)
      else if rule = 13 then Some (NOT s OR d)
      else if rule = 14 then Some (NOT s OR NOT d)
      else if rule = 15 then Some AllOnes
      else None)"

text \<open>A word of a bitmap.\<close>

definition fetch_bits :: "int \<Rightarrow> int \<Rightarrow> omem \<Rightarrow> 16 word option" where
  "fetch_bits i p m = do { x \<leftarrow> fetchWord_ofObject i p m; Some (word_of_int x) }"

text \<open>The source word of one step: what is left of the words fetched before, rotated into place.\<close>

definition skew_word :: "int \<Rightarrow> 16 word \<Rightarrow> 16 word \<Rightarrow> 'a bitblt_scheme \<Rightarrow> omem \<Rightarrow> (16 word \<times> 16 word \<times> 16 word) option" where
  "skew_word wd prevWord thisWord b m =
     do {
       let prevWord = prevWord AND bb_skewMask b;
       thisWord \<leftarrow> (if wd \<le> bb_sourceRaster b \<and> bb_sourceIndex b \<ge> 0 \<and> bb_sourceIndex b < bb_sourceBitsWordLength b
                    then fetch_bits (bb_sourceIndex b) (bb_sourceBits b) m else Some thisWord);
       let skewWord = prevWord OR (thisWord AND NOT (bb_skewMask b));
       Some (thisWord, thisWord, push_bit (nat (bb_skew b)) skewWord OR drop_bit (nat (16 - bb_skew b)) skewWord)
     }"

text \<open>The words of one line; the first result says that the code returned from the middle of the loop.\<close>

partial_function (option) copy_words ::
    "int \<Rightarrow> 16 word \<Rightarrow> 16 word \<Rightarrow> 16 word \<Rightarrow> 16 word \<Rightarrow> 16 word \<Rightarrow> 'a bitblt_scheme \<Rightarrow> omem \<Rightarrow>
      (bool \<times> 16 word \<times> 'a bitblt_scheme \<times> omem) option" where
  "copy_words wd prevWord thisWord skewWord mergeMask halftoneWord b m =
     (if wd \<le> bb_nWords b then do {
        (prevWord, thisWord, skewWord) \<leftarrow>
          (if bb_sourceForm b \<noteq> NilPointer then skew_word wd prevWord thisWord b m else Some (prevWord, thisWord, skewWord));
        if bb_destIndex b \<ge> bb_destBitsWordLength b then Some (True, thisWord, b, m)
        else do {
          destWord \<leftarrow> fetch_bits (bb_destIndex b) (bb_destBits b) m;
          mergeWord \<leftarrow> merge_with (bb_combinationRule b) (skewWord AND halftoneWord) destWord;
          m \<leftarrow> storeWord_ofObject_withValue (bb_destIndex b) (bb_destBits b)
                 (uint ((mergeMask AND mergeWord) OR (NOT mergeMask AND destWord))) m;
          let b = b\<lparr>bb_sourceIndex := bb_sourceIndex b + bb_hDir b, bb_destIndex := bb_destIndex b + bb_hDir b\<rparr>;
          copy_words (wd + 1) prevWord thisWord skewWord (if wd = bb_nWords b - 1 then bb_mask2 b else AllOnes) halftoneWord b m
        }
      } else Some (False, thisWord, b, m))"

definition line_halftone :: "'a bitblt_scheme \<Rightarrow> omem \<Rightarrow> (16 word \<times> 'a bitblt_scheme) option" where
  "line_halftone b m =
     (if bb_halftoneForm b \<noteq> NilPointer then do {
        x \<leftarrow> fetch_bits (bb_dy b AND 15) (bb_halftoneBits b) m;
        Some (x, b\<lparr>bb_dy := bb_dy b + bb_vDir b\<rparr>)
      } else Some (AllOnes, b))"

definition line_preload :: "'a bitblt_scheme \<Rightarrow> omem \<Rightarrow> (16 word \<times> 'a bitblt_scheme) option" where
  "line_preload b m =
     (if bb_preload b then do {
        x \<leftarrow> fetch_bits (bb_sourceIndex b) (bb_sourceBits b) m;
        Some (x, b\<lparr>bb_sourceIndex := bb_sourceIndex b + bb_hDir b\<rparr>)
      } else Some (0, b))"

partial_function (option) copy_lines ::
    "int \<Rightarrow> 16 word \<Rightarrow> 'a bitblt_scheme \<Rightarrow> omem \<Rightarrow> ('a bitblt_scheme \<times> omem) option" where
  "copy_lines i thisWord b m =
     (if i \<le> bb_h b then do {
        (halftoneWord, b) \<leftarrow> line_halftone b m;
        (prevWord, b) \<leftarrow> line_preload b m;
        (returned, thisWord, b, m) \<leftarrow> copy_words 1 prevWord thisWord halftoneWord (bb_mask1 b) halftoneWord b m;
        if returned then Some (b, m)
        else copy_lines (i + 1) thisWord (b\<lparr>bb_sourceIndex := bb_sourceIndex b + bb_sourceDelta b,
                                            bb_destIndex := bb_destIndex b + bb_destDelta b\<rparr>) m
      } else Some (b, m))"

definition copyLoop :: "'a bitblt_scheme \<Rightarrow> omem \<Rightarrow> ('a bitblt_scheme \<times> omem) option" where
  "copyLoop b m = copy_lines 1 0 b m"

definition copyBits :: "'a bitblt_scheme \<Rightarrow> omem \<Rightarrow> (bool \<times> 'a bitblt_scheme \<times> omem) option" where
  "copyBits b m =
     (let b = clipRange b
      in if bb_w b > 0 \<and> bb_h b > 0 then do {
           let b = b\<lparr>bb_updatedX := bb_dx b, bb_updatedY := bb_dy b, bb_updatedWidth := bb_w b, bb_updatedHeight := bb_h b\<rparr>;
           b \<leftarrow> computeMasks b m;
           if bb_sourceForm b \<noteq> NilPointer \<and>
              formWordCount (bb_sourceFormWidth b) (bb_sourceFormHeight b) \<noteq> bb_sourceBitsWordLength b then Some (False, b, m)
           else if formWordCount (bb_destFormWidth b) (bb_destFormHeight b) \<noteq> bb_destBitsWordLength b then Some (False, b, m)
           else do {
             (b, m) \<leftarrow> copyLoop (calculateOffsets (checkOverlap b)) m;
             Some (True, b, m)
           }
         } else Some (True, b\<lparr>bb_updatedX := 0, bb_updatedY := 0, bb_updatedWidth := 0, bb_updatedHeight := 0\<rparr>, m))"

definition getUpdatedBounds :: "'a bitblt_scheme \<Rightarrow> int \<times> int \<times> int \<times> int" where
  "getUpdatedBounds b = (bb_updatedX b, bb_updatedY b, bb_updatedWidth b, bb_updatedHeight b)"

section \<open>Scanning characters\<close>

partial_function (option) scan_loop ::
    "int \<Rightarrow> int \<Rightarrow> int \<Rightarrow> int \<Rightarrow> bool \<Rightarrow> scanner \<Rightarrow> omem \<Rightarrow> (int option \<times> scanner \<times> omem) option" where
  "scan_loop stopIndex sourceString rightX stops displaying b m =
     (if bb_lastIndex b \<le> stopIndex then do {
        ascii \<leftarrow> fetchByte_ofObject (bb_lastIndex b - 1) sourceString m;
        stop \<leftarrow> fetchPointer_ofObject ascii (bb_stopConditions b) m;
        if stop \<noteq> NilPointer then do { r \<leftarrow> fetchPointer_ofObject ascii stops m; Some (Some r, b, m) }
        else do {
          x \<leftarrow> fetchPointer_ofObject ascii (bb_xTable b) m;
          let b = b\<lparr>bb_sourceX := integerValueOf x\<rparr>;
          x \<leftarrow> fetchPointer_ofObject (ascii + 1) (bb_xTable b) m;
          let b = b\<lparr>bb_width := integerValueOf x - bb_sourceX b\<rparr>;
          let nextDestX = bb_destX b + bb_width b;
          if nextDestX > rightX then do { r \<leftarrow> fetchPointer_ofObject 257 stops m; Some (Some r, b, m) }
          else do {
            (_, b, m) \<leftarrow> (if displaying then copyBits b m else Some (True, b, m));
            scan_loop stopIndex sourceString rightX stops displaying
              (b\<lparr>bb_destX := nextDestX, bb_lastIndex := bb_lastIndex b + 1\<rparr>) m
          }
        }
      } else Some (None, b, m))"

definition scanCharactersFrom_to_in_rightX_stopConditions_displaying ::
    "int \<Rightarrow> int \<Rightarrow> int \<Rightarrow> int \<Rightarrow> int \<Rightarrow> bool \<Rightarrow> scanner \<Rightarrow> omem \<Rightarrow> (int \<times> scanner \<times> omem) option" where
  "scanCharactersFrom_to_in_rightX_stopConditions_displaying startIndex stopIndex sourceString rightX stops displaying b m =
     do {
       (r, b, m) \<leftarrow> scan_loop stopIndex sourceString rightX stops displaying (b\<lparr>bb_lastIndex := startIndex\<rparr>) m;
       case r of Some x \<Rightarrow> Some (x, b, m)
       | None \<Rightarrow> do { x \<leftarrow> fetchPointer_ofObject 256 stops m; Some (x, b\<lparr>bb_lastIndex := stopIndex\<rparr>, m) }
     }"

end
