(* ===== verification/OmSnapshot.thy ===== *)
theory OmSnapshot
  imports OmCollect
begin

text \<open>
  Loading and saving snapshots (\<^verbatim>\<open>smalltalk/src/objmemory.cpp\<close>) over the interface of a file system
  (\<^verbatim>\<open>filesystem.h\<close>).  In the image the objects are stored one after another without gaps, addressed by words, and
  the object table follows.  The boot mode chooses between the image linked into the kernel (0), reading word by word
  from a file (1) and reading a file into the array of the image (2).
\<close>

section \<open>The file system\<close>

text \<open>The operations over the state \<open>'w\<close> of the machine outside the virtual machine; a name is a list of bytes.\<close>

record 'w filesystem =
  create_file :: "int list \<Rightarrow> 'w \<Rightarrow> int \<times> 'w"
  open_file :: "int list \<Rightarrow> 'w \<Rightarrow> int \<times> 'w"
  close_file :: "int \<Rightarrow> 'w \<Rightarrow> int \<times> 'w"
  seek_to :: "int \<Rightarrow> int \<Rightarrow> 'w \<Rightarrow> int \<times> 'w"
  tell :: "int \<Rightarrow> 'w \<Rightarrow> int \<times> 'w"
  read_bytes :: "int \<Rightarrow> int \<Rightarrow> 'w \<Rightarrow> (int \<times> int list) \<times> 'w"
  write_bytes :: "int \<Rightarrow> int list \<Rightarrow> int \<Rightarrow> 'w \<Rightarrow> int \<times> 'w"
  truncate_to :: "int \<Rightarrow> int \<Rightarrow> 'w \<Rightarrow> bool \<times> 'w"
  file_size :: "int \<Rightarrow> 'w \<Rightarrow> int \<times> 'w"
  enumerate_files :: "'w \<Rightarrow> int list list \<times> 'w"
  rename_file :: "int list \<Rightarrow> int list \<Rightarrow> 'w \<Rightarrow> bool \<times> 'w"
  delete_file :: "int list \<Rightarrow> 'w \<Rightarrow> bool \<times> 'w"
  last_error :: "'w \<Rightarrow> int"
  error_text :: "int \<Rightarrow> 'w \<Rightarrow> int list option"

text \<open>Words in memory, the low byte first.\<close>

definition word_bytes :: "int \<Rightarrow> int list" where
  "word_bytes v = [take_bit 8 v, take_bit 8 (drop_bit 8 v)]"

definition long_bytes :: "int \<Rightarrow> int list" where
  "long_bytes v = word_bytes v @ word_bytes (drop_bit 16 v)"

fun bytes_word :: "int list \<Rightarrow> int" where
  "bytes_word [] = 0" |
  "bytes_word (b # bs) = take_bit 8 b + 256 * bytes_word bs"

section \<open>Saving\<close>

text \<open>Write some bytes; the result says whether all of them were.\<close>

definition write_all :: "'w filesystem \<Rightarrow> int \<Rightarrow> int list \<Rightarrow> 'w \<Rightarrow> bool \<times> 'w" where
  "write_all fs fd bs w = (let (n, w) = write_bytes fs fd bs (int (length bs)) w in (n = int (length bs), w))"

fun pad_loop :: "'w filesystem \<Rightarrow> int \<Rightarrow> nat \<Rightarrow> 'w \<Rightarrow> bool \<times> 'w" where
  "pad_loop fs fd 0 w = (True, w)" |
  "pad_loop fs fd (Suc n) w = (let (ok, w) = write_all fs fd (word_bytes 0) w in if ok then pad_loop fs fd n w else (False, w))"

definition padToPage :: "'w filesystem \<Rightarrow> int \<Rightarrow> 'w \<Rightarrow> bool \<times> 'w" where
  "padToPage fs fd w =
     (let (pos, w) = tell fs fd w; desired = (pos + 512 - 1) sdiv 512 * 512
      in pad_loop fs fd (nat ((desired - pos) div 2)) w)"

partial_function (option) last_used :: "int \<Rightarrow> int \<Rightarrow> omem \<Rightarrow> int option" where
  "last_used p r m =
     (if p < ObjectTableSize then do { h \<leftarrow> hasObject p m; last_used (p + 2) (if h then p else r) m } else Some r)"

partial_function (option) save_fields ::
    "'w filesystem \<Rightarrow> int \<Rightarrow> int \<Rightarrow> int \<Rightarrow> int \<Rightarrow> omem \<Rightarrow> 'w \<Rightarrow> (bool \<times> 'w) option" where
  "save_fields fs fd i n p m w =
     (if i < n then do {
        x \<leftarrow> fetchWord_ofObject i p m;
        let (ok, w) = write_all fs fd (word_bytes x) w;
        if ok then save_fields fs fd (i + 1) n p m w else Some (False, w)
      } else Some (True, w))"

partial_function (option) save_objects_loop ::
    "'w filesystem \<Rightarrow> int \<Rightarrow> int \<Rightarrow> int \<Rightarrow> int \<Rightarrow> omem \<Rightarrow> 'w \<Rightarrow> (bool \<times> int \<times> 'w) option" where
  "save_objects_loop fs fd p tableLength spaceLength m w =
     (if p < tableLength then do {
        h \<leftarrow> hasObject p m;
        if \<not> h then save_objects_loop fs fd (p + 2) tableLength spaceLength m w
        else do {
          objectSize \<leftarrow> sizeBitsOf p m;
          c \<leftarrow> fetchClassOf p m;
          let (ok, w) = write_all fs fd (word_bytes objectSize @ word_bytes c) w;
          if \<not> ok then Some (False, spaceLength, w)
          else do {
            n \<leftarrow> fetchWordLengthOf p m;
            (ok, w) \<leftarrow> save_fields fs fd 0 n p m w;
            if \<not> ok then Some (False, spaceLength, w)
            else save_objects_loop fs fd (p + 2) tableLength (spaceLength + objectSize) m w
          }
        }
      } else Some (True, spaceLength, w))"

text \<open>The two words of a table entry in the image.  The entry is changed and restored.\<close>

definition save_entry :: "int \<Rightarrow> int \<Rightarrow> omem \<Rightarrow> (int list \<times> int \<times> omem) option" where
  "save_entry p address m =
     do {
       oldValue \<leftarrow> ot p m;
       oldLocation \<leftarrow> locationBitsOf p m;
       (address, m) \<leftarrow>
         (if p \<ge> 2 then do {
            f \<leftarrow> freeBitOf p m;
            c \<leftarrow> countBitsOf p m;
            m \<leftarrow> (if f = 0 \<and> c = 0 then freeBitOf_put p 1 m else Some m);
            f \<leftarrow> freeBitOf p m;
            if f \<noteq> 0 then do {
              m \<leftarrow> ot_put p 0 m;
              m \<leftarrow> freeBitOf_put p 1 m;
              m \<leftarrow> locationBitsOf_put p 0 m;
              Some (address, m)
            } else do {
              objectSize \<leftarrow> sizeBitsOf p m;
              m \<leftarrow> segmentBitsOf_put p (drop_bit 16 address) m;
              m \<leftarrow> locationBitsOf_put p (address AND 0xFFFF) m;
              Some (address + objectSize, m)
            }
          } else Some (address, m));
       x0 \<leftarrow> ot p m;
       x1 \<leftarrow> locationBitsOf p m;
       m \<leftarrow> ot_put p oldValue m;
       m \<leftarrow> locationBitsOf_put p oldLocation m;
       Some (word_bytes x0 @ word_bytes x1, address, m)
     }"

partial_function (option) save_table_loop ::
    "'w filesystem \<Rightarrow> int \<Rightarrow> int \<Rightarrow> int \<Rightarrow> int \<Rightarrow> omem \<Rightarrow> 'w \<Rightarrow> (bool \<times> omem \<times> 'w) option" where
  "save_table_loop fs fd p tableLength address m w =
     (if p < tableLength then do {
        (bs, address, m) \<leftarrow> save_entry p address m;
        let (ok, w) = write_all fs fd bs w;
        if ok then save_table_loop fs fd (p + 2) tableLength address m w else Some (False, m, w)
      } else Some (True, m, w))"

definition saveObjects :: "'w filesystem \<Rightarrow> int \<Rightarrow> omem \<Rightarrow> 'w \<Rightarrow> (bool \<times> omem \<times> 'w) option" where
  "saveObjects fs fd m w =
     do {
       lastUsedObjectPointer \<leftarrow> last_used 2 NonPointer m;
       let tableLength = lastUsedObjectPointer + 2;
       let (ok, w) = write_all fs fd (replicate 8 0) w;
       if \<not> ok then Some (False, m, w)
       else do {
         let (ok, w) = write_all fs fd (replicate 2 0) w;
         if \<not> ok then Some (False, m, w)
         else do {
           let (ok, w) = padToPage fs fd w;
           if \<not> ok then Some (False, m, w)
           else do {
             (ok, spaceLength, w) \<leftarrow> save_objects_loop fs fd 2 tableLength 0 m w;
             if \<not> ok then Some (False, m, w)
             else do {
               let (ok, w) = padToPage fs fd w;
               if \<not> ok then Some (False, m, w)
               else do {
                 (ok, m, w) \<leftarrow> save_table_loop fs fd 0 tableLength 0 m w;
                 if \<not> ok then Some (False, m, w)
                 else do {
                   let (_, w) = seek_to fs fd 0 w;
                   let (_, w) = write_bytes fs fd (long_bytes spaceLength) 4 w;
                   let (_, w) = write_bytes fs fd (long_bytes tableLength) 4 w;
                   Some (True, m, w)
                 }
               }
             }
           }
         }
       }
     }"

definition saveSnapshot :: "'w filesystem \<Rightarrow> int list \<Rightarrow> omem \<Rightarrow> 'w \<Rightarrow> (bool \<times> omem \<times> 'w) option" where
  "saveSnapshot fs imageFileName m w =
     (let (fd, w) = create_file fs imageFileName w
      in if fd = -1 then Some (False, m, w)
         else do {
           (success, m, w) \<leftarrow> saveObjects fs fd m w;
           let (_, w) = close_file fs fd w;
           Some (success, m, w)
         })"

section \<open>Loading\<close>

text \<open>The image in memory: the array, its number of bytes in use, the position of the next byte to copy, and the boot
mode.\<close>

record image =
  bootmode :: int
  im_array :: "int list"
  im_len :: int
  im_offset :: int

definition copy_from_image :: "int \<Rightarrow> image \<Rightarrow> (int list \<times> image) option" where
  "copy_from_image n im =
     (if im_offset im \<ge> 0 \<and> im_offset im + n \<le> int (length (im_array im))
      then Some (take (nat n) (drop (nat (im_offset im)) (im_array im)), im\<lparr>im_offset := im_offset im + n\<rparr>) else None)"

text \<open>Read exactly so many bytes from a file; \<open>None\<close> inside says that fewer were read.\<close>

definition read_exactly :: "'w filesystem \<Rightarrow> int \<Rightarrow> int \<Rightarrow> 'w \<Rightarrow> int list option \<times> 'w" where
  "read_exactly fs fd n w =
     (let ((k, bs), w) = read_bytes fs fd n w in (if k = n \<and> int (length bs) = n then Some bs else None, w))"

definition signed_long :: "int \<Rightarrow> int" where
  "signed_long v = signed_take_bit 31 v"

partial_function (option) table_entries ::
    "'w filesystem \<Rightarrow> int \<Rightarrow> int \<Rightarrow> int \<Rightarrow> image \<times> omem \<times> 'w \<Rightarrow> (bool \<times> image \<times> omem \<times> 'w) option" where
  "table_entries fs fd p tableLength s =
     (case s of (im, m, w) \<Rightarrow>
        if p < tableLength then do {
          (r, im, w) \<leftarrow>
            (if bootmode im = 1 then let (r, w) = read_exactly fs fd 4 w in Some (r, im, w)
             else do { (bs, im) \<leftarrow> copy_from_image 4 im; Some (Some bs, im, w) });
          case r of None \<Rightarrow> Some (False, im, m, w)
          | Some bs \<Rightarrow> do {
              m \<leftarrow> ot_put p (bytes_word (take 2 bs)) m;
              m \<leftarrow> locationBitsOf_put p (bytes_word (drop 2 bs)) m;
              table_entries fs fd (p + 2) tableLength (im, m, w)
            }
        } else Some (True, im, m, w))"

partial_function (option) free_rest :: "int \<Rightarrow> omem \<Rightarrow> omem option" where
  "free_rest p m =
     (if p < ObjectTableSize then do {
        m \<leftarrow> ot_put p 0 m;
        m \<leftarrow> freeBitOf_put p 1 m;
        m \<leftarrow> locationBitsOf_put p 0 m;
        free_rest (p + 2) m
      } else Some m)"

partial_function (option) build_free_list :: "int \<Rightarrow> omem \<Rightarrow> omem option" where
  "build_free_list p m =
     (if p \<ge> 2 then do {
        f \<leftarrow> freeBitOf p m;
        m \<leftarrow> (if f \<noteq> 0 then toFreePointerListAdd p m else Some m);
        build_free_list (p - 2) m
      } else Some m)"

text \<open>The length of the table, the size of the image and the place of the table in it.  The result is \<open>None\<close> inside
where the code returns false.\<close>

definition table_start :: "'w filesystem \<Rightarrow> int \<Rightarrow> image \<Rightarrow> 'w \<Rightarrow> (int option \<times> image \<times> 'w) option" where
  "table_start fs fd im w =
     (if bootmode im = 1 then
        let (r, w) = seek_to fs fd 4 w
        in if r = -1 then Some (None, im, w)
           else let (r, w) = read_exactly fs fd 4 w
           in case r of None \<Rightarrow> Some (None, im, w)
              | Some bs \<Rightarrow>
                  let tableLength = signed_long (bytes_word bs); (fileSize, w) = file_size fs fd w;
                      (r, w) = seek_to fs fd (fileSize - tableLength * 2) w
                  in Some (if r = -1 then None else Some tableLength, im, w)
      else if bootmode im = 0 \<or> bootmode im = 2 then do {
        let (fileSize, im, w) = (if bootmode im = 0 then (im_len im, im, w)
                                 else let (n, w) = file_size fs fd w in (n, im\<lparr>im_len := n\<rparr>, w));
        (bs, im) \<leftarrow> copy_from_image 4 (im\<lparr>im_offset := 4\<rparr>);
        let tableLength = signed_long (bytes_word bs);
        Some (Some tableLength, im\<lparr>im_offset := fileSize - tableLength * 2\<rparr>, w)
      } else Some (None, im, w))"

definition loadObjectTable :: "'w filesystem \<Rightarrow> int \<Rightarrow> image \<Rightarrow> omem \<Rightarrow> 'w \<Rightarrow> (bool \<times> image \<times> omem \<times> 'w) option" where
  "loadObjectTable fs fd im m w =
     do {
       (r, im, w) \<leftarrow> table_start fs fd im w;
       case r of None \<Rightarrow> Some (False, im, m, w)
       | Some tableLength \<Rightarrow> do {
           (ok, im, m, w) \<leftarrow> table_entries fs fd 0 tableLength (im, m, w);
           if \<not> ok then Some (False, im, m, w)
           else do {
             m \<leftarrow> headOfFreePointerListPut NonPointer m;
             m \<leftarrow> free_rest tableLength m;
             m \<leftarrow> build_free_list (ObjectTableSize - 2) m;
             n \<leftarrow> auditFreeOops m;
             Some (True, im, m\<lparr>freeOops := n\<rparr>, w)
           }
         }
     }"

text \<open>A word of an object.  What a failed read leaves in the variable is not known.\<close>

definition load_word :: "'w filesystem \<Rightarrow> int \<Rightarrow> image \<Rightarrow> 'w \<Rightarrow> (int \<times> image \<times> 'w) option" where
  "load_word fs fd im w =
     (if bootmode im = 1 then let (r, w) = read_exactly fs fd 2 w in do { bs \<leftarrow> r; Some (bytes_word bs, im, w) }
      else do { (bs, im) \<leftarrow> copy_from_image 2 im; Some (bytes_word bs, im, w) })"

partial_function (option) load_fields ::
    "'w filesystem \<Rightarrow> int \<Rightarrow> int \<Rightarrow> int \<Rightarrow> int \<Rightarrow> image \<times> omem \<times> 'w \<Rightarrow> (image \<times> omem \<times> 'w) option" where
  "load_fields fs fd i n p s =
     (case s of (im, m, w) \<Rightarrow>
        if i < n then do {
          (x, im, w) \<leftarrow> load_word fs fd im w;
          m \<leftarrow> storeWord_ofObject_withValue i p x m;
          load_fields fs fd (i + 1) n p (im, m, w)
        } else Some (im, m, w))"

text \<open>The objects.  The state has the segment and the word where the next one goes and what remains of each segment.\<close>

record placement =
  destinationSegment :: int
  destinationWord :: int
  heapSpaceRemaining :: "int \<Rightarrow> int"

definition place :: "int \<Rightarrow> placement \<Rightarrow> placement option" where
  "place space pl =
     (if space > heapSpaceRemaining pl (destinationSegment pl - FirstHeapSegment)
      then if destinationSegment pl + 1 = HeapSegmentCount then None
           else Some (pl\<lparr>destinationSegment := destinationSegment pl + 1, destinationWord := 0\<rparr>)
      else Some pl)"

definition take_space :: "int \<Rightarrow> placement \<Rightarrow> placement" where
  "take_space space pl =
     (let i = destinationSegment pl - FirstHeapSegment
      in pl\<lparr>destinationWord := destinationWord pl + space,
            heapSpaceRemaining := (heapSpaceRemaining pl)(i := heapSpaceRemaining pl i - space)\<rparr>)"

partial_function (option) load_objects_loop ::
    "'w filesystem \<Rightarrow> int \<Rightarrow> int \<Rightarrow> placement \<Rightarrow> image \<times> omem \<times> 'w \<Rightarrow> (bool \<times> placement \<times> image \<times> omem \<times> 'w) option" where
  "load_objects_loop fs fd p pl s =
     (case s of (im, m, w) \<Rightarrow>
        if p < ObjectTableSize then do {
          f \<leftarrow> freeBitOf p m;
          if f \<noteq> 0 then load_objects_loop fs fd (p + 2) pl (im, m, w)
          else do {
            c \<leftarrow> countBitsOf p m;
            if c = 0 then None
            else do {
              sg \<leftarrow> segmentBitsOf p m;
              l \<leftarrow> locationBitsOf p m;
              let start = 512 + (push_bit 16 sg + l) * 2;
              let (im, w) = (if bootmode im = 1 then (im, snd (seek_to fs fd start w)) else (im\<lparr>im_offset := start\<rparr>, w));
              (objectSize, im, w) \<leftarrow> load_word fs fd im w;
              extraSpace \<leftarrow> (if objectSize < HugeSize then Some 0 else do { b \<leftarrow> pointerBitOf p m; Some (if b = 0 then 0 else 1) });
              let space = objectSize + extraSpace;
              case place space pl of None \<Rightarrow> Some (False, pl, im, m, w)
              | Some pl \<Rightarrow> do {
                  m \<leftarrow> segmentBitsOf_put p (destinationSegment pl) m;
                  m \<leftarrow> locationBitsOf_put p (destinationWord pl) m;
                  m \<leftarrow> sizeBitsOf_put p objectSize m;
                  (classBits, im, w) \<leftarrow> load_word fs fd im w;
                  m \<leftarrow> classBitsOf_put p classBits m;
                  (im, m, w) \<leftarrow> load_fields fs fd 0 (objectSize - HeaderSize) p (im, m, w);
                  load_objects_loop fs fd (p + 2) (take_space space pl) (im, m, w)
                }
            }
          }
        } else Some (True, pl, im, m, w))"

text \<open>What remains of a segment becomes a free chunk.\<close>

partial_function (option) remaining_chunks :: "int \<Rightarrow> (int \<Rightarrow> int) \<Rightarrow> omem \<Rightarrow> omem option" where
  "remaining_chunks sg remaining m =
     (if sg \<le> LastHeapSegment then do {
        let freeChunkSize = remaining (sg - FirstHeapSegment);
        let m = m\<lparr>freeWords := freeWords m + freeChunkSize\<rparr>;
        m \<leftarrow> (if freeChunkSize \<ge> HeaderSize then do {
                let freeChunkLocation = (HeapSpaceStop + 1) - freeChunkSize;
                (p, m) \<leftarrow> obtainPointer_location freeChunkSize freeChunkLocation (m\<lparr>currentSegment := sg\<rparr>);
                toFreeChunkList_add (min freeChunkSize BigSize) p m
              } else Some m);
        remaining_chunks (sg + 1) remaining m
      } else Some m)"

definition loadObjects :: "'w filesystem \<Rightarrow> int \<Rightarrow> image \<Rightarrow> omem \<Rightarrow> 'w \<Rightarrow> (bool \<times> image \<times> omem \<times> 'w) option" where
  "loadObjects fs fd im m w =
     do {
       let pl = \<lparr>destinationSegment = FirstHeapSegment, destinationWord = 0, heapSpaceRemaining = (\<lambda>i. HeapSpaceStop + 1)\<rparr>;
       (ok, pl, im, m, w) \<leftarrow> load_objects_loop fs fd 2 pl (im, m, w);
       if \<not> ok then Some (False, im, m, w)
       else do {
         m \<leftarrow> reset_lists FirstHeapSegment m;
         m \<leftarrow> remaining_chunks FirstHeapSegment (heapSpaceRemaining pl) (m\<lparr>freeWords := 0\<rparr>);
         Some (True, im, m\<lparr>currentSegment := FirstHeapSegment\<rparr>, w)
       }
     }"

text \<open>Read a whole file into the array; its size is asked again for each use.\<close>

definition read_image :: "'w filesystem \<Rightarrow> int \<Rightarrow> image \<Rightarrow> 'w \<Rightarrow> (bool \<times> image \<times> 'w) option" where
  "read_image fs fd im w =
     (let (n, w) = file_size fs fd w
      in if take_bit 32 n > int (length (im_array im)) then Some (False, im, w)
         else let (n, w) = file_size fs fd w; ((k, bs), w) = read_bytes fs fd n w
         in if length bs > length (im_array im) then None
            else let im = im\<lparr>im_array := bs @ drop (length bs) (im_array im)\<rparr>; (n, w) = file_size fs fd w
            in Some (k = n, im, if k = n then w else snd (file_size fs fd w)))"

definition loadSnapshot :: "'w filesystem \<Rightarrow> int list \<Rightarrow> image \<Rightarrow> omem \<Rightarrow> 'w \<Rightarrow> (bool \<times> image \<times> omem \<times> 'w) option" where
  "loadSnapshot fs fileName im m w =
     (if bootmode im \<notin> {0, 1, 2} then Some (False, im, m, w)
      else let (fd, w) = (if bootmode im = 0 then (-1, w) else open_file fs fileName w)
      in if bootmode im \<noteq> 0 \<and> fd = -1 then Some (False, im, m, w)
         else do {
           (ok, im, w) \<leftarrow> (if bootmode im = 2 then read_image fs fd im w else Some (True, im, w));
           if \<not> ok then Some (False, im, m, w)
           else do {
             (succeeded, im, m, w) \<leftarrow> loadObjectTable fs fd im m w;
             (succeeded, im, m, w) \<leftarrow> (if succeeded then loadObjects fs fd im m w else Some (False, im, m, w));
             let w = (if bootmode im > 0 then snd (close_file fs fd w) else w);
             Some (succeeded, im, m, w)
           }
         })"

end
