(* ===== verification/VmState.thy ===== *)
theory VmState
  imports VmBitBlt OmSnapshot
begin

text \<open>
  The state of the bytecode interpreter (\<^verbatim>\<open>smalltalk/src/interpreter.h\<close>, \<^verbatim>\<open>interpreter.cpp\<close>), the devices
  it is given, and the access to integers, contexts and methods that all bytecodes share.  The registers are \<^verbatim>\<open>int\<close>
  members of the class; the only operations whose results leave 32 bits write that out.  \<^verbatim>\<open>None\<close> is, as in the
  object memory, a failed assertion or memory exhausted, and besides an undefined operation (a division by
  zero, an access outside an array).
\<close>

section \<open>Well-known object pointers and field indices\<close>

abbreviation (input) FalsePointer :: int where "FalsePointer \<equiv> 4"
abbreviation (input) TruePointer :: int where "TruePointer \<equiv> 6"
abbreviation (input) SchedulerAssociationPointer :: int where "SchedulerAssociationPointer \<equiv> 8"
abbreviation (input) SmalltalkPointer :: int where "SmalltalkPointer \<equiv> 25286"
abbreviation (input) ClassStringPointer :: int where "ClassStringPointer \<equiv> 14"
abbreviation (input) ClassArrayPointer :: int where "ClassArrayPointer \<equiv> 16"
abbreviation (input) ClassFloatPointer :: int where "ClassFloatPointer \<equiv> 20"
abbreviation (input) ClassMethodContextPointer :: int where "ClassMethodContextPointer \<equiv> 22"
abbreviation (input) ClassBlockContextPointer :: int where "ClassBlockContextPointer \<equiv> 24"
abbreviation (input) ClassPointPointer :: int where "ClassPointPointer \<equiv> 26"
abbreviation (input) ClassLargePositiveIntegerPointer :: int where "ClassLargePositiveIntegerPointer \<equiv> 28"
abbreviation (input) ClassMessagePointer :: int where "ClassMessagePointer \<equiv> 32"
abbreviation (input) ClassSemaphorePointer :: int where "ClassSemaphorePointer \<equiv> 38"
abbreviation (input) ClassCharacterPointer :: int where "ClassCharacterPointer \<equiv> 40"
abbreviation (input) DoesNotUnderstandSelector :: int where "DoesNotUnderstandSelector \<equiv> 42"
abbreviation (input) CannotReturnSelector :: int where "CannotReturnSelector \<equiv> 44"
abbreviation (input) SpecialSelectorsPointer :: int where "SpecialSelectorsPointer \<equiv> 48"
abbreviation (input) CharacterTablePointer :: int where "CharacterTablePointer \<equiv> 50"
abbreviation (input) MustBeBooleanSelector :: int where "MustBeBooleanSelector \<equiv> 52"

abbreviation (input) SenderIndex :: int where "SenderIndex \<equiv> 0"
abbreviation (input) InstructionPointerIndex :: int where "InstructionPointerIndex \<equiv> 1"
abbreviation (input) StackPointerIndex :: int where "StackPointerIndex \<equiv> 2"
abbreviation (input) MethodIndex :: int where "MethodIndex \<equiv> 3"
abbreviation (input) ReceiverIndex :: int where "ReceiverIndex \<equiv> 5"
abbreviation (input) TempFrameStart :: int where "TempFrameStart \<equiv> 6"
abbreviation (input) CallerIndex :: int where "CallerIndex \<equiv> 0"
abbreviation (input) BlockArgumentCountIndex :: int where "BlockArgumentCountIndex \<equiv> 3"
abbreviation (input) InitialIPIndex :: int where "InitialIPIndex \<equiv> 4"
abbreviation (input) HomeIndex :: int where "HomeIndex \<equiv> 5"
abbreviation (input) ValueIndex :: int where "ValueIndex \<equiv> 1"
abbreviation (input) SuperclassIndex :: int where "SuperclassIndex \<equiv> 0"
abbreviation (input) MessageDictionaryIndex :: int where "MessageDictionaryIndex \<equiv> 1"
abbreviation (input) InstanceSpecificationIndex :: int where "InstanceSpecificationIndex \<equiv> 2"
abbreviation (input) MethodArrayIndex :: int where "MethodArrayIndex \<equiv> 1"
abbreviation (input) SelectorStart :: int where "SelectorStart \<equiv> 2"
abbreviation (input) HeaderIndex :: int where "HeaderIndex \<equiv> 0"
abbreviation (input) LiteralStart :: int where "LiteralStart \<equiv> 1"
abbreviation (input) CharacterValueIndex :: int where "CharacterValueIndex \<equiv> 0"

section \<open>Devices\<close>

text \<open>The interfaces \<^verbatim>\<open>IHardwareAbstractionLayer\<close> (\<^verbatim>\<open>hal.h\<close>) and \<^verbatim>\<open>IFileSystem\<close> (\<^verbatim>\<open>filesystem.h\<close>) over
the state of the machine outside the interpreter.  \<^verbatim>\<open>signal_at\<close> may signal the semaphore at once.  The arithmetic of
single-precision floats is that of the processor, on bit patterns.\<close>

record 'w hal =
  set_input_semaphore :: "int \<Rightarrow> 'w \<Rightarrow> 'w"
  get_smalltalk_epoch_time :: "'w \<Rightarrow> 32 word \<times> 'w"
  get_msclock :: "'w \<Rightarrow> 32 word \<times> 'w"
  signal_at :: "int \<Rightarrow> 32 word \<Rightarrow> 'w \<Rightarrow> int option \<times> 'w"
  set_cursor_image :: "int list \<Rightarrow> 'w \<Rightarrow> 'w"
  set_cursor_location :: "int \<Rightarrow> int \<Rightarrow> 'w \<Rightarrow> 'w"
  get_cursor_location :: "'w \<Rightarrow> (int \<times> int) \<times> 'w"
  set_link_cursor :: "bool \<Rightarrow> 'w \<Rightarrow> 'w"
  set_display_size :: "int \<Rightarrow> int \<Rightarrow> 'w \<Rightarrow> bool \<times> 'w"
  display_changed :: "int \<Rightarrow> int \<Rightarrow> int \<Rightarrow> int \<Rightarrow> 'w \<Rightarrow> 'w option"
  next_input_word :: "'w \<Rightarrow> int option \<times> 'w"
  signal_quit :: "'w \<Rightarrow> 'w"
  exit_to_debugger :: "'w \<Rightarrow> 'w"
  get_image_name :: "'w \<Rightarrow> int list"
  set_image_name :: "int list \<Rightarrow> 'w \<Rightarrow> 'w"

record float_unit =
  of_integer :: "int \<Rightarrow> 32 word"
  to_integer :: "32 word \<Rightarrow> int option"
  float_add :: "32 word \<Rightarrow> 32 word \<Rightarrow> 32 word"
  float_sub :: "32 word \<Rightarrow> 32 word \<Rightarrow> 32 word"
  float_mul :: "32 word \<Rightarrow> 32 word \<Rightarrow> 32 word"
  float_div :: "32 word \<Rightarrow> 32 word \<Rightarrow> 32 word"
  float_less :: "32 word \<Rightarrow> 32 word \<Rightarrow> bool"
  float_le :: "32 word \<Rightarrow> 32 word \<Rightarrow> bool"
  float_eq :: "32 word \<Rightarrow> 32 word \<Rightarrow> bool"
  quiet_nan :: "32 word"

record 'w devices =
  hal :: "'w hal"
  fileSystem :: "'w filesystem"
  floats :: float_unit

section \<open>The registers\<close>

record 'w interp =
  memory :: omem
  activeContext :: int
  homeContext :: int
  methodPointer :: int
  receiver :: int
  instructionPointer :: int
  stackPointer :: int
  currentBytecode :: int
  successFlag :: bool
  messageSelector :: int
  argumentCount :: int
  newMethod :: int
  primitiveIndex :: int
  newProcessWaiting :: bool
  newProcess :: int
  semaphoreList :: "int \<Rightarrow> int"
  semaphoreIndex :: int
  methodCache :: "int \<Rightarrow> int"
  checkLowMemory :: bool
  memoryIsLow :: bool
  lowSpaceSemaphore :: int
  oopsLeftLimit :: int
  wordsLeftLimit :: int
  currentDisplay :: int
  currentDisplayWidth :: int
  currentDisplayHeight :: int
  currentCursor :: int
  world :: 'w

definition success :: "bool \<Rightarrow> 'w interp \<Rightarrow> 'w interp" where
  "success v s = s\<lparr>successFlag := successFlag s \<and> v\<rparr>"

definition primitiveFail :: "'w interp \<Rightarrow> 'w interp" where
  "primitiveFail s = s\<lparr>successFlag := False\<rparr>"

definition initPrimitive :: "'w interp \<Rightarrow> 'w interp" where
  "initPrimitive s = s\<lparr>successFlag := True\<rparr>"

text \<open>The operations of the object memory on the memory of the interpreter.\<close>

definition in_memory :: "(omem \<Rightarrow> omem option) \<Rightarrow> 'w interp \<Rightarrow> 'w interp option" where
  "in_memory f s = do { m \<leftarrow> f (memory s); Some (s\<lparr>memory := m\<rparr>) }"

abbreviation fetchPointer :: "int \<Rightarrow> int \<Rightarrow> 'w interp \<Rightarrow> int option" where
  "fetchPointer i p s \<equiv> fetchPointer_ofObject i p (memory s)"

abbreviation fetchWord :: "int \<Rightarrow> int \<Rightarrow> 'w interp \<Rightarrow> int option" where
  "fetchWord i p s \<equiv> fetchWord_ofObject i p (memory s)"

abbreviation fetchByte_in :: "int \<Rightarrow> int \<Rightarrow> 'w interp \<Rightarrow> int option" where
  "fetchByte_in i p s \<equiv> fetchByte_ofObject i p (memory s)"

abbreviation classOf :: "int \<Rightarrow> 'w interp \<Rightarrow> int option" where
  "classOf p s \<equiv> fetchClassOf p (memory s)"

abbreviation storePointer :: "int \<Rightarrow> int \<Rightarrow> int \<Rightarrow> 'w interp \<Rightarrow> 'w interp option" where
  "storePointer i p v s \<equiv> in_memory (storePointer_ofObject_withValue i p v) s"

abbreviation storeWord :: "int \<Rightarrow> int \<Rightarrow> int \<Rightarrow> 'w interp \<Rightarrow> 'w interp option" where
  "storeWord i p v s \<equiv> in_memory (storeWord_ofObject_withValue i p v) s"

abbreviation storeByte :: "int \<Rightarrow> int \<Rightarrow> int \<Rightarrow> 'w interp \<Rightarrow> 'w interp option" where
  "storeByte i p v s \<equiv> in_memory (storeByte_ofObject_withValue i p v) s"

section \<open>Access to integers\<close>

definition extractBits_to_of :: "nat \<Rightarrow> nat \<Rightarrow> int \<Rightarrow> int" where
  "extractBits_to_of firstBitIndex lastBitIndex x =
     (let msk = take_bit 16 (push_bit (lastBitIndex - firstBitIndex + 1) 1 - 1); shift = take_bit 16 (drop_bit (15 - lastBitIndex) x)
      in shift AND msk)"

definition lowByteOf :: "int \<Rightarrow> int" where
  "lowByteOf x = extractBits_to_of 8 15 x"

definition highByteOf :: "int \<Rightarrow> int" where
  "highByteOf x = extractBits_to_of 0 7 x"

definition storeInteger_ofObject_withValue :: "int \<Rightarrow> int \<Rightarrow> int \<Rightarrow> 'w interp \<Rightarrow> 'w interp option" where
  "storeInteger_ofObject_withValue i p v s =
     (if isIntegerValue v then storePointer i p (integerObjectOf v) s else Some (primitiveFail s))"

definition fetchInteger_ofObject :: "int \<Rightarrow> int \<Rightarrow> 'w interp \<Rightarrow> (int \<times> 'w interp) option" where
  "fetchInteger_ofObject i p s =
     do {
       x \<leftarrow> fetchPointer i p s;
       if isIntegerObject x then Some (integerValueOf x, s) else Some (0, primitiveFail s)
     }"

partial_function (option) transfer_loop :: "int \<Rightarrow> int \<Rightarrow> int \<Rightarrow> int \<Rightarrow> int \<Rightarrow> 'w interp \<Rightarrow> 'w interp option" where
  "transfer_loop fromIndex lastFrom fromOop toIndex toOop s =
     (if fromIndex < lastFrom then do {
        oop \<leftarrow> fetchPointer fromIndex fromOop s;
        s \<leftarrow> storePointer toIndex toOop oop s;
        s \<leftarrow> storePointer fromIndex fromOop NilPointer s;
        transfer_loop (fromIndex + 1) lastFrom fromOop (toIndex + 1) toOop s
      } else Some s)"

definition transfer_fromIndex_ofObject_toIndex_ofObject :: "int \<Rightarrow> int \<Rightarrow> int \<Rightarrow> int \<Rightarrow> int \<Rightarrow> 'w interp \<Rightarrow> 'w interp option" where
  "transfer_fromIndex_ofObject_toIndex_ofObject count firstFrom fromOop firstTo toOop s =
     transfer_loop firstFrom (firstFrom + count) fromOop firstTo toOop s"

section \<open>Contexts\<close>

definition storeInstructionPointerValue_inContext :: "int \<Rightarrow> int \<Rightarrow> 'w interp \<Rightarrow> 'w interp option" where
  "storeInstructionPointerValue_inContext v p s = storeInteger_ofObject_withValue InstructionPointerIndex p v s"

definition storeStackPointerValue_inContext :: "int \<Rightarrow> int \<Rightarrow> 'w interp \<Rightarrow> 'w interp option" where
  "storeStackPointerValue_inContext v p s = storeInteger_ofObject_withValue StackPointerIndex p v s"

definition instructionPointerOfContext :: "int \<Rightarrow> 'w interp \<Rightarrow> (int \<times> 'w interp) option" where
  "instructionPointerOfContext p s = fetchInteger_ofObject InstructionPointerIndex p s"

definition stackPointerOfContext :: "int \<Rightarrow> 'w interp \<Rightarrow> (int \<times> 'w interp) option" where
  "stackPointerOfContext p s = fetchInteger_ofObject StackPointerIndex p s"

definition argumentCountOfBlock :: "int \<Rightarrow> 'w interp \<Rightarrow> (int \<times> 'w interp) option" where
  "argumentCountOfBlock p s = fetchInteger_ofObject BlockArgumentCountIndex p s"

definition storeContextRegisters :: "'w interp \<Rightarrow> 'w interp option" where
  "storeContextRegisters s =
     do {
       s \<leftarrow> storeInstructionPointerValue_inContext (instructionPointer s + 1) (activeContext s) s;
       storeStackPointerValue_inContext (stackPointer s - TempFrameStart + 1) (activeContext s) s
     }"

definition isBlockContext :: "int \<Rightarrow> 'w interp \<Rightarrow> bool option" where
  "isBlockContext p s = do { x \<leftarrow> fetchPointer MethodIndex p s; Some (isIntegerObject x) }"

definition fetchContextRegisters :: "'w interp \<Rightarrow> 'w interp option" where
  "fetchContextRegisters s =
     do {
       b \<leftarrow> isBlockContext (activeContext s) s;
       h \<leftarrow> (if b then fetchPointer HomeIndex (activeContext s) s else Some (activeContext s));
       let s = s\<lparr>homeContext := h\<rparr>;
       r \<leftarrow> fetchPointer ReceiverIndex (homeContext s) s;
       let s = s\<lparr>receiver := r\<rparr>;
       x \<leftarrow> fetchPointer MethodIndex (homeContext s) s;
       let s = s\<lparr>methodPointer := x\<rparr>;
       (ip, s) \<leftarrow> instructionPointerOfContext (activeContext s) s;
       let s = s\<lparr>instructionPointer := ip - 1\<rparr>;
       (sp, s) \<leftarrow> stackPointerOfContext (activeContext s) s;
       Some (s\<lparr>stackPointer := sp + TempFrameStart - 1\<rparr>)
     }"

definition newActiveContext :: "int \<Rightarrow> 'w interp \<Rightarrow> 'w interp option" where
  "newActiveContext p s =
     do {
       s \<leftarrow> storeContextRegisters s;
       s \<leftarrow> in_memory (decreaseReferencesTo (activeContext s)) s;
       let s = s\<lparr>activeContext := p\<rparr>;
       s \<leftarrow> in_memory (increaseReferencesTo (activeContext s)) s;
       fetchContextRegisters s
     }"

text \<open>The stack of the active context.\<close>

definition unPop :: "int \<Rightarrow> 'w interp \<Rightarrow> 'w interp" where
  "unPop n s = s\<lparr>stackPointer := stackPointer s + n\<rparr>"

definition pop :: "int \<Rightarrow> 'w interp \<Rightarrow> 'w interp" where
  "pop n s = s\<lparr>stackPointer := stackPointer s - n\<rparr>"

definition push :: "int \<Rightarrow> 'w interp \<Rightarrow> 'w interp option" where
  "push p s =
     (let s = s\<lparr>stackPointer := stackPointer s + 1\<rparr> in storePointer (stackPointer s) (activeContext s) p s)"

definition stackValue :: "int \<Rightarrow> 'w interp \<Rightarrow> int option" where
  "stackValue offset s = fetchPointer (stackPointer s - offset) (activeContext s) s"

definition stackTop :: "'w interp \<Rightarrow> int option" where
  "stackTop s = fetchPointer (stackPointer s) (activeContext s) s"

definition popStack :: "'w interp \<Rightarrow> (int \<times> 'w interp) option" where
  "popStack s =
     do { x \<leftarrow> fetchPointer (stackPointer s) (activeContext s) s; Some (x, s\<lparr>stackPointer := stackPointer s - 1\<rparr>) }"

definition sender :: "'w interp \<Rightarrow> int option" where
  "sender s = fetchPointer SenderIndex (homeContext s) s"

definition caller :: "'w interp \<Rightarrow> int option" where
  "caller s = fetchPointer SenderIndex (activeContext s) s"

definition temporary :: "int \<Rightarrow> 'w interp \<Rightarrow> int option" where
  "temporary offset s = fetchPointer (offset + TempFrameStart) (homeContext s) s"

definition pushInteger :: "int \<Rightarrow> 'w interp \<Rightarrow> 'w interp option" where
  "pushInteger v s = push (integerObjectOf v) s"

text \<open>The value of an integer that was popped; if there was none, the smallest \<^verbatim>\<open>int\<close>.\<close>

definition popInteger :: "'w interp \<Rightarrow> (int \<times> 'w interp) option" where
  "popInteger s =
     do {
       (x, s) \<leftarrow> popStack s;
       let s = success (isIntegerObject x) s;
       if successFlag s then Some (integerValueOf x, s) else Some (-2147483648, s)
     }"

section \<open>Methods\<close>

definition literal_ofMethod :: "int \<Rightarrow> int \<Rightarrow> 'w interp \<Rightarrow> int option" where
  "literal_ofMethod offset p s = fetchPointer (offset + LiteralStart) p s"

definition literal :: "int \<Rightarrow> 'w interp \<Rightarrow> int option" where
  "literal offset s = literal_ofMethod offset (methodPointer s) s"

definition headerOf :: "int \<Rightarrow> 'w interp \<Rightarrow> int option" where
  "headerOf p s = fetchPointer HeaderIndex p s"

definition literalCountOfHeader :: "int \<Rightarrow> int" where
  "literalCountOfHeader h = extractBits_to_of 9 14 h"

definition literalCountOf :: "int \<Rightarrow> 'w interp \<Rightarrow> int option" where
  "literalCountOf p s = do { h \<leftarrow> headerOf p s; Some (literalCountOfHeader h) }"

definition fieldIndexOf :: "int \<Rightarrow> 'w interp \<Rightarrow> int option" where
  "fieldIndexOf p s = do { h \<leftarrow> headerOf p s; Some (extractBits_to_of 3 7 h) }"

definition temporaryCountOf :: "int \<Rightarrow> 'w interp \<Rightarrow> int option" where
  "temporaryCountOf p s = do { h \<leftarrow> headerOf p s; Some (extractBits_to_of 3 7 h) }"

definition largeContextFlagOf :: "int \<Rightarrow> 'w interp \<Rightarrow> int option" where
  "largeContextFlagOf p s = do { h \<leftarrow> headerOf p s; Some (extractBits_to_of 8 8 h) }"

definition flagValueOf :: "int \<Rightarrow> 'w interp \<Rightarrow> int option" where
  "flagValueOf p s = do { h \<leftarrow> headerOf p s; Some (extractBits_to_of 0 2 h) }"

definition objectPointerCountOf :: "int \<Rightarrow> 'w interp \<Rightarrow> int option" where
  "objectPointerCountOf p s = do { n \<leftarrow> literalCountOf p s; Some (n + LiteralStart) }"

definition initialInstructionPointerOfMethod :: "int \<Rightarrow> 'w interp \<Rightarrow> int option" where
  "initialInstructionPointerOfMethod p s = do { n \<leftarrow> literalCountOf p s; Some ((n + LiteralStart) * 2 + 1) }"

definition headerExtensionOf :: "int \<Rightarrow> 'w interp \<Rightarrow> int option" where
  "headerExtensionOf p s = do { literalCount \<leftarrow> literalCountOf p s; literal_ofMethod (literalCount - 2) p s }"

definition primitiveIndexOf :: "int \<Rightarrow> 'w interp \<Rightarrow> int option" where
  "primitiveIndexOf p s =
     do {
       flagValue \<leftarrow> flagValueOf p s;
       if flagValue = 7 then do { x \<leftarrow> headerExtensionOf p s; Some (extractBits_to_of 7 14 x) } else Some 0
     }"

definition argumentCountOf :: "int \<Rightarrow> 'w interp \<Rightarrow> int option" where
  "argumentCountOf p s =
     do {
       flagValue \<leftarrow> flagValueOf p s;
       if flagValue < 5 then Some flagValue
       else if flagValue < 7 then Some 0
       else do { x \<leftarrow> headerExtensionOf p s; Some (extractBits_to_of 2 6 x) }
     }"

definition methodClassOf :: "int \<Rightarrow> 'w interp \<Rightarrow> int option" where
  "methodClassOf p s =
     do {
       literalCount \<leftarrow> literalCountOf p s;
       association \<leftarrow> literal_ofMethod (literalCount - 1) p s;
       fetchPointer ValueIndex association s
     }"

section \<open>Classes\<close>

definition instanceSpecificationOf :: "int \<Rightarrow> 'w interp \<Rightarrow> int option" where
  "instanceSpecificationOf c s = fetchPointer InstanceSpecificationIndex c s"

definition superclassOf :: "int \<Rightarrow> 'w interp \<Rightarrow> int option" where
  "superclassOf c s = fetchPointer SuperclassIndex c s"

definition isPointers :: "int \<Rightarrow> 'w interp \<Rightarrow> bool option" where
  "isPointers c s = do { x \<leftarrow> instanceSpecificationOf c s; Some (extractBits_to_of 0 0 x = 1) }"

definition isWords :: "int \<Rightarrow> 'w interp \<Rightarrow> bool option" where
  "isWords c s = do { x \<leftarrow> instanceSpecificationOf c s; Some (extractBits_to_of 1 1 x = 1) }"

definition isIndexable :: "int \<Rightarrow> 'w interp \<Rightarrow> bool option" where
  "isIndexable c s = do { x \<leftarrow> instanceSpecificationOf c s; Some (extractBits_to_of 2 2 x = 1) }"

definition fixedFieldsOf :: "int \<Rightarrow> 'w interp \<Rightarrow> int option" where
  "fixedFieldsOf c s = do { x \<leftarrow> instanceSpecificationOf c s; Some (extractBits_to_of 4 14 x) }"

section \<open>The collector and its client\<close>

text \<open>The interpreter is the client of the collector: it saves its registers, adds its roots, and reads the registers
again afterwards.\<close>

definition in_client :: "('w interp \<Rightarrow> 'w interp option) \<Rightarrow> omem \<times> 'w interp \<Rightarrow> (omem \<times> 'w interp) option" where
  "in_client f mc = (case mc of (m, s) \<Rightarrow> do { s \<leftarrow> f (s\<lparr>memory := m\<rparr>); Some (memory s, s) })"

definition interp_prepareForCollection :: "'w interp \<Rightarrow> 'w interp option" where
  "interp_prepareForCollection s =
     do {
       s \<leftarrow> storeContextRegisters s;
       s \<leftarrow> in_memory (addRoot SmalltalkPointer) s;
       s \<leftarrow> in_memory (addRoot (activeContext s)) s;
       if newProcess s \<noteq> NilPointer then in_memory (addRoot (newProcess s)) s else Some s
     }"

definition interp_collectionCompleted :: "'w interp \<Rightarrow> 'w interp option" where
  "interp_collectionCompleted s =
     do {
       s \<leftarrow> in_memory (increaseReferencesTo (activeContext s)) s;
       s \<leftarrow> fetchContextRegisters s;
       if newProcessWaiting s then in_memory (increaseReferencesTo (newProcess s)) s else Some s
     }"

definition interp_client :: "('w interp) gc_client" where
  "interp_client = \<lparr>prepareForCollection = in_client interp_prepareForCollection,
                    collectionCompleted = in_client interp_collectionCompleted\<rparr>"

text \<open>A collection and the allocation of objects from the interpreter.\<close>

definition collect :: "'w interp \<Rightarrow> 'w interp option" where
  "collect s = do { (m, s) \<leftarrow> garbageCollect (Some interp_client) (memory s, s); Some (s\<lparr>memory := m\<rparr>) }"

definition newPointers :: "int \<Rightarrow> int \<Rightarrow> 'w interp \<Rightarrow> (int \<times> 'w interp) option" where
  "newPointers c n s = do { (p, m, s) \<leftarrow> instantiateClass_withPointers (Some interp_client) c n (memory s, s); Some (p, s\<lparr>memory := m\<rparr>) }"

definition newWords :: "int \<Rightarrow> int \<Rightarrow> 'w interp \<Rightarrow> (int \<times> 'w interp) option" where
  "newWords c n s = do { (p, m, s) \<leftarrow> instantiateClass_withWords (Some interp_client) c n (memory s, s); Some (p, s\<lparr>memory := m\<rparr>) }"

definition newBytes :: "int \<Rightarrow> int \<Rightarrow> 'w interp \<Rightarrow> (int \<times> 'w interp) option" where
  "newBytes c n s = do { (p, m, s) \<leftarrow> instantiateClass_withBytes (Some interp_client) c n (memory s, s); Some (p, s\<lparr>memory := m\<rparr>) }"

section \<open>Positive integers of 16 and 32 bits\<close>

definition positive16BitValueOf :: "int \<Rightarrow> 'w interp \<Rightarrow> (int \<times> 'w interp) option" where
  "positive16BitValueOf p s =
     (if isIntegerObject p then Some (integerValueOf p, s)
      else do {
        c \<leftarrow> classOf p s;
        if c \<noteq> ClassLargePositiveIntegerPointer then Some (0, primitiveFail s)
        else do {
          n \<leftarrow> fetchByteLengthOf p (memory s);
          if n \<noteq> 2 then Some (0, primitiveFail s)
          else do {
            hi \<leftarrow> fetchByte_in 1 p s;
            lo \<leftarrow> fetchByte_in 0 p s;
            Some (hi * 256 + lo, s)
          }
        }
      })"

definition positive32BitValueOf :: "int \<Rightarrow> 'w interp \<Rightarrow> (int \<times> 'w interp) option" where
  "positive32BitValueOf p s =
     (if isIntegerObject p then Some (take_bit 32 (integerValueOf p), s)
      else do {
        c \<leftarrow> classOf p s;
        if c \<noteq> ClassLargePositiveIntegerPointer then Some (0, primitiveFail s)
        else do {
          n \<leftarrow> fetchByteLengthOf p (memory s);
          b0 \<leftarrow> fetchByte_in 0 p s;
          b1 \<leftarrow> (if n > 1 then fetchByte_in 1 p s else Some 0);
          b2 \<leftarrow> (if n > 2 then fetchByte_in 2 p s else Some 0);
          b3 \<leftarrow> (if n > 3 then fetchByte_in 3 p s else Some 0);
          Some (((b0 OR push_bit 8 b1) OR push_bit 16 b2) OR push_bit 24 b3, s)
        }
      })"

definition positive16BitIntegerFor :: "int \<Rightarrow> 'w interp \<Rightarrow> (int \<times> 'w interp) option" where
  "positive16BitIntegerFor v s =
     (if v < 0 then Some (0, primitiveFail s)
      else if isIntegerValue v then Some (integerObjectOf v, s)
      else do {
        (p, s) \<leftarrow> newBytes ClassLargePositiveIntegerPointer 2 s;
        s \<leftarrow> storeByte 0 p (lowByteOf v) s;
        s \<leftarrow> storeByte 1 p (highByteOf v) s;
        Some (p, s)
      })"

definition positive32BitIntegerFor :: "int \<Rightarrow> 'w interp \<Rightarrow> (int \<times> 'w interp) option" where
  "positive32BitIntegerFor v s =
     (if isIntegerValue v then Some (integerObjectOf v, s)
      else do {
        (p, s) \<leftarrow> newBytes ClassLargePositiveIntegerPointer 4 s;
        s \<leftarrow> storeByte 0 p (lowByteOf v) s;
        s \<leftarrow> storeByte 1 p (highByteOf v) s;
        s \<leftarrow> storeByte 2 p (drop_bit 16 v AND 0xFF) s;
        s \<leftarrow> storeByte 3 p (drop_bit 24 v AND 0xFF) s;
        Some (p, s)
      })"

end
