(* ===== verification/VmProcess.thy ===== *)
theory VmProcess
  imports VmState
begin

text \<open>
  Processes (\<^verbatim>\<open>smalltalk/src/interpreter.cpp\<close>): linked lists of processes, the lists of the scheduler by
  priority, semaphores, signals from outside, and the switch to another process between two bytecodes.
\<close>

section \<open>Lists of processes\<close>

abbreviation (input) FirstLinkIndex :: int where "FirstLinkIndex \<equiv> 0"
abbreviation (input) LastLinkIndex :: int where "LastLinkIndex \<equiv> 1"
abbreviation (input) ExcessSignalsIndex :: int where "ExcessSignalsIndex \<equiv> 2"
abbreviation (input) NextLinkIndex :: int where "NextLinkIndex \<equiv> 0"
abbreviation (input) SuspendedContextIndex :: int where "SuspendedContextIndex \<equiv> 1"
abbreviation (input) PriorityIndex :: int where "PriorityIndex \<equiv> 2"
abbreviation (input) MyListIndex :: int where "MyListIndex \<equiv> 3"
abbreviation (input) ProcessListsIndex :: int where "ProcessListsIndex \<equiv> 0"
abbreviation (input) ActiveProcessIndex :: int where "ActiveProcessIndex \<equiv> 1"

definition isEmptyList :: "int \<Rightarrow> 'w interp \<Rightarrow> bool option" where
  "isEmptyList l s = do { x \<leftarrow> fetchPointer FirstLinkIndex l s; Some (x = NilPointer) }"

definition removeFirstLinkOfList :: "int \<Rightarrow> 'w interp \<Rightarrow> (int \<times> 'w interp) option" where
  "removeFirstLinkOfList l s =
     do {
       firstLink \<leftarrow> fetchPointer FirstLinkIndex l s;
       s \<leftarrow> in_memory (increaseReferencesTo firstLink) s;
       lastLink \<leftarrow> fetchPointer LastLinkIndex l s;
       s \<leftarrow> (if lastLink = firstLink then do {
               s \<leftarrow> storePointer FirstLinkIndex l NilPointer s;
               storePointer LastLinkIndex l NilPointer s
             } else do {
               nextLink \<leftarrow> fetchPointer NextLinkIndex firstLink s;
               storePointer FirstLinkIndex l nextLink s
             });
       s \<leftarrow> storePointer NextLinkIndex firstLink NilPointer s;
       Some (firstLink, s)
     }"

definition addLastLink_toList :: "int \<Rightarrow> int \<Rightarrow> 'w interp \<Rightarrow> 'w interp option" where
  "addLastLink_toList aLink l s =
     do {
       b \<leftarrow> isEmptyList l s;
       s \<leftarrow> (if b then storePointer FirstLinkIndex l aLink s
            else do { lastLink \<leftarrow> fetchPointer LastLinkIndex l s; storePointer NextLinkIndex lastLink aLink s });
       s \<leftarrow> storePointer LastLinkIndex l aLink s;
       storePointer MyListIndex aLink l s
     }"

section \<open>The scheduler\<close>

definition schedulerPointer :: "'w interp \<Rightarrow> int option" where
  "schedulerPointer s = fetchPointer ValueIndex SchedulerAssociationPointer s"

definition activeProcess :: "'w interp \<Rightarrow> int option" where
  "activeProcess s =
     (if newProcessWaiting s then Some (newProcess s)
      else do { sp \<leftarrow> schedulerPointer s; fetchPointer ActiveProcessIndex sp s })"

definition firstContext :: "'w interp \<Rightarrow> (int \<times> 'w interp) option" where
  "firstContext s =
     do {
       let s = s\<lparr>newProcessWaiting := False\<rparr>;
       let s = s\<lparr>newProcess := NilPointer\<rparr>;
       p \<leftarrow> activeProcess s;
       c \<leftarrow> fetchPointer SuspendedContextIndex p s;
       Some (c, s)
     }"

partial_function (option) wake_loop :: "int \<Rightarrow> int \<Rightarrow> 'w interp \<Rightarrow> int option" where
  "wake_loop priority processLists s =
     (if priority > 0 then do {
        processList \<leftarrow> fetchPointer (priority - 1) processLists s;
        b \<leftarrow> isEmptyList processList s;
        if b then wake_loop (priority - 1) processLists s else Some processList
      } else None)"

definition wakeHighestPriority :: "'w interp \<Rightarrow> (int \<times> 'w interp) option" where
  "wakeHighestPriority s =
     do {
       sp \<leftarrow> schedulerPointer s;
       processLists \<leftarrow> fetchPointer ProcessListsIndex sp s;
       priority \<leftarrow> fetchWordLengthOf processLists (memory s);
       processList \<leftarrow> wake_loop priority processLists s;
       removeFirstLinkOfList processList s
     }"

definition sleep :: "int \<Rightarrow> 'w interp \<Rightarrow> 'w interp option" where
  "sleep p s =
     do {
       (priority, s) \<leftarrow> fetchInteger_ofObject PriorityIndex p s;
       sp \<leftarrow> schedulerPointer s;
       processLists \<leftarrow> fetchPointer ProcessListsIndex sp s;
       processList \<leftarrow> fetchPointer (priority - 1) processLists s;
       addLastLink_toList p processList s
     }"

definition transferTo :: "int \<Rightarrow> 'w interp \<Rightarrow> 'w interp option" where
  "transferTo p s =
     do {
       let s = s\<lparr>newProcessWaiting := True\<rparr>;
       s \<leftarrow> (if newProcess s \<noteq> NilPointer then in_memory (decreaseReferencesTo (newProcess s)) s else Some s);
       let s = s\<lparr>newProcess := p\<rparr>;
       in_memory (increaseReferencesTo (newProcess s)) s
     }"

definition resume :: "int \<Rightarrow> 'w interp \<Rightarrow> 'w interp option" where
  "resume p s =
     do {
       theActiveProcess \<leftarrow> activeProcess s;
       (activePriority, s) \<leftarrow> fetchInteger_ofObject PriorityIndex theActiveProcess s;
       (newPriority, s) \<leftarrow> fetchInteger_ofObject PriorityIndex p s;
       if newPriority > activePriority then do { s \<leftarrow> sleep theActiveProcess s; transferTo p s } else sleep p s
     }"

definition suspendActive :: "'w interp \<Rightarrow> 'w interp option" where
  "suspendActive s =
     do { (p, s) \<leftarrow> wakeHighestPriority s; s \<leftarrow> transferTo p s; in_memory (decreaseReferencesTo p) s }"

section \<open>Semaphores\<close>

definition synchronousSignal :: "int \<Rightarrow> 'w interp \<Rightarrow> 'w interp option" where
  "synchronousSignal sem s =
     do {
       b \<leftarrow> isEmptyList sem s;
       if b then do {
         (excessSignals, s) \<leftarrow> fetchInteger_ofObject ExcessSignalsIndex sem s;
         storeInteger_ofObject_withValue ExcessSignalsIndex sem (excessSignals + 1) s
       } else do {
         (p, s) \<leftarrow> removeFirstLinkOfList sem s;
         s \<leftarrow> resume p s;
         in_memory (decreaseReferencesTo p) s
       }
     }"

text \<open>A signal from outside is kept until the next switch.  The list has 4096 places; the code reports that it is full
and writes behind it.\<close>

definition asynchronousSignal :: "int \<Rightarrow> 'w interp \<Rightarrow> 'w interp option" where
  "asynchronousSignal sem s =
     (let s = s\<lparr>semaphoreIndex := semaphoreIndex s + 1\<rparr>
      in if semaphoreIndex s < 4096 then Some (s\<lparr>semaphoreList := (semaphoreList s)(semaphoreIndex s := sem)\<rparr>) else None)"

definition primitiveSignal :: "'w interp \<Rightarrow> 'w interp option" where
  "primitiveSignal s = do { x \<leftarrow> stackTop s; synchronousSignal x s }"

definition primitiveWait :: "'w interp \<Rightarrow> 'w interp option" where
  "primitiveWait s =
     do {
       thisReceiver \<leftarrow> stackTop s;
       (excessSignals, s) \<leftarrow> fetchInteger_ofObject ExcessSignalsIndex thisReceiver s;
       if excessSignals > 0 then storeInteger_ofObject_withValue ExcessSignalsIndex thisReceiver (excessSignals - 1) s
       else do {
         p \<leftarrow> activeProcess s;
         s \<leftarrow> addLastLink_toList p thisReceiver s;
         suspendActive s
       }
     }"

definition primitiveResume :: "'w interp \<Rightarrow> 'w interp option" where
  "primitiveResume s = do { x \<leftarrow> stackTop s; resume x s }"

definition primitiveSuspend :: "'w interp \<Rightarrow> 'w interp option" where
  "primitiveSuspend s =
     do {
       x \<leftarrow> stackTop s;
       p \<leftarrow> activeProcess s;
       let s = success (x = p) s;
       if successFlag s then do { (_, s) \<leftarrow> popStack s; s \<leftarrow> push NilPointer s; suspendActive s } else Some s
     }"

section \<open>Switching\<close>

definition isInLowMemoryCondition :: "'w interp \<Rightarrow> bool" where
  "isInLowMemoryCondition s \<longleftrightarrow> oopsLeftLimit s > 0 \<and> wordsLeftLimit s > 0 \<and>
     (freeOops (memory s) < oopsLeftLimit s \<or> freeWords (memory s) < wordsLeftLimit s)"

definition checkLowMemoryConditions :: "'w interp \<Rightarrow> 'w interp" where
  "checkLowMemoryConditions s = s\<lparr>checkLowMemory := True\<rparr>"

definition check_low_memory :: "'w interp \<Rightarrow> 'w interp option" where
  "check_low_memory s =
     (if checkLowMemory s then do {
        let memoryWasLow = memoryIsLow s;
        let s = s\<lparr>memoryIsLow := False\<rparr>;
        s \<leftarrow> (if lowSpaceSemaphore s \<noteq> NilPointer \<and> oopsLeftLimit s > 0 \<and> wordsLeftLimit s > 0 then
               if isInLowMemoryCondition s then do {
                 s \<leftarrow> collect s;
                 if isInLowMemoryCondition s then do {
                   let s = s\<lparr>memoryIsLow := True\<rparr>;
                   if \<not> memoryWasLow then asynchronousSignal (lowSpaceSemaphore s) s else Some s
                 } else Some s
               } else Some s
             else Some s);
        Some (s\<lparr>checkLowMemory := False\<rparr>)
      } else Some s)"

partial_function (option) signal_loop :: "'w interp \<Rightarrow> 'w interp option" where
  "signal_loop s =
     (if semaphoreIndex s \<ge> 0 then do {
        s \<leftarrow> synchronousSignal (semaphoreList s (semaphoreIndex s)) s;
        signal_loop (s\<lparr>semaphoreIndex := semaphoreIndex s - 1\<rparr>)
      } else Some s)"

definition switch_process :: "'w interp \<Rightarrow> 'w interp option" where
  "switch_process s =
     (if newProcessWaiting s then do {
        let s = s\<lparr>newProcessWaiting := False\<rparr>;
        theActiveProcess \<leftarrow> activeProcess s;
        s \<leftarrow> storePointer SuspendedContextIndex theActiveProcess (activeContext s) s;
        sp \<leftarrow> schedulerPointer s;
        s \<leftarrow> storePointer ActiveProcessIndex sp (newProcess s) s;
        c \<leftarrow> fetchPointer SuspendedContextIndex (newProcess s) s;
        s \<leftarrow> newActiveContext c s;
        s \<leftarrow> in_memory (decreaseReferencesTo (newProcess s)) s;
        Some (s\<lparr>newProcess := NilPointer\<rparr>)
      } else Some s)"

definition checkProcessSwitch :: "'w interp \<Rightarrow> 'w interp option" where
  "checkProcessSwitch s = do { s \<leftarrow> check_low_memory s; s \<leftarrow> signal_loop s; switch_process s }"

end
