(* ===== verification/VmPrim.thy ===== *)
theory VmPrim
  imports VmState
begin

text \<open>
  The primitives that compute on objects (\<^verbatim>\<open>smalltalk/src/interpreter.cpp\<close>): small integers, floats, indexed
  access and streams, and storage management.  A primitive pops its arguments, and when it fails the registers and
  the stack pointer are meant to be as before.
\<close>

section \<open>Integer arithmetic\<close>

text \<open>Division in C truncates; by zero, and when the quotient does not fit, it is undefined.\<close>

definition c_div :: "int \<Rightarrow> int \<Rightarrow> int option" where
  "c_div a b = (if b = 0 \<or> a = -2147483648 \<and> b = -1 then None else Some (a sdiv b))"

definition c_mod :: "int \<Rightarrow> int \<Rightarrow> int option" where
  "c_mod a b = (if b = 0 \<or> a = -2147483648 \<and> b = -1 then None else Some (a smod b))"

definition pop_integers :: "'w interp \<Rightarrow> (int \<times> int \<times> 'w interp) option" where
  "pop_integers s =
     do { (integerArgument, s) \<leftarrow> popInteger s; (integerReceiver, s) \<leftarrow> popInteger s; Some (integerReceiver, integerArgument, s) }"

definition push_boolean :: "bool \<Rightarrow> 'w interp \<Rightarrow> 'w interp option" where
  "push_boolean b s = (if b then push TruePointer s else push FalsePointer s)"

text \<open>The comparisons have one body, and so have the operations whose result is checked and those whose result
always is a small integer.\<close>

definition compare_integers :: "(int \<Rightarrow> int \<Rightarrow> bool) \<Rightarrow> 'w interp \<Rightarrow> 'w interp option" where
  "compare_integers rel s =
     do { (r, a, s) \<leftarrow> pop_integers s; if successFlag s then push_boolean (rel r a) s else Some (unPop 2 s) }"

definition checked_integer :: "(int \<Rightarrow> int \<Rightarrow> int) \<Rightarrow> 'w interp \<Rightarrow> 'w interp option" where
  "checked_integer f s =
     do {
       (r, a, s) \<leftarrow> pop_integers s;
       let s = (if successFlag s then success (isIntegerValue (f r a)) s else s);
       if successFlag s then pushInteger (f r a) s else Some (unPop 2 s)
     }"

definition bitwise_integer :: "(int \<Rightarrow> int \<Rightarrow> int) \<Rightarrow> 'w interp \<Rightarrow> 'w interp option" where
  "bitwise_integer f s =
     do { (r, a, s) \<leftarrow> pop_integers s; if successFlag s then pushInteger (f r a) s else Some (unPop 2 s) }"

definition primitiveLessThan :: "'w interp \<Rightarrow> 'w interp option" where
  "primitiveLessThan s = compare_integers (\<lambda>r a. r < a) s"

definition primitiveGreaterThan :: "'w interp \<Rightarrow> 'w interp option" where
  "primitiveGreaterThan s = compare_integers (\<lambda>r a. r > a) s"

definition primitiveLessOrEqual :: "'w interp \<Rightarrow> 'w interp option" where
  "primitiveLessOrEqual s = compare_integers (\<lambda>r a. r \<le> a) s"

definition primitiveGreaterOrEqual :: "'w interp \<Rightarrow> 'w interp option" where
  "primitiveGreaterOrEqual s = compare_integers (\<lambda>r a. r \<ge> a) s"

definition primitiveEqual :: "'w interp \<Rightarrow> 'w interp option" where
  "primitiveEqual s = compare_integers (\<lambda>r a. r = a) s"

definition primitiveNotEqual :: "'w interp \<Rightarrow> 'w interp option" where
  "primitiveNotEqual s = compare_integers (\<lambda>r a. r \<noteq> a) s"

definition primitiveAdd :: "'w interp \<Rightarrow> 'w interp option" where
  "primitiveAdd s = checked_integer (\<lambda>r a. r + a) s"

definition primitiveSubtract :: "'w interp \<Rightarrow> 'w interp option" where
  "primitiveSubtract s = checked_integer (\<lambda>r a. r - a) s"

definition primitiveMultiply :: "'w interp \<Rightarrow> 'w interp option" where
  "primitiveMultiply s = checked_integer (\<lambda>r a. r * a) s"

definition primitiveBitAnd :: "'w interp \<Rightarrow> 'w interp option" where
  "primitiveBitAnd s = bitwise_integer (\<lambda>r a. r AND a) s"

definition primitiveBitOr :: "'w interp \<Rightarrow> 'w interp option" where
  "primitiveBitOr s = bitwise_integer (\<lambda>r a. r OR a) s"

definition primitiveBitXor :: "'w interp \<Rightarrow> 'w interp option" where
  "primitiveBitXor s = bitwise_integer (\<lambda>r a. r XOR a) s"

definition primitiveDivide :: "'w interp \<Rightarrow> 'w interp option" where
  "primitiveDivide s =
     do {
       (r, a, s) \<leftarrow> pop_integers s;
       let s = success (a \<noteq> 0) s;
       k \<leftarrow> c_mod r a;
       let s = success (k = 0) s;
       (v, s) \<leftarrow> (if successFlag s then do { q \<leftarrow> c_div r a; Some (q, success (isIntegerValue q) s) } else Some (0, s));
       if successFlag s then push (integerObjectOf v) s else Some (unPop 2 s)
     }"

definition primitiveMod :: "'w interp \<Rightarrow> 'w interp option" where
  "primitiveMod s =
     do {
       (r, a, s) \<leftarrow> pop_integers s;
       let s = success (a \<noteq> 0) s;
       (v, s) \<leftarrow> (if successFlag s then do {
                    k \<leftarrow> c_mod r a;
                    let k = (if a < 0 then if k > 0 then k + a else k else if k < 0 then k + a else k);
                    Some (k, success (isIntegerValue k) s)
                  } else Some (0, s));
       if successFlag s then pushInteger v s else Some (unPop 2 s)
     }"

definition primitiveDiv :: "'w interp \<Rightarrow> 'w interp option" where
  "primitiveDiv s =
     do {
       (r, a, s) \<leftarrow> pop_integers s;
       let s = success (a \<noteq> 0) s;
       (v, s) \<leftarrow> (if successFlag s then do {
                    q \<leftarrow> c_div r a;
                    k \<leftarrow> c_mod r a;
                    let q = (if k \<noteq> 0 \<and> q < 0 then q - 1 else q);
                    Some (q, success (isIntegerValue q) s)
                  } else Some (0, s));
       if successFlag s then push (integerObjectOf v) s else Some (unPop 2 s)
     }"

definition primitiveQuo :: "'w interp \<Rightarrow> 'w interp option" where
  "primitiveQuo s =
     do {
       (r, a, s) \<leftarrow> pop_integers s;
       let s = success (a \<noteq> 0) s;
       (v, s) \<leftarrow> (if successFlag s then do { q \<leftarrow> c_div r a; Some (q, success (isIntegerValue q) s) } else Some (0, s));
       if successFlag s then push (integerObjectOf v) s else Some (unPop 2 s)
     }"

text \<open>A shift to the left is one of 32 bits.\<close>

definition shift_integer :: "int \<Rightarrow> int \<Rightarrow> int" where
  "shift_integer r a =
     (if a > 0 then if a < 32 then signed_take_bit 31 (push_bit (nat a) r) else 0
      else if a < 0 then if a > -31 then drop_bit (nat (- a)) r else drop_bit 31 r
      else r)"

definition primitiveBitShift :: "'w interp \<Rightarrow> 'w interp option" where
  "primitiveBitShift s =
     do {
       (r, a, s) \<leftarrow> pop_integers s;
       let v = shift_integer r a;
       let s = (if successFlag s then success (isIntegerValue v \<and> (a < 16 \<or> r = 0)) s else s);
       if successFlag s then pushInteger v s else Some (unPop 2 s)
     }"

definition primitiveMakePoint :: "'w interp \<Rightarrow> 'w interp option" where
  "primitiveMakePoint s =
     do {
       (r, a, s) \<leftarrow> pop_integers s;
       let s = success (isIntegerValue r) s;
       let s = success (isIntegerValue a) s;
       if successFlag s then do {
         (p, s) \<leftarrow> newPointers ClassPointPointer 2 s;
         s \<leftarrow> storeInteger_ofObject_withValue 0 p r s;
         s \<leftarrow> storeInteger_ofObject_withValue 1 p a s;
         push p s
       } else Some (unPop 2 s)
     }"

definition dispatchIntegerPrimitives :: "'w interp \<Rightarrow> 'w interp option" where
  "dispatchIntegerPrimitives s =
     (let i = primitiveIndex s
      in if i = 1 then primitiveAdd s else if i = 2 then primitiveSubtract s
         else if i = 3 then primitiveLessThan s else if i = 4 then primitiveGreaterThan s
         else if i = 5 then primitiveLessOrEqual s else if i = 6 then primitiveGreaterOrEqual s
         else if i = 7 then primitiveEqual s else if i = 8 then primitiveNotEqual s
         else if i = 9 then primitiveMultiply s else if i = 10 then primitiveDivide s
         else if i = 11 then primitiveMod s else if i = 12 then primitiveDiv s
         else if i = 13 then primitiveQuo s else if i = 14 then primitiveBitAnd s
         else if i = 15 then primitiveBitOr s else if i = 16 then primitiveBitXor s
         else if i = 17 then primitiveBitShift s else if i = 18 then primitiveMakePoint s
         else Some s)"

definition arithmeticSelectorPrimitive :: "'w interp \<Rightarrow> 'w interp option" where
  "arithmeticSelectorPrimitive s =
     (if successFlag s then
        let i = currentBytecode s
        in if i = 176 then primitiveAdd s else if i = 177 then primitiveSubtract s
           else if i = 178 then primitiveLessThan s else if i = 179 then primitiveGreaterThan s
           else if i = 180 then primitiveLessOrEqual s else if i = 181 then primitiveGreaterOrEqual s
           else if i = 182 then primitiveEqual s else if i = 183 then primitiveNotEqual s
           else if i = 184 then primitiveMultiply s else if i = 185 then primitiveDivide s
           else if i = 186 then primitiveMod s else if i = 187 then primitiveMakePoint s
           else if i = 188 then primitiveBitShift s else if i = 189 then primitiveDiv s
           else if i = 190 then primitiveBitAnd s else if i = 191 then primitiveBitOr s
           else Some s
      else Some s)"

section \<open>Floats\<close>

definition extractFloat :: "int \<Rightarrow> 'w interp \<Rightarrow> (32 word) option" where
  "extractFloat p s = do { hi \<leftarrow> fetchWord 1 p s; lo \<leftarrow> fetchWord 0 p s; Some (word_of_int (push_bit 16 hi OR lo)) }"

definition popFloat :: "float_unit \<Rightarrow> 'w interp \<Rightarrow> (32 word \<times> 'w interp) option" where
  "popFloat fu s =
     do {
       (p, s) \<leftarrow> popStack s;
       c \<leftarrow> classOf p s;
       let s = success (c = ClassFloatPointer) s;
       if successFlag s then do { f \<leftarrow> extractFloat p s; Some (f, s) } else Some (quiet_nan fu, s)
     }"

definition pushFloat :: "32 word \<Rightarrow> 'w interp \<Rightarrow> 'w interp option" where
  "pushFloat f s =
     do {
       (p, s) \<leftarrow> newWords ClassFloatPointer 2 s;
       s \<leftarrow> storeWord 0 p (uint (f AND 0xFFFF)) s;
       s \<leftarrow> storeWord 1 p (uint (drop_bit 16 f)) s;
       push p s
     }"

definition pop_floats :: "float_unit \<Rightarrow> 'w interp \<Rightarrow> (32 word \<times> 32 word \<times> 'w interp) option" where
  "pop_floats fu s =
     do { (floatArgument, s) \<leftarrow> popFloat fu s; (floatReceiver, s) \<leftarrow> popFloat fu s; Some (floatReceiver, floatArgument, s) }"

definition compare_floats :: "float_unit \<Rightarrow> (32 word \<Rightarrow> 32 word \<Rightarrow> bool) \<Rightarrow> 'w interp \<Rightarrow> 'w interp option" where
  "compare_floats fu rel s =
     do { (r, a, s) \<leftarrow> pop_floats fu s; if successFlag s then push_boolean (rel r a) s else Some (unPop 2 s) }"

definition combine_floats :: "float_unit \<Rightarrow> (32 word \<Rightarrow> 32 word \<Rightarrow> 32 word) \<Rightarrow> 'w interp \<Rightarrow> 'w interp option" where
  "combine_floats fu f s =
     do { (r, a, s) \<leftarrow> pop_floats fu s; if successFlag s then pushFloat (f r a) s else Some (unPop 2 s) }"

definition primitiveAsFloat :: "float_unit \<Rightarrow> 'w interp \<Rightarrow> 'w interp option" where
  "primitiveAsFloat fu s =
     do { (a, s) \<leftarrow> popInteger s; if successFlag s then pushFloat (of_integer fu a) s else Some (unPop 1 s) }"

definition primitiveFloatAdd :: "float_unit \<Rightarrow> 'w interp \<Rightarrow> 'w interp option" where
  "primitiveFloatAdd fu s = combine_floats fu (float_add fu) s"

definition primitiveFloatSubtract :: "float_unit \<Rightarrow> 'w interp \<Rightarrow> 'w interp option" where
  "primitiveFloatSubtract fu s = combine_floats fu (float_sub fu) s"

definition primitiveFloatMultiply :: "float_unit \<Rightarrow> 'w interp \<Rightarrow> 'w interp option" where
  "primitiveFloatMultiply fu s = combine_floats fu (float_mul fu) s"

definition primitiveFloatDivide :: "float_unit \<Rightarrow> 'w interp \<Rightarrow> 'w interp option" where
  "primitiveFloatDivide fu s =
     do {
       (r, a, s) \<leftarrow> pop_floats fu s;
       let s = success (\<not> float_eq fu a (of_integer fu 0)) s;
       if successFlag s then pushFloat (float_div fu r a) s else Some (unPop 2 s)
     }"

definition primitiveFloatLessThan :: "float_unit \<Rightarrow> 'w interp \<Rightarrow> 'w interp option" where
  "primitiveFloatLessThan fu s = compare_floats fu (float_less fu) s"

definition primitiveFloatGreaterThan :: "float_unit \<Rightarrow> 'w interp \<Rightarrow> 'w interp option" where
  "primitiveFloatGreaterThan fu s = compare_floats fu (\<lambda>r a. float_less fu a r) s"

definition primitiveFloatLessOrEqual :: "float_unit \<Rightarrow> 'w interp \<Rightarrow> 'w interp option" where
  "primitiveFloatLessOrEqual fu s = compare_floats fu (float_le fu) s"

definition primitiveFloatGreaterOrEqual :: "float_unit \<Rightarrow> 'w interp \<Rightarrow> 'w interp option" where
  "primitiveFloatGreaterOrEqual fu s = compare_floats fu (\<lambda>r a. float_le fu a r) s"

definition primitiveFloatEqual :: "float_unit \<Rightarrow> 'w interp \<Rightarrow> 'w interp option" where
  "primitiveFloatEqual fu s = compare_floats fu (float_eq fu) s"

definition primitiveFloatNotEqual :: "float_unit \<Rightarrow> 'w interp \<Rightarrow> 'w interp option" where
  "primitiveFloatNotEqual fu s = compare_floats fu (\<lambda>r a. \<not> float_eq fu r a) s"

definition primitiveTruncated :: "float_unit \<Rightarrow> 'w interp \<Rightarrow> 'w interp option" where
  "primitiveTruncated fu s =
     do {
       (r, s) \<leftarrow> popFloat fu s;
       (v, s) \<leftarrow> (if successFlag s then do { v \<leftarrow> to_integer fu r; Some (v, success (isIntegerValue v) s) } else Some (0, s));
       if successFlag s then pushInteger v s else Some (unPop 1 s)
     }"

definition primitiveFractionalPart :: "float_unit \<Rightarrow> 'w interp \<Rightarrow> 'w interp option" where
  "primitiveFractionalPart fu s =
     do {
       (r, s) \<leftarrow> popFloat fu s;
       if successFlag s then do { v \<leftarrow> to_integer fu r; pushFloat (float_sub fu r (of_integer fu v)) s } else Some (unPop 1 s)
     }"

definition dispatchFloatPrimitives :: "float_unit \<Rightarrow> 'w interp \<Rightarrow> 'w interp option" where
  "dispatchFloatPrimitives fu s =
     (let i = primitiveIndex s
      in if i = 40 then primitiveAsFloat fu s else if i = 41 then primitiveFloatAdd fu s
         else if i = 42 then primitiveFloatSubtract fu s else if i = 43 then primitiveFloatLessThan fu s
         else if i = 44 then primitiveFloatGreaterThan fu s else if i = 45 then primitiveFloatLessOrEqual fu s
         else if i = 46 then primitiveFloatGreaterOrEqual fu s else if i = 47 then primitiveFloatEqual fu s
         else if i = 48 then primitiveFloatNotEqual fu s else if i = 49 then primitiveFloatMultiply fu s
         else if i = 50 then primitiveFloatDivide fu s else if i = 51 then primitiveTruncated fu s
         else if i = 52 then primitiveFractionalPart fu s else if i = 53 \<or> i = 54 then Some (primitiveFail s)
         else Some s)"

definition dispatchArithmeticPrimitives :: "float_unit \<Rightarrow> 'w interp \<Rightarrow> 'w interp option" where
  "dispatchArithmeticPrimitives fu s =
     (if primitiveIndex s < 20 then dispatchIntegerPrimitives s
      else if primitiveIndex s < 40 then Some (primitiveFail s)
      else if primitiveIndex s < 60 then dispatchFloatPrimitives fu s
      else Some s)"

section \<open>Indexed access\<close>

definition lengthOf :: "int \<Rightarrow> 'w interp \<Rightarrow> int option" where
  "lengthOf a s =
     do {
       c \<leftarrow> classOf a s;
       b \<leftarrow> isWords c s;
       if b then fetchWordLengthOf a (memory s) else fetchByteLengthOf a (memory s)
     }"

definition checkIndexableBoundsOf_in :: "int \<Rightarrow> int \<Rightarrow> 'w interp \<Rightarrow> 'w interp option" where
  "checkIndexableBoundsOf_in index a s =
     do { let s = success (index \<ge> 1) s; n \<leftarrow> lengthOf a s; Some (success (index \<le> n) s) }"

definition subscript_with :: "int \<Rightarrow> int \<Rightarrow> 'w interp \<Rightarrow> (int \<times> 'w interp) option" where
  "subscript_with a index s =
     do {
       c \<leftarrow> classOf a s;
       b \<leftarrow> isWords c s;
       if b then do {
         p \<leftarrow> isPointers c s;
         if p then do { x \<leftarrow> fetchPointer (index - 1) a s; Some (x, s) }
         else do { v \<leftarrow> fetchWord (index - 1) a s; positive16BitIntegerFor v s }
       } else do { v \<leftarrow> fetchByte_in (index - 1) a s; Some (integerObjectOf v, s) }
     }"

definition subscript_with_storing :: "int \<Rightarrow> int \<Rightarrow> int \<Rightarrow> 'w interp \<Rightarrow> 'w interp option" where
  "subscript_with_storing a index v s =
     do {
       c \<leftarrow> classOf a s;
       b \<leftarrow> isWords c s;
       if b then do {
         p \<leftarrow> isPointers c s;
         if p then storePointer (index - 1) a v s
         else do {
           ok \<leftarrow> (if isIntegerObject v then Some True else do { vc \<leftarrow> classOf v s; Some (vc = ClassLargePositiveIntegerPointer) });
           let s = success ok s;
           if successFlag s then do { (x, s) \<leftarrow> positive16BitValueOf v s; storeWord (index - 1) a x s } else Some s
         }
       } else do {
         let s = success (isIntegerObject v) s;
         if successFlag s then storeByte (index - 1) a (lowByteOf (integerValueOf v)) s else Some s
       }
     }"

definition primitiveAt :: "'w interp \<Rightarrow> 'w interp option" where
  "primitiveAt s =
     do {
       (x, s) \<leftarrow> popStack s;
       (index, s) \<leftarrow> positive16BitValueOf x s;
       (a, s) \<leftarrow> popStack s;
       arrayClass \<leftarrow> classOf a s;
       s \<leftarrow> checkIndexableBoundsOf_in index a s;
       (r, s) \<leftarrow> (if successFlag s then do { n \<leftarrow> fixedFieldsOf arrayClass s; subscript_with a (index + n) s } else Some (0, s));
       if successFlag s then push r s else Some (unPop 2 s)
     }"

definition primitiveAtPut :: "'w interp \<Rightarrow> 'w interp option" where
  "primitiveAtPut s =
     do {
       (v, s) \<leftarrow> popStack s;
       (x, s) \<leftarrow> popStack s;
       (index, s) \<leftarrow> positive16BitValueOf x s;
       (a, s) \<leftarrow> popStack s;
       arrayClass \<leftarrow> classOf a s;
       s \<leftarrow> checkIndexableBoundsOf_in index a s;
       s \<leftarrow> (if successFlag s then do { n \<leftarrow> fixedFieldsOf arrayClass s; subscript_with_storing a (index + n) v s } else Some s);
       if successFlag s then push v s else Some (unPop 3 s)
     }"

definition primitiveSize :: "'w interp \<Rightarrow> 'w interp option" where
  "primitiveSize s =
     do {
       (a, s) \<leftarrow> popStack s;
       let s = success (\<not> isIntegerObject a) s;
       (r, s) \<leftarrow> (if successFlag s then do {
                    c \<leftarrow> classOf a s;
                    n \<leftarrow> lengthOf a s;
                    k \<leftarrow> fixedFieldsOf c s;
                    positive16BitIntegerFor (n - k) s
                  } else Some (0, s));
       if successFlag s then push r s else Some (unPop 1 s)
     }"

definition primitiveStringAt :: "'w interp \<Rightarrow> 'w interp option" where
  "primitiveStringAt s =
     do {
       (x, s) \<leftarrow> popStack s;
       (index, s) \<leftarrow> positive16BitValueOf x s;
       (a, s) \<leftarrow> popStack s;
       s \<leftarrow> checkIndexableBoundsOf_in index a s;
       (ch, s) \<leftarrow> (if successFlag s then do {
                     (v, s) \<leftarrow> subscript_with a index s;
                     c \<leftarrow> fetchPointer (integerValueOf v) CharacterTablePointer s;
                     Some (c, s)
                   } else Some (0, s));
       if successFlag s then push ch s else Some (unPop 2 s)
     }"

definition primitiveStringAtPut :: "'w interp \<Rightarrow> 'w interp option" where
  "primitiveStringAtPut s =
     do {
       (ch, s) \<leftarrow> popStack s;
       (x, s) \<leftarrow> popStack s;
       (index, s) \<leftarrow> positive16BitValueOf x s;
       (a, s) \<leftarrow> popStack s;
       s \<leftarrow> checkIndexableBoundsOf_in index a s;
       c \<leftarrow> classOf ch s;
       let s = success (c = ClassCharacterPointer) s;
       s \<leftarrow> (if successFlag s then do { ascii \<leftarrow> fetchPointer CharacterValueIndex ch s; subscript_with_storing a index ascii s }
            else Some s);
       if successFlag s then push ch s else Some (unPop 3 s)
     }"

section \<open>Streams\<close>

definition primitiveNext :: "'w interp \<Rightarrow> 'w interp option" where
  "primitiveNext s =
     do {
       (stream, s) \<leftarrow> popStack s;
       a \<leftarrow> fetchPointer 0 stream s;
       arrayClass \<leftarrow> classOf a s;
       (index, s) \<leftarrow> fetchInteger_ofObject 1 stream s;
       (limit, s) \<leftarrow> fetchInteger_ofObject 2 stream s;
       let s = success (index < limit) s;
       let s = success (arrayClass = ClassArrayPointer \<or> arrayClass = ClassStringPointer) s;
       s \<leftarrow> checkIndexableBoundsOf_in (index + 1) a s;
       (index, r, s) \<leftarrow> (if successFlag s then do { (r, s) \<leftarrow> subscript_with a (index + 1) s; Some (index + 1, r, s) } else Some (index, 0, s));
       s \<leftarrow> (if successFlag s then storeInteger_ofObject_withValue 1 stream index s else Some s);
       if successFlag s then
         if arrayClass = ClassArrayPointer then push r s
         else do { ch \<leftarrow> fetchPointer (integerValueOf r) CharacterTablePointer s; push ch s }
       else Some (unPop 1 s)
     }"

definition primitiveNextPut :: "'w interp \<Rightarrow> 'w interp option" where
  "primitiveNextPut s =
     do {
       (v, s) \<leftarrow> popStack s;
       (stream, s) \<leftarrow> popStack s;
       a \<leftarrow> fetchPointer 0 stream s;
       arrayClass \<leftarrow> classOf a s;
       (index, s) \<leftarrow> fetchInteger_ofObject 1 stream s;
       (limit, s) \<leftarrow> fetchInteger_ofObject 3 stream s;
       let s = success (index < limit) s;
       let s = success (arrayClass = ClassArrayPointer \<or> arrayClass = ClassStringPointer) s;
       s \<leftarrow> checkIndexableBoundsOf_in (index + 1) a s;
       (index, s) \<leftarrow> (if successFlag s then do {
                        s \<leftarrow> (if arrayClass = ClassArrayPointer then subscript_with_storing a (index + 1) v s
                             else do { ascii \<leftarrow> fetchPointer CharacterValueIndex v s; subscript_with_storing a (index + 1) ascii s });
                        Some (index + 1, s)
                      } else Some (index, s));
       s \<leftarrow> (if successFlag s then storeInteger_ofObject_withValue 1 stream index s else Some s);
       if successFlag s then push v s else Some (unPop 2 s)
     }"

definition primitiveAtEnd :: "'w interp \<Rightarrow> 'w interp option" where
  "primitiveAtEnd s =
     do {
       (stream, s) \<leftarrow> popStack s;
       a \<leftarrow> fetchPointer 0 stream s;
       arrayClass \<leftarrow> classOf a s;
       n \<leftarrow> lengthOf a s;
       (index, s) \<leftarrow> fetchInteger_ofObject 1 stream s;
       (limit, s) \<leftarrow> fetchInteger_ofObject 2 stream s;
       let s = success (arrayClass = ClassArrayPointer \<or> arrayClass = ClassStringPointer) s;
       if successFlag s then push_boolean (index \<ge> limit \<or> index \<ge> n) s else Some (unPop 1 s)
     }"

definition dispatchSubscriptAndStreamPrimitives :: "'w interp \<Rightarrow> 'w interp option" where
  "dispatchSubscriptAndStreamPrimitives s =
     (let i = primitiveIndex s
      in if i = 60 then primitiveAt s else if i = 61 then primitiveAtPut s
         else if i = 62 then primitiveSize s else if i = 63 then primitiveStringAt s
         else if i = 64 then primitiveStringAtPut s else if i = 65 then primitiveNext s
         else if i = 66 then primitiveNextPut s else if i = 67 then primitiveAtEnd s
         else Some s)"

section \<open>Storage management\<close>

definition primitiveObjectAt :: "'w interp \<Rightarrow> 'w interp option" where
  "primitiveObjectAt s =
     do {
       (index, s) \<leftarrow> popInteger s;
       (r, s) \<leftarrow> popStack s;
       let s = success (index > 0) s;
       n \<leftarrow> objectPointerCountOf r s;
       let s = success (index \<le> n) s;
       if successFlag s then do { x \<leftarrow> fetchPointer (index - 1) r s; push x s } else Some (unPop 2 s)
     }"

definition primitiveObjectAtPut :: "'w interp \<Rightarrow> 'w interp option" where
  "primitiveObjectAtPut s =
     do {
       (v, s) \<leftarrow> popStack s;
       (index, s) \<leftarrow> popInteger s;
       (r, s) \<leftarrow> popStack s;
       let s = success (index > 0) s;
       n \<leftarrow> objectPointerCountOf r s;
       let s = success (index \<le> n) s;
       if successFlag s then do { s \<leftarrow> storePointer (index - 1) r v s; push v s } else Some (unPop 3 s)
     }"

definition primitiveNew :: "'w interp \<Rightarrow> 'w interp option" where
  "primitiveNew s =
     do {
       (c, s) \<leftarrow> popStack s;
       n \<leftarrow> fixedFieldsOf c s;
       b \<leftarrow> isIndexable c s;
       let s = success (b = False) s;
       if successFlag s then do {
         p \<leftarrow> isPointers c s;
         (x, s) \<leftarrow> (if p then newPointers c n s else newWords c n s);
         push x s
       } else Some (unPop 1 s)
     }"

definition primitiveNewWithArg :: "'w interp \<Rightarrow> 'w interp option" where
  "primitiveNewWithArg s =
     do {
       (x, s) \<leftarrow> popStack s;
       (sz, s) \<leftarrow> positive16BitValueOf x s;
       let s = success (sz \<le> 65533) s;
       (c, s) \<leftarrow> popStack s;
       b \<leftarrow> isIndexable c s;
       let s = success b s;
       if successFlag s then do {
         n \<leftarrow> fixedFieldsOf c s;
         let sz = sz + n;
         p \<leftarrow> isPointers c s;
         (x, s) \<leftarrow> (if p then newPointers c sz s
                   else do { w \<leftarrow> isWords c s; if w then newWords c sz s else newBytes c sz s });
         push x s
       } else Some (unPop 2 s)
     }"

definition primitiveBecome :: "'w interp \<Rightarrow> 'w interp option" where
  "primitiveBecome s =
     do {
       (otherPointer, s) \<leftarrow> popStack s;
       (thisReceiver, s) \<leftarrow> popStack s;
       let s = success (\<not> isIntegerObject otherPointer) s;
       let s = success (\<not> isIntegerObject thisReceiver) s;
       if successFlag s then do { s \<leftarrow> in_memory (swapPointersOf_and thisReceiver otherPointer) s; push thisReceiver s }
       else Some (unPop 2 s)
     }"

definition checkInstanceVariableBoundsOf_in :: "int \<Rightarrow> int \<Rightarrow> 'w interp \<Rightarrow> 'w interp option" where
  "checkInstanceVariableBoundsOf_in index p s =
     do { let s = success (index \<ge> 1) s; n \<leftarrow> lengthOf p s; Some (success (index \<le> n) s) }"

definition primitiveInstVarAt :: "'w interp \<Rightarrow> 'w interp option" where
  "primitiveInstVarAt s =
     do {
       (index, s) \<leftarrow> popInteger s;
       (r, s) \<leftarrow> popStack s;
       s \<leftarrow> checkInstanceVariableBoundsOf_in index r s;
       (v, s) \<leftarrow> (if successFlag s then subscript_with r index s else Some (0, s));
       if successFlag s then push v s else Some (unPop 2 s)
     }"

definition primitiveInstVarAtPut :: "'w interp \<Rightarrow> 'w interp option" where
  "primitiveInstVarAtPut s =
     do {
       (v, s) \<leftarrow> popStack s;
       (index, s) \<leftarrow> popInteger s;
       (r, s) \<leftarrow> popStack s;
       s \<leftarrow> checkIndexableBoundsOf_in index r s;
       s \<leftarrow> (if successFlag s then subscript_with_storing r index v s else Some s);
       if successFlag s then push v s else Some (unPop 3 s)
     }"

definition primitiveAsOop :: "'w interp \<Rightarrow> 'w interp option" where
  "primitiveAsOop s =
     do {
       (r, s) \<leftarrow> popStack s;
       let s = success (isIntegerObject r = False) s;
       if successFlag s then push (r OR 1) s else Some (unPop 1 s)
     }"

definition primitiveAsObject :: "'w interp \<Rightarrow> 'w interp option" where
  "primitiveAsObject s =
     do {
       (r, s) \<leftarrow> popStack s;
       let newOop = r AND 0xFFFE;
       h \<leftarrow> hasObject newOop (memory s);
       let s = success h s;
       if successFlag s then push newOop s else Some (unPop 1 s)
     }"

definition primitiveSomeInstance :: "'w interp \<Rightarrow> 'w interp option" where
  "primitiveSomeInstance s =
     do {
       (c, s) \<leftarrow> popStack s;
       i \<leftarrow> initialInstanceOf c (memory s);
       if i = NilPointer then Some (primitiveFail s) else push i s
     }"

definition primitiveNextInstance :: "'w interp \<Rightarrow> 'w interp option" where
  "primitiveNextInstance s =
     do {
       (p, s) \<leftarrow> popStack s;
       i \<leftarrow> instanceAfter p (memory s);
       if i = NilPointer then Some (primitiveFail s) else push i s
     }"

partial_function (option) nil_literals :: "int \<Rightarrow> int \<Rightarrow> int \<Rightarrow> 'w interp \<Rightarrow> 'w interp option" where
  "nil_literals i literalCount p s =
     (if i < literalCount then do { s \<leftarrow> storeWord (LiteralStart + i) p NilPointer s; nil_literals (i + 1) literalCount p s }
      else Some s)"

definition primitiveNewMethod :: "'w interp \<Rightarrow> 'w interp option" where
  "primitiveNewMethod s =
     do {
       (header, s) \<leftarrow> popStack s;
       (bytecodeCount, s) \<leftarrow> popInteger s;
       (c, s) \<leftarrow> popStack s;
       let literalCount = literalCountOfHeader header;
       let sz = (literalCount + 1) * 2 + bytecodeCount;
       (p, s) \<leftarrow> newBytes c sz s;
       s \<leftarrow> nil_literals 0 literalCount p s;
       s \<leftarrow> storeWord HeaderIndex p header s;
       push p s
     }"

definition dispatchStorageManagementPrimitives :: "'w interp \<Rightarrow> 'w interp option" where
  "dispatchStorageManagementPrimitives s =
     (let i = primitiveIndex s
      in if i = 68 then primitiveObjectAt s else if i = 69 then primitiveObjectAtPut s
         else if i = 70 then primitiveNew s else if i = 71 then primitiveNewWithArg s
         else if i = 72 then primitiveBecome s else if i = 73 then primitiveInstVarAt s
         else if i = 74 then primitiveInstVarAtPut s else if i = 75 then primitiveAsOop s
         else if i = 76 then primitiveAsObject s else if i = 77 then primitiveSomeInstance s
         else if i = 78 then primitiveNextInstance s else if i = 79 then primitiveNewMethod s
         else Some s)"

end
