(* ===== verification/VmIO.thy ===== *)
theory VmIO
  imports VmProcess VmPrim
begin

text \<open>
  The primitives that use the devices (\<^verbatim>\<open>smalltalk/src/interpreter.cpp\<close>): pointer and cursor, input words,
  the display with bit block transfer and the scanner of characters, snapshots, clocks, and files.
\<close>

section \<open>Pointer, cursor and input\<close>

definition in_world :: "('w \<Rightarrow> 'w) \<Rightarrow> 'w interp \<Rightarrow> 'w interp" where
  "in_world f s = s\<lparr>world := f (world s)\<rparr>"

definition primitiveMousePoint :: "'w devices \<Rightarrow> 'w interp \<Rightarrow> 'w interp option" where
  "primitiveMousePoint dv s =
     do {
       let s = pop 1 s;
       let ((mouseX, mouseY), w) = get_cursor_location (hal dv) (world s);
       (p, s) \<leftarrow> newPointers ClassPointPointer 2 (s\<lparr>world := w\<rparr>);
       s \<leftarrow> storeInteger_ofObject_withValue 0 p mouseX s;
       s \<leftarrow> storeInteger_ofObject_withValue 1 p mouseY s;
       push p s
     }"

definition primitiveCursorLocPut :: "'w devices \<Rightarrow> 'w interp \<Rightarrow> 'w interp option" where
  "primitiveCursorLocPut dv s =
     do {
       (point, s) \<leftarrow> popStack s;
       c \<leftarrow> classOf point s;
       let s = success (c = ClassPointPointer) s;
       if successFlag s then do {
         (x, s) \<leftarrow> fetchInteger_ofObject 0 point s;
         (y, s) \<leftarrow> fetchInteger_ofObject 1 point s;
         Some (in_world (set_cursor_location (hal dv) x y) s)
       } else Some (unPop 1 s)
     }"

definition primitiveCursorLink :: "'w devices \<Rightarrow> 'w interp \<Rightarrow> 'w interp option" where
  "primitiveCursorLink dv s =
     do { (flag, s) \<leftarrow> popStack s; Some (in_world (set_link_cursor (hal dv) (flag = TruePointer)) s) }"

definition is_semaphore_or_nil :: "int \<Rightarrow> 'w interp \<Rightarrow> bool option" where
  "is_semaphore_or_nil p s =
     (if p = NilPointer then Some True else do { c \<leftarrow> classOf p s; Some (c = ClassSemaphorePointer) })"

definition primitiveInputSemaphore :: "'w devices \<Rightarrow> 'w interp \<Rightarrow> 'w interp option" where
  "primitiveInputSemaphore dv s =
     do {
       (semaphore, s) \<leftarrow> popStack s;
       b \<leftarrow> is_semaphore_or_nil semaphore s;
       let s = success b s;
       if successFlag s then Some (in_world (set_input_semaphore (hal dv) semaphore) s) else Some (unPop 1 s)
     }"

definition primitiveSampleInterval :: "'w interp \<Rightarrow> 'w interp option" where
  "primitiveSampleInterval s = Some (primitiveFail s)"

definition primitiveInputWord :: "'w devices \<Rightarrow> 'w interp \<Rightarrow> 'w interp option" where
  "primitiveInputWord dv s =
     (let (r, w) = next_input_word (hal dv) (world s); s = s\<lparr>world := w\<rparr>
      in case r of None \<Rightarrow> Some (primitiveFail s)
         | Some x \<Rightarrow> do { (p, s) \<leftarrow> positive16BitIntegerFor x (pop 1 s); push p s })"

section \<open>Display\<close>

definition getDisplayBits :: "int \<Rightarrow> int \<Rightarrow> 'w interp \<Rightarrow> int option" where
  "getDisplayBits width height s =
     (if currentDisplay s = 0 then Some 0
      else do {
        displayBits \<leftarrow> fetchPointer 0 (currentDisplay s) s;
        actualSize \<leftarrow> fetchWordLengthOf displayBits (memory s);
        let computedSize = currentDisplayHeight s * ((currentDisplayWidth s + 15) sdiv 16);
        Some (if computedSize \<noteq> actualSize then 0 else displayBits)
      })"

definition notify_display :: "'w devices \<Rightarrow> int \<Rightarrow> int \<Rightarrow> int \<Rightarrow> int \<Rightarrow> 'w interp \<Rightarrow> 'w interp option" where
  "notify_display dv x y width height s =
     (if width > 0 \<and> height > 0 then do { w \<leftarrow> display_changed (hal dv) x y width height (world s); Some (s\<lparr>world := w\<rparr>) }
      else Some s)"

definition updateDisplay :: "'w devices \<Rightarrow> int \<Rightarrow> int \<Rightarrow> int \<Rightarrow> int \<Rightarrow> 'w interp \<Rightarrow> 'w interp option" where
  "updateDisplay dv updatedX updatedY updatedWidth updatedHeight s =
     do {
       (width, s) \<leftarrow> fetchInteger_ofObject 1 (currentDisplay s) s;
       (height, s) \<leftarrow> fetchInteger_ofObject 2 (currentDisplay s) s;
       if currentDisplayWidth s \<noteq> width \<or> currentDisplayHeight s \<noteq> height then
         if height \<le> 100 then Some s
         else do {
           let (_, w) = set_display_size (hal dv) width height (world s);
           notify_display dv updatedX updatedY updatedWidth updatedHeight
             (s\<lparr>world := w, currentDisplayWidth := width, currentDisplayHeight := height\<rparr>)
         }
       else notify_display dv updatedX updatedY updatedWidth updatedHeight s
     }"

text \<open>A transfer as the constructor leaves it; the members it does not set start as zero.\<close>

definition new_scanner :: scanner where
  "new_scanner =
     \<lparr>bb_destForm = 0, bb_sourceForm = 0, bb_halftoneForm = 0, bb_combinationRule = 0, bb_destX = 0, bb_destY = 0,
      bb_width = 0, bb_height = 0, bb_sourceX = 0, bb_sourceY = 0, bb_clipX = 0, bb_clipY = 0, bb_clipWidth = 0,
      bb_clipHeight = 0, bb_sourceBits = 0, bb_sourceRaster = 0, bb_destBits = 0, bb_destRaster = 0, bb_halftoneBits = 0,
      bb_skew = 0, bb_preload = False, bb_nWords = 0, bb_hDir = 0, bb_vDir = 0, bb_sourceIndex = 0, bb_sourceDelta = 0,
      bb_destIndex = 0, bb_destDelta = 0, bb_sx = 0, bb_sy = 0, bb_dx = 0, bb_dy = 0, bb_w = 0, bb_h = 0,
      bb_sourceBitsWordLength = 0, bb_destBitsWordLength = 0, bb_mask1 = 0, bb_mask2 = 0, bb_skewMask = 0,
      bb_sourceFormWidth = 0, bb_sourceFormHeight = 0, bb_destFormWidth = 0, bb_destFormHeight = 0, bb_updatedX = 0,
      bb_updatedY = 0, bb_updatedWidth = 0, bb_updatedHeight = 0, bb_xTable = 0, bb_lastIndex = 0, bb_stopConditions = 0\<rparr>"

definition primitiveCopyBits :: "'w devices \<Rightarrow> 'w interp \<Rightarrow> 'w interp option" where
  "primitiveCopyBits dv s =
     do {
       p \<leftarrow> stackTop s;
       destForm \<leftarrow> fetchPointer 0 p s;
       sourceForm \<leftarrow> fetchPointer 1 p s;
       (destX, s) \<leftarrow> fetchInteger_ofObject 4 p s;
       (destY, s) \<leftarrow> fetchInteger_ofObject 5 p s;
       (clipX, s) \<leftarrow> fetchInteger_ofObject 10 p s;
       (clipY, s) \<leftarrow> fetchInteger_ofObject 11 p s;
       (clipWidth, s) \<leftarrow> fetchInteger_ofObject 12 p s;
       (clipHeight, s) \<leftarrow> fetchInteger_ofObject 13 p s;
       (sourceX, s) \<leftarrow> fetchInteger_ofObject 8 p s;
       (sourceY, s) \<leftarrow> fetchInteger_ofObject 9 p s;
       (width, s) \<leftarrow> fetchInteger_ofObject 6 p s;
       (height, s) \<leftarrow> fetchInteger_ofObject 7 p s;
       (rule, s) \<leftarrow> fetchInteger_ofObject 3 p s;
       let s = success (0 \<le> rule \<and> rule \<le> 15) s;
       if successFlag s then do {
         halftoneForm \<leftarrow> fetchPointer 2 p s;
         b \<leftarrow> BitBlt_sizes (new_scanner\<lparr>bb_destForm := destForm, bb_sourceForm := sourceForm, bb_halftoneForm := halftoneForm,
                bb_combinationRule := rule, bb_destX := destX, bb_destY := destY, bb_width := width, bb_height := height,
                bb_sourceX := sourceX, bb_sourceY := sourceY, bb_clipX := clipX, bb_clipY := clipY, bb_clipWidth := clipWidth,
                bb_clipHeight := clipHeight\<rparr>) (memory s);
         (_, b, m) \<leftarrow> copyBits b (memory s);
         let s = s\<lparr>memory := m\<rparr>;
         if destForm = currentDisplay s then
           let (updatedX, updatedY, updatedWidth, updatedHeight) = getUpdatedBounds b
           in if updatedWidth > 0 \<and> updatedHeight > 0 then updateDisplay dv updatedX updatedY updatedWidth updatedHeight s
              else Some s
         else Some s
       } else Some s
     }"

text \<open>An integer field that is only read when the characters are displayed.\<close>

definition fetch_if :: "bool \<Rightarrow> int \<Rightarrow> int \<Rightarrow> 'w interp \<Rightarrow> (int \<times> 'w interp) option" where
  "fetch_if b i p s = (if b then fetchInteger_ofObject i p s else Some (0, s))"

definition primitiveScanCharacters :: "'w devices \<Rightarrow> 'w interp \<Rightarrow> 'w interp option" where
  "primitiveScanCharacters dv s =
     do {
       (flag, s) \<leftarrow> popStack s;
       let displaying = (flag = TruePointer);
       (stops, s) \<leftarrow> popStack s;
       (rightX, s) \<leftarrow> popInteger s;
       (sourceString, s) \<leftarrow> popStack s;
       (stopIndex, s) \<leftarrow> popInteger s;
       (startIndex, s) \<leftarrow> popInteger s;
       (p, s) \<leftarrow> popStack s;
       destForm \<leftarrow> fetchPointer 0 p s;
       sourceForm \<leftarrow> fetchPointer 1 p s;
       (destX, s) \<leftarrow> fetchInteger_ofObject 4 p s;
       xTable \<leftarrow> fetchPointer 15 p s;
       (lastIndex, s) \<leftarrow> fetchInteger_ofObject 14 p s;
       stopConditions \<leftarrow> fetchPointer 16 p s;
       (destY, s) \<leftarrow> fetch_if displaying 5 p s;
       (clipX, s) \<leftarrow> fetch_if displaying 10 p s;
       (clipY, s) \<leftarrow> fetch_if displaying 11 p s;
       (clipWidth, s) \<leftarrow> fetch_if displaying 12 p s;
       (clipHeight, s) \<leftarrow> fetch_if displaying 13 p s;
       (sourceY, s) \<leftarrow> fetch_if displaying 9 p s;
       (rule, s) \<leftarrow> fetch_if displaying 3 p s;
       (height, s) \<leftarrow> fetch_if displaying 7 p s;
       if successFlag s then do {
         halftoneForm \<leftarrow> fetchPointer 2 p s;
         b \<leftarrow> BitBlt_sizes (new_scanner\<lparr>bb_destForm := destForm, bb_sourceForm := sourceForm, bb_halftoneForm := halftoneForm,
                bb_combinationRule := rule, bb_destX := destX, bb_destY := destY, bb_width := 0, bb_height := height,
                bb_sourceX := 0, bb_sourceY := sourceY, bb_clipX := clipX, bb_clipY := clipY, bb_clipWidth := clipWidth,
                bb_clipHeight := clipHeight, bb_xTable := xTable, bb_lastIndex := lastIndex,
                bb_stopConditions := stopConditions\<rparr>) (memory s);
         (result, b, m) \<leftarrow> scanCharactersFrom_to_in_rightX_stopConditions_displaying
                             startIndex stopIndex sourceString rightX stops displaying b (memory s);
         let s = s\<lparr>memory := m\<rparr>;
         s \<leftarrow> storeInteger_ofObject_withValue 4 p (bb_destX b) s;
         s \<leftarrow> storeInteger_ofObject_withValue 6 p (bb_width b) s;
         s \<leftarrow> storeInteger_ofObject_withValue 8 p (bb_sourceX b) s;
         s \<leftarrow> storeInteger_ofObject_withValue 14 p (bb_lastIndex b) s;
         s \<leftarrow> (if destForm = currentDisplay s \<and> displaying then updateDisplay dv clipX clipY clipWidth clipHeight s else Some s);
         push result s
       } else Some (unPop 7 s)
     }"

section \<open>Snapshots and clocks\<close>

definition primitiveSnapshot :: "'w devices \<Rightarrow> 'w interp \<Rightarrow> 'w interp option" where
  "primitiveSnapshot dv s =
     do {
       sp \<leftarrow> schedulerPointer s;
       p \<leftarrow> fetchPointer ActiveProcessIndex sp s;
       s \<leftarrow> storePointer SuspendedContextIndex p (activeContext s) s;
       s \<leftarrow> storeContextRegisters s;
       s \<leftarrow> collect s;
       (_, m, w) \<leftarrow> saveSnapshot (fileSystem dv) (get_image_name (hal dv) (world s)) (memory s) (world s);
       push NilPointer (pop 1 (s\<lparr>memory := m, world := w\<rparr>))
     }"

text \<open>The bytes of a time into an indexed object of bytes.\<close>

definition store_time :: "32 word \<Rightarrow> int \<Rightarrow> 'w interp \<Rightarrow> 'w interp option" where
  "store_time t p s =
     do {
       s \<leftarrow> storeByte 0 p (uint (t AND 0xFF)) s;
       s \<leftarrow> storeByte 1 p (uint (drop_bit 8 t AND 0xFF)) s;
       s \<leftarrow> storeByte 2 p (uint (drop_bit 16 t AND 0xFF)) s;
       storeByte 3 p (uint (drop_bit 24 t AND 0xFF)) s
     }"

definition primitiveTimeWordsInto :: "'w devices \<Rightarrow> 'w interp \<Rightarrow> 'w interp option" where
  "primitiveTimeWordsInto dv s =
     do { let (t, w) = get_smalltalk_epoch_time (hal dv) (world s); (p, s) \<leftarrow> popStack (s\<lparr>world := w\<rparr>); store_time t p s }"

definition primitiveTickWordsInto :: "'w devices \<Rightarrow> 'w interp \<Rightarrow> 'w interp option" where
  "primitiveTickWordsInto dv s =
     do { let (t, w) = get_msclock (hal dv) (world s); (p, s) \<leftarrow> popStack (s\<lparr>world := w\<rparr>); store_time t p s }"

definition fetch_time :: "int \<Rightarrow> 'w interp \<Rightarrow> 32 word option" where
  "fetch_time p s =
     do {
       b0 \<leftarrow> fetchByte_in 0 p s;
       b1 \<leftarrow> fetchByte_in 1 p s;
       b2 \<leftarrow> fetchByte_in 2 p s;
       b3 \<leftarrow> fetchByte_in 3 p s;
       Some (word_of_int (((b0 OR push_bit 8 b1) OR push_bit 16 b2) OR push_bit 24 b3))
     }"

text \<open>The timer signals at once when the time has passed.\<close>

definition primitiveSignalAtTick :: "'w devices \<Rightarrow> 'w interp \<Rightarrow> 'w interp option" where
  "primitiveSignalAtTick dv s =
     do {
       (timePointer, s) \<leftarrow> popStack s;
       (semaphore, s) \<leftarrow> popStack s;
       b \<leftarrow> is_semaphore_or_nil semaphore s;
       let s = success b s;
       if successFlag s then do {
         let semaphore = (if semaphore = NilPointer then 0 else semaphore);
         t \<leftarrow> fetch_time timePointer s;
         let (r, w) = signal_at (hal dv) semaphore t (world s);
         let s = s\<lparr>world := w\<rparr>;
         case r of None \<Rightarrow> Some s | Some sem \<Rightarrow> asynchronousSignal sem s
       } else Some (unPop 2 s)
     }"

section \<open>Cursor and display forms\<close>

partial_function (option) cursor_bits :: "int \<Rightarrow> int \<Rightarrow> int list \<Rightarrow> 'w interp \<Rightarrow> int list option" where
  "cursor_bits i p xs s = (if i < 16 then do { x \<leftarrow> fetchWord i p s; cursor_bits (i + 1) p (xs @ [x]) s } else Some xs)"

definition primitiveBeCursor :: "'w devices \<Rightarrow> 'w interp \<Rightarrow> 'w interp option" where
  "primitiveBeCursor dv s =
     do {
       x \<leftarrow> stackTop s;
       if currentCursor s \<noteq> x then do {
         let s = s\<lparr>currentCursor := x\<rparr>;
         cursorBitmap \<leftarrow> fetchPointer 0 (currentCursor s) s;
         bits \<leftarrow> cursor_bits 0 cursorBitmap [] s;
         Some (in_world (set_cursor_image (hal dv) bits) s)
       } else Some s
     }"

definition primitiveBeDisplay :: "'w devices \<Rightarrow> 'w interp \<Rightarrow> 'w interp option" where
  "primitiveBeDisplay dv s =
     do {
       newDisplay \<leftarrow> stackTop s;
       if currentDisplay s \<noteq> newDisplay then do {
         (width, s) \<leftarrow> fetchInteger_ofObject 1 newDisplay s;
         (height, s) \<leftarrow> fetchInteger_ofObject 2 newDisplay s;
         if height > 100 then
           let (ok, w) = set_display_size (hal dv) width height (world s);
               s = (if ok then s\<lparr>world := w\<rparr> else primitiveFail (s\<lparr>world := w\<rparr>))
           in Some (s\<lparr>currentDisplay := newDisplay, currentDisplayWidth := width, currentDisplayHeight := height\<rparr>)
         else Some (s\<lparr>currentDisplay := 0\<rparr>)
       } else Some s
     }"

definition primitiveDrawLoop :: "'w interp \<Rightarrow> 'w interp option" where
  "primitiveDrawLoop s = Some (primitiveFail s)"

definition primitiveStringReplace :: "'w interp \<Rightarrow> 'w interp option" where
  "primitiveStringReplace s = Some (primitiveFail s)"

definition dispatchInputOutputPrimitives :: "'w devices \<Rightarrow> 'w interp \<Rightarrow> 'w interp option" where
  "dispatchInputOutputPrimitives dv s =
     (let i = primitiveIndex s
      in if i = 90 then primitiveMousePoint dv s else if i = 91 then primitiveCursorLocPut dv s
         else if i = 92 then primitiveCursorLink dv s else if i = 93 then primitiveInputSemaphore dv s
         else if i = 94 then primitiveSampleInterval s else if i = 95 then primitiveInputWord dv s
         else if i = 96 then primitiveCopyBits dv s else if i = 97 then primitiveSnapshot dv s
         else if i = 98 then primitiveTimeWordsInto dv s else if i = 99 then primitiveTickWordsInto dv s
         else if i = 100 then primitiveSignalAtTick dv s else if i = 101 then primitiveBeCursor dv s
         else if i = 102 then primitiveBeDisplay dv s else if i = 103 then primitiveScanCharacters dv s
         else if i = 104 then primitiveDrawLoop s else if i = 105 then primitiveStringReplace s
         else Some s)"

section \<open>System\<close>

definition primitiveEquivalent :: "'w interp \<Rightarrow> 'w interp option" where
  "primitiveEquivalent s =
     do { (otherObject, s) \<leftarrow> popStack s; (thisObject, s) \<leftarrow> popStack s; push_boolean (thisObject = otherObject) s }"

definition primitiveClass :: "'w interp \<Rightarrow> 'w interp option" where
  "primitiveClass s = do { (p, s) \<leftarrow> popStack s; c \<leftarrow> classOf p s; push c s }"

definition primitiveCoreLeft :: "'w interp \<Rightarrow> 'w interp option" where
  "primitiveCoreLeft s =
     do { (p, s) \<leftarrow> positive32BitIntegerFor (freeWords (memory s)) (pop 1 s); push p s }"

definition primitiveQuit :: "'w devices \<Rightarrow> 'w interp \<Rightarrow> 'w interp option" where
  "primitiveQuit dv s = Some (in_world (signal_quit (hal dv)) s)"

definition primitiveExitToDebugger :: "'w devices \<Rightarrow> 'w interp \<Rightarrow> 'w interp option" where
  "primitiveExitToDebugger dv s = Some (in_world (exit_to_debugger (hal dv)) s)"

definition primitiveOopsLeft :: "'w interp \<Rightarrow> 'w interp option" where
  "primitiveOopsLeft s =
     do { (p, s) \<leftarrow> positive16BitIntegerFor (freeOops (memory s)) (pop 1 s); push p s }"

definition primitiveSignalAtOopsLeftWordsLeft :: "'w interp \<Rightarrow> 'w interp option" where
  "primitiveSignalAtOopsLeftWordsLeft s =
     do {
       (x, s) \<leftarrow> popStack s;
       (numWords, s) \<leftarrow> positive32BitValueOf x s;
       (x, s) \<leftarrow> popStack s;
       (numOops, s) \<leftarrow> positive16BitValueOf x s;
       (semaphore, s) \<leftarrow> popStack s;
       b \<leftarrow> is_semaphore_or_nil semaphore s;
       let s = success b s;
       if successFlag s then Some (s\<lparr>lowSpaceSemaphore := semaphore, oopsLeftLimit := numOops, wordsLeftLimit := numWords\<rparr>)
       else Some (unPop 3 s)
     }"

definition dispatchSystemPrimitives :: "'w devices \<Rightarrow> 'w interp \<Rightarrow> 'w interp option" where
  "dispatchSystemPrimitives dv s =
     (let i = primitiveIndex s
      in if i = 110 then primitiveEquivalent s else if i = 111 then primitiveClass s
         else if i = 112 then primitiveCoreLeft s else if i = 113 then primitiveQuit dv s
         else if i = 114 then primitiveExitToDebugger dv s else if i = 115 then primitiveOopsLeft s
         else if i = 116 then primitiveSignalAtOopsLeftWordsLeft s
         else Some s)"

end
