(* ===== verification/VmFile.thy ===== *)
theory VmFile
  imports VmIO
begin

text \<open>
  The primitives on files and directories (\<^verbatim>\<open>smalltalk/src/interpreter.cpp\<close>): names as strings of bytes, the
  operations on pages of 512 bytes of an open file, and the operations on the directory.
\<close>

section \<open>Strings\<close>

text \<open>The name that a C function sees of a string: up to the first zero byte.\<close>

definition c_str :: "int list \<Rightarrow> int list" where
  "c_str bs = takeWhile (\<lambda>b. b \<noteq> 0) bs"

partial_function (option) string_loop :: "int \<Rightarrow> int \<Rightarrow> int \<Rightarrow> int list \<Rightarrow> 'w interp \<Rightarrow> int list option" where
  "string_loop i len p bs s =
     (if i < len then do { b \<leftarrow> fetchByte_in i p s; string_loop (i + 1) len p (bs @ [b]) s } else Some bs)"

definition stringFromObject :: "int \<Rightarrow> 'w interp \<Rightarrow> int list option" where
  "stringFromObject p s = do { len \<leftarrow> fetchByteLengthOf p (memory s); string_loop 0 len p [] s }"

fun store_string :: "int \<Rightarrow> int list \<Rightarrow> int \<Rightarrow> 'w interp \<Rightarrow> 'w interp option" where
  "store_string i [] p s = Some s" |
  "store_string i (b # bs) p s = do { s \<leftarrow> storeByte i p b s; store_string (i + 1) bs p s }"

definition stringObjectFor :: "int list option \<Rightarrow> 'w interp \<Rightarrow> (int \<times> 'w interp) option" where
  "stringObjectFor str s =
     (case str of None \<Rightarrow> Some (NilPointer, s)
      | Some bs \<Rightarrow> do {
          let bs = c_str bs;
          (p, s) \<leftarrow> newBytes ClassStringPointer (int (length bs)) s;
          s \<leftarrow> store_string 0 bs p s;
          Some (p, s)
        })"

section \<open>Errors and the name of the snapshot\<close>

definition primitiveBeSnapshotFile :: "'w devices \<Rightarrow> 'w interp \<Rightarrow> 'w interp option" where
  "primitiveBeSnapshotFile dv s =
     do {
       f \<leftarrow> stackTop s;
       n \<leftarrow> fetchPointer 1 f s;
       fileName \<leftarrow> stringFromObject n s;
       Some (in_world (set_image_name (hal dv) (c_str fileName)) s)
     }"

definition primitivePosixLastErrorOperation :: "'w devices \<Rightarrow> 'w interp \<Rightarrow> 'w interp option" where
  "primitivePosixLastErrorOperation dv s = (let s = pop 1 s in pushInteger (last_error (fileSystem dv) (world s)) s)"

definition primitivePosixErrorStringOperation :: "'w devices \<Rightarrow> 'w interp \<Rightarrow> 'w interp option" where
  "primitivePosixErrorStringOperation dv s =
     do {
       (code, s) \<leftarrow> popInteger s;
       let s = pop 1 s;
       if successFlag s then do { (p, s) \<leftarrow> stringObjectFor (error_text (fileSystem dv) code (world s)) s; push p s }
       else Some (unPop 2 s)
     }"

section \<open>Files\<close>

text \<open>The file descriptor in a descriptor object.\<close>

definition descriptor_value :: "int \<Rightarrow> 'w interp \<Rightarrow> (int \<times> 'w interp) option" where
  "descriptor_value p s = do { (v, s) \<leftarrow> positive32BitValueOf p s; Some (signed_take_bit 31 v, s) }"

definition descriptor_of :: "int \<Rightarrow> 'w interp \<Rightarrow> (int \<times> 'w interp) option" where
  "descriptor_of file s = do { d \<leftarrow> fetchPointer 8 file s; descriptor_value d s }"

definition has_descriptor :: "int \<Rightarrow> 'w interp \<Rightarrow> 'w interp option" where
  "has_descriptor file s = do { d \<leftarrow> fetchPointer 8 file s; Some (success (d \<noteq> NilPointer) s) }"

text \<open>The number of a page; page numbers start with 1, which is asserted.\<close>

definition page_number :: "int \<Rightarrow> 'w interp \<Rightarrow> (int \<times> 'w interp) option" where
  "page_number page s =
     do { (pageNumber, s) \<leftarrow> fetchInteger_ofObject 3 page s; if pageNumber \<ge> 1 then Some (pageNumber, s) else None }"

text \<open>The first result says that the code returned at once, because the position could not be reached.\<close>

definition read_page :: "'w devices \<Rightarrow> int \<Rightarrow> int \<Rightarrow> 'w interp \<Rightarrow> (bool \<times> 'w interp) option" where
  "read_page dv file page s =
     do {
       (fd, s) \<leftarrow> descriptor_of file s;
       (pageNumber, s) \<leftarrow> page_number page s;
       byteArray \<leftarrow> fetchPointer 1 page s;
       let position = (pageNumber - 1) * 512;
       let (r, w) = seek_to (fileSystem dv) fd position (world s);
       let s = s\<lparr>world := w\<rparr>;
       if r \<noteq> position then do { s \<leftarrow> push FalsePointer s; Some (True, s) }
       else do {
         let ((bytesInPage, bs), w) = read_bytes (fileSystem dv) fd 512 (world s);
         let s = s\<lparr>world := w\<rparr>;
         if bytesInPage > int (length bs) \<or> length bs > 512 then None
         else do {
           s \<leftarrow> store_string 0 (take (nat bytesInPage) bs) byteArray s;
           s \<leftarrow> storeInteger_ofObject_withValue 4 page bytesInPage s;
           s \<leftarrow> push TruePointer s;
           Some (False, s)
         }
       }
     }"

text \<open>The page is copied to a buffer of 512 bytes.\<close>

partial_function (option) fetch_page :: "int \<Rightarrow> int \<Rightarrow> int \<Rightarrow> int list \<Rightarrow> 'w interp \<Rightarrow> int list option" where
  "fetch_page i n p bs s =
     (if i < n then if i < 512 then do { b \<leftarrow> fetchByte_in i p s; fetch_page (i + 1) n p (bs @ [b]) s } else None
      else Some bs)"

definition write_page :: "'w devices \<Rightarrow> int \<Rightarrow> int \<Rightarrow> 'w interp \<Rightarrow> (bool \<times> 'w interp) option" where
  "write_page dv file page s =
     do {
       (fd, s) \<leftarrow> descriptor_of file s;
       (pageNumber, s) \<leftarrow> page_number page s;
       byteArray \<leftarrow> fetchPointer 1 page s;
       let position = (pageNumber - 1) * 512;
       let (r, w) = seek_to (fileSystem dv) fd position (world s);
       let s = s\<lparr>world := w\<rparr>;
       if r \<noteq> position then do { s \<leftarrow> push FalsePointer s; Some (True, s) }
       else do {
         (bytesInPage, s) \<leftarrow> fetchInteger_ofObject 4 page s;
         bs \<leftarrow> fetch_page 0 bytesInPage byteArray [] s;
         let (n, w) = write_bytes (fileSystem dv) fd bs bytesInPage (world s);
         s \<leftarrow> push_boolean (n = bytesInPage) (s\<lparr>world := w\<rparr>);
         Some (False, s)
       }
     }"

text \<open>The result of the truncation is compared with -1, which a Boolean never is.\<close>

definition truncate_file :: "'w devices \<Rightarrow> int \<Rightarrow> int \<Rightarrow> 'w interp \<Rightarrow> 'w interp option" where
  "truncate_file dv file page s =
     do {
       (fd, s) \<leftarrow> descriptor_of file s;
       (pageNumber, s) \<leftarrow> page_number page s;
       (bytesInPage, s) \<leftarrow> fetchInteger_ofObject 4 page s;
       let newSize = (pageNumber - 1) * 512 + bytesInPage;
       let (result, w) = truncate_to (fileSystem dv) fd newSize (world s);
       push_boolean ((of_bool result :: int) \<noteq> -1) (s\<lparr>world := w\<rparr>)
     }"

definition size_of_file :: "'w devices \<Rightarrow> int \<Rightarrow> 'w interp \<Rightarrow> 'w interp option" where
  "size_of_file dv file s =
     do {
       (fd, s) \<leftarrow> descriptor_of file s;
       let (sz, w) = file_size (fileSystem dv) fd (world s);
       let s = s\<lparr>world := w\<rparr>;
       if sz \<ge> 0 then do { (p, s) \<leftarrow> positive32BitIntegerFor sz s; push p s } else push NilPointer s
     }"

definition open_named :: "'w devices \<Rightarrow> int \<Rightarrow> int \<Rightarrow> 'w interp \<Rightarrow> 'w interp option" where
  "open_named dv file name s =
     do {
       fileName \<leftarrow> stringFromObject name s;
       let (fd, w) = open_file (fileSystem dv) (c_str fileName) (world s);
       let s = s\<lparr>world := w\<rparr>;
       if fd \<noteq> -1 then do {
         (p, s) \<leftarrow> positive32BitIntegerFor fd s;
         s \<leftarrow> storePointer 8 file p s;
         push TruePointer s
       } else push FalsePointer s
     }"

definition close_descriptor :: "'w devices \<Rightarrow> int \<Rightarrow> 'w interp \<Rightarrow> 'w interp option" where
  "close_descriptor dv file s =
     do {
       (fd, s) \<leftarrow> descriptor_of file s;
       let (result, w) = close_file (fileSystem dv) fd (world s);
       s \<leftarrow> storePointer 8 file NilPointer (s\<lparr>world := w\<rparr>);
       push_boolean (result \<noteq> -1) s
     }"

text \<open>The test at the end restores the stack after a failure; a return from the middle skips it.\<close>

definition restore_if_failed :: "int \<Rightarrow> 'w interp \<Rightarrow> 'w interp" where
  "restore_if_failed n s = (if successFlag s then s else unPop n s)"

definition file_operation :: "'w devices \<Rightarrow> int \<Rightarrow> int \<Rightarrow> int \<Rightarrow> int \<Rightarrow> 'w interp \<Rightarrow> 'w interp option" where
  "file_operation dv code file name page s =
     (if code = 0 \<or> code = 1 then do {
        s \<leftarrow> has_descriptor file s;
        let s = success (page \<noteq> NilPointer) s;
        if successFlag s then do {
          (returned, s) \<leftarrow> (if code = 0 then read_page dv file page s else write_page dv file page s);
          Some (if returned then s else restore_if_failed 4 s)
        } else Some (restore_if_failed 4 s)
      } else do {
        s \<leftarrow> (if code = 2 then do {
                s \<leftarrow> has_descriptor file s;
                let s = success (page \<noteq> NilPointer) s;
                if successFlag s then truncate_file dv file page s else Some s
              } else if code = 3 then do {
                s \<leftarrow> has_descriptor file s;
                if successFlag s then size_of_file dv file s else Some s
              } else if code = 4 then do {
                c \<leftarrow> classOf name s;
                let s = success (c = ClassStringPointer) s;
                if successFlag s then open_named dv file name s else Some s
              } else if code = 5 then close_descriptor dv file s
              else Some s);
        Some (restore_if_failed 4 s)
      })"

definition primitivePosixFileOperation :: "'w devices \<Rightarrow> 'w interp \<Rightarrow> 'w interp option" where
  "primitivePosixFileOperation dv s =
     do {
       (page, s) \<leftarrow> popStack s;
       (name, s) \<leftarrow> popStack s;
       (code, s) \<leftarrow> popInteger s;
       (file, s) \<leftarrow> popStack s;
       let s = success (0 \<le> code \<and> code \<le> 6) s;
       let s = success (file \<noteq> NilPointer) s;
       if successFlag s then file_operation dv code file name page s else Some (restore_if_failed 4 s)
     }"

section \<open>Directories\<close>

text \<open>Open a renamed file again at its old position.\<close>

definition reopen :: "'w devices \<Rightarrow> int \<Rightarrow> int list \<Rightarrow> int \<Rightarrow> 'w interp \<Rightarrow> 'w interp option" where
  "reopen dv file name oldPos s =
     do {
       let (fd, w) = open_file (fileSystem dv) name (world s);
       let s = s\<lparr>world := w\<rparr>;
       if fd \<noteq> -1 then do {
         (p, s) \<leftarrow> positive32BitIntegerFor fd s;
         s \<leftarrow> storePointer 8 file p s;
         Some (in_world (\<lambda>w. snd (seek_to (fileSystem dv) fd oldPos w)) s)
       } else storePointer 8 file NilPointer s
     }"

definition rename_operation :: "'w devices \<Rightarrow> int \<Rightarrow> int \<Rightarrow> 'w interp \<Rightarrow> 'w interp option" where
  "rename_operation dv newNameObjectPointer file s =
     do {
       d \<leftarrow> fetchPointer 8 file s;
       let wasOpen = (d \<noteq> NilPointer);
       (oldPos, s) \<leftarrow> (if wasOpen then do {
                         (fd, s) \<leftarrow> descriptor_value d s;
                         let (oldPos, w) = tell (fileSystem dv) fd (world s);
                         let (_, w) = close_file (fileSystem dv) fd w;
                         Some (oldPos, s\<lparr>world := w\<rparr>)
                       } else Some (0, s));
       newName \<leftarrow> stringFromObject newNameObjectPointer s;
       n \<leftarrow> fetchPointer 1 file s;
       oldName \<leftarrow> stringFromObject n s;
       let (ok, w) = rename_file (fileSystem dv) (c_str oldName) (c_str newName) (world s);
       let s = s\<lparr>world := w\<rparr>;
       if ok then do {
         s \<leftarrow> (if wasOpen then reopen dv file (c_str newName) oldPos s else Some s);
         s \<leftarrow> storePointer 1 file newNameObjectPointer s;
         push TruePointer s
       } else do {
         s \<leftarrow> (if wasOpen then reopen dv file (c_str oldName) oldPos s else Some s);
         push FalsePointer s
       }
     }"

fun store_names :: "int \<Rightarrow> int list list \<Rightarrow> int \<Rightarrow> 'w interp \<Rightarrow> 'w interp option" where
  "store_names i [] array s = Some s" |
  "store_names i (name # names) array s =
     do {
       (p, s) \<leftarrow> stringObjectFor (Some name) s;
       s \<leftarrow> storePointer i array p s;
       store_names (i + 1) names array s
     }"

definition enumerate_operation :: "'w devices \<Rightarrow> 'w interp \<Rightarrow> 'w interp option" where
  "enumerate_operation dv s =
     do {
       let (names, w) = enumerate_files (fileSystem dv) (world s);
       (array, s) \<leftarrow> newPointers ClassArrayPointer (int (length names)) (s\<lparr>world := w\<rparr>);
       s \<leftarrow> push array s;
       let (names, w) = enumerate_files (fileSystem dv) (world s);
       store_names 0 names array (s\<lparr>world := w\<rparr>)
     }"

definition primitivePosixDirectoryOperation :: "'w devices \<Rightarrow> 'w interp \<Rightarrow> 'w interp option" where
  "primitivePosixDirectoryOperation dv s =
     do {
       (arg2, s) \<leftarrow> popStack s;
       (arg1, s) \<leftarrow> popStack s;
       (code, s) \<leftarrow> popInteger s;
       let s = pop 1 s;
       let s = success (0 \<le> code \<and> code \<le> 3) s;
       b \<leftarrow> (if arg1 = NilPointer then Some True else do { c \<leftarrow> classOf arg1 s; Some (c = ClassStringPointer) });
       let s = success b s;
       if successFlag s then
         if code = 0 then do {
           name \<leftarrow> stringFromObject arg1 s;
           let (fd, w) = create_file (fileSystem dv) (c_str name) (world s);
           let s = s\<lparr>world := w\<rparr>;
           if fd \<noteq> -1 then do { (p, s) \<leftarrow> positive32BitIntegerFor fd s; push p s } else push NilPointer s
         } else if code = 1 then do {
           name \<leftarrow> stringFromObject arg1 s;
           let (ok, w) = delete_file (fileSystem dv) (c_str name) (world s);
           push_boolean ok (s\<lparr>world := w\<rparr>)
         } else if code = 2 then rename_operation dv arg1 arg2 s
         else enumerate_operation dv s
       else Some (unPop 4 s)
     }"

definition dispatchPrivatePrimitives :: "'w devices \<Rightarrow> 'w interp \<Rightarrow> 'w interp option" where
  "dispatchPrivatePrimitives dv s =
     (let i = primitiveIndex s
      in if i = 128 then primitiveBeSnapshotFile dv s else if i = 130 then primitivePosixFileOperation dv s
         else if i = 131 then primitivePosixDirectoryOperation dv s else if i = 132 then primitivePosixLastErrorOperation dv s
         else if i = 133 then primitivePosixErrorStringOperation dv s
         else Some (primitiveFail s))"

end
