(* ===== verification/VmSend.thy ===== *)
theory VmSend
  imports VmFile
begin

text \<open>
  Sending messages (\<^verbatim>\<open>smalltalk/src/interpreter.cpp\<close>): the lookup of a method in the dictionaries of a class and
  its superclasses, the method cache, the activation of a method, the control primitives and the dispatch of all
  primitives, and the execution of the method that was found.
\<close>

section \<open>Lookup\<close>

definition hash :: "int \<Rightarrow> int" where
  "hash p = drop_bit 1 p"

partial_function (option) dictionary_loop :: "int \<Rightarrow> int \<Rightarrow> bool \<Rightarrow> int \<Rightarrow> 'w interp \<Rightarrow> (bool \<times> 'w interp) option" where
  "dictionary_loop len index wrapAround dictionary s =
     do {
       nextSelector \<leftarrow> fetchPointer index dictionary s;
       if nextSelector = NilPointer then Some (False, s)
       else if nextSelector = messageSelector s then do {
         methodArray \<leftarrow> fetchPointer MethodArrayIndex dictionary s;
         x \<leftarrow> fetchPointer (index - SelectorStart) methodArray s;
         i \<leftarrow> primitiveIndexOf x s;
         Some (True, s\<lparr>newMethod := x, primitiveIndex := i\<rparr>)
       } else if index + 1 = len then
         if wrapAround then Some (False, s) else dictionary_loop len SelectorStart True dictionary s
       else dictionary_loop len (index + 1) wrapAround dictionary s
     }"

definition lookupMethodInDictionary :: "int \<Rightarrow> 'w interp \<Rightarrow> (bool \<times> 'w interp) option" where
  "lookupMethodInDictionary dictionary s =
     do {
       len \<leftarrow> fetchWordLengthOf dictionary (memory s);
       let msk = len - SelectorStart - 1;
       dictionary_loop len ((msk AND hash (messageSelector s)) + SelectorStart) False dictionary s
     }"

definition createActualMessage :: "'w interp \<Rightarrow> 'w interp option" where
  "createActualMessage s =
     do {
       (argumentArray, s) \<leftarrow> newPointers ClassArrayPointer (argumentCount s) s;
       (message, s) \<leftarrow> newPointers ClassMessagePointer 2 s;
       s \<leftarrow> storePointer 0 message (messageSelector s) s;
       s \<leftarrow> storePointer 1 message argumentArray s;
       s \<leftarrow> transfer_fromIndex_ofObject_toIndex_ofObject (argumentCount s) (stackPointer s - (argumentCount s - 1))
              (activeContext s) 0 argumentArray s;
       s \<leftarrow> push message (pop (argumentCount s) s);
       Some (s\<lparr>argumentCount := 1\<rparr>)
     }"

partial_function (option) search_classes :: "int \<Rightarrow> 'w interp \<Rightarrow> (bool \<times> 'w interp) option" where
  "search_classes currentClass s =
     (if currentClass \<noteq> NilPointer then do {
        dictionary \<leftarrow> fetchPointer MessageDictionaryIndex currentClass s;
        (found, s) \<leftarrow> lookupMethodInDictionary dictionary s;
        if found then Some (True, s) else do { c \<leftarrow> superclassOf currentClass s; search_classes c s }
      } else Some (False, s))"

text \<open>Without a method for \<^verbatim>\<open>doesNotUnderstand:\<close> the code recurses for ever.\<close>

partial_function (option) lookupMethodInClass :: "int \<Rightarrow> 'w interp \<Rightarrow> 'w interp option" where
  "lookupMethodInClass cls s =
     do {
       (found, s) \<leftarrow> search_classes cls s;
       if found then Some s
       else do {
         s \<leftarrow> createActualMessage s;
         lookupMethodInClass cls (s\<lparr>messageSelector := DoesNotUnderstandSelector\<rparr>)
       }
     }"

section \<open>The method cache\<close>

definition initializeMethodCache :: "'w interp \<Rightarrow> 'w interp" where
  "initializeMethodCache s = s\<lparr>methodCache := (\<lambda>i. NilPointer)\<rparr>"

definition cache_hash :: "int \<Rightarrow> int \<Rightarrow> int" where
  "cache_hash selector cls = push_bit 2 ((selector AND cls) AND 0xFF)"

definition fill_cache :: "int \<Rightarrow> int \<Rightarrow> 'w interp \<Rightarrow> 'w interp" where
  "fill_cache h cls s =
     s\<lparr>methodCache := (methodCache s)(h := messageSelector s, h + 1 := cls, h + 2 := newMethod s, h + 3 := primitiveIndex s)\<rparr>"

definition findNewMethodInClass :: "int \<Rightarrow> 'w interp \<Rightarrow> 'w interp option" where
  "findNewMethodInClass cls s =
     (let h = cache_hash (messageSelector s) cls
      in if methodCache s h = messageSelector s \<and> methodCache s (h + 1) = cls
         then Some (s\<lparr>newMethod := methodCache s (h + 2), primitiveIndex := methodCache s (h + 3)\<rparr>)
         else do { s \<leftarrow> lookupMethodInClass cls s; Some (fill_cache h cls s) })"

section \<open>Activation\<close>

definition activateNewMethod :: "'w interp \<Rightarrow> 'w interp option" where
  "activateNewMethod s =
     do {
       large \<leftarrow> largeContextFlagOf (newMethod s) s;
       let contextSize = (if large = 1 then 32 + TempFrameStart else 12 + TempFrameStart);
       (newContext, s) \<leftarrow> newPointers ClassMethodContextPointer contextSize s;
       s \<leftarrow> storePointer SenderIndex newContext (activeContext s) s;
       ip \<leftarrow> initialInstructionPointerOfMethod (newMethod s) s;
       s \<leftarrow> storeInstructionPointerValue_inContext ip newContext s;
       n \<leftarrow> temporaryCountOf (newMethod s) s;
       s \<leftarrow> storeStackPointerValue_inContext n newContext s;
       s \<leftarrow> storePointer MethodIndex newContext (newMethod s) s;
       s \<leftarrow> transfer_fromIndex_ofObject_toIndex_ofObject (argumentCount s + 1) (stackPointer s - argumentCount s)
              (activeContext s) ReceiverIndex newContext s;
       newActiveContext newContext (pop (argumentCount s + 1) s)
     }"

section \<open>Blocks\<close>

definition primitiveBlockCopy :: "'w interp \<Rightarrow> 'w interp option" where
  "primitiveBlockCopy s =
     do {
       (blockArgumentCount, s) \<leftarrow> popStack s;
       (context, s) \<leftarrow> popStack s;
       b \<leftarrow> isBlockContext context s;
       methodContext \<leftarrow> (if b then fetchPointer HomeIndex context s else Some context);
       contextSize \<leftarrow> fetchWordLengthOf methodContext (memory s);
       (newContext, s) \<leftarrow> newPointers ClassBlockContextPointer contextSize s;
       let initialIP = integerObjectOf (instructionPointer s + 3);
       s \<leftarrow> storePointer InitialIPIndex newContext initialIP s;
       s \<leftarrow> storePointer InstructionPointerIndex newContext initialIP s;
       s \<leftarrow> storeStackPointerValue_inContext 0 newContext s;
       s \<leftarrow> storePointer BlockArgumentCountIndex newContext blockArgumentCount s;
       s \<leftarrow> storePointer HomeIndex newContext methodContext s;
       push newContext s
     }"

text \<open>Start a block whose arguments have been moved into it.\<close>

definition enter_block :: "int \<Rightarrow> int \<Rightarrow> 'w interp \<Rightarrow> 'w interp option" where
  "enter_block n blockContext s =
     do {
       initialIP \<leftarrow> fetchPointer InitialIPIndex blockContext s;
       s \<leftarrow> storePointer InstructionPointerIndex blockContext initialIP s;
       s \<leftarrow> storeStackPointerValue_inContext n blockContext s;
       s \<leftarrow> storePointer CallerIndex blockContext (activeContext s) s;
       newActiveContext blockContext s
     }"

definition primitiveValue :: "'w interp \<Rightarrow> 'w interp option" where
  "primitiveValue s =
     do {
       blockContext \<leftarrow> stackValue (argumentCount s) s;
       (blockArgumentCount, s) \<leftarrow> argumentCountOfBlock blockContext s;
       let s = success (argumentCount s = blockArgumentCount) s;
       if successFlag s then do {
         s \<leftarrow> transfer_fromIndex_ofObject_toIndex_ofObject (argumentCount s) (stackPointer s - argumentCount s + 1)
                (activeContext s) TempFrameStart blockContext s;
         enter_block (argumentCount s) blockContext (pop (argumentCount s + 1) s)
       } else Some s
     }"

definition primitiveValueWithArgs :: "'w interp \<Rightarrow> 'w interp option" where
  "primitiveValueWithArgs s =
     do {
       (argumentArray, s) \<leftarrow> popStack s;
       (blockContext, s) \<leftarrow> popStack s;
       (blockArgumentCount, s) \<leftarrow> argumentCountOfBlock blockContext s;
       arrayClass \<leftarrow> classOf argumentArray s;
       let s = success (arrayClass = ClassArrayPointer) s;
       (n, s) \<leftarrow> (if successFlag s then do {
                    n \<leftarrow> fetchWordLengthOf argumentArray (memory s);
                    Some (n, success (n = blockArgumentCount) s)
                  } else Some (0, s));
       if successFlag s then do {
         s \<leftarrow> transfer_fromIndex_ofObject_toIndex_ofObject n 0 argumentArray TempFrameStart blockContext s;
         enter_block n blockContext s
       } else Some (unPop 2 s)
     }"

section \<open>Performing\<close>

text \<open>The code of these two ends with the execution of the method that was found.  That call is left to the caller:
the first result says that it is due.\<close>

definition primitivePerform :: "'w interp \<Rightarrow> (bool \<times> 'w interp) option" where
  "primitivePerform s =
     do {
       let performSelector = messageSelector s;
       sel \<leftarrow> stackValue (argumentCount s - 1) s;
       newReceiver \<leftarrow> stackValue (argumentCount s) s;
       c \<leftarrow> classOf newReceiver s;
       s \<leftarrow> lookupMethodInClass c (s\<lparr>messageSelector := sel\<rparr>);
       n \<leftarrow> argumentCountOf (newMethod s) s;
       let s = success (n = argumentCount s - 1) s;
       if successFlag s then do {
         let selectorIndex = stackPointer s - argumentCount s + 1;
         s \<leftarrow> transfer_fromIndex_ofObject_toIndex_ofObject (argumentCount s - 1) (selectorIndex + 1) (activeContext s)
                selectorIndex (activeContext s) s;
         let s = pop 1 s;
         Some (True, s\<lparr>argumentCount := argumentCount s - 1\<rparr>)
       } else Some (False, s\<lparr>messageSelector := performSelector\<rparr>)
     }"

partial_function (option) push_arguments :: "int \<Rightarrow> int \<Rightarrow> 'w interp \<Rightarrow> 'w interp option" where
  "push_arguments index argumentArray s =
     (if index \<le> argumentCount s then do {
        x \<leftarrow> fetchPointer (index - 1) argumentArray s;
        s \<leftarrow> push x s;
        push_arguments (index + 1) argumentArray s
      } else Some s)"

definition primitivePerformWithArgs :: "'w interp \<Rightarrow> (bool \<times> 'w interp) option" where
  "primitivePerformWithArgs s =
     do {
       (argumentArray, s) \<leftarrow> popStack s;
       arraySize \<leftarrow> fetchWordLengthOf argumentArray (memory s);
       arrayClass \<leftarrow> classOf argumentArray s;
       n \<leftarrow> fetchWordLengthOf (activeContext s) (memory s);
       let s = success (stackPointer s + arraySize < n) s;
       let s = success (arrayClass = ClassArrayPointer) s;
       if successFlag s then do {
         let performSelector = messageSelector s;
         (sel, s) \<leftarrow> popStack s;
         let s = s\<lparr>messageSelector := sel\<rparr>;
         thisReceiver \<leftarrow> stackTop s;
         s \<leftarrow> push_arguments 1 argumentArray (s\<lparr>argumentCount := arraySize\<rparr>);
         c \<leftarrow> classOf thisReceiver s;
         s \<leftarrow> lookupMethodInClass c s;
         k \<leftarrow> argumentCountOf (newMethod s) s;
         let s = success (k = argumentCount s) s;
         if successFlag s then Some (True, s)
         else do {
           let s = unPop (argumentCount s) s;
           s \<leftarrow> push (messageSelector s) s;
           s \<leftarrow> push argumentArray s;
           Some (False, s\<lparr>argumentCount := 2, messageSelector := performSelector\<rparr>)
         }
       } else Some (False, unPop 1 s)
     }"

definition primitiveFlushCache :: "'w interp \<Rightarrow> 'w interp option" where
  "primitiveFlushCache s = Some (initializeMethodCache s)"

text \<open>A primitive after which no call is due.\<close>

definition no_call :: "'w interp option \<Rightarrow> (bool \<times> 'w interp) option" where
  "no_call r = do { s \<leftarrow> r; Some (False, s) }"

definition dispatchControlPrimitives :: "'w interp \<Rightarrow> (bool \<times> 'w interp) option" where
  "dispatchControlPrimitives s =
     (let i = primitiveIndex s
      in if i = 80 then no_call (primitiveBlockCopy s) else if i = 81 then no_call (primitiveValue s)
         else if i = 82 then no_call (primitiveValueWithArgs s) else if i = 83 then primitivePerform s
         else if i = 84 then primitivePerformWithArgs s else if i = 85 then no_call (primitiveSignal s)
         else if i = 86 then no_call (primitiveWait s) else if i = 87 then no_call (primitiveResume s)
         else if i = 88 then no_call (primitiveSuspend s) else if i = 89 then no_call (primitiveFlushCache s)
         else Some (False, s))"

definition dispatchPrimitives :: "'w devices \<Rightarrow> 'w interp \<Rightarrow> (bool \<times> 'w interp) option" where
  "dispatchPrimitives dv s =
     (let i = primitiveIndex s
      in if i < 60 then no_call (dispatchArithmeticPrimitives (floats dv) s)
         else if i < 68 then no_call (dispatchSubscriptAndStreamPrimitives s)
         else if i < 80 then no_call (dispatchStorageManagementPrimitives s)
         else if i < 90 then dispatchControlPrimitives s
         else if i < 110 then no_call (dispatchInputOutputPrimitives dv s)
         else if i < 128 then no_call (dispatchSystemPrimitives dv s)
         else if i < 256 then no_call (dispatchPrivatePrimitives dv s)
         else Some (False, s))"

section \<open>Execution\<close>

definition quickReturnSelf :: "'w interp \<Rightarrow> 'w interp" where
  "quickReturnSelf s = s"

definition quickInstanceLoad :: "'w interp \<Rightarrow> 'w interp option" where
  "quickInstanceLoad s =
     do {
       (thisReceiver, s) \<leftarrow> popStack s;
       fieldIndex \<leftarrow> fieldIndexOf (newMethod s) s;
       x \<leftarrow> fetchPointer fieldIndex thisReceiver s;
       push x s
     }"

text \<open>The response to a method: the result is whether it has been executed by a primitive or one of the two quick
execution.\<close>

definition quick_response :: "'w interp \<Rightarrow> (bool \<times> 'w interp) option" where
  "quick_response s =
     do {
       flagValue \<leftarrow> flagValueOf (newMethod s) s;
       if flagValue = 5 then Some (True, quickReturnSelf s)
       else if flagValue = 6 then do { s \<leftarrow> quickInstanceLoad s; Some (True, s) }
       else Some (False, s)
     }"

text \<open>\<^verbatim>\<open>primitiveResponse\<close> is expanded here, because a performing primitive comes back to this function.\<close>

partial_function (option) executeNewMethod :: "'w devices \<Rightarrow> 'w interp \<Rightarrow> 'w interp option" where
  "executeNewMethod dv s =
     do {
       (response, s) \<leftarrow>
         (if primitiveIndex s = 0 then quick_response s
          else do {
            (due, s) \<leftarrow> dispatchPrimitives dv (initPrimitive s);
            s \<leftarrow> (if due then executeNewMethod dv s else Some s);
            Some (successFlag s, s)
          });
       if response then Some s else activateNewMethod s
     }"

definition sendSelectorToClass :: "'w devices \<Rightarrow> int \<Rightarrow> 'w interp \<Rightarrow> 'w interp option" where
  "sendSelectorToClass dv classPointer s = do { s \<leftarrow> findNewMethodInClass classPointer s; executeNewMethod dv s }"

definition sendSelector_argumentCount :: "'w devices \<Rightarrow> int \<Rightarrow> int \<Rightarrow> 'w interp \<Rightarrow> 'w interp option" where
  "sendSelector_argumentCount dv selector count s =
     do {
       let s = s\<lparr>messageSelector := selector, argumentCount := count\<rparr>;
       newReceiver \<leftarrow> stackValue (argumentCount s) s;
       c \<leftarrow> classOf newReceiver s;
       sendSelectorToClass dv c s
     }"

end
