(* ===== verification/VmByte.thy ===== *)
theory VmByte
  imports VmSend
begin

text \<open>
  The bytecodes (\<^verbatim>\<open>smalltalk/src/interpreter.cpp\<close> and the inline functions of \<^verbatim>\<open>interpreter.h\<close>): sends, returns,
  the stack, jumps, the dispatch on a bytecode, one cycle of the interpreter, and its start from a snapshot.
\<close>

definition fetchByte :: "'w interp \<Rightarrow> (int \<times> 'w interp) option" where
  "fetchByte s =
     do { b \<leftarrow> fetchByte_in (instructionPointer s) (methodPointer s) s; Some (b, s\<lparr>instructionPointer := instructionPointer s + 1\<rparr>) }"

section \<open>Sends\<close>

definition commonSelectorPrimitive :: "'w interp \<Rightarrow> 'w interp option" where
  "commonSelectorPrimitive s =
     do {
       (n, s) \<leftarrow> fetchInteger_ofObject ((currentBytecode s - 176) * 2 + 1) SpecialSelectorsPointer s;
       let s = s\<lparr>argumentCount := n\<rparr>;
       r \<leftarrow> stackValue (argumentCount s) s;
       receiverClass \<leftarrow> classOf r s;
       if currentBytecode s = 198 then primitiveEquivalent s
       else if currentBytecode s = 199 then primitiveClass s
       else if currentBytecode s = 200 then
         let s = success (receiverClass = ClassMethodContextPointer \<or> receiverClass = ClassBlockContextPointer) s
         in if successFlag s then primitiveBlockCopy s else Some s
       else if currentBytecode s = 201 \<or> currentBytecode s = 202 then
         let s = success (receiverClass = ClassBlockContextPointer) s
         in if successFlag s then primitiveValue s else Some s
       else Some (primitiveFail s)
     }"

definition specialSelectorPrimitiveResponse :: "'w interp \<Rightarrow> (bool \<times> 'w interp) option" where
  "specialSelectorPrimitiveResponse s =
     do {
       let s = initPrimitive s;
       s \<leftarrow> (if 176 \<le> currentBytecode s \<and> currentBytecode s \<le> 191 then arithmeticSelectorPrimitive s
            else if 192 \<le> currentBytecode s \<and> currentBytecode s \<le> 207 then commonSelectorPrimitive s
            else Some s);
       Some (successFlag s, s)
     }"

definition sendSpecialSelectorBytecode :: "'w devices \<Rightarrow> 'w interp \<Rightarrow> 'w interp option" where
  "sendSpecialSelectorBytecode dv s =
     do {
       (response, s) \<leftarrow> specialSelectorPrimitiveResponse s;
       if response then Some s
       else do {
         let selectorIndex = (currentBytecode s - 176) * 2;
         selector \<leftarrow> fetchPointer selectorIndex SpecialSelectorsPointer s;
         (count, s) \<leftarrow> fetchInteger_ofObject (selectorIndex + 1) SpecialSelectorsPointer s;
         sendSelector_argumentCount dv selector count s
       }
     }"

definition send_super :: "'w devices \<Rightarrow> 'w interp \<Rightarrow> 'w interp option" where
  "send_super dv s =
     do { methodClass \<leftarrow> methodClassOf (methodPointer s) s; c \<leftarrow> superclassOf methodClass s; sendSelectorToClass dv c s }"

definition singleExtendedSendBytecode :: "'w devices \<Rightarrow> 'w interp \<Rightarrow> 'w interp option" where
  "singleExtendedSendBytecode dv s =
     do {
       (descriptor, s) \<leftarrow> fetchByte s;
       selector \<leftarrow> literal (extractBits_to_of 11 15 descriptor) s;
       sendSelector_argumentCount dv selector (extractBits_to_of 8 10 descriptor) s
     }"

definition doubleExtendedSendBytecode :: "'w devices \<Rightarrow> 'w interp \<Rightarrow> 'w interp option" where
  "doubleExtendedSendBytecode dv s =
     do {
       (count, s) \<leftarrow> fetchByte s;
       (i, s) \<leftarrow> fetchByte s;
       selector \<leftarrow> literal i s;
       sendSelector_argumentCount dv selector count s
     }"

definition singleExtendedSuperBytecode :: "'w devices \<Rightarrow> 'w interp \<Rightarrow> 'w interp option" where
  "singleExtendedSuperBytecode dv s =
     do {
       (descriptor, s) \<leftarrow> fetchByte s;
       let s = s\<lparr>argumentCount := extractBits_to_of 8 10 descriptor\<rparr>;
       selector \<leftarrow> literal (extractBits_to_of 11 15 descriptor) s;
       send_super dv (s\<lparr>messageSelector := selector\<rparr>)
     }"

definition doubleExtendedSuperBytecode :: "'w devices \<Rightarrow> 'w interp \<Rightarrow> 'w interp option" where
  "doubleExtendedSuperBytecode dv s =
     do {
       (n, s) \<leftarrow> fetchByte s;
       let s = s\<lparr>argumentCount := n\<rparr>;
       (i, s) \<leftarrow> fetchByte s;
       selector \<leftarrow> literal i s;
       send_super dv (s\<lparr>messageSelector := selector\<rparr>)
     }"

definition extendedSendBytecode :: "'w devices \<Rightarrow> 'w interp \<Rightarrow> 'w interp option" where
  "extendedSendBytecode dv s =
     (if currentBytecode s = 131 then singleExtendedSendBytecode dv s
      else if currentBytecode s = 132 then doubleExtendedSendBytecode dv s
      else if currentBytecode s = 133 then singleExtendedSuperBytecode dv s
      else if currentBytecode s = 134 then doubleExtendedSuperBytecode dv s
      else Some s)"

definition sendLiteralSelectorBytecode :: "'w devices \<Rightarrow> 'w interp \<Rightarrow> 'w interp option" where
  "sendLiteralSelectorBytecode dv s =
     do {
       selector \<leftarrow> literal (extractBits_to_of 12 15 (currentBytecode s)) s;
       sendSelector_argumentCount dv selector (extractBits_to_of 10 11 (currentBytecode s) - 1) s
     }"

definition sendBytecode :: "'w devices \<Rightarrow> 'w interp \<Rightarrow> 'w interp option" where
  "sendBytecode dv s =
     (let b = currentBytecode s
      in if 131 \<le> b \<and> b \<le> 134 then extendedSendBytecode dv s
         else if 176 \<le> b \<and> b \<le> 207 then sendSpecialSelectorBytecode dv s
         else if 208 \<le> b \<and> b \<le> 255 then sendLiteralSelectorBytecode dv s
         else Some s)"

definition sendMustBeBoolean :: "'w devices \<Rightarrow> 'w interp \<Rightarrow> 'w interp option" where
  "sendMustBeBoolean dv s = sendSelector_argumentCount dv MustBeBooleanSelector 0 s"

section \<open>Returns\<close>

definition nilContextFields :: "'w interp \<Rightarrow> 'w interp option" where
  "nilContextFields s =
     do {
       s \<leftarrow> storePointer SenderIndex (activeContext s) NilPointer s;
       storePointer InstructionPointerIndex (activeContext s) NilPointer s
     }"

definition returnToActiveContext :: "int \<Rightarrow> 'w interp \<Rightarrow> 'w interp option" where
  "returnToActiveContext c s =
     do {
       s \<leftarrow> in_memory (increaseReferencesTo c) s;
       s \<leftarrow> nilContextFields s;
       s \<leftarrow> in_memory (decreaseReferencesTo (activeContext s)) s;
       fetchContextRegisters (s\<lparr>activeContext := c\<rparr>)
     }"

definition send_cannot_return :: "'w devices \<Rightarrow> int \<Rightarrow> 'w interp \<Rightarrow> 'w interp option" where
  "send_cannot_return dv resultPointer s =
     do {
       s \<leftarrow> push (activeContext s) s;
       s \<leftarrow> push resultPointer s;
       sendSelector_argumentCount dv CannotReturnSelector 1 s
     }"

definition returnValue_to :: "'w devices \<Rightarrow> int \<Rightarrow> int \<Rightarrow> 'w interp \<Rightarrow> 'w interp option" where
  "returnValue_to dv resultPointer contextPointer s =
     (if contextPointer = NilPointer then send_cannot_return dv resultPointer s
      else do {
        sendersIP \<leftarrow> fetchPointer InstructionPointerIndex contextPointer s;
        if sendersIP = NilPointer then send_cannot_return dv resultPointer s
        else do {
          s \<leftarrow> in_memory (increaseReferencesTo resultPointer) s;
          s \<leftarrow> returnToActiveContext contextPointer s;
          s \<leftarrow> push resultPointer s;
          in_memory (decreaseReferencesTo resultPointer) s
        }
      })"

definition returnBytecode :: "'w devices \<Rightarrow> 'w interp \<Rightarrow> 'w interp option" where
  "returnBytecode dv s =
     (let b = currentBytecode s
      in if b = 120 then do { c \<leftarrow> sender s; returnValue_to dv (receiver s) c s }
         else if b = 121 then do { c \<leftarrow> sender s; returnValue_to dv TruePointer c s }
         else if b = 122 then do { c \<leftarrow> sender s; returnValue_to dv FalsePointer c s }
         else if b = 123 then do { c \<leftarrow> sender s; returnValue_to dv NilPointer c s }
         else if b = 124 then do { (x, s) \<leftarrow> popStack s; c \<leftarrow> sender s; returnValue_to dv x c s }
         else if b = 125 then do { (x, s) \<leftarrow> popStack s; c \<leftarrow> caller s; returnValue_to dv x c s }
         else Some s)"

section \<open>The stack\<close>

abbreviation (input) MinusOnePointer :: int where "MinusOnePointer \<equiv> 65535"
abbreviation (input) ZeroPointer :: int where "ZeroPointer \<equiv> 1"
abbreviation (input) OnePointer :: int where "OnePointer \<equiv> 3"
abbreviation (input) TwoPointer :: int where "TwoPointer \<equiv> 5"

definition pushReceiverVariable :: "int \<Rightarrow> 'w interp \<Rightarrow> 'w interp option" where
  "pushReceiverVariable i s = do { x \<leftarrow> fetchPointer i (receiver s) s; push x s }"

definition pushTemporaryVariable :: "int \<Rightarrow> 'w interp \<Rightarrow> 'w interp option" where
  "pushTemporaryVariable i s = do { x \<leftarrow> temporary i s; push x s }"

definition pushLiteralConstant :: "int \<Rightarrow> 'w interp \<Rightarrow> 'w interp option" where
  "pushLiteralConstant i s = do { x \<leftarrow> literal i s; push x s }"

definition pushLiteralVariable :: "int \<Rightarrow> 'w interp \<Rightarrow> 'w interp option" where
  "pushLiteralVariable i s = do { association \<leftarrow> literal i s; x \<leftarrow> fetchPointer ValueIndex association s; push x s }"

definition pushReceiverVariableBytecode :: "'w interp \<Rightarrow> 'w interp option" where
  "pushReceiverVariableBytecode s = pushReceiverVariable (extractBits_to_of 12 15 (currentBytecode s)) s"

definition pushTemporaryVariableBytecode :: "'w interp \<Rightarrow> 'w interp option" where
  "pushTemporaryVariableBytecode s = pushTemporaryVariable (extractBits_to_of 12 15 (currentBytecode s)) s"

definition pushLiteralConstantBytecode :: "'w interp \<Rightarrow> 'w interp option" where
  "pushLiteralConstantBytecode s = pushLiteralConstant (extractBits_to_of 11 15 (currentBytecode s)) s"

definition pushLiteralVariableBytecode :: "'w interp \<Rightarrow> 'w interp option" where
  "pushLiteralVariableBytecode s = pushLiteralVariable (extractBits_to_of 11 15 (currentBytecode s)) s"

definition storeAndPopReceiverVariableBytecode :: "'w interp \<Rightarrow> 'w interp option" where
  "storeAndPopReceiverVariableBytecode s =
     do {
       let variableIndex = extractBits_to_of 13 15 (currentBytecode s);
       (x, s) \<leftarrow> popStack s;
       storePointer variableIndex (receiver s) x s
     }"

definition storeAndPopTemporaryVariableBytecode :: "'w interp \<Rightarrow> 'w interp option" where
  "storeAndPopTemporaryVariableBytecode s =
     do {
       let variableIndex = extractBits_to_of 13 15 (currentBytecode s);
       (x, s) \<leftarrow> popStack s;
       storePointer (variableIndex + TempFrameStart) (homeContext s) x s
     }"

definition pushReceiverBytecode :: "'w interp \<Rightarrow> 'w interp option" where
  "pushReceiverBytecode s = push (receiver s) s"

definition duplicateTopBytecode :: "'w interp \<Rightarrow> 'w interp option" where
  "duplicateTopBytecode s = do { x \<leftarrow> stackTop s; push x s }"

definition pushActiveContextBytecode :: "'w interp \<Rightarrow> 'w interp option" where
  "pushActiveContextBytecode s = push (activeContext s) s"

definition popStackBytecode :: "'w interp \<Rightarrow> 'w interp option" where
  "popStackBytecode s = do { (_, s) \<leftarrow> popStack s; Some s }"

definition pushConstantBytecode :: "'w interp \<Rightarrow> 'w interp option" where
  "pushConstantBytecode s =
     (let b = currentBytecode s
      in if b = 113 then push TruePointer s else if b = 114 then push FalsePointer s
         else if b = 115 then push NilPointer s else if b = 116 then push MinusOnePointer s
         else if b = 117 then push ZeroPointer s else if b = 118 then push OnePointer s
         else if b = 119 then push TwoPointer s else Some s)"

definition extendedPushBytecode :: "'w interp \<Rightarrow> 'w interp option" where
  "extendedPushBytecode s =
     do {
       (descriptor, s) \<leftarrow> fetchByte s;
       let variableType = extractBits_to_of 8 9 descriptor;
       let variableIndex = extractBits_to_of 10 15 descriptor;
       if variableType = 0 then pushReceiverVariable variableIndex s
       else if variableType = 1 then pushTemporaryVariable variableIndex s
       else if variableType = 2 then pushLiteralConstant variableIndex s
       else if variableType = 3 then pushLiteralVariable variableIndex s
       else Some s
     }"

text \<open>A store into a literal constant is reported to the hardware layer, which stops the machine.\<close>

definition extendedStoreBytecode :: "'w interp \<Rightarrow> 'w interp option" where
  "extendedStoreBytecode s =
     do {
       (descriptor, s) \<leftarrow> fetchByte s;
       let variableType = extractBits_to_of 8 9 descriptor;
       let variableIndex = extractBits_to_of 10 15 descriptor;
       if variableType = 0 then do { x \<leftarrow> stackTop s; storePointer variableIndex (receiver s) x s }
       else if variableType = 1 then do { x \<leftarrow> stackTop s; storePointer (variableIndex + TempFrameStart) (homeContext s) x s }
       else if variableType = 2 then None
       else if variableType = 3 then do {
         association \<leftarrow> literal variableIndex s;
         x \<leftarrow> stackTop s;
         storePointer ValueIndex association x s
       } else Some s
     }"

definition extendedStoreAndPopBytecode :: "'w interp \<Rightarrow> 'w interp option" where
  "extendedStoreAndPopBytecode s = do { s \<leftarrow> extendedStoreBytecode s; popStackBytecode s }"

definition stackBytecode :: "'w interp \<Rightarrow> 'w interp option" where
  "stackBytecode s =
     (let b = currentBytecode s
      in if 0 \<le> b \<and> b \<le> 15 then pushReceiverVariableBytecode s
         else if 16 \<le> b \<and> b \<le> 31 then pushTemporaryVariableBytecode s
         else if 32 \<le> b \<and> b \<le> 63 then pushLiteralConstantBytecode s
         else if 64 \<le> b \<and> b \<le> 95 then pushLiteralVariableBytecode s
         else if 96 \<le> b \<and> b \<le> 103 then storeAndPopReceiverVariableBytecode s
         else if 104 \<le> b \<and> b \<le> 111 then storeAndPopTemporaryVariableBytecode s
         else if b = 112 then pushReceiverBytecode s
         else if 113 \<le> b \<and> b \<le> 119 then pushConstantBytecode s
         else if b = 128 then extendedPushBytecode s
         else if b = 129 then extendedStoreBytecode s
         else if b = 130 then extendedStoreAndPopBytecode s
         else if b = 135 then popStackBytecode s
         else if b = 136 then duplicateTopBytecode s
         else if b = 137 then pushActiveContextBytecode s
         else Some s)"

section \<open>Jumps\<close>

definition jump :: "int \<Rightarrow> 'w interp \<Rightarrow> 'w interp" where
  "jump offset s = s\<lparr>instructionPointer := instructionPointer s + offset\<rparr>"

definition jumpIf_by :: "'w devices \<Rightarrow> int \<Rightarrow> int \<Rightarrow> 'w interp \<Rightarrow> 'w interp option" where
  "jumpIf_by dv condition offset s =
     do {
       (boolean, s) \<leftarrow> popStack s;
       if boolean = condition then Some (jump offset s)
       else if \<not> (boolean = TruePointer \<or> boolean = FalsePointer) then sendMustBeBoolean dv (unPop 1 s)
       else Some s
     }"

definition shortUnconditionalJump :: "'w interp \<Rightarrow> 'w interp option" where
  "shortUnconditionalJump s = Some (jump (extractBits_to_of 13 15 (currentBytecode s) + 1) s)"

definition shortConditionalJump :: "'w devices \<Rightarrow> 'w interp \<Rightarrow> 'w interp option" where
  "shortConditionalJump dv s = jumpIf_by dv FalsePointer (extractBits_to_of 13 15 (currentBytecode s) + 1) s"

definition longUnconditionalJump :: "'w interp \<Rightarrow> 'w interp option" where
  "longUnconditionalJump s =
     do {
       let offset = extractBits_to_of 13 15 (currentBytecode s);
       (b, s) \<leftarrow> fetchByte s;
       Some (jump ((offset - 4) * 256 + b) s)
     }"

definition longConditionalJump :: "'w devices \<Rightarrow> 'w interp \<Rightarrow> 'w interp option" where
  "longConditionalJump dv s =
     do {
       let offset = extractBits_to_of 14 15 (currentBytecode s);
       (b, s) \<leftarrow> fetchByte s;
       let offset = offset * 256 + b;
       if 168 \<le> currentBytecode s \<and> currentBytecode s \<le> 171 then jumpIf_by dv TruePointer offset s
       else if 172 \<le> currentBytecode s \<and> currentBytecode s \<le> 175 then jumpIf_by dv FalsePointer offset s
       else Some s
     }"

definition jumpBytecode :: "'w devices \<Rightarrow> 'w interp \<Rightarrow> 'w interp option" where
  "jumpBytecode dv s =
     (let b = currentBytecode s
      in if 144 \<le> b \<and> b \<le> 151 then shortUnconditionalJump s
         else if 152 \<le> b \<and> b \<le> 159 then shortConditionalJump dv s
         else if 160 \<le> b \<and> b \<le> 167 then longUnconditionalJump s
         else if 168 \<le> b \<and> b \<le> 175 then longConditionalJump dv s
         else Some s)"

section \<open>The cycle\<close>

definition dispatchOnThisBytecode :: "'w devices \<Rightarrow> 'w interp \<Rightarrow> 'w interp option" where
  "dispatchOnThisBytecode dv s =
     (let b = currentBytecode s
      in if 0 \<le> b \<and> b \<le> 119 then stackBytecode s
         else if 120 \<le> b \<and> b \<le> 127 then returnBytecode dv s
         else if 128 \<le> b \<and> b \<le> 130 then stackBytecode s
         else if 131 \<le> b \<and> b \<le> 134 then sendBytecode dv s
         else if 135 \<le> b \<and> b \<le> 137 then stackBytecode s
         else if 144 \<le> b \<and> b \<le> 175 then jumpBytecode dv s
         else if 176 \<le> b \<and> b \<le> 255 then sendBytecode dv s
         else Some s)"

definition cycle :: "'w devices \<Rightarrow> 'w interp \<Rightarrow> 'w interp option" where
  "cycle dv s =
     do {
       s \<leftarrow> checkProcessSwitch s;
       (b, s) \<leftarrow> fetchByte s;
       dispatchOnThisBytecode dv (s\<lparr>currentBytecode := b\<rparr>)
     }"

text \<open>The endless loop, for so many bytecodes.\<close>

fun run_cycles :: "'w devices \<Rightarrow> nat \<Rightarrow> 'w interp \<Rightarrow> 'w interp option" where
  "run_cycles dv 0 s = Some s" |
  "run_cycles dv (Suc n) s = do { s \<leftarrow> cycle dv s; run_cycles dv n s }"

definition init :: "'w devices \<Rightarrow> image \<Rightarrow> 'w interp \<Rightarrow> (bool \<times> image \<times> 'w interp) option" where
  "init dv im s =
     do {
       let s = (initializeMethodCache s)\<lparr>semaphoreIndex := -1\<rparr>;
       (ok, im, m, w) \<leftarrow> loadSnapshot (fileSystem dv) (get_image_name (hal dv) (world s)) im (memory s) (world s);
       let s = s\<lparr>memory := m, world := w\<rparr>;
       if \<not> ok then Some (False, im, s)
       else do {
         (c, s) \<leftarrow> firstContext s;
         s \<leftarrow> in_memory (increaseReferencesTo c) (s\<lparr>activeContext := c\<rparr>);
         s \<leftarrow> fetchContextRegisters s;
         Some (True, im, s\<lparr>checkLowMemory := False, memoryIsLow := False, lowSpaceSemaphore := NilPointer, oopsLeftLimit := 0,
                           wordsLeftLimit := 0, currentDisplay := 0, currentCursor := 0, currentDisplayWidth := 0,
                           currentDisplayHeight := 0\<rparr>)
       }
     }"

end
