(* ===== verification/VmView.thy ===== *)
theory VmView
  imports VmByte OmTableProps OmSweepProps
begin

text \<open>
  The access of the interpreter to fields as reads and updates of the views of the object memory: what a field access
  returns, what storing a pointer changes, and the stack of the active context.
\<close>

section \<open>Fields\<close>

text \<open>An object in a heap segment with \<open>n\<close> fields.\<close>

definition has_fields :: "omem \<Rightarrow> int \<Rightarrow> int \<Rightarrow> bool" where
  "has_fields m p n \<longleftrightarrow> oop_ok p \<and> seg_of m p \<noteq> 15 \<and> 0 \<le> n \<and> hw m p 0 = n + 2 \<and> loc_of m p + n + 2 \<le> 65536"

text \<open>A small integer or the pointer of a table entry, and the content of a field.\<close>

definition pointer_ok :: "int \<Rightarrow> bool" where
  "pointer_ok v \<longleftrightarrow> 0 < v \<and> v < 65536 \<and> (isIntegerObject v \<or> oop_ok v)"

definition field :: "omem \<Rightarrow> int \<Rightarrow> int \<Rightarrow> int" where
  "field m p i = hw m p (i + 2)"

text \<open>Overwriting the pointer does not free its object.\<close>

definition stays :: "omem \<Rightarrow> int \<Rightarrow> bool" where
  "stays m v \<longleftrightarrow> isIntegerObject v \<or> (oop_ok v \<and> 2 \<le> count_of m v)"

lemma has_fieldsD:
  assumes "has_fields m p n"
  shows "oop_ok p" "seg_of m p \<noteq> 15" "hw m p 0 = n + 2" "0 \<le> n"
    "0 \<le> i \<Longrightarrow> i < n + 2 \<Longrightarrow> in_chunk m p i"
  using assms entry_bounds [of m p] by (auto simp: has_fields_def in_chunk_def)

lemma field_reads:
  assumes "has_fields m p n"
  shows "fetchWordLengthOf p m = Some n"
    "0 \<le> i \<Longrightarrow> i < n \<Longrightarrow> fetchPointer_ofObject i p m = Some (field m p i)"
    "0 \<le> i \<Longrightarrow> i < n \<Longrightarrow> fetchWord_ofObject i p m = Some (field m p i)"
    "\<not> (0 \<le> i \<and> i < n) \<Longrightarrow> fetchPointer_ofObject i p m = None"
    "fetchClassOf p m = Some (hw m p 1)"
proof -
  note f = has_fieldsD [OF assms]
  have len: "fetchWordLengthOf p m = Some n"
    using f by (simp add: fetchWordLengthOf_def sizeBitsOf_def)
  then show "fetchWordLengthOf p m = Some n" .
  show "fetchPointer_ofObject i p m = Some (field m p i)" if "0 \<le> i" "i < n"
    using that f len by (simp add: fetchPointer_ofObject_def field_def add.commute)
  show "fetchWord_ofObject i p m = Some (field m p i)" if "0 \<le> i" "i < n"
    using that f len by (simp add: fetchWord_ofObject_def field_def add.commute)
  show "fetchPointer_ofObject i p m = None" if "\<not> (0 \<le> i \<and> i < n)"
    using that len by (auto simp: fetchPointer_ofObject_def)
  show "fetchClassOf p m = Some (hw m p 1)"
    using f by (simp add: fetchClassOf_def classBitsOf_def)
qed

lemma counts_onlyD:
  assumes "counts_only m m'" "oop_ok p"
  shows "seg_of m' p = seg_of m p" "loc_of m' p = loc_of m p" "ptr_of m' p = ptr_of m p" "odd_of m' p = odd_of m p"
    "free_of m' p = free_of m p"
  using assms same_tableD [of m m' p] by (auto simp: counts_only_def)

lemma counts_only_fields:
  assumes "counts_only m m'" "has_fields m p n"
  shows "has_fields m' p n" "field m' p i = field m p i"
  using assms has_fieldsD [OF assms(2)] counts_onlyD [OF assms(1), of p] counts_only_hw [OF assms(1), of p]
  by (auto simp: has_fields_def field_def)

section \<open>Storing a pointer\<close>

text \<open>Field \<open>i\<close> of \<open>p\<close> is \<open>v\<close>, and besides it only counts have changed.\<close>

definition stored :: "int \<Rightarrow> int \<Rightarrow> int \<Rightarrow> omem \<Rightarrow> omem \<Rightarrow> bool" where
  "stored i p v m m' \<longleftrightarrow> (\<exists>m1. counts_only m m1 \<and> m' = put_hw p (i + 2) v m1)"

lemma countDown_stays:
  assumes "stays m v"
  shows "\<exists>m'. countDown v m = Some (if isIntegerObject v then v else NilPointer, m') \<and> counts_only m m' \<and>
     (\<forall>q. oop_ok q \<longrightarrow> q \<noteq> v \<longrightarrow> count_of m' q = count_of m q) \<and> (isIntegerObject v \<longrightarrow> m' = m)"
proof (cases "isIntegerObject v")
  case True
  then show ?thesis by (simp add: countDown_def counts_onlyI)
next
  case False
  then have v: "oop_ok v" "2 \<le> count_of m v" using assms by (auto simp: stays_def)
  then show ?thesis using False entry_bounds [of m v]
    by (auto simp: countDown_def forAllObjectsAccessibleFrom_suchThat_do_def down_predicate_def counts_onlyI)
qed

lemma storePointer_view:
  assumes f: "has_fields m p n" "0 \<le> i" "i < n" and v: "pointer_ok v" and old: "stays m (field m p i)"
  shows "\<exists>m'. storePointer_ofObject_withValue i p v m = Some m' \<and> stored i p v m m'"
proof -
  note h = has_fieldsD [OF f(1)]
  define m1 where "m1 = (if \<not> isIntegerObject v \<and> count_of m v < 128 then put_bits 8 8 v (count_of m v + 1) m else m)"
  have up: "countUp v m = Some m1" using v countUp_view [of v m] by (auto simp: pointer_ok_def m1_def)
  have c1: "counts_only m m1" using v by (auto simp: m1_def pointer_ok_def counts_onlyI)
  have f1: "has_fields m1 p n" "field m1 p i = field m p i" by (rule counts_only_fields [OF c1 f(1)])+
  have "oop_ok q \<Longrightarrow> count_of m q \<le> count_of m1 q" for q
    using v entry_bounds [of m v] by (auto simp: m1_def pointer_ok_def)
  then have "stays m1 (field m1 p i)" using old f1(2) by (fastforce simp: stays_def)
  from countDown_stays [OF this] obtain r m2
    where down: "countDown (field m1 p i) m1 = Some (r, m2)" and c2: "counts_only m1 m2" by blast
  have "fetchWordLengthOf p m = Some n" by (rule field_reads(1) [OF f(1)])
  moreover have "heapChunkOf_word p (i + 2) m1 = Some (field m1 p i)"
    using has_fieldsD(5) [OF f1(1), of "i + 2"] f by (simp add: field_def)
  moreover have "heapChunkOf_word_put p (i + 2) v m2 = Some (put_hw p (i + 2) v m2)"
    using has_fieldsD(5) [OF counts_only_fields(1) [OF c2 f1(1)], of "i + 2"] f v by (simp add: pointer_ok_def)
  ultimately have "storePointer_ofObject_withValue i p v m = Some (put_hw p (i + 2) v m2)"
    using f v up down by (simp add: storePointer_ofObject_withValue_def pointer_ok_def add.commute)
  then show ?thesis using counts_only_trans [OF c1 c2] by (auto simp: stored_def)
qed

lemma stored_other:
  assumes "stored i p v m m'" "has_fields m p n" "0 \<le> i" "i < n" "pointer_ok v"
  shows "same_table m m'" "field m' p j = (if j = i then v else field m p j)"
    "oop_ok q \<Longrightarrow> seg_of m q \<noteq> 15 \<Longrightarrow> hw m' q j = (if same_word m p (i + 2) q j then v else hw m q j)"
    "has_fields m' p n"
proof -
  obtain m1 where m1: "counts_only m m1" "m' = put_hw p (i + 2) v m1" using assms(1) by (auto simp: stored_def)
  note p = has_fieldsD(1,2) [OF assms(2)]
  have p1: "seg_of m1 p \<noteq> 15" using p counts_onlyD(1) [OF m1(1)] by simp
  have v: "0 \<le> v" "v < 65536" using assms(5) by (auto simp: pointer_ok_def)
  show st: "same_table m m'"
    using m1 same_table_puts(2) [OF p1] by (auto simp: counts_only_def intro: same_table_trans)
  show hws: "hw m' q j = (if same_word m p (i + 2) q j then v else hw m q j)" if "oop_ok q" "seg_of m q \<noteq> 15" for q j
    using hw_put_hw [OF p1 v] m1 counts_only_hw [OF m1(1) that] counts_onlyD(1,2) [OF m1(1) that(1)]
      counts_onlyD(1,2) [OF m1(1) p(1)] by (simp add: same_word_def)
  show "field m' p j = (if j = i then v else field m p j)"
    using hws [OF p] by (simp add: field_def same_word_def)
  show "has_fields m' p n"
    using assms(2-4) hws [OF p, of 0] same_tableD(1,2) [OF st p(1)] by (auto simp: has_fields_def same_word_def)
qed

text \<open>Two objects that share no words.\<close>

definition disjoint_objects :: "omem \<Rightarrow> int \<Rightarrow> int \<Rightarrow> bool" where
  "disjoint_objects m p q \<longleftrightarrow> seg_of m p \<noteq> seg_of m q \<or> loc_of m p + hw m p 0 \<le> loc_of m q \<or> loc_of m q + hw m q 0 \<le> loc_of m p"

section \<open>The stack\<close>

text \<open>The active context has \<open>n\<close> fields and the top of the stack is one of them.\<close>

definition stack_ok :: "'w interp \<Rightarrow> int \<Rightarrow> bool" where
  "stack_ok s n \<longleftrightarrow> has_fields (memory s) (activeContext s) n \<and> 0 \<le> stackPointer s \<and> stackPointer s < n"

text \<open>The value \<open>i\<close> places below the top.\<close>

definition below_top :: "'w interp \<Rightarrow> int \<Rightarrow> int" where
  "below_top s i = field (memory s) (activeContext s) (stackPointer s - i)"

lemma stack_reads:
  assumes "stack_ok s n"
  shows "0 \<le> i \<Longrightarrow> i \<le> stackPointer s \<Longrightarrow> stackValue i s = Some (below_top s i)"
    "stackTop s = Some (below_top s 0)"
    "popStack s = Some (below_top s 0, pop 1 s)"
  using assms field_reads(2) [of "memory s" "activeContext s" n]
  by (auto simp: stack_ok_def stackValue_def stackTop_def popStack_def below_top_def pop_def)

text \<open>The \<open>k\<close> topmost values have been replaced by \<open>v\<close>; all registers but the stack pointer are the same.\<close>

definition replaced :: "int \<Rightarrow> int \<Rightarrow> 'w interp \<Rightarrow> 'w interp \<Rightarrow> bool" where
  "replaced k v s s' \<longleftrightarrow>
     (\<exists>m'. stored (stackPointer s - k + 1) (activeContext s) v (memory s) m' \<and>
           s' = s\<lparr>stackPointer := stackPointer s - k + 1, memory := m'\<rparr>)"

lemma push_replaced:
  assumes "stack_ok s n" "0 \<le> k" "k \<le> stackPointer s + 1" "stackPointer s - k + 1 < n" "pointer_ok v"
    "stays (memory s) (below_top s (k - 1))"
  shows "\<exists>s'. push v (pop k s) = Some s' \<and> replaced k v s s'"
proof -
  let ?i = "stackPointer s - k + 1"
  have "\<exists>m'. storePointer_ofObject_withValue ?i (activeContext s) v (memory s) = Some m' \<and>
      stored ?i (activeContext s) v (memory s) m'"
    using assms by (intro storePointer_view [where n = n]) (auto simp: stack_ok_def below_top_def algebra_simps)
  then show ?thesis by (auto simp: push_def pop_def in_memory_def replaced_def)
qed

section \<open>A machine for the examples\<close>

definition ex_interp :: "omem \<Rightarrow> unit interp" where
  "ex_interp m =
     \<lparr>memory = m, activeContext = 100, homeContext = 100, methodPointer = 0, receiver = 1, instructionPointer = 20,
      stackPointer = 9, currentBytecode = 176, successFlag = True, messageSelector = 2, argumentCount = 0, newMethod = 0,
      primitiveIndex = 0, newProcessWaiting = False, newProcess = 2, semaphoreList = (\<lambda>i. 0), semaphoreIndex = -1,
      methodCache = (\<lambda>i. 2), checkLowMemory = False, memoryIsLow = False, lowSpaceSemaphore = 2, oopsLeftLimit = 0,
      wordsLeftLimit = 0, currentDisplay = 0, currentDisplayWidth = 0, currentDisplayHeight = 0, currentCursor = 0,
      world = ()\<rparr>"

lemma ex_interp_fields [simp]:
  "memory (ex_interp m) = m" "activeContext (ex_interp m) = 100" "stackPointer (ex_interp m) = 9" "successFlag (ex_interp m)"
  by (simp_all add: ex_interp_def)

end
