(* ===== verification/VmArith.thy ===== *)
theory VmArith
  imports VmView
begin

text \<open>
  Correctness of the small integer primitives: the exact results of arithmetic, division and shifts, and the behaviour
  on failure.
\<close>

section \<open>Operands\<close>

lemma integer_object:
  assumes "isIntegerValue v"
  shows "isIntegerObject (integerObjectOf v)" "integerValueOf (integerObjectOf v) = v" "pointer_ok (integerObjectOf v)"
    "stays m (integerObjectOf v)"
proof -
  have v: "-16384 \<le> v" "v \<le> 16383" using assms by (simp_all add: isIntegerValue_def)
  have o: "integerObjectOf v = 2 * (if 0 \<le> v then v else v + 32768) + 1"
    using integer_object_value [OF assms] by simp
  show i: "isIntegerObject (integerObjectOf v)" by (simp add: odd_int_and o)
  show "integerValueOf (integerObjectOf v) = v"
    unfolding o using integer_value [of "if 0 \<le> v then v else v + 32768"] v by auto
  show "pointer_ok (integerObjectOf v)" using i v by (simp add: pointer_ok_def o)
  show "stays m (integerObjectOf v)" using i by (simp add: stays_def)
qed

text \<open>The two topmost values are the small integers \<open>r\<close> and \<open>a\<close>, and no primitive has failed.\<close>

definition integer_operands :: "'w interp \<Rightarrow> int \<Rightarrow> int \<Rightarrow> int \<Rightarrow> bool" where
  "integer_operands s n r a \<longleftrightarrow> stack_ok s n \<and> 1 \<le> stackPointer s \<and> successFlag s \<and> isIntegerValue r \<and> isIntegerValue a \<and>
     below_top s 1 = integerObjectOf r \<and> below_top s 0 = integerObjectOf a"

lemma stack_ok_pop: "stack_ok s n \<Longrightarrow> 0 \<le> k \<Longrightarrow> k \<le> stackPointer s \<Longrightarrow> stack_ok (pop k s) n"
  by (auto simp: stack_ok_def pop_def)

lemma below_top_pop [simp]: "below_top (pop k s) i = below_top s (i + k)"
  by (simp add: below_top_def pop_def algebra_simps)

lemma pop_pop [simp]: "pop j (pop k s) = pop (j + k) s" "unPop k (pop k s) = s" "pop 0 s = s"
  by (simp_all add: pop_def unPop_def algebra_simps)

lemma success_True [simp]: "success True s = s" "successFlag (success b s) = (successFlag s \<and> b)"
  by (simp_all add: success_def)

lemma success_False: "success False s = primitiveFail s"
  by (simp add: success_def primitiveFail_def)

lemma pop_fields [simp]:
  "successFlag (pop k s) = successFlag s" "memory (pop k s) = memory s" "activeContext (pop k s) = activeContext s"
  by (simp_all add: pop_def)

lemma pop_success: "success b (pop k s) = pop k (success b s)"
  by (simp add: success_def pop_def)

lemma primitiveFail_flag [simp]: "successFlag (primitiveFail s) = False" "success b (primitiveFail s) = primitiveFail s"
  "primitiveFail (primitiveFail s) = primitiveFail s"
  by (simp_all add: primitiveFail_def success_def)

lemma unPop_primitiveFail [simp]: "unPop k (primitiveFail (pop k s)) = primitiveFail s"
  by (simp add: primitiveFail_def pop_def unPop_def)

lemma pop_integers_view:
  assumes "integer_operands s n r a"
  shows "pop_integers s = Some (r, a, pop 2 s)"
proof -
  have o: "stack_ok s n" "1 \<le> stackPointer s" "successFlag s" "isIntegerValue r" "isIntegerValue a"
    "below_top s 1 = integerObjectOf r" "below_top s 0 = integerObjectOf a"
    using assms by (auto simp: integer_operands_def)
  have "popInteger s = Some (a, pop 1 s)"
    using o stack_reads(3) [OF o(1)] integer_object(1,2) [OF o(5)] by (simp add: popInteger_def)
  moreover have "popInteger (pop 1 s) = Some (r, pop 2 s)"
    using o stack_reads(3) [OF stack_ok_pop [OF o(1), of 1]] integer_object(1,2) [OF o(4)] by (simp add: popInteger_def)
  ultimately show ?thesis by (simp add: pop_integers_def)
qed

lemma operands_fields:
  assumes "integer_operands s n r a"
  shows "successFlag s" "isIntegerValue r" "isIntegerValue a" "stack_ok s n" "1 \<le> stackPointer s"
  using assms by (auto simp: integer_operands_def)

lemma push_result:
  assumes "integer_operands s n r a" "pointer_ok v"
  shows "\<exists>s'. push v (pop 2 s) = Some s' \<and> replaced 2 v s s'"
  using assms integer_object(4) [of r "memory s"]
  by (intro push_replaced [where n = n]) (auto simp: integer_operands_def stack_ok_def)

section \<open>Results\<close>

text \<open>The value is pushed if it is a small integer; otherwise the primitive fails and has changed nothing else.\<close>

definition pushes_or_fails :: "int \<Rightarrow> 'w interp \<Rightarrow> 'w interp option \<Rightarrow> bool" where
  "pushes_or_fails v s res \<longleftrightarrow>
     (if isIntegerValue v then \<exists>s'. res = Some s' \<and> replaced 2 (integerObjectOf v) s s' else res = Some (primitiveFail s))"

lemma pushes_or_failsI:
  assumes "integer_operands s n r a"
    "isIntegerValue v \<Longrightarrow> res = push (integerObjectOf v) (pop 2 s)" "\<not> isIntegerValue v \<Longrightarrow> res = Some (primitiveFail s)"
  shows "pushes_or_fails v s res"
  using assms push_result [OF assms(1) integer_object(3)] by (auto simp: pushes_or_fails_def)

lemmas exactness = pushInteger_def success_False Let_def

lemma checked_integer_exact:
  assumes "integer_operands s n r a"
  shows "pushes_or_fails (f r a) s (checked_integer f s)"
  using operands_fields [OF assms]
  by (intro pushes_or_failsI [OF assms])
    (simp_all add: checked_integer_def pop_integers_view [OF assms] exactness)

text \<open>A comparison pushes one of the two boolean objects; a bitwise operation never leaves the small integers.\<close>

definition pushes_boolean :: "bool \<Rightarrow> 'w interp \<Rightarrow> 'w interp option \<Rightarrow> bool" where
  "pushes_boolean b s res \<longleftrightarrow> (\<exists>s'. res = Some s' \<and> replaced 2 (if b then TruePointer else FalsePointer) s s')"

lemma compare_integers_exact:
  assumes "integer_operands s n r a"
  shows "pushes_boolean (rel r a) s (compare_integers rel s)"
proof -
  have "pointer_ok 4" "pointer_ok 6" by (simp_all add: pointer_ok_def oop_ok_def)
  then show ?thesis
    using operands_fields [OF assms] push_result [OF assms]
    by (simp add: pushes_boolean_def compare_integers_def pop_integers_view [OF assms] push_boolean_def)
qed

lemma isIntegerValue_bits: "isIntegerValue v \<longleftrightarrow> signed_take_bit 14 v = v"
  by (auto simp: isIntegerValue_def signed_take_bit_int_eq_self_iff)

lemma bitwise_values:
  assumes "isIntegerValue r" "isIntegerValue a"
  shows "isIntegerValue (r AND a)" "isIntegerValue (r OR a)" "isIntegerValue (r XOR a)"
proof -
  have d: "signed_take_bit 14 (r AND a) = signed_take_bit 14 r AND signed_take_bit 14 a"
    "signed_take_bit 14 (r OR a) = signed_take_bit 14 r OR signed_take_bit 14 a"
    "signed_take_bit 14 (r XOR a) = signed_take_bit 14 r XOR signed_take_bit 14 a"
    by (simp_all add: bit_eq_iff bit_simps)
  show "isIntegerValue (r AND a)" "isIntegerValue (r OR a)" "isIntegerValue (r XOR a)"
    using assms by (simp_all add: isIntegerValue_bits d)
qed

lemma bitwise_integer_exact:
  assumes "integer_operands s n r a" "isIntegerValue (f r a)"
  shows "\<exists>s'. bitwise_integer f s = Some s' \<and> replaced 2 (integerObjectOf (f r a)) s s'"
  using operands_fields [OF assms(1)] push_result [OF assms(1) integer_object(3) [OF assms(2)]] assms(2)
  by (simp add: bitwise_integer_def pop_integers_view [OF assms(1)] pushInteger_def)

section \<open>Division\<close>

lemma c_div_mod:
  assumes "a \<noteq> 0" "isIntegerValue a" "isIntegerValue r"
  shows "c_div r a = Some (r sdiv a)" "c_mod r a = Some (r smod a)"
  using assms by (auto simp: c_div_def c_mod_def isIntegerValue_def)

text \<open>The truncated quotient and its remainder against the floor of the quotient.\<close>

lemma smod_floor:
  assumes "a \<noteq> (0 :: int)"
  shows "(if a < 0 then if r smod a > 0 then r smod a + a else r smod a
          else if r smod a < 0 then r smod a + a else r smod a) = r mod a"
proof -
  have abs_mod: "0 \<le> \<bar>r\<bar> mod \<bar>a\<bar>" "\<bar>r\<bar> mod \<bar>a\<bar> < \<bar>a\<bar>" using assms by simp_all
  have s: "r smod a = sgn r * (\<bar>r\<bar> mod \<bar>a\<bar>)" by (simp add: signed_modulo_int_def)
  have m: "r mod a = r - a * (r div a)" by (simp add: minus_mult_div_eq_mod [symmetric])
  consider "0 \<le> r" "0 < a" | "r < 0" "0 < a" | "0 < r" "a < 0" | "r \<le> 0" "a < 0" using assms by linarith
  then show ?thesis
  proof cases
    case 1
    then show ?thesis using s abs_mod by (cases "r = 0") (simp_all split: if_splits add: not_less)
  next
    case 2
    then show ?thesis using s zmod_zminus1_eq_if [of "- r" a] by (auto simp: not_less intro: order.antisym)
  next
    case 3
    then show ?thesis using s zmod_zminus2_eq_if [of r "- a"] by (auto simp: not_less intro: order.antisym)
  next
    case 4
    then show ?thesis using s mod_minus_minus [of "- r" "- a"] neg_mod_sign [of a r]
      by (cases "r = 0") (simp_all add: not_less)
  qed
qed

definition code_div :: "int \<Rightarrow> int \<Rightarrow> int" where
  "code_div r a = (if \<bar>r\<bar> < \<bar>a\<bar> then 0 else r div a)"

lemma sdiv_floor:
  assumes "a \<noteq> (0 :: int)"
  shows "(if r smod a \<noteq> 0 \<and> r sdiv a < 0 then r sdiv a - 1 else r sdiv a) = code_div r a"
proof -
  have s: "r smod a = sgn r * (\<bar>r\<bar> mod \<bar>a\<bar>)" "r sdiv a = sgn r * sgn a * (\<bar>r\<bar> div \<bar>a\<bar>)"
    by (simp_all add: signed_modulo_int_def signed_divide_int_def)
  have abs_div: "0 \<le> \<bar>r\<bar> div \<bar>a\<bar>" "\<bar>r\<bar> < \<bar>a\<bar> \<Longrightarrow> \<bar>r\<bar> div \<bar>a\<bar> = 0" "\<not> \<bar>r\<bar> < \<bar>a\<bar> \<Longrightarrow> 0 < \<bar>r\<bar> div \<bar>a\<bar>"
    using assms pos_imp_zdiv_pos_iff [of "\<bar>a\<bar>" "\<bar>r\<bar>"] by (simp_all add: pos_imp_zdiv_nonneg_iff)
  consider "r = 0" | "0 < r" "0 < a" | "r < 0" "0 < a" | "0 < r" "a < 0" | "r < 0" "a < 0" using assms by linarith
  then show ?thesis
  proof cases
    case 1
    then show ?thesis using assms by (simp add: code_div_def s)
  next
    case 2
    then show ?thesis using s abs_div by (auto simp: code_div_def)
  next
    case 3
    then show ?thesis using s abs_div zdiv_zminus1_eq_if [of a "- r"] by (auto simp: code_div_def)
  next
    case 4
    then show ?thesis using s abs_div zdiv_zminus2_eq_if [of "- a" r] by (auto simp: code_div_def)
  next
    case 5
    then show ?thesis using s abs_div div_minus_minus [of "- r" "- a"] by (auto simp: code_div_def)
  qed
qed

lemma primitiveMod_exact:
  assumes "integer_operands s n r a" "a \<noteq> 0"
  shows "pushes_or_fails (r mod a) s (primitiveMod s)"
  using operands_fields [OF assms(1)] c_div_mod [OF assms(2), of r] smod_floor [OF assms(2), of r]
  by (intro pushes_or_failsI [OF assms(1)])
    (simp_all add: primitiveMod_def pop_integers_view [OF assms(1)] exactness assms(2) split del: if_split)

lemma primitiveDiv_exact:
  assumes "integer_operands s n r a" "a \<noteq> 0"
  shows "pushes_or_fails (code_div r a) s (primitiveDiv s)"
  using operands_fields [OF assms(1)] c_div_mod [OF assms(2), of r] sdiv_floor [OF assms(2), of r]
  by (intro pushes_or_failsI [OF assms(1)])
    (simp_all add: primitiveDiv_def pop_integers_view [OF assms(1)] exactness assms(2) split del: if_split)

lemma primitiveQuo_exact:
  assumes "integer_operands s n r a" "a \<noteq> 0"
  shows "pushes_or_fails (r sdiv a) s (primitiveQuo s)"
  using operands_fields [OF assms(1)] c_div_mod [OF assms(2), of r]
  by (intro pushes_or_failsI [OF assms(1)])
    (simp_all add: primitiveQuo_def pop_integers_view [OF assms(1)] exactness assms(2))

section \<open>Shifts\<close>

text \<open>The mathematical result of a shift, rounded down.\<close>

definition shifted :: "int \<Rightarrow> int \<Rightarrow> int" where
  "shifted r a = (if 0 \<le> a then r * 2 ^ nat a else r div 2 ^ nat (- a))"

lemma shift_right_end:
  assumes "isIntegerValue r" "31 \<le> n"
  shows "r div 2 ^ n = r div 2 ^ 31"
proof -
  have "(2 :: int) ^ 31 \<le> 2 ^ n" using assms(2) by (intro power_increasing) auto
  moreover have "-16384 \<le> r" "r \<le> 16383" using assms(1) by (simp_all add: isIntegerValue_def)
  ultimately have "r div p = (if 0 \<le> r then 0 else -1)" if "p = 2 ^ n \<or> p = 2 ^ 31" for p :: int
    using that int_div_pos_eq [of r p "-1" "r + p"] by (auto intro!: div_pos_pos_trivial)
  then show ?thesis by simp
qed

lemma shift_integer_exact:
  assumes "isIntegerValue r" "isIntegerValue a"
  shows "isIntegerValue (shift_integer r a) \<and> (a < 16 \<or> r = 0) \<longleftrightarrow> isIntegerValue (shifted r a)"
    "isIntegerValue (shifted r a) \<Longrightarrow> shift_integer r a = shifted r a"
proof -
  have r: "-16384 \<le> r" "r \<le> 16383" using assms(1) by (simp_all add: isIntegerValue_def)
  have small: "shift_integer r a = shifted r a" if "a < 16"
  proof (cases "0 < a")
    case True
    define p where "p = (2 :: int) ^ nat a"
    have "(2 :: int) ^ nat a \<le> 2 ^ 15" using that by (intro power_increasing) auto
    then have p: "1 \<le> p" "p \<le> 32768" by (simp_all add: p_def)
    have "\<bar>r * p\<bar> \<le> 16384 * 32768" unfolding abs_mult using r p by (intro mult_mono) auto
    then have "signed_take_bit 31 (r * p) = r * p" by (intro signed_take_bit_int_eq_self) auto
    then show ?thesis using True that by (simp add: shift_integer_def shifted_def push_bit_eq_mult p_def)
  next
    case False
    show ?thesis
    proof (cases "a > -31")
      case True
      then show ?thesis using False by (auto simp: shift_integer_def shifted_def drop_bit_eq_div)
    next
      case small: False
      then show ?thesis using False shift_right_end [OF assms(1), of "nat (- a)"]
        by (simp add: shift_integer_def shifted_def drop_bit_eq_div)
    qed
  qed
  have large: "\<not> isIntegerValue (shifted r a)" if "16 \<le> a" "r \<noteq> 0"
  proof -
    have "(2 :: int) ^ 16 \<le> 2 ^ nat a" using that by (intro power_increasing) auto
    then have "1 * 65536 \<le> \<bar>r\<bar> * 2 ^ nat a" using that by (intro mult_mono) auto
    then have "65536 \<le> \<bar>shifted r a\<bar>" using that by (simp add: shifted_def abs_mult)
    then show ?thesis by (auto simp: isIntegerValue_def)
  qed
  have zero: "shift_integer 0 a = 0" "shifted 0 a = 0" by (auto simp: shift_integer_def shifted_def)
  show "isIntegerValue (shift_integer r a) \<and> (a < 16 \<or> r = 0) \<longleftrightarrow> isIntegerValue (shifted r a)"
    using small large zero by (cases "a < 16"; cases "r = 0") auto
  show "isIntegerValue (shifted r a) \<Longrightarrow> shift_integer r a = shifted r a"
    using small large zero by (cases "a < 16"; cases "r = 0") auto
qed

lemma primitiveBitShift_exact:
  assumes "integer_operands s n r a"
  shows "pushes_or_fails (shifted r a) s (primitiveBitShift s)"
proof -
  note o = operands_fields [OF assms]
  note x = shift_integer_exact [OF o(2,3)]
  have "primitiveBitShift s =
      (if isIntegerValue (shifted r a) then push (integerObjectOf (shift_integer r a)) (pop 2 s) else Some (primitiveFail s))"
    using o x(1) by (simp add: primitiveBitShift_def pop_integers_view [OF assms] exactness del: disj_not1)
  then show ?thesis using x(2) by (intro pushes_or_failsI [OF assms]) simp_all
qed

lemma primitiveDivide_exact:
  assumes "integer_operands s n r a" "a \<noteq> 0"
  shows "if a dvd r then pushes_or_fails (r div a) s (primitiveDivide s) else primitiveDivide s = Some (primitiveFail s)"
proof (cases "a dvd r")
  case True
  then obtain k where k: "r = a * k" by blast
  have "r smod a = 0" "r sdiv a = r div a"
    using assms(2) by (simp_all add: k signed_modulo_int_def signed_divide_int_def abs_mult sgn_mult abs_sgn [symmetric] mult.commute)
      (simp add: abs_mult_sgn)
  then have "pushes_or_fails (r div a) s (primitiveDivide s)"
    using operands_fields [OF assms(1)] c_div_mod [OF assms(2), of r]
    by (intro pushes_or_failsI [OF assms(1)])
      (simp_all add: primitiveDivide_def pop_integers_view [OF assms(1)] exactness assms(2))
  then show ?thesis using True by simp
next
  case False
  then have "r smod a \<noteq> 0"
    using assms(2) by (cases "r = 0") (auto simp: signed_modulo_int_def dvd_eq_mod_eq_0 [symmetric] sgn_0_0)
  then show ?thesis
    using False operands_fields [OF assms(1)] c_div_mod [OF assms(2), of r]
    by (simp add: primitiveDivide_def pop_integers_view [OF assms(1)] exactness assms(2))
qed

section \<open>Failure\<close>

text \<open>An operand is not a small integer.\<close>

definition wrong_operands :: "'w interp \<Rightarrow> int \<Rightarrow> bool" where
  "wrong_operands s n \<longleftrightarrow> stack_ok s n \<and> 1 \<le> stackPointer s \<and>
     \<not> (isIntegerObject (below_top s 0) \<and> isIntegerObject (below_top s 1))"

lemma pop_integers_wrong:
  assumes "wrong_operands s n"
  shows "\<exists>a. pop_integers s = Some (-2147483648, a, primitiveFail (pop 2 s))"
proof -
  have o: "stack_ok s n" "1 \<le> stackPointer s" using assms by (auto simp: wrong_operands_def)
  have p: "popStack s = Some (below_top s 0, pop 1 s)" by (rule stack_reads(3) [OF o(1)])
  have q: "popStack (pop 1 s) = Some (below_top s 1, pop 2 s)" using stack_reads(3) [OF stack_ok_pop [OF o(1), of 1]] o by simp
  have f: "popStack (primitiveFail (pop 1 s)) = Some (below_top s 1, primitiveFail (pop 2 s))"
    using q by (auto simp: popStack_def primitiveFail_def pop_def split: bind_splits)
  have e: "success b t = (if b then t else primitiveFail t)" for b and t :: "'a interp"
    by (simp add: success_def primitiveFail_def)
  show ?thesis
  proof (cases "isIntegerObject (below_top s 0) \<and> successFlag s")
    case True
    then have "\<not> isIntegerObject (below_top s 1)" using assms by (simp add: wrong_operands_def)
    then show ?thesis using True p q by (simp add: pop_integers_def popInteger_def e)
  next
    case False
    have g: "primitiveFail t = t" if "\<not> successFlag t" for t :: "'a interp" using that by (simp add: primitiveFail_def)
    show ?thesis
    proof (cases "isIntegerObject (below_top s 0)")
      case True
      then have "\<not> successFlag s" using False by simp
      then have "primitiveFail (pop 1 s) = pop 1 s" "primitiveFail (pop 2 s) = pop 2 s" by (simp_all add: g)
      then show ?thesis using True False p f by (auto simp: pop_integers_def popInteger_def e)
    next
      case False
      then show ?thesis using p f by (simp add: pop_integers_def popInteger_def e)
    qed
  qed
qed

lemma wrong_operands_fail:
  assumes "wrong_operands s n"
  shows "compare_integers rel s = Some (primitiveFail s)" "checked_integer f s = Some (primitiveFail s)"
    "bitwise_integer f s = Some (primitiveFail s)" "primitiveMod s = Some (primitiveFail s)"
    "primitiveDiv s = Some (primitiveFail s)" "primitiveQuo s = Some (primitiveFail s)"
    "primitiveBitShift s = Some (primitiveFail s)" "primitiveMakePoint s = Some (primitiveFail s)"
proof -
  obtain a where p: "pop_integers s = Some (-2147483648, a, primitiveFail (pop 2 s))"
    using pop_integers_wrong [OF assms] by blast
  show "compare_integers rel s = Some (primitiveFail s)" "checked_integer f s = Some (primitiveFail s)"
    "bitwise_integer f s = Some (primitiveFail s)" "primitiveMod s = Some (primitiveFail s)"
    "primitiveDiv s = Some (primitiveFail s)" "primitiveQuo s = Some (primitiveFail s)"
    "primitiveBitShift s = Some (primitiveFail s)" "primitiveMakePoint s = Some (primitiveFail s)"
    by (simp_all add: compare_integers_def checked_integer_def bitwise_integer_def primitiveMod_def primitiveDiv_def
        primitiveQuo_def primitiveBitShift_def primitiveMakePoint_def p Let_def)
qed

section \<open>An example\<close>

text \<open>A context with 18 fields at the start of segment 0 whose two topmost stack values are small integers.\<close>

definition ex_context :: "int \<Rightarrow> int \<Rightarrow> omem" where
  "ex_context r a =
     \<lparr>cell = (\<lambda>s w. if s = 15 then if w = 100 then 0x0240 else 0
                    else if s = 0 then if w = 0 then 20 else if w = 10 then word_of_int (integerObjectOf r)
                         else if w = 11 then word_of_int (integerObjectOf a) else 1
                    else 0),
      currentSegment = 0, freeWords = 0, freeOops = 0\<rparr>"

lemma ex_context_fields:
  "has_fields (ex_context r a) 100 18" "field (ex_context r a) 100 i = (if i = 8 then uint (word_of_int (integerObjectOf r) :: 16 word)
     else if i = 9 then uint (word_of_int (integerObjectOf a) :: 16 word) else if i = -2 then 20 else 1)"
proof -
  have "seg_of (ex_context r a) 100 = 0" "loc_of (ex_context r a) 100 = 0"
    by (simp_all add: seg_of_def loc_of_def ex_context_def field_get_def mask_eq_exp_minus_1)
  then show "has_fields (ex_context r a) 100 18" "field (ex_context r a) 100 i = (if i = 8 then uint (word_of_int (integerObjectOf r) :: 16 word)
     else if i = 9 then uint (word_of_int (integerObjectOf a) :: 16 word) else if i = -2 then 20 else 1)"
    by (auto simp: has_fields_def field_def hw_def oop_ok_def ex_context_def)
qed

lemma ex_operands:
  assumes "isIntegerValue r" "isIntegerValue a"
  shows "integer_operands (ex_interp (ex_context r a)) 18 r a"
proof -
  have "uint (word_of_int (integerObjectOf v) :: 16 word) = integerObjectOf v" if "isIntegerValue v" for v
    using integer_object(3) [OF that] by (intro uint_of_int16) (auto simp: pointer_ok_def)
  then show ?thesis
    using assms by (simp add: integer_operands_def stack_ok_def below_top_def ex_context_fields)
qed

lemma replaced_stack:
  assumes "replaced k v s s'" "stack_ok s n" "0 < k" "k \<le> stackPointer s + 1" "pointer_ok v"
  shows "stackPointer s' = stackPointer s - k + 1" "stackTop s' = Some v" "activeContext s' = activeContext s"
    "stack_ok s' n" "\<And>i. 1 \<le> i \<Longrightarrow> below_top s' i = below_top s (i + k - 1)"
proof -
  let ?i = "stackPointer s - k + 1"
  obtain m' where m: "stored ?i (activeContext s) v (memory s) m'" "s' = s\<lparr>stackPointer := ?i, memory := m'\<rparr>"
    using assms(1) by (auto simp: replaced_def)
  have h: "has_fields (memory s) (activeContext s) n" "0 \<le> ?i" "?i < n" using assms by (auto simp: stack_ok_def)
  note o = stored_other [OF m(1) h assms(5)]
  show "stackPointer s' = ?i" "activeContext s' = activeContext s" by (simp_all add: m(2))
  show k: "stack_ok s' n" using o(4) h by (simp add: m(2) stack_ok_def)
  show "stackTop s' = Some v" using stack_reads(2) [OF k] o(2) by (simp add: m(2) below_top_def)
  show "below_top s' i = below_top s (i + k - 1)" if "1 \<le> i" for i
    using that o(2) by (simp add: m(2) below_top_def algebra_simps)
qed

section \<open>The properties\<close>

text \<open>C33: Arithmetic, shift, comparison and bitwise operations on small integers are exact.  When the sum, difference,
product or shift (to the right rounded down) is a small integer, it replaces the two operands on the stack, and otherwise the
primitive fails and has changed nothing but the success flag.  The six comparisons replace the operands by the object true or
false that the relation of the values gives.  The bitwise operations replace them by the value of the operation on the two's
complement of the operands, which always is a small integer.\<close>

theorem arithmetic_exact:
  assumes "integer_operands s n r a"
  shows "pushes_or_fails (r + a) s (primitiveAdd s) \<and> pushes_or_fails (r - a) s (primitiveSubtract s) \<and>
    pushes_or_fails (r * a) s (primitiveMultiply s) \<and> pushes_or_fails (shifted r a) s (primitiveBitShift s) \<and>
    pushes_boolean (r < a) s (primitiveLessThan s) \<and> pushes_boolean (a < r) s (primitiveGreaterThan s) \<and>
    pushes_boolean (r \<le> a) s (primitiveLessOrEqual s) \<and> pushes_boolean (a \<le> r) s (primitiveGreaterOrEqual s) \<and>
    pushes_boolean (r = a) s (primitiveEqual s) \<and> pushes_boolean (r \<noteq> a) s (primitiveNotEqual s) \<and>
    (\<exists>s'. primitiveBitAnd s = Some s' \<and> replaced 2 (integerObjectOf (r AND a)) s s') \<and>
    (\<exists>s'. primitiveBitOr s = Some s' \<and> replaced 2 (integerObjectOf (r OR a)) s s') \<and>
    (\<exists>s'. primitiveBitXor s = Some s' \<and> replaced 2 (integerObjectOf (r XOR a)) s s')"
  unfolding primitiveAdd_def primitiveSubtract_def primitiveMultiply_def primitiveLessThan_def primitiveGreaterThan_def
    primitiveLessOrEqual_def primitiveGreaterOrEqual_def primitiveEqual_def primitiveNotEqual_def primitiveBitAnd_def
    primitiveBitOr_def primitiveBitXor_def
  using bitwise_values [OF operands_fields(2,3) [OF assms]]
  by (intro conjI checked_integer_exact [OF assms] primitiveBitShift_exact [OF assms]
      compare_integers_exact [OF assms] bitwise_integer_exact [OF assms])

theorem arithmetic_exact_witness:
  "(\<exists>s'. primitiveAdd (ex_interp (ex_context 16000 383)) = Some s' \<and> stackTop s' = Some (integerObjectOf 16383) \<and>
      stackPointer s' = 8) \<and>
   (\<exists>s'. primitiveLessThan (ex_interp (ex_context 16000 383)) = Some s' \<and> stackTop s' = Some FalsePointer \<and>
      stackPointer s' = 8)"
proof -
  have o: "integer_operands (ex_interp (ex_context 16000 383)) 18 16000 383"
    by (rule ex_operands) (simp_all add: isIntegerValue_def)
  have v: "isIntegerValue 16383" "pointer_ok 4" by (simp_all add: isIntegerValue_def pointer_ok_def oop_ok_def)
  obtain s' where s: "primitiveAdd (ex_interp (ex_context 16000 383)) = Some s'"
      "replaced 2 (integerObjectOf 16383) (ex_interp (ex_context 16000 383)) s'"
    using conjunct1 [OF arithmetic_exact [OF o]] v by (auto simp: pushes_or_fails_def)
  obtain t where t: "primitiveLessThan (ex_interp (ex_context 16000 383)) = Some t"
      "replaced 2 4 (ex_interp (ex_context 16000 383)) t"
    using arithmetic_exact [OF o] by (auto simp: pushes_boolean_def)
  show ?thesis
    using s t replaced_stack(1,2) [OF s(2) operands_fields(4) [OF o] _ _ integer_object(3) [OF v(1)]]
      replaced_stack(1,2) [OF t(2) operands_fields(4) [OF o] _ _ v(2)] by simp
qed

text \<open>C34: Division of small integers by one that is not zero: the remainder is the one of the
division that rounds down, the truncated quotient and the exact quotient are right, and the quotient that should round down
is zero whenever the dividend is smaller than the divisor in absolute value, also when the exact quotient is negative, so
that -1 // 2 is 0 where -1 \\\\ 2 is 1.\<close>

theorem division_exact:
  assumes "integer_operands s n r a" "a \<noteq> 0"
  shows "pushes_or_fails (r mod a) s (primitiveMod s) \<and> pushes_or_fails (r sdiv a) s (primitiveQuo s) \<and>
    (if a dvd r then pushes_or_fails (r div a) s (primitiveDivide s) else primitiveDivide s = Some (primitiveFail s)) \<and>
    pushes_or_fails (if \<bar>r\<bar> < \<bar>a\<bar> then 0 else r div a) s (primitiveDiv s)"
  using primitiveMod_exact [OF assms] primitiveQuo_exact [OF assms] primitiveDivide_exact [OF assms] primitiveDiv_exact [OF assms]
  unfolding code_div_def by (intro conjI)

theorem division_exact_witness:
  "\<exists>s'. primitiveDiv (ex_interp (ex_context (-1) 2)) = Some s' \<and> stackTop s' = Some (integerObjectOf 0) \<and> (-1 :: int) div 2 = -1"
proof -
  have o: "integer_operands (ex_interp (ex_context (-1) 2)) 18 (-1) 2"
    by (rule ex_operands) (simp_all add: isIntegerValue_def)
  have v: "isIntegerValue 0" by (simp add: isIntegerValue_def)
  have "pushes_or_fails 0 (ex_interp (ex_context (-1) 2)) (primitiveDiv (ex_interp (ex_context (-1) 2)))"
    using division_exact [OF o] by simp
  then obtain s' where s: "primitiveDiv (ex_interp (ex_context (-1) 2)) = Some s'"
      "replaced 2 (integerObjectOf 0) (ex_interp (ex_context (-1) 2)) s'"
    using v by (auto simp: pushes_or_fails_def)
  show ?thesis using s replaced_stack(2) [OF s(2) operands_fields(4) [OF o] _ _ integer_object(3) [OF v]] by simp
qed

lemma divide_undefined:
  shows "integer_operands s n r 0 \<Longrightarrow> primitiveDivide s = None"
    "wrong_operands s n \<Longrightarrow> below_top s 0 = integerObjectOf (-1) \<Longrightarrow> successFlag s \<Longrightarrow> primitiveDivide s = None"
proof -
  show "integer_operands s n r 0 \<Longrightarrow> primitiveDivide s = None"
    by (simp add: primitiveDivide_def pop_integers_view c_mod_def Let_def)
  assume w: "wrong_operands s n" "below_top s 0 = integerObjectOf (-1)" "successFlag s"
  have o: "stack_ok s n" "1 \<le> stackPointer s" "\<not> isIntegerObject (below_top s 1)"
    using w integer_object(1) [of "-1"] by (auto simp: wrong_operands_def isIntegerValue_def)
  have "popInteger s = Some (-1, pop 1 s)"
    using w stack_reads(3) [OF o(1)] integer_object(1,2) [of "-1"] by (simp add: popInteger_def isIntegerValue_def)
  moreover have "popInteger (pop 1 s) = Some (-2147483648, primitiveFail (pop 2 s))"
    using o stack_reads(3) [OF stack_ok_pop [OF o(1), of 1]] by (simp add: popInteger_def success_False)
  ultimately show "primitiveDivide s = None"
    by (simp add: primitiveDivide_def pop_integers_def c_mod_def Let_def)
qed

lemmas by_body = primitiveAdd_def primitiveSubtract_def primitiveMultiply_def primitiveLessThan_def primitiveGreaterThan_def
  primitiveLessOrEqual_def primitiveGreaterOrEqual_def primitiveEqual_def primitiveNotEqual_def primitiveBitAnd_def
  primitiveBitOr_def primitiveBitXor_def

text \<open>C35: When an operand is not a small integer, every integer primitive but the exact division fails and
restores the stack: the state differs only in the success flag.  The exact division divides before it looks
at the flag, so a divisor that is zero, and a receiver that is not a small integer with the divisor -1, are undefined.\<close>

theorem arithmetic_failure:
  "(wrong_operands s n \<longrightarrow>
      (\<forall>prim\<in>{primitiveAdd, primitiveSubtract, primitiveMultiply, primitiveLessThan, primitiveGreaterThan, primitiveLessOrEqual,
            primitiveGreaterOrEqual, primitiveEqual, primitiveNotEqual, primitiveBitAnd, primitiveBitOr, primitiveBitXor,
            primitiveBitShift, primitiveMod, primitiveDiv, primitiveQuo, primitiveMakePoint}.
        prim s = Some (primitiveFail s))) \<and>
   (integer_operands s n r 0 \<longrightarrow> primitiveDivide s = None) \<and>
   (wrong_operands s n \<and> below_top s 0 = integerObjectOf (-1) \<and> successFlag s \<longrightarrow> primitiveDivide s = None)"
  using divide_undefined(1) [of s n r] divide_undefined(2) [of s n] by (auto simp: by_body wrong_operands_fail)

theorem arithmetic_failure_witness:
  "primitiveSubtract (ex_interp ((ex_context 0 (-1))\<lparr>cell := (\<lambda>s w. if s = 15 then if w = 100 then 0x0240 else 0
       else if s = 0 then if w = 0 then 20 else if w = 11 then 0xFFFF else 2 else 0)\<rparr>)) =
     Some (primitiveFail (ex_interp ((ex_context 0 (-1))\<lparr>cell := (\<lambda>s w. if s = 15 then if w = 100 then 0x0240 else 0
       else if s = 0 then if w = 0 then 20 else if w = 11 then 0xFFFF else 2 else 0)\<rparr>))) \<and>
   primitiveDivide (ex_interp (ex_context 6 0)) = None"
proof -
  define m where "m = (ex_context 0 (-1))\<lparr>cell := (\<lambda>s w. if s = 15 then if w = 100 then 0x0240 else 0
       else if s = 0 then if w = 0 then 20 else if w = 11 then 0xFFFF else 2 else 0)\<rparr>"
  have "seg_of m 100 = 0" "loc_of m 100 = 0" by (simp_all add: seg_of_def loc_of_def m_def field_get_def mask_eq_exp_minus_1)
  then have "wrong_operands (ex_interp m) 18"
    by (simp add: wrong_operands_def stack_ok_def has_fields_def below_top_def field_def hw_def oop_ok_def m_def odd_int_and)
  moreover have "integer_operands (ex_interp (ex_context 6 0)) 18 6 0" by (rule ex_operands) (simp_all add: isIntegerValue_def)
  ultimately show ?thesis
    using arithmetic_failure [of "ex_interp m" 18 0] arithmetic_failure [of "ex_interp (ex_context 6 0)" 18 6]
    by (auto simp: m_def)
qed

end
