(* ===== verification/VmLookup.thy ===== *)
theory VmLookup
  imports VmView
begin

text \<open>
  Correctness of the method lookup: the probing of a method dictionary against its content, the lookup in a chain of
  classes, and the method cache, which does not change the result of a lookup.
\<close>

section \<open>Methods\<close>

text \<open>The header and the header extension of a method can be read.\<close>

definition method_header :: "omem \<Rightarrow> int \<Rightarrow> int" where
  "method_header m x = field m x 0"

definition method_ok :: "omem \<Rightarrow> int \<Rightarrow> bool" where
  "method_ok m x \<longleftrightarrow> has_fields m x (hw m x 0 - 2) \<and> literalCountOfHeader (method_header m x) < hw m x 0 - 2 \<and>
     (extractBits_to_of 0 2 (method_header m x) = 7 \<longrightarrow> 1 \<le> literalCountOfHeader (method_header m x))"

definition primitive_of :: "omem \<Rightarrow> int \<Rightarrow> int" where
  "primitive_of m x =
     (if extractBits_to_of 0 2 (method_header m x) = 7
      then extractBits_to_of 7 14 (field m x (literalCountOfHeader (method_header m x) - 1)) else 0)"

lemma extractBits_nonneg: "0 \<le> extractBits_to_of i j x"
  by (simp add: extractBits_to_of_def Let_def)

lemma primitiveIndexOf_view:
  assumes "method_ok m x" "memory s = m"
  shows "primitiveIndexOf x s = Some (primitive_of m x)"
proof -
  have f: "has_fields m x (hw m x 0 - 2)" using assms(1) by (simp add: method_ok_def)
  have l: "0 \<le> literalCountOfHeader (method_header m x)" by (simp add: literalCountOfHeader_def extractBits_nonneg)
  then have h: "fetchPointer 0 x s = Some (method_header m x)"
    using assms field_reads(2) [OF f, of 0] by (simp add: method_header_def method_ok_def)
  show ?thesis
    using assms l h field_reads(2) [OF f, of "literalCountOfHeader (method_header m x) - 1"]
    by (auto simp: primitiveIndexOf_def flagValueOf_def headerOf_def headerExtensionOf_def literalCountOf_def
        literal_ofMethod_def primitive_of_def method_ok_def)
qed

section \<open>Dictionaries\<close>

text \<open>A method dictionary has the selectors from its field 2 and, at the same places, the methods in the array in field 1.
A selector stands at the first free place from its hash, with wrap-around: there is no nil on the way.\<close>

definition hash_start :: "int \<Rightarrow> int \<Rightarrow> int" where
  "hash_start n sel = ((n - SelectorStart - 1) AND hash sel) + SelectorStart"

definition probed :: "int \<Rightarrow> int \<Rightarrow> int \<Rightarrow> int set" where
  "probed n i0 i = (if i0 \<le> i then {i0..<i} else {i0..<n} \<union> {2..<i})"

definition dict_size :: "omem \<Rightarrow> int \<Rightarrow> int" where
  "dict_size m d = hw m d 0 - 2"

definition dict_ok :: "omem \<Rightarrow> int \<Rightarrow> bool" where
  "dict_ok m d \<longleftrightarrow>
     (let n = dict_size m d; a = field m d 1
      in has_fields m d n \<and> 2 < n \<and> has_fields m a (hw m a 0 - 2) \<and> n \<le> hw m a 0 \<and>
         (\<forall>i\<in>{2..<n}. field m d i \<noteq> NilPointer \<longrightarrow>
            method_ok m (field m a (i - 2)) \<and>
            (\<forall>j\<in>{2..<n}. field m d j = field m d i \<longrightarrow> j = i) \<and>
            (\<forall>j\<in>probed n (hash_start n (field m d i)) i. field m d j \<noteq> NilPointer)))"

lemma dict_okD:
  assumes "dict_ok m d"
  shows "has_fields m d (dict_size m d)" "2 < dict_size m d"
    "has_fields m (field m d 1) (hw m (field m d 1) 0 - 2)" "dict_size m d \<le> hw m (field m d 1) 0"
    "2 \<le> i \<Longrightarrow> i < dict_size m d \<Longrightarrow> field m d i \<noteq> NilPointer \<Longrightarrow> method_ok m (field m (field m d 1) (i - 2))"
    "2 \<le> i \<Longrightarrow> i < dict_size m d \<Longrightarrow> field m d i \<noteq> NilPointer \<Longrightarrow> 2 \<le> j \<Longrightarrow> j < dict_size m d \<Longrightarrow>
     field m d j = field m d i \<Longrightarrow> j = i"
    "2 \<le> i \<Longrightarrow> i < dict_size m d \<Longrightarrow> field m d i \<noteq> NilPointer \<Longrightarrow>
     j \<in> probed (dict_size m d) (hash_start (dict_size m d) (field m d i)) i \<Longrightarrow> field m d j \<noteq> NilPointer"
  using assms unfolding dict_ok_def Let_def by (blast intro: atLeastLessThan_iff [THEN iffD2])+

text \<open>The method of a selector, by a search of all places.\<close>

definition dict_method :: "omem \<Rightarrow> int \<Rightarrow> int \<Rightarrow> int option" where
  "dict_method m d sel =
     (case find (\<lambda>i. field m d i = sel) [2..dict_size m d - 1] of
        None \<Rightarrow> None | Some i \<Rightarrow> Some (field m (field m d 1) (i - 2)))"

lemma hash_start_bounds:
  assumes "2 < n"
  shows "2 \<le> hash_start n sel" "hash_start n sel < n"
proof -
  have "0 \<le> n - 3" using assms by simp
  from AND_upper1 [OF this, of "hash sel"] and_nonnegative_int_iff [of "n - 3" "hash sel"] this
  have "0 \<le> (n - 3) AND hash sel" "(n - 3) AND hash sel \<le> n - 3" by simp_all
  then show "2 \<le> hash_start n sel" "hash_start n sel < n" by (simp_all add: hash_start_def)
qed

text \<open>The state in which a method has been found.\<close>

definition found :: "int \<Rightarrow> 'w interp \<Rightarrow> 'w interp" where
  "found x s = s\<lparr>newMethod := x, primitiveIndex := primitive_of (memory s) x\<rparr>"

definition stop_at :: "omem \<Rightarrow> int \<Rightarrow> int \<Rightarrow> int \<Rightarrow> bool" where
  "stop_at m d sel i \<longleftrightarrow> field m d i = NilPointer \<or> field m d i = sel"

lemma find_upto:
  "i \<le> n \<Longrightarrow> find P [i..n] = (if P i then Some i else find P [i + 1..n])"
  by (simp add: upto_rec1)

lemma dictionary_loop_view:
  assumes d: "dict_ok m d" and n: "n = dict_size m d" and s: "memory s = m" "messageSelector s = sel"
    and i: "2 \<le> i" "i < n"
  shows "dictionary_loop n i w d s =
    (case find (stop_at m d sel) [i..n - 1] of
       Some j \<Rightarrow> Some (if field m d j = NilPointer then (False, s) else (True, found (field m (field m d 1) (j - 2)) s))
     | None \<Rightarrow> if w then Some (False, s) else dictionary_loop n 2 True d s)"
  using i
proof (induction "nat (n - i)" arbitrary: i)
  case 0
  then show ?case by simp
next
  case (Suc k)
  define a where "a = field m d 1"
  have f: "has_fields m d n" "2 < n" "has_fields m a (hw m a 0 - 2)" "n \<le> hw m a 0"
    using dict_okD(1-4) [OF d] by (simp_all add: n a_def)
  have now: "fetchPointer_ofObject i d m = Some (field m d i)" using field_reads(2) [OF f(1), of i] Suc.prems by simp
  have array: "fetchPointer_ofObject 1 d m = Some a" using field_reads(2) [OF f(1), of 1] f(2) by (simp add: a_def)
  show ?case
  proof (cases "stop_at m d sel i")
    case True
    have now_find: "find (stop_at m d sel) [i..n - 1] = Some i" using True Suc.prems by (simp add: find_upto)
    show ?thesis
    proof (cases "field m d i = NilPointer")
      case nil: True
      then have "dictionary_loop n i w d s = Some (False, s)" by (subst dictionary_loop.simps) (simp add: now s)
      then show ?thesis using nil by (simp add: now_find)
    next
      case sel: False
      then have "field m d i = sel" using True by (simp add: stop_at_def)
      moreover have "fetchPointer_ofObject (i - 2) a m = Some (field m a (i - 2))"
        using field_reads(2) [OF f(3), of "i - 2"] f(4) Suc.prems by simp
      moreover have "method_ok m (field m a (i - 2))" using dict_okD(5) [OF d] sel Suc.prems by (simp add: n a_def)
      then have "primitiveIndexOf (field m a (i - 2)) s = Some (primitive_of m (field m a (i - 2)))"
        using primitiveIndexOf_view s by blast
      ultimately have "dictionary_loop n i w d s = Some (True, found (field m a (i - 2)) s)"
        using sel by (subst dictionary_loop.simps) (simp add: now array s found_def)
      then show ?thesis using sel by (simp add: now_find a_def)
    qed
  next
    case False
    have find: "find (stop_at m d sel) [i..n - 1] = find (stop_at m d sel) [i + 1..n - 1]"
      using False Suc.prems by (simp add: find_upto)
    show ?thesis
    proof (cases "i + 1 = n")
      case True
      then show ?thesis using False now s unfolding find
        by (subst dictionary_loop.simps) (simp add: stop_at_def)
    next
      case more: False
      have "dictionary_loop n i w d s = dictionary_loop n (i + 1) w d s"
        using False now s more by (subst dictionary_loop.simps) (simp add: stop_at_def)
      then show ?thesis using Suc.hyps(1) [of "i + 1"] Suc.hyps(2) Suc.prems more unfolding find by auto
    qed
  qed
qed

lemma find_unique: "i \<in> set xs \<Longrightarrow> P i \<Longrightarrow> (\<And>j. j \<in> set xs \<Longrightarrow> P j \<Longrightarrow> j = i) \<Longrightarrow> find P xs = Some i"
proof (induction xs)
  case (Cons a xs)
  show ?case
  proof (cases "P a")
    case True
    then have "a = i" using Cons.prems(3) [of a] by simp
    then show ?thesis using True by simp
  next
    case False
    then have "i \<in> set xs" using Cons.prems(1,2) by auto
    then have "find P xs = Some i"
    proof (rule Cons.IH)
      show "j = i" if "j \<in> set xs" "P j" for j using Cons.prems(3) [of j] that by simp
    qed (rule Cons.prems(2))
    then show ?thesis using False by simp
  qed
qed simp

lemma find_upto_first:
  assumes "a \<le> i" "i \<le> b" "P i" "\<And>j. a \<le> j \<Longrightarrow> j < i \<Longrightarrow> \<not> P j"
  shows "find P [a..b] = Some i"
  using assms
proof (induction "nat (i - a)" arbitrary: a)
  case 0
  then show ?case by (simp add: find_upto)
next
  case (Suc k)
  then have "\<not> P a" by simp
  then show ?case using Suc.hyps(1) [of "a + 1"] Suc.hyps(2) Suc.prems by (simp add: find_upto)
qed

lemma find_upto_none: "(\<And>j. a \<le> j \<Longrightarrow> j \<le> b \<Longrightarrow> \<not> P j) \<Longrightarrow> find P [a..b] = None"
  by (auto simp: find_None_iff)

lemma lookup_dictionary:
  assumes d: "dict_ok m d" and s: "memory s = m" "messageSelector s = sel" and sel: "sel \<noteq> NilPointer"
  shows "lookupMethodInDictionary d s =
    Some (case dict_method m d sel of None \<Rightarrow> (False, s) | Some x \<Rightarrow> (True, found x s))"
proof -
  define n where "n = dict_size m d"
  define i0 where "i0 = hash_start n sel"
  define hit where "hit = (\<lambda>j. if field m d j = NilPointer then (False, s) else (True, found (field m (field m d 1) (j - 2)) s))"
  have f: "has_fields m d n" "2 < n" using dict_okD(1,2) [OF d] by (simp_all add: n_def)
  have i0: "2 \<le> i0" "i0 < n" using hash_start_bounds [OF f(2)] by (simp_all add: i0_def)
  note loop = dictionary_loop_view [OF d n_def s]
  have start: "lookupMethodInDictionary d s = dictionary_loop n i0 False d s"
    using s field_reads(1) [OF f(1)] by (simp add: lookupMethodInDictionary_def i0_def hash_start_def)
  show ?thesis
  proof (cases "\<exists>i. 2 \<le> i \<and> i < n \<and> field m d i = sel")
    case True
    then obtain i where i: "2 \<le> i" "i < n" "field m d i = sel" by blast
    then have nn: "field m d i \<noteq> NilPointer" using sel by simp
    have unique: "j = i" if "2 \<le> j" "j < n" "field m d j = sel" for j
      using dict_okD(6) [OF d _ _ nn] i that by (simp add: n_def)
    have way: "\<not> stop_at m d sel j" if "j \<in> probed n i0 i" for j
    proof -
      have "field m d j \<noteq> NilPointer" using dict_okD(7) [OF d _ _ nn, of j] i that by (simp add: n_def i0_def)
      moreover have "2 \<le> j" "j < n" "j \<noteq> i" using that i i0 by (auto simp: probed_def split: if_splits)
      ultimately show ?thesis using unique [of j] by (auto simp: stop_at_def)
    qed
    have m: "dict_method m d sel = Some (field m (field m d 1) (i - 2))"
    proof -
      have "find (\<lambda>i. field m d i = sel) [2..n - 1] = Some i"
      proof (rule find_unique)
        show "j = i" if "j \<in> set [2..n - 1]" "field m d j = sel" for j using unique [of j] that by simp
      qed (use i in simp_all)
      then show ?thesis by (simp add: dict_method_def n_def)
    qed
    have at: "stop_at m d sel i" "hit i = (True, found (field m (field m d 1) (i - 2)) s)"
      using i nn by (simp_all add: stop_at_def hit_def)
    have "dictionary_loop n i0 False d s = Some (hit i)"
    proof (cases "i0 \<le> i")
      case True
      then have "find (stop_at m d sel) [i0..n - 1] = Some i" using i way at(1) by (intro find_upto_first) (auto simp: probed_def)
      then show ?thesis using loop [OF i0] by (simp add: hit_def)
    next
      case False
      then have "find (stop_at m d sel) [i0..n - 1] = None" using way by (intro find_upto_none) (auto simp: probed_def)
      moreover have "find (stop_at m d sel) [2..n - 1] = Some i"
        using False i way at(1) by (intro find_upto_first) (auto simp: probed_def)
      ultimately show ?thesis using loop [OF i0, of False] loop [of 2 True] f(2) by (simp add: hit_def)
    qed
    then show ?thesis using m at(2) start by simp
  next
    case False
    then have m: "dict_method m d sel = None" by (auto simp: dict_method_def find_None_iff n_def split: option.split)
    have miss: "hit j = (False, s)" if "find (stop_at m d sel) [a..n - 1] = Some j" "2 \<le> a" for a j
    proof -
      have "stop_at m d sel j" "j \<in> set [a..n - 1]" using that(1) by (auto simp: find_Some_iff in_set_conv_nth)
      then show ?thesis using False that(2) by (auto simp: stop_at_def hit_def)
    qed
    have second: "dictionary_loop n 2 True d s = Some (False, s)"
      using loop [of 2 True] f(2) miss [of 2] by (auto simp: hit_def split: option.splits)
    then have "dictionary_loop n i0 False d s = Some (False, s)"
      using loop [OF i0, of False] miss [of i0] i0 by (auto simp: hit_def split: option.splits)
    then show ?thesis using m start by simp
  qed
qed

section \<open>Chains of classes\<close>

text \<open>A class, its superclass and so on up to nil, each with a method dictionary.\<close>

fun class_chain :: "omem \<Rightarrow> int \<Rightarrow> int list \<Rightarrow> bool" where
  "class_chain m c [] \<longleftrightarrow> c = NilPointer" |
  "class_chain m c (x # xs) \<longleftrightarrow> c = x \<and> x \<noteq> NilPointer \<and> has_fields m x (hw m x 0 - 2) \<and> 4 \<le> hw m x 0 \<and>
     dict_ok m (field m x MessageDictionaryIndex) \<and> class_chain m (field m x SuperclassIndex) xs"

text \<open>The method a selector denotes for a class: the first one up the chain.\<close>

fun method_for :: "omem \<Rightarrow> int \<Rightarrow> int list \<Rightarrow> int option" where
  "method_for m sel [] = None" |
  "method_for m sel (c # cs) =
     (case dict_method m (field m c MessageDictionaryIndex) sel of Some x \<Rightarrow> Some x | None \<Rightarrow> method_for m sel cs)"

lemma search_classes_view:
  assumes "class_chain m c cs" "memory s = m" "messageSelector s = sel" "sel \<noteq> NilPointer"
  shows "search_classes c s = Some (case method_for m sel cs of None \<Rightarrow> (False, s) | Some x \<Rightarrow> (True, found x s))"
  using assms(1)
proof (induction cs arbitrary: c)
  case Nil
  then show ?case by (subst search_classes.simps) simp
next
  case (Cons x xs)
  then have c: "c = x" "c \<noteq> NilPointer" "has_fields m c (hw m c 0 - 2)" "4 \<le> hw m c 0" "dict_ok m (field m c 1)"
    "class_chain m (field m c 0) xs" by auto
  have "fetchPointer_ofObject 1 c m = Some (field m c 1)" "fetchPointer_ofObject 0 c m = Some (field m c 0)"
    using field_reads(2) [OF c(3)] c(4) by simp_all
  then show ?case
    using lookup_dictionary [OF c(5) assms(2-4)] Cons.IH [OF c(6)] c(1,2) assms(2)
    by (subst search_classes.simps) (simp add: superclassOf_def split: option.splits)
qed

section \<open>The method cache\<close>

text \<open>What the cache says of a class that has the selector is what the lookup finds.\<close>

definition coherent :: "'w interp \<Rightarrow> bool" where
  "coherent s \<longleftrightarrow>
     (\<forall>c cs sel x. class_chain (memory s) c cs \<longrightarrow> method_for (memory s) sel cs = Some x \<longrightarrow>
        methodCache s (cache_hash sel c) = sel \<longrightarrow> methodCache s (cache_hash sel c + 1) = c \<longrightarrow>
        methodCache s (cache_hash sel c + 2) = x \<and> methodCache s (cache_hash sel c + 3) = primitive_of (memory s) x)"

lemma class_chain_unique: "class_chain m c xs \<Longrightarrow> class_chain m c ys \<Longrightarrow> xs = ys"
proof (induction xs arbitrary: c ys)
  case Nil
  then show ?case by (cases ys) auto
next
  case (Cons x xs)
  then show ?case by (cases ys) auto
qed

lemma cache_hash_slot: "\<exists>k. cache_hash sel c = 4 * k \<and> 0 \<le> k \<and> k < 256"
proof -
  have "0 \<le> (sel AND c) AND 255" "(sel AND c) AND 255 \<le> (255 :: int)" using AND_upper2 [of 255 "sel AND c"] by simp_all
  then show ?thesis by (intro exI [of _ "(sel AND c) AND 255"]) (simp add: cache_hash_def push_bit_eq_mult)
qed

lemma lookupMethodInClass_found:
  assumes "class_chain m c cs" "memory s = m" "messageSelector s = sel" "sel \<noteq> NilPointer" "method_for m sel cs = Some x"
  shows "lookupMethodInClass c s = Some (found x s)"
  using search_classes_view [OF assms(1-4)] assms(5) by (subst lookupMethodInClass.simps) simp

lemma fill_coherent:
  assumes co: "coherent s" and c: "class_chain (memory s) c cs" and x: "method_for (memory s) (messageSelector s) cs = Some x"
  shows "coherent (fill_cache (cache_hash (messageSelector s) c) c (found x s))"
proof -
  let ?h = "cache_hash (messageSelector s) c"
  let ?s = "fill_cache ?h c (found x s)"
  have "methodCache ?s (cache_hash sel d + 2) = y \<and> methodCache ?s (cache_hash sel d + 3) = primitive_of (memory s) y"
    if d: "class_chain (memory s) d ds" "method_for (memory s) sel ds = Some y"
      and hit: "methodCache ?s (cache_hash sel d) = sel" "methodCache ?s (cache_hash sel d + 1) = d" for d ds sel y
  proof -
    obtain j k where jk: "?h = 4 * j" "cache_hash sel d = 4 * k" using cache_hash_slot by metis
    show ?thesis
    proof (cases "j = k")
      case True
      then have eq: "sel = messageSelector s" "d = c" using hit jk by (simp_all add: fill_cache_def found_def)
      then have "ds = cs" using class_chain_unique d(1) c by blast
      then have "y = x" using d(2) x eq by simp
      then show ?thesis using True jk by (simp add: fill_cache_def found_def)
    next
      case False
      have cell: "methodCache ?s (4 * k + i) = methodCache s (4 * k + i)" if "0 \<le> i" "i < 4" for i
        using False that jk(1) by (auto simp: fill_cache_def found_def)
      have at: "methodCache s (cache_hash sel d) = sel" "methodCache s (cache_hash sel d + 1) = d"
        using hit cell [of 0] cell [of 1] jk(2) by simp_all
      have "methodCache s (cache_hash sel d + 2) = y \<and> methodCache s (cache_hash sel d + 3) = primitive_of (memory s) y"
        using co d at unfolding coherent_def by blast
      then show ?thesis using cell [of 2] cell [of 3] jk(2) by simp
    qed
  qed
  then show ?thesis by (simp add: coherent_def fill_cache_def found_def)
qed

section \<open>An example\<close>

text \<open>The class 100 without superclass, with the dictionary 102, the array 104 and the method 106 for the selector 200.\<close>

definition ex_classes :: omem where
  "ex_classes =
     \<lparr>cell = (\<lambda>s w. if s = 15 then if w \<in> {100, 102, 104, 106} then 0x0240 else if w = 103 then 10 else if w = 105 then 20
                                else if w = 107 then 30 else 0
                    else if s = 0 then if w = 0 then 5 else if w = 2 then 2 else if w = 3 then 102
                                  else if w = 10 then 6 else if w = 13 then 104 else if w = 14 then 200 else if w = 15 then 2
                                  else if w = 20 then 4 else if w = 22 then 106 else if w = 23 then 2
                                  else if w = 30 then 4 else 1
                    else 0),
      currentSegment = 0, freeWords = 0, freeOops = 0\<rparr>"

lemma ex_classes_entries:
  "p \<in> {100, 102, 104, 106} \<Longrightarrow> seg_of ex_classes p = 0" "loc_of ex_classes 100 = 0" "loc_of ex_classes 102 = 10"
  "loc_of ex_classes 104 = 20" "loc_of ex_classes 106 = 30"
  by (auto simp: seg_of_def loc_of_def ex_classes_def field_get_def mask_eq_exp_minus_1)

lemma ex_classes_words [simp]:
  "hw ex_classes 100 0 = 5" "field ex_classes 100 0 = 2" "field ex_classes 100 1 = 102"
  "hw ex_classes 102 0 = 6" "field ex_classes 102 1 = 104" "field ex_classes 102 2 = 200" "field ex_classes 102 3 = 2"
  "hw ex_classes 104 0 = 4" "field ex_classes 104 0 = 106" "field ex_classes 104 1 = 2"
  "hw ex_classes 106 0 = 4" "field ex_classes 106 0 = 1" "field ex_classes 106 1 = 1"
  by (simp_all add: hw_def field_def ex_classes_entries) (simp_all add: ex_classes_def)

lemma ex_classes_fields:
  "has_fields ex_classes 100 3" "has_fields ex_classes 102 4" "has_fields ex_classes 104 2" "has_fields ex_classes 106 2"
  by (simp_all add: has_fields_def ex_classes_entries oop_ok_def)

lemma ex_method: "method_ok ex_classes 106" "primitive_of ex_classes 106 = 0"
  by (simp_all add: method_ok_def method_header_def primitive_of_def ex_classes_fields literalCountOfHeader_def
      extractBits_to_of_def Let_def)

lemma ex_class_chain: "class_chain ex_classes 100 [100]" "method_for ex_classes 200 [100] = Some 106"
proof -
  have i: "{2..<4} = {2, 3 :: int}" by auto
  have h: "hash_start 4 200 = 2" by (simp add: hash_start_def hash_def drop_bit_eq_div)
  have "dict_ok ex_classes 102"
    using ex_method(1) h by (simp add: dict_ok_def dict_size_def ex_classes_fields i probed_def)
  then show "class_chain ex_classes 100 [100]" using ex_classes_fields(1) by simp
  have "[2..3] = [2, 3 :: int]" by (simp add: upto.simps)
  then show "method_for ex_classes 200 [100] = Some 106" by (simp add: dict_method_def dict_size_def)
qed

section \<open>The properties\<close>

text \<open>C32: For a well-formed dictionary (no selector twice, no nil between the place of the hash of a
selector and the place where it stands) probing from the hash with wrap-around ends, finds a method exactly when the
selector stands somewhere in the dictionary, finds the method at its place, and changes nothing but the two registers of
the result.\<close>

theorem dictionary_lookup:
  assumes "dict_ok (memory s) d" "messageSelector s \<noteq> NilPointer"
  shows "lookupMethodInDictionary d s =
    Some (case dict_method (memory s) d (messageSelector s) of None \<Rightarrow> (False, s)
          | Some x \<Rightarrow> (True, s\<lparr>newMethod := x, primitiveIndex := primitive_of (memory s) x\<rparr>))"
  using lookup_dictionary [OF assms(1) refl refl assms(2)] by (simp add: found_def cong: option.case_cong)

theorem dictionary_lookup_witness:
  "lookupMethodInDictionary 102 ((ex_interp ex_classes)\<lparr>messageSelector := 200\<rparr>) =
     Some (True, (ex_interp ex_classes)\<lparr>messageSelector := 200, newMethod := 106, primitiveIndex := 0\<rparr>)"
proof -
  have "dict_ok ex_classes 102" using ex_class_chain(1) by simp
  then have "dict_ok (memory ((ex_interp ex_classes)\<lparr>messageSelector := 200\<rparr>)) 102" by simp
  note l = dictionary_lookup [OF this]
  have "[2..3] = [2, 3 :: int]" by (simp add: upto.simps)
  then show ?thesis using l ex_method(2) by (simp add: dict_method_def dict_size_def)
qed

text \<open>C10: The method cache does not change the result of a lookup: if the cache is coherent and the
class or one of its superclasses has the selector, the method found is the first one up the chain with its primitive index,
only these two registers and the cache change, and the cache stays coherent; the empty cache is coherent.\<close>

theorem cache_transparent:
  assumes "coherent s" "class_chain (memory s) c cs" "messageSelector s \<noteq> NilPointer"
    "method_for (memory s) (messageSelector s) cs = Some x"
  shows "coherent (initializeMethodCache s) \<and>
    (\<exists>mc s'. findNewMethodInClass c s = Some s' \<and> coherent s' \<and>
       s' = s\<lparr>newMethod := x, primitiveIndex := primitive_of (memory s) x, methodCache := mc\<rparr>)"
proof (intro conjI)
  show "coherent (initializeMethodCache s)"
  proof -
    have "method_for (memory s) 2 ds = None" if "class_chain (memory s) 2 ds" for ds using that by (cases ds) auto
    then show ?thesis by (auto simp: coherent_def initializeMethodCache_def)
  qed
  let ?h = "cache_hash (messageSelector s) c"
  show "\<exists>mc s'. findNewMethodInClass c s = Some s' \<and> coherent s' \<and>
       s' = s\<lparr>newMethod := x, primitiveIndex := primitive_of (memory s) x, methodCache := mc\<rparr>"
  proof (cases "methodCache s ?h = messageSelector s \<and> methodCache s (?h + 1) = c")
    case True
    then have "methodCache s (?h + 2) = x \<and> methodCache s (?h + 3) = primitive_of (memory s) x"
      using assms(1,2,4) unfolding coherent_def by blast
    then have "findNewMethodInClass c s = Some (found x s)" using True by (simp add: findNewMethodInClass_def found_def Let_def)
    moreover have "coherent (found x s)" using assms(1) by (simp add: coherent_def found_def)
    ultimately show ?thesis by (intro exI [of _ "methodCache s"] exI [of _ "found x s"]) (simp add: found_def)
  next
    case False
    have "lookupMethodInClass c s = Some (found x s)"
      by (rule lookupMethodInClass_found [OF assms(2) refl refl assms(3,4)])
    then have "findNewMethodInClass c s = Some (fill_cache ?h c (found x s))"
      using False by (auto simp: findNewMethodInClass_def Let_def)
    then show ?thesis using fill_coherent [OF assms(1,2,4)]
      by (intro exI [of _ "methodCache (fill_cache ?h c (found x s))"] exI [of _ "fill_cache ?h c (found x s)"])
        (simp add: fill_cache_def found_def)
  qed
qed

theorem cache_transparent_witness:
  "\<exists>s'. findNewMethodInClass 100 ((ex_interp ex_classes)\<lparr>messageSelector := 200\<rparr>) = Some s' \<and> newMethod s' = 106 \<and>
     primitiveIndex s' = 0 \<and> coherent s'"
proof -
  let ?s = "(ex_interp ex_classes)\<lparr>messageSelector := 200\<rparr>"
  have "method_for ex_classes 2 ds = None" if "class_chain ex_classes 2 ds" for ds using that by (cases ds) auto
  then have co: "coherent ?s" by (auto simp: coherent_def ex_interp_def)
  show ?thesis using cache_transparent [OF co, of 100 "[100]" 106] ex_class_chain ex_method(2) by auto
qed

end
