(* ===== verification/VmBlit.thy ===== *)
theory VmBlit
  imports VmView
begin

text \<open>
  Correctness of bit block transfer: clipping is the intersection of rectangles, the combination rules are the truth
  tables of their numbers, and a transfer between different bitmaps changes exactly the pixels of the clipped rectangle,
  each to the combination of its source, halftone and destination.
\<close>

section \<open>Clipping\<close>

text \<open>The steps of the clipping in closed form.\<close>

lemma clip_to_form_view:
  "clip_to_form b = b\<lparr>bb_clipX := max 0 (bb_clipX b), bb_clipY := max 0 (bb_clipY b),
     bb_clipWidth := min (bb_clipX b + bb_clipWidth b) (bb_destFormWidth b) - max 0 (bb_clipX b),
     bb_clipHeight := min (bb_clipY b + bb_clipHeight b) (bb_destFormHeight b) - max 0 (bb_clipY b)\<rparr>"
  by (cases b rule: bitblt.cases_scheme) (simp add: clip_to_form_def max_def min_def)

lemma clip_dest_x_view:
  "clip_dest_x b = (let d = max (bb_destX b) (bb_clipX b)
     in b\<lparr>bb_sx := bb_sourceX b + (d - bb_destX b), bb_dx := d,
          bb_w := min (bb_destX b + bb_width b) (bb_clipX b + bb_clipWidth b) - d\<rparr>)"
  by (cases b rule: bitblt.cases_scheme) (simp add: clip_dest_x_def max_def min_def)

lemma clip_dest_y_view:
  "clip_dest_y b = (let d = max (bb_destY b) (bb_clipY b)
     in b\<lparr>bb_sy := bb_sourceY b + (d - bb_destY b), bb_dy := d,
          bb_h := min (bb_destY b + bb_height b) (bb_clipY b + bb_clipHeight b) - d\<rparr>)"
  by (cases b rule: bitblt.cases_scheme) (simp add: clip_dest_y_def max_def min_def)

lemma clip_source_view:
  "clip_source b =
     b\<lparr>bb_dx := bb_dx b + max 0 (- bb_sx b), bb_sx := max 0 (bb_sx b),
       bb_w := min (bb_sx b + bb_w b) (bb_sourceFormWidth b) - max 0 (bb_sx b),
       bb_dy := bb_dy b + max 0 (- bb_sy b), bb_sy := max 0 (bb_sy b),
       bb_h := min (bb_sy b + bb_h b) (bb_sourceFormHeight b) - max 0 (bb_sy b)\<rparr>"
  by (cases b rule: bitblt.cases_scheme) (simp add: clip_source_def max_def min_def)

text \<open>A position of the destination lies in the rectangle of the transfer, in the clipping rectangle, in the
destination, and its source in the source.\<close>

definition in_transfer :: "'a bitblt_scheme \<Rightarrow> int \<Rightarrow> int \<Rightarrow> bool" where
  "in_transfer b x y \<longleftrightarrow>
     bb_destX b \<le> x \<and> x < bb_destX b + bb_width b \<and> bb_destY b \<le> y \<and> y < bb_destY b + bb_height b \<and>
     bb_clipX b \<le> x \<and> x < bb_clipX b + bb_clipWidth b \<and> bb_clipY b \<le> y \<and> y < bb_clipY b + bb_clipHeight b \<and>
     0 \<le> x \<and> x < bb_destFormWidth b \<and> 0 \<le> y \<and> y < bb_destFormHeight b \<and>
     (bb_sourceForm b \<noteq> NilPointer \<longrightarrow>
        0 \<le> x - bb_destX b + bb_sourceX b \<and> x - bb_destX b + bb_sourceX b < bb_sourceFormWidth b \<and>
        0 \<le> y - bb_destY b + bb_sourceY b \<and> y - bb_destY b + bb_sourceY b < bb_sourceFormHeight b)"

text \<open>One dimension: the clipping interval cut to the form, the destination cut to it, and cut to the source.\<close>

lemma clip_interval:
  fixes D W C CW F x :: int
  defines "c \<equiv> max 0 C" and "d \<equiv> max D (max 0 C)"
  shows "d \<le> x \<and> x < d + (min (D + W) (c + (min (C + CW) F - c)) - d) \<longleftrightarrow>
    D \<le> x \<and> x < D + W \<and> C \<le> x \<and> x < C + CW \<and> 0 \<le> x \<and> x < F"
  unfolding c_def d_def by auto

lemma clip_interval_source:
  fixes d w s S x :: int
  shows "d + max 0 (- s) \<le> x \<and> x < d + max 0 (- s) + (min (s + w) S - max 0 s) \<longleftrightarrow>
    d \<le> x \<and> x < d + w \<and> 0 \<le> x - d + s \<and> x - d + s < S"
proof -
  have "d + max 0 (- s) + (min (s + w) S - max 0 s) = d - s + min (s + w) S" by simp
  then show ?thesis by auto
qed

lemma clipRange_view:
  assumes "b' = clipRange b"
  shows "bb_dx b' \<le> x \<and> x < bb_dx b' + bb_w b' \<and> bb_dy b' \<le> y \<and> y < bb_dy b' + bb_h b' \<longleftrightarrow> in_transfer b x y"
    "bb_sx b' - bb_dx b' = bb_sourceX b - bb_destX b" "bb_sy b' - bb_dy b' = bb_sourceY b - bb_destY b"
    "bb_sourceForm b' = bb_sourceForm b" "bb_destForm b' = bb_destForm b" "bb_halftoneForm b' = bb_halftoneForm b"
    "bb_combinationRule b' = bb_combinationRule b" "bb_destFormWidth b' = bb_destFormWidth b"
    "bb_destFormHeight b' = bb_destFormHeight b" "bb_sourceFormWidth b' = bb_sourceFormWidth b"
    "bb_sourceFormHeight b' = bb_sourceFormHeight b"
proof -
  define b1 where "b1 = clip_dest_y (clip_dest_x (clip_to_form b))"
  note v = clip_to_form_view clip_dest_x_view clip_dest_y_view Let_def
  have f: "bb_sourceForm b1 = bb_sourceForm b" "bb_destForm b1 = bb_destForm b" "bb_halftoneForm b1 = bb_halftoneForm b"
    "bb_combinationRule b1 = bb_combinationRule b" "bb_destFormWidth b1 = bb_destFormWidth b"
    "bb_destFormHeight b1 = bb_destFormHeight b" "bb_sourceFormWidth b1 = bb_sourceFormWidth b"
    "bb_sourceFormHeight b1 = bb_sourceFormHeight b"
    by (simp_all add: b1_def v)
  have x1: "bb_dx b1 \<le> x \<and> x < bb_dx b1 + bb_w b1 \<longleftrightarrow>
     bb_destX b \<le> x \<and> x < bb_destX b + bb_width b \<and> bb_clipX b \<le> x \<and> x < bb_clipX b + bb_clipWidth b \<and>
     0 \<le> x \<and> x < bb_destFormWidth b" "bb_sx b1 = bb_sourceX b + (bb_dx b1 - bb_destX b)"
    using clip_interval [where x = x] by (simp_all add: b1_def v)
  have y1: "bb_dy b1 \<le> y \<and> y < bb_dy b1 + bb_h b1 \<longleftrightarrow>
     bb_destY b \<le> y \<and> y < bb_destY b + bb_height b \<and> bb_clipY b \<le> y \<and> y < bb_clipY b + bb_clipHeight b \<and>
     0 \<le> y \<and> y < bb_destFormHeight b" "bb_sy b1 = bb_sourceY b + (bb_dy b1 - bb_destY b)"
    using clip_interval [where x = y] by (simp_all add: b1_def v)
  have b': "b' = (if bb_sourceForm b = NilPointer then b1 else clip_source b1)"
    using f(1) by (simp add: assms clipRange_def b1_def Let_def)
  show "bb_dx b' \<le> x \<and> x < bb_dx b' + bb_w b' \<and> bb_dy b' \<le> y \<and> y < bb_dy b' + bb_h b' \<longleftrightarrow> in_transfer b x y"
  proof (cases "bb_sourceForm b = NilPointer")
    case True
    then show ?thesis using x1(1) y1(1) by (auto simp: b' in_transfer_def)
  next
    case False
    have s: "x - bb_dx b1 + bb_sx b1 = x - bb_destX b + bb_sourceX b" "y - bb_dy b1 + bb_sy b1 = y - bb_destY b + bb_sourceY b"
      using x1(2) y1(2) by simp_all
    have "bb_dx b' \<le> x \<and> x < bb_dx b' + bb_w b' \<longleftrightarrow> bb_dx b1 \<le> x \<and> x < bb_dx b1 + bb_w b1 \<and>
        0 \<le> x - bb_destX b + bb_sourceX b \<and> x - bb_destX b + bb_sourceX b < bb_sourceFormWidth b"
      using False f clip_interval_source [of "bb_dx b1" "bb_sx b1" x "bb_w b1" "bb_sourceFormWidth b1"] s(1)
      by (simp add: b' clip_source_view)
    moreover have "bb_dy b' \<le> y \<and> y < bb_dy b' + bb_h b' \<longleftrightarrow> bb_dy b1 \<le> y \<and> y < bb_dy b1 + bb_h b1 \<and>
        0 \<le> y - bb_destY b + bb_sourceY b \<and> y - bb_destY b + bb_sourceY b < bb_sourceFormHeight b"
      using False f clip_interval_source [of "bb_dy b1" "bb_sy b1" y "bb_h b1" "bb_sourceFormHeight b1"] s(2)
      by (simp add: b' clip_source_view)
    ultimately show ?thesis using x1(1) y1(1) False by (auto simp: in_transfer_def)
  qed
  show "bb_sx b' - bb_dx b' = bb_sourceX b - bb_destX b" "bb_sy b' - bb_dy b' = bb_sourceY b - bb_destY b"
    using x1(2) y1(2) by (auto simp: b' clip_source_view max_def)
  show "bb_sourceForm b' = bb_sourceForm b" "bb_destForm b' = bb_destForm b" "bb_halftoneForm b' = bb_halftoneForm b"
    "bb_combinationRule b' = bb_combinationRule b" "bb_destFormWidth b' = bb_destFormWidth b"
    "bb_destFormHeight b' = bb_destFormHeight b" "bb_sourceFormWidth b' = bb_sourceFormWidth b"
    "bb_sourceFormHeight b' = bb_sourceFormHeight b"
    using f by (simp_all add: b' clip_source_view)
qed

section \<open>Rules, masks and the rotation\<close>

text \<open>The combination rule as a truth table: bit 0 for both bits set, 1 for the source alone, 2 for the destination alone, 3
for neither.\<close>

definition rule_bit :: "int \<Rightarrow> bool \<Rightarrow> bool \<Rightarrow> bool" where
  "rule_bit rule s d = bit rule (if s then if d then 0 else 1 else if d then 2 else 3)"

lemma merge_with_bits:
  assumes "0 \<le> rule" "rule \<le> 15"
  shows "\<exists>v. merge_with rule s d = Some v \<and> (\<forall>n<16. bit v n = rule_bit rule (bit s n) (bit d n))"
proof -
  have "rule \<in> {0..15}" using assms by simp
  also have "{0..15} = set [0..15 :: int]" by simp
  also have "[0..15 :: int] = [0, 1, 2, 3, 4, 5, 6, 7, 8, 9, 10, 11, 12, 13, 14, 15]" by (simp add: upto.simps)
  finally have "rule = 0 \<or> rule = 1 \<or> rule = 2 \<or> rule = 3 \<or> rule = 4 \<or> rule = 5 \<or> rule = 6 \<or> rule = 7 \<or> rule = 8 \<or>
      rule = 9 \<or> rule = 10 \<or> rule = 11 \<or> rule = 12 \<or> rule = 13 \<or> rule = 14 \<or> rule = 15"
    by (simp only: set_simps insert_iff empty_iff simp_thms)
  moreover have ones: "bit AllOnes n" if "n < 16" for n
  proof -
    have a: "AllOnes = mask 16" by (simp add: AllOnes_def mask_eq_exp_minus_1)
    show ?thesis unfolding a using that by (simp add: bit_simps del: mask_numeral)
  qed
  ultimately show ?thesis
    by (elim disjE) (simp_all add: merge_with_def rule_bit_def bit_simps ones)
qed

lemma RightMasks_mask:
  assumes "0 \<le> k" "k \<le> 16"
  shows "RightMasks ! nat k = mask (nat k)"
proof -
  have "nat k \<in> {0..16}" using assms by auto
  also have "{0..16 :: nat} = set [0..<17]" by auto
  also have "[0..<17] = [0, 1, 2, 3, 4, 5, 6, 7, 8, 9, 10, 11, 12, 13, 14, 15, 16]" by (simp add: upt_rec)
  finally show ?thesis
    by (simp only: set_simps insert_iff empty_iff simp_thms) (elim disjE, simp_all add: RightMasks_def mask_eq_exp_minus_1)
qed

text \<open>The source word of a step: the low bits of the word before and the high bits of this word.\<close>

definition skewed :: "int \<Rightarrow> 16 word \<Rightarrow> 16 word \<Rightarrow> 16 word \<Rightarrow> 16 word" where
  "skewed skew msk p t =
     (let x = (p AND msk) OR (t AND NOT msk) in push_bit (nat skew) x OR drop_bit (nat (16 - skew)) x)"

definition skew_mask :: "int \<Rightarrow> 16 word" where
  "skew_mask skew = (if skew = 0 then 0 else mask (nat (16 - skew)))"

lemma skewed_bits:
  assumes "0 \<le> skew" "skew < 16" "n < 16"
  shows "bit (skewed skew (skew_mask skew) p t) n =
    (if skew = 0 then bit t n else if nat skew \<le> n then bit p (n - nat skew) else bit t (16 + n - nat skew))"
proof (cases "skew = 0")
  case True
  then show ?thesis using assms(3) by (simp add: skewed_def skew_mask_def bit_simps Let_def)
next
  case False
  define k where "k = nat skew"
  have k: "nat (16 - skew) = 16 - k" "k < 16" "0 < k" using False assms(1,2) by (auto simp: k_def)
  show ?thesis
    using False assms(3) k
    by (auto simp: skewed_def skew_mask_def bit_simps Let_def k_def [symmetric] not_le)
qed

section \<open>Bitmaps\<close>

text \<open>Word \<open>i\<close> of a bitmap; the pixel at a position, the leftmost in the highest bit.\<close>

definition word_at :: "omem \<Rightarrow> int \<Rightarrow> int \<Rightarrow> 16 word" where
  "word_at m p i = word_of_int (field m p i)"

definition pixel :: "omem \<Rightarrow> int \<Rightarrow> int \<Rightarrow> int \<Rightarrow> int \<Rightarrow> bool" where
  "pixel m p raster x y = bit (word_at m p (y * raster + x div 16)) (nat (15 - x mod 16))"

text \<open>Only words of the bitmap \<open>p\<close> with index in \<open>I\<close> have changed.\<close>

definition written :: "omem \<Rightarrow> omem \<Rightarrow> int \<Rightarrow> int set \<Rightarrow> bool" where
  "written m m' p I \<longleftrightarrow>
     currentSegment m' = currentSegment m \<and> freeWords m' = freeWords m \<and> freeOops m' = freeOops m \<and>
     (\<forall>s w. \<not> (s = seg_of m p \<and> w - loc_of m p - 2 \<in> I) \<longrightarrow> cell m' s w = cell m s w)"

lemma written_refl: "written m m p {}"
  by (simp add: written_def)

lemma written_table:
  assumes "written m m' p I" "seg_of m p \<noteq> 15"
  shows "cell m' 15 = cell m 15" "seg_of m' = seg_of m" "loc_of m' = loc_of m" "ptr_of m' = ptr_of m" "odd_of m' = odd_of m"
    "free_of m' = free_of m" "count_of m' = count_of m"
proof -
  show c: "cell m' 15 = cell m 15" using assms by (auto simp: written_def fun_eq_iff)
  then show "seg_of m' = seg_of m" "loc_of m' = loc_of m" "ptr_of m' = ptr_of m" "odd_of m' = odd_of m"
    "free_of m' = free_of m" "count_of m' = count_of m"
    by (simp_all add: entry_views fun_eq_iff)
qed

lemma written_trans:
  assumes "written a b p I" "written b c p J" "seg_of a p \<noteq> 15"
  shows "written a c p (I \<union> J)"
  using assms written_table(2,3) [OF assms(1,3)] by (auto simp: written_def)

lemma written_field:
  assumes "written m m' p I" "seg_of m p \<noteq> 15"
  shows "i \<notin> I \<Longrightarrow> field m' p i = field m p i"
  using assms written_table(2,3) [OF assms] by (auto simp: written_def field_def hw_def)

lemma written_fields:
  assumes "written m m' p I" "has_fields m p n" "I \<subseteq> {0..<n}"
  shows "has_fields m' p n"
proof -
  have "-2 \<notin> I" using assms(3) by auto
  then show ?thesis
    using assms(2) written_table(2,3) [OF assms(1)] written_field [OF assms(1), of "-2"]
    by (simp add: has_fields_def field_def)
qed

lemma written_other:
  assumes "written m m' p I" "has_fields m p n" "I \<subseteq> {0..<n}" "has_fields m q k" "disjoint_objects m p q"
  shows "has_fields m' q k" "-2 \<le> i \<Longrightarrow> i < k \<Longrightarrow> field m' q i = field m q i"
proof -
  note t = written_table(2,3) [OF assms(1) has_fieldsD(2) [OF assms(2)]]
  show f: "field m' q i = field m q i" if "-2 \<le> i" "i < k" for i
  proof -
    have "\<not> (seg_of m q = seg_of m p \<and> loc_of m q + (i + 2) - loc_of m p - 2 \<in> I)"
      using assms(2-5) that by (auto simp: disjoint_objects_def has_fields_def)
    then show ?thesis using assms(1) t by (simp add: written_def field_def hw_def)
  qed
  then show "has_fields m' q k" using f [of "-2"] assms(4) t by (simp add: has_fields_def field_def)
qed

lemma put_written:
  assumes "has_fields m p n" "0 \<le> i" "i < n"
  shows "written m (put_hw p (i + 2) (uint v) m) p {i}" "word_at (put_hw p (i + 2) (uint v) m) p i = v"
    "storeWord_ofObject_withValue i p (uint v) m = Some (put_hw p (i + 2) (uint v) m)"
proof -
  note h = has_fieldsD [OF assms(1)]
  show "written m (put_hw p (i + 2) (uint v) m) p {i}" by (auto simp: written_def put_hw_def)
  show "word_at (put_hw p (i + 2) (uint v) m) p i = v"
    using h uint16 [of v] hw_put_hw [of m p "uint v" "i + 2" p "i + 2"] by (simp add: word_at_def field_def)
  show "storeWord_ofObject_withValue i p (uint v) m = Some (put_hw p (i + 2) (uint v) m)"
    using h(5) [of "i + 2"] assms field_reads(1) [OF assms(1)] uint16 [of v]
    by (simp add: storeWord_ofObject_withValue_def add.commute)
qed

lemma fetch_bits_view:
  "has_fields m p n \<Longrightarrow> 0 \<le> i \<Longrightarrow> i < n \<Longrightarrow> fetch_bits i p m = Some (word_at m p i)"
  using field_reads(3) [of m p n i] by (simp add: fetch_bits_def word_at_def)

end
