(* ===== verification/VmBlitLoop.thy ===== *)
theory VmBlitLoop
  imports VmBlit
begin

text \<open>
  The copy loop of a bit block transfer in reading order between different bitmaps: the words of a line, the lines, and
  the pixels.
\<close>

section \<open>The words of a line\<close>

text \<open>The loop runs to the right, and the source does not share words with the destination.\<close>

definition line_ready :: "'a bitblt_scheme \<Rightarrow> omem \<Rightarrow> bool" where
  "line_ready b m \<longleftrightarrow>
     bb_hDir b = 1 \<and> 0 \<le> bb_combinationRule b \<and> bb_combinationRule b \<le> 15 \<and>
     has_fields m (bb_destBits b) (bb_destBitsWordLength b) \<and>
     0 \<le> bb_skew b \<and> bb_skew b < 16 \<and> bb_skewMask b = skew_mask (bb_skew b) \<and>
     (bb_sourceForm b \<noteq> NilPointer \<longrightarrow>
        has_fields m (bb_sourceBits b) (bb_sourceBitsWordLength b) \<and> disjoint_objects m (bb_destBits b) (bb_sourceBits b))"

text \<open>The words of the source that the steps from now on read; where none is read, the one before is kept.\<close>

definition source_read :: "'a bitblt_scheme \<Rightarrow> omem \<Rightarrow> int \<Rightarrow> nat \<Rightarrow> 16 word option" where
  "source_read b m wd j =
     (if wd + int j \<le> bb_sourceRaster b \<and> 0 \<le> bb_sourceIndex b + int j \<and> bb_sourceIndex b + int j < bb_sourceBitsWordLength b
      then Some (word_at m (bb_sourceBits b) (bb_sourceIndex b + int j)) else None)"

fun kept :: "(nat \<Rightarrow> 16 word option) \<Rightarrow> 16 word \<Rightarrow> nat \<Rightarrow> 16 word" where
  "kept R t 0 = (case R 0 of Some x \<Rightarrow> x | None \<Rightarrow> t)" |
  "kept R t (Suc j) = (case R (Suc j) of Some x \<Rightarrow> x | None \<Rightarrow> kept R t j)"

lemma kept_shift: "kept (\<lambda>j. R (Suc j)) (kept R t 0) j = kept R t (Suc j)"
  by (induction j) (simp_all split: option.split)

lemma kept_read: "R j = Some x \<Longrightarrow> kept R t j = x"
  by (cases j) simp_all

text \<open>The word that step \<open>j\<close> brings to the destination, and its merge mask.\<close>

definition step_source :: "'a bitblt_scheme \<Rightarrow> omem \<Rightarrow> int \<Rightarrow> 16 word \<Rightarrow> 16 word \<Rightarrow> 16 word \<Rightarrow> nat \<Rightarrow> 16 word" where
  "step_source b m wd prevWord thisWord skewWord j =
     (if bb_sourceForm b = NilPointer then skewWord
      else skewed (bb_skew b) (bb_skewMask b)
             (case j of 0 \<Rightarrow> prevWord | Suc i \<Rightarrow> kept (source_read b m wd) thisWord i) (kept (source_read b m wd) thisWord j))"

definition step_mask :: "'a bitblt_scheme \<Rightarrow> int \<Rightarrow> 16 word \<Rightarrow> nat \<Rightarrow> 16 word" where
  "step_mask b wd mergeMask j =
     (if j = 0 then mergeMask else if wd + int j = bb_nWords b then bb_mask2 b else AllOnes)"

text \<open>A word after its merge.\<close>

definition merged :: "int \<Rightarrow> 16 word \<Rightarrow> 16 word \<Rightarrow> 16 word \<Rightarrow> 16 word \<Rightarrow> bool" where
  "merged rule msk s old new \<longleftrightarrow>
     (\<forall>n<16. bit new n = (if bit msk n then rule_bit rule (bit s n) (bit old n) else bit old n))"

lemma merge_step:
  assumes "0 \<le> rule" "rule \<le> 15"
  shows "\<exists>v. merge_with rule s old = Some v \<and> merged rule msk s old ((msk AND v) OR (NOT msk AND old))"
proof -
  obtain v where v: "merge_with rule s old = Some v" "\<forall>n<16. bit v n = rule_bit rule (bit s n) (bit old n)"
    using merge_with_bits [OF assms] by blast
  then show ?thesis by (intro exI [of _ v]) (auto simp: merged_def bit_simps)
qed

definition advance :: "int \<Rightarrow> 'a bitblt_scheme \<Rightarrow> 'a bitblt_scheme" where
  "advance k b = b\<lparr>bb_sourceIndex := bb_sourceIndex b + k, bb_destIndex := bb_destIndex b + k\<rparr>"

lemma advance_fields [simp]:
  "bb_hDir (advance k b) = bb_hDir b" "bb_combinationRule (advance k b) = bb_combinationRule b"
  "bb_destBits (advance k b) = bb_destBits b" "bb_destBitsWordLength (advance k b) = bb_destBitsWordLength b"
  "bb_skew (advance k b) = bb_skew b" "bb_skewMask (advance k b) = bb_skewMask b"
  "bb_sourceForm (advance k b) = bb_sourceForm b" "bb_sourceBits (advance k b) = bb_sourceBits b"
  "bb_sourceBitsWordLength (advance k b) = bb_sourceBitsWordLength b" "bb_nWords (advance k b) = bb_nWords b"
  "bb_mask2 (advance k b) = bb_mask2 b" "bb_sourceRaster (advance k b) = bb_sourceRaster b"
  "bb_sourceIndex (advance k b) = bb_sourceIndex b + k" "bb_destIndex (advance k b) = bb_destIndex b + k"
  "advance j (advance k b) = advance (k + j) b" "advance 0 b = b"
  by (simp_all add: advance_def algebra_simps)

lemma line_ready_written:
  assumes "line_ready b m" "written m m' (bb_destBits b) I" "I \<subseteq> {0..<bb_destBitsWordLength b}"
  shows "line_ready (advance k b) m'"
    "bb_sourceForm b \<noteq> NilPointer \<Longrightarrow> 0 \<le> i \<Longrightarrow> i < bb_sourceBitsWordLength b \<Longrightarrow>
      word_at m' (bb_sourceBits b) i = word_at m (bb_sourceBits b) i"
proof -
  have d: "has_fields m (bb_destBits b) (bb_destBitsWordLength b)" using assms(1) by (simp add: line_ready_def)
  note t = written_table(2,3) [OF assms(2) has_fieldsD(2) [OF d]]
  have d': "has_fields m' (bb_destBits b) (bb_destBitsWordLength b)" by (rule written_fields [OF assms(2) d assms(3)])
  show "line_ready (advance k b) m'"
  proof (cases "bb_sourceForm b = NilPointer")
    case True
    then show ?thesis using assms(1) d' by (simp add: line_ready_def)
  next
    case False
    then have s: "has_fields m (bb_sourceBits b) (bb_sourceBitsWordLength b)" "disjoint_objects m (bb_destBits b) (bb_sourceBits b)"
      using assms(1) by (simp_all add: line_ready_def)
    have s': "has_fields m' (bb_sourceBits b) (bb_sourceBitsWordLength b)" by (rule written_other(1) [OF assms(2) d assms(3) s])
    then have "disjoint_objects m' (bb_destBits b) (bb_sourceBits b)"
      using s t d d' by (simp add: disjoint_objects_def has_fields_def)
    then show ?thesis using assms(1) d' s' by (simp add: line_ready_def)
  qed
  show "word_at m' (bb_sourceBits b) i = word_at m (bb_sourceBits b) i"
    if "bb_sourceForm b \<noteq> NilPointer" "0 \<le> i" "i < bb_sourceBitsWordLength b"
  proof -
    have s: "has_fields m (bb_sourceBits b) (bb_sourceBitsWordLength b)" "disjoint_objects m (bb_destBits b) (bb_sourceBits b)"
      using assms(1) that(1) by (simp_all add: line_ready_def)
    have "field m' (bb_sourceBits b) i = field m (bb_sourceBits b) i"
      by (rule written_other(2) [OF assms(2) d assms(3) s]) (use that in simp_all)
    then show ?thesis by (simp add: word_at_def)
  qed
qed

text \<open>The loop over the words from \<open>wd\<close> on, when none of them lies past the bitmap: word \<open>j\<close> is merged with its source
under its mask.\<close>

lemma skew_word_view:
  assumes "line_ready b m" "bb_sourceForm b \<noteq> NilPointer"
  shows "skew_word wd prevWord thisWord b m = Some (kept (source_read b m wd) thisWord 0, kept (source_read b m wd) thisWord 0,
    skewed (bb_skew b) (bb_skewMask b) prevWord (kept (source_read b m wd) thisWord 0))"
  using assms fetch_bits_view [of m "bb_sourceBits b" "bb_sourceBitsWordLength b" "bb_sourceIndex b"]
  by (simp add: skew_word_def line_ready_def source_read_def skewed_def Let_def)

lemma source_read_advance:
  assumes "line_ready b m" "written m m' (bb_destBits b) I" "I \<subseteq> {0..<bb_destBitsWordLength b}" "bb_sourceForm b \<noteq> NilPointer"
  shows "source_read (advance 1 b) m' (wd + 1) j = source_read b m wd (Suc j)"
  using line_ready_written(2) [OF assms(1-4), of "bb_sourceIndex b + int (Suc j)"]
  by (simp add: source_read_def algebra_simps)

lemma step_source_advance:
  assumes "line_ready b m" "written m m' (bb_destBits b) I" "I \<subseteq> {0..<bb_destBitsWordLength b}"
    "bb_sourceForm b \<noteq> NilPointer \<Longrightarrow> t = kept (source_read b m wd) thisWord 0"
  shows "step_source (advance 1 b) m' (wd + 1) t t (step_source b m wd prevWord thisWord skewWord 0) j =
    step_source b m wd prevWord thisWord skewWord (Suc j)"
proof (cases "bb_sourceForm b = NilPointer")
  case True
  then show ?thesis by (simp add: step_source_def)
next
  case False
  have "source_read (advance 1 b) m' (wd + 1) = (\<lambda>j. source_read b m wd (Suc j))"
    using source_read_advance [OF assms(1-3) False] by blast
  then show ?thesis
    using False assms(4) kept_shift [of "source_read b m wd" thisWord] by (simp add: step_source_def split: nat.split)
qed

lemma step_mask_advance:
  "step_mask (advance 1 b) (wd + 1) (if wd = bb_nWords b - 1 then bb_mask2 b else AllOnes) j = step_mask b wd mergeMask (Suc j)"
  by (auto simp: step_mask_def)

text \<open>One word.\<close>

lemma copy_word_step:
  assumes "line_ready b m" "wd \<le> bb_nWords b" "0 \<le> bb_destIndex b" "bb_destIndex b < bb_destBitsWordLength b"
  shows "\<exists>p t m'. copy_words wd prevWord thisWord skewWord mergeMask halftoneWord b m =
      copy_words (wd + 1) p t (step_source b m wd prevWord thisWord skewWord 0)
        (if wd = bb_nWords b - 1 then bb_mask2 b else AllOnes) halftoneWord (advance 1 b) m' \<and>
    (bb_sourceForm b \<noteq> NilPointer \<longrightarrow> p = kept (source_read b m wd) thisWord 0 \<and> t = p) \<and>
    written m m' (bb_destBits b) {bb_destIndex b} \<and>
    merged (bb_combinationRule b) mergeMask (step_source b m wd prevWord thisWord skewWord 0 AND halftoneWord)
      (word_at m (bb_destBits b) (bb_destIndex b)) (word_at m' (bb_destBits b) (bb_destIndex b))"
proof -
  define s where "s = step_source b m wd prevWord thisWord skewWord 0"
  define old where "old = word_at m (bb_destBits b) (bb_destIndex b)"
  note r = assms(1) [unfolded line_ready_def]
  have d: "has_fields m (bb_destBits b) (bb_destBitsWordLength b)" using r by simp
  obtain p t where pt: "(if bb_sourceForm b \<noteq> NilPointer then skew_word wd prevWord thisWord b m
        else Some (prevWord, thisWord, skewWord)) = Some (p, t, s)"
      "bb_sourceForm b \<noteq> NilPointer \<longrightarrow> p = kept (source_read b m wd) thisWord 0 \<and> t = p"
    using skew_word_view [OF assms(1)] by (cases "bb_sourceForm b = NilPointer") (simp_all add: s_def step_source_def)
  obtain v where v: "merge_with (bb_combinationRule b) (s AND halftoneWord) old = Some v"
      "merged (bb_combinationRule b) mergeMask (s AND halftoneWord) old ((mergeMask AND v) OR (NOT mergeMask AND old))"
    using merge_step r by blast
  let ?new = "(mergeMask AND v) OR (NOT mergeMask AND old)"
  let ?m = "put_hw (bb_destBits b) (bb_destIndex b + 2) (uint ?new) m"
  note w = put_written [OF d assms(3,4)]
  have a: "b\<lparr>bb_sourceIndex := bb_sourceIndex b + bb_hDir b, bb_destIndex := bb_destIndex b + bb_hDir b\<rparr> = advance 1 b"
    using r by (simp add: advance_def)
  have "copy_words wd prevWord thisWord skewWord mergeMask halftoneWord b m =
      copy_words (wd + 1) p t s (if wd = bb_nWords b - 1 then bb_mask2 b else AllOnes) halftoneWord (advance 1 b) ?m"
    using assms(2,4) by (subst copy_words.simps)
      (simp only: if_True pt(1) bind.simps case_prod_conv if_False not_le fetch_bits_view [OF d assms(3,4)] old_def [symmetric] v(1)
        w(3) a Let_def linorder_not_less [symmetric] simp_thms advance_fields)
  then show ?thesis
    unfolding s_def [symmetric] old_def [symmetric]
    by (intro exI [of _ p] exI [of _ t] exI [of _ ?m] conjI)
      (use pt(2) w(1) [of ?new] v(2) in \<open>simp_all add: w(2)\<close>)
qed

lemma copy_words_view:
  assumes "line_ready b m" "1 \<le> wd" "bb_nWords b = wd + int r - 1" "0 \<le> bb_destIndex b"
    "bb_destIndex b + int r \<le> bb_destBitsWordLength b"
  shows "\<exists>t' m'. copy_words wd prevWord thisWord skewWord mergeMask halftoneWord b m = Some (False, t', advance (int r) b, m') \<and>
    written m m' (bb_destBits b) {bb_destIndex b..<bb_destIndex b + int r} \<and>
    (\<forall>j<r. merged (bb_combinationRule b) (step_mask b wd mergeMask j)
       (step_source b m wd prevWord thisWord skewWord j AND halftoneWord)
       (word_at m (bb_destBits b) (bb_destIndex b + int j)) (word_at m' (bb_destBits b) (bb_destIndex b + int j)))"
  using assms
proof (induction r arbitrary: wd prevWord thisWord skewWord mergeMask b m)
  case 0
  then show ?case by (subst copy_words.simps) (simp add: written_refl)
next
  case (Suc r)
  let ?s = "step_source b m wd prevWord thisWord skewWord" and ?D = "bb_destIndex b" and ?d = "bb_destBits b"
  obtain p t m1 where step: "copy_words wd prevWord thisWord skewWord mergeMask halftoneWord b m =
      copy_words (wd + 1) p t (?s 0) (if wd = bb_nWords b - 1 then bb_mask2 b else AllOnes) halftoneWord (advance 1 b) m1"
      "bb_sourceForm b \<noteq> NilPointer \<longrightarrow> p = kept (source_read b m wd) thisWord 0 \<and> t = p"
      "written m m1 ?d {?D}"
      "merged (bb_combinationRule b) mergeMask (?s 0 AND halftoneWord) (word_at m ?d ?D) (word_at m1 ?d ?D)"
  proof -
    have "wd \<le> bb_nWords b" "?D < bb_destBitsWordLength b" using Suc.prems by simp_all
    then show thesis
      using copy_word_step [OF Suc.prems(1) _ Suc.prems(4), of wd prevWord thisWord skewWord mergeMask halftoneWord] that by blast
  qed
  have I: "{?D} \<subseteq> {0..<bb_destBitsWordLength b}" using Suc.prems by simp
  have ready: "line_ready (advance 1 b) m1" by (rule line_ready_written(1) [OF Suc.prems(1) step(3) I])
  have d: "seg_of m ?d \<noteq> 15" "seg_of m1 ?d \<noteq> 15"
    using Suc.prems(1) ready has_fieldsD(2) by (auto simp: line_ready_def)
  let ?mm = "if wd = bb_nWords b - 1 then bb_mask2 b else AllOnes"
  have e: "?D + 1 + int r = ?D + int (Suc r)" "1 + int r = int (Suc r)" by simp_all
  note IH = Suc.IH [of "advance 1 b" m1 "wd + 1" p t "?s 0" ?mm, OF ready, unfolded advance_fields e]
  have "\<exists>t' m2. copy_words (wd + 1) p t (?s 0) ?mm halftoneWord (advance 1 b) m1 = Some (False, t', advance (int (Suc r)) b, m2) \<and>
      written m1 m2 ?d {?D + 1..<?D + int (Suc r)} \<and>
      (\<forall>j<r. merged (bb_combinationRule b) (step_mask (advance 1 b) (wd + 1) ?mm j)
         (step_source (advance 1 b) m1 (wd + 1) p t (?s 0) j AND halftoneWord)
         (word_at m1 ?d (?D + 1 + int j)) (word_at m2 ?d (?D + 1 + int j)))"
    by (rule IH) (use Suc.prems in simp_all)
  then obtain t' m2 where rest: "copy_words (wd + 1) p t (?s 0) ?mm halftoneWord (advance 1 b) m1 =
        Some (False, t', advance (int (Suc r)) b, m2)"
      "written m1 m2 ?d {?D + 1..<?D + int (Suc r)}"
      "\<And>j. j < r \<Longrightarrow> merged (bb_combinationRule b) (step_mask (advance 1 b) (wd + 1) ?mm j)
         (step_source (advance 1 b) m1 (wd + 1) p t (?s 0) j AND halftoneWord)
         (word_at m1 ?d (?D + 1 + int j)) (word_at m2 ?d (?D + 1 + int j))"
    by blast
  have w: "written m m2 ?d {?D..<?D + int (Suc r)}"
  proof -
    have "{?D} \<union> {?D + 1..<?D + int (Suc r)} = {?D..<?D + int (Suc r)}" by auto
    then show ?thesis using written_trans [OF step(3) rest(2) d(1)] by simp
  qed
  have m1: "word_at m1 ?d (?D + 1 + int j) = word_at m ?d (?D + int (Suc j))" for j
    using written_field [OF step(3) d(1), of "?D + 1 + int j"] by (simp add: word_at_def algebra_simps)
  have m2: "word_at m2 ?d ?D = word_at m1 ?d ?D"
    using written_field [OF rest(2) d(2), of ?D] by (simp add: word_at_def)
  have "merged (bb_combinationRule b) (step_mask b wd mergeMask j) (?s j AND halftoneWord) (word_at m ?d (?D + int j))
      (word_at m2 ?d (?D + int j))" if "j < Suc r" for j
  proof (cases j)
    case 0
    then show ?thesis using step(4) m2 by (simp add: step_mask_def)
  next
    case (Suc i)
    have "step_source (advance 1 b) m1 (wd + 1) p t (?s 0) i = ?s j"
    proof (cases "bb_sourceForm b = NilPointer")
      case True
      then show ?thesis by (simp add: step_source_def)
    next
      case False
      then show ?thesis using step(2) Suc step_source_advance [OF Suc.prems(1) step(3) I, of p wd thisWord prevWord skewWord i] by simp
    qed
    then show ?thesis
      using rest(3) [of i] that Suc step_mask_advance [of b wd i mergeMask] m1 [of i] by (simp add: algebra_simps)
  qed
  then show ?case using step(1) rest(1) w by fastforce
qed

end
