(* ===== verification/VmBlitPixel.thy ===== *)
theory VmBlitPixel
  imports VmBlitLoop
begin

text \<open>
  A transfer as a change of pixels: the words a line touches and the pixels their masks select, the source pixel that
  the rotation brings to each of them, the lines, and \<^verbatim>\<open>copyBits\<close> as a whole.
\<close>

section \<open>The words of a line and their masks\<close>

lemma and_15: "(x :: int) AND 15 = x mod 16"
proof -
  have "x AND 15 = take_bit 4 x" by (simp add: take_bit_eq_mask mask_eq_exp_minus_1)
  then show ?thesis by (simp add: take_bit_eq_mod)
qed

lemma sdiv_16: "0 \<le> (x :: int) \<Longrightarrow> x sdiv 16 = x div 16"
  by (cases "x = 0") (simp_all add: signed_divide_int_def)

lemma AllOnes_bit: "n < 16 \<Longrightarrow> bit AllOnes n"
proof -
  have a: "AllOnes = mask 16" by (simp add: AllOnes_def mask_eq_exp_minus_1)
  show "n < 16 \<Longrightarrow> bit AllOnes n" unfolding a by (simp add: bit_simps del: mask_numeral)
qed

lemma div_mod_16:
  fixes x c i :: int
  assumes "x = 16 * c + i" "0 \<le> i" "i < 16"
  shows "x div 16 = c" "x mod 16 = i"
  using assms by simp_all

text \<open>The words from the first pixel of a line to its last.\<close>

definition line_words :: "int \<Rightarrow> int \<Rightarrow> int" where
  "line_words x w = (x + w - 1) div 16 - x div 16 + 1"

lemma line_words_first:
  fixes x w a :: int
  assumes "0 < w" "a = x mod 16"
  shows "w < 16 - a \<Longrightarrow> line_words x w = 1"
    "\<not> w < 16 - a \<Longrightarrow> line_words x w = (w - (16 - a) + 15) sdiv 16 + 1"
    "w \<ge> 16 - a \<Longrightarrow> line_words x w = 1 \<Longrightarrow> w = 16 - a"
proof -
  define d where "d = x div 16"
  have x: "x = 16 * d + a" "0 \<le> a" "a < 16" using assms(2) by (simp_all add: d_def)
  have e: "line_words x w = (a + w - 1) div 16 + 1"
  proof -
    have "x + w - 1 = (a + w - 1) + 16 * d" using x(1) by simp
    then have "(x + w - 1) div 16 = (a + w - 1) div 16 + d" by simp
    then show ?thesis by (simp add: line_words_def d_def)
  qed
  show "w < 16 - a \<Longrightarrow> line_words x w = 1" using e x assms(1) by simp
  show "line_words x w = (w - (16 - a) + 15) sdiv 16 + 1" if "\<not> w < 16 - a"
    using e that by (simp add: sdiv_16 algebra_simps)
  show "w = 16 - a" if "w \<ge> 16 - a" "line_words x w = 1"
    using e that x by simp
qed

lemma edge_masks_eqs:
  fixes b :: "'a bitblt_scheme"
  defines "a \<equiv> bb_dx b AND 15" and "e \<equiv> (bb_dx b + bb_w b - 1) AND 15" and "c \<equiv> edge_masks b"
  shows "bb_skew c = (bb_sx b - bb_dx b) AND 15"
    "bb_skewMask c = (if bb_skew c = 0 then 0 else RightMasks ! nat (16 - bb_skew c))"
    "bb_w b < 16 - a \<Longrightarrow> bb_mask1 c = RightMasks ! nat (16 - a) AND NOT (RightMasks ! nat (15 - e))"
    "bb_w b < 16 - a \<Longrightarrow> bb_nWords c = 1"
    "\<not> bb_w b < 16 - a \<Longrightarrow> bb_mask1 c = RightMasks ! nat (16 - a)"
    "\<not> bb_w b < 16 - a \<Longrightarrow> bb_mask2 c = NOT (RightMasks ! nat (15 - e))"
    "\<not> bb_w b < 16 - a \<Longrightarrow> bb_nWords c = (bb_w b - (16 - a) + 15) sdiv 16 + 1"
  unfolding a_def e_def c_def by (simp_all add: edge_masks_def Let_def)

lemma edge_masks_fields:
  assumes "0 < bb_w b"
  shows "bb_skew (edge_masks b) = (bb_sx b - bb_dx b) mod 16"
    "bb_skewMask (edge_masks b) = skew_mask (bb_skew (edge_masks b))"
    "bb_nWords (edge_masks b) = line_words (bb_dx b) (bb_w b)"
proof -
  show s: "bb_skew (edge_masks b) = (bb_sx b - bb_dx b) mod 16" unfolding edge_masks_eqs(1) and_15 ..
  then have "0 \<le> bb_skew (edge_masks b)" "bb_skew (edge_masks b) < 16" by simp_all
  then show "bb_skewMask (edge_masks b) = skew_mask (bb_skew (edge_masks b))"
    unfolding edge_masks_eqs(2) skew_mask_def by (subst RightMasks_mask) simp_all
  show "bb_nWords (edge_masks b) = line_words (bb_dx b) (bb_w b)"
    using edge_masks_eqs(4,7) [of b] line_words_first(1,2) [OF assms and_15] by metis
qed

text \<open>The mask of word \<open>k\<close> selects the pixels of the line.\<close>

lemma line_pixels:
  fixes x w k j :: int
  assumes "0 < w" "0 \<le> k" "k < line_words x w" "0 \<le> j" "j < 16"
  shows "x \<le> 16 * (x div 16 + k) + j \<longleftrightarrow> (k = 0 \<longrightarrow> x mod 16 \<le> j)"
    "16 * (x div 16 + k) + j < x + w \<longleftrightarrow> (k + 1 = line_words x w \<longrightarrow> j \<le> (x + w - 1) mod 16)"
proof -
  define d a f e where "d = x div 16" "a = x mod 16" "f = (x + w - 1) div 16" "e = (x + w - 1) mod 16"
  have x: "x = 16 * d + a" "0 \<le> a" "a < 16" "x + w - 1 = 16 * f + e" "0 \<le> e" "e < 16" "line_words x w = f - d + 1"
    by (simp_all add: d_a_f_e_def line_words_def)
  show "x \<le> 16 * (x div 16 + k) + j \<longleftrightarrow> (k = 0 \<longrightarrow> x mod 16 \<le> j)"
    unfolding d_a_f_e_def(1,2) [symmetric] using x(1-3) assms(2,4) by (cases "k = 0") auto
  have "16 * (d + k) + j < x + w \<longleftrightarrow> 16 * (d + k) + j \<le> 16 * f + e" using x(4) by linarith
  also have "\<dots> \<longleftrightarrow> (k + 1 = f - d + 1 \<longrightarrow> j \<le> e)"
  proof (cases "k = f - d")
    case True
    then show ?thesis by simp
  next
    case False
    then have "d + k + 1 \<le> f" using assms(3) x(7) by simp
    then show ?thesis using False x(5) assms(5) by simp
  qed
  finally show "16 * (x div 16 + k) + j < x + w \<longleftrightarrow> (k + 1 = line_words x w \<longrightarrow> j \<le> (x + w - 1) mod 16)"
    using x(7) by (simp add: d_a_f_e_def)
qed

lemma edge_masks_pixels:
  assumes "0 < bb_w b" "int k < line_words (bb_dx b) (bb_w b)" "0 \<le> j" "j < 16"
  shows "bit (step_mask (edge_masks b) 1 (bb_mask1 (edge_masks b)) k) (nat (15 - j)) \<longleftrightarrow>
    bb_dx b \<le> 16 * (bb_dx b div 16 + int k) + j \<and> 16 * (bb_dx b div 16 + int k) + j < bb_dx b + bb_w b"
proof -
  define a e n where "a = bb_dx b AND 15" "e = (bb_dx b + bb_w b - 1) AND 15" "n = nat (15 - j)"
  let ?m1 = "mask (nat (16 - a)) :: 16 word" and ?m2 = "NOT (mask (nat (15 - e))) :: 16 word"
  have a: "0 \<le> a" "a < 16" "0 \<le> e" "e < 16" by (simp_all add: a_e_n_def and_15)
  have r: "RightMasks ! nat (16 - a) = ?m1" "RightMasks ! nat (15 - e) = mask (nat (15 - e))"
    using a by (intro RightMasks_mask; linarith)+
  have n: "n < 16" using assms(3,4) by (simp add: a_e_n_def)
  have m: "bit ?m1 n \<longleftrightarrow> a \<le> j" "bit ?m2 n \<longleftrightarrow> j \<le> e"
    using a assms(3,4) n by (simp_all add: bit_simps a_e_n_def(3) del: mask_numeral) linarith+
  note ones = AllOnes_bit [OF n]
  have f: "bb_nWords (edge_masks b) = line_words (bb_dx b) (bb_w b)" by (rule edge_masks_fields(3) [OF assms(1)])
  note p = line_pixels [OF assms(1) _ assms(2-4), simplified]
  note q = p [folded and_15, folded a_e_n_def(1,2)]
  note l = line_words_first [OF assms(1) and_15 [of "bb_dx b"], folded a_e_n_def(1)]
  note eqs = edge_masks_eqs(3,5,6) [of b, folded a_e_n_def(1,2), unfolded r]
  show ?thesis
  proof (cases "bb_w b < 16 - a")
    case True
    then have "k = 0" using l(1) assms(2) by simp
    then show ?thesis using True m eqs(1) l(1) q by (simp add: step_mask_def bit_and_iff a_e_n_def(3) [symmetric])
  next
    case False
    then have e15: "j \<le> e" if "line_words (bb_dx b) (bb_w b) = 1"
    proof -
      have "bb_w b = 16 - a" using False that by (intro l(3)) simp_all
      then have "bb_dx b + bb_w b - 1 = 16 * (bb_dx b div 16) + 15"
        using minus_mod_eq_mult_div [of "bb_dx b" 16] by (simp add: a_e_n_def(1) and_15)
      then show ?thesis using assms(4) by (simp add: a_e_n_def(2) and_15)
    qed
    show ?thesis
      using False m eqs(2,3) q ones f e15 by (cases k) (simp_all add: step_mask_def a_e_n_def(3) [symmetric] algebra_simps)
  qed
qed

section \<open>The source pixel of a step\<close>

lemma source_read_column:
  assumes "0 \<le> bb_sourceRaster b" "bb_sourceIndex b = Y * bb_sourceRaster b + c0" "0 \<le> c0" "0 \<le> Y"
    "(Y + 1) * bb_sourceRaster b \<le> bb_sourceBitsWordLength b" "c = c0 + int i" "c < bb_sourceRaster b"
  shows "source_read b m 1 i = Some (word_at m (bb_sourceBits b) (Y * bb_sourceRaster b + c))"
proof -
  have "0 \<le> Y * bb_sourceRaster b" using assms by simp
  then show ?thesis using assms by (simp add: source_read_def algebra_simps)
qed

lemma step_source_pixel:
  assumes "bb_sourceForm b \<noteq> NilPointer" "0 \<le> bb_sourceRaster b" "bb_sourceIndex b = Y * bb_sourceRaster b + c0"
    "0 \<le> c0" "0 \<le> Y" "(Y + 1) * bb_sourceRaster b \<le> bb_sourceBitsWordLength b"
    "bb_skew b = \<delta> mod 16" "bb_skewMask b = skew_mask (bb_skew b)"
    "c0 = D + \<delta> div 16 + (if bb_skew b = 0 then 0 else 1)" "X = 16 * (D + int k) + j + \<delta>" "0 \<le> j" "j < 16"
    "0 \<le> X" "X < 16 * bb_sourceRaster b"
    "k = 0 \<Longrightarrow> bb_skew b \<noteq> 0 \<Longrightarrow> j + bb_skew b < 16 \<Longrightarrow>
      prevWord = word_at m (bb_sourceBits b) (Y * bb_sourceRaster b + (c0 - 1))"
  shows "bit (step_source b m 1 prevWord thisWord skewWord k) (nat (15 - j)) = pixel m (bb_sourceBits b) (bb_sourceRaster b) X Y"
proof -
  define s q n where "s = bb_skew b" "q = \<delta> div 16" "n = nat (15 - j)"
  have s: "0 \<le> s" "s < 16" "\<delta> = 16 * q + s" using assms(7) by (simp_all add: s_q_n_def)
  have c0: "c0 = D + q + (if s = 0 then 0 else 1)" using assms(9) by (simp only: s_q_n_def)
  define p t where "p = (case k of 0 \<Rightarrow> prevWord | Suc i \<Rightarrow> kept (source_read b m 1) thisWord i)"
    "t = kept (source_read b m 1) thisWord k"
  have n: "n < 16" "int n = 15 - j" using assms(11,12) by (simp_all add: s_q_n_def)
  have step: "bit (step_source b m 1 prevWord thisWord skewWord k) n =
      (if s = 0 then bit t n else if nat s \<le> n then bit p (n - nat s) else bit t (16 + n - nat s))"
    using assms(1,8) skewed_bits [OF s(1,2) n(1), of p t] by (simp add: step_source_def s_q_n_def(1) p_t_def)
  note rd = source_read_column [OF assms(2-6)]
  let ?w = "\<lambda>c. word_at m (bb_sourceBits b) (Y * bb_sourceRaster b + c)"
  have t: "t = ?w (c0 + int k)" if "c0 + int k < bb_sourceRaster b"
    unfolding p_t_def by (rule kept_read) (rule rd [OF refl that])
  have p: "p = ?w (c0 + int k - 1)" if "c0 + int k - 1 < bb_sourceRaster b" "s \<noteq> 0" "j + s < 16"
  proof (cases k)
    case 0
    then show ?thesis using assms(15) that by (simp add: p_t_def s_q_n_def)
  next
    case (Suc i)
    then have "p = kept (source_read b m 1) thisWord i" by (simp add: p_t_def)
    also have "\<dots> = ?w (c0 + int k - 1)" using Suc that by (intro kept_read rd) simp_all
    finally show ?thesis .
  qed
  have pix: "pixel m (bb_sourceBits b) (bb_sourceRaster b) X Y = bit (?w c) (nat (15 - i))"
    if "X = 16 * c + i" "0 \<le> i" "i < 16" for c i
    using that by (simp add: pixel_def)
  consider "s = 0" | "s \<noteq> 0" "j + s < 16" | "s \<noteq> 0" "16 \<le> j + s" by linarith
  then show ?thesis
  proof cases
    case 1
    then have X: "X = 16 * (c0 + int k) + j" using c0 assms(10) s(3) by simp
    then have "t = ?w (c0 + int k)" using assms(11,14) by (intro t) simp
    then show ?thesis using step 1 pix [OF X assms(11,12)] by (simp add: s_q_n_def(3))
  next
    case 2
    then have X: "X = 16 * (c0 + int k - 1) + (j + s)" using c0 assms(10) s(3) by simp
    then have "p = ?w (c0 + int k - 1)" using assms(11,14) s 2 by (intro p) simp_all
    moreover have "nat s \<le> n" "n - nat s = nat (15 - (j + s))" using n s 2 by linarith+
    ultimately show ?thesis using step 2 pix [OF X _ 2(2)] assms(11) s by (simp add: s_q_n_def(3))
  next
    case 3
    then have X: "X = 16 * (c0 + int k) + (j + s - 16)" using c0 assms(10) s(3) by simp
    then have "t = ?w (c0 + int k)" using assms(11,14) 3 by (intro t) simp
    moreover have "\<not> nat s \<le> n" "16 + n - nat s = nat (15 - (j + s - 16))" using n s 3 by linarith+
    ultimately show ?thesis using step 3 pix [OF X] assms(12) s by (simp add: s_q_n_def(3))
  qed
qed

section \<open>A line\<close>

text \<open>The transfer at the start of line \<open>r\<close>; only positions change on the way.\<close>

definition moved :: "int \<Rightarrow> int \<Rightarrow> int \<Rightarrow> 'a bitblt_scheme \<Rightarrow> 'a bitblt_scheme" where
  "moved si di y b = b\<lparr>bb_dy := y, bb_sourceIndex := si, bb_destIndex := di\<rparr>"

lemma moved_fields [simp]:
  "bb_sourceIndex (moved si di y b) = si" "bb_destIndex (moved si di y b) = di" "bb_dy (moved si di y b) = y"
  "bb_hDir (moved si di y b) = bb_hDir b" "bb_vDir (moved si di y b) = bb_vDir b"
  "bb_combinationRule (moved si di y b) = bb_combinationRule b" "bb_destBits (moved si di y b) = bb_destBits b"
  "bb_destBitsWordLength (moved si di y b) = bb_destBitsWordLength b" "bb_skew (moved si di y b) = bb_skew b"
  "bb_skewMask (moved si di y b) = bb_skewMask b" "bb_sourceForm (moved si di y b) = bb_sourceForm b"
  "bb_sourceBits (moved si di y b) = bb_sourceBits b" "bb_sourceBitsWordLength (moved si di y b) = bb_sourceBitsWordLength b"
  "bb_nWords (moved si di y b) = bb_nWords b" "bb_mask1 (moved si di y b) = bb_mask1 b" "bb_mask2 (moved si di y b) = bb_mask2 b"
  "bb_sourceRaster (moved si di y b) = bb_sourceRaster b" "bb_halftoneForm (moved si di y b) = bb_halftoneForm b"
  "bb_halftoneBits (moved si di y b) = bb_halftoneBits b" "bb_preload (moved si di y b) = bb_preload b" "bb_h (moved si di y b) = bb_h b"
  "bb_sourceDelta (moved si di y b) = bb_sourceDelta b" "bb_destDelta (moved si di y b) = bb_destDelta b"
  "advance k (moved si di y b) = moved (si + k) (di + k) y b"
  "moved si di y b\<lparr>bb_dy := y'\<rparr> = moved si di y' b" "moved si di y b\<lparr>bb_sourceIndex := si'\<rparr> = moved si' di y b"
  "moved si di y b\<lparr>bb_destIndex := di'\<rparr> = moved si di' y b"
  by (simp_all add: moved_def advance_def)

lemma moved_views [simp]:
  "line_ready (moved si di y b) m = line_ready b m" "step_mask (moved si di y b) = step_mask b"
  by (simp_all add: line_ready_def step_mask_def fun_eq_iff)

definition line_start :: "'a bitblt_scheme \<Rightarrow> int \<Rightarrow> 'a bitblt_scheme" where
  "line_start b r = moved (bb_sourceIndex b + r * bb_sourceRaster b) (bb_destIndex b + r * bb_destRaster b)
     (if bb_halftoneForm b = NilPointer then bb_dy b else bb_dy b + r) b"

text \<open>What the masks and offsets are when the loop begins.\<close>

definition lines_ready :: "'a bitblt_scheme \<Rightarrow> omem \<Rightarrow> bool" where
  "lines_ready b m \<longleftrightarrow> line_ready b m \<and> bb_vDir b = 1 \<and> 0 < bb_w b \<and> 0 \<le> bb_dx b \<and> bb_dx b + bb_w b \<le> 16 * bb_destRaster b \<and>
     0 \<le> bb_dy b \<and> 0 \<le> bb_h b \<and> (bb_dy b + bb_h b) * bb_destRaster b \<le> bb_destBitsWordLength b \<and>
     bb_nWords b = line_words (bb_dx b) (bb_w b) \<and>
     (\<forall>k j. int k < bb_nWords b \<longrightarrow> 0 \<le> j \<longrightarrow> j < 16 \<longrightarrow>
        bit (step_mask b 1 (bb_mask1 b) k) (nat (15 - j)) =
        (bb_dx b \<le> 16 * (bb_dx b div 16 + int k) + j \<and> 16 * (bb_dx b div 16 + int k) + j < bb_dx b + bb_w b)) \<and>
     bb_destIndex b = bb_dy b * bb_destRaster b + bb_dx b div 16 \<and> bb_destDelta b = bb_destRaster b - bb_nWords b \<and>
     bb_sourceDelta b = bb_sourceRaster b - (bb_nWords b + (if bb_preload b then 1 else 0)) \<and>
     (bb_preload b \<longleftrightarrow> bb_sourceForm b \<noteq> NilPointer \<and> bb_skew b \<noteq> 0 \<and> bb_skew b \<le> bb_sx b mod 16) \<and>
     (bb_sourceForm b \<noteq> NilPointer \<longrightarrow>
        bb_sourceIndex b = bb_sy b * bb_sourceRaster b + bb_sx b div 16 \<and>
        bb_skew b = (bb_sx b - bb_dx b) mod 16 \<and> 0 \<le> bb_sx b \<and> bb_sx b + bb_w b \<le> 16 * bb_sourceRaster b \<and>
        0 \<le> bb_sy b \<and> (bb_sy b + bb_h b) * bb_sourceRaster b \<le> bb_sourceBitsWordLength b) \<and>
     (bb_halftoneForm b \<noteq> NilPointer \<longrightarrow>
        (\<exists>n\<ge>16. has_fields m (bb_halftoneBits b) n) \<and> disjoint_objects m (bb_destBits b) (bb_halftoneBits b))"

text \<open>The pixel of the source and the halftone for a pixel of the destination in line \<open>r\<close>.\<close>

definition source_bit :: "'a bitblt_scheme \<Rightarrow> omem \<Rightarrow> int \<Rightarrow> int \<Rightarrow> bool" where
  "source_bit b m x r \<longleftrightarrow>
     (bb_sourceForm b \<noteq> NilPointer \<longrightarrow> pixel m (bb_sourceBits b) (bb_sourceRaster b) (x + (bb_sx b - bb_dx b)) (bb_sy b + r)) \<and>
     (bb_halftoneForm b \<noteq> NilPointer \<longrightarrow> bit (word_at m (bb_halftoneBits b) ((bb_dy b + r) mod 16)) (nat (15 - x mod 16)))"

definition halftone_at :: "'a bitblt_scheme \<Rightarrow> omem \<Rightarrow> int \<Rightarrow> 16 word" where
  "halftone_at b m y = (if bb_halftoneForm b = NilPointer then AllOnes else word_at m (bb_halftoneBits b) (y mod 16))"

lemma line_halftone_view:
  assumes "lines_ready b m"
  shows "line_halftone (line_start b r) m = Some (halftone_at b m (bb_dy b + r),
    moved (bb_sourceIndex b + r * bb_sourceRaster b) (bb_destIndex b + r * bb_destRaster b) (bb_dy (line_start b (r + 1))) b)"
proof (cases "bb_halftoneForm b = NilPointer")
  case True
  then show ?thesis by (simp add: line_halftone_def line_start_def halftone_at_def)
next
  case False
  then obtain n where n: "16 \<le> n" "has_fields m (bb_halftoneBits b) n" "bb_vDir b = 1"
    using assms by (auto simp: lines_ready_def)
  have "fetch_bits ((bb_dy b + r) AND 15) (bb_halftoneBits b) m = Some (word_at m (bb_halftoneBits b) ((bb_dy b + r) mod 16))"
    unfolding and_15 by (rule fetch_bits_view [OF n(2)]) (use n(1) pos_mod_bound [of 16 "bb_dy b + r"] in simp_all)
  then show ?thesis using False n(3) by (simp add: line_halftone_def line_start_def halftone_at_def algebra_simps)
qed

text \<open>Rows of the source.\<close>

lemma source_row:
  assumes "lines_ready b m" "bb_sourceForm b \<noteq> NilPointer" "0 \<le> r" "r < bb_h b"
  shows "0 \<le> bb_sourceRaster b" "0 \<le> bb_sy b + r" "(bb_sy b + r + 1) * bb_sourceRaster b \<le> bb_sourceBitsWordLength b"
    "0 \<le> bb_sx b div 16" "bb_sx b div 16 < bb_sourceRaster b"
    "bb_sourceIndex b + r * bb_sourceRaster b = (bb_sy b + r) * bb_sourceRaster b + bb_sx b div 16"
proof -
  note a = assms(1,2) [unfolded lines_ready_def]
  have c: "0 \<le> bb_sx b" "bb_sx b < 16 * bb_sourceRaster b" "0 \<le> bb_sy b"
      "(bb_sy b + bb_h b) * bb_sourceRaster b \<le> bb_sourceBitsWordLength b"
    using a by simp_all
  show r: "0 \<le> bb_sourceRaster b" using c(1,2) by linarith
  show "0 \<le> bb_sy b + r" using c(3) assms(3) by simp
  have "(bb_sy b + r + 1) * bb_sourceRaster b \<le> (bb_sy b + bb_h b) * bb_sourceRaster b"
    using assms(4) r by (intro mult_right_mono) simp_all
  then show "(bb_sy b + r + 1) * bb_sourceRaster b \<le> bb_sourceBitsWordLength b" using c(4) by linarith
  show "0 \<le> bb_sx b div 16" "bb_sx b div 16 < bb_sourceRaster b" using c(1,2) by simp_all
  show "bb_sourceIndex b + r * bb_sourceRaster b = (bb_sy b + r) * bb_sourceRaster b + bb_sx b div 16"
    using a by (simp add: algebra_simps)
qed

lemma line_preload_view:
  assumes "lines_ready b m" "0 \<le> r" "r < bb_h b"
  shows "line_preload (moved (bb_sourceIndex b + r * bb_sourceRaster b) di y b) m =
    Some (if bb_preload b then word_at m (bb_sourceBits b) ((bb_sy b + r) * bb_sourceRaster b + bb_sx b div 16) else 0,
      moved (bb_sourceIndex b + r * bb_sourceRaster b + (if bb_preload b then 1 else 0)) di y b)"
proof (cases "bb_preload b")
  case False
  then show ?thesis by (simp add: line_preload_def)
next
  case True
  then have f: "bb_sourceForm b \<noteq> NilPointer" "bb_hDir b = 1"
      "has_fields m (bb_sourceBits b) (bb_sourceBitsWordLength b)"
    using assms(1) by (simp_all add: lines_ready_def line_ready_def)
  note row = source_row [OF assms(1) f(1) assms(2,3)]
  have "0 \<le> (bb_sy b + r) * bb_sourceRaster b" using row(1,2) by simp
  then have "fetch_bits (bb_sourceIndex b + r * bb_sourceRaster b) (bb_sourceBits b) m =
      Some (word_at m (bb_sourceBits b) ((bb_sy b + r) * bb_sourceRaster b + bb_sx b div 16))"
    unfolding row(6) using row(3-5) by (intro fetch_bits_view [OF f(3)]) (simp_all add: algebra_simps)
  then show ?thesis using True f(2) by (simp add: line_preload_def)
qed

text \<open>The word merged in step \<open>k\<close> holds the pixels of the source and the halftone.\<close>

lemma preload_column:
  fixes x s :: int
  assumes "sk = (s - x) mod 16"
  shows "s div 16 + (if sk \<noteq> 0 \<and> sk \<le> s mod 16 then 1 else 0) = x div 16 + (s - x) div 16 + (if sk = 0 then 0 else 1)"
    "sk \<le> s mod 16 \<longleftrightarrow> x mod 16 + sk < 16"
proof -
  define d a q where "d = x div 16" "a = x mod 16" "q = (s - x) div 16"
  have x: "x = 16 * d + a" "0 \<le> a" "a < 16" "s - x = 16 * q + sk" "0 \<le> sk" "sk < 16"
    using assms by (simp_all add: d_a_q_def)
  then have s: "s = 16 * (d + q) + (a + sk)" by simp
  show "s div 16 + (if sk \<noteq> 0 \<and> sk \<le> s mod 16 then 1 else 0) = x div 16 + (s - x) div 16 + (if sk = 0 then 0 else 1)"
    "sk \<le> s mod 16 \<longleftrightarrow> x mod 16 + sk < 16"
  proof -
    consider "a + sk < 16" | "16 \<le> a + sk" by linarith
    then have "s div 16 + (if sk \<noteq> 0 \<and> sk \<le> s mod 16 then 1 else 0) = d + q + (if sk = 0 then 0 else 1) \<and>
        (sk \<le> s mod 16 \<longleftrightarrow> a + sk < 16)"
    proof cases
      case 1
      then have "s div 16 = d + q" "s mod 16 = a + sk" using div_mod_16 [OF s] 1 x(2,5) by simp_all
      then show ?thesis using 1 x by auto
    next
      case 2
      have s': "s = 16 * (d + q + 1) + (a + sk - 16)" using s by simp
      then have "s div 16 = d + q + 1" "s mod 16 = a + sk - 16" using div_mod_16 [OF s'] 2 x(3,6) by simp_all
      then show ?thesis using 2 x by auto
    qed
    then show "s div 16 + (if sk \<noteq> 0 \<and> sk \<le> s mod 16 then 1 else 0) = x div 16 + (s - x) div 16 + (if sk = 0 then 0 else 1)"
      "sk \<le> s mod 16 \<longleftrightarrow> x mod 16 + sk < 16"
      unfolding d_a_q_def by blast+
  qed
qed

lemma line_source_bit:
  assumes "lines_ready b m" "0 \<le> r" "r < bb_h b" "x = 16 * (bb_dx b div 16 + int k) + j" "0 \<le> j" "j < 16"
    "bb_dx b \<le> x" "x < bb_dx b + bb_w b"
    "b' = moved (bb_sourceIndex b + r * bb_sourceRaster b + (if bb_preload b then 1 else 0)) di y b"
    "prevWord = (if bb_preload b then word_at m (bb_sourceBits b) ((bb_sy b + r) * bb_sourceRaster b + bb_sx b div 16) else 0)"
  shows "bit (step_source b' m 1 prevWord thisWord (halftone_at b m (bb_dy b + r)) k AND halftone_at b m (bb_dy b + r)) (nat (15 - j))
    = source_bit b m x r"
proof -
  let ?hw = "halftone_at b m (bb_dy b + r)"
  have n: "nat (15 - j) < 16" "x mod 16 = j" using assms(5,6) div_mod_16(2) [OF assms(4-6)] by simp_all
  have h: "bit ?hw (nat (15 - j)) \<longleftrightarrow>
      (bb_halftoneForm b \<noteq> NilPointer \<longrightarrow> bit (word_at m (bb_halftoneBits b) ((bb_dy b + r) mod 16)) (nat (15 - x mod 16)))"
    using n AllOnes_bit by (simp add: halftone_at_def)
  show ?thesis
  proof (cases "bb_sourceForm b = NilPointer")
    case True
    then show ?thesis using h by (simp add: step_source_def assms(9) source_bit_def)
  next
    case False
    note row = source_row [OF assms(1) False assms(2,3)]
    let ?sk = "bb_skew b" and ?\<delta> = "bb_sx b - bb_dx b" and ?c0 = "bb_sx b div 16 + (if bb_preload b then 1 else 0)"
    have f: "?sk = ?\<delta> mod 16" "bb_preload b \<longleftrightarrow> ?sk \<noteq> 0 \<and> ?sk \<le> bb_sx b mod 16" "bb_skewMask b = skew_mask ?sk"
        "0 \<le> bb_sx b" "bb_sx b + bb_w b \<le> 16 * bb_sourceRaster b"
      using assms(1) False by (simp_all add: lines_ready_def line_ready_def)
    note col = preload_column [OF f(1), folded f(2)]
    have p: "prevWord = word_at m (bb_sourceBits b') ((bb_sy b + r) * bb_sourceRaster b' + (?c0 - 1))"
      if "k = 0" "bb_skew b' \<noteq> 0" "j + bb_skew b' < 16"
    proof -
      have "bb_dx b mod 16 \<le> j" using that(1) assms(4,7) minus_mod_eq_mult_div [of "bb_dx b" 16] by simp
      then have "bb_preload b" using that col(2) f(2) by (simp add: assms(9))
      then show ?thesis by (simp add: assms(9,10))
    qed
    have X: "x + ?\<delta> = 16 * (bb_dx b div 16 + int k) + j + ?\<delta>" "0 \<le> x + ?\<delta>" "x + ?\<delta> < 16 * bb_sourceRaster b"
      using assms(4,7,8) f(4,5) by linarith+
    have i: "bb_sourceIndex b' = (bb_sy b + r) * bb_sourceRaster b' + ?c0" "0 \<le> ?c0"
      using row(4,6) by (simp_all add: assms(9))
    note b' = assms(9) [THEN arg_cong [where f = bb_sourceForm], unfolded moved_fields]
      assms(9) [THEN arg_cong [where f = bb_sourceRaster], unfolded moved_fields]
      assms(9) [THEN arg_cong [where f = bb_sourceBitsWordLength], unfolded moved_fields]
      assms(9) [THEN arg_cong [where f = bb_skew], unfolded moved_fields]
      assms(9) [THEN arg_cong [where f = bb_skewMask], unfolded moved_fields]
      assms(9) [THEN arg_cong [where f = bb_sourceBits], unfolded moved_fields]
    have "bit (step_source b' m 1 prevWord thisWord ?hw k) (nat (15 - j)) =
        pixel m (bb_sourceBits b') (bb_sourceRaster b') (x + ?\<delta>) (bb_sy b + r)"
      by (rule step_source_pixel [OF _ _ i row(2) _ _ _ _ X(1) assms(5,6) X(2) _ p])
        (simp_all only: b' False not_False_eq_True row(1,3) f(1) f(3) [unfolded f(1)] col(1) [unfolded f(1)] X(3))
    then show ?thesis using False h by (simp add: source_bit_def bit_and_iff b')
  qed
qed

text \<open>The words of line \<open>r\<close> of the destination.\<close>

lemma dest_row:
  assumes "lines_ready b m" "0 \<le> r" "r < bb_h b"
  shows "0 \<le> (bb_dy b + r) * bb_destRaster b" "0 \<le> bb_dx b div 16"
    "bb_dx b div 16 + bb_nWords b \<le> bb_destRaster b" "0 < bb_nWords b"
    "(bb_dy b + r + 1) * bb_destRaster b \<le> bb_destBitsWordLength b"
    "bb_destIndex b + r * bb_destRaster b = (bb_dy b + r) * bb_destRaster b + bb_dx b div 16"
proof -
  note a = assms(1) [unfolded lines_ready_def]
  have c: "0 \<le> bb_dx b" "0 < bb_w b" "bb_dx b + bb_w b \<le> 16 * bb_destRaster b" "0 \<le> bb_dy b"
      "(bb_dy b + bb_h b) * bb_destRaster b \<le> bb_destBitsWordLength b" "bb_nWords b = line_words (bb_dx b) (bb_w b)"
    using a by simp_all
  have R: "0 \<le> bb_destRaster b" using c(1-3) by linarith
  then show "0 \<le> (bb_dy b + r) * bb_destRaster b" using c(4) assms(2) by simp
  show "0 \<le> bb_dx b div 16" using c(1) by simp
  have "(bb_dx b + bb_w b - 1) div 16 \<le> (16 * bb_destRaster b - 1) div 16" using c(3) by (intro zdiv_mono1) simp_all
  also have "\<dots> = bb_destRaster b - 1" by simp
  finally show "bb_dx b div 16 + bb_nWords b \<le> bb_destRaster b" by (simp add: c(6) line_words_def)
  have "bb_dx b div 16 \<le> (bb_dx b + bb_w b - 1) div 16" using c(2) by (intro zdiv_mono1) simp_all
  then show "0 < bb_nWords b" by (simp add: c(6) line_words_def)
  have "(bb_dy b + r + 1) * bb_destRaster b \<le> (bb_dy b + bb_h b) * bb_destRaster b"
    using assms(3) R by (intro mult_right_mono) simp_all
  then show "(bb_dy b + r + 1) * bb_destRaster b \<le> bb_destBitsWordLength b" using c(5) by linarith
  show "bb_destIndex b + r * bb_destRaster b = (bb_dy b + r) * bb_destRaster b + bb_dx b div 16"
    using a by (simp add: algebra_simps)
qed

lemma copy_line:
  assumes "lines_ready b m" "0 \<le> r" "r < bb_h b" "i \<le> bb_h b"
  shows "\<exists>t' m'. copy_lines i t (line_start b r) m = copy_lines (i + 1) t' (line_start b (r + 1)) m' \<and>
    written m m' (bb_destBits b) {(bb_dy b + r) * bb_destRaster b..<(bb_dy b + r + 1) * bb_destRaster b} \<and>
    (\<forall>x. 0 \<le> x \<longrightarrow> x < 16 * bb_destRaster b \<longrightarrow>
      pixel m' (bb_destBits b) (bb_destRaster b) x (bb_dy b + r) =
      (if bb_dx b \<le> x \<and> x < bb_dx b + bb_w b
       then rule_bit (bb_combinationRule b) (source_bit b m x r) (pixel m (bb_destBits b) (bb_destRaster b) x (bb_dy b + r))
       else pixel m (bb_destBits b) (bb_destRaster b) x (bb_dy b + r)))"
proof -
  let ?hw = "halftone_at b m (bb_dy b + r)" and ?pre = "if bb_preload b then 1 else 0" and ?d = "bb_destBits b"
  let ?R = "bb_destRaster b" and ?Y = "(bb_dy b + r) * bb_destRaster b" and ?n = "nat (bb_nWords b)"
  let ?pw = "if bb_preload b then word_at m (bb_sourceBits b) ((bb_sy b + r) * bb_sourceRaster b + bb_sx b div 16) else 0"
  note row = dest_row [OF assms(1-3)]
  define di where "di = ?Y + bb_dx b div 16"
  define c where "c = moved (bb_sourceIndex b + r * bb_sourceRaster b + ?pre) di (bb_dy (line_start b (r + 1))) b"
  have ready: "line_ready b m" using assms(1) by (simp add: lines_ready_def)
  have "line_ready c m" "(1 :: int) \<le> 1" "bb_nWords c = 1 + int ?n - 1" "0 \<le> bb_destIndex c"
      "bb_destIndex c + int ?n \<le> bb_destBitsWordLength c"
    using ready row by (simp_all add: c_def di_def algebra_simps)
  then obtain t' m' where words: "copy_words 1 ?pw t ?hw (bb_mask1 b) ?hw c m = Some (False, t', advance (int ?n) c, m')"
      "written m m' (bb_destBits c) {di..<di + int ?n}"
      "\<And>j. j < ?n \<Longrightarrow> merged (bb_combinationRule c) (step_mask c 1 (bb_mask1 b) j) (step_source c m 1 ?pw t ?hw j AND ?hw)
         (word_at m (bb_destBits c) (di + int j)) (word_at m' (bb_destBits c) (di + int j))"
    using copy_words_view [of c m 1 ?n ?pw t ?hw "bb_mask1 b" ?hw] by (auto simp: c_def)
  have d: "bb_sourceDelta b = bb_sourceRaster b - (bb_nWords b + ?pre)" "bb_destDelta b = ?R - bb_nWords b"
    using assms(1) by (simp_all add: lines_ready_def)
  have next_line: "(advance (int ?n) c)\<lparr>bb_sourceIndex := bb_sourceIndex (advance (int ?n) c) + bb_sourceDelta b,
      bb_destIndex := bb_destIndex (advance (int ?n) c) + bb_destDelta b\<rparr> = line_start b (r + 1)"
  proof -
    have n: "int ?n = bb_nWords b" using row(4) by simp
    have "bb_sourceIndex b + r * bb_sourceRaster b + ?pre + int ?n + bb_sourceDelta b = bb_sourceIndex b + (r + 1) * bb_sourceRaster b"
      "di + int ?n + bb_destDelta b = bb_destIndex b + (r + 1) * ?R"
      unfolding d n di_def row(6) [symmetric] by (simp_all add: algebra_simps)
    then show ?thesis unfolding c_def line_start_def by (simp only: moved_fields)
  qed
  have lp: "line_preload (moved (bb_sourceIndex b + r * bb_sourceRaster b) (bb_destIndex b + r * ?R)
      (bb_dy (line_start b (r + 1))) b) m = Some (?pw, c)"
    unfolding row(6) di_def [symmetric] c_def by (rule line_preload_view [OF assms(1-3)])
  have cf: "bb_sourceDelta (advance (int ?n) c) = bb_sourceDelta b" "bb_destDelta (advance (int ?n) c) = bb_destDelta b"
      "bb_mask1 c = bb_mask1 b" "bb_h (line_start b r) = bb_h b" "bb_destBits c = ?d" "bb_combinationRule c = bb_combinationRule b"
      "step_mask c = step_mask b"
    by (simp_all add: c_def line_start_def)
  have step: "copy_lines i t (line_start b r) m = copy_lines (i + 1) t' (line_start b (r + 1)) m'"
    using assms(4)
    by (subst copy_lines.simps)
      (simp only: cf if_True line_halftone_view [OF assms(1)] bind.simps case_prod_conv lp words(1) if_False next_line)
  have w: "written m m' ?d {?Y..<(bb_dy b + r + 1) * ?R}"
    using words(2) row by (auto simp: written_def cf di_def algebra_simps)
  have pix: "pixel m' ?d ?R x (bb_dy b + r) =
      (if bb_dx b \<le> x \<and> x < bb_dx b + bb_w b
       then rule_bit (bb_combinationRule b) (source_bit b m x r) (pixel m ?d ?R x (bb_dy b + r))
       else pixel m ?d ?R x (bb_dy b + r))" if "0 \<le> x" "x < 16 * ?R" for x
  proof -
    define col j where "col = x div 16" "j = x mod 16"
    have x: "x = 16 * col + j" "0 \<le> j" "j < 16" "nat (15 - j) < 16" by (simp_all add: col_j_def)
    have p: "pixel u ?d ?R x (bb_dy b + r) = bit (word_at u ?d (?Y + col)) (nat (15 - j))" for u
      by (simp add: pixel_def col_j_def)
    have nw: "bb_nWords b = line_words (bb_dx b) (bb_w b)" using assms(1) by (simp add: lines_ready_def)
    show ?thesis
    proof (cases "bb_dx b div 16 \<le> col \<and> col < bb_dx b div 16 + bb_nWords b")
      case True
      define k where "k = nat (col - bb_dx b div 16)"
      have k: "k < ?n" "int k < bb_nWords b" "di + int k = ?Y + col" "x = 16 * (bb_dx b div 16 + int k) + j"
        using True x(1) by (simp_all add: k_def di_def)
      have "bit (step_mask b 1 (bb_mask1 b) k) (nat (15 - j)) \<longleftrightarrow> bb_dx b \<le> x \<and> x < bb_dx b + bb_w b"
        using assms(1) k(2) x(2,3) unfolding lines_ready_def k(4) by blast
      moreover note words(3) [OF k(1), unfolded merged_def k(3) cf, rule_format, OF x(4)]
      moreover have "bit (step_source c m 1 ?pw t ?hw k AND ?hw) (nat (15 - j)) = source_bit b m x r"
        if "bb_dx b \<le> x" "x < bb_dx b + bb_w b"
        by (rule line_source_bit [OF assms(1-3) k(4) x(2,3) that c_def refl])
      ultimately show ?thesis unfolding p by auto
    next
      case False
      have "word_at m' ?d (?Y + col) = word_at m ?d (?Y + col)"
        using written_field [OF words(2) [unfolded cf] has_fieldsD(2), of "bb_destBitsWordLength b" "?Y + col"] ready False row(4)
        by (auto simp: word_at_def line_ready_def di_def)
      moreover have "\<not> (bb_dx b \<le> x \<and> x < bb_dx b + bb_w b)"
      proof
        assume "bb_dx b \<le> x \<and> x < bb_dx b + bb_w b"
        then have "bb_dx b div 16 \<le> col" "col \<le> (bb_dx b + bb_w b - 1) div 16"
          unfolding col_j_def by (auto intro!: zdiv_mono1)
        then show False using False by (simp add: nw line_words_def)
      qed
      ultimately show ?thesis unfolding p by (simp only: if_False)
    qed
  qed
  show ?thesis using step w pix by blast
qed

section \<open>The lines\<close>

lemma pixel_written:
  assumes "written m m' p I" "seg_of m p \<noteq> 15" "y * raster + x div 16 \<notin> I"
  shows "pixel m' p raster x y = pixel m p raster x y"
  using written_field [OF assms] by (simp add: pixel_def word_at_def)

text \<open>A write to the destination leaves the transfer ready, its source and its halftone unchanged.\<close>

lemma lines_ready_written:
  assumes "lines_ready b m" "written m m' (bb_destBits b) I" "I \<subseteq> {0..<bb_destBitsWordLength b}"
  shows "lines_ready b m'"
    "0 \<le> r \<Longrightarrow> r < bb_h b \<Longrightarrow> bb_dx b \<le> x \<Longrightarrow> x < bb_dx b + bb_w b \<Longrightarrow> source_bit b m' x r = source_bit b m x r"
proof -
  have ready: "line_ready b m" using assms(1) by (simp add: lines_ready_def)
  then have d: "has_fields m (bb_destBits b) (bb_destBitsWordLength b)" by (simp add: line_ready_def)
  note t = written_table(2,3) [OF assms(2) has_fieldsD(2) [OF d]]
  have half: "has_fields m' (bb_halftoneBits b) n \<and> disjoint_objects m' (bb_destBits b) (bb_halftoneBits b) \<and>
      (\<forall>i\<ge>0. i < n \<longrightarrow> word_at m' (bb_halftoneBits b) i = word_at m (bb_halftoneBits b) i)"
    if "has_fields m (bb_halftoneBits b) n" "disjoint_objects m (bb_destBits b) (bb_halftoneBits b)" for n
  proof -
    note o = written_other [OF assms(2) d assms(3) that]
    have "disjoint_objects m' (bb_destBits b) (bb_halftoneBits b)"
      using that t o(1) written_fields [OF assms(2) d assms(3)] d by (simp add: disjoint_objects_def has_fields_def)
    then show ?thesis using o by (simp add: word_at_def)
  qed
  have "line_ready b m'" using line_ready_written(1) [OF ready assms(2,3), of 0] by simp
  then show "lines_ready b m'" using assms(1) half unfolding lines_ready_def by meson
  show "source_bit b m' x r = source_bit b m x r"
    if r: "0 \<le> r" "r < bb_h b" "bb_dx b \<le> x" "x < bb_dx b + bb_w b"
  proof -
    have "pixel m' (bb_sourceBits b) (bb_sourceRaster b) (x + (bb_sx b - bb_dx b)) (bb_sy b + r) =
        pixel m (bb_sourceBits b) (bb_sourceRaster b) (x + (bb_sx b - bb_dx b)) (bb_sy b + r)"
      if s: "bb_sourceForm b \<noteq> NilPointer"
    proof -
      note row = source_row [OF assms(1) s r(1,2)]
      let ?c = "(x + (bb_sx b - bb_dx b)) div 16"
      have "0 \<le> bb_sx b" "bb_sx b + bb_w b \<le> 16 * bb_sourceRaster b" using assms(1) s by (simp_all add: lines_ready_def)
      then have "0 \<le> ?c" "?c < bb_sourceRaster b" using r(3,4) by simp_all
      moreover have "0 \<le> (bb_sy b + r) * bb_sourceRaster b" using row(1,2) by simp
      ultimately show ?thesis
        using line_ready_written(2) [OF ready assms(2,3) s, of "(bb_sy b + r) * bb_sourceRaster b + ?c"] row(3)
        by (simp add: pixel_def algebra_simps)
    qed
    moreover have "word_at m' (bb_halftoneBits b) ((bb_dy b + r) mod 16) = word_at m (bb_halftoneBits b) ((bb_dy b + r) mod 16)"
      if h: "bb_halftoneForm b \<noteq> NilPointer"
    proof -
      obtain n where n: "16 \<le> n" "has_fields m (bb_halftoneBits b) n"
        using assms(1) h by (auto simp: lines_ready_def)
      have "disjoint_objects m (bb_destBits b) (bb_halftoneBits b)" using assms(1) h by (simp add: lines_ready_def)
      moreover have "0 \<le> (bb_dy b + r) mod 16" "(bb_dy b + r) mod 16 < n"
        using n(1) pos_mod_bound [of 16 "bb_dy b + r"] by simp_all
      ultimately show ?thesis using half [OF n(2)] by blast
    qed
    ultimately show ?thesis
      by (cases "bb_sourceForm b = NilPointer"; cases "bb_halftoneForm b = NilPointer") (simp_all add: source_bit_def)
  qed
qed

lemma copy_lines_view:
  assumes "lines_ready b m" "0 \<le> r" "r \<le> bb_h b"
  shows "\<exists>m'. copy_lines (r + 1) t (line_start b r) m = Some (line_start b (bb_h b), m') \<and>
    written m m' (bb_destBits b) {(bb_dy b + r) * bb_destRaster b..<(bb_dy b + bb_h b) * bb_destRaster b} \<and>
    (\<forall>x s. 0 \<le> x \<longrightarrow> x < 16 * bb_destRaster b \<longrightarrow> r \<le> s \<longrightarrow> s < bb_h b \<longrightarrow>
      pixel m' (bb_destBits b) (bb_destRaster b) x (bb_dy b + s) =
      (if bb_dx b \<le> x \<and> x < bb_dx b + bb_w b
       then rule_bit (bb_combinationRule b) (source_bit b m x s) (pixel m (bb_destBits b) (bb_destRaster b) x (bb_dy b + s))
       else pixel m (bb_destBits b) (bb_destRaster b) x (bb_dy b + s)))"
  using assms
proof (induction "nat (bb_h b - r)" arbitrary: r t m)
  case 0
  then have "r = bb_h b" by simp
  then show ?case by (subst copy_lines.simps) (simp add: line_start_def written_refl)
next
  case (Suc n)
  let ?d = "bb_destBits b" and ?R = "bb_destRaster b"
  have r: "r < bb_h b" "r + 1 \<le> bb_h b" "n = nat (bb_h b - (r + 1))" "0 \<le> r + 1" using Suc.hyps(2) Suc.prems(2) by simp_all
  note row = dest_row [OF Suc.prems(1,2) r(1)]
  obtain t' m1 where one: "copy_lines (r + 1) t (line_start b r) m = copy_lines (r + 1 + 1) t' (line_start b (r + 1)) m1"
      "written m m1 ?d {(bb_dy b + r) * ?R..<(bb_dy b + r + 1) * ?R}"
      "\<And>x. 0 \<le> x \<Longrightarrow> x < 16 * ?R \<Longrightarrow> pixel m1 ?d ?R x (bb_dy b + r) =
        (if bb_dx b \<le> x \<and> x < bb_dx b + bb_w b
         then rule_bit (bb_combinationRule b) (source_bit b m x r) (pixel m ?d ?R x (bb_dy b + r))
         else pixel m ?d ?R x (bb_dy b + r))"
    using copy_line [OF Suc.prems(1,2) r(1,2), of t] by blast
  have I: "{(bb_dy b + r) * ?R..<(bb_dy b + r + 1) * ?R} \<subseteq> {0..<bb_destBitsWordLength b}" using row(1,5) by auto
  note kept = lines_ready_written [OF Suc.prems(1) one(2) I]
  obtain m2 where rest: "copy_lines (r + 1 + 1) t' (line_start b (r + 1)) m1 = Some (line_start b (bb_h b), m2)"
      "written m1 m2 ?d {(bb_dy b + (r + 1)) * ?R..<(bb_dy b + bb_h b) * ?R}"
      "\<And>x s. 0 \<le> x \<Longrightarrow> x < 16 * ?R \<Longrightarrow> r + 1 \<le> s \<Longrightarrow> s < bb_h b \<Longrightarrow> pixel m2 ?d ?R x (bb_dy b + s) =
        (if bb_dx b \<le> x \<and> x < bb_dx b + bb_w b
         then rule_bit (bb_combinationRule b) (source_bit b m1 x s) (pixel m1 ?d ?R x (bb_dy b + s))
         else pixel m1 ?d ?R x (bb_dy b + s))"
    using Suc.hyps(1) [OF r(3) kept(1) r(4,2), of t'] by blast
  have seg: "seg_of m ?d \<noteq> 15" "seg_of m1 ?d \<noteq> 15"
    using Suc.prems(1) kept(1) by (auto simp: lines_ready_def line_ready_def dest: has_fieldsD(2))
  have R: "0 \<le> ?R" using row(2-4) by linarith
  have "written m m2 ?d {(bb_dy b + r) * ?R..<(bb_dy b + bb_h b) * ?R}"
  proof -
    have "(bb_dy b + (r + 1)) * ?R \<le> (bb_dy b + bb_h b) * ?R" using r(2) R by (intro mult_right_mono) simp_all
    then have "{(bb_dy b + r) * ?R..<(bb_dy b + r + 1) * ?R} \<union> {(bb_dy b + (r + 1)) * ?R..<(bb_dy b + bb_h b) * ?R} =
        {(bb_dy b + r) * ?R..<(bb_dy b + bb_h b) * ?R}"
      using R by (simp add: ivl_disj_un add.assoc algebra_simps)
    then show ?thesis using written_trans [OF one(2) rest(2) seg(1)] by simp
  qed
  moreover have "pixel m2 ?d ?R x (bb_dy b + s) =
      (if bb_dx b \<le> x \<and> x < bb_dx b + bb_w b
       then rule_bit (bb_combinationRule b) (source_bit b m x s) (pixel m ?d ?R x (bb_dy b + s))
       else pixel m ?d ?R x (bb_dy b + s))" if x: "0 \<le> x" "x < 16 * ?R" "r \<le> s" "s < bb_h b" for x s
  proof (cases "s = r")
    case True
    have "(bb_dy b + r) * ?R + x div 16 < (bb_dy b + (r + 1)) * ?R" using x(2) by (simp add: algebra_simps)
    then have "pixel m2 ?d ?R x (bb_dy b + r) = pixel m1 ?d ?R x (bb_dy b + r)"
      by (intro pixel_written [OF rest(2) seg(2)]) simp
    then show ?thesis using one(3) [OF x(1,2)] True by simp
  next
    case False
    then have s: "r + 1 \<le> s" using x(3) by simp
    have "(bb_dy b + r + 1) * ?R \<le> (bb_dy b + s) * ?R" using s R by (intro mult_right_mono) simp_all
    moreover have "0 \<le> x div 16" using x(1) by simp
    ultimately have "(bb_dy b + s) * ?R + x div 16 \<notin> {(bb_dy b + r) * ?R..<(bb_dy b + r + 1) * ?R}"
      unfolding atLeastLessThan_iff by linarith
    then have "pixel m1 ?d ?R x (bb_dy b + s) = pixel m ?d ?R x (bb_dy b + s)"
      by (rule pixel_written [OF one(2) seg(1)])
    moreover have "source_bit b m1 x s = source_bit b m x s" if "bb_dx b \<le> x" "x < bb_dx b + bb_w b"
      using kept(2) [of s x] that s Suc.prems(2) x(4) by simp
    ultimately show ?thesis using rest(3) [OF x(1,2) s x(4)] by simp
  qed
  ultimately show ?case using one(1) rest(1) by auto
qed

end
