(* ===== verification/VmBlitProps.thy ===== *)
theory VmBlitProps
  imports VmBlitPixel
begin

text \<open>
  Bit block transfer as a whole: a transfer between different bitmaps changes exactly the pixels of the clipped rectangle.
\<close>

section \<open>Forms\<close>

text \<open>A form refers to a bitmap with whole words per line.\<close>

definition form_bits :: "omem \<Rightarrow> int \<Rightarrow> int" where
  "form_bits m form = field m form 0"

definition form_raster :: "int \<Rightarrow> int" where
  "form_raster width = (width + 15) div 16"

definition form_ok :: "omem \<Rightarrow> int \<Rightarrow> int \<Rightarrow> bool" where
  "form_ok m form n \<longleftrightarrow> (\<exists>k\<ge>1. has_fields m form k) \<and> has_fields m (form_bits m form) n"

definition blit_ok :: "'a bitblt_scheme \<Rightarrow> omem \<Rightarrow> bool" where
  "blit_ok b m \<longleftrightarrow>
     0 \<le> bb_combinationRule b \<and> bb_combinationRule b \<le> 15 \<and> bb_sourceForm b \<noteq> bb_destForm b \<and>
     form_ok m (bb_destForm b) (formWordCount (bb_destFormWidth b) (bb_destFormHeight b)) \<and>
     (bb_sourceForm b \<noteq> NilPointer \<longrightarrow>
        form_ok m (bb_sourceForm b) (formWordCount (bb_sourceFormWidth b) (bb_sourceFormHeight b)) \<and>
        disjoint_objects m (form_bits m (bb_destForm b)) (form_bits m (bb_sourceForm b))) \<and>
     (bb_halftoneForm b \<noteq> NilPointer \<longrightarrow>
        (\<exists>n\<ge>16. form_ok m (bb_halftoneForm b) n) \<and>
        disjoint_objects m (form_bits m (bb_destForm b)) (form_bits m (bb_halftoneForm b)))"

text \<open>The pixel that the source and the halftone give for a position of the destination.\<close>

definition source_pixel :: "'a bitblt_scheme \<Rightarrow> omem \<Rightarrow> int \<Rightarrow> int \<Rightarrow> bool" where
  "source_pixel b m x y \<longleftrightarrow>
     (bb_sourceForm b \<noteq> NilPointer \<longrightarrow>
        pixel m (form_bits m (bb_sourceForm b)) (form_raster (bb_sourceFormWidth b))
          (x - bb_destX b + bb_sourceX b) (y - bb_destY b + bb_sourceY b)) \<and>
     (bb_halftoneForm b \<noteq> NilPointer \<longrightarrow> bit (word_at m (form_bits m (bb_halftoneForm b)) (y mod 16)) (nat (15 - x mod 16)))"

lemma form_raster_code:
  assumes "0 < w"
  shows "(w - 1) sdiv 16 + 1 = form_raster w" "formWordCount w h = form_raster w * h"
proof -
  have "(w + 15) div 16 = (w - 1) div 16 + 1" by simp
  then show "(w - 1) sdiv 16 + 1 = form_raster w" using assms by (simp add: sdiv_16 form_raster_def)
  show "formWordCount w h = form_raster w * h" using assms by (simp add: formWordCount_def form_raster_def sdiv_16)
qed

lemma form_raster_covers: "w \<le> 16 * form_raster w"
  unfolding form_raster_def by presburger

section \<open>Before the loop\<close>

text \<open>The bitmaps as the first part of \<^verbatim>\<open>computeMasks\<close> finds them.\<close>

definition with_bits :: "'a bitblt_scheme \<Rightarrow> omem \<Rightarrow> 'a bitblt_scheme" where
  "with_bits b m =
     (let b = b\<lparr>bb_destBits := form_bits m (bb_destForm b),
                bb_destBitsWordLength := formWordCount (bb_destFormWidth b) (bb_destFormHeight b),
                bb_destRaster := (bb_destFormWidth b - 1) sdiv 16 + 1\<rparr>;
          b = (if bb_sourceForm b \<noteq> NilPointer
               then b\<lparr>bb_sourceBits := form_bits m (bb_sourceForm b),
                      bb_sourceBitsWordLength := formWordCount (bb_sourceFormWidth b) (bb_sourceFormHeight b),
                      bb_sourceRaster := (bb_sourceFormWidth b - 1) sdiv 16 + 1\<rparr>
               else b\<lparr>bb_sourceBitsWordLength := 0\<rparr>)
      in if bb_halftoneForm b \<noteq> NilPointer then b\<lparr>bb_halftoneBits := form_bits m (bb_halftoneForm b)\<rparr> else b)"

lemma form_reads:
  assumes "form_ok m form n"
  shows "fetchPointer_ofObject 0 form m = Some (form_bits m form)" "fetchWordLengthOf (form_bits m form) m = Some n"
proof -
  obtain k where k: "1 \<le> k" "has_fields m form k" using assms by (auto simp: form_ok_def)
  show "fetchPointer_ofObject 0 form m = Some (form_bits m form)"
    using field_reads(2) [OF k(2), of 0] k(1) by (simp add: form_bits_def)
  show "fetchWordLengthOf (form_bits m form) m = Some n"
    using assms field_reads(1) by (simp add: form_ok_def)
qed

lemma computeMasks_view:
  assumes "blit_ok b m"
  shows "computeMasks b m = Some (edge_masks (with_bits b m))"
proof -
  have d: "form_ok m (bb_destForm b) (formWordCount (bb_destFormWidth b) (bb_destFormHeight b))"
    and s: "bb_sourceForm b \<noteq> NilPointer \<Longrightarrow>
      form_ok m (bb_sourceForm b) (formWordCount (bb_sourceFormWidth b) (bb_sourceFormHeight b))"
    and h: "bb_halftoneForm b \<noteq> NilPointer \<Longrightarrow> \<exists>n. form_ok m (bb_halftoneForm b) n"
    using assms by (auto simp: blit_ok_def)
  show ?thesis
  proof (cases "bb_sourceForm b = NilPointer"; cases "bb_halftoneForm b = NilPointer")
    assume "bb_sourceForm b \<noteq> NilPointer" "bb_halftoneForm b \<noteq> NilPointer"
    then show ?thesis using form_reads [OF d] form_reads [OF s] form_reads(1) h by (fastforce simp: computeMasks_def with_bits_def Let_def)
  next
    assume "bb_sourceForm b = NilPointer" "bb_halftoneForm b \<noteq> NilPointer"
    then show ?thesis using form_reads [OF d] form_reads(1) h by (fastforce simp: computeMasks_def with_bits_def Let_def)
  qed (use form_reads [OF d] form_reads [OF s] in \<open>simp_all add: computeMasks_def with_bits_def Let_def\<close>)
qed

text \<open>What the masks, the direction and the offsets leave alone.\<close>

definition same_region :: "'a bitblt_scheme \<Rightarrow> 'a bitblt_scheme \<Rightarrow> bool" where
  "same_region b c \<longleftrightarrow>
     bb_destForm c = bb_destForm b \<and> bb_sourceForm c = bb_sourceForm b \<and> bb_halftoneForm c = bb_halftoneForm b \<and>
     bb_combinationRule c = bb_combinationRule b \<and> bb_dx c = bb_dx b \<and> bb_dy c = bb_dy b \<and> bb_sx c = bb_sx b \<and> bb_sy c = bb_sy b \<and>
     bb_w c = bb_w b \<and> bb_h c = bb_h b \<and>
     bb_destFormWidth c = bb_destFormWidth b \<and> bb_destFormHeight c = bb_destFormHeight b \<and>
     bb_sourceFormWidth c = bb_sourceFormWidth b \<and> bb_sourceFormHeight c = bb_sourceFormHeight b"

lemma with_bits_fields:
  fixes b :: "'a bitblt_scheme" and m :: omem
  defines "c \<equiv> with_bits b m"
  shows "same_region b c" "bb_destBits c = form_bits m (bb_destForm b)"
    "bb_destBitsWordLength c = formWordCount (bb_destFormWidth b) (bb_destFormHeight b)"
    "bb_destRaster c = (bb_destFormWidth b - 1) sdiv 16 + 1"
    "bb_sourceForm b \<noteq> NilPointer \<Longrightarrow> bb_sourceBits c = form_bits m (bb_sourceForm b)"
    "bb_sourceForm b \<noteq> NilPointer \<Longrightarrow> bb_sourceBitsWordLength c = formWordCount (bb_sourceFormWidth b) (bb_sourceFormHeight b)"
    "bb_sourceForm b \<noteq> NilPointer \<Longrightarrow> bb_sourceRaster c = (bb_sourceFormWidth b - 1) sdiv 16 + 1"
    "bb_halftoneForm b \<noteq> NilPointer \<Longrightarrow> bb_halftoneBits c = form_bits m (bb_halftoneForm b)"
  unfolding c_def by (simp_all add: with_bits_def Let_def same_region_def)

lemma edge_masks_others:
  fixes b :: "'a bitblt_scheme"
  defines "c \<equiv> edge_masks b"
  shows "same_region b c" "bb_destBits c = bb_destBits b" "bb_destBitsWordLength c = bb_destBitsWordLength b"
    "bb_destRaster c = bb_destRaster b" "bb_sourceBits c = bb_sourceBits b"
    "bb_sourceBitsWordLength c = bb_sourceBitsWordLength b" "bb_sourceRaster c = bb_sourceRaster b" "bb_halftoneBits c = bb_halftoneBits b"
  unfolding c_def by (simp_all add: edge_masks_def Let_def same_region_def)

text \<open>Between different forms the loop runs down and to the right.\<close>

lemma offsets_fields:
  fixes b :: "'a bitblt_scheme"
  assumes "bb_sourceForm b \<noteq> bb_destForm b"
  defines "c \<equiv> calculateOffsets (checkOverlap b)"
  shows "same_region b c" "bb_destBits c = bb_destBits b" "bb_destBitsWordLength c = bb_destBitsWordLength b"
    "bb_destRaster c = bb_destRaster b" "bb_sourceBits c = bb_sourceBits b"
    "bb_sourceBitsWordLength c = bb_sourceBitsWordLength b" "bb_sourceRaster c = bb_sourceRaster b" "bb_halftoneBits c = bb_halftoneBits b"
    "bb_skew c = bb_skew b" "bb_skewMask c = bb_skewMask b" "bb_nWords c = bb_nWords b" "bb_mask1 c = bb_mask1 b" "bb_mask2 c = bb_mask2 b"
    "bb_hDir c = 1" "bb_vDir c = 1"
    "bb_preload c \<longleftrightarrow> bb_sourceForm b \<noteq> NilPointer \<and> bb_skew b \<noteq> 0 \<and> bb_skew b \<le> (bb_sx b AND 15)"
    "bb_sourceIndex c = bb_sy b * bb_sourceRaster b + bb_sx b sdiv 16" "bb_destIndex c = bb_dy b * bb_destRaster b + bb_dx b sdiv 16"
    "bb_sourceDelta c = bb_sourceRaster b - (bb_nWords b + (if bb_preload c then 1 else 0))"
    "bb_destDelta c = bb_destRaster b - bb_nWords b"
  using assms(1) unfolding c_def by (simp_all add: checkOverlap_def calculateOffsets_def Let_def same_region_def)

lemma loop_ready:
  assumes "blit_ok b m" "0 < bb_w b" "0 < bb_h b" "0 \<le> bb_dx b" "bb_dx b + bb_w b \<le> bb_destFormWidth b"
    "0 \<le> bb_dy b" "bb_dy b + bb_h b \<le> bb_destFormHeight b"
    "bb_sourceForm b \<noteq> NilPointer \<Longrightarrow> 0 \<le> bb_sx b \<and> bb_sx b + bb_w b \<le> bb_sourceFormWidth b \<and>
       0 \<le> bb_sy b \<and> bb_sy b + bb_h b \<le> bb_sourceFormHeight b"
  defines "c \<equiv> calculateOffsets (checkOverlap (edge_masks (with_bits b m)))"
  shows "lines_ready c m" "same_region b c"
proof -
  let ?e = "edge_masks (with_bits b m)"
  note w = with_bits_fields [where b = b and m = m] and o = edge_masks_others [of "with_bits b m"]
  have ne: "bb_sourceForm ?e \<noteq> bb_destForm ?e"
    using assms(1) w(1) o(1) by (simp add: blit_ok_def same_region_def)
  note f = offsets_fields [OF ne, folded c_def]
  show r: "same_region b c" using w(1) o(1) f(1) by (simp add: same_region_def)
  have skew: "bb_skew c = (bb_sx c - bb_dx c) mod 16" "bb_skewMask c = skew_mask (bb_skew c)" "bb_nWords c = line_words (bb_dx c) (bb_w c)"
    using edge_masks_fields [of "with_bits b m"] f(1,9-11) w(1) o(1) assms(2) by (simp_all add: same_region_def)
  have masks: "bit (step_mask c 1 (bb_mask1 c) k) (nat (15 - j)) \<longleftrightarrow>
      bb_dx c \<le> 16 * (bb_dx c div 16 + int k) + j \<and> 16 * (bb_dx c div 16 + int k) + j < bb_dx c + bb_w c"
    if "int k < bb_nWords c" "0 \<le> j" "j < 16" for k j
  proof -
    have "step_mask c 1 (bb_mask1 c) k = step_mask ?e 1 (bb_mask1 ?e) k" using f(11-13) by (simp add: step_mask_def)
    then show ?thesis
      using edge_masks_pixels [of "with_bits b m" k j] that skew(3) f(1) w(1) o(1) assms(2) by (simp add: same_region_def)
  qed
  have W: "0 < bb_destFormWidth b" using assms(2,4,5) by simp
  have dest: "bb_destBits c = form_bits m (bb_destForm c)" "bb_destRaster c = form_raster (bb_destFormWidth b)"
      "bb_destBitsWordLength c = bb_destFormHeight b * bb_destRaster c"
    using f(2-4) o(2-4) w(2-4) r form_raster_code [OF W] by (simp_all add: same_region_def)
  have dest_len: "(bb_dy c + bb_h c) * bb_destRaster c \<le> bb_destBitsWordLength c"
    using assms(7) r W unfolding dest(3) by (intro mult_right_mono) (simp_all add: same_region_def dest(2) form_raster_def)
  have dest_fields: "has_fields m (bb_destBits c) (bb_destBitsWordLength c)"
    using assms(1) r f(3) o(3) w(3) by (simp add: dest(1) blit_ok_def form_ok_def same_region_def)
  have width: "bb_dx c + bb_w c \<le> 16 * bb_destRaster c"
    using assms(5) r by (simp add: dest(2) form_raster_def same_region_def)
  have source: "has_fields m (bb_sourceBits c) (bb_sourceBitsWordLength c)"
    "disjoint_objects m (bb_destBits c) (bb_sourceBits c)" "0 \<le> bb_sx c" "bb_sx c + bb_w c \<le> 16 * bb_sourceRaster c" "0 \<le> bb_sy c"
    "(bb_sy c + bb_h c) * bb_sourceRaster c \<le> bb_sourceBitsWordLength c"
    "bb_sourceIndex c = bb_sy c * bb_sourceRaster c + bb_sx c div 16"
    if s: "bb_sourceForm c \<noteq> NilPointer"
  proof -
    have s': "bb_sourceForm b \<noteq> NilPointer" using s r by (simp add: same_region_def)
    note a = assms(8) [OF s']
    then have SW: "0 < bb_sourceFormWidth b" using assms(2) by simp
    have q: "bb_sourceBits c = form_bits m (bb_sourceForm b)" "bb_sourceRaster c = form_raster (bb_sourceFormWidth b)"
        "bb_sourceBitsWordLength c = bb_sourceFormHeight b * bb_sourceRaster c"
        "bb_sourceBitsWordLength c = formWordCount (bb_sourceFormWidth b) (bb_sourceFormHeight b)"
      using f(5-7) o(5-7) w(5-7) [OF s'] form_raster_code [OF SW] by simp_all
    show "has_fields m (bb_sourceBits c) (bb_sourceBitsWordLength c)" "disjoint_objects m (bb_destBits c) (bb_sourceBits c)"
      using assms(1) s' r unfolding q(1,4) dest(1) by (simp_all add: blit_ok_def form_ok_def same_region_def)
    show "0 \<le> bb_sx c" "0 \<le> bb_sy c" "bb_sx c + bb_w c \<le> 16 * bb_sourceRaster c"
      using a r form_raster_covers [of "bb_sourceFormWidth b"] by (simp_all add: same_region_def q(2))
    show "(bb_sy c + bb_h c) * bb_sourceRaster c \<le> bb_sourceBitsWordLength c"
      using a r SW unfolding q(3) by (intro mult_right_mono) (simp_all add: same_region_def q(2) form_raster_def)
    have "bb_sx b sdiv 16 = bb_sx b div 16" using a by (simp add: sdiv_16)
    then show "bb_sourceIndex c = bb_sy c * bb_sourceRaster c + bb_sx c div 16"
      using f(7,17) r o(1) w(1) by (simp add: same_region_def)
  qed
  have half: "(\<exists>n\<ge>16. has_fields m (bb_halftoneBits c) n) \<and> disjoint_objects m (bb_destBits c) (bb_halftoneBits c)"
    if h: "bb_halftoneForm c \<noteq> NilPointer"
  proof -
    have h': "bb_halftoneForm b \<noteq> NilPointer" using h r by (simp add: same_region_def)
    have "bb_halftoneBits c = form_bits m (bb_halftoneForm b)" "bb_destBits c = form_bits m (bb_destForm b)"
      using f(8) o(8) w(8) [OF h'] dest(1) r by (simp_all add: same_region_def)
    then show ?thesis using assms(1) h' by (auto simp: blit_ok_def form_ok_def)
  qed
  have pos: "0 < bb_w c" "0 \<le> bb_dx c" "0 \<le> bb_dy c" "0 \<le> bb_h c" "0 \<le> bb_combinationRule c" "bb_combinationRule c \<le> 15"
    using assms(1-4,6) r by (simp_all add: same_region_def blit_ok_def)
  have "0 \<le> bb_skew c" "bb_skew c < 16" unfolding skew(1) by simp_all
  then have ready: "line_ready c m"
    unfolding line_ready_def using f(14) pos(5,6) dest_fields skew(2) source(1,2) by blast
  have eqs: "bb_destIndex c = bb_dy c * bb_destRaster c + bb_dx c div 16" "bb_destDelta c = bb_destRaster c - bb_nWords c"
    "bb_sourceDelta c = bb_sourceRaster c - (bb_nWords c + (if bb_preload c then 1 else 0))"
    "bb_preload c \<longleftrightarrow> bb_sourceForm c \<noteq> NilPointer \<and> bb_skew c \<noteq> 0 \<and> bb_skew c \<le> bb_sx c mod 16"
    using f(1,4,7,9,11,16,18-20) pos(2) by (simp_all add: same_region_def sdiv_16 and_15)
  show "lines_ready c m"
    unfolding lines_ready_def using ready f(15) pos width dest_len skew masks eqs source(3-7) half by blast
qed

section \<open>The transfer\<close>

lemma clipped_extent:
  assumes "b' = clipRange b" "0 < bb_w b'" "0 < bb_h b'"
  shows "0 \<le> bb_dx b'" "bb_dx b' + bb_w b' \<le> bb_destFormWidth b" "0 \<le> bb_dy b'" "bb_dy b' + bb_h b' \<le> bb_destFormHeight b"
    "bb_sourceForm b \<noteq> NilPointer \<Longrightarrow> 0 \<le> bb_sx b' \<and> bb_sx b' + bb_w b' \<le> bb_sourceFormWidth b \<and>
       0 \<le> bb_sy b' \<and> bb_sy b' + bb_h b' \<le> bb_sourceFormHeight b"
proof -
  note v = clipRange_view [OF assms(1)]
  have "in_transfer b (bb_dx b') (bb_dy b')" "in_transfer b (bb_dx b' + bb_w b' - 1) (bb_dy b' + bb_h b' - 1)"
    using v(1) [of "bb_dx b'" "bb_dy b'"] v(1) [of "bb_dx b' + bb_w b' - 1" "bb_dy b' + bb_h b' - 1"] assms(2,3) by simp_all
  then show "0 \<le> bb_dx b'" "bb_dx b' + bb_w b' \<le> bb_destFormWidth b" "0 \<le> bb_dy b'" "bb_dy b' + bb_h b' \<le> bb_destFormHeight b"
    "bb_sourceForm b \<noteq> NilPointer \<Longrightarrow> 0 \<le> bb_sx b' \<and> bb_sx b' + bb_w b' \<le> bb_sourceFormWidth b \<and>
       0 \<le> bb_sy b' \<and> bb_sy b' + bb_h b' \<le> bb_sourceFormHeight b"
    using v(2,3) by (auto simp: in_transfer_def)
qed

text \<open>The source bit of a pixel in terms of the transfer as it was set up.\<close>

lemma source_bit_transfer:
  assumes "b' = clipRange b" "same_region b' c"
    "bb_sourceForm b \<noteq> NilPointer \<Longrightarrow>
       bb_sourceBits c = form_bits m (bb_sourceForm b) \<and> bb_sourceRaster c = form_raster (bb_sourceFormWidth b)"
    "bb_halftoneForm b \<noteq> NilPointer \<Longrightarrow> bb_halftoneBits c = form_bits m (bb_halftoneForm b)"
  shows "source_bit c m x (y - bb_dy c) = source_pixel b m x y"
proof -
  note v = clipRange_view [OF assms(1)]
  have e: "x + (bb_sx c - bb_dx c) = x - bb_destX b + bb_sourceX b" "bb_sy c + (y - bb_dy c) = y - bb_destY b + bb_sourceY b"
    "bb_dy c + (y - bb_dy c) = y"
    using assms(2) v(2,3) by (simp_all add: same_region_def)
  have f: "bb_sourceForm c = bb_sourceForm b" "bb_halftoneForm c = bb_halftoneForm b"
    using assms(2) v(4,6) by (simp_all add: same_region_def)
  show ?thesis using assms(3,4) unfolding source_bit_def source_pixel_def e f by auto
qed

text \<open>A transfer that has something to copy runs the loop.\<close>

lemma copyBits_runs:
  assumes "blit_ok b m" "b' = clipRange b" "0 < bb_w b'" "0 < bb_h b'"
  shows "\<exists>c m'. copyBits b m = Some (True, line_start c (bb_h c), m') \<and> lines_ready c m \<and> same_region b' c \<and>
    bb_destBits c = form_bits m (bb_destForm b) \<and> bb_destRaster c = form_raster (bb_destFormWidth b) \<and>
    (bb_sourceForm b \<noteq> NilPointer \<longrightarrow>
       bb_sourceBits c = form_bits m (bb_sourceForm b) \<and> bb_sourceRaster c = form_raster (bb_sourceFormWidth b)) \<and>
    (bb_halftoneForm b \<noteq> NilPointer \<longrightarrow> bb_halftoneBits c = form_bits m (bb_halftoneForm b)) \<and>
    copy_lines 1 0 (line_start c 0) m = Some (line_start c (bb_h c), m')"
proof -
  define u where "u = b'\<lparr>bb_updatedX := bb_dx b', bb_updatedY := bb_dy b', bb_updatedWidth := bb_w b', bb_updatedHeight := bb_h b'\<rparr>"
  define e where "e = edge_masks (with_bits u m)"
  define c where "c = calculateOffsets (checkOverlap e)"
  note v = clipRange_view [OF assms(2)] and x = clipped_extent [OF assms(2-4)]
  have uf: "bb_sourceForm u = bb_sourceForm b" "bb_destForm u = bb_destForm b" "bb_halftoneForm u = bb_halftoneForm b"
    "bb_destFormWidth u = bb_destFormWidth b" "bb_destFormHeight u = bb_destFormHeight b"
    "bb_sourceFormWidth u = bb_sourceFormWidth b" "bb_sourceFormHeight u = bb_sourceFormHeight b" "same_region b' u"
    using v(4-11) by (simp_all add: u_def same_region_def)
  have ok: "blit_ok u m" using assms(1) uf v(7) by (simp add: blit_ok_def same_region_def)
  have ready: "lines_ready c m" "same_region u c"
    unfolding c_def e_def by (rule loop_ready [OF ok]; use assms(3,4) x uf in \<open>simp add: same_region_def\<close>)+
  note w = with_bits_fields [where b = u and m = m] and o = edge_masks_others [of "with_bits u m", folded e_def]
  have ne: "bb_sourceForm e \<noteq> bb_destForm e"
    using ok w(1) o(1) by (simp add: blit_ok_def same_region_def)
  note f = offsets_fields [OF ne, folded c_def]
  have W: "0 < bb_destFormWidth b" "bb_sourceForm b \<noteq> NilPointer \<Longrightarrow> 0 < bb_sourceFormWidth b"
    using x(1,2,5) assms(3) by auto
  have bits: "bb_destBits c = form_bits m (bb_destForm b)" "bb_destRaster c = form_raster (bb_destFormWidth b)"
    "bb_sourceForm b \<noteq> NilPointer \<Longrightarrow>
       bb_sourceBits c = form_bits m (bb_sourceForm b) \<and> bb_sourceRaster c = form_raster (bb_sourceFormWidth b)"
    "bb_halftoneForm b \<noteq> NilPointer \<Longrightarrow> bb_halftoneBits c = form_bits m (bb_halftoneForm b)"
    using f(2-8) o(2-8) w(2-8) uf W form_raster_code(1) by simp_all
  have start: "line_start c 0 = c" by (simp add: line_start_def moved_def)
  obtain m' where m': "copy_lines 1 0 (line_start c 0) m = Some (line_start c (bb_h c), m')"
    using copy_lines_view [OF ready(1) order_refl, of 0] ready(1) by (auto simp: lines_ready_def)
  have len: "bb_destBitsWordLength e = formWordCount (bb_destFormWidth e) (bb_destFormHeight e)"
    "bb_sourceForm e = NilPointer \<or> formWordCount (bb_sourceFormWidth e) (bb_sourceFormHeight e) = bb_sourceBitsWordLength e"
    using o(1,3,6) w(1,3,6) by (cases "bb_sourceForm e = NilPointer"; simp add: same_region_def)+
  have "copyBits b m = Some (True, line_start c (bb_h c), m')"
    unfolding copyBits_def assms(2) [symmetric] Let_def u_def [symmetric] computeMasks_view [OF ok] bind.simps e_def [symmetric]
    using assms(3,4) len m' by (simp add: copyLoop_def c_def [symmetric] start)
  moreover have "same_region b' c" using ready(2) uf(8) by (simp add: same_region_def)
  ultimately show ?thesis using ready(1) bits m' by blast
qed

text \<open>What the loop has done, pixel by pixel.\<close>

lemma copied_pixels:
  assumes "blit_ok b m" "b' = clipRange b" "0 < bb_w b'" "0 < bb_h b'" "d = form_bits m (bb_destForm b)"
    "raster = form_raster (bb_destFormWidth b)"
  shows "\<exists>c m'. copyBits b m = Some (True, c, m') \<and>
    written m m' d {bb_dy b' * raster..<(bb_dy b' + bb_h b') * raster} \<and>
    (\<forall>x y. 0 \<le> x \<longrightarrow> x < 16 * raster \<longrightarrow> bb_dy b' \<le> y \<longrightarrow> y < bb_dy b' + bb_h b' \<longrightarrow>
      pixel m' d raster x y = (if in_transfer b x y then rule_bit (bb_combinationRule b) (source_pixel b m x y) (pixel m d raster x y)
        else pixel m d raster x y))"
proof -
  note v = clipRange_view [OF assms(2)]
  obtain c m' where c: "copyBits b m = Some (True, line_start c (bb_h c), m')" "lines_ready c m" "same_region b' c"
      "bb_destBits c = d" "bb_destRaster c = raster" "copy_lines 1 0 (line_start c 0) m = Some (line_start c (bb_h c), m')"
      "bb_sourceForm b \<noteq> NilPointer \<Longrightarrow>
         bb_sourceBits c = form_bits m (bb_sourceForm b) \<and> bb_sourceRaster c = form_raster (bb_sourceFormWidth b)"
      "bb_halftoneForm b \<noteq> NilPointer \<Longrightarrow> bb_halftoneBits c = form_bits m (bb_halftoneForm b)"
    using copyBits_runs [OF assms(1-4)] assms(5,6) by blast
  note r = c(3) [unfolded same_region_def]
  have h: "0 \<le> bb_h c" using assms(4) r by simp
  have lines: "written m m' d {bb_dy c * raster..<(bb_dy c + bb_h c) * raster}"
      "\<And>x s. 0 \<le> x \<Longrightarrow> x < 16 * raster \<Longrightarrow> 0 \<le> s \<Longrightarrow> s < bb_h c \<Longrightarrow> pixel m' d raster x (bb_dy c + s) =
        (if bb_dx c \<le> x \<and> x < bb_dx c + bb_w c
         then rule_bit (bb_combinationRule c) (source_bit c m x s) (pixel m d raster x (bb_dy c + s))
         else pixel m d raster x (bb_dy c + s))"
    using copy_lines_view [OF c(2) order_refl h, of 0] c(4-6) by auto
  have "pixel m' d raster x y =
      (if in_transfer b x y then rule_bit (bb_combinationRule b) (source_pixel b m x y) (pixel m d raster x y) else pixel m d raster x y)"
    if q: "0 \<le> x" "x < 16 * raster" "bb_dy b' \<le> y" "y < bb_dy b' + bb_h b'" for x y
  proof -
    have "in_transfer b x y \<longleftrightarrow> bb_dx c \<le> x \<and> x < bb_dx c + bb_w c" using v(1) [of x y] q r by auto
    moreover have "source_bit c m x (y - bb_dy c) = source_pixel b m x y"
      by (rule source_bit_transfer [OF assms(2) c(3) c(7,8)])
    ultimately show ?thesis using lines(2) [OF q(1,2), of "y - bb_dy c"] q r v(7) by simp
  qed
  then show ?thesis using c(1) lines(1) r by auto
qed

section \<open>An example\<close>

text \<open>Two forms of 20 by 2 pixels, the source black.\<close>

definition ex_bitmaps :: omem where
  "ex_bitmaps =
     \<lparr>cell = (\<lambda>s w. if s = 15 then if w \<in> {100, 102, 104, 106} then 0x0240 else if w = 103 then 10 else if w = 105 then 20
                                else if w = 107 then 30 else 0
                    else if s = 0 then if w = 0 then 5 else if w = 2 then 102 else if w = 10 then 6 else if w = 20 then 5
                                  else if w = 22 then 106 else if w = 30 then 6 else if 32 \<le> w \<and> w < 36 then 65535 else 0
                    else 0),
      currentSegment = 0, freeWords = 0, freeOops = 0\<rparr>"

definition ex_blit :: bitblt where
  "ex_blit =
     \<lparr>bb_destForm = 100, bb_sourceForm = 104, bb_halftoneForm = 2, bb_combinationRule = 3, bb_destX = 4, bb_destY = 1,
      bb_width = 10, bb_height = 5, bb_sourceX = 0, bb_sourceY = 0, bb_clipX = 0, bb_clipY = 0, bb_clipWidth = 20,
      bb_clipHeight = 2, bb_sourceBits = 0, bb_sourceRaster = 0, bb_destBits = 0, bb_destRaster = 0, bb_halftoneBits = 0,
      bb_skew = 0, bb_preload = False, bb_nWords = 0, bb_hDir = 0, bb_vDir = 0, bb_sourceIndex = 0, bb_sourceDelta = 0,
      bb_destIndex = 0, bb_destDelta = 0, bb_sx = 0, bb_sy = 0, bb_dx = 0, bb_dy = 0, bb_w = 0, bb_h = 0,
      bb_sourceBitsWordLength = 0, bb_destBitsWordLength = 0, bb_mask1 = 0, bb_mask2 = 0, bb_skewMask = 0,
      bb_sourceFormWidth = 20, bb_sourceFormHeight = 2, bb_destFormWidth = 20, bb_destFormHeight = 2, bb_updatedX = 0,
      bb_updatedY = 0, bb_updatedWidth = 0, bb_updatedHeight = 0\<rparr>"

lemma ex_bitmaps_entries:
  "p \<in> {100, 102, 104, 106} \<Longrightarrow> seg_of ex_bitmaps p = 0" "loc_of ex_bitmaps 100 = 0" "loc_of ex_bitmaps 102 = 10"
  "loc_of ex_bitmaps 104 = 20" "loc_of ex_bitmaps 106 = 30"
  by (auto simp: seg_of_def loc_of_def ex_bitmaps_def field_get_def mask_eq_exp_minus_1)

lemma ex_bitmaps_words:
  "hw ex_bitmaps 100 0 = 5" "field ex_bitmaps 100 0 = 102" "hw ex_bitmaps 102 0 = 6"
  "hw ex_bitmaps 104 0 = 5" "field ex_bitmaps 104 0 = 106" "hw ex_bitmaps 106 0 = 6"
  "0 \<le> i \<Longrightarrow> i < 4 \<Longrightarrow> field ex_bitmaps 106 i = 65535" "0 \<le> i \<Longrightarrow> i < 4 \<Longrightarrow> field ex_bitmaps 102 i = 0"
  by (simp_all add: hw_def field_def ex_bitmaps_entries) (simp_all add: ex_bitmaps_def)

lemma ex_blit_ok: "blit_ok ex_blit ex_bitmaps"
proof -
  have w: "formWordCount 20 2 = 4" by (simp add: formWordCount_def signed_divide_int_def)
  have "has_fields ex_bitmaps 100 3" "has_fields ex_bitmaps 102 4" "has_fields ex_bitmaps 104 3" "has_fields ex_bitmaps 106 4"
    by (simp_all add: has_fields_def ex_bitmaps_entries ex_bitmaps_words oop_ok_def)
  then have "form_ok ex_bitmaps 100 4" "form_ok ex_bitmaps 104 4"
    by (auto simp: form_ok_def form_bits_def ex_bitmaps_words intro!: exI [of _ "3 :: int"])
  then show ?thesis
    by (simp add: blit_ok_def ex_blit_def w form_bits_def ex_bitmaps_words disjoint_objects_def ex_bitmaps_entries)
qed

section \<open>The properties\<close>

text \<open>C31: Clipping computes the intersection: after \<^verbatim>\<open>clipRange\<close> a position lies in the rectangle to copy exactly
when it lies in the destination rectangle, in the clipping rectangle and in the destination form, and its source position,
when there is a source, lies in the source form; source and destination keep their offset.\<close>

theorem clipping_intersects:
  "(let b' = clipRange b in
      ((bb_dx b' \<le> x \<and> x < bb_dx b' + bb_w b' \<and> bb_dy b' \<le> y \<and> y < bb_dy b' + bb_h b') \<longleftrightarrow> in_transfer b x y) \<and>
      bb_sx b' - bb_dx b' = bb_sourceX b - bb_destX b \<and> bb_sy b' - bb_dy b' = bb_sourceY b - bb_destY b)"
  using clipRange_view [OF refl, of b] by (simp only: Let_def simp_thms)

text \<open>C2: A transfer between different bitmaps changes exactly the pixels of the clipped rectangle: it
succeeds, writes no word outside the destination bitmap, and each pixel of the rectangle becomes the combination that the rule
gives for its source pixel under the halftone and its old value; every other pixel of the bitmap, those that pad
its lines included, keeps its value.\<close>

theorem transfer_pixels:
  assumes "blit_ok b m"
  shows "\<exists>b' m'. copyBits b m = Some (True, b', m') \<and>
    written m m' (form_bits m (bb_destForm b)) {0..<formWordCount (bb_destFormWidth b) (bb_destFormHeight b)} \<and>
    (\<forall>x y. 0 \<le> x \<and> x < 16 * form_raster (bb_destFormWidth b) \<longrightarrow>
      pixel m' (form_bits m (bb_destForm b)) (form_raster (bb_destFormWidth b)) x y =
      (if in_transfer b x y
       then rule_bit (bb_combinationRule b) (source_pixel b m x y)
              (pixel m (form_bits m (bb_destForm b)) (form_raster (bb_destFormWidth b)) x y)
       else pixel m (form_bits m (bb_destForm b)) (form_raster (bb_destFormWidth b)) x y))"
proof -
  let ?d = "form_bits m (bb_destForm b)" and ?R = "form_raster (bb_destFormWidth b)"
  define b' where "b' = clipRange b"
  note v = clipRange_view [OF b'_def]
  show ?thesis
  proof (cases "0 < bb_w b' \<and> 0 < bb_h b'")
    case False
    then have "\<not> in_transfer b x y" for x y using v(1) [of x y] by auto
    moreover have "\<exists>b'. copyBits b m = Some (True, b', m)"
      using False unfolding copyBits_def b'_def [symmetric] Let_def by auto
    moreover have "written m m ?d I" for I by (simp add: written_def)
    ultimately show ?thesis by auto
  next
    case True
    then have pos: "0 < bb_w b'" "0 < bb_h b'" by simp_all
    obtain c m' where c: "copyBits b m = Some (True, c, m')" "written m m' ?d {bb_dy b' * ?R..<(bb_dy b' + bb_h b') * ?R}"
        "\<And>x y. 0 \<le> x \<Longrightarrow> x < 16 * ?R \<Longrightarrow> bb_dy b' \<le> y \<Longrightarrow> y < bb_dy b' + bb_h b' \<Longrightarrow> pixel m' ?d ?R x y =
          (if in_transfer b x y then rule_bit (bb_combinationRule b) (source_pixel b m x y) (pixel m ?d ?R x y) else pixel m ?d ?R x y)"
      using copied_pixels [OF assms b'_def pos refl refl] by blast
    note x = clipped_extent [OF b'_def pos]
    have R: "0 < ?R" using x(1,2) pos form_raster_covers [of "bb_destFormWidth b"] by linarith
    have len: "formWordCount (bb_destFormWidth b) (bb_destFormHeight b) = ?R * bb_destFormHeight b"
      using x(1,2) pos by (intro form_raster_code(2)) simp
    have seg: "seg_of m ?d \<noteq> 15" using assms by (auto simp: blit_ok_def form_ok_def dest: has_fieldsD(2))
    have "0 \<le> bb_dy b' * ?R" "(bb_dy b' + bb_h b') * ?R \<le> ?R * bb_destFormHeight b"
      using x(3,4) R by (simp_all add: mult.commute)
    then have "written m m' ?d {0..<formWordCount (bb_destFormWidth b) (bb_destFormHeight b)}"
      using c(2) by (auto simp: written_def len)
    moreover have "pixel m' ?d ?R x y = pixel m ?d ?R x y \<and> \<not> in_transfer b x y"
      if q: "0 \<le> x" "x < 16 * ?R" "\<not> (bb_dy b' \<le> y \<and> y < bb_dy b' + bb_h b')" for x y
    proof -
      have k: "0 \<le> x div 16" "x div 16 < ?R" using q(1,2) by simp_all
      have "(y + 1) * ?R \<le> bb_dy b' * ?R \<or> (bb_dy b' + bb_h b') * ?R \<le> y * ?R" using q(3) R by auto
      then have "y * ?R + x div 16 \<notin> {bb_dy b' * ?R..<(bb_dy b' + bb_h b') * ?R}" using k by (auto simp: algebra_simps)
      then show ?thesis using pixel_written [OF c(2) seg] q(3) v(1) [of x y] by blast
    qed
    then have "pixel m' ?d ?R x y =
        (if in_transfer b x y then rule_bit (bb_combinationRule b) (source_pixel b m x y) (pixel m ?d ?R x y) else pixel m ?d ?R x y)"
      if "0 \<le> x \<and> x < 16 * ?R" for x y
      using c(3) [of x y] that by (cases "bb_dy b' \<le> y \<and> y < bb_dy b' + bb_h b'") simp_all
    ultimately show ?thesis using c(1) by blast
  qed
qed

theorem transfer_pixels_witness:
  "\<exists>b' m'. copyBits ex_blit ex_bitmaps = Some (True, b', m') \<and> pixel m' 102 2 5 1 \<and> \<not> pixel m' 102 2 5 0"
proof -
  have f: "bb_destForm ex_blit = 100" "bb_destFormWidth ex_blit = 20" "bb_combinationRule ex_blit = 3" "form_bits ex_bitmaps 100 = 102"
      "form_raster 20 = 2"
    by (simp_all add: ex_blit_def form_bits_def ex_bitmaps_words form_raster_def)
  obtain b' m' where c: "copyBits ex_blit ex_bitmaps = Some (True, b', m')"
      "\<And>x y. 0 \<le> x \<and> x < 32 \<Longrightarrow> pixel m' 102 2 x y =
        (if in_transfer ex_blit x y then rule_bit 3 (source_pixel ex_blit ex_bitmaps x y) (pixel ex_bitmaps 102 2 x y)
         else pixel ex_bitmaps 102 2 x y)"
    using transfer_pixels [OF ex_blit_ok] unfolding f by auto
  have "in_transfer ex_blit 5 1" "\<not> in_transfer ex_blit 5 0" by (simp_all add: in_transfer_def ex_blit_def)
  moreover have "source_pixel ex_blit ex_bitmaps 5 1" "\<not> pixel ex_bitmaps 102 2 5 0"
    by (simp_all add: source_pixel_def pixel_def ex_blit_def form_bits_def word_at_def ex_bitmaps_words form_raster_def)
  ultimately show ?thesis using c(1) c(2) [of 5 1] c(2) [of 5 0] by (simp add: rule_bit_def)
qed

end
