(* ===== verification/VmQueue.thy ===== *)
theory VmQueue
  imports VmView
begin

text \<open>
  The linked lists of processes as queues.  The lists of the scheduler and the semaphores are objects with a first and a
  last link, a process has a next link and the list it was put on; the counts of the objects are at least the number
  of these references, so that no store frees one of them.
\<close>

section \<open>Stores into objects that share no words\<close>

text \<open>At least \<open>n\<close> references, or so many that the count is never changed again.\<close>

definition at_least :: "omem \<Rightarrow> int \<Rightarrow> int \<Rightarrow> bool" where
  "at_least m q n \<longleftrightarrow> n \<le> count_of m q \<or> 128 \<le> count_of m q"

definition field_count :: "omem \<Rightarrow> int \<Rightarrow> int" where
  "field_count m x = hw m x 0 - 2"

definition separated :: "omem \<Rightarrow> int set \<Rightarrow> bool" where
  "separated m A \<longleftrightarrow>
     (\<forall>x\<in>A. 0 < x \<and> has_fields m x (field_count m x)) \<and> (\<forall>x\<in>A. \<forall>y\<in>A. x \<noteq> y \<longrightarrow> disjoint_objects m x y)"

text \<open>One field of one object is \<open>v\<close>, the counts follow the reference added and the one removed.\<close>

definition updated :: "int set \<Rightarrow> int \<Rightarrow> int \<Rightarrow> int \<Rightarrow> omem \<Rightarrow> omem \<Rightarrow> bool" where
  "updated A x i v m m' \<longleftrightarrow> separated m' A \<and>
     (\<forall>y\<in>A. field_count m' y = field_count m y \<and>
        (\<forall>j. 0 \<le> j \<and> j < field_count m y \<longrightarrow> field m' y j = (if y = x \<and> j = i then v else field m y j))) \<and>
     (\<forall>q n. oop_ok q \<longrightarrow> at_least m q n \<longrightarrow> at_least m' q (n + of_bool (q = v) - of_bool (q = field m x i))) \<and>
     (\<forall>q. oop_ok q \<longrightarrow> 128 \<le> count_of m q \<longrightarrow> 128 \<le> count_of m' q)"

text \<open>The two counts that a store changes.\<close>

definition up :: "int \<Rightarrow> omem \<Rightarrow> omem" where
  "up v m = (if \<not> isIntegerObject v \<and> count_of m v < 128 then put_bits 8 8 v (count_of m v + 1) m else m)"

definition down :: "int \<Rightarrow> omem \<Rightarrow> omem" where
  "down v m = (if \<not> isIntegerObject v \<and> count_of m v < 128 then put_bits 8 8 v (count_of m v - 1) m else m)"

lemma oop_not_integer: "oop_ok v \<Longrightarrow> \<not> isIntegerObject v"
  by (simp add: oop_ok_def isIntegerObject_def and_one_eq even_iff_mod_2_eq_zero)

lemma up_down_counts:
  assumes "oop_ok q"
  shows "isIntegerObject v \<or> oop_ok v \<Longrightarrow> count_of (up v m) q = (if q = v \<and> count_of m v < 128 then count_of m v + 1 else count_of m q)"
    "stays m v \<Longrightarrow> count_of (down v m) q = (if q = v \<and> count_of m v < 128 then count_of m v - 1 else count_of m q)"
  using assms entry_bounds [of m v] by (auto simp: up_def down_def stays_def oop_not_integer)

lemma up_down_counts_only:
  assumes "isIntegerObject v \<or> oop_ok v"
  shows "counts_only m (up v m)" "counts_only m (down v m)"
  using assms by (auto simp: up_def down_def counts_onlyI)

lemma countDown_down:
  assumes "stays m v"
  shows "countDown v m = Some (if isIntegerObject v then v else NilPointer, down v m)"
proof (cases "isIntegerObject v")
  case True
  then show ?thesis by (simp add: countDown_def down_def)
next
  case False
  then have v: "oop_ok v" "2 \<le> count_of m v" using assms by (auto simp: stays_def)
  then show ?thesis using False entry_bounds [of m v]
    by (auto simp: countDown_def forAllObjectsAccessibleFrom_suchThat_do_def down_predicate_def down_def)
qed

lemma storePointer_closed:
  assumes "has_fields m x n" "0 \<le> i" "i < n" "pointer_ok v" "stays m (field m x i)"
  shows "storePointer_ofObject_withValue i x v m = Some (put_hw x (i + 2) v (down (field m x i) (up v m)))"
    "stays (up v m) (field m x i)"
proof -
  let ?old = "field m x i"
  have v: "isIntegerObject v \<or> oop_ok v" "isIntegerObject ?old \<or> oop_ok ?old"
    using assms(4,5) by (auto simp: pointer_ok_def stays_def)
  have c1: "counts_only m (up v m)" by (rule up_down_counts_only(1) [OF v(1)])
  have f1: "has_fields (up v m) x n" "field (up v m) x i = ?old" by (rule counts_only_fields [OF c1 assms(1)])+
  show old: "stays (up v m) ?old" using assms(5) up_down_counts(1) [of ?old v m] v(1) by (auto simp: stays_def)
  have c2: "counts_only (up v m) (down ?old (up v m))" by (rule up_down_counts_only(2) [OF v(2)])
  have "countUp v m = Some (up v m)" unfolding up_def by (rule countUp_view [OF v(1)])
  moreover have "heapChunkOf_word x (i + 2) (up v m) = Some ?old"
    using has_fieldsD(5) [OF f1(1), of "i + 2"] assms(2,3) f1(2) by (simp add: field_def)
  moreover have "heapChunkOf_word_put x (i + 2) v (down ?old (up v m)) = Some (put_hw x (i + 2) v (down ?old (up v m)))"
    using has_fieldsD(5) [OF counts_only_fields(1) [OF c2 f1(1)], of "i + 2"] assms(2-4) by (simp add: pointer_ok_def)
  ultimately show "storePointer_ofObject_withValue i x v m = Some (put_hw x (i + 2) v (down ?old (up v m)))"
    using assms(2-4) field_reads(1) [OF assms(1)] countDown_down [OF old]
    by (simp add: storePointer_ofObject_withValue_def pointer_ok_def add.commute)
qed

lemma store_updated:
  assumes "separated m A" "x \<in> A" "0 \<le> i" "i < field_count m x" "pointer_ok v" "stays m (field m x i)"
  shows "\<exists>m'. storePointer_ofObject_withValue i x v m = Some m' \<and> updated A x i v m m'"
proof -
  let ?old = "field m x i"
  have x: "has_fields m x (field_count m x)" using assms(1,2) by (simp add: separated_def)
  note c = storePointer_closed [OF x assms(3-6)]
  define m' where "m' = put_hw x (i + 2) v (down ?old (up v m))"
  have v: "isIntegerObject v \<or> oop_ok v" "isIntegerObject ?old \<or> oop_ok ?old"
    using assms(5,6) by (auto simp: pointer_ok_def stays_def)
  have "counts_only m (down ?old (up v m))"
    by (rule counts_only_trans [OF up_down_counts_only(1) [OF v(1)] up_down_counts_only(2) [OF v(2)]])
  then have st: "stored i x v m m'" by (auto simp: stored_def m'_def)
  note o = stored_other [OF st x assms(3-5)]
  have words: "field_count m' y = field_count m y" "has_fields m' y (field_count m' y)"
      "0 \<le> j \<Longrightarrow> j < field_count m y \<Longrightarrow> field m' y j = (if y = x \<and> j = i then v else field m y j)" if y: "y \<in> A" for y j
  proof -
    have yf: "has_fields m y (field_count m y)" using assms(1) y by (simp add: separated_def)
    note yD = has_fieldsD [OF yf] and xD = has_fieldsD [OF x]
    have sep: "\<not> same_word m x (i + 2) y k" if "y \<noteq> x" "0 \<le> k" "k < field_count m y + 2" for k
    proof -
      have "disjoint_objects m x y" using assms(1,2) y that(1) by (simp add: separated_def)
      then show ?thesis using that(2,3) assms(3,4) yD(3) xD(3) by (auto simp: disjoint_objects_def same_word_def)
    qed
    have h0: "hw m' y 0 = hw m y 0"
      using o(3) [OF yD(1,2), of 0] sep [of 0] yD(4) assms(3) by (cases "y = x") simp_all
    then show "field_count m' y = field_count m y" by (simp add: field_count_def)
    show "has_fields m' y (field_count m' y)"
      using yf h0 same_tableD(1,2) [OF o(1) yD(1)] by (simp add: has_fields_def field_count_def)
    show "field m' y j = (if y = x \<and> j = i then v else field m y j)" if j: "0 \<le> j" "j < field_count m y"
      using o(2) [of j] o(3) [OF yD(1,2), of "j + 2"] sep [of "j + 2"] j by (cases "y = x") (simp_all add: field_def)
  qed
  have "disjoint_objects m' y z" if "y \<in> A" "z \<in> A" "y \<noteq> z" for y z
    using assms(1) that words(1) [OF that(1)] words(1) [OF that(2)] same_tableD(1,2) [OF o(1)] has_fieldsD(1)
    by (simp add: separated_def disjoint_objects_def field_count_def has_fields_def)
  then have ap: "separated m' A" using words(2) assms(1) by (simp add: separated_def)
  have cnt: "count_of m' q = count_of (down ?old (up v m)) q" for q 
  proof -
    have "seg_of (down ?old (up v m)) x \<noteq> 15"
      using counts_onlyD(1) [OF \<open>counts_only m (down ?old (up v m))\<close>] has_fieldsD(1,2) [OF x] by simp
    then show ?thesis by (simp add: m'_def)
  qed
  have counts: "at_least m q n \<longrightarrow> at_least m' q (n + of_bool (q = v) - of_bool (q = ?old))"
      "128 \<le> count_of m q \<longrightarrow> 128 \<le> count_of m' q" if "oop_ok q" for q n
    unfolding at_least_def cnt up_down_counts(2) [OF that c(2)] using up_down_counts(1) [OF that v(1), of m]
      up_down_counts(1) [OF _ v(1), of ?old m] v(2) c(2) by (auto simp: stays_def oop_not_integer)
  show ?thesis using c(1) ap words(1,3) counts unfolding updated_def m'_def by blast
qed

text \<open>What several stores and counts have done: the fields are \<open>g\<close>, the references to \<open>q\<close> have grown by \<open>d q\<close>.\<close>

definition effect :: "int set \<Rightarrow> (int \<Rightarrow> int \<Rightarrow> int) \<Rightarrow> (int \<Rightarrow> int) \<Rightarrow> omem \<Rightarrow> omem \<Rightarrow> bool" where
  "effect A g d m m' \<longleftrightarrow> separated m' A \<and>
     (\<forall>y\<in>A. field_count m' y = field_count m y \<and> (\<forall>j. 0 \<le> j \<and> j < field_count m y \<longrightarrow> field m' y j = g y j)) \<and>
     (\<forall>q n. oop_ok q \<longrightarrow> at_least m q n \<longrightarrow> at_least m' q (n + d q)) \<and>
     (\<forall>q. oop_ok q \<longrightarrow> 128 \<le> count_of m q \<longrightarrow> 128 \<le> count_of m' q)"

lemma effect_none: "separated m A \<Longrightarrow> effect A (field m) (\<lambda>q. 0) m m"
  by (simp add: effect_def)

lemma effect_stays:
  assumes "effect A g d m m'" "oop_ok v" "(at_least m v n \<and> 2 \<le> n + d v) \<or> 128 \<le> count_of m v"
  shows "stays m' v"
  using assms(3)
proof
  assume "at_least m v n \<and> 2 \<le> n + d v"
  then have "at_least m' v (n + d v)" "2 \<le> n + d v" using assms(1,2) by (auto simp: effect_def)
  then show ?thesis using assms(2) by (auto simp: at_least_def stays_def)
next
  assume "128 \<le> count_of m v"
  then have "128 \<le> count_of m' v" using assms(1,2) by (auto simp: effect_def)
  then show ?thesis using assms(2) by (simp add: stays_def)
qed

lemma effect_store:
  assumes "effect A g d m m1" "x \<in> A" "0 \<le> i" "i < field_count m x" "pointer_ok v" "stays m1 (g x i)"
  shows "\<exists>m'. storePointer_ofObject_withValue i x v m1 = Some m' \<and>
    effect A (\<lambda>y j. if y = x \<and> j = i then v else g y j) (\<lambda>q. d q + of_bool (q = v) - of_bool (q = g x i)) m m'"
proof -
  note e = assms(1) [unfolded effect_def]
  have f: "field m1 x i = g x i" "i < field_count m1 x" "separated m1 A" using e assms(2-4) by auto
  obtain m' where m': "storePointer_ofObject_withValue i x v m1 = Some m'" "updated A x i v m1 m'"
    using store_updated [OF f(3) assms(2,3) f(2) assms(5)] assms(6) f(1) by auto
  note u = m'(2) [unfolded updated_def f(1)]
  have "at_least m' q (n + (d q + of_bool (q = v) - of_bool (q = g x i)))" if "oop_ok q" "at_least m q n" for q n
  proof -
    have "at_least m1 q (n + d q)" using e that by blast
    then have "at_least m' q (n + d q + of_bool (q = v) - of_bool (q = g x i))" using u that(1) by blast
    then show ?thesis by (simp add: algebra_simps)
  qed
  moreover have "field_count m' y = field_count m y \<and>
      (\<forall>j. 0 \<le> j \<and> j < field_count m y \<longrightarrow> field m' y j = (if y = x \<and> j = i then v else g y j))" if "y \<in> A" for y
    using e u that by simp
  moreover have "128 \<le> count_of m' q" if "oop_ok q" "128 \<le> count_of m q" for q using e u that by blast
  moreover have "separated m' A" using u by simp
  ultimately have "effect A (\<lambda>y j. if y = x \<and> j = i then v else g y j) (\<lambda>q. d q + of_bool (q = v) - of_bool (q = g x i)) m m'"
    unfolding effect_def by (intro conjI ballI allI impI) simp_all
  then show ?thesis using m'(1) by blast
qed

lemma effect_up:
  assumes "separated m A" "oop_ok p"
  shows "\<exists>m'. increaseReferencesTo p m = Some m' \<and> effect A (field m) (\<lambda>q. of_bool (q = p)) m m'"
proof (intro exI conjI)
  have c: "counts_only m (up p m)" using assms(2) by (intro up_down_counts_only) simp
  show "increaseReferencesTo p m = Some (up p m)"
    using assms(2) countUp_view [of p m] by (simp add: increaseReferencesTo_def up_def)
  have fields: "has_fields (up p m) y (field_count m y)" "field_count (up p m) y = field_count m y" "field (up p m) y j = field m y j"
    if "y \<in> A" for y j
    using counts_only_fields [OF c, of y "field_count m y"] that assms(1) has_fieldsD(3) [of "up p m" y "field_count m y"]
    by (simp_all add: separated_def) (simp add: field_count_def)
  have table: "seg_of (up p m) y = seg_of m y" "loc_of (up p m) y = loc_of m y" "hw (up p m) y 0 = hw m y 0" if "y \<in> A" for y
  proof -
    have y: "has_fields m y (field_count m y)" using assms(1) that by (simp add: separated_def)
    show "seg_of (up p m) y = seg_of m y" "loc_of (up p m) y = loc_of m y"
      by (rule counts_onlyD(1,2) [OF c has_fieldsD(1) [OF y]])+
    show "hw (up p m) y 0 = hw m y 0"
      using has_fieldsD(3) [OF y] has_fieldsD(3) [OF fields(1) [OF that]] by (simp only:)
  qed
  have "disjoint_objects (up p m) y z" if "y \<in> A" "z \<in> A" "y \<noteq> z" for y z
  proof -
    have "disjoint_objects m y z" using assms(1) that by (simp add: separated_def)
    then show ?thesis unfolding disjoint_objects_def table [OF that(1)] table [OF that(2)] .
  qed
  then have "separated (up p m) A" using fields assms(1) by (simp add: separated_def)
  moreover have "at_least m q n \<longrightarrow> at_least (up p m) q (n + of_bool (q = p))" "128 \<le> count_of m q \<longrightarrow> 128 \<le> count_of (up p m) q"
    if "oop_ok q" for q n
    using up_down_counts(1) [OF that, of p m] assms(2) by (auto simp: at_least_def)
  ultimately show "effect A (field m) (\<lambda>q. of_bool (q = p)) m (up p m)"
    using fields by (auto simp: effect_def)
qed

end
