(* ===== verification/VmQueueProps.thy ===== *)
theory VmQueueProps
  imports VmQueue
begin

text \<open>
  The lists of processes implement queues: adding a last link and removing the first one, the process lists of the
  scheduler by priority, and the order in which waiting processes leave a list.
\<close>

section \<open>Lists of processes\<close>

fun linked :: "(int \<Rightarrow> int) \<Rightarrow> int list \<Rightarrow> bool" where
  "linked nxt [] \<longleftrightarrow> True" |
  "linked nxt [p] \<longleftrightarrow> nxt p = NilPointer" |
  "linked nxt (p # q # ps) \<longleftrightarrow> nxt p = q \<and> linked nxt (q # ps)"

lemma linked_cong: "(\<And>p. p \<in> set ps \<Longrightarrow> f p = g p) \<Longrightarrow> linked f ps = linked g ps"
  by (induction f ps rule: linked.induct) simp_all

lemma linked_snoc:
  assumes "linked f ps" "ps \<noteq> []" "distinct (ps @ [p])" "f p = NilPointer"
  shows "linked (f(last ps := p)) (ps @ [p])"
  using assms
proof (induction f ps rule: linked.induct)
  case (3 f q r ps)
  then show ?case by (cases ps) (auto simp: fun_upd_def)
qed auto

lemma linked_last: "linked f ps \<Longrightarrow> ps \<noteq> [] \<Longrightarrow> f (last ps) = NilPointer"
  by (induction f ps rule: linked.induct) auto

text \<open>The content of a list object, and the references that it gives its processes.\<close>

definition queue :: "(int \<Rightarrow> int \<Rightarrow> int) \<Rightarrow> int \<Rightarrow> int list \<Rightarrow> bool" where
  "queue g l ps \<longleftrightarrow> g l FirstLinkIndex = (if ps = [] then NilPointer else hd ps) \<and>
     g l LastLinkIndex = (if ps = [] then NilPointer else last ps) \<and> linked (\<lambda>p. g p NextLinkIndex) ps"

text \<open>The lists \<open>L\<close> hold processes of \<open>U\<close>, no process twice; a process that is in no list has no next link, and the list it was put
on last is one of \<open>L\<close>, if any.\<close>

definition process_lists :: "int set \<Rightarrow> int set \<Rightarrow> (int \<Rightarrow> int list) \<Rightarrow> omem \<Rightarrow> bool" where
  "process_lists L U Q m \<longleftrightarrow>
     finite U \<and> L \<inter> U = {} \<and> NilPointer \<notin> L \<union> U \<and> 128 \<le> count_of m NilPointer \<and> separated m (L \<union> U) \<and>
     (\<forall>l\<in>L. 2 \<le> field_count m l \<and> at_least m l (1 + int (card {p \<in> U. field m p MyListIndex = l}))) \<and>
     (\<forall>p\<in>U. 4 \<le> field_count m p \<and> field m p MyListIndex \<in> insert NilPointer L) \<and>
     (\<forall>p\<in>U. (\<forall>l\<in>L. p \<notin> set (Q l)) \<longrightarrow> field m p NextLinkIndex = NilPointer) \<and>
     (\<forall>l\<in>L. queue (field m) l (Q l) \<and> set (Q l) \<subseteq> U \<and> distinct (Q l) \<and>
        (\<forall>p\<in>set (Q l). at_least m p (if p = last (Q l) then 2 else 1)) \<and>
        (\<forall>k\<in>L. k \<noteq> l \<longrightarrow> set (Q l) \<inter> set (Q k) = {}))"

lemma card_put:
  assumes "finite U" "p \<in> U"
  shows "int (card {q \<in> U. (if q = p then l else f q) = v}) =
    int (card {q \<in> U. f q = v}) + of_bool (v = l) - of_bool (v = f p)"
proof -
  let ?W = "U - {p}"
  have U: "U = insert p ?W" "finite ?W" "p \<notin> ?W" using assms by auto
  have "{q \<in> U. (if q = p then l else f q) = v} = (if l = v then insert p {q \<in> ?W. f q = v} else {q \<in> ?W. f q = v})"
    "{q \<in> U. f q = v} = (if f p = v then insert p {q \<in> ?W. f q = v} else {q \<in> ?W. f q = v})"
    using assms(2) by auto
  then show ?thesis using U(2) by auto
qed

lemma process_listsD:
  assumes "process_lists L U Q m"
  shows "separated m (L \<union> U)" "oop_ok NilPointer" "128 \<le> count_of m NilPointer" "NilPointer \<notin> L \<union> U" "finite U"
    "l \<in> L \<Longrightarrow> 2 \<le> field_count m l \<and> pointer_ok l \<and> oop_ok l \<and> l \<notin> U \<and> l \<noteq> NilPointer \<and> has_fields m l (field_count m l)"
    "p \<in> U \<Longrightarrow> 4 \<le> field_count m p \<and> pointer_ok p \<and> oop_ok p \<and> p \<notin> L \<and> p \<noteq> NilPointer \<and> has_fields m p (field_count m p)"
    "stays m NilPointer"
proof -
  have r: "0 < x \<and> x < 65536 \<and> oop_ok x \<and> has_fields m x (field_count m x)" if "x \<in> L \<union> U" for x
    using assms that has_fieldsD(1) [of m x "field_count m x"] by (auto simp: process_lists_def separated_def oop_ok_def)
  show "l \<in> L \<Longrightarrow> 2 \<le> field_count m l \<and> pointer_ok l \<and> oop_ok l \<and> l \<notin> U \<and> l \<noteq> NilPointer \<and> has_fields m l (field_count m l)"
    "p \<in> U \<Longrightarrow> 4 \<le> field_count m p \<and> pointer_ok p \<and> oop_ok p \<and> p \<notin> L \<and> p \<noteq> NilPointer \<and> has_fields m p (field_count m p)"
    using assms r by (auto simp: process_lists_def pointer_ok_def)
  show "oop_ok NilPointer" by (simp add: oop_ok_def)
  then show "separated m (L \<union> U)" "128 \<le> count_of m NilPointer" "NilPointer \<notin> L \<union> U" "finite U" "stays m NilPointer"
    using assms by (auto simp: process_lists_def stays_def)
qed

lemma process_lists_queue:
  assumes "process_lists L U Q m" "l \<in> L"
  shows "queue (field m) l (Q l)" "set (Q l) \<subseteq> U" "distinct (Q l)"
    "\<forall>r\<in>set (Q l). at_least m r (if r = last (Q l) then 2 else 1)" "\<forall>k\<in>L. k \<noteq> l \<longrightarrow> set (Q l) \<inter> set (Q k) = {}"
  using assms by (simp_all add: process_lists_def)

section \<open>Adding a process\<close>

lemma addLastLink_effect:
  assumes "process_lists L U Q (memory s)" "l \<in> L" "p \<in> U" "\<forall>k\<in>L. p \<notin> set (Q k)"
  defines "m \<equiv> memory s"
  defines "x \<equiv> if Q l = [] then l else last (Q l)"
  shows "\<exists>m' d. addLastLink_toList p l s = Some (s\<lparr>memory := m'\<rparr>) \<and>
    effect (L \<union> U) (\<lambda>y j. if y = p \<and> j = MyListIndex then l else if y = l \<and> j = LastLinkIndex then p
                       else if y = x \<and> j = NextLinkIndex then p else field m y j) d m m' \<and>
    (\<forall>q. q \<noteq> NilPointer \<longrightarrow> d q = 2 * of_bool (q = p) + of_bool (q = l) - of_bool (q = field m p MyListIndex) -
               of_bool (Q l \<noteq> [] \<and> q = x))"
proof -
  let ?A = "L \<union> U" and ?o = "field m p MyListIndex"
  note D = process_listsD [OF assms(1), folded m_def]
  note l = D(6) [OF assms(2)] and p = D(7) [OF assms(3)]
  note q = process_lists_queue(1,2,4) [OF assms(1,2), folded m_def]
  have o: "?o = NilPointer \<or> (oop_ok ?o \<and> at_least m ?o 2 \<and> ?o \<notin> U)"
  proof -
    have "?o \<in> insert NilPointer L" using assms(1,3) by (simp add: process_lists_def m_def)
    moreover have "0 < card {r \<in> U. field m r MyListIndex = ?o}" using assms(3) D(5) by (auto simp: card_gt_0_iff)
    moreover have "at_least m ?o (1 + int (card {r \<in> U. field m r MyListIndex = ?o}))" if "?o \<in> L"
      using that assms(1) by (simp add: process_lists_def m_def)
    ultimately show ?thesis using D(6) by (auto simp: at_least_def)
  qed
  have store: "storePointer i x v (s\<lparr>memory := k\<rparr>) = Some (s\<lparr>memory := k'\<rparr>)"
    if "storePointer_ofObject_withValue i x v k = Some k'" for i x v k k'
    using that by (simp add: in_memory_def)
  have sm: "s\<lparr>memory := m\<rparr> = s" by (simp add: m_def)
  have empty: "isEmptyList l s = Some (Q l = [])"
  proof -
    have "hd (Q l) \<noteq> NilPointer" if "Q l \<noteq> []" using hd_in_set [OF that] q(2) D(4) by (metis Un_iff subsetD)
    then show ?thesis using field_reads(2) [of m l "field_count m l" 0] l q(1) by (simp add: isEmptyList_def m_def queue_def)
  qed
  let ?last = "if Q l = [] then NilPointer else x"
  have x: "x \<in> ?A" "0 < field_count m x" "field m x 0 = NilPointer" "field m l 1 = ?last"
  proof -
    have "last (Q l) \<in> U" if "Q l \<noteq> []" using that q(2) last_in_set by blast
    then show "x \<in> ?A" "0 < field_count m x" using assms(2) l D(7) by (fastforce simp: x_def)+
    show "field m x 0 = NilPointer" "field m l 1 = ?last"
      using q(1) linked_last [of "\<lambda>p. field m p 0" "Q l"] by (auto simp: queue_def x_def)
  qed
  obtain m1 where m1: "storePointer_ofObject_withValue 0 x p m = Some m1"
      "effect ?A (\<lambda>y j. if y = x \<and> j = 0 then p else field m y j) (\<lambda>q. 0 + of_bool (q = p) - of_bool (q = NilPointer)) m m1"
    using effect_store [OF effect_none [OF D(1)] x(1), of 0 p] x(2,3) p D(8) by auto
  have "stays m1 ?last"
  proof (cases "Q l = []")
    case True
    then show ?thesis using effect_stays [OF m1(2) D(2)] D(3) by simp
  next
    case False
    then have "x \<in> set (Q l)" by (simp add: x_def)
    then have "x \<in> U" "x \<noteq> p" "at_least m x (if x = last (Q l) then 2 else 1)" using q(2,3) assms(2,4) by blast+
    then have "x \<in> U" "x \<noteq> p" "at_least m x 2" using False by (simp_all add: x_def)
    moreover from this have "oop_ok x" "x \<noteq> NilPointer" using D(7) by blast+
    ultimately have "oop_ok x" "at_least m x 2 \<and> 2 \<le> 2 + (0 + of_bool (x = p) - of_bool (x = NilPointer) :: int)" by simp_all
    then have "stays m1 x" using effect_stays [OF m1(2), of x 2] by blast
    then show ?thesis using False by simp
  qed
  then obtain m2 where m2: "storePointer_ofObject_withValue 1 l p m1 = Some m2"
      "effect ?A (\<lambda>y j. if y = l \<and> j = 1 then p else if y = x \<and> j = 0 then p else field m y j)
         (\<lambda>q. 0 + of_bool (q = p) - of_bool (q = NilPointer) + of_bool (q = p) - of_bool (q = ?last)) m m2"
    using effect_store [OF m1(2), of l 1 p] assms(2) l p x(4) by auto
  have "stays m2 ?o"
  proof (cases "?o = NilPointer")
    case True
    then show ?thesis using effect_stays [OF m2(2) D(2)] D(3) by simp
  next
    case False
    moreover have "last (Q l) \<in> U" if "Q l \<noteq> []" using last_in_set [OF that] q(2) by blast
    ultimately have "?o \<noteq> ?last" "?o \<noteq> p" using o assms(3) by (auto simp: x_def)
    then have "2 \<le> 2 + (0 + of_bool (?o = p) - of_bool (?o = NilPointer) + of_bool (?o = p) - of_bool (?o = ?last) :: int)"
      using False by simp
    then show ?thesis using o False effect_stays [OF m2(2), of ?o 2] by blast
  qed
  then obtain m3 where m3: "storePointer_ofObject_withValue 3 p l m2 = Some m3"
      "effect ?A (\<lambda>y j. if y = p \<and> j = 3 then l else if y = l \<and> j = 1 then p else if y = x \<and> j = 0 then p else field m y j)
         (\<lambda>q. 0 + of_bool (q = p) - of_bool (q = NilPointer) + of_bool (q = p) - of_bool (q = ?last) + of_bool (q = l) - of_bool (q = ?o))
         m m3"
    using effect_store [OF m2(2), of p 3 l] assms(3) l p by auto
  have "fetchPointer 1 l s = Some ?last" using field_reads(2) [of m l "field_count m l" 1] l x(4) by (simp add: m_def)
  then have "addLastLink_toList p l s = Some (s\<lparr>memory := m3\<rparr>)"
    using store [OF m1(1)] store [OF m2(1)] store [OF m3(1)] empty
    by (cases "Q l = []") (simp_all add: addLastLink_toList_def sm x_def)
  then show ?thesis using m3(2) by (intro exI conjI) (assumption | simp)+
qed

text \<open>The parts of the invariant that an operation keeps when it changes only links and the list a process was put on.\<close>

lemma process_listsI:
  assumes "process_lists L U Q m" "effect (L \<union> U) g d m m'"
    "\<And>p. p \<in> U \<Longrightarrow> g p MyListIndex \<in> insert NilPointer L"
    "\<And>l. l \<in> L \<Longrightarrow> int (card {p \<in> U. g p MyListIndex = l}) \<le> int (card {p \<in> U. field m p MyListIndex = l}) + d l"
    "\<And>p. p \<in> U \<Longrightarrow> (\<forall>l\<in>L. p \<notin> set (Q' l)) \<Longrightarrow> g p NextLinkIndex = NilPointer"
    "\<And>l. l \<in> L \<Longrightarrow> queue g l (Q' l) \<and> set (Q' l) \<subseteq> U \<and> distinct (Q' l)"
    "\<And>l p. l \<in> L \<Longrightarrow> p \<in> set (Q' l) \<Longrightarrow> \<exists>n. at_least m p n \<and> (if p = last (Q' l) then 2 else 1) \<le> n + d p"
    "\<And>l k. l \<in> L \<Longrightarrow> k \<in> L \<Longrightarrow> k \<noteq> l \<Longrightarrow> set (Q' l) \<inter> set (Q' k) = {}"
  shows "process_lists L U Q' m'"
proof -
  note D = process_listsD [OF assms(1)] and e = assms(2) [unfolded effect_def]
  have mono: "at_least m' q n'" if "oop_ok q" "at_least m q n" "n' \<le> n + d q" for q n n'
    using e that by (fastforce simp: at_least_def)
  have U: "field_count m' p = field_count m p" "field m' p MyListIndex = g p MyListIndex" "field m' p NextLinkIndex = g p NextLinkIndex"
    if "p \<in> U" for p
    using e D(7) [OF that] that by simp_all
  have L: "field_count m' l = field_count m l" "field m' l FirstLinkIndex = g l FirstLinkIndex" "field m' l LastLinkIndex = g l LastLinkIndex"
    if "l \<in> L" for l
    using e D(6) [OF that] that by simp_all
  have "at_least m' l (1 + int (card {p \<in> U. field m' p MyListIndex = l}))" if l: "l \<in> L" for l
  proof (rule mono)
    have "{p \<in> U. field m' p MyListIndex = l} = {p \<in> U. g p MyListIndex = l}" using U(2) by auto
    then show "1 + int (card {p \<in> U. field m' p MyListIndex = l}) \<le> (1 + int (card {p \<in> U. field m p MyListIndex = l})) + d l"
      using assms(4) [OF l] by simp
    show "at_least m l (1 + int (card {p \<in> U. field m p MyListIndex = l}))" using assms(1) l by (simp add: process_lists_def)
    show "oop_ok l" using D(6) [OF l] by simp
  qed
  moreover have "queue (field m') l (Q' l)" if l: "l \<in> L" for l
  proof -
    have "linked (\<lambda>p. field m' p NextLinkIndex) (Q' l) = linked (\<lambda>p. g p NextLinkIndex) (Q' l)"
      using assms(6) [OF l] U(3) by (intro linked_cong) blast
    then show ?thesis using assms(6) [OF l] L(2,3) [OF l] by (simp add: queue_def)
  qed
  moreover have "at_least m' p (if p = last (Q' l) then 2 else 1)" if "l \<in> L" "p \<in> set (Q' l)" for l p
    using assms(6) [OF that(1)] assms(7) [OF that] that(2) D(7) mono by blast
  moreover have "separated m' (L \<union> U)" "128 \<le> count_of m' NilPointer" using e D(2,3) by blast+
  moreover have "L \<inter> U = {}" "NilPointer \<notin> L \<union> U" using D(4,6) by auto
  ultimately show ?thesis
    using D(5-7) U L assms(3,5,6,8) unfolding process_lists_def by simp
qed

lemma addLastLink_enqueues:
  assumes "process_lists L U Q (memory s)" "l \<in> L" "p \<in> U" "\<forall>k\<in>L. p \<notin> set (Q k)"
  shows "\<exists>m'. addLastLink_toList p l s = Some (s\<lparr>memory := m'\<rparr>) \<and> process_lists L U (Q(l := Q l @ [p])) m'"
proof -
  define m x where "m = memory s" "x = (if Q l = [] then l else last (Q l))"
  obtain m' d where e: "addLastLink_toList p l s = Some (s\<lparr>memory := m'\<rparr>)"
      "effect (L \<union> U) (\<lambda>y j. if y = p \<and> j = MyListIndex then l else if y = l \<and> j = LastLinkIndex then p
                       else if y = x \<and> j = NextLinkIndex then p else field m y j) d m m'"
      "\<forall>q. q \<noteq> NilPointer \<longrightarrow> d q = 2 * of_bool (q = p) + of_bool (q = l) - of_bool (q = field m p MyListIndex) -
               of_bool (Q l \<noteq> [] \<and> q = x)"
    using addLastLink_effect [OF assms] unfolding m_x_def by blast
  note P = assms(1) [folded m_x_def(1)]
  note D = process_listsD [OF P]
  have o: "field m p MyListIndex \<in> insert NilPointer L" using P assms(3) by (simp add: process_lists_def)
  have q: "queue (field m) k (Q k) \<and> set (Q k) \<subseteq> U \<and> distinct (Q k) \<and>
        (\<forall>r\<in>set (Q k). at_least m r (if r = last (Q k) then 2 else 1)) \<and> (\<forall>j\<in>L. j \<noteq> k \<longrightarrow> set (Q k) \<inter> set (Q j) = {})"
    if "k \<in> L" for k
    using process_lists_queue [OF P that] by blast
  have xu: "x \<in> set (Q l)" "x \<in> U" "x \<noteq> p" if "Q l \<noteq> []"
    using that q [OF assms(2)] assms(2,4) last_in_set by (auto simp: m_x_def)
  define g where "g = (\<lambda>y j. if y = p \<and> j = MyListIndex then l else if y = l \<and> j = LastLinkIndex then p
    else if y = x \<and> j = NextLinkIndex then p else field m y j)"
  let ?Q = "Q(l := Q l @ [p])"
  note l = D(6) [OF assms(2)] and p = D(7) [OF assms(3)]
  have g: "g r MyListIndex = (if r = p then l else field m r MyListIndex)" "g l LastLinkIndex = p"
    "k \<noteq> l \<Longrightarrow> k \<in> L \<Longrightarrow> g k LastLinkIndex = field m k LastLinkIndex"
    "g r NextLinkIndex = (if r = x then p else field m r NextLinkIndex)" for r k
    using assms(3) l D(6) by (auto simp: g_def)
  have other: "r \<noteq> p \<and> r \<noteq> l \<and> r \<noteq> x \<and> r \<noteq> NilPointer \<and> r \<noteq> field m p MyListIndex" if "k \<in> L" "k \<noteq> l" "r \<in> set (Q k)" for k r
  proof -
    have "r \<in> U" "r \<notin> set (Q l)" "r \<noteq> p" using q [OF that(1)] assms(2,4) that by auto
    then show ?thesis using D(7) o l xu(1) by (cases "Q l = []") (auto simp: m_x_def)
  qed
  have "process_lists L U ?Q m'"
  proof (rule process_listsI [OF P e(2) [folded g_def]])
    show "g r MyListIndex \<in> insert NilPointer L" if "r \<in> U" for r
      using that P assms(2) by (simp add: process_lists_def g(1))
    show "int (card {r \<in> U. g r MyListIndex = k}) \<le> int (card {r \<in> U. field m r MyListIndex = k}) + d k" if k: "k \<in> L" for k
    proof -
      have "k \<noteq> NilPointer" "k \<noteq> p" "\<not> (Q l \<noteq> [] \<and> k = x)" using D(6) [OF k] assms(3) xu(2) by auto
      then show ?thesis unfolding g(1) card_put [OF D(5) assms(3)] using e(3) by (simp only: not_False_eq_True simp_thms of_bool_eq)
    qed
    show "g r NextLinkIndex = NilPointer" if "r \<in> U" "\<forall>k\<in>L. r \<notin> set (?Q k)" for r
    proof -
      have n: "\<forall>k\<in>L. r \<notin> set (Q k)" using that(2) by (auto split: if_splits)
      then have "r \<noteq> x" using that(1) xu(1) assms(2) l by (cases "Q l = []") (auto simp: m_x_def)
      then show ?thesis using P that(1) n by (simp add: process_lists_def g(4))
    qed
    show "queue g k (?Q k) \<and> set (?Q k) \<subseteq> U \<and> distinct (?Q k)" if k: "k \<in> L" for k
    proof (cases "k = l")
      case False
      then have "linked (\<lambda>p. g p NextLinkIndex) (Q k) = linked (\<lambda>p. field m p NextLinkIndex) (Q k)"
        using other [OF k] by (intro linked_cong) (simp add: g(4))
      moreover have "k \<noteq> x" using False k xu(2) D(6) by (auto simp: m_x_def)
      ultimately show ?thesis using False q [OF k] g(3) [OF False k] by (simp add: queue_def g(4))
    next
      case True
      have d: "distinct (Q l @ [p])" using q [OF assms(2)] assms(2,4) by auto
      have n: "field m p NextLinkIndex = NilPointer" using P assms(3,4) by (simp add: process_lists_def)
      have "linked (\<lambda>p. g p NextLinkIndex) (Q l @ [p])"
      proof (cases "Q l = []")
        case True
        then show ?thesis using n l assms(3) by (auto simp: g(4) m_x_def)
      next
        case False
        have "linked ((\<lambda>p. field m p NextLinkIndex)(last (Q l) := p)) (Q l @ [p])"
          using q [OF assms(2)] d n False by (intro linked_snoc) (simp_all add: queue_def)
        then show ?thesis using False by (simp add: g(4) m_x_def(2) fun_upd_def)
      qed
      moreover have "g l FirstLinkIndex = hd (Q l @ [p])"
        using q [OF assms(2)] xu(2) l by (cases "Q l = []") (auto simp: g(4) m_x_def queue_def)
      ultimately show ?thesis using True q [OF assms(2)] d assms(3) g(2) by (simp add: queue_def)
    qed
    show "\<exists>n. at_least m r n \<and> (if r = last (?Q k) then 2 else 1) \<le> n + d r" if k: "k \<in> L" "r \<in> set (?Q k)" for k r
    proof (cases "k = l")
      case False
      then show ?thesis using other [OF k(1) False, of r] q [OF k(1)] k(2) e(3) by (intro exI [of _ "if r = last (Q k) then 2 else 1"]) simp
    next
      case True
      show ?thesis
      proof (cases "r = p")
        case True
        have "at_least m p 0" using entry_bounds [of m p] by (simp add: at_least_def)
        moreover have "d p = 2" using e(3) p assms(3) l o xu(3) by auto
        ultimately show ?thesis using True by (intro exI [of _ 0]) simp
      next
        case False
        then have r: "r \<in> set (Q l)" using True k(2) by simp
        then have "r \<in> U" "at_least m r (if r = x then 2 else 1)" using q [OF assms(2)] by (auto simp: m_x_def)
        then show ?thesis using False True r D(7) e(3) l o by (intro exI [of _ "if r = x then 2 else 1"]) auto
      qed
    qed
    show "set (?Q k) \<inter> set (?Q j) = {}" if "k \<in> L" "j \<in> L" "j \<noteq> k" for k j
      using that q assms(2-4) by auto
  qed
  then show ?thesis using e(1) by blast
qed

section \<open>Removing a process\<close>

lemma removeFirstLink_effect:
  assumes "process_lists L U Q (memory s)" "l \<in> L" "Q l = p # ps"
  defines "m \<equiv> memory s"
  shows "\<exists>m' d. removeFirstLinkOfList l s = Some (p, s\<lparr>memory := m'\<rparr>) \<and>
    effect (L \<union> U) (\<lambda>y j. if y = p \<and> j = NextLinkIndex then NilPointer
                       else if ps = [] \<and> y = l \<and> j = LastLinkIndex then NilPointer
                       else if y = l \<and> j = FirstLinkIndex then (if ps = [] then NilPointer else hd ps) else field m y j) d m m' \<and>
    (\<forall>q. q \<noteq> NilPointer \<longrightarrow> d q = - of_bool (ps = [] \<and> q = p))"
proof -
  let ?A = "L \<union> U"
  note D = process_listsD [OF assms(1), folded m_def]
  note q = process_lists_queue [OF assms(1,2), folded m_def, unfolded assms(3)]
  note l = D(6) [OF assms(2)]
  have pU: "p \<in> U" using q(2) by simp
  note p = D(7) [OF pU]
  have pl: "p \<noteq> l" using l pU by blast
  have store: "storePointer i x v (s\<lparr>memory := k\<rparr>) = Some (s\<lparr>memory := k'\<rparr>)"
    if "storePointer_ofObject_withValue i x v k = Some k'" for i x v k k'
    using that by (simp add: in_memory_def)
  have nil: "pointer_ok NilPointer" using D(2) by (simp add: pointer_ok_def)
  have f: "field m l 0 = p" "field m l 1 = last (p # ps)" "field m p 0 = (if ps = [] then NilPointer else hd ps)"
    using q(1) by (cases ps; simp add: queue_def)+
  have "increaseReferencesTo p (memory s) = increaseReferencesTo p m" by (simp add: m_def)
  then obtain m1 where m1: "in_memory (increaseReferencesTo p) s = Some (s\<lparr>memory := m1\<rparr>)"
      "effect ?A (field m) (\<lambda>q. of_bool (q = p)) m m1"
    using effect_up [OF D(1), of p] p by (auto simp: in_memory_def)
  have st1: "stays m1 p" using effect_stays [OF m1(2), of p 1] p q(4) by (auto simp: at_least_def split: if_splits)
  have reads: "fetchPointer 0 l s = Some p" "fetchPointer 1 l (s\<lparr>memory := m1\<rparr>) = Some (last (p # ps))"
      "fetchPointer 0 p (s\<lparr>memory := m1\<rparr>) = Some (if ps = [] then NilPointer else hd ps)"
  proof -
    have "field m1 l 1 = field m l 1" "field m1 p 0 = field m p 0" "has_fields m1 l (field_count m1 l)" "has_fields m1 p (field_count m1 p)"
        "field_count m1 l = field_count m l" "field_count m1 p = field_count m p"
      using m1(2) l p assms(2) pU by (auto simp: effect_def separated_def)
    then show "fetchPointer 0 l s = Some p" "fetchPointer 1 l (s\<lparr>memory := m1\<rparr>) = Some (last (p # ps))"
        "fetchPointer 0 p (s\<lparr>memory := m1\<rparr>) = Some (if ps = [] then NilPointer else hd ps)"
      using field_reads(2) [of m l "field_count m l" 0] field_reads(2) [of m1 l "field_count m1 l" 1]
        field_reads(2) [of m1 p "field_count m1 p" 0] f l p by (simp_all add: m_def)
  qed
  show ?thesis
  proof (cases "ps = []")
    case True
    have c: "at_least m p 2" using q(4) True by simp
    obtain m2 where m2: "storePointer_ofObject_withValue 0 l NilPointer m1 = Some m2"
        "effect ?A (\<lambda>y j. if y = l \<and> j = 0 then NilPointer else field m y j)
           (\<lambda>q. of_bool (q = p) + of_bool (q = NilPointer) - of_bool (q = p)) m m2"
      using effect_store [OF m1(2), of l 0 NilPointer] assms(2) l nil f(1) st1 by auto
    have "stays m2 p" using effect_stays [OF m2(2), of p 2] c p by simp
    then obtain m3 where m3: "storePointer_ofObject_withValue 1 l NilPointer m2 = Some m3"
        "effect ?A (\<lambda>y j. if y = l \<and> j = 1 then NilPointer else if y = l \<and> j = 0 then NilPointer else field m y j)
           (\<lambda>q. of_bool (q = p) + of_bool (q = NilPointer) - of_bool (q = p) + of_bool (q = NilPointer) - of_bool (q = p)) m m3"
      using effect_store [OF m2(2), of l 1 NilPointer] assms(2) l nil f(2) True by auto
    have "stays m3 NilPointer" using effect_stays [OF m3(2) D(2)] D(3) by simp
    then obtain m4 where m4: "storePointer_ofObject_withValue 0 p NilPointer m3 = Some m4"
        "effect ?A (\<lambda>y j. if y = p \<and> j = 0 then NilPointer else if y = l \<and> j = 1 then NilPointer
             else if y = l \<and> j = 0 then NilPointer else field m y j)
           (\<lambda>q. of_bool (q = p) + of_bool (q = NilPointer) - of_bool (q = p) + of_bool (q = NilPointer) - of_bool (q = p) +
             of_bool (q = NilPointer) - of_bool (q = NilPointer)) m m4"
      using effect_store [OF m3(2), of p 0 NilPointer] pU p nil f(3) True pl by auto
    have calc: "removeFirstLinkOfList l s = Some (p, s\<lparr>memory := m4\<rparr>)"
      using reads(1,2) m1(1) store [OF m2(1)] store [OF m3(1)] store [OF m4(1)] True by (simp add: removeFirstLinkOfList_def)
    have e: "(\<lambda>y j. if y = p \<and> j = 0 then NilPointer else if ps = [] \<and> y = l \<and> j = 1 then NilPointer
         else if y = l \<and> j = 0 then (if ps = [] then NilPointer else hd ps) else field m y j) =
        (\<lambda>y j. if y = p \<and> j = 0 then NilPointer else if y = l \<and> j = 1 then NilPointer
         else if y = l \<and> j = 0 then NilPointer else field m y j)"
      using True by (simp add: fun_eq_iff)
    from m4(2) [folded e] show ?thesis using calc True by (intro exI conjI) (assumption | simp)+
  next
    case False
    define r where "r = hd ps"
    have r: "r \<in> U" "r \<noteq> p" "last ps \<noteq> p" "at_least m r 1"
    proof -
      have i: "r \<in> set ps" "last ps \<in> set ps" using False by (simp_all add: r_def)
      then show "r \<in> U" "r \<noteq> p" "last ps \<noteq> p" using q(2,3) by auto
      have "at_least m r (if r = last (p # ps) then 2 else 1)" using q(4) i(1) by simp
      then show "at_least m r 1" by (auto simp: at_least_def split: if_splits)
    qed
    obtain m2 where m2: "storePointer_ofObject_withValue 0 l r m1 = Some m2"
        "effect ?A (\<lambda>y j. if y = l \<and> j = 0 then r else field m y j) (\<lambda>q. of_bool (q = p) + of_bool (q = r) - of_bool (q = p)) m m2"
      using effect_store [OF m1(2), of l 0 r] assms(2) l D(7) [OF r(1)] f(1) st1 by auto
    have "stays m2 r" using effect_stays [OF m2(2), of r 1] r D(7) [OF r(1)] by simp
    then obtain m3 where m3: "storePointer_ofObject_withValue 0 p NilPointer m2 = Some m3"
        "effect ?A (\<lambda>y j. if y = p \<and> j = 0 then NilPointer else if y = l \<and> j = 0 then r else field m y j)
           (\<lambda>q. of_bool (q = p) + of_bool (q = r) - of_bool (q = p) + of_bool (q = NilPointer) - of_bool (q = r)) m m3"
      using effect_store [OF m2(2), of p 0 NilPointer] pU p pl nil f(3) False by (auto simp: r_def)
    have calc: "removeFirstLinkOfList l s = Some (p, s\<lparr>memory := m3\<rparr>)"
      using reads m1(1) store [OF m2(1)] store [OF m3(1)] False r(3) by (simp add: removeFirstLinkOfList_def r_def)
    have e: "(\<lambda>y j. if y = p \<and> j = 0 then NilPointer else if ps = [] \<and> y = l \<and> j = 1 then NilPointer
         else if y = l \<and> j = 0 then (if ps = [] then NilPointer else hd ps) else field m y j) =
        (\<lambda>y j. if y = p \<and> j = 0 then NilPointer else if y = l \<and> j = 0 then r else field m y j)"
      using False by (simp add: fun_eq_iff r_def)
    from m3(2) [folded e] show ?thesis using calc False by (intro exI conjI) (assumption | simp)+
  qed
qed

lemma removeFirstLink_dequeues:
  assumes "process_lists L U Q (memory s)" "l \<in> L" "Q l = p # ps"
  shows "\<exists>m'. removeFirstLinkOfList l s = Some (p, s\<lparr>memory := m'\<rparr>) \<and> process_lists L U (Q(l := ps)) m'"
proof -
  define m where "m = memory s"
  define g where "g = (\<lambda>y j. if y = p \<and> j = NextLinkIndex then NilPointer else if ps = [] \<and> y = l \<and> j = LastLinkIndex then NilPointer
    else if y = l \<and> j = FirstLinkIndex then (if ps = [] then NilPointer else hd ps) else field m y j)"
  obtain m' d where e: "removeFirstLinkOfList l s = Some (p, s\<lparr>memory := m'\<rparr>)" "effect (L \<union> U) g d m m'"
      "\<forall>q. q \<noteq> NilPointer \<longrightarrow> d q = - of_bool (ps = [] \<and> q = p)"
    using removeFirstLink_effect [OF assms] unfolding m_def g_def by blast
  let ?Q = "Q(l := ps)"
  note P = assms(1) [folded m_def]
  note D = process_listsD [OF P] and q = process_lists_queue [OF P]
  note ql = q [OF assms(2), unfolded assms(3)]
  note l = D(6) [OF assms(2)]
  have pU: "p \<in> U" using ql(2) by simp
  have g: "r \<noteq> l \<Longrightarrow> g r MyListIndex = field m r MyListIndex" "r \<in> U \<Longrightarrow> g r NextLinkIndex = (if r = p then NilPointer else field m r NextLinkIndex)"
    "k \<in> L \<Longrightarrow> k \<noteq> l \<Longrightarrow> g k j = field m k j" "g l FirstLinkIndex = (if ps = [] then NilPointer else hd ps)"
    "g l LastLinkIndex = (if ps = [] then NilPointer else field m l LastLinkIndex)" for r k j
    using l pU D(7) [OF pU] by (auto simp: g_def)
  have "process_lists L U ?Q m'"
  proof (rule process_listsI [OF P e(2)])
    show my: "g r MyListIndex \<in> insert NilPointer L" if "r \<in> U" for r
    proof -
      have "r \<noteq> l" using that l by blast
      then show ?thesis using that P by (simp add: process_lists_def g(1))
    qed
    show "int (card {r \<in> U. g r MyListIndex = k}) \<le> int (card {r \<in> U. field m r MyListIndex = k}) + d k" if k: "k \<in> L" for k
    proof -
      have "g r MyListIndex = field m r MyListIndex" if "r \<in> U" for r using that l by (intro g(1)) blast
      then have "{r \<in> U. g r MyListIndex = k} = {r \<in> U. field m r MyListIndex = k}" by auto
      moreover have "k \<noteq> p" "k \<noteq> NilPointer" using D(6) [OF k] pU by auto
      ultimately show ?thesis using e(3) by simp
    qed
    show "g r NextLinkIndex = NilPointer" if "r \<in> U" "\<forall>k\<in>L. r \<notin> set (?Q k)" for r
    proof (cases "r = p")
      case False
      have "r \<notin> set (Q k)" if "k \<in> L" for k
        using \<open>\<forall>k\<in>L. r \<notin> set (?Q k)\<close> that False assms(3) by (cases "k = l") (simp_all add: bspec [where x = k], force+)
      then show ?thesis using that(1) P False by (simp add: g(2) process_lists_def)
    qed (simp add: g(2) pU)
    show "queue g k (?Q k) \<and> set (?Q k) \<subseteq> U \<and> distinct (?Q k)" if k: "k \<in> L" for k
    proof (cases "k = l")
      case False
      have "r \<noteq> p" if "r \<in> set (Q k)" for r using that ql(5) k False by auto
      then have "linked (\<lambda>r. g r NextLinkIndex) (Q k) = linked (\<lambda>r. field m r NextLinkIndex) (Q k)"
        using q(2) [OF k] by (intro linked_cong) (auto simp: g(2))
      then show ?thesis using False q(1-3) [OF k] g(3) [OF k False] by (simp add: queue_def)
    next
      case True
      have "linked (\<lambda>r. field m r NextLinkIndex) ps" using ql(1) by (cases ps) (simp_all add: queue_def)
      then have "linked (\<lambda>r. g r NextLinkIndex) ps"
        using ql(2,3) by (subst linked_cong [where g = "\<lambda>r. field m r NextLinkIndex"]) (auto simp: g(2))
      then show ?thesis using True ql(1-3) g(4,5) by (simp add: queue_def)
    qed
    show "\<exists>n. at_least m r n \<and> (if r = last (?Q k) then 2 else 1) \<le> n + d r" if k: "k \<in> L" "r \<in> set (?Q k)" for k r
    proof -
      have r: "r \<in> set (Q k)" "r \<noteq> p" "ps \<noteq> [] \<or> k \<noteq> l" using k ql(3,5) assms(3) by (auto split: if_splits)
      have "r \<in> U" using r(1) q(2) [OF k(1)] by blast
      then have "d r = 0" using e(3) r(2) D(7) by simp
      moreover have "last (Q k) = last (?Q k)" using r(3) assms(3) by simp
      ultimately show ?thesis using q(4) [OF k(1)] r(1) by (intro exI [of _ "if r = last (Q k) then 2 else 1"]) simp
    qed
    show "set (?Q k) \<inter> set (?Q j) = {}" if "k \<in> L" "j \<in> L" "j \<noteq> k" for k j
      using q(5) [OF that(1)] q(5) [OF that(2)] ql(5) that by auto
  qed
  then show ?thesis using e(1) by blast
qed

end
