(* ===== verification/VmScheduler.thy ===== *)
theory VmScheduler
  imports VmQueueProps
begin

text \<open>
  The scheduler over its process lists: lists as first-in-first-out queues behind an interface, the next process to
  run, and a machine for the examples.
\<close>

section \<open>Lists of queues\<close>

text \<open>Several items one after the other.\<close>

primrec enter_all :: "('p \<Rightarrow> 's \<Rightarrow> 's option) \<Rightarrow> 'p list \<Rightarrow> 's \<Rightarrow> 's option" where
  "enter_all f [] s = Some s" |
  "enter_all f (p # ps) s = do { s \<leftarrow> f p s; enter_all f ps s }"

primrec leave_all :: "('s \<Rightarrow> ('p \<times> 's) option) \<Rightarrow> nat \<Rightarrow> 's \<Rightarrow> ('p list \<times> 's) option" where
  "leave_all f 0 s = Some ([], s)" |
  "leave_all f (Suc n) s = do { (p, s) \<leftarrow> f s; (ps, s) \<leftarrow> leave_all f n s; Some (p # ps, s) }"

text \<open>Lists that items enter at the end and leave at the front; an item is in at most one list.\<close>

locale queue_lists =
  fixes enq :: "'p \<Rightarrow> 'l \<Rightarrow> 's \<Rightarrow> 's option"
    and deq :: "'l \<Rightarrow> 's \<Rightarrow> ('p \<times> 's) option"
    and content :: "'s \<Rightarrow> ('l \<Rightarrow> 'p list) \<Rightarrow> bool"
    and is_list :: "'l \<Rightarrow> bool"
    and is_item :: "'p \<Rightarrow> bool"
  assumes enq_law: "content s Q \<Longrightarrow> is_list l \<Longrightarrow> is_item p \<Longrightarrow> \<forall>k. is_list k \<longrightarrow> p \<notin> set (Q k) \<Longrightarrow>
      \<exists>s'. enq p l s = Some s' \<and> content s' (Q(l := Q l @ [p]))"
    and deq_law: "content s Q \<Longrightarrow> is_list l \<Longrightarrow> Q l = p # ps \<Longrightarrow> \<exists>s'. deq l s = Some (p, s') \<and> content s' (Q(l := ps))"
begin

lemma enter_law:
  assumes "content s Q" "is_list l" "\<forall>p\<in>set ps. is_item p \<and> (\<forall>k. is_list k \<longrightarrow> p \<notin> set (Q k))" "distinct ps"
  shows "\<exists>s'. enter_all (\<lambda>p. enq p l) ps s = Some s' \<and> content s' (Q(l := Q l @ ps))"
  using assms
proof (induction ps arbitrary: s Q)
  case (Cons p ps)
  obtain s1 where s1: "enq p l s = Some s1" "content s1 (Q(l := Q l @ [p]))"
    using enq_law [OF Cons.prems(1,2), of p] Cons.prems(3) by auto
  have "\<forall>r\<in>set ps. is_item r \<and> (\<forall>k. is_list k \<longrightarrow> r \<notin> set ((Q(l := Q l @ [p])) k))"
    using Cons.prems(2-4) by auto
  moreover have "(Q(l := Q l @ [p]))(l := (Q(l := Q l @ [p])) l @ ps) = Q(l := Q l @ p # ps)" by simp
  ultimately have "\<exists>s'. enter_all (\<lambda>p. enq p l) ps s1 = Some s' \<and> content s' (Q(l := Q l @ p # ps))"
    using Cons.IH [OF s1(2) Cons.prems(2)] Cons.prems(4) by (metis distinct.simps(2))
  then show ?case using s1(1) by (simp del: fun_upd_apply)
qed simp

lemma leave_law:
  assumes "content s Q" "is_list l" "Q l = ps @ rest"
  shows "\<exists>s'. leave_all (deq l) (length ps) s = Some (ps, s') \<and> content s' (Q(l := rest))"
  using assms
proof (induction ps arbitrary: s Q)
  case Nil
  then show ?case by (simp add: fun_upd_idem)
next
  case (Cons p ps)
  obtain s1 where s1: "deq l s = Some (p, s1)" "content s1 (Q(l := ps @ rest))"
    using deq_law [OF Cons.prems(1,2)] Cons.prems(3) by auto
  then show ?case using Cons.IH [OF s1(2) Cons.prems(2)] by (fastforce simp del: fun_upd_apply simp: fun_upd_same)
qed

text \<open>What entered first leaves first.\<close>

lemma first_in_first_out:
  assumes "content s Q" "is_list l" "\<forall>p\<in>set ps. is_item p \<and> (\<forall>k. is_list k \<longrightarrow> p \<notin> set (Q k))" "distinct ps"
  shows "\<exists>s1 s2. enter_all (\<lambda>p. enq p l) ps s = Some s1 \<and> leave_all (deq l) (length (Q l) + length ps) s1 = Some (Q l @ ps, s2) \<and> content s2 (Q(l := []))"
proof -
  obtain s1 where s1: "enter_all (\<lambda>p. enq p l) ps s = Some s1" "content s1 (Q(l := Q l @ ps))"
    using enter_law [OF assms] by blast
  then show ?thesis using leave_law [OF s1(2) assms(2), of "Q l @ ps" "[]"] by simp
qed

end

interpretation waiting: queue_lists addLastLink_toList removeFirstLinkOfList "\<lambda>s Q. process_lists L U Q (memory s)"
    "\<lambda>l. l \<in> L" "\<lambda>p. p \<in> U" for L U
proof
  show "\<exists>s'. addLastLink_toList p l s = Some s' \<and> process_lists L U (Q(l := Q l @ [p])) (memory s')"
    if "process_lists L U Q (memory s)" "l \<in> L" "p \<in> U" "\<forall>k. k \<in> L \<longrightarrow> p \<notin> set (Q k)" for s :: "'b interp" and Q l p
    using addLastLink_enqueues [OF that(1-3)] that(4) by auto
  show "\<exists>s'. removeFirstLinkOfList l s = Some (p, s') \<and> process_lists L U (Q(l := ps)) (memory s')"
    if "process_lists L U Q (memory s)" "l \<in> L" "Q l = p # ps" for s :: "'b interp" and Q l p ps
    using removeFirstLink_dequeues [OF that] by auto
qed

section \<open>The counts\<close>

lemma memory_update_inject: "s\<lparr>memory := a\<rparr> = s\<lparr>memory := b\<rparr> \<longleftrightarrow> a = b"
  by (auto dest: arg_cong [where f = memory])

lemma effect_counts:
  "effect A g d m m' \<Longrightarrow> oop_ok q \<Longrightarrow> at_least m q n \<Longrightarrow> at_least m' q (n + d q)"
  "effect A g d m m' \<Longrightarrow> oop_ok q \<Longrightarrow> 128 \<le> count_of m q \<Longrightarrow> 128 \<le> count_of m' q"
  by (simp_all add: effect_def)

lemma at_least_positive: "at_least m q n \<Longrightarrow> 0 < n \<Longrightarrow> 0 < count_of m q"
  by (auto simp: at_least_def)

text \<open>What an added process changes in the counts: two references to it, one to its list, and one less to the list it was on
last and to the process that was the last one.\<close>

definition enqueue_refs :: "(int \<Rightarrow> int list) \<Rightarrow> int \<Rightarrow> int \<Rightarrow> int \<Rightarrow> int \<Rightarrow> int" where
  "enqueue_refs Q l p old q =
     2 * of_bool (q = p) + of_bool (q = l) - of_bool (q = old) - of_bool (Q l \<noteq> [] \<and> q = last (Q l))"

lemma addLastLink_counts:
  assumes "process_lists L U Q (memory s)" "l \<in> L" "p \<in> U" "\<forall>k\<in>L. p \<notin> set (Q k)"
    and "addLastLink_toList p l s = Some (s\<lparr>memory := m'\<rparr>)" "oop_ok q"
  shows "q \<noteq> NilPointer \<Longrightarrow> at_least (memory s) q n \<Longrightarrow>
      at_least m' q (n + enqueue_refs Q l p (field (memory s) p MyListIndex) q)"
    and "0 < count_of (memory s) q \<Longrightarrow> 0 < count_of m' q"
proof -
  define old where "old = field (memory s) p MyListIndex"
  obtain m2 g d where e: "addLastLink_toList p l s = Some (s\<lparr>memory := m2\<rparr>)" "effect (L \<union> U) g d (memory s) m2"
      "\<forall>q. q \<noteq> NilPointer \<longrightarrow> d q = 2 * of_bool (q = p) + of_bool (q = l) - of_bool (q = old) -
         of_bool (Q l \<noteq> [] \<and> q = (if Q l = [] then l else last (Q l)))"
    using addLastLink_effect [OF assms(1-4)] unfolding old_def by blast
  have m2: "m2 = m'" using e(1) assms(5) by (simp add: memory_update_inject)
  note d = effect_counts [OF e(2) [unfolded m2] assms(6)]
  have dq: "q \<noteq> NilPointer \<Longrightarrow> d q = enqueue_refs Q l p old q" using e(3) by (simp add: enqueue_refs_def)
  show refs: "q \<noteq> NilPointer \<Longrightarrow> at_least (memory s) q n \<Longrightarrow> at_least m' q (n + enqueue_refs Q l p old q)" for n
    using d(1) dq by metis
  note D = process_listsD [OF assms(1)] and ql = process_lists_queue [OF assms(1,2)]
  have "old \<in> insert NilPointer L" using assms(1,3) by (simp add: process_lists_def old_def)
  moreover have "0 < card {r \<in> U. field (memory s) r MyListIndex = old}"
    using assms(3) D(5) by (auto simp: card_gt_0_iff old_def)
  moreover have "at_least (memory s) old (1 + int (card {r \<in> U. field (memory s) r MyListIndex = old}))" if "old \<in> L"
    using that assms(1) by (simp add: process_lists_def)
  ultimately have o: "at_least (memory s) old 2" if "old \<noteq> NilPointer" using that by (auto simp: at_least_def)
  have x: "at_least (memory s) (last (Q l)) 2" "last (Q l) \<in> U" if "Q l \<noteq> []"
    using last_in_set [OF that] ql(2) bspec [OF ql(4), of "last (Q l)"] by auto
  show "0 < count_of m' q" if q: "0 < count_of (memory s) q"
  proof (cases "q = NilPointer")
    case False
    have one: "at_least (memory s) q 1" using q by (simp add: at_least_def)
    have two: "at_least (memory s) q 2" if "q = old \<or> Q l \<noteq> [] \<and> q = last (Q l)" using that o x(1) False by auto
    have n: "\<not> (q = old \<and> Q l \<noteq> [] \<and> q = last (Q l))"
      using \<open>old \<in> insert NilPointer L\<close> x(2) False D(6) by auto
    show ?thesis
    proof (cases "q = old \<or> Q l \<noteq> [] \<and> q = last (Q l)")
      case True
      have "0 < 2 + enqueue_refs Q l p old q" using n by (cases "q = old") (auto simp: enqueue_refs_def)
      then show ?thesis using at_least_positive [OF refs [OF False two [OF True]]] by simp
    next
      case other: False
      then have "0 < 1 + enqueue_refs Q l p old q" by (auto simp: enqueue_refs_def of_bool_def)
      then show ?thesis using at_least_positive [OF refs [OF False one]] by simp
    qed
  qed (use d(2) D(3) in simp)
qed

lemma removeFirstLink_counts:
  assumes "process_lists L U Q (memory s)" "l \<in> L" "Q l = p # ps"
    and "removeFirstLinkOfList l s = Some (p, s\<lparr>memory := m'\<rparr>)" "oop_ok q"
  shows "q \<noteq> NilPointer \<Longrightarrow> at_least (memory s) q n \<Longrightarrow> at_least m' q (n - of_bool (ps = [] \<and> q = p))"
    and "0 < count_of (memory s) q \<Longrightarrow> 0 < count_of m' q" "0 < count_of m' p"
proof -
  obtain m2 g d where e: "removeFirstLinkOfList l s = Some (p, s\<lparr>memory := m2\<rparr>)" "effect (L \<union> U) g d (memory s) m2"
      "\<forall>q. q \<noteq> NilPointer \<longrightarrow> d q = - of_bool (ps = [] \<and> q = p)"
    using removeFirstLink_effect [OF assms(1-3)] by blast
  have m2: "m2 = m'" using e(1) assms(4) by (simp add: memory_update_inject)
  note d = effect_counts [OF e(2) [unfolded m2]]
  have refs: "oop_ok q \<Longrightarrow> q \<noteq> NilPointer \<Longrightarrow> at_least (memory s) q n \<Longrightarrow> at_least m' q (n - of_bool (ps = [] \<and> q = p))" for q n
    using d(1) [of q n] e(3) by simp
  then show "q \<noteq> NilPointer \<Longrightarrow> at_least (memory s) q n \<Longrightarrow> at_least m' q (n - of_bool (ps = [] \<and> q = p))" using assms(5) by blast
  note D = process_listsD [OF assms(1)] and ql = process_lists_queue [OF assms(1,2), unfolded assms(3)]
  have p: "at_least (memory s) p (if ps = [] then 2 else 1)" "oop_ok p" "p \<noteq> NilPointer"
    using ql(2,4) D(7) by (auto simp: at_least_def split: if_splits)
  show p1: "0 < count_of m' p" using at_least_positive [OF refs [OF p(2,3,1)]] by simp
  show "0 < count_of m' q" if q: "0 < count_of (memory s) q"
  proof (cases "q = NilPointer \<or> q = p")
    case False
    then show ?thesis using at_least_positive [OF refs [OF assms(5), of 1]] q by (simp add: at_least_def)
  qed (use d(2) [OF assms(5)] D(3) p1 in auto)
qed

section \<open>The next process\<close>

lemma isEmptyList_view:
  assumes "process_lists L U Q (memory s)" "l \<in> L"
  shows "isEmptyList l s = Some (Q l = [])"
proof -
  note D = process_listsD [OF assms(1)] and q = process_lists_queue [OF assms]
  note l = D(6) [OF assms(2)]
  have "hd (Q l) \<noteq> NilPointer" if "Q l \<noteq> []" using hd_in_set [OF that] q(2) D(4) by (metis Un_iff subsetD)
  then show ?thesis
    using field_reads(2) [of "memory s" l "field_count (memory s) l" 0] l q(1) by (simp add: isEmptyList_def queue_def)
qed

lemma wake_loop_view:
  assumes "process_lists L U Q (memory s)" "has_fields (memory s) ls n" "\<forall>i. 0 \<le> i \<and> i < n \<longrightarrow> field (memory s) ls i \<in> L"
    "int k \<le> n"
  shows "(\<forall>i<k. Q (field (memory s) ls (int i)) = []) \<Longrightarrow> wake_loop (int k) ls s = None"
    "i < k \<Longrightarrow> Q (field (memory s) ls (int i)) \<noteq> [] \<Longrightarrow> (\<forall>j<k. i < j \<longrightarrow> Q (field (memory s) ls (int j)) = []) \<Longrightarrow>
      wake_loop (int k) ls s = Some (field (memory s) ls (int i))"
  using assms(4)
proof (induction k)
  case 0
  {
    case 1
    then show ?case by (subst wake_loop.simps) simp
  next
    case 2
    then show ?case by simp
  }
next
  case (Suc k)
  let ?l = "\<lambda>i. field (memory s) ls (int i)"
  have step: "wake_loop (int (Suc k)) ls s = (if Q (?l k) = [] then wake_loop (int k) ls s else Some (?l k))" if "int (Suc k) \<le> n"
  proof -
    have "?l k \<in> L" "fetchPointer (int (Suc k) - 1) ls s = Some (?l k)"
      using that assms(3) field_reads(2) [OF assms(2), of "int k"] by simp_all
    then show ?thesis using isEmptyList_view [OF assms(1)] by (subst wake_loop.simps) simp
  qed
  {
    case 1
    then show ?case using Suc.IH(1) step by (simp del: of_nat_Suc)
  next
    case 2
    then show ?case using Suc.IH(2) step by (cases "i = k") (simp_all del: of_nat_Suc)
  }
qed

text \<open>The scheduler object \<open>sp\<close> has the array \<open>ls\<close> of \<open>n\<close> lists, one for each priority.\<close>

definition scheduler_ok :: "int set \<Rightarrow> int \<Rightarrow> int \<Rightarrow> 'w interp \<Rightarrow> bool" where
  "scheduler_ok L ls n s \<longleftrightarrow>
     (\<exists>k. 1 < k \<and> has_fields (memory s) SchedulerAssociationPointer k) \<and>
     (let sp = field (memory s) SchedulerAssociationPointer ValueIndex
      in (\<exists>k. 0 < k \<and> has_fields (memory s) sp k) \<and> field (memory s) sp ProcessListsIndex = ls) \<and>
     has_fields (memory s) ls n \<and> (\<forall>i. 0 \<le> i \<and> i < n \<longrightarrow> field (memory s) ls i \<in> L)"

lemma wake_start:
  assumes "scheduler_ok L ls n s"
  shows "wakeHighestPriority s = do { l \<leftarrow> wake_loop n ls s; removeFirstLinkOfList l s }"
proof -
  obtain k j where k: "1 < k" "has_fields (memory s) SchedulerAssociationPointer k" "0 < j"
      "has_fields (memory s) (field (memory s) SchedulerAssociationPointer ValueIndex) j"
    using assms by (auto simp: scheduler_ok_def Let_def)
  have "schedulerPointer s = Some (field (memory s) SchedulerAssociationPointer ValueIndex)"
    using field_reads(2) [OF k(2), of 1] k(1) by (simp add: schedulerPointer_def)
  moreover have "has_fields (memory s) ls n" "field (memory s) (field (memory s) SchedulerAssociationPointer ValueIndex) 0 = ls"
    using assms by (simp_all add: scheduler_ok_def Let_def)
  ultimately show ?thesis
    using field_reads(2) [OF k(4), of 0] k(3) field_reads(1) [of "memory s" ls n] by (simp add: wakeHighestPriority_def)
qed

section \<open>An example\<close>

text \<open>A scheduler with the one list 100, which holds \<open>p\<close>, and the processes 102 and 104; nil has a count that stays.\<close>

definition ex_processes :: "int \<Rightarrow> omem" where
  "ex_processes p =
     \<lparr>cell = (\<lambda>s w. if s = 15 then if w = 2 then 0x8040 else if w \<in> {8, 100, 102, 104, 110, 112} then 0x0240 else if w = 103 then 10
                                else if w = 105 then 20 else if w = 9 then 40 else if w = 111 then 50 else if w = 113 then 60 else 0
                    else if s = 0 then if w = 0 then 4 else if w = 2 \<or> w = 3 then word_of_int p else if w = 10 then 6
                                  else if w = 20 then 6 else if w = 40 then 4 else if w = 43 then 110 else if w = 50 then 3
                                  else if w = 52 then 112 else if w = 60 then 3 else if w = 62 then 100 else 2
                    else 0),
      currentSegment = 0, freeWords = 0, freeOops = 0\<rparr>"

lemma ex_processes_entries:
  "q \<in> {8, 100, 102, 104, 110, 112} \<Longrightarrow> seg_of (ex_processes p) q = 0" "loc_of (ex_processes p) 100 = 0"
  "loc_of (ex_processes p) 102 = 10" "loc_of (ex_processes p) 104 = 20" "loc_of (ex_processes p) 8 = 40"
  "loc_of (ex_processes p) 110 = 50" "loc_of (ex_processes p) 112 = 60"
  "q \<in> {100, 102, 104} \<Longrightarrow> count_of (ex_processes p) q = 2" "count_of (ex_processes p) 2 = 128"
  by (auto simp: seg_of_def loc_of_def count_of_def ex_processes_def field_get_def mask_eq_exp_minus_1)

lemma ex_processes_words:
  "hw (ex_processes p) 100 0 = 4" "hw (ex_processes p) 102 0 = 6" "hw (ex_processes p) 104 0 = 6"
  "hw (ex_processes p) 8 0 = 4" "hw (ex_processes p) 110 0 = 3" "hw (ex_processes p) 112 0 = 3"
  "0 \<le> p \<Longrightarrow> p < 65536 \<Longrightarrow> field (ex_processes p) 100 0 = p" "0 \<le> p \<Longrightarrow> p < 65536 \<Longrightarrow> field (ex_processes p) 100 1 = p"
  "0 \<le> i \<Longrightarrow> i < 8 \<Longrightarrow> field (ex_processes p) 102 i = 2" "0 \<le> i \<Longrightarrow> i < 8 \<Longrightarrow> field (ex_processes p) 104 i = 2"
  "field (ex_processes p) 8 1 = 110" "field (ex_processes p) 110 0 = 112" "field (ex_processes p) 112 0 = 100"
  by (simp_all add: hw_def field_def ex_processes_entries) (simp_all add: ex_processes_def uint_of_int16)

lemma ex_process_lists:
  assumes "ps = [] \<and> p = 2 \<or> ps = [102] \<and> p = 102"
  shows "process_lists {100} {102, 104} (\<lambda>l. ps) (ex_processes p)"
proof -
  have c: "{q. (q = 102 \<or> q = 104) \<and> field (ex_processes k) q 3 = 100} = {}" for k by (auto simp: ex_processes_words)
  have s: "separated (ex_processes p) ({100} \<union> {102, 104})"
    by (simp add: separated_def field_count_def ex_processes_words has_fields_def ex_processes_entries oop_ok_def disjoint_objects_def)
  show ?thesis
    unfolding process_lists_def using assms s [unfolded insert_is_Un [of _ "{102, 104}"]]
    by (auto simp: c ex_processes_entries ex_processes_words field_count_def at_least_def queue_def)
qed

lemma ex_scheduler: "scheduler_ok {100} 112 1 (ex_interp (ex_processes p))"
proof -
  have "has_fields (ex_processes p) 8 2" "has_fields (ex_processes p) 110 1" "has_fields (ex_processes p) 112 1"
    by (simp_all add: has_fields_def ex_processes_entries ex_processes_words oop_ok_def)
  moreover have "field (ex_processes p) 112 i = 100" if "0 \<le> i" "i < 1" for i
  proof -
    have "i = 0" using that by simp
    then show ?thesis by (simp add: ex_processes_words)
  qed
  moreover have "(1 :: int) < 2" "(0 :: int) < 1" by simp_all
  ultimately show ?thesis
    unfolding scheduler_ok_def Let_def ex_interp_fields ex_processes_words by blast
qed

section \<open>The properties\<close>

text \<open>C16: The lists of processes implement queues.  Adding a process that is in no list puts it at the end of the list.
Removing the first link of a list that is not empty returns its first process and takes it out.  Every other list keeps its
content and the registers do not change.  In both cases the counts follow the references, the one by which the removed process
is protected for the caller included, and no count reaches zero, in particular not that of a process that was the only one.\<close>

theorem process_lists_queues:
  assumes "process_lists L U Q (memory s)" "l \<in> L"
  shows "(\<forall>p\<in>U. (\<forall>k\<in>L. p \<notin> set (Q k)) \<longrightarrow>
      (\<exists>m'. addLastLink_toList p l s = Some (s\<lparr>memory := m'\<rparr>) \<and> process_lists L U (Q(l := Q l @ [p])) m' \<and>
        (\<forall>q n. oop_ok q \<and> q \<noteq> NilPointer \<and> at_least (memory s) q n \<longrightarrow>
           at_least m' q (n + enqueue_refs Q l p (field (memory s) p MyListIndex) q)) \<and>
        (\<forall>q. oop_ok q \<and> 0 < count_of (memory s) q \<longrightarrow> 0 < count_of m' q))) \<and>
    (\<forall>p ps. Q l = p # ps \<longrightarrow>
      (\<exists>m'. removeFirstLinkOfList l s = Some (p, s\<lparr>memory := m'\<rparr>) \<and> process_lists L U (Q(l := ps)) m' \<and>
        (\<forall>q n. oop_ok q \<and> q \<noteq> NilPointer \<and> at_least (memory s) q n \<longrightarrow> at_least m' q (n - of_bool (ps = [] \<and> q = p))) \<and>
        (\<forall>q. oop_ok q \<and> 0 < count_of (memory s) q \<longrightarrow> 0 < count_of m' q) \<and> 0 < count_of m' p))"
proof (intro conjI ballI allI impI)
  fix p assume p: "p \<in> U" "\<forall>k\<in>L. p \<notin> set (Q k)"
  obtain m' where m': "addLastLink_toList p l s = Some (s\<lparr>memory := m'\<rparr>)" "process_lists L U (Q(l := Q l @ [p])) m'"
    using addLastLink_enqueues [OF assms p] by blast
  note c = addLastLink_counts [OF assms p m'(1)]
  show "\<exists>m'. addLastLink_toList p l s = Some (s\<lparr>memory := m'\<rparr>) \<and> process_lists L U (Q(l := Q l @ [p])) m' \<and>
        (\<forall>q n. oop_ok q \<and> q \<noteq> NilPointer \<and> at_least (memory s) q n \<longrightarrow>
           at_least m' q (n + enqueue_refs Q l p (field (memory s) p MyListIndex) q)) \<and>
        (\<forall>q. oop_ok q \<and> 0 < count_of (memory s) q \<longrightarrow> 0 < count_of m' q)"
    by (rule exI [of _ m']) (use m' c in blast)
next
  fix p ps assume p: "Q l = p # ps"
  obtain m' where m': "removeFirstLinkOfList l s = Some (p, s\<lparr>memory := m'\<rparr>)" "process_lists L U (Q(l := ps)) m'"
    using removeFirstLink_dequeues [OF assms p] by blast
  note c = removeFirstLink_counts [OF assms p m'(1)]
  have "oop_ok NilPointer" by (simp add: oop_ok_def)
  then show "\<exists>m'. removeFirstLinkOfList l s = Some (p, s\<lparr>memory := m'\<rparr>) \<and> process_lists L U (Q(l := ps)) m' \<and>
        (\<forall>q n. oop_ok q \<and> q \<noteq> NilPointer \<and> at_least (memory s) q n \<longrightarrow> at_least m' q (n - of_bool (ps = [] \<and> q = p))) \<and>
        (\<forall>q. oop_ok q \<and> 0 < count_of (memory s) q \<longrightarrow> 0 < count_of m' q) \<and> 0 < count_of m' p"
    by (intro exI [of _ m']) (use m' c in blast)
qed

theorem process_lists_queues_witness:
  "(\<exists>m'. addLastLink_toList 102 100 (ex_interp (ex_processes 2)) = Some ((ex_interp (ex_processes 2))\<lparr>memory := m'\<rparr>) \<and>
      process_lists {100} {102, 104} ((\<lambda>l. [])(100 := [102])) m' \<and> at_least m' 102 4) \<and>
   (\<exists>m'. removeFirstLinkOfList 100 (ex_interp (ex_processes 102)) = Some (102, (ex_interp (ex_processes 102))\<lparr>memory := m'\<rparr>) \<and>
      process_lists {100} {102, 104} ((\<lambda>l. [102])(100 := [])) m' \<and> 0 < count_of m' 102)"
proof
  have e: "oop_ok 102" "at_least (ex_processes 2) 102 2"
    by (simp_all add: oop_ok_def at_least_def ex_processes_entries)
  have r: "enqueue_refs (\<lambda>l. []) 100 102 (field (ex_processes 2) 102 3) 102 = 2"
    by (simp add: enqueue_refs_def ex_processes_words)
  have "process_lists {100} {102, 104} (\<lambda>l. []) (memory (ex_interp (ex_processes 2)))" using ex_process_lists [of "[]" 2] by simp
  from conjunct1 [OF process_lists_queues [OF this, of 100], rule_format, of 102]
  obtain m' where m': "addLastLink_toList 102 100 (ex_interp (ex_processes 2)) = Some ((ex_interp (ex_processes 2))\<lparr>memory := m'\<rparr>)"
      "process_lists {100} {102, 104} ((\<lambda>l. [])(100 := [102])) m'"
      "\<forall>q n. oop_ok q \<and> q \<noteq> NilPointer \<and> at_least (ex_processes 2) q n \<longrightarrow>
         at_least m' q (n + enqueue_refs (\<lambda>l. []) 100 102 (field (ex_processes 2) 102 3) q)"
    by auto
  have "at_least m' 102 (2 + 2)" using m'(3) [rule_format, of 102 2] e unfolding r by simp
  then show "\<exists>m'. addLastLink_toList 102 100 (ex_interp (ex_processes 2)) = Some ((ex_interp (ex_processes 2))\<lparr>memory := m'\<rparr>) \<and>
      process_lists {100} {102, 104} ((\<lambda>l. [])(100 := [102])) m' \<and> at_least m' 102 4" using m'(1,2) by auto
next
  have "process_lists {100} {102, 104} (\<lambda>l. [102]) (memory (ex_interp (ex_processes 102)))" using ex_process_lists [of "[102]" 102] by simp
  from conjunct2 [OF process_lists_queues [OF this, of 100], rule_format, of 102 "[]"]
  show "\<exists>m'. removeFirstLinkOfList 100 (ex_interp (ex_processes 102)) = Some (102, (ex_interp (ex_processes 102))\<lparr>memory := m'\<rparr>) \<and>
      process_lists {100} {102, 104} ((\<lambda>l. [102])(100 := [])) m' \<and> 0 < count_of m' 102" by auto
qed

text \<open>C36: Waiting is fair: processes that are put on a list one after the other leave it in this order,
after those that were on it before, and the list is empty then.\<close>

theorem processes_leave_in_order:
  assumes "process_lists L U Q (memory s)" "l \<in> L" "\<forall>p\<in>set ps. p \<in> U \<and> (\<forall>k. k \<in> L \<longrightarrow> p \<notin> set (Q k))" "distinct ps"
  shows "\<exists>s1 s2. enter_all (\<lambda>p. addLastLink_toList p l) ps s = Some s1 \<and>
    leave_all (removeFirstLinkOfList l) (length (Q l) + length ps) s1 = Some (Q l @ ps, s2) \<and>
    process_lists L U (Q(l := [])) (memory s2)"
  by (rule waiting.first_in_first_out [OF assms])

theorem processes_leave_in_order_witness:
  "\<exists>s1 s2. enter_all (\<lambda>p. addLastLink_toList p 100) [104, 102] (ex_interp (ex_processes 2)) = Some s1 \<and>
    leave_all (removeFirstLinkOfList 100) 2 s1 = Some ([104, 102], s2)"
proof -
  have "process_lists {100} {102, 104} (\<lambda>l. []) (memory (ex_interp (ex_processes 2)))" using ex_process_lists [of "[]" 2] by simp
  from processes_leave_in_order [OF this, of 100 "[104, 102]"] show ?thesis
    by (auto simp: numeral_2_eq_2 simp del: enter_all.simps leave_all.simps)
qed

text \<open>C37: The scheduler runs the process that waits longest among those of the highest priority: when
some list of the scheduler is not empty, \<^verbatim>\<open>wakeHighestPriority\<close> returns the first process of the last such list and
takes it out; when all are empty it fails (the assertion on the priority).\<close>

theorem wakes_highest:
  assumes "process_lists L U Q (memory s)" "scheduler_ok L ls n s"
  shows "(\<forall>i p ps. 0 \<le> i \<and> i < n \<and> Q (field (memory s) ls i) = p # ps \<and>
        (\<forall>j. i < j \<and> j < n \<longrightarrow> Q (field (memory s) ls j) = []) \<longrightarrow>
      (\<exists>m'. wakeHighestPriority s = Some (p, s\<lparr>memory := m'\<rparr>) \<and> process_lists L U (Q(field (memory s) ls i := ps)) m')) \<and>
    ((\<forall>i. 0 \<le> i \<and> i < n \<longrightarrow> Q (field (memory s) ls i) = []) \<longrightarrow> wakeHighestPriority s = None)"
proof -
  let ?l = "field (memory s) ls"
  have f: "has_fields (memory s) ls n" "\<forall>i. 0 \<le> i \<and> i < n \<longrightarrow> ?l i \<in> L"
    using assms(2) by (simp_all add: scheduler_ok_def)
  have n: "int (nat n) = n" using has_fieldsD(4) [OF f(1)] by simp
  note w = wake_loop_view [OF assms(1) f, of "nat n", unfolded n, OF order_refl] and start = wake_start [OF assms(2)]
  have "\<exists>m'. wakeHighestPriority s = Some (p, s\<lparr>memory := m'\<rparr>) \<and> process_lists L U (Q(?l i := ps)) m'"
    if i: "0 \<le> i" "i < n" "Q (?l i) = p # ps" "\<forall>j. i < j \<and> j < n \<longrightarrow> Q (?l j) = []" for i p ps
  proof -
    have "\<forall>j<nat n. nat i < j \<longrightarrow> Q (?l (int j)) = []" using i(1,4) by (simp add: nat_less_iff zless_nat_eq_int_zless)
    then have "wake_loop n ls s = Some (?l i)" using w(2) [of "nat i"] i by auto
    then show ?thesis using start removeFirstLink_dequeues [OF assms(1) _ i(3)] f(2) i(1,2) by simp
  qed
  moreover have "wakeHighestPriority s = None" if "\<forall>i. 0 \<le> i \<and> i < n \<longrightarrow> Q (?l i) = []"
    using w(1) start that by auto
  ultimately show ?thesis by blast
qed

theorem wakes_highest_witness:
  "\<exists>m'. wakeHighestPriority (ex_interp (ex_processes 102)) = Some (102, (ex_interp (ex_processes 102))\<lparr>memory := m'\<rparr>) \<and>
     process_lists {100} {102, 104} ((\<lambda>l. [102])(100 := [])) m'"
proof -
  have "process_lists {100} {102, 104} (\<lambda>l. [102]) (memory (ex_interp (ex_processes 102)))" using ex_process_lists [of "[102]" 102] by simp
  note w = conjunct1 [OF wakes_highest [OF this ex_scheduler]]
  show ?thesis using w [rule_format, of 0 102 "[]"] by (simp add: ex_processes_words)
qed

end
