(* ===== verification/VmFatFs.thy ===== *)
theory VmFatFs
  imports FatDirApi OmSnapshot
begin

text \<open>
  The file system of the virtual machine on FatFs (\<^verbatim>\<open>smalltalk/src/fatfilesystem.h\<close>): a table of 64 file
  descriptors, each a file object of FatFs, and the operations of \<^verbatim>\<open>filesystem.h\<close> on it.  \<^verbatim>\<open>None\<close> is an access outside
  the table or a run of FatFs that does not return.  The last definition is the record of operations that the snapshots
  and the interpreter are given; there the whole state is optional, \<^verbatim>\<open>None\<close> once the machine has stopped.
\<close>

abbreviation (input) MAX_OPEN_FILES :: int where "MAX_OPEN_FILES \<equiv> 64"

text \<open>What \<^verbatim>\<open>malloc\<close> returns on each call, what uninitialised local variables hold, and \<^verbatim>\<open>errno\<close> are the environment.\<close>

record adapter =
  root_directory :: "BYTE list"
  fdtofil :: "FIL option list"
  curfd :: int
  disk :: world
  mallocs :: nat
  heap_fil :: "nat \<Rightarrow> FIL option"
  heap_dir :: "nat \<Rightarrow> DIR option"
  local_dir :: DIR
  local_info :: FILINFO
  errno :: int
  strerror :: "int \<Rightarrow> int list option"

section \<open>The table of descriptors\<close>

definition init_table :: "adapter \<Rightarrow> adapter" where
  "init_table a = a\<lparr>fdtofil := replicate 64 None, curfd := 0\<rparr>"

definition FatST80FileSystem :: "BYTE list \<Rightarrow> adapter \<Rightarrow> adapter" where
  "FatST80FileSystem root a = init_table (a\<lparr>root_directory := root\<rparr>)"

definition path_for_file :: "BYTE list \<Rightarrow> adapter \<Rightarrow> BYTE list" where
  "path_for_file name a = root_directory a @ [0x2F] @ cstr name"

definition fil_at :: "int \<Rightarrow> adapter \<Rightarrow> FIL option option" where
  "fil_at fd a = (if 0 \<le> fd \<and> fd < MAX_OPEN_FILES then Some (fdtofil a ! nat fd) else None)"

definition set_fil :: "int \<Rightarrow> FIL option \<Rightarrow> adapter \<Rightarrow> adapter option" where
  "set_fil fd x a = (if 0 \<le> fd \<and> fd < MAX_OPEN_FILES then Some (a\<lparr>fdtofil := (fdtofil a)[nat fd := x]\<rparr>) else None)"

text \<open>One of the two loops of \<^verbatim>\<open>getfd\<close>: from the current descriptor to the first free one below the limit.\<close>

function scan_fd :: "int \<Rightarrow> adapter \<Rightarrow> (int option \<times> adapter) option" where
  "scan_fd limit a =
     (if curfd a < limit then do {
        x \<leftarrow> fil_at (curfd a) a;
        if x = None then Some (Some (curfd a), a\<lparr>curfd := curfd a + 1\<rparr>)
        else scan_fd limit (a\<lparr>curfd := curfd a + 1\<rparr>)
      } else Some (None, a))"
  by pat_completeness auto
termination by (relation "measure (\<lambda>(limit, a). nat (limit - curfd a))") auto

declare scan_fd.simps [simp del]

definition getfd :: "adapter \<Rightarrow> (int \<times> adapter) option" where
  "getfd a =
     do {
       let initial_curfd = curfd a;
       (r, a) \<leftarrow> scan_fd MAX_OPEN_FILES a;
       case r of Some fd \<Rightarrow> Some (fd, a)
       | None \<Rightarrow> do {
           (r, a) \<leftarrow> scan_fd initial_curfd (a\<lparr>curfd := 0\<rparr>);
           Some (case r of Some fd \<Rightarrow> fd | None \<Rightarrow> -1, a)
         }
     }"

section \<open>Files\<close>

text \<open>A block for a file object.  A null pointer is passed on, and FatFs refuses it.\<close>

definition malloc_fil :: "adapter \<Rightarrow> FIL option \<times> adapter" where
  "malloc_fil a = (heap_fil a (mallocs a), a\<lparr>mallocs := mallocs a + 1\<rparr>)"

definition open_with :: "BYTE \<Rightarrow> BYTE list \<Rightarrow> adapter \<Rightarrow> (int \<times> adapter) option" where
  "open_with mode name a =
     (let (block, a) = malloc_fil a
      in case block of None \<Rightarrow> Some (-1, a)
         | Some fp \<Rightarrow> do {
             (fres, fp, w) \<leftarrow> f_open fp (path_for_file name a) mode (disk a);
             let a = a\<lparr>disk := w\<rparr>;
             if fres \<noteq> FR_OK then Some (-1, a)
             else do {
               (fd, a) \<leftarrow> getfd a;
               a \<leftarrow> set_fil fd (Some fp) a;
               Some (fd, a)
             }
           })"

definition fat_open_file :: "BYTE list \<Rightarrow> adapter \<Rightarrow> (int \<times> adapter) option" where
  "fat_open_file name a = open_with (FA_READ OR FA_WRITE) name a"

definition fat_create_file :: "BYTE list \<Rightarrow> adapter \<Rightarrow> (int \<times> adapter) option" where
  "fat_create_file name a = open_with (FA_READ OR FA_WRITE OR FA_CREATE_ALWAYS) name a"

definition fat_close_file :: "int \<Rightarrow> adapter \<Rightarrow> (int \<times> adapter) option" where
  "fat_close_file fd a =
     do {
       x \<leftarrow> fil_at fd a;
       case x of None \<Rightarrow> Some (-1, a)
       | Some fp \<Rightarrow> do {
           (_, _, w) \<leftarrow> f_close fp (disk a);
           a \<leftarrow> set_fil fd None (a\<lparr>disk := w\<rparr>);
           Some (0, a)
         }
     }"

text \<open>An operation of FatFs on the file object of a descriptor, and the result where there is none.\<close>

definition with_fil :: "int \<Rightarrow> 'r \<Rightarrow> (FIL \<Rightarrow> world \<Rightarrow> ('r \<times> FIL \<times> world) option) \<Rightarrow> adapter \<Rightarrow> ('r \<times> adapter) option" where
  "with_fil fd none f a =
     do {
       x \<leftarrow> fil_at fd a;
       case x of None \<Rightarrow> Some (none, a)
       | Some fp \<Rightarrow> do {
           (r, fp, w) \<leftarrow> f fp (disk a);
           a \<leftarrow> set_fil fd (Some fp) (a\<lparr>disk := w\<rparr>);
           Some (r, a)
         }
     }"

text \<open>The buffer holds what was read, also when the operation fails in the middle.\<close>

definition fat_read :: "int \<Rightarrow> int \<Rightarrow> adapter \<Rightarrow> ((int \<times> BYTE list) \<times> adapter) option" where
  "fat_read fd bytes =
     with_fil fd (-1, []) (\<lambda>fp w. do {
       (fres, bs, fp, w) \<leftarrow> f_read fp (word_of_int bytes) w;
       Some ((if fres \<noteq> FR_OK then -1 else sint (of_nat (length bs) :: DWORD), bs), fp, w)
     })"

text \<open>The buffer must hold the bytes to write.\<close>

definition fat_write :: "int \<Rightarrow> BYTE list \<Rightarrow> int \<Rightarrow> adapter \<Rightarrow> (int \<times> adapter) option" where
  "fat_write fd buffer bytes =
     with_fil fd (-1) (\<lambda>fp w.
       if length buffer < unat (word_of_int bytes :: DWORD) then None
       else do {
         (fres, n, fp, w) \<leftarrow> f_write fp buffer (word_of_int bytes) w;
         Some (if fres \<noteq> FR_OK then -1 else sint n, fp, w)
       })"

definition fat_truncate_to :: "int \<Rightarrow> int \<Rightarrow> adapter \<Rightarrow> (bool \<times> adapter) option" where
  "fat_truncate_to fd len =
     with_fil fd False (\<lambda>fp w. do {
       (fres, fp, w) \<leftarrow> f_lseek fp (word_of_int len) w;
       if fres \<noteq> FR_OK then Some (False, fp, w)
       else do {
         (fres, fp, w) \<leftarrow> f_truncate fp w;
         Some (fres = FR_OK, fp, w)
       }
     })"

definition fat_file_size :: "int \<Rightarrow> adapter \<Rightarrow> (int \<times> adapter) option" where
  "fat_file_size fd = with_fil fd (-1) (\<lambda>fp w. Some (sint (objsize fp), fp, w))"

definition fat_file_flush :: "int \<Rightarrow> adapter \<Rightarrow> (bool \<times> adapter) option" where
  "fat_file_flush fd =
     with_fil fd False (\<lambda>fp w. do { (fres, fp, w) \<leftarrow> f_sync fp w; Some (fres = FR_OK, fp, w) })"

definition fat_seek_to :: "int \<Rightarrow> int \<Rightarrow> adapter \<Rightarrow> (int \<times> adapter) option" where
  "fat_seek_to fd position =
     with_fil fd (-1) (\<lambda>fp w. do {
       (fres, fp, w) \<leftarrow> f_lseek fp (word_of_int position) w;
       Some (if fres \<noteq> FR_OK then -1 else position, fp, w)
     })"

definition fat_tell :: "int \<Rightarrow> adapter \<Rightarrow> (int \<times> adapter) option" where
  "fat_tell fd = with_fil fd (-1) (\<lambda>fp w. Some (sint (fptr fp), fp, w))"

section \<open>Directories\<close>

definition is_directory :: "BYTE list \<Rightarrow> adapter \<Rightarrow> (bool \<times> adapter) option" where
  "is_directory name a =
     do {
       (fres, fi, w) \<leftarrow> f_stat (path_for_file name a) (Some (local_info a)) (disk a);
       Some (fres = FR_OK \<and> (case fi of None \<Rightarrow> False | Some fi \<Rightarrow> fattrib fi AND AM_DIR = AM_DIR), a\<lparr>disk := w\<rparr>)
     }"

text \<open>The loop over a directory: each name that is neither hidden nor a directory is passed on.\<close>

partial_function (option) readdir_loop ::
    "(BYTE list \<Rightarrow> 'b \<Rightarrow> 'b) \<Rightarrow> DIR \<Rightarrow> FILINFO \<Rightarrow> 'b \<Rightarrow> adapter \<Rightarrow> (DIR \<times> 'b \<times> adapter) option" where
  "readdir_loop each dp fi b a =
     do {
       (fr, dp, r, w) \<leftarrow> f_readdir dp (Some fi) (disk a);
       let a = a\<lparr>disk := w\<rparr>;
       fi \<leftarrow> r;
       if fr \<noteq> FR_OK then Some (dp, b, a)
       else if fname fi ! 0 = 0 then Some (dp, b, a)
       else do {
         (skip, a) \<leftarrow> (if fname fi ! 0 = 0x2E then Some (True, a) else is_directory (fname fi) a);
         readdir_loop each dp fi (if skip then b else each (cstr (fname fi)) b) a
       }
     }"

definition over_root :: "(BYTE list \<Rightarrow> 'b \<Rightarrow> 'b) \<Rightarrow> 'b \<Rightarrow> adapter \<Rightarrow> ('b \<times> adapter) option" where
  "over_root each b a =
     do {
       (_, dp, w) \<leftarrow> f_opendir (local_dir a) (cstr (root_directory a)) (disk a);
       (dp, b, a) \<leftarrow> readdir_loop each dp (local_info a) b (a\<lparr>disk := w\<rparr>);
       (_, _, w) \<leftarrow> f_closedir dp (disk a);
       Some (b, a\<lparr>disk := w\<rparr>)
     }"

definition num_files :: "adapter \<Rightarrow> (int \<times> adapter) option" where
  "num_files a = over_root (\<lambda>name n. n + 1) 0 a"

definition fat_enumerate_files :: "adapter \<Rightarrow> (BYTE list list \<times> adapter) option" where
  "fat_enumerate_files a = over_root (\<lambda>name names. names @ [name]) [] a"

definition open_dir :: "adapter \<Rightarrow> (DIR option \<times> adapter) option" where
  "open_dir a =
     (let block = heap_dir a (mallocs a); a = a\<lparr>mallocs := mallocs a + 1\<rparr>
      in case block of None \<Rightarrow> Some (None, a)
         | Some dp \<Rightarrow> do {
             (fr, dp, w) \<leftarrow> f_opendir dp (cstr (root_directory a)) (disk a);
             Some (if fr = FR_OK then Some dp else None, a\<lparr>disk := w\<rparr>)
           })"

definition close_dir :: "DIR \<Rightarrow> adapter \<Rightarrow> adapter option" where
  "close_dir dp a = do { (_, _, w) \<leftarrow> f_closedir dp (disk a); Some (a\<lparr>disk := w\<rparr>) }"

text \<open>The next name in a buffer of 12 characters.  After an error the code writes to a variable of its own, and the buffer
of the caller, the last result, stays as it is.\<close>

definition next_file :: "DIR \<Rightarrow> adapter \<Rightarrow> (DIR \<times> BYTE list option \<times> adapter) option" where
  "next_file dp a =
     do {
       (fr, dp, r, w) \<leftarrow> f_readdir dp (Some (local_info a)) (disk a);
       fi \<leftarrow> r;
       Some (dp, if fr = FR_OK then Some (take 12 (cstr (fname fi) @ replicate 12 0)) else None, a\<lparr>disk := w\<rparr>)
     }"

definition fat_rename_file :: "BYTE list \<Rightarrow> BYTE list \<Rightarrow> adapter \<Rightarrow> (bool \<times> adapter) option" where
  "fat_rename_file old_name new_name a =
     do {
       (fres, _, w) \<leftarrow> f_rename (path_for_file old_name a) (path_for_file new_name a) (disk a);
       Some (fres = FR_OK, a\<lparr>disk := w\<rparr>)
     }"

definition fat_delete_file :: "BYTE list \<Rightarrow> adapter \<Rightarrow> (bool \<times> adapter) option" where
  "fat_delete_file file_name a =
     do {
       (fres, _, w) \<leftarrow> f_unlink (path_for_file file_name a) (disk a);
       Some (fres = FR_OK, a\<lparr>disk := w\<rparr>)
     }"

section \<open>Shutdown\<close>

text \<open>Here the file objects are closed and not freed, and the descriptor is cleared also after an error.\<close>

function shutdown_loop :: "int \<Rightarrow> bool \<Rightarrow> adapter \<Rightarrow> (bool \<times> adapter) option" where
  "shutdown_loop i ok a =
     (if i < MAX_OPEN_FILES then do {
        x \<leftarrow> fil_at i a;
        case x of None \<Rightarrow> shutdown_loop (i + 1) ok a
        | Some fil \<Rightarrow> do {
            (fres, _, w) \<leftarrow> f_close fil (disk a);
            a \<leftarrow> set_fil i None (a\<lparr>disk := w\<rparr>);
            shutdown_loop (i + 1) (ok \<and> fres = FR_OK) a
          }
      } else Some (ok, a))"
  by pat_completeness auto
termination by (relation "measure (\<lambda>(i, ok, a). nat (MAX_OPEN_FILES - i))") auto

declare shutdown_loop.simps [simp del]

definition shutdown :: "adapter \<Rightarrow> (bool \<times> adapter) option" where
  "shutdown a = shutdown_loop 0 True a"

section \<open>The interface\<close>

definition running :: "'r \<Rightarrow> (adapter \<Rightarrow> ('r \<times> adapter) option) \<Rightarrow> adapter option \<Rightarrow> 'r \<times> adapter option" where
  "running r f w =
     (case w of None \<Rightarrow> (r, None)
      | Some a \<Rightarrow> case f a of None \<Rightarrow> (r, None) | Some (r, a) \<Rightarrow> (r, Some a))"

definition bytes_of :: "int list \<Rightarrow> BYTE list" where
  "bytes_of bs = map word_of_int bs"

definition fat_filesystem :: "adapter option filesystem" where
  "fat_filesystem =
     \<lparr>create_file = (\<lambda>name. running (-1) (fat_create_file (bytes_of name))),
      open_file = (\<lambda>name. running (-1) (fat_open_file (bytes_of name))),
      close_file = (\<lambda>fd. running (-1) (fat_close_file fd)),
      seek_to = (\<lambda>fd position. running (-1) (fat_seek_to fd position)),
      tell = (\<lambda>fd. running (-1) (fat_tell fd)),
      read_bytes = (\<lambda>fd bytes w. let ((n, bs), w) = running (-1, []) (fat_read fd bytes) w in ((n, map uint bs), w)),
      write_bytes = (\<lambda>fd buffer bytes. running (-1) (fat_write fd (bytes_of buffer) bytes)),
      truncate_to = (\<lambda>fd length. running False (fat_truncate_to fd length)),
      file_size = (\<lambda>fd. running (-1) (fat_file_size fd)),
      enumerate_files = (\<lambda>w. let (names, w) = running [] fat_enumerate_files w in (map (map uint) names, w)),
      rename_file = (\<lambda>old_name new_name. running False (fat_rename_file (bytes_of old_name) (bytes_of new_name))),
      delete_file = (\<lambda>file_name. running False (fat_delete_file (bytes_of file_name))),
      last_error = (\<lambda>w. case w of None \<Rightarrow> 0 | Some a \<Rightarrow> errno a),
      error_text = (\<lambda>code w. case w of None \<Rightarrow> None | Some a \<Rightarrow> strerror a code)\<rparr>"

end
