(* ===== verification/VmKernel.thy ===== *)
theory VmKernel
  imports FatPrelude "HOL-Library.Monad_Syntax" "HOL-Library.Signed_Division"
begin

text \<open>
  The hardware below the virtual machine: the kernel object (\<^verbatim>\<open>smalltalk/raspberry/kernel.cpp\<close>) with the state of
  mouse and keyboard that events leave behind, the mouse driver of Circle that produces these events
  (\<^verbatim>\<open>circle/lib/input/mousebehaviour.cpp\<close>), and the pixels of the screen (\<^verbatim>\<open>circle/lib/screen.cpp\<close>).  The values that the
  timer shows are the environment.  \<^verbatim>\<open>None\<close> is a write behind the end of a buffer.
\<close>

datatype TMouseEvent =
  MouseEventMouseMove | MouseEventMouseDown | MouseEventMouseUp | MouseEventMouseWheel | MouseEventUnknown

abbreviation (input) MOUSE_BUTTON_LEFT :: DWORD where "MOUSE_BUTTON_LEFT \<equiv> 1"
abbreviation (input) MOUSE_BUTTON_RIGHT :: DWORD where "MOUSE_BUTTON_RIGHT \<equiv> 2"
abbreviation (input) MOUSE_BUTTON_MIDDLE :: DWORD where "MOUSE_BUTTON_MIDDLE \<equiv> 4"
abbreviation (input) BLACK_COLOR :: WORD where "BLACK_COLOR \<equiv> 0"
abbreviation (input) NORMAL_COLOR :: WORD where "NORMAL_COLOR \<equiv> 0xFFDF"

text \<open>The members that start with \<open>mb_\<close> are those of the mouse driver; \<^verbatim>\<open>clock_ticks\<close> and \<^verbatim>\<open>epoch\<close> give what the
timer shows on each reading.\<close>

record kernel =
  m_nPosX :: int
  m_nPosY :: int
  m_nButtons :: DWORD
  m_CookedKeySeq :: "BYTE list"
  m_CursorColor :: DWORD
  mb_nScreenWidth :: DWORD
  mb_nScreenHeight :: DWORD
  mb_nPosX :: DWORD
  mb_nPosY :: DWORD
  mb_bHasMoved :: bool
  mb_nButtons :: DWORD
  m_nWidth :: DWORD
  m_nHeight :: DWORD
  m_pBuffer :: "DWORD \<Rightarrow> DWORD \<Rightarrow> WORD"
  clock_ticks :: "nat \<Rightarrow> DWORD"
  epoch :: "nat \<Rightarrow> DWORD"
  readings :: nat

section \<open>Screen and clock\<close>

definition SetPixel :: "DWORD \<Rightarrow> DWORD \<Rightarrow> WORD \<Rightarrow> kernel \<Rightarrow> kernel" where
  "SetPixel nPosX nPosY Color k =
     (if nPosX < m_nWidth k \<and> nPosY < m_nHeight k
      then k\<lparr>m_pBuffer := (m_pBuffer k)(nPosX := (m_pBuffer k nPosX)(nPosY := Color))\<rparr> else k)"

definition GetTicks :: "kernel \<Rightarrow> DWORD \<times> kernel" where
  "GetTicks k = (clock_ticks k (readings k) div 1000, k\<lparr>readings := readings k + 1\<rparr>)"

definition GetEpochTime :: "kernel \<Rightarrow> DWORD \<times> kernel" where
  "GetEpochTime k = (epoch k (readings k), k\<lparr>readings := readings k + 1\<rparr>)"

definition GetCursorColor :: "kernel \<Rightarrow> DWORD" where
  "GetCursorColor k = m_CursorColor k"

definition GetWidth :: "kernel \<Rightarrow> DWORD" where
  "GetWidth k = m_nWidth k"

definition GetHeight :: "kernel \<Rightarrow> DWORD" where
  "GetHeight k = m_nHeight k"

text \<open>Bresenham's algorithm.  The coordinates are signed; a pixel is set at their unsigned readings.\<close>

partial_function (option) line_loop ::
    "int \<Rightarrow> int \<Rightarrow> int \<Rightarrow> int \<Rightarrow> int \<Rightarrow> int \<Rightarrow> int \<Rightarrow> int \<Rightarrow> int \<Rightarrow> WORD \<Rightarrow> kernel \<Rightarrow> kernel option" where
  "line_loop nError nPosX1 nPosY1 nPosX2 nPosY2 nDeltaX nDeltaY nSignX nSignY Color k =
     (let k = SetPixel (word_of_int nPosX1) (word_of_int nPosY1) Color k
      in if nPosX1 = nPosX2 \<and> nPosY1 = nPosY2 then Some k
         else let nError2 = nError + nError;
                  (nError, nPosX1) = (if nError2 > nDeltaY then (nError + nDeltaY, nPosX1 + nSignX) else (nError, nPosX1));
                  (nError, nPosY1) = (if nError2 < nDeltaX then (nError + nDeltaX, nPosY1 + nSignY) else (nError, nPosY1))
              in line_loop nError nPosX1 nPosY1 nPosX2 nPosY2 nDeltaX nDeltaY nSignX nSignY Color k)"

definition DrawLine :: "int \<Rightarrow> int \<Rightarrow> int \<Rightarrow> int \<Rightarrow> WORD \<Rightarrow> kernel \<Rightarrow> kernel option" where
  "DrawLine nPosX1 nPosY1 nPosX2 nPosY2 Color k =
     (let nDeltaX = (if nPosX2 - nPosX1 \<ge> 0 then nPosX2 - nPosX1 else nPosX1 - nPosX2);
          nSignX = (if nPosX1 < nPosX2 then 1 else -1);
          nDeltaY = - (if nPosY2 - nPosY1 \<ge> 0 then nPosY2 - nPosY1 else nPosY1 - nPosY2);
          nSignY = (if nPosY1 < nPosY2 then 1 else -1)
      in line_loop (nDeltaX + nDeltaY) nPosX1 nPosY1 nPosX2 nPosY2 nDeltaX nDeltaY nSignX nSignY Color k)"

section \<open>Keyboard\<close>

text \<open>The string of a key is copied to an array of six characters.\<close>

definition KeyPressedHandler :: "BYTE list \<Rightarrow> kernel \<Rightarrow> kernel option" where
  "KeyPressedHandler pString k =
     (let s = takeWhile (\<lambda>c. c \<noteq> 0) pString
      in if length s < 6 then Some (k\<lparr>m_CookedKeySeq := s @ [0] @ drop (length s + 1) (m_CookedKeySeq k)\<rparr>) else None)"

text \<open>The result is the copy with its terminating zero.\<close>

definition GetCookedKeyboardKey :: "kernel \<Rightarrow> BYTE list \<times> kernel" where
  "GetCookedKeyboardKey k =
     (takeWhile (\<lambda>c. c \<noteq> 0) (m_CookedKeySeq k) @ [0], k\<lparr>m_CookedKeySeq := (m_CookedKeySeq k)[0 := 0]\<rparr>)"

section \<open>Mouse\<close>

text \<open>One of the conditional changes of the mask of the buttons.\<close>

definition press :: "DWORD \<Rightarrow> DWORD \<Rightarrow> DWORD \<Rightarrow> DWORD \<Rightarrow> DWORD" where
  "press nButtons button m b = (if nButtons AND button \<noteq> 0 then b OR m else b)"

definition release :: "DWORD \<Rightarrow> DWORD \<Rightarrow> DWORD \<Rightarrow> DWORD \<Rightarrow> DWORD" where
  "release nButtons button m b = (if nButtons AND button \<noteq> 0 then b AND NOT m else b)"

definition MouseEventHandler :: "TMouseEvent \<Rightarrow> DWORD \<Rightarrow> DWORD \<Rightarrow> DWORD \<Rightarrow> int \<Rightarrow> kernel \<Rightarrow> kernel" where
  "MouseEventHandler Event nButtons nPosX nPosY nWheelMove k =
     (let k = k\<lparr>m_nPosX := sint nPosX, m_nPosY := sint nPosY\<rparr>
      in case Event of
           MouseEventMouseDown \<Rightarrow>
             k\<lparr>m_nButtons := press nButtons MOUSE_BUTTON_RIGHT 4 (press nButtons MOUSE_BUTTON_MIDDLE 2
                              (press nButtons MOUSE_BUTTON_LEFT 1 (m_nButtons k)))\<rparr>
         | MouseEventMouseUp \<Rightarrow>
             k\<lparr>m_nButtons := release nButtons MOUSE_BUTTON_RIGHT 4 (release nButtons MOUSE_BUTTON_MIDDLE 2
                              (release nButtons MOUSE_BUTTON_LEFT 1 (m_nButtons k)))\<rparr>
         | _ \<Rightarrow> k)"

definition GetMouseState :: "kernel \<Rightarrow> int \<times> int \<times> DWORD" where
  "GetMouseState k = (m_nPosX k, m_nPosY k, m_nButtons k)"

definition SetMouseState :: "int \<Rightarrow> int \<Rightarrow> kernel \<Rightarrow> kernel" where
  "SetMouseState x y k = k\<lparr>m_nPosX := x, m_nPosY := y\<rparr>"

text \<open>The loop over the five buttons reports each change.\<close>

fun button_events :: "nat list \<Rightarrow> DWORD \<Rightarrow> int \<Rightarrow> kernel \<Rightarrow> kernel" where
  "button_events [] nButtons nWheelMove k = k" |
  "button_events (nButton # bs) nButtons nWheelMove k =
     (let nMask = push_bit nButton 1; old = mb_nButtons k AND nMask \<noteq> 0; new = nButtons AND nMask \<noteq> 0;
          k = (if \<not> old \<and> new then MouseEventHandler MouseEventMouseDown nMask (mb_nPosX k) (mb_nPosY k) nWheelMove k
               else if old \<and> \<not> new then MouseEventHandler MouseEventMouseUp nMask (mb_nPosX k) (mb_nPosY k) nWheelMove k
               else k)
      in button_events bs nButtons nWheelMove k)"

text \<open>A coordinate after a displacement; one that leaves the screen, also to the left, is taken back.\<close>

definition move_coordinate :: "int \<Rightarrow> DWORD \<Rightarrow> DWORD \<Rightarrow> DWORD" where
  "move_coordinate displacement extent pos =
     (let pos = pos + word_of_int displacement in if pos \<ge> extent then pos - word_of_int displacement else pos)"

definition MouseStatusChanged :: "DWORD \<Rightarrow> int \<Rightarrow> int \<Rightarrow> int \<Rightarrow> kernel \<Rightarrow> kernel" where
  "MouseStatusChanged nButtons nDisplacementX nDisplacementY nWheelMove k =
     (if mb_nScreenWidth k = 0 \<or> mb_nScreenHeight k = 0 then k
      else let nDisplacementX = nDisplacementX * 18 sdiv 10; nDisplacementY = nDisplacementY * 18 sdiv 10;
               nPrevX = mb_nPosX k; nPrevY = mb_nPosY k;
               k = k\<lparr>mb_nPosX := move_coordinate nDisplacementX (mb_nScreenWidth k) (mb_nPosX k)\<rparr>;
               k = k\<lparr>mb_nPosY := move_coordinate nDisplacementY (mb_nScreenHeight k) (mb_nPosY k)\<rparr>;
               k = (if mb_nPosX k \<noteq> nPrevX \<or> mb_nPosY k \<noteq> nPrevY
                    then MouseEventHandler MouseEventMouseMove nButtons (mb_nPosX k) (mb_nPosY k) nWheelMove
                           (k\<lparr>mb_bHasMoved := True\<rparr>)
                    else k);
               k = (if mb_nButtons k \<noteq> nButtons then button_events [0, 1, 2, 3, 4] nButtons nWheelMove k else k);
               k = (if nWheelMove \<noteq> 0
                    then MouseEventHandler MouseEventMouseWheel nButtons (mb_nPosX k) (mb_nPosY k) nWheelMove k else k)
           in k\<lparr>mb_nButtons := nButtons\<rparr>)"

end
