(* ===== verification/VmMachine.thy ===== *)
theory VmMachine
  imports VmFatFs VmKernel VmByte
begin

text \<open>
  The virtual machine on the hardware (\<^verbatim>\<open>smalltalk/src/smalltalk.cpp\<close>, \<^verbatim>\<open>smalltalk.h\<close>): it is the hardware layer of
  the interpreter, turns the state of mouse and keyboard into words of the input queue, paints the display and runs the
  frames.  The state of the class is the record \<open>machine\<close>, the world of the interpreter; a function that also uses the
  interpreter works on the interpreter with this world.  \<^verbatim>\<open>None\<close> is, as before, a machine that has stopped: a failed
  assertion or runtime check, an undefined operation.
\<close>

record rect =
  rect_x :: int
  rect_y :: int
  rect_w :: int
  rect_h :: int

text \<open>The members of the class and the static variables of its functions; the kernel and the file system are parts of it,
and \<^verbatim>\<open>aborted\<close> records a call of \<^verbatim>\<open>abort\<close>.\<close>

record machine =
  kern :: kernel
  files :: "adapter option"
  aborted :: bool
  cycles_per_frame :: int
  input_queue :: "int list"
  last_event_time :: DWORD
  event_count :: int
  input_semaphore :: int
  quit_signalled :: bool
  texture_needs_update :: bool
  display_width :: int
  display_height :: int
  dirty_rect :: rect
  scheduled_semaphore :: int
  scheduled_time :: DWORD
  image_name :: "int list"
  screen_initialized :: bool
  off_x :: int
  off_y :: int
  MyCursorSymbol :: "int list"
  prev_x :: int
  prev_y :: int
  button_down_mods :: "DWORD list"
  mouse_oldmb :: DWORD

definition in_kernel :: "(kernel \<Rightarrow> 'r \<times> kernel) \<Rightarrow> machine \<Rightarrow> 'r \<times> machine" where
  "in_kernel f w = (let (r, k) = f (kern w) in (r, w\<lparr>kern := k\<rparr>))"

section \<open>Semaphores and time\<close>

definition vm_set_input_semaphore :: "int \<Rightarrow> machine \<Rightarrow> machine" where
  "vm_set_input_semaphore semaphore w = w\<lparr>input_semaphore := semaphore\<rparr>"

definition vm_get_smalltalk_epoch_time :: "machine \<Rightarrow> DWORD \<times> machine" where
  "vm_get_smalltalk_epoch_time w = (let (t, w) = in_kernel GetEpochTime w in (t + 2177452800, w))"

definition vm_get_msclock :: "machine \<Rightarrow> DWORD \<times> machine" where
  "vm_get_msclock w = in_kernel GetTicks w"

text \<open>The semaphore to signal now, if there is one.\<close>

definition due_semaphore :: "machine \<Rightarrow> int option \<times> machine" where
  "due_semaphore w =
     (if scheduled_semaphore w \<noteq> 0 then
        let (now, w) = vm_get_msclock w
        in if now > scheduled_time w then (Some (scheduled_semaphore w), w\<lparr>scheduled_semaphore := 0\<rparr>) else (None, w)
      else (None, w))"

definition check_scheduled_semaphore :: "machine interp \<Rightarrow> machine interp option" where
  "check_scheduled_semaphore s =
     (let (r, w) = due_semaphore (world s); s = s\<lparr>world := w\<rparr>
      in case r of None \<Rightarrow> Some s | Some sem \<Rightarrow> asynchronousSignal sem s)"

definition vm_signal_at :: "int \<Rightarrow> DWORD \<Rightarrow> machine \<Rightarrow> int option \<times> machine" where
  "vm_signal_at semaphore msClockTime w =
     (let w = w\<lparr>scheduled_semaphore := semaphore, scheduled_time := msClockTime\<rparr>
      in if semaphore \<noteq> 0 then due_semaphore w else (None, w))"

section \<open>Cursor and display\<close>

definition vm_set_cursor_image :: "int list \<Rightarrow> machine \<Rightarrow> machine" where
  "vm_set_cursor_image bits w = w\<lparr>MyCursorSymbol := take 16 bits\<rparr>"

definition vm_set_cursor_location :: "int \<Rightarrow> int \<Rightarrow> machine \<Rightarrow> machine" where
  "vm_set_cursor_location x y w = w\<lparr>kern := SetMouseState (x + off_x w) (y + off_y w) (kern w)\<rparr>"

definition vm_get_cursor_location :: "machine \<Rightarrow> (int \<times> int) \<times> machine" where
  "vm_get_cursor_location w =
     (let (tx, ty, tb) = GetMouseState (kern w);
          tx = (if tx < off_x w then off_x w else tx);
          tx = (if tx \<ge> off_x w + display_width w then off_x w + display_width w - 1 else tx);
          ty = (if ty < off_y w then off_y w else ty);
          ty = (if ty \<ge> off_y w + display_height w then off_y w + display_height w - 1 else ty)
      in ((tx - off_x w, ty - off_y w), w))"

definition vm_set_display_size :: "int \<Rightarrow> int \<Rightarrow> machine \<Rightarrow> bool \<times> machine" where
  "vm_set_display_size width height w =
     (True, if display_width w \<noteq> width \<or> display_height w \<noteq> height
            then w\<lparr>display_width := width, display_height := height,
                   dirty_rect := \<lparr>rect_x = 0, rect_y = 0, rect_w = width, rect_h = height\<rparr>, screen_initialized := True\<rparr>
            else w)"

definition vm_display_changed :: "int \<Rightarrow> int \<Rightarrow> int \<Rightarrow> int \<Rightarrow> machine \<Rightarrow> machine option" where
  "vm_display_changed x y width height w =
     (let w = w\<lparr>texture_needs_update := True\<rparr>; r = dirty_rect w
      in if \<not> (x \<ge> 0 \<and> x < display_width w) \<or> \<not> (y \<ge> 0 \<and> y < display_height w)
            \<or> \<not> x + width \<le> display_width w \<or> \<not> y + height \<le> display_height w then None
         else if rect_w r = 0 \<or> rect_h r = 0
         then Some (w\<lparr>dirty_rect := \<lparr>rect_x = x, rect_y = y, rect_w = width, rect_h = height\<rparr>\<rparr>)
         else let x1 = (if rect_x r < x then rect_x r else x);
                  y1 = (if rect_y r < y then rect_y r else y);
                  x2 = (if rect_x r + rect_w r > x + width then rect_x r + rect_w r else x + width);
                  y2 = (if rect_y r + rect_h r > y + height then rect_y r + rect_h r else y + height)
              in Some (w\<lparr>dirty_rect := \<lparr>rect_x = x1, rect_y = y1, rect_w = \<bar>x2 - x1\<bar>, rect_h = \<bar>y2 - y1\<bar>\<rparr>\<rparr>))"

section \<open>Painting\<close>

text \<open>A pixel of a word of the display: bit 15 is the leftmost.\<close>

definition paint_bit :: "int \<Rightarrow> int \<Rightarrow> int \<Rightarrow> nat \<Rightarrow> kernel \<Rightarrow> kernel" where
  "paint_bit pixels x y p k =
     SetPixel (word_of_int (x + (15 - int p))) (word_of_int y)
       (if pixels AND push_bit p 1 \<noteq> 0 then BLACK_COLOR else NORMAL_COLOR) k"

text \<open>All pixels of a word; restoring the background leaves out those beyond the display.\<close>

definition paint_word :: "int \<Rightarrow> int \<Rightarrow> int \<Rightarrow> kernel \<Rightarrow> kernel" where
  "paint_word pixels x y k = fold (paint_bit pixels x y) [0..<16] k"

definition restore_word :: "int \<Rightarrow> int \<Rightarrow> int \<Rightarrow> machine \<Rightarrow> machine" where
  "restore_word pixels column y w =
     w\<lparr>kern := fold (\<lambda>p k. if column * 16 + (15 - int p) \<ge> display_width w then k
                             else paint_bit pixels (off_x w + column * 16) (off_y w + y) p k) [0..<16] (kern w)\<rparr>"

definition fetchWord_ofDisplayBits :: "int \<Rightarrow> int \<Rightarrow> 'w interp \<Rightarrow> int option" where
  "fetchWord_ofDisplayBits wordIndex displayBits s = fetchWord wordIndex displayBits s"

text \<open>The rows behind the old cursor.\<close>

fun restore_rows :: "int \<Rightarrow> nat list \<Rightarrow> machine interp \<Rightarrow> machine interp option" where
  "restore_rows displayBitmap [] s = Some s" |
  "restore_rows displayBitmap (v # vs) s =
     (let w = world s; y = prev_y w + int v;
          source_word_left = prev_x w sdiv 16; source_word_right = (prev_x w + 15) sdiv 16;
          display_width_words = (display_width w + 15) sdiv 16
      in if y \<ge> display_height w then restore_rows displayBitmap vs s
         else do {
           let source_index = source_word_left + y * display_width_words;
           source_pixel_l \<leftarrow> fetchWord_ofDisplayBits source_index displayBitmap s;
           let s = in_world (restore_word source_pixel_l source_word_left y) s;
           if source_word_left = source_word_right then restore_rows displayBitmap vs s
           else do {
             source_pixel_r \<leftarrow> fetchWord_ofDisplayBits (source_index + 1) displayBitmap s;
             restore_rows displayBitmap vs (in_world (restore_word source_pixel_r source_word_right y) s)
           }
         })"

definition draw_pointer_row :: "int \<Rightarrow> int \<Rightarrow> machine \<Rightarrow> nat \<Rightarrow> kernel \<Rightarrow> kernel" where
  "draw_pointer_row m_x m_y w v k =
     (if m_y + int v \<ge> display_height w then k
      else fold (\<lambda>p k. if m_x + (15 - int p) \<ge> display_width w then k
                       else if MyCursorSymbol w ! v AND push_bit p 1 \<noteq> 0
                       then SetPixel (word_of_int (off_x w + m_x + (15 - int p))) (word_of_int (off_y w + m_y + int v))
                              (ucast (GetCursorColor k)) k
                       else k) [0..<16] k)"

definition update_cursor :: "int \<Rightarrow> int \<Rightarrow> machine interp \<Rightarrow> machine interp option" where
  "update_cursor m_x m_y s =
     do {
       displayBitmap \<leftarrow> getDisplayBits (display_width (world s)) (display_height (world s)) s;
       if displayBitmap = 0 then Some s
       else do {
         s \<leftarrow> restore_rows displayBitmap [0..<16] s;
         Some (in_world (\<lambda>w. w\<lparr>kern := fold (draw_pointer_row m_x m_y w) [0..<16] (kern w), prev_x := m_x, prev_y := m_y\<rparr>) s)
       }
     }"

text \<open>So many words of a row of the texture, from a word and a column on; then so many rows.\<close>

fun texture_words :: "nat \<Rightarrow> int \<Rightarrow> int \<Rightarrow> int \<Rightarrow> int \<Rightarrow> int \<Rightarrow> machine interp \<Rightarrow> machine interp option" where
  "texture_words 0 source_index displayBitmap xp yp h s = Some s" |
  "texture_words (Suc n) source_index displayBitmap xp yp h s =
     do {
       let w = world s;
       s \<leftarrow> (if yp + h < display_height w \<and> yp \<ge> 0 then do {
               source_pixel \<leftarrow> fetchWord_ofDisplayBits source_index displayBitmap s;
               Some (if xp < display_width w \<and> xp \<ge> 0
                     then in_world (\<lambda>w. w\<lparr>kern := paint_word source_pixel (off_x w + xp) (off_y w + yp + h) (kern w)\<rparr>) s
                     else s)
             } else Some s);
       texture_words n (source_index + 1) displayBitmap (xp + 16) yp h s
     }"

fun texture_rows :: "nat \<Rightarrow> int \<Rightarrow> nat \<Rightarrow> int \<Rightarrow> int \<Rightarrow> int \<Rightarrow> int \<Rightarrow> machine interp \<Rightarrow> machine interp option" where
  "texture_rows 0 h update_word_width source_index_row displayBitmap xp yp s = Some s" |
  "texture_rows (Suc n) h update_word_width source_index_row displayBitmap xp yp s =
     do {
       s \<leftarrow> texture_words update_word_width source_index_row displayBitmap xp yp h s;
       texture_rows n (h + 1) update_word_width (source_index_row + (display_width (world s) + 15) sdiv 16)
         displayBitmap xp yp s
     }"

definition update_texture :: "machine interp \<Rightarrow> machine interp option" where
  "update_texture s =
     do {
       let w = world s;
       let r = dirty_rect w;
       let source_word_left = rect_x r sdiv 16;
       let source_word_right = (rect_x r + rect_w r - 1) sdiv 16;
       let display_width_words = (display_width w + 15) sdiv 16;
       let source_index_row = source_word_left + rect_y r * display_width_words;
       let update_word_width = source_word_right - source_word_left + 1;
       displayBitmap \<leftarrow> getDisplayBits (display_width w) (display_height w) s;
       if displayBitmap = 0 then Some s
       else texture_rows (nat (rect_h r)) 0 (nat update_word_width) source_index_row displayBitmap (source_word_left * 16)
              (rect_y r) s
     }"

end
