(* ===== verification/VmInput.thy ===== *)
theory VmInput
  imports VmMachine
begin

text \<open>
  Input events (\<^verbatim>\<open>smalltalk/src/smalltalk.cpp\<close>): the words of the input queue, each announced to the interpreter by a
  signal, for the time, the keyboard, the mouse buttons and the position of the mouse.  A word has a type in the upper four
  bits and a parameter in the lower twelve.
\<close>

definition queue_input_word :: "int \<Rightarrow> machine interp \<Rightarrow> machine interp option" where
  "queue_input_word w s =
     (if input_semaphore (world s) = 0 then None
      else asynchronousSignal (input_semaphore (world s)) (in_world (\<lambda>m. m\<lparr>input_queue := input_queue m @ [w]\<rparr>) s))"

definition queue_typed_word :: "int \<Rightarrow> int \<Rightarrow> machine interp \<Rightarrow> machine interp option" where
  "queue_typed_word type parameter s = queue_input_word (push_bit 12 (type AND 0xF) OR (parameter AND 0xFFF)) s"

text \<open>The counter of events is an \<^verbatim>\<open>int\<close>.\<close>

definition queue_input_time_words :: "machine interp \<Rightarrow> machine interp option" where
  "queue_input_time_words s =
     do {
       let (now, w) = vm_get_msclock (world s);
       let delta_time = (if event_count w = 0 then 0 else now - last_event_time w);
       if event_count w = 2147483647 then None
       else do {
         let s = s\<lparr>world := w\<lparr>event_count := event_count w + 1\<rparr>\<rparr>;
         s \<leftarrow> (if delta_time \<le> 4095 then queue_typed_word 0 (take_bit 16 (uint delta_time)) s
               else do {
                 let (abs_time, w) = vm_get_smalltalk_epoch_time (world s);
                 s \<leftarrow> queue_typed_word 5 0 (s\<lparr>world := w\<rparr>);
                 s \<leftarrow> queue_input_word (uint (drop_bit 16 abs_time AND 0xFFFF)) s;
                 queue_input_word (uint (abs_time AND 0xFFFF)) s
               });
         Some (in_world (\<lambda>m. m\<lparr>last_event_time := now\<rparr>) s)
       }
     }"

text \<open>A word that is queued under a condition.\<close>

definition queue_if :: "bool \<Rightarrow> int \<Rightarrow> int \<Rightarrow> machine interp \<Rightarrow> machine interp option" where
  "queue_if b type parameter s = (if b then queue_typed_word type parameter s else Some s)"

definition handle_cooked_keyboard_key :: "BYTE list \<Rightarrow> machine interp \<Rightarrow> machine interp option" where
  "handle_cooked_keyboard_key keySeq s =
     (let param = uint (keySeq ! 0); ctrl_state = uint (keySeq ! 1)
      in if param = 0 \<or> param > 255 \<or> ctrl_state > 3 then Some s
         else do {
           s \<leftarrow> queue_input_time_words s;
           s \<leftarrow> queue_if (ctrl_state AND 1 \<noteq> 0) 3 138 s;
           s \<leftarrow> queue_if (ctrl_state AND 2 \<noteq> 0) 3 136 s;
           s \<leftarrow> queue_typed_word 3 param s;
           s \<leftarrow> queue_typed_word 4 param s;
           s \<leftarrow> queue_if (ctrl_state AND 2 \<noteq> 0) 4 136 s;
           queue_if (ctrl_state AND 1 \<noteq> 0) 4 138 s
         })"

definition smalltalk_button :: "DWORD \<Rightarrow> (int \<times> nat) option" where
  "smalltalk_button buttons =
     (if buttons = 1 then Some (130, 0) else if buttons = 2 then Some (128, 1) else if buttons = 4 then Some (129, 2)
      else None)"

definition handle_mouse_button_event :: "DWORD \<Rightarrow> DWORD \<Rightarrow> machine interp \<Rightarrow> machine interp option" where
  "handle_mouse_button_event buttons down s =
     (case smalltalk_button buttons of
        None \<Rightarrow> Some s
      | Some (button, button_index) \<Rightarrow> do {
          let s = in_world (\<lambda>m. m\<lparr>button_down_mods := (button_down_mods m)[button_index := 0]\<rparr>) s;
          s \<leftarrow> queue_input_time_words s;
          queue_typed_word (if down \<noteq> 0 then 3 else 4) button s
        })"

definition handle_mouse_movement_event :: "int \<Rightarrow> int \<Rightarrow> machine interp \<Rightarrow> machine interp option" where
  "handle_mouse_movement_event x y s =
     do {
       s \<leftarrow> queue_input_time_words s;
       s \<leftarrow> queue_typed_word 1 (take_bit 16 x) s;
       s \<leftarrow> queue_input_time_words s;
       queue_typed_word 1 (take_bit 16 y) s
     }"

text \<open>The button that is reported when the buttons have changed: the highest one.  If none of the three has, the variable
is not initialised.\<close>

definition changed_button :: "DWORD \<Rightarrow> DWORD \<Rightarrow> DWORD option" where
  "changed_button mouse_mb old =
     (if mouse_mb AND 4 \<noteq> old AND 4 then Some 4 else if mouse_mb AND 2 \<noteq> old AND 2 then Some 2
      else if mouse_mb AND 1 \<noteq> old AND 1 then Some 1 else None)"

definition process_events :: "machine interp \<Rightarrow> machine interp option" where
  "process_events s =
     (if input_semaphore (world s) = 0 then Some s
      else do {
        let (keySeq, w) = in_kernel GetCookedKeyboardKey (world s);
        let s = s\<lparr>world := w\<rparr>;
        s \<leftarrow> (if keySeq ! 0 \<noteq> 0 then handle_cooked_keyboard_key keySeq s else Some s);
        let (x, y, mouse_mb) = GetMouseState (kern (world s));
        let x = x - off_x (world s);
        let y = y - off_y (world s);
        s \<leftarrow> (if mouse_mb \<noteq> mouse_oldmb (world s) then do {
                b \<leftarrow> changed_button mouse_mb (mouse_oldmb (world s));
                handle_mouse_button_event b (mouse_mb AND b) (in_world (\<lambda>m. m\<lparr>mouse_oldmb := mouse_mb\<rparr>) s)
              } else Some s);
        handle_mouse_movement_event x y s
      })"

definition vm_next_input_word :: "machine \<Rightarrow> int option \<times> machine" where
  "vm_next_input_word w =
     (case input_queue w of [] \<Rightarrow> (None, w) | word # q \<Rightarrow> (Some word, w\<lparr>input_queue := q\<rparr>))"

end
