(* ===== verification/VmRun.thy ===== *)
theory VmRun
  imports VmInput
begin

text \<open>
  The frames of the virtual machine (\<^verbatim>\<open>smalltalk/src/smalltalk.cpp\<close>, \<^verbatim>\<open>smalltalk.h\<close>, \<^verbatim>\<open>raspberry/kernel.cpp\<close>):
  the devices that the interpreter is given, rendering, and the loop that handles events, runs the interpreter and
  renders.  What keyboard and mouse report is an argument, a list of reports for each frame.
\<close>

section \<open>The devices of the interpreter\<close>

definition vm_signal_quit :: "machine \<Rightarrow> machine" where
  "vm_signal_quit w = w\<lparr>quit_signalled := True\<rparr>"

definition vm_exit_to_debugger :: "machine \<Rightarrow> machine" where
  "vm_exit_to_debugger w = w\<lparr>aborted := True\<rparr>"

definition vm_set_image_name :: "int list \<Rightarrow> machine \<Rightarrow> machine" where
  "vm_set_image_name new_name w = w\<lparr>image_name := new_name\<rparr>"

definition vm_set_link_cursor :: "bool \<Rightarrow> machine \<Rightarrow> machine" where
  "vm_set_link_cursor link w = w"

definition vm_hal :: "machine hal" where
  "vm_hal =
     \<lparr>set_input_semaphore = vm_set_input_semaphore, get_smalltalk_epoch_time = vm_get_smalltalk_epoch_time,
      get_msclock = vm_get_msclock, signal_at = vm_signal_at, set_cursor_image = vm_set_cursor_image,
      set_cursor_location = vm_set_cursor_location, get_cursor_location = vm_get_cursor_location,
      set_link_cursor = vm_set_link_cursor, set_display_size = vm_set_display_size,
      display_changed = vm_display_changed, next_input_word = vm_next_input_word, signal_quit = vm_signal_quit,
      exit_to_debugger = vm_exit_to_debugger, get_image_name = image_name, set_image_name = vm_set_image_name\<rparr>"

definition in_files :: "(adapter option \<Rightarrow> 'r \<times> adapter option) \<Rightarrow> machine \<Rightarrow> 'r \<times> machine" where
  "in_files f w = (let (r, a) = f (files w) in (r, w\<lparr>files := a\<rparr>))"

definition vm_filesystem :: "machine filesystem" where
  "vm_filesystem =
     \<lparr>create_file = (\<lambda>name. in_files (create_file fat_filesystem name)),
      open_file = (\<lambda>name. in_files (open_file fat_filesystem name)),
      close_file = (\<lambda>fd. in_files (close_file fat_filesystem fd)),
      seek_to = (\<lambda>fd position. in_files (seek_to fat_filesystem fd position)),
      tell = (\<lambda>fd. in_files (tell fat_filesystem fd)),
      read_bytes = (\<lambda>fd bytes. in_files (read_bytes fat_filesystem fd bytes)),
      write_bytes = (\<lambda>fd buffer bytes. in_files (write_bytes fat_filesystem fd buffer bytes)),
      truncate_to = (\<lambda>fd length. in_files (truncate_to fat_filesystem fd length)),
      file_size = (\<lambda>fd. in_files (file_size fat_filesystem fd)),
      enumerate_files = in_files (enumerate_files fat_filesystem),
      rename_file = (\<lambda>old_name new_name. in_files (rename_file fat_filesystem old_name new_name)),
      delete_file = (\<lambda>name. in_files (delete_file fat_filesystem name)),
      last_error = (\<lambda>w. last_error fat_filesystem (files w)),
      error_text = (\<lambda>code w. error_text fat_filesystem code (files w))\<rparr>"

definition vm_devices :: "float_unit \<Rightarrow> machine devices" where
  "vm_devices fl = \<lparr>hal = vm_hal, fileSystem = vm_filesystem, floats = fl\<rparr>"

section \<open>Rendering\<close>

definition render :: "machine interp \<Rightarrow> machine interp option" where
  "render s =
     (if screen_initialized (world s) then do {
        s \<leftarrow> (if texture_needs_update (world s) then do {
                s \<leftarrow> update_texture s;
                Some (in_world (\<lambda>m. m\<lparr>texture_needs_update := False\<rparr>) s)
              } else Some s);
        let w = world s;
        let (mouseX, mouseY, mouseB) = GetMouseState (kern w);
        let mouseX = mouseX - off_x w;
        let mouseY = mouseY - off_y w;
        let mouseX = (if mouseX \<ge> display_width w then display_width w - 1 else mouseX);
        let mouseY = (if mouseY \<ge> display_height w then display_height w - 1 else mouseY);
        let mouseX = (if mouseX < 0 then 0 else mouseX);
        let mouseY = (if mouseY < 0 then 0 else mouseY);
        s \<leftarrow> update_cursor mouseX mouseY s;
        Some (in_world (\<lambda>m. m\<lparr>dirty_rect := \<lparr>rect_x = 0, rect_y = 0, rect_w = 0, rect_h = 0\<rparr>\<rparr>) s)
      } else Some s)"

section \<open>Frames\<close>

text \<open>The offset of the display on the screen; the difference is unsigned.\<close>

definition display_offset :: "DWORD \<Rightarrow> int \<Rightarrow> int" where
  "display_offset screen display =
     (let off = uint ((screen - word_of_int display) div 2) in if off > display sdiv 2 then 0 else off)"

definition stopped :: "machine \<Rightarrow> bool" where
  "stopped w \<longleftrightarrow> aborted w \<or> files w = None"

fun cycles_loop :: "float_unit \<Rightarrow> nat \<Rightarrow> machine interp \<Rightarrow> machine interp option" where
  "cycles_loop fl 0 s = Some s" |
  "cycles_loop fl (Suc n) s =
     (if quit_signalled (world s) then Some s
      else do {
        s \<leftarrow> cycle (vm_devices fl) s;
        if stopped (world s) then None else cycles_loop fl n s
      })"

text \<open>One round of the loop of \<^verbatim>\<open>run\<close>; the result says whether it was the last.\<close>

definition frame :: "float_unit \<Rightarrow> machine interp \<Rightarrow> (bool \<times> machine interp) option" where
  "frame fl s =
     do {
       let s = in_world (\<lambda>m. m\<lparr>off_x := display_offset (GetWidth (kern m)) (display_width m),
                               off_y := display_offset (GetHeight (kern m)) (display_height m)\<rparr>) s;
       s \<leftarrow> process_events s;
       s \<leftarrow> check_scheduled_semaphore s;
       let s = checkLowMemoryConditions s;
       s \<leftarrow> cycles_loop fl (nat (cycles_per_frame (world s))) s;
       if quit_signalled (world s) then Some (True, s)
       else do { s \<leftarrow> render s; Some (False, s) }
     }"

datatype report = Mouse DWORD int int int | Key "BYTE list"

definition take_report :: "report \<Rightarrow> kernel \<Rightarrow> kernel option" where
  "take_report r k =
     (case r of Mouse buttons dx dy wheel \<Rightarrow> Some (MouseStatusChanged buttons dx dy wheel k)
      | Key str \<Rightarrow> KeyPressedHandler str k)"

fun take_reports :: "report list \<Rightarrow> kernel \<Rightarrow> kernel option" where
  "take_reports [] k = Some k" |
  "take_reports (r # rs) k = do { k \<leftarrow> take_report r k; take_reports rs k }"

text \<open>The frames for so many lists of reports, or until the image quits.\<close>

fun run :: "float_unit \<Rightarrow> report list list \<Rightarrow> machine interp \<Rightarrow> (bool \<times> machine interp) option" where
  "run fl [] s = Some (False, s)" |
  "run fl (rs # rss) s =
     do {
       k \<leftarrow> take_reports rs (kern (world s));
       (quit, s) \<leftarrow> frame fl (in_world (\<lambda>m. m\<lparr>kern := k\<rparr>) s);
       if quit then Some (True, s) else run fl rss s
     }"

section \<open>Start and end\<close>

text \<open>The constructor; it leaves the rectangle and the flag of the screen as they are.\<close>

definition VirtualMachine :: "BYTE list \<Rightarrow> int list \<Rightarrow> int \<Rightarrow> adapter \<Rightarrow> machine \<Rightarrow> machine" where
  "VirtualMachine root snapshot_name cycles a w =
     w\<lparr>cycles_per_frame := cycles, files := Some (FatST80FileSystem root a), last_event_time := 0, event_count := 0,
       input_semaphore := 0, quit_signalled := False, texture_needs_update := False, display_width := 0,
       display_height := 0, scheduled_semaphore := 0, scheduled_time := 0, image_name := snapshot_name,
       input_queue := [], off_x := 0, off_y := 0, MyCursorSymbol := replicate 16 0\<rparr>"

definition vm_init :: "float_unit \<Rightarrow> image \<Rightarrow> machine interp \<Rightarrow> (bool \<times> image \<times> machine interp) option" where
  "vm_init fl im s = init (vm_devices fl) im (in_world (\<lambda>m. m\<lparr>texture_needs_update := False, quit_signalled := False\<rparr>) s)"

definition VirtualMachine_end :: "machine \<Rightarrow> machine" where
  "VirtualMachine_end w = snd (in_files (running False shutdown) w)"

text \<open>The kernel starts the machine on the root directory of the card and runs it.\<close>

definition smalltalk :: "float_unit \<Rightarrow> image \<Rightarrow> int \<Rightarrow> adapter \<Rightarrow> report list list \<Rightarrow> machine interp \<Rightarrow> machine interp option" where
  "smalltalk fl im cycles a rss s =
     do {
       let s = in_world (VirtualMachine [0x2F] [115, 110, 97, 112, 115, 104, 111, 116, 46, 105, 109] cycles a) s;
       (ok, im, s) \<leftarrow> vm_init fl im s;
       if stopped (world s) then None
       else do {
         (_, s) \<leftarrow> (if ok then run fl rss s else Some (False, s));
         Some (in_world VirtualMachine_end s)
       }
     }"

end
