(* ===== verification/OmSnapshotProps.thy ===== *)
theory OmSnapshotProps
  imports OmSnapshot
begin

text \<open>
  Saving a snapshot against the contract of a file system.  The locale \<open>descriptor_files\<close> states what the snapshots rely
  on: opening takes a free descriptor, closing gives it back, and the other operations on a descriptor leave the others
  alone.  A saved snapshot then leaves the table of descriptors as it was, and the object memory too: the entries that
  are changed while they are written are restored.
\<close>

section \<open>What an operation that returns ensures\<close>

definition ensures :: "'a option \<Rightarrow> ('a \<Rightarrow> bool) \<Rightarrow> bool" where
  "ensures r P \<longleftrightarrow> (\<forall>x. r = Some x \<longrightarrow> P x)"

lemma ensures_Some [simp]: "ensures (Some x) P \<longleftrightarrow> P x"
  and ensures_None [simp]: "ensures None P"
  by (simp_all add: ensures_def)

lemma ensures_bind: "ensures (r \<bind> f) P \<longleftrightarrow> ensures r (\<lambda>x. ensures (f x) P)"
  by (cases r) simp_all

lemma ensures_bindI: "(\<And>x. r = Some x \<Longrightarrow> ensures (f x) P) \<Longrightarrow> ensures (r \<bind> f) P"
  by (cases r) simp_all

lemma ensuresI: "(\<And>x. r = Some x \<Longrightarrow> P x) \<Longrightarrow> ensures r P"
  and ensuresD: "ensures r P \<Longrightarrow> r = Some x \<Longrightarrow> P x"
  by (simp_all add: ensures_def)

lemma ensures_mono: "ensures r Q \<Longrightarrow> (\<And>x. r = Some x \<Longrightarrow> Q x \<Longrightarrow> P x) \<Longrightarrow> ensures r P"
  by (simp add: ensures_def)

lemma ensures_any: "(\<And>x. P x) \<Longrightarrow> ensures r P"
  by (simp add: ensures_def)

section \<open>The object memory\<close>

text \<open>Equal but for the two words of an entry.\<close>

definition same_but :: "int \<Rightarrow> omem \<Rightarrow> omem \<Rightarrow> bool" where
  "same_but p m m' \<longleftrightarrow> (\<exists>f. m' = m\<lparr>cell := f\<rparr> \<and> (\<forall>s w. s \<noteq> 15 \<or> w \<noteq> p \<and> w \<noteq> p + 1 \<longrightarrow> f s w = cell m s w))"

lemma same_but_refl [simp]: "same_but p m m"
  unfolding same_but_def by (rule exI [of _ "cell m"]) simp

lemma same_but_set_cell:
  assumes "same_but p m m'" "w = p \<or> w = p + 1"
  shows "same_but p m (set_cell 15 w x m')"
proof -
  obtain f where f: "m' = m\<lparr>cell := f\<rparr>" "\<And>s u. s \<noteq> 15 \<or> u \<noteq> p \<and> u \<noteq> p + 1 \<Longrightarrow> f s u = cell m s u"
    using assms(1) by (auto simp: same_but_def)
  then have "set_cell 15 w x m' = m\<lparr>cell := f(15 := (f 15)(w := x))\<rparr>" by (simp add: set_cell_def)
  then show ?thesis unfolding same_but_def using f(2) assms(2) by (intro exI [of _ "f(15 := (f 15)(w := x))"]) auto
qed

lemma same_but_ot_put: "ot_put p v m' = Some m'' \<Longrightarrow> same_but p m m' \<Longrightarrow> same_but p m m''"
  by (auto simp: ot_put_def segment_word_put_def same_but_set_cell split: bind_splits if_splits)

lemma same_but_location: "locationBitsOf_put p v m' = Some m'' \<Longrightarrow> same_but p m m' \<Longrightarrow> same_but p m m''"
  by (auto simp: locationBitsOf_put_def segment_word_put_def same_but_set_cell split: bind_splits if_splits)

lemma same_but_bits: "ot_bits_to_put p i j v m' = Some m'' \<Longrightarrow> same_but p m m' \<Longrightarrow> same_but p m m''"
  by (auto simp: ot_bits_to_put_def segment_word_bits_to_put_def Let_def same_but_set_cell split: bind_splits if_splits)

lemma same_but_free: "freeBitOf_put p v m' = Some m'' \<Longrightarrow> same_but p m m' \<Longrightarrow> same_but p m m''"
  and same_but_segment: "segmentBitsOf_put p v m' = Some m'' \<Longrightarrow> same_but p m m' \<Longrightarrow> same_but p m m''"
  by (simp_all add: freeBitOf_put_def segmentBitsOf_put_def same_but_bits)

lemmas same_but_puts = same_but_ot_put same_but_location same_but_free same_but_segment

lemma same_but_restored:
  assumes "same_but p m m1" "ot p m = Some v" "locationBitsOf p m = Some l"
    and "ot_put p v m1 = Some m2" "locationBitsOf_put p l m2 = Some m3"
  shows "m3 = m"
proof -
  obtain f where f: "m1 = m\<lparr>cell := f\<rparr>" "\<And>s u. s \<noteq> 15 \<or> u \<noteq> p \<and> u \<noteq> p + 1 \<Longrightarrow> f s u = cell m s u"
    using assms(1) by (auto simp: same_but_def)
  have "v = uint (cell m 15 p)" "l = uint (cell m 15 (p + 1))"
    using assms(2,3) by (auto simp: ot_def locationBitsOf_def segment_word_def split: bind_splits if_splits)
  then have "m3 = set_cell 15 (p + 1) (cell m 15 (p + 1)) (set_cell 15 p (cell m 15 p) m1)"
    using assms(4,5) by (auto simp: ot_put_def locationBitsOf_put_def segment_word_put_def split: bind_splits if_splits)
  then have "m3 = m\<lparr>cell := f(15 := (f 15)(p := cell m 15 p, p + 1 := cell m 15 (p + 1)))\<rparr>"
    using f(1) by (simp add: set_cell_def)
  moreover have "f(15 := (f 15)(p := cell m 15 p, p + 1 := cell m 15 (p + 1))) = cell m"
    using f(2) by (auto simp: fun_eq_iff)
  ultimately show ?thesis by simp
qed

lemma save_entry_memory: "ensures (save_entry p address m) (\<lambda>(bs, address', m'). m' = m)"
proof -
  have marked: "ensures (if b then freeBitOf_put p 1 m else Some m) (same_but p m)" for b
    by (auto intro!: ensuresI dest: same_but_free [OF _ same_but_refl])
  have entry: "ensures (if f \<noteq> (0 :: int) then do {
          m1 \<leftarrow> ot_put p 0 m1;
          m1 \<leftarrow> freeBitOf_put p 1 m1;
          m1 \<leftarrow> locationBitsOf_put p 0 m1;
          Some (address, m1)
        } else do {
          objectSize \<leftarrow> sizeBitsOf p m1;
          m1 \<leftarrow> segmentBitsOf_put p (drop_bit 16 address) m1;
          m1 \<leftarrow> locationBitsOf_put p (address AND 0xFFFF) m1;
          Some (address + objectSize, m1)
        }) (\<lambda>(address, m1). same_but p m m1)" if "same_but p m m1" for f m1
    using that by (auto intro!: ensures_bindI) (blast intro: same_but_puts)+
  show ?thesis
    unfolding save_entry_def
  proof (rule ensures_bindI, rule ensures_bindI)
    fix v l
    assume *: "ot p m = Some v" "locationBitsOf p m = Some l"
    have restored: "ensures
        (do {
           x0 \<leftarrow> ot p m1;
           x1 \<leftarrow> locationBitsOf p m1;
           m1 \<leftarrow> ot_put p v m1;
           m1 \<leftarrow> locationBitsOf_put p l m1;
           Some (word_bytes x0 @ word_bytes x1, address, m1)
         }) (\<lambda>(bs, address', m'). m' = m)" if "same_but p m m1" for address m1
      using same_but_restored [OF that *] by (auto intro!: ensures_bindI)
    show "ensures
        (do {
           (address, m) \<leftarrow>
             (if p \<ge> 2 then do {
                f \<leftarrow> freeBitOf p m;
                c \<leftarrow> countBitsOf p m;
                m \<leftarrow> (if f = 0 \<and> c = 0 then freeBitOf_put p 1 m else Some m);
                f \<leftarrow> freeBitOf p m;
                if f \<noteq> 0 then do {
                  m \<leftarrow> ot_put p 0 m;
                  m \<leftarrow> freeBitOf_put p 1 m;
                  m \<leftarrow> locationBitsOf_put p 0 m;
                  Some (address, m)
                } else do {
                  objectSize \<leftarrow> sizeBitsOf p m;
                  m \<leftarrow> segmentBitsOf_put p (drop_bit 16 address) m;
                  m \<leftarrow> locationBitsOf_put p (address AND 0xFFFF) m;
                  Some (address + objectSize, m)
                }
              } else Some (address, m));
           x0 \<leftarrow> ot p m;
           x1 \<leftarrow> locationBitsOf p m;
           m \<leftarrow> ot_put p v m;
           m \<leftarrow> locationBitsOf_put p l m;
           Some (word_bytes x0 @ word_bytes x1, address, m)
         }) (\<lambda>(bs, address', m'). m' = m)"
    proof (unfold ensures_bind [where f = "\<lambda>(address, m). G address m" for G],
           rule ensures_mono [where Q = "\<lambda>(address, m1). same_but p m m1"])
      show "ensures (if p \<ge> 2 then do {
                f \<leftarrow> freeBitOf p m;
                c \<leftarrow> countBitsOf p m;
                m \<leftarrow> (if f = 0 \<and> c = 0 then freeBitOf_put p 1 m else Some m);
                f \<leftarrow> freeBitOf p m;
                if f \<noteq> 0 then do {
                  m \<leftarrow> ot_put p 0 m;
                  m \<leftarrow> freeBitOf_put p 1 m;
                  m \<leftarrow> locationBitsOf_put p 0 m;
                  Some (address, m)
                } else do {
                  objectSize \<leftarrow> sizeBitsOf p m;
                  m \<leftarrow> segmentBitsOf_put p (drop_bit 16 address) m;
                  m \<leftarrow> locationBitsOf_put p (address AND 0xFFFF) m;
                  Some (address + objectSize, m)
                }
              } else Some (address, m)) (\<lambda>(address, m1). same_but p m m1)"
        using ensuresD [OF marked] entry by (auto intro!: ensures_bindI)
    qed (use restored in auto)
  qed
qed

section \<open>The contract of a file system\<close>

text \<open>The change of the table of descriptors by an operation that takes a descriptor, gives one back, or uses one; a
table that is \<open>None\<close> belongs to a machine that has stopped.\<close>

definition takes_descriptor :: "int \<Rightarrow> (int \<Rightarrow> 'f option) option \<Rightarrow> (int \<Rightarrow> 'f option) option \<Rightarrow> bool" where
  "takes_descriptor fd t t' \<longleftrightarrow>
     (\<forall>s'. t' = Some s' \<longrightarrow> (\<exists>s. t = Some s \<and> (if fd = -1 then s' = s else s fd = None \<and> (\<exists>f. s' = s(fd := Some f)))))"

definition gives_descriptor :: "int \<Rightarrow> (int \<Rightarrow> 'f option) option \<Rightarrow> (int \<Rightarrow> 'f option) option \<Rightarrow> bool" where
  "gives_descriptor fd t t' \<longleftrightarrow> (\<forall>s'. t' = Some s' \<longrightarrow> (\<exists>s. t = Some s \<and> s' = s(fd := None)))"

definition uses_descriptor :: "int \<Rightarrow> (int \<Rightarrow> 'f option) option \<Rightarrow> (int \<Rightarrow> 'f option) option \<Rightarrow> bool" where
  "uses_descriptor fd t t' \<longleftrightarrow>
     (\<forall>s'. t' = Some s' \<longrightarrow> (\<exists>s. t = Some s \<and> s'(fd := None) = s(fd := None) \<and> (s' fd = None \<longleftrightarrow> s fd = None)))"

lemma uses_refl [simp]: "uses_descriptor fd t t"
  by (simp add: uses_descriptor_def)

lemma uses_trans: "uses_descriptor fd t t' \<Longrightarrow> uses_descriptor fd t' t'' \<Longrightarrow> uses_descriptor fd t t''"
  unfolding uses_descriptor_def by metis

lemma uses_nothing:
  assumes "uses_descriptor fd t (Some s)" "t = Some s0" "s0 fd = None"
  shows "t = Some s"
proof -
  have "s(fd := None) = s0(fd := None)" "s fd = None" using assms by (auto simp: uses_descriptor_def)
  then have "s = s0" using assms(3) by (metis fun_upd_triv)
  then show ?thesis using assms(2) by simp
qed

lemma taken_and_given:
  assumes "takes_descriptor fd t t1" "fd \<noteq> -1" "uses_descriptor fd t1 t2" "gives_descriptor fd t2 (Some s)"
  shows "t = Some s"
proof -
  obtain s2 where 2: "t2 = Some s2" "s = s2(fd := None)" using assms(4) by (auto simp: gives_descriptor_def)
  obtain s1 where 1: "t1 = Some s1" "s2(fd := None) = s1(fd := None)" using assms(3) 2 by (auto simp: uses_descriptor_def)
  obtain s0 f where 0: "t = Some s0" "s0 fd = None" "s1 = s0(fd := Some f)"
    using assms(1,2) 1 by (auto simp: takes_descriptor_def)
  have "s0(fd := None) = s0" using 0(2) by (intro ext) simp
  then show ?thesis using 0 1 2 by simp
qed

locale descriptor_files =
  fixes fs :: "'w filesystem"
    and valid :: "'w \<Rightarrow> bool"
    and descriptors :: "'w \<Rightarrow> (int \<Rightarrow> 'f option) option"
  assumes no_descriptor: "descriptors w = Some s \<Longrightarrow> s (-1) = None"
    and create: "valid w \<Longrightarrow> create_file fs name w = (fd, w') \<Longrightarrow>
      valid w' \<and> takes_descriptor fd (descriptors w) (descriptors w')"
    and file_opening: "valid w \<Longrightarrow> open_file fs name w = (fd, w') \<Longrightarrow>
      valid w' \<and> takes_descriptor fd (descriptors w) (descriptors w')"
    and closing: "valid w \<Longrightarrow> close_file fs fd w = (r, w') \<Longrightarrow>
      valid w' \<and> gives_descriptor fd (descriptors w) (descriptors w')"
    and seek: "valid w \<Longrightarrow> seek_to fs fd pos w = (r, w') \<Longrightarrow>
      valid w' \<and> uses_descriptor fd (descriptors w) (descriptors w')"
    and telling: "valid w \<Longrightarrow> tell fs fd w = (r, w') \<Longrightarrow>
      valid w' \<and> uses_descriptor fd (descriptors w) (descriptors w')"
    and reading: "valid w \<Longrightarrow> read_bytes fs fd n w = (rb, w') \<Longrightarrow>
      valid w' \<and> uses_descriptor fd (descriptors w) (descriptors w')"
    and writing: "valid w \<Longrightarrow> write_bytes fs fd bs n w = (r, w') \<Longrightarrow>
      valid w' \<and> uses_descriptor fd (descriptors w) (descriptors w')"
    and sizing: "valid w \<Longrightarrow> file_size fs fd w = (r, w') \<Longrightarrow>
      valid w' \<and> uses_descriptor fd (descriptors w) (descriptors w')"
begin

definition keeps :: "int \<Rightarrow> 'w \<Rightarrow> 'w \<Rightarrow> bool" where
  "keeps fd w w' \<longleftrightarrow> (valid w \<longrightarrow> valid w' \<and> uses_descriptor fd (descriptors w) (descriptors w'))"

lemma keeps_refl [simp]: "keeps fd w w"
  by (simp add: keeps_def)

lemma keeps_trans: "keeps fd w w' \<Longrightarrow> keeps fd w' w'' \<Longrightarrow> keeps fd w w''"
  unfolding keeps_def using uses_trans by blast

lemma operations_keep:
  "seek_to fs fd pos w = (r, w') \<Longrightarrow> keeps fd w w'"
  "tell fs fd w = (r, w') \<Longrightarrow> keeps fd w w'"
  "write_bytes fs fd bs n w = (r, w') \<Longrightarrow> keeps fd w w'"
  unfolding keeps_def using seek telling writing by blast+

lemma write_all_keeps: "write_all fs fd bs w = (ok, w') \<Longrightarrow> keeps fd w w'"
  by (auto simp: write_all_def split: prod.splits dest: operations_keep)

lemma pad_loop_keeps: "pad_loop fs fd n w = (ok, w') \<Longrightarrow> keeps fd w w'"
proof (induction n arbitrary: w)
  case (Suc n)
  obtain ok1 w1 where w1: "write_all fs fd (word_bytes 0) w = (ok1, w1)" by (cases "write_all fs fd (word_bytes 0) w")
  show ?case
    using Suc.prems Suc.IH [of w1] w1 write_all_keeps [OF w1] keeps_trans [of fd w w1] by (cases ok1) auto
qed simp

lemma padToPage_keeps: "padToPage fs fd w = (ok, w') \<Longrightarrow> keeps fd w w'"
  unfolding padToPage_def by (auto simp: Let_def split: prod.splits dest!: operations_keep pad_loop_keeps intro: keeps_trans)

text \<open>Each step of a loop extends the run so far.\<close>

lemma extended_by:
  assumes "keeps fd w0 w"
  shows write_extends: "(\<And>ok w1. keeps fd w0 w1 \<Longrightarrow> ensures (f ok w1) P) \<Longrightarrow>
      ensures (case write_all fs fd bs w of (ok, w) \<Rightarrow> f ok w) P"
    and pad_extends: "(\<And>ok w1. keeps fd w0 w1 \<Longrightarrow> ensures (f ok w1) P) \<Longrightarrow>
      ensures (case padToPage fs fd w of (ok, w) \<Rightarrow> f ok w) P"
    and seek_extends: "(\<And>r w1. keeps fd w0 w1 \<Longrightarrow> ensures (g r w1) P) \<Longrightarrow>
      ensures (case seek_to fs fd pos w of (r, w) \<Rightarrow> g r w) P"
    and bytes_extends: "(\<And>r w1. keeps fd w0 w1 \<Longrightarrow> ensures (g r w1) P) \<Longrightarrow>
      ensures (case write_bytes fs fd bs n w of (r, w) \<Rightarrow> g r w) P"
proof -
  note step = keeps_trans [OF assms]
  show "(\<And>ok w1. keeps fd w0 w1 \<Longrightarrow> ensures (f ok w1) P) \<Longrightarrow> ensures (case write_all fs fd bs w of (ok, w) \<Rightarrow> f ok w) P"
    by (cases "write_all fs fd bs w") (simp add: step [OF write_all_keeps])
  show "(\<And>ok w1. keeps fd w0 w1 \<Longrightarrow> ensures (f ok w1) P) \<Longrightarrow> ensures (case padToPage fs fd w of (ok, w) \<Rightarrow> f ok w) P"
    by (cases "padToPage fs fd w") (simp add: step [OF padToPage_keeps])
  show "(\<And>r w1. keeps fd w0 w1 \<Longrightarrow> ensures (g r w1) P) \<Longrightarrow> ensures (case seek_to fs fd pos w of (r, w) \<Rightarrow> g r w) P"
    by (cases "seek_to fs fd pos w") (simp add: step [OF operations_keep(1)])
  show "(\<And>r w1. keeps fd w0 w1 \<Longrightarrow> ensures (g r w1) P) \<Longrightarrow> ensures (case write_bytes fs fd bs n w of (r, w) \<Rightarrow> g r w) P"
    by (cases "write_bytes fs fd bs n w") (simp add: step [OF operations_keep(3)])
qed

lemma save_fields_keeps:
  "save_fields fs' fd i n p m w = Some r \<Longrightarrow> fs' = fs \<Longrightarrow> keeps fd w0 w \<Longrightarrow> keeps fd w0 (snd r)"
proof (induction fs' fd i n p m w r rule: save_fields.raw_induct [rotated, consumes 1, case_names step])
  case (step rec fs' fd i n p m w r)
  have rec: "keeps fd w0 w \<Longrightarrow> ensures (rec fs fd i n p m w) (\<lambda>r. keeps fd w0 (snd r))" for i w
    using step(1) by (auto intro!: ensuresI)
  show ?case
    by (rule ensuresD [OF _ step(2)])
      (use step(3,4) in \<open>auto intro!: ensures_bindI rec elim: write_extends\<close>)
qed

lemma save_objects_keeps:
  "save_objects_loop fs' fd p tableLength spaceLength m w = Some r \<Longrightarrow> fs' = fs \<Longrightarrow> keeps fd w0 w \<Longrightarrow> keeps fd w0 (snd (snd r))"
proof (induction fs' fd p tableLength spaceLength m w r
    rule: save_objects_loop.raw_induct [rotated, consumes 1, case_names step])
  case (step rec fs' fd p tableLength spaceLength m w r)
  have rec: "keeps fd w0 w \<Longrightarrow> ensures (rec fs fd p tableLength spaceLength m w) (\<lambda>r. keeps fd w0 (snd (snd r)))"
    for p spaceLength w
    using step(1) by (auto intro!: ensuresI)
  show ?case
    by (rule ensuresD [OF _ step(2)])
      (use step(3,4) in \<open>auto intro!: ensures_bindI rec elim!: write_extends dest!: save_fields_keeps\<close>)
qed

lemma save_table_keeps:
  "save_table_loop fs' fd p tableLength address m w = Some r \<Longrightarrow> fs' = fs \<Longrightarrow> keeps fd w0 w \<Longrightarrow>
     fst (snd r) = m \<and> keeps fd w0 (snd (snd r))"
proof (induction fs' fd p tableLength address m w r
    rule: save_table_loop.raw_induct [rotated, consumes 1, case_names step])
  case (step rec fs' fd p tableLength address m w r)
  have rec: "keeps fd w0 w \<Longrightarrow>
      ensures (rec fs fd p tableLength address m w) (\<lambda>r. fst (snd r) = m \<and> keeps fd w0 (snd (snd r)))" for p address w
    using step(1) by (auto intro!: ensuresI)
  show ?case
    by (rule ensuresD [OF _ step(2)])
      (use step(3,4) in \<open>auto intro!: ensures_bindI rec elim!: write_extends dest!: ensuresD [OF save_entry_memory]\<close>)
qed

lemma saveObjects_keeps: "ensures (saveObjects fs fd m w) (\<lambda>(ok, m', w'). m' = m \<and> keeps fd w w')"
  unfolding saveObjects_def Let_def
  by (auto intro!: ensures_bindI write_extends [of fd w] pad_extends [of fd w] seek_extends [of fd w] bytes_extends [of fd w]
      dest!: save_objects_keeps [of _ _ _ _ _ _ _ _ w] save_table_keeps [of _ _ _ _ _ _ _ _ w])

lemma saveSnapshot_keeps:
  assumes "valid w"
  shows "ensures (saveSnapshot fs name m w)
           (\<lambda>(ok, m', w'). m' = m \<and> valid w' \<and> (\<forall>s. descriptors w' = Some s \<longrightarrow> descriptors w = Some s))"
proof -
  obtain fd w1 where w1: "create_file fs name w = (fd, w1)" by (cases "create_file fs name w")
  note c = create [OF assms w1]
  show ?thesis
  proof (cases "fd = -1")
    case True
    then show ?thesis using w1 c by (auto simp: saveSnapshot_def takes_descriptor_def)
  next
    case False
    have closed: "valid w3 \<and> (\<forall>s. descriptors w3 = Some s \<longrightarrow> descriptors w = Some s)"
      if "keeps fd w1 w2" "close_file fs fd w2 = (r, w3)" for w2 w3 r
      using that c closing [of w2 fd r w3] taken_and_given [of fd "descriptors w" "descriptors w1" "descriptors w2"] False
      by (auto simp: keeps_def)
    show ?thesis
      using False w1
      by (auto simp: saveSnapshot_def Let_def split: prod.splits intro!: ensures_bindI closed
          dest!: ensuresD [OF saveObjects_keeps])
  qed
qed

text \<open>Loading.  The image may be read word by word.\<close>

lemma reading_keeps:
  "read_bytes fs fd n w = (r, w') \<Longrightarrow> keeps fd w w'"
  "file_size fs fd w = (k, w') \<Longrightarrow> keeps fd w w'"
  unfolding keeps_def using reading sizing by blast+

lemma read_exactly_keeps: "read_exactly fs fd n w = (r, w') \<Longrightarrow> keeps fd w w'"
  by (auto simp: read_exactly_def split: prod.splits dest: reading_keeps)

text \<open>Loading goes on in the same boot mode.\<close>

definition loading :: "int \<Rightarrow> int \<Rightarrow> 'w \<Rightarrow> image \<Rightarrow> 'w \<Rightarrow> bool" where
  "loading b fd w0 im w \<longleftrightarrow> bootmode im = b \<and> keeps fd w0 w"

lemma copy_from_image_mode: "copy_from_image n im = Some (bs, im') \<Longrightarrow> bootmode im' = bootmode im"
  by (auto simp: copy_from_image_def split: if_splits)

lemma loading_steps:
  assumes "loading b fd w0 im w"
  shows "read_exactly fs fd n w = (x, w') \<Longrightarrow> loading b fd w0 im w'"
    and "seek_to fs fd pos w = (y, w') \<Longrightarrow> loading b fd w0 im w'"
    and "file_size fs fd w = (y, w') \<Longrightarrow> loading b fd w0 im w'"
    and "read_bytes fs fd n w = (z, w') \<Longrightarrow> loading b fd w0 im w'"
    and "copy_from_image n im = Some (bs, im') \<Longrightarrow> loading b fd w0 im' w"
    and "load_word fs fd im w = Some (v, im', w') \<Longrightarrow> loading b fd w0 im' w'"
  using assms keeps_trans
  by (auto simp: loading_def load_word_def Option.bind_eq_Some_conv copy_from_image_mode split: if_splits prod.splits
      dest!: read_exactly_keeps operations_keep reading_keeps copy_from_image_mode)

lemma loading_image [simp]:
  "loading b fd w0 (im\<lparr>im_offset := k\<rparr>) w = loading b fd w0 im w"
  "loading b fd w0 (im\<lparr>im_len := k\<rparr>) w = loading b fd w0 im w"
  "loading b fd w0 (im\<lparr>im_array := bs\<rparr>) w = loading b fd w0 im w"
  by (simp_all add: loading_def)

lemma loading_size: "loading b fd w0 im w \<Longrightarrow> loading b fd w0 im (snd (file_size fs fd w))"
  by (cases "file_size fs fd w") (auto intro: loading_steps)

lemma table_entries_loading:
  "table_entries fs' fd p tableLength s = Some r \<Longrightarrow> fs' = fs \<Longrightarrow> loading b fd w0 (fst s) (snd (snd s)) \<Longrightarrow>
     loading b fd w0 (fst (snd r)) (snd (snd (snd r)))"
proof (induction fs' fd p tableLength s r rule: table_entries.raw_induct [rotated, consumes 1, case_names step])
  case (step rec fs' fd p tableLength s r)
  have rec: "loading b fd w0 im w \<Longrightarrow>
      ensures (rec fs fd p tableLength (im, m, w)) (\<lambda>r. loading b fd w0 (fst (snd r)) (snd (snd (snd r))))" for p im m w
    using step(1) by (auto intro!: ensuresI)
  show ?case
    by (rule ensuresD [OF _ step(2)])
      (use step(3,4) in \<open>auto intro!: ensures_bindI rec split: prod.splits option.splits if_splits intro: loading_steps\<close>)
qed

lemma load_fields_loading:
  "load_fields fs' fd i n p s = Some r \<Longrightarrow> fs' = fs \<Longrightarrow> loading b fd w0 (fst s) (snd (snd s)) \<Longrightarrow>
     loading b fd w0 (fst r) (snd (snd r))"
proof (induction fs' fd i n p s r rule: load_fields.raw_induct [rotated, consumes 1, case_names step])
  case (step rec fs' fd i n p s r)
  have rec: "loading b fd w0 im w \<Longrightarrow>
      ensures (rec fs fd i n p (im, m, w)) (\<lambda>r. loading b fd w0 (fst r) (snd (snd r)))" for i im m w
    using step(1) by (auto intro!: ensuresI)
  show ?case
    by (rule ensuresD [OF _ step(2)])
      (use step(3,4) in \<open>auto intro!: ensures_bindI rec split: prod.splits intro: loading_steps\<close>)
qed

lemma load_objects_loading:
  "load_objects_loop fs' fd p pl s = Some r \<Longrightarrow> fs' = fs \<Longrightarrow> loading b fd w0 (fst s) (snd (snd s)) \<Longrightarrow>
     loading b fd w0 (fst (snd (snd r))) (snd (snd (snd (snd r))))"
proof (induction fs' fd p pl s r rule: load_objects_loop.raw_induct [rotated, consumes 1, case_names step])
  case (step rec fs' fd p pl s r)
  have rec: "loading b fd w0 im w \<Longrightarrow>
      ensures (rec fs fd p pl (im, m, w)) (\<lambda>r. loading b fd w0 (fst (snd (snd r))) (snd (snd (snd (snd r)))))" for p pl im m w
    using step(1) by (auto intro!: ensuresI)
  have seek: "loading b fd w0 im w \<Longrightarrow> loading b fd w0 im (snd (seek_to fs fd pos w))" for pos im w
    by (cases "seek_to fs fd pos w") (auto intro: loading_steps)
  show ?case
    by (rule ensuresD [OF _ step(2)])
      (use step(3,4) in \<open>auto intro!: ensures_bindI rec seek simp: Let_def split: prod.splits option.splits if_splits
         dest!: loading_steps(6) [where b = b and ?w0.0 = w0, rotated] load_fields_loading [where b = b and ?w0.0 = w0]\<close>)
qed

lemma table_start_loading:
  "table_start fs fd im w = Some (r, im', w') \<Longrightarrow> loading b fd w0 im w \<Longrightarrow> loading b fd w0 im' w'"
  by (auto simp: table_start_def Let_def Option.bind_eq_Some_conv split: if_splits prod.splits option.splits
      dest!: loading_steps [where b = b and ?w0.0 = w0, rotated]) (simp add: loading_def)

lemma loadObjectTable_loading:
  "loading b fd w0 im w \<Longrightarrow>
     ensures (loadObjectTable fs fd im m w) (\<lambda>(ok, im', m', w'). loading b fd w0 im' w')"
  unfolding loadObjectTable_def
  by (auto intro!: ensures_bindI split: option.splits prod.splits dest!: table_start_loading
      table_entries_loading [where b = b and ?w0.0 = w0])

lemma loadObjects_loading:
  "loading b fd w0 im w \<Longrightarrow> ensures (loadObjects fs fd im m w) (\<lambda>(ok, im', m', w'). loading b fd w0 im' w')"
  unfolding loadObjects_def
  by (auto intro!: ensures_bindI simp: Let_def split: prod.splits dest!: load_objects_loading [where b = b and ?w0.0 = w0])

lemma read_image_loading:
  "loading b fd w0 im w \<Longrightarrow> ensures (read_image fs fd im w) (\<lambda>(ok, im', w'). loading b fd w0 im' w')"
  unfolding read_image_def
  by (auto simp: Let_def split: prod.splits dest!: loading_steps [where b = b and ?w0.0 = w0, rotated] intro: loading_size)

lemma file_closed:
  assumes "valid w" "takes_descriptor fd (descriptors w) (descriptors w1)" "fd \<noteq> -1" "valid w1"
    and "keeps fd w1 w2" "close_file fs fd w2 = (r, w3)"
  shows "valid w3 \<and> (\<forall>s. descriptors w3 = Some s \<longrightarrow> descriptors w = Some s)"
proof -
  have "valid w2" "uses_descriptor fd (descriptors w1) (descriptors w2)" using assms(4,5) by (simp_all add: keeps_def)
  then show ?thesis using closing [OF _ assms(6)] taken_and_given [OF assms(2,3)] by metis
qed

text \<open>A load that succeeds leaves no descriptor open; so does one that fails, except that the fast mode returns with the
file open when its content does not fit or cannot be read.\<close>

lemma load_memory_loading:
  assumes "loading b fd w0 im w"
  shows "ensures (do {
      (succeeded, im, m, w) \<leftarrow> loadObjectTable fs fd im m w;
      (succeeded, im, m, w) \<leftarrow> (if succeeded then loadObjects fs fd im m w else Some (False, im, m, w));
      let w = (if bootmode im > 0 then snd (close_file fs fd w) else w);
      Some (succeeded, im, m, w)
    }) (\<lambda>(ok, im', m', w'). \<exists>w2. keeps fd w0 w2 \<and> w' = (if b > 0 then snd (close_file fs fd w2) else w2))"
proof -
  have fin: "\<exists>w2. keeps fd w0 w2 \<and>
      (if bootmode im > 0 then snd (close_file fs fd w) else w) = (if b > 0 then snd (close_file fs fd w2) else w2)"
    if "loading b fd w0 im w" for im w
    using that by (intro exI [of _ w]) (simp add: loading_def)
  show ?thesis
    unfolding ensures_bind
  proof (rule ensures_mono [OF loadObjectTable_loading [OF assms]], clarify, unfold ensures_bind)
    fix ok im1 m1 w1
    assume l1: "loading b fd w0 im1 w1"
    show "ensures (if ok then loadObjects fs fd im1 m1 w1 else Some (False, im1, m1, w1))
        (\<lambda>x. ensures (case x of (succeeded, im, m, w) \<Rightarrow>
            let w = (if bootmode im > 0 then snd (close_file fs fd w) else w) in Some (succeeded, im, m, w))
          (\<lambda>(ok, im', m', w'). \<exists>w2. keeps fd w0 w2 \<and> w' = (if b > 0 then snd (close_file fs fd w2) else w2)))"
    proof (cases ok)
      case True
      show ?thesis
        by (simp only: True if_True, rule ensures_mono [OF loadObjects_loading [OF l1]], clarify)
          (simp only: Let_def prod.case ensures_Some, rule fin)
    qed (use fin [OF l1] in \<open>simp add: Let_def\<close>)
  qed
qed

lemma loadSnapshot_keeps:
  assumes "valid w" "bootmode im = 2 \<longrightarrow> ok"
    and "loadSnapshot fs name im m w = Some (ok, im', m', w')"
  shows "valid w' \<and> (\<forall>s. descriptors w' = Some s \<longrightarrow> descriptors w = Some s)"
proof -
  consider (other) "bootmode im \<notin> {0, 1, 2}" | (linked) "bootmode im = 0" | (read) "bootmode im = 1 \<or> bootmode im = 2"
    by auto
  then show ?thesis
  proof cases
    case other
    then show ?thesis using assms by (auto simp: loadSnapshot_def)
  next
    case linked
    have "loading 0 (-1) w im w" using linked by (simp add: loading_def)
    from load_memory_loading [OF this, of m] have "keeps (-1) w w'"
      using assms(3) linked by (simp add: loadSnapshot_def ensures_def)
    then show ?thesis using assms(1) uses_nothing [of "-1" "descriptors w"] no_descriptor
      by (auto simp: keeps_def) (metis uses_descriptor_def)
  next
    case read
    obtain fd w1 where w1: "open_file fs name w = (fd, w1)" by (cases "open_file fs name w")
    note o = file_opening [OF assms(1) w1]
    show ?thesis
    proof (cases "fd = -1")
      case True
      then show ?thesis using assms(3) read w1 o by (auto simp: loadSnapshot_def takes_descriptor_def)
    next
      case False
      have "\<exists>im2 w2. loading (bootmode im) fd w1 im2 w2 \<and>
          do {
            (succeeded, im, m, w) \<leftarrow> loadObjectTable fs fd im2 m w2;
            (succeeded, im, m, w) \<leftarrow> (if succeeded then loadObjects fs fd im m w else Some (False, im, m, w));
            let w = (if bootmode im > 0 then snd (close_file fs fd w) else w);
            Some (succeeded, im, m, w)
          } = Some (ok, im', m', w')"
      proof (cases "bootmode im = 2")
        case two: True
        have l: "loading 2 fd w1 im w1" using two by (simp add: loading_def)
        show ?thesis
          using assms(2,3) two False w1 ensuresD [OF read_image_loading [OF l]]
          by (cases "read_image fs fd im w1") (auto simp: loadSnapshot_def split: if_splits, blast)
      next
        case one: False
        have "loading (bootmode im) fd w1 im w1" by (simp add: loading_def)
        then show ?thesis
          using one read False w1 assms(3) by (intro exI [of _ im] exI [of _ w1]) (auto simp: loadSnapshot_def)
      qed
      then obtain w2 where w2: "keeps fd w1 w2" "w' = snd (close_file fs fd w2)"
        using load_memory_loading read unfolding ensures_def by fastforce
      then show ?thesis
        using file_closed [OF assms(1) _ False _ w2(1)] o by (cases "close_file fs fd w2") auto
    qed
  qed
qed

end

end
