(* ===== verification/VmFatFsProps.thy ===== *)
theory VmFatFsProps
  imports VmFatFs OmSnapshotProps FatExample
begin

text \<open>
  The table of file descriptors of the virtual machine: the search for a free descriptor, the change of the table by every
  operation, the contract of \<open>descriptor_files\<close> for the file system on FatFs, a type system of calls in which the open
  descriptors are the environment, and the calls that have no result.
\<close>

section \<open>The table\<close>

definition table_ok :: "adapter \<Rightarrow> bool" where
  "table_ok a \<longleftrightarrow> length (fdtofil a) = 64 \<and> 0 \<le> curfd a \<and> curfd a \<le> 64"

definition slot :: "adapter \<Rightarrow> int \<Rightarrow> FIL option" where
  "slot a fd = (if 0 \<le> fd \<and> fd < 64 then fdtofil a ! nat fd else None)"

lemma init_table_ok: "table_ok (init_table a)" "slot (init_table a) = (\<lambda>fd. None)"
  by (auto simp: table_ok_def init_table_def slot_def fun_eq_iff)

lemma slot_fields [simp]:
  "slot (a\<lparr>curfd := c\<rparr>) = slot a" "slot (a\<lparr>disk := w\<rparr>) = slot a" "slot (a\<lparr>mallocs := n\<rparr>) = slot a"
  "slot (a\<lparr>root_directory := r\<rparr>) = slot a"
  by (auto simp: slot_def)

lemma table_ok_fields [simp]:
  "table_ok (a\<lparr>disk := w\<rparr>) = table_ok a" "table_ok (a\<lparr>mallocs := n\<rparr>) = table_ok a"
  by (simp_all add: table_ok_def)

lemma fil_at_slot: "fil_at fd a = Some x \<longleftrightarrow> 0 \<le> fd \<and> fd < 64 \<and> slot a fd = x"
  by (auto simp: fil_at_def slot_def)

lemma set_fil_slot:
  assumes "set_fil fd x a = Some a'" "table_ok a"
  shows "0 \<le> fd \<and> fd < 64 \<and> slot a' = (slot a)(fd := x) \<and> table_ok a'"
proof -
  have fd: "0 \<le> fd" "fd < 64" and a': "a' = a\<lparr>fdtofil := (fdtofil a)[nat fd := x]\<rparr>"
    using assms(1) by (auto simp: set_fil_def split: if_splits)
  have "slot a' d = ((slot a)(fd := x)) d" for d
    using fd assms(2) unfolding a' by (auto simp: slot_def table_ok_def nth_list_update eq_nat_nat_iff)
  then show ?thesis using fd assms(2) by (auto simp: fun_eq_iff a' table_ok_def)
qed

section \<open>The search for a free descriptor\<close>

definition first_free :: "(int \<Rightarrow> FIL option) \<Rightarrow> int \<Rightarrow> int \<Rightarrow> int option \<Rightarrow> bool" where
  "first_free t low high r \<longleftrightarrow>
     (case r of None \<Rightarrow> \<forall>d. low \<le> d \<and> d < high \<longrightarrow> t d \<noteq> None
      | Some fd \<Rightarrow> low \<le> fd \<and> fd < high \<and> t fd = None \<and> (\<forall>d. low \<le> d \<and> d < fd \<longrightarrow> t d \<noteq> None))"

lemma first_free_step: "first_free t (low + 1) high r \<Longrightarrow> t low \<noteq> None \<Longrightarrow> first_free t low high r"
  unfolding first_free_def by (auto split: option.splits) (metis order_le_less zless_imp_add1_zle)+

lemma scan_fd_finds:
  assumes "0 \<le> curfd a" "limit \<le> 64"
  shows "\<exists>r c. scan_fd limit a = Some (r, a\<lparr>curfd := c\<rparr>) \<and> curfd a \<le> c \<and> c \<le> max (curfd a) limit \<and>
     first_free (slot a) (curfd a) limit r"
  using assms
proof (induction limit a rule: scan_fd.induct)
  case (1 limit a)
  show ?case
  proof (cases "curfd a < limit")
    case True
    then have f: "fil_at (curfd a) a = Some (slot a (curfd a))" using 1(2,3) by (simp add: fil_at_slot)
    show ?thesis
    proof (cases "slot a (curfd a)")
      case None
      then show ?thesis
        using True f by (subst scan_fd.simps) (auto intro!: exI [of _ "Some (curfd a)"] simp: first_free_def)
    next
      case (Some fp)
      have step: "scan_fd limit a = scan_fd limit (a\<lparr>curfd := curfd a + 1\<rparr>)"
        using True f Some by (subst scan_fd.simps) simp
      obtain r c where ih: "scan_fd limit (a\<lparr>curfd := curfd a + 1\<rparr>) = Some (r, a\<lparr>curfd := c\<rparr>)" "curfd a + 1 \<le> c"
          "c \<le> max (curfd a + 1) limit" "first_free (slot a) (curfd a + 1) limit r"
        using 1(1) [OF True f] Some 1(2,3) by auto
      then show ?thesis
        using first_free_step [OF ih(4)] Some True unfolding step by (intro exI [of _ r] exI [of _ c]) auto
    qed
  next
    case False
    then show ?thesis
      by (subst scan_fd.simps) (auto intro!: exI [of _ None] exI [of _ "curfd a"] simp: first_free_def)
  qed
qed

text \<open>The search returns a free descriptor whenever there is one, and -1 only from a full table.\<close>

lemma getfd_finds:
  assumes "table_ok a"
  shows "\<exists>fd c. getfd a = Some (fd, a\<lparr>curfd := c\<rparr>) \<and> 0 \<le> c \<and> c \<le> 64 \<and>
     (if fd = -1 then \<forall>d. 0 \<le> d \<and> d < 64 \<longrightarrow> slot a d \<noteq> None else 0 \<le> fd \<and> fd < 64 \<and> slot a fd = None)"
proof -
  have a: "0 \<le> curfd a" "curfd a \<le> 64" using assms by (simp_all add: table_ok_def)
  obtain r c where 1: "scan_fd 64 a = Some (r, a\<lparr>curfd := c\<rparr>)" "curfd a \<le> c" "c \<le> max (curfd a) 64"
      "first_free (slot a) (curfd a) 64 r"
    using scan_fd_finds [OF a(1), of 64] by auto
  show ?thesis
  proof (cases r)
    case (Some fd)
    then show ?thesis using 1 a by (auto simp: getfd_def first_free_def)
  next
    case None
    obtain r2 c2 where 2: "scan_fd (curfd a) (a\<lparr>curfd := 0\<rparr>) = Some (r2, a\<lparr>curfd := c2\<rparr>)" "0 \<le> c2" "c2 \<le> max 0 (curfd a)"
        "first_free (slot a) 0 (curfd a) r2"
      using scan_fd_finds [of "a\<lparr>curfd := 0\<rparr>" "curfd a"] a(2) by auto
    have g: "getfd a = Some (case r2 of Some fd \<Rightarrow> fd | None \<Rightarrow> -1, a\<lparr>curfd := c2\<rparr>)"
      using 1(1) 2(1) None by (simp add: getfd_def)
    have all: "slot a d \<noteq> None" if "r2 = None" "0 \<le> d" "d < 64" for d
      using 1(4) 2(4) None that by (cases "d < curfd a") (auto simp: first_free_def)
    show ?thesis
      using 2 a g all by (cases r2) (auto simp: le_max_iff_disj first_free_def)
  qed
qed

section \<open>The operations on the table\<close>

lemma open_with_slot:
  assumes "table_ok a" "open_with mode name a = Some (fd, a')"
  shows "table_ok a' \<and> (if fd = -1 then slot a' = slot a
           else 0 \<le> fd \<and> fd < 64 \<and> slot a fd = None \<and> (\<exists>fp. slot a' = (slot a)(fd := Some fp)))"
proof (cases "heap_fil a (mallocs a)")
  case None
  then show ?thesis using assms by (auto simp: open_with_def malloc_fil_def)
next
  case (Some fp)
  let ?a = "a\<lparr>mallocs := mallocs a + 1\<rparr>"
  obtain fres fp' w where f: "f_open fp (path_for_file name ?a) mode (disk ?a) = Some (fres, fp', w)"
    using assms(2) Some by (auto simp: open_with_def malloc_fil_def Option.bind_eq_Some_conv)
  show ?thesis
  proof (cases "fres = FR_OK")
    case False
    then show ?thesis using assms f Some by (auto simp: open_with_def malloc_fil_def)
  next
    case True
    let ?b = "?a\<lparr>disk := w\<rparr>"
    obtain fd' c where g: "getfd ?b = Some (fd', ?b\<lparr>curfd := c\<rparr>)" "0 \<le> c" "c \<le> 64"
        "if fd' = -1 then \<forall>d. 0 \<le> d \<and> d < 64 \<longrightarrow> slot ?b d \<noteq> None else 0 \<le> fd' \<and> fd' < 64 \<and> slot ?b fd' = None"
      using getfd_finds [of ?b] assms(1) by auto
    have s: "set_fil fd (Some fp') (?b\<lparr>curfd := c\<rparr>) = Some a'" "fd' = fd"
      using assms(2) f g(1) Some True by (auto simp: open_with_def malloc_fil_def Option.bind_eq_Some_conv)
    have "table_ok (?b\<lparr>curfd := c\<rparr>)" using assms(1) g(2,3) by (simp add: table_ok_def)
    from set_fil_slot [OF s(1) this] show ?thesis using g(4) s(2) by auto
  qed
qed

lemma fat_open_slot:
  assumes "table_ok a"
  shows "fat_open_file name a = Some (fd, a') \<Longrightarrow> table_ok a' \<and> (if fd = -1 then slot a' = slot a
           else 0 \<le> fd \<and> fd < 64 \<and> slot a fd = None \<and> (\<exists>fp. slot a' = (slot a)(fd := Some fp)))"
    and "fat_create_file name a = Some (fd, a') \<Longrightarrow> table_ok a' \<and> (if fd = -1 then slot a' = slot a
           else 0 \<le> fd \<and> fd < 64 \<and> slot a fd = None \<and> (\<exists>fp. slot a' = (slot a)(fd := Some fp)))"
  unfolding fat_open_file_def fat_create_file_def using open_with_slot [OF assms] by blast+

lemma fat_close_slot:
  assumes "table_ok a" "fat_close_file fd a = Some (r, a')"
  shows "table_ok a' \<and> 0 \<le> fd \<and> fd < 64 \<and> slot a' = (slot a)(fd := None) \<and> r = (if slot a fd = None then -1 else 0)"
proof (cases "slot a fd")
  case None
  then have "(slot a)(fd := None) = slot a" by (intro ext) simp
  then show ?thesis using assms None by (auto simp: fat_close_file_def Option.bind_eq_Some_conv fil_at_slot)
next
  case (Some fp)
  obtain w where w: "0 \<le> fd" "fd < 64" "r = 0" "set_fil fd None (a\<lparr>disk := w\<rparr>) = Some a'"
    using assms(2) Some by (auto simp: fat_close_file_def Option.bind_eq_Some_conv fil_at_slot)
  then show ?thesis using set_fil_slot [OF w(4)] assms(1) Some by auto
qed

text \<open>An operation on a descriptor changes at most its own file object, and gives the failure result when there is none.\<close>

lemma with_fil_slot:
  assumes "table_ok a" "with_fil fd none f a = Some (r, a')"
  shows "table_ok a' \<and> 0 \<le> fd \<and> fd < 64 \<and> (if slot a fd = None then r = none \<and> a' = a else \<exists>fp. slot a' = (slot a)(fd := Some fp))"
proof (cases "slot a fd")
  case None
  then show ?thesis using assms by (auto simp: with_fil_def Option.bind_eq_Some_conv fil_at_slot)
next
  case (Some fp)
  obtain fp' w where w: "0 \<le> fd" "fd < 64" "set_fil fd (Some fp') (a\<lparr>disk := w\<rparr>) = Some a'"
    using assms(2) Some by (auto simp: with_fil_def Option.bind_eq_Some_conv fil_at_slot)
  then show ?thesis using set_fil_slot [OF w(3)] assms(1) Some by auto
qed

lemmas file_operations =
  fat_read_def fat_write_def fat_truncate_to_def fat_file_size_def fat_file_flush_def fat_seek_to_def fat_tell_def

text \<open>The operations on names leave the table alone.\<close>

definition same_table :: "adapter \<Rightarrow> adapter \<Rightarrow> bool" where
  "same_table a a' \<longleftrightarrow> fdtofil a' = fdtofil a \<and> curfd a' = curfd a"

lemma same_table_slot: "same_table a a' \<Longrightarrow> slot a' = slot a \<and> table_ok a' = table_ok a"
  by (auto simp: same_table_def slot_def table_ok_def)

lemma same_table_fields [simp]: "same_table a a" "same_table a (b\<lparr>disk := w\<rparr>) = same_table a b"
  "same_table a (b\<lparr>mallocs := n\<rparr>) = same_table a b"
  "same_table (a\<lparr>disk := w\<rparr>) b = same_table a b"
  by (simp_all add: same_table_def)

lemma is_directory_same: "ensures (is_directory name a) (\<lambda>(r, a'). same_table a a')"
  by (auto simp: is_directory_def intro!: ensures_bindI)

lemma readdir_loop_same: "readdir_loop each dp fi b a = Some r \<Longrightarrow> same_table a0 a \<Longrightarrow> same_table a0 (snd (snd r))"
proof (induction each dp fi b a r rule: readdir_loop.raw_induct [rotated, consumes 1, case_names step])
  case (step rec each dp fi b a r)
  have rec: "same_table a0 a \<Longrightarrow> ensures (rec each dp fi b a) (\<lambda>r. same_table a0 (snd (snd r)))" for each dp fi b a
    using step(1) by (auto intro!: ensuresI)
  have trans: "same_table a0 a \<Longrightarrow> same_table a a' \<Longrightarrow> same_table a0 a'" for a a'
    by (simp add: same_table_def)
  show ?case
    by (rule ensuresD [OF _ step(2)])
      (use step(3) in \<open>auto simp: Let_def intro!: ensures_bindI rec split: if_splits dest!: ensuresD [OF is_directory_same]\<close>, blast intro: trans)
qed

lemma over_root_same: "ensures (over_root each b a) (\<lambda>(r, a'). same_table a a')"
  by (auto simp: over_root_def intro!: ensures_bindI dest!: readdir_loop_same [where ?a0.0 = a])

lemma names_same:
  "ensures (fat_enumerate_files a) (\<lambda>(r, a'). same_table a a')" "ensures (num_files a) (\<lambda>(r, a'). same_table a a')"
  "ensures (fat_rename_file old_name new_name a) (\<lambda>(r, a'). same_table a a')"
  "ensures (fat_delete_file name a) (\<lambda>(r, a'). same_table a a')"
  by (auto simp: fat_enumerate_files_def num_files_def over_root_same fat_rename_file_def fat_delete_file_def
      intro!: ensures_bindI)

section \<open>The contract\<close>

definition table_valid :: "adapter option \<Rightarrow> bool" where
  "table_valid w = (case w of None \<Rightarrow> True | Some a \<Rightarrow> table_ok a)"

definition slots :: "adapter option \<Rightarrow> (int \<Rightarrow> FIL option) option" where
  "slots w = map_option slot w"

lemma with_fil_uses:
  assumes "table_valid w" "running none (with_fil fd x f) w = (r, w')"
  shows "table_valid w' \<and> uses_descriptor fd (slots w) (slots w')"
proof (cases w')
  case None
  then show ?thesis by (simp add: table_valid_def slots_def uses_descriptor_def)
next
  case (Some a')
  then obtain a where w: "w = Some a" "with_fil fd x f a = Some (r, a')"
    using assms(2) by (auto simp: running_def split: option.splits)
  have "table_ok a" using assms(1) w(1) by (simp add: table_valid_def)
  from with_fil_slot [OF this w(2)] show ?thesis
    using Some w(1) by (auto simp: table_valid_def slots_def uses_descriptor_def split: if_splits)
qed

lemma opens_takes:
  assumes "\<And>a a'. table_ok a \<Longrightarrow> f a = Some (fd, a') \<Longrightarrow> table_ok a' \<and> (if fd = -1 then slot a' = slot a
           else 0 \<le> fd \<and> fd < 64 \<and> slot a fd = None \<and> (\<exists>fp. slot a' = (slot a)(fd := Some fp)))"
    and "table_valid w" "running (-1) f w = (fd, w')"
  shows "table_valid w' \<and> takes_descriptor fd (slots w) (slots w')"
proof (cases w')
  case None
  then show ?thesis by (simp add: table_valid_def slots_def takes_descriptor_def)
next
  case (Some a')
  then obtain a where w: "w = Some a" "f a = Some (fd, a')"
    using assms(3) by (auto simp: running_def split: option.splits)
  have "table_ok a" using assms(2) w(1) by (simp add: table_valid_def)
  from assms(1) [OF this w(2)] show ?thesis
    using Some w(1) by (auto simp: table_valid_def slots_def takes_descriptor_def split: if_splits)
qed

lemma closes_gives:
  assumes "table_valid w" "running (-1) (fat_close_file fd) w = (r, w')"
  shows "table_valid w' \<and> gives_descriptor fd (slots w) (slots w')"
proof (cases w')
  case None
  then show ?thesis by (simp add: table_valid_def slots_def gives_descriptor_def)
next
  case (Some a')
  then obtain a where w: "w = Some a" "fat_close_file fd a = Some (r, a')"
    using assms(2) by (auto simp: running_def split: option.splits)
  have "table_ok a" using assms(1) w(1) by (simp add: table_valid_def)
  from fat_close_slot [OF this w(2)] show ?thesis
    using Some w(1) by (auto simp: table_valid_def slots_def gives_descriptor_def)
qed

lemma fat_filesystem_fields [simp]:
  "create_file fat_filesystem name = running (-1) (fat_create_file (bytes_of name))"
  "open_file fat_filesystem name = running (-1) (fat_open_file (bytes_of name))"
  "close_file fat_filesystem fd = running (-1) (fat_close_file fd)"
  "seek_to fat_filesystem fd position = running (-1) (fat_seek_to fd position)"
  "tell fat_filesystem fd = running (-1) (fat_tell fd)"
  "read_bytes fat_filesystem fd bytes w =
     (let ((n, bs), w) = running (-1, []) (fat_read fd bytes) w in ((n, map uint bs), w))"
  "write_bytes fat_filesystem fd buffer bytes = running (-1) (fat_write fd (bytes_of buffer) bytes)"
  "file_size fat_filesystem fd = running (-1) (fat_file_size fd)"
  by (simp_all add: fat_filesystem_def)

interpretation fat_files: descriptor_files fat_filesystem table_valid slots
proof
  show "s (-1) = None" if "slots w = Some s" for w s
    using that by (auto simp: slots_def slot_def)
  show "table_valid w' \<and> takes_descriptor fd (slots w) (slots w')"
    if "table_valid w" "create_file fat_filesystem name w = (fd, w')" for w name fd w'
    by (rule opens_takes [OF fat_open_slot(2) that(1)]) (use that(2) in simp_all)
  show "table_valid w' \<and> takes_descriptor fd (slots w) (slots w')"
    if "table_valid w" "open_file fat_filesystem name w = (fd, w')" for w name fd w'
    by (rule opens_takes [OF fat_open_slot(1) that(1)]) (use that(2) in simp_all)
  show "table_valid w' \<and> gives_descriptor fd (slots w) (slots w')"
    if "table_valid w" "close_file fat_filesystem fd w = (r, w')" for w fd r w'
    using that closes_gives by simp
  show "table_valid w' \<and> uses_descriptor fd (slots w) (slots w')"
    if "table_valid w" "seek_to fat_filesystem fd pos w = (r, w')" for w fd pos r w'
    using that with_fil_uses by (simp add: fat_seek_to_def)
  show "table_valid w' \<and> uses_descriptor fd (slots w) (slots w')"
    if "table_valid w" "tell fat_filesystem fd w = (r, w')" for w fd r w'
    using that with_fil_uses by (simp add: fat_tell_def)
  show "table_valid w' \<and> uses_descriptor fd (slots w) (slots w')"
    if "table_valid w" "read_bytes fat_filesystem fd n w = (rb, w')" for w fd n rb w'
    using that with_fil_uses by (fastforce simp: fat_read_def split: prod.splits)
  show "table_valid w' \<and> uses_descriptor fd (slots w) (slots w')"
    if "table_valid w" "write_bytes fat_filesystem fd bs n w = (r, w')" for w fd bs n r w'
    using that with_fil_uses by (simp add: fat_write_def)
  show "table_valid w' \<and> uses_descriptor fd (slots w) (slots w')"
    if "table_valid w" "file_size fat_filesystem fd w = (r, w')" for w fd r w'
    using that with_fil_uses by (simp add: fat_file_size_def)
qed

section \<open>A type system of calls\<close>

text \<open>The calls, and their results as numbers.\<close>

datatype fs_call =
  OpenFile "BYTE list" | CreateFile "BYTE list" | CloseFile int | SeekTo int int | TellPosition int | ReadBytes int int
| WriteBytes int "BYTE list" int | TruncateTo int int | FileSize int | FileFlush int | RenameFile "BYTE list" "BYTE list"
| DeleteFile "BYTE list" | EnumerateFiles

definition as_number :: "('r \<Rightarrow> int) \<Rightarrow> ('r \<times> adapter) option \<Rightarrow> (int \<times> adapter) option" where
  "as_number g x = map_option (map_prod g id) x"

fun perform :: "fs_call \<Rightarrow> adapter \<Rightarrow> (int \<times> adapter) option" where
  "perform (OpenFile name) a = fat_open_file name a" |
  "perform (CreateFile name) a = fat_create_file name a" |
  "perform (CloseFile fd) a = fat_close_file fd a" |
  "perform (SeekTo fd position) a = fat_seek_to fd position a" |
  "perform (TellPosition fd) a = fat_tell fd a" |
  "perform (ReadBytes fd n) a = as_number fst (fat_read fd n a)" |
  "perform (WriteBytes fd bs n) a = fat_write fd bs n a" |
  "perform (TruncateTo fd n) a = as_number of_bool (fat_truncate_to fd n a)" |
  "perform (FileSize fd) a = fat_file_size fd a" |
  "perform (FileFlush fd) a = as_number of_bool (fat_file_flush fd a)" |
  "perform (RenameFile old new) a = as_number of_bool (fat_rename_file old new a)" |
  "perform (DeleteFile name) a = as_number of_bool (fat_delete_file name a)" |
  "perform EnumerateFiles a = as_number (\<lambda>names. int (length names)) (fat_enumerate_files a)"

fun perform_all :: "fs_call list \<Rightarrow> adapter \<Rightarrow> (int list \<times> adapter) option" where
  "perform_all [] a = Some ([], a)" |
  "perform_all (c # cs) a = do { (r, a) \<leftarrow> perform c a; (rs, a) \<leftarrow> perform_all cs a; Some (r # rs, a) }"

text \<open>The descriptor that a call uses, with its result when the descriptor is not open.\<close>

fun used_descriptor :: "fs_call \<Rightarrow> (int \<times> int) option" where
  "used_descriptor (SeekTo fd position) = Some (fd, -1)" |
  "used_descriptor (TellPosition fd) = Some (fd, -1)" |
  "used_descriptor (ReadBytes fd n) = Some (fd, -1)" |
  "used_descriptor (WriteBytes fd bs n) = Some (fd, -1)" |
  "used_descriptor (TruncateTo fd n) = Some (fd, 0)" |
  "used_descriptor (FileSize fd) = Some (fd, -1)" |
  "used_descriptor (FileFlush fd) = Some (fd, 0)" |
  "used_descriptor c = None"

text \<open>With the open descriptors \<open>D\<close> a call has a result and leaves other descriptors open.\<close>

inductive call_types :: "int set \<Rightarrow> fs_call \<Rightarrow> int \<Rightarrow> int set \<Rightarrow> bool" where
  opens: "0 \<le> fd \<Longrightarrow> fd < 64 \<Longrightarrow> fd \<notin> D \<Longrightarrow> c = OpenFile name \<or> c = CreateFile name \<Longrightarrow> call_types D c fd (insert fd D)"
| open_fails: "c = OpenFile name \<or> c = CreateFile name \<Longrightarrow> call_types D c (-1) D"
| closes: "fd \<in> D \<Longrightarrow> call_types D (CloseFile fd) 0 (D - {fd})"
| close_fails: "0 \<le> fd \<Longrightarrow> fd < 64 \<Longrightarrow> fd \<notin> D \<Longrightarrow> call_types D (CloseFile fd) (-1) D"
| uses: "used_descriptor c = Some (fd, failure) \<Longrightarrow> fd \<in> D \<Longrightarrow> call_types D c r D"
| use_fails: "used_descriptor c = Some (fd, failure) \<Longrightarrow> 0 \<le> fd \<Longrightarrow> fd < 64 \<Longrightarrow> fd \<notin> D \<Longrightarrow> call_types D c failure D"
| names: "(\<exists>old new. c = RenameFile old new) \<or> (\<exists>name. c = DeleteFile name) \<or> c = EnumerateFiles \<Longrightarrow> call_types D c r D"

inductive run_types :: "int set \<Rightarrow> fs_call list \<Rightarrow> int list \<Rightarrow> int set \<Rightarrow> bool" where
  none: "run_types D [] [] D"
| call: "call_types D c r D' \<Longrightarrow> run_types D' cs rs D'' \<Longrightarrow> run_types D (c # cs) (r # rs) D''"

inductive_cases call_typesE: "call_types D c r D'"
inductive_simps run_types_Cons: "run_types D (c # cs) rs D''"

text \<open>The descriptors that are open after a run follow from its calls and results.\<close>

lemma call_types_unique: "call_types D c r D1 \<Longrightarrow> call_types D c r D2 \<Longrightarrow> D1 = D2"
  by (elim call_typesE) auto

lemma run_types_unique: "run_types D cs rs D1 \<Longrightarrow> run_types D cs rs D2 \<Longrightarrow> D1 = D2"
proof (induction D cs rs D1 rule: run_types.induct)
  case (none D)
  then show ?case by (cases rule: run_types.cases) auto
next
  case (call D c r D' cs rs D'')
  obtain D1 where D1: "call_types D c r D1" "run_types D1 cs rs D2"
    using call.prems by (auto simp: run_types_Cons)
  have "D' = D1" by (rule call_types_unique [OF call.hyps(1) D1(1)])
  then show ?case using call.IH D1(2) by simp
qed

definition open_descriptors :: "adapter \<Rightarrow> int set" where
  "open_descriptors a = {fd. slot a fd \<noteq> None}"

lemma open_bounds: "fd \<in> open_descriptors a \<Longrightarrow> 0 \<le> fd \<and> fd < 64"
  by (auto simp: open_descriptors_def slot_def split: if_splits)

lemma open_descriptors_upd:
  assumes "slot a' = (slot a)(fd := x)"
  shows "open_descriptors a' = (case x of None \<Rightarrow> open_descriptors a - {fd} | Some y \<Rightarrow> insert fd (open_descriptors a))"
  using assms by (auto simp: open_descriptors_def split: option.splits)

lemma with_fil_typed:
  assumes "table_ok a" "as_number g (with_fil fd none f a) = Some (r, a')" "used_descriptor c = Some (fd, g none)"
  shows "table_ok a' \<and> call_types (open_descriptors a) c r (open_descriptors a')"
proof -
  obtain r0 where r0: "with_fil fd none f a = Some (r0, a')" "r = g r0" using assms(2) by (auto simp: as_number_def)
  note w = with_fil_slot [OF assms(1) r0(1)]
  show ?thesis
  proof (cases "slot a fd")
    case None
    then have "fd \<notin> open_descriptors a" "a' = a" "r = g none" using w r0(2) by (auto simp: open_descriptors_def)
    then show ?thesis using w use_fails [OF assms(3)] assms(1) by auto
  next
    case (Some x)
    then obtain fp where "slot a' = (slot a)(fd := Some fp)" using w by auto
    then have "open_descriptors a' = open_descriptors a" "fd \<in> open_descriptors a"
      using Some by (auto simp: open_descriptors_upd open_descriptors_def)
    then show ?thesis using w uses [OF assms(3)] by auto
  qed
qed

lemma as_number_id: "as_number id x = x"
  by (simp add: as_number_def prod.map_id0 option.map_id)

lemma names_typed:
  assumes "table_ok a" "as_number g x = Some (r, a')" "ensures x (\<lambda>(r, a'). same_table a a')"
    and "(\<exists>old new. c = RenameFile old new) \<or> (\<exists>name. c = DeleteFile name) \<or> c = EnumerateFiles"
  shows "table_ok a' \<and> call_types (open_descriptors a) c r (open_descriptors a')"
proof -
  have "same_table a a'" using assms(2,3) by (auto simp: as_number_def ensures_def)
  then show ?thesis using same_table_slot [of a a'] names [OF assms(4)] assms(1) by (simp add: open_descriptors_def)
qed

lemma open_typed:
  assumes "table_ok a" "perform c a = Some (fd, a')" "c = OpenFile name \<or> c = CreateFile name"
  shows "table_ok a' \<and> call_types (open_descriptors a) c fd (open_descriptors a')"
proof -
  have o: "table_ok a' \<and> (if fd = -1 then slot a' = slot a
      else 0 \<le> fd \<and> fd < 64 \<and> slot a fd = None \<and> (\<exists>fp. slot a' = (slot a)(fd := Some fp)))"
    using assms fat_open_slot [OF assms(1)] by auto
  show ?thesis
  proof (cases "fd = -1")
    case True
    then show ?thesis using o open_fails [OF assms(3)] by (simp add: open_descriptors_def)
  next
    case False
    then obtain fp where s: "0 \<le> fd" "fd < 64" "slot a fd = None" "slot a' = (slot a)(fd := Some fp)" using o by auto
    then have "fd \<notin> open_descriptors a" "open_descriptors a' = insert fd (open_descriptors a)"
      by (auto simp: open_descriptors_def)
    then show ?thesis using o opens [OF s(1,2) _ assms(3)] by simp
  qed
qed

lemma close_typed:
  assumes "table_ok a" "fat_close_file fd a = Some (r, a')"
  shows "table_ok a' \<and> call_types (open_descriptors a) (CloseFile fd) r (open_descriptors a')"
proof -
  note c = fat_close_slot [OF assms]
  then have d: "open_descriptors a' = open_descriptors a - {fd}" by (simp add: open_descriptors_upd)
  have r: "r = (if fd \<in> open_descriptors a then 0 else -1)" using c by (simp add: open_descriptors_def)
  have "call_types (open_descriptors a) (CloseFile fd) r (open_descriptors a - {fd})"
  proof (cases "fd \<in> open_descriptors a")
    case True
    then show ?thesis using closes [OF True] r by simp
  next
    case False
    then show ?thesis using close_fails [OF _ _ False] c r by simp
  qed
  then show ?thesis using c d by simp
qed

lemma perform_typed:
  assumes "table_ok a" "perform c a = Some (r, a')"
  shows "table_ok a' \<and> call_types (open_descriptors a) c r (open_descriptors a')"
proof (cases "used_descriptor c")
  case None
  show ?thesis
  proof (cases c)
    case (CloseFile fd)
    then show ?thesis using close_typed [OF assms(1)] assms(2) by simp
  next
    case (RenameFile old new)
    then show ?thesis using names_typed [OF assms(1) _ names_same(3), of of_bool old new r a' c] assms(2) by simp
  next
    case (DeleteFile name)
    then show ?thesis using names_typed [OF assms(1) _ names_same(4), of of_bool name r a' c] assms(2) by simp
  next
    case EnumerateFiles
    then show ?thesis using names_typed [OF assms(1) _ names_same(1), of _ r a' c] assms(2) by simp
  qed (use None open_typed [OF assms] in simp_all)
next
  case (Some x)
  then obtain fd e where x: "used_descriptor c = Some (fd, e)" by (cases x) auto
  note t = with_fil_typed [OF assms(1)]
  note plain = t [where g = id, unfolded as_number_id id_apply] and of_fst = t [where g = fst]
    and of_truth = t [where g = of_bool]
  show ?thesis
  proof (cases c)
    case (SeekTo f p)
    show ?thesis using assms(2) unfolding SeekTo perform.simps file_operations by (rule plain) simp
  next
    case (TellPosition f)
    show ?thesis using assms(2) unfolding TellPosition perform.simps file_operations by (rule plain) simp
  next
    case (ReadBytes f n)
    show ?thesis using assms(2) unfolding ReadBytes perform.simps file_operations by (rule of_fst) simp
  next
    case (WriteBytes f bs n)
    show ?thesis using assms(2) unfolding WriteBytes perform.simps file_operations by (rule plain) simp
  next
    case (TruncateTo f n)
    show ?thesis using assms(2) unfolding TruncateTo perform.simps file_operations by (rule of_truth) simp
  next
    case (FileSize f)
    show ?thesis using assms(2) unfolding FileSize perform.simps file_operations by (rule plain) simp
  next
    case (FileFlush f)
    show ?thesis using assms(2) unfolding FileFlush perform.simps file_operations by (rule of_truth) simp
  qed (use x in simp_all)
qed

section \<open>The calls that have no result\<close>

text \<open>What \<^verbatim>\<open>f_open\<close> returns for a call; it refuses the null pointer that \<^verbatim>\<open>malloc\<close> may give.\<close>

definition open_result :: "BYTE \<Rightarrow> BYTE list \<Rightarrow> adapter \<Rightarrow> FRESULT option" where
  "open_result mode name a =
     (case heap_fil a (mallocs a) of None \<Rightarrow> Some FR_INVALID_OBJECT
      | Some fp \<Rightarrow> map_option fst (f_open fp (path_for_file name a) mode (disk a)))"

definition full_table :: "adapter \<Rightarrow> bool" where
  "full_table a \<longleftrightarrow> (\<forall>fd \<in> {0..<64}. slot a fd \<noteq> None)"

text \<open>A call that reads or writes outside the table: one on a descriptor that is not from 0 to 63, and the 65th open file,
which is stored at \<^verbatim>\<open>fdtofil[-1]\<close>.\<close>

fun outside_table :: "fs_call \<Rightarrow> adapter \<Rightarrow> bool" where
  "outside_table (OpenFile name) a = (open_result 3 name a = Some FR_OK \<and> full_table a)" |
  "outside_table (CreateFile name) a = (open_result 11 name a = Some FR_OK \<and> full_table a)" |
  "outside_table (CloseFile fd) a = (fd \<notin> {0..<64})" |
  "outside_table c a = (case used_descriptor c of None \<Rightarrow> False | Some (fd, _) \<Rightarrow> fd \<notin> {0..<64})"

text \<open>Whether the operation of FatFs behind a call returns; for a call on a descriptor, on its file object.  \<^verbatim>\<open>write\<close> must be
given the bytes to write.\<close>

fun file_returns :: "fs_call \<Rightarrow> FIL \<Rightarrow> world \<Rightarrow> bool" where
  "file_returns (CloseFile fd) fp w = (f_close fp w \<noteq> None)" |
  "file_returns (SeekTo fd position) fp w = (f_lseek fp (word_of_int position) w \<noteq> None)" |
  "file_returns (ReadBytes fd n) fp w = (f_read fp (word_of_int n) w \<noteq> None)" |
  "file_returns (WriteBytes fd bs n) fp w =
     (unat (word_of_int n :: DWORD) \<le> length bs \<and> f_write fp bs (word_of_int n) w \<noteq> None)" |
  "file_returns (TruncateTo fd n) fp w =
     (case f_lseek fp (word_of_int n) w of None \<Rightarrow> False
      | Some (fres, fp, w) \<Rightarrow> fres = FR_OK \<longrightarrow> f_truncate fp w \<noteq> None)" |
  "file_returns (FileFlush fd) fp w = (f_sync fp w \<noteq> None)" |
  "file_returns c fp w = True"

definition descriptor_returns :: "int \<Rightarrow> fs_call \<Rightarrow> adapter \<Rightarrow> bool" where
  "descriptor_returns fd c a = (case slot a fd of None \<Rightarrow> True | Some fp \<Rightarrow> file_returns c fp (disk a))"

fun fatfs_returns :: "fs_call \<Rightarrow> adapter \<Rightarrow> bool" where
  "fatfs_returns (OpenFile name) a = (open_result 3 name a \<noteq> None)" |
  "fatfs_returns (CreateFile name) a = (open_result 11 name a \<noteq> None)" |
  "fatfs_returns (RenameFile old new) a = (f_rename (path_for_file old a) (path_for_file new a) (disk a) \<noteq> None)" |
  "fatfs_returns (DeleteFile name) a = (f_unlink (path_for_file name a) (disk a) \<noteq> None)" |
  "fatfs_returns EnumerateFiles a = (fat_enumerate_files a \<noteq> None)" |
  "fatfs_returns (CloseFile fd) a = descriptor_returns fd (CloseFile fd) a" |
  "fatfs_returns c a = (case used_descriptor c of None \<Rightarrow> True | Some (fd, _) \<Rightarrow> descriptor_returns fd c a)"

lemma bind_None_case: "Option.bind x f = None \<longleftrightarrow> (case x of None \<Rightarrow> True | Some y \<Rightarrow> f y = None)"
  by (cases x) simp_all

lemma with_fil_stops:
  "with_fil fd none f a = None \<longleftrightarrow> fd \<notin> {0..<64} \<or> (\<exists>fp. slot a fd = Some fp \<and> f fp (disk a) = None)"
  by (cases "f (the (slot a fd)) (disk a)")
    (auto simp: with_fil_def fil_at_def set_fil_def slot_def split: option.splits)

lemma open_stops:
  assumes "table_ok a"
  shows "open_with mode name a = None \<longleftrightarrow>
    open_result mode name a = Some FR_OK \<and> full_table a \<or> open_result mode name a = None"
proof (cases "heap_fil a (mallocs a)")
  case None
  then show ?thesis by (simp add: open_with_def malloc_fil_def open_result_def)
next
  case (Some fp)
  let ?a = "a\<lparr>mallocs := mallocs a + 1\<rparr>"
  have p: "path_for_file name ?a = path_for_file name a" by (simp add: path_for_file_def)
  show ?thesis
  proof (cases "f_open fp (path_for_file name a) mode (disk a)")
    case None
    then show ?thesis using Some p by (simp add: open_with_def malloc_fil_def open_result_def)
  next
    case (Some x)
    then obtain fres fp' w where f: "f_open fp (path_for_file name a) mode (disk a) = Some (fres, fp', w)"
      by (cases x) auto
    let ?b = "?a\<lparr>disk := w\<rparr>"
    have "table_ok ?b" using assms by simp
    from getfd_finds [OF this] obtain fd c where g: "getfd ?b = Some (fd, ?b\<lparr>curfd := c\<rparr>)"
        "if fd = -1 then \<forall>d. 0 \<le> d \<and> d < 64 \<longrightarrow> slot ?b d \<noteq> None else 0 \<le> fd \<and> fd < 64 \<and> slot ?b fd = None"
      by blast
    have full: "full_table a \<longleftrightarrow> fd = -1" using g(2) by (auto simp: full_table_def split: if_splits)
    have "set_fil fd (Some fp') (?b\<lparr>curfd := c\<rparr>) = None \<longleftrightarrow> fd = -1"
      using g(2) by (auto simp: set_fil_def split: if_splits)
    then show ?thesis
      using f \<open>heap_fil a (mallocs a) = Some fp\<close> p g(1) full
      by (auto simp: open_with_def malloc_fil_def open_result_def Let_def bind_None_case split: option.splits)
  qed
qed

lemma close_stops: "fat_close_file fd a = None \<longleftrightarrow> fd \<notin> {0..<64} \<or> (\<exists>fp. slot a fd = Some fp \<and> f_close fp (disk a) = None)"
  by (cases "f_close (the (slot a fd)) (disk a)")
    (auto simp: fat_close_file_def fil_at_def set_fil_def slot_def split: option.splits)

lemma as_number_None: "as_number g x = None \<longleftrightarrow> x = None"
  by (simp add: as_number_def)

text \<open>A call on a well-formed table has no result exactly when it leaves the table or FatFs does not return.\<close>

lemma perform_stops:
  assumes "table_ok a"
  shows "perform c a = None \<longleftrightarrow> outside_table c a \<or> \<not> fatfs_returns c a"
proof -
  note stops = as_number_None with_fil_stops close_stops descriptor_returns_def fat_rename_file_def fat_delete_file_def
    fat_open_file_def fat_create_file_def open_stops [OF assms] file_operations bind_None_case
  show ?thesis
    by (cases c; cases "fat_enumerate_files a") (auto simp: stops not_less split: option.splits if_splits prod.splits)
qed

text \<open>Runs of calls.\<close>

lemma perform_all_typed:
  assumes "table_ok a" "perform_all cs a = Some (rs, a')"
  shows "table_ok a' \<and> run_types (open_descriptors a) cs rs (open_descriptors a')"
  using assms
proof (induction cs arbitrary: a rs)
  case Nil
  then show ?case by (simp add: run_types.none)
next
  case (Cons c cs)
  obtain r a1 rs1 where c: "perform c a = Some (r, a1)" "perform_all cs a1 = Some (rs1, a')" "rs = r # rs1"
    using Cons.prems(2) by (auto simp: Option.bind_eq_Some_conv)
  note t = perform_typed [OF Cons.prems(1) c(1)]
  then show ?case using Cons.IH [OF _ c(2)] run_types.call c(3) by blast
qed

lemma perform_all_append_None:
  "perform_all xs a = Some (rs, a') \<Longrightarrow> perform_all (xs @ ys) a = None \<longleftrightarrow> perform_all ys a' = None"
proof (induction xs arbitrary: a rs)
  case (Cons x xs)
  obtain r a1 rs1 where "perform x a = Some (r, a1)" "perform_all xs a1 = Some (rs1, a')"
    using Cons.prems by (auto simp: Option.bind_eq_Some_conv)
  then show ?case using Cons.IH by (cases "perform_all (xs @ ys) a1") auto
qed simp

lemma perform_all_None:
  "perform_all cs a = None \<Longrightarrow>
     \<exists>before c after rs a'. cs = before @ c # after \<and> perform_all before a = Some (rs, a') \<and> perform c a' = None"
proof (induction cs arbitrary: a)
  case (Cons c cs)
  show ?case
  proof (cases "perform c a")
    case None
    then show ?thesis by (intro exI [of _ "[]"] exI [of _ c] exI [of _ cs] exI [of _ "[]"] exI [of _ a]) simp
  next
    case (Some x)
    obtain r a1 where x: "x = (r, a1)" by (cases x)
    then have "perform_all cs a1 = None" using Some Cons.prems by (auto simp: bind_None_case split: option.splits)
    from Cons.IH [OF this] obtain before c' after rs a' where
      "cs = before @ c' # after" "perform_all before a1 = Some (rs, a')" "perform c' a' = None" by blast
    then show ?thesis using Some x by (intro exI [of _ "c # before"] exI [of _ c'] exI [of _ after] exI [of _ "r # rs"] exI [of _ a']) simp
  qed
qed simp

text \<open>C12: \<open>FatST80FileSystem\<close> gives its descriptors the type of a run of calls, and this says exactly which runs have a
result.  Every call on a well-formed table leaves a well-formed table; opening and creating return -1 or a descriptor
from 0 to 63 that was free and is the only one that becomes open; closing an open descriptor returns 0 and frees exactly
that one; the operations on a descriptor that is not open fail with their failure value; no other call changes which
descriptors are open.  A run has no result exactly when one of its calls, reached by such a run, leaves the table, or
FatFs does not return from it; and a call leaves the table exactly when its descriptor is not from 0 to 63, or when it
opens a file while all 64 descriptors are open: then the code stores the file object at \<^verbatim>\<open>fdtofil[-1]\<close>.\<close>

theorem descriptors_typed:
  assumes "table_ok a"
  shows "(\<forall>rs a'. perform_all cs a = Some (rs, a') \<longrightarrow>
      table_ok a' \<and> run_types (open_descriptors a) cs rs (open_descriptors a')) \<and>
    (perform_all cs a = None \<longleftrightarrow>
      (\<exists>before c after rs a'. cs = before @ c # after \<and> perform_all before a = Some (rs, a') \<and> table_ok a' \<and>
         run_types (open_descriptors a) before rs (open_descriptors a') \<and> (outside_table c a' \<or> \<not> fatfs_returns c a')))"
proof (intro conjI allI impI iffI)
  show "table_ok a'" "run_types (open_descriptors a) cs rs (open_descriptors a')"
    if "perform_all cs a = Some (rs, a')" for rs a'
    using perform_all_typed [OF assms that] by auto
next
  assume "perform_all cs a = None"
  then obtain before c after rs a' where s: "cs = before @ c # after" "perform_all before a = Some (rs, a')"
      "perform c a' = None"
    using perform_all_None by blast
  note t = perform_all_typed [OF assms s(2)]
  with s show "\<exists>before c after rs a'. cs = before @ c # after \<and> perform_all before a = Some (rs, a') \<and> table_ok a' \<and>
      run_types (open_descriptors a) before rs (open_descriptors a') \<and> (outside_table c a' \<or> \<not> fatfs_returns c a')"
    using perform_stops [of a' c] by blast
next
  assume "\<exists>before c after rs a'. cs = before @ c # after \<and> perform_all before a = Some (rs, a') \<and> table_ok a' \<and>
      run_types (open_descriptors a) before rs (open_descriptors a') \<and> (outside_table c a' \<or> \<not> fatfs_returns c a')"
  then obtain before c after rs a' where s: "cs = before @ c # after" "perform_all before a = Some (rs, a')"
      "perform c a' = None"
    using perform_stops by blast
  then show "perform_all cs a = None" by (simp add: perform_all_append_None)
qed

section \<open>An adapter for the examples\<close>

text \<open>Descriptor 3 is open, nothing is mounted, and the memory for new file objects is exhausted.\<close>

definition ex_fil :: FIL where
  "ex_fil = \<lparr>obj_fs = 1, obj_id = 1, obj_attr = 0, obj_stat = 0, sclust = 2, objsize = 9, flag = 3, err = FR_OK, fptr = 5,
     fclust = 2, fsect = 0, dir_sect = 0, dir_ptr = 0, buf = replicate 512 0\<rparr>"

definition ex_dirobj :: DIR where
  "ex_dirobj = \<lparr>obj_fs = 0, obj_id = 0, obj_attr = 0, obj_stat = 0, sclust = 0, objsize = 0, dptr = 0, clust = 0, sect = 0,
     dir = 0, fn = replicate 12 0, blk_ofs = 0, pat = []\<rparr>"

definition ex_info :: FILINFO where
  "ex_info = \<lparr>fi_fsize = 0, fdate = 0, ftime = 0, fattrib = 0, altname = replicate 13 0, fname = replicate 256 0\<rparr>"

definition ex_unmounted :: world where
  "ex_unmounted = \<lparr>fss = (\<lambda>_. ex_fs), drives = (\<lambda>_. ex_dev), FatFs = [0, 0, 0, 0], CurrVol = 0, Fsid = 0,
     mutex = (\<lambda>_. False), held = (\<lambda>_. False)\<rparr>"

definition ex_adapter :: adapter where
  "ex_adapter = \<lparr>root_directory = [0x2F], fdtofil = (replicate 64 None)[3 := Some ex_fil], curfd = 4, disk = ex_unmounted,
     mallocs = 0, heap_fil = (\<lambda>n. None), heap_dir = (\<lambda>n. None), local_dir = ex_dirobj, local_info = ex_info, errno = 0,
     strerror = (\<lambda>e. None)\<rparr>"

lemma ex_adapter_ok: "table_ok ex_adapter"
  by (simp add: table_ok_def ex_adapter_def)

lemma ex_adapter_fil: "fil_at 3 ex_adapter = Some (Some ex_fil)" "fil_at 7 ex_adapter = Some None"
  by (simp_all add: fil_at_def ex_adapter_def)

text \<open>A mounted volume with a file of 600 bytes, named A, in its root directory; only descriptor 3 is free.\<close>

definition ex_root_sector :: "BYTE list" where
  "ex_root_sector = [0x41] @ replicate 10 0x20 @ [0x20] @ replicate 14 0 @ [2, 0, 88, 2, 0, 0] @ replicate 480 0"

definition ex_mounted :: world where
  "ex_mounted = \<lparr>fss = (\<lambda>_. ex_fs),
     drives = (\<lambda>_. ex_dev\<lparr>media := (\<lambda>k. if k = 1 \<or> k = 2 then ex_fat else if k = 3 then ex_root_sector else replicate 512 0)\<rparr>),
     FatFs = [1, 0, 0, 0], CurrVol = 0, Fsid = 1, mutex = (\<lambda>l. l = 0), held = (\<lambda>_. False)\<rparr>"

definition ex_nearly_full :: adapter where
  "ex_nearly_full = ex_adapter\<lparr>fdtofil := (replicate 64 (Some ex_fil))[3 := None], curfd := 63, disk := ex_mounted,
     heap_fil := (\<lambda>n. Some ex_fil)\<rparr>"

text \<open>The same with all descriptors open.\<close>

definition ex_full :: adapter where
  "ex_full = ex_nearly_full\<lparr>fdtofil := replicate 64 (Some ex_fil)\<rparr>"

declare append_follow.simps [code] sdi_follow.simps [code] alloc_loop.simps [code] remove_loop.simps [code]
  follow_loop.simps [code] number_loop.simps [code] lfn_loop.simps [code] clear_fill.simps [code] create_scan.simps [code]
  sfn_loop.simps [code] find_loop.simps [code]

lemma ex_table_ok: "table_ok ex_nearly_full" "table_ok ex_full"
  by (simp_all add: table_ok_def ex_nearly_full_def ex_full_def)

text \<open>Opening the file succeeds, and the object it gives can be closed.\<close>

lemma ex_open_result:
  "map_option (\<lambda>(fres, fp, w). (fres, objsize fp, obj_fs fp, obj_id fp, flag fp)) (f_open ex_fil [0x2F, 0x2F, 0x41] 3 ex_mounted) =
   Some (FR_OK, 600, 1, 1, 3)"
  by code_simp

lemma ex_open_volume:
  "map_option (\<lambda>(fres, fp, w). (fs_type (fss w 1), fs_id (fss w 1), ldrv (fss w 1), mutex w 0, held w 0, pdrv (fss w 1), present (drives w 0)))
     (f_open ex_fil [0x2F, 0x2F, 0x41] 3 ex_mounted) = Some (1, 1, 0, True, False, 0, True)"
  by code_simp

lemma close_open_vol: "close_vol fs (open_vol fs w) w = w"
proof -
  have "fatfs.truncate (open_vol fs w) = fss w fs" "pdrv (open_vol fs w) = pdrv (fss w fs)"
      "dk (open_vol fs w) = drives w (unat (pdrv (fss w fs)))"
    by (simp_all add: open_vol_def fatfs.defs vol.defs)
  then show ?thesis by (simp add: close_vol_def fun_upd_idem)
qed

lemma close_unmodified:
  assumes "obj_fs fp = 1" "obj_id fp = fs_id (fss w 1)" "fs_type (fss w 1) \<noteq> 0" "ldrv (fss w 1) = 0" "mutex w 0" "\<not> held w 0"
    and "pdrv (fss w 1) = 0" "present (drives w 0)" "flag fp AND FA_MODIFIED = 0"
  shows "f_close fp w \<noteq> None"
proof -
  define w1 where "w1 = w\<lparr>held := (held w)(0 := True)\<rparr>"
  have v: "validate fp w = Some (FR_OK, 1, w1)"
    using assms by (simp add: validate_def lock_volume_def ff_mutex_take_def disk_status_def w1_def)
  have c: "close_vol 1 (open_vol 1 w1) w1 = w1" by (rule close_open_vol)
  define w2 where "w2 = w1\<lparr>held := (held w1)(0 := False)\<rparr>"
  have l: "leave_ff 1 FR_OK w1 = Some (FR_OK, w2)"
    using assms by (simp add: leave_ff_def unlock_volume_def ff_mutex_give_def w1_def w2_def)
  have s: "f_sync fp w = Some (FR_OK, fp, w2)" using v c l assms(9) by (simp add: f_sync_def file_sync_def)
  have "w2 = w" using assms(6) by (auto simp: w2_def w1_def fun_upd_idem)
  then show ?thesis
    using s v assms by (simp add: f_close_def unlock_volume_def ff_mutex_give_def w1_def)
qed

lemma ex_opened_file:
  obtains fp w where "f_open ex_fil [0x2F, 0x2F, 0x41] 3 ex_mounted = Some (FR_OK, fp, w)" "objsize fp = 600" "f_close fp w \<noteq> None"
proof -
  obtain fp w where f: "f_open ex_fil [0x2F, 0x2F, 0x41] 3 ex_mounted = Some (FR_OK, fp, w)" "objsize fp = 600"
      "obj_fs fp = 1" "obj_id fp = 1" "flag fp = 3"
    using ex_open_result by (auto simp: case_prod_beta)
  with ex_open_volume have "f_close fp w \<noteq> None" by (intro close_unmodified) auto
  then show ?thesis using f that by blast
qed

lemma ex_getfd:
  assumes "fdtofil a = (replicate 64 (Some ex_fil))[3 := None]" "curfd a = 63"
  shows "getfd a = Some (3, a\<lparr>curfd := 4\<rparr>)"
  by (simp add: getfd_def scan_fd.simps fil_at_def assms)

lemma ex_run:
  "\<exists>a'. perform_all [OpenFile [0x41], FileSize 3, CloseFile 3, FileSize 3] ex_nearly_full = Some ([3, 600, 0, -1], a') \<and>
     fdtofil a' = fdtofil ex_nearly_full"
proof -
  obtain fp w where f: "f_open ex_fil [0x2F, 0x2F, 0x41] 3 ex_mounted = Some (FR_OK, fp, w)" "objsize fp = 600"
      "f_close fp w \<noteq> None"
    by (rule ex_opened_file)
  then obtain fres fp' w' where c: "f_close fp w = Some (fres, fp', w')" by auto
  define a1 where "a1 = ex_nearly_full\<lparr>mallocs := 1, disk := w, curfd := 4, fdtofil := (replicate 64 (Some ex_fil))[3 := Some fp]\<rparr>"
  have a1: "fdtofil a1 = (replicate 64 (Some ex_fil))[3 := Some fp]" "disk a1 = w" by (simp_all add: a1_def)
  then have same: "a1\<lparr>disk := w, fdtofil := (fdtofil a1)[3 := Some fp]\<rparr> = a1" by simp
  define a2 where "a2 = a1\<lparr>disk := w', fdtofil := (replicate 64 (Some ex_fil))[3 := None]\<rparr>"
  have a2: "fdtofil a2 = (replicate 64 (Some ex_fil))[3 := None]" by (simp add: a2_def)
  have o: "fat_open_file [0x41] ex_nearly_full = Some (3, a1)"
    using f(1) by (simp add: fat_open_file_def open_with_def malloc_fil_def path_for_file_def cstr_def ex_getfd
        ex_nearly_full_def ex_adapter_def set_fil_def a1_def)
  have s: "fat_file_size 3 a1 = Some (600, a1)"
    using f(2) a1 same by (simp add: fat_file_size_def with_fil_def fil_at_def set_fil_def)
  have e: "fat_close_file 3 a1 = Some (0, a2)"
    using c a1 by (simp add: fat_close_file_def fil_at_def set_fil_def a2_def)
  have z: "fat_file_size 3 a2 = Some (-1, a2)"
    using a2 by (simp add: fat_file_size_def with_fil_def fil_at_def)
  show ?thesis
    by (simp add: o s e z) (simp add: a2 ex_nearly_full_def)
qed

lemma ex_full_outside: "outside_table (OpenFile [0x41]) ex_full"
proof -
  obtain fp w where "f_open ex_fil [0x2F, 0x2F, 0x41] 3 ex_mounted = Some (FR_OK, fp, w)"
    by (rule ex_opened_file)
  then show ?thesis
    by (auto simp: open_result_def path_for_file_def cstr_def full_table_def slot_def ex_full_def ex_nearly_full_def ex_adapter_def
        nat_less_iff)
qed

lemma ex_open_descriptors: "fdtofil a = fdtofil ex_nearly_full \<Longrightarrow> open_descriptors a = {0..<64} - {3}"
  by (auto simp: open_descriptors_def slot_def ex_nearly_full_def nth_list_update split: if_splits)

theorem descriptors_typed_witness:
  "(\<exists>a'. perform_all [OpenFile [0x41], FileSize 3, CloseFile 3, FileSize 3] ex_nearly_full = Some ([3, 600, 0, -1], a') \<and>
      table_ok a' \<and>
      run_types ({0..<64} - {3}) [OpenFile [0x41], FileSize 3, CloseFile 3, FileSize 3] [3, 600, 0, -1] ({0..<64} - {3})) \<and>
   perform_all [OpenFile [0x41]] ex_full = None \<and> perform_all [CloseFile 64] ex_full = None"
proof -
  let ?cs = "[OpenFile [0x41], FileSize 3, CloseFile 3, FileSize 3]"
  obtain a' where run: "perform_all ?cs ex_nearly_full = Some ([3, 600, 0, -1], a')" "fdtofil a' = fdtofil ex_nearly_full"
    using ex_run by (elim exE conjE)
  have typed: "table_ok a' \<and> run_types (open_descriptors ex_nearly_full) ?cs [3, 600, 0, -1] (open_descriptors a')"
    by (rule descriptors_typed [OF ex_table_ok(1), THEN conjunct1, rule_format, OF run(1)])
  have stops: "perform_all [c] ex_full = None" if "outside_table c ex_full" for c
  proof -
    have "[c] = [] @ c # [] \<and> perform_all [] ex_full = Some ([], ex_full) \<and> table_ok ex_full \<and>
        run_types (open_descriptors ex_full) [] [] (open_descriptors ex_full) \<and> (outside_table c ex_full \<or> \<not> fatfs_returns c ex_full)"
      using that ex_table_ok(2) by (simp add: run_types.none)
    then show ?thesis
      by (intro descriptors_typed [OF ex_table_ok(2), THEN conjunct2, THEN iffD2] exI)
  qed
  show ?thesis
    using run(1) typed stops [OF ex_full_outside] stops [of "CloseFile 64"]
    unfolding ex_open_descriptors [OF refl] ex_open_descriptors [OF run(2)] by (intro conjI exI [of _ a']) simp_all
qed

section \<open>Snapshots on FatFs\<close>

text \<open>C38: Saving a snapshot through the file system on FatFs leaves the object memory as it was, although the table entries
are changed while they are written, and leaves the table of descriptors as it was, also when a write fails: the file is
closed, and no file object of another descriptor is touched.\<close>

theorem snapshot_leaves_no_trace:
  assumes "table_ok a" "saveSnapshot fat_filesystem name m (Some a) = Some (ok, m', w')"
  shows "m' = m \<and> (\<forall>a'. w' = Some a' \<longrightarrow> table_ok a' \<and> slot a' = slot a)"
  using ensuresD [OF fat_files.saveSnapshot_keeps assms(2)] assms(1)
  by (auto simp: table_valid_def slots_def)

definition ex_omem :: omem where
  "ex_omem = \<lparr>cell = (\<lambda>s w. 0), currentSegment = 0, freeWords = 0, freeOops = 0\<rparr>"

theorem snapshot_leaves_no_trace_witness:
  "\<exists>ok m' a'. saveSnapshot fat_filesystem [0x61] ex_omem (Some ex_adapter) = Some (ok, m', Some a') \<and>
     m' = ex_omem \<and> table_ok a' \<and> slot a' = slot ex_adapter"
proof -
  have c: "fat_create_file (bytes_of [0x61]) ex_adapter = Some (-1, ex_adapter\<lparr>mallocs := 1\<rparr>)"
    by (simp add: fat_create_file_def open_with_def malloc_fil_def ex_adapter_def)
  have s: "saveSnapshot fat_filesystem [0x61] ex_omem (Some ex_adapter) = Some (False, ex_omem, Some (ex_adapter\<lparr>mallocs := 1\<rparr>))"
    by (simp add: saveSnapshot_def running_def c)
  show ?thesis using snapshot_leaves_no_trace [OF ex_adapter_ok s] s by blast
qed

text \<open>A load that is successful, or is not in the fast mode, closes its file too.\<close>

lemma load_leaves_no_descriptor:
  assumes "table_ok a" "bootmode im = 2 \<longrightarrow> ok"
    and "loadSnapshot fat_filesystem name im m (Some a) = Some (ok, im', m', Some a')"
  shows "table_ok a' \<and> slot a' = slot a"
  using fat_files.loadSnapshot_keeps [OF _ assms(2,3)] assms(1) by (auto simp: table_valid_def slots_def)

text \<open>In the fast mode a file that is too large for the array stays open.\<close>

lemma failed_load_leaves_file_open:
  assumes "bootmode im = 2" "open_file fs name w = (fd, w1)" "fd \<noteq> -1" "file_size fs fd w1 = (n, w2)"
    "int (length (im_array im)) < take_bit 32 n"
  shows "loadSnapshot fs name im m w = Some (False, im, m, w2)"
  using assms by (simp add: loadSnapshot_def read_image_def)

end
