(* ===== verification/VmInputProps.thy ===== *)
theory VmInputProps
  imports VmInput VmFatFsProps
begin

text \<open>
  The words of the input queue against the events they stand for: a decoder that reads the queue as the image does, the
  events of a frame as a function of the state of keyboard and mouse, how an event arrives (the y coordinate as an x
  coordinate), and the proof that the queue decodes to the events as they arrive, one signal for each word.
\<close>

section \<open>Decoding\<close>

datatype input_event =
  Time_passed int | Time_is int | X_position int | Y_position int | Key_down int | Key_up int | Unknown_event

definition simple_event :: "int \<Rightarrow> input_event" where
  "simple_event w =
     (let type = w div 4096; p = w mod 4096
      in if type = 0 then Time_passed p else if type = 1 then X_position p else if type = 2 then Y_position p
         else if type = 3 then Key_down p else if type = 4 then Key_up p else Unknown_event)"

text \<open>A word of type 5 announces an absolute time in the next two words.\<close>

fun decode_words :: "int list \<Rightarrow> input_event list" where
  "decode_words [] = []" |
  "decode_words (w # ws) =
     (if w div 4096 = 5 then (case ws of high # low # ws \<Rightarrow> Time_is (high * 65536 + low) # decode_words ws | _ \<Rightarrow> [])
      else simple_event w # decode_words ws)"

definition decodes :: "int list \<Rightarrow> input_event list \<Rightarrow> bool" where
  "decodes ws es \<longleftrightarrow> (\<forall>rest. decode_words (ws @ rest) = es @ decode_words rest)"

lemma decodes_append: "decodes ws es \<Longrightarrow> decodes ws' es' \<Longrightarrow> decodes (ws @ ws') (es @ es')"
  by (simp add: decodes_def)

lemma decodes_Nil [simp]: "decodes [] []"
  by (simp add: decodes_def)

definition typed_word :: "int \<Rightarrow> int \<Rightarrow> int" where
  "typed_word type parameter = push_bit 12 (type AND 0xF) OR (parameter AND 0xFFF)"

lemma typed_word_value: "typed_word type parameter = (type mod 16) * 4096 + parameter mod 4096"
proof -
  have m: "(0xFFF :: int) = mask 12" by (simp add: mask_eq_exp_minus_1)
  have "push_bit 12 (type AND 0xF) OR (parameter AND 0xFFF) = push_bit 12 (type AND 0xF) + (parameter AND 0xFFF)"
    by (rule disjunctive_add [symmetric]) (auto simp: m bit_simps)
  moreover have "type AND 0xF = type mod 16" "parameter AND 0xFFF = parameter mod 4096"
    using take_bit_eq_mask [of 4 type] take_bit_eq_mask [of 12 parameter] by (simp_all add: take_bit_eq_mod mask_eq_exp_minus_1)
  ultimately show ?thesis by (simp add: typed_word_def push_bit_eq_mult)
qed

lemma typed_word_parts:
  "typed_word type parameter div 4096 = type mod 16" "typed_word type parameter mod 4096 = parameter mod 4096"
  unfolding typed_word_value by (simp_all add: div_add1_eq)

lemma typed_word_decodes: "type mod 16 \<noteq> 5 \<Longrightarrow> decodes [typed_word type parameter] [simple_event (typed_word type parameter)]"
  by (simp add: decodes_def typed_word_parts)

lemma time_words_decode: "decodes [typed_word 5 0, high, low] [Time_is (high * 65536 + low)]"
  by (simp add: decodes_def typed_word_parts)

section \<open>Queueing\<close>

text \<open>What the events of a frame are made of, and what queueing leaves alone.\<close>

definition same_inputs :: "machine interp \<Rightarrow> machine interp \<Rightarrow> bool" where
  "same_inputs s s' \<longleftrightarrow>
     memory s' = memory s \<and> input_semaphore (world s') = input_semaphore (world s)
     \<and> GetMouseState (kern (world s')) = GetMouseState (kern (world s)) \<and> off_x (world s') = off_x (world s)
     \<and> off_y (world s') = off_y (world s) \<and> clock_ticks (kern (world s')) = clock_ticks (kern (world s))
     \<and> epoch (kern (world s')) = epoch (kern (world s)) \<and> mouse_oldmb (world s') = mouse_oldmb (world s)"

text \<open>At most \<open>n\<close> words were added to the queue, they decode to \<open>es\<close>, and each was announced by a signal.\<close>

definition added :: "nat \<Rightarrow> input_event list \<Rightarrow> machine interp \<Rightarrow> machine interp \<Rightarrow> bool" where
  "added n es s s' \<longleftrightarrow>
     (\<exists>ws. length ws \<le> n \<and> decodes ws es \<and> input_queue (world s') = input_queue (world s) @ ws
        \<and> semaphoreIndex s' = semaphoreIndex s + int (length ws)
        \<and> (\<forall>i. semaphoreList s' i = (if semaphoreIndex s < i \<and> i \<le> semaphoreIndex s' then input_semaphore (world s)
                                      else semaphoreList s i)))"

definition emits :: "nat \<Rightarrow> input_event list \<Rightarrow> machine interp \<Rightarrow> machine interp \<Rightarrow> bool" where
  "emits n es s s' \<longleftrightarrow> added n es s s' \<and> same_inputs s s'"

lemma emits_Nil [simp]: "emits 0 [] s s"
  by (auto simp: emits_def added_def same_inputs_def intro!: exI [of _ "[]"])

lemma added_trans:
  assumes "added n es s s'" "added n' es' s' s''" "input_semaphore (world s') = input_semaphore (world s)"
  shows "added (n + n') (es @ es') s s''"
proof -
  obtain ws where 1: "length ws \<le> n" "decodes ws es" "input_queue (world s') = input_queue (world s) @ ws"
      "semaphoreIndex s' = semaphoreIndex s + int (length ws)"
      "\<And>i. semaphoreList s' i = (if semaphoreIndex s < i \<and> i \<le> semaphoreIndex s' then input_semaphore (world s)
                                    else semaphoreList s i)"
    using assms(1) by (auto simp: added_def)
  obtain ws' where 2: "length ws' \<le> n'" "decodes ws' es'" "input_queue (world s'') = input_queue (world s') @ ws'"
      "semaphoreIndex s'' = semaphoreIndex s' + int (length ws')"
      "\<And>i. semaphoreList s'' i = (if semaphoreIndex s' < i \<and> i \<le> semaphoreIndex s'' then input_semaphore (world s')
                                    else semaphoreList s' i)"
    using assms(2) by (auto simp: added_def)
  have "semaphoreList s'' i = (if semaphoreIndex s < i \<and> i \<le> semaphoreIndex s'' then input_semaphore (world s)
                               else semaphoreList s i)" for i
    using 1(4) 2(4) unfolding 2(5) 1(5) assms(3) by auto
  then show ?thesis
    unfolding added_def using 1 2 by (intro exI [of _ "ws @ ws'"]) (auto simp: decodes_append)
qed

lemma emits_trans: "emits n es s s' \<Longrightarrow> emits n' es' s' s'' \<Longrightarrow> emits (n + n') (es @ es') s s''"
  using added_trans by (auto simp: emits_def same_inputs_def)

text \<open>There is room for so many signals and events.\<close>

definition ready :: "nat \<Rightarrow> nat \<Rightarrow> machine interp \<Rightarrow> bool" where
  "ready n k s \<longleftrightarrow> input_semaphore (world s) \<noteq> 0 \<and> semaphoreIndex s + int n < 4096 \<and> event_count (world s) + int k \<le> 2147483647"

definition clock_state :: "machine \<Rightarrow> nat \<times> int \<times> DWORD" where
  "clock_state w = (readings (kern w), event_count w, last_event_time w)"

lemma ready_emits:
  "ready (n + n') k s \<Longrightarrow> emits n es s s' \<Longrightarrow> event_count (world s') = event_count (world s) \<Longrightarrow> ready n' k s'"
  by (auto simp: ready_def emits_def added_def same_inputs_def)

lemma ready_emits_event:
  "ready (n + n') (Suc k) s \<Longrightarrow> emits n es s s' \<Longrightarrow> event_count (world s') = event_count (world s) + 1 \<Longrightarrow> ready n' k s'"
  by (auto simp: ready_def emits_def added_def same_inputs_def)

lemma queue_word_emits:
  assumes "ready n k s" "0 < n" "decodes [w] es"
  shows "\<exists>s'. queue_input_word w s = Some s' \<and> emits 1 es s s' \<and> clock_state (world s') = clock_state (world s)"
  using assms
  by (auto simp: queue_input_word_def asynchronousSignal_def in_world_def Let_def ready_def emits_def added_def same_inputs_def
      clock_state_def intro!: exI [of _ "[w]"])

lemma typed_emits:
  assumes "ready n k s" "0 < n" "type mod 16 \<noteq> 5"
  shows "\<exists>s'. queue_typed_word type parameter s = Some s' \<and> emits 1 [simple_event (typed_word type parameter)] s s' \<and>
     clock_state (world s') = clock_state (world s)"
  unfolding queue_typed_word_def typed_word_def [symmetric]
  by (rule queue_word_emits [OF assms(1,2) typed_word_decodes [OF assms(3)]])

section \<open>Time\<close>

text \<open>The time event of the next reading of the clock, from the number of readings, the number of events and the time of
the last one.\<close>

type_synonym clock = "(nat \<Rightarrow> DWORD) \<times> (nat \<Rightarrow> DWORD)"

definition stamp :: "clock \<Rightarrow> nat \<times> int \<times> DWORD \<Rightarrow> input_event \<times> nat \<times> int \<times> DWORD" where
  "stamp c t =
     (case (c, t) of ((ticks, ep), (i, n, since)) \<Rightarrow>
        let now = ticks i div 1000; delta = (if n = 0 then 0 else now - since)
        in if delta \<le> 4095 then (Time_passed (uint delta), i + 1, n + 1, now)
           else (Time_is (uint (ep (i + 1) + 2177452800)), i + 2, n + 1, now))"

definition clock_of :: "machine interp \<Rightarrow> clock" where
  "clock_of s = (clock_ticks (kern (world s)), epoch (kern (world s)))"

lemma emits_clock: "emits n es s s' \<Longrightarrow> clock_of s' = clock_of s"
  by (auto simp: emits_def added_def same_inputs_def clock_of_def)

lemma emits_quiet:
  assumes "input_queue (world s') = input_queue (world s)" "semaphoreIndex s' = semaphoreIndex s"
    "semaphoreList s' = semaphoreList s" "same_inputs s s'"
  shows "emits 0 [] s s'"
  using assms by (auto simp: emits_def added_def intro!: exI [of _ "[]"])

lemma split_word32: "uint (drop_bit 16 x AND 0xFFFF :: DWORD) * 65536 + uint (x AND 0xFFFF) = uint x"
proof -
  have m: "(0xFFFF :: DWORD) = mask 16" by (simp add: mask_eq_exp_minus_1)
  have h: "drop_bit 16 x AND mask 16 = drop_bit 16 x" by (rule bit_word_eqI) (auto simp: bit_simps dest: bit_imp_le_length)
  have "uint (drop_bit 16 x) = uint x div 65536" "uint (x AND mask 16) = uint x mod 65536"
    by (simp_all add: drop_bit_eq_div uint_div uint_mod unsigned_take_bit_eq take_bit_eq_mod flip: take_bit_eq_mask)
  then show ?thesis unfolding m h by simp
qed

lemma three_words_emit:
  assumes "ready (n + 3) k s" "decodes [a, b, c] es"
  shows "\<exists>s'. do { s \<leftarrow> queue_input_word a s; s \<leftarrow> queue_input_word b s; queue_input_word c s } = Some s' \<and>
     emits 3 es s s' \<and> clock_state (world s') = clock_state (world s)"
  using assms
  by (auto simp: queue_input_word_def asynchronousSignal_def in_world_def Let_def ready_def emits_def added_def same_inputs_def
      clock_state_def intro!: exI [of _ "[a, b, c]"])

lemma time_emits:
  assumes "ready (n + 3) (Suc k) s"
  shows "\<exists>s'. queue_input_time_words s = Some s' \<and> emits 3 [fst (stamp (clock_of s) (clock_state (world s)))] s s' \<and>
     clock_state (world s') = snd (stamp (clock_of s) (clock_state (world s))) \<and> ready n k s'"
proof -
  define w where "w = (world s)\<lparr>kern := (kern (world s))\<lparr>readings := readings (kern (world s)) + 1\<rparr>\<rparr>"
  define now where "now = clock_ticks (kern (world s)) (readings (kern (world s))) div 1000"
  define delta where "delta = (if event_count (world s) = 0 then 0 else now - last_event_time (world s))"
  define s1 where "s1 = s\<lparr>world := w\<lparr>event_count := event_count (world s) + 1\<rparr>\<rparr>"
  have g: "vm_get_msclock (world s) = (now, w)"
    by (simp add: vm_get_msclock_def in_kernel_def GetTicks_def now_def w_def)
  have w: "event_count w = event_count (world s)" "last_event_time w = last_event_time (world s)" by (simp_all add: w_def)
  have count: "event_count (world s) \<noteq> 2147483647" using assms by (simp add: ready_def)
  have code: "queue_input_time_words s =
      (if delta \<le> 4095 then queue_typed_word 0 (take_bit 16 (uint delta)) s1
       else do {
         let (abs_time, w) = vm_get_smalltalk_epoch_time (world s1);
         s \<leftarrow> queue_typed_word 5 0 (s1\<lparr>world := w\<rparr>);
         s \<leftarrow> queue_input_word (uint (drop_bit 16 abs_time AND 0xFFFF)) s;
         queue_input_word (uint (abs_time AND 0xFFFF)) s
       }) \<bind> (\<lambda>s. Some (in_world (\<lambda>m. m\<lparr>last_event_time := now\<rparr>) s))"
    unfolding queue_input_time_words_def g Let_def prod.case w if_not_P [OF count]
    unfolding delta_def [symmetric] s1_def [symmetric] ..
  have e1: "emits 0 [] s s1"
    by (rule emits_quiet) (simp_all add: s1_def w_def same_inputs_def GetMouseState_def)
  have r1: "ready (n + 3) k s1" using assms by (simp add: ready_def s1_def w_def)
  have finish: "emits 3 es s (in_world (\<lambda>m. m\<lparr>last_event_time := now\<rparr>) s2) \<and>
      ready n k (in_world (\<lambda>m. m\<lparr>last_event_time := now\<rparr>) s2)"
    if "emits 3 es s1 s2" "event_count (world s2) = event_count (world s1)" for es s2
  proof -
    have "emits 0 [] s2 (in_world (\<lambda>m. m\<lparr>last_event_time := now\<rparr>) s2)"
      by (rule emits_quiet) (simp_all add: in_world_def same_inputs_def)
    from emits_trans [OF emits_trans [OF e1 that(1)] this]
    have e: "emits 3 es s (in_world (\<lambda>m. m\<lparr>last_event_time := now\<rparr>) s2)" by simp
    have "ready n k s2" using ready_emits [of 3 n k s1 es s2] r1 that by (simp add: add.commute)
    then show ?thesis using e by (simp add: ready_def in_world_def)
  qed
  show ?thesis
  proof (cases "delta \<le> 4095")
    case True
    have d: "take_bit 16 (uint delta) mod 4096 = uint delta"
    proof -
      have "uint delta < 4096" using True by (simp add: word_le_def)
      then show ?thesis by (simp add: take_bit_eq_mod)
    qed
    obtain s2 where s2: "queue_typed_word 0 (take_bit 16 (uint delta)) s1 = Some s2"
        "emits 1 [simple_event (typed_word 0 (take_bit 16 (uint delta)))] s1 s2"
        "clock_state (world s2) = clock_state (world s1)"
      using typed_emits [OF r1, of 0] by auto
    have "simple_event (typed_word 0 (take_bit 16 (uint delta))) = Time_passed (uint delta)"
      by (simp add: simple_event_def typed_word_parts d)
    then have e2: "emits 3 [Time_passed (uint delta)] s1 s2"
      using s2(2) by (auto simp: emits_def added_def)
    have q: "queue_input_time_words s = Some (in_world (\<lambda>m. m\<lparr>last_event_time := now\<rparr>) s2)"
      using True s2(1) by (simp add: code)
    have st: "stamp (clock_of s) (clock_state (world s)) =
        (Time_passed (uint delta), readings (kern (world s)) + 1, event_count (world s) + 1, now)"
      using True unfolding delta_def
      by (cases "event_count (world s) = 0") (simp_all add: stamp_def clock_of_def clock_state_def Let_def now_def [symmetric])
    have "event_count (world s2) = event_count (world s1)" "readings (kern (world s2)) = readings (kern (world s1))"
      using s2(3) by (simp_all add: clock_state_def)
    then show ?thesis
      using q st finish [OF e2] by (simp add: clock_state_def in_world_def s1_def w_def)
  next
    case False
    define t where "t = epoch (kern (world s)) (readings (kern (world s)) + 1) + 2177452800"
    define w2 where "w2 = (world s1)\<lparr>kern := (kern (world s1))\<lparr>readings := readings (kern (world s1)) + 1\<rparr>\<rparr>"
    have ep: "vm_get_smalltalk_epoch_time (world s1) = (t, w2)"
      by (simp add: vm_get_smalltalk_epoch_time_def in_kernel_def GetEpochTime_def t_def w2_def s1_def w_def)
    have e0: "emits 0 [] s1 (s1\<lparr>world := w2\<rparr>)"
      by (rule emits_quiet) (simp_all add: w2_def same_inputs_def GetMouseState_def)
    have r2: "ready (n + 3) k (s1\<lparr>world := w2\<rparr>)" using r1 by (simp add: ready_def w2_def)
    have d: "decodes [typed_word 5 0, uint (drop_bit 16 t AND 0xFFFF), uint (t AND 0xFFFF)] [Time_is (uint t)]"
      using time_words_decode [of "uint (drop_bit 16 t AND 0xFFFF)" "uint (t AND 0xFFFF)"] unfolding split_word32 .
    obtain s2 where s2: "do { s \<leftarrow> queue_input_word (typed_word 5 0) (s1\<lparr>world := w2\<rparr>);
          s \<leftarrow> queue_input_word (uint (drop_bit 16 t AND 0xFFFF)) s; queue_input_word (uint (t AND 0xFFFF)) s } = Some s2"
        "emits 3 [Time_is (uint t)] (s1\<lparr>world := w2\<rparr>) s2" "clock_state (world s2) = clock_state w2"
      using three_words_emit [OF r2 d] by auto
    have e2: "emits 3 [Time_is (uint t)] s1 s2" using emits_trans [OF e0 s2(2)] by simp
    have q: "queue_input_time_words s = Some (in_world (\<lambda>m. m\<lparr>last_event_time := now\<rparr>) s2)"
      using False s2(1) by (simp add: code ep queue_typed_word_def typed_word_def [of 5 0])
    have st: "stamp (clock_of s) (clock_state (world s)) =
        (Time_is (uint t), readings (kern (world s)) + 2, event_count (world s) + 1, now)"
      using False unfolding delta_def
      by (cases "event_count (world s) = 0")
        (simp_all add: stamp_def clock_of_def clock_state_def Let_def now_def [symmetric] t_def)
    have "event_count (world s2) = event_count w2" "readings (kern (world s2)) = readings (kern w2)"
      using s2(3) by (simp_all add: clock_state_def)
    then show ?thesis
      using q st finish [OF e2] by (simp add: clock_state_def in_world_def s1_def w_def w2_def)
  qed
qed

section \<open>Events\<close>

lemma simple_events [simp]:
  "simple_event (typed_word 1 p) = X_position (p mod 4096)" "simple_event (typed_word 2 p) = Y_position (p mod 4096)"
  "simple_event (typed_word 3 p) = Key_down (p mod 4096)" "simple_event (typed_word 4 p) = Key_up (p mod 4096)"
  by (simp_all add: simple_event_def typed_word_parts)

text \<open>A step that returns, adds at most so many words for the given events, and leaves the clock in the given state.\<close>

definition yields :: "nat \<Rightarrow> input_event list \<Rightarrow> nat \<times> int \<times> DWORD \<Rightarrow> machine interp \<Rightarrow> machine interp option \<Rightarrow> bool" where
  "yields n es t s r \<longleftrightarrow> (\<exists>s'. r = Some s' \<and> emits n es s s' \<and> clock_state (world s') = t)"

lemma yields_bind:
  assumes "yields n es t s r" "\<And>s'. emits n es s s' \<Longrightarrow> clock_state (world s') = t \<Longrightarrow> yields n' es' t' s' (f s')"
  shows "yields (n + n') (es @ es') t' s (r \<bind> f)"
  using assms emits_trans unfolding yields_def by fastforce

lemma yields_Some: "yields 0 [] (clock_state (world s)) s (Some s)"
  by (simp add: yields_def)

lemma yields_weaken: "yields n es t s r \<Longrightarrow> n \<le> n' \<Longrightarrow> yields n' es t s r"
  by (fastforce simp: yields_def emits_def added_def)

lemma ready_after:
  "ready (n + n') (k + k') s \<Longrightarrow> emits n es s s' \<Longrightarrow> event_count (world s') \<le> event_count (world s) + int k \<Longrightarrow> ready n' k' s'"
  by (auto simp: ready_def emits_def added_def same_inputs_def)

lemma yields_word:
  assumes "ready n k s" "0 < n" "type \<in> {1, 2, 3, 4}"
  shows "yields 1 [simple_event (typed_word type parameter)] (clock_state (world s)) s (queue_typed_word type parameter s)"
  using typed_emits [OF assms(1,2), of type parameter] assms(3) by (auto simp: yields_def)

lemma yields_if:
  assumes "ready n k s" "0 < n" "type \<in> {1, 2, 3, 4}"
  shows "yields 1 (if b then [simple_event (typed_word type parameter)] else []) (clock_state (world s)) s
           (queue_if b type parameter s)"
  using yields_word [OF assms] yields_weaken [OF yields_Some [of s]] by (simp add: queue_if_def)

lemma yields_time:
  assumes "ready 3 1 s"
  shows "yields 3 [fst (stamp (clock_of s) (clock_state (world s)))] (snd (stamp (clock_of s) (clock_state (world s)))) s
           (queue_input_time_words s)"
  using time_emits [of 0 0 s] assms by (auto simp: yields_def)

lemma count_after_stamp: "fst (snd (snd (stamp c t))) = fst (snd t) + 1"
  by (auto simp: stamp_def Let_def split: prod.splits)

lemma ready_mono: "ready n k s \<Longrightarrow> n' \<le> n \<Longrightarrow> k' \<le> k \<Longrightarrow> ready n' k' s"
  by (auto simp: ready_def)

text \<open>A time event and what follows it.\<close>

lemma yields_timed:
  assumes "ready (3 + n) (Suc k) s"
    and "\<And>s'. ready n k s' \<Longrightarrow> clock_of s' = clock_of s \<Longrightarrow> same_inputs s s' \<Longrightarrow> yields n es (clock_state (world s')) s' (f s')"
  shows "yields (3 + n) (fst (stamp (clock_of s) (clock_state (world s))) # es)
           (snd (stamp (clock_of s) (clock_state (world s)))) s (queue_input_time_words s \<bind> f)"
proof -
  let ?t = "stamp (clock_of s) (clock_state (world s))"
  have "yields (3 + n) ([fst ?t] @ es) (snd ?t) s (queue_input_time_words s \<bind> f)"
  proof (rule yields_bind [OF yields_time])
    show "ready 3 1 s" using ready_mono [OF assms(1)] by simp
    fix s' assume s': "emits 3 [fst ?t] s s'" "clock_state (world s') = snd ?t"
    have "event_count (world s') = event_count (world s) + 1"
      using s'(2) count_after_stamp [of "clock_of s" "clock_state (world s)"] by (simp add: clock_state_def prod_eq_iff)
    then have "ready n k s'" using ready_after [of 3 n 1 k, OF _ s'(1)] assms(1) by simp
    then show "yields n es (snd ?t) s' (f s')"
      using assms(2) [of s'] emits_clock [OF s'(1)] s' by (simp add: emits_def)
  qed
  then show ?thesis by simp
qed

fun stamped :: "clock \<Rightarrow> nat \<times> int \<times> DWORD \<Rightarrow> input_event list list \<Rightarrow> input_event list \<times> nat \<times> int \<times> DWORD" where
  "stamped c t [] = ([], t)" |
  "stamped c t (g # gs) = (let (e, t) = stamp c t; (es, t) = stamped c t gs in (e # g @ es, t))"

lemma stamped_append:
  "stamped c t (gs @ hs) = (let (es, t) = stamped c t gs; (es', t) = stamped c t hs in (es @ es', t))"
  by (induction gs arbitrary: t) (simp_all add: split_beta Let_def)

text \<open>The events of a key with its control state, of a change of the buttons, and of the position.\<close>

definition key_groups :: "BYTE list \<Rightarrow> input_event list list" where
  "key_groups keySeq =
     (let key = uint (keySeq ! 0); ctrl = uint (keySeq ! 1)
      in if key = 0 \<or> ctrl > 3 then []
         else [(if odd ctrl then [Key_down 138] else []) @ (if ctrl \<ge> 2 then [Key_down 136] else [])
               @ [Key_down key, Key_up key]
               @ (if ctrl \<ge> 2 then [Key_up 136] else []) @ (if odd ctrl then [Key_up 138] else [])])"

definition button_code :: "DWORD \<Rightarrow> int" where
  "button_code b = (if b = 1 then 130 else if b = 2 then 128 else 129)"

definition changed_buttons :: "DWORD \<Rightarrow> DWORD \<Rightarrow> DWORD list" where
  "changed_buttons old new = filter (\<lambda>b. new AND b \<noteq> old AND b) [4, 2, 1]"

definition button_groups :: "DWORD \<Rightarrow> DWORD \<Rightarrow> input_event list list" where
  "button_groups old new =
     map (\<lambda>b. [if new AND b \<noteq> 0 then Key_down (button_code b) else Key_up (button_code b)]) (changed_buttons old new)"

definition position_groups :: "int \<Rightarrow> int \<Rightarrow> input_event list list" where
  "position_groups x y = [[X_position (x mod 4096)], [Y_position (y mod 4096)]]"

text \<open>How an event arrives: the y coordinate is queued with the type of x.\<close>

fun reported :: "input_event \<Rightarrow> input_event" where
  "reported (Y_position v) = X_position v" |
  "reported e = e"

lemma changed_button_first: "changed_button new old = (case changed_buttons old new of [] \<Rightarrow> None | b # _ \<Rightarrow> Some b)"
  by (simp add: changed_button_def changed_buttons_def)

lemma first_button:
  "take (Suc 0) (button_groups old new) =
     (case changed_button new old of None \<Rightarrow> []
      | Some b \<Rightarrow> [[if new AND b \<noteq> 0 then Key_down (button_code b) else Key_up (button_code b)]])"
  by (simp add: changed_button_first button_groups_def take_Cons' split: list.splits)

lemma reported_stamp: "reported (fst (stamp c t)) = fst (stamp c t)"
  by (simp add: stamp_def split_beta Let_def)

lemma reported_stamped:
  "map reported (fst (stamped c t gs)) = fst (stamped c t (map (map reported) gs))"
  "snd (stamped c t (map (map reported) gs)) = snd (stamped c t gs)"
  by (induction gs arbitrary: t) (simp_all add: split_beta Let_def reported_stamp)

lemma reported_no_y: "Y_position v \<notin> set (map reported es)"
proof -
  have "reported e \<noteq> Y_position v" for e by (cases e) simp_all
  then show ?thesis by (metis imageE set_map)
qed

lemma reported_position: "map (map reported) (position_groups x y) = [[X_position (x mod 4096)], [X_position (y mod 4096)]]"
  by (simp add: position_groups_def)

lemma reported_keys [simp]: "map (map reported) (key_groups keySeq) = key_groups keySeq"
  by (simp add: key_groups_def Let_def)

lemma reported_buttons: "map (map reported) (button_groups old new) = button_groups old new"
  by (simp add: button_groups_def)

lemma reported_first_buttons [simp]: "map (map reported) (take n (button_groups old new)) = take n (button_groups old new)"
  by (simp only: take_map [symmetric] reported_buttons)

lemma byte_bound: "0 \<le> uint (b :: BYTE)" "uint (b :: BYTE) < 256"
  using uint_lt2p [of b] by simp_all

lemma ctrl_bits:
  assumes "0 \<le> c" "c \<le> (3 :: int)"
  shows "c AND 1 \<noteq> 0 \<longleftrightarrow> odd c" "c AND 2 \<noteq> 0 \<longleftrightarrow> c \<ge> 2"
proof -
  have "c = 0 \<or> c = 1 \<or> c = 2 \<or> c = 3" using assms by auto
  then show "c AND 1 \<noteq> 0 \<longleftrightarrow> odd c" "c AND 2 \<noteq> 0 \<longleftrightarrow> c \<ge> 2" by auto
qed

text \<open>A step that queues groups of events, each after its time.\<close>

definition queues :: "nat \<Rightarrow> input_event list list \<Rightarrow> machine interp \<Rightarrow> machine interp option \<Rightarrow> bool" where
  "queues n gs s r \<longleftrightarrow>
     yields n (fst (stamped (clock_of s) (clock_state (world s)) gs)) (snd (stamped (clock_of s) (clock_state (world s)) gs)) s r"

lemma queues_Nil: "queues 0 [] s (Some s)"
  by (simp add: queues_def yields_Some)

lemma queues_timed:
  assumes "ready (3 + n) (Suc k) s"
    and "\<And>s'. ready n k s' \<Longrightarrow> same_inputs s s' \<Longrightarrow> yields n g (clock_state (world s')) s' (f s')"
  shows "queues (3 + n) [g] s (queue_input_time_words s \<bind> f)"
  using yields_timed [OF assms(1), of g f] assms(2) by (simp add: queues_def split_beta Let_def)

lemma count_after_groups: "fst (snd (snd (stamped c t gs))) = fst (snd t) + int (length gs)"
  by (induction gs arbitrary: t) (simp_all add: split_beta Let_def count_after_stamp)

lemma queues_append:
  assumes "ready (n + n') (length gs + k) s" "queues n gs s r"
    and "\<And>s'. ready n' k s' \<Longrightarrow> same_inputs s s' \<Longrightarrow> queues n' hs s' (f s')"
  shows "queues (n + n') (gs @ hs) s (r \<bind> f)"
proof -
  let ?c = "clock_of s" and ?t = "clock_state (world s)"
  have "yields (n + n') (fst (stamped ?c ?t gs) @ fst (stamped ?c (snd (stamped ?c ?t gs)) hs))
          (snd (stamped ?c (snd (stamped ?c ?t gs)) hs)) s (r \<bind> f)"
  proof (rule yields_bind [OF assms(2) [unfolded queues_def]])
    fix s' assume s': "emits n (fst (stamped ?c ?t gs)) s s'" "clock_state (world s') = snd (stamped ?c ?t gs)"
    have "event_count (world s') = event_count (world s) + int (length gs)"
      using s'(2) count_after_groups [of ?c ?t gs] by (simp add: clock_state_def prod_eq_iff)
    then have "ready n' k s'" using ready_after [OF assms(1) s'(1)] by simp
    then show "yields n' (fst (stamped ?c (snd (stamped ?c ?t gs)) hs)) (snd (stamped ?c (snd (stamped ?c ?t gs)) hs)) s' (f s')"
      using assms(3) [of s'] emits_clock [OF s'(1)] s' by (simp add: queues_def emits_def added_def)
  qed
  then show ?thesis by (simp add: queues_def stamped_append split_beta Let_def)
qed

lemma movement_queues:
  assumes "ready 8 2 s"
  shows "queues 8 (map (map reported) (position_groups x y)) s (handle_mouse_movement_event x y s)"
proof -
  have p: "take_bit 16 z mod 4096 = z mod (4096 :: int)" for z by (simp add: take_bit_eq_mod mod_mod_cancel)
  have word: "yields 1 [X_position (z mod 4096)] (clock_state (world s')) s' (queue_typed_word 1 (take_bit 16 z) s')"
    if "ready 1 k s'" for k s' z
    using yields_word [OF that, of 1 "take_bit 16 z"] by (simp add: p)
  have one: "queues 4 [[X_position (z mod 4096)]] s' (queue_input_time_words s' \<bind> queue_typed_word 1 (take_bit 16 z))"
    if "ready 4 (Suc k) s'" for k s' z
    using queues_timed [of 1 k s' "[X_position (z mod 4096)]" "queue_typed_word 1 (take_bit 16 z)"] word that by simp
  have "queues (4 + 4) ([[X_position (x mod 4096)]] @ [[X_position (y mod 4096)]]) s
      ((queue_input_time_words s \<bind> queue_typed_word 1 (take_bit 16 x))
         \<bind> (\<lambda>s. queue_input_time_words s \<bind> queue_typed_word 1 (take_bit 16 y)))"
  proof (rule queues_append [where k = 1])
    show "ready (4 + 4) (length [[X_position (x mod 4096)]] + 1) s" using assms by (simp add: numeral_2_eq_2)
    show "queues 4 [[X_position (x mod 4096)]] s (queue_input_time_words s \<bind> queue_typed_word 1 (take_bit 16 x))"
      by (rule one [of 1]) (rule ready_mono [OF assms], simp_all)
  qed (use one [of 0] in simp)
  then show ?thesis by (simp add: reported_position handle_mouse_movement_event_def bind_assoc)
qed

lemma button_queues:
  assumes "ready 4 1 s" "changed_button new old = Some b"
  shows "queues 4 (take 1 (button_groups old new)) s (handle_mouse_button_event b (new AND b) s)"
proof -
  have b: "b = 1 \<or> b = 2 \<or> b = 4" using assms(2) by (auto simp: changed_button_def split: if_splits)
  then obtain i where i: "smalltalk_button b = Some (button_code b, i)"
    by (auto simp: smalltalk_button_def button_code_def)
  have c: "button_code b mod 4096 = button_code b" using b by (auto simp: button_code_def)
  define s1 where "s1 = in_world (\<lambda>m. m\<lparr>button_down_mods := (button_down_mods m)[i := 0]\<rparr>) s"
  have e: "emits 0 [] s s1" by (rule emits_quiet) (simp_all add: s1_def in_world_def same_inputs_def)
  have s1: "clock_state (world s1) = clock_state (world s)" "clock_of s1 = clock_of s" "ready 4 1 s1"
    using assms(1) by (simp_all add: s1_def in_world_def clock_state_def clock_of_def ready_def)
  let ?e = "if new AND b \<noteq> 0 then Key_down (button_code b) else Key_up (button_code b)"
  have "yields 1 [?e] (clock_state (world s')) s' (queue_typed_word (if new AND b \<noteq> 0 then 3 else 4) (button_code b) s')"
    if "ready 1 0 s'" for s'
    using yields_word [OF that, of "if new AND b \<noteq> 0 then 3 else 4" "button_code b"] by (auto simp: c split: if_splits)
  then have "queues (3 + 1) [[?e]] s1
      (queue_input_time_words s1 \<bind> queue_typed_word (if new AND b \<noteq> 0 then 3 else 4) (button_code b))"
    using s1(3) by (intro queues_timed [where k = 0]) simp_all
  then have q: "queues 4 (take 1 (button_groups old new)) s1 (handle_mouse_button_event b (new AND b) s)"
    using assms(2) i by (simp add: handle_mouse_button_event_def first_button s1_def [symmetric])
  show ?thesis
    using q e s1(1,2) emits_trans [OF e] unfolding queues_def yields_def by fastforce
qed

lemma yields_word_then:
  assumes "ready (Suc n) k s" "type \<in> {1, 2, 3, 4}" "simple_event (typed_word type parameter) = e"
    and "\<And>s'. ready n k s' \<Longrightarrow> yields n es (clock_state (world s')) s' (f s')"
  shows "yields (Suc n) (e # es) (clock_state (world s)) s (queue_typed_word type parameter s \<bind> f)"
proof -
  have "yields (1 + n) ([e] @ es) (clock_state (world s)) s (queue_typed_word type parameter s \<bind> f)"
  proof (rule yields_bind)
    show "yields 1 [e] (clock_state (world s)) s (queue_typed_word type parameter s)"
      using yields_word [OF assms(1) _ assms(2), of parameter] assms(3) by simp
    show "yields n es (clock_state (world s)) s' (f s')" if "emits 1 [e] s s'" "clock_state (world s') = clock_state (world s)" for s'
      using assms(4) [OF ready_after [of 1 n 0 k, OF _ that(1)]] assms(1) that(2) by (simp add: clock_state_def)
  qed
  then show ?thesis by simp
qed

lemma yields_if_then:
  assumes "ready (Suc n) k s" "type \<in> {1, 2, 3, 4}" "simple_event (typed_word type parameter) = e" "b = c"
    and "\<And>s'. ready n k s' \<Longrightarrow> yields n es (clock_state (world s')) s' (f s')"
  shows "yields (Suc n) ((if c then [e] else []) @ es) (clock_state (world s)) s (queue_if b type parameter s \<bind> f)"
proof (cases c)
  case True
  then show ?thesis using yields_word_then [OF assms(1,2,3,5)] assms(4) by (simp add: queue_if_def)
next
  case False
  have "ready n k s" by (rule ready_mono [OF assms(1)]) simp_all
  then show ?thesis using assms(4,5) False yields_weaken [of n _ _ _ _ "Suc n"] by (simp add: queue_if_def)
qed

lemma key_queues:
  assumes "ready 9 1 s"
  shows "queues 9 (key_groups keySeq) s (handle_cooked_keyboard_key keySeq s)"
proof (cases "uint (keySeq ! 0) = 0 \<or> uint (keySeq ! 1) > 3")
  case True
  then show ?thesis
    using yields_weaken [OF yields_Some [of s], of 9] by (auto simp: handle_cooked_keyboard_key_def key_groups_def queues_def Let_def)
next
  case False
  define key where "key = uint (keySeq ! 0)"
  define ctrl where "ctrl = uint (keySeq ! 1)"
  have b: "0 \<le> key" "key < 256" "0 \<le> ctrl" "ctrl \<le> 3"
    using byte_bound [of "keySeq ! 0"] byte_bound [of "keySeq ! 1"] False by (auto simp: key_def ctrl_def)
  let ?es = "(if odd ctrl then [Key_down 138] else []) @ (if ctrl \<ge> 2 then [Key_down 136] else [])
             @ Key_down key # Key_up key # (if ctrl \<ge> 2 then [Key_up 136] else []) @ (if odd ctrl then [Key_up 138] else []) @ []"
  have body: "yields 6 ?es (clock_state (world s')) s'
      (queue_if (ctrl AND 1 \<noteq> 0) 3 138 s' \<bind> (\<lambda>s. queue_if (ctrl AND 2 \<noteq> 0) 3 136 s
        \<bind> (\<lambda>s. queue_typed_word 3 key s \<bind> (\<lambda>s. queue_typed_word 4 key s
        \<bind> (\<lambda>s. queue_if (ctrl AND 2 \<noteq> 0) 4 136 s \<bind> (\<lambda>s. queue_if (ctrl AND 1 \<noteq> 0) 4 138 s \<bind> Some))))))"
    if "ready 6 0 s'" for s'
  proof -
    have bits: "(ctrl AND 1 \<noteq> 0) = odd ctrl" "(ctrl AND 2 \<noteq> 0) = (ctrl \<ge> 2)" using ctrl_bits [OF b(3,4)] by blast+
    have m: "key mod 4096 = key" using b(1,2) by simp
    have r: "ready (Suc (Suc (Suc (Suc (Suc (Suc 0)))))) 0 s'" using that by (simp add: eval_nat_numeral)
    have six: "(6 :: nat) = Suc (Suc (Suc (Suc (Suc (Suc 0)))))" by simp
    show ?thesis
      unfolding six
      by (rule yields_if_then, rule r, simp, simp, rule bits, rule yields_if_then, assumption, simp, simp, rule bits,
          rule yields_word_then, assumption, simp, simp add: m, rule yields_word_then, assumption, simp, simp add: m,
          rule yields_if_then, assumption, simp, simp, rule bits, rule yields_if_then, assumption, simp, simp, rule bits,
          rule yields_Some)
  qed
  have "queues (3 + 6) [?es] s (queue_input_time_words s \<bind> (\<lambda>s'. queue_if (ctrl AND 1 \<noteq> 0) 3 138 s'
        \<bind> (\<lambda>s. queue_if (ctrl AND 2 \<noteq> 0) 3 136 s
        \<bind> (\<lambda>s. queue_typed_word 3 key s \<bind> (\<lambda>s. queue_typed_word 4 key s
        \<bind> (\<lambda>s. queue_if (ctrl AND 2 \<noteq> 0) 4 136 s \<bind> (\<lambda>s. queue_if (ctrl AND 1 \<noteq> 0) 4 138 s \<bind> Some)))))))"
    using assms body by (intro queues_timed [where k = 0]) simp_all
  moreover have "key_groups keySeq = [?es]"
    using b False unfolding key_groups_def Let_def key_def [symmetric] ctrl_def [symmetric] by simp
  moreover have "handle_cooked_keyboard_key keySeq s = (queue_input_time_words s \<bind> (\<lambda>s'. queue_if (ctrl AND 1 \<noteq> 0) 3 138 s'
        \<bind> (\<lambda>s. queue_if (ctrl AND 2 \<noteq> 0) 3 136 s
        \<bind> (\<lambda>s. queue_typed_word 3 key s \<bind> (\<lambda>s. queue_typed_word 4 key s
        \<bind> (\<lambda>s. queue_if (ctrl AND 2 \<noteq> 0) 4 136 s \<bind> (\<lambda>s. queue_if (ctrl AND 1 \<noteq> 0) 4 138 s \<bind> Some)))))))"
    using b False unfolding handle_cooked_keyboard_key_def Let_def key_def [symmetric] ctrl_def [symmetric] by simp
  ultimately show ?thesis by simp
qed

lemma queues_returns:
  assumes "queues n gs s r" "ready (n + n') (length gs + k) s"
  shows "\<exists>s'. r = Some s' \<and> emits n (fst (stamped (clock_of s) (clock_state (world s)) gs)) s s' \<and>
     clock_state (world s') = snd (stamped (clock_of s) (clock_state (world s)) gs) \<and> ready n' k s'"
proof -
  let ?st = "stamped (clock_of s) (clock_state (world s)) gs"
  obtain s' where s': "r = Some s'" "emits n (fst ?st) s s'" "clock_state (world s') = snd ?st"
    using assms(1) by (auto simp: queues_def yields_def)
  have "event_count (world s') = event_count (world s) + int (length gs)"
    using s'(3) count_after_groups [of "clock_of s" "clock_state (world s)" gs] by (simp add: clock_state_def prod_eq_iff)
  then show ?thesis using s' ready_after [OF assms(2) s'(2)] by auto
qed

lemma key_part_queues:
  assumes "ready 9 1 s"
  shows "queues 9 (key_groups keySeq) s (if keySeq ! 0 \<noteq> 0 then handle_cooked_keyboard_key keySeq s else Some s)"
proof (cases "keySeq ! 0 = 0")
  case True
  then have "key_groups keySeq = []" by (simp add: key_groups_def)
  then show ?thesis using True yields_weaken [OF yields_Some [of s], of 9] by (simp add: queues_def)
qed (use key_queues [OF assms] in simp)

lemma key_groups_length: "length (key_groups keySeq) \<le> 1"
  by (simp add: key_groups_def Let_def)

text \<open>The rest of a round, after the new buttons were noted.\<close>

lemma buttons_and_position_queue:
  assumes "ready 12 3 s" "new = old \<or> changed_button new old \<noteq> None"
  shows "queues 12 (take 1 (button_groups old new) @ map (map reported) (position_groups x y)) s
           ((if new \<noteq> old then changed_button new old \<bind> (\<lambda>b. handle_mouse_button_event b (new AND b) s) else Some s)
              \<bind> handle_mouse_movement_event x y)"
proof (cases "new = old")
  case True
  have "queues 8 (map (map reported) (position_groups x y)) s (handle_mouse_movement_event x y s)"
    by (rule movement_queues, rule ready_mono [OF assms(1)]) simp_all
  moreover have "button_groups old old = []" by (simp add: button_groups_def changed_buttons_def)
  ultimately show ?thesis using True yields_weaken [of 8 _ _ _ _ 12] by (simp add: queues_def)
next
  case False
  then obtain b where b: "changed_button new old = Some b" using assms(2) by auto
  have "queues (4 + 8) (take 1 (button_groups old new) @ map (map reported) (position_groups x y)) s
      (handle_mouse_button_event b (new AND b) s \<bind> handle_mouse_movement_event x y)"
  proof (rule queues_append [where k = 2])
    show "ready (4 + 8) (length (take 1 (button_groups old new)) + 2) s"
      using assms(1) b by (simp add: first_button numeral_3_eq_3)
    show "queues 4 (take 1 (button_groups old new)) s (handle_mouse_button_event b (new AND b) s)"
      by (rule button_queues [OF _ b], rule ready_mono [OF assms(1)]) simp_all
  qed (use movement_queues in simp)
  then show ?thesis using False b by simp
qed

text \<open>A round, with the key that it reads and the mouse that it compares with the buttons before.\<close>

lemma process_events_parts:
  fixes s :: "machine interp"
  defines "keySeq \<equiv> fst (GetCookedKeyboardKey (kern (world s)))"
  assumes "input_semaphore (world s) \<noteq> 0"
  shows "process_events s =
    (if keySeq ! 0 \<noteq> 0
     then handle_cooked_keyboard_key keySeq (s\<lparr>world := (world s)\<lparr>kern := snd (GetCookedKeyboardKey (kern (world s)))\<rparr>\<rparr>)
     else Some (s\<lparr>world := (world s)\<lparr>kern := snd (GetCookedKeyboardKey (kern (world s)))\<rparr>\<rparr>)) \<bind>
      (\<lambda>s. (if m_nButtons (kern (world s)) \<noteq> mouse_oldmb (world s)
            then changed_button (m_nButtons (kern (world s))) (mouse_oldmb (world s)) \<bind>
              (\<lambda>b. handle_mouse_button_event b (m_nButtons (kern (world s)) AND b)
                     (in_world (\<lambda>m. m\<lparr>mouse_oldmb := m_nButtons (kern (world s))\<rparr>) s))
            else Some s)
         \<bind> handle_mouse_movement_event (m_nPosX (kern (world s)) - off_x (world s)) (m_nPosY (kern (world s)) - off_y (world s)))"
  using assms(2) by (simp add: process_events_def in_kernel_def split_beta GetMouseState_def keySeq_def [symmetric] Let_def)

text \<open>The words that were added decode, from an empty queue, to the events.\<close>

lemma added_decoded:
  assumes "added n es s s'"
  shows "\<exists>ws. input_queue (world s') = input_queue (world s) @ ws \<and> decode_words ws = es \<and>
    semaphoreIndex s' = semaphoreIndex s + int (length ws) \<and>
    (\<forall>i. semaphoreList s' i = (if semaphoreIndex s < i \<and> i \<le> semaphoreIndex s' then input_semaphore (world s)
                                 else semaphoreList s i))"
proof -
  obtain ws where ws: "decodes ws es" "input_queue (world s') = input_queue (world s) @ ws"
      "semaphoreIndex s' = semaphoreIndex s + int (length ws)"
      "\<forall>i. semaphoreList s' i = (if semaphoreIndex s < i \<and> i \<le> semaphoreIndex s' then input_semaphore (world s)
                                    else semaphoreList s i)"
    using assms by (auto simp: added_def)
  have "decode_words (ws @ []) = es @ decode_words []" using ws(1) unfolding decodes_def by blast
  then have "decode_words ws = es" by simp
  then show ?thesis using ws(2-4) by blast
qed


section \<open>A machine for the examples\<close>

text \<open>The key a was pressed and the left button is down; the display of 640 by 480 pixels stands in the middle of a screen
of 800 by 600.\<close>

definition ex_kernel :: kernel where
  "ex_kernel =
     \<lparr>m_nPosX = 100, m_nPosY = 90, m_nButtons = 1, m_CookedKeySeq = [0x61, 0, 0, 0, 0, 0], m_CursorColor = 0xF800,
      mb_nScreenWidth = 800, mb_nScreenHeight = 600, mb_nPosX = 100, mb_nPosY = 90, mb_bHasMoved = False, mb_nButtons = 1,
      m_nWidth = 800, m_nHeight = 600, m_pBuffer = (\<lambda>x y. 0), clock_ticks = (\<lambda>i. 2000000), epoch = (\<lambda>i. 1700000000),
      readings = 0\<rparr>"

definition ex_machine :: machine where
  "ex_machine =
     \<lparr>kern = ex_kernel, files = Some ex_adapter, aborted = False, cycles_per_frame = 1800, input_queue = [],
      last_event_time = 0, event_count = 0, input_semaphore = 200, quit_signalled = False, texture_needs_update = True,
      display_width = 640, display_height = 480, dirty_rect = \<lparr>rect_x = 0, rect_y = 0, rect_w = 640, rect_h = 480\<rparr>,
      scheduled_semaphore = 0, scheduled_time = 0, image_name = [], screen_initialized = True, off_x = 80, off_y = 60,
      MyCursorSymbol = replicate 16 0xFFFF, prev_x = 0, prev_y = 0, button_down_mods = [0, 0, 0], mouse_oldmb = 0\<rparr>"

definition ex_vm :: "omem \<Rightarrow> machine interp" where
  "ex_vm m =
     \<lparr>memory = m, activeContext = 100, homeContext = 100, methodPointer = 0, receiver = 1, instructionPointer = 20,
      stackPointer = 9, currentBytecode = 176, successFlag = True, messageSelector = 2, argumentCount = 0, newMethod = 0,
      primitiveIndex = 0, newProcessWaiting = False, newProcess = 2, semaphoreList = (\<lambda>i. 0), semaphoreIndex = -1,
      methodCache = (\<lambda>i. 2), checkLowMemory = False, memoryIsLow = False, lowSpaceSemaphore = 2, oopsLeftLimit = 0,
      wordsLeftLimit = 0, currentDisplay = 0, currentDisplayWidth = 0, currentDisplayHeight = 0, currentCursor = 0,
      world = ex_machine\<rparr>"


end
