(* ===== verification/VmScreenProps.thy ===== *)
theory VmScreenProps
  imports VmRun VmInputProps VmBlitPixel
begin

text \<open>
  The screen against the display bitmap: what painting the changed rectangle leaves on the screen, when restoring the
  background of the cursor reads beyond the bitmap, and the scheduled semaphore against the clock.
\<close>

section \<open>Pixels\<close>

text \<open>Replace pixels of the screen.\<close>

definition repaint :: "(DWORD \<Rightarrow> DWORD \<Rightarrow> WORD option) \<Rightarrow> kernel \<Rightarrow> kernel" where
  "repaint f k = k\<lparr>m_pBuffer := (\<lambda>X Y. case f X Y of None \<Rightarrow> m_pBuffer k X Y | Some c \<Rightarrow> c)\<rparr>"

lemma repaint_fields [simp]:
  "m_nWidth (repaint f k) = m_nWidth k" "m_nHeight (repaint f k) = m_nHeight k" "GetMouseState (repaint f k) = GetMouseState k"
  "repaint (\<lambda>X Y. None) k = k"
  by (simp_all add: repaint_def GetMouseState_def)

lemma repaint_repaint: "repaint g (repaint f k) = repaint (\<lambda>X Y. case g X Y of None \<Rightarrow> f X Y | Some c \<Rightarrow> Some c) k"
  by (auto simp: repaint_def fun_eq_iff split: option.splits)

lemma SetPixel_repaint:
  "nPosX < m_nWidth k \<Longrightarrow> nPosY < m_nHeight k \<Longrightarrow>
     SetPixel nPosX nPosY c k = repaint (\<lambda>X Y. if X = nPosX \<and> Y = nPosY then Some c else None) k"
  by (auto simp: SetPixel_def repaint_def fun_eq_iff)

text \<open>The colour of a column of a display word.\<close>

definition pixel_colour :: "int \<Rightarrow> int \<Rightarrow> WORD" where
  "pixel_colour pixels column = (if bit pixels (nat (15 - column)) then BLACK_COLOR else NORMAL_COLOR)"

lemma word_of_int_eq: "0 \<le> i \<Longrightarrow> i < 2 ^ 32 \<Longrightarrow> X = (word_of_int i :: DWORD) \<longleftrightarrow> uint X = i"
  by (simp add: word_uint_eq_iff uint_word_of_int_eq take_bit_int_eq_self)

text \<open>So much of a word as the columns in a list.\<close>

lemma paint_bits:
  assumes "0 \<le> x" "x + 16 \<le> uint (m_nWidth k)" "0 \<le> y" "y < uint (m_nHeight k)" "set ps \<subseteq> {..<16}"
  shows "fold (paint_bit pixels x y) ps k =
    repaint (\<lambda>X Y. if uint Y = y \<and> (\<exists>p \<in> set ps. uint X = x + 15 - int p) then Some (pixel_colour pixels (uint X - x)) else None) k"
  using assms
proof (induction ps arbitrary: k)
  case Nil
  then show ?case by simp
next
  case (Cons p ps)
  have p: "int p < 16" using Cons.prems(5) by simp
  have w: "uint (m_nWidth k) < 2 ^ 32" "uint (m_nHeight k) < 2 ^ 32" using uint_lt2p [of "m_nWidth k"] uint_lt2p [of "m_nHeight k"] by simp_all
  let ?i = "x + (15 - int p)"
  define X0 where "X0 = (word_of_int ?i :: DWORD)"
  define Y0 where "Y0 = (word_of_int y :: DWORD)"
  have X: "X = X0 \<longleftrightarrow> uint X = ?i" "Y = Y0 \<longleftrightarrow> uint Y = y" for X Y
    using word_of_int_eq [of ?i X] word_of_int_eq [of y Y] Cons.prems p w unfolding X0_def Y0_def by simp_all
  have in_screen: "X0 < m_nWidth k" "Y0 < m_nHeight k"
    using X(1) [of X0] X(2) [of Y0] Cons.prems p by (simp_all add: word_less_def)
  have colour: "(if bit pixels p then 0 else 0xFFDF) = pixel_colour pixels (15 - int p)" by (simp add: pixel_colour_def)
  have one: "paint_bit pixels x y p k =
      repaint (\<lambda>X Y. if uint X = ?i \<and> uint Y = y then Some (pixel_colour pixels (15 - int p)) else None) k"
    unfolding paint_bit_def bit_iff_and_push_bit_not_eq_0 [symmetric] X0_def [symmetric] Y0_def [symmetric] colour
    by (simp add: SetPixel_repaint [OF in_screen] X)
  show ?case
    unfolding fold_Cons o_apply one
    using Cons.prems by (subst Cons.IH) (auto simp: repaint_repaint intro!: arg_cong [where f = "\<lambda>f. repaint f k"] ext)
qed

text \<open>A whole word.\<close>

lemma paint_word_repaint:
  assumes "0 \<le> x" "x + 16 \<le> uint (m_nWidth k)" "0 \<le> y" "y < uint (m_nHeight k)"
  shows "paint_word pixels x y k =
    repaint (\<lambda>X Y. if uint Y = y \<and> x \<le> uint X \<and> uint X < x + 16 then Some (pixel_colour pixels (uint X - x)) else None) k"
proof -
  have "(\<exists>p \<in> set [0..<16]. uint X = x + 15 - int p) \<longleftrightarrow> x \<le> uint X \<and> uint X < x + 16" for X :: DWORD
  proof
    assume "x \<le> uint X \<and> uint X < x + 16"
    then show "\<exists>p \<in> set [0..<16]. uint X = x + 15 - int p" by (intro bexI [of _ "nat (x + 15 - uint X)"]) auto
  qed auto
  then show ?thesis unfolding paint_word_def by (subst paint_bits [OF assms]) auto
qed

section \<open>The texture\<close>

text \<open>Painting in the machine changes the kernel only.\<close>

definition repainted :: "(DWORD \<Rightarrow> DWORD \<Rightarrow> WORD option) \<Rightarrow> machine interp \<Rightarrow> machine interp" where
  "repainted f s = in_world (\<lambda>m. m\<lparr>kern := repaint f (kern m)\<rparr>) s"

lemma repainted_fields [simp]:
  "memory (repainted f s) = memory s" "display_width (world (repainted f s)) = display_width (world s)"
  "display_height (world (repainted f s)) = display_height (world s)" "off_x (world (repainted f s)) = off_x (world s)"
  "off_y (world (repainted f s)) = off_y (world s)" "m_nWidth (kern (world (repainted f s))) = m_nWidth (kern (world s))"
  "m_nHeight (kern (world (repainted f s))) = m_nHeight (kern (world s))"
  "repainted (\<lambda>X Y. None) s = s"
  by (simp_all add: repainted_def in_world_def)

lemma repainted_repainted:
  "repainted g (repainted f s) = repainted (\<lambda>X Y. case g X Y of None \<Rightarrow> f X Y | Some c \<Rightarrow> Some c) s"
  by (simp add: repainted_def in_world_def repaint_repaint)

text \<open>Words of a display line, from a column of the screen on.\<close>

definition line_pixels :: "(int \<Rightarrow> int) \<Rightarrow> int \<Rightarrow> nat \<Rightarrow> int \<Rightarrow> int \<Rightarrow> DWORD \<Rightarrow> DWORD \<Rightarrow> WORD option" where
  "line_pixels dw i n x y X Y =
     (if uint Y = y \<and> x \<le> uint X \<and> uint X < x + 16 * int n
      then Some (pixel_colour (dw (i + (uint X - x) div 16)) ((uint X - x) mod 16)) else None)"

lemma line_pixels_Suc:
  "line_pixels dw i (Suc n) x y =
     (\<lambda>X Y. case line_pixels dw (i + 1) n (x + 16) y X Y of
        None \<Rightarrow> if uint Y = y \<and> x \<le> uint X \<and> uint X < x + 16 then Some (pixel_colour (dw i) (uint X - x)) else None
      | Some c \<Rightarrow> Some c)"
proof (intro ext)
  fix X Y :: DWORD
  have s: "(uint X - (x + 16)) div 16 = (uint X - x) div 16 - 1" "(uint X - (x + 16)) mod 16 = (uint X - x) mod 16"
    using div_add_self2 [of 16 "uint X - (x + 16)"] mod_add_self2 [of "uint X - (x + 16)" 16] by (simp_all add: algebra_simps)
  have "(uint X - x) div 16 = 0" "(uint X - x) mod 16 = uint X - x" if "x \<le> uint X" "uint X < x + 16"
    using that by (simp_all add: div_pos_pos_trivial mod_pos_pos_trivial)
  then show "line_pixels dw i (Suc n) x y X Y =
     (case line_pixels dw (i + 1) n (x + 16) y X Y of
        None \<Rightarrow> if uint Y = y \<and> x \<le> uint X \<and> uint X < x + 16 then Some (pixel_colour (dw i) (uint X - x)) else None
      | Some c \<Rightarrow> Some c)"
    by (auto simp: line_pixels_def s)
qed

lemma texture_words_paints:
  assumes "\<And>j. j < n \<Longrightarrow> fetchWord (i + int j) bm s = Some (dw (i + int j))"
    and "0 \<le> xp" "n > 0 \<Longrightarrow> xp + 16 * (int n - 1) < display_width (world s)"
    and "0 \<le> yp" "yp + h < display_height (world s)"
    and "0 \<le> off_x (world s) + xp" "off_x (world s) + xp + 16 * int n \<le> uint (m_nWidth (kern (world s)))"
    and "0 \<le> off_y (world s) + yp + h" "off_y (world s) + yp + h < uint (m_nHeight (kern (world s)))"
  shows "texture_words n i bm xp yp h s =
    Some (repainted (line_pixels dw i n (off_x (world s) + xp) (off_y (world s) + yp + h)) s)"
  using assms
proof (induction n arbitrary: i xp s)
  case 0
  have "line_pixels dw i 0 x y = (\<lambda>X Y. None)" for x y by (simp add: line_pixels_def fun_eq_iff)
  then show ?case by simp
next
  case (Suc n)
  let ?x = "off_x (world s) + xp" and ?y = "off_y (world s) + yp + h"
  have f: "fetchWord i bm s = Some (dw i)" using Suc.prems(1) [of 0] by simp
  define s1 where "s1 = repainted (\<lambda>X Y. if uint Y = ?y \<and> ?x \<le> uint X \<and> uint X < ?x + 16
      then Some (pixel_colour (dw i) (uint X - ?x)) else None) s"
  have one: "in_world (\<lambda>w. w\<lparr>kern := paint_word (dw i) (off_x w + xp) (off_y w + yp + h) (kern w)\<rparr>) s = s1"
    unfolding s1_def repainted_def in_world_def using Suc.prems by (simp add: paint_word_repaint)
  have "texture_words (Suc n) i bm xp yp h s = texture_words n (i + 1) bm (xp + 16) yp h s1"
    using Suc.prems f one by (simp add: fetchWord_ofDisplayBits_def)
  also have "\<dots> = Some (repainted (line_pixels dw (i + 1) n (off_x (world s1) + (xp + 16)) (off_y (world s1) + yp + h)) s1)"
  proof (rule Suc.IH)
    show "fetchWord (i + 1 + int j) bm s1 = Some (dw (i + 1 + int j))" if "j < n" for j
      using Suc.prems(1) [of "Suc j"] that by (simp add: s1_def algebra_simps)
  qed (use Suc.prems in \<open>simp_all add: s1_def\<close>)
  also have "\<dots> = Some (repainted (line_pixels dw (i + 1) n (?x + 16) ?y) s1)" by (simp add: s1_def add.assoc)
  also have "\<dots> = Some (repainted (line_pixels dw i (Suc n) ?x ?y) s)"
    unfolding s1_def repainted_repainted line_pixels_Suc ..
  finally show ?case .
qed

text \<open>Lines of the display from a row of the screen on.\<close>

definition block_pixels :: "(int \<Rightarrow> int) \<Rightarrow> int \<Rightarrow> int \<Rightarrow> nat \<Rightarrow> nat \<Rightarrow> int \<Rightarrow> int \<Rightarrow> DWORD \<Rightarrow> DWORD \<Rightarrow> WORD option" where
  "block_pixels dw i raster rows n x y X Y =
     (if y \<le> uint Y \<and> uint Y < y + int rows then line_pixels dw (i + (uint Y - y) * raster) n x (uint Y) X Y else None)"

lemma block_pixels_Suc:
  "block_pixels dw i raster (Suc rows) n x y =
     (\<lambda>X Y. case block_pixels dw (i + raster) raster rows n x (y + 1) X Y of None \<Rightarrow> line_pixels dw i n x y X Y | Some c \<Rightarrow> Some c)"
proof (intro ext)
  fix X Y :: DWORD
  have e: "i + raster + (uint Y - (y + 1)) * raster = i + (uint Y - y) * raster" by (simp add: algebra_simps)
  show "block_pixels dw i raster (Suc rows) n x y X Y =
     (case block_pixels dw (i + raster) raster rows n x (y + 1) X Y of None \<Rightarrow> line_pixels dw i n x y X Y | Some c \<Rightarrow> Some c)"
    by (cases "uint Y = y") (auto simp: block_pixels_def line_pixels_def e split: option.splits if_splits)
qed

lemma texture_rows_paints:
  assumes "\<And>r j. r < rows \<Longrightarrow> j < n \<Longrightarrow>
      fetchWord (i + int r * raster + int j) bm s = Some (dw (i + int r * raster + int j))"
    and "raster = (display_width (world s) + 15) sdiv 16"
    and "0 \<le> xp" "n > 0 \<Longrightarrow> xp + 16 * (int n - 1) < display_width (world s)"
    and "0 \<le> yp" "0 \<le> h" "yp + h + int rows \<le> display_height (world s)"
    and "0 \<le> off_x (world s) + xp" "off_x (world s) + xp + 16 * int n \<le> uint (m_nWidth (kern (world s)))"
    and "0 \<le> off_y (world s) + yp" "off_y (world s) + yp + h + int rows \<le> uint (m_nHeight (kern (world s)))"
  shows "texture_rows rows h n i bm xp yp s =
    Some (repainted (block_pixels dw i raster rows n (off_x (world s) + xp) (off_y (world s) + yp + h)) s)"
  using assms
proof (induction rows arbitrary: i h s)
  case 0
  have "block_pixels dw i raster 0 n x y = (\<lambda>X Y. None)" for x y by (intro ext) (auto simp: block_pixels_def)
  then show ?case by simp
next
  case (Suc rows)
  let ?x = "off_x (world s) + xp" and ?y = "off_y (world s) + yp + h"
  define s1 where "s1 = repainted (line_pixels dw i n ?x ?y) s"
  have one: "texture_words n i bm xp yp h s = Some s1"
    unfolding s1_def
    by (rule texture_words_paints) (use Suc.prems Suc.prems(1) [of 0] in simp_all)
  have "texture_rows (Suc rows) h n i bm xp yp s = texture_rows rows (h + 1) n (i + raster) bm xp yp s1"
    using one Suc.prems(2) by (simp add: s1_def)
  also have "\<dots> = Some (repainted (block_pixels dw (i + raster) raster rows n (off_x (world s1) + xp)
      (off_y (world s1) + yp + (h + 1))) s1)"
  proof (rule Suc.IH)
    show "fetchWord (i + raster + int r * raster + int j) bm s1 = Some (dw (i + raster + int r * raster + int j))"
      if "r < rows" "j < n" for r j
      using Suc.prems(1) [of "Suc r" j] that by (simp add: s1_def algebra_simps)
  qed (use Suc.prems in \<open>simp_all add: s1_def\<close>)
  also have "\<dots> = Some (repainted (block_pixels dw (i + raster) raster rows n ?x (?y + 1)) s1)" by (simp add: s1_def add.assoc)
  also have "\<dots> = Some (repainted (block_pixels dw i raster (Suc rows) n ?x ?y) s)"
    unfolding s1_def repainted_repainted block_pixels_Suc ..
  finally show ?case .
qed

lemma word_range: "0 \<le> (d :: int) \<and> d < 16 * n \<longleftrightarrow> 0 \<le> d div 16 \<and> d div 16 < n"
  by (intro conj_cong; linarith)

text \<open>The pixels of the words that the rectangle touches, told by the column and the row of the display.\<close>

lemma rectangle_pixels:
  fixes ox oy x y h l e raster :: int and n :: nat and X Y :: "32 word"
  assumes "int n = e - l + 1" "0 \<le> h"
  shows "block_pixels dw (l + y * raster) raster (nat h) n (ox + l * 16) (oy + y) X Y =
    (let column = uint X - ox; row = uint Y - oy
     in if y \<le> row \<and> row < y + h \<and> l \<le> column div 16 \<and> column div 16 \<le> e
        then Some (pixel_colour (dw (row * raster + column div 16)) (column mod 16)) else None)"
proof -
  define c where "c = uint X - ox"
  define d where "d = uint X - (ox + l * 16)"
  have cd: "c = d + l * 16" by (simp add: c_def d_def)
  have m: "d div 16 = c div 16 - l" "d mod 16 = c mod 16" by (simp_all add: cd)
  have b: "0 \<le> d \<and> d < 16 * int n \<longleftrightarrow> l \<le> c div 16 \<and> c div 16 \<le> e"
    using word_range [of d "int n"] assms(1) m(1) by simp
  have y: "oy + y \<le> uint Y \<and> uint Y < oy + y + int (nat h) \<longleftrightarrow> y \<le> uint Y - oy \<and> uint Y - oy < y + h"
    using assms(2) by auto
  have i: "l + y * raster + (uint Y - (oy + y)) * raster + d div 16 = (uint Y - oy) * raster + c div 16"
    unfolding m by (simp add: algebra_simps)
  have x: "ox + l * 16 \<le> uint X \<and> uint X < ox + l * 16 + 16 * int n \<longleftrightarrow> l \<le> c div 16 \<and> c div 16 \<le> e"
    unfolding b [symmetric] d_def by auto
  show ?thesis
    unfolding block_pixels_def line_pixels_def c_def [symmetric] d_def [symmetric] Let_def
    unfolding i m(2) x y by simp
qed

text \<open>C14: When the bitmap of the display is readable and the display fits on the screen, painting the changed rectangle
returns, and changes nothing but the screen: there every pixel of the rectangle, widened to the words that cover it, shows
the bit of the bitmap at its place, black or white, and every other pixel of the screen is as it was.\<close>

theorem texture_shows_display:
  fixes s :: "machine interp"
  defines "w \<equiv> world s" and "r \<equiv> dirty_rect (world s)" and "raster \<equiv> (display_width (world s) + 15) div 16"
  assumes "getDisplayBits (display_width w) (display_height w) s = Some bitmap" "bitmap \<noteq> 0"
    and readable: "\<And>i. 0 \<le> i \<Longrightarrow> i < display_height w * raster \<Longrightarrow> fetchWord i bitmap s = Some (dw i)"
    and rect: "0 \<le> rect_x r" "0 < rect_w r" "rect_x r + rect_w r \<le> display_width w"
      "0 \<le> rect_y r" "0 \<le> rect_h r" "rect_y r + rect_h r \<le> display_height w"
    and screen: "0 \<le> off_x w" "off_x w + 16 * raster \<le> uint (m_nWidth (kern w))"
      "0 \<le> off_y w" "off_y w + display_height w \<le> uint (m_nHeight (kern w))"
  shows "\<exists>pixels. update_texture s = Some (in_world (\<lambda>w. w\<lparr>kern := (kern w)\<lparr>m_pBuffer := pixels\<rparr>\<rparr>) s) \<and>
    (\<forall>X Y. let column = uint X - off_x w; row = uint Y - off_y w
           in pixels X Y =
             (if rect_y r \<le> row \<and> row < rect_y r + rect_h r
                 \<and> rect_x r div 16 \<le> column div 16 \<and> column div 16 \<le> (rect_x r + rect_w r - 1) div 16
              then if bit (dw (row * raster + column div 16)) (nat (15 - column mod 16)) then BLACK_COLOR else NORMAL_COLOR
              else m_pBuffer (kern w) X Y))"
proof -
  let ?l = "rect_x r div 16" and ?e = "(rect_x r + rect_w r - 1) div 16"
  define n where "n = nat (?e - ?l + 1)"
  define f where "f = block_pixels dw (?l + rect_y r * raster) raster (nat (rect_h r)) n (off_x w + ?l * 16) (off_y w + rect_y r)"
  have l: "0 \<le> ?l" "?l \<le> ?e" "int n = ?e - ?l + 1" using rect(1,2) by (simp_all add: n_def zdiv_mono1)
  have e: "16 * ?e < display_width w" using rect(3) by linarith
  then have er: "?e < raster" by (simp add: raster_def w_def)
  have paints: "texture_rows (nat (rect_h r)) 0 n (?l + rect_y r * raster) bitmap (?l * 16) (rect_y r) s = Some (repainted f s)"
    unfolding f_def w_def
  proof (subst texture_rows_paints [where raster = raster and dw = dw], goal_cases)
    case (1 y j)
    let ?i = "?l + rect_y r * raster + int y * raster + int j"
    have "(rect_y r + int y) * raster \<le> (display_height w - 1) * raster"
      using 1(1) rect(6) er l by (intro mult_right_mono) linarith+
    then have "?i < display_height w * raster" using 1(2) l(3) er by (simp add: algebra_simps)
    moreover have "0 \<le> ?i" using l er rect(4) by simp
    ultimately show ?case using readable by simp
  next
    case 2
    have "0 \<le> display_width (world s) + 15" using rect(1-3) by (simp add: w_def)
    then show ?case by (simp add: raster_def sdiv_16)
  qed (use rect screen l e er in \<open>simp_all add: w_def\<close>)
  have d: "update_texture s = Some (repainted f s)"
  proof -
    have "rect_x r sdiv 16 = ?l" "(rect_x r + rect_w r - 1) sdiv 16 = ?e" "(display_width w + 15) sdiv 16 = raster"
      using rect(1-3) by (simp_all add: sdiv_16 raster_def w_def)
    moreover have dirty: "dirty_rect w = r" by (simp add: r_def w_def)
    ultimately show ?thesis
      using assms(4,5) paints dirty by (simp add: update_texture_def w_def [symmetric] n_def [symmetric] Let_def)
  qed
  have f: "f X Y = (let column = uint X - off_x w; row = uint Y - off_y w
      in if rect_y r \<le> row \<and> row < rect_y r + rect_h r \<and> ?l \<le> column div 16 \<and> column div 16 \<le> ?e
         then Some (pixel_colour (dw (row * raster + column div 16)) (column mod 16)) else None)" for X Y
    unfolding f_def by (rule rectangle_pixels [OF l(3) rect(5)])
  let ?pixels = "\<lambda>X Y. case f X Y of None \<Rightarrow> m_pBuffer (kern w) X Y | Some c \<Rightarrow> c"
  have "update_texture s = Some (in_world (\<lambda>w. w\<lparr>kern := (kern w)\<lparr>m_pBuffer := ?pixels\<rparr>\<rparr>) s)"
    unfolding d repainted_def in_world_def repaint_def w_def by simp
  moreover have "\<forall>X Y. let column = uint X - off_x w; row = uint Y - off_y w
      in ?pixels X Y = (if rect_y r \<le> row \<and> row < rect_y r + rect_h r \<and> ?l \<le> column div 16 \<and> column div 16 \<le> ?e
         then if bit (dw (row * raster + column div 16)) (nat (15 - column mod 16)) then BLACK_COLOR else NORMAL_COLOR
         else m_pBuffer (kern w) X Y)"
    by (simp add: f Let_def pixel_colour_def)
  ultimately show ?thesis by blast
qed

section \<open>The cursor\<close>

text \<open>What restoring the background and drawing the pointer leave alone.\<close>

definition same_screen :: "machine interp \<Rightarrow> machine interp \<Rightarrow> bool" where
  "same_screen s s' \<longleftrightarrow> (\<exists>k. s' = in_world (\<lambda>w. w\<lparr>kern := k\<rparr>) s)"

lemma same_screenI: "s' = in_world (\<lambda>w. w\<lparr>kern := k w\<rparr>) s \<Longrightarrow> same_screen s s'"
  by (auto simp: same_screen_def in_world_def)

lemma same_screen_trans: "same_screen s s' \<Longrightarrow> same_screen s' s'' \<Longrightarrow> same_screen s s''"
  by (auto simp: same_screen_def in_world_def)

lemma same_screen_fields:
  assumes "same_screen s s'"
  shows "memory s' = memory s" "prev_x (world s') = prev_x (world s)" "prev_y (world s') = prev_y (world s)"
    "display_width (world s') = display_width (world s)" "display_height (world s') = display_height (world s)"
    "getDisplayBits width height s' = getDisplayBits width height s"
  using assms by (auto simp: same_screen_def in_world_def getDisplayBits_def)

lemma restored_same: "same_screen s (in_world (restore_word pixels column y) s)"
  unfolding restore_word_def by (rule same_screenI) (rule refl)

text \<open>The word of a row of the cursor, and the one after it when the cursor is not at the start of a word.\<close>

definition row_readable :: "int \<Rightarrow> machine interp \<Rightarrow> nat \<Rightarrow> bool" where
  "row_readable bitmap s v =
     (let w = world s; i = prev_x w sdiv 16 + (prev_y w + int v) * ((display_width w + 15) sdiv 16)
      in prev_y w + int v \<ge> display_height w
         \<or> fetchWord i bitmap s \<noteq> None \<and> (prev_x w sdiv 16 = (prev_x w + 15) sdiv 16 \<or> fetchWord (i + 1) bitmap s \<noteq> None))"

lemma row_readable_same: "same_screen s s' \<Longrightarrow> row_readable bitmap s' = row_readable bitmap s"
  by (simp add: row_readable_def same_screen_fields fun_eq_iff Let_def)

lemma restore_row:
  "if row_readable bitmap s v then \<exists>t. same_screen s t \<and> restore_rows bitmap (v # vs) s = restore_rows bitmap vs t
   else restore_rows bitmap (v # vs) s = None"
proof -
  define y where "y = prev_y (world s) + int v"
  define l where "l = prev_x (world s) sdiv 16"
  define r where "r = (prev_x (world s) + 15) sdiv 16"
  define i where "i = l + y * ((display_width (world s) + 15) sdiv 16)"
  note names = y_def [symmetric] l_def [symmetric] r_def [symmetric] i_def [symmetric]
  have same: "same_screen s s" by (rule same_screenI [where k = kern]) (simp add: in_world_def)
  have m: "memory (in_world (restore_word a l y) s) = memory s" for a by (rule same_screen_fields(1), rule restored_same)
  have two: "same_screen s (in_world (restore_word b r y) (in_world (restore_word a l y) s))" for a b
    by (rule same_screen_trans [OF restored_same restored_same])
  have readable: "row_readable bitmap s v \<longleftrightarrow>
      y \<ge> display_height (world s) \<or> fetchWord i bitmap s \<noteq> None \<and> (l = r \<or> fetchWord (i + 1) bitmap s \<noteq> None)"
    by (simp add: row_readable_def names Let_def)
  have rows: "restore_rows bitmap (v # vs) s =
      (if y \<ge> display_height (world s) then restore_rows bitmap vs s
       else fetchWord i bitmap s \<bind> (\<lambda>a. if l = r then restore_rows bitmap vs (in_world (restore_word a l y) s)
              else fetchWord (i + 1) bitmap s \<bind>
                (\<lambda>b. restore_rows bitmap vs (in_world (restore_word b r y) (in_world (restore_word a l y) s)))))"
    by (simp only: restore_rows.simps Let_def names fetchWord_ofDisplayBits_def m)
  show ?thesis
    unfolding readable rows using same restored_same [of s _ l y] two
    by (cases "fetchWord i bitmap s"; cases "fetchWord (i + 1) bitmap s") auto
qed

lemma restore_rows_stops:
  "if \<forall>v \<in> set vs. row_readable bitmap s v then \<exists>s'. restore_rows bitmap vs s = Some s' \<and> same_screen s s'
   else restore_rows bitmap vs s = None"
proof (induction vs arbitrary: s)
  case Nil
  have "same_screen s s" by (rule same_screenI [where k = kern]) (simp add: in_world_def)
  then show ?case by simp
next
  case (Cons v vs)
  show ?case
  proof (cases "row_readable bitmap s v")
    case True
    then obtain t where t: "same_screen s t" "restore_rows bitmap (v # vs) s = restore_rows bitmap vs t"
      using restore_row [of bitmap s v vs] by auto
    show ?thesis unfolding t(2) using Cons.IH [of t] True same_screen_trans [OF t(1)]
      by (auto simp: row_readable_same [OF t(1)] split: if_splits)
  next
    case False
    then show ?thesis using restore_row [of bitmap s v vs] by auto
  qed
qed

text \<open>Rows of the display, when its bitmap has exactly the words of the display.\<close>

lemma row_readable_display:
  fixes s :: "machine interp"
  defines "w \<equiv> world s"
  assumes "\<And>i. fetchWord i bitmap s \<noteq> None \<longleftrightarrow> 0 \<le> i \<and> i < display_height w * ((display_width w + 15) div 16)"
    and "0 \<le> prev_x w" "prev_x w < display_width w" "0 \<le> prev_y w" "prev_y w < display_height w"
  shows "row_readable bitmap s v \<longleftrightarrow>
    \<not> (prev_x w mod 16 \<noteq> 0 \<and> prev_x w div 16 + 1 = (display_width w + 15) div 16 \<and> prev_y w + int v = display_height w - 1)"
proof -
  define raster where "raster = (display_width w + 15) div 16"
  define l where "l = prev_x w div 16"
  define y where "y = prev_y w + int v"
  have l: "0 \<le> l" "l + 1 \<le> raster" using assms(3,4) by (simp_all add: l_def raster_def)
  have y: "0 \<le> y" using assms(5) by (simp add: y_def)
  have d: "prev_x w sdiv 16 = l" "(display_width w + 15) sdiv 16 = raster" "(prev_x w + 15) sdiv 16 = (prev_x w + 15) div 16"
    using assms(3,4) by (simp_all add: sdiv_16 l_def raster_def)
  have odd: "l = (prev_x w + 15) div 16 \<longleftrightarrow> prev_x w mod 16 = 0" 
  proof
    show "prev_x w mod 16 = 0" if "l = (prev_x w + 15) div 16" using that mult_div_mod_eq [of 16 "prev_x w"]
        mult_div_mod_eq [of 16 "prev_x w + 15"] pos_mod_bound [of 16 "prev_x w + 15"] pos_mod_sign [of 16 "prev_x w"]
      unfolding l_def by linarith
    show "l = (prev_x w + 15) div 16" if "prev_x w mod 16 = 0" using that div_mult_mod_eq [of "prev_x w" 16]
        div_mult_self4 [of 16 "prev_x w div 16" 15] unfolding l_def by (simp add: mult.commute)
  qed
  have below: "l + y * raster + 1 \<le> y * raster + raster" "y * raster + raster = (y + 1) * raster"
    using l by (simp_all add: algebra_simps)
  have first: "0 \<le> l + y * raster \<and> l + y * raster < display_height w * raster" if "y < display_height w"
  proof -
    have "(y + 1) * raster \<le> display_height w * raster" using that l by (intro mult_right_mono) simp_all
    moreover have "0 \<le> y * raster" using l y by simp
    ultimately show ?thesis using below l by linarith
  qed
  have second: "l + y * raster + 1 < display_height w * raster \<longleftrightarrow> \<not> (l + 1 = raster \<and> y = display_height w - 1)"
    if "y < display_height w"
  proof (cases "y = display_height w - 1")
    case True
    then have "display_height w * raster = y * raster + raster" using below(2) by simp
    then show ?thesis using True l by auto
  next
    case False
    then have "(y + 2) * raster \<le> display_height w * raster" using that l by (intro mult_right_mono) simp_all
    moreover have "(y + 2) * raster = y * raster + raster + raster" by (simp add: algebra_simps)
    ultimately have "l + y * raster + 1 < display_height w * raster" using l by linarith
    then show ?thesis using False by blast
  qed
  show ?thesis
    unfolding row_readable_def Let_def w_def [symmetric] d assms(2)
    unfolding l_def [symmetric] raster_def [symmetric] y_def [symmetric] odd [unfolded l_def [symmetric]]
  proof (cases "y < display_height w")
    case True
    have logic: "A \<Longrightarrow> B \<Longrightarrow> \<not> C \<Longrightarrow> (C \<or> A \<and> (P \<or> B \<and> \<not> Q)) = (\<not> (\<not> P \<and> Q))" for A B C P Q by blast
    have "0 \<le> l + y * raster + 1" "\<not> display_height w \<le> y" using first [OF True] True by simp_all
    then show "(display_height w \<le> y \<or> (0 \<le> l + y * raster \<and> l + y * raster < display_height w * raster) \<and>
          (prev_x w mod 16 = 0 \<or> 0 \<le> l + y * raster + 1 \<and> l + y * raster + 1 < display_height w * raster)) =
        (\<not> (prev_x w mod 16 \<noteq> 0 \<and> l + 1 = raster \<and> y = display_height w - 1))"
      unfolding second [OF True] by (intro logic first [OF True])
  qed simp
qed

text \<open>C39: When the bitmap has exactly the words of the display, the cursor that was painted last stops the machine at the next
painting, which fails the check of \<open>fetchWord\<close>, if and only if it stood in the last column of words, not at its first pixel,
and less than sixteen rows above the bottom: there the word after the last word of the bitmap is read.\<close>

theorem cursor_stops_in_corner:
  assumes "update_cursor m_x m_y s = Some s1" "w = world s"
    and "getDisplayBits (display_width w) (display_height w) s = Some bitmap" "bitmap \<noteq> 0"
    and "\<And>i. fetchWord i bitmap s \<noteq> None \<longleftrightarrow> 0 \<le> i \<and> i < display_height w * ((display_width w + 15) div 16)"
    and "0 \<le> m_x" "m_x < display_width w" "0 \<le> m_y" "m_y < display_height w"
  shows "update_cursor x y s1 = None \<longleftrightarrow>
    m_x mod 16 \<noteq> 0 \<and> m_x div 16 + 1 = (display_width w + 15) div 16 \<and> display_height w - m_y \<le> 16"
proof -
  obtain s0 where s0: "restore_rows bitmap [0..<16] s = Some s0"
      "s1 = in_world (\<lambda>w. w\<lparr>kern := fold (draw_pointer_row m_x m_y w) [0..<16] (kern w), prev_x := m_x, prev_y := m_y\<rparr>) s0"
    using assms(1-4) by (auto simp: update_cursor_def bind_eq_Some_conv)
  have same: "same_screen s s0" using restore_rows_stops [of "[0..<16]" bitmap s] s0(1) by (auto split: if_splits)
  have w1: "prev_x (world s1) = m_x" "prev_y (world s1) = m_y" "display_width (world s1) = display_width w"
    "display_height (world s1) = display_height w" "memory s1 = memory s"
    using same_screen_fields [OF same] assms(2) by (simp_all add: s0(2) in_world_def)
  have bits: "getDisplayBits width height s1 = getDisplayBits width height s" for width height
    unfolding same_screen_fields(6) [OF same, symmetric] by (simp add: s0(2) in_world_def getDisplayBits_def)
  have stops: "update_cursor x y s1 = None \<longleftrightarrow> (\<exists>v \<in> set [0..<16]. \<not> row_readable bitmap s1 v)"
    using restore_rows_stops [of "[0..<16]" bitmap s1] assms(3,4)
    by (auto simp: update_cursor_def bits w1(3,4) split: if_splits)
  have row: "row_readable bitmap s1 v \<longleftrightarrow>
      \<not> (m_x mod 16 \<noteq> 0 \<and> m_x div 16 + 1 = (display_width w + 15) div 16 \<and> m_y + int v = display_height w - 1)" for v
    by (subst row_readable_display) (use assms(5-9) in \<open>simp_all add: w1\<close>)
  have v: "(\<exists>v \<in> set [0..<16]. m_y + int v = display_height w - 1) \<longleftrightarrow> display_height w - m_y \<le> 16"
  proof
    assume "display_height w - m_y \<le> 16"
    then show "\<exists>v \<in> set [0..<16]. m_y + int v = display_height w - 1"
      using assms(9) by (intro bexI [of _ "nat (display_height w - 1 - m_y)"]) auto
  qed auto
  show ?thesis unfolding stops row v [symmetric] by auto
qed

section \<open>A display for the examples\<close>

text \<open>The display 4 of 32 by 2 pixels: a form at word 0 whose bitmap 6 at word 10 has four words.  The first pixel and the last
of the second word are black.\<close>

definition ex_display_memory :: omem where
  "ex_display_memory = ex_omem\<lparr>cell := (\<lambda>s w.
     if s = 15 \<and> w = 7 then 10
     else if s = 0 then (if w = 0 then 3 else if w = 2 then 6 else if w = 10 then 6 else if w = 12 then 0x8000 else if w = 13 then 1 else 0)
     else 0)\<rparr>"

definition ex_display :: "machine interp" where
  "ex_display = (ex_vm ex_display_memory)\<lparr>currentDisplay := 4, currentDisplayWidth := 32, currentDisplayHeight := 2,
     world := ex_machine\<lparr>display_width := 32, display_height := 2, prev_x := 0, prev_y := 0,
       dirty_rect := \<lparr>rect_x = 5, rect_y = 0, rect_w = 20, rect_h = 1\<rparr>\<rparr>\<rparr>"

lemmas ex_display_simps = ex_display_def ex_vm_def ex_machine_def ex_kernel_def

lemma ex_display_bits: "currentDisplay s = 4 \<Longrightarrow> currentDisplayWidth s = 32 \<Longrightarrow> currentDisplayHeight s = 2 \<Longrightarrow>
    memory s = ex_display_memory \<Longrightarrow> getDisplayBits w h s = Some 6"
  by (simp add: getDisplayBits_def fetchPointer_ofObject_def fetchWordLengthOf_def sizeBitsOf_def heapChunkOf_word_def
      segmentBitsOf_def locationBitsOf_def ot_bits_to_def cantBeIntegerObject_def isIntegerObject_def segment_word_bits_to_def
      segment_word_def seg_ok_def ex_display_memory_def ex_omem_def sdiv_16)

lemma ex_display_words: "fetchWord_ofObject i 6 ex_display_memory =
    (if 0 \<le> i \<and> i < 4 then Some (if i = 0 then 0x8000 else if i = 1 then 1 else 0) else None)"
  by (simp add: fetchWord_ofObject_def fetchWordLengthOf_def sizeBitsOf_def heapChunkOf_word_def
      segmentBitsOf_def locationBitsOf_def ot_bits_to_def cantBeIntegerObject_def isIntegerObject_def segment_word_bits_to_def
      segment_word_def seg_ok_def ex_display_memory_def ex_omem_def)

text \<open>The pixel at the left edge of the first word, outside the rectangle, and the last of the second become black, the
others of the row white; the second row is not painted.\<close>

theorem texture_shows_display_witness:
  "\<exists>s'. update_texture ex_display = Some s' \<and> m_pBuffer (kern (world s')) 80 60 = BLACK_COLOR
     \<and> m_pBuffer (kern (world s')) 81 60 = NORMAL_COLOR \<and> m_pBuffer (kern (world s')) 111 60 = BLACK_COLOR
     \<and> m_pBuffer (kern (world s')) 80 61 = 0"
proof -
  have bits: "getDisplayBits (display_width (world ex_display)) (display_height (world ex_display)) ex_display = Some 6"
    by (rule ex_display_bits) (simp_all add: ex_display_simps)
  define dw where "dw = (\<lambda>i :: int. if i = 0 then 0x8000 else if i = 1 then (1 :: int) else 0)"
  have fields: "display_width (world ex_display) = 32" "display_height (world ex_display) = 2" "memory ex_display = ex_display_memory"
    "off_x (world ex_display) = 80" "off_y (world ex_display) = 60" "m_nWidth (kern (world ex_display)) = 800"
    "m_nHeight (kern (world ex_display)) = 600" "m_pBuffer (kern (world ex_display)) = (\<lambda>x y. 0)"
    "dirty_rect (world ex_display) = \<lparr>rect_x = 5, rect_y = 0, rect_w = 20, rect_h = 1\<rparr>"
    by (simp_all add: ex_display_simps)
  have readable: "fetchWord i 6 ex_display = Some (dw i)"
    if "0 \<le> i" "i < display_height (world ex_display) * ((display_width (world ex_display) + 15) div 16)" for i
    using that by (simp add: fields ex_display_words dw_def)
  have rect: "0 \<le> rect_x (dirty_rect (world ex_display))" "0 < rect_w (dirty_rect (world ex_display))"
    "rect_x (dirty_rect (world ex_display)) + rect_w (dirty_rect (world ex_display)) \<le> display_width (world ex_display)"
    "0 \<le> rect_y (dirty_rect (world ex_display))" "0 \<le> rect_h (dirty_rect (world ex_display))"
    "rect_y (dirty_rect (world ex_display)) + rect_h (dirty_rect (world ex_display)) \<le> display_height (world ex_display)"
    by (simp_all add: fields)
  have screen: "0 \<le> off_x (world ex_display)"
    "off_x (world ex_display) + 16 * ((display_width (world ex_display) + 15) div 16) \<le> uint (m_nWidth (kern (world ex_display)))"
    "0 \<le> off_y (world ex_display)"
    "off_y (world ex_display) + display_height (world ex_display) \<le> uint (m_nHeight (kern (world ex_display)))"
    "(6 :: int) \<noteq> 0"
    by (simp_all add: fields)
  show ?thesis
  proof (rule exE [OF texture_shows_display [OF bits screen(5) readable rect screen(1-4)]], assumption, assumption, goal_cases)
    case (1 pixels)
    note p = 1 [THEN conjunct2, rule_format, unfolded fields Let_def]
    have "pixels 80 60 = BLACK_COLOR" "pixels 81 60 = NORMAL_COLOR" "pixels 111 60 = BLACK_COLOR" "pixels 80 61 = 0"
      by (simp_all add: p dw_def)
    then show ?case by (simp add: 1 [THEN conjunct1] in_world_def)
  qed
qed

text \<open>The cursor at the pixel before the last of the second word: the next painting stops the machine; at the first pixel of
that word it does not.\<close>

theorem cursor_stops_in_corner_witness:
  "\<exists>s s'. update_cursor 30 0 ex_display = Some s \<and> update_cursor 0 0 s = None
     \<and> update_cursor 16 0 ex_display = Some s' \<and> update_cursor 0 0 s' \<noteq> None"
proof -
  have bits: "getDisplayBits (display_width (world ex_display)) (display_height (world ex_display)) ex_display = Some 6"
    by (rule ex_display_bits) (simp_all add: ex_display_simps)
  have "\<forall>v \<in> set [0..<16]. row_readable 6 ex_display v"
    by (simp add: row_readable_def ex_display_simps ex_display_words sdiv_16 Let_def)
  then have moves: "\<exists>s. update_cursor x y ex_display = Some s" for x y
    using restore_rows_stops [of "[0..<16]" 6 ex_display] bits by (auto simp: update_cursor_def split: if_splits)
  obtain s s' where s: "update_cursor 30 0 ex_display = Some s" "update_cursor 16 0 ex_display = Some s'" using moves by blast
  have "update_cursor 0 0 s = None" "update_cursor 0 0 s' \<noteq> None"
    using cursor_stops_in_corner [OF s(1) refl bits] cursor_stops_in_corner [OF s(2) refl bits]
    by (simp_all add: ex_display_simps ex_display_words)
  then show ?thesis using s by blast
qed

end
