(* ===== verification/VmMouseProps.thy ===== *)
theory VmMouseProps
  imports VmRun VmInputProps
begin

text \<open>
  Mouse and keyboard below the input queue: what reports of the devices keep of the driver and the kernel, and why a change
  of the buttons is always the change of one that the image knows.
\<close>

text \<open>The buttons as the image knows them: the driver numbers the middle and the right button the other way round, and has
two more.\<close>

definition reported :: "DWORD \<Rightarrow> DWORD" where
  "reported b = (if bit b 0 then 1 else 0) OR (if bit b 2 then 2 else 0) OR (if bit b 1 then 4 else 0)"

definition mouse_ok :: "kernel \<Rightarrow> bool" where
  "mouse_ok k \<longleftrightarrow> mb_nPosX k < mb_nScreenWidth k \<and> mb_nPosY k < mb_nScreenHeight k \<and> m_nButtons k = reported (mb_nButtons k)"

lemma MouseEventHandler_fields [simp]:
  "mb_nPosX (MouseEventHandler e b x y z k) = mb_nPosX k" "mb_nPosY (MouseEventHandler e b x y z k) = mb_nPosY k"
  "mb_nScreenWidth (MouseEventHandler e b x y z k) = mb_nScreenWidth k"
  "mb_nScreenHeight (MouseEventHandler e b x y z k) = mb_nScreenHeight k"
  "mb_nButtons (MouseEventHandler e b x y z k) = mb_nButtons k"
  "m_nPosX (MouseEventHandler e b x y z k) = sint x" "m_nPosY (MouseEventHandler e b x y z k) = sint y"
  by (cases e; simp add: MouseEventHandler_def Let_def)+

lemma MouseEventHandler_quiet [simp]:
  "m_nButtons (MouseEventHandler MouseEventMouseMove b x y z k) = m_nButtons k"
  "m_nButtons (MouseEventHandler MouseEventMouseWheel b x y z k) = m_nButtons k"
  by (simp_all add: MouseEventHandler_def)

lemma button_events_fields [simp]:
  "mb_nPosX (button_events ns b z k) = mb_nPosX k" "mb_nPosY (button_events ns b z k) = mb_nPosY k"
  "mb_nScreenWidth (button_events ns b z k) = mb_nScreenWidth k"
  "mb_nScreenHeight (button_events ns b z k) = mb_nScreenHeight k"
  "mb_nButtons (button_events ns b z k) = mb_nButtons k"
  by (induction ns arbitrary: k) (simp_all add: Let_def)

text \<open>One button after the other.\<close>

lemma mask_bit: "(b :: DWORD) AND push_bit n 1 \<noteq> 0 \<longleftrightarrow> bit b n"
  by (simp add: bit_iff_and_push_bit_not_eq_0)

definition button_step :: "nat \<Rightarrow> DWORD \<Rightarrow> DWORD \<Rightarrow> DWORD \<Rightarrow> DWORD" where
  "button_step n old new b =
     (let m = (if n = 0 then 1 else if n = 2 then 2 else if n = 1 then 4 else 0)
      in if \<not> bit old n \<and> bit new n then b OR m else if bit old n \<and> \<not> bit new n then b AND NOT m else b)"

lemma handler_step:
  assumes "n < 5" "old = bit (mb_nButtons k) n" "new = bit nButtons n"
  shows "m_nButtons (if \<not> old \<and> new then MouseEventHandler MouseEventMouseDown (push_bit n 1) x y z k
      else if old \<and> \<not> new then MouseEventHandler MouseEventMouseUp (push_bit n 1) x y z k else k) =
    button_step n (mb_nButtons k) nButtons (m_nButtons k)"
proof -
  have "n \<in> {0, 1, 2, 3, 4}" using assms(1) by auto
  then show ?thesis
    by (auto simp: assms(2,3) MouseEventHandler_def button_step_def press_def release_def Let_def)
qed

lemma button_events_fold:
  "set ns \<subseteq> {..<5} \<Longrightarrow>
     m_nButtons (button_events ns new z k) = fold (\<lambda>n. button_step n (mb_nButtons k) new) ns (m_nButtons k)"
proof (induction ns arbitrary: k)
  case (Cons n ns)
  have n: "n < 5" using Cons.prems by simp
  show ?case
    unfolding button_events.simps Let_def mask_bit
    by (subst Cons.IH) (use Cons.prems handler_step [OF n refl refl] in \<open>simp_all add: if_distrib [where f = mb_nButtons]\<close>)
qed simp

lemma five: "set [0, 1, 2, 3, 4] \<subseteq> {..<5 :: nat}"
  by simp

lemma all_buttons: "fold (\<lambda>n. button_step n old new) [0, 1, 2, 3, 4] (reported old) = reported new"
  by (cases "bit old 0"; cases "bit old 1"; cases "bit old 2"; cases "bit new 0"; cases "bit new 1"; cases "bit new 2")
    (simp_all add: reported_def button_step_def)

lemma move_coordinate_inside: "pos < extent \<Longrightarrow> move_coordinate d extent pos < extent"
  by (auto simp: move_coordinate_def Let_def)

text \<open>The state of the mouse after a report of the device.\<close>

lemma mouse_report:
  assumes "mouse_ok k"
  shows "mouse_ok (MouseStatusChanged nButtons dx dy wheel k) \<and> mb_nButtons (MouseStatusChanged nButtons dx dy wheel k) = nButtons"
proof -
  have "mb_nScreenWidth k \<noteq> 0" "mb_nScreenHeight k \<noteq> 0" using assms by (auto simp: mouse_ok_def)
  moreover have "m_nButtons (button_events [0, 1, 2, 3, 4] nButtons wheel k') = reported nButtons"
    if "m_nButtons k' = reported (mb_nButtons k')" for k'
    unfolding button_events_fold [OF five] that all_buttons ..
  ultimately show ?thesis
    using assms by (auto simp: mouse_ok_def MouseStatusChanged_def Let_def move_coordinate_inside simp del: button_events.simps)
qed

text \<open>What a list of reports leaves.\<close>

definition last_buttons :: "report list \<Rightarrow> DWORD \<Rightarrow> DWORD" where
  "last_buttons rs b = fold (\<lambda>r b. case r of Mouse buttons dx dy wheel \<Rightarrow> buttons | Key str \<Rightarrow> b) rs b"

definition last_key :: "report list \<Rightarrow> BYTE list \<Rightarrow> BYTE list" where
  "last_key rs s = fold (\<lambda>r s. case r of Mouse buttons dx dy wheel \<Rightarrow> s | Key str \<Rightarrow> takeWhile (\<lambda>c. c \<noteq> 0) str) rs s"

lemma key_after_mouse: "m_CookedKeySeq (MouseStatusChanged nButtons dx dy wheel k) = m_CookedKeySeq k"
proof -
  have h: "m_CookedKeySeq (MouseEventHandler e b x y z k) = m_CookedKeySeq k" for e b x y z k
    by (cases e) (simp_all add: MouseEventHandler_def Let_def)
  have "m_CookedKeySeq (button_events ns b z k) = m_CookedKeySeq k" for ns b z k
    by (induction ns arbitrary: k) (simp_all add: h Let_def)
  then show ?thesis by (simp add: MouseStatusChanged_def Let_def h del: button_events.simps)
qed

lemma key_report:
  assumes "length (takeWhile (\<lambda>c. c \<noteq> 0) str) < 6" "mouse_ok k"
  shows "\<exists>k'. KeyPressedHandler str k = Some k' \<and> mouse_ok k' \<and> mb_nButtons k' = mb_nButtons k
    \<and> takeWhile (\<lambda>c. c \<noteq> 0) (m_CookedKeySeq k') = takeWhile (\<lambda>c. c \<noteq> 0) str"
proof -
  have "\<forall>c \<in> set (takeWhile (\<lambda>c. c \<noteq> 0) str). c \<noteq> 0" by (auto dest: set_takeWhileD)
  then show ?thesis using assms by (simp add: KeyPressedHandler_def mouse_ok_def Let_def takeWhile_append)
qed

lemma take_report_keeps:
  assumes "mouse_ok k" "\<And>str. r = Key str \<Longrightarrow> length (takeWhile (\<lambda>c. c \<noteq> 0) str) < 6"
  shows "\<exists>k'. take_report r k = Some k' \<and> mouse_ok k' \<and> mb_nButtons k' = last_buttons [r] (mb_nButtons k)
    \<and> takeWhile (\<lambda>c. c \<noteq> 0) (m_CookedKeySeq k') = last_key [r] (takeWhile (\<lambda>c. c \<noteq> 0) (m_CookedKeySeq k))"
  using mouse_report [OF assms(1)] key_report assms
  by (cases r) (simp_all add: take_report_def last_buttons_def last_key_def key_after_mouse)

text \<open>Of two states of the buttons that differ, one of the three differs.\<close>

lemma reported_changes: "reported a \<noteq> reported b \<Longrightarrow> changed_button (reported a) (reported b) \<noteq> None"
  by (cases "bit a 0"; cases "bit a 1"; cases "bit a 2"; cases "bit b 0"; cases "bit b 1"; cases "bit b 2")
    (simp_all add: reported_def changed_button_def)

text \<open>C40: Whatever the mouse and the keyboard report between two frames, with key strings of at most five characters, the
driver keeps its position on the screen, and the kernel shows the buttons that the last report shows, in the numbering of the
image; of the keys only the last is there.  When the buttons have changed, one of the three that \<open>process_events\<close> looks at
has, and so its variable is initialised.\<close>

theorem reports_keep_mouse:
  assumes "mouse_ok k" "\<And>str. Key str \<in> set rs \<Longrightarrow> length (takeWhile (\<lambda>c. c \<noteq> 0) str) < 6"
  shows "\<exists>k'. take_reports rs k = Some k' \<and> mouse_ok k' \<and> m_nButtons k' = reported (last_buttons rs (mb_nButtons k))
    \<and> fst (GetCookedKeyboardKey k') = last_key rs (takeWhile (\<lambda>c. c \<noteq> 0) (m_CookedKeySeq k)) @ [0]
    \<and> (m_nButtons k' = m_nButtons k \<or> changed_button (m_nButtons k') (m_nButtons k) \<noteq> None)"
proof -
  have "\<exists>k'. take_reports rs k = Some k' \<and> mouse_ok k' \<and> mb_nButtons k' = last_buttons rs (mb_nButtons k)
      \<and> takeWhile (\<lambda>c. c \<noteq> 0) (m_CookedKeySeq k') = last_key rs (takeWhile (\<lambda>c. c \<noteq> 0) (m_CookedKeySeq k))"
    using assms
  proof (induction rs arbitrary: k)
    case Nil
    then show ?case by (simp add: last_buttons_def last_key_def)
  next
    case (Cons r rs)
    obtain k1 where k1: "take_report r k = Some k1" "mouse_ok k1" "mb_nButtons k1 = last_buttons [r] (mb_nButtons k)"
        "takeWhile (\<lambda>c. c \<noteq> 0) (m_CookedKeySeq k1) = last_key [r] (takeWhile (\<lambda>c. c \<noteq> 0) (m_CookedKeySeq k))"
      using take_report_keeps [OF Cons.prems(1), of r] Cons.prems(2) by auto
    then show ?case using Cons.IH [OF k1(2)] Cons.prems(2) by (simp add: last_buttons_def last_key_def)
  qed
  then show ?thesis
    using assms(1) reported_changes by (fastforce simp: mouse_ok_def GetCookedKeyboardKey_def)
qed

text \<open>The example: the right button goes down while the left one is held, two keys are pressed, the left button goes up.\<close>

theorem reports_keep_mouse_witness:
  "\<exists>k'. take_reports [Mouse 3 10 0 0, Key [0x62, 0], Key [0x63, 0], Mouse 2 0 5 0] ex_kernel = Some k'
     \<and> m_nButtons k' = 4 \<and> fst (GetCookedKeyboardKey k') = [0x63, 0] \<and> mouse_ok k'"
proof -
  define rs where "rs = [Mouse 3 10 0 0, Key [0x62, 0], Key [0x63, 0], Mouse 2 0 5 0]"
  have "mouse_ok ex_kernel" by (simp add: mouse_ok_def ex_kernel_def reported_def)
  moreover have "length (takeWhile (\<lambda>c. c \<noteq> 0) str) < 6" if "Key str \<in> set rs" for str
    using that by (auto simp: rs_def)
  moreover have "reported (last_buttons rs b) = 4" "last_key rs s = [0x63]" for b s
    by (simp_all add: rs_def last_buttons_def last_key_def reported_def)
  ultimately show ?thesis
    using reports_keep_mouse [of ex_kernel rs] unfolding rs_def [symmetric] by fastforce
qed

end
